(* ===== verification/Prelude.thy ===== *)
theory Prelude
  imports Main "HOL-Library.Word"
begin

text \<open>
  What the components share: the names of the C integer types, the collections of
  rewrite rules the component proofs use, and lemmas on words, lists and function
  updates that are about no component in particular.

  The program is built for Alpha with \<open>unsigned char\<close>, \<open>short\<close>, \<open>int\<close> and
  \<open>long\<close> of 8, 16, 32 and 64 bits (\<open>video/x86/host.h\<close>); a value of such a type is
  a word of that width, and a C conversion between two of them is \<open>ucast\<close> (or \<open>scast\<close>
  from a signed type).
\<close>

unbundle bit_operations_syntax

type_synonym u8 = "8 word"
type_synonym u16 = "16 word"
type_synonym u32 = "32 word"
type_synonym u64 = "64 word"

named_theorems word_to_nat \<open>moving word arithmetic to \<open>nat\<close>\<close>
named_theorems bit_eval \<open>single bits of word expressions\<close>

subsection \<open>Words as natural numbers\<close>

lemma unat_add_no_wrap [word_to_nat]:
  fixes x y :: "'a::len word"
  assumes "unat x + unat y < 2 ^ LENGTH('a)"
  shows "unat (x + y) = unat x + unat y"
  using assms by (simp add: unat_word_ariths)

lemma unat_sub_no_wrap [word_to_nat]:
  fixes x y :: "'a::len word"
  assumes "unat y \<le> unat x"
  shows "unat (x - y) = unat x - unat y"
  using assms by (simp add: unat_sub word_le_nat_alt)

lemma word_eq_iff_unat: "x = y \<longleftrightarrow> unat x = unat y"
  for x y :: "'a::len word"
  by (metis word_unat_eq_iff)

lemma unat_mod: "unat (x mod y) = unat x mod unat y"
  for x y :: "'a::len word"
  by (rule unat_mod_distrib)

lemma unat_2p [word_to_nat]:
  assumes "n < LENGTH('a)"
  shows "unat (2 ^ n :: 'a::len word) = 2 ^ n"
proof -
  have "unat (of_nat (2 ^ n) :: 'a word) = 2 ^ n mod 2 ^ LENGTH('a)"
    by (rule unat_of_nat)
  also have "\<dots> = 2 ^ n"
    using assms by (simp add: power_strict_increasing)
  finally show ?thesis by simp
qed

lemma unat_of_nat_small [word_to_nat]:
  assumes "n < 2 ^ LENGTH('a)"
  shows "unat (of_nat n :: 'a::len word) = n"
  using assms by (simp add: unat_of_nat)

lemma unat_drop_bit [word_to_nat]: "unat (drop_bit n w) = unat w div 2 ^ n"
  for w :: "'a::len word"
  by (metis unat_drop_bit_eq drop_bit_eq_div)

lemma unat_ucast_mod: "unat (ucast w :: 'b::len word) = unat w mod 2 ^ LENGTH('b)"
  for w :: "'a::len word"
  by (simp only: unsigned_ucast_eq take_bit_eq_mod)

lemma of_nat_unat_ucast: "of_nat (unat w) = (ucast w :: 'b::len word)"
  for w :: "'a::len word"
  by (simp add: word_eq_iff_unat unat_ucast_mod unat_of_nat)

lemma unat_and_mask: "unat (w AND mask n) = unat w mod 2 ^ n"
  for w :: "'a::len word"
  by (metis unsigned_take_bit_eq take_bit_eq_mod take_bit_eq_mask)

text \<open>Clearing the low \<open>n\<close> bits rounds down to a multiple of \<open>2 ^ n\<close>.\<close>

lemma unat_and_not_mask:
  fixes x :: "'a::len word"
  shows "unat (x AND NOT (mask n)) = unat x - unat x mod 2 ^ n"
proof -
  have "(x AND NOT (mask n)) + (x AND mask n) = (x AND NOT (mask n)) OR (x AND mask n)"
    by (rule disjunctive_add_eq_or) (rule bit_eqI, auto simp: bit_simps)
  also have "\<dots> = x" by (rule bit_eqI) (auto simp: bit_simps)
  finally have "x AND NOT (mask n) = x - (x AND mask n)" by (metis add_diff_cancel_right')
  moreover have "unat (x AND mask n) \<le> unat x"
    by (simp add: word_and_le1 word_and_le2 word_le_nat_alt [symmetric])
  moreover have "unat (x AND mask n) = unat x mod 2 ^ n"
    by (metis unsigned_take_bit_eq take_bit_eq_mod take_bit_eq_mask)
  ultimately show ?thesis
    by (simp add: unat_sub_no_wrap)
qed

lemma round_down_le: "x - x mod n \<le> (x::nat)"
  by simp

lemma round_down_dvd: "n dvd x - x mod (n::nat)"
  by (simp add: minus_mod_eq_mult_div)

text \<open>Rounding up to a multiple of \<open>n\<close> gives the least multiple not below \<open>x\<close>.\<close>

lemma round_up_ge:
  fixes x n :: nat
  assumes "0 < n"
  shows "x \<le> (x + (n - 1)) - (x + (n - 1)) mod n"
  using mod_less_divisor [OF assms, of "x + (n - 1)"] assms by linarith

lemma round_up_least:
  fixes x n p :: nat
  assumes "0 < n" and "x \<le> p" and "n dvd p"
  shows "(x + (n - 1)) - (x + (n - 1)) mod n \<le> p"
proof -
  obtain k where k: "p = n * k" using \<open>n dvd p\<close> by blast
  have "(x + (n - 1)) div n \<le> (n * k + (n - 1)) div n"
    using \<open>x \<le> p\<close> k by (simp add: div_le_mono)
  also have "\<dots> = k"
    using \<open>0 < n\<close> by (metis add_cancel_left_right diff_less div_less div_mult_self4
        less_numeral_extra(1) not_gr_zero)
  finally have "n * ((x + (n - 1)) div n) \<le> n * k" by (rule mult_le_mono2)
  then show ?thesis by (simp only: minus_mod_eq_mult_div k)
qed

lemma div_add_small:
  fixes a b c :: nat
  assumes "b dvd a" "c < b"
  shows "(a + c) div b = a div b"
  using assms by (auto elim!: dvdE)

subsection \<open>Sequences of operations\<close>

text \<open>One operation for each argument of a list, and the results in order.\<close>

fun in_turn :: "('k \<Rightarrow> 's \<Rightarrow> 'r \<times> 's) \<Rightarrow> 'k list \<Rightarrow> 's \<Rightarrow> 'r list \<times> 's" where
  "in_turn f [] s = ([], s)"
| "in_turn f (k # ks) s = (let (r, s1) = f k s; (rs, s2) = in_turn f ks s1 in (r # rs, s2))"

end
