(* ===== verification/PageMap.thy ===== *)
theory PageMap
  imports Prelude
begin

text \<open>
  The page-frame allocator of \<open>memory.c\<close>. The map \<open>milo_memory_map\<close> holds one byte per
  page frame, which is \<open>FREE_PAGE\<close> or the kind of its owner; a frame number is an
  \<open>unsigned int\<close>. The map is a total function from the offset to the byte found there, so a
  write past the frames in use would be a visible change of the model and not a lost one.
  \<open>error\<close> (\<open>support.c\<close>) prints, waits for a key and halts: it is the value
  \<open>Inl\<close> of the result.
\<close>

datatype mem_error = Not_enough_memory

definition FREE_PAGE :: u8 where "FREE_PAGE = 0"
definition ALLOCATED_PAGE :: u8 where "ALLOCATED_PAGE = 2"
definition TEMPORARY_PAGE :: u8 where "TEMPORARY_PAGE = 4"

record page_map =
  milo_memory_map :: "nat \<Rightarrow> u8"
  lastpfn :: u32

subsection \<open>The operations\<close>

text \<open>The loop \<open>for (block_size = 1; block_size < 512; block_size += block_size)\<close>.\<close>

definition find_block_size :: "u32 \<Rightarrow> u32" where
  "find_block_size count =
     (case find (\<lambda>bs. count \<le> bs) [1, 2, 4, 8, 16, 32, 64, 128, 256] of
        Some bs \<Rightarrow> bs | None \<Rightarrow> 512)"

text \<open>The scan for a busy page among \<open>n\<close> pages from \<open>p\<close>; the index where it stops.\<close>

fun first_busy :: "(nat \<Rightarrow> u8) \<Rightarrow> nat \<Rightarrow> nat \<Rightarrow> nat" where
  "first_busy page p 0 = p"
| "first_busy page p (Suc n) = (if page p \<noteq> FREE_PAGE then p else first_busy page (Suc p) n)"

text \<open>Where the search goes on after the busy page \<open>first\<close>.\<close>

definition next_candidate :: "u32 \<Rightarrow> u32 \<Rightarrow> nat \<Rightarrow> u32" where
  "next_candidate block_size count_remainder first =
     (let pfn = of_nat first + 1;
          pfn_start_aligned = (pfn + (block_size - 1)) AND NOT (block_size - 1);
          pfn_end_aligned = pfn_start_aligned - count_remainder
      in if pfn_end_aligned < pfn then pfn_start_aligned else pfn_end_aligned)"

text \<open>
  The search loop: \<open>None\<close> would be a loop that never ends, \<open>Some None\<close> is the loop left
  with nothing found.
\<close>

partial_function (option) search_pfn ::
  "(nat \<Rightarrow> u8) \<Rightarrow> u32 \<Rightarrow> u32 \<Rightarrow> u32 \<Rightarrow> u32 \<Rightarrow> u32 \<Rightarrow> u32 option option" where
  "search_pfn page lastp count block_size count_remainder pfn =
     (if pfn \<le> lastp \<and> pfn + count \<le> lastp + 1
      then if first_busy page (unat pfn) (unat count) \<noteq> unat pfn + unat count
           then search_pfn page lastp count block_size count_remainder
                  (next_candidate block_size count_remainder
                     (first_busy page (unat pfn) (unat count)))
           else Some (Some pfn)
      else Some None)"

text \<open>\<open>mark_many_pfn\<close>, and the \<open>memset\<close> of \<open>allocate_many_pfn\<close>.\<close>

fun mark_from :: "(nat \<Rightarrow> u8) \<Rightarrow> nat \<Rightarrow> nat \<Rightarrow> u8 \<Rightarrow> (nat \<Rightarrow> u8)" where
  "mark_from page p 0 type = page"
| "mark_from page p (Suc n) type = mark_from (page(p := type)) (Suc p) n type"

definition mark_many_pfn :: "u32 \<Rightarrow> u32 \<Rightarrow> u8 \<Rightarrow> page_map \<Rightarrow> page_map" where
  "mark_many_pfn pfn count type m =
     (if sint count \<le> 0 then m
      else m\<lparr>milo_memory_map := mark_from (milo_memory_map m) (unat pfn) (unat count) type\<rparr>)"

definition allocate_many_pfn ::
  "u32 \<Rightarrow> u8 \<Rightarrow> page_map \<Rightarrow> (mem_error + u32 \<times> page_map) option" where
  "allocate_many_pfn count type m =
     (case search_pfn (milo_memory_map m) (lastpfn m) count (find_block_size count)
             (count mod 512) 0 of
        None \<Rightarrow> None
      | Some None \<Rightarrow> Some (Inl Not_enough_memory)
      | Some (Some pfn) \<Rightarrow>
          Some (Inr (pfn, m\<lparr>milo_memory_map :=
            mark_from (milo_memory_map m) (unat pfn) (unat count) type\<rparr>)))"

text \<open>\<open>allocate_pfn\<close>: the first free page of \<open>0 .. lastpfn\<close>.\<close>

definition allocate_pfn :: "u8 \<Rightarrow> page_map \<Rightarrow> mem_error + u32 \<times> page_map" where
  "allocate_pfn type m =
     (case find (\<lambda>p. milo_memory_map m p = FREE_PAGE) [0..<unat (lastpfn m + 1)] of
        Some p \<Rightarrow> Inr (of_nat p, m\<lparr>milo_memory_map := (milo_memory_map m)(p := type)\<rparr>)
      | None \<Rightarrow> Inl Not_enough_memory)"


subsection \<open>The scan and the marks\<close>

lemma first_busy_bounds: "p \<le> first_busy page p n \<and> first_busy page p n \<le> p + n"
  by (induction page p n rule: first_busy.induct) auto

lemma first_busy_free: "p \<le> q \<Longrightarrow> q < first_busy page p n \<Longrightarrow> page q = FREE_PAGE"
proof (induction page p n rule: first_busy.induct)
  case (2 page p n)
  then show ?case by (cases "q = p") (auto split: if_splits)
qed simp

lemma first_busy_busy:
  "first_busy page p n \<noteq> p + n \<Longrightarrow> page (first_busy page p n) \<noteq> FREE_PAGE"
  by (induction page p n rule: first_busy.induct) auto

lemma mark_from_apply [simp]:
  "mark_from page p n type q = (if p \<le> q \<and> q < p + n then type else page q)"
  by (induction page p n type rule: mark_from.induct) (auto simp: fun_upd_def)

lemma free_not_owner [simp]:
  "ALLOCATED_PAGE \<noteq> FREE_PAGE" "TEMPORARY_PAGE \<noteq> FREE_PAGE"
  by (simp_all add: FREE_PAGE_def ALLOCATED_PAGE_def TEMPORARY_PAGE_def)

subsection \<open>Block size and alignment\<close>

lemma find_block_size_power:
  "\<exists>k\<le>9. find_block_size count = 2 ^ k \<and> (count \<le> 512 \<longrightarrow> count \<le> 2 ^ k) \<and>
     (\<not> count \<le> 512 \<longrightarrow> k = 9)"
proof -
  consider "count \<le> 1" | "\<not> count \<le> 1" "count \<le> 2" | "\<not> count \<le> 2" "count \<le> 4"
    | "\<not> count \<le> 4" "count \<le> 8" | "\<not> count \<le> 8" "count \<le> 16" | "\<not> count \<le> 16" "count \<le> 32"
    | "\<not> count \<le> 32" "count \<le> 64" | "\<not> count \<le> 64" "count \<le> 128"
    | "\<not> count \<le> 128" "count \<le> 256" | "\<not> count \<le> 256"
    by blast
  then show ?thesis
  proof cases
    case 1 then show ?thesis by (intro exI [of _ 0]) (auto simp: find_block_size_def word_le_nat_alt)
  next
    case 2 then show ?thesis by (intro exI [of _ 1]) (auto simp: find_block_size_def word_le_nat_alt)
  next
    case 3 then show ?thesis by (intro exI [of _ 2]) (auto simp: find_block_size_def word_le_nat_alt)
  next
    case 4 then show ?thesis by (intro exI [of _ 3]) (auto simp: find_block_size_def word_le_nat_alt)
  next
    case 5 then show ?thesis by (intro exI [of _ 4]) (auto simp: find_block_size_def word_le_nat_alt)
  next
    case 6 then show ?thesis by (intro exI [of _ 5]) (auto simp: find_block_size_def word_le_nat_alt)
  next
    case 7 then show ?thesis by (intro exI [of _ 6]) (auto simp: find_block_size_def word_le_nat_alt)
  next
    case 8 then show ?thesis by (intro exI [of _ 7]) (auto simp: find_block_size_def word_le_nat_alt)
  next
    case 9 then show ?thesis by (intro exI [of _ 8]) (auto simp: find_block_size_def word_le_nat_alt)
  next
    case 10 then show ?thesis by (intro exI [of _ 9]) (auto simp: find_block_size_def word_le_nat_alt)
  qed
qed


text \<open>
  The next candidate: past the busy page, and not past any block boundary beyond it. The
  subtraction of \<open>count_remainder\<close> does not wrap, since the remainder is at most a block.
\<close>

lemma next_candidate_bounds:
  assumes bs: "block_size = 2 ^ k" "k \<le> 9" and rem: "unat count_remainder \<le> 2 ^ k"
    and small: "first + 1024 < 2 ^ 32"
  shows "first < unat (next_candidate block_size count_remainder first)" (is ?gt)
    and "2 ^ k dvd p \<Longrightarrow> first < p \<Longrightarrow> unat (next_candidate block_size count_remainder first) \<le> p"
    and "unat (next_candidate block_size count_remainder first) \<le> first + 1024"
proof -
  let ?n = "2 ^ k :: nat"
  have k9: "?n \<le> 512"
  proof -
    have "?n \<le> 2 ^ 9" using \<open>k \<le> 9\<close> by (intro power_increasing) auto
    then show ?thesis by simp
  qed
  have n0: "0 < ?n" by simp
  have ubs: "unat block_size = ?n"
    unfolding bs by (rule unat_2p) (use \<open>k \<le> 9\<close> in simp)
  have mask: "block_size - 1 = mask k" by (simp add: bs mask_eq_exp_minus_1)
  define a where "a = (first + 1 + (?n - 1)) - (first + 1 + (?n - 1)) mod ?n"
  have a_ge: "first + 1 \<le> a" unfolding a_def by (rule round_up_ge) (rule n0)
  have a_le: "a \<le> first + 1 + ?n" unfolding a_def by linarith
  have "?n dvd a" unfolding a_def by (rule round_down_dvd)
  with a_ge have "?n \<le> a" by (intro dvd_imp_le) auto
  have u1: "unat (of_nat first + 1 :: u32) = first + 1"
    using small by (simp add: word_to_nat)
  have um: "unat (mask k :: u32) = ?n - 1"
    using unat_sub_no_wrap [of 1 block_size] ubs mask by simp
  have usa: "unat ((of_nat first + 1 + mask k) AND NOT (mask k :: u32)) = a"
    using small k9 u1 um by (simp add: unat_and_not_mask unat_add_no_wrap a_def)
  have uea: "unat (((of_nat first + 1 + mask k) AND NOT (mask k :: u32)) - count_remainder)
      = a - unat count_remainder"
    using usa rem \<open>?n \<le> a\<close> by (subst unat_sub_no_wrap) auto
  have nc: "unat (next_candidate block_size count_remainder first)
      = (if a - unat count_remainder < first + 1 then a else a - unat count_remainder)"
    using u1 usa uea by (simp add: next_candidate_def Let_def mask word_less_nat_alt)
  show ?gt using nc a_ge by auto
  show "unat (next_candidate block_size count_remainder first) \<le> first + 1024"
    using nc a_le k9 by auto
  assume "2 ^ k dvd p" "first < p"
  then have "a \<le> p" unfolding a_def by (intro round_up_least n0) auto
  then show "unat (next_candidate block_size count_remainder first) \<le> p"
    using nc by auto
qed

text \<open>
  The search ends, with free pages where it succeeds, and it succeeds whenever an aligned
  run of free pages exists.
\<close>

definition free_run :: "(nat \<Rightarrow> u8) \<Rightarrow> nat \<Rightarrow> nat \<Rightarrow> bool" where
  "free_run page p n \<longleftrightarrow> (\<forall>q. p \<le> q \<and> q < p + n \<longrightarrow> page q = FREE_PAGE)"

lemma first_busy_eq_end: "first_busy page p n = p + n \<longleftrightarrow> free_run page p n"
  unfolding free_run_def
  by (metis first_busy_bounds first_busy_busy first_busy_free le_neq_implies_less)

definition search_post ::
  "(nat \<Rightarrow> u8) \<Rightarrow> nat \<Rightarrow> nat \<Rightarrow> nat \<Rightarrow> nat \<Rightarrow> u32 option \<Rightarrow> bool" where
  "search_post page l c n s r \<longleftrightarrow>
     (case r of
        Some p \<Rightarrow> s \<le> unat p \<and> unat p + c \<le> l + 1 \<and> free_run page (unat p) c
      | None \<Rightarrow> \<forall>p. n dvd p \<longrightarrow> s \<le> p \<longrightarrow> p + c \<le> l + 1 \<longrightarrow> 0 < c \<longrightarrow> \<not> free_run page p c)"

lemma search_pfn_total:
  assumes bs: "block_size = 2 ^ k" "k \<le> 9" and rem: "unat count_remainder \<le> 2 ^ k"
    and last: "unat lastp < 2 ^ 31" and count: "unat count < 2 ^ 31 - 1024"
  shows "\<exists>r. search_pfn page lastp count block_size count_remainder pfn = Some r \<and>
    search_post page (unat lastp) (unat count) (2 ^ k) (unat pfn) r"
proof (induction "unat lastp + 1 - unat pfn" arbitrary: pfn rule: less_induct)
  case less
  let ?l = "unat lastp" and ?c = "unat count" and ?s = "unat pfn"
  let ?f = "first_busy page ?s ?c"
  show ?case
  proof (cases "pfn \<le> lastp \<and> pfn + count \<le> lastp + 1")
    case False
    have "\<not> (?s \<le> ?l \<and> ?s + ?c \<le> ?l + 1)"
      using False last count by (auto simp: word_le_nat_alt unat_add_no_wrap)
    then have "search_post page ?l ?c (2 ^ k) ?s None"
      by (auto simp: search_post_def)
    with False show ?thesis by (subst search_pfn.simps) auto
  next
    case True
    then have sl: "?s \<le> ?l" and sc: "?s + ?c \<le> ?l + 1"
      using last count by (auto simp: word_le_nat_alt unat_add_no_wrap)
    show ?thesis
    proof (cases "?f = ?s + ?c")
      case free: True
      with True sc show ?thesis
        by (subst search_pfn.simps) (auto simp: search_post_def first_busy_eq_end)
    next
      case busy: False
      let ?p = "next_candidate block_size count_remainder ?f"
      have f: "?s \<le> ?f" "?f < ?s + ?c" and fb: "page ?f \<noteq> FREE_PAGE"
        using busy first_busy_bounds [of ?s page ?c] first_busy_busy [of page ?s ?c] by auto
      have small: "?f + 1024 < 2 ^ 32" using f(2) sc last by simp
      note nc = next_candidate_bounds [OF bs rem small]
      have "unat lastp + 1 - unat ?p < unat lastp + 1 - ?s"
        using nc(1) f sc by linarith
      from less [OF this] obtain r where
        r: "search_pfn page lastp count block_size count_remainder ?p = Some r"
        and post: "search_post page ?l ?c (2 ^ k) (unat ?p) r" by blast
      have "search_post page ?l ?c (2 ^ k) ?s r"
      proof (cases r)
        case (Some p)
        with post nc(1) f(1) show ?thesis by (auto simp: search_post_def)
      next
        case None
        have "unat ?p \<le> p" if "2 ^ k dvd p" "?s \<le> p" "free_run page p ?c" for p
        proof -
          have "\<not> (p \<le> ?f \<and> ?f < p + ?c)" using that(3) fb by (auto simp: free_run_def)
          then have "?f < p" using that(2) f(2) by linarith
          with that(1) show ?thesis by (rule nc(2))
        qed
        with None post show ?thesis by (auto simp: search_post_def)
      qed
      moreover have "search_pfn page lastp count block_size count_remainder pfn = Some r"
        using True busy r by (subst search_pfn.simps) simp
      ultimately show ?thesis by blast
    qed
  qed
qed


subsection \<open>The allocator as an interface\<close>

text \<open>
  What the clients of the allocator rely on. \<open>alloc n t\<close> gives the first of \<open>n\<close>
  consecutive frames that were free and hands them over with the mark \<open>t\<close>; every other
  frame keeps its mark, so no frame has two owners.
\<close>

locale frame_allocator =
  fixes mark_of :: "'s \<Rightarrow> nat \<Rightarrow> u8"
    and frames :: "'s \<Rightarrow> nat"
    and ok :: "'s \<Rightarrow> nat \<Rightarrow> bool"
    and alloc :: "nat \<Rightarrow> u8 \<Rightarrow> 's \<Rightarrow> (mem_error + nat \<times> 's) option"
  assumes alloc_returns: "ok s n \<Longrightarrow> alloc n t s \<noteq> None"
    and alloc_free: "ok s n \<Longrightarrow> alloc n t s = Some (Inr (p, s')) \<Longrightarrow> p \<le> q \<Longrightarrow> q < p + n \<Longrightarrow>
      mark_of s q = FREE_PAGE"
    and alloc_range: "ok s n \<Longrightarrow> alloc n t s = Some (Inr (p, s')) \<Longrightarrow> p + n \<le> frames s"
    and alloc_marks: "ok s n \<Longrightarrow> alloc n t s = Some (Inr (p, s')) \<Longrightarrow>
      mark_of s' q = (if p \<le> q \<and> q < p + n then t else mark_of s q)"
    and alloc_frames: "ok s n \<Longrightarrow> alloc n t s = Some (Inr (p, s')) \<Longrightarrow> frames s' = frames s"
begin

text \<open>Two allocations in a row never overlap, whatever the owners' marks.\<close>

lemma allocs_disjoint:
  assumes "ok s n" "alloc n t s = Some (Inr (p, s'))" "t \<noteq> FREE_PAGE"
    and "ok s' n'" "alloc n' t' s' = Some (Inr (p', s''))"
    and "p \<le> q" "q < p + n"
  shows "\<not> (p' \<le> q \<and> q < p' + n')"
proof
  assume "p' \<le> q \<and> q < p' + n'"
  then have "mark_of s' q = FREE_PAGE" using alloc_free assms(4,5) by blast
  moreover have "mark_of s' q = t" using alloc_marks [OF assms(1,2)] assms(6,7) by simp
  ultimately show False using assms(3) by simp
qed

text \<open>Allocation only ever takes free frames away: an owned frame keeps its mark.\<close>

lemma owned_kept:
  assumes "ok s n" "alloc n t s = Some (Inr (p, s'))" "mark_of s q \<noteq> FREE_PAGE"
  shows "mark_of s' q = mark_of s q"
  using alloc_marks [OF assms(1,2)] alloc_free [OF assms(1,2)] assms(3) by fastforce

end

subsection \<open>\<open>allocate_many_pfn\<close> and \<open>allocate_pfn\<close>\<close>

text \<open>
  Frame numbers are far below \<open>2 ^ 31\<close> on every machine the program supports (\<open>2 ^ 31\<close>
  frames of 8 Kbytes would be 16 Tbytes), and so are the counts.
\<close>

definition pfn_bounds :: "page_map \<Rightarrow> u32 \<Rightarrow> bool" where
  "pfn_bounds m count \<longleftrightarrow> unat (lastpfn m) < 2 ^ 31 \<and> unat count < 2 ^ 31 - 1024"

lemma remainder_in_block:
  assumes "find_block_size count = 2 ^ k" "count \<le> 512 \<longrightarrow> count \<le> 2 ^ k"
    "\<not> count \<le> 512 \<longrightarrow> k = 9" "k \<le> 9"
  shows "unat (count mod 512) \<le> 2 ^ k"
proof (cases "count \<le> 512")
  case True
  with assms have "unat count \<le> unat (2 ^ k :: u32)" by (simp add: word_le_nat_alt)
  also have "\<dots> = 2 ^ k" by (rule unat_2p) (use \<open>k \<le> 9\<close> in simp)
  finally show ?thesis
    by (metis le_trans mod_less_eq_dividend unat_mod)
next
  case False
  with assms(3) show ?thesis
    by (simp add: unat_mod less_imp_le)
qed

lemma allocate_search:
  assumes "pfn_bounds m count"
  obtains r where "search_pfn (milo_memory_map m) (lastpfn m) count (find_block_size count)
      (count mod 512) 0 = Some r"
    and "search_post (milo_memory_map m) (unat (lastpfn m)) (unat count)
      (unat (find_block_size count)) 0 r"
proof -
  obtain k where k: "k \<le> 9" "find_block_size count = 2 ^ k" "count \<le> 512 \<longrightarrow> count \<le> 2 ^ k"
      "\<not> count \<le> 512 \<longrightarrow> k = 9"
    using find_block_size_power by blast
  have u: "unat (find_block_size count) = 2 ^ k"
    unfolding k(2) by (rule unat_2p) (use \<open>k \<le> 9\<close> in simp)
  have "unat (count mod 512) \<le> 2 ^ k" using k by (intro remainder_in_block)
  with assms obtain r where "search_pfn (milo_memory_map m) (lastpfn m) count
      (find_block_size count) (count mod 512) 0 = Some r"
    and "search_post (milo_memory_map m) (unat (lastpfn m)) (unat count) (2 ^ k) (unat (0::u32)) r"
    using search_pfn_total [OF k(2,1)] unfolding pfn_bounds_def by blast
  then show ?thesis using that u by simp
qed

lemma allocate_many_cases:
  assumes "pfn_bounds m count"
  obtains (none) "allocate_many_pfn count type m = Some (Inl Not_enough_memory)"
      "\<And>p. unat (find_block_size count) dvd p \<Longrightarrow> p + unat count \<le> unat (lastpfn m) + 1 \<Longrightarrow>
        0 < unat count \<Longrightarrow> \<not> free_run (milo_memory_map m) p (unat count)"
    | (some) pfn where "allocate_many_pfn count type m = Some (Inr (pfn, m\<lparr>milo_memory_map :=
          mark_from (milo_memory_map m) (unat pfn) (unat count) type\<rparr>))"
      "unat pfn + unat count \<le> unat (lastpfn m) + 1"
      "free_run (milo_memory_map m) (unat pfn) (unat count)"
proof -
  obtain r where "search_pfn (milo_memory_map m) (lastpfn m) count (find_block_size count)
      (count mod 512) 0 = Some r"
    and "search_post (milo_memory_map m) (unat (lastpfn m)) (unat count)
      (unat (find_block_size count)) 0 r"
    using allocate_search [OF assms] by metis
  then show ?thesis
    using that by (cases r) (auto simp: allocate_many_pfn_def search_post_def)
qed

definition alloc_frames :: "nat \<Rightarrow> u8 \<Rightarrow> page_map \<Rightarrow> (mem_error + nat \<times> page_map) option" where
  "alloc_frames n t m = map_option (map_sum id (map_prod unat id)) (allocate_many_pfn (of_nat n) t m)"

lemma alloc_frames_SomeD:
  assumes "alloc_frames n t m = Some (Inr (p, m'))" "n < 2 ^ 32" "pfn_bounds m (of_nat n)"
  shows "p + n \<le> unat (lastpfn m) + 1" "free_run (milo_memory_map m) p n"
    "m' = m\<lparr>milo_memory_map := mark_from (milo_memory_map m) p n t\<rparr>"
proof -
  have u: "unat (of_nat n :: u32) = n" using assms(2) by (simp add: unat_of_nat_small)
  have "p + n \<le> unat (lastpfn m) + 1 \<and> free_run (milo_memory_map m) p n \<and>
      m' = m\<lparr>milo_memory_map := mark_from (milo_memory_map m) p n t\<rparr>"
    using assms(1) by (cases rule: allocate_many_cases [OF assms(3), of t])
      (auto simp: alloc_frames_def u)
  then show "p + n \<le> unat (lastpfn m) + 1" "free_run (milo_memory_map m) p n"
    "m' = m\<lparr>milo_memory_map := mark_from (milo_memory_map m) p n t\<rparr>" by simp_all
qed

interpretation frames: frame_allocator milo_memory_map "\<lambda>m. unat (lastpfn m) + 1"
    "\<lambda>m n. n < 2 ^ 32 \<and> pfn_bounds m (of_nat n)" alloc_frames
proof (unfold_locales, goal_cases)
  case (1 s n t)
  then have "pfn_bounds s (of_nat n)" by simp
  then show ?case by (cases rule: allocate_many_cases [of s "of_nat n" t])
      (simp_all add: alloc_frames_def)
next
  case (2 s n t p s' q)
  with alloc_frames_SomeD(2) show ?case unfolding free_run_def by blast
next
  case (3 s n t p s')
  with alloc_frames_SomeD(1) show ?case by blast
qed (auto dest: alloc_frames_SomeD(3))


text \<open>
  C1: \<open>allocate_many_pfn\<close> returns; on success the frames it hands out existed, were all free,
  now carry the mark asked for, and no other frame's mark has changed.
\<close>

theorem allocate_many_pfn_correct:
  assumes "pfn_bounds m count"
  shows "allocate_many_pfn count type m = Some (Inl Not_enough_memory) \<or>
    (\<exists>pfn m'. allocate_many_pfn count type m = Some (Inr (pfn, m')) \<and>
       unat pfn + unat count \<le> unat (lastpfn m) + 1 \<and>
       free_run (milo_memory_map m) (unat pfn) (unat count) \<and>
       (\<forall>q. milo_memory_map m' q = (if unat pfn \<le> q \<and> q < unat pfn + unat count then type
                                     else milo_memory_map m q)) \<and>
       lastpfn m' = lastpfn m)"
  by (cases rule: allocate_many_cases [OF assms, of type]) auto

definition six_frames :: page_map where
  "six_frames = \<lparr>milo_memory_map = (\<lambda>q. if q = 1 then ALLOCATED_PAGE else FREE_PAGE), lastpfn = 5\<rparr>"

lemma six_frames_bounds: "pfn_bounds six_frames 2"
  by (simp add: pfn_bounds_def six_frames_def)

theorem allocate_many_pfn_correct_witness:
  "\<exists>pfn m'. allocate_many_pfn 2 TEMPORARY_PAGE six_frames = Some (Inr (pfn, m')) \<and>
     unat pfn + unat (2 :: u32) \<le> unat (lastpfn six_frames) + 1 \<and> pfn = 2"
proof -
  have "find_block_size 2 = 2" by (simp add: find_block_size_def word_le_nat_alt)
  moreover have "next_candidate 2 2 (Suc 0) = 2" by (simp add: next_candidate_def Let_def)
  moreover have "first_busy page p 2 = (if page p \<noteq> FREE_PAGE then p
      else if page (Suc p) \<noteq> FREE_PAGE then Suc p else Suc (Suc p))" for page p
    by (simp add: numeral_2_eq_2)
  ultimately have "\<exists>m'. allocate_many_pfn 2 TEMPORARY_PAGE six_frames = Some (Inr (2, m'))"
    by (simp add: allocate_many_pfn_def search_pfn.simps [of _ _ _ _ _ 0]
        search_pfn.simps [of _ _ _ _ _ 2] six_frames_def)
  then show ?thesis
    using allocate_many_pfn_correct [OF six_frames_bounds, of TEMPORARY_PAGE] by auto
qed

text \<open>
  C7: The search skips from block to block, so it may miss a run of free frames, but never one
  that starts at a multiple of the block size: if there is one, the allocation succeeds.
\<close>

theorem allocate_many_pfn_finds_aligned:
  assumes "pfn_bounds m count" and "0 < count"
    and "unat (find_block_size count) dvd p" "p + unat count \<le> unat (lastpfn m) + 1"
    and "free_run (milo_memory_map m) p (unat count)"
  shows "\<exists>pfn m'. allocate_many_pfn count type m = Some (Inr (pfn, m'))"
proof (cases rule: allocate_many_cases [OF assms(1), of type])
  case 1
  then show ?thesis using assms by (auto simp: word_less_nat_alt)
qed simp

theorem allocate_many_pfn_finds_aligned_witness:
  "\<exists>pfn m'. allocate_many_pfn 2 TEMPORARY_PAGE six_frames = Some (Inr (pfn, m'))"
  by (rule allocate_many_pfn_finds_aligned [OF six_frames_bounds, of 4])
    (simp_all add: find_block_size_def word_le_nat_alt six_frames_def free_run_def)

lemma allocate_pfn_first:
  assumes "allocate_pfn t m = Inr (pfn, m')" "unat (lastpfn m) < 2 ^ 31"
  shows "milo_memory_map m (unat pfn) = FREE_PAGE" "unat pfn \<le> unat (lastpfn m)"
    "\<forall>q < unat pfn. milo_memory_map m q \<noteq> FREE_PAGE"
    "milo_memory_map m' = (milo_memory_map m)(unat pfn := t)"
proof -
  have n: "unat (lastpfn m + 1) = unat (lastpfn m) + 1"
    using assms(2) by (simp add: unat_add_no_wrap)
  obtain p where p: "find (\<lambda>p. milo_memory_map m p = FREE_PAGE) [0..<unat (lastpfn m) + 1] = Some p"
      "pfn = of_nat p" "m' = m\<lparr>milo_memory_map := (milo_memory_map m)(p := t)\<rparr>"
    using assms(1) by (auto simp: allocate_pfn_def n split: option.splits)
  then obtain i where i: "i < unat (lastpfn m) + 1" "p = i" "milo_memory_map m p = FREE_PAGE"
      "\<forall>j<i. milo_memory_map m j \<noteq> FREE_PAGE"
    by (auto simp: find_Some_iff simp del: upt_Suc)
  have "unat pfn = p" using i(1,2) assms(2) by (simp add: p(2) unat_of_nat_small)
  then show "milo_memory_map m (unat pfn) = FREE_PAGE" "unat pfn \<le> unat (lastpfn m)"
    "\<forall>q < unat pfn. milo_memory_map m q \<noteq> FREE_PAGE"
    "milo_memory_map m' = (milo_memory_map m)(unat pfn := t)"
    using i p(3) by auto
qed

end
