(* ===== verification/Memory.thy ===== *)
theory Memory
  imports PageMap
begin

text \<open>
  The memory set-up and the heap of \<open>memory.c\<close>: \<open>init_mem\<close>, \<open>reset_mem\<close>, \<open>kmalloc\<close>
  and \<open>free\<close>, above the page-frame allocator. An address is a \<open>u64\<close>, \<open>0\<close> is \<open>NULL\<close>.

  \<open>PAGE_SHIFT\<close>, \<open>PAGE_OFFSET\<close> and \<open>KERNEL_START\<close> come from the kernel's headers and
  the load addresses from the Makefile: they are the fields of a platform \<open>plat\<close>, an argument
  of the operations. The compile-time options \<open>REUSE_MEMORY\<close> and \<open>GUARD_BANDS\<close> of
  \<open>config.in\<close> are the fields of \<open>kconf\<close>. The header in front of each block of the heap
  is modelled field by field, as two maps from header addresses (\<open>hd_size\<close>, \<open>hd_next\<close>),
  and the rest of the bytes as \<open>ram\<close>.
\<close>

record plat =
  PAGE_SHIFT :: nat
  PAGE_OFFSET :: u64
  KERNEL_START :: u64
  PALCODE_AT :: u64
  STUB_AT :: u64
  LOADER_AT :: u64
  PALCODE_SIZE :: u64

record kconf =
  REUSE_MEMORY :: bool
  GUARD_BANDS :: bool

record mem =
  frames_of :: page_map
  map_addr :: u64
  milo_memory_size :: u64
  temp_memory_ptr :: u64
  free_cache :: u64
  hd_size :: "u64 \<Rightarrow> u64"
  hd_next :: "u64 \<Rightarrow> u64"
  ram :: "u64 \<Rightarrow> u8"

definition PAGE_SIZE :: "plat \<Rightarrow> u64" where
  "PAGE_SIZE P = push_bit (PAGE_SHIFT P) 1"

definition PFN_TO_PHYSICAL :: "plat \<Rightarrow> u32 \<Rightarrow> u64" where
  "PFN_TO_PHYSICAL P pfn = push_bit (PAGE_SHIFT P) (ucast pfn) OR PAGE_OFFSET P"

definition PHYSICAL_TO_PFN :: "plat \<Rightarrow> u64 \<Rightarrow> u64" where
  "PHYSICAL_TO_PFN P a = drop_bit (PAGE_SHIFT P) (a AND NOT (PAGE_OFFSET P))"

definition MAX_KERNEL_SIZE :: u64 where "MAX_KERNEL_SIZE = 0x800000"
definition MILO_MIN_MEMORY_SIZE :: u64 where "MILO_MIN_MEMORY_SIZE = 0x1000000"

subsection \<open>\<open>init_mem\<close> and \<open>reset_mem\<close>\<close>

definition mark_region :: "plat \<Rightarrow> u64 \<Rightarrow> u64 \<Rightarrow> u8 \<Rightarrow> page_map \<Rightarrow> page_map" where
  "mark_region P at sz type =
     mark_many_pfn (ucast (PHYSICAL_TO_PFN P at)) (ucast (PHYSICAL_TO_PFN P sz)) type"

definition init_mem :: "plat \<Rightarrow> u64 \<Rightarrow> mem \<Rightarrow> mem" where
  "init_mem P Top m =
     (let lastp = ucast (PHYSICAL_TO_PFN P (Top - PAGE_SIZE P)) :: u32;
          map_pages = ucast ((PHYSICAL_TO_PFN P Top + (PAGE_SIZE P - 1)) div PAGE_SIZE P) :: u32;
          map_at = PAGE_OFFSET P OR (MILO_MIN_MEMORY_SIZE - PAGE_SIZE P * ucast map_pages);
          f0 = (frames_of m)\<lparr>lastpfn := lastp\<rparr>;
          f1 = mark_many_pfn 0 (lastp + 1) FREE_PAGE f0;
          f2 = mark_many_pfn (ucast (PHYSICAL_TO_PFN P map_at)) map_pages TEMPORARY_PAGE f1;
          f3 = mark_many_pfn 0 1 ALLOCATED_PAGE f2;
          f4 = mark_region P (LOADER_AT P) 0x100000 TEMPORARY_PAGE f3;
          f5 = mark_region P (STUB_AT P) 0x80000 ALLOCATED_PAGE f4;
          f6 = mark_region P (KERNEL_START P) MAX_KERNEL_SIZE TEMPORARY_PAGE f5;
          f7 = mark_region P (PALCODE_AT P) (PALCODE_SIZE P) ALLOCATED_PAGE f6
      in m\<lparr>milo_memory_size := Top, map_addr := map_at, frames_of := f7\<rparr>)"

definition reset_mem :: "plat \<Rightarrow> u64 \<Rightarrow> mem \<Rightarrow> mem" where
  "reset_mem P Top m =
     (let old_map_pfns = ucast (PHYSICAL_TO_PFN P (milo_memory_size m - PAGE_SIZE P)) :: u32;
          new_map_pfns = ucast (PHYSICAL_TO_PFN P (Top - PAGE_SIZE P)) :: u32;
          f = (if old_map_pfns < new_map_pfns
               then mark_many_pfn (old_map_pfns + 1) (new_map_pfns - old_map_pfns) FREE_PAGE
                      (frames_of m)
               else frames_of m)
      in m\<lparr>frames_of := f\<lparr>lastpfn := ucast (PHYSICAL_TO_PFN P (Top - PAGE_SIZE P))\<rparr>,
           milo_memory_size := Top\<rparr>)"

subsection \<open>The heap\<close>

text \<open>The walk of \<open>search_cache\<close>: \<open>None\<close> for a cyclic list with no block large enough.\<close>

partial_function (option) find_header ::
  "(u64 \<Rightarrow> u64) \<Rightarrow> (u64 \<Rightarrow> u64) \<Rightarrow> u32 \<Rightarrow> u64 \<Rightarrow> u64 \<Rightarrow> (u64 \<times> u64) option option" where
  "find_header sizes nexts sz prev header =
     (if header = 0 then Some None
      else if sizes header \<ge> ucast sz then Some (Some (prev, header))
      else find_header sizes nexts sz header (nexts header))"

definition SIZEOF_MHEAD :: u64 where "SIZEOF_MHEAD = 16"

definition search_cache :: "kconf \<Rightarrow> u32 \<Rightarrow> mem \<Rightarrow> (u64 \<times> mem) option" where
  "search_cache K sz m =
     (case find_header (hd_size m) (hd_next m) sz 0 (free_cache m) of
        None \<Rightarrow> None
      | Some None \<Rightarrow> Some (0, m)
      | Some (Some (prev, header)) \<Rightarrow>
          Some (header + SIZEOF_MHEAD + (if GUARD_BANDS K then 16 else 0),
            if header = free_cache m then m\<lparr>free_cache := hd_next m header\<rparr>
            else m\<lparr>hd_next := (hd_next m)(prev := hd_next m header)\<rparr>))"

text \<open>Fresh frames for the heap: the two calls of \<open>allocate_many_pfn\<close> in \<open>kmalloc\<close>.\<close>

definition new_frames :: "plat \<Rightarrow> u32 \<Rightarrow> mem \<Rightarrow> (mem_error + mem) option" where
  "new_frames P pages m =
     (case allocate_many_pfn pages TEMPORARY_PAGE (frames_of m) of
        None \<Rightarrow> None
      | Some (Inl e) \<Rightarrow> Some (Inl e)
      | Some (Inr (pfn, f)) \<Rightarrow>
          Some (Inr (m\<lparr>frames_of := f, temp_memory_ptr := PFN_TO_PHYSICAL P pfn\<rparr>)))"

text \<open>The part of \<open>kmalloc\<close> that makes room for \<open>size\<close> bytes at \<open>temp_memory_ptr\<close>.\<close>

definition make_room :: "plat \<Rightarrow> u64 \<Rightarrow> mem \<Rightarrow> (mem_error + mem) option" where
  "make_room P sz m =
     (let pages = ucast ((sz + (PAGE_SIZE P - 1)) div PAGE_SIZE P) :: u32 in
      if temp_memory_ptr m = 0 then new_frames P pages m
      else
        let bottom = ucast (PHYSICAL_TO_PFN P (temp_memory_ptr m)) :: u32;
            top = ucast (PHYSICAL_TO_PFN P (temp_memory_ptr m + sz)) :: u32
        in if bottom \<noteq> top then
             let mm = unat bottom + 1; page = milo_memory_map (frames_of m) in
             if first_busy page mm (unat pages) = mm + unat pages
             then Some (Inr (m\<lparr>frames_of := (frames_of m)\<lparr>milo_memory_map :=
                    mark_from page mm (unat pages) TEMPORARY_PAGE\<rparr>\<rparr>))
             else new_frames P pages m
           else Some (Inr m))"

definition fill :: "(u64 \<Rightarrow> u8) \<Rightarrow> u64 \<Rightarrow> u64 \<Rightarrow> u8 \<Rightarrow> (u64 \<Rightarrow> u8)" where
  "fill bytes at sz c = (\<lambda>a. if a - at < sz then c else bytes a)"

definition store64 :: "u64 \<Rightarrow> u64 \<Rightarrow> (u64 \<Rightarrow> u8) \<Rightarrow> (u64 \<Rightarrow> u8)" where
  "store64 at v bytes =
     (\<lambda>a. if a - at < 8 then ucast (drop_bit (8 * unat (a - at)) v) else bytes a)"

definition write_guards :: "u64 \<Rightarrow> u64 \<Rightarrow> (u64 \<Rightarrow> u8) \<Rightarrow> (u64 \<Rightarrow> u8)" where
  "write_guards at sz bytes =
     store64 (at + sz - 8) 0x1111222233334444
       (store64 (at + sz - 16) 0x1111222233334444
          (store64 (at + 8) 0xAAAABBBBCCCCDDDD (store64 at 0xAAAABBBBCCCCDDDD bytes)))"

text \<open>
  \<open>kmalloc\<close>: the rounded sz, a block of the cache when there is one, or a fresh block.
  The result is the address (\<open>0\<close> is a failure) and the new state.
\<close>

definition request_size :: "kconf \<Rightarrow> u64 \<Rightarrow> u64" where
  "request_size K sz = sz + (8 - (sz AND 0x7)) + (if GUARD_BANDS K then 4 * 8 else 0)"

definition carve :: "kconf \<Rightarrow> u64 \<Rightarrow> mem \<Rightarrow> u64 \<times> mem" where
  "carve K sz m =
     (let raw = temp_memory_ptr m;
          m1 = m\<lparr>temp_memory_ptr := raw + sz, ram := fill (ram m) raw sz 0\<rparr>;
          (result, sz', m2) =
            (if REUSE_MEMORY K
             then (raw + SIZEOF_MHEAD, sz - SIZEOF_MHEAD,
                   m1\<lparr>hd_size := (hd_size m1)(raw := sz - SIZEOF_MHEAD),
                      hd_next := (hd_next m1)(raw := 0)\<rparr>)
             else (raw, sz, m1))
      in if GUARD_BANDS K
         then (result + 16, m2\<lparr>ram := write_guards result sz' (ram m2)\<rparr>)
         else (result, m2))"

definition fresh_block :: "plat \<Rightarrow> kconf \<Rightarrow> u64 \<Rightarrow> mem \<Rightarrow> (mem_error + u64 \<times> mem) option" where
  "fresh_block P K sz m =
     (let sz' = (if REUSE_MEMORY K then sz + SIZEOF_MHEAD else sz) in
      case make_room P sz' m of
        None \<Rightarrow> None
      | Some (Inl e) \<Rightarrow> Some (Inl e)
      | Some (Inr m') \<Rightarrow>
          Some (Inr (if temp_memory_ptr m' \<noteq> 0 then carve K sz' m' else (0, m'))))"

definition kmalloc :: "plat \<Rightarrow> kconf \<Rightarrow> u64 \<Rightarrow> mem \<Rightarrow> (mem_error + u64 \<times> mem) option" where
  "kmalloc P K sz m =
     (if REUSE_MEMORY K
      then case search_cache K (ucast (request_size K sz)) m of
             None \<Rightarrow> None
           | Some (result, m') \<Rightarrow>
               if result \<noteq> 0 then Some (Inr (result, m'))
               else fresh_block P K (request_size K sz) m'
      else fresh_block P K (request_size K sz) m)"

definition free :: "kconf \<Rightarrow> u64 \<Rightarrow> mem \<Rightarrow> mem" where
  "free K where' m =
     (if REUSE_MEMORY K
      then let header = where' - (if GUARD_BANDS K then 16 else 0) - SIZEOF_MHEAD
           in m\<lparr>hd_next := (hd_next m)(header := free_cache m), free_cache := header\<rparr>
      else m)"

definition vmalloc :: "plat \<Rightarrow> kconf \<Rightarrow> u64 \<Rightarrow> mem \<Rightarrow> (mem_error + u64 \<times> mem) option" where
  "vmalloc = kmalloc"

definition kfree :: "kconf \<Rightarrow> u64 \<Rightarrow> mem \<Rightarrow> mem" where
  "kfree = free"


subsection \<open>Addresses of the direct-mapped segment\<close>

text \<open>
  The platform's documented layout: pages of 4 to 64 Kbytes and a segment base whose low
  42 bits are clear, so that an address is the base plus a physical address.
\<close>

definition wf_plat :: "plat \<Rightarrow> bool" where
  "wf_plat P \<longleftrightarrow> 12 \<le> PAGE_SHIFT P \<and> PAGE_SHIFT P \<le> 16 \<and> PAGE_OFFSET P AND mask 42 = 0 \<and>
     PAGE_OFFSET P \<noteq> 0"

definition page_bytes :: "plat \<Rightarrow> nat" where
  "page_bytes P = 2 ^ PAGE_SHIFT P"

definition kseg :: "plat \<Rightarrow> nat \<Rightarrow> u64" where
  "kseg P x = PAGE_OFFSET P + of_nat x"

lemma page_bytes_pos [simp]: "0 < page_bytes P"
  by (simp add: page_bytes_def)

lemma page_bytes_bounds: "wf_plat P \<Longrightarrow> 2 ^ 12 \<le> page_bytes P \<and> page_bytes P \<le> 2 ^ 16"
  unfolding wf_plat_def page_bytes_def
  using power_increasing [of 12 "PAGE_SHIFT P" "2::nat"] power_increasing [of "PAGE_SHIFT P" 16 "2::nat"]
  by simp

lemma unat_PAGE_SIZE: "wf_plat P \<Longrightarrow> unat (PAGE_SIZE P) = page_bytes P"
proof -
  assume "wf_plat P"
  then have "unat (2 ^ PAGE_SHIFT P :: u64) = 2 ^ PAGE_SHIFT P"
    by (intro unat_2p) (simp add: wf_plat_def)
  then show ?thesis by (simp add: PAGE_SIZE_def page_bytes_def push_bit_eq_mult)
qed

lemma base_bit: "wf_plat P \<Longrightarrow> bit (PAGE_OFFSET P) i \<Longrightarrow> 42 \<le> i"
proof -
  assume "wf_plat P" and "bit (PAGE_OFFSET P) i"
  moreover from this have "\<not> bit (PAGE_OFFSET P AND mask 42) i" by (simp add: wf_plat_def)
  ultimately show ?thesis by (auto simp: bit_simps)
qed

lemma small_bit:
  assumes "x < 2 ^ 42" and "bit (of_nat x :: u64) i"
  shows "i < 42"
proof (rule ccontr)
  assume "\<not> i < 42"
  then have "x < 2 ^ i" using assms(1) by (meson leI less_le_trans one_le_numeral power_increasing)
  moreover have "bit x i" using assms(2) by (simp add: bit_simps)
  ultimately show False by (simp add: bit_iff_odd)
qed

lemma kseg_or:
  assumes "wf_plat P" "x < 2 ^ 42"
  shows "kseg P x = of_nat x OR PAGE_OFFSET P"
proof -
  have "PAGE_OFFSET P AND of_nat x = 0"
    by (rule bit_word_eqI) (use assms base_bit small_bit in \<open>fastforce simp: bit_simps\<close>)
  then show ?thesis
    unfolding kseg_def by (metis disjunctive_add_eq_or or.commute)
qed

lemma kseg_strip:
  assumes "wf_plat P" "x < 2 ^ 42"
  shows "kseg P x AND NOT (PAGE_OFFSET P) = of_nat x"
proof (rule bit_word_eqI)
  fix n :: nat
  assume n: "n < LENGTH(64)"
  show "bit (kseg P x AND NOT (PAGE_OFFSET P)) n \<longleftrightarrow> bit (of_nat x :: u64) n"
    using base_bit [OF assms(1), of n] small_bit [OF assms(2), of n] n
    by (auto simp: kseg_or [OF assms] bit_and_iff bit_or_iff bit_not_iff)
qed

lemma pfn_of_kseg:
  assumes "wf_plat P" "x < 2 ^ 42"
  shows "unat (PHYSICAL_TO_PFN P (kseg P x)) = x div page_bytes P"
proof -
  have "unat (of_nat x :: u64) = x" using assms(2) by (intro unat_of_nat_small) simp
  then show ?thesis
    by (simp add: PHYSICAL_TO_PFN_def kseg_strip [OF assms] unat_drop_bit page_bytes_def
        del: drop_bit_eq_div)
qed

lemma pfn32_of_kseg:
  assumes "wf_plat P" "x < 2 ^ 42"
  shows "unat (ucast (PHYSICAL_TO_PFN P (kseg P x)) :: u32) = x div page_bytes P"
proof -
  have "x div page_bytes P \<le> x div 2 ^ 12"
    using page_bytes_bounds [OF assms(1)] by (intro div_le_mono2) auto
  also have "\<dots> < 2 ^ 32" using assms(2) by simp
  finally show ?thesis
    by (simp add: unat_ucast_mod pfn_of_kseg [OF assms])
qed

lemma pfn_to_kseg:
  assumes "wf_plat P" "unat pfn * page_bytes P < 2 ^ 42"
  shows "PFN_TO_PHYSICAL P pfn = kseg P (unat pfn * page_bytes P)"
proof -
  have "push_bit (PAGE_SHIFT P) (ucast pfn :: u64) = of_nat (unat pfn * page_bytes P)"
    by (simp add: push_bit_eq_mult page_bytes_def of_nat_unat_ucast)
  then show ?thesis using kseg_or [OF assms] by (simp add: PFN_TO_PHYSICAL_def)
qed

lemma kseg_add: "kseg P x + of_nat y = kseg P (x + y)"
  by (simp add: kseg_def)

lemma kseg_nat: "x < 2 ^ 42 \<Longrightarrow> unat (of_nat x :: u64) = x"
  by (intro unat_of_nat_small) simp

lemma kseg_inj: "wf_plat P \<Longrightarrow> x < 2 ^ 42 \<Longrightarrow> y < 2 ^ 42 \<Longrightarrow> kseg P x = kseg P y \<Longrightarrow> x = y"
  by (metis kseg_strip kseg_nat)

lemma kseg_nonzero:
  assumes "wf_plat P" "x < 2 ^ 42"
  shows "kseg P x \<noteq> 0"
proof
  assume z: "kseg P x = 0"
  then have "kseg P x AND PAGE_OFFSET P = 0" by simp
  then have "PAGE_OFFSET P = 0"
    by (simp add: kseg_or [OF assms] word_ao_dist bit.conj_disj_distrib2)
  with assms(1) show False by (simp add: wf_plat_def)
qed


subsection \<open>Room for a block\<close>

text \<open>
  The frames of the heap are a set \<open>H\<close> beside the state: the map does not tell them from the other temporary
  frames. \<open>taken\<close> are the frames a call takes out of the free ones. The heap's invariant: the frame the next
  block starts in belongs to the heap. \<open>owned\<close> says it of every byte of a block at the physical address \<open>x\<close>.
\<close>

abbreviation marks :: "mem \<Rightarrow> nat \<Rightarrow> u8" where
  "marks m \<equiv> milo_memory_map (frames_of m)"

definition taken :: "mem \<Rightarrow> mem \<Rightarrow> nat set" where
  "taken m m' = {q. marks m q = FREE_PAGE \<and> marks m' q = TEMPORARY_PAGE}"

definition heap_ok :: "plat \<Rightarrow> nat set \<Rightarrow> mem \<Rightarrow> bool" where
  "heap_ok P H m \<longleftrightarrow> temp_memory_ptr m = 0 \<or>
     (\<exists>x < 2 ^ 41. temp_memory_ptr m = kseg P x \<and> x div page_bytes P \<in> H)"

definition heap_bounds :: "plat \<Rightarrow> mem \<Rightarrow> bool" where
  "heap_bounds P m \<longleftrightarrow> unat (lastpfn (frames_of m)) < 2 ^ 31 \<and>
     (unat (lastpfn (frames_of m)) + 1) * page_bytes P \<le> 2 ^ 41"

definition owned :: "plat \<Rightarrow> nat set \<Rightarrow> nat \<Rightarrow> nat \<Rightarrow> bool" where
  "owned P H x n \<longleftrightarrow> (\<forall>y. x \<le> y \<and> y < x + n \<longrightarrow> y div page_bytes P \<in> H)"

text \<open>
  Where \<open>make_room\<close> finds room for a byte at \<open>y\<close> of a block at \<open>x\<close>: in a frame it takes, or in the frame that the heap
  pointer is in and stays in.
\<close>

definition room_at :: "plat \<Rightarrow> mem \<Rightarrow> mem \<Rightarrow> nat \<Rightarrow> nat \<Rightarrow> bool" where
  "room_at P m m' x y \<longleftrightarrow> y div page_bytes P \<in> taken m m' \<or>
     temp_memory_ptr m \<noteq> 0 \<and> temp_memory_ptr m' = temp_memory_ptr m \<and> y div page_bytes P = x div page_bytes P"

definition npages :: "plat \<Rightarrow> nat \<Rightarrow> nat" where
  "npages P n = (n + (page_bytes P - 1)) div page_bytes P"

lemma npages_bounds:
  "n \<le> npages P n * page_bytes P" "npages P n * page_bytes P < n + page_bytes P"
proof -
  have "n + (page_bytes P - 1) - (n + (page_bytes P - 1)) mod page_bytes P
      = npages P n * page_bytes P"
    by (simp add: npages_def minus_mod_eq_div_mult)
  moreover have "(n + (page_bytes P - 1)) mod page_bytes P < page_bytes P" by simp
  ultimately show "n \<le> npages P n * page_bytes P" "npages P n * page_bytes P < n + page_bytes P"
    using page_bytes_pos [of P] by linarith+
qed

lemma npages_word:
  assumes "wf_plat P" "unat sz < 2 ^ 40"
  shows "unat (ucast ((sz + (PAGE_SIZE P - 1)) div PAGE_SIZE P) :: u32) = npages P (unat sz)"
    and "npages P (unat sz) < 2 ^ 29"
proof -
  note pb = page_bytes_bounds [OF assms(1)]
  have "unat (PAGE_SIZE P - 1) = page_bytes P - 1"
    using pb unat_sub_no_wrap [of 1 "PAGE_SIZE P"] by (simp add: unat_PAGE_SIZE [OF assms(1)])
  then have "unat (sz + (PAGE_SIZE P - 1)) = unat sz + (page_bytes P - 1)"
    using assms(2) pb by (subst unat_add_no_wrap) auto
  then have w: "unat ((sz + (PAGE_SIZE P - 1)) div PAGE_SIZE P) = npages P (unat sz)"
    by (simp add: unat_div_distrib npages_def unat_PAGE_SIZE [OF assms(1)])
  have "npages P (unat sz) \<le> (unat sz + (page_bytes P - 1)) div 2 ^ 12"
    unfolding npages_def using pb by (intro div_le_mono2) auto
  also have "\<dots> < 2 ^ 29" using assms(2) conjunct2 [OF pb] by (simp add: div_less_iff_less_mult)
  finally show b: "npages P (unat sz) < 2 ^ 29" .
  then show "unat (ucast ((sz + (PAGE_SIZE P - 1)) div PAGE_SIZE P) :: u32) = npages P (unat sz)"
    by (simp add: unat_ucast_mod w)
qed

lemma div_lt_add:
  assumes "y < p * b + n * b" "0 < (b::nat)"
  shows "y div b < p + n"
  using assms by (simp add: div_less_iff_less_mult add_mult_distrib)

text \<open>Fresh frames: the block starts at the first of them and lies in them.\<close>

lemma new_frames_cases:
  assumes wf: "wf_plat P" and bounds: "heap_bounds P m" and sz: "unat pages = npages P n"
    "npages P n < 2 ^ 29"
  obtains (fail) "new_frames P pages m = Some (Inl Not_enough_memory)"
    | (ok) m' x where "new_frames P pages m = Some (Inr m')" "temp_memory_ptr m' = kseg P x"
      "x \<le> 2 ^ 41" "page_bytes P dvd x" "owned P (taken m m') x n"
      "\<And>q. marks m' q = marks m q \<or> marks m q = FREE_PAGE \<and> marks m' q = TEMPORARY_PAGE"
      "\<And>q. x div page_bytes P + npages P n \<le> q \<Longrightarrow> marks m' q = marks m q"
proof -
  let ?pb = "page_bytes P"
  have pb: "pfn_bounds (frames_of m) pages"
    using bounds sz by (simp add: pfn_bounds_def heap_bounds_def)
  show ?thesis
  proof (cases rule: allocate_many_cases [OF pb, of TEMPORARY_PAGE])
    case 1
    then show ?thesis by (intro fail) (simp add: new_frames_def)
  next
    case (2 pfn)
    let ?m = "m\<lparr>frames_of := (frames_of m)\<lparr>milo_memory_map :=
      mark_from (marks m) (unat pfn) (unat pages) TEMPORARY_PAGE\<rparr>,
      temp_memory_ptr := PFN_TO_PHYSICAL P pfn\<rparr>"
    have "unat pfn * ?pb \<le> (unat (lastpfn (frames_of m)) + 1) * ?pb"
      using 2(2) by (intro mult_right_mono) auto
    then have x: "unat pfn * ?pb \<le> 2 ^ 41" using bounds by (simp add: heap_bounds_def)
    have free: "q < unat pfn + unat pages \<Longrightarrow> unat pfn \<le> q \<Longrightarrow> marks m q = FREE_PAGE" for q
      using 2(3) by (simp add: free_run_def)
    show ?thesis
    proof (rule ok [of ?m "unat pfn * ?pb"])
      show "new_frames P pages m = Some (Inr ?m)" using 2(1) by (simp add: new_frames_def)
      show "temp_memory_ptr ?m = kseg P (unat pfn * ?pb)" using x pfn_to_kseg [OF wf, of pfn] by simp
      show "owned P (taken m ?m) (unat pfn * ?pb) n"
        unfolding owned_def
      proof (intro allI impI)
        fix y assume y: "unat pfn * ?pb \<le> y \<and> y < unat pfn * ?pb + n"
        then have "unat pfn \<le> y div ?pb"
          by (simp add: less_eq_div_iff_mult_less_eq)
        moreover have "y div ?pb < unat pfn + npages P n"
          using y npages_bounds(1) [of n P] by (intro div_lt_add) auto
        ultimately show "y div ?pb \<in> taken m ?m" using free by (simp add: sz taken_def)
      qed
    qed (use x free sz in auto)
  qed
qed


text \<open>
  \<open>make_room\<close> in its four cases: the whole block lies in the frame of the pointer or in frames taken for it, and so
  does the place after it, unless the block fills its frames; the only marks that change are free ones.
\<close>

lemma make_room_cases:
  assumes wf: "wf_plat P" and heap: "heap_ok P H m" and bounds: "heap_bounds P m"
    and sz: "0 < unat sz" "unat sz < 2 ^ 40"
  obtains (fail) "make_room P sz m = Some (Inl Not_enough_memory)"
    | (ok) m' x where "make_room P sz m = Some (Inr m')" "temp_memory_ptr m' = kseg P x"
      "x \<le> 2 ^ 41" "\<And>y. x \<le> y \<Longrightarrow> y < x + unat sz \<Longrightarrow> room_at P m m' x y"
      "\<And>q. marks m' q = marks m q \<or> marks m q = FREE_PAGE \<and> marks m' q = TEMPORARY_PAGE"
      "\<not> page_bytes P dvd unat sz \<Longrightarrow> room_at P m m' x (x + unat sz)"
      "temp_memory_ptr m = 0 \<Longrightarrow> page_bytes P dvd x"
proof -
  let ?pb = "page_bytes P" and ?n = "npages P (unat sz)"
  let ?pages = "ucast ((sz + (PAGE_SIZE P - 1)) div PAGE_SIZE P) :: u32"
  note np = npages_word [OF wf sz(2)]
  note npb = npages_bounds [where P = P and n = "unat sz"]
  have fresh: thesis if e: "make_room P sz m = new_frames P ?pages m"
  proof (cases rule: new_frames_cases [OF wf bounds np])
    case 1
    then show ?thesis using e by (intro fail) simp
  next
    case ok': (2 m' x)
    show ?thesis
    proof (rule ok [of m' x])
      assume nd: "\<not> ?pb dvd unat sz"
      have "(x + unat sz) div ?pb = x div ?pb + unat sz div ?pb"
        using ok'(4) by (simp add: div_plus_div_distrib_dvd_left)
      moreover have "unat sz div ?pb * ?pb < unat sz"
        using nd by (metis div_times_less_eq_dividend dvd_triv_right le_neq_implies_less)
      then have "(x + unat sz div ?pb * ?pb) div ?pb \<in> taken m m'"
        by (intro ok'(5) [unfolded owned_def, rule_format]) simp
      moreover have "(x + unat sz div ?pb * ?pb) div ?pb = x div ?pb + unat sz div ?pb"
        using ok'(4) by (simp add: div_plus_div_distrib_dvd_left)
      ultimately show "room_at P m m' x (x + unat sz)" by (simp add: room_at_def)
    qed (use e ok' in \<open>auto simp: room_at_def owned_def\<close>)
  qed
  show ?thesis
  proof (cases "temp_memory_ptr m = 0")
    case True
    then show ?thesis by (intro fresh) (simp add: make_room_def)
  next
    case False
    then obtain x where x: "x < 2 ^ 41" "temp_memory_ptr m = kseg P x"
      using heap by (auto simp: heap_ok_def)
    have xs: "x + unat sz < 2 ^ 42" using x(1) sz(2) by simp
    have next_ptr: "temp_memory_ptr m + sz = kseg P (x + unat sz)"
      using x(2) kseg_add [of P x "unat sz"] by (simp add: of_nat_unat_ucast)
    define bottom top where bt: "bottom = x div ?pb" "top = (x + unat sz) div ?pb"
    have b: "unat (ucast (PHYSICAL_TO_PFN P (temp_memory_ptr m)) :: u32) = bottom"
      using pfn32_of_kseg [OF wf, of x] x by (simp add: bt)
    have t: "unat (ucast (PHYSICAL_TO_PFN P (temp_memory_ptr m + sz)) :: u32) = top"
      using pfn32_of_kseg [OF wf xs] by (simp add: bt next_ptr)
    note mr = make_room_def [of P sz m, unfolded Let_def if_not_P [OF False],
        unfolded word_eq_iff_unat b t np]
    have in_block: "bottom \<le> y div ?pb \<and> y div ?pb \<le> top" if "x \<le> y" "y < x + unat sz" for y
      using that by (auto simp: bt intro: div_le_mono)
    show ?thesis
    proof (cases "bottom = top")
      case True
      show ?thesis
      proof (rule ok [of m x])
        show "room_at P m m x y" if "x \<le> y" "y < x + unat sz" for y
          using in_block [OF that] True False by (simp add: room_at_def bt(1) le_antisym)
        show "room_at P m m x (x + unat sz)" using True False by (simp add: room_at_def bt)
      qed (use True x mr False in auto)
    next
      case apart: False
      show ?thesis
      proof (cases "first_busy (marks m) (bottom + 1) ?n = bottom + 1 + ?n")
        case False
        with apart mr show ?thesis by (intro fresh) simp
      next
        case room: True
        let ?m = "m\<lparr>frames_of := (frames_of m)\<lparr>milo_memory_map :=
          mark_from (marks m) (bottom + 1) ?n TEMPORARY_PAGE\<rparr>\<rparr>"
        have "x + unat sz < (bottom + 1) * ?pb + ?n * ?pb"
          using npb(1) dividend_less_times_div [of ?pb x] by (simp add: bt algebra_simps)
        then have top: "top < bottom + 1 + ?n" unfolding bt by (rule div_lt_add) simp
        have le: "bottom \<le> top" unfolding bt by (simp add: div_le_mono)
        have free: "marks m q = FREE_PAGE" if "bottom < q" "q < bottom + 1 + ?n" for q
          using room [unfolded first_busy_eq_end free_run_def] that by simp
        have mine: "room_at P m ?m x y" if "bottom \<le> y div ?pb" "y div ?pb \<le> top" for y
          using that top free [of "y div ?pb"] \<open>temp_memory_ptr m \<noteq> 0\<close>
          by (cases "y div ?pb = bottom") (auto simp: room_at_def taken_def bt)
        show ?thesis
        proof (rule ok [of ?m x])
          show "make_room P sz m = Some (Inr ?m)" using apart room mr by simp
          show "room_at P m ?m x y" if "x \<le> y" "y < x + unat sz" for y
            using in_block [OF that] mine by blast
          show "room_at P m ?m x (x + unat sz)" using mine le by (simp add: bt)
          show "marks ?m q = marks m q \<or> marks m q = FREE_PAGE \<and> marks ?m q = TEMPORARY_PAGE" for q
            using room [unfolded first_busy_eq_end free_run_def] by auto
        qed (use x False in auto)
      qed
    qed
  qed
qed

lemma make_room_free_cache: "make_room P sz m = Some (Inr m') \<Longrightarrow> free_cache m' = free_cache m"
  by (auto simp: make_room_def new_frames_def Let_def split: if_splits option.splits sum.splits)


subsection \<open>Blocks\<close>

text \<open>The size of a block with its guards and header, and where its bytes begin.\<close>

definition block_size :: "kconf \<Rightarrow> u64 \<Rightarrow> u64" where
  "block_size K sz = request_size K sz + (if REUSE_MEMORY K then SIZEOF_MHEAD else 0)"

definition block_offset :: "kconf \<Rightarrow> u64" where
  "block_offset K = (if REUSE_MEMORY K then SIZEOF_MHEAD else 0) + (if GUARD_BANDS K then 16 else 0)"

lemma unat_request_size:
  assumes "unat sz < 2 ^ 39"
  shows "unat (request_size K sz)
    = unat sz + (8 - unat sz mod 8) + (if GUARD_BANDS K then 32 else 0)"
proof -
  have m: "unat (sz AND 0x7) = unat sz mod 8"
    using unat_and_mask [of sz 3] by (simp add: mask_eq_exp_minus_1)
  have "unat sz mod 8 < 8" by simp
  then have "unat (8 - (sz AND 0x7) :: u64) = 8 - unat sz mod 8"
    using unat_sub_no_wrap [of "sz AND 7" 8] by (simp add: m)
  moreover have "unat (sz + (8 - (sz AND 0x7))) = unat sz + (8 - unat sz mod 8)"
    using assms calculation by (subst unat_add_no_wrap) auto
  moreover have "unat (sz + (8 - (sz AND 0x7)) + 32) = unat sz + (8 - unat sz mod 8) + 32"
    using assms calculation(2) by (subst unat_add_no_wrap) auto
  ultimately show ?thesis by (simp add: request_size_def del: add_diff_eq)
qed

lemma carve_simps [simp]:
  "fst (carve K sz m) = temp_memory_ptr m + block_offset K"
  "frames_of (snd (carve K sz m)) = frames_of m"
  "temp_memory_ptr (snd (carve K sz m)) = temp_memory_ptr m + sz"
  "free_cache (snd (carve K sz m)) = free_cache m"
  by (simp_all add: carve_def block_offset_def Let_def split: prod.split)


lemma block_size_bounds:
  assumes "unat sz < 2 ^ 39"
  shows "unat (block_size K sz) = unat (request_size K sz) + (if REUSE_MEMORY K then 16 else 0)"
    "0 < unat (block_size K sz)" "unat (block_size K sz) < 2 ^ 40"
proof -
  have r: "unat (request_size K sz) < 2 ^ 39 + 64" "0 < unat (request_size K sz)"
    using assms by (auto simp: unat_request_size)
  then show b: "unat (block_size K sz)
      = unat (request_size K sz) + (if REUSE_MEMORY K then 16 else 0)"
    by (auto simp: block_size_def SIZEOF_MHEAD_def unat_add_no_wrap)
  show "0 < unat (block_size K sz)" "unat (block_size K sz) < 2 ^ 40"
    using r by (auto simp: b)
qed

lemma fresh_block_alt:
  "fresh_block P K (request_size K sz) m =
     (case make_room P (block_size K sz) m of
        None \<Rightarrow> None
      | Some (Inl e) \<Rightarrow> Some (Inl e)
      | Some (Inr m') \<Rightarrow> Some (Inr (if temp_memory_ptr m' \<noteq> 0 then carve K (block_size K sz) m'
                                  else (0, m'))))"
proof -
  have "(if REUSE_MEMORY K then request_size K sz + SIZEOF_MHEAD else request_size K sz)
      = block_size K sz"
    by (simp add: block_size_def)
  then show ?thesis unfolding fresh_block_def Let_def by (simp only:)
qed

lemma search_cache_empty: "free_cache m = 0 \<Longrightarrow> search_cache K n m = Some (0, m)"
  by (simp add: search_cache_def find_header.simps)

lemma kmalloc_no_cached:
  "REUSE_MEMORY K \<longrightarrow> search_cache K (ucast (request_size K sz)) m = Some (0, m) \<Longrightarrow>
    kmalloc P K sz m = fresh_block P K (request_size K sz) m"
  by (auto simp: kmalloc_def)

lemma kmalloc_empty_cache:
  "REUSE_MEMORY K \<longrightarrow> free_cache m = 0 \<Longrightarrow>
    kmalloc P K sz m = fresh_block P K (request_size K sz) m"
  by (auto simp: kmalloc_def search_cache_empty)

lemma kmalloc_cases:
  assumes wf: "wf_plat P" and heap: "heap_ok P H m" and bounds: "heap_bounds P m"
    and sz: "unat sz < 2 ^ 39" and cache: "REUSE_MEMORY K \<longrightarrow> search_cache K (ucast (request_size K sz)) m = Some (0, m)"
  obtains (fail) "kmalloc P K sz m = Some (Inl Not_enough_memory)"
    | (ok) m0 x where "make_room P (block_size K sz) m = Some (Inr m0)"
      "temp_memory_ptr m0 = kseg P x" "x \<le> 2 ^ 41"
      "kmalloc P K sz m = Some (Inr (carve K (block_size K sz) m0))"
      "\<And>y. x \<le> y \<Longrightarrow> y < x + unat (block_size K sz) \<Longrightarrow> room_at P m m0 x y"
      "\<And>q. marks m0 q = marks m q \<or> marks m q = FREE_PAGE \<and> marks m0 q = TEMPORARY_PAGE"
      "\<not> page_bytes P dvd unat (block_size K sz) \<Longrightarrow> room_at P m m0 x (x + unat (block_size K sz))"
      "temp_memory_ptr m = 0 \<Longrightarrow> page_bytes P dvd x"
proof (cases rule: make_room_cases [OF wf heap bounds block_size_bounds(2,3) [OF sz], of K])
  case 1
  then show ?thesis
    by (intro fail) (simp add: kmalloc_no_cached [OF cache] fresh_block_alt)
next
  case (2 m' x)
  then have "temp_memory_ptr m' \<noteq> 0" using kseg_nonzero [OF wf, of x] by simp
  with 2 show ?thesis
    by (intro ok [of m' x]) (simp_all add: kmalloc_no_cached [OF cache] fresh_block_alt)
qed


lemma cases_owned:
  assumes "heap_ok P H m" "temp_memory_ptr m' = kseg P x" "wf_plat P" "x \<le> 2 ^ 41" "room_at P m m' x y"
  shows "y div page_bytes P \<in> H \<union> taken m m'"
proof (cases "y div page_bytes P \<in> taken m m'")
  case False
  then have r: "temp_memory_ptr m \<noteq> 0" "kseg P x = temp_memory_ptr m" "y div page_bytes P = x div page_bytes P"
    using assms(2,5) by (simp_all add: room_at_def)
  obtain x' where x': "x' < 2 ^ 41" "temp_memory_ptr m = kseg P x'" "x' div page_bytes P \<in> H"
    using assms(1) r(1) unfolding heap_ok_def by blast
  have "x = x'" by (rule kseg_inj [OF assms(3)]) (use assms(4) x'(1,2) r(2) in simp_all)
  then show ?thesis using r(3) x'(3) by simp
qed simp

text \<open>
  C2: A block of \<open>kmalloc\<close> that does not come from the cache. \<open>H\<close> are the frames that earlier calls took for the heap;
  the call returns, and changes no mark but those of the frames it takes, which were free. The block, with its
  header and its guard bands, lies in frames of \<open>H\<close> or in frames taken by this call. The heap pointer is in such a
  frame again, and the next call may rely on it, but for a block that fills whole pages exactly: the pointer may
  then be in a frame that is not the heap's, see \<open>kmalloc_exact_pages\<close>.
\<close>

theorem kmalloc_block_owned:
  assumes wf: "wf_plat P" and heap: "heap_ok P H m" and bounds: "heap_bounds P m"
    and sz: "unat sz < 2 ^ 39" and cache: "REUSE_MEMORY K \<longrightarrow> free_cache m = 0"
  shows "kmalloc P K sz m = Some (Inl Not_enough_memory) \<or>
    (\<exists>x m'. kmalloc P K sz m = Some (Inr (kseg P x + block_offset K, m')) \<and>
       owned P (H \<union> taken m m') x (unat (block_size K sz)) \<and>
       (\<forall>q. marks m' q = (if q \<in> taken m m' then TEMPORARY_PAGE else marks m q)) \<and>
       (page_bytes P dvd unat (block_size K sz) \<or> 2 ^ 41 \<le> x + unat (block_size K sz) \<or>
        heap_ok P (H \<union> taken m m') m'))"
proof (cases rule: kmalloc_cases [OF wf heap bounds sz, of K])
  case 1
  show ?case using cache by (simp add: search_cache_empty)
next
  case (3 m0 x)
  let ?m = "snd (carve K (block_size K sz) m0)" and ?n = "unat (block_size K sz)"
  have t: "taken m ?m = taken m m0" by (simp add: taken_def)
  note owned = cases_owned [OF heap 3(2) wf 3(3)]
  have "temp_memory_ptr ?m = kseg P (x + ?n)"
    using kseg_add [of P x ?n] by (simp add: 3(2) of_nat_unat_ucast)
  then have "page_bytes P dvd ?n \<or> 2 ^ 41 \<le> x + ?n \<or> heap_ok P (H \<union> taken m m0) ?m"
    using owned [OF 3(7)] by (auto simp: heap_ok_def not_le)
  moreover have "kmalloc P K sz m = Some (Inr (kseg P x + block_offset K, ?m))"
    unfolding 3(2) [symmetric] 3(4) by (metis carve_simps(1) prod.collapse)
  moreover have "marks ?m q = (if q \<in> taken m m0 then TEMPORARY_PAGE else marks m q)" for q
    using 3(6) [of q] by (auto simp: taken_def)
  moreover have "owned P (H \<union> taken m m0) x ?n" using owned 3(5) by (auto simp: owned_def)
  ultimately show ?thesis unfolding t [symmetric] by blast
qed simp

text \<open>
  The heap's one gap: when the first block fills its pages exactly, the heap goes on in the
  frame after them, which it does not own. The next block that fits in one page is handed out
  there although the frame is still marked free.
\<close>

theorem kmalloc_exact_pages:
  assumes wf: "wf_plat P" and first: "temp_memory_ptr m = 0" and bounds: "heap_bounds P m"
    and sz: "unat sz < 2 ^ 39" and cache: "REUSE_MEMORY K \<longrightarrow> free_cache m = 0"
    and full: "page_bytes P dvd unat (block_size K sz)"
    and res: "kmalloc P K sz m = Some (Inr (p, m1))"
    and sz2: "unat sz2 < 2 ^ 39" "unat (block_size K sz2) < page_bytes P"
    and free: "marks m1 (unat (PHYSICAL_TO_PFN P (temp_memory_ptr m1))) = FREE_PAGE"
  shows "\<exists>m2. kmalloc P K sz2 m1 = Some (Inr (temp_memory_ptr m1 + block_offset K, m2)) \<and>
     marks m2 (unat (PHYSICAL_TO_PFN P (temp_memory_ptr m1))) = FREE_PAGE"
proof -
  let ?n = "unat (block_size K sz)" and ?n2 = "unat (block_size K sz2)" and ?pb = "page_bytes P"
  have heap: "heap_ok P {} m" using first by (simp add: heap_ok_def)
  show ?thesis
  proof (cases rule: kmalloc_cases [OF wf heap bounds sz, of K])
    case 1
    show ?case using cache by (simp add: search_cache_empty)
  next
    case 2
    with res show ?thesis by simp
  next
    case (3 m0 x)
    have m1: "m1 = snd (carve K (block_size K sz) m0)"
      using 3(4) res by (metis Inr_inject option.inject snd_conv)
    have ptr: "temp_memory_ptr m1 = kseg P (x + ?n)"
      using kseg_add [of P x ?n] by (simp add: m1 3(2) of_nat_unat_ucast)
    have dvd: "?pb dvd x" using 3(8) first .
    have small: "x + ?n + ?n2 < 2 ^ 42"
      using 3(3) block_size_bounds(3) [OF sz, of K] block_size_bounds(3) [OF sz2(1), of K] by simp
    have same: "(x + ?n + ?n2) div ?pb = (x + ?n) div ?pb"
      by (rule div_add_small) (use dvd full sz2(2) in simp_all)
    have n2: "temp_memory_ptr m1 + block_size K sz2 = kseg P (x + ?n + ?n2)"
      using kseg_add [of P "x + ?n" ?n2] by (simp add: ptr of_nat_unat_ucast)
    have "make_room P (block_size K sz2) m1 = Some (Inr m1)"
      using kseg_nonzero [OF wf, of "x + ?n"] small same pfn32_of_kseg [OF wf, of "x + ?n"]
        pfn32_of_kseg [OF wf small]
      by (simp add: make_room_def Let_def n2 word_eq_iff_unat) (simp add: ptr)
    moreover have "REUSE_MEMORY K \<longrightarrow> free_cache m1 = 0"
      using cache make_room_free_cache [OF 3(1)] by (simp add: m1)
    ultimately have "kmalloc P K sz2 m1 = Some (Inr (carve K (block_size K sz2) m1))"
      using kseg_nonzero [OF wf, of "x + ?n"] small
      by (simp add: kmalloc_empty_cache fresh_block_alt ptr)
    then show ?thesis using free by (metis carve_simps(1,2) prod.collapse)
  qed
qed


definition alpha :: plat where
  "alpha = \<lparr>PAGE_SHIFT = 13, PAGE_OFFSET = 0xfffffc0000000000, KERNEL_START = 0xfffffc0000300000,
     PALCODE_AT = 0xfffffc0000200000, STUB_AT = 0xfffffc0000210000,
     LOADER_AT = 0xfffffc0000d00000, PALCODE_SIZE = 0x10000\<rparr>"

definition two_frames :: mem where
  "two_frames = \<lparr>frames_of = \<lparr>milo_memory_map = (\<lambda>_. FREE_PAGE), lastpfn = 1\<rparr>, map_addr = 0,
     milo_memory_size = 0, temp_memory_ptr = 0, free_cache = 0, hd_size = (\<lambda>_. 0),
     hd_next = (\<lambda>_. 0), ram = (\<lambda>_. 0)\<rparr>"

definition no_options :: kconf where
  "no_options = \<lparr>REUSE_MEMORY = False, GUARD_BANDS = False\<rparr>"

lemma no_options_simps [simp]: "\<not> REUSE_MEMORY no_options" "\<not> GUARD_BANDS no_options"
  by (simp_all add: no_options_def)

lemma mask_42: "mask 42 = (0x3ffffffffff :: u64)"
  by (simp add: mask_eq_exp_minus_1)

lemma wf_alpha: "wf_plat alpha"
  by (simp add: wf_plat_def alpha_def mask_42)

lemma two_frames_ok: "heap_ok alpha {} two_frames" "heap_bounds alpha two_frames"
  by (simp_all add: heap_ok_def heap_bounds_def two_frames_def page_bytes_def alpha_def)

theorem kmalloc_block_owned_witness:
  "kmalloc alpha no_options 100 two_frames = Some (Inl Not_enough_memory) \<or>
    (\<exists>x m'. kmalloc alpha no_options 100 two_frames
        = Some (Inr (kseg alpha x + block_offset no_options, m')) \<and>
       owned alpha ({} \<union> taken two_frames m') x (unat (block_size no_options 100)) \<and>
       (\<forall>q. marks m' q = (if q \<in> taken two_frames m' then TEMPORARY_PAGE else marks two_frames q)) \<and>
       (page_bytes alpha dvd unat (block_size no_options 100) \<or>
        2 ^ 41 \<le> x + unat (block_size no_options 100) \<or> heap_ok alpha ({} \<union> taken two_frames m') m'))"
  by (rule kmalloc_block_owned [OF wf_alpha two_frames_ok]) (simp_all add: no_options_def)


text \<open>
  A page less its header: the rounded size is exactly one page of 8 Kbytes, and the second
  block is handed out in frame 1, which nobody owns.
\<close>

lemma alpha_pages:
  "page_bytes alpha = 8192" "PAGE_SIZE alpha = 8192"
  "block_size no_options 8184 = 8192" "block_size no_options 8 = 16" "block_offset no_options = 0"
  by (simp_all add: page_bytes_def PAGE_SIZE_def alpha_def block_size_def request_size_def
      no_options_def block_offset_def)

lemma two_frames_alloc:
  "allocate_many_pfn 1 TEMPORARY_PAGE (frames_of two_frames)
    = Some (Inr (0, \<lparr>milo_memory_map = (\<lambda>_. FREE_PAGE)(0 := TEMPORARY_PAGE), lastpfn = 1\<rparr>))"
  by (simp add: allocate_many_pfn_def two_frames_def find_block_size_def search_pfn.simps
      numeral_eq_Suc)

lemma full_page_block:
  "kmalloc alpha no_options 8184 two_frames = Some (Inr (PAGE_OFFSET alpha,
     two_frames\<lparr>frames_of := \<lparr>milo_memory_map = (\<lambda>_. FREE_PAGE)(0 := TEMPORARY_PAGE), lastpfn = 1\<rparr>,
       temp_memory_ptr := PAGE_OFFSET alpha + 8192,
       ram := fill (\<lambda>_. 0) (PAGE_OFFSET alpha) 8192 0\<rparr>))"
proof -
  have "make_room alpha (block_size no_options 8184) two_frames = Some (Inr (two_frames
    \<lparr>frames_of := \<lparr>milo_memory_map = (\<lambda>_. FREE_PAGE)(0 := TEMPORARY_PAGE), lastpfn = 1\<rparr>,
     temp_memory_ptr := PAGE_OFFSET alpha\<rparr>))"
    using two_frames_alloc
    by (simp add: make_room_def alpha_pages new_frames_def PFN_TO_PHYSICAL_def)
      (simp add: two_frames_def)
  then show ?thesis
    by (subst kmalloc_empty_cache)
      (simp_all add: no_options_def fresh_block_alt carve_def alpha_def alpha_pages(3)
        [unfolded no_options_def] two_frames_def)
qed

theorem kmalloc_exact_pages_witness:
  "\<exists>m1 m2. kmalloc alpha no_options 8184 two_frames = Some (Inr (PAGE_OFFSET alpha, m1)) \<and>
     kmalloc alpha no_options 8 m1 = Some (Inr (PAGE_OFFSET alpha + 8192, m2)) \<and>
     marks m2 1 = FREE_PAGE"
proof -
  define m1 where "m1 = two_frames\<lparr>
    frames_of := \<lparr>milo_memory_map = (\<lambda>_. FREE_PAGE)(0 := TEMPORARY_PAGE), lastpfn = 1\<rparr>,
    temp_memory_ptr := PAGE_OFFSET alpha + 8192, ram := fill (\<lambda>_. 0) (PAGE_OFFSET alpha) 8192 0\<rparr>"
  have one: "unat (PHYSICAL_TO_PFN alpha (temp_memory_ptr m1)) = 1"
    by (simp add: m1_def PHYSICAL_TO_PFN_def alpha_def)
  have res: "kmalloc alpha no_options 8184 two_frames = Some (Inr (PAGE_OFFSET alpha, m1))"
    using full_page_block by (simp add: m1_def)
  have "\<exists>m2. kmalloc alpha no_options 8 m1
      = Some (Inr (temp_memory_ptr m1 + block_offset no_options, m2)) \<and>
      marks m2 (unat (PHYSICAL_TO_PFN alpha (temp_memory_ptr m1))) = FREE_PAGE"
    by (rule kmalloc_exact_pages [OF wf_alpha _ two_frames_ok(2) _ _ _ res])
      (simp_all add: two_frames_def alpha_pages one, simp_all add: m1_def)
  then show ?thesis using res one by (auto simp: alpha_pages(5)) (auto simp: m1_def)
qed


text \<open>
  With \<open>REUSE_MEMORY\<close>, a freed block is the next one handed out to a request that fits in
  it: the address is the one freed and the cache is as it was before.
\<close>

theorem kmalloc_reuses_freed:
  assumes reuse: "REUSE_MEMORY K"
    and header: "h = p - (if GUARD_BANDS K then 16 else 0) - SIZEOF_MHEAD" "h \<noteq> 0" "p \<noteq> 0"
    and fits: "ucast (ucast (request_size K n) :: u32) \<le> hd_size m h"
  shows "\<exists>m'. kmalloc P K n (free K p m) = Some (Inr (p, m')) \<and> free_cache m' = free_cache m"
proof -
  have "search_cache K (ucast (request_size K n)) (free K p m)
      = Some (p, (free K p m)\<lparr>free_cache := free_cache m\<rparr>)"
    using assms by (simp add: search_cache_def free_def Let_def find_header.simps)
  then show ?thesis using reuse header by (simp add: kmalloc_def)
qed

theorem kmalloc_reuses_freed_witness:
  "\<exists>m'. kmalloc alpha \<lparr>REUSE_MEMORY = True, GUARD_BANDS = True\<rparr> 100
      (free \<lparr>REUSE_MEMORY = True, GUARD_BANDS = True\<rparr> 0x2000 (two_frames\<lparr>hd_size := (\<lambda>_. 200)\<rparr>))
    = Some (Inr (0x2000, m')) \<and> free_cache m' = free_cache (two_frames\<lparr>hd_size := (\<lambda>_. 200)\<rparr>)"
  by (rule kmalloc_reuses_freed [where h = "0x1fe0"])
    (simp_all add: SIZEOF_MHEAD_def request_size_def)

subsection \<open>The reserved regions\<close>

lemma mark_many_marks:
  "milo_memory_map (mark_many_pfn pfn count t f) q =
     (if 0 < sint count \<and> unat pfn \<le> q \<and> q < unat pfn + unat count then t
      else milo_memory_map f q)"
  by (simp add: mark_many_pfn_def)

lemma mark_many_lastpfn [simp]: "lastpfn (mark_many_pfn pfn count t f) = lastpfn f"
  by (simp add: mark_many_pfn_def)

text \<open>The frames \<open>init_mem\<close> keeps from the allocator, besides those of the map itself.\<close>

definition in_region :: "plat \<Rightarrow> u64 \<Rightarrow> u64 \<Rightarrow> nat \<Rightarrow> bool" where
  "in_region P at sz q \<longleftrightarrow> 0 < sint (ucast (PHYSICAL_TO_PFN P sz) :: u32) \<and>
     unat (ucast (PHYSICAL_TO_PFN P at) :: u32) \<le> q \<and>
     q < unat (ucast (PHYSICAL_TO_PFN P at) :: u32) + unat (ucast (PHYSICAL_TO_PFN P sz) :: u32)"

definition reserved :: "plat \<Rightarrow> nat \<Rightarrow> bool" where
  "reserved P q \<longleftrightarrow> q = 0 \<or> in_region P (LOADER_AT P) 0x100000 q \<or> in_region P (STUB_AT P) 0x80000 q \<or>
     in_region P (KERNEL_START P) MAX_KERNEL_SIZE q \<or> in_region P (PALCODE_AT P) (PALCODE_SIZE P) q"

lemma mark_region_marks:
  "milo_memory_map (mark_region P at sz t f) q = (if in_region P at sz q then t else milo_memory_map f q)"
  by (simp add: mark_region_def mark_many_marks in_region_def)

lemma mark_region_lastpfn [simp]: "lastpfn (mark_region P at sz t f) = lastpfn f"
  by (simp add: mark_region_def)

lemma init_mem_reserved: "reserved P q \<Longrightarrow> marks (init_mem P Top m) q \<noteq> FREE_PAGE"
  by (auto simp: init_mem_def Let_def mark_region_marks mark_many_marks reserved_def)

lemma init_32MB:
  "lastpfn (frames_of (init_mem alpha 0x2000000 two_frames)) = 4095"
  "marks (init_mem alpha 0x2000000 two_frames) 0 = ALLOCATED_PAGE"
  "marks (init_mem alpha 0x2000000 two_frames) 1 = FREE_PAGE"
  by (simp_all add: init_mem_def Let_def mark_region_marks mark_many_marks in_region_def
      PHYSICAL_TO_PFN_def alpha_def PAGE_SIZE_def MILO_MIN_MEMORY_SIZE_def MAX_KERNEL_SIZE_def)

end
