(* ===== verification/Allocations.thy ===== *)
theory Allocations
  imports Memory
begin

text \<open>
  Sequences of allocations. \<open>alloc_run\<close> is what the program can do with the allocators of \<open>memory.c\<close> between the
  set-up of the memory and the start of the kernel: calls of \<open>kmalloc\<close>, \<open>kfree\<close>, \<open>allocate_many_pfn\<close> and \<open>allocate_pfn\<close> in any
  order. The invariant keeps the blocks that are in use and those in the free list apart, as intervals of physical
  addresses in the frames of the heap.
\<close>

subsection \<open>The free list\<close>

primrec chain :: "(u64 \<Rightarrow> u64) \<Rightarrow> u64 \<Rightarrow> u64 list \<Rightarrow> bool" where
  "chain nexts h [] \<longleftrightarrow> h = 0"
| "chain nexts h (a # as) \<longleftrightarrow> h = a \<and> a \<noteq> 0 \<and> chain nexts (nexts a) as"

lemma chain_upd: "a \<notin> set as \<Longrightarrow> chain (nexts(a := b)) h as = chain nexts h as"
  by (induction as arbitrary: h) auto

lemma chain_unlink:
  assumes "chain nexts h (xs @ a # ys)" "distinct (xs @ a # ys)" "xs \<noteq> []"
  shows "chain (nexts(last xs := nexts a)) h (xs @ ys)"
  using assms
proof (induction xs arbitrary: h)
  case (Cons x xs)
  then have h: "h = x" "x \<noteq> 0" "chain nexts (nexts x) (xs @ a # ys)" "distinct (xs @ a # ys)" "x \<notin> set (xs @ a # ys)" by auto
  show ?case
  proof (cases "xs = []")
    case True
    have "chain (nexts(x := nexts a)) (nexts a) ys" using h True by (simp add: chain_upd del: fun_upd_apply)
    moreover have "chain (nexts(x := nexts a)) h (x # ys) = chain (nexts(x := nexts a)) (nexts a) ys" using h(1,2) by simp
    ultimately show ?thesis by (simp only: True append_Nil append_Cons last.simps if_True simp_thms)
  next
    case False
    then have "x \<noteq> last xs" using h(5) by auto
    then show ?thesis using Cons.IH [OF h(3,4) False] h(1,2) False by simp
  qed
qed simp

lemma find_header_chain:
  assumes "chain nexts h as"
  shows "(\<forall>a \<in> set as. sizes a < ucast sz) \<and> find_header sizes nexts sz prev h = Some None \<or>
    (\<exists>xs a ys. as = xs @ a # ys \<and> ucast sz \<le> sizes a \<and>
       find_header sizes nexts sz prev h = Some (Some (if xs = [] then prev else last xs, a)))"
  using assms
proof (induction as arbitrary: prev h)
  case Nil
  then show ?case by (simp add: find_header.simps)
next
  case (Cons a as)
  then have h: "h = a" "a \<noteq> 0" "chain nexts (nexts a) as" by simp_all
  show ?case
  proof (cases "ucast sz \<le> sizes a")
    case True
    then show ?thesis using h by (intro disjI2 exI [of _ "[]"]) (simp add: find_header.simps [of _ _ _ _ a])
  next
    case False
    then have e: "find_header sizes nexts sz prev h = find_header sizes nexts sz a (nexts a)"
      using h by (simp add: find_header.simps [of _ _ _ _ a])
    from Cons.IH [OF h(3), of a] show ?thesis
    proof
      assume "(\<forall>a \<in> set as. sizes a < ucast sz) \<and> find_header sizes nexts sz a (nexts a) = Some None"
      then show ?thesis using False by (simp add: e not_le)
    next
      assume "\<exists>xs b ys. as = xs @ b # ys \<and> ucast sz \<le> sizes b \<and>
        find_header sizes nexts sz a (nexts a) = Some (Some (if xs = [] then a else last xs, b))"
      then obtain xs b ys where "as = xs @ b # ys" "ucast sz \<le> sizes b"
          "find_header sizes nexts sz a (nexts a) = Some (Some (if xs = [] then a else last xs, b))"
        by blast
      then show ?thesis by (intro disjI2 exI [of _ "a # xs"] exI [of _ b] exI [of _ ys]) (simp add: e)
    qed
  qed
qed

subsection \<open>The invariant of the heap\<close>

type_synonym block = "nat \<times> nat"

definition apart :: "block \<Rightarrow> block \<Rightarrow> bool" where
  "apart b c \<longleftrightarrow> fst b + snd b \<le> fst c \<or> fst c + snd c \<le> fst b"

definition block_ok :: "plat \<Rightarrow> kconf \<Rightarrow> nat set \<Rightarrow> block \<Rightarrow> bool" where
  "block_ok P K H b \<longleftrightarrow> fst b + snd b < 2 ^ 42 \<and> unat (block_offset K) < snd b \<and> owned P H (fst b) (snd b)"

text \<open>The rest of the frame after the heap pointer is free of blocks.\<close>

definition clear_after :: "plat \<Rightarrow> mem \<Rightarrow> block \<Rightarrow> bool" where
  "clear_after P m b \<longleftrightarrow> (\<forall>y < 2 ^ 42. temp_memory_ptr m \<noteq> 0 \<and> temp_memory_ptr m = kseg P y \<longrightarrow>
     fst b + snd b \<le> y \<or> (y div page_bytes P + 1) * page_bytes P \<le> fst b)"

definition heap_inv :: "plat \<Rightarrow> kconf \<Rightarrow> mem \<Rightarrow> nat set \<Rightarrow> block list \<Rightarrow> block list \<Rightarrow> bool" where
  "heap_inv P K m H used cached \<longleftrightarrow>
     heap_ok P H m \<and> (\<forall>q \<in> H. marks m q \<noteq> FREE_PAGE) \<and>
     (\<forall>b \<in> set (used @ cached). block_ok P K H b \<and> clear_after P m b) \<and>
     distinct (used @ cached) \<and> pairwise apart (set (used @ cached)) \<and>
     (REUSE_MEMORY K \<longrightarrow> (\<forall>b \<in> set (used @ cached). hd_size m (kseg P (fst b)) = of_nat (snd b - 16)) \<and>
        chain (hd_next m) (free_cache m) (map (kseg P \<circ> fst) cached))"

lemma pointer_cong:
  "temp_memory_ptr m' = temp_memory_ptr m \<Longrightarrow> clear_after P m' = clear_after P m"
  "temp_memory_ptr m' = temp_memory_ptr m \<Longrightarrow> heap_ok P H m' = heap_ok P H m"
  by (auto simp: clear_after_def heap_ok_def fun_eq_iff)

lemma block_offset_cases: "unat (block_offset K) = (if REUSE_MEMORY K then 16 else 0) + (if GUARD_BANDS K then 16 else 0)"
  by (simp add: block_offset_def SIZEOF_MHEAD_def)

lemma offset_in_block:
  assumes "unat sz < 2 ^ 39"
  shows "unat (block_offset K) + unat sz < unat (block_size K sz)"
proof -
  have "unat sz mod 8 < 8" by simp
  then show ?thesis
    using assms by (auto simp: block_offset_cases block_size_bounds(1) unat_request_size)
qed

text \<open>Blocks that share no frame, but for the clear one, are apart.\<close>

lemma apart_of_frames:
  assumes "\<And>z. x \<le> z \<Longrightarrow> z < x + n \<Longrightarrow> fst b \<le> z \<Longrightarrow> z < fst b + snd b \<Longrightarrow> False" "0 < n" "0 < snd b"
  shows "apart (x, n) b"
proof (rule ccontr)
  assume "\<not> apart (x, n) b"
  then have "fst b < x + n" "x < fst b + snd b" by (auto simp: apart_def)
  then show False using assms(1) [of "max x (fst b)"] assms(2,3) by auto
qed

lemma apart_commute: "apart a b = apart b a" by (auto simp: apart_def)

lemma keys_distinct:
  assumes wf: "wf_plat P" and bs: "\<forall>b \<in> set bs. block_ok P K H b" "distinct bs" "pairwise apart (set bs)"
  shows "distinct (map (kseg P \<circ> fst) bs)"
proof -
  have "inj_on (kseg P \<circ> fst) (set bs)"
  proof (rule inj_onI, rule ccontr)
    fix b c assume b: "b \<in> set bs" "c \<in> set bs" "(kseg P \<circ> fst) b = (kseg P \<circ> fst) c" "b \<noteq> c"
    have ok: "block_ok P K H b" "block_ok P K H c" using bs(1) b(1,2) by auto
    then have "fst b < 2 ^ 42" "fst c < 2 ^ 42" "0 < snd b" "0 < snd c" by (auto simp: block_ok_def)
    then have "fst b = fst c" using kseg_inj [OF wf] b(3) by simp
    moreover have "apart b c" using bs(3) b by (auto simp: pairwise_def)
    ultimately show False using \<open>0 < snd b\<close> \<open>0 < snd c\<close> by (auto simp: apart_def)
  qed
  then show ?thesis using bs(2) by (simp add: distinct_map)
qed

subsection \<open>A block from the free list\<close>

lemma search_cache_inv:
  assumes wf: "wf_plat P" and inv: "heap_inv P K m H used cached" and re: "REUSE_MEMORY K"
  obtains (none) "search_cache K sz m = Some (0, m)"
    | (hit) xs b ys m' where "cached = xs @ b # ys" "search_cache K sz m = Some (kseg P (fst b) + block_offset K, m')"
      "ucast sz \<le> hd_size m (kseg P (fst b))" "kseg P (fst b) + block_offset K \<noteq> 0"
      "frames_of m' = frames_of m" "temp_memory_ptr m' = temp_memory_ptr m" "hd_size m' = hd_size m"
      "chain (hd_next m') (free_cache m') (map (kseg P \<circ> fst) (xs @ ys))"
proof -
  let ?k = "kseg P \<circ> fst"
  have ch: "chain (hd_next m) (free_cache m) (map ?k cached)" using inv re by (simp add: heap_inv_def)
  have dis: "distinct (map ?k cached)"
    by (rule keys_distinct [OF wf, of _ K H]) (use inv in \<open>auto simp: heap_inv_def pairwise_def\<close>)
  from find_header_chain [OF ch, of "hd_size m" sz 0] show ?thesis
  proof
    assume "(\<forall>a \<in> set (map ?k cached). hd_size m a < ucast sz) \<and>
      find_header (hd_size m) (hd_next m) sz 0 (free_cache m) = Some None"
    then show ?thesis by (intro none) (simp add: search_cache_def)
  next
    assume "\<exists>xs a ys. map ?k cached = xs @ a # ys \<and> ucast sz \<le> hd_size m a \<and>
      find_header (hd_size m) (hd_next m) sz 0 (free_cache m) = Some (Some (if xs = [] then 0 else last xs, a))"
    then obtain as a cs where f: "map ?k cached = as @ a # cs" "ucast sz \<le> hd_size m a"
        "find_header (hd_size m) (hd_next m) sz 0 (free_cache m) = Some (Some (if as = [] then 0 else last as, a))"
      by blast
    obtain xs b ys where c: "cached = xs @ b # ys" "as = map ?k xs" "a = ?k b" "cs = map ?k ys"
      using f(1) by (auto simp: map_eq_append_conv map_eq_Cons_conv)
    let ?m = "if a = free_cache m then m\<lparr>free_cache := hd_next m a\<rparr> else m\<lparr>hd_next := (hd_next m)(last as := hd_next m a)\<rparr>"
    have first: "as = [] \<longleftrightarrow> a = free_cache m"
      using ch dis unfolding f(1) by (cases as) auto
    have "chain (hd_next ?m) (free_cache ?m) (as @ cs)"
    proof (cases "as = []")
      case True
      then show ?thesis using ch first unfolding f(1) by simp
    next
      case False
      then show ?thesis using chain_unlink [OF ch [unfolded f(1)] dis [unfolded f(1)]] first by simp
    qed
    moreover have "search_cache K sz m = Some (kseg P (fst b) + block_offset K, ?m)"
      using first by (auto simp: search_cache_def f(3) c(3) block_offset_def re)
    moreover have "kseg P (fst b) + block_offset K \<noteq> 0"
    proof -
      have "block_ok P K H b" using inv c(1) by (simp add: heap_inv_def)
      then have "fst b + unat (block_offset K) < 2 ^ 42" by (simp add: block_ok_def)
      then show ?thesis using kseg_nonzero [OF wf] kseg_add [of P "fst b" "unat (block_offset K)"]
        by (simp add: of_nat_unat_ucast)
    qed
    ultimately show ?thesis using c f(2) by (intro hit [of xs b ys ?m]) simp_all
  qed
qed

subsection \<open>Steps of the heap\<close>

lemma heap_invD:
  assumes "heap_inv P K m H used cached"
  shows "heap_ok P H m" "q \<in> H \<Longrightarrow> marks m q \<noteq> FREE_PAGE"
    "b \<in> set (used @ cached) \<Longrightarrow> block_ok P K H b" "b \<in> set (used @ cached) \<Longrightarrow> clear_after P m b"
    "distinct (used @ cached)" "pairwise apart (set (used @ cached))"
  using assms unfolding heap_inv_def by blast+

text \<open>A new block and the new pointer are clear of the blocks there are.\<close>

lemma new_block_apart:
  assumes wf: "wf_plat P" and inv: "heap_inv P K m H used cached" and b: "b \<in> set (used @ cached)" and n: "0 < n"
    and x: "temp_memory_ptr m' = kseg P x" "x \<le> 2 ^ 41"
    and room: "\<And>y. x \<le> y \<Longrightarrow> y < x + n \<Longrightarrow> room_at P m m' x y"
  shows "apart (x, n) b"
proof (rule apart_of_frames [OF _ n])
  note ok = heap_invD(3) [OF inv b, unfolded block_ok_def owned_def]
  show "0 < snd b" using ok by simp
  fix z assume z: "x \<le> z" "z < x + n" "fst b \<le> z" "z < fst b + snd b"
  have "z div page_bytes P \<in> H" using ok z by blast
  then have "z div page_bytes P \<notin> taken m m'" using heap_invD(2) [OF inv] by (auto simp: taken_def)
  then have r: "temp_memory_ptr m \<noteq> 0" "temp_memory_ptr m = kseg P x" "z div page_bytes P = x div page_bytes P"
    using room [OF z(1,2)] x(1) by (auto simp: room_at_def)
  then have "fst b + snd b \<le> x \<or> (x div page_bytes P + 1) * page_bytes P \<le> fst b"
    using heap_invD(4) [OF inv b] x(2) by (simp add: clear_after_def)
  then show False
  proof
    assume "(x div page_bytes P + 1) * page_bytes P \<le> fst b"
    then have "x div page_bytes P + 1 \<le> z div page_bytes P"
      using z(3) by (simp add: less_eq_div_iff_mult_less_eq)
    then show False using r(3) by simp
  qed (use z in simp)
qed

lemma new_pointer_clear:
  assumes wf: "wf_plat P" and inv: "heap_inv P K m H used cached" and b: "b \<in> set (used @ cached)"
    and x: "temp_memory_ptr m' = kseg P x" "x + n < 2 ^ 42" "temp_memory_ptr m'' = kseg P (x + n)"
    and room: "room_at P m m' x (x + n)"
  shows "clear_after P m'' b"
  unfolding clear_after_def
proof (intro allI impI, elim conjE)
  let ?top = "(x + n) div page_bytes P"
  fix y assume y: "y < 2 ^ 42" "temp_memory_ptr m'' = kseg P y"
  then have e: "y = x + n" using kseg_inj [OF wf] x(2,3) by simp
  note ok = heap_invD(3) [OF inv b, unfolded block_ok_def owned_def]
  have "fst b + snd b \<le> x + n \<or> (?top + 1) * page_bytes P \<le> fst b"
  proof (cases "?top \<in> taken m m'")
    case True
    show ?thesis
    proof (rule ccontr)
      assume n: "\<not> ?thesis"
      let ?z = "max (fst b) (x + n)"
      have "?z div page_bytes P < ?top + 1"
        using n dividend_less_times_div [of "page_bytes P" "x + n"]
        by (simp add: div_less_iff_less_mult algebra_simps)
      moreover have "?top \<le> ?z div page_bytes P" by (simp add: div_le_mono)
      ultimately have "?z div page_bytes P = ?top" by simp
      moreover have "?z div page_bytes P \<in> H" using ok n by simp
      ultimately show False using True heap_invD(2) [OF inv] by (auto simp: taken_def)
    qed
  next
    case False
    then have r: "temp_memory_ptr m \<noteq> 0" "temp_memory_ptr m = kseg P x" "?top = x div page_bytes P"
      using room x(1) by (auto simp: room_at_def)
    have "fst b + snd b \<le> x \<or> (x div page_bytes P + 1) * page_bytes P \<le> fst b"
      using heap_invD(4) [OF inv b] x(2) r(1,2) unfolding clear_after_def by (metis add_lessD1)
    then show ?thesis unfolding r(3) by auto
  qed
  then show "fst b + snd b \<le> y \<or> (y div page_bytes P + 1) * page_bytes P \<le> fst b" unfolding e .
qed

lemma carve_headers:
  "hd_size (snd (carve K sz m)) = (if REUSE_MEMORY K then (hd_size m)(temp_memory_ptr m := sz - SIZEOF_MHEAD) else hd_size m)"
  "hd_next (snd (carve K sz m)) = (if REUSE_MEMORY K then (hd_next m)(temp_memory_ptr m := 0) else hd_next m)"
  by (simp_all add: carve_def Let_def)

lemma make_room_headers:
  "make_room P sz m = Some (Inr m') \<Longrightarrow> hd_size m' = hd_size m \<and> hd_next m' = hd_next m \<and> free_cache m' = free_cache m \<and>
    lastpfn (frames_of m') = lastpfn (frames_of m)"
  by (auto simp: make_room_def new_frames_def allocate_many_pfn_def Let_def split: if_splits option.splits sum.splits)

definition below_limit :: "plat \<Rightarrow> mem \<Rightarrow> bool" where
  "below_limit P m \<longleftrightarrow> temp_memory_ptr m AND NOT (PAGE_OFFSET P) < 2 ^ 41"

text \<open>The block that serves a request for \<open>sz\<close> bytes with the pointer \<open>p\<close>.\<close>

definition serves :: "plat \<Rightarrow> kconf \<Rightarrow> u64 \<times> u64 \<Rightarrow> block \<Rightarrow> bool" where
  "serves P K r b \<longleftrightarrow> fst r = kseg P (fst b) + block_offset K \<and> unat (snd r) + unat (block_offset K) \<le> snd b"

lemma fresh_step:
  assumes wf: "wf_plat P" and inv: "heap_inv P K m H used cached" and bounds: "heap_bounds P m"
    and sz: "unat sz < 2 ^ 31" "\<not> page_bytes P dvd unat (block_size K sz)"
    and none: "REUSE_MEMORY K \<longrightarrow> search_cache K (ucast (request_size K sz)) m = Some (0, m)"
    and res: "kmalloc P K sz m = Some (Inr (p, m'))" and limit: "below_limit P m'"
  shows "\<exists>b. heap_inv P K m' (H \<union> taken m m') (b # used) cached \<and> serves P K (p, sz) b \<and>
    (\<forall>q. marks m' q = (if q \<in> taken m m' then TEMPORARY_PAGE else marks m q)) \<and> lastpfn (frames_of m') = lastpfn (frames_of m)"
proof -
  let ?n = "unat (block_size K sz)"
  have sz': "unat sz < 2 ^ 39" using sz(1) by simp
  show ?thesis
  proof (cases rule: kmalloc_cases [OF wf heap_invD(1) [OF inv] bounds sz', of K])
    case 1
    show ?case using none .
  next
    case 2
    then show ?thesis using res by simp
  next
    case (3 m0 x)
    define m2 where "m2 = snd (carve K (block_size K sz) m0)"
    have m': "m' = m2" "p = kseg P x + block_offset K"
      using res 3(4) unfolding m2_def 3(2) [symmetric] by (metis Inr_inject carve_simps(1) option.inject prod.collapse prod.inject)+
    have n: "0 < ?n" "?n < 2 ^ 40" using block_size_bounds(2,3) [OF sz'] by simp_all
    have ptr: "temp_memory_ptr m2 = kseg P (x + ?n)" "x + ?n < 2 ^ 42"
      using kseg_add [of P x ?n] 3(3) n(2) by (simp_all add: m2_def 3(2) of_nat_unat_ucast)
    have lim: "x + ?n < 2 ^ 41"
      using limit ptr kseg_strip [OF wf ptr(2)] kseg_nat [OF ptr(2)] by (simp add: below_limit_def m'(1) word_less_nat_alt)
    have t: "taken m m2 = taken m m0" "marks m2 = marks m0" by (simp_all add: taken_def m2_def)
    note owned = cases_owned [OF heap_invD(1) [OF inv] 3(2) wf 3(3)]
    have clear: "clear_after P m2 b" if "b \<in> set (used @ cached)" for b
      by (rule new_pointer_clear [OF wf inv that 3(2) ptr(2,1) 3(7) [OF sz(2)]])
    have new: "apart (x, ?n) b" if "b \<in> set (used @ cached)" for b
      by (rule new_block_apart [OF wf inv that n(1) 3(2,3,5)])
    then have fresh: "(x, ?n) \<notin> set (used @ cached)" using n(1) by (force simp: apart_def)
    have mine: "block_ok P K (H \<union> taken m m2) (x, ?n)"
      using ptr(2) offset_in_block [OF sz', of K] owned 3(5) unfolding t by (auto simp: block_ok_def owned_def)
    have old: "block_ok P K (H \<union> taken m m2) b" if "b \<in> set (used @ cached)" for b
      using heap_invD(3) [OF inv that] by (auto simp: block_ok_def owned_def)
    have "heap_ok P (H \<union> taken m m2) m2"
      using owned [OF 3(7) [OF sz(2)]] ptr(1) lim unfolding t by (auto simp: heap_ok_def)
    moreover have "\<forall>q \<in> H \<union> taken m m2. marks m2 q \<noteq> FREE_PAGE"
    proof
      fix q assume q: "q \<in> H \<union> taken m m2"
      show "marks m2 q \<noteq> FREE_PAGE"
      proof (cases "q \<in> H")
        case True
        then show ?thesis using heap_invD(2) [OF inv True] 3(6) [of q] t(2) by auto
      qed (use q in \<open>auto simp: taken_def\<close>)
    qed
    moreover have "clear_after P m2 (x, ?n)"
      using kseg_inj [OF wf] ptr by (auto simp: clear_after_def)
    moreover have "pairwise apart (set ((x, ?n) # used @ cached))"
      using heap_invD(6) [OF inv] new apart_commute by (auto simp: pairwise_insert)
    moreover have "hd_size m2 (kseg P (fst b)) = of_nat (snd b - 16)"
      if "REUSE_MEMORY K" "b \<in> set ((x, ?n) # used @ cached)" for b
    proof (cases "b = (x, ?n)")
      case True
      have "(16 :: u64) \<le> block_size K sz" using that(1) block_size_bounds(1) [OF sz', of K] by (simp add: word_le_nat_alt)
      then have "unat (block_size K sz - 16) = ?n - 16" by (simp add: unat_sub)
      then have "block_size K sz - 16 = of_nat (?n - 16)" by (metis of_nat_unat_ucast ucast_id)
      then show ?thesis using True that(1) by (simp add: m2_def carve_headers 3(2) SIZEOF_MHEAD_def)
    next
      case False
      then have b: "b \<in> set (used @ cached)" using that(2) by auto
      then have "fst b < 2 ^ 42" "x < 2 ^ 42" "fst b \<noteq> x"
        using heap_invD(3) [OF inv b] ptr(2) new [OF b] n(1) by (auto simp: block_ok_def apart_def)
      then have "kseg P (fst b) \<noteq> kseg P x" using kseg_inj [OF wf] by blast
      then show ?thesis using inv b that(1) make_room_headers [OF 3(1)]
        by (simp add: m2_def carve_headers 3(2) heap_inv_def)
    qed
    moreover have "chain (hd_next m2) (free_cache m2) (map (kseg P \<circ> fst) cached)" if "REUSE_MEMORY K"
    proof -
      have "kseg P x \<notin> set (map (kseg P \<circ> fst) cached)"
      proof
        assume "kseg P x \<in> set (map (kseg P \<circ> fst) cached)"
        then obtain b where b: "b \<in> set cached" "kseg P x = kseg P (fst b)" by auto
        then have "fst b < 2 ^ 42" "fst b \<noteq> x"
          using heap_invD(3) [OF inv, of b] new [of b] n(1) by (auto simp: block_ok_def apart_def)
        then show False using kseg_inj [OF wf, of x "fst b"] ptr(2) b(2) by simp
      qed
      then show ?thesis using inv that make_room_headers [OF 3(1)]
        by (simp add: m2_def carve_headers 3(2) heap_inv_def chain_upd del: fun_upd_apply)
    qed
    ultimately have "heap_inv P K m2 (H \<union> taken m m2) ((x, ?n) # used) cached"
      using mine old clear fresh heap_invD(5) [OF inv] unfolding heap_inv_def by auto
    moreover have "serves P K (p, sz) (x, ?n)"
      using offset_in_block [OF sz', of K] by (simp add: serves_def m'(2))
    moreover have "\<forall>q. marks m2 q = (if q \<in> taken m m2 then TEMPORARY_PAGE else marks m q)"
      unfolding t using 3(6) by (metis (mono_tags, lifting) mem_Collect_eq taken_def)
    moreover have "lastpfn (frames_of m2) = lastpfn (frames_of m)" using make_room_headers [OF 3(1)] by (simp add: m2_def)
    ultimately show ?thesis unfolding m'(1) by blast
  qed
qed

lemma reuse_step:
  assumes wf: "wf_plat P" and inv: "heap_inv P K m H used cached" and re: "REUSE_MEMORY K"
    and sz: "unat sz < 2 ^ 31" and cached: "cached = xs @ b # ys"
    and fits: "ucast (ucast (request_size K sz) :: u32) \<le> hd_size m (kseg P (fst b))"
    and same: "frames_of m' = frames_of m" "temp_memory_ptr m' = temp_memory_ptr m" "hd_size m' = hd_size m"
    and chain: "chain (hd_next m') (free_cache m') (map (kseg P \<circ> fst) (xs @ ys))"
  shows "heap_inv P K m' H (b # used) (xs @ ys) \<and> serves P K (kseg P (fst b) + block_offset K, sz) b"
proof
  have sets: "set ((b # used) @ xs @ ys) = set (used @ cached)" using cached by auto
  note c = pointer_cong [OF same(2)]
  have dis: "distinct ((b # used) @ xs @ ys)" using heap_invD(5) [OF inv] cached by auto
  show "heap_inv P K m' H (b # used) (xs @ ys)"
    using inv chain dis unfolding heap_inv_def sets c same by blast
  have sz': "unat sz < 2 ^ 39" using sz by simp
  have b: "block_ok P K H b" "hd_size m (kseg P (fst b)) = of_nat (snd b - 16)"
    using inv cached re by (auto simp: heap_inv_def)
  then have n: "snd b < 2 ^ 42" "16 \<le> snd b" using re by (auto simp: block_ok_def block_offset_cases split: if_splits)
  have "unat (request_size K sz) < 2 ^ 32" using sz by (auto simp: unat_request_size [OF sz'])
  then have "unat (request_size K sz) \<le> snd b - 16"
    using fits b(2) n(1) by (simp add: word_le_nat_alt unat_ucast_mod unat_of_nat_small)
  then show "serves P K (kseg P (fst b) + block_offset K, sz) b"
    using offset_in_block [OF sz', of K] block_size_bounds(1) [OF sz', of K] n(2) re by (simp add: serves_def)
qed

text \<open>\<open>kmalloc\<close> in a state of the invariant: it returns, and with a block that nobody else has.\<close>

lemma kmalloc_total:
  assumes wf: "wf_plat P" and inv: "heap_inv P K m H used cached" and bounds: "heap_bounds P m" and sz: "unat sz < 2 ^ 39"
  shows "kmalloc P K sz m \<noteq> None"
proof (cases "REUSE_MEMORY K \<longrightarrow> search_cache K (ucast (request_size K sz)) m = Some (0, m)")
  case True
  show ?thesis
    by (cases rule: kmalloc_cases [OF wf heap_invD(1) [OF inv] bounds sz, of K]) (use True in simp_all)
next
  case False
  then have re: "REUSE_MEMORY K" by simp
  show ?thesis
    by (cases rule: search_cache_inv [OF wf inv re, of "ucast (request_size K sz)"]) (use False in \<open>simp_all add: kmalloc_def\<close>)
qed

lemma kmalloc_step:
  assumes wf: "wf_plat P" and inv: "heap_inv P K m H used cached" and bounds: "heap_bounds P m"
    and sz: "unat sz < 2 ^ 31" "\<not> page_bytes P dvd unat (block_size K sz)"
    and res: "kmalloc P K sz m = Some (Inr (p, m'))" and limit: "below_limit P m'"
  shows "\<exists>b cached'. heap_inv P K m' (H \<union> taken m m') (b # used) cached' \<and> serves P K (p, sz) b \<and>
    (\<forall>q. marks m' q = (if q \<in> taken m m' then TEMPORARY_PAGE else marks m q)) \<and> lastpfn (frames_of m') = lastpfn (frames_of m)"
proof (cases "REUSE_MEMORY K \<longrightarrow> search_cache K (ucast (request_size K sz)) m = Some (0, m)")
  case True
  then show ?thesis using fresh_step [OF wf inv bounds sz _ res limit] by blast
next
  case False
  then have re: "REUSE_MEMORY K" by simp
  show ?thesis
  proof (cases rule: search_cache_inv [OF wf inv re, of "ucast (request_size K sz)"])
    case 1
    then show ?thesis using False by simp
  next
    case (2 xs b ys m2)
    then have e: "m' = m2" "p = kseg P (fst b) + block_offset K" using res 2(2,4) by (simp_all add: kmalloc_def re)
    have t: "taken m m' = {}" using 2(5) by (auto simp: taken_def e(1) FREE_PAGE_def TEMPORARY_PAGE_def)
    have "heap_inv P K m2 H (b # used) (xs @ ys) \<and> serves P K (p, sz) b"
      using reuse_step [OF wf inv re sz(1) 2(1) 2(3,5,6,7,8)] e(2) by simp
    then show ?thesis using 2(5) t e(1) by (intro exI [of _ b] exI [of _ "xs @ ys"]) simp
  qed
qed

lemma kfree_step:
  assumes wf: "wf_plat P" and inv: "heap_inv P K m H (u @ b # v) cached" and p: "serves P K (p, sz) b"
  shows "heap_inv P K (kfree K p m) H (u @ v) (if REUSE_MEMORY K then b # cached else cached)"
proof (cases "REUSE_MEMORY K")
  case False
  have sub: "set ((u @ v) @ cached) \<subseteq> set ((u @ b # v) @ cached)" by auto
  then have "pairwise apart (set ((u @ v) @ cached))" using heap_invD(6) [OF inv] by (rule pairwise_subset [rotated])
  then show ?thesis using False inv sub by (auto simp: heap_inv_def kfree_def free_def)
next
  case True
  let ?k = "kseg P (fst b)"
  have sets: "set ((u @ v) @ b # cached) = set ((u @ b # v) @ cached)" by auto
  have dis: "distinct ((u @ v) @ b # cached)" using heap_invD(5) [OF inv] by auto
  have h: "p - (if GUARD_BANDS K then 16 else 0) - SIZEOF_MHEAD = ?k"
    using p True by (auto simp: serves_def block_offset_def)
  have ok: "\<forall>c \<in> set (b # cached). block_ok P K H c" using heap_invD(3) [OF inv] by auto
  have "distinct (map (kseg P \<circ> fst) (b # cached))"
    by (rule keys_distinct [OF wf ok]) (use dis heap_invD(6) [OF inv] in \<open>auto simp: pairwise_def\<close>)
  then have "?k \<notin> set (map (kseg P \<circ> fst) cached)" by simp
  then have "chain ((hd_next m)(?k := free_cache m)) (free_cache m) (map (kseg P \<circ> fst) cached)"
    using inv True by (simp add: chain_upd heap_inv_def del: fun_upd_apply)
  moreover have "?k \<noteq> 0" using kseg_nonzero [OF wf] ok by (simp add: block_ok_def)
  moreover have "kfree K p m = m\<lparr>hd_next := (hd_next m)(?k := free_cache m), free_cache := ?k\<rparr>"
    using True h by (simp add: kfree_def free_def Let_def)
  moreover have "temp_memory_ptr (kfree K p m) = temp_memory_ptr m" using calculation(3) by simp
  note ptr = pointer_cong [OF this]
  ultimately show ?thesis using inv True dis unfolding heap_inv_def ptr sets if_P [OF True] by simp
qed

lemma heap_inv_frames:
  "heap_inv P K m H used cached \<Longrightarrow> (\<And>q. q \<in> H \<Longrightarrow> milo_memory_map f q \<noteq> FREE_PAGE) \<Longrightarrow>
    heap_inv P K (m\<lparr>frames_of := f\<rparr>) H used cached"
  using pointer_cong [of "m\<lparr>frames_of := f\<rparr>" m] unfolding heap_inv_def by simp

subsection \<open>Runs\<close>

text \<open>
  A run from the state \<open>m0\<close>: the state reached, the blocks in use as pairs of the pointer and the size asked for, and
  the frames handed out by the page allocator as pairs of the first one and their number. No request for a block fills
  whole pages, with its header: such a block is followed by the gap of \<open>kmalloc_exact_pages\<close>.
\<close>

inductive alloc_run :: "plat \<Rightarrow> kconf \<Rightarrow> mem \<Rightarrow> mem \<Rightarrow> (u64 \<times> u64) list \<Rightarrow> (nat \<times> nat) list \<Rightarrow> bool" for P K m0 where
  start: "alloc_run P K m0 m0 [] []"
| block: "alloc_run P K m0 m live pages \<Longrightarrow> kmalloc P K sz m = Some (Inr (p, m')) \<Longrightarrow> unat sz < 2 ^ 31 \<Longrightarrow>
    \<not> page_bytes P dvd unat (block_size K sz) \<Longrightarrow> below_limit P m' \<Longrightarrow> alloc_run P K m0 m' ((p, sz) # live) pages"
| release: "alloc_run P K m0 m (live @ (p, sz) # live') pages \<Longrightarrow> alloc_run P K m0 (kfree K p m) (live @ live') pages"
| frames: "alloc_run P K m0 m live pages \<Longrightarrow> allocate_many_pfn count type (frames_of m) = Some (Inr (pfn, f)) \<Longrightarrow>
    unat count < 2 ^ 31 - 1024 \<Longrightarrow> type \<noteq> FREE_PAGE \<Longrightarrow>
    alloc_run P K m0 (m\<lparr>frames_of := f\<rparr>) live ((unat pfn, unat count) # pages)"
| frame: "alloc_run P K m0 m live pages \<Longrightarrow> allocate_pfn type (frames_of m) = Inr (pfn, f) \<Longrightarrow> type \<noteq> FREE_PAGE \<Longrightarrow>
    alloc_run P K m0 (m\<lparr>frames_of := f\<rparr>) live ((unat pfn, 1) # pages)"

definition bytes_of :: "u64 \<times> u64 \<Rightarrow> u64 set" where
  "bytes_of r = (\<lambda>i. fst r + of_nat i) ` {..<unat (snd r)}"

definition frames_in :: "nat \<times> nat \<Rightarrow> nat set" where
  "frames_in g = {fst g..<fst g + snd g}"

definition frame_of :: "plat \<Rightarrow> u64 \<Rightarrow> nat" where
  "frame_of P a = unat (PHYSICAL_TO_PFN P a)"

definition run_inv :: "plat \<Rightarrow> kconf \<Rightarrow> mem \<Rightarrow> mem \<Rightarrow> (u64 \<times> u64) list \<Rightarrow> (nat \<times> nat) list \<Rightarrow> nat set \<Rightarrow> block list \<Rightarrow> block list \<Rightarrow> bool" where
  "run_inv P K m0 m live pages H used cached \<longleftrightarrow>
     heap_inv P K m H used cached \<and> list_all2 (serves P K) live used \<and> lastpfn (frames_of m) = lastpfn (frames_of m0) \<and>
     (\<forall>q \<in> H. marks m0 q = FREE_PAGE) \<and>
     (\<forall>g \<in> set pages. \<forall>q \<in> frames_in g. marks m0 q = FREE_PAGE \<and> marks m q \<noteq> FREE_PAGE \<and> q \<notin> H) \<and>
     (\<forall>q. marks m0 q \<noteq> FREE_PAGE \<longrightarrow> marks m q = marks m0 q) \<and>
     sorted_wrt (\<lambda>g h. frames_in g \<inter> frames_in h = {}) pages"

lemma run_inv_start:
  "temp_memory_ptr m0 = 0 \<Longrightarrow> free_cache m0 = 0 \<Longrightarrow> run_inv P K m0 m0 [] [] {} [] []"
  by (simp add: run_inv_def heap_inv_def heap_ok_def)

lemma run_inv_frames:
  assumes inv: "run_inv P K m0 m live pages H used cached" and free: "\<And>q. q \<in> frames_in g \<Longrightarrow> marks m q = FREE_PAGE"
    and marks: "\<And>q. milo_memory_map f q = (if q \<in> frames_in g then type else marks m q)" "lastpfn f = lastpfn (frames_of m)"
    and type: "type \<noteq> FREE_PAGE"
  shows "run_inv P K m0 (m\<lparr>frames_of := f\<rparr>) live (g # pages) H used cached"
proof -
  have H: "q \<in> H \<Longrightarrow> marks m q \<noteq> FREE_PAGE" for q using inv heap_invD(2) unfolding run_inv_def by blast
  have "heap_inv P K (m\<lparr>frames_of := f\<rparr>) H used cached"
    by (rule heap_inv_frames) (use inv H type in \<open>auto simp: run_inv_def marks\<close>)
  moreover have "marks m0 q = FREE_PAGE" if "q \<in> frames_in g" for q
    using inv free [OF that] unfolding run_inv_def by metis
  moreover have "q \<notin> H" if "q \<in> frames_in g" for q using free [OF that] H by auto
  moreover have "frames_in g \<inter> frames_in h = {}" if "h \<in> set pages" for h
    using inv that free unfolding run_inv_def by blast
  ultimately show ?thesis using inv free H type unfolding run_inv_def by (auto simp: marks)
qed

lemma run_inv_reachable:
  assumes wf: "wf_plat P" and bounds: "heap_bounds P m0" and empty: "temp_memory_ptr m0 = 0" "free_cache m0 = 0"
    and run: "alloc_run P K m0 m live pages"
  shows "\<exists>H used cached. run_inv P K m0 m live pages H used cached"
  using run
proof induction
  case start
  show ?case using run_inv_start [OF empty] by blast
next
  case (block m live pages sz p m')
  then obtain H used cached where inv: "run_inv P K m0 m live pages H used cached" by blast
  then have h: "heap_inv P K m H used cached" and lp: "lastpfn (frames_of m) = lastpfn (frames_of m0)" by (simp_all add: run_inv_def)
  then have "heap_bounds P m" using bounds by (simp add: heap_bounds_def)
  from kmalloc_step [OF wf h this block(3,4,2,5)] obtain b cached' where
    s: "heap_inv P K m' (H \<union> taken m m') (b # used) cached'" "serves P K (p, sz) b" "lastpfn (frames_of m') = lastpfn (frames_of m)"
    and marks: "\<And>q. marks m' q = (if q \<in> taken m m' then TEMPORARY_PAGE else marks m q)" by blast
  have t: "marks m q = FREE_PAGE \<and> marks m0 q = FREE_PAGE" if "q \<in> taken m m'" for q
    using inv that unfolding run_inv_def taken_def by (metis (mono_tags, lifting) mem_Collect_eq)
  have "run_inv P K m0 m' ((p, sz) # live) pages (H \<union> taken m m') (b # used) cached'"
    using inv s t lp unfolding run_inv_def by (auto simp: marks)
  then show ?case by blast
next
  case (release m live p sz live' pages)
  then obtain H used cached where inv: "run_inv P K m0 m (live @ (p, sz) # live') pages H used cached" by blast
  then have l: "list_all2 (serves P K) (live @ (p, sz) # live') used" by (simp add: run_inv_def)
  then obtain u b v where u: "used = u @ b # v" "list_all2 (serves P K) live u" "serves P K (p, sz) b" "list_all2 (serves P K) live' v"
    by (auto simp: list_all2_append1 list_all2_Cons1)
  have "heap_inv P K m H (u @ b # v) cached" using inv by (simp add: run_inv_def u(1))
  from kfree_step [OF wf this u(3)] have "run_inv P K m0 (kfree K p m) (live @ live') pages H (u @ v) (if REUSE_MEMORY K then b # cached else cached)"
    using inv list_all2_appendI [OF u(2,4)] unfolding run_inv_def by (simp add: kfree_def free_def Let_def)
  then show ?case by blast
next
  case (frames m live pages count type pfn f)
  then obtain H used cached where inv: "run_inv P K m0 m live pages H used cached" by blast
  then have pb: "pfn_bounds (frames_of m) count" using bounds frames(3) by (simp add: run_inv_def heap_bounds_def pfn_bounds_def)
  have "f = (frames_of m)\<lparr>milo_memory_map := mark_from (marks m) (unat pfn) (unat count) type\<rparr> \<and> free_run (marks m) (unat pfn) (unat count)"
    by (cases rule: allocate_many_cases [OF pb, of type]) (use frames(2) in simp_all)
  then have "run_inv P K m0 (m\<lparr>frames_of := f\<rparr>) live ((unat pfn, unat count) # pages) H used cached"
    by (intro run_inv_frames [OF inv _ _ _ frames(4)]) (auto simp: frames_in_def free_run_def)
  then show ?case by blast
next
  case (frame m live pages type pfn f)
  then obtain H used cached where inv: "run_inv P K m0 m live pages H used cached" by blast
  then have lp: "unat (lastpfn (frames_of m)) < 2 ^ 31" using bounds by (simp add: run_inv_def heap_bounds_def)
  note a = allocate_pfn_first [OF frame(2) lp]
  have "lastpfn f = lastpfn (frames_of m)" using frame(2) by (auto simp: allocate_pfn_def split: option.splits)
  then have "run_inv P K m0 (m\<lparr>frames_of := f\<rparr>) live ((unat pfn, 1) # pages) H used cached"
    using a(1,4) by (intro run_inv_frames [OF inv _ _ _ frame(3)]) (auto simp: frames_in_def)
  then show ?case by blast
qed

text \<open>The bytes of a block that serves a request.\<close>

lemma served_byte:
  assumes wf: "wf_plat P" and b: "block_ok P K H b" "serves P K r b" and a: "a \<in> bytes_of r"
  obtains z where "a = kseg P z" "fst b \<le> z" "z < fst b + snd b" "z < 2 ^ 42" "frame_of P a \<in> H"
proof -
  obtain i where i: "i < unat (snd r)" "a = fst r + of_nat i" using a by (auto simp: bytes_of_def)
  let ?z = "fst b + unat (block_offset K) + i"
  have z: "fst b \<le> ?z" "?z < fst b + snd b" "?z < 2 ^ 42" using b i(1) by (auto simp: serves_def block_ok_def)
  have e: "a = kseg P ?z"
    using b(2) i(2) kseg_add [of P "fst b" "unat (block_offset K)"] kseg_add [of P "fst b + unat (block_offset K)" i]
    by (simp add: serves_def of_nat_unat_ucast)
  then have "frame_of P a = ?z div page_bytes P" using pfn_of_kseg [OF wf z(3)] by (simp add: frame_of_def)
  then have "frame_of P a \<in> H" using b(1) z(1,2) by (auto simp: block_ok_def owned_def)
  with e z show ?thesis by (rule that)
qed

lemma run_inv_live:
  assumes wf: "wf_plat P" and inv: "run_inv P K m0 m live pages H used cached" and a: "i < length live" "a \<in> bytes_of (live ! i)"
  shows "frame_of P a \<in> H" "j < length live \<Longrightarrow> i \<noteq> j \<Longrightarrow> a \<notin> bytes_of (live ! j)"
proof -
  have inv': "heap_inv P K m H used cached" and l: "list_all2 (serves P K) live used" using inv by (simp_all add: run_inv_def)
  have n: "length used = length live" using l by (simp add: list_all2_lengthD)
  have s: "block_ok P K H (used ! k)" "serves P K (live ! k) (used ! k)" if k: "k < length live" for k
  proof -
    have "used ! k \<in> set (used @ cached)" using k n by simp
    then show "block_ok P K H (used ! k)" by (rule heap_invD(3) [OF inv'])
    show "serves P K (live ! k) (used ! k)" by (rule list_all2_nthD [OF l k])
  qed
  obtain z where z: "a = kseg P z" "fst (used ! i) \<le> z" "z < fst (used ! i) + snd (used ! i)" "z < 2 ^ 42" "frame_of P a \<in> H"
    using served_byte [OF wf s [OF a(1)] a(2)] .
  then show "frame_of P a \<in> H" by simp
  show "a \<notin> bytes_of (live ! j)" if j: "j < length live" "i \<noteq> j"
  proof
    assume "a \<in> bytes_of (live ! j)"
    from served_byte [OF wf s [OF j(1)] this] obtain y where
      y: "a = kseg P y" "fst (used ! j) \<le> y" "y < fst (used ! j) + snd (used ! j)" "y < 2 ^ 42" .
    have "y = z" by (rule kseg_inj [OF wf y(4) z(4) trans [OF sym [OF y(1)] z(1)]])
    moreover have "apart (used ! i) (used ! j)"
    proof -
      have "distinct used" using heap_invD(5) [OF inv'] by simp
      then have "used ! i \<noteq> used ! j" using nth_eq_iff_index_eq [of used i j] a(1) j n by simp
      moreover have "used ! i \<in> set (used @ cached)" "used ! j \<in> set (used @ cached)" using a(1) j(1) n by simp_all
      ultimately show ?thesis using heap_invD(6) [OF inv'] by (meson pairwiseD)
    qed
    ultimately show False using y z by (auto simp: apart_def)
  qed
qed


subsection \<open>After \<open>init_mem\<close>\<close>

text \<open>The frames \<open>init_mem\<close> keeps: the regions and the memory map itself.\<close>

definition map_pages :: "plat \<Rightarrow> u64 \<Rightarrow> u32" where
  "map_pages P Top = ucast ((PHYSICAL_TO_PFN P Top + (PAGE_SIZE P - 1)) div PAGE_SIZE P)"

definition map_at :: "plat \<Rightarrow> u64 \<Rightarrow> u64" where
  "map_at P Top = PAGE_OFFSET P OR (MILO_MIN_MEMORY_SIZE - PAGE_SIZE P * ucast (map_pages P Top))"

definition kept :: "plat \<Rightarrow> u64 \<Rightarrow> nat \<Rightarrow> bool" where
  "kept P Top q \<longleftrightarrow> reserved P q \<or>
     (let first = unat (ucast (PHYSICAL_TO_PFN P (map_at P Top)) :: u32)
      in 0 < sint (map_pages P Top) \<and> first \<le> q \<and> q < first + unat (map_pages P Top))"

lemma init_mem_kept: "kept P Top q \<Longrightarrow> marks (init_mem P Top m) q \<noteq> FREE_PAGE"
  by (auto simp: kept_def map_at_def map_pages_def init_mem_def Let_def mark_region_marks mark_many_marks reserved_def)

lemma init_mem_heap: "temp_memory_ptr (init_mem P Top m) = temp_memory_ptr m" "free_cache (init_mem P Top m) = free_cache m"
  by (simp_all add: init_mem_def Let_def)


subsection \<open>Two runs\<close>

text \<open>Two blocks in the first of two frames, and the second frame for the page allocator.\<close>

definition one_taken :: page_map where
  "one_taken = \<lparr>milo_memory_map = (\<lambda>_. FREE_PAGE)(0 := TEMPORARY_PAGE), lastpfn = 1\<rparr>"

lemma small_blocks: "block_size no_options 100 = 104" "block_size no_options 200 = 208" "block_offset no_options = 0"
  by (simp_all add: block_size_def request_size_def block_offset_def no_options_def)

lemma first_small_block:
  "kmalloc alpha no_options 100 two_frames = Some (Inr (PAGE_OFFSET alpha, two_frames\<lparr>frames_of := one_taken,
     temp_memory_ptr := PAGE_OFFSET alpha + 104, ram := fill (\<lambda>_. 0) (PAGE_OFFSET alpha) 104 0\<rparr>))"
proof -
  have "make_room alpha 104 two_frames = Some (Inr (two_frames\<lparr>frames_of := one_taken, temp_memory_ptr := PAGE_OFFSET alpha\<rparr>))"
    using two_frames_alloc by (simp add: make_room_def alpha_pages new_frames_def PFN_TO_PHYSICAL_def one_taken_def) (simp add: two_frames_def)
  then show ?thesis
    by (subst kmalloc_empty_cache) (simp_all add: fresh_block_alt small_blocks carve_def alpha_def two_frames_def)
qed

lemma second_small_block:
  assumes "frames_of m = one_taken" "temp_memory_ptr m = PAGE_OFFSET alpha + 104"
  shows "kmalloc alpha no_options 200 m = Some (Inr (PAGE_OFFSET alpha + 104,
    m\<lparr>temp_memory_ptr := PAGE_OFFSET alpha + 312, ram := fill (ram m) (PAGE_OFFSET alpha + 104) 208 0\<rparr>))"
proof -
  have "make_room alpha 208 m = Some (Inr m)"
    using assms by (simp add: make_room_def PHYSICAL_TO_PFN_def alpha_def)
  then show ?thesis using assms
    by (subst kmalloc_empty_cache) (simp_all add: fresh_block_alt small_blocks carve_def alpha_def Let_def)
qed

lemma small_run: "\<exists>m. alloc_run alpha no_options two_frames m [(PAGE_OFFSET alpha + 104, 200), (PAGE_OFFSET alpha, 100)] [(1, 1)]"
proof -
  note pages = alpha_pages(1) small_blocks below_limit_def
  have "alloc_run alpha no_options two_frames (two_frames\<lparr>frames_of := one_taken, temp_memory_ptr := PAGE_OFFSET alpha + 104,
      ram := fill (\<lambda>_. 0) (PAGE_OFFSET alpha) 104 0\<rparr>) [(PAGE_OFFSET alpha, 100)] []" (is "alloc_run _ _ _ ?m1 _ _")
    by (rule alloc_run.block [OF alloc_run.start first_small_block]) (simp_all add: pages, simp add: alpha_def)
  moreover have "kmalloc alpha no_options 200 ?m1 = Some (Inr (PAGE_OFFSET alpha + 104,
      ?m1\<lparr>temp_memory_ptr := PAGE_OFFSET alpha + 312, ram := fill (ram ?m1) (PAGE_OFFSET alpha + 104) 208 0\<rparr>))"
    (is "_ = Some (Inr (_, ?m2))") by (rule second_small_block) simp_all
  ultimately have "alloc_run alpha no_options two_frames ?m2 [(PAGE_OFFSET alpha + 104, 200), (PAGE_OFFSET alpha, 100)] []"
    by (rule alloc_run.block) (simp_all add: pages, simp add: alpha_def)
  moreover have "allocate_pfn TEMPORARY_PAGE (frames_of ?m2) = Inr (1, one_taken\<lparr>milo_memory_map := (milo_memory_map one_taken)(1 := TEMPORARY_PAGE)\<rparr>)"
    by (simp add: allocate_pfn_def one_taken_def upt_rec)
  ultimately have "alloc_run alpha no_options two_frames (?m2\<lparr>frames_of := one_taken\<lparr>milo_memory_map := (milo_memory_map one_taken)(1 := TEMPORARY_PAGE)\<rparr>\<rparr>)
      [(PAGE_OFFSET alpha + 104, 200), (PAGE_OFFSET alpha, 100)] [(unat (1 :: u32), 1)]"
    by (rule alloc_run.frame) simp
  then show ?thesis by auto
qed


lemma init_run:
  "\<exists>m. alloc_run alpha no_options (init_mem alpha 0x2000000 two_frames) m [] [(1, 1)]"
proof -
  let ?m = "init_mem alpha 0x2000000 two_frames"
  have bs: "find_block_size 1 = 1" by (simp add: find_block_size_def)
  have nc: "next_candidate 1 1 0 = 1" by (simp add: next_candidate_def Let_def)
  have "search_pfn (marks ?m) 4095 1 1 1 0 = Some (Some 1)"
    using init_32MB by (simp add: search_pfn.simps nc)
  then obtain f where "allocate_many_pfn 1 TEMPORARY_PAGE (frames_of ?m) = Some (Inr (1, f))"
    by (simp add: allocate_many_pfn_def init_32MB bs)
  from alloc_run.frames [OF alloc_run.start this] show ?thesis by auto
qed


end
