(* ===== verification/X86_Regs.thy ===== *)
theory X86_Regs
  imports Prelude
begin

text \<open>
  The machine state of the emulator in \<open>video/x86\<close> that runs a video card's BIOS:
  registers and flags (\<open>x86_regs.h\<close>), memory (\<open>sysenv.h\<close> and the accesses of
  \<open>video/freebiosvga.c\<close>) and the adapter bus. The general registers are 32 bits wide and
  the 16- and 8-bit ones are views of them, as in the C union. What the bus answers is not the
  program's code: the accessors \<open>readb\<close>, \<open>inb\<close>, ... are the fields of \<open>bus_ops\<close>, an
  argument of every operation that reaches the bus, over a state of any type \<open>'b\<close>.
\<close>

record x86_regs =
  R_EAX :: u32
  R_EBX :: u32
  R_ECX :: u32
  R_EDX :: u32
  R_ESP :: u32
  R_EBP :: u32
  R_ESI :: u32
  R_EDI :: u32
  R_EIP :: u32
  R_FLG :: u32
  R_CS :: u16
  R_DS :: u16
  R_SS :: u16
  R_ES :: u16
  R_FS :: u16
  R_GS :: u16
  mode :: u64
  intno :: u8
  intr :: u32

record 'b sysenv =
  x86 :: x86_regs
  mem_size :: u64
  ram :: "u64 \<Rightarrow> u8"
  bus :: 'b

record 'b bus_ops =
  readb :: "u64 \<Rightarrow> 'b \<Rightarrow> u8 \<times> 'b"
  readw :: "u64 \<Rightarrow> 'b \<Rightarrow> u16 \<times> 'b"
  readl :: "u64 \<Rightarrow> 'b \<Rightarrow> u32 \<times> 'b"
  writeb :: "u8 \<Rightarrow> u64 \<Rightarrow> 'b \<Rightarrow> 'b"
  writew :: "u16 \<Rightarrow> u64 \<Rightarrow> 'b \<Rightarrow> 'b"
  writel :: "u32 \<Rightarrow> u64 \<Rightarrow> 'b \<Rightarrow> 'b"
  inb :: "u32 \<Rightarrow> 'b \<Rightarrow> u8 \<times> 'b"
  inw :: "u32 \<Rightarrow> 'b \<Rightarrow> u16 \<times> 'b"
  inl :: "u32 \<Rightarrow> 'b \<Rightarrow> u32 \<times> 'b"
  outb :: "u8 \<Rightarrow> u32 \<Rightarrow> 'b \<Rightarrow> 'b"
  outw :: "u16 \<Rightarrow> u32 \<Rightarrow> 'b \<Rightarrow> 'b"
  outl :: "u32 \<Rightarrow> u32 \<Rightarrow> 'b \<Rightarrow> 'b"

definition upd :: "(x86_regs \<Rightarrow> x86_regs) \<Rightarrow> 'b sysenv \<Rightarrow> 'b sysenv" where
  "upd f m = m\<lparr>x86 := f (x86 m)\<rparr>"

subsection \<open>Registers\<close>

datatype reg32 = EAX | EBX | ECX | EDX | ESP | EBP | ESI | EDI | EIP

fun get_reg :: "reg32 \<Rightarrow> x86_regs \<Rightarrow> u32" where
  "get_reg EAX r = R_EAX r"
| "get_reg EBX r = R_EBX r"
| "get_reg ECX r = R_ECX r"
| "get_reg EDX r = R_EDX r"
| "get_reg ESP r = R_ESP r"
| "get_reg EBP r = R_EBP r"
| "get_reg ESI r = R_ESI r"
| "get_reg EDI r = R_EDI r"
| "get_reg EIP r = R_EIP r"

fun put_reg :: "reg32 \<Rightarrow> u32 \<Rightarrow> x86_regs \<Rightarrow> x86_regs" where
  "put_reg EAX v r = r\<lparr>R_EAX := v\<rparr>"
| "put_reg EBX v r = r\<lparr>R_EBX := v\<rparr>"
| "put_reg ECX v r = r\<lparr>R_ECX := v\<rparr>"
| "put_reg EDX v r = r\<lparr>R_EDX := v\<rparr>"
| "put_reg ESP v r = r\<lparr>R_ESP := v\<rparr>"
| "put_reg EBP v r = r\<lparr>R_EBP := v\<rparr>"
| "put_reg ESI v r = r\<lparr>R_ESI := v\<rparr>"
| "put_reg EDI v r = r\<lparr>R_EDI := v\<rparr>"
| "put_reg EIP v r = r\<lparr>R_EIP := v\<rparr>"

text \<open>The 16-bit view \<open>x_reg\<close> and the 8-bit views \<open>l_reg\<close> and \<open>h_reg\<close> of the union.\<close>

definition reg_x :: "reg32 \<Rightarrow> 'b sysenv \<Rightarrow> u16" where
  "reg_x g m = ucast (get_reg g (x86 m))"

definition set_x :: "reg32 \<Rightarrow> u16 \<Rightarrow> 'b sysenv \<Rightarrow> 'b sysenv" where
  "set_x g v m = upd (put_reg g ((get_reg g (x86 m) AND 0xffff0000) OR ucast v)) m"

definition reg_l :: "reg32 \<Rightarrow> 'b sysenv \<Rightarrow> u8" where
  "reg_l g m = ucast (get_reg g (x86 m))"

definition set_l :: "reg32 \<Rightarrow> u8 \<Rightarrow> 'b sysenv \<Rightarrow> 'b sysenv" where
  "set_l g v m = upd (put_reg g ((get_reg g (x86 m) AND 0xffffff00) OR ucast v)) m"

definition reg_h :: "reg32 \<Rightarrow> 'b sysenv \<Rightarrow> u8" where
  "reg_h g m = ucast (drop_bit 8 (get_reg g (x86 m)))"

definition set_h :: "reg32 \<Rightarrow> u8 \<Rightarrow> 'b sysenv \<Rightarrow> 'b sysenv" where
  "set_h g v m = upd (put_reg g ((get_reg g (x86 m) AND 0xffff00ff) OR push_bit 8 (ucast v))) m"

definition reg_e :: "reg32 \<Rightarrow> 'b sysenv \<Rightarrow> u32" where
  "reg_e g m = get_reg g (x86 m)"

definition set_e :: "reg32 \<Rightarrow> u32 \<Rightarrow> 'b sysenv \<Rightarrow> 'b sysenv" where
  "set_e g v m = upd (put_reg g v) m"

subsection \<open>Flags\<close>

definition F_CF :: u32 where "F_CF = 0x0001"
definition F_PF :: u32 where "F_PF = 0x0004"
definition F_AF :: u32 where "F_AF = 0x0010"
definition F_ZF :: u32 where "F_ZF = 0x0040"
definition F_SF :: u32 where "F_SF = 0x0080"
definition F_TF :: u32 where "F_TF = 0x0100"
definition F_IF :: u32 where "F_IF = 0x0200"
definition F_DF :: u32 where "F_DF = 0x0400"
definition F_OF :: u32 where "F_OF = 0x0800"

definition SET_FLAG :: "u32 \<Rightarrow> 'b sysenv \<Rightarrow> 'b sysenv" where
  "SET_FLAG f m = upd (\<lambda>r. r\<lparr>R_FLG := R_FLG r OR f\<rparr>) m"

definition CLEAR_FLAG :: "u32 \<Rightarrow> 'b sysenv \<Rightarrow> 'b sysenv" where
  "CLEAR_FLAG f m = upd (\<lambda>r. r\<lparr>R_FLG := R_FLG r AND NOT f\<rparr>) m"

definition TOGGLE_FLAG :: "u32 \<Rightarrow> 'b sysenv \<Rightarrow> 'b sysenv" where
  "TOGGLE_FLAG f m = upd (\<lambda>r. r\<lparr>R_FLG := R_FLG r XOR f\<rparr>) m"

definition ACCESS_FLAG :: "u32 \<Rightarrow> 'b sysenv \<Rightarrow> bool" where
  "ACCESS_FLAG f m \<longleftrightarrow> R_FLG (x86 m) AND f \<noteq> 0"

definition CONDITIONAL_SET_FLAG :: "bool \<Rightarrow> u32 \<Rightarrow> 'b sysenv \<Rightarrow> 'b sysenv" where
  "CONDITIONAL_SET_FLAG c f m = (if c then SET_FLAG f m else CLEAR_FLAG f m)"

subsection \<open>Interrupt requests and the mode word\<close>

definition INTR_SYNCH :: u32 where "INTR_SYNCH = 0x1"
definition INTR_ASYNCH :: u32 where "INTR_ASYNCH = 0x2"
definition INTR_HALTED :: u32 where "INTR_HALTED = 0x4"

definition SYSMODE_SEG_DS_SS :: u64 where "SYSMODE_SEG_DS_SS = 0x01"
definition SYSMODE_SEGOVR_CS :: u64 where "SYSMODE_SEGOVR_CS = 0x02"
definition SYSMODE_SEGOVR_DS :: u64 where "SYSMODE_SEGOVR_DS = 0x04"
definition SYSMODE_SEGOVR_ES :: u64 where "SYSMODE_SEGOVR_ES = 0x08"
definition SYSMODE_SEGOVR_SS :: u64 where "SYSMODE_SEGOVR_SS = 0x10"
definition SYSMODE_SEGMASK :: u64 where
  "SYSMODE_SEGMASK = SYSMODE_SEG_DS_SS OR SYSMODE_SEGOVR_CS OR SYSMODE_SEGOVR_DS OR
     SYSMODE_SEGOVR_ES OR SYSMODE_SEGOVR_SS"
definition SYSMODE_PREFIX_REPE :: u64 where "SYSMODE_PREFIX_REPE = 0x20"
definition SYSMODE_PREFIX_REPNE :: u64 where "SYSMODE_PREFIX_REPNE = 0x40"
definition SYSMODE_PREFIX_DATA :: u64 where "SYSMODE_PREFIX_DATA = 0x80"
definition SYSMODE_PREFIX_ADR :: u64 where "SYSMODE_PREFIX_ADR = 0x100"
definition SYSMODE_CLRMASK :: u64 where
  "SYSMODE_CLRMASK = SYSMODE_SEGMASK OR SYSMODE_PREFIX_DATA OR SYSMODE_PREFIX_ADR"

definition halt_sys :: "'b sysenv \<Rightarrow> 'b sysenv" where
  "halt_sys m = upd (\<lambda>r. r\<lparr>intr := intr r OR INTR_HALTED\<rparr>) m"

definition x86_intr_raise :: "u8 \<Rightarrow> 'b sysenv \<Rightarrow> 'b sysenv" where
  "x86_intr_raise intrnum m = upd (\<lambda>r. r\<lparr>intno := intrnum, intr := intr r OR INTR_SYNCH\<rparr>) m"

subsection \<open>Laws\<close>

lemma upd_sel [simp]:
  "x86 (upd f m) = f (x86 m)" "mem_size (upd f m) = mem_size m" "ram (upd f m) = ram m"
  "bus (upd f m) = bus m"
  by (simp_all add: upd_def)

lemma get_put_reg [simp]: "get_reg g (put_reg h v r) = (if g = h then v else get_reg g r)"
  by (cases g; cases h) simp_all

lemma put_reg_keeps [simp]:
  "R_FLG (put_reg g v r) = R_FLG r" "R_CS (put_reg g v r) = R_CS r" "R_DS (put_reg g v r) = R_DS r"
  "R_SS (put_reg g v r) = R_SS r" "R_ES (put_reg g v r) = R_ES r" "mode (put_reg g v r) = mode r"
  "intr (put_reg g v r) = intr r" "intno (put_reg g v r) = intno r"
  by (cases g; simp)+

lemma get_reg_flags [simp]: "get_reg g (r\<lparr>R_FLG := v\<rparr>) = get_reg g r"
  by (cases g) simp_all

lemma get_reg_others [simp]:
  "get_reg g (r\<lparr>mode := w\<rparr>) = get_reg g r" "get_reg g (r\<lparr>intr := i\<rparr>) = get_reg g r"
  "get_reg g (r\<lparr>intno := n\<rparr>) = get_reg g r" "get_reg g (r\<lparr>R_CS := c\<rparr>) = get_reg g r"
  "get_reg g (r\<lparr>R_DS := c\<rparr>) = get_reg g r" "get_reg g (r\<lparr>R_SS := c\<rparr>) = get_reg g r"
  "get_reg g (r\<lparr>R_ES := c\<rparr>) = get_reg g r"
  by (cases g; simp)+

lemma flag_cond_same [simp]:
  assumes "f \<noteq> 0"
  shows "ACCESS_FLAG f (CONDITIONAL_SET_FLAG c f m) = c"
proof -
  have "(x OR f) AND f = f" for x :: u32
    by (rule bit_word_eqI) (auto simp: bit_simps)
  moreover have "(x AND NOT f) AND f = 0" for x :: u32
    by (rule bit_word_eqI) (auto simp: bit_simps)
  ultimately show ?thesis
    using assms by (simp add: ACCESS_FLAG_def CONDITIONAL_SET_FLAG_def SET_FLAG_def CLEAR_FLAG_def)
qed

lemma flag_cond_other:
  assumes "f AND g = 0"
  shows "ACCESS_FLAG f (CONDITIONAL_SET_FLAG c g m) = ACCESS_FLAG f m"
proof -
  have "bit f i \<Longrightarrow> \<not> bit g i" for i
    using assms by (metis bit_and_iff bit_0_eq bot_apply bot_bool_def)
  then have "(x OR g) AND f = x AND f \<and> (x AND NOT g) AND f = x AND f" for x :: u32
    by (auto intro!: bit_word_eqI simp: bit_simps)
  then show ?thesis
    by (simp add: ACCESS_FLAG_def CONDITIONAL_SET_FLAG_def SET_FLAG_def CLEAR_FLAG_def)
qed

lemma set_clear_cond: "SET_FLAG f m = CONDITIONAL_SET_FLAG True f m"
  "CLEAR_FLAG f m = CONDITIONAL_SET_FLAG False f m"
  by (simp_all add: CONDITIONAL_SET_FLAG_def)

lemma flags_nonzero [simp]:
  "F_CF \<noteq> 0" "F_PF \<noteq> 0" "F_AF \<noteq> 0" "F_ZF \<noteq> 0" "F_SF \<noteq> 0" "F_TF \<noteq> 0" "F_IF \<noteq> 0" "F_DF \<noteq> 0"
  "F_OF \<noteq> 0"
  by (simp_all add: F_CF_def F_PF_def F_AF_def F_ZF_def F_SF_def F_TF_def F_IF_def F_DF_def F_OF_def)

lemmas flag_defs = F_CF_def F_PF_def F_AF_def F_ZF_def F_SF_def F_TF_def F_IF_def F_DF_def F_OF_def

lemma flag_of_cond [simp]:
  "ACCESS_FLAG F_CF (CONDITIONAL_SET_FLAG c F_PF m) = ACCESS_FLAG F_CF m"
  "ACCESS_FLAG F_CF (CONDITIONAL_SET_FLAG c F_AF m) = ACCESS_FLAG F_CF m"
  "ACCESS_FLAG F_CF (CONDITIONAL_SET_FLAG c F_ZF m) = ACCESS_FLAG F_CF m"
  "ACCESS_FLAG F_CF (CONDITIONAL_SET_FLAG c F_SF m) = ACCESS_FLAG F_CF m"
  "ACCESS_FLAG F_CF (CONDITIONAL_SET_FLAG c F_OF m) = ACCESS_FLAG F_CF m"
  "ACCESS_FLAG F_PF (CONDITIONAL_SET_FLAG c F_CF m) = ACCESS_FLAG F_PF m"
  "ACCESS_FLAG F_PF (CONDITIONAL_SET_FLAG c F_AF m) = ACCESS_FLAG F_PF m"
  "ACCESS_FLAG F_PF (CONDITIONAL_SET_FLAG c F_ZF m) = ACCESS_FLAG F_PF m"
  "ACCESS_FLAG F_PF (CONDITIONAL_SET_FLAG c F_SF m) = ACCESS_FLAG F_PF m"
  "ACCESS_FLAG F_PF (CONDITIONAL_SET_FLAG c F_OF m) = ACCESS_FLAG F_PF m"
  "ACCESS_FLAG F_AF (CONDITIONAL_SET_FLAG c F_CF m) = ACCESS_FLAG F_AF m"
  "ACCESS_FLAG F_AF (CONDITIONAL_SET_FLAG c F_PF m) = ACCESS_FLAG F_AF m"
  "ACCESS_FLAG F_AF (CONDITIONAL_SET_FLAG c F_ZF m) = ACCESS_FLAG F_AF m"
  "ACCESS_FLAG F_AF (CONDITIONAL_SET_FLAG c F_SF m) = ACCESS_FLAG F_AF m"
  "ACCESS_FLAG F_AF (CONDITIONAL_SET_FLAG c F_OF m) = ACCESS_FLAG F_AF m"
  "ACCESS_FLAG F_ZF (CONDITIONAL_SET_FLAG c F_CF m) = ACCESS_FLAG F_ZF m"
  "ACCESS_FLAG F_ZF (CONDITIONAL_SET_FLAG c F_PF m) = ACCESS_FLAG F_ZF m"
  "ACCESS_FLAG F_ZF (CONDITIONAL_SET_FLAG c F_AF m) = ACCESS_FLAG F_ZF m"
  "ACCESS_FLAG F_ZF (CONDITIONAL_SET_FLAG c F_SF m) = ACCESS_FLAG F_ZF m"
  "ACCESS_FLAG F_ZF (CONDITIONAL_SET_FLAG c F_OF m) = ACCESS_FLAG F_ZF m"
  "ACCESS_FLAG F_SF (CONDITIONAL_SET_FLAG c F_CF m) = ACCESS_FLAG F_SF m"
  "ACCESS_FLAG F_SF (CONDITIONAL_SET_FLAG c F_PF m) = ACCESS_FLAG F_SF m"
  "ACCESS_FLAG F_SF (CONDITIONAL_SET_FLAG c F_AF m) = ACCESS_FLAG F_SF m"
  "ACCESS_FLAG F_SF (CONDITIONAL_SET_FLAG c F_ZF m) = ACCESS_FLAG F_SF m"
  "ACCESS_FLAG F_SF (CONDITIONAL_SET_FLAG c F_OF m) = ACCESS_FLAG F_SF m"
  "ACCESS_FLAG F_OF (CONDITIONAL_SET_FLAG c F_CF m) = ACCESS_FLAG F_OF m"
  "ACCESS_FLAG F_OF (CONDITIONAL_SET_FLAG c F_PF m) = ACCESS_FLAG F_OF m"
  "ACCESS_FLAG F_OF (CONDITIONAL_SET_FLAG c F_AF m) = ACCESS_FLAG F_OF m"
  "ACCESS_FLAG F_OF (CONDITIONAL_SET_FLAG c F_ZF m) = ACCESS_FLAG F_OF m"
  "ACCESS_FLAG F_OF (CONDITIONAL_SET_FLAG c F_SF m) = ACCESS_FLAG F_OF m"
  by (rule flag_cond_other, simp add: flag_defs)+

text \<open>Setting arithmetic flags changes nothing but those bits of the flag register.\<close>

definition ARITH_FLAGS :: u32 where
  "ARITH_FLAGS = F_CF OR F_PF OR F_AF OR F_ZF OR F_SF OR F_OF"

definition same_but_flags :: "u32 \<Rightarrow> 'b sysenv \<Rightarrow> 'b sysenv \<Rightarrow> bool" where
  "same_but_flags fs m m' \<longleftrightarrow> mem_size m' = mem_size m \<and> ram m' = ram m \<and> bus m' = bus m \<and>
     x86 m' = (x86 m)\<lparr>R_FLG := R_FLG (x86 m')\<rparr> \<and>
     R_FLG (x86 m') AND NOT fs = R_FLG (x86 m) AND NOT fs"

lemma same_but_flags_refl [simp]: "same_but_flags fs m m"
  by (simp add: same_but_flags_def)

lemma flg_update_eq: "r\<lparr>R_FLG := v\<rparr> = s\<lparr>R_FLG := v\<rparr> \<longleftrightarrow> r = s\<lparr>R_FLG := R_FLG r\<rparr>"
  for r s :: x86_regs
proof
  assume "r\<lparr>R_FLG := v\<rparr> = s\<lparr>R_FLG := v\<rparr>"
  from arg_cong [where f = "\<lambda>x. x\<lparr>R_FLG := R_FLG r\<rparr>", OF this]
  show "r = s\<lparr>R_FLG := R_FLG r\<rparr>" by simp
next
  assume "r = s\<lparr>R_FLG := R_FLG r\<rparr>"
  from arg_cong [where f = "\<lambda>x. x\<lparr>R_FLG := v\<rparr>", OF this]
  show "r\<lparr>R_FLG := v\<rparr> = s\<lparr>R_FLG := v\<rparr>" by simp
qed

lemma cond_flag_regs:
  "x86 (CONDITIONAL_SET_FLAG c f m) = (x86 m)\<lparr>R_FLG := (if c then R_FLG (x86 m) OR f
     else R_FLG (x86 m) AND NOT f)\<rparr>"
  by (simp add: CONDITIONAL_SET_FLAG_def SET_FLAG_def CLEAR_FLAG_def)

lemma cond_flag_sel [simp]:
  "mem_size (CONDITIONAL_SET_FLAG c f m) = mem_size m" "ram (CONDITIONAL_SET_FLAG c f m) = ram m"
  "bus (CONDITIONAL_SET_FLAG c f m) = bus m"
  by (simp_all add: CONDITIONAL_SET_FLAG_def SET_FLAG_def CLEAR_FLAG_def)

lemma same_but_flags_cond [simp]:
  assumes "f AND fs = f"
  shows "same_but_flags fs m (CONDITIONAL_SET_FLAG c f m') = same_but_flags fs m m'"
proof -
  have sub: "bit f i \<Longrightarrow> bit fs i" for i using assms by (metis bit_and_iff)
  have "(x OR f) AND NOT fs = x AND NOT fs" for x
    by (rule bit_word_eqI) (use sub in \<open>auto simp: bit_simps\<close>)
  moreover have "(x AND NOT f) AND NOT fs = x AND NOT fs" for x
    by (rule bit_word_eqI) (use sub in \<open>auto simp: bit_simps\<close>)
  ultimately show ?thesis
    by (simp add: same_but_flags_def cond_flag_regs flg_update_eq)
qed

lemma reg_views_cond [simp]:
  "reg_x g (CONDITIONAL_SET_FLAG c f m) = reg_x g m" "reg_l g (CONDITIONAL_SET_FLAG c f m) = reg_l g m"
  "reg_h g (CONDITIONAL_SET_FLAG c f m) = reg_h g m" "reg_e g (CONDITIONAL_SET_FLAG c f m) = reg_e g m"
  by (simp_all add: reg_x_def reg_l_def reg_h_def reg_e_def cond_flag_regs)

lemma arith_flags_in [simp]:
  "F_CF AND ARITH_FLAGS = F_CF" "F_PF AND ARITH_FLAGS = F_PF" "F_AF AND ARITH_FLAGS = F_AF"
  "F_ZF AND ARITH_FLAGS = F_ZF" "F_SF AND ARITH_FLAGS = F_SF" "F_OF AND ARITH_FLAGS = F_OF"
  by (simp_all add: ARITH_FLAGS_def flag_defs)

end
