(* ===== verification/X86_Carry.thy ===== *)
theory X86_Carry
  imports X86_Regs
begin

text \<open>
  The carry and borrow chains. The emulator recovers the carry into every bit of a sum from the
  operands and the result (the comment before \<open>aad_word\<close> in \<open>x86_prim_ops.c\<close>); here are
  its two formulas, the macro \<open>XOR2\<close>, and the proof that they are the carries and the
  borrows of the arithmetic, at any width.
\<close>

definition carry_chain :: "'a::len word \<Rightarrow> 'a word \<Rightarrow> 'a word \<Rightarrow> 'a word" where
  "carry_chain res d s = (s AND d) OR (NOT res AND (s OR d))"

definition borrow_chain :: "'a::len word \<Rightarrow> 'a word \<Rightarrow> 'a word \<Rightarrow> 'a word" where
  "borrow_chain res d s = (res AND (NOT d OR s)) OR (NOT d AND s)"

definition XOR2 :: "'a::len word \<Rightarrow> bool" where
  "XOR2 x \<longleftrightarrow> (x XOR drop_bit 1 x) AND 0x1 \<noteq> 0"

subsection \<open>Carries and borrows of the integers\<close>

definition carry :: "nat \<Rightarrow> int \<Rightarrow> int \<Rightarrow> bool \<Rightarrow> bool" where
  "carry n a b c \<longleftrightarrow> 2 ^ n \<le> take_bit n a + take_bit n b + of_bool c"

definition borrow :: "nat \<Rightarrow> int \<Rightarrow> int \<Rightarrow> bool \<Rightarrow> bool" where
  "borrow n a b c \<longleftrightarrow> take_bit n a < take_bit n b + of_bool c"

lemma take_bit_Suc_top: "take_bit (Suc n) a = take_bit n a + 2 ^ n * of_bool (bit a n)"
  for a :: int
  by (simp add: take_bit_Suc_from_most)

lemma carry_Suc:
  "carry (Suc n) a b c \<longleftrightarrow> bit a n \<and> bit b n \<or> carry n a b c \<and> (bit a n \<or> bit b n)"
proof -
  obtain x y p :: int where e: "take_bit n a = x" "take_bit n b = y" "2 ^ n = p"
    and r: "0 \<le> x" "x < p" "0 \<le> y" "y < p"
    using take_bit_int_less_exp take_bit_nonnegative by blast
  show ?thesis
    using r by (cases "bit a n"; cases "bit b n"; cases c) (auto simp: carry_def take_bit_Suc_top e)
qed

lemma borrow_Suc:
  "borrow (Suc n) a b c \<longleftrightarrow> \<not> bit a n \<and> bit b n \<or> borrow n a b c \<and> (\<not> bit a n \<or> bit b n)"
proof -
  obtain x y p :: int where e: "take_bit n a = x" "take_bit n b = y" "2 ^ n = p"
    and r: "0 \<le> x" "x < p" "0 \<le> y" "y < p"
    using take_bit_int_less_exp take_bit_nonnegative by blast
  show ?thesis
    using r by (cases "bit a n"; cases "bit b n"; cases c) (auto simp: borrow_def take_bit_Suc_top e)
qed

lemma div_2p_split: "a = 2 ^ n * (a div 2 ^ n) + take_bit n a"
  for a :: int
  by (simp add: take_bit_eq_mod)

lemma of_bool_range: "0 \<le> (of_bool c :: int)" "of_bool c \<le> (1 :: int)"
  by simp_all

lemma bit_add_carry: "bit (a + b + of_bool c) n \<longleftrightarrow> (bit a n \<noteq> bit b n) \<noteq> carry n a b c"
  for a b :: int
proof -
  let ?t = "take_bit n a + take_bit n b + of_bool c :: int"
  have t: "0 \<le> ?t" "?t < 2 * 2 ^ n"
    using take_bit_int_less_exp [of n a] take_bit_int_less_exp [of n b] of_bool_range [of c]
      take_bit_nonnegative [of n a] take_bit_nonnegative [of n b] by linarith+
  have "a + b + of_bool c = 2 ^ n * (a div 2 ^ n + b div 2 ^ n) + ?t"
    using div_2p_split [of a n] div_2p_split [of b n] by (simp add: algebra_simps)
  then have "(a + b + of_bool c) div 2 ^ n = a div 2 ^ n + b div 2 ^ n + ?t div 2 ^ n"
    by (simp only: div_mult_self4 div_mult_self2) simp
  moreover have "?t div 2 ^ n = of_bool (carry n a b c)"
  proof (cases "carry n a b c")
    case True
    then have "(?t - 2 ^ n) div 2 ^ n = 0" using t by (intro div_pos_pos_trivial) (auto simp: carry_def)
    moreover have "?t div 2 ^ n = (?t - 2 ^ n) div 2 ^ n + 1"
      using div_add_self2 [of "2 ^ n :: int" "?t - 2 ^ n"] by simp
    ultimately show ?thesis using True by simp
  next
    case False
    then show ?thesis using t by (simp add: carry_def div_pos_pos_trivial)
  qed
  ultimately show ?thesis by (cases "carry n a b c") (auto simp: bit_iff_odd)
qed

lemma bit_sub_borrow: "bit (a - b - of_bool c) n \<longleftrightarrow> (bit a n \<noteq> bit b n) \<noteq> borrow n a b c"
  for a b :: int
proof -
  let ?t = "take_bit n a - take_bit n b - of_bool c :: int"
  have t: "- (2 ^ n) \<le> ?t" "?t < 2 ^ n"
    using take_bit_int_less_exp [of n a] take_bit_int_less_exp [of n b]
      take_bit_nonnegative [of n a] take_bit_nonnegative [of n b] of_bool_range [of c] by linarith+
  have "a - b - of_bool c = 2 ^ n * (a div 2 ^ n - b div 2 ^ n) + ?t"
    using div_2p_split [of a n] div_2p_split [of b n] by (simp add: algebra_simps)
  then have "(a - b - of_bool c) div 2 ^ n = a div 2 ^ n - b div 2 ^ n + ?t div 2 ^ n"
    by (simp only: div_mult_self4 div_mult_self2) simp
  moreover have "?t div 2 ^ n = - of_bool (borrow n a b c)"
  proof (cases "borrow n a b c")
    case True
    then have "(?t + 2 ^ n) div 2 ^ n = 0" using t by (intro div_pos_pos_trivial) (auto simp: borrow_def)
    moreover have "(?t + 2 ^ n) div 2 ^ n = ?t div 2 ^ n + 1"
      by (rule div_add_self2) simp
    ultimately show ?thesis using True by simp
  next
    case False
    then show ?thesis using t by (simp add: borrow_def div_pos_pos_trivial)
  qed
  ultimately show ?thesis by (cases "borrow n a b c") (auto simp: bit_iff_odd)
qed


subsection \<open>The chains of the program\<close>

lemma bit_carry_chain:
  fixes d s :: "'a::len word"
  assumes "LENGTH('a) \<le> LENGTH('b)" "i < LENGTH('a)"
    and "res = (word_of_int (uint d + uint s + of_bool c) :: 'b::len word)"
  shows "bit (carry_chain res (ucast d) (ucast s)) i \<longleftrightarrow> carry (Suc i) (uint d) (uint s) c"
proof -
  have "bit res i = bit (uint d + uint s + of_bool c) i"
    using assms(1,2) unfolding assms(3) by (simp only: bit_word_of_int_iff) simp
  then show ?thesis
    using assms(1,2)
    by (auto simp: carry_chain_def bit_and_iff bit_or_iff bit_not_iff bit_word_ucast_iff
        bit_add_carry carry_Suc bit_uint_iff)
qed

lemma bit_borrow_chain:
  fixes d s :: "'a::len word"
  assumes "LENGTH('a) \<le> LENGTH('b)" "i < LENGTH('a)"
    and "res = (word_of_int (uint d - uint s - of_bool c) :: 'b::len word)"
  shows "bit (borrow_chain res (ucast d) (ucast s)) i \<longleftrightarrow> borrow (Suc i) (uint d) (uint s) c"
proof -
  have "bit res i = bit (uint d - uint s - of_bool c) i"
    using assms(1,2) unfolding assms(3) by (simp only: bit_word_of_int_iff) simp
  then show ?thesis
    using assms(1,2)
    by (auto simp: borrow_chain_def bit_and_iff bit_or_iff bit_not_iff bit_word_ucast_iff
        bit_sub_borrow borrow_Suc bit_uint_iff)
qed

lemma XOR2_bits: "XOR2 x \<longleftrightarrow> bit x 0 \<noteq> bit x 1"
  by (simp add: XOR2_def and_one_eq odd_iff_mod_2_eq_one [symmetric] bit_0 [symmetric] bit_simps)

lemma XOR2_shift: "XOR2 (drop_bit n x) \<longleftrightarrow> bit x n \<noteq> bit x (Suc n)"
  by (simp add: XOR2_bits bit_drop_bit_eq)

text \<open>Tests of one bit by a mask.\<close>

lemma and_exp_nonzero: "x AND 2 ^ n = 0 \<longleftrightarrow> \<not> bit x n"
  for x :: "'a::len word"
  by (metis bit_iff_and_push_bit_not_eq_0 push_bit_of_1)

lemma test_bit [bit_eval]:
  fixes x :: "'a::len word"
  shows "x AND 0x1 = 0 \<longleftrightarrow> \<not> bit x 0" "x AND 0x8 = 0 \<longleftrightarrow> \<not> bit x 3"
    "x AND 0x80 = 0 \<longleftrightarrow> \<not> bit x 7" "x AND 0x100 = 0 \<longleftrightarrow> \<not> bit x 8"
    "x AND 0x8000 = 0 \<longleftrightarrow> \<not> bit x 15" "x AND 0x10000 = 0 \<longleftrightarrow> \<not> bit x 16"
    "x AND 0x80000000 = 0 \<longleftrightarrow> \<not> bit x 31"
  using and_exp_nonzero [of x 0] and_exp_nonzero [of x 3] and_exp_nonzero [of x 7]
    and_exp_nonzero [of x 8] and_exp_nonzero [of x 15] and_exp_nonzero [of x 16]
    and_exp_nonzero [of x 31]
  by simp_all

subsection \<open>Overflow\<close>

text \<open>
  The top two carries differ exactly when the signed sum does not fit, and the top carry is the
  unsigned overflow; the same for borrows.
\<close>

lemma sint_split:
  fixes x :: "'a::len word"
  assumes "LENGTH('a) = Suc n"
  shows "sint x = take_bit n (uint x) - 2 ^ n * of_bool (bit x n)"
proof -
  have "sint x = signed_take_bit n (uint x)" using assms by (simp add: sint_uint)
  also have "\<dots> = take_bit (Suc n) (uint x) - 2 ^ Suc n * of_bool (bit (uint x) n)"
    by (rule signed_take_bit_eq_take_bit_minus)
  finally show ?thesis
    using assms by (simp add: take_bit_Suc_top bit_uint_iff)
qed

lemma signed_overflow_add:
  fixes d s :: "'a::len word"
  assumes "LENGTH('a) = Suc n"
  shows "carry n (uint d) (uint s) c \<noteq> carry (Suc n) (uint d) (uint s) c \<longleftrightarrow>
    \<not> (- (2 ^ n) \<le> sint d + sint s + of_bool c \<and> sint d + sint s + of_bool c < 2 ^ n)"
proof -
  obtain x y p :: int where e: "take_bit n (uint d) = x" "take_bit n (uint s) = y" "2 ^ n = p"
    and r: "0 \<le> x" "x < p" "0 \<le> y" "y < p"
    using take_bit_int_less_exp take_bit_nonnegative by blast
  show ?thesis
    unfolding carry_Suc unfolding carry_def e sint_split [OF assms]
    using r assms by (cases "bit d n"; cases "bit s n"; cases c) (auto simp: bit_uint_iff)
qed

lemma signed_overflow_sub:
  fixes d s :: "'a::len word"
  assumes "LENGTH('a) = Suc n"
  shows "borrow n (uint d) (uint s) c \<noteq> borrow (Suc n) (uint d) (uint s) c \<longleftrightarrow>
    \<not> (- (2 ^ n) \<le> sint d - sint s - of_bool c \<and> sint d - sint s - of_bool c < 2 ^ n)"
proof -
  obtain x y p :: int where e: "take_bit n (uint d) = x" "take_bit n (uint s) = y" "2 ^ n = p"
    and r: "0 \<le> x" "x < p" "0 \<le> y" "y < p"
    using take_bit_int_less_exp take_bit_nonnegative by blast
  show ?thesis
    unfolding borrow_Suc unfolding borrow_def e sint_split [OF assms]
    using r assms by (cases "bit d n"; cases "bit s n"; cases c) (auto simp: bit_uint_iff)
qed

lemma take_bit_uint_self: "take_bit LENGTH('a) (uint x) = uint x"
  for x :: "'a::len word"
  by (rule take_bit_int_eq_self) simp_all

lemma carry_out: "carry LENGTH('a) (uint d) (uint s) c \<longleftrightarrow> 2 ^ LENGTH('a) \<le> uint d + uint s + of_bool c"
  for d s :: "'a::len word"
  by (simp add: carry_def take_bit_uint_self)

lemma borrow_out: "borrow LENGTH('a) (uint d) (uint s) c \<longleftrightarrow> uint d < uint s + of_bool c"
  for d s :: "'a::len word"
  by (simp add: borrow_def take_bit_uint_self)

end
