(* ===== verification/X86_Alu.thy ===== *)
theory X86_Alu
  imports X86_Carry "HOL-Library.Signed_Division"
begin

text \<open>
  The arithmetic of the emulator: \<open>x86_prim_ops.c\<close> up to the string instructions. Each
  operation takes the machine and its operands at their width and returns the result and the
  machine with its flags set, with the intermediate values at the width of the C variables that
  hold them (\<open>int\<close> and \<open>unsigned int\<close> are 32 bits). C's shifts by the width of the operand
  or more, which the operations for \<open>long\<close> do for a count of one, give 0 here.
\<close>

subsection \<open>Parity\<close>

definition x86_parity_tab :: "u32 list" where
  "x86_parity_tab = [0x96696996, 0x69969669, 0x69969669, 0x96696996,
                     0x69969669, 0x96696996, 0x96696996, 0x69969669]"

definition PARITY :: "u32 \<Rightarrow> bool" where
  "PARITY x \<longleftrightarrow> drop_bit (unat (x mod 32)) (x86_parity_tab ! unat (x div 32)) AND 0x1 \<noteq> 0"

subsection \<open>Decimal adjustments\<close>

definition aad_word :: "'b sysenv \<Rightarrow> u16 \<Rightarrow> u16 \<times> 'b sysenv" where
  "aad_word m d =
     (let hb = ucast (drop_bit 8 d AND 0xff) :: u8;
          lb = ucast (d AND 0xff) :: u8;
          l = ucast lb + 10 * ucast hb :: u16;
          m = CONDITIONAL_SET_FLAG (l AND 0x80 \<noteq> 0) F_SF m;
          m = CONDITIONAL_SET_FLAG (l = 0) F_ZF m;
          m = CONDITIONAL_SET_FLAG (PARITY (ucast (l AND 0xff))) F_PF m
      in (l, m))"

definition aam_word :: "'b sysenv \<Rightarrow> u8 \<Rightarrow> u16 \<times> 'b sysenv" where
  "aam_word m d =
     (let h = ucast (d div 10) :: u16;
          l = ucast (d mod 10) :: u16;
          l = l OR push_bit 8 h;
          m = CONDITIONAL_SET_FLAG (l AND 0x80 \<noteq> 0) F_SF m;
          m = CONDITIONAL_SET_FLAG (l = 0) F_ZF m;
          m = CONDITIONAL_SET_FLAG (PARITY (ucast (l AND 0xff))) F_PF m
      in (l, m))"

subsection \<open>Addition and subtraction\<close>

definition adc_byte :: "'b sysenv \<Rightarrow> u8 \<Rightarrow> u8 \<Rightarrow> u8 \<times> 'b sysenv" where
  "adc_byte m d s =
     (let res = (if ACCESS_FLAG F_CF m then 1 + ucast d + ucast s else ucast d + ucast s) :: u16;
          m = CONDITIONAL_SET_FLAG (res AND 0x100 \<noteq> 0) F_CF m;
          m = CONDITIONAL_SET_FLAG (res AND 0xff = 0) F_ZF m;
          m = CONDITIONAL_SET_FLAG (res AND 0x80 \<noteq> 0) F_SF m;
          m = CONDITIONAL_SET_FLAG (PARITY (ucast (res AND 0xff))) F_PF m;
          cc = carry_chain res (ucast d) (ucast s);
          m = CONDITIONAL_SET_FLAG (XOR2 (drop_bit 6 cc)) F_OF m;
          m = CONDITIONAL_SET_FLAG (cc AND 0x8 \<noteq> 0) F_AF m
      in (ucast res, m))"

definition adc_word :: "'b sysenv \<Rightarrow> u16 \<Rightarrow> u16 \<Rightarrow> u16 \<times> 'b sysenv" where
  "adc_word m d s =
     (let res = (if ACCESS_FLAG F_CF m then 1 + ucast d + ucast s else ucast d + ucast s) :: u32;
          m = CONDITIONAL_SET_FLAG (res AND 0x10000 \<noteq> 0) F_CF m;
          m = CONDITIONAL_SET_FLAG (res AND 0xffff = 0) F_ZF m;
          m = CONDITIONAL_SET_FLAG (res AND 0x8000 \<noteq> 0) F_SF m;
          m = CONDITIONAL_SET_FLAG (PARITY (ucast (res AND 0xff))) F_PF m;
          cc = carry_chain res (ucast d) (ucast s);
          m = CONDITIONAL_SET_FLAG (XOR2 (drop_bit 14 cc)) F_OF m;
          m = CONDITIONAL_SET_FLAG (cc AND 0x8 \<noteq> 0) F_AF m
      in (ucast res, m))"

definition add_byte :: "'b sysenv \<Rightarrow> u8 \<Rightarrow> u8 \<Rightarrow> u8 \<times> 'b sysenv" where
  "add_byte m d s =
     (let res = ucast d + ucast s :: u16;
          m = CONDITIONAL_SET_FLAG (res AND 0x100 \<noteq> 0) F_CF m;
          m = CONDITIONAL_SET_FLAG (res AND 0xff = 0) F_ZF m;
          m = CONDITIONAL_SET_FLAG (res AND 0x80 \<noteq> 0) F_SF m;
          m = CONDITIONAL_SET_FLAG (PARITY (ucast (res AND 0xff))) F_PF m;
          cc = carry_chain res (ucast d) (ucast s);
          m = CONDITIONAL_SET_FLAG (XOR2 (drop_bit 6 cc)) F_OF m;
          m = CONDITIONAL_SET_FLAG (cc AND 0x8 \<noteq> 0) F_AF m
      in (ucast res, m))"

definition add_word :: "'b sysenv \<Rightarrow> u16 \<Rightarrow> u16 \<Rightarrow> u16 \<times> 'b sysenv" where
  "add_word m d s =
     (let res = ucast d + ucast s :: u32;
          m = CONDITIONAL_SET_FLAG (res AND 0x10000 \<noteq> 0) F_CF m;
          m = CONDITIONAL_SET_FLAG (res AND 0xffff = 0) F_ZF m;
          m = CONDITIONAL_SET_FLAG (res AND 0x8000 \<noteq> 0) F_SF m;
          m = CONDITIONAL_SET_FLAG (PARITY (ucast (res AND 0xff))) F_PF m;
          cc = carry_chain res (ucast d) (ucast s);
          m = CONDITIONAL_SET_FLAG (XOR2 (drop_bit 14 cc)) F_OF m;
          m = CONDITIONAL_SET_FLAG (cc AND 0x8 \<noteq> 0) F_AF m
      in (ucast res, m))"

definition cmp_byte :: "'b sysenv \<Rightarrow> u8 \<Rightarrow> u8 \<Rightarrow> u8 \<times> 'b sysenv" where
  "cmp_byte m d s =
     (let res = ucast d - ucast s :: u32;
          m = CLEAR_FLAG F_CF m;
          m = CONDITIONAL_SET_FLAG (res AND 0x80 \<noteq> 0) F_SF m;
          m = CONDITIONAL_SET_FLAG (res AND 0xff = 0) F_ZF m;
          m = CONDITIONAL_SET_FLAG (PARITY (ucast (res AND 0xff))) F_PF m;
          bc = borrow_chain res (ucast d) (ucast s);
          m = CONDITIONAL_SET_FLAG (bc AND 0x80 \<noteq> 0) F_CF m;
          m = CONDITIONAL_SET_FLAG (XOR2 (drop_bit 6 bc)) F_OF m;
          m = CONDITIONAL_SET_FLAG (bc AND 0x8 \<noteq> 0) F_AF m
      in (d, m))"

definition cmp_word :: "'b sysenv \<Rightarrow> u16 \<Rightarrow> u16 \<Rightarrow> u16 \<times> 'b sysenv" where
  "cmp_word m d s =
     (let res = ucast d - ucast s :: u32;
          m = CONDITIONAL_SET_FLAG (res AND 0x8000 \<noteq> 0) F_SF m;
          m = CONDITIONAL_SET_FLAG (res AND 0xffff = 0) F_ZF m;
          m = CONDITIONAL_SET_FLAG (PARITY (ucast (res AND 0xff))) F_PF m;
          bc = borrow_chain res (ucast d) (ucast s);
          m = CONDITIONAL_SET_FLAG (bc AND 0x8000 \<noteq> 0) F_CF m;
          m = CONDITIONAL_SET_FLAG (XOR2 (drop_bit 14 bc)) F_OF m;
          m = CONDITIONAL_SET_FLAG (bc AND 0x8 \<noteq> 0) F_AF m
      in (d, m))"

definition cmp_long :: "'b sysenv \<Rightarrow> u32 \<Rightarrow> u32 \<Rightarrow> u32 \<times> 'b sysenv" where
  "cmp_long m d s =
     (let res = ucast d - ucast s :: u32;
          m = CONDITIONAL_SET_FLAG (res AND 0x80000000 \<noteq> 0) F_SF m;
          m = CONDITIONAL_SET_FLAG (res AND 0xffffffff = 0) F_ZF m;
          m = CONDITIONAL_SET_FLAG (PARITY (ucast (res AND 0xff))) F_PF m;
          bc = borrow_chain res (ucast d) (ucast s);
          m = CONDITIONAL_SET_FLAG (bc AND 0x80000000 \<noteq> 0) F_CF m;
          m = CONDITIONAL_SET_FLAG (XOR2 (drop_bit 30 bc)) F_OF m;
          m = CONDITIONAL_SET_FLAG (bc AND 0x8 \<noteq> 0) F_AF m
      in (d, m))"

definition sbb_byte :: "'b sysenv \<Rightarrow> u8 \<Rightarrow> u8 \<Rightarrow> u8 \<times> 'b sysenv" where
  "sbb_byte m d s =
     (let res = (if ACCESS_FLAG F_CF m then ucast d - ucast s - 1 else ucast d - ucast s) :: u32;
          m = CONDITIONAL_SET_FLAG (res AND 0x80 \<noteq> 0) F_SF m;
          m = CONDITIONAL_SET_FLAG (res AND 0xff = 0) F_ZF m;
          m = CONDITIONAL_SET_FLAG (PARITY (ucast (res AND 0xff))) F_PF m;
          bc = borrow_chain res (ucast d) (ucast s);
          m = CONDITIONAL_SET_FLAG (bc AND 0x80 \<noteq> 0) F_CF m;
          m = CONDITIONAL_SET_FLAG (XOR2 (drop_bit 6 bc)) F_OF m;
          m = CONDITIONAL_SET_FLAG (bc AND 0x8 \<noteq> 0) F_AF m
      in (ucast (res AND 0xff), m))"

definition sbb_word :: "'b sysenv \<Rightarrow> u16 \<Rightarrow> u16 \<Rightarrow> u16 \<times> 'b sysenv" where
  "sbb_word m d s =
     (let res = (if ACCESS_FLAG F_CF m then ucast d - ucast s - 1 else ucast d - ucast s) :: u32;
          m = CONDITIONAL_SET_FLAG (res AND 0x8000 \<noteq> 0) F_SF m;
          m = CONDITIONAL_SET_FLAG (res AND 0xffff = 0) F_ZF m;
          m = CONDITIONAL_SET_FLAG (PARITY (ucast (res AND 0xff))) F_PF m;
          bc = borrow_chain res (ucast d) (ucast s);
          m = CONDITIONAL_SET_FLAG (bc AND 0x8000 \<noteq> 0) F_CF m;
          m = CONDITIONAL_SET_FLAG (XOR2 (drop_bit 14 bc)) F_OF m;
          m = CONDITIONAL_SET_FLAG (bc AND 0x8 \<noteq> 0) F_AF m
      in (ucast (res AND 0xffff), m))"

definition sub_byte :: "'b sysenv \<Rightarrow> u8 \<Rightarrow> u8 \<Rightarrow> u8 \<times> 'b sysenv" where
  "sub_byte m d s =
     (let res = ucast d - ucast s :: u32;
          m = CONDITIONAL_SET_FLAG (res AND 0x80 \<noteq> 0) F_SF m;
          m = CONDITIONAL_SET_FLAG (res AND 0xff = 0) F_ZF m;
          m = CONDITIONAL_SET_FLAG (PARITY (ucast (res AND 0xff))) F_PF m;
          bc = borrow_chain res (ucast d) (ucast s);
          m = CONDITIONAL_SET_FLAG (bc AND 0x80 \<noteq> 0) F_CF m;
          m = CONDITIONAL_SET_FLAG (XOR2 (drop_bit 6 bc)) F_OF m;
          m = CONDITIONAL_SET_FLAG (bc AND 0x8 \<noteq> 0) F_AF m
      in (ucast (res AND 0xff), m))"

definition sub_word :: "'b sysenv \<Rightarrow> u16 \<Rightarrow> u16 \<Rightarrow> u16 \<times> 'b sysenv" where
  "sub_word m d s =
     (let res = ucast d - ucast s :: u32;
          m = CONDITIONAL_SET_FLAG (res AND 0x8000 \<noteq> 0) F_SF m;
          m = CONDITIONAL_SET_FLAG (res AND 0xffff = 0) F_ZF m;
          m = CONDITIONAL_SET_FLAG (PARITY (ucast (res AND 0xff))) F_PF m;
          bc = borrow_chain res (ucast d) (ucast s);
          m = CONDITIONAL_SET_FLAG (bc AND 0x8000 \<noteq> 0) F_CF m;
          m = CONDITIONAL_SET_FLAG (XOR2 (drop_bit 14 bc)) F_OF m;
          m = CONDITIONAL_SET_FLAG (bc AND 0x8 \<noteq> 0) F_AF m
      in (ucast (res AND 0xffff), m))"

definition dec_byte :: "'b sysenv \<Rightarrow> u8 \<Rightarrow> u8 \<times> 'b sysenv" where
  "dec_byte m d =
     (let res = ucast d - 1 :: u32;
          m = CONDITIONAL_SET_FLAG (res AND 0x80 \<noteq> 0) F_SF m;
          m = CONDITIONAL_SET_FLAG (res AND 0xff = 0) F_ZF m;
          m = CONDITIONAL_SET_FLAG (PARITY (ucast (res AND 0xff))) F_PF m;
          bc = borrow_chain res (ucast d) 1;
          m = CONDITIONAL_SET_FLAG (XOR2 (drop_bit 6 bc)) F_OF m;
          m = CONDITIONAL_SET_FLAG (bc AND 0x8 \<noteq> 0) F_AF m
      in (ucast res, m))"

definition dec_word :: "'b sysenv \<Rightarrow> u16 \<Rightarrow> u16 \<times> 'b sysenv" where
  "dec_word m d =
     (let res = ucast d - 1 :: u32;
          m = CONDITIONAL_SET_FLAG (res AND 0x8000 \<noteq> 0) F_SF m;
          m = CONDITIONAL_SET_FLAG (res AND 0xffff = 0) F_ZF m;
          m = CONDITIONAL_SET_FLAG (PARITY (ucast (res AND 0xff))) F_PF m;
          bc = borrow_chain res (ucast d) 1;
          m = CONDITIONAL_SET_FLAG (XOR2 (drop_bit 14 bc)) F_OF m;
          m = CONDITIONAL_SET_FLAG (bc AND 0x8 \<noteq> 0) F_AF m
      in (ucast res, m))"

definition inc_byte :: "'b sysenv \<Rightarrow> u8 \<Rightarrow> u8 \<times> 'b sysenv" where
  "inc_byte m d =
     (let res = ucast d + 1 :: u32;
          m = CONDITIONAL_SET_FLAG (res AND 0xff = 0) F_ZF m;
          m = CONDITIONAL_SET_FLAG (res AND 0x80 \<noteq> 0) F_SF m;
          m = CONDITIONAL_SET_FLAG (PARITY (ucast (res AND 0xff))) F_PF m;
          cc = ((1 AND ucast d) OR NOT res) AND (1 OR ucast d);
          m = CONDITIONAL_SET_FLAG (XOR2 (drop_bit 6 cc)) F_OF m;
          m = CONDITIONAL_SET_FLAG (cc AND 0x8 \<noteq> 0) F_AF m
      in (ucast res, m))"

definition inc_word :: "'b sysenv \<Rightarrow> u16 \<Rightarrow> u16 \<times> 'b sysenv" where
  "inc_word m d =
     (let res = ucast d + 1 :: u32;
          m = CONDITIONAL_SET_FLAG (res AND 0xffff = 0) F_ZF m;
          m = CONDITIONAL_SET_FLAG (res AND 0x8000 \<noteq> 0) F_SF m;
          m = CONDITIONAL_SET_FLAG (PARITY (ucast (res AND 0xff))) F_PF m;
          cc = (1 AND ucast d) OR (NOT res AND (1 OR ucast d));
          m = CONDITIONAL_SET_FLAG (XOR2 (drop_bit 14 cc)) F_OF m;
          m = CONDITIONAL_SET_FLAG (cc AND 0x8 \<noteq> 0) F_AF m
      in (ucast res, m))"

definition neg_byte :: "'b sysenv \<Rightarrow> u8 \<Rightarrow> u8 \<times> 'b sysenv" where
  "neg_byte m s =
     (let m = CONDITIONAL_SET_FLAG (s \<noteq> 0) F_CF m;
          res = - s;
          m = CONDITIONAL_SET_FLAG (res AND 0xff = 0) F_ZF m;
          m = CONDITIONAL_SET_FLAG (res AND 0x80 \<noteq> 0) F_SF m;
          m = CONDITIONAL_SET_FLAG (PARITY (ucast res)) F_PF m;
          bc = res OR s;
          m = CONDITIONAL_SET_FLAG (XOR2 (drop_bit 6 bc)) F_OF m;
          m = CONDITIONAL_SET_FLAG (bc AND 0x8 \<noteq> 0) F_AF m
      in (res, m))"

definition neg_word :: "'b sysenv \<Rightarrow> u16 \<Rightarrow> u16 \<times> 'b sysenv" where
  "neg_word m s =
     (let m = CONDITIONAL_SET_FLAG (s \<noteq> 0) F_CF m;
          res = - s;
          m = CONDITIONAL_SET_FLAG (res AND 0xffff = 0) F_ZF m;
          m = CONDITIONAL_SET_FLAG (res AND 0x8000 \<noteq> 0) F_SF m;
          m = CONDITIONAL_SET_FLAG (PARITY (ucast (res AND 0xff))) F_PF m;
          bc = res OR s;
          m = CONDITIONAL_SET_FLAG (XOR2 (drop_bit 6 bc)) F_OF m;
          m = CONDITIONAL_SET_FLAG (bc AND 0x8 \<noteq> 0) F_AF m
      in (res, m))"

subsection \<open>Logic\<close>

definition and_byte :: "'b sysenv \<Rightarrow> u8 \<Rightarrow> u8 \<Rightarrow> u8 \<times> 'b sysenv" where
  "and_byte m d s =
     (let res = d AND s;
          m = CLEAR_FLAG F_OF m;
          m = CLEAR_FLAG F_CF m;
          m = CONDITIONAL_SET_FLAG (res AND 0x80 \<noteq> 0) F_SF m;
          m = CONDITIONAL_SET_FLAG (res = 0) F_ZF m;
          m = CONDITIONAL_SET_FLAG (PARITY (ucast res)) F_PF m
      in (res, m))"

definition and_word :: "'b sysenv \<Rightarrow> u16 \<Rightarrow> u16 \<Rightarrow> u16 \<times> 'b sysenv" where
  "and_word m d s =
     (let res = d AND s;
          m = CLEAR_FLAG F_OF m;
          m = CLEAR_FLAG F_CF m;
          m = CONDITIONAL_SET_FLAG (res AND 0x8000 \<noteq> 0) F_SF m;
          m = CONDITIONAL_SET_FLAG (res = 0) F_ZF m;
          m = CONDITIONAL_SET_FLAG (PARITY (ucast (res AND 0xff))) F_PF m
      in (res, m))"

definition or_byte :: "'b sysenv \<Rightarrow> u8 \<Rightarrow> u8 \<Rightarrow> u8 \<times> 'b sysenv" where
  "or_byte m d s =
     (let res = d OR s;
          m = CLEAR_FLAG F_OF m;
          m = CLEAR_FLAG F_CF m;
          m = CONDITIONAL_SET_FLAG (res AND 0x80 \<noteq> 0) F_SF m;
          m = CONDITIONAL_SET_FLAG (res = 0) F_ZF m;
          m = CONDITIONAL_SET_FLAG (PARITY (ucast res)) F_PF m
      in (res, m))"

definition or_word :: "'b sysenv \<Rightarrow> u16 \<Rightarrow> u16 \<Rightarrow> u16 \<times> 'b sysenv" where
  "or_word m d s =
     (let res = d OR s;
          m = CLEAR_FLAG F_OF m;
          m = CLEAR_FLAG F_CF m;
          m = CONDITIONAL_SET_FLAG (res AND 0x8000 \<noteq> 0) F_SF m;
          m = CONDITIONAL_SET_FLAG (res = 0) F_ZF m;
          m = CONDITIONAL_SET_FLAG (PARITY (ucast (res AND 0xff))) F_PF m
      in (res, m))"

definition xor_byte :: "'b sysenv \<Rightarrow> u8 \<Rightarrow> u8 \<Rightarrow> u8 \<times> 'b sysenv" where
  "xor_byte m d s =
     (let res = d XOR s;
          m = CLEAR_FLAG F_OF m;
          m = CONDITIONAL_SET_FLAG (res AND 0x80 \<noteq> 0) F_SF m;
          m = CONDITIONAL_SET_FLAG (res = 0) F_ZF m;
          m = CONDITIONAL_SET_FLAG (PARITY (ucast res)) F_PF m;
          m = CLEAR_FLAG F_CF m
      in (res, m))"

definition xor_word :: "'b sysenv \<Rightarrow> u16 \<Rightarrow> u16 \<Rightarrow> u16 \<times> 'b sysenv" where
  "xor_word m d s =
     (let res = d XOR s;
          m = CLEAR_FLAG F_OF m;
          m = CONDITIONAL_SET_FLAG (res AND 0x8000 \<noteq> 0) F_SF m;
          m = CONDITIONAL_SET_FLAG (res = 0) F_ZF m;
          m = CONDITIONAL_SET_FLAG (PARITY (ucast (res AND 0xff))) F_PF m;
          m = CLEAR_FLAG F_CF m
      in (res, m))"

definition test_byte :: "'b sysenv \<Rightarrow> u8 \<Rightarrow> u8 \<Rightarrow> 'b sysenv" where
  "test_byte m d s =
     (let res = ucast d AND ucast s :: u32;
          m = CLEAR_FLAG F_OF m;
          m = CONDITIONAL_SET_FLAG (res AND 0x80 \<noteq> 0) F_SF m;
          m = CONDITIONAL_SET_FLAG (res = 0) F_ZF m;
          m = CONDITIONAL_SET_FLAG (PARITY (ucast (res AND 0xff))) F_PF m;
          m = CLEAR_FLAG F_CF m
      in m)"

definition test_word :: "'b sysenv \<Rightarrow> u16 \<Rightarrow> u16 \<Rightarrow> 'b sysenv" where
  "test_word m d s =
     (let res = ucast d AND ucast s :: u32;
          m = CLEAR_FLAG F_OF m;
          m = CONDITIONAL_SET_FLAG (res AND 0x8000 \<noteq> 0) F_SF m;
          m = CONDITIONAL_SET_FLAG (res = 0) F_ZF m;
          m = CONDITIONAL_SET_FLAG (PARITY (ucast (res AND 0xff))) F_PF m;
          m = CLEAR_FLAG F_CF m
      in m)"

definition not_byte :: "u8 \<Rightarrow> u8" where
  "not_byte s = NOT s"

definition not_word :: "u16 \<Rightarrow> u16" where
  "not_word s = NOT s"

subsection \<open>Rotations through the carry\<close>

definition rcl_byte :: "'b sysenv \<Rightarrow> u8 \<Rightarrow> u8 \<Rightarrow> u8 \<times> 'b sysenv" where
  "rcl_byte m d s =
     (let cnt = unat s mod 9; d' = ucast d :: u32 in
      if cnt \<noteq> 0 then
        let cf = drop_bit (8 - cnt) d' AND 0x1;
            res = push_bit cnt d' AND 0xff;
            mask' = push_bit (cnt - 1) 1 - 1;
            res = res OR (drop_bit (9 - cnt) d' AND mask');
            res = (if ACCESS_FLAG F_CF m then res OR push_bit (cnt - 1) 1 else res);
            m = CONDITIONAL_SET_FLAG (cf \<noteq> 0) F_CF m;
            m = CONDITIONAL_SET_FLAG (cnt = 1 \<and> XOR2 (cf + (drop_bit 6 res AND 0x2))) F_OF m
        in (ucast (res AND 0xff), m)
      else (d, m))"

definition rcl_word :: "'b sysenv \<Rightarrow> u16 \<Rightarrow> u16 \<Rightarrow> u16 \<times> 'b sysenv" where
  "rcl_word m d s =
     (let cnt = unat s mod 17; d' = ucast d :: u32 in
      if cnt \<noteq> 0 then
        let cf = drop_bit (16 - cnt) d' AND 0x1;
            res = push_bit cnt d' AND 0xffff;
            mask' = push_bit (cnt - 1) 1 - 1;
            res = res OR (drop_bit (17 - cnt) d' AND mask');
            res = (if ACCESS_FLAG F_CF m then res OR push_bit (cnt - 1) 1 else res);
            m = CONDITIONAL_SET_FLAG (cf \<noteq> 0) F_CF m;
            m = CONDITIONAL_SET_FLAG (cnt = 1 \<and> XOR2 (cf + (drop_bit 14 res AND 0x2))) F_OF m
        in (ucast (res AND 0xffff), m)
      else (d, m))"

definition rcl_long :: "'b sysenv \<Rightarrow> u32 \<Rightarrow> u32 \<Rightarrow> u32 \<times> 'b sysenv" where
  "rcl_long m d s =
     (let cnt = unat s mod 33; d' = d :: u32 in
      if cnt \<noteq> 0 then
        let cf = drop_bit (32 - cnt) d' AND 0x1;
            res = push_bit cnt d' AND 0xffff;
            mask' = push_bit (cnt - 1) 1 - 1;
            res = res OR (drop_bit (33 - cnt) d' AND mask');
            res = (if ACCESS_FLAG F_CF m then res OR push_bit (cnt - 1) 1 else res);
            m = CONDITIONAL_SET_FLAG (cf \<noteq> 0) F_CF m;
            m = CONDITIONAL_SET_FLAG (cnt = 1 \<and> XOR2 (cf + (drop_bit 30 res AND 0x2))) F_OF m
        in (res, m)
      else (d, m))"

definition rcr_byte :: "'b sysenv \<Rightarrow> u8 \<Rightarrow> u8 \<Rightarrow> u8 \<times> 'b sysenv" where
  "rcr_byte m d s =
     (let cnt = unat s mod 9 in
      if cnt \<noteq> 0 then
        let cf = (if cnt = 1 then d AND 0x1 else drop_bit (cnt - 1) d AND 0x1);
            ocf = (if cnt = 1 \<and> ACCESS_FLAG F_CF m then 1 else 0) :: u32;
            mask' = push_bit (8 - cnt) 1 - 1;
            res = drop_bit cnt d AND mask';
            res = res OR push_bit (9 - cnt) d;
            res = (if ACCESS_FLAG F_CF m then res OR push_bit (8 - cnt) 1 else res);
            m = CONDITIONAL_SET_FLAG (cf \<noteq> 0) F_CF m;
            m = (if cnt = 1 then CONDITIONAL_SET_FLAG
                   (XOR2 (ocf + (drop_bit 6 (ucast d) AND 0x2))) F_OF m else m)
        in (res, m)
      else (d, m))"

definition rcr_word :: "'b sysenv \<Rightarrow> u16 \<Rightarrow> u16 \<Rightarrow> u16 \<times> 'b sysenv" where
  "rcr_word m d s =
     (let cnt = unat s mod 17 in
      if cnt \<noteq> 0 then
        let cf = (if cnt = 1 then d AND 0x1 else drop_bit (cnt - 1) d AND 0x1);
            ocf = (if cnt = 1 \<and> ACCESS_FLAG F_CF m then 1 else 0) :: u32;
            mask' = push_bit (16 - cnt) 1 - 1;
            res = drop_bit cnt d AND mask';
            res = res OR push_bit (17 - cnt) d;
            res = (if ACCESS_FLAG F_CF m then res OR push_bit (16 - cnt) 1 else res);
            m = CONDITIONAL_SET_FLAG (cf \<noteq> 0) F_CF m;
            m = (if cnt = 1 then CONDITIONAL_SET_FLAG
                   (XOR2 (ocf + (drop_bit 14 (ucast d) AND 0x2))) F_OF m else m)
        in (res, m)
      else (d, m))"

definition rcr_long :: "'b sysenv \<Rightarrow> u32 \<Rightarrow> u32 \<Rightarrow> u32 \<times> 'b sysenv" where
  "rcr_long m d s =
     (let cnt = unat s mod 33 in
      if cnt \<noteq> 0 then
        let cf = (if cnt = 1 then d AND 0x1 else drop_bit (cnt - 1) d AND 0x1);
            ocf = (if cnt = 1 \<and> ACCESS_FLAG F_CF m then 1 else 0) :: u32;
            mask' = push_bit (32 - cnt) 1 - 1;
            res = drop_bit cnt d AND mask';
            res = res OR push_bit (33 - cnt) d;
            res = (if ACCESS_FLAG F_CF m then res OR push_bit (32 - cnt) 1 else res);
            m = CONDITIONAL_SET_FLAG (cf \<noteq> 0) F_CF m;
            m = (if cnt = 1 then CONDITIONAL_SET_FLAG
                   (XOR2 (ocf + (drop_bit 30 (ucast d) AND 0x2))) F_OF m else m)
        in (res, m)
      else (d, m))"

subsection \<open>Rotations\<close>

definition rol_byte :: "'b sysenv \<Rightarrow> u8 \<Rightarrow> u8 \<Rightarrow> u8 \<times> 'b sysenv" where
  "rol_byte m d s =
     (let cnt = unat s mod 8; d' = ucast d :: u32 in
      if cnt \<noteq> 0 then
        let res = push_bit cnt d';
            mask' = push_bit cnt 1 - 1;
            res = res OR (drop_bit (8 - cnt) d' AND mask');
            m = CONDITIONAL_SET_FLAG (res AND 0x1 \<noteq> 0) F_CF m;
            m = CONDITIONAL_SET_FLAG (cnt = 1 \<and> XOR2 ((res AND 0x1) + (drop_bit 6 res AND 0x2))) F_OF m
        in (ucast (res AND 0xff), m)
      else (d, m))"

definition rol_word :: "'b sysenv \<Rightarrow> u16 \<Rightarrow> u16 \<Rightarrow> u16 \<times> 'b sysenv" where
  "rol_word m d s =
     (let cnt = unat s mod 16; d' = ucast d :: u32 in
      if cnt \<noteq> 0 then
        let res = push_bit cnt d';
            mask' = push_bit cnt 1 - 1;
            res = res OR (drop_bit (16 - cnt) d' AND mask');
            m = CONDITIONAL_SET_FLAG (res AND 0x1 \<noteq> 0) F_CF m;
            m = CONDITIONAL_SET_FLAG (cnt = 1 \<and> XOR2 ((res AND 0x1) + (drop_bit 14 res AND 0x2))) F_OF m
        in (ucast (res AND 0xffff), m)
      else (d, m))"

definition rol_long :: "'b sysenv \<Rightarrow> u32 \<Rightarrow> u32 \<Rightarrow> u32 \<times> 'b sysenv" where
  "rol_long m d s =
     (let cnt = unat s mod 32; d' = d :: u32 in
      if cnt \<noteq> 0 then
        let res = push_bit cnt d';
            mask' = push_bit cnt 1 - 1;
            res = res OR (drop_bit (32 - cnt) d' AND mask');
            m = CONDITIONAL_SET_FLAG (res AND 0x1 \<noteq> 0) F_CF m;
            m = CONDITIONAL_SET_FLAG (cnt = 1 \<and> XOR2 ((res AND 0x1) + (drop_bit 30 res AND 0x2))) F_OF m
        in (res, m)
      else (d, m))"

definition ror_byte :: "'b sysenv \<Rightarrow> u8 \<Rightarrow> u8 \<Rightarrow> u8 \<times> 'b sysenv" where
  "ror_byte m d s =
     (let cnt = unat s mod 8; d' = ucast d :: u32 in
      if cnt \<noteq> 0 then
        let res = push_bit (8 - cnt) d';
            mask' = push_bit (8 - cnt) 1 - 1;
            res = res OR (drop_bit cnt d' AND mask');
            m = CONDITIONAL_SET_FLAG (res AND 0x80 \<noteq> 0) F_CF m;
            m = CONDITIONAL_SET_FLAG (cnt = 1 \<and> XOR2 (drop_bit 6 res)) F_OF m
        in (ucast (res AND 0xff), m)
      else (d, m))"

definition ror_word :: "'b sysenv \<Rightarrow> u16 \<Rightarrow> u16 \<Rightarrow> u16 \<times> 'b sysenv" where
  "ror_word m d s =
     (let cnt = unat s mod 16; d' = ucast d :: u32 in
      if cnt \<noteq> 0 then
        let res = push_bit (16 - cnt) d';
            mask' = push_bit (16 - cnt) 1 - 1;
            res = res OR (drop_bit cnt d' AND mask');
            m = CONDITIONAL_SET_FLAG (res AND 0x8000 \<noteq> 0) F_CF m;
            m = CONDITIONAL_SET_FLAG (cnt = 1 \<and> XOR2 (drop_bit 14 res)) F_OF m
        in (ucast (res AND 0xffff), m)
      else (d, m))"

definition ror_long :: "'b sysenv \<Rightarrow> u32 \<Rightarrow> u32 \<Rightarrow> u32 \<times> 'b sysenv" where
  "ror_long m d s =
     (let cnt = unat s mod 32; d' = d :: u32 in
      if cnt \<noteq> 0 then
        let res = push_bit (32 - cnt) d';
            mask' = push_bit (32 - cnt) 1 - 1;
            res = res OR (drop_bit cnt d' AND mask');
            m = CONDITIONAL_SET_FLAG (res AND 0x80000000 \<noteq> 0) F_CF m;
            m = CONDITIONAL_SET_FLAG (cnt = 1 \<and> XOR2 (drop_bit 30 res)) F_OF m
        in (res, m)
      else (d, m))"

subsection \<open>Shifts\<close>

definition shl_byte :: "'b sysenv \<Rightarrow> u8 \<Rightarrow> u8 \<Rightarrow> u8 \<times> 'b sysenv" where
  "shl_byte m d s =
     (if s < 8 then
        let cnt = unat s mod 8; d' = ucast d :: u32;
            (res, m) =
              (if 0 < cnt then
                 let res = push_bit cnt d';
                     cf = d' AND push_bit (8 - cnt) 1;
                     m = CONDITIONAL_SET_FLAG (cf \<noteq> 0) F_CF m;
                     m = CONDITIONAL_SET_FLAG (res AND 0xff = 0) F_ZF m;
                     m = CONDITIONAL_SET_FLAG (res AND 0x80 \<noteq> 0) F_SF m;
                     m = CONDITIONAL_SET_FLAG (PARITY (ucast (res AND 0xff))) F_PF m
                 in (res, m)
               else (d', m));
            m = (if cnt = 1 then CONDITIONAL_SET_FLAG
                   ((res AND 0x80 = 0x80) \<noteq> ACCESS_FLAG F_CF m) F_OF m
                 else CLEAR_FLAG F_OF m)
        in (ucast (res AND 0xff), m)
      else let m = CLEAR_FLAG F_CF m; m = CLEAR_FLAG F_OF m; m = CLEAR_FLAG F_SF m; m = CLEAR_FLAG F_PF m;
              m = SET_FLAG F_ZF m
           in (0, m))"

definition shl_word :: "'b sysenv \<Rightarrow> u16 \<Rightarrow> u16 \<Rightarrow> u16 \<times> 'b sysenv" where
  "shl_word m d s =
     (if s < 16 then
        let cnt = unat s mod 16; d' = ucast d :: u32;
            (res, m) =
              (if 0 < cnt then
                 let res = push_bit cnt d';
                     cf = d' AND push_bit (16 - cnt) 1;
                     m = CONDITIONAL_SET_FLAG (cf \<noteq> 0) F_CF m;
                     m = CONDITIONAL_SET_FLAG (res AND 0xffff = 0) F_ZF m;
                     m = CONDITIONAL_SET_FLAG (res AND 0x8000 \<noteq> 0) F_SF m;
                     m = CONDITIONAL_SET_FLAG (PARITY (ucast (res AND 0xff))) F_PF m
                 in (res, m)
               else (d', m));
            m = (if cnt = 1 then CONDITIONAL_SET_FLAG
                   ((res AND 0x8000 = 0x8000) \<noteq> ACCESS_FLAG F_CF m) F_OF m
                 else CLEAR_FLAG F_OF m)
        in (ucast (res AND 0xffff), m)
      else let m = CLEAR_FLAG F_CF m; m = CLEAR_FLAG F_OF m; m = SET_FLAG F_ZF m; m = CLEAR_FLAG F_SF m;
              m = CLEAR_FLAG F_PF m
           in (0, m))"

definition shl_long :: "'b sysenv \<Rightarrow> u32 \<Rightarrow> u32 \<Rightarrow> u32 \<times> 'b sysenv" where
  "shl_long m d s =
     (if s < 32 then
        let cnt = unat s mod 32; d' = d :: u32;
            (res, m) =
              (if 0 < cnt then
                 let res = push_bit cnt d';
                     cf = d' AND push_bit (32 - cnt) 1;
                     m = CONDITIONAL_SET_FLAG (cf \<noteq> 0) F_CF m;
                     m = CONDITIONAL_SET_FLAG (res AND 0xffffffff = 0) F_ZF m;
                     m = CONDITIONAL_SET_FLAG (res AND 0x80000000 \<noteq> 0) F_SF m;
                     m = CONDITIONAL_SET_FLAG (PARITY (ucast (res AND 0xff))) F_PF m
                 in (res, m)
               else (d', m));
            m = (if cnt = 1 then CONDITIONAL_SET_FLAG
                   ((res AND 0x80000000 = 0x80000000) \<noteq> ACCESS_FLAG F_CF m) F_OF m
                 else CLEAR_FLAG F_OF m)
        in (res, m)
      else let m = CLEAR_FLAG F_CF m; m = CLEAR_FLAG F_OF m; m = SET_FLAG F_ZF m; m = CLEAR_FLAG F_SF m;
              m = CLEAR_FLAG F_PF m
           in (0, m))"

definition shr_byte :: "'b sysenv \<Rightarrow> u8 \<Rightarrow> u8 \<Rightarrow> u8 \<times> 'b sysenv" where
  "shr_byte m d s =
     (if s < 8 then
        let cnt = unat s mod 8; d' = ucast d :: u32;
            (res, m) =
              (if 0 < cnt then
                 let mask' = push_bit (8 - cnt) 1 - 1;
                     cf = d' AND push_bit (cnt - 1) 1;
                     res = drop_bit cnt d' AND mask';
                     m = CONDITIONAL_SET_FLAG (cf \<noteq> 0) F_CF m;
                     m = CONDITIONAL_SET_FLAG (res AND 0xff = 0) F_ZF m;
                     m = CONDITIONAL_SET_FLAG (res AND 0x80 \<noteq> 0) F_SF m;
                     m = CONDITIONAL_SET_FLAG (PARITY (ucast (res AND 0xff))) F_PF m
                 in (res, m)
               else (d', m));
            m = (if cnt = 1 then CONDITIONAL_SET_FLAG (XOR2 (drop_bit 6 res)) F_OF m
                 else CLEAR_FLAG F_OF m)
        in (ucast (res AND 0xff), m)
      else let m = CLEAR_FLAG F_CF m; m = CLEAR_FLAG F_OF m; m = SET_FLAG F_ZF m;
               m = CLEAR_FLAG F_SF m; m = CLEAR_FLAG F_PF m
           in (0, m))"

definition shr_word :: "'b sysenv \<Rightarrow> u16 \<Rightarrow> u16 \<Rightarrow> u16 \<times> 'b sysenv" where
  "shr_word m d s =
     (if s < 16 then
        let cnt = unat s mod 16; d' = ucast d :: u32;
            (res, m) =
              (if 0 < cnt then
                 let mask' = push_bit (16 - cnt) 1 - 1;
                     cf = d' AND push_bit (cnt - 1) 1;
                     res = drop_bit cnt d' AND mask';
                     m = CONDITIONAL_SET_FLAG (cf \<noteq> 0) F_CF m;
                     m = CONDITIONAL_SET_FLAG (res AND 0xffff = 0) F_ZF m;
                     m = CONDITIONAL_SET_FLAG (res AND 0x8000 \<noteq> 0) F_SF m;
                     m = CONDITIONAL_SET_FLAG (PARITY (ucast (res AND 0xff))) F_PF m
                 in (res, m)
               else (d', m));
            m = (if cnt = 1 then CONDITIONAL_SET_FLAG (XOR2 (drop_bit 14 res)) F_OF m
                 else CLEAR_FLAG F_OF m)
        in (ucast (res AND 0xffff), m)
      else let m = CLEAR_FLAG F_CF m; m = CLEAR_FLAG F_OF m; m = SET_FLAG F_ZF m;
               m = CLEAR_FLAG F_SF m; m = CLEAR_FLAG F_PF m
           in (0, m))"

definition shr_long :: "'b sysenv \<Rightarrow> u32 \<Rightarrow> u32 \<Rightarrow> u32 \<times> 'b sysenv" where
  "shr_long m d s =
     (if s < 32 then
        let cnt = unat s mod 32; d' = d :: u32;
            (res, m) =
              (if 0 < cnt then
                 let mask' = push_bit (32 - cnt) 1 - 1;
                     cf = d' AND push_bit (cnt - 1) 1;
                     res = drop_bit cnt d' AND mask';
                     m = CONDITIONAL_SET_FLAG (cf \<noteq> 0) F_CF m;
                     m = CONDITIONAL_SET_FLAG (res AND 0xffffffff = 0) F_ZF m;
                     m = CONDITIONAL_SET_FLAG (res AND 0x80000000 \<noteq> 0) F_SF m;
                     m = CONDITIONAL_SET_FLAG (PARITY (ucast (res AND 0xff))) F_PF m
                 in (res, m)
               else (d', m));
            m = (if cnt = 1 then CONDITIONAL_SET_FLAG (XOR2 (drop_bit 30 res)) F_OF m
                 else CLEAR_FLAG F_OF m)
        in (res, m)
      else let m = CLEAR_FLAG F_CF m; m = CLEAR_FLAG F_OF m; m = SET_FLAG F_ZF m;
               m = CLEAR_FLAG F_SF m; m = CLEAR_FLAG F_PF m
           in (0, m))"

definition sar_byte :: "'b sysenv \<Rightarrow> u8 \<Rightarrow> u8 \<Rightarrow> u8 \<times> 'b sysenv" where
  "sar_byte m d s =
     (let d' = ucast d :: u32; sf = d' AND 0x80; cnt = unat s mod 8 in
      if 0 < cnt \<and> cnt < 8 then
        let mask' = push_bit (8 - cnt) 1 - 1;
            cf = d' AND push_bit (cnt - 1) 1;
            res = drop_bit cnt d' AND mask';
            m = CONDITIONAL_SET_FLAG (cf \<noteq> 0) F_CF m;
            res = (if sf \<noteq> 0 then res OR NOT mask' else res);
            m = CONDITIONAL_SET_FLAG (res AND 0xff = 0) F_ZF m;
            m = CONDITIONAL_SET_FLAG (PARITY (ucast (res AND 0xff))) F_PF m;
            m = CONDITIONAL_SET_FLAG (res AND 0x80 \<noteq> 0) F_SF m
        in (ucast (res AND 0xff), m)
      else if 8 \<le> cnt then
        if sf \<noteq> 0 then
          let m = SET_FLAG F_CF m; m = CLEAR_FLAG F_ZF m; m = SET_FLAG F_SF m; m = SET_FLAG F_PF m
          in (0xff, m)
        else
          let m = CLEAR_FLAG F_CF m; m = SET_FLAG F_ZF m; m = CLEAR_FLAG F_SF m;
              m = CLEAR_FLAG F_PF m
          in (0, m)
      else (d, m))"

definition sar_word :: "'b sysenv \<Rightarrow> u16 \<Rightarrow> u16 \<Rightarrow> u16 \<times> 'b sysenv" where
  "sar_word m d s =
     (let d' = ucast d :: u32; sf = d' AND 0x8000; cnt = unat s mod 16 in
      if 0 < cnt \<and> cnt < 16 then
        let mask' = push_bit (16 - cnt) 1 - 1;
            cf = d' AND push_bit (cnt - 1) 1;
            res = drop_bit cnt d' AND mask';
            m = CONDITIONAL_SET_FLAG (cf \<noteq> 0) F_CF m;
            res = (if sf \<noteq> 0 then res OR NOT mask' else res);
            m = CONDITIONAL_SET_FLAG (res AND 0xffff = 0) F_ZF m;
            m = CONDITIONAL_SET_FLAG (res AND 0x8000 \<noteq> 0) F_SF m;
            m = CONDITIONAL_SET_FLAG (PARITY (ucast (res AND 0xff))) F_PF m
        in (ucast (res AND 0xffff), m)
      else if 16 \<le> cnt then
        if sf \<noteq> 0 then
          let m = SET_FLAG F_CF m; m = CLEAR_FLAG F_ZF m; m = SET_FLAG F_SF m; m = SET_FLAG F_PF m
          in (0xffff, m)
        else
          let m = CLEAR_FLAG F_CF m; m = SET_FLAG F_ZF m; m = CLEAR_FLAG F_SF m;
              m = CLEAR_FLAG F_PF m
          in (0, m)
      else (d, m))"

definition sar_long :: "'b sysenv \<Rightarrow> u32 \<Rightarrow> u32 \<Rightarrow> u32 \<times> 'b sysenv" where
  "sar_long m d s =
     (let d' = d :: u32; sf = d' AND 0x80000000; cnt = unat s mod 32 in
      if 0 < cnt \<and> cnt < 32 then
        let mask' = push_bit (32 - cnt) 1 - 1;
            cf = d' AND push_bit (cnt - 1) 1;
            res = drop_bit cnt d' AND mask';
            m = CONDITIONAL_SET_FLAG (cf \<noteq> 0) F_CF m;
            res = (if sf \<noteq> 0 then res OR NOT mask' else res);
            m = CONDITIONAL_SET_FLAG (res AND 0xffffffff = 0) F_ZF m;
            m = CONDITIONAL_SET_FLAG (res AND 0x80000000 \<noteq> 0) F_SF m;
            m = CONDITIONAL_SET_FLAG (PARITY (ucast (res AND 0xff))) F_PF m
        in (res, m)
      else if 32 \<le> cnt then
        if sf \<noteq> 0 then
          let m = SET_FLAG F_CF m; m = CLEAR_FLAG F_ZF m; m = SET_FLAG F_SF m; m = SET_FLAG F_PF m
          in (0xffffffff, m)
        else
          let m = CLEAR_FLAG F_CF m; m = SET_FLAG F_ZF m; m = CLEAR_FLAG F_SF m;
              m = CLEAR_FLAG F_PF m
          in (0, m)
      else (d, m))"

subsection \<open>Multiplication and division\<close>

definition imul_byte :: "'b sysenv \<Rightarrow> u8 \<Rightarrow> 'b sysenv" where
  "imul_byte m s =
     (let res = word_of_int (sint (reg_l EAX m) * sint s) :: u16;
          m = set_x EAX res m;
          m = CONDITIONAL_SET_FLAG (res AND 0x8000 \<noteq> 0) F_SF m;
          m = CONDITIONAL_SET_FLAG (res = 0) F_ZF m
      in if reg_h EAX m = 0 \<or> reg_h EAX m = 0xff
         then let m = CLEAR_FLAG F_CF m; m = CLEAR_FLAG F_OF m in m
         else let m = SET_FLAG F_CF m; m = SET_FLAG F_OF m in m)"

definition imul_word :: "'b sysenv \<Rightarrow> u16 \<Rightarrow> 'b sysenv" where
  "imul_word m s =
     (let res = word_of_int (sint (reg_x EAX m) * sint s) :: u32;
          m = set_x EAX (ucast (res AND 0xffff)) m;
          m = set_x EDX (ucast (drop_bit 16 res AND 0xffff)) m;
          m = CONDITIONAL_SET_FLAG (res AND 0x80000000 \<noteq> 0) F_SF m;
          m = CONDITIONAL_SET_FLAG (res = 0) F_ZF m
      in if reg_x EDX m = 0 \<or> reg_x EDX m = 0xffff
         then let m = CLEAR_FLAG F_CF m; m = CLEAR_FLAG F_OF m in m
         else let m = SET_FLAG F_CF m; m = SET_FLAG F_OF m in m)"

definition mul_byte :: "'b sysenv \<Rightarrow> u8 \<Rightarrow> 'b sysenv" where
  "mul_byte m s =
     (let res = ucast (reg_l EAX m) * ucast s :: u16;
          m = set_x EAX res m;
          m = CLEAR_FLAG F_SF m;
          m = CONDITIONAL_SET_FLAG (res = 0) F_ZF m
      in if reg_h EAX m = 0
         then let m = CLEAR_FLAG F_CF m; m = CLEAR_FLAG F_OF m in m
         else let m = SET_FLAG F_CF m; m = SET_FLAG F_OF m in m)"

definition mul_word :: "'b sysenv \<Rightarrow> u16 \<Rightarrow> 'b sysenv" where
  "mul_word m s =
     (let res = ucast (reg_x EAX m) * ucast s :: u32;
          m = CLEAR_FLAG F_SF m;
          m = CONDITIONAL_SET_FLAG (res = 0) F_ZF m;
          m = set_x EAX (ucast (res AND 0xffff)) m;
          m = set_x EDX (ucast (drop_bit 16 res AND 0xffff)) m
      in if reg_x EDX m = 0
         then let m = CLEAR_FLAG F_CF m; m = CLEAR_FLAG F_OF m in m
         else let m = SET_FLAG F_CF m; m = SET_FLAG F_OF m in m)"

text \<open>
  \<open>abs\<close> of an \<open>int\<close>, which leaves the least \<open>int\<close> negative. The one quotient that does not
  fit an \<open>int\<close>, of the least \<open>int\<close> by -1, wraps.
\<close>

definition c_abs :: "u32 \<Rightarrow> int" where
  "c_abs x = sint (if sint x < 0 then - x else x)"

definition idiv_byte :: "'b sysenv \<Rightarrow> u8 \<Rightarrow> 'b sysenv" where
  "idiv_byte m s =
     (let dividend = sint (reg_x EAX m) in
      if s = 0 then x86_intr_raise 0 m
      else
        let div' = word_of_int (dividend sdiv sint s) :: u32;
            mod' = word_of_int (dividend smod sint s) :: u32 in
        if c_abs div' > 0x7f then x86_intr_raise 0 m
        else
          let m = CONDITIONAL_SET_FLAG (div' AND 0x80 \<noteq> 0) F_SF m;
              m = CONDITIONAL_SET_FLAG (div' = 0) F_ZF m;
              m = set_l EAX (ucast div') m
          in set_h EAX (ucast mod') m)"

definition idiv_word :: "'b sysenv \<Rightarrow> u16 \<Rightarrow> 'b sysenv" where
  "idiv_word m s =
     (let dividend = sint (push_bit 16 (ucast (reg_x EDX m)) OR ucast (reg_x EAX m) :: u32) in
      if s = 0 then x86_intr_raise 0 m
      else
        let dvs = sint s;
            div' = word_of_int (dividend sdiv dvs) :: u32;
            mod' = word_of_int (dividend smod dvs) :: u32 in
        if c_abs div' > 0x7fff then x86_intr_raise 0 m
        else
          let m = CONDITIONAL_SET_FLAG (div' AND 0x8000 \<noteq> 0) F_SF m;
              m = CONDITIONAL_SET_FLAG (div' = 0) F_ZF m;
              m = set_x EAX (ucast div') m
          in set_x EDX (ucast mod') m)"

definition div_byte :: "'b sysenv \<Rightarrow> u8 \<Rightarrow> 'b sysenv" where
  "div_byte m s =
     (let dvs = ucast s :: u32; dividend = ucast (reg_x EAX m) :: u32 in
      if s = 0 then x86_intr_raise 0 m
      else
        let div' = dividend div dvs; mod' = dividend mod dvs in
        if c_abs div' > 0xff then x86_intr_raise 0 m
        else
          let m = CLEAR_FLAG F_SF m;
              m = CONDITIONAL_SET_FLAG (div' = 0) F_ZF m;
              m = set_l EAX (ucast div') m
          in set_h EAX (ucast mod') m)"

definition div_word :: "'b sysenv \<Rightarrow> u16 \<Rightarrow> 'b sysenv" where
  "div_word m s =
     (let dividend = push_bit 16 (ucast (reg_x EDX m)) OR ucast (reg_x EAX m) :: u32;
          dvs = ucast s :: u32 in
      if dvs = 0 then x86_intr_raise 0 m
      else
        let div' = dividend div dvs; mod' = dividend mod dvs in
        if c_abs div' > 0xffff then x86_intr_raise 0 m
        else
          let m = CLEAR_FLAG F_SF m;
              m = CONDITIONAL_SET_FLAG (div' = 0) F_ZF m;
              m = set_x EAX (ucast div') m
          in set_x EDX (ucast mod') m)"

end
