(* ===== verification/X86_Alu_Spec.thy ===== *)
theory X86_Alu_Spec
  imports X86_Alu
begin

text \<open>
  What the arithmetic of \<open>X86_Alu\<close> has to do, and that it does: the flags of an addition or a
  subtraction as the processor's manual defines them, from the unsigned and the signed value of
  the operands, against the carry chains of the program; the rotations and shifts bit by bit;
  the products and quotients as integers.
\<close>

subsection \<open>Specifications\<close>

text \<open>The parity of the low byte, by counting.\<close>

definition odd_parity :: "'a::len word \<Rightarrow> bool" where
  "odd_parity x \<longleftrightarrow> odd (length (filter (bit x) [0..<8]))"

definition result_flags :: "'a::len word \<Rightarrow> 'b sysenv \<Rightarrow> bool" where
  "result_flags r m \<longleftrightarrow> ACCESS_FLAG F_ZF m = (r = 0) \<and> ACCESS_FLAG F_SF m = (sint r < 0) \<and>
     ACCESS_FLAG F_PF m = odd_parity r"

definition fits :: "'a::len itself \<Rightarrow> int \<Rightarrow> bool" where
  "fits _ i \<longleftrightarrow> - (2 ^ (LENGTH('a) - 1)) \<le> i \<and> i < 2 ^ (LENGTH('a) - 1)"

definition sum_flags :: "'a::len word \<Rightarrow> 'a word \<Rightarrow> bool \<Rightarrow> 'b sysenv \<Rightarrow> bool" where
  "sum_flags d s c m \<longleftrightarrow>
     ACCESS_FLAG F_OF m = (\<not> fits TYPE('a) (sint d + sint s + of_bool c)) \<and>
     ACCESS_FLAG F_AF m = (16 \<le> uint d mod 16 + uint s mod 16 + of_bool c)"

definition difference_flags :: "'a::len word \<Rightarrow> 'a word \<Rightarrow> bool \<Rightarrow> 'b sysenv \<Rightarrow> bool" where
  "difference_flags d s c m \<longleftrightarrow>
     ACCESS_FLAG F_OF m = (\<not> fits TYPE('a) (sint d - sint s - of_bool c)) \<and>
     ACCESS_FLAG F_AF m = (uint d mod 16 < uint s mod 16 + of_bool c)"

definition is_sum :: "'a::len word \<Rightarrow> 'a word \<Rightarrow> bool \<Rightarrow> 'b sysenv \<Rightarrow> 'a word \<times> 'b sysenv \<Rightarrow> bool" where
  "is_sum d s c m out \<longleftrightarrow> (case out of (r, m') \<Rightarrow>
     r = d + s + of_bool c \<and> result_flags r m' \<and> sum_flags d s c m' \<and>
     ACCESS_FLAG F_CF m' = (2 ^ LENGTH('a) \<le> uint d + uint s + of_bool c) \<and>
     same_but_flags ARITH_FLAGS m m')"

definition is_difference ::
    "'a::len word \<Rightarrow> 'a word \<Rightarrow> bool \<Rightarrow> 'b sysenv \<Rightarrow> 'a word \<times> 'b sysenv \<Rightarrow> bool" where
  "is_difference d s c m out \<longleftrightarrow> (case out of (r, m') \<Rightarrow>
     r = d - s - of_bool c \<and> result_flags r m' \<and> difference_flags d s c m' \<and>
     ACCESS_FLAG F_CF m' = (uint d < uint s + of_bool c) \<and>
     same_but_flags ARITH_FLAGS m m')"

subsection \<open>The parity table\<close>

primrec par :: "nat \<Rightarrow> nat \<Rightarrow> bool" where
  "par 0 k \<longleftrightarrow> False"
| "par (Suc n) k \<longleftrightarrow> odd k \<noteq> par n (k div 2)"

lemma par_split: "j < 2 ^ n \<Longrightarrow> par (n + m) (2 ^ n * k + j) \<longleftrightarrow> par n j \<noteq> par m k"
proof (induction n arbitrary: j)
  case (Suc n)
  have "(2 ^ Suc n * k + j) div 2 = 2 ^ n * k + j div 2"
    using div_mult_self4 [of 2 "2 ^ n * k" j] by (simp add: mult.assoc)
  moreover have "odd (2 ^ Suc n * k + j) = odd j" by simp
  ultimately show ?case using Suc.IH [of "j div 2"] Suc.prems by auto
qed simp

lemma tab_row: "\<forall>j\<in>set [0..<32]. bit (0x96696996 :: u32) j = par 5 j"
  by code_simp

lemma tab_rows: "\<forall>k\<in>set [0..<8]. x86_parity_tab ! k = (if par 3 k then NOT 0x96696996 else 0x96696996)"
  by code_simp

lemma bit_unat_odd: "bit x n \<longleftrightarrow> odd (unat x div 2 ^ n)" for x :: "'a::len word"
proof -
  have "bit x n \<longleftrightarrow> bit (unat x) n" by (simp add: bit_unsigned_iff)
  then show ?thesis by (simp only: bit_iff_odd)
qed

lemma par_filter: "par n k = odd (length (filter (\<lambda>i. odd (k div 2 ^ i)) [0..<n]))"
proof (induction n arbitrary: k)
  case (Suc n)
  have "[0..<Suc n] = 0 # map Suc [0..<n]"
    by (simp add: map_Suc_upt upt_conv_Cons del: upt_Suc)
  then have "filter (\<lambda>i. odd (k div 2 ^ i)) [0..<Suc n] =
      (if odd k then [0] else []) @ map Suc (filter (\<lambda>i. odd (k div 2 div 2 ^ i)) [0..<n])"
    by (simp add: filter_map comp_def div_mult2_eq del: upt_Suc)
  then show ?case using Suc.IH [of "k div 2"] by simp
qed simp

lemma odd_parity_par: "odd_parity x = par 8 (unat x)"
proof -
  have "bit x = (\<lambda>i. odd (unat x div 2 ^ i))" by (rule ext) (rule bit_unat_odd)
  then show ?thesis by (simp only: odd_parity_def par_filter)
qed

lemma drop_bit_test: "drop_bit n w AND 0x1 \<noteq> 0 \<longleftrightarrow> bit w n" for w :: "'a::len word"
  by (simp add: bit_iff_odd_drop_bit and_one_eq odd_iff_mod_2_eq_one)

lemma PARITY_byte: "PARITY (ucast x) = odd_parity x" for x :: u8
proof -
  define j k where jk: "j = unat x mod 32" "k = unat x div 32"
  have x: "unat x < 256" by (rule order_less_le_trans [OF unsigned_less]) simp
  then have k: "k \<in> set [0..<8]" "j \<in> set [0..<32]" by (auto simp: jk)
  have [simp]: "unat (ucast x mod (32 :: u32)) = j" "unat (ucast x div (32 :: u32)) = k"
    by (simp_all add: jk unat_mod unat_div_distrib unat_ucast_mod order_less_trans [OF x])
  have "PARITY (ucast x) = bit (if par 3 k then NOT 0x96696996 else 0x96696996 :: u32) j"
    using bspec [OF tab_rows k(1)] by (simp only: PARITY_def drop_bit_test) simp
  also have "\<dots> = (par 5 j \<noteq> par 3 k)"
    using bspec [OF tab_row k(2)] k(2) by (auto simp only: bit_not_iff split: if_splits) simp
  also have "\<dots> = par 8 (2 ^ 5 * k + j)"
    using par_split [of j 5 3 k] k by auto
  also have "2 ^ 5 * k + j = unat x" by (simp add: jk)
  also have "par 8 (unat x) = odd_parity x" by (simp add: odd_parity_par)
  finally show ?thesis .
qed

subsection \<open>Sums and differences\<close>

lemma msb_neg: "LENGTH('a) = Suc n \<Longrightarrow> bit r n \<longleftrightarrow> sint r < 0" for r :: "'a::len word"
  using bit_last_iff [of r] by simp

lemma mask_numerals:
  "(0xff :: 'a::len word) = mask 8" "(0xffff :: 'a word) = mask 16"
  "(0xffffffff :: 'a word) = mask 32"
  by (simp_all add: mask_eq_exp_minus_1)

lemma low_flags:
  fixes res :: "'b::len word"
  assumes "LENGTH('a) \<le> LENGTH('b)" "LENGTH('a) = Suc n"
  shows "(ucast res = (0 :: 'a::len word)) = (take_bit LENGTH('a) res = 0)"
    "bit res n = (sint (ucast res :: 'a word) < 0)"
proof -
  show "(ucast res = (0 :: 'a word)) = (take_bit LENGTH('a) res = 0)"
    using assms(1) by (simp add: word_eq_iff_unat unat_ucast_mod unsigned_take_bit_eq)
      (simp add: take_bit_eq_mod)
  show "bit res n = (sint (ucast res :: 'a word) < 0)"
    using assms by (simp add: bit_ucast_iff flip: msb_neg [OF assms(2)])
qed

lemma parity_low:
  assumes "8 \<le> LENGTH('a)" "8 \<le> LENGTH('b)"
  shows "PARITY (ucast (res AND 0xff)) = odd_parity (ucast (res :: 'b::len word) :: 'a::len word)"
proof -
  have "ucast (res AND 0xff) = (ucast (ucast res :: u8) :: u32)"
    unfolding mask_numerals using assms by (intro bit_word_eqI) (auto simp: bit_simps)
  then have "PARITY (ucast (res AND 0xff)) = odd_parity (ucast res :: u8)"
    by (simp only: PARITY_byte)
  also have "\<dots> = odd_parity (ucast res :: 'a word)"
  proof -
    have "filter (bit (ucast res :: u8)) [0..<8] = filter (bit (ucast res :: 'a word)) [0..<8]"
      using assms by (intro filter_cong) (auto simp: bit_ucast_iff)
    then show ?thesis by (simp only: odd_parity_def)
  qed
  finally show ?thesis .
qed


lemma narrow_of_int:
  "LENGTH('a) \<le> LENGTH('b) \<Longrightarrow> ucast (word_of_int i :: 'b::len word) = (word_of_int i :: 'a::len word)"
  by (rule bit_word_eqI) (auto simp: bit_simps)

text \<open>
  The flags of a sum computed at a wider type \<open>'b\<close>, and of a difference computed at a type
  at least as wide.
\<close>

lemma wide_sum:
  fixes d s :: "'a::len word"
  assumes "LENGTH('a) = Suc (Suc n)" "LENGTH('a) < LENGTH('b)" "4 \<le> LENGTH('a)"
    and res: "res = (word_of_int (uint d + uint s + of_bool c) :: 'b::len word)"
  defines "cc \<equiv> carry_chain res (ucast d) (ucast s)"
  shows "(ucast res :: 'a word) = d + s + of_bool c"
    and "bit res LENGTH('a) \<longleftrightarrow> 2 ^ LENGTH('a) \<le> uint d + uint s + of_bool c"
    and "XOR2 (drop_bit n cc) \<longleftrightarrow> \<not> fits TYPE('a) (sint d + sint s + of_bool c)"
    and "bit cc 3 \<longleftrightarrow> 16 \<le> uint d mod 16 + uint s mod 16 + of_bool c"
proof -
  have cc: "bit cc i \<longleftrightarrow> carry (Suc i) (uint d) (uint s) c" if "i < LENGTH('a)" for i
    unfolding cc_def by (rule bit_carry_chain) (use that assms in auto)
  show "(ucast res :: 'a word) = d + s + of_bool c"
    unfolding res using assms(2)
    by (subst narrow_of_int) simp_all
  show "bit res LENGTH('a) \<longleftrightarrow> 2 ^ LENGTH('a) \<le> uint d + uint s + of_bool c"
    unfolding res using assms(2) carry_out [of d s c]
    by (simp only: bit_word_of_int_iff bit_add_carry) (simp add: bit_uint_iff)
  show "XOR2 (drop_bit n cc) \<longleftrightarrow> \<not> fits TYPE('a) (sint d + sint s + of_bool c)"
    using signed_overflow_add [of "Suc n" d s c] assms(1)
    by (simp add: XOR2_shift cc fits_def)
  show "bit cc 3 \<longleftrightarrow> 16 \<le> uint d mod 16 + uint s mod 16 + of_bool c"
    using cc [of 3] assms(3) by (simp add: carry_def take_bit_eq_mod)
qed

lemma wide_difference:
  fixes d s :: "'a::len word"
  assumes "LENGTH('a) = Suc (Suc n)" "LENGTH('a) \<le> LENGTH('b)" "4 \<le> LENGTH('a)"
    and res: "res = (word_of_int (uint d - uint s - of_bool c) :: 'b::len word)"
  defines "bc \<equiv> borrow_chain res (ucast d) (ucast s)"
  shows "(ucast res :: 'a word) = d - s - of_bool c"
    and "bit bc (Suc n) \<longleftrightarrow> uint d < uint s + of_bool c"
    and "XOR2 (drop_bit n bc) \<longleftrightarrow> \<not> fits TYPE('a) (sint d - sint s - of_bool c)"
    and "bit bc 3 \<longleftrightarrow> uint d mod 16 < uint s mod 16 + of_bool c"
proof -
  have bc: "bit bc i \<longleftrightarrow> borrow (Suc i) (uint d) (uint s) c" if "i < LENGTH('a)" for i
    unfolding bc_def by (rule bit_borrow_chain) (use that assms in auto)
  show "(ucast res :: 'a word) = d - s - of_bool c"
    unfolding res using assms(2)
    by (subst narrow_of_int) simp_all
  show "bit bc (Suc n) \<longleftrightarrow> uint d < uint s + of_bool c"
    using bc [of "Suc n"] assms(1) borrow_out [of d s c] by simp
  show "XOR2 (drop_bit n bc) \<longleftrightarrow> \<not> fits TYPE('a) (sint d - sint s - of_bool c)"
    using signed_overflow_sub [of "Suc n" d s c] assms(1)
    by (simp add: XOR2_shift bc fits_def)
  show "bit bc 3 \<longleftrightarrow> uint d mod 16 < uint s mod 16 + of_bool c"
    using bc [of 3] assms(3) by (simp add: borrow_def take_bit_eq_mod)
qed


lemmas spec_defs = is_sum_def is_difference_def result_flags_def sum_flags_def difference_flags_def

lemma take_bit_masks: "take_bit 8 x = x AND 0xff" "take_bit 16 x = x AND 0xffff"
  "take_bit 32 x = x AND 0xffffffff" for x :: "'a::len word"
  by (simp_all add: take_bit_eq_mask mask_numerals)

lemma ucast_masked [simp]: "(ucast (x AND 0xff) :: u8) = ucast x" "(ucast (x AND 0xffff) :: u16) = ucast x"
  for x :: "'a::len word"
  unfolding mask_numerals by (intro bit_word_eqI; auto simp: bit_simps dest: bit_imp_le_length)+

text \<open>All flags at once, in the form the definitions of the operations test them.\<close>

lemma sum_facts:
  fixes d s :: "'a::len word"
  assumes "LENGTH('a) = Suc (Suc n)" "LENGTH('a) < LENGTH('b)" "8 \<le> LENGTH('a)"
    and res: "res = (word_of_int (uint d + uint s + of_bool c) :: 'b::len word)"
  shows "(ucast res :: 'a word) = d + s + of_bool c \<and>
    (bit res LENGTH('a) \<longleftrightarrow> 2 ^ LENGTH('a) \<le> uint d + uint s + of_bool c) \<and>
    (XOR2 (drop_bit n (carry_chain res (ucast d) (ucast s))) \<longleftrightarrow>
       \<not> fits TYPE('a) (sint d + sint s + of_bool c)) \<and>
    (bit (carry_chain res (ucast d) (ucast s)) 3 \<longleftrightarrow> 16 \<le> uint d mod 16 + uint s mod 16 + of_bool c) \<and>
    (take_bit LENGTH('a) res = 0 \<longleftrightarrow> d + s + of_bool c = 0) \<and>
    (bit res (Suc n) \<longleftrightarrow> sint (d + s + of_bool c) < 0) \<and>
    PARITY (ucast (res AND 0xff)) = odd_parity (d + s + of_bool c)"
  using wide_sum [OF assms(1,2) _ res] low_flags [where res = res and 'a = 'a and n = "Suc n"]
    parity_low [where res = res and 'a = 'a] assms(1-3)
  by simp

lemma difference_facts:
  fixes d s :: "'a::len word"
  assumes "LENGTH('a) = Suc (Suc n)" "LENGTH('a) \<le> LENGTH('b)" "8 \<le> LENGTH('a)"
    and res: "res = (word_of_int (uint d - uint s - of_bool c) :: 'b::len word)"
  shows "(ucast res :: 'a word) = d - s - of_bool c \<and>
    (bit (borrow_chain res (ucast d) (ucast s)) (Suc n) \<longleftrightarrow> uint d < uint s + of_bool c) \<and>
    (XOR2 (drop_bit n (borrow_chain res (ucast d) (ucast s))) \<longleftrightarrow>
       \<not> fits TYPE('a) (sint d - sint s - of_bool c)) \<and>
    (bit (borrow_chain res (ucast d) (ucast s)) 3 \<longleftrightarrow> uint d mod 16 < uint s mod 16 + of_bool c) \<and>
    (take_bit LENGTH('a) res = 0 \<longleftrightarrow> d - s - of_bool c = 0) \<and>
    (bit res (Suc n) \<longleftrightarrow> sint (d - s - of_bool c) < 0) \<and>
    PARITY (ucast (res AND 0xff)) = odd_parity (d - s - of_bool c)"
  using wide_difference [OF assms(1,2) _ res] low_flags [where res = res and 'a = 'a and n = "Suc n"]
    parity_low [where res = res and 'a = 'a] assms(1-3)
  by simp

lemma add_byte_sum: "is_sum d s False m (add_byte m d s)"
proof -
  define res :: u16 where "res = ucast d + ucast s"
  then have res: "res = word_of_int (uint d + uint s + of_bool False)" by simp
  show ?thesis
    using sum_facts [OF _ _ _ res, of 6]
    by (simp add: add_byte_def spec_defs Let_def test_bit take_bit_masks flip: res_def)
qed

lemma adc_byte_sum: "is_sum d s (ACCESS_FLAG F_CF m) m (adc_byte m d s)"
proof -
  define res :: u16 where "res = (if ACCESS_FLAG F_CF m then 1 + ucast d + ucast s else ucast d + ucast s)"
  then have res: "res = word_of_int (uint d + uint s + of_bool (ACCESS_FLAG F_CF m))" by simp
  show ?thesis
    using sum_facts [OF _ _ _ res, of 6]
    by (simp add: adc_byte_def spec_defs Let_def test_bit take_bit_masks flip: res_def)
qed

lemma add_word_sum: "is_sum d s False m (add_word m d s)"
proof -
  define res :: u32 where "res = ucast d + ucast s"
  then have res: "res = word_of_int (uint d + uint s + of_bool False)" by simp
  show ?thesis
    using sum_facts [OF _ _ _ res, of 14]
    by (simp add: add_word_def spec_defs Let_def test_bit take_bit_masks flip: res_def)
qed

lemma adc_word_sum: "is_sum d s (ACCESS_FLAG F_CF m) m (adc_word m d s)"
proof -
  define res :: u32 where "res = (if ACCESS_FLAG F_CF m then 1 + ucast d + ucast s else ucast d + ucast s)"
  then have res: "res = word_of_int (uint d + uint s + of_bool (ACCESS_FLAG F_CF m))" by simp
  show ?thesis
    using sum_facts [OF _ _ _ res, of 14]
    by (simp add: adc_word_def spec_defs Let_def test_bit take_bit_masks flip: res_def)
qed

lemma sub_byte_difference: "is_difference d s False m (sub_byte m d s)"
proof -
  define res :: u32 where "res = ucast d - ucast s"
  then have res: "res = word_of_int (uint d - uint s - of_bool False)" by simp
  show ?thesis
    using difference_facts [OF _ _ _ res, of 6]
    by (simp add: sub_byte_def spec_defs Let_def test_bit take_bit_masks flip: res_def)
qed

lemma sbb_byte_difference: "is_difference d s (ACCESS_FLAG F_CF m) m (sbb_byte m d s)"
proof -
  define res :: u32 where "res = (if ACCESS_FLAG F_CF m then ucast d - ucast s - 1 else ucast d - ucast s)"
  then have res: "res = word_of_int (uint d - uint s - of_bool (ACCESS_FLAG F_CF m))" by simp
  show ?thesis
    using difference_facts [OF _ _ _ res, of 6]
    by (simp add: sbb_byte_def spec_defs Let_def test_bit take_bit_masks flip: res_def)
qed

lemma sub_word_difference: "is_difference d s False m (sub_word m d s)"
proof -
  define res :: u32 where "res = ucast d - ucast s"
  then have res: "res = word_of_int (uint d - uint s - of_bool False)" by simp
  show ?thesis
    using difference_facts [OF _ _ _ res, of 14]
    by (simp add: sub_word_def spec_defs Let_def test_bit take_bit_masks flip: res_def)
qed

lemma sbb_word_difference: "is_difference d s (ACCESS_FLAG F_CF m) m (sbb_word m d s)"
proof -
  define res :: u32 where "res = (if ACCESS_FLAG F_CF m then ucast d - ucast s - 1 else ucast d - ucast s)"
  then have res: "res = word_of_int (uint d - uint s - of_bool (ACCESS_FLAG F_CF m))" by simp
  show ?thesis
    using difference_facts [OF _ _ _ res, of 14]
    by (simp add: sbb_word_def spec_defs Let_def test_bit take_bit_masks flip: res_def)
qed

subsection \<open>Rotations\<close>

lemma power_mask: "2 ^ n - 1 = (mask n :: 'a::len word)"
  by (simp add: mask_eq_exp_minus_1)

lemma XOR2_pair:
  fixes x y :: "'a::len word"
  assumes "2 \<le> LENGTH('a)"
  shows "XOR2 ((y AND 0x1) + (drop_bit n x AND 0x2)) \<longleftrightarrow> bit y 0 \<noteq> bit x (Suc n)"
proof -
  have two: "(2 :: 'a word) = push_bit 1 1" by simp
  have "(y AND 0x1) + (drop_bit n x AND 0x2) = (y AND 0x1) OR (drop_bit n x AND 0x2)"
    unfolding two by (rule disjunctive_add) (auto simp: bit_simps bit_1_iff)
  moreover have "bit (2 :: 'a word) 0 = False" "bit (2 :: 'a word) 1 = True"
    using assms unfolding two by (simp_all add: bit_push_bit_iff)
  ultimately show ?thesis
    by (simp add: XOR2_bits bit_simps bit_1_iff)
qed

lemma rot_zero [simp]: "word_rotl 0 d = d" "word_rotr 0 d = d" for d :: "'a::len word"
  by (rule bit_word_eqI; simp add: bit_word_rotl_iff bit_word_rotr_iff)+

lemma rotl_parts:
  fixes d :: "'a::len word"
  assumes "LENGTH('a) \<le> LENGTH('b)" "0 < c" "c < LENGTH('a)"
  shows "ucast (push_bit c (ucast d) OR (drop_bit (LENGTH('a) - c) (ucast d) AND mask c) :: 'b::len word)
    = word_rotl c d"
proof (rule bit_word_eqI)
  fix i
  assume i: "i < LENGTH('a)"
  have "(i + (LENGTH('a) - c)) mod LENGTH('a) = (if i < c then i + LENGTH('a) - c else i - c)"
  proof (cases "i < c")
    case True
    then show ?thesis using assms i by (simp add: mod_less)
  next
    case False
    then have "i + (LENGTH('a) - c) = (i - c) + LENGTH('a)" using assms by simp
    then show ?thesis using False i by (simp only: mod_add_self2 if_False) simp
  qed
  then show "bit (ucast (push_bit c (ucast d) OR (drop_bit (LENGTH('a) - c) (ucast d) AND mask c) :: 'b word)
      :: 'a word) i = bit (word_rotl c d) i"
    using assms i by (auto simp: bit_simps bit_word_rotl_iff ac_simps)
qed

lemma rotr_parts:
  fixes d :: "'a::len word"
  assumes "LENGTH('a) \<le> LENGTH('b)" "0 < c" "c < LENGTH('a)"
  shows "ucast (push_bit (LENGTH('a) - c) (ucast d) OR (drop_bit c (ucast d) AND mask (LENGTH('a) - c)) :: 'b::len word)
    = word_rotr c d"
proof (rule bit_word_eqI)
  fix i
  assume i: "i < LENGTH('a)"
  have "(i + c) mod LENGTH('a) = (if i < LENGTH('a) - c then i + c else i + c - LENGTH('a))"
    using assms i by (auto simp: mod_less le_mod_geq)
  then show "bit (ucast (push_bit (LENGTH('a) - c) (ucast d) OR (drop_bit c (ucast d) AND mask (LENGTH('a) - c)) :: 'b word)
      :: 'a word) i = bit (word_rotr c d) i"
    using assms i by (auto simp: bit_simps bit_word_rotr_iff ac_simps)
qed

definition is_rotl :: "'a::len word \<Rightarrow> nat \<Rightarrow> 'b sysenv \<Rightarrow> 'a word \<times> 'b sysenv \<Rightarrow> bool" where
  "is_rotl d k m out \<longleftrightarrow> (case out of (r, m') \<Rightarrow> r = word_rotl k d \<and>
     (if k mod LENGTH('a) = 0 then m' = m
      else ACCESS_FLAG F_CF m' = bit r 0 \<and>
        ACCESS_FLAG F_OF m' = (k mod LENGTH('a) = 1 \<and> bit r 0 \<noteq> bit r (LENGTH('a) - 1)) \<and>
        same_but_flags (F_CF OR F_OF) m m'))"

definition is_rotr :: "'a::len word \<Rightarrow> nat \<Rightarrow> 'b sysenv \<Rightarrow> 'a word \<times> 'b sysenv \<Rightarrow> bool" where
  "is_rotr d k m out \<longleftrightarrow> (case out of (r, m') \<Rightarrow> r = word_rotr k d \<and>
     (if k mod LENGTH('a) = 0 then m' = m
      else ACCESS_FLAG F_CF m' = bit r (LENGTH('a) - 1) \<and>
        ACCESS_FLAG F_OF m' = (k mod LENGTH('a) = 1 \<and>
          bit r (LENGTH('a) - 2) \<noteq> bit r (LENGTH('a) - 1)) \<and>
        same_but_flags (F_CF OR F_OF) m m'))"

lemma rotl_mod: "word_rotl (k mod LENGTH('a)) d = word_rotl k d" for d :: "'a::len word"
  by (rule bit_word_eqI) (simp add: bit_word_rotl_iff)

lemma rotr_mod: "word_rotr (k mod LENGTH('a)) d = word_rotr k d" for d :: "'a::len word"
  by (rule bit_word_eqI) (simp add: bit_word_rotr_iff mod_add_right_eq)

lemma cf_of_in [simp]: "F_CF AND (F_CF OR F_OF) = F_CF" "F_OF AND (F_CF OR F_OF) = F_OF"
  by (simp_all add: flag_defs)

lemma rol_byte_rotl: "is_rotl d (unat s) m (rol_byte m d s)"
proof (cases "unat s mod 8 = 0")
  case True
  then show ?thesis using rotl_mod [of "unat s" d] by (simp add: rol_byte_def is_rotl_def)
next
  case False
  define res :: u32 where
    "res = push_bit (unat s mod 8) (ucast d) OR (drop_bit (8 - unat s mod 8) (ucast d) AND mask (unat s mod 8))"
  have r: "ucast res = word_rotl (unat s) d"
    using rotl_parts [of "unat s mod 8" d, where 'b = 32] rotl_mod [of "unat s" d] False
    by (simp add: res_def)
  have b: "bit res i = bit (word_rotl (unat s) d) i" if "i < 8" for i
    using that unfolding r [symmetric] by (simp add: bit_ucast_iff)
  show ?thesis
    using False r b [of 0] b [of 7]
    by (simp add: rol_byte_def is_rotl_def Let_def power_mask test_bit XOR2_pair flip: res_def)
qed

lemma ror_byte_rotr: "is_rotr d (unat s) m (ror_byte m d s)"
proof (cases "unat s mod 8 = 0")
  case True
  then show ?thesis using rotr_mod [of "unat s" d] by (simp add: ror_byte_def is_rotr_def)
next
  case False
  define res :: u32 where
    "res = push_bit (8 - unat s mod 8) (ucast d) OR (drop_bit (unat s mod 8) (ucast d) AND mask (8 - unat s mod 8))"
  have r: "ucast res = word_rotr (unat s) d"
    using rotr_parts [of "unat s mod 8" d, where 'b = 32] rotr_mod [of "unat s" d] False
    by (simp add: res_def)
  have b: "bit res i = bit (word_rotr (unat s) d) i" if "i < 8" for i
    using that unfolding r [symmetric] by (simp add: bit_ucast_iff)
  show ?thesis
    using False r b [of 6] b [of 7]
    by (simp add: ror_byte_def is_rotr_def Let_def power_mask test_bit XOR2_shift flip: res_def)
qed

lemma rol_word_rotl: "is_rotl d (unat s) m (rol_word m d s)"
proof (cases "unat s mod 16 = 0")
  case True
  then show ?thesis using rotl_mod [of "unat s" d] by (simp add: rol_word_def is_rotl_def)
next
  case False
  define res :: u32 where
    "res = push_bit (unat s mod 16) (ucast d) OR (drop_bit (16 - unat s mod 16) (ucast d) AND mask (unat s mod 16))"
  have r: "ucast res = word_rotl (unat s) d"
    using rotl_parts [of "unat s mod 16" d, where 'b = 32] rotl_mod [of "unat s" d] False
    by (simp add: res_def)
  have b: "bit res i = bit (word_rotl (unat s) d) i" if "i < 16" for i
    using that unfolding r [symmetric] by (simp add: bit_ucast_iff)
  show ?thesis
    using False r b [of 0] b [of 15]
    by (simp add: rol_word_def is_rotl_def Let_def power_mask test_bit XOR2_pair flip: res_def)
qed

lemma ror_word_rotr: "is_rotr d (unat s) m (ror_word m d s)"
proof (cases "unat s mod 16 = 0")
  case True
  then show ?thesis using rotr_mod [of "unat s" d] by (simp add: ror_word_def is_rotr_def)
next
  case False
  define res :: u32 where
    "res = push_bit (16 - unat s mod 16) (ucast d) OR (drop_bit (unat s mod 16) (ucast d) AND mask (16 - unat s mod 16))"
  have r: "ucast res = word_rotr (unat s) d"
    using rotr_parts [of "unat s mod 16" d, where 'b = 32] rotr_mod [of "unat s" d] False
    by (simp add: res_def)
  have b: "bit res i = bit (word_rotr (unat s) d) i" if "i < 16" for i
    using that unfolding r [symmetric] by (simp add: bit_ucast_iff)
  show ?thesis
    using False r b [of 14] b [of 15]
    by (simp add: ror_word_def is_rotr_def Let_def power_mask test_bit XOR2_shift flip: res_def)
qed

lemma rol_long_rotl: "is_rotl d (unat s) m (rol_long m d s)"
proof (cases "unat s mod 32 = 0")
  case True
  then show ?thesis using rotl_mod [of "unat s" d] by (simp add: rol_long_def is_rotl_def)
next
  case False
  define res :: u32 where
    "res = push_bit (unat s mod 32) d OR (drop_bit (32 - unat s mod 32) d AND mask (unat s mod 32))"
  have r: "res = word_rotl (unat s) d"
    using rotl_parts [of "unat s mod 32" d, where 'b = 32] rotl_mod [of "unat s" d] False
    by (simp add: res_def)
  show ?thesis
    using False r
    by (simp add: rol_long_def is_rotl_def Let_def power_mask test_bit XOR2_pair flip: res_def)
qed

lemma ror_long_rotr: "is_rotr d (unat s) m (ror_long m d s)"
proof (cases "unat s mod 32 = 0")
  case True
  then show ?thesis using rotr_mod [of "unat s" d] by (simp add: ror_long_def is_rotr_def)
next
  case False
  define res :: u32 where
    "res = push_bit (32 - unat s mod 32) d OR (drop_bit (unat s mod 32) d AND mask (32 - unat s mod 32))"
  have r: "res = word_rotr (unat s) d"
    using rotr_parts [of "unat s mod 32" d, where 'b = 32] rotr_mod [of "unat s" d] False
    by (simp add: res_def)
  show ?thesis
    using False r
    by (simp add: ror_long_def is_rotr_def Let_def power_mask test_bit XOR2_shift flip: res_def)
qed

text \<open>Rotations through the carry, as rotations of a word one bit wider.\<close>

definition with_carry :: "bool \<Rightarrow> 'a::len word \<Rightarrow> 'c::len word" where
  "with_carry c d = push_bit LENGTH('a) (of_bool c) OR ucast d"

definition is_rcl :: "'c::len itself \<Rightarrow> 'a::len word \<Rightarrow> nat \<Rightarrow> 'b sysenv \<Rightarrow> 'a word \<times> 'b sysenv \<Rightarrow> bool" where
  "is_rcl _ d k m out \<longleftrightarrow> (case out of (r, m') \<Rightarrow>
     with_carry (ACCESS_FLAG F_CF m') r = word_rotl k (with_carry (ACCESS_FLAG F_CF m) d :: 'c word) \<and>
     (if k mod LENGTH('c) = 0 then m' = m
      else ACCESS_FLAG F_OF m' = (k mod LENGTH('c) = 1 \<and>
          ACCESS_FLAG F_CF m' \<noteq> bit r (LENGTH('a) - 1)) \<and>
        same_but_flags (F_CF OR F_OF) m m'))"

definition is_rcr :: "'c::len itself \<Rightarrow> 'a::len word \<Rightarrow> nat \<Rightarrow> 'b sysenv \<Rightarrow> 'a word \<times> 'b sysenv \<Rightarrow> bool" where
  "is_rcr _ d k m out \<longleftrightarrow> (case out of (r, m') \<Rightarrow>
     with_carry (ACCESS_FLAG F_CF m') r = word_rotr k (with_carry (ACCESS_FLAG F_CF m) d :: 'c word) \<and>
     (if k mod LENGTH('c) = 0 then m' = m
      else ACCESS_FLAG F_OF m' = (if k mod LENGTH('c) = 1
          then ACCESS_FLAG F_CF m \<noteq> bit d (LENGTH('a) - 1) else ACCESS_FLAG F_OF m) \<and>
        same_but_flags (F_CF OR F_OF) m m'))"

lemma bit_with_carry:
  fixes d :: "'a::len word"
  assumes "LENGTH('c) = Suc LENGTH('a)"
  shows "bit (with_carry c d :: 'c::len word) i \<longleftrightarrow> (if i < LENGTH('a) then bit d i else i = LENGTH('a) \<and> c)"
  using assms by (auto simp: with_carry_def bit_simps dest: bit_imp_le_length)

lemma bit_one [simp]: "bit (1 :: 'a::len word) i \<longleftrightarrow> i = 0"
  by (simp add: bit_1_iff)

lemma rcl_parts:
  fixes d :: "'a::len word"
  assumes "LENGTH('c) = Suc LENGTH('a)" "LENGTH('a) \<le> LENGTH('b)" "0 < k" "k \<le> LENGTH('a)"
    and res: "res = (push_bit k (ucast d) AND mask LENGTH('a)) OR
      (drop_bit (Suc LENGTH('a) - k) (ucast d) AND mask (k - 1)) OR
      (if c then push_bit (k - 1) 1 else 0 :: 'b::len word)"
  shows "with_carry (bit d (LENGTH('a) - k)) (ucast res :: 'a word) = word_rotl k (with_carry c d :: 'c::len word)"
proof (rule bit_word_eqI)
  fix i
  assume i: "i < LENGTH('c)"
  have m: "(i + (LENGTH('c) - k mod LENGTH('c))) mod LENGTH('c) = (if i < k then i + Suc LENGTH('a) - k else i - k)"
  proof (cases "i < k")
    case True
    then show ?thesis using assms i by simp
  next
    case False
    then have "i + (LENGTH('c) - k mod LENGTH('c)) = (i - k) + LENGTH('c)" using assms by simp
    then show ?thesis using False i by (simp only: mod_add_self2 if_False) simp
  qed
  show "bit (with_carry (bit d (LENGTH('a) - k)) (ucast res :: 'a word) :: 'c word) i =
      bit (word_rotl k (with_carry c d :: 'c word)) i"
    using i assms(1-4) unfolding bit_word_rotl_iff m bit_with_carry [OF assms(1)] res
    by (cases "i < LENGTH('a)"; cases "i < k")
      (auto simp: bit_simps less_Suc_eq add.commute dest: bit_imp_le_length)
qed

lemma rcr_parts:
  fixes d :: "'a::len word"
  assumes "LENGTH('c) = Suc LENGTH('a)" "0 < k" "k \<le> LENGTH('a)"
    and res: "res = (drop_bit k d AND mask (LENGTH('a) - k)) OR push_bit (Suc LENGTH('a) - k) d OR
      (if c then push_bit (LENGTH('a) - k) 1 else 0)"
  shows "with_carry (bit d (k - 1)) res = word_rotr k (with_carry c d :: 'c::len word)"
proof (rule bit_word_eqI)
  fix i
  assume i: "i < LENGTH('c)"
  have m: "(i + k) mod LENGTH('c) = (if i + k < LENGTH('c) then i + k else i + k - LENGTH('c))"
    using assms i by (simp add: le_mod_geq)
  show "bit (with_carry (bit d (k - 1)) res :: 'c word) i =
      bit (word_rotr k (with_carry c d :: 'c word)) i"
    using i assms(1-3) unfolding bit_word_rotr_iff m bit_with_carry [OF assms(1)] res
    by (cases "i < LENGTH('a)"; cases "i + k < LENGTH('a)"; cases "i + k = LENGTH('a)")
      (auto simp: bit_simps less_Suc_eq add.commute dest: bit_imp_le_length)
qed

lemma one_shifted: "push_bit n 1 - 1 = (mask n :: 'a::len word)"
  by (simp add: mask_eq_exp_minus_1)

lemma or_if: "(if c then x OR y else x) = x OR (if c then y else 0)" for x :: "'a::len word"
  by simp

lemma XOR2_flag:
  fixes x :: "'a::len word"
  assumes "2 \<le> LENGTH('a)"
  shows "XOR2 ((if c then 1 else 0) + (drop_bit n x AND 0x2)) \<longleftrightarrow> c \<noteq> bit x (Suc n)"
  using XOR2_pair [OF assms, of "of_bool c" n x] by (cases c) simp_all

lemma with_carry_mod: "k mod LENGTH('a) = 0 \<Longrightarrow> word_rotl k w = w" "k mod LENGTH('a) = 0 \<Longrightarrow> word_rotr k w = w"
  for w :: "'a::len word"
  using rotl_mod [of k w] rotr_mod [of k w] by simp_all

lemma rcl_byte_rcl: "is_rcl TYPE(9) d (unat s) m (rcl_byte m d s)"
proof (cases "unat s mod 9 = 0")
  case True
  then show ?thesis by (simp add: rcl_byte_def is_rcl_def with_carry_mod)
next
  case False
  define res :: u32 where
    "res = ((push_bit (unat s mod 9) (ucast d) AND 0xff) OR
       (drop_bit (9 - unat s mod 9) (ucast d) AND mask (unat s mod 9 - 1))) OR
       (if ACCESS_FLAG F_CF m then push_bit (unat s mod 9 - 1) 1 else 0)"
  have le: "unat s mod 9 \<le> 8"
    using mod_less_divisor [of 9 "unat s"] by linarith
  have lt: "8 - unat s mod 9 < 32"
    by (rule le_less_trans [OF diff_le_self]) simp
  have r: "with_carry (bit d (8 - unat s mod 9)) (ucast res :: u8) =
      word_rotl (unat s) (with_carry (ACCESS_FLAG F_CF m) d :: 9 word)"
    using rcl_parts [where 'c = 9 and 'b = 32 and d = d and k = "unat s mod 9" and
        c = "ACCESS_FLAG F_CF m", OF _ _ _ _ refl] False le
      rotl_mod [of "unat s" "with_carry (ACCESS_FLAG F_CF m) d :: 9 word"]
    by (cases "ACCESS_FLAG F_CF m") (simp_all add: res_def or.assoc mask_numerals)
  have "rcl_byte m d s = (ucast res, CONDITIONAL_SET_FLAG (unat s mod 9 = 1 \<and>
      XOR2 ((drop_bit (8 - unat s mod 9) (ucast d) AND 0x1) + (drop_bit 6 res AND 0x2))) F_OF
      (CONDITIONAL_SET_FLAG (drop_bit (8 - unat s mod 9) (ucast d :: u32) AND 0x1 \<noteq> 0) F_CF m))"
    using False unfolding rcl_byte_def Let_def res_def
    by (simp only: one_shifted or_if if_True ucast_masked simp_thms)
  then show ?thesis
    using False r lt
    by (simp add: is_rcl_def test_bit XOR2_pair bit_drop_bit_eq bit_ucast_iff)
qed

lemma rcl_word_rcl: "is_rcl TYPE(17) d (unat s) m (rcl_word m d s)"
proof (cases "unat s mod 17 = 0")
  case True
  then show ?thesis by (simp add: rcl_word_def is_rcl_def with_carry_mod)
next
  case False
  define res :: u32 where
    "res = ((push_bit (unat s mod 17) (ucast d) AND 0xffff) OR
       (drop_bit (17 - unat s mod 17) (ucast d) AND mask (unat s mod 17 - 1))) OR
       (if ACCESS_FLAG F_CF m then push_bit (unat s mod 17 - 1) 1 else 0)"
  have le: "unat s mod 17 \<le> 16"
    using mod_less_divisor [of 17 "unat s"] by linarith
  have lt: "16 - unat s mod 17 < 32"
    by (rule le_less_trans [OF diff_le_self]) simp
  have r: "with_carry (bit d (16 - unat s mod 17)) (ucast res :: u16) =
      word_rotl (unat s) (with_carry (ACCESS_FLAG F_CF m) d :: 17 word)"
    using rcl_parts [where 'c = 17 and 'b = 32 and d = d and k = "unat s mod 17" and
        c = "ACCESS_FLAG F_CF m", OF _ _ _ _ refl] False le
      rotl_mod [of "unat s" "with_carry (ACCESS_FLAG F_CF m) d :: 17 word"]
    by (cases "ACCESS_FLAG F_CF m") (simp_all add: res_def or.assoc mask_numerals)
  have "rcl_word m d s = (ucast res, CONDITIONAL_SET_FLAG (unat s mod 17 = 1 \<and>
      XOR2 ((drop_bit (16 - unat s mod 17) (ucast d) AND 0x1) + (drop_bit 14 res AND 0x2))) F_OF
      (CONDITIONAL_SET_FLAG (drop_bit (16 - unat s mod 17) (ucast d :: u32) AND 0x1 \<noteq> 0) F_CF m))"
    using False unfolding rcl_word_def Let_def res_def
    by (simp only: one_shifted or_if if_True ucast_masked simp_thms)
  then show ?thesis
    using False r lt
    by (simp add: is_rcl_def test_bit XOR2_pair bit_drop_bit_eq bit_ucast_iff)
qed

lemma rcr_byte_rcr: "is_rcr TYPE(9) d (unat s) m (rcr_byte m d s)"
proof (cases "unat s mod 9 = 0")
  case True
  then show ?thesis by (simp add: rcr_byte_def is_rcr_def with_carry_mod)
next
  case False
  define res :: u8 where
    "res = ((drop_bit (unat s mod 9) d AND mask (8 - unat s mod 9)) OR
       push_bit (9 - unat s mod 9) d) OR
       (if ACCESS_FLAG F_CF m then push_bit (8 - unat s mod 9) 1 else 0)"
  have le: "unat s mod 9 \<le> 8"
    using mod_less_divisor [of 9 "unat s"] by linarith
  have r: "with_carry (bit d (unat s mod 9 - 1)) res =
      word_rotr (unat s) (with_carry (ACCESS_FLAG F_CF m) d :: 9 word)"
    using rcr_parts [where 'c = 9 and d = d and k = "unat s mod 9" and
        c = "ACCESS_FLAG F_CF m", OF _ _ _ refl] False le
      rotr_mod [of "unat s" "with_carry (ACCESS_FLAG F_CF m) d :: 9 word"]
    by (cases "ACCESS_FLAG F_CF m") (simp_all add: res_def or.assoc)
  have "rcr_byte m d s = (res,
      let m1 = CONDITIONAL_SET_FLAG (bit d (unat s mod 9 - 1)) F_CF m
      in if unat s mod 9 = 1
         then CONDITIONAL_SET_FLAG (ACCESS_FLAG F_CF m \<noteq> bit (ucast d :: u32) 7) F_OF m1 else m1)"
    using False unfolding rcr_byte_def Let_def res_def
    by (simp add: one_shifted or_if test_bit bit_drop_bit_eq power_mask XOR2_flag)
  then show ?thesis
    using False r
    by (cases "unat s mod 9 = 1") (simp_all add: is_rcr_def Let_def bit_ucast_iff)
qed

lemma rcr_word_rcr: "is_rcr TYPE(17) d (unat s) m (rcr_word m d s)"
proof (cases "unat s mod 17 = 0")
  case True
  then show ?thesis by (simp add: rcr_word_def is_rcr_def with_carry_mod)
next
  case False
  define res :: u16 where
    "res = ((drop_bit (unat s mod 17) d AND mask (16 - unat s mod 17)) OR
       push_bit (17 - unat s mod 17) d) OR
       (if ACCESS_FLAG F_CF m then push_bit (16 - unat s mod 17) 1 else 0)"
  have le: "unat s mod 17 \<le> 16"
    using mod_less_divisor [of 17 "unat s"] by linarith
  have r: "with_carry (bit d (unat s mod 17 - 1)) res =
      word_rotr (unat s) (with_carry (ACCESS_FLAG F_CF m) d :: 17 word)"
    using rcr_parts [where 'c = 17 and d = d and k = "unat s mod 17" and
        c = "ACCESS_FLAG F_CF m", OF _ _ _ refl] False le
      rotr_mod [of "unat s" "with_carry (ACCESS_FLAG F_CF m) d :: 17 word"]
    by (cases "ACCESS_FLAG F_CF m") (simp_all add: res_def or.assoc)
  have "rcr_word m d s = (res,
      let m1 = CONDITIONAL_SET_FLAG (bit d (unat s mod 17 - 1)) F_CF m
      in if unat s mod 17 = 1
         then CONDITIONAL_SET_FLAG (ACCESS_FLAG F_CF m \<noteq> bit (ucast d :: u32) 15) F_OF m1 else m1)"
    using False unfolding rcr_word_def Let_def res_def
    by (simp add: one_shifted or_if test_bit bit_drop_bit_eq power_mask XOR2_flag)
  then show ?thesis
    using False r
    by (cases "unat s mod 17 = 1") (simp_all add: is_rcr_def Let_def bit_ucast_iff)
qed

lemma rcr_long_rcr: "is_rcr TYPE(33) d (unat s) m (rcr_long m d s)"
proof (cases "unat s mod 33 = 0")
  case True
  then show ?thesis by (simp add: rcr_long_def is_rcr_def with_carry_mod)
next
  case False
  define res :: u32 where
    "res = ((drop_bit (unat s mod 33) d AND mask (32 - unat s mod 33)) OR
       push_bit (33 - unat s mod 33) d) OR
       (if ACCESS_FLAG F_CF m then push_bit (32 - unat s mod 33) 1 else 0)"
  have le: "unat s mod 33 \<le> 32"
    using mod_less_divisor [of 33 "unat s"] by linarith
  have r: "with_carry (bit d (unat s mod 33 - 1)) res =
      word_rotr (unat s) (with_carry (ACCESS_FLAG F_CF m) d :: 33 word)"
    using rcr_parts [where 'c = 33 and d = d and k = "unat s mod 33" and
        c = "ACCESS_FLAG F_CF m", OF _ _ _ refl] False le
      rotr_mod [of "unat s" "with_carry (ACCESS_FLAG F_CF m) d :: 33 word"]
    by (cases "ACCESS_FLAG F_CF m") (simp_all add: res_def or.assoc)
  have "rcr_long m d s = (res,
      let m1 = CONDITIONAL_SET_FLAG (bit d (unat s mod 33 - 1)) F_CF m
      in if unat s mod 33 = 1
         then CONDITIONAL_SET_FLAG (ACCESS_FLAG F_CF m \<noteq> bit (ucast d :: u32) 31) F_OF m1 else m1)"
    using False unfolding rcr_long_def Let_def res_def
    by (simp add: one_shifted or_if test_bit bit_drop_bit_eq power_mask XOR2_flag)
  then show ?thesis
    using False r
    by (cases "unat s mod 33 = 1") (simp_all add: is_rcr_def Let_def bit_ucast_iff)
qed

end
