(* ===== verification/X86_Shift_Spec.thy ===== *)
theory X86_Shift_Spec
  imports X86_Alu_Spec
begin

text \<open>
  The shifts of \<open>X86_Alu\<close> against the shifts of the word library: the result, and the carry
  and overflow flags from the bits of the operand. \<open>shl\<close> and \<open>shr\<close> are stated for every
  count; \<open>sar\<close> reduces its count modulo the width first, as the code does.
\<close>

subsection \<open>Shifts\<close>

definition is_shl :: "'a::len word \<Rightarrow> nat \<Rightarrow> 'b sysenv \<Rightarrow> 'a word \<times> 'b sysenv \<Rightarrow> bool" where
  "is_shl d k m out \<longleftrightarrow> (case out of (r, m') \<Rightarrow> r = push_bit k d \<and>
     ACCESS_FLAG F_OF m' = (k = 1 \<and> bit r (LENGTH('a) - 1) \<noteq> bit d (LENGTH('a) - 1)) \<and>
     (if k = 0 then same_but_flags F_OF m m'
      else result_flags r m' \<and> same_but_flags ARITH_FLAGS m m' \<and>
        ACCESS_FLAG F_CF m' = (k < LENGTH('a) \<and> bit d (LENGTH('a) - k))))"

definition is_shr :: "'a::len word \<Rightarrow> nat \<Rightarrow> 'b sysenv \<Rightarrow> 'a word \<times> 'b sysenv \<Rightarrow> bool" where
  "is_shr d k m out \<longleftrightarrow> (case out of (r, m') \<Rightarrow> r = drop_bit k d \<and>
     ACCESS_FLAG F_OF m' = (k = 1 \<and> bit d (LENGTH('a) - 1)) \<and>
     (if k = 0 then same_but_flags F_OF m m'
      else result_flags r m' \<and> same_but_flags ARITH_FLAGS m m' \<and>
        ACCESS_FLAG F_CF m' = (k < LENGTH('a) \<and> bit d (k - 1))))"

definition is_sar :: "'a::len word \<Rightarrow> nat \<Rightarrow> 'b sysenv \<Rightarrow> 'a word \<times> 'b sysenv \<Rightarrow> bool" where
  "is_sar d k m out \<longleftrightarrow> (case out of (r, m') \<Rightarrow> r = signed_drop_bit k d \<and>
     (if k = 0 then m' = m
      else result_flags r m' \<and> same_but_flags ARITH_FLAGS m m' \<and>
        ACCESS_FLAG F_OF m' = ACCESS_FLAG F_OF m \<and> ACCESS_FLAG F_CF m' = bit d (k - 1)))"

lemma and_shifted_one: "x AND push_bit n 1 \<noteq> 0 \<longleftrightarrow> bit x n" for x :: "'a::len word"
  by (simp add: and_exp_nonzero push_bit_of_1)

lemma shl_parts:
  "LENGTH('a) \<le> LENGTH('b) \<Longrightarrow> ucast (push_bit k (ucast d) :: 'b::len word) = push_bit k (d :: 'a::len word)"
  by (rule bit_word_eqI) (auto simp: bit_simps)

lemma narrow_wide [simp]:
  "LENGTH('a) \<le> LENGTH('b) \<Longrightarrow> ucast (ucast d :: 'b::len word) = (d :: 'a::len word)"
  using shl_parts [of 0 d] by simp

lemma bit_wide [simp]:
  "LENGTH('a) \<le> LENGTH('b) \<Longrightarrow> bit (ucast d :: 'b::len word) i = bit (d :: 'a::len word) i"
  by (auto simp: bit_ucast_iff dest: bit_imp_le_length)

lemma bit_beyond [simp]: "\<not> bit (x :: u8) 8" "\<not> bit (y :: u16) 16" "\<not> bit (z :: u32) 32"
  by (auto dest: bit_imp_le_length)

lemma and_same_mask: "x AND 2 ^ n = 2 ^ n \<longleftrightarrow> bit x n" if "n < LENGTH('a)" for x :: "'a::len word"
proof -
  have "x AND 2 ^ n = (if bit x n then 2 ^ n else 0)"
    by (rule bit_word_eqI) (auto simp: bit_simps)
  then show ?thesis using that by simp
qed

lemma msb_masks: "(x AND 0x80 = 0x80) = bit x 7" "(x AND 0x8000 = 0x8000) = bit x 15"
  "(x AND 0x80000000 = 0x80000000) = bit x 31" for x :: u32
  using and_same_mask [of 7 x] and_same_mask [of 15 x] and_same_mask [of 31 x] by simp_all

lemma shr_parts:
  "LENGTH('a) \<le> LENGTH('b) \<Longrightarrow>
    ucast (drop_bit k (ucast d) AND mask (LENGTH('a) - k) :: 'b::len word) = drop_bit k (d :: 'a::len word)"
  by (rule bit_word_eqI) (auto simp: bit_simps dest: bit_imp_le_length)

lemma sar_parts:
  fixes d :: "'a::len word"
  assumes "LENGTH('a) \<le> LENGTH('b)" "k < LENGTH('a)"
    and "res = drop_bit k (ucast d) AND mask (LENGTH('a) - k)"
  shows "ucast (if bit d (LENGTH('a) - 1) then res OR NOT (mask (LENGTH('a) - k)) else res :: 'b::len word) =
    signed_drop_bit k d"
proof (rule bit_word_eqI)
  fix i
  assume i: "i < LENGTH('a)"
  then show "bit (ucast (if bit d (LENGTH('a) - 1) then res OR NOT (mask (LENGTH('a) - k)) else res) :: 'a word) i =
      bit (signed_drop_bit k d) i"
    using assms by (cases "i < LENGTH('a) - k") (auto simp: bit_simps add.commute)
qed

lemma result_flags_zero:
  assumes "ACCESS_FLAG F_ZF m" "\<not> ACCESS_FLAG F_SF m" "\<not> ACCESS_FLAG F_PF m"
  shows "result_flags 0 m"
  using assms by (simp add: result_flags_def odd_parity_def)

lemma shl_byte_shl: "is_shl d (unat s) m (shl_byte m d s)"
proof (cases "s < 8")
  case False
  then have k: "8 \<le> unat s" by (simp add: word_less_nat_alt)
  then have "push_bit (unat s) d = 0"
    by (intro bit_word_eqI) (auto simp: bit_simps dest: bit_imp_le_length)
  then show ?thesis
    using False k by (simp add: shl_byte_def is_shl_def Let_def result_flags_zero set_clear_cond)
next
  case True
  then have k: "unat s < 8" by (simp add: word_less_nat_alt)
  define res :: u32 where "res = push_bit (unat s) (ucast d :: u32)"
  have r: "(ucast res :: u8) = push_bit (unat s) d"
    using shl_parts [where 'b = 32 and d = d and k = "unat s"] by (simp add: res_def)
  have b: "bit res 7 = bit (ucast res :: u8) 7" "bit res 6 = bit (ucast res :: u8) 6"
    by (simp_all add: bit_ucast_iff)
  show ?thesis
  proof (cases "unat s = 0")
    case True
    then show ?thesis using \<open>s < 8\<close>
      by (simp add: shl_byte_def is_shl_def Let_def set_clear_cond)
  next
    case False
    have "shl_byte m d s = ((ucast res :: u8),
        let m1 = CONDITIONAL_SET_FLAG (PARITY (ucast (res AND 0xff))) F_PF
          (CONDITIONAL_SET_FLAG (res AND 0x80 \<noteq> 0) F_SF
          (CONDITIONAL_SET_FLAG (res AND 0xff = 0) F_ZF
          (CONDITIONAL_SET_FLAG ((ucast d :: u32) AND push_bit (8 - unat s) 1 \<noteq> 0) F_CF m)))
        in if unat s = 1 then CONDITIONAL_SET_FLAG ((res AND 0x80 = 0x80) \<noteq> ACCESS_FLAG F_CF m1) F_OF m1
           else CLEAR_FLAG F_OF m1)"
      using True k False by (simp add: shl_byte_def Let_def power_mask flip: res_def)
    then show ?thesis
      using False k r low_flags [where res = res and 'a = 8 and n = 7] b
        parity_low [where res = res and 'a = 8]
      by (cases "unat s = 1") (simp_all add: is_shl_def result_flags_def set_clear_cond msb_masks
          and_exp_nonzero test_bit take_bit_masks XOR2_shift bit_drop_bit_eq)
  qed
qed

lemma shr_byte_shr: "is_shr d (unat s) m (shr_byte m d s)"
proof (cases "s < 8")
  case False
  then have k: "8 \<le> unat s" by (simp add: word_less_nat_alt)
  then have "drop_bit (unat s) d = 0"
    by (intro bit_word_eqI) (auto simp: bit_simps dest: bit_imp_le_length)
  then show ?thesis
    using False k by (simp add: shr_byte_def is_shr_def Let_def result_flags_zero set_clear_cond)
next
  case True
  then have k: "unat s < 8" by (simp add: word_less_nat_alt)
  define res :: u32 where "res = drop_bit (unat s) (ucast d :: u32) AND mask (8 - unat s)"
  have r: "(ucast res :: u8) = drop_bit (unat s) d"
    using shr_parts [where 'b = 32 and d = d and k = "unat s"] by (simp add: res_def)
  have b: "bit res 7 = bit (ucast res :: u8) 7" "bit res 6 = bit (ucast res :: u8) 6"
    by (simp_all add: bit_ucast_iff)
  show ?thesis
  proof (cases "unat s = 0")
    case True
    then show ?thesis using \<open>s < 8\<close>
      by (simp add: shr_byte_def is_shr_def Let_def set_clear_cond)
  next
    case False
    have "shr_byte m d s = ((ucast res :: u8),
        let m1 = CONDITIONAL_SET_FLAG (PARITY (ucast (res AND 0xff))) F_PF
          (CONDITIONAL_SET_FLAG (res AND 0x80 \<noteq> 0) F_SF
          (CONDITIONAL_SET_FLAG (res AND 0xff = 0) F_ZF
          (CONDITIONAL_SET_FLAG ((ucast d :: u32) AND push_bit (unat s - 1) 1 \<noteq> 0) F_CF m)))
        in if unat s = 1 then CONDITIONAL_SET_FLAG (XOR2 (drop_bit 6 res)) F_OF m1
           else CLEAR_FLAG F_OF m1)"
      using True k False by (simp add: shr_byte_def Let_def power_mask flip: res_def)
    then show ?thesis
      using False k r low_flags [where res = res and 'a = 8 and n = 7] b
        parity_low [where res = res and 'a = 8]
      by (cases "unat s = 1") (simp_all add: is_shr_def result_flags_def set_clear_cond msb_masks
          and_exp_nonzero test_bit take_bit_masks XOR2_shift bit_drop_bit_eq)
  qed
qed

lemma sar_byte_sar: "is_sar d (unat s mod 8) m (sar_byte m d s)"
proof (cases "unat s mod 8 = 0")
  case True
  then show ?thesis by (simp add: sar_byte_def is_sar_def Let_def)
next
  case False
  define res0 :: u32 where "res0 = drop_bit (unat s mod 8) (ucast d :: u32) AND mask (8 - unat s mod 8)"
  define res where "res = (if bit d 7 then res0 OR NOT (mask (8 - unat s mod 8)) else res0)"
  have k: "unat s mod 8 < 8" by simp
  have r: "(ucast res :: u8) = signed_drop_bit (unat s mod 8) d"
    using sar_parts [where 'b = 32 and d = d and k = "unat s mod 8", OF _ _ refl] k
    by (cases "bit d 7") (simp_all add: res0_def res_def)
  have "sar_byte m d s = ((ucast res :: u8), CONDITIONAL_SET_FLAG (res AND 0x80 \<noteq> 0) F_SF (CONDITIONAL_SET_FLAG (PARITY (ucast (res AND 0xff))) F_PF (CONDITIONAL_SET_FLAG (res AND 0xff = 0) F_ZF
      (CONDITIONAL_SET_FLAG ((ucast d :: u32) AND push_bit (unat s mod 8 - 1) 1 \<noteq> 0) F_CF m))))"
    using False k by (simp add: sar_byte_def Let_def power_mask test_bit res_def res0_def)
  then show ?thesis
    using False r low_flags [where res = res and 'a = 8 and n = 7]
      parity_low [where res = res and 'a = 8]
    by (simp add: is_sar_def result_flags_def and_exp_nonzero test_bit take_bit_masks)
qed

lemma shl_word_shl: "is_shl d (unat s) m (shl_word m d s)"
proof (cases "s < 16")
  case False
  then have k: "16 \<le> unat s" by (simp add: word_less_nat_alt)
  then have "push_bit (unat s) d = 0"
    by (intro bit_word_eqI) (auto simp: bit_simps dest: bit_imp_le_length)
  then show ?thesis
    using False k by (simp add: shl_word_def is_shl_def Let_def result_flags_zero set_clear_cond)
next
  case True
  then have k: "unat s < 16" by (simp add: word_less_nat_alt)
  define res :: u32 where "res = push_bit (unat s) (ucast d :: u32)"
  have r: "(ucast res :: u16) = push_bit (unat s) d"
    using shl_parts [where 'b = 32 and d = d and k = "unat s"] by (simp add: res_def)
  have b: "bit res 15 = bit (ucast res :: u16) 15" "bit res 14 = bit (ucast res :: u16) 14"
    by (simp_all add: bit_ucast_iff)
  show ?thesis
  proof (cases "unat s = 0")
    case True
    then show ?thesis using \<open>s < 16\<close>
      by (simp add: shl_word_def is_shl_def Let_def set_clear_cond)
  next
    case False
    have "shl_word m d s = ((ucast res :: u16),
        let m1 = CONDITIONAL_SET_FLAG (PARITY (ucast (res AND 0xff))) F_PF
          (CONDITIONAL_SET_FLAG (res AND 0x8000 \<noteq> 0) F_SF
          (CONDITIONAL_SET_FLAG (res AND 0xffff = 0) F_ZF
          (CONDITIONAL_SET_FLAG ((ucast d :: u32) AND push_bit (16 - unat s) 1 \<noteq> 0) F_CF m)))
        in if unat s = 1 then CONDITIONAL_SET_FLAG ((res AND 0x8000 = 0x8000) \<noteq> ACCESS_FLAG F_CF m1) F_OF m1
           else CLEAR_FLAG F_OF m1)"
      using True k False by (simp add: shl_word_def Let_def power_mask flip: res_def)
    then show ?thesis
      using False k r low_flags [where res = res and 'a = 16 and n = 15] b
        parity_low [where res = res and 'a = 16]
      by (cases "unat s = 1") (simp_all add: is_shl_def result_flags_def set_clear_cond msb_masks
          and_exp_nonzero test_bit take_bit_masks XOR2_shift bit_drop_bit_eq)
  qed
qed

lemma shr_word_shr: "is_shr d (unat s) m (shr_word m d s)"
proof (cases "s < 16")
  case False
  then have k: "16 \<le> unat s" by (simp add: word_less_nat_alt)
  then have "drop_bit (unat s) d = 0"
    by (intro bit_word_eqI) (auto simp: bit_simps dest: bit_imp_le_length)
  then show ?thesis
    using False k by (simp add: shr_word_def is_shr_def Let_def result_flags_zero set_clear_cond)
next
  case True
  then have k: "unat s < 16" by (simp add: word_less_nat_alt)
  define res :: u32 where "res = drop_bit (unat s) (ucast d :: u32) AND mask (16 - unat s)"
  have r: "(ucast res :: u16) = drop_bit (unat s) d"
    using shr_parts [where 'b = 32 and d = d and k = "unat s"] by (simp add: res_def)
  have b: "bit res 15 = bit (ucast res :: u16) 15" "bit res 14 = bit (ucast res :: u16) 14"
    by (simp_all add: bit_ucast_iff)
  show ?thesis
  proof (cases "unat s = 0")
    case True
    then show ?thesis using \<open>s < 16\<close>
      by (simp add: shr_word_def is_shr_def Let_def set_clear_cond)
  next
    case False
    have "shr_word m d s = ((ucast res :: u16),
        let m1 = CONDITIONAL_SET_FLAG (PARITY (ucast (res AND 0xff))) F_PF
          (CONDITIONAL_SET_FLAG (res AND 0x8000 \<noteq> 0) F_SF
          (CONDITIONAL_SET_FLAG (res AND 0xffff = 0) F_ZF
          (CONDITIONAL_SET_FLAG ((ucast d :: u32) AND push_bit (unat s - 1) 1 \<noteq> 0) F_CF m)))
        in if unat s = 1 then CONDITIONAL_SET_FLAG (XOR2 (drop_bit 14 res)) F_OF m1
           else CLEAR_FLAG F_OF m1)"
      using True k False by (simp add: shr_word_def Let_def power_mask flip: res_def)
    then show ?thesis
      using False k r low_flags [where res = res and 'a = 16 and n = 15] b
        parity_low [where res = res and 'a = 16]
      by (cases "unat s = 1") (simp_all add: is_shr_def result_flags_def set_clear_cond msb_masks
          and_exp_nonzero test_bit take_bit_masks XOR2_shift bit_drop_bit_eq)
  qed
qed

lemma sar_word_sar: "is_sar d (unat s mod 16) m (sar_word m d s)"
proof (cases "unat s mod 16 = 0")
  case True
  then show ?thesis by (simp add: sar_word_def is_sar_def Let_def)
next
  case False
  define res0 :: u32 where "res0 = drop_bit (unat s mod 16) (ucast d :: u32) AND mask (16 - unat s mod 16)"
  define res where "res = (if bit d 15 then res0 OR NOT (mask (16 - unat s mod 16)) else res0)"
  have k: "unat s mod 16 < 16" by simp
  have r: "(ucast res :: u16) = signed_drop_bit (unat s mod 16) d"
    using sar_parts [where 'b = 32 and d = d and k = "unat s mod 16", OF _ _ refl] k
    by (cases "bit d 15") (simp_all add: res0_def res_def)
  have "sar_word m d s = ((ucast res :: u16), CONDITIONAL_SET_FLAG (PARITY (ucast (res AND 0xff))) F_PF (CONDITIONAL_SET_FLAG (res AND 0x8000 \<noteq> 0) F_SF (CONDITIONAL_SET_FLAG (res AND 0xffff = 0) F_ZF
      (CONDITIONAL_SET_FLAG ((ucast d :: u32) AND push_bit (unat s mod 16 - 1) 1 \<noteq> 0) F_CF m))))"
    using False k by (simp add: sar_word_def Let_def power_mask test_bit res_def res0_def)
  then show ?thesis
    using False r low_flags [where res = res and 'a = 16 and n = 15]
      parity_low [where res = res and 'a = 16]
    by (simp add: is_sar_def result_flags_def and_exp_nonzero test_bit take_bit_masks)
qed

lemma shl_long_shl: "is_shl d (unat s) m (shl_long m d s)"
proof (cases "s < 32")
  case False
  then have k: "32 \<le> unat s" by (simp add: word_less_nat_alt)
  then have "push_bit (unat s) d = 0"
    by (intro bit_word_eqI) (auto simp: bit_simps dest: bit_imp_le_length)
  then show ?thesis
    using False k by (simp add: shl_long_def is_shl_def Let_def result_flags_zero set_clear_cond)
next
  case True
  then have k: "unat s < 32" by (simp add: word_less_nat_alt)
  define res :: u32 where "res = push_bit (unat s) d"
  have r: "res = push_bit (unat s) d"
    using shl_parts [where 'b = 32 and d = d and k = "unat s"] by (simp add: res_def)
  have b: "bit res 31 = bit res 31" "bit res 30 = bit res 30"
    by (simp_all add: bit_ucast_iff)
  show ?thesis
  proof (cases "unat s = 0")
    case True
    then show ?thesis using \<open>s < 32\<close>
      by (simp add: shl_long_def is_shl_def Let_def set_clear_cond)
  next
    case False
    have "shl_long m d s = (res,
        let m1 = CONDITIONAL_SET_FLAG (PARITY (ucast (res AND 0xff))) F_PF
          (CONDITIONAL_SET_FLAG (res AND 0x80000000 \<noteq> 0) F_SF
          (CONDITIONAL_SET_FLAG (res AND 0xffffffff = 0) F_ZF
          (CONDITIONAL_SET_FLAG (d AND push_bit (32 - unat s) 1 \<noteq> 0) F_CF m)))
        in if unat s = 1 then CONDITIONAL_SET_FLAG ((res AND 0x80000000 = 0x80000000) \<noteq> ACCESS_FLAG F_CF m1) F_OF m1
           else CLEAR_FLAG F_OF m1)"
      using True k False by (simp add: shl_long_def Let_def power_mask flip: res_def)
    then show ?thesis
      using False k r low_flags [where res = res and 'a = 32 and n = 31] b
        parity_low [where res = res and 'a = 32]
      by (cases "unat s = 1") (simp_all add: is_shl_def result_flags_def set_clear_cond msb_masks
          and_exp_nonzero test_bit take_bit_masks XOR2_shift bit_drop_bit_eq)
  qed
qed

lemma shr_long_shr: "is_shr d (unat s) m (shr_long m d s)"
proof (cases "s < 32")
  case False
  then have k: "32 \<le> unat s" by (simp add: word_less_nat_alt)
  then have "drop_bit (unat s) d = 0"
    by (intro bit_word_eqI) (auto simp: bit_simps dest: bit_imp_le_length)
  then show ?thesis
    using False k by (simp add: shr_long_def is_shr_def Let_def result_flags_zero set_clear_cond)
next
  case True
  then have k: "unat s < 32" by (simp add: word_less_nat_alt)
  define res :: u32 where "res = drop_bit (unat s) d AND mask (32 - unat s)"
  have r: "res = drop_bit (unat s) d"
    using shr_parts [where 'b = 32 and d = d and k = "unat s"] by (simp add: res_def)
  have b: "bit res 31 = bit res 31" "bit res 30 = bit res 30"
    by (simp_all add: bit_ucast_iff)
  show ?thesis
  proof (cases "unat s = 0")
    case True
    then show ?thesis using \<open>s < 32\<close>
      by (simp add: shr_long_def is_shr_def Let_def set_clear_cond)
  next
    case False
    have "shr_long m d s = (res,
        let m1 = CONDITIONAL_SET_FLAG (PARITY (ucast (res AND 0xff))) F_PF
          (CONDITIONAL_SET_FLAG (res AND 0x80000000 \<noteq> 0) F_SF
          (CONDITIONAL_SET_FLAG (res AND 0xffffffff = 0) F_ZF
          (CONDITIONAL_SET_FLAG (d AND push_bit (unat s - 1) 1 \<noteq> 0) F_CF m)))
        in if unat s = 1 then CONDITIONAL_SET_FLAG (XOR2 (drop_bit 30 res)) F_OF m1
           else CLEAR_FLAG F_OF m1)"
      using True k False by (simp add: shr_long_def Let_def power_mask flip: res_def)
    then show ?thesis
      using False k r low_flags [where res = res and 'a = 32 and n = 31] b
        parity_low [where res = res and 'a = 32]
      by (cases "unat s = 1") (simp_all add: is_shr_def result_flags_def set_clear_cond msb_masks
          and_exp_nonzero test_bit take_bit_masks XOR2_shift bit_drop_bit_eq)
  qed
qed

lemma sar_long_sar: "is_sar d (unat s mod 32) m (sar_long m d s)"
proof (cases "unat s mod 32 = 0")
  case True
  then show ?thesis by (simp add: sar_long_def is_sar_def Let_def)
next
  case False
  define res0 :: u32 where "res0 = drop_bit (unat s mod 32) d AND mask (32 - unat s mod 32)"
  define res where "res = (if bit d 31 then res0 OR NOT (mask (32 - unat s mod 32)) else res0)"
  have k: "unat s mod 32 < 32" by simp
  have r: "res = signed_drop_bit (unat s mod 32) d"
    using sar_parts [where 'b = 32 and d = d and k = "unat s mod 32", OF _ _ refl] k
    by (cases "bit d 31") (simp_all add: res0_def res_def)
  have "sar_long m d s = (res, CONDITIONAL_SET_FLAG (PARITY (ucast (res AND 0xff))) F_PF (CONDITIONAL_SET_FLAG (res AND 0x80000000 \<noteq> 0) F_SF (CONDITIONAL_SET_FLAG (res AND 0xffffffff = 0) F_ZF
      (CONDITIONAL_SET_FLAG (d AND push_bit (unat s mod 32 - 1) 1 \<noteq> 0) F_CF m))))"
    using False k by (simp add: sar_long_def Let_def power_mask test_bit res_def res0_def)
  then show ?thesis
    using False r low_flags [where res = res and 'a = 32 and n = 31]
      parity_low [where res = res and 'a = 32]
    by (simp add: is_sar_def result_flags_def and_exp_nonzero test_bit take_bit_masks)
qed

end
