(* ===== verification/X86_Alu_Props.thy ===== *)
theory X86_Alu_Props
  imports X86_Shift_Spec
begin

text \<open>Comparisons, increments, decrements and negation are differences and sums too.\<close>

definition is_compare :: "'a::len word \<Rightarrow> 'a word \<Rightarrow> 'b sysenv \<Rightarrow> 'a word \<times> 'b sysenv \<Rightarrow> bool" where
  "is_compare d s m out \<longleftrightarrow> fst out = d \<and> is_difference d s False m (d - s, snd out)"

definition is_increment :: "'a::len word \<Rightarrow> 'b sysenv \<Rightarrow> 'a word \<times> 'b sysenv \<Rightarrow> bool" where
  "is_increment d m out \<longleftrightarrow> (case out of (r, m') \<Rightarrow>
     r = d + 1 \<and> result_flags r m' \<and> sum_flags d 1 False m' \<and>
     ACCESS_FLAG F_CF m' = ACCESS_FLAG F_CF m \<and> same_but_flags ARITH_FLAGS m m')"

definition is_decrement :: "'a::len word \<Rightarrow> 'b sysenv \<Rightarrow> 'a word \<times> 'b sysenv \<Rightarrow> bool" where
  "is_decrement d m out \<longleftrightarrow> (case out of (r, m') \<Rightarrow>
     r = d - 1 \<and> result_flags r m' \<and> difference_flags d 1 False m' \<and>
     ACCESS_FLAG F_CF m' = ACCESS_FLAG F_CF m \<and> same_but_flags ARITH_FLAGS m m')"

definition is_logic :: "'a::len word \<Rightarrow> 'b sysenv \<Rightarrow> 'a word \<times> 'b sysenv \<Rightarrow> bool" where
  "is_logic r m out \<longleftrightarrow> (case out of (r', m') \<Rightarrow>
     r' = r \<and> result_flags r m' \<and> \<not> ACCESS_FLAG F_CF m' \<and> \<not> ACCESS_FLAG F_OF m' \<and>
     same_but_flags ARITH_FLAGS m m')"

lemmas more_specs = is_compare_def is_increment_def is_decrement_def is_logic_def

lemma cmp_byte_compare: "is_compare d s m (cmp_byte m d s)"
proof -
  define res :: u32 where "res = ucast d - ucast s"
  then have res: "res = word_of_int (uint d - uint s - of_bool False)" by simp
  show ?thesis
    using difference_facts [OF _ _ _ res, of 6]
    by (simp add: cmp_byte_def more_specs spec_defs Let_def test_bit take_bit_masks set_clear_cond flip: res_def)
qed

lemma cmp_word_compare: "is_compare d s m (cmp_word m d s)"
proof -
  define res :: u32 where "res = ucast d - ucast s"
  then have res: "res = word_of_int (uint d - uint s - of_bool False)" by simp
  show ?thesis
    using difference_facts [OF _ _ _ res, of 14]
    by (simp add: cmp_word_def more_specs spec_defs Let_def test_bit take_bit_masks set_clear_cond flip: res_def)
qed

lemma cmp_long_compare: "is_compare d s m (cmp_long m d s)"
proof -
  define res :: u32 where "res = d - s"
  then have res: "res = word_of_int (uint d - uint s - of_bool False)" by simp
  show ?thesis
    using difference_facts [OF _ _ _ res, of 30]
    by (simp add: cmp_long_def more_specs spec_defs Let_def test_bit take_bit_masks set_clear_cond flip: res_def)
qed

lemma inc_chains:
  "((1 AND d) OR NOT res) AND (1 OR d) = carry_chain res d 1"
  "(1 AND d) OR (NOT res AND (1 OR d)) = carry_chain res d 1" for d res :: "'a::len word"
  unfolding carry_chain_def by (rule bit_word_eqI; auto simp: bit_simps)+

lemma dec_byte_decrement: "is_decrement d m (dec_byte m d)"
proof -
  define res :: u32 where "res = ucast d - 1"
  then have res: "res = word_of_int (uint d - uint (1 :: u8) - of_bool False)" by simp
  show ?thesis
    using difference_facts [OF _ _ _ res, of 6]
    by (simp add: dec_byte_def more_specs spec_defs Let_def test_bit take_bit_masks flip: res_def)
qed

lemma inc_byte_increment: "is_increment d m (inc_byte m d)"
proof -
  define res :: u32 where "res = ucast d + 1"
  then have res: "res = word_of_int (uint d + uint (1 :: u8) + of_bool False)" by simp
  show ?thesis
    using sum_facts [OF _ _ _ res, of 6]
    by (simp add: inc_byte_def more_specs spec_defs Let_def test_bit take_bit_masks inc_chains flip: res_def)
qed

lemma ucast_and_wide: "LENGTH('a) \<le> LENGTH('b) \<Longrightarrow>
    (ucast d AND ucast s :: 'b::len word) = ucast (d AND s :: 'a::len word)"
  by (rule bit_word_eqI) (auto simp: bit_simps)

lemma wide_zero: "LENGTH('a) \<le> LENGTH('b) \<Longrightarrow> (ucast x :: 'b::len word) = 0 \<longleftrightarrow> (x :: 'a::len word) = 0"
  by (metis narrow_wide unsigned_0)

lemma logic_byte:
  "is_logic (d AND s) m (and_byte m d s)" "is_logic (d OR s) m (or_byte m d s)"
  "is_logic (d XOR s) m (xor_byte m d s)" "is_logic (d AND s) m (d AND s, test_byte m d s)"
proof -
  note f = msb_neg [where 'a = 8 and n = 7] PARITY_byte parity_low [where 'a = 8 and 'b = 8]
  show "is_logic (d AND s) m (and_byte m d s)" "is_logic (d OR s) m (or_byte m d s)"
    "is_logic (d XOR s) m (xor_byte m d s)"
    using f by (simp_all add: and_byte_def or_byte_def xor_byte_def more_specs result_flags_def
        Let_def set_clear_cond test_bit)
  define res :: u32 where "res = ucast d AND ucast s"
  have r: "ucast res = d AND s"
    unfolding res_def by (rule bit_word_eqI) (auto simp: bit_simps)
  have z: "res = 0 \<longleftrightarrow> d AND s = 0"
    by (simp add: res_def ucast_and_wide wide_zero)
  show "is_logic (d AND s) m (d AND s, test_byte m d s)"
    using low_flags [where res = res and 'a = 8 and n = 7] r z
      parity_low [where res = res and 'a = 8]
    by (simp add: test_byte_def more_specs result_flags_def Let_def set_clear_cond test_bit flip: res_def)
qed

lemma dec_word_decrement: "is_decrement d m (dec_word m d)"
proof -
  define res :: u32 where "res = ucast d - 1"
  then have res: "res = word_of_int (uint d - uint (1 :: u16) - of_bool False)" by simp
  show ?thesis
    using difference_facts [OF _ _ _ res, of 14]
    by (simp add: dec_word_def more_specs spec_defs Let_def test_bit take_bit_masks flip: res_def)
qed

lemma inc_word_increment: "is_increment d m (inc_word m d)"
proof -
  define res :: u32 where "res = ucast d + 1"
  then have res: "res = word_of_int (uint d + uint (1 :: u16) + of_bool False)" by simp
  show ?thesis
    using sum_facts [OF _ _ _ res, of 14]
    by (simp add: inc_word_def more_specs spec_defs Let_def test_bit take_bit_masks inc_chains flip: res_def)
qed

lemma logic_word:
  "is_logic (d AND s) m (and_word m d s)" "is_logic (d OR s) m (or_word m d s)"
  "is_logic (d XOR s) m (xor_word m d s)" "is_logic (d AND s) m (d AND s, test_word m d s)"
proof -
  note f = msb_neg [where 'a = 16 and n = 15] PARITY_byte parity_low [where 'a = 16 and 'b = 16]
  show "is_logic (d AND s) m (and_word m d s)" "is_logic (d OR s) m (or_word m d s)"
    "is_logic (d XOR s) m (xor_word m d s)"
    using f by (simp_all add: and_word_def or_word_def xor_word_def more_specs result_flags_def
        Let_def set_clear_cond test_bit)
  define res :: u32 where "res = ucast d AND ucast s"
  have r: "ucast res = d AND s"
    unfolding res_def by (rule bit_word_eqI) (auto simp: bit_simps)
  have z: "res = 0 \<longleftrightarrow> d AND s = 0"
    by (simp add: res_def ucast_and_wide wide_zero)
  show "is_logic (d AND s) m (d AND s, test_word m d s)"
    using low_flags [where res = res and 'a = 16 and n = 15] r z
      parity_low [where res = res and 'a = 16]
    by (simp add: test_word_def more_specs result_flags_def Let_def set_clear_cond test_bit flip: res_def)
qed


text \<open>
  Negation is the difference of 0 and the operand, but for the overflow of \<open>neg_word\<close>, which
  the code takes from bits 6 and 7.
\<close>

lemma borrow_chain_0: "borrow_chain (- s) 0 s = - s OR s" for s :: "'a::len word"
  by (rule bit_word_eqI) (simp add: borrow_chain_def bit_simps)

lemma neg_byte_difference: "is_difference 0 s False m (neg_byte m s)"
proof -
  define res :: u8 where "res = - s"
  then have res: "res = word_of_int (uint (0 :: u8) - uint s - of_bool False)" by simp
  have "0 < uint s \<longleftrightarrow> s \<noteq> 0" by (simp add: order_less_le uint_0_iff eq_commute [of 0])
  then show ?thesis
    using difference_facts [OF _ _ _ res, of 6] borrow_chain_0 [of s]
    by (simp add: neg_byte_def spec_defs Let_def test_bit take_bit_masks PARITY_byte flip: res_def)
qed

subsection \<open>A machine to evaluate at\<close>

definition blank_regs :: x86_regs where
  "blank_regs = \<lparr>R_EAX = 0, R_EBX = 0, R_ECX = 0, R_EDX = 0, R_ESP = 0, R_EBP = 0, R_ESI = 0,
     R_EDI = 0, R_EIP = 0, R_FLG = 0, R_CS = 0, R_DS = 0, R_SS = 0, R_ES = 0, R_FS = 0, R_GS = 0,
     mode = 0, intno = 0, intr = 0\<rparr>"

definition blank_machine :: "unit sysenv" where
  "blank_machine = \<lparr>x86 = blank_regs, mem_size = 0x100000, ram = (\<lambda>_. 0), bus = ()\<rparr>"

definition null_bus :: "unit bus_ops" where
  "null_bus = \<lparr>readb = (\<lambda>_ b. (0xff, b)), readw = (\<lambda>_ b. (0xffff, b)), readl = (\<lambda>_ b. (0xffffffff, b)),
     writeb = (\<lambda>_ _ b. b), writew = (\<lambda>_ _ b. b), writel = (\<lambda>_ _ b. b),
     inb = (\<lambda>_ b. (0xff, b)), inw = (\<lambda>_ b. (0xffff, b)), inl = (\<lambda>_ b. (0xffffffff, b)),
     outb = (\<lambda>_ _ b. b), outw = (\<lambda>_ _ b. b), outl = (\<lambda>_ _ b. b)\<rparr>"

lemma blank_views [simp]: "reg_x g blank_machine = 0" "reg_l g blank_machine = 0"
  "reg_h g blank_machine = 0" "reg_e g blank_machine = 0" "R_FLG (x86 blank_machine) = 0"
  "intr (x86 blank_machine) = 0" "mem_size blank_machine = 0x100000" "ram blank_machine a = 0"
  by (cases g; simp add: blank_machine_def blank_regs_def reg_x_def reg_l_def reg_h_def reg_e_def)+

lemma blank_segs [simp]: "R_CS (x86 blank_machine) = 0" "R_SS (x86 blank_machine) = 0"
  "R_DS (x86 blank_machine) = 0" "R_ES (x86 blank_machine) = 0" "mode (x86 blank_machine) = 0"
  "intno (x86 blank_machine) = 0" "bus blank_machine = ()"
  by (simp_all add: blank_machine_def blank_regs_def)

subsection \<open>Views of a register after a write\<close>

lemma u32_masks: "(0xffff :: u32) = mask 16" "(0xffff0000 :: u32) = NOT (mask 16)"
  "(0xff :: u32) = mask 8" "(0xffffff00 :: u32) = NOT (mask 8)"
  "(0xffff00ff :: u32) = NOT (push_bit 8 (mask 8))"
  by (simp_all add: mask_eq_exp_minus_1)

lemma view_bits:
  "(ucast ((v AND 0xffff0000) OR ucast (x :: u16)) :: u16) = x"
  "(ucast (drop_bit 8 ((v AND 0xffffff00) OR ucast (b :: u8))) :: u8) = ucast (drop_bit 8 v)"
  "(ucast ((v AND 0xffffff00) OR ucast b) :: u8) = b"
  "(ucast ((v AND 0xffff00ff) OR push_bit 8 (ucast b)) :: u8) = ucast v"
  "(ucast (drop_bit 8 ((v AND 0xffff00ff) OR push_bit 8 (ucast b))) :: u8) = b"
  for v :: u32
  unfolding u32_masks by (intro bit_word_eqI; auto simp: bit_simps dest: bit_imp_le_length)+

lemma reg_x_set_x [simp]: "reg_x g (set_x h v m) = (if g = h then v else reg_x g m)"
  by (simp add: reg_x_def set_x_def view_bits)

lemma reg_e_set_x [simp]: "g \<noteq> h \<Longrightarrow> reg_e g (set_x h v m) = reg_e g m"
  by (simp add: reg_e_def set_x_def)

lemma reg_l_set_l [simp]: "reg_l g (set_l h v m) = (if g = h then v else reg_l g m)"
  and reg_l_set_h [simp]: "reg_l g (set_h h v m) = reg_l g m"
  and reg_h_set_l [simp]: "reg_h g (set_l h v m) = reg_h g m"
  and reg_h_set_h [simp]: "reg_h g (set_h h v m) = (if g = h then v else reg_h g m)"
  by (simp_all add: reg_l_def reg_h_def set_l_def set_h_def view_bits del: drop_bit_or drop_bit_and)

lemma reg_h_reg_x: "reg_h g m = ucast (drop_bit 8 (reg_x g m))"
  by (rule bit_word_eqI) (auto simp: reg_h_def reg_x_def bit_simps)

lemma reg_l_reg_x: "reg_l g m = ucast (reg_x g m)"
  by (rule bit_word_eqI) (auto simp: reg_l_def reg_x_def bit_simps)

lemma intr_set [simp]: "intr (x86 (set_x g v m)) = intr (x86 m)"
  by (simp add: set_x_def)

lemma ACCESS_set [simp]: "ACCESS_FLAG f (set_x g v m) = ACCESS_FLAG f m"
  "ACCESS_FLAG f (set_l g b m) = ACCESS_FLAG f m" "ACCESS_FLAG f (set_h g b m) = ACCESS_FLAG f m"
  by (simp_all add: ACCESS_FLAG_def set_x_def set_l_def set_h_def)

lemma high_part_zero:
  "(ucast (drop_bit 8 v) :: u8) = 0 \<longleftrightarrow> unat v < 256" "(ucast (drop_bit 16 x) :: u16) = 0 \<longleftrightarrow> unat x < 65536"
  for v :: u16 and x :: u32
  using unsigned_less [of v, where 'a = nat] unsigned_less [of x, where 'a = nat]
  by (simp_all add: word_eq_iff_unat unat_ucast_mod unat_drop_bit div_less_dividend less_mult_imp_div_less
      div_eq_0_iff)

lemma unat_product: "unat (ucast x * ucast y :: 'b::len word) = unat x * unat y"
  if "LENGTH('b) = 2 * LENGTH('a)" for x y :: "'a::len word"
proof -
  have "unat x < 2 ^ LENGTH('a)" "unat y < 2 ^ LENGTH('a)" by simp_all
  then have "unat x * unat y < 2 ^ LENGTH('a) * 2 ^ LENGTH('a)"
    by (intro mult_strict_mono') auto
  also have "\<dots> = 2 ^ LENGTH('b)" by (simp add: that power_add [symmetric] mult_2)
  finally have lt: "unat x * unat y < 2 ^ LENGTH('b)" .
  have up: "unat (ucast z :: 'b word) = unat z" for z :: "'a word"
    unfolding unat_ucast_mod
    by (intro mod_less order_less_le_trans [OF unsigned_less]) (simp add: that)
  show ?thesis
    using lt by (simp add: unat_word_ariths up)
qed

definition is_product_byte :: "u8 \<Rightarrow> 'b sysenv \<Rightarrow> 'b sysenv \<Rightarrow> bool" where
  "is_product_byte s m m' \<longleftrightarrow> (let p = unat (reg_l EAX m) * unat s in
     unat (reg_x EAX m') = p \<and> ACCESS_FLAG F_CF m' = (256 \<le> p) \<and> ACCESS_FLAG F_OF m' = (256 \<le> p) \<and>
     same_but_flags ARITH_FLAGS (set_x EAX (reg_x EAX m') m) m')"

lemma mul_byte_product: "is_product_byte s m (mul_byte m s)"
proof -
  define res :: u16 where "res = ucast (reg_l EAX m) * ucast s"
  have r: "unat res = unat (reg_l EAX m) * unat s" by (simp add: res_def unat_product)
  have z: "(reg_h EAX (set_x EAX res m) = 0) = (unat (reg_l EAX m) * unat s < 256)"
    by (simp add: reg_h_reg_x high_part_zero r)
  show ?thesis
    using r z by (auto simp: mul_byte_def is_product_byte_def Let_def set_clear_cond simp flip: res_def)
qed

definition is_product_word :: "u16 \<Rightarrow> 'b sysenv \<Rightarrow> 'b sysenv \<Rightarrow> bool" where
  "is_product_word s m m' \<longleftrightarrow> (let p = unat (reg_x EAX m) * unat s in
     unat (reg_x EDX m') * 65536 + unat (reg_x EAX m') = p \<and>
     ACCESS_FLAG F_CF m' = (65536 \<le> p) \<and> ACCESS_FLAG F_OF m' = (65536 \<le> p) \<and>
     same_but_flags ARITH_FLAGS (set_x EDX (reg_x EDX m') (set_x EAX (reg_x EAX m') m)) m')"

lemma set_x_cond: "set_x g v (CONDITIONAL_SET_FLAG c f m) = CONDITIONAL_SET_FLAG c f (set_x g v m)"
  by (cases g) (simp_all add: set_x_def CONDITIONAL_SET_FLAG_def SET_FLAG_def CLEAR_FLAG_def upd_def)

lemma mul_word_product: "is_product_word s m (mul_word m s)"
proof -
  define res :: u32 where "res = ucast (reg_x EAX m) * ucast s"
  have r: "unat res = unat (reg_x EAX m) * unat s" by (simp add: res_def unat_product)
  have p: "unat (ucast (drop_bit 16 res) :: u16) * 65536 + unat (ucast res :: u16) = unat res"
    using unsigned_less [of res, where 'a = nat]
    by (simp add: unat_ucast_mod unat_drop_bit less_mult_imp_div_less)
  show ?thesis
    using r p high_part_zero(2) [of res]
    by (auto simp: mul_word_def is_product_word_def Let_def set_clear_cond set_x_cond simp flip: res_def)
qed

end
