(* ===== verification/X86_Div_Spec.thy ===== *)
theory X86_Div_Spec
  imports X86_Alu_Props
begin

text \<open>
  Division. The code tests the quotient through \<open>abs\<close> of an \<open>int\<close>; here is which quotients
  it lets through, and that what it stores is the quotient and the remainder.
\<close>

lemma sint_unat: "sint x = (if unat x < 2 ^ 31 then int (unat x) else int (unat x) - 2 ^ 32)" for x :: u32
proof -
  have "sint x = take_bit 31 (uint x) - 2 ^ 31 * of_bool (bit x 31)"
    using sint_split [of 31 x] by simp
  moreover have "take_bit 31 (uint x) = int (unat x mod 2 ^ 31)"
    by (simp add: take_bit_eq_mod zmod_int)
  moreover have "bit x 31 = (\<not> unat x < 2 ^ 31)"
  proof -
    have "unat x div 2 ^ 31 < 2" using unsigned_less [of x, where 'a = nat] by (intro less_mult_imp_div_less) simp
    then have "unat x div 2 ^ 31 = 0 \<or> unat x div 2 ^ 31 = 1" by linarith
    then show ?thesis unfolding bit_unat_odd by (auto simp: div_eq_0_iff)
  qed
  moreover have "unat x mod 2 ^ 31 = (if unat x < 2 ^ 31 then unat x else unat x - 2 ^ 31)"
    using unsigned_less [of x, where 'a = nat] by (simp add: le_mod_geq)
  ultimately show ?thesis by (auto simp: of_nat_diff)
qed

lemma c_abs_unat: "c_abs x = (if unat x < 2 ^ 31 then int (unat x)
   else if unat x = 2 ^ 31 then - (2 ^ 31) else 2 ^ 32 - int (unat x))"
proof -
  have "unat (- x) = 2 ^ 32 - unat x" if "x \<noteq> 0"
  proof -
    have "uint (- x) = - uint x mod 2 ^ 32" by (simp add: uint_word_ariths)
    also have "\<dots> = 2 ^ 32 - uint x"
    proof -
      have "uint x mod 2 ^ 32 = uint x"
        using unsigned_less [of x, where 'a = int] by (intro mod_pos_pos_trivial) simp_all
      then show ?thesis using that by (simp add: zmod_zminus1_eq_if uint_0_iff)
    qed
    finally have "int (unat (- x)) = int (2 ^ 32 - unat x)"
      using unsigned_less [of x, where 'a = nat] by (simp add: of_nat_diff)
    then show ?thesis by (simp only: of_nat_eq_iff)
  qed
  note neg = this
  have x: "unat x < 2 ^ 32" using unsigned_less [of x, where 'a = nat] by simp
  show ?thesis
  proof (cases "unat x < 2 ^ 31")
    case True
    then have "sint x = int (unat x)" using sint_unat [of x] by simp
    then show ?thesis using True by (simp only: c_abs_def) simp
  next
    case False
    then have "sint x < 0" using sint_unat [of x] unsigned_less [of x, where 'a = int] by simp
    moreover have "x \<noteq> 0" using False by auto
    then have "unat (- x) = 2 ^ 32 - unat x" by (rule neg)
    ultimately have "c_abs x = (if 2 ^ 32 - unat x < 2 ^ 31 then int (2 ^ 32 - unat x)
        else int (2 ^ 32 - unat x) - 2 ^ 32)"
      using sint_unat [of "- x"] by (simp only: c_abs_def if_True)
    moreover have "(if 2 ^ 32 - n < 2 ^ 31 then int (2 ^ 32 - n) else int (2 ^ 32 - n) - 2 ^ 32) =
        (if n < 2 ^ 31 then int n else if n = 2 ^ 31 then - (2 ^ 31) else 2 ^ 32 - int n)"
      if "\<not> n < 2 ^ 31" "n < 2 ^ 32" for n :: nat
      using that by (auto simp: of_nat_diff)
    ultimately show ?thesis using False x by simp
  qed
qed

lemma c_abs_of_int: "\<bar>q\<bar> < 2 ^ 31 \<Longrightarrow> c_abs (word_of_int q) = \<bar>q\<bar>"
proof -
  assume q: "\<bar>q\<bar> < 2 ^ 31"
  have s: "sint (word_of_int i :: u32) = i" if "\<bar>i\<bar> < 2 ^ 31" for i
    using that by (simp add: sint_sbintrunc' signed_take_bit_int_eq_self)
  have "- word_of_int q = (word_of_int (- q) :: u32)" by simp
  then show ?thesis using q s [of q] s [of "- q"] by (simp add: c_abs_def)
qed

lemma int_gt: "numeral k < int n \<longleftrightarrow> numeral k < n"
  using of_nat_less_iff [of "numeral k" n, where 'a = int] by simp

text \<open>
  Division: the trap (interrupt 0, and nothing else changes) or the quotient and the remainder.
\<close>

definition is_division_byte :: "u8 \<Rightarrow> 'b sysenv \<Rightarrow> 'b sysenv \<Rightarrow> bool" where
  "is_division_byte s m m' \<longleftrightarrow> (let q = unat (reg_x EAX m) div unat s; r = unat (reg_x EAX m) mod unat s in
     if s = 0 \<or> 0xff < q then m' = x86_intr_raise 0 m
     else unat (reg_l EAX m') = q \<and> unat (reg_h EAX m') = r \<and>
       same_but_flags ARITH_FLAGS (set_h EAX (of_nat r) (set_l EAX (of_nat q) m)) m')"

lemma x86_regs_ops_cond:
  "set_l g b (CONDITIONAL_SET_FLAG c f m) = CONDITIONAL_SET_FLAG c f (set_l g b m)"
  "set_h g b (CONDITIONAL_SET_FLAG c f m) = CONDITIONAL_SET_FLAG c f (set_h g b m)"
  by (cases g; simp add: set_l_def set_h_def CONDITIONAL_SET_FLAG_def SET_FLAG_def CLEAR_FLAG_def upd_def)+

lemma unat_wide: "LENGTH('a) \<le> LENGTH('b) \<Longrightarrow> unat (ucast x :: 'b::len word) = unat (x :: 'a::len word)"
  unfolding unat_ucast_mod by (intro mod_less order_less_le_trans [OF unsigned_less]) simp

lemma div_byte_division: "is_division_byte s m (div_byte m s)"
proof -
  define q where "q = (ucast (reg_x EAX m) div ucast s :: u32)"
  define r where "r = (ucast (reg_x EAX m) mod ucast s :: u32)"
  have q: "unat q = unat (reg_x EAX m) div unat s" and r: "unat r = unat (reg_x EAX m) mod unat s"
    by (simp_all add: q_def r_def unat_div_distrib unat_mod unat_wide)
  have "unat q \<le> unat (reg_x EAX m)" by (simp add: q)
  then have "unat q < 2 ^ 31" using unsigned_less [of "reg_x EAX m", where 'a = nat] by simp
  then have a: "c_abs q > 0xff \<longleftrightarrow> 0xff < unat q" unfolding c_abs_unat by (simp only: if_True int_gt)
  show ?thesis
  proof (cases "s = 0 \<or> 0xff < unat q")
    case True
    then show ?thesis using a
      by (auto simp: div_byte_def is_division_byte_def Let_def simp flip: q_def r_def q r)
  next
    case False
    then have "0 < unat s" by (simp add: unat_gt_0)
    from mod_less_divisor [OF this] have "unat r < unat s" by (simp only: r)
    then have "unat r < 256" using unsigned_less [of s, where 'a = nat] by simp
    then show ?thesis using a False
      by (auto simp: div_byte_def is_division_byte_def Let_def set_clear_cond x86_regs_ops_cond
          unat_ucast_mod of_nat_unat_ucast simp flip: q_def r_def q r)
  qed
qed


definition dx_ax :: "'b sysenv \<Rightarrow> u32" where
  "dx_ax m = push_bit 16 (ucast (reg_x EDX m)) OR ucast (reg_x EAX m)"

text \<open>
  The quotients above 0xffff that \<open>div_word\<close> lets through: the \<open>abs\<close> of an \<open>int\<close> is not above 0xffff for them.
\<close>

definition missed_quotient :: "nat \<Rightarrow> bool" where
  "missed_quotient q \<longleftrightarrow> q = 2 ^ 31 \<or> 0xffff0000 < q"

definition is_division_word :: "u16 \<Rightarrow> 'b sysenv \<Rightarrow> 'b sysenv \<Rightarrow> bool" where
  "is_division_word s m m' \<longleftrightarrow> (let q = unat (dx_ax m) div unat s; r = unat (dx_ax m) mod unat s in
     if s = 0 \<or> 0xffff < q \<and> \<not> missed_quotient q then m' = x86_intr_raise 0 m
     else unat (reg_x EAX m') = q mod 0x10000 \<and> unat (reg_x EDX m') = r \<and>
       same_but_flags ARITH_FLAGS (set_x EDX (of_nat r) (set_x EAX (of_nat q) m)) m')"

lemma c_abs_word: "c_abs q > 0xffff \<longleftrightarrow> 0xffff < unat q \<and> unat q \<noteq> 2 ^ 31 \<and> unat q \<le> 0xffff0000"
proof -
  have "(if n < 2 ^ 31 then int n else if n = 2 ^ 31 then - (2 ^ 31) else 2 ^ 32 - int n) > 0xffff \<longleftrightarrow>
      0xffff < n \<and> n \<noteq> 2 ^ 31 \<and> n \<le> 0xffff0000" for n :: nat
    by auto
  then show ?thesis unfolding c_abs_unat .
qed

lemma div_word_division: "is_division_word s m (div_word m s)"
proof -
  define q where "q = unat (dx_ax m) div unat s"
  define q' where "q' = (dx_ax m div ucast s :: u32)"
  define r' where "r' = (dx_ax m mod ucast s :: u32)"
  have q: "unat q' = q" and r: "unat r' = unat (dx_ax m) mod unat s"
    by (simp_all add: q_def q'_def r'_def unat_div_distrib unat_mod unat_wide)
  have z: "(ucast s :: u32) = 0 \<longleftrightarrow> s = 0" by (simp add: wide_zero)
  note unf = div_word_def dx_ax_def [symmetric] q'_def [symmetric] r'_def [symmetric] z
  have qw: "ucast q' = (of_nat q :: u16)" and rw: "ucast r' = (of_nat (unat (dx_ax m) mod unat s) :: u16)"
    by (simp_all only: q [symmetric] r [symmetric] of_nat_unat_ucast)
  have big: "c_abs q' > 0xffff \<longleftrightarrow> 0xffff < q \<and> \<not> missed_quotient q"
    unfolding c_abs_word q missed_quotient_def by auto
  show ?thesis
  proof (cases "s = 0 \<or> 0xffff < q \<and> \<not> missed_quotient q")
    case True
    then have "div_word m s = x86_intr_raise 0 m"
      using big by (auto simp: div_word_def Let_def unf)
    then show ?thesis using True by (simp add: is_division_word_def Let_def q_def [symmetric])
  next
    case False
    then have "\<not> c_abs q' > 0xffff" "s \<noteq> 0" using big by auto
    then have E: "div_word m s = set_x EDX (ucast r') (set_x EAX (ucast q')
        (CONDITIONAL_SET_FLAG (q' = 0) F_ZF (CONDITIONAL_SET_FLAG False F_SF m)))"
      by (simp only: div_word_def Let_def unf set_clear_cond if_False)
    have "0 < unat s" using False by (simp add: unat_gt_0)
    from mod_less_divisor [OF this] have r2: "unat (dx_ax m) mod unat s < unat s" .
    then have "unat (dx_ax m) mod unat s < 65536" using unsigned_less [of s, where 'a = nat] by simp
    then show ?thesis
      unfolding is_division_word_def Let_def q_def [symmetric] if_not_P [OF False]
      by (simp add: E qw rw set_x_cond unat_of_nat)
  qed
qed

definition is_signed_division_byte :: "u8 \<Rightarrow> 'b sysenv \<Rightarrow> 'b sysenv \<Rightarrow> bool" where
  "is_signed_division_byte s m m' \<longleftrightarrow>
     (let q = sint (reg_x EAX m) sdiv sint s; r = sint (reg_x EAX m) smod sint s in
     if s = 0 \<or> 0x7f < \<bar>q\<bar> then m' = x86_intr_raise 0 m
     else sint (reg_l EAX m') = q \<and> sint (reg_h EAX m') = r \<and>
       same_but_flags ARITH_FLAGS (set_h EAX (word_of_int r) (set_l EAX (word_of_int q) m)) m')"

definition is_signed_division_word :: "u16 \<Rightarrow> 'b sysenv \<Rightarrow> 'b sysenv \<Rightarrow> bool" where
  "is_signed_division_word s m m' \<longleftrightarrow>
     (let q = sint (dx_ax m) sdiv sint s; r = sint (dx_ax m) smod sint s in
     if s = 0 \<or> 0x7fff < \<bar>q\<bar> then m' = x86_intr_raise 0 m
     else sint (reg_x EAX m') = q \<and> sint (reg_x EDX m') = r \<and>
       same_but_flags ARITH_FLAGS (set_x EDX (word_of_int r) (set_x EAX (word_of_int q) m)) m')"

lemma abs_sdiv_le: "\<bar>a sdiv b\<bar> \<le> \<bar>a\<bar>" for a b :: int
  using sdiv_int_range [of a b] by auto

lemma abs_smod_lt: "b \<noteq> 0 \<Longrightarrow> \<bar>a smod b\<bar> < \<bar>b\<bar>" for a b :: int
  by (simp add: signed_modulo_int_def abs_mult abs_sgn_eq pos_mod_sign)

lemma sint_range: "\<bar>sint x\<bar> \<le> 2 ^ (LENGTH('a) - 1)" for x :: "'a::len word"
  using sint_greater_eq [of x] sint_less [of x] by simp

lemma sint_of_small: "\<bar>i\<bar> < 2 ^ (LENGTH('a) - 1) \<Longrightarrow> sint (word_of_int i :: 'a::len word) = i"
  by (auto simp: sint_sbintrunc' intro!: signed_take_bit_int_eq_self)

lemma sint_zero: "sint x = 0 \<longleftrightarrow> x = 0" for x :: "'a::len word"
  by (rule signed_eq_0_iff)

lemma idiv_byte_division: "is_signed_division_byte s m (idiv_byte m s)"
proof -
  define q where "q = sint (reg_x EAX m) sdiv sint s"
  define r where "r = sint (reg_x EAX m) smod sint s"
  have "\<bar>q\<bar> \<le> 2 ^ 15"
    using abs_sdiv_le [of "sint (reg_x EAX m)" "sint s"] sint_range [of "reg_x EAX m"]
    unfolding q_def by simp
  then have a: "c_abs (word_of_int q) = \<bar>q\<bar>" by (intro c_abs_of_int) simp
  show ?thesis
  proof (cases "s = 0 \<or> 0x7f < \<bar>q\<bar>")
    case True
    then have "idiv_byte m s = x86_intr_raise 0 m"
      by (auto simp: idiv_byte_def Let_def a simp flip: q_def)
    then show ?thesis using True by (simp add: is_signed_division_byte_def Let_def flip: q_def)
  next
    case False
    then have "\<bar>r\<bar> < \<bar>sint s\<bar>" unfolding r_def by (intro abs_smod_lt) (simp add: sint_zero)
    then have "sint (word_of_int r :: u8) = r" "sint (word_of_int q :: u8) = q"
      using sint_range [of s] False by (intro sint_of_small; simp)+
    then show ?thesis using False
      by (simp add: is_signed_division_byte_def idiv_byte_def Let_def a x86_regs_ops_cond narrow_of_int
          flip: q_def r_def)
  qed
qed

lemma idiv_word_division:
  assumes "\<bar>sint (dx_ax m) sdiv sint s\<bar> < 2 ^ 31"
  shows "is_signed_division_word s m (idiv_word m s)"
proof -
  define q where "q = sint (dx_ax m) sdiv sint s"
  define r where "r = sint (dx_ax m) smod sint s"
  have a: "c_abs (word_of_int q) = \<bar>q\<bar>" using assms unfolding q_def by (rule c_abs_of_int)
  show ?thesis
  proof (cases "s = 0 \<or> 0x7fff < \<bar>q\<bar>")
    case True
    then have "idiv_word m s = x86_intr_raise 0 m"
      by (auto simp: idiv_word_def Let_def a simp flip: q_def dx_ax_def)
    then show ?thesis using True by (simp add: is_signed_division_word_def Let_def flip: q_def)
  next
    case False
    then have "\<bar>r\<bar> < \<bar>sint s\<bar>" unfolding r_def by (intro abs_smod_lt) (simp add: sint_zero)
    then have "sint (word_of_int r :: u16) = r" "sint (word_of_int q :: u16) = q"
      using sint_range [of s] False by (intro sint_of_small; simp)+
    then show ?thesis using False
      by (simp add: is_signed_division_word_def idiv_word_def Let_def a set_x_cond narrow_of_int
          flip: q_def r_def dx_ax_def)
  qed
qed
end
