(* ===== verification/X86_Alu_Theorems.thy ===== *)
theory X86_Alu_Theorems
  imports X86_Div_Spec
begin

text \<open>
  The properties of the arithmetic, each over both widths of its operation, and the places where
  the code departs from the processor.
\<close>

lemma neg_word_flags: "neg_word m s = (- s, snd (neg_word m s)) \<and>
   ACCESS_FLAG F_OF (snd (neg_word m s)) = (bit (- s OR s) 6 \<noteq> bit (- s OR s) 7)"
  by (simp add: neg_word_def Let_def XOR2_shift test_bit bit_or_iff)

definition is_signed_product_byte :: "u8 \<Rightarrow> 'b sysenv \<Rightarrow> 'b sysenv \<Rightarrow> bool" where
  "is_signed_product_byte s m m' \<longleftrightarrow> sint (reg_x EAX m') = sint (reg_l EAX m) * sint s \<and>
     ACCESS_FLAG F_CF m' = (reg_h EAX m' \<noteq> 0 \<and> reg_h EAX m' \<noteq> 0xff) \<and>
     ACCESS_FLAG F_OF m' = ACCESS_FLAG F_CF m' \<and>
     same_but_flags ARITH_FLAGS (set_x EAX (reg_x EAX m') m) m'"

definition is_signed_product_word :: "u16 \<Rightarrow> 'b sysenv \<Rightarrow> 'b sysenv \<Rightarrow> bool" where
  "is_signed_product_word s m m' \<longleftrightarrow> sint (dx_ax m') = sint (reg_x EAX m) * sint s \<and>
     ACCESS_FLAG F_CF m' = (reg_x EDX m' \<noteq> 0 \<and> reg_x EDX m' \<noteq> 0xffff) \<and>
     ACCESS_FLAG F_OF m' = ACCESS_FLAG F_CF m' \<and>
     same_but_flags ARITH_FLAGS (set_x EDX (reg_x EDX m') (set_x EAX (reg_x EAX m') m)) m'"

lemma sint_product:
  fixes x y :: "'a::len word"
  assumes "LENGTH('b) = 2 * LENGTH('a)" "1 < LENGTH('a)"
  shows "sint (word_of_int (sint x * sint y) :: 'b::len word) = sint x * sint y"
proof (rule sint_of_small)
  have "\<bar>sint x\<bar> * \<bar>sint y\<bar> \<le> 2 ^ (LENGTH('a) - 1) * 2 ^ (LENGTH('a) - 1)"
    using sint_range [of x] sint_range [of y] by (intro mult_mono) auto
  also have "\<dots> = 2 ^ (2 * LENGTH('a) - 2)"
    by (simp add: power_add [symmetric] mult_2 diff_mult_distrib2)
  also have "\<dots> < 2 ^ (LENGTH('b) - 1)" using assms by (intro power_strict_increasing) auto
  finally show "\<bar>sint x * sint y\<bar> < 2 ^ (LENGTH('b) - 1)" by (simp add: abs_mult)
qed

lemma imul_byte_product: "is_signed_product_byte s m (imul_byte m s)"
proof -
  define res :: u16 where "res = scast (reg_l EAX m) * scast s"
  have r: "sint res = sint (reg_l EAX m) * sint s"
    using sint_product [of "reg_l EAX m" s, where 'b = 16] by (simp add: res_def)
  show ?thesis
    using r by (auto simp: imul_byte_def is_signed_product_byte_def Let_def set_clear_cond
        simp flip: res_def)
qed

lemma dx_ax_halves: "push_bit 16 (ucast (ucast (drop_bit 16 res) :: u16)) OR ucast (ucast res :: u16) = res"
  for res :: u32
  by (rule bit_word_eqI) (auto simp: bit_simps)

lemma imul_word_product: "is_signed_product_word s m (imul_word m s)"
proof -
  define res :: u32 where "res = scast (reg_x EAX m) * scast s"
  have r: "sint res = sint (reg_x EAX m) * sint s"
    using sint_product [of "reg_x EAX m" s, where 'b = 32] by (simp add: res_def)
  show ?thesis
    using r dx_ax_halves [of res]
    by (auto simp: imul_word_def is_signed_product_word_def dx_ax_def Let_def set_clear_cond
        simp flip: res_def)
qed


subsection \<open>Properties\<close>

text \<open>
  C24: Addition. For every machine and operands, \<open>add_byte\<close>, \<open>adc_byte\<close>, \<open>add_word\<close> and
  \<open>adc_word\<close> return the wrapped sum (with the carry flag for \<open>adc\<close>), CF is the unsigned and
  OF the signed overflow, AF the carry out of the low four bits, ZF and SF are those of the
  result, PF is the odd parity of its low byte, and nothing but these six flags changes.
\<close>

theorem addition_correct:
  fixes d s :: u8 and d' s' :: u16
  shows "is_sum d s False m (add_byte m d s) \<and>
    is_sum d s (ACCESS_FLAG F_CF m) m (adc_byte m d s) \<and>
    is_sum d' s' False m (add_word m d' s') \<and>
    is_sum d' s' (ACCESS_FLAG F_CF m) m (adc_word m d' s')"
  by (intro conjI add_byte_sum adc_byte_sum add_word_sum adc_word_sum)

text \<open>
  C25: Subtraction and comparison. \<open>sub\<close> and \<open>sbb\<close> return the wrapped difference (less the carry
  flag for \<open>sbb\<close>) and \<open>cmp\<close> returns its first operand with the flags of the difference: CF is
  the unsigned borrow, OF the signed overflow, AF the borrow into the low four bits; nothing but
  the six flags changes.
\<close>

theorem subtraction_correct:
  fixes d s :: u8 and d' s' :: u16 and d'' s'' :: u32
  shows "is_difference d s False m (sub_byte m d s) \<and>
    is_difference d s (ACCESS_FLAG F_CF m) m (sbb_byte m d s) \<and>
    is_difference d' s' False m (sub_word m d' s') \<and>
    is_difference d' s' (ACCESS_FLAG F_CF m) m (sbb_word m d' s') \<and>
    is_compare d s m (cmp_byte m d s) \<and>
    is_compare d' s' m (cmp_word m d' s') \<and>
    is_compare d'' s'' m (cmp_long m d'' s'')"
  by (intro conjI sub_byte_difference sbb_byte_difference sub_word_difference sbb_word_difference
      cmp_byte_compare cmp_word_compare cmp_long_compare)

text \<open>
  Increment, decrement and negation. \<open>inc\<close> and \<open>dec\<close> set the flags of adding or subtracting
  1 and leave CF as it was, though \<open>inc_byte\<close> and \<open>inc_word\<close> write the carry chain with
  different parentheses; \<open>neg_byte\<close> is the difference of 0 and its operand.
\<close>

theorem increment_decrement_correct:
  fixes d :: u8 and d' :: u16
  shows "is_increment d m (inc_byte m d) \<and>
    is_increment d' m (inc_word m d') \<and>
    is_decrement d m (dec_byte m d) \<and>
    is_decrement d' m (dec_word m d') \<and>
    is_difference 0 d False m (neg_byte m d)"
  by (intro conjI inc_byte_increment inc_word_increment dec_byte_decrement dec_word_decrement
      neg_byte_difference)

text \<open>
  The overflow flag of \<open>neg_word\<close> is wrong. It is taken from bits 6 and 7 of the borrow
  chain, so negating 0x8000, the one word whose negation overflows, leaves OF clear, and negating
  0x80 sets it.
\<close>

theorem neg_word_overflow_wrong:
  "\<not> fits TYPE(16) (- sint (0x8000 :: u16)) \<and> \<not> ACCESS_FLAG F_OF (snd (neg_word m 0x8000)) \<and>
   fits TYPE(16) (- sint (0x80 :: u16)) \<and> ACCESS_FLAG F_OF (snd (neg_word m 0x80))"
  using neg_word_flags [where m = m and s = "0x8000"] neg_word_flags [where m = m and s = "0x80"] by (simp add: fits_def)

text \<open>
  Logic. \<open>and\<close>, \<open>or\<close> and \<open>xor\<close> return the bitwise operation, \<open>test\<close> only its flags: CF and
  OF are cleared, ZF, SF and PF are those of the result and nothing else changes.
\<close>

theorem logic_correct:
  fixes d s :: u8 and d' s' :: u16
  shows "is_logic (d AND s) m (and_byte m d s) \<and>
    is_logic (d OR s) m (or_byte m d s) \<and>
    is_logic (d XOR s) m (xor_byte m d s) \<and>
    is_logic (d AND s) m (d AND s, test_byte m d s) \<and>
    is_logic (d' AND s') m (and_word m d' s') \<and>
    is_logic (d' OR s') m (or_word m d' s') \<and>
    is_logic (d' XOR s') m (xor_word m d' s') \<and>
    is_logic (d' AND s') m (d' AND s', test_word m d' s')"
  by (intro conjI logic_byte logic_word)

text \<open>
  C27: Rotations, as the code has them. \<open>rol\<close> and \<open>ror\<close> rotate a byte, word or long by the count modulo the width; CF
  is the bit that came around last, the low bit of the result of \<open>rol\<close> and the high bit of that of \<open>ror\<close>, and OF is
  that of a rotation by one and clear for other counts. A count that is a multiple of the width changes nothing, also
  not CF, which the processor sets when such a count is not 0.
\<close>

theorem rotations_correct:
  fixes d s :: u8 and d' s' :: u16 and d'' s'' :: u32
  shows "is_rotl d (unat s) m (rol_byte m d s) \<and>
    is_rotl d' (unat s') m (rol_word m d' s') \<and>
    is_rotl d'' (unat s'') m (rol_long m d'' s'') \<and>
    is_rotr d (unat s) m (ror_byte m d s) \<and>
    is_rotr d' (unat s') m (ror_word m d' s') \<and>
    is_rotr d'' (unat s'') m (ror_long m d'' s'')"
  by (intro conjI rol_byte_rotl rol_word_rotl rol_long_rotl ror_byte_rotr ror_word_rotr ror_long_rotr)

text \<open>
  Rotations through the carry. \<open>rcl\<close> of a byte or word and \<open>rcr\<close> of a byte, word or long
  rotate the operand with the carry flag above it, a word of 9, 17 or 33 bits, by any count; OF
  is defined for a count of one only. \<open>rcl\<close> of a long is wrong, see below. A shift of 32 bits by 32, which
  \<open>rcr_long\<close> does for a count of one and C leaves undefined, is 0 here.
\<close>

theorem carry_rotations_correct:
  fixes d s :: u8 and d' s' :: u16 and d'' s'' :: u32
  shows "is_rcl TYPE(9) d (unat s) m (rcl_byte m d s) \<and>
    is_rcl TYPE(17) d' (unat s') m (rcl_word m d' s') \<and>
    is_rcr TYPE(9) d (unat s) m (rcr_byte m d s) \<and>
    is_rcr TYPE(17) d' (unat s') m (rcr_word m d' s') \<and>
    is_rcr TYPE(33) d'' (unat s'') m (rcr_long m d'' s'')"
  by (intro conjI rcl_byte_rcl rcl_word_rcl rcr_byte_rcr rcr_word_rcr rcr_long_rcr)

text \<open>
  \<open>rcl_long\<close> loses the high half of its operand: it masks the shifted operand with 0xffff, so
  a rotation by one always gives a value below 0x10000, and 0x10000 rotates to 0 or 1.
\<close>

theorem rcl_long_loses_high_half:
  "unat (fst (rcl_long m d 1)) < 0x10000 \<and>
   fst (rcl_long m 0x10000 1) = (if ACCESS_FLAG F_CF m then 1 else 0)"
proof -
  have "unat ((res AND 0xffff) OR (if c then 1 else 0) :: u32) < 0x10000" for res c
  proof -
    have "(res AND 0xffff) OR (if c then 1 else 0) = take_bit 16 (res OR (if c then 1 else 0) :: u32)"
      by (rule bit_word_eqI) (auto simp: mask_numerals bit_simps)
    then show ?thesis using take_bit_nat_less_exp [of 16] by (simp only: unsigned_take_bit_eq) simp
  qed
  from this [of "d * 2" True] this [of "d * 2" False] show ?thesis
    by (simp add: rcl_long_def Let_def or_if)
qed

text \<open>
  C28: Shifts. \<open>shl\<close> and \<open>shr\<close> shift a byte, word or long by any count, CF is the last bit shifted
  out for counts below the width and clear from there on, ZF, SF and PF are those of the result; \<open>sar\<close> shifts arithmetically by the count modulo
  the width, and a count of 0 modulo the width leaves its operand and every flag.
\<close>

theorem shifts_correct:
  fixes d s :: u8 and d' s' :: u16 and d'' s'' :: u32
  shows "is_shl d (unat s) m (shl_byte m d s) \<and>
    is_shl d' (unat s') m (shl_word m d' s') \<and>
    is_shl d'' (unat s'') m (shl_long m d'' s'') \<and>
    is_shr d (unat s) m (shr_byte m d s) \<and>
    is_shr d' (unat s') m (shr_word m d' s') \<and>
    is_shr d'' (unat s'') m (shr_long m d'' s'') \<and>
    is_sar d (unat s mod 8) m (sar_byte m d s) \<and>
    is_sar d' (unat s' mod 16) m (sar_word m d' s') \<and>
    is_sar d'' (unat s'' mod 32) m (sar_long m d'' s'')"
  by (intro conjI shl_byte_shl shl_word_shl shl_long_shl shr_byte_shr shr_word_shr shr_long_shr
      sar_byte_sar sar_word_sar sar_long_sar)

text \<open>
  Multiplication. \<open>mul\<close> leaves the full unsigned product in AX or DX:AX with CF and OF set
  exactly when the high half is not 0; \<open>imul\<close> leaves the full signed product, and its CF and OF
  are clear when the high half is all zeros or all ones.
\<close>

theorem multiplication_correct:
  fixes s :: u8 and s' :: u16
  shows "is_product_byte s m (mul_byte m s) \<and>
    is_product_word s' m (mul_word m s') \<and>
    is_signed_product_byte s m (imul_byte m s) \<and>
    is_signed_product_word s' m (imul_word m s')"
  by (intro conjI mul_byte_product mul_word_product imul_byte_product imul_word_product)

text \<open>
  The carry of \<open>imul\<close> misses overflows: 64 times 2 is 128, which does not fit a signed byte,
  and CF and OF are clear.
\<close>

theorem imul_byte_carry_missed:
  "\<not> fits TYPE(8) (sint (0x40 :: u8) * sint (2 :: u8)) \<and>
   \<not> ACCESS_FLAG F_CF (imul_byte (set_x EAX 0x40 m) 2) \<and>
   \<not> ACCESS_FLAG F_OF (imul_byte (set_x EAX 0x40 m) 2)"
proof -
  have "reg_l EAX (set_x EAX 0x40 m) = 0x40" by (simp add: reg_l_reg_x)
  then have "reg_x EAX (imul_byte (set_x EAX 0x40 m) 2) = 0x80"
    by (simp add: imul_byte_def Let_def set_clear_cond)
  then show ?thesis
    using imul_byte_product [of 2 "set_x EAX 0x40 m"]
    by (simp add: fits_def is_signed_product_byte_def reg_h_reg_x)
qed

text \<open>
  C29: Unsigned division, for every operand. \<open>div_byte\<close> raises interrupt 0 and changes nothing else exactly when the divisor
  is 0 or the quotient is above 0xff, and otherwise leaves the quotient and the remainder in AL and AH. \<open>div_word\<close> does
  so with DX:AX, AX and DX and quotients above 0xffff, but for those it misses: a quotient of 2 to the 31st or above
  0xffff0000 raises no interrupt and is cut to 16 bits.
\<close>

theorem unsigned_division_correct:
  fixes s :: u8 and s' :: u16
  shows "is_division_byte s m (div_byte m s) \<and> is_division_word s' m (div_word m s')"
  using div_byte_division div_word_division by blast

text \<open>
  An overflow that is missed: 0x80000000 divided by 1 leaves 0 in AX. The code tests the unsigned quotient through the
  signed \<open>abs\<close>.
\<close>

theorem div_word_overflow_missed:
  "reg_x EAX (div_word (set_x EDX 0x8000 blank_machine) 1) = 0 \<and>
   intr (x86 (div_word (set_x EDX 0x8000 blank_machine) 1)) = 0"
proof -
  let ?m = "set_x EDX 0x8000 blank_machine"
  have d: "unat (dx_ax ?m) = 2 ^ 31" by (simp add: dx_ax_def)
  then have w: "unat (reg_x EAX (div_word ?m 1)) = 0"
    "same_but_flags ARITH_FLAGS (set_x EDX 0 (set_x EAX (of_nat (2 ^ 31)) ?m)) (div_word ?m 1)"
    using div_word_division [of 1 ?m] by (simp_all add: is_division_word_def missed_quotient_def Let_def)
  from w(2) have "x86 (div_word ?m 1) = (x86 (set_x EDX 0 (set_x EAX (of_nat (2 ^ 31)) ?m)))\<lparr>R_FLG := R_FLG (x86 (div_word ?m 1))\<rparr>"
    by (simp add: same_but_flags_def)
  then have "intr (x86 (div_word ?m 1)) = intr ((x86 (set_x EDX 0 (set_x EAX (of_nat (2 ^ 31)) ?m)))\<lparr>R_FLG := R_FLG (x86 (div_word ?m 1))\<rparr>)"
    by (rule arg_cong)
  then have "intr (x86 (div_word ?m 1)) = 0" by (simp add: set_x_def upd_def)
  then show ?thesis using w(1) by (simp add: unat_eq_0)
qed

text \<open>
  C30: Signed division. \<open>idiv_byte\<close> always, and \<open>idiv_word\<close> for all operands but one pair, DX:AX = 0x80000000 divided by
  -1, divides rounding towards 0, and raises interrupt 0, changing nothing else, when the divisor is 0
  or the quotient is beyond 0x7f or 0x7fff in either direction. The quotient of that pair, 2 to the 31st, does not fit
  the \<open>int\<close> it is computed in, which C leaves undefined.
\<close>

theorem signed_division_correct:
  fixes s :: u8 and s' :: u16
  shows "is_signed_division_byte s m (idiv_byte m s) \<and>
    (\<bar>sint (dx_ax m) sdiv sint s'\<bar> < 2 ^ 31 \<longrightarrow> is_signed_division_word s' m (idiv_word m s'))"
  using idiv_byte_division idiv_word_division by blast

lemma signed_division_correct_witness:
  "is_signed_division_word 0xfff6 (set_x EAX 1234 blank_machine) (idiv_word (set_x EAX 1234 blank_machine) 0xfff6)"
  using signed_division_correct [of 0 "set_x EAX 1234 blank_machine" "0xfff6"]
  by (simp add: dx_ax_def)

end
