(* ===== verification/X86_Mem.thy ===== *)
theory X86_Mem
  imports X86_Div_Spec
begin

text \<open>
  The memory and the ports the emulator sees (\<open>mem_read\<close>, \<open>mem_write\<close> and the \<open>sys_\<close>
  accessors of \<open>video/freebiosvga.c\<close>) and the stack operations of \<open>x86_prim_ops.c\<close>.
  Addresses from 0xa0000 to 0xfffff go to the bus, the others to the emulated RAM, which the
  machine this program runs on reads and writes in little-endian order. A RAM access out of
  range halts the emulator. Tracing is not modelled.
\<close>

definition on_adapter :: "u64 \<Rightarrow> bool" where
  "on_adapter addr \<longleftrightarrow> 0xa0000 \<le> addr \<and> addr \<le> 0xfffff"

text \<open>
  Two and four bytes put together, the lowest first: at 16 or 32 bits for a load of the processor,
  at 32 where C shifts and ors them in an \<open>int\<close>, which is then sign-extended to the
  \<open>unsigned long\<close> it is stored in.
\<close>

definition pack2 :: "u8 \<Rightarrow> u8 \<Rightarrow> 'a::len word" where
  "pack2 b0 b1 = ucast b0 OR push_bit 8 (ucast b1)"

definition pack4 :: "u8 \<Rightarrow> u8 \<Rightarrow> u8 \<Rightarrow> u8 \<Rightarrow> u32" where
  "pack4 b0 b1 b2 b3 =
     ucast b0 OR push_bit 8 (ucast b1) OR push_bit 16 (ucast b2) OR push_bit 24 (ucast b3)"

definition bus_readb :: "'b bus_ops \<Rightarrow> 'b sysenv \<Rightarrow> u64 \<Rightarrow> u8 \<times> 'b sysenv" where
  "bus_readb ops m addr = (let (v, b) = readb ops addr (bus m) in (v, m\<lparr>bus := b\<rparr>))"

definition mem_read :: "'b bus_ops \<Rightarrow> 'b sysenv \<Rightarrow> u64 \<Rightarrow> u64 \<Rightarrow> u64 \<times> 'b sysenv" where
  "mem_read ops m addr sz =
     (if on_adapter addr then
        if sz = 1 then let (v, m) = bus_readb ops m addr in (ucast v, m)
        else if sz = 2 then
          if addr AND 0x1 \<noteq> 0 then
            let (b0, m) = bus_readb ops m addr; (b1, m) = bus_readb ops m (addr + 1)
            in (scast (pack2 b0 b1 :: u32), m)
          else let (v, b) = readw ops addr (bus m) in (ucast v, m\<lparr>bus := b\<rparr>)
        else if sz = 4 then
          if addr AND 0x3 \<noteq> 0 then
            let (b0, m) = bus_readb ops m addr; (b1, m) = bus_readb ops m (addr + 1);
                (b2, m) = bus_readb ops m (addr + 2); (b3, m) = bus_readb ops m (addr + 3)
            in (scast (pack4 b0 b1 b2 b3), m)
          else let (v, b) = readl ops addr (bus m) in (ucast v, m\<lparr>bus := b\<rparr>)
        else (0, m)
      else if mem_size m - sz < addr then (0, halt_sys m)
      else if sz = 1 then (ucast (ram m addr), m)
      else if sz = 2 then
        if addr AND 0x1 \<noteq> 0 then (scast (pack2 (ram m addr) (ram m (addr + 1)) :: u32), m)
        else (ucast (pack2 (ram m addr) (ram m (addr + 1)) :: u16), m)
      else if sz = 4 then
        if addr AND 0x3 \<noteq> 0 then
          (scast (pack4 (ram m addr) (ram m (addr + 1)) (ram m (addr + 2)) (ram m (addr + 3))), m)
        else (ucast (pack4 (ram m addr) (ram m (addr + 1)) (ram m (addr + 2)) (ram m (addr + 3))), m)
      else (0, m))"

definition set_ram :: "u64 \<Rightarrow> u8 \<Rightarrow> 'b sysenv \<Rightarrow> 'b sysenv" where
  "set_ram a v m = m\<lparr>ram := (ram m)(a := v)\<rparr>"

definition bus_write :: "('b \<Rightarrow> 'b) \<Rightarrow> 'b sysenv \<Rightarrow> 'b sysenv" where
  "bus_write f m = m\<lparr>bus := f (bus m)\<rparr>"

definition byte_of :: "nat \<Rightarrow> u64 \<Rightarrow> u8" where
  "byte_of i val = ucast (drop_bit (8 * i) val)"

text \<open>A store through a \<open>u16\<close> pointer.\<close>

definition store_u16 :: "u64 \<Rightarrow> u64 \<Rightarrow> 'b sysenv \<Rightarrow> 'b sysenv" where
  "store_u16 addr val m = set_ram (addr + 1) (byte_of 1 val) (set_ram addr (byte_of 0 val) m)"

definition mem_write :: "'b bus_ops \<Rightarrow> 'b sysenv \<Rightarrow> u64 \<Rightarrow> u64 \<Rightarrow> u64 \<Rightarrow> 'b sysenv" where
  "mem_write ops m addr val sz =
     (if on_adapter addr then
        if sz = 1 then bus_write (writeb ops (ucast val) addr) m
        else if sz = 2 then
          if addr AND 0x1 \<noteq> 0 then
            let m = bus_write (writeb ops (byte_of 0 val) addr) m
            in bus_write (writeb ops (byte_of 1 val) (addr + 1)) m
          else bus_write (writew ops (ucast val) addr) m
        else if sz = 4 then
          if addr AND 0x3 \<noteq> 0 then
            let m = bus_write (writeb ops (byte_of 0 val) addr) m;
                m = bus_write (writeb ops (byte_of 1 val) (addr + 1)) m;
                m = bus_write (writeb ops (byte_of 2 val) (addr + 1)) m
            in bus_write (writeb ops (byte_of 3 val) (addr + 1)) m
          else bus_write (writel ops (ucast val) addr) m
        else m
      else if mem_size m \<le> addr then halt_sys m
      else if sz = 1 then set_ram addr (ucast val) m
      else if sz = 2 then
        if addr AND 0x1 \<noteq> 0 then
          set_ram (addr + 1) (byte_of 1 val) (set_ram addr (byte_of 0 val) m)
        else store_u16 addr val m
      else if sz = 4 then
        if addr AND 0x1 \<noteq> 0 then
          set_ram (addr + 3) (byte_of 3 val) (set_ram (addr + 2) (byte_of 2 val)
            (set_ram (addr + 1) (byte_of 1 val) (set_ram addr (byte_of 0 val) m)))
        else store_u16 addr val m
      else m)"

subsection \<open>The accessors\<close>

definition sys_rdb :: "'b bus_ops \<Rightarrow> 'b sysenv \<Rightarrow> u32 \<Rightarrow> u8 \<times> 'b sysenv" where
  "sys_rdb ops m addr = (let (v, m) = mem_read ops m (ucast addr) 1 in (ucast v, m))"

definition sys_rdw :: "'b bus_ops \<Rightarrow> 'b sysenv \<Rightarrow> u32 \<Rightarrow> u16 \<times> 'b sysenv" where
  "sys_rdw ops m addr = (let (v, m) = mem_read ops m (ucast addr) 2 in (ucast v, m))"

definition sys_rdl :: "'b bus_ops \<Rightarrow> 'b sysenv \<Rightarrow> u32 \<Rightarrow> u32 \<times> 'b sysenv" where
  "sys_rdl ops m addr = (let (v, m) = mem_read ops m (ucast addr) 4 in (ucast v, m))"

definition sys_wrb :: "'b bus_ops \<Rightarrow> 'b sysenv \<Rightarrow> u32 \<Rightarrow> u8 \<Rightarrow> 'b sysenv" where
  "sys_wrb ops m addr val = mem_write ops m (ucast addr) (ucast val) 1"

definition sys_wrw :: "'b bus_ops \<Rightarrow> 'b sysenv \<Rightarrow> u32 \<Rightarrow> u16 \<Rightarrow> 'b sysenv" where
  "sys_wrw ops m addr val = mem_write ops m (ucast addr) (ucast val) 2"

definition sys_wrl :: "'b bus_ops \<Rightarrow> 'b sysenv \<Rightarrow> u32 \<Rightarrow> u32 \<Rightarrow> 'b sysenv" where
  "sys_wrl ops m addr val = mem_write ops m (ucast addr) (ucast val) 4"

definition sys_inb :: "'b bus_ops \<Rightarrow> 'b sysenv \<Rightarrow> u32 \<Rightarrow> u8 \<times> 'b sysenv" where
  "sys_inb ops m port = (let (v, b) = inb ops port (bus m) in (v, m\<lparr>bus := b\<rparr>))"

definition sys_inw :: "'b bus_ops \<Rightarrow> 'b sysenv \<Rightarrow> u32 \<Rightarrow> u16 \<times> 'b sysenv" where
  "sys_inw ops m port = (let (v, b) = inw ops port (bus m) in (v, m\<lparr>bus := b\<rparr>))"

definition sys_inl :: "'b bus_ops \<Rightarrow> 'b sysenv \<Rightarrow> u32 \<Rightarrow> u32 \<times> 'b sysenv" where
  "sys_inl ops m port = (let (v, b) = inl ops port (bus m) in (v, m\<lparr>bus := b\<rparr>))"

definition sys_outb :: "'b bus_ops \<Rightarrow> 'b sysenv \<Rightarrow> u32 \<Rightarrow> u8 \<Rightarrow> 'b sysenv" where
  "sys_outb ops m port val = bus_write (outb ops val port) m"

definition sys_outw :: "'b bus_ops \<Rightarrow> 'b sysenv \<Rightarrow> u32 \<Rightarrow> u16 \<Rightarrow> 'b sysenv" where
  "sys_outw ops m port val = bus_write (outw ops val port) m"

definition sys_outl :: "'b bus_ops \<Rightarrow> 'b sysenv \<Rightarrow> u32 \<Rightarrow> u32 \<Rightarrow> 'b sysenv" where
  "sys_outl ops m port val = bus_write (outl ops val port) m"

subsection \<open>The stack\<close>

definition mem_access_word :: "'b bus_ops \<Rightarrow> 'b sysenv \<Rightarrow> u32 \<Rightarrow> u16 \<times> 'b sysenv" where
  "mem_access_word ops m addr = sys_rdw ops m addr"

text \<open>\<open>(segment << 4) + offset\<close>, in 32 bits.\<close>

definition seg_off :: "u16 \<Rightarrow> u16 \<Rightarrow> u32" where
  "seg_off segment offset = push_bit 4 (ucast segment) + ucast offset"

definition push_word :: "'b bus_ops \<Rightarrow> 'b sysenv \<Rightarrow> u16 \<Rightarrow> 'b sysenv" where
  "push_word ops m w =
     (let m = set_x ESP (reg_x ESP m - 2) m
      in sys_wrw ops m (seg_off (R_SS (x86 m)) (reg_x ESP m)) w)"

definition push_long :: "'b bus_ops \<Rightarrow> 'b sysenv \<Rightarrow> u32 \<Rightarrow> 'b sysenv" where
  "push_long ops m w =
     (let m = set_x ESP (reg_x ESP m - 4) m
      in sys_wrl ops m (seg_off (R_SS (x86 m)) (reg_x ESP m)) w)"

definition pop_word :: "'b bus_ops \<Rightarrow> 'b sysenv \<Rightarrow> u16 \<times> 'b sysenv" where
  "pop_word ops m =
     (let (res, m) = sys_rdw ops m (seg_off (R_SS (x86 m)) (reg_x ESP m))
      in (res, set_x ESP (reg_x ESP m + 2) m))"

definition pop_long :: "'b bus_ops \<Rightarrow> 'b sysenv \<Rightarrow> u32 \<times> 'b sysenv" where
  "pop_long ops m =
     (let (res, m) = sys_rdl ops m (seg_off (R_SS (x86 m)) (reg_x ESP m))
      in (res, set_x ESP (reg_x ESP m + 4) m))"

end
