(* ===== verification/X86_Mem_Spec.thy ===== *)
theory X86_Mem_Spec
  imports X86_Mem
begin

text \<open>
  Memory as a store of cells: the laws of a word and a byte cell in RAM (locale \<open>cell_store\<close>,
  interpreted on \<open>sys_rdw\<close> and \<open>sys_rdb\<close>), the stack round trip that rests on them, and the
  stores that break them.
\<close>

text \<open>
  The contract the stack and the data accesses rely on: where a cell is good, a read gives what
  was written last and changes nothing.
\<close>

locale cell_store =
  fixes rd :: "'m \<Rightarrow> 'a \<Rightarrow> 'v \<times> 'm"
    and wr :: "'m \<Rightarrow> 'a \<Rightarrow> 'v \<Rightarrow> 'm"
    and good :: "'m \<Rightarrow> 'a \<Rightarrow> bool"
  assumes rd_wr: "good m a \<Longrightarrow> fst (rd (wr m a v) a) = v"
    and rd_pure: "good m a \<Longrightarrow> snd (rd m a) = m"
    and good_wr: "good m a \<Longrightarrow> good (wr m b v) a"
begin

lemma rd_after_wr: "good m a \<Longrightarrow> rd (wr m a v) a = (v, wr m a v)"
  using rd_wr [of m a v] rd_pure [of "wr m a v" a] good_wr [of m a a v] by (simp add: prod_eq_iff)

lemma wr_rd: "good m a \<Longrightarrow> rd m a = (v, m') \<Longrightarrow> m' = m"
  using rd_pure [of m a] by simp

end

definition good_cell :: "u64 \<Rightarrow> 'b sysenv \<Rightarrow> u32 \<Rightarrow> bool" where
  "good_cell sz m a \<longleftrightarrow> \<not> on_adapter (ucast a) \<and> unat sz \<le> unat (mem_size m) \<and>
     unat a + unat sz \<le> unat (mem_size m)"

lemma good_cell_range:
  assumes "good_cell sz m a" "0 < unat sz"
  shows "\<not> mem_size m - sz < ucast a" "\<not> mem_size m \<le> ucast a"
proof -
  have u: "unat (ucast a :: u64) = unat a" by (rule unat_wide) simp
  have "unat (mem_size m - sz) = unat (mem_size m) - unat sz"
    using assms(1) by (intro unat_sub) (simp add: good_cell_def word_le_nat_alt)
  moreover have "unat a + unat sz \<le> unat (mem_size m)" using assms(1) by (simp add: good_cell_def)
  ultimately show "\<not> mem_size m - sz < ucast a"
    unfolding word_less_nat_alt u by linarith
  show "\<not> mem_size m \<le> ucast a"
    using assms by (simp add: word_le_nat_alt u good_cell_def)
qed

lemma narrow_sext: "(ucast (scast x :: u64) :: u16) = ucast x" "(ucast (scast x :: u64) :: u32) = x"
  for x :: u32
proof -
  show "(ucast (scast x :: u64) :: u16) = ucast x"
    by (rule bit_word_eqI) (auto simp: bit_simps min_def)
  show "(ucast (scast x :: u64) :: u32) = x"
  proof (rule bit_word_eqI)
    fix n
    assume "n < LENGTH(32)"
    then have "min 31 n = n" by simp
    then show "bit (ucast (scast x :: u64) :: u32) n = bit x n"
      using \<open>n < LENGTH(32)\<close> by (simp add: bit_simps)
  qed
qed

lemma pack_bytes:
  "pack2 (byte_of 0 (ucast w)) (byte_of 1 (ucast w)) = w"
  "(ucast (pack2 b0 b1 :: u32) :: u16) = pack2 b0 b1"
  "pack4 (byte_of 0 (ucast v)) (byte_of 1 (ucast v)) (byte_of 2 (ucast v)) (byte_of 3 (ucast v)) = v"
  for w :: u16 and v :: u32
  by (rule bit_word_eqI; auto simp: pack2_def pack4_def byte_of_def bit_simps)+

lemma neighbours: "a + 1 \<noteq> a" "a + 2 \<noteq> a" "a + 3 \<noteq> a" "a + 2 \<noteq> a + 1" "a + 3 \<noteq> a + 1" "a + 3 \<noteq> a + 2"
  for a :: u64
  by simp_all

text \<open>Reads and writes of a good cell, without the cases.\<close>

lemma sys_rdw_good: "good_cell 2 m a \<Longrightarrow>
    sys_rdw ops m a = (pack2 (ram m (ucast a)) (ram m (ucast a + 1)), m)"
  using good_cell_range [of 2 m a]
  by (simp add: sys_rdw_def mem_read_def good_cell_def narrow_sext pack_bytes)

lemma sys_wrw_good: "good_cell 2 m a \<Longrightarrow> sys_wrw ops m a w =
    set_ram (ucast a + 1) (byte_of 1 (ucast w)) (set_ram (ucast a) (byte_of 0 (ucast w)) m)"
  using good_cell_range [of 2 m a]
  by (simp add: sys_wrw_def mem_write_def good_cell_def store_u16_def)

lemma sys_rdl_good: "good_cell 4 m a \<Longrightarrow> sys_rdl ops m a =
    (pack4 (ram m (ucast a)) (ram m (ucast a + 1)) (ram m (ucast a + 2)) (ram m (ucast a + 3)), m)"
  using good_cell_range [of 4 m a]
  by (simp add: sys_rdl_def mem_read_def good_cell_def narrow_sext)

lemma sys_rdb_good: "good_cell 1 m a \<Longrightarrow> sys_rdb ops m a = (ram m (ucast a), m)"
  using good_cell_range [of 1 m a]
  by (simp add: sys_rdb_def mem_read_def good_cell_def)

lemma sys_wrb_good: "good_cell 1 m a \<Longrightarrow> sys_wrb ops m a v = set_ram (ucast a) v m"
  using good_cell_range [of 1 m a]
  by (simp add: sys_wrb_def mem_write_def good_cell_def)

lemma set_ram_sel [simp]: "x86 (set_ram a v m) = x86 m" "mem_size (set_ram a v m) = mem_size m"
  "bus (set_ram a v m) = bus m" "ram (set_ram a v m) b = (if b = a then v else ram m b)"
  by (simp_all add: set_ram_def)

lemma good_set_ram [simp]: "good_cell sz (set_ram b v m) a = good_cell sz m a"
  by (simp add: good_cell_def)

lemma mem_size_mem_write: "mem_size (mem_write ops m b v sz) = mem_size m"
  by (simp add: mem_write_def bus_write_def store_u16_def halt_sys_def Let_def)

interpretation words: cell_store "sys_rdw ops" "sys_wrw ops" "good_cell 2" for ops :: "'b bus_ops"
proof
  fix m :: "'b sysenv" and a b and v :: u16
  assume g: "good_cell 2 m a"
  show "snd (sys_rdw ops m a) = m" using g by (simp add: sys_rdw_good)
  show "good_cell 2 (sys_wrw ops m b v) a"
    using g by (simp add: good_cell_def sys_wrw_def mem_size_mem_write)
  show "fst (sys_rdw ops (sys_wrw ops m a v) a) = v"
    using g by (simp add: sys_wrw_good sys_rdw_good neighbours
        pack_bytes [unfolded One_nat_def])
qed

interpretation bytes: cell_store "sys_rdb ops" "sys_wrb ops" "good_cell 1" for ops :: "'b bus_ops"
proof
  fix m :: "'b sysenv" and a b and v :: u8
  assume g: "good_cell 1 m a"
  show "snd (sys_rdb ops m a) = m" using g by (simp add: sys_rdb_good)
  show "good_cell 1 (sys_wrb ops m b v) a"
    using g by (simp add: good_cell_def sys_wrb_def mem_size_mem_write)
  show "fst (sys_rdb ops (sys_wrb ops m a v) a) = v"
    using g by (simp add: sys_wrb_good sys_rdb_good)
qed


lemma good_cell_upd [simp]: "good_cell sz (upd f m) a = good_cell sz m a"
  "good_cell sz (set_x g v m) a = good_cell sz m a"
  by (simp_all add: good_cell_def set_x_def)

lemma ram_upd [simp]: "ram (set_x g v m) = ram m" "mem_size (set_x g v m) = mem_size m"
  "bus (set_x g v m) = bus m"
  by (simp_all add: set_x_def)

lemma put_reg_twice: "put_reg g v (put_reg g w r) = put_reg g v r"
  by (cases g) simp_all

lemma put_reg_same: "put_reg g (get_reg g r) r = r"
  by (cases g) simp_all

lemma halves_same: "((v AND 0xffff0000) OR ucast (w :: u16)) AND 0xffff0000 = v AND 0xffff0000"
  "(v AND 0xffff0000) OR ucast (ucast v :: u16) = v" for v :: u32
  unfolding u32_masks by (rule bit_word_eqI; auto simp: bit_simps dest: bit_imp_le_length)+

lemma set_x_back: "x86 (set_x g (reg_x g m) (set_x g v m)) = x86 m"
  by (simp add: set_x_def reg_x_def put_reg_twice halves_same put_reg_same)

lemma segs_set_x [simp]: "R_SS (x86 (set_x g v m)) = R_SS (x86 m)" "R_CS (x86 (set_x g v m)) = R_CS (x86 m)"
  "R_DS (x86 (set_x g v m)) = R_DS (x86 m)" "R_ES (x86 (set_x g v m)) = R_ES (x86 m)"
  "R_FLG (x86 (set_x g v m)) = R_FLG (x86 m)" "mode (x86 (set_x g v m)) = mode (x86 m)"
  "intno (x86 (set_x g v m)) = intno (x86 m)"
  by (simp_all add: set_x_def)

text \<open>The cell the next word is pushed to.\<close>

definition next_top :: "nat \<Rightarrow> 'b sysenv \<Rightarrow> u32" where
  "next_top n m = seg_off (R_SS (x86 m)) (reg_x ESP m - of_nat n)"

text \<open>
  Stack round trip. When the two bytes under the top of the stack are in the RAM,
  \<open>pop_word\<close> after \<open>push_word\<close> returns the word pushed, restores every register and the stack
  pointer, whatever its wrap-around, and changes no byte but those two.
\<close>

theorem push_pop_word:
  assumes "good_cell 2 m (next_top 2 m)"
  shows "fst (pop_word ops (push_word ops m w)) = w \<and>
    x86 (snd (pop_word ops (push_word ops m w))) = x86 m \<and>
    bus (snd (pop_word ops (push_word ops m w))) = bus m \<and>
    (\<forall>b. b \<noteq> ucast (next_top 2 m) \<and> b \<noteq> ucast (next_top 2 m) + 1 \<longrightarrow>
       ram (snd (pop_word ops (push_word ops m w))) b = ram m b)"
proof -
  define m1 where "m1 = set_x ESP (reg_x ESP m - 2) m"
  have g: "good_cell 2 m1 (next_top 2 m)" using assms by (simp add: m1_def)
  have push: "push_word ops m w = sys_wrw ops m1 (next_top 2 m) w"
    by (simp add: push_word_def next_top_def m1_def Let_def)
  have x: "x86 (push_word ops m w) = x86 m1" "bus (push_word ops m w) = bus m"
    unfolding push sys_wrw_good [OF g] by (simp_all add: m1_def)
  have r: "reg_x ESP (push_word ops m w) = reg_x ESP m - 2"
  proof -
    have "reg_x ESP (push_word ops m w) = reg_x ESP m1" by (simp only: reg_x_def x(1))
    then show ?thesis by (simp add: m1_def)
  qed
  have "sys_rdw ops (push_word ops m w) (next_top 2 m) = (w, push_word ops m w)"
    unfolding push by (rule words.rd_after_wr [OF g])
  moreover have "seg_off (R_SS (x86 (push_word ops m w))) (reg_x ESP (push_word ops m w)) = next_top 2 m"
    by (simp add: r x next_top_def m1_def)
  ultimately have pop: "pop_word ops (push_word ops m w) =
      (w, set_x ESP (reg_x ESP m) (push_word ops m w))"
    by (simp add: pop_word_def r)
  have "x86 (set_x ESP (reg_x ESP m) (push_word ops m w)) = x86 (set_x ESP (reg_x ESP m) m1)"
    by (simp add: set_x_def x)
  also have "\<dots> = x86 m" unfolding m1_def by (rule set_x_back)
  finally show ?thesis
    unfolding pop using x sys_wrw_good [OF g, of ops w] by (simp add: push m1_def)
qed


lemma push_pop_word_witness:
  "fst (pop_word null_bus (push_word null_bus (set_x ESP 0x100 blank_machine) 0xbeef)) = 0xbeef"
  using push_pop_word [of "set_x ESP 0x100 blank_machine" null_bus "0xbeef"]
  by (simp add: next_top_def good_cell_def seg_off_def on_adapter_def blank_segs)

text \<open>
  A 32-bit store keeps only its low half at an even address. \<open>mem_write\<close> tests the address
  for being odd, not for being a multiple of four, and stores the aligned value through a
  16-bit pointer, so reading the long back gives the low half of the value above which the old
  high half still stands; at an odd address the long is stored whole.
\<close>

theorem long_store_halves:
  assumes "good_cell 4 m a"
  shows "fst (sys_rdl ops (sys_wrl ops m a v) a) =
    (if bit a 0 then v else (v AND 0xffff) OR (fst (sys_rdl ops m a) AND 0xffff0000))"
proof -
  have o: "(ucast a :: u64) AND 0x1 = 0 \<longleftrightarrow> \<not> bit a 0"
    by (simp add: test_bit bit_ucast_iff)
  have w: "sys_wrl ops m a v = (if bit a 0 then
      set_ram (ucast a + 3) (byte_of 3 (ucast v)) (set_ram (ucast a + 2) (byte_of 2 (ucast v))
        (set_ram (ucast a + 1) (byte_of 1 (ucast v)) (set_ram (ucast a) (byte_of 0 (ucast v)) m)))
      else store_u16 (ucast a) (ucast v) m)"
    using good_cell_range [OF assms] assms by (simp add: sys_wrl_def mem_write_def good_cell_def o)
  have low: "pack4 (byte_of 0 (ucast v)) (byte_of 1 (ucast v)) b2 b3 =
      (v AND 0xffff) OR (pack4 b0 b1 b2 b3 AND 0xffff0000)" for b0 b1 b2 b3
    unfolding u32_masks pack4_def byte_of_def
    by (rule bit_word_eqI) (auto simp: bit_simps dest: bit_imp_le_length)
  have g: "good_cell 4 (sys_wrl ops m a v) a"
    using assms by (simp add: good_cell_def sys_wrl_def mem_size_mem_write)
  show ?thesis
    unfolding sys_rdl_good [OF g] sys_rdl_good [OF assms] unfolding w
    using low by (simp add: store_u16_def neighbours pack_bytes [unfolded One_nat_def])
qed

lemma long_store_halves_witness:
  "fst (sys_rdl null_bus (sys_wrl null_bus blank_machine 0x1000 0x12345678) 0x1000) = 0x5678"
  using long_store_halves [of blank_machine "0x1000" null_bus "0x12345678"]
  by (simp add: good_cell_def on_adapter_def sys_rdl_good pack4_def)

text \<open>
  A word read out of the RAM halts the emulator and gives 0, and so does any read out of range;
  but a word written to the last byte of the RAM is not refused, and its high byte goes to the
  byte after the end, because \<open>mem_write\<close> compares the address without the size.
\<close>

theorem word_at_ram_end:
  assumes "\<not> on_adapter (ucast a)" "(ucast a :: u64) = mem_size m - 1" "2 \<le> mem_size m"
  shows "sys_rdw ops m a = (0, halt_sys m) \<and>
    ram (sys_wrw ops m a w) (mem_size m) = ucast (drop_bit 8 w) \<and>
    intr (x86 (sys_wrw ops m a w)) = intr (x86 m)"
proof -
  have "mem_size m - 2 < mem_size m - 1" "\<not> mem_size m \<le> mem_size m - 1"
    using assms(3) by unat_arith+
  moreover have "byte_of 1 (ucast w) = ucast (drop_bit 8 w)"
    by (rule bit_word_eqI) (auto simp: byte_of_def bit_simps)
  ultimately show ?thesis using assms(1,2)
    by (simp add: sys_rdw_def mem_read_def sys_wrw_def mem_write_def store_u16_def)
qed

lemma word_at_ram_end_witness:
  "fst (sys_rdw null_bus (blank_machine\<lparr>mem_size := 0x10000\<rparr>) 0xffff) = 0 \<and>
   ram (sys_wrw null_bus (blank_machine\<lparr>mem_size := 0x10000\<rparr>) 0xffff 0xabcd) 0x10000 = 0xab"
  using word_at_ram_end [of "0xffff" "blank_machine\<lparr>mem_size := 0x10000\<rparr>" null_bus "0xabcd"]
  by (simp add: on_adapter_def)

end
