(* ===== verification/X86_Decode.thy ===== *)
theory X86_Decode
  imports X86_Mem_Spec
begin

text \<open>
  Instruction decoding: \<open>x86_decode.c\<close> and the string input and output of
  \<open>x86_prim_ops.c\<close>. A pointer into the register file is a value of \<open>reg8\<close>, \<open>reg32\<close> or
  \<open>seg_reg\<close>; \<open>None\<close> is the null pointer returned after halting. An \<open>int\<close> argument is a HOL
  integer. Tracing and the checks of \<open>DEBUG\<close> builds are not modelled.
\<close>

subsection \<open>Interrupts\<close>

definition x86_intr_handle :: "'b bus_ops \<Rightarrow> 'b sysenv \<Rightarrow> 'b sysenv" where
  "x86_intr_handle ops m =
     (if intr (x86 m) AND INTR_SYNCH \<noteq> 0 then
        let n = intno (x86 m);
            m = push_word ops m (ucast (R_FLG (x86 m)));
            m = CLEAR_FLAG F_IF m;
            m = CLEAR_FLAG F_TF m;
            m = push_word ops m (R_CS (x86 m));
            (tmp, m) = mem_access_word ops m (ucast n * 4);
            m = upd (\<lambda>r. r\<lparr>R_CS := tmp\<rparr>) m;
            m = push_word ops m (reg_x EIP m);
            (tmp, m) = mem_access_word ops m (ucast n * 4 + 2)
        in set_x EIP tmp m
      else m)"

text \<open>
  What the main loop \<open>x86_exec\<close> does before it fetches an instruction: \<open>None\<close> is its return.
\<close>

definition x86_exec_intr :: "'b bus_ops \<Rightarrow> 'b sysenv \<Rightarrow> 'b sysenv option" where
  "x86_exec_intr ops m =
     (if intr (x86 m) \<noteq> 0 then
        if intr (x86 m) AND INTR_HALTED \<noteq> 0 then None
        else if (intr (x86 m) AND INTR_SYNCH \<noteq> 0 \<and> (intno (x86 m) = 0 \<or> intno (x86 m) = 2)) \<or>
             \<not> ACCESS_FLAG F_IF m
        then Some (x86_intr_handle ops m)
        else Some m
      else Some m)"

subsection \<open>Fetching\<close>

text \<open>A byte at \<open>CS:IP++\<close>.\<close>

definition fetch_byte_imm :: "'b bus_ops \<Rightarrow> 'b sysenv \<Rightarrow> u8 \<times> 'b sysenv" where
  "fetch_byte_imm ops m =
     (let addr = seg_off (R_CS (x86 m)) (reg_x EIP m);
          m = set_x EIP (reg_x EIP m + 1) m
      in sys_rdb ops m addr)"

definition fetch_word_imm :: "'b bus_ops \<Rightarrow> 'b sysenv \<Rightarrow> u16 \<times> 'b sysenv" where
  "fetch_word_imm ops m =
     (let (fetched, m) = sys_rdw ops m (seg_off (R_CS (x86 m)) (reg_x EIP m))
      in (fetched, set_x EIP (reg_x EIP m + 2) m))"

definition fetch_long_imm :: "'b bus_ops \<Rightarrow> 'b sysenv \<Rightarrow> u32 \<times> 'b sysenv" where
  "fetch_long_imm ops m =
     (let (fetched, m) = sys_rdl ops m (seg_off (R_CS (x86 m)) (reg_x EIP m))
      in (fetched, set_x EIP (reg_x EIP m + 4) m))"

text \<open>The fields \<open>mod\<close>, \<open>regh\<close> and \<open>regl\<close> of the byte after an instruction.\<close>

definition fetch_decode_modrm :: "'b bus_ops \<Rightarrow> 'b sysenv \<Rightarrow> (u16 \<times> u16 \<times> u16) \<times> 'b sysenv" where
  "fetch_decode_modrm ops m =
     (let addr = seg_off (R_CS (x86 m)) (reg_x EIP m);
          m = set_x EIP (reg_x EIP m + 1) m;
          (fetched, m) = sys_rdb ops m addr
      in ((ucast (drop_bit 6 fetched AND 0x03), ucast (drop_bit 3 fetched AND 0x07),
           ucast (drop_bit 0 fetched AND 0x07)), m))"

subsection \<open>Registers\<close>

datatype reg8 = Lo reg32 | Hi reg32

datatype seg_reg = ES | CS | SS | DS

definition decode_rm_byte_register :: "'b sysenv \<Rightarrow> int \<Rightarrow> reg8 option \<times> 'b sysenv" where
  "decode_rm_byte_register m reg =
     (if reg = 0 then (Some (Lo EAX), m)
      else if reg = 1 then (Some (Lo ECX), m)
      else if reg = 2 then (Some (Lo EDX), m)
      else if reg = 3 then (Some (Lo EBX), m)
      else if reg = 4 then (Some (Hi EAX), m)
      else if reg = 5 then (Some (Hi ECX), m)
      else if reg = 6 then (Some (Hi EDX), m)
      else if reg = 7 then (Some (Hi EBX), m)
      else (None, halt_sys m))"

definition decode_rm_word_register :: "'b sysenv \<Rightarrow> int \<Rightarrow> reg32 option \<times> 'b sysenv" where
  "decode_rm_word_register m reg =
     (if reg = 0 then (Some EAX, m)
      else if reg = 1 then (Some ECX, m)
      else if reg = 2 then (Some EDX, m)
      else if reg = 3 then (Some EBX, m)
      else if reg = 4 then (Some ESP, m)
      else if reg = 5 then (Some EBP, m)
      else if reg = 6 then (Some ESI, m)
      else if reg = 7 then (Some EDI, m)
      else (None, halt_sys m))"

definition decode_rm_long_register :: "'b sysenv \<Rightarrow> int \<Rightarrow> reg32 option \<times> 'b sysenv" where
  "decode_rm_long_register m reg =
     (if reg = 0 then (Some EAX, m)
      else if reg = 1 then (Some ECX, m)
      else if reg = 2 then (Some EDX, m)
      else if reg = 3 then (Some EBX, m)
      else if reg = 4 then (Some ESP, m)
      else if reg = 5 then (Some EBP, m)
      else if reg = 6 then (Some ESI, m)
      else if reg = 7 then (Some EDI, m)
      else (None, halt_sys m))"

definition decode_rm_seg_register :: "'b sysenv \<Rightarrow> int \<Rightarrow> seg_reg option \<times> 'b sysenv" where
  "decode_rm_seg_register m reg =
     (if reg = 0 then (Some ES, m)
      else if reg = 1 then (Some CS, m)
      else if reg = 2 then (Some SS, m)
      else if reg = 3 then (Some DS, m)
      else (None, halt_sys m))"

subsection \<open>Effective addresses\<close>

text \<open>\<open>(s16) x\<close> and \<open>(s8) x\<close> promoted to \<open>int\<close>, and the mark that an address is relative to SS.\<close>

definition s16 :: "u16 \<Rightarrow> u32" where "s16 x = scast x"

definition s8 :: "u8 \<Rightarrow> u32" where "s8 x = scast x"

definition mark_ss :: "'b sysenv \<Rightarrow> 'b sysenv" where
  "mark_ss m = upd (\<lambda>r. r\<lparr>mode := mode r OR SYSMODE_SEG_DS_SS\<rparr>) m"

definition decode_rm00_address :: "'b bus_ops \<Rightarrow> 'b sysenv \<Rightarrow> int \<Rightarrow> u16 \<times> 'b sysenv" where
  "decode_rm00_address ops m rm =
     (if rm = 0 then (ucast (s16 (reg_x EBX m) + s16 (reg_x ESI m)), m)
      else if rm = 1 then (ucast (s16 (reg_x EBX m) + s16 (reg_x EDI m)), m)
      else if rm = 2 then (ucast (s16 (reg_x EBP m) + s16 (reg_x ESI m)), mark_ss m)
      else if rm = 3 then (ucast (s16 (reg_x EBP m) + s16 (reg_x EDI m)), mark_ss m)
      else if rm = 4 then (reg_x ESI m, m)
      else if rm = 5 then (reg_x EDI m, m)
      else if rm = 6 then fetch_word_imm ops m
      else if rm = 7 then (reg_x EBX m, m)
      else (0, halt_sys m))"

definition decode_rm01_address :: "'b bus_ops \<Rightarrow> 'b sysenv \<Rightarrow> int \<Rightarrow> u16 \<times> 'b sysenv" where
  "decode_rm01_address ops m rm =
     (let (d, m) = fetch_byte_imm ops m; displacement = s8 d in
      if rm = 0 then (ucast (s16 (reg_x EBX m) + s16 (reg_x ESI m) + displacement), m)
      else if rm = 1 then (ucast (s16 (reg_x EBX m) + s16 (reg_x EDI m) + displacement), m)
      else if rm = 2 then (ucast (s16 (reg_x EBP m) + s16 (reg_x ESI m) + displacement), mark_ss m)
      else if rm = 3 then (ucast (s16 (reg_x EBP m) + s16 (reg_x EDI m) + displacement), mark_ss m)
      else if rm = 4 then (ucast (s16 (reg_x ESI m) + displacement), m)
      else if rm = 5 then (ucast (s16 (reg_x EDI m) + displacement), m)
      else if rm = 6 then (ucast (s16 (reg_x EBP m) + displacement), mark_ss m)
      else if rm = 7 then (ucast (s16 (reg_x EBX m) + displacement), m)
      else (0, halt_sys m))"

definition decode_rm10_address :: "'b bus_ops \<Rightarrow> 'b sysenv \<Rightarrow> int \<Rightarrow> u16 \<times> 'b sysenv" where
  "decode_rm10_address ops m rm =
     (let (d, m) = fetch_word_imm ops m; displacement = s16 d in
      if rm = 0 then (ucast (s16 (reg_x EBX m) + s16 (reg_x ESI m) + displacement), m)
      else if rm = 1 then (ucast (s16 (reg_x EBX m) + s16 (reg_x EDI m) + displacement), m)
      else if rm = 2 then (ucast (s16 (reg_x EBP m) + s16 (reg_x ESI m) + displacement), mark_ss m)
      else if rm = 3 then (ucast (s16 (reg_x EBP m) + s16 (reg_x EDI m) + displacement), mark_ss m)
      else if rm = 4 then (ucast (s16 (reg_x ESI m) + displacement), m)
      else if rm = 5 then (ucast (s16 (reg_x EDI m) + displacement), m)
      else if rm = 6 then (ucast (s16 (reg_x EBP m) + displacement), mark_ss m)
      else if rm = 7 then (ucast (s16 (reg_x EBX m) + displacement), m)
      else (0, halt_sys m))"

subsection \<open>Data accesses\<close>

text \<open>
  The switch on the segment bits of the mode word that every data access starts with: the segment
  register it chooses, \<open>None\<close> for more than one override.
\<close>

definition data_segment :: "'b sysenv \<Rightarrow> u16 option" where
  "data_segment m =
     (let sel = mode (x86 m) AND SYSMODE_SEGMASK in
      if sel = 0 then Some (R_DS (x86 m))
      else if sel = SYSMODE_SEG_DS_SS then Some (R_SS (x86 m))
      else if sel = SYSMODE_SEGOVR_CS \<or> sel = SYSMODE_SEGOVR_CS OR SYSMODE_SEG_DS_SS
      then Some (R_CS (x86 m))
      else if sel = SYSMODE_SEGOVR_DS \<or> sel = SYSMODE_SEGOVR_DS OR SYSMODE_SEG_DS_SS
      then Some (R_DS (x86 m))
      else if sel = SYSMODE_SEGOVR_ES \<or> sel = SYSMODE_SEGOVR_ES OR SYSMODE_SEG_DS_SS
      then Some (R_ES (x86 m))
      else if sel = SYSMODE_SEGOVR_SS \<or> sel = SYSMODE_SEGOVR_SS OR SYSMODE_SEG_DS_SS
      then Some (R_SS (x86 m))
      else None)"

definition fetch_data_byte :: "'b bus_ops \<Rightarrow> 'b sysenv \<Rightarrow> u16 \<Rightarrow> u8 \<times> 'b sysenv" where
  "fetch_data_byte ops m offset =
     (case data_segment m of
        Some segment \<Rightarrow> sys_rdb ops m (seg_off segment offset)
      | None \<Rightarrow> (0, halt_sys m))"

definition fetch_data_byte_abs :: "'b bus_ops \<Rightarrow> 'b sysenv \<Rightarrow> u16 \<Rightarrow> u16 \<Rightarrow> u8 \<times> 'b sysenv" where
  "fetch_data_byte_abs ops m segment offset = sys_rdb ops m (seg_off segment offset)"

definition store_data_byte :: "'b bus_ops \<Rightarrow> 'b sysenv \<Rightarrow> u16 \<Rightarrow> u8 \<Rightarrow> 'b sysenv" where
  "store_data_byte ops m offset val =
     (let (segment, m) = (case data_segment m of Some segment \<Rightarrow> (segment, m) | None \<Rightarrow> (0, halt_sys m))
      in sys_wrb ops m (seg_off segment offset) val)"

definition store_data_byte_abs :: "'b bus_ops \<Rightarrow> 'b sysenv \<Rightarrow> u16 \<Rightarrow> u16 \<Rightarrow> u8 \<Rightarrow> 'b sysenv" where
  "store_data_byte_abs ops m segment offset val = sys_wrb ops m (seg_off segment offset) val"

definition fetch_data_word :: "'b bus_ops \<Rightarrow> 'b sysenv \<Rightarrow> u16 \<Rightarrow> u16 \<times> 'b sysenv" where
  "fetch_data_word ops m offset =
     (case data_segment m of
        Some segment \<Rightarrow> sys_rdw ops m (seg_off segment offset)
      | None \<Rightarrow> (0, halt_sys m))"

definition fetch_data_word_abs :: "'b bus_ops \<Rightarrow> 'b sysenv \<Rightarrow> u16 \<Rightarrow> u16 \<Rightarrow> u16 \<times> 'b sysenv" where
  "fetch_data_word_abs ops m segment offset = sys_rdw ops m (seg_off segment offset)"

definition store_data_word :: "'b bus_ops \<Rightarrow> 'b sysenv \<Rightarrow> u16 \<Rightarrow> u16 \<Rightarrow> 'b sysenv" where
  "store_data_word ops m offset val =
     (let (segment, m) = (case data_segment m of Some segment \<Rightarrow> (segment, m) | None \<Rightarrow> (0, halt_sys m))
      in sys_wrw ops m (seg_off segment offset) val)"

definition store_data_word_abs :: "'b bus_ops \<Rightarrow> 'b sysenv \<Rightarrow> u16 \<Rightarrow> u16 \<Rightarrow> u16 \<Rightarrow> 'b sysenv" where
  "store_data_word_abs ops m segment offset val = sys_wrw ops m (seg_off segment offset) val"

definition fetch_data_long :: "'b bus_ops \<Rightarrow> 'b sysenv \<Rightarrow> u16 \<Rightarrow> u32 \<times> 'b sysenv" where
  "fetch_data_long ops m offset =
     (case data_segment m of
        Some segment \<Rightarrow> sys_rdl ops m (seg_off segment offset)
      | None \<Rightarrow> (0, halt_sys m))"

definition fetch_data_long_abs :: "'b bus_ops \<Rightarrow> 'b sysenv \<Rightarrow> u16 \<Rightarrow> u16 \<Rightarrow> u32 \<times> 'b sysenv" where
  "fetch_data_long_abs ops m segment offset = sys_rdl ops m (seg_off segment offset)"

definition store_data_long :: "'b bus_ops \<Rightarrow> 'b sysenv \<Rightarrow> u16 \<Rightarrow> u32 \<Rightarrow> 'b sysenv" where
  "store_data_long ops m offset val =
     (let (segment, m) = (case data_segment m of Some segment \<Rightarrow> (segment, m) | None \<Rightarrow> (0, halt_sys m))
      in sys_wrl ops m (seg_off segment offset) val)"

definition store_data_long_abs :: "'b bus_ops \<Rightarrow> 'b sysenv \<Rightarrow> u16 \<Rightarrow> u16 \<Rightarrow> u32 \<Rightarrow> 'b sysenv" where
  "store_data_long_abs ops m segment offset val = sys_wrl ops m (seg_off segment offset) val"

subsection \<open>String input and output\<close>

definition reps :: "'b sysenv \<Rightarrow> bool" where
  "reps m \<longleftrightarrow> mode (x86 m) AND (SYSMODE_PREFIX_REPE OR SYSMODE_PREFIX_REPNE) \<noteq> 0"

definition data32 :: "'b sysenv \<Rightarrow> bool" where
  "data32 m \<longleftrightarrow> mode (x86 m) AND SYSMODE_PREFIX_DATA \<noteq> 0"

definition rep_count :: "'b sysenv \<Rightarrow> nat" where
  "rep_count m = (if data32 m then unat (reg_e ECX m) else unat (reg_x ECX m))"

text \<open>\<open>while (count--)\<close>.\<close>

primrec times_do :: "nat \<Rightarrow> ('s \<Rightarrow> 's) \<Rightarrow> 's \<Rightarrow> 's" where
  "times_do 0 f m = m"
| "times_do (Suc n) f m = times_do n f (f m)"

text \<open>What follows the loop of a repeated string instruction.\<close>

definition end_rep :: "'b sysenv \<Rightarrow> 'b sysenv" where
  "end_rep m =
     (let m = set_x ECX 0 m;
          m = (if data32 m then set_e ECX 0 m else m)
      in upd (\<lambda>r. r\<lparr>mode := mode r AND NOT (SYSMODE_PREFIX_REPE OR SYSMODE_PREFIX_REPNE)\<rparr>) m)"

definition ins_one :: "'b bus_ops \<Rightarrow> int \<Rightarrow> 'b sysenv \<Rightarrow> 'b sysenv" where
  "ins_one ops sz m =
     (if sz = 1 then
        let (v, m) = sys_inb ops m (ucast (reg_x EDX m))
        in store_data_byte_abs ops m (R_ES (x86 m)) (reg_x EDI m) v
      else if sz = 2 then
        let (v, m) = sys_inw ops m (ucast (reg_x EDX m))
        in store_data_word_abs ops m (R_ES (x86 m)) (reg_x EDI m) v
      else if sz = 4 then
        let (v, m) = sys_inl ops m (ucast (reg_x EDX m))
        in store_data_long_abs ops m (R_ES (x86 m)) (reg_x EDI m) v
      else m)"

definition ins :: "'b bus_ops \<Rightarrow> 'b sysenv \<Rightarrow> int \<Rightarrow> 'b sysenv" where
  "ins ops m sz =
     (let inc = (if ACCESS_FLAG F_DF m then - sz else sz);
          step = (\<lambda>m. let m = ins_one ops sz m in set_x EDI (reg_x EDI m + word_of_int inc) m) in
      if reps m then
        let count = rep_count m;
            m = (if sz = 1 \<or> sz = 2 then times_do count step m
                 else if sz = 4 then if count \<noteq> 0 then step m else m
                 else m)
        in end_rep m
      else step m)"

definition outs_one :: "'b bus_ops \<Rightarrow> int \<Rightarrow> 'b sysenv \<Rightarrow> 'b sysenv" where
  "outs_one ops sz m =
     (if sz = 1 then
        let (v, m) = fetch_data_byte_abs ops m (R_ES (x86 m)) (reg_x ESI m)
        in sys_outb ops m (ucast (reg_x EDX m)) v
      else if sz = 2 then
        let (v, m) = fetch_data_word_abs ops m (R_ES (x86 m)) (reg_x ESI m)
        in sys_outw ops m (ucast (reg_x EDX m)) v
      else if sz = 4 then
        let (v, m) = fetch_data_long_abs ops m (R_ES (x86 m)) (reg_x ESI m)
        in sys_outl ops m (ucast (reg_x EDX m)) v
      else m)"

definition outs :: "'b bus_ops \<Rightarrow> 'b sysenv \<Rightarrow> int \<Rightarrow> 'b sysenv" where
  "outs ops m sz =
     (let inc = (if ACCESS_FLAG F_DF m then - sz else sz);
          step = (\<lambda>m. let m = outs_one ops sz m in set_x ESI (reg_x ESI m + word_of_int inc) m) in
      if reps m then
        let count = rep_count m;
            m = (if sz = 1 \<or> sz = 2 then times_do count step m
                 else if sz = 4 then if count \<noteq> 0 then step m else m
                 else m)
        in end_rep m
      else step m)"

end
