(* ===== verification/X86_Decode_Spec.thy ===== *)
theory X86_Decode_Spec
  imports X86_Decode
begin

text \<open>
  What decoding does: the accesses keep the registers, the segment of a data access, effective
  addresses modulo the segment, the number of steps of the string instructions, and what handling
  an interrupt does to the stack, the vector and the request.
\<close>

text \<open>
  What every access of memory or ports keeps: the registers, the flags and the mode, all but the
  request word, in which a failed access sets the halt bit.
\<close>

definition regs_kept :: "'b sysenv \<Rightarrow> 'b sysenv \<Rightarrow> bool" where
  "regs_kept m m' \<longleftrightarrow> (x86 m' = x86 m \<or> x86 m' = (x86 m)\<lparr>intr := intr (x86 m) OR INTR_HALTED\<rparr>) \<and>
     mem_size m' = mem_size m"

lemma regs_kept_refl [simp]: "regs_kept m m"
  by (simp add: regs_kept_def)

lemma regs_kept_same [simp]: "regs_kept m (m'\<lparr>bus := b\<rparr>) = regs_kept m m'"
  "regs_kept m (set_ram a v m') = regs_kept m m'" "regs_kept m (bus_write f m') = regs_kept m m'"
  "regs_kept m (snd (bus_readb ops m' a)) = regs_kept m m'"
  by (simp_all add: regs_kept_def bus_write_def bus_readb_def split_beta)

lemma regs_kept_halt [simp]: "regs_kept m m' \<Longrightarrow> regs_kept m (halt_sys m')"
  by (auto simp: regs_kept_def halt_sys_def or.assoc)

lemma regs_kept_mem_write [simp]: "regs_kept m m' \<Longrightarrow> regs_kept m (mem_write ops m' a v sz)"
  by (simp add: mem_write_def store_u16_def Let_def)

lemma regs_kept_mem_read [simp]: "regs_kept m m' \<Longrightarrow> regs_kept m (snd (mem_read ops m' a sz))"
  by (simp add: mem_read_def Let_def split_beta)

lemma regs_kept_rd [simp]:
  assumes "regs_kept m m'"
  shows "regs_kept m (snd (sys_rdb ops m' a))" "regs_kept m (snd (sys_rdw ops m' a))"
    "regs_kept m (snd (sys_rdl ops m' a))"
  using assms by (simp_all add: sys_rdb_def sys_rdw_def sys_rdl_def split_beta)

lemma regs_kept_wr [simp]:
  assumes "regs_kept m m'"
  shows "regs_kept m (sys_wrb ops m' a x)" "regs_kept m (sys_wrw ops m' a y)"
    "regs_kept m (sys_wrl ops m' a z)"
  using assms by (simp_all add: sys_wrb_def sys_wrw_def sys_wrl_def)

lemma regs_kept_io [simp]:
  assumes "regs_kept m m'"
  shows "regs_kept m (snd (sys_inb ops m' p))" "regs_kept m (snd (sys_inw ops m' p))"
    "regs_kept m (snd (sys_inl ops m' p))" "regs_kept m (sys_outb ops m' p x)"
    "regs_kept m (sys_outw ops m' p y)" "regs_kept m (sys_outl ops m' p z)"
  using assms
  by (simp_all add: sys_inb_def sys_inw_def sys_inl_def sys_outb_def sys_outw_def sys_outl_def split_beta)

lemma regs_keptD:
  assumes "regs_kept m m'"
  shows "reg_x g m' = reg_x g m" "reg_e g m' = reg_e g m" "ACCESS_FLAG f m' = ACCESS_FLAG f m"
    "mode (x86 m') = mode (x86 m)" "R_CS (x86 m') = R_CS (x86 m)" "R_ES (x86 m') = R_ES (x86 m)"
    "R_SS (x86 m') = R_SS (x86 m)" "R_DS (x86 m') = R_DS (x86 m)" "intno (x86 m') = intno (x86 m)"
    "R_FLG (x86 m') = R_FLG (x86 m)" "mem_size m' = mem_size m"
    "intr (x86 m) AND INTR_SYNCH = intr (x86 m') AND INTR_SYNCH"
proof -
  have "(x OR INTR_HALTED) AND INTR_SYNCH = x AND INTR_SYNCH" for x
    by (rule bit_word_eqI) (auto simp: INTR_HALTED_def INTR_SYNCH_def bit_simps)
  then show "intr (x86 m) AND INTR_SYNCH = intr (x86 m') AND INTR_SYNCH"
    using assms by (auto simp: regs_kept_def)
qed (use assms in \<open>auto simp: regs_kept_def reg_x_def reg_e_def ACCESS_FLAG_def\<close>)

subsection \<open>String instructions\<close>

lemmas abs_accesses = fetch_data_byte_abs_def fetch_data_word_abs_def fetch_data_long_abs_def
  store_data_byte_abs_def store_data_word_abs_def store_data_long_abs_def

lemma ins_one_kept: "regs_kept m (ins_one ops sz m)"
  by (simp add: ins_one_def abs_accesses split_beta Let_def)

lemma outs_one_kept: "regs_kept m (outs_one ops sz m)"
  by (simp add: outs_one_def abs_accesses split_beta Let_def)

text \<open>One step of a repeated instruction moves its index register and keeps the others.\<close>

definition moved :: "reg32 \<Rightarrow> int \<Rightarrow> 'b sysenv \<Rightarrow> 'b sysenv \<Rightarrow> bool" where
  "moved g d m m' \<longleftrightarrow> reg_x g m' = reg_x g m + word_of_int d \<and>
     (\<forall>h. h \<noteq> g \<longrightarrow> reg_e h m' = reg_e h m) \<and> mode (x86 m') = mode (x86 m) \<and>
     R_FLG (x86 m') = R_FLG (x86 m)"

lemma moved_step:
  assumes "regs_kept m (f m)"
  shows "moved g d m (set_x g (reg_x g (f m) + word_of_int d) (f m))"
  using regs_keptD [OF assms] by (simp add: moved_def)

lemma moved_times:
  assumes "\<And>m. moved g d m (f m)"
  shows "moved g (int n * d) m (times_do n f m)"
proof (induction n arbitrary: m)
  case (Suc n)
  show ?case
    using Suc.IH [of "f m"] assms [of m] by (simp add: moved_def algebra_simps)
qed (simp add: moved_def)

lemma reg_x_others [simp]: "reg_x g (set_e h v m) = (if g = h then ucast v else reg_x g m)"
  "reg_x g (upd (\<lambda>r. r\<lparr>mode := k r\<rparr>) m) = reg_x g m"
  by (simp_all add: reg_x_def set_e_def del: put_reg.simps)

lemma end_rep_regs:
  "g \<noteq> ECX \<Longrightarrow> reg_x g (end_rep m) = reg_x g m" "reg_x ECX (end_rep m) = 0" "\<not> reps (end_rep m)"
proof -
  have "((x AND NOT a) AND NOT b) AND (a OR b) = 0" "(x AND NOT a AND NOT b) AND (a OR b) = 0"
    for x a b :: u64
    by (rule bit_word_eqI; auto simp: bit_simps)+
  then show "\<not> reps (end_rep m)" by (simp add: reps_def end_rep_def Let_def)
qed (simp_all add: end_rep_def Let_def)

definition str_inc :: "int \<Rightarrow> 'b sysenv \<Rightarrow> int" where
  "str_inc sz m = (if ACCESS_FLAG F_DF m then - sz else sz)"

lemma ins_reps:
  fixes m :: "'b sysenv"
  assumes "reps m" "sz = 1 \<or> sz = 2 \<or> sz = 4"
  shows "reg_x EDI (ins ops m sz) = reg_x EDI m +
      word_of_int (int (if sz = 4 then min 1 (rep_count m) else rep_count m) * str_inc sz m)"
    and "reg_x ECX (ins ops m sz) = 0" and "\<not> reps (ins ops m sz)"
proof -
  define step where "step = (\<lambda>m' :: 'b sysenv. let m1 = ins_one ops sz m'
    in set_x EDI (reg_x EDI m1 + word_of_int (str_inc sz m)) m1)"
  have mv: "moved EDI (str_inc sz m) m' (step m')" for m'
    unfolding step_def Let_def by (rule moved_step) (rule ins_one_kept)
  have e: "ins ops m sz = end_rep (times_do (if sz = 4 then min 1 (rep_count m) else rep_count m) step m)"
    using assms by (cases "rep_count m") (auto simp: ins_def step_def str_inc_def Let_def)
  show "reg_x EDI (ins ops m sz) = reg_x EDI m +
      word_of_int (int (if sz = 4 then min 1 (rep_count m) else rep_count m) * str_inc sz m)"
  proof -
    have "moved EDI (int n * str_inc sz m) m (times_do n step m)" for n by (rule moved_times) (rule mv)
    then show ?thesis unfolding e by (simp add: end_rep_regs moved_def)
  qed
  show "reg_x ECX (ins ops m sz) = 0" "\<not> reps (ins ops m sz)" unfolding e by (rule end_rep_regs)+
qed

lemma outs_reps:
  fixes m :: "'b sysenv"
  assumes "reps m" "sz = 1 \<or> sz = 2 \<or> sz = 4"
  shows "reg_x ESI (outs ops m sz) = reg_x ESI m +
      word_of_int (int (if sz = 4 then min 1 (rep_count m) else rep_count m) * str_inc sz m)"
    and "reg_x ECX (outs ops m sz) = 0" and "\<not> reps (outs ops m sz)"
proof -
  define step where "step = (\<lambda>m' :: 'b sysenv. let m1 = outs_one ops sz m'
    in set_x ESI (reg_x ESI m1 + word_of_int (str_inc sz m)) m1)"
  have mv: "moved ESI (str_inc sz m) m' (step m')" for m'
    unfolding step_def Let_def by (rule moved_step) (rule outs_one_kept)
  have e: "outs ops m sz = end_rep (times_do (if sz = 4 then min 1 (rep_count m) else rep_count m) step m)"
    using assms by (cases "rep_count m") (auto simp: outs_def step_def str_inc_def Let_def)
  show "reg_x ESI (outs ops m sz) = reg_x ESI m +
      word_of_int (int (if sz = 4 then min 1 (rep_count m) else rep_count m) * str_inc sz m)"
  proof -
    have "moved ESI (int n * str_inc sz m) m (times_do n step m)" for n by (rule moved_times) (rule mv)
    then show ?thesis unfolding e by (simp add: end_rep_regs moved_def)
  qed
  show "reg_x ECX (outs ops m sz) = 0" "\<not> reps (outs ops m sz)" unfolding e by (rule end_rep_regs)+
qed

subsection \<open>The segment of a data access\<close>

definition override :: "u64 \<Rightarrow> ('b sysenv \<Rightarrow> 'c) \<Rightarrow> 'b sysenv \<Rightarrow> 'c list" where
  "override bits r m = (if mode (x86 m) AND bits \<noteq> 0 then [r m] else [])"

text \<open>
  The rule: a single override wins, no override means SS for an address that involves BP and DS
  otherwise, more than one override is an error.
\<close>

definition overrides :: "'b sysenv \<Rightarrow> u16 list" where
  "overrides m = override SYSMODE_SEGOVR_CS (\<lambda>m. R_CS (x86 m)) m @
     override SYSMODE_SEGOVR_DS (\<lambda>m. R_DS (x86 m)) m @
     override SYSMODE_SEGOVR_ES (\<lambda>m. R_ES (x86 m)) m @
     override SYSMODE_SEGOVR_SS (\<lambda>m. R_SS (x86 m)) m"

definition chosen_segment :: "'b sysenv \<Rightarrow> u16 option" where
  "chosen_segment m = (case overrides m of
       [] \<Rightarrow> Some (if mode (x86 m) AND SYSMODE_SEG_DS_SS \<noteq> 0 then R_SS (x86 m) else R_DS (x86 m))
     | [seg] \<Rightarrow> Some seg
     | _ \<Rightarrow> None)"

lemma seg_bits:
  "SYSMODE_SEG_DS_SS = 2 ^ 0" "SYSMODE_SEGOVR_CS = 2 ^ 1" "SYSMODE_SEGOVR_DS = 2 ^ 2"
  "SYSMODE_SEGOVR_ES = 2 ^ 3" "SYSMODE_SEGOVR_SS = 2 ^ 4"
  by (simp_all add: SYSMODE_SEG_DS_SS_def SYSMODE_SEGOVR_CS_def SYSMODE_SEGOVR_DS_def
      SYSMODE_SEGOVR_ES_def SYSMODE_SEGOVR_SS_def)

lemma and_exp_if: "x AND 2 ^ n = (if bit x n then 2 ^ n else 0)" for x :: "'a::len word"
  by (rule bit_word_eqI) (auto simp: bit_simps)

lemma seg_sel: "x AND SYSMODE_SEGMASK = (if bit x 0 then 2 ^ 0 else 0) OR (if bit x 1 then 2 ^ 1 else 0) OR
    (if bit x 2 then 2 ^ 2 else 0) OR (if bit x 3 then 2 ^ 3 else 0) OR (if bit x 4 then 2 ^ 4 else 0)"
  by (simp only: SYSMODE_SEGMASK_def seg_bits bit.conj_disj_distrib and_exp_if)

lemma data_segment_chosen: "data_segment m = chosen_segment m"
  unfolding data_segment_def chosen_segment_def overrides_def override_def Let_def seg_sel
  unfolding seg_bits and_exp_nonzero
  by (cases "bit (mode (x86 m)) 0"; cases "bit (mode (x86 m)) 1"; cases "bit (mode (x86 m)) 2";
      cases "bit (mode (x86 m)) 3"; cases "bit (mode (x86 m)) 4") simp_all

text \<open>
  The segment of a data access. The switch in the fetch and store functions chooses, for every
  mode word, the register of the single segment override when there is one, SS or DS when there is
  none, by the bit the address decoding left, and reports an error exactly when two or more
  overrides are set; every fetch goes through it.
\<close>

theorem data_segment_rule:
  "data_segment m = chosen_segment m \<and>
   fetch_data_byte ops m off = (case chosen_segment m of
       Some seg \<Rightarrow> fetch_data_byte_abs ops m seg off | None \<Rightarrow> (0, halt_sys m)) \<and>
   fetch_data_word ops m off = (case chosen_segment m of
       Some seg \<Rightarrow> fetch_data_word_abs ops m seg off | None \<Rightarrow> (0, halt_sys m)) \<and>
   fetch_data_long ops m off = (case chosen_segment m of
       Some seg \<Rightarrow> fetch_data_long_abs ops m seg off | None \<Rightarrow> (0, halt_sys m))"
  by (simp add: data_segment_chosen abs_accesses fetch_data_byte_def fetch_data_word_def
      fetch_data_long_def split: option.split)

text \<open>
  Conflicting overrides. With two or more segment overrides a fetch returns 0 and halts, but a
  store halts and writes all the same, at its offset in segment 0.
\<close>

theorem conflicting_overrides:
  assumes "2 \<le> length (overrides m)"
  shows "fetch_data_word ops m offset = (0, halt_sys m) \<and>
    store_data_word ops m offset val = sys_wrw ops (halt_sys m) (ucast offset) val"
proof -
  have "chosen_segment m = None"
    using assms by (cases "overrides m"; cases "tl (overrides m)") (auto simp: chosen_segment_def)
  then show ?thesis
    by (simp add: fetch_data_word_def store_data_word_def data_segment_chosen seg_off_def)
qed

lemma conflicting_overrides_witness:
  "fetch_data_word null_bus (upd (\<lambda>r. r\<lparr>mode := 6\<rparr>) blank_machine) 7 =
     (0, halt_sys (upd (\<lambda>r. r\<lparr>mode := 6\<rparr>) blank_machine))"
  using conflicting_overrides [of "upd (\<lambda>r. r\<lparr>mode := 6\<rparr>) blank_machine" null_bus 7 0]
  by (simp add: overrides_def override_def SYSMODE_SEGOVR_CS_def SYSMODE_SEGOVR_DS_def
      SYSMODE_SEGOVR_ES_def SYSMODE_SEGOVR_SS_def)

subsection \<open>Effective addresses\<close>

definition ea_base :: "int \<Rightarrow> 'b sysenv \<Rightarrow> u16" where
  "ea_base rm m = (if rm = 0 then reg_x EBX m + reg_x ESI m else if rm = 1 then reg_x EBX m + reg_x EDI m
     else if rm = 2 then reg_x EBP m + reg_x ESI m else if rm = 3 then reg_x EBP m + reg_x EDI m
     else if rm = 4 then reg_x ESI m else if rm = 5 then reg_x EDI m
     else if rm = 6 then reg_x EBP m else reg_x EBX m)"

definition ea_mark :: "int \<Rightarrow> 'b sysenv \<Rightarrow> 'b sysenv" where
  "ea_mark rm m = (if rm = 2 \<or> rm = 3 \<or> rm = 6 then mark_ss m else m)"

lemma narrow_add: "(ucast (x + y) :: 'a::len word) = ucast x + ucast y"
  if "LENGTH('a) \<le> LENGTH('b)" for x y :: "'b::len word"
proof -
  have "(2 :: nat) ^ LENGTH('a) dvd 2 ^ LENGTH('b)" using that by (rule le_imp_power_dvd)
  then show ?thesis
    by (simp add: word_eq_iff_unat unat_ucast_mod unat_word_ariths mod_mod_cancel mod_simps)
qed

lemma narrow_disp: "(ucast (s16 x) :: u16) = x" "(ucast (s8 y) :: u16) = scast y"
proof -
  show "ucast (s16 x) = x"
  proof (rule bit_word_eqI)
    fix n
    assume n: "n < LENGTH(16)"
    then have "min 15 n = n" by simp
    then show "bit (ucast (s16 x) :: u16) n = bit x n" using n by (simp add: s16_def bit_simps)
  qed
  show "ucast (s8 y) = (scast y :: u16)"
    by (rule bit_word_eqI) (simp add: s8_def bit_simps)
qed

lemma ea_decode:
  assumes "0 \<le> rm" "rm < 8"
  shows "decode_rm01_address ops m rm = (let (d, m') = fetch_byte_imm ops m
      in (ea_base rm m' + scast d, ea_mark rm m'))"
    and "decode_rm10_address ops m rm = (let (d, m') = fetch_word_imm ops m
      in (ea_base rm m' + d, ea_mark rm m'))"
    and "decode_rm00_address ops m rm =
      (if rm = 6 then fetch_word_imm ops m else (ea_base rm m, ea_mark rm m))"
  using assms
  by (auto simp: decode_rm01_address_def decode_rm10_address_def decode_rm00_address_def ea_base_def
      ea_mark_def split_beta Let_def narrow_add narrow_disp)

text \<open>
  C31: Effective addresses. For each of the eight forms of the r/m field the three decoding functions
  return the sum of the base registers and the sign-extended displacement modulo 2 to the 16th, the
  displacement fetched first, mark the access as relative to SS exactly for the forms with BP, and
  read a plain 16-bit address for form 6 of mod 0; any other value halts.
\<close>

theorem effective_addresses:
  "(0 \<le> rm \<and> rm < 8 \<longrightarrow>
     decode_rm00_address ops m rm =
       (if rm = 6 then fetch_word_imm ops m else (ea_base rm m, ea_mark rm m)) \<and>
     decode_rm01_address ops m rm =
       (let (d, m') = fetch_byte_imm ops m in (ea_base rm m' + scast d, ea_mark rm m')) \<and>
     decode_rm10_address ops m rm =
       (let (d, m') = fetch_word_imm ops m in (ea_base rm m' + d, ea_mark rm m'))) \<and>
   (rm < 0 \<or> 8 \<le> rm \<longrightarrow> decode_rm00_address ops m rm = (0, halt_sys m))"
proof -
  have "rm < 0 \<or> 8 \<le> rm \<longrightarrow> decode_rm00_address ops m rm = (0, halt_sys m)"
    by (auto simp: decode_rm00_address_def)
  then show ?thesis using ea_decode [of rm ops m] by blast
qed

lemma effective_addresses_witness:
  "decode_rm00_address null_bus (set_x ESI 0xffff (set_x EBP 2 blank_machine)) 2 =
     (1, mark_ss (set_x ESI 0xffff (set_x EBP 2 blank_machine)))"
  using effective_addresses [of 2 null_bus "set_x ESI 0xffff (set_x EBP 2 blank_machine)"]
  by (simp add: ea_base_def ea_mark_def)

text \<open>
  Repeated string instructions. \<open>ins\<close> and \<open>outs\<close> of bytes and words with a repeat prefix
  terminate after as many steps as CX (or ECX with a data prefix) holds: the index register has
  moved by that many elements, down when the direction flag is set, wrapping in its segment, CX is
  0 and the prefix is consumed.
\<close>

theorem repeated_string_io:
  assumes "reps m" "sz = 1 \<or> sz = 2"
  shows "reg_x EDI (ins ops m sz) = reg_x EDI m + word_of_int (int (rep_count m) * str_inc sz m) \<and>
    reg_x ECX (ins ops m sz) = 0 \<and> \<not> reps (ins ops m sz) \<and>
    reg_x ESI (outs ops m sz) = reg_x ESI m + word_of_int (int (rep_count m) * str_inc sz m) \<and>
    reg_x ECX (outs ops m sz) = 0 \<and> \<not> reps (outs ops m sz)"
  using ins_reps [of m sz ops] outs_reps [of m sz ops] assms by auto

lemma repeated_string_io_witness:
  "reg_x EDI (ins null_bus (upd (\<lambda>r. r\<lparr>mode := SYSMODE_PREFIX_REPE\<rparr>) (set_x ECX 5 blank_machine)) 2) = 10"
  using repeated_string_io
    [of "upd (\<lambda>r. r\<lparr>mode := SYSMODE_PREFIX_REPE\<rparr>) (set_x ECX 5 blank_machine)" 2 null_bus]
  by (simp add: reps_def SYSMODE_PREFIX_REPE_def SYSMODE_PREFIX_REPNE_def SYSMODE_PREFIX_DATA_def
      rep_count_def data32_def str_inc_def ACCESS_FLAG_def)

text \<open>
  A repeated \<open>ins\<close> or \<open>outs\<close> of longs moves one element only: the loop of the case for size 4
  ends with a \<open>break\<close>, yet CX is cleared as if the whole count had been done.
\<close>

theorem repeated_long_io_stops:
  assumes "reps m" "0 < rep_count m"
  shows "reg_x EDI (ins ops m 4) = reg_x EDI m + word_of_int (str_inc 4 m) \<and>
    reg_x ECX (ins ops m 4) = 0 \<and>
    reg_x ESI (outs ops m 4) = reg_x ESI m + word_of_int (str_inc 4 m) \<and>
    reg_x ECX (outs ops m 4) = 0"
proof -
  have "min 1 (rep_count m) = 1" using assms(2) by simp
  then show ?thesis using ins_reps [of m 4 ops] outs_reps [of m 4 ops] assms(1) by simp
qed

lemma repeated_long_io_stops_witness:
  "reg_x EDI (ins null_bus (upd (\<lambda>r. r\<lparr>mode := SYSMODE_PREFIX_REPE\<rparr>) (set_x ECX 5 blank_machine)) 4) = 4"
  using repeated_long_io_stops
    [of "upd (\<lambda>r. r\<lparr>mode := SYSMODE_PREFIX_REPE\<rparr>) (set_x ECX 5 blank_machine)" null_bus]
  by (simp add: reps_def SYSMODE_PREFIX_REPE_def SYSMODE_PREFIX_REPNE_def SYSMODE_PREFIX_DATA_def
      rep_count_def data32_def str_inc_def ACCESS_FLAG_def)

subsection \<open>Interrupts\<close>

lemma push_word_kept: "regs_kept (set_x ESP (reg_x ESP m - 2) m) (push_word ops m w)"
  by (simp add: push_word_def Let_def)

lemma push_word_regs [simp]:
  "reg_x ESP (push_word ops m w) = reg_x ESP m - 2"
  "g \<noteq> ESP \<Longrightarrow> reg_x g (push_word ops m w) = reg_x g m"
  "R_FLG (x86 (push_word ops m w)) = R_FLG (x86 m)" "R_CS (x86 (push_word ops m w)) = R_CS (x86 m)"
  "R_SS (x86 (push_word ops m w)) = R_SS (x86 m)" "intno (x86 (push_word ops m w)) = intno (x86 m)"
  "intr (x86 (push_word ops m w)) AND INTR_SYNCH = intr (x86 m) AND INTR_SYNCH"
  using regs_keptD [OF push_word_kept [of m ops w]]
  by simp_all

lemma read_kept [simp]:
  "reg_x g (snd (mem_access_word ops m a)) = reg_x g m"
  "R_FLG (x86 (snd (mem_access_word ops m a))) = R_FLG (x86 m)"
  "intno (x86 (snd (mem_access_word ops m a))) = intno (x86 m)"
  "R_SS (x86 (snd (mem_access_word ops m a))) = R_SS (x86 m)"
  "intr (x86 (snd (mem_access_word ops m a))) AND INTR_SYNCH = intr (x86 m) AND INTR_SYNCH"
  unfolding mem_access_word_def
  using regs_keptD [OF regs_kept_rd(2) [OF regs_kept_refl [of m], of ops a]] by simp_all

lemma reg_x_upd_CS [simp]: "reg_x g (upd (\<lambda>r. r\<lparr>R_CS := c\<rparr>) m) = reg_x g m"
  by (simp add: reg_x_def)

lemma intr_handle_regs:
  assumes "intr (x86 m) AND INTR_SYNCH \<noteq> 0"
  shows "reg_x ESP (x86_intr_handle ops m) = reg_x ESP m - 6"
    and "\<not> ACCESS_FLAG F_IF (x86_intr_handle ops m)" and "\<not> ACCESS_FLAG F_TF (x86_intr_handle ops m)"
    and "intr (x86 (x86_intr_handle ops m)) AND INTR_SYNCH = intr (x86 m) AND INTR_SYNCH"
proof -
  have b: "((x AND NOT F_IF) AND NOT F_TF) AND F_IF = 0" "((x AND NOT F_IF) AND NOT F_TF) AND F_TF = 0" for x
    by (rule bit_word_eqI; auto simp: bit_simps)+
  have c: "intr (x86 (CLEAR_FLAG f m)) = intr (x86 m)" "R_FLG (x86 (CLEAR_FLAG f m)) = R_FLG (x86 m) AND NOT f"
    "reg_x g (CLEAR_FLAG f m) = reg_x g m" for f g and m :: "'a sysenv"
    by (simp_all add: CLEAR_FLAG_def reg_x_def)
  show "reg_x ESP (x86_intr_handle ops m) = reg_x ESP m - 6"
    using assms by (simp add: x86_intr_handle_def Let_def split_beta c)
  show "\<not> ACCESS_FLAG F_IF (x86_intr_handle ops m)" "\<not> ACCESS_FLAG F_TF (x86_intr_handle ops m)"
    using assms by (simp_all add: x86_intr_handle_def Let_def split_beta c b ACCESS_FLAG_def)
  show "intr (x86 (x86_intr_handle ops m)) AND INTR_SYNCH = intr (x86 m) AND INTR_SYNCH"
    using assms by (simp add: x86_intr_handle_def Let_def split_beta c)
qed

text \<open>
  An interrupt is never acknowledged. Handling it clears IF and TF but not the request, and the
  main loop handles a request again before the next instruction as long as IF is clear, so unless
  the emulator has halted it is entered again at once, with six more bytes pushed each time.
\<close>

theorem interrupt_taken_again:
  assumes "intr (x86 m) AND INTR_SYNCH \<noteq> 0"
    and "intr (x86 (x86_intr_handle ops m)) AND INTR_HALTED = 0"
  shows "x86_exec_intr ops (x86_intr_handle ops m) = Some (x86_intr_handle ops (x86_intr_handle ops m)) \<and>
    reg_x ESP (x86_intr_handle ops (x86_intr_handle ops m)) = reg_x ESP m - 12"
proof -
  let ?m' = "x86_intr_handle ops m"
  have s: "intr (x86 ?m') AND INTR_SYNCH \<noteq> 0" using intr_handle_regs(4) [OF assms(1)] assms(1) by simp
  then have "intr (x86 ?m') \<noteq> 0" by auto
  then show ?thesis
    using s assms(2) intr_handle_regs(2) [OF assms(1)] intr_handle_regs(1) [OF s] intr_handle_regs(1) [OF assms(1)]
    by (simp add: x86_exec_intr_def)
qed

lemma push_step:
  assumes "good_cell 2 m (next_top 2 m)"
  shows "b \<noteq> ucast (next_top 2 m) \<Longrightarrow> b \<noteq> ucast (next_top 2 m) + 1 \<Longrightarrow> ram (push_word ops m w) b = ram m b"
    and "next_top k (push_word ops m w) = next_top (k + 2) m"
    and "good_cell sz (push_word ops m w) c = good_cell sz m c"
    and "intr (x86 (push_word ops m w)) = intr (x86 m)"
proof -
  have "good_cell 2 (set_x ESP (reg_x ESP m - 2) m) (next_top 2 m)" using assms by simp
  note w = sys_wrw_good [OF this, of ops w]
  have p: "push_word ops m w = sys_wrw ops (set_x ESP (reg_x ESP m - 2) m) (next_top 2 m) w"
    by (simp add: push_word_def next_top_def Let_def)
  show "b \<noteq> ucast (next_top 2 m) \<Longrightarrow> b \<noteq> ucast (next_top 2 m) + 1 \<Longrightarrow> ram (push_word ops m w) b = ram m b"
    unfolding p w by simp
  show "good_cell sz (push_word ops m w) c = good_cell sz m c" "intr (x86 (push_word ops m w)) = intr (x86 m)"
    unfolding p w by simp_all
  show "next_top k (push_word ops m w) = next_top (k + 2) m"
    by (simp add: next_top_def algebra_simps)
qed

lemma clear_views [simp]: "ram (CLEAR_FLAG f m) = ram m" "next_top k (CLEAR_FLAG f m) = next_top k m"
  "good_cell sz (CLEAR_FLAG f m) c = good_cell sz m c" "intr (x86 (CLEAR_FLAG f m)) = intr (x86 m)"
  "reg_x g (CLEAR_FLAG f m) = reg_x g m"
  "next_top k (upd (\<lambda>r. r\<lparr>R_CS := c'\<rparr>) m) = next_top k m"
  by (simp_all add: CLEAR_FLAG_def next_top_def good_cell_def reg_x_def)

lemma vector_address: "(ucast (ucast n * 4 + 2 :: u32) :: u64) = ucast n * 4 + 2"
  "(ucast (ucast n * 4 :: u32) :: u64) = ucast n * 4" for n :: u8
proof -
  have n: "unat n < 256" using unsigned_less [of n, where 'a = nat] by simp
  have m4: "unat (ucast n * 4 :: u32) = unat n * 4" "unat (ucast n * 4 :: u64) = unat n * 4"
    using n by (simp_all add: unat_word_ariths(2) unat_wide)
  have "unat (ucast n * 4 + 2 :: u32) = unat n * 4 + 2" "unat (ucast n * 4 + 2 :: u64) = unat n * 4 + 2"
    using n m4 by (simp_all add: unat_word_ariths(1))
  then show "(ucast (ucast n * 4 + 2 :: u32) :: u64) = ucast n * 4 + 2"
    by (intro iffD2 [OF word_eq_iff_unat]) (simp only: unat_wide, simp add: unat_wide)
  show "(ucast (ucast n * 4 :: u32) :: u64) = ucast n * 4"
    using m4
    by (intro iffD2 [OF word_eq_iff_unat]) (simp add: unat_wide)
qed

text \<open>The stack and the interrupt vector are in the RAM, apart from each other.\<close>

definition vector_ok :: "'b sysenv \<Rightarrow> bool" where
  "vector_ok m \<longleftrightarrow> good_cell 2 m (ucast (intno (x86 m)) * 4) \<and> good_cell 2 m (ucast (intno (x86 m)) * 4 + 2) \<and>
     (\<forall>k\<in>{2, 4, 6}. good_cell 2 m (next_top k m) \<and>
       (\<forall>j\<in>{0, 1, 2, 3 :: u64}. ucast (intno (x86 m)) * 4 + j \<noteq> ucast (next_top k m) \<and>
          ucast (intno (x86 m)) * 4 + j \<noteq> ucast (next_top k m) + 1))"

lemma intr_handle_good:
  fixes m :: "'b sysenv"
  defines "a \<equiv> ucast (intno (x86 m)) * 4 :: u64"
  assumes "intr (x86 m) AND INTR_SYNCH \<noteq> 0" and ok: "vector_ok m"
  shows "R_CS (x86 (x86_intr_handle ops m)) = pack2 (ram m a) (ram m (a + 1))"
    and "reg_x EIP (x86_intr_handle ops m) = pack2 (ram m (a + 2)) (ram m (a + 3))"
    and "intr (x86 (x86_intr_handle ops m)) = intr (x86 m)"
proof -
  let ?v = "ucast (intno (x86 m)) * 4 :: u32"
  define m1 where "m1 = CLEAR_FLAG F_TF (CLEAR_FLAG F_IF (push_word ops m (ucast (R_FLG (x86 m)))))"
  define m2 where "m2 = push_word ops m1 (R_CS (x86 m1))"
  define m3 where "m3 = upd (\<lambda>r. r\<lparr>R_CS := pack2 (ram m a) (ram m (a + 1))\<rparr>) m2"
  define m4 where "m4 = push_word ops m3 (reg_x EIP m3)"
  have g: "good_cell 2 m ?v" "good_cell 2 m (?v + 2)" "good_cell 2 m (next_top 2 m)"
      "good_cell 2 m (next_top 4 m)" "good_cell 2 m (next_top 6 m)"
    using ok by (simp_all add: vector_ok_def)
  have apart: "a + j \<noteq> ucast (next_top k m)" "a + j \<noteq> ucast (next_top k m) + 1"
    if "k \<in> {2, 4, 6}" "j \<in> {0, 1, 2, 3}" for k j
    using ok that unfolding vector_ok_def a_def by blast+
  have s1: "next_top k m1 = next_top (Suc (Suc k)) m" "good_cell sz m1 c = good_cell sz m c"
      "intr (x86 m1) = intr (x86 m)" "j \<in> {0, 1, 2, 3} \<Longrightarrow> ram m1 (a + j) = ram m (a + j)" for k sz c j
    using push_step [OF g(3)] apart [of 2 j] by (simp_all add: m1_def)
  have g1: "good_cell 2 m1 (next_top 2 m1)" using g(4) s1(1) [of 2] s1(2) by simp
  have s2: "next_top k m2 = next_top (Suc (Suc (Suc (Suc k)))) m" "good_cell sz m2 c = good_cell sz m c"
      "intr (x86 m2) = intr (x86 m)" "j \<in> {0, 1, 2, 3} \<Longrightarrow> ram m2 (a + j) = ram m (a + j)" for k sz c j
    using push_step [OF g1] apart [of 4 j] s1 by (simp_all add: m2_def)
  have g3: "good_cell 2 m3 (next_top 2 m3)" using g(5) s2(1) [of 2] s2(2) by (simp add: m3_def)
  have s4: "good_cell sz m4 c = good_cell sz m c" "intr (x86 m4) = intr (x86 m)"
      "j \<in> {0, 1, 2, 3} \<Longrightarrow> ram m4 (a + j) = ram m (a + j)" for sz c j
    using push_step [OF g3] apart [of 6 j] s2 by (simp_all add: m4_def m3_def)
  have r2: "mem_access_word ops m2 ?v = (pack2 (ram m a) (ram m (a + 1)), m2)"
    using sys_rdw_good [of m2 ?v ops] g(1) s2(2,4) [of 0] s2(4) [of 1]
    by (simp add: mem_access_word_def vector_address s2 flip: a_def)
  have "ram m4 (3 + a) = ram m (a + 3)" using s4(3) [of 3] by (simp add: add.commute)
  then have r4: "mem_access_word ops m4 (?v + 2) = (pack2 (ram m (a + 2)) (ram m (a + 3)), m4)"
    using sys_rdw_good [of m4 "?v + 2" ops] g(2) s4(3) [of 2] s4(3) [of 3]
    by (simp add: mem_access_word_def vector_address s4 flip: a_def)
  have m4: "push_word ops m3 (reg_x EIP m2) = m4" by (simp add: m4_def m3_def)
  have e: "x86_intr_handle ops m = set_x EIP (pack2 (ram m (a + 2)) (ram m (a + 3))) m4"
    using assms(2) r2 r4 by (simp add: x86_intr_handle_def Let_def flip: m1_def m2_def)
      (simp add: m4 r4 flip: m3_def)
  show "R_CS (x86 (x86_intr_handle ops m)) = pack2 (ram m a) (ram m (a + 1))"
    "reg_x EIP (x86_intr_handle ops m) = pack2 (ram m (a + 2)) (ram m (a + 3))"
    "intr (x86 (x86_intr_handle ops m)) = intr (x86 m)"
    unfolding e using s4(2) by (simp_all add: m4_def) (simp_all add: m3_def)
qed

text \<open>
  The interrupt vector is read the wrong way round. When the stack is in the RAM and apart from
  the vector, CS is loaded from the first word of the vector, which holds the offset in the
  processor's table, and IP from the second, which holds the segment.
\<close>

theorem interrupt_vector_swapped:
  assumes "intr (x86 m) AND INTR_SYNCH \<noteq> 0" and "vector_ok m"
  shows "(let a = ucast (intno (x86 m)) * 4 in
    R_CS (x86 (x86_intr_handle ops m)) = pack2 (ram m a) (ram m (a + 1)) \<and>
    reg_x EIP (x86_intr_handle ops m) = pack2 (ram m (a + 2)) (ram m (a + 3)))"
  using intr_handle_good [OF assms] by (simp add: Let_def)

definition pending_machine :: "unit sysenv" where
  "pending_machine = set_x ESP 0x1000 (blank_machine\<lparr>x86 := blank_regs\<lparr>intr := INTR_SYNCH, intno := 0x10\<rparr>,
     ram := (\<lambda>a. if a = 0x41 then 0xc0 else 0)\<rparr>)"

lemma pending_views: "reg_x ESP pending_machine = 0x1000" "intno (x86 pending_machine) = 0x10"
  "intr (x86 pending_machine) = INTR_SYNCH" "mem_size pending_machine = 0x100000"
  "R_SS (x86 pending_machine) = 0"
  by (simp_all add: pending_machine_def blank_machine_def blank_regs_def)

lemma pending_ok: "vector_ok pending_machine" "intr (x86 pending_machine) AND INTR_SYNCH \<noteq> 0"
  by (simp_all add: vector_ok_def good_cell_def next_top_def pending_views on_adapter_def seg_off_def
      INTR_SYNCH_def)

lemma interrupt_taken_again_witness:
  "reg_x ESP (x86_intr_handle null_bus (x86_intr_handle null_bus pending_machine)) = 0xff4"
  using interrupt_taken_again [of pending_machine null_bus] pending_ok
    intr_handle_good(3) [of pending_machine null_bus]
  by (simp add: pending_views INTR_SYNCH_def INTR_HALTED_def)

lemma interrupt_vector_swapped_witness: "R_CS (x86 (x86_intr_handle null_bus pending_machine)) = 0xc000"
  using interrupt_vector_swapped [OF pending_ok(2,1), of null_bus]
  by (simp add: pending_views pack2_def) (simp add: pending_machine_def)

end
