(* ===== verification/X86_Operands.thy ===== *)
theory X86_Operands
  imports X86_Decode_Spec X86_Alu
begin

text \<open>
  What the instruction handlers of \<open>x86_ops.c\<close> share. A handler returns \<open>None\<close> when it would
  follow the null pointer that a register decoding function returns after halting. The handlers
  come in families that differ in the width of the operands and the primitive operation only: the
  width is a record of the accessors the handlers call, one for bytes, words and longs, and each
  family is one definition over it.
\<close>

type_synonym 'b handler = "'b bus_ops \<Rightarrow> 'b sysenv \<Rightarrow> 'b sysenv option"

subsection \<open>Registers by pointer\<close>

fun get8 :: "reg8 \<Rightarrow> 'b sysenv \<Rightarrow> u8" where
  "get8 (Lo g) m = reg_l g m"
| "get8 (Hi g) m = reg_h g m"

fun put8 :: "reg8 \<Rightarrow> u8 \<Rightarrow> 'b sysenv \<Rightarrow> 'b sysenv" where
  "put8 (Lo g) v m = set_l g v m"
| "put8 (Hi g) v m = set_h g v m"

fun get_seg :: "seg_reg \<Rightarrow> 'b sysenv \<Rightarrow> u16" where
  "get_seg ES m = R_ES (x86 m)"
| "get_seg CS m = R_CS (x86 m)"
| "get_seg SS m = R_SS (x86 m)"
| "get_seg DS m = R_DS (x86 m)"

fun put_seg :: "seg_reg \<Rightarrow> u16 \<Rightarrow> 'b sysenv \<Rightarrow> 'b sysenv" where
  "put_seg ES v m = upd (\<lambda>r. r\<lparr>R_ES := v\<rparr>) m"
| "put_seg CS v m = upd (\<lambda>r. r\<lparr>R_CS := v\<rparr>) m"
| "put_seg SS v m = upd (\<lambda>r. r\<lparr>R_SS := v\<rparr>) m"
| "put_seg DS v m = upd (\<lambda>r. r\<lparr>R_DS := v\<rparr>) m"

subsection \<open>Operand widths\<close>

text \<open>
  The accessors of one width: the register of a field, the registers, the data segment, an
  absolute segment, and the immediate operand.
\<close>

record ('b, 'r, 'v) width =
  decode_reg :: "'b sysenv \<Rightarrow> int \<Rightarrow> 'r option \<times> 'b sysenv"
  get_r :: "'r \<Rightarrow> 'b sysenv \<Rightarrow> 'v"
  put_r :: "'r \<Rightarrow> 'v \<Rightarrow> 'b sysenv \<Rightarrow> 'b sysenv"
  fetch_data :: "'b bus_ops \<Rightarrow> 'b sysenv \<Rightarrow> u16 \<Rightarrow> 'v \<times> 'b sysenv"
  store_data :: "'b bus_ops \<Rightarrow> 'b sysenv \<Rightarrow> u16 \<Rightarrow> 'v \<Rightarrow> 'b sysenv"
  fetch_abs :: "'b bus_ops \<Rightarrow> 'b sysenv \<Rightarrow> u16 \<Rightarrow> u16 \<Rightarrow> 'v \<times> 'b sysenv"
  store_abs :: "'b bus_ops \<Rightarrow> 'b sysenv \<Rightarrow> u16 \<Rightarrow> u16 \<Rightarrow> 'v \<Rightarrow> 'b sysenv"
  fetch_imm :: "'b bus_ops \<Rightarrow> 'b sysenv \<Rightarrow> 'v \<times> 'b sysenv"

definition byte_width :: "('b, reg8, u8) width" where
  "byte_width = \<lparr>decode_reg = decode_rm_byte_register, get_r = get8, put_r = put8,
     fetch_data = fetch_data_byte, store_data = store_data_byte,
     fetch_abs = fetch_data_byte_abs, store_abs = store_data_byte_abs,
     fetch_imm = fetch_byte_imm\<rparr>"

definition word_width :: "('b, reg32, u16) width" where
  "word_width = \<lparr>decode_reg = decode_rm_word_register, get_r = reg_x, put_r = set_x,
     fetch_data = fetch_data_word, store_data = store_data_word,
     fetch_abs = fetch_data_word_abs, store_abs = store_data_word_abs,
     fetch_imm = fetch_word_imm\<rparr>"

definition long_width :: "('b, reg32, u32) width" where
  "long_width = \<lparr>decode_reg = decode_rm_long_register, get_r = reg_e, put_r = set_e,
     fetch_data = fetch_data_long, store_data = store_data_long,
     fetch_abs = fetch_data_long_abs, store_abs = store_data_long_abs,
     fetch_imm = fetch_long_imm\<rparr>"

subsection \<open>The frame of a handler\<close>

text \<open>\<open>DECODE_CLEAR_SEGOVR\<close>, the last statement of a handler.\<close>

definition clear_segovr :: "'b sysenv \<Rightarrow> 'b sysenv" where
  "clear_segovr m = upd (\<lambda>r. r\<lparr>mode := mode r AND NOT SYSMODE_CLRMASK\<rparr>) m"

definition end_instr :: "'b sysenv \<Rightarrow> 'b sysenv option" where
  "end_instr m = Some (clear_segovr m)"

definition set_ip :: "u16 \<Rightarrow> 'b sysenv \<Rightarrow> 'b sysenv" where
  "set_ip v m = set_x EIP v m"

definition with_reg :: "('b, 'r, 'v) width \<Rightarrow> u16 \<Rightarrow> ('r \<Rightarrow> 'b sysenv \<Rightarrow> 'b sysenv option) \<Rightarrow>
    'b sysenv \<Rightarrow> 'b sysenv option" where
  "with_reg w field f m =
     (case decode_reg w m (uint field) of (Some p, m) \<Rightarrow> f p m | (None, m) \<Rightarrow> None)"

definition with_seg :: "u16 \<Rightarrow> (seg_reg \<Rightarrow> 'b sysenv \<Rightarrow> 'b sysenv option) \<Rightarrow>
    'b sysenv \<Rightarrow> 'b sysenv option" where
  "with_seg field f m =
     (case decode_rm_seg_register m (uint field) of (Some p, m) \<Rightarrow> f p m | (None, m) \<Rightarrow> None)"

text \<open>Cases 0, 1 and 2 of the switch on \<open>mod\<close>.\<close>

definition decode_rm_address :: "'b bus_ops \<Rightarrow> 'b sysenv \<Rightarrow> u16 \<Rightarrow> u16 \<Rightarrow> u16 \<times> 'b sysenv" where
  "decode_rm_address ops m md rl =
     (if md = 0 then decode_rm00_address ops m (uint rl)
      else if md = 1 then decode_rm01_address ops m (uint rl)
      else decode_rm10_address ops m (uint rl))"

text \<open>
  The modrm byte, and then the memory form (\<open>mod\<close> 0, 1 or 2) or the register form (\<open>mod\<close> 3);
  each is given the fields.
\<close>

definition modrm :: "(u16 \<Rightarrow> u16 \<Rightarrow> u16 \<Rightarrow> 'b handler) \<Rightarrow> (u16 \<Rightarrow> u16 \<Rightarrow> 'b handler) \<Rightarrow> 'b handler" where
  "modrm mem reg ops m =
     (let ((md, rh, rl), m) = fetch_decode_modrm ops m
      in if md = 3 then reg rh rl ops m else mem md rh rl ops m)"

subsection \<open>Families of handlers\<close>

type_synonym ('b, 'v) binop = "'b sysenv \<Rightarrow> 'v \<Rightarrow> 'v \<Rightarrow> 'v \<times> 'b sysenv"

text \<open>\<open>OP rm, r\<close>: \<open>add_byte_RM_R\<close> and the others.\<close>

definition op_RM_R :: "('b, 'r, 'v) width \<Rightarrow> ('b, 'v) binop \<Rightarrow> 'b handler" where
  "op_RM_R w f = modrm
     (\<lambda>md rh rl ops m.
        let (destoffset, m) = decode_rm_address ops m md rl;
            (destval, m) = fetch_data w ops m destoffset
        in with_reg w rh (\<lambda>srcreg m.
             let (destval, m) = f m destval (get_r w srcreg m)
             in end_instr (store_data w ops m destoffset destval)) m)
     (\<lambda>rh rl ops m.
        with_reg w rl (\<lambda>destreg m. with_reg w rh (\<lambda>srcreg m.
          let (v, m) = f m (get_r w destreg m) (get_r w srcreg m)
          in end_instr (put_r w destreg v m)) m) m)"

definition op_R_RM :: "('b, 'r, 'v) width \<Rightarrow> ('b, 'v) binop \<Rightarrow> 'b handler" where
  "op_R_RM w f = modrm
     (\<lambda>md rh rl ops m.
        with_reg w rh (\<lambda>destreg m.
          let (srcoffset, m) = decode_rm_address ops m md rl;
              (srcval, m) = fetch_data w ops m srcoffset;
              (v, m) = f m (get_r w destreg m) srcval
          in end_instr (put_r w destreg v m)) m)
     (\<lambda>rh rl ops m.
        with_reg w rh (\<lambda>destreg m. with_reg w rl (\<lambda>srcreg m.
          let (v, m) = f m (get_r w destreg m) (get_r w srcreg m)
          in end_instr (put_r w destreg v m)) m) m)"

definition op_ACC_IMM :: "('b, 'r, 'v) width \<Rightarrow> 'r \<Rightarrow> ('b, 'v) binop \<Rightarrow> 'b handler" where
  "op_ACC_IMM w acc f ops m =
     (let (srcval, m) = fetch_imm w ops m;
          (v, m) = f m (get_r w acc m) srcval
      in end_instr (put_r w acc v m))"

text \<open>The same when only the flags are wanted: \<open>cmp\<close> and \<open>test\<close>.\<close>

type_synonym ('b, 'v) flagop = "'b sysenv \<Rightarrow> 'v \<Rightarrow> 'v \<Rightarrow> 'b sysenv"

definition flags_RM_R :: "('b, 'r, 'v) width \<Rightarrow> ('b, 'v) flagop \<Rightarrow> 'b handler" where
  "flags_RM_R w f = modrm
     (\<lambda>md rh rl ops m.
        let (destoffset, m) = decode_rm_address ops m md rl;
            (destval, m) = fetch_data w ops m destoffset
        in with_reg w rh (\<lambda>srcreg m. end_instr (f m destval (get_r w srcreg m))) m)
     (\<lambda>rh rl ops m.
        with_reg w rl (\<lambda>destreg m. with_reg w rh (\<lambda>srcreg m.
          end_instr (f m (get_r w destreg m) (get_r w srcreg m))) m) m)"

definition flags_R_RM :: "('b, 'r, 'v) width \<Rightarrow> ('b, 'v) flagop \<Rightarrow> 'b handler" where
  "flags_R_RM w f = modrm
     (\<lambda>md rh rl ops m.
        with_reg w rh (\<lambda>destreg m.
          let (srcoffset, m) = decode_rm_address ops m md rl;
              (srcval, m) = fetch_data w ops m srcoffset
          in end_instr (f m (get_r w destreg m) srcval)) m)
     (\<lambda>rh rl ops m.
        with_reg w rh (\<lambda>destreg m. with_reg w rl (\<lambda>srcreg m.
          end_instr (f m (get_r w destreg m) (get_r w srcreg m))) m) m)"

definition flags_ACC_IMM :: "('b, 'r, 'v) width \<Rightarrow> 'r \<Rightarrow> ('b, 'v) flagop \<Rightarrow> 'b handler" where
  "flags_ACC_IMM w acc f ops m =
     (let (srcval, m) = fetch_imm w ops m in end_instr (f m (get_r w acc m) srcval))"

text \<open>Opcodes 0x80 to 0x83: the operation is chosen by \<open>rh\<close>, and 7 (\<open>cmp\<close>) stores nothing.\<close>

definition opc8x_RM_IMM :: "('b, 'r, 'v) width \<Rightarrow> ('b, 'v) binop list \<Rightarrow>
    ('b bus_ops \<Rightarrow> 'b sysenv \<Rightarrow> 'v \<times> 'b sysenv) \<Rightarrow> 'b handler" where
  "opc8x_RM_IMM w operation fetch = modrm
     (\<lambda>md rh rl ops m.
        let (destoffset, m) = decode_rm_address ops m md rl;
            (destval, m) = fetch_data w ops m destoffset;
            (imm, m) = fetch ops m;
            (destval, m) = (operation ! unat rh) m destval imm
        in end_instr (if rh \<noteq> 7 then store_data w ops m destoffset destval else m))
     (\<lambda>rh rl ops m.
        with_reg w rl (\<lambda>destreg m.
          let (imm, m) = fetch ops m;
              (destval, m) = (operation ! unat rh) m (get_r w destreg m) imm
          in end_instr (if rh \<noteq> 7 then put_r w destreg destval m else m)) m)"

text \<open>Opcodes 0xc0, 0xc1 and 0xd0 to 0xd3: shifts, the amount fetched after the address.\<close>

definition shift_mem :: "('b, 'r, 'v) width \<Rightarrow> ('b, 'v) binop list \<Rightarrow>
    ('b bus_ops \<Rightarrow> 'b sysenv \<Rightarrow> 'v \<times> 'b sysenv) \<Rightarrow> u16 \<Rightarrow> u16 \<Rightarrow> u16 \<Rightarrow> 'b handler" where
  "shift_mem w operation amount md rh rl ops m =
     (let (destoffset, m) = decode_rm_address ops m md rl;
          (amt, m) = amount ops m;
          (destval, m) = fetch_data w ops m destoffset;
          (destval, m) = (operation ! unat rh) m destval amt
      in end_instr (store_data w ops m destoffset destval))"

definition shift_reg :: "('b, 'r, 'v) width \<Rightarrow> ('b, 'v) binop list \<Rightarrow>
    ('b bus_ops \<Rightarrow> 'b sysenv \<Rightarrow> 'v \<times> 'b sysenv) \<Rightarrow> u16 \<Rightarrow> u16 \<Rightarrow> 'b handler" where
  "shift_reg w operation amount rh rl ops m =
     with_reg w rl (\<lambda>destreg m.
       let (amt, m) = amount ops m;
           (destval, m) = (operation ! unat rh) m (get_r w destreg m) amt
       in end_instr (put_r w destreg destval m)) m"

subsection \<open>String instructions\<close>

text \<open>\<open>inc\<close>, and the steps of the index registers.\<close>

definition str_step :: "int \<Rightarrow> 'b sysenv \<Rightarrow> u16" where
  "str_step sz m = (if ACCESS_FLAG F_DF m then word_of_int (- sz) else word_of_int sz)"

definition add_x :: "reg32 \<Rightarrow> u16 \<Rightarrow> 'b sysenv \<Rightarrow> 'b sysenv" where
  "add_x g d m = set_x g (reg_x g m + d) m"

text \<open>
  \<open>while (R_CX != 0) { access; R_CX -= 1; advance; if (stop) break; }\<close>: \<open>None\<close> would be a loop
  without end.
\<close>

partial_function (option) rep_loop :: "('b sysenv \<Rightarrow> 'b sysenv) \<Rightarrow> ('b sysenv \<Rightarrow> 'b sysenv) \<Rightarrow>
    ('b sysenv \<Rightarrow> bool) \<Rightarrow> 'b sysenv \<Rightarrow> 'b sysenv option" where
  "rep_loop acc advance stop m =
     (if reg_x ECX m \<noteq> 0 then
        let m = advance (add_x ECX (- 1) (acc m))
        in if stop m then Some m else rep_loop acc advance stop m
      else Some m)"

definition clear_mode :: "u64 \<Rightarrow> 'b sysenv \<Rightarrow> 'b sysenv" where
  "clear_mode bits m = upd (\<lambda>r. r\<lparr>mode := mode r AND NOT bits\<rparr>) m"

text \<open>\<open>movs\<close>, \<open>stos\<close> and \<open>lods\<close>: either repeat prefix repeats until CX is 0.\<close>

definition str_op :: "('b sysenv \<Rightarrow> 'b sysenv) \<Rightarrow> ('b sysenv \<Rightarrow> 'b sysenv) \<Rightarrow>
    'b sysenv \<Rightarrow> 'b sysenv option" where
  "str_op acc advance m =
     (if reps m then
        case rep_loop acc advance (\<lambda>_. False) m of
          None \<Rightarrow> None
        | Some m \<Rightarrow> end_instr (clear_mode (SYSMODE_PREFIX_REPE OR SYSMODE_PREFIX_REPNE) m)
      else end_instr (advance (acc m)))"

text \<open>\<open>cmps\<close> and \<open>scas\<close>: the prefix says at which value of ZF the loop is left.\<close>

definition cmp_op :: "('b sysenv \<Rightarrow> 'b sysenv) \<Rightarrow> ('b sysenv \<Rightarrow> 'b sysenv) \<Rightarrow>
    'b sysenv \<Rightarrow> 'b sysenv option" where
  "cmp_op acc advance m =
     (if mode (x86 m) AND SYSMODE_PREFIX_REPE \<noteq> 0 then
        case rep_loop acc advance (\<lambda>m. \<not> ACCESS_FLAG F_ZF m) m of
          None \<Rightarrow> None
        | Some m \<Rightarrow> end_instr (clear_mode SYSMODE_PREFIX_REPE m)
      else if mode (x86 m) AND SYSMODE_PREFIX_REPNE \<noteq> 0 then
        case rep_loop acc advance (ACCESS_FLAG F_ZF) m of
          None \<Rightarrow> None
        | Some m \<Rightarrow> end_instr (clear_mode SYSMODE_PREFIX_REPNE m)
      else end_instr (advance (acc m)))"

definition movs_access :: "('b, 'r, 'v) width \<Rightarrow> 'b bus_ops \<Rightarrow> 'b sysenv \<Rightarrow> 'b sysenv" where
  "movs_access w ops m =
     (let (val, m) = fetch_data w ops m (reg_x ESI m)
      in store_abs w ops m (R_ES (x86 m)) (reg_x EDI m) val)"

definition stos_access :: "('b, 'r, 'v) width \<Rightarrow> 'r \<Rightarrow> 'b bus_ops \<Rightarrow> 'b sysenv \<Rightarrow> 'b sysenv" where
  "stos_access w acc ops m = store_abs w ops m (R_ES (x86 m)) (reg_x EDI m) (get_r w acc m)"

definition lods_access :: "('b, 'r, 'v) width \<Rightarrow> 'r \<Rightarrow> 'b bus_ops \<Rightarrow> 'b sysenv \<Rightarrow> 'b sysenv" where
  "lods_access w acc ops m =
     (let (val, m) = fetch_data w ops m (reg_x ESI m) in put_r w acc val m)"

definition cmps_access :: "('b, 'r, 'v) width \<Rightarrow> ('b, 'v) binop \<Rightarrow> 'b bus_ops \<Rightarrow> 'b sysenv \<Rightarrow> 'b sysenv" where
  "cmps_access w cmp ops m =
     (let (val1, m) = fetch_data w ops m (reg_x ESI m);
          (val2, m) = fetch_abs w ops m (R_ES (x86 m)) (reg_x EDI m)
      in snd (cmp m val1 val2))"

definition scas_access :: "('b, 'r, 'v) width \<Rightarrow> 'r \<Rightarrow> ('b, 'v) binop \<Rightarrow> 'b bus_ops \<Rightarrow> 'b sysenv \<Rightarrow> 'b sysenv" where
  "scas_access w acc cmp ops m =
     (let (val2, m) = fetch_abs w ops m (R_ES (x86 m)) (reg_x EDI m)
      in snd (cmp m (get_r w acc m) val2))"

subsection \<open>Jumps\<close>

definition jump_short_if :: "('b sysenv \<Rightarrow> bool) \<Rightarrow> 'b handler" where
  "jump_short_if cond ops m =
     (let (offset, m) = fetch_byte_imm ops m;
          target = ucast (s16 (reg_x EIP m) + s8 offset)
      in end_instr (if cond m then set_ip target m else m))"

subsection \<open>Handlers without a modrm byte\<close>

definition set_mode :: "u64 \<Rightarrow> 'b sysenv \<Rightarrow> 'b sysenv" where
  "set_mode bits m = upd (\<lambda>r. r\<lparr>mode := mode r OR bits\<rparr>) m"

text \<open>A prefix: the mode lasts for the next instruction, so nothing is cleared.\<close>

definition prefix_op :: "u64 \<Rightarrow> 'b handler" where
  "prefix_op bits ops m = Some (set_mode bits m)"

definition simple_op :: "('b sysenv \<Rightarrow> 'b sysenv) \<Rightarrow> 'b handler" where
  "simple_op f ops m = end_instr (f m)"

definition op_reg :: "reg32 \<Rightarrow> ('b sysenv \<Rightarrow> u16 \<Rightarrow> u16 \<times> 'b sysenv) \<Rightarrow> 'b handler" where
  "op_reg g f ops m = (let (v, m) = f m (reg_x g m) in end_instr (set_x g v m))"

definition push_seg :: "seg_reg \<Rightarrow> 'b handler" where
  "push_seg s ops m = end_instr (push_word ops m (get_seg s m))"

definition pop_seg :: "seg_reg \<Rightarrow> 'b handler" where
  "pop_seg s ops m = (let (v, m) = pop_word ops m in end_instr (put_seg s v m))"

definition push_reg :: "reg32 \<Rightarrow> 'b handler" where
  "push_reg g ops m = end_instr (push_word ops m (reg_x g m))"

definition pop_reg :: "reg32 \<Rightarrow> 'b handler" where
  "pop_reg g ops m = (let (v, m) = pop_word ops m in end_instr (set_x g v m))"

definition xchg_AX :: "reg32 \<Rightarrow> 'b handler" where
  "xchg_AX g ops m =
     (let tmp = reg_x EAX m;
          m = set_x EAX (reg_x g m) m
      in end_instr (set_x g tmp m))"

definition mov_IMM :: "('b, 'r, 'v) width \<Rightarrow> 'r \<Rightarrow> 'b handler" where
  "mov_IMM w r ops m = (let (imm, m) = fetch_imm w ops m in end_instr (put_r w r imm m))"

end
