(* ===== verification/X86_Ops_Low.thy ===== *)
theory X86_Ops_Low
  imports X86_Operands
begin

text \<open>
  The handlers of \<open>x86_ops.c\<close> for opcodes 0x00 to 0x8f and the two-byte opcodes, in the order of the
  file: arithmetic, logic and decimal adjustment, the stack, the conditional jumps, the operations
  with immediate operands and moves.
\<close>

text \<open>The switch of \<open>x86op_long_jump\<close>.\<close>

definition long_cond :: "u8 \<Rightarrow> 'b sysenv \<Rightarrow> bool" where
  "long_cond op2 m =
     (if op2 = 0x80 then ACCESS_FLAG F_OF m
      else if op2 = 0x81 then \<not> ACCESS_FLAG F_OF m
      else if op2 = 0x82 then ACCESS_FLAG F_CF m
      else if op2 = 0x83 then \<not> ACCESS_FLAG F_CF m
      else if op2 = 0x84 then ACCESS_FLAG F_ZF m
      else if op2 = 0x85 then \<not> ACCESS_FLAG F_ZF m
      else if op2 = 0x86 then ACCESS_FLAG F_CF m \<or> ACCESS_FLAG F_ZF m
      else if op2 = 0x87 then \<not> (ACCESS_FLAG F_CF m \<or> ACCESS_FLAG F_ZF m)
      else if op2 = 0x88 then ACCESS_FLAG F_SF m
      else if op2 = 0x89 then \<not> ACCESS_FLAG F_SF m
      else if op2 = 0x8a then ACCESS_FLAG F_PF m
      else if op2 = 0x8b then \<not> ACCESS_FLAG F_PF m
      else if op2 = 0x8c then ACCESS_FLAG F_SF m \<noteq> ACCESS_FLAG F_OF m
      else if op2 = 0x8d then ACCESS_FLAG F_SF m \<noteq> ACCESS_FLAG F_OF m
      else if op2 = 0x8e then ACCESS_FLAG F_SF m \<noteq> ACCESS_FLAG F_OF m \<or> ACCESS_FLAG F_ZF m
      else if op2 = 0x8f then \<not> (ACCESS_FLAG F_SF m \<noteq> ACCESS_FLAG F_OF m \<or> ACCESS_FLAG F_ZF m)
      else False)"

text \<open>The operations that the field \<open>rh\<close> chooses.\<close>

definition opc80_byte_operation :: "('b, u8) binop list" where
  "opc80_byte_operation =
     [add_byte, or_byte, adc_byte, sbb_byte, and_byte, sub_byte, xor_byte, cmp_byte]"

definition opc81_word_operation :: "('b, u16) binop list" where
  "opc81_word_operation =
     [add_word, or_word, adc_word, sbb_word, and_word, sub_word, xor_word, cmp_word]"

definition opc82_byte_operation :: "('b, u8) binop list" where
  "opc82_byte_operation =
     [add_byte, or_byte, adc_byte, sbb_byte, and_byte, sub_byte, xor_byte, cmp_byte]"

definition opc83_word_operation :: "('b, u16) binop list" where
  "opc83_word_operation =
     [add_word, or_word, adc_word, sbb_word, and_word, sub_word, xor_word, cmp_word]"

text \<open>The bodies of the exchange and move instructions for one width.\<close>

definition xchg_RM_R :: "('b, 'r, 'v) width \<Rightarrow> 'b handler" where
  "xchg_RM_R w = modrm
     (\<lambda>md rh rl ops m.
        let (destoffset, m) = decode_rm_address ops m md rl;
            (destval, m) = fetch_data w ops m destoffset
        in with_reg w rh (\<lambda>srcreg m.
             let tmp = get_r w srcreg m;
                 m = put_r w srcreg destval m
             in end_instr (store_data w ops m destoffset tmp)) m)
     (\<lambda>rh rl ops m.
        with_reg w rl (\<lambda>destreg m. with_reg w rh (\<lambda>srcreg m.
          let tmp = get_r w srcreg m;
              m = put_r w srcreg (get_r w destreg m) m
          in end_instr (put_r w destreg tmp m)) m) m)"

definition mov_RM_R :: "('b, 'r, 'v) width \<Rightarrow> 'b handler" where
  "mov_RM_R w = modrm
     (\<lambda>md rh rl ops m.
        let (destoffset, m) = decode_rm_address ops m md rl
        in with_reg w rh (\<lambda>srcreg m.
             end_instr (store_data w ops m destoffset (get_r w srcreg m))) m)
     (\<lambda>rh rl ops m.
        with_reg w rl (\<lambda>destreg m. with_reg w rh (\<lambda>srcreg m.
          end_instr (put_r w destreg (get_r w srcreg m) m)) m) m)"

definition mov_R_M :: "('b, 'r, 'v) width \<Rightarrow> u16 \<Rightarrow> u16 \<Rightarrow> u16 \<Rightarrow> 'b handler" where
  "mov_R_M w md rh rl ops m =
     with_reg w rh (\<lambda>destreg m.
       let (srcoffset, m) = decode_rm_address ops m md rl;
           (srcval, m) = fetch_data w ops m srcoffset
       in end_instr (put_r w destreg srcval m)) m"

definition mov_R_R :: "('b, 'r, 'v) width \<Rightarrow> u16 \<Rightarrow> u16 \<Rightarrow> 'b handler" where
  "mov_R_R w rh rl ops m =
     with_reg w rh (\<lambda>destreg m. with_reg w rl (\<lambda>srcreg m.
       end_instr (put_r w destreg (get_r w srcreg m) m)) m) m"

subsection \<open>Illegal and two-byte opcodes\<close>

definition x86op_illegal_op :: "'b handler" where
  "x86op_illegal_op ops m = Some (halt_sys m)"

definition x86op_long_jump :: "u8 \<Rightarrow> 'b handler" where
  "x86op_long_jump op2 ops m =
     (let cond = long_cond op2 m;
          (w, m) = fetch_word_imm ops m;
          target = s16 w + s16 (reg_x EIP m)
      in end_instr (if cond then set_ip (ucast target) m else m))"

subsection \<open>0x00 to 0x3f: arithmetic and logic\<close>

definition x86op_add_byte_RM_R :: "'b handler" where
  "x86op_add_byte_RM_R = op_RM_R byte_width add_byte"

definition x86op_add_word_RM_R :: "'b handler" where
  "x86op_add_word_RM_R = op_RM_R word_width add_word"

definition x86op_add_byte_R_RM :: "'b handler" where
  "x86op_add_byte_R_RM = op_R_RM byte_width add_byte"

definition x86op_add_word_R_RM :: "'b handler" where
  "x86op_add_word_R_RM = op_R_RM word_width add_word"

definition x86op_add_byte_AL_IMM :: "'b handler" where
  "x86op_add_byte_AL_IMM = op_ACC_IMM byte_width (Lo EAX) add_byte"

definition x86op_add_word_AX_IMM :: "'b handler" where
  "x86op_add_word_AX_IMM = op_ACC_IMM word_width EAX add_word"

definition x86op_push_ES :: "'b handler" where
  "x86op_push_ES = push_seg ES"

definition x86op_pop_ES :: "'b handler" where
  "x86op_pop_ES = pop_seg ES"

definition x86op_or_byte_RM_R :: "'b handler" where
  "x86op_or_byte_RM_R = op_RM_R byte_width or_byte"

definition x86op_or_word_RM_R :: "'b handler" where
  "x86op_or_word_RM_R = op_RM_R word_width or_word"

definition x86op_or_byte_R_RM :: "'b handler" where
  "x86op_or_byte_R_RM = op_R_RM byte_width or_byte"

definition x86op_or_word_R_RM :: "'b handler" where
  "x86op_or_word_R_RM = op_R_RM word_width or_word"

definition x86op_or_byte_AL_IMM :: "'b handler" where
  "x86op_or_byte_AL_IMM = op_ACC_IMM byte_width (Lo EAX) or_byte"

definition x86op_or_word_AX_IMM :: "'b handler" where
  "x86op_or_word_AX_IMM = op_ACC_IMM word_width EAX or_word"

definition x86op_push_CS :: "'b handler" where
  "x86op_push_CS = push_seg CS"

definition x86op_two_byte :: "'b handler" where
  "x86op_two_byte ops m =
     (let addr = seg_off (R_CS (x86 m)) (reg_x EIP m);
          m = set_x EIP (reg_x EIP m + 1) m;
          (op2, m) = sys_rdb ops m addr
      in if 0x80 \<le> op2 \<and> op2 \<le> 0x8f then x86op_long_jump op2 ops m else Some (halt_sys m))"

definition x86op_adc_byte_RM_R :: "'b handler" where
  "x86op_adc_byte_RM_R = op_RM_R byte_width adc_byte"

definition x86op_adc_word_RM_R :: "'b handler" where
  "x86op_adc_word_RM_R = op_RM_R word_width adc_word"

definition x86op_adc_byte_R_RM :: "'b handler" where
  "x86op_adc_byte_R_RM = op_R_RM byte_width adc_byte"

definition x86op_adc_word_R_RM :: "'b handler" where
  "x86op_adc_word_R_RM = op_R_RM word_width adc_word"

definition x86op_adc_byte_AL_IMM :: "'b handler" where
  "x86op_adc_byte_AL_IMM = op_ACC_IMM byte_width (Lo EAX) adc_byte"

definition x86op_adc_word_AX_IMM :: "'b handler" where
  "x86op_adc_word_AX_IMM = op_ACC_IMM word_width EAX adc_word"

definition x86op_push_SS :: "'b handler" where
  "x86op_push_SS = push_seg SS"

definition x86op_pop_SS :: "'b handler" where
  "x86op_pop_SS = pop_seg SS"

definition x86op_sbb_byte_RM_R :: "'b handler" where
  "x86op_sbb_byte_RM_R = op_RM_R byte_width sbb_byte"

definition x86op_sbb_word_RM_R :: "'b handler" where
  "x86op_sbb_word_RM_R = op_RM_R word_width sbb_word"

definition x86op_sbb_byte_R_RM :: "'b handler" where
  "x86op_sbb_byte_R_RM = op_R_RM byte_width sbb_byte"

definition x86op_sbb_word_R_RM :: "'b handler" where
  "x86op_sbb_word_R_RM = op_R_RM word_width sbb_word"

definition x86op_sbb_byte_AL_IMM :: "'b handler" where
  "x86op_sbb_byte_AL_IMM = op_ACC_IMM byte_width (Lo EAX) sbb_byte"

definition x86op_sbb_word_AX_IMM :: "'b handler" where
  "x86op_sbb_word_AX_IMM = op_ACC_IMM word_width EAX sbb_word"

definition x86op_push_DS :: "'b handler" where
  "x86op_push_DS = push_seg DS"

definition x86op_pop_DS :: "'b handler" where
  "x86op_pop_DS = pop_seg DS"

definition x86op_and_byte_RM_R :: "'b handler" where
  "x86op_and_byte_RM_R = op_RM_R byte_width and_byte"

definition x86op_and_word_RM_R :: "'b handler" where
  "x86op_and_word_RM_R = op_RM_R word_width and_word"

definition x86op_and_byte_R_RM :: "'b handler" where
  "x86op_and_byte_R_RM = op_R_RM byte_width and_byte"

definition x86op_and_word_R_RM :: "'b handler" where
  "x86op_and_word_R_RM = op_R_RM word_width and_word"

definition x86op_and_byte_AL_IMM :: "'b handler" where
  "x86op_and_byte_AL_IMM = op_ACC_IMM byte_width (Lo EAX) and_byte"

definition x86op_and_word_AX_IMM :: "'b handler" where
  "x86op_and_word_AX_IMM = op_ACC_IMM word_width EAX and_word"

definition x86op_segovr_ES :: "'b handler" where
  "x86op_segovr_ES = prefix_op SYSMODE_SEGOVR_ES"

definition x86op_daa :: "'b handler" where
  "x86op_daa ops m =
     (let dbyte = ucast (reg_l EAX m) :: u16;
          (dbyte, m) =
            (if ACCESS_FLAG F_AF m \<or> dbyte AND 0xf > 9 then
               let dbyte = dbyte + 6;
                   m = (if dbyte AND 0x100 \<noteq> 0 then SET_FLAG F_CF m else m)
               in (dbyte, SET_FLAG F_AF m)
             else (dbyte, CLEAR_FLAG F_AF m));
          (dbyte, m) =
            (if ACCESS_FLAG F_CF m \<or> dbyte AND 0xf0 > 0x90 then (dbyte + 0x60, SET_FLAG F_CF m)
             else (dbyte, CLEAR_FLAG F_CF m));
          m = set_l EAX (ucast dbyte) m;
          m = CONDITIONAL_SET_FLAG (reg_l EAX m AND 0x80 \<noteq> 0) F_SF m;
          m = CONDITIONAL_SET_FLAG (reg_l EAX m = 0) F_ZF m;
          m = CONDITIONAL_SET_FLAG (PARITY (ucast (reg_l EAX m))) F_PF m
      in end_instr m)"

definition x86op_sub_byte_RM_R :: "'b handler" where
  "x86op_sub_byte_RM_R = op_RM_R byte_width sub_byte"

definition x86op_sub_word_RM_R :: "'b handler" where
  "x86op_sub_word_RM_R = op_RM_R word_width sub_word"

definition x86op_sub_byte_R_RM :: "'b handler" where
  "x86op_sub_byte_R_RM = op_R_RM byte_width sub_byte"

definition x86op_sub_word_R_RM :: "'b handler" where
  "x86op_sub_word_R_RM = op_R_RM word_width sub_word"

definition x86op_sub_byte_AL_IMM :: "'b handler" where
  "x86op_sub_byte_AL_IMM = op_ACC_IMM byte_width (Lo EAX) sub_byte"

definition x86op_sub_word_AX_IMM :: "'b handler" where
  "x86op_sub_word_AX_IMM = op_ACC_IMM word_width EAX sub_word"

definition x86op_segovr_CS :: "'b handler" where
  "x86op_segovr_CS = prefix_op SYSMODE_SEGOVR_CS"

definition x86op_das :: "'b handler" where
  "x86op_das ops m =
     (let dbyte = ucast (reg_l EAX m) :: u16;
          (dbyte, m) =
            (if ACCESS_FLAG F_AF m \<or> dbyte AND 0xf > 9 then
               let dbyte = dbyte - 6;
                   m = (if dbyte AND 0x100 \<noteq> 0 then SET_FLAG F_CF m else m)
               in (dbyte, SET_FLAG F_AF m)
             else (dbyte, CLEAR_FLAG F_AF m));
          (dbyte, m) =
            (if ACCESS_FLAG F_CF m \<or> dbyte AND 0xf0 > 0x90 then (dbyte - 0x60, SET_FLAG F_CF m)
             else (dbyte, CLEAR_FLAG F_CF m));
          m = set_l EAX (ucast dbyte) m;
          m = CONDITIONAL_SET_FLAG (reg_l EAX m AND 0x80 \<noteq> 0) F_SF m;
          m = CONDITIONAL_SET_FLAG (reg_l EAX m = 0) F_ZF m;
          m = CONDITIONAL_SET_FLAG (PARITY (ucast (reg_l EAX m))) F_PF m
      in end_instr m)"

definition x86op_xor_byte_RM_R :: "'b handler" where
  "x86op_xor_byte_RM_R = op_RM_R byte_width xor_byte"

definition x86op_xor_word_RM_R :: "'b handler" where
  "x86op_xor_word_RM_R = op_RM_R word_width xor_word"

definition x86op_xor_byte_R_RM :: "'b handler" where
  "x86op_xor_byte_R_RM = op_R_RM byte_width xor_byte"

definition x86op_xor_word_R_RM :: "'b handler" where
  "x86op_xor_word_R_RM = op_R_RM word_width xor_word"

definition x86op_xor_byte_AL_IMM :: "'b handler" where
  "x86op_xor_byte_AL_IMM = op_ACC_IMM byte_width (Lo EAX) xor_byte"

definition x86op_xor_word_AX_IMM :: "'b handler" where
  "x86op_xor_word_AX_IMM = op_ACC_IMM word_width EAX xor_word"

definition x86op_segovr_SS :: "'b handler" where
  "x86op_segovr_SS = prefix_op SYSMODE_SEGOVR_SS"

definition x86op_aaa :: "'b handler" where
  "x86op_aaa ops m =
     (let m = (if reg_l EAX m AND 0xf > 0x9 \<or> ACCESS_FLAG F_AF m then
                 let m = set_l EAX (reg_l EAX m + 0x6) m;
                     m = set_h EAX (reg_h EAX m + 1) m
                 in SET_FLAG F_CF (SET_FLAG F_AF m)
               else CLEAR_FLAG F_AF (CLEAR_FLAG F_CF m))
      in end_instr (set_l EAX (reg_l EAX m AND 0xf) m))"

definition x86op_cmp_byte_RM_R :: "'b handler" where
  "x86op_cmp_byte_RM_R = flags_RM_R byte_width (\<lambda>m d s. snd (cmp_byte m d s))"

definition x86op_cmp_word_RM_R :: "'b handler" where
  "x86op_cmp_word_RM_R = flags_RM_R word_width (\<lambda>m d s. snd (cmp_word m d s))"

definition x86op_cmp_byte_R_RM :: "'b handler" where
  "x86op_cmp_byte_R_RM = flags_R_RM byte_width (\<lambda>m d s. snd (cmp_byte m d s))"

definition x86op_cmp_word_R_RM :: "'b handler" where
  "x86op_cmp_word_R_RM = flags_R_RM word_width (\<lambda>m d s. snd (cmp_word m d s))"

definition x86op_cmp_byte_AL_IMM :: "'b handler" where
  "x86op_cmp_byte_AL_IMM = flags_ACC_IMM byte_width (Lo EAX) (\<lambda>m d s. snd (cmp_byte m d s))"

definition x86op_cmp_word_AX_IMM :: "'b handler" where
  "x86op_cmp_word_AX_IMM = flags_ACC_IMM word_width EAX (\<lambda>m d s. snd (cmp_word m d s))"

definition x86op_segovr_DS :: "'b handler" where
  "x86op_segovr_DS = prefix_op SYSMODE_SEGOVR_DS"

definition x86op_aas :: "'b handler" where
  "x86op_aas ops m =
     (let m = (if reg_l EAX m AND 0xf > 0x9 \<or> ACCESS_FLAG F_AF m then
                 let m = set_l EAX (reg_l EAX m - 0x6) m;
                     m = set_h EAX (reg_h EAX m - 1) m
                 in SET_FLAG F_CF (SET_FLAG F_AF m)
               else CLEAR_FLAG F_AF (CLEAR_FLAG F_CF m))
      in end_instr (set_l EAX (reg_l EAX m AND 0xf) m))"

subsection \<open>0x40 to 0x6f: registers, the stack and string input and output\<close>

definition x86op_inc_AX :: "'b handler" where
  "x86op_inc_AX = op_reg EAX inc_word"

definition x86op_inc_CX :: "'b handler" where
  "x86op_inc_CX = op_reg ECX inc_word"

definition x86op_inc_DX :: "'b handler" where
  "x86op_inc_DX = op_reg EDX inc_word"

definition x86op_inc_BX :: "'b handler" where
  "x86op_inc_BX = op_reg EBX inc_word"

definition x86op_inc_SP :: "'b handler" where
  "x86op_inc_SP = op_reg ESP inc_word"

definition x86op_inc_BP :: "'b handler" where
  "x86op_inc_BP = op_reg EBP inc_word"

definition x86op_inc_SI :: "'b handler" where
  "x86op_inc_SI = op_reg ESI inc_word"

definition x86op_inc_DI :: "'b handler" where
  "x86op_inc_DI = op_reg EDI inc_word"

definition x86op_dec_AX :: "'b handler" where
  "x86op_dec_AX = op_reg EAX dec_word"

definition x86op_dec_CX :: "'b handler" where
  "x86op_dec_CX = op_reg ECX dec_word"

definition x86op_dec_DX :: "'b handler" where
  "x86op_dec_DX = op_reg EDX dec_word"

definition x86op_dec_BX :: "'b handler" where
  "x86op_dec_BX = op_reg EBX dec_word"

definition x86op_dec_SP :: "'b handler" where
  "x86op_dec_SP = op_reg ESP dec_word"

definition x86op_dec_BP :: "'b handler" where
  "x86op_dec_BP = op_reg EBP dec_word"

definition x86op_dec_SI :: "'b handler" where
  "x86op_dec_SI = op_reg ESI dec_word"

definition x86op_dec_DI :: "'b handler" where
  "x86op_dec_DI = op_reg EDI dec_word"

definition x86op_push_AX :: "'b handler" where
  "x86op_push_AX = push_reg EAX"

definition x86op_push_CX :: "'b handler" where
  "x86op_push_CX = push_reg ECX"

definition x86op_push_DX :: "'b handler" where
  "x86op_push_DX = push_reg EDX"

definition x86op_push_BX :: "'b handler" where
  "x86op_push_BX = push_reg EBX"

definition x86op_push_SP :: "'b handler" where
  "x86op_push_SP ops m = end_instr (push_word ops m (reg_x ESP m - 2))"

definition x86op_push_BP :: "'b handler" where
  "x86op_push_BP = push_reg EBP"

definition x86op_push_SI :: "'b handler" where
  "x86op_push_SI = push_reg ESI"

definition x86op_push_DI :: "'b handler" where
  "x86op_push_DI = push_reg EDI"

definition x86op_pop_AX :: "'b handler" where
  "x86op_pop_AX = pop_reg EAX"

definition x86op_pop_CX :: "'b handler" where
  "x86op_pop_CX = pop_reg ECX"

definition x86op_pop_DX :: "'b handler" where
  "x86op_pop_DX = pop_reg EDX"

definition x86op_pop_BX :: "'b handler" where
  "x86op_pop_BX = pop_reg EBX"

definition x86op_pop_SP :: "'b handler" where
  "x86op_pop_SP = pop_reg ESP"

definition x86op_pop_BP :: "'b handler" where
  "x86op_pop_BP = pop_reg EBP"

definition x86op_pop_SI :: "'b handler" where
  "x86op_pop_SI = pop_reg ESI"

definition x86op_pop_DI :: "'b handler" where
  "x86op_pop_DI = pop_reg EDI"

definition x86op_push_all :: "'b handler" where
  "x86op_push_all ops m =
     (if data32 m then
        let old_sp = reg_e ESP m;
            m = push_long ops m (reg_e EAX m);
            m = push_long ops m (reg_e ECX m);
            m = push_long ops m (reg_e EDX m);
            m = push_long ops m (reg_e EBX m);
            m = push_long ops m old_sp;
            m = push_long ops m (reg_e EBP m);
            m = push_long ops m (reg_e ESI m);
            m = push_long ops m (reg_e EDI m)
        in end_instr m
      else
        let old_sp = reg_x ESP m;
            m = push_word ops m (reg_x EAX m);
            m = push_word ops m (reg_x ECX m);
            m = push_word ops m (reg_x EDX m);
            m = push_word ops m (reg_x EBX m);
            m = push_word ops m old_sp;
            m = push_word ops m (reg_x EBP m);
            m = push_word ops m (reg_x ESI m);
            m = push_word ops m (reg_x EDI m)
        in end_instr m)"

definition x86op_pop_all :: "'b handler" where
  "x86op_pop_all ops m =
     (if data32 m then
        let (v, m) = pop_long ops m; m = set_e EDI v m;
            (v, m) = pop_long ops m; m = set_e ESI v m;
            (v, m) = pop_long ops m; m = set_e EBP v m;
            m = set_e ESP (reg_e ESP m + 4) m;
            (v, m) = pop_long ops m; m = set_e EBX v m;
            (v, m) = pop_long ops m; m = set_e EDX v m;
            (v, m) = pop_long ops m; m = set_e ECX v m;
            (v, m) = pop_long ops m; m = set_e EAX v m
        in end_instr m
      else
        let (v, m) = pop_word ops m; m = set_x EDI v m;
            (v, m) = pop_word ops m; m = set_x ESI v m;
            (v, m) = pop_word ops m; m = set_x EBP v m;
            m = set_x ESP (reg_x ESP m + 2) m;
            (v, m) = pop_word ops m; m = set_x EBX v m;
            (v, m) = pop_word ops m; m = set_x EDX v m;
            (v, m) = pop_word ops m; m = set_x ECX v m;
            (v, m) = pop_word ops m; m = set_x EAX v m
        in end_instr m)"

definition x86op_prefix_data :: "'b handler" where
  "x86op_prefix_data = prefix_op SYSMODE_PREFIX_DATA"

definition x86op_ins_byte :: "'b handler" where
  "x86op_ins_byte ops m = end_instr (ins ops m 1)"

definition x86op_ins_word :: "'b handler" where
  "x86op_ins_word ops m = end_instr (if data32 m then ins ops m 4 else ins ops m 2)"

definition x86op_outs_byte :: "'b handler" where
  "x86op_outs_byte ops m = end_instr (outs ops m 1)"

definition x86op_outs_word :: "'b handler" where
  "x86op_outs_word ops m = end_instr (if data32 m then outs ops m 4 else outs ops m 2)"

subsection \<open>0x70 to 0x7f: conditional jumps\<close>

definition x86op_jump_near_O :: "'b handler" where
  "x86op_jump_near_O = jump_short_if (\<lambda>m. ACCESS_FLAG F_OF m)"

definition x86op_jump_near_NO :: "'b handler" where
  "x86op_jump_near_NO = jump_short_if (\<lambda>m. \<not> ACCESS_FLAG F_OF m)"

definition x86op_jump_near_B :: "'b handler" where
  "x86op_jump_near_B = jump_short_if (\<lambda>m. ACCESS_FLAG F_CF m)"

definition x86op_jump_near_NB :: "'b handler" where
  "x86op_jump_near_NB = jump_short_if (\<lambda>m. \<not> ACCESS_FLAG F_CF m)"

definition x86op_jump_near_Z :: "'b handler" where
  "x86op_jump_near_Z = jump_short_if (\<lambda>m. ACCESS_FLAG F_ZF m)"

definition x86op_jump_near_NZ :: "'b handler" where
  "x86op_jump_near_NZ = jump_short_if (\<lambda>m. \<not> ACCESS_FLAG F_ZF m)"

definition x86op_jump_near_BE :: "'b handler" where
  "x86op_jump_near_BE = jump_short_if (\<lambda>m. ACCESS_FLAG F_CF m \<or> ACCESS_FLAG F_ZF m)"

definition x86op_jump_near_NBE :: "'b handler" where
  "x86op_jump_near_NBE =
     jump_short_if (\<lambda>m. \<not> (ACCESS_FLAG F_CF m \<or> ACCESS_FLAG F_ZF m))"

definition x86op_jump_near_S :: "'b handler" where
  "x86op_jump_near_S = jump_short_if (\<lambda>m. ACCESS_FLAG F_SF m)"

definition x86op_jump_near_NS :: "'b handler" where
  "x86op_jump_near_NS = jump_short_if (\<lambda>m. \<not> ACCESS_FLAG F_SF m)"

definition x86op_jump_near_P :: "'b handler" where
  "x86op_jump_near_P = jump_short_if (\<lambda>m. ACCESS_FLAG F_PF m)"

definition x86op_jump_near_NP :: "'b handler" where
  "x86op_jump_near_NP = jump_short_if (\<lambda>m. \<not> ACCESS_FLAG F_PF m)"

definition x86op_jump_near_L :: "'b handler" where
  "x86op_jump_near_L = jump_short_if (\<lambda>m. ACCESS_FLAG F_SF m \<noteq> ACCESS_FLAG F_OF m)"

definition x86op_jump_near_NL :: "'b handler" where
  "x86op_jump_near_NL = jump_short_if (\<lambda>m. ACCESS_FLAG F_SF m = ACCESS_FLAG F_OF m)"

definition x86op_jump_near_LE :: "'b handler" where
  "x86op_jump_near_LE =
     jump_short_if (\<lambda>m. (ACCESS_FLAG F_SF m \<noteq> ACCESS_FLAG F_OF m) \<or> ACCESS_FLAG F_ZF m)"

definition x86op_jump_near_NLE :: "'b handler" where
  "x86op_jump_near_NLE =
     jump_short_if (\<lambda>m. (ACCESS_FLAG F_SF m = ACCESS_FLAG F_OF m) \<and> \<not> ACCESS_FLAG F_ZF m)"

subsection \<open>0x80 to 0x8f: immediate operands and moves\<close>

definition x86op_opc80_byte_RM_IMM :: "'b handler" where
  "x86op_opc80_byte_RM_IMM = opc8x_RM_IMM byte_width opc80_byte_operation fetch_byte_imm"

definition x86op_opc81_word_RM_IMM :: "'b handler" where
  "x86op_opc81_word_RM_IMM = opc8x_RM_IMM word_width opc81_word_operation fetch_word_imm"

definition x86op_opc82_byte_RM_IMM :: "'b handler" where
  "x86op_opc82_byte_RM_IMM = opc8x_RM_IMM byte_width opc82_byte_operation fetch_byte_imm"

definition x86op_opc83_word_RM_IMM :: "'b handler" where
  "x86op_opc83_word_RM_IMM = opc8x_RM_IMM word_width opc83_word_operation
     (\<lambda>ops m. let (imm, m) = fetch_byte_imm ops m in (ucast (s8 imm), m))"

definition x86op_test_byte_RM_R :: "'b handler" where
  "x86op_test_byte_RM_R = flags_RM_R byte_width test_byte"

definition x86op_test_word_RM_R :: "'b handler" where
  "x86op_test_word_RM_R = flags_RM_R word_width test_word"

definition x86op_xchg_byte_RM_R :: "'b handler" where
  "x86op_xchg_byte_RM_R = xchg_RM_R byte_width"

definition x86op_xchg_word_RM_R :: "'b handler" where
  "x86op_xchg_word_RM_R = xchg_RM_R word_width"

definition x86op_mov_byte_RM_R :: "'b handler" where
  "x86op_mov_byte_RM_R = mov_RM_R byte_width"

definition x86op_mov_word_RM_R :: "'b handler" where
  "x86op_mov_word_RM_R = mov_RM_R word_width"

definition x86op_mov_byte_R_RM :: "'b handler" where
  "x86op_mov_byte_R_RM = modrm (mov_R_M byte_width) (mov_R_R byte_width)"

definition x86op_mov_word_R_RM :: "'b handler" where
  "x86op_mov_word_R_RM = modrm
     (\<lambda>md rh rl ops m. if data32 m then mov_R_M long_width md rh rl ops m
        else mov_R_M word_width md rh rl ops m)
     (\<lambda>rh rl ops m. if data32 m then mov_R_R long_width rh rl ops m
        else mov_R_R word_width rh rl ops m)"

definition x86op_mov_word_RM_SR :: "'b handler" where
  "x86op_mov_word_RM_SR = modrm
     (\<lambda>md rh rl ops m.
        let (destoffset, m) = decode_rm_address ops m md rl
        in with_seg rh (\<lambda>srcreg m.
             end_instr (store_data_word ops m destoffset (get_seg srcreg m))) m)
     (\<lambda>rh rl ops m.
        with_reg word_width rl (\<lambda>destreg m. with_seg rh (\<lambda>srcreg m.
          end_instr (set_x destreg (get_seg srcreg m) m)) m) m)"

definition x86op_lea_word_R_M :: "'b handler" where
  "x86op_lea_word_R_M = modrm
     (\<lambda>md rh rl ops m.
        with_reg word_width rh (\<lambda>srcreg m.
          let (destoffset, m) = decode_rm_address ops m md rl
          in end_instr (set_x srcreg destoffset m)) m)
     (\<lambda>rh rl ops m. end_instr m)"

definition x86op_mov_word_SR_RM :: "'b handler" where
  "x86op_mov_word_SR_RM = modrm
     (\<lambda>md rh rl ops m.
        with_seg rh (\<lambda>destreg m.
          let (srcoffset, m) = decode_rm_address ops m md rl;
              (srcval, m) = fetch_data_word ops m srcoffset
          in end_instr (put_seg destreg srcval m)) m)
     (\<lambda>rh rl ops m.
        with_seg rh (\<lambda>destreg m. with_reg word_width rl (\<lambda>srcreg m.
          end_instr (put_seg destreg (reg_x srcreg m) m)) m) m)"

definition x86op_pop_RM :: "'b handler" where
  "x86op_pop_RM = modrm
     (\<lambda>md rh rl ops m.
        let m = (if rh \<noteq> 0 then halt_sys m else m);
            (destoffset, m) = decode_rm_address ops m md rl;
            (destval, m) = pop_word ops m
        in end_instr (store_data_word ops m destoffset destval))
     (\<lambda>rh rl ops m.
        let m = (if rh \<noteq> 0 then halt_sys m else m)
        in with_reg word_width rl (\<lambda>destreg m.
             let (v, m) = pop_word ops m in end_instr (set_x destreg v m)) m)"

end
