(* ===== verification/X86_Ops_High.thy ===== *)
theory X86_Ops_High
  imports X86_Operands
begin

text \<open>
  The handlers of \<open>x86_ops.c\<close> for opcodes 0x90 to 0xff, in the order of the file: exchanges, far
  calls, the flags, string instructions, shifts, returns and interrupts, loops, ports, and the
  groups 0xf6, 0xf7, 0xfe and 0xff.
\<close>

definition F_MSK :: u32 where
  "F_MSK = F_CF OR F_PF OR F_AF OR F_ZF OR F_SF OR F_TF OR F_IF OR F_DF OR F_OF"

definition F_ALWAYS_ON :: u16 where "F_ALWAYS_ON = 0xf002"

definition put_flags :: "u32 \<Rightarrow> 'b sysenv \<Rightarrow> 'b sysenv" where
  "put_flags v m = upd (\<lambda>r. r\<lparr>R_FLG := v\<rparr>) m"

text \<open>
  A software interrupt. A vector whose segment is \<open>BIOS_SEG\<close> calls the function of
  \<open>bios_intr_tab\<close>, the argument \<open>bios\<close>; any other is entered as the processor does.
\<close>

type_synonym 'b bios = "u8 \<Rightarrow> 'b bus_ops \<Rightarrow> 'b sysenv \<Rightarrow> 'b sysenv"

definition BIOS_SEG :: u16 where "BIOS_SEG = 0xfff0"

definition software_intr :: "'b bios \<Rightarrow> 'b bus_ops \<Rightarrow> u8 \<Rightarrow> 'b sysenv \<Rightarrow> 'b sysenv" where
  "software_intr bios ops n m =
     (let (tmp, m) = mem_access_word ops m (ucast n * 4 + 2) in
      if tmp = BIOS_SEG then bios n ops m
      else
        let m = push_word ops m (ucast (R_FLG (x86 m)));
            m = CLEAR_FLAG F_IF m;
            m = CLEAR_FLAG F_TF m;
            m = push_word ops m (R_CS (x86 m));
            (tmp, m) = mem_access_word ops m (ucast n * 4 + 2);
            m = put_seg CS tmp m;
            m = push_word ops m (reg_x EIP m);
            (tmp, m) = mem_access_word ops m (ucast n * 4)
        in set_ip tmp m)"

text \<open>The shift operations that \<open>rh\<close> chooses, and the amount of a shift of words.\<close>

definition opcD0_byte_operation :: "('b, u8) binop list" where
  "opcD0_byte_operation =
     [rol_byte, ror_byte, rcl_byte, rcr_byte, shl_byte, shr_byte, shl_byte, sar_byte]"

definition opcD1_word_operation :: "('b, u16) binop list" where
  "opcD1_word_operation =
     [rol_word, ror_word, rcl_word, rcr_word, shl_word, shr_word, shl_word, sar_word]"

definition opcD1_long_operation :: "('b, u32) binop list" where
  "opcD1_long_operation =
     [rol_long, ror_long, rcl_long, rcr_long, shl_long, shr_long, shl_long, sar_long]"

definition fetch_amount :: "'b bus_ops \<Rightarrow> 'b sysenv \<Rightarrow> u16 \<times> 'b sysenv" where
  "fetch_amount ops m = (let (amt, m) = fetch_byte_imm ops m in (ucast amt, m))"

definition mov_RM_IMM :: "('b, 'r, 'v) width \<Rightarrow> 'b handler" where
  "mov_RM_IMM w = modrm
     (\<lambda>md rh rl ops m.
        let m = (if rh \<noteq> 0 then halt_sys m else m);
            (destoffset, m) = decode_rm_address ops m md rl;
            (imm, m) = fetch_imm w ops m
        in end_instr (store_data w ops m destoffset imm))
     (\<lambda>rh rl ops m.
        let m = (if rh \<noteq> 0 then halt_sys m else m)
        in with_reg w rl (\<lambda>destreg m.
             let (imm, m) = fetch_imm w ops m in end_instr (put_r w destreg imm m)) m)"

subsection \<open>0x90 to 0x9f\<close>

definition x86op_nop :: "'b handler" where
  "x86op_nop = simple_op (\<lambda>m. m)"

definition x86op_xchg_word_AX_CX :: "'b handler" where
  "x86op_xchg_word_AX_CX = xchg_AX ECX"

definition x86op_xchg_word_AX_DX :: "'b handler" where
  "x86op_xchg_word_AX_DX = xchg_AX EDX"

definition x86op_xchg_word_AX_BX :: "'b handler" where
  "x86op_xchg_word_AX_BX = xchg_AX EBX"

definition x86op_xchg_word_AX_SP :: "'b handler" where
  "x86op_xchg_word_AX_SP = xchg_AX ESP"

definition x86op_xchg_word_AX_BP :: "'b handler" where
  "x86op_xchg_word_AX_BP = xchg_AX EBP"

definition x86op_xchg_word_AX_SI :: "'b handler" where
  "x86op_xchg_word_AX_SI = xchg_AX ESI"

definition x86op_xchg_word_AX_DI :: "'b handler" where
  "x86op_xchg_word_AX_DI = xchg_AX EDI"

definition x86op_cbw :: "'b handler" where
  "x86op_cbw ops m =
     end_instr (if reg_l EAX m AND 0x80 \<noteq> 0 then set_h EAX 0xff m else set_h EAX 0x0 m)"

definition x86op_cwd :: "'b handler" where
  "x86op_cwd ops m =
     end_instr (if reg_x EAX m AND 0x8000 \<noteq> 0 then set_x EDX 0xffff m else set_x EDX 0x0 m)"

definition x86op_call_far_IMM :: "'b handler" where
  "x86op_call_far_IMM ops m =
     (let (faroff, m) = fetch_word_imm ops m;
          (farseg, m) = fetch_word_imm ops m;
          m = push_word ops m (R_CS (x86 m));
          m = put_seg CS farseg m;
          m = push_word ops m (reg_x EIP m)
      in end_instr (set_ip faroff m))"

definition x86op_wait :: "'b handler" where
  "x86op_wait = simple_op (\<lambda>m. m)"

definition x86op_pushf_word :: "'b handler" where
  "x86op_pushf_word ops m =
     (let flags = ucast (R_FLG (x86 m)) :: u16;
          flags = flags AND ucast F_MSK;
          flags = flags OR F_ALWAYS_ON
      in end_instr (push_word ops m flags))"

definition x86op_popf_word :: "'b handler" where
  "x86op_popf_word ops m =
     (let (v, m) = pop_word ops m in end_instr (put_flags (ucast v) m))"

definition x86op_sahf :: "'b handler" where
  "x86op_sahf ops m =
     (let m = put_flags (R_FLG (x86 m) AND 0xffffff00) m
      in end_instr (put_flags (R_FLG (x86 m) OR ucast (reg_h EAX m)) m))"

definition x86op_lahf :: "'b handler" where
  "x86op_lahf ops m =
     (let m = set_h EAX (ucast (R_FLG (x86 m) AND 0xff)) m
      in end_instr (set_h EAX (reg_h EAX m OR 0x2) m))"

subsection \<open>0xa0 to 0xaf: string instructions\<close>

definition x86op_mov_AL_M_IMM :: "'b handler" where
  "x86op_mov_AL_M_IMM ops m =
     (let (offset, m) = fetch_word_imm ops m;
          (destval, m) = fetch_data_byte ops m offset
      in end_instr (set_l EAX destval m))"

definition x86op_mov_AX_M_IMM :: "'b handler" where
  "x86op_mov_AX_M_IMM ops m =
     (let (offset, m) = fetch_word_imm ops m;
          (destval, m) = fetch_data_word ops m offset
      in end_instr (set_x EAX destval m))"

definition x86op_mov_M_AL_IMM :: "'b handler" where
  "x86op_mov_M_AL_IMM ops m =
     (let (offset, m) = fetch_word_imm ops m
      in end_instr (store_data_byte ops m offset (reg_l EAX m)))"

definition x86op_mov_M_AX_IMM :: "'b handler" where
  "x86op_mov_M_AX_IMM ops m =
     (let (offset, m) = fetch_word_imm ops m
      in end_instr (store_data_word ops m offset (reg_x EAX m)))"

definition x86op_movs_byte :: "'b handler" where
  "x86op_movs_byte ops m =
     (let inc = str_step 1 m
      in str_op (movs_access byte_width ops) (\<lambda>m. add_x EDI inc (add_x ESI inc m)) m)"

definition x86op_movs_word :: "'b handler" where
  "x86op_movs_word ops m =
     (let inc = str_step 2 m
      in str_op (movs_access word_width ops) (\<lambda>m. add_x EDI inc (add_x ESI inc m)) m)"

definition x86op_cmps_byte :: "'b handler" where
  "x86op_cmps_byte ops m =
     (let inc = str_step 1 m
      in cmp_op (cmps_access byte_width cmp_byte ops) (\<lambda>m. add_x EDI inc (add_x ESI inc m)) m)"

definition x86op_cmps_word :: "'b handler" where
  "x86op_cmps_word ops m =
     (let inc = str_step 2 m
      in cmp_op (cmps_access word_width cmp_word ops) (\<lambda>m. add_x EDI inc (add_x ESI inc m)) m)"

definition x86op_test_AL_IMM :: "'b handler" where
  "x86op_test_AL_IMM = flags_ACC_IMM byte_width (Lo EAX) test_byte"

definition x86op_test_AX_IMM :: "'b handler" where
  "x86op_test_AX_IMM = flags_ACC_IMM word_width EAX test_word"

definition x86op_stos_byte :: "'b handler" where
  "x86op_stos_byte ops m =
     (let inc = str_step 1 m in str_op (stos_access byte_width (Lo EAX) ops) (add_x EDI inc) m)"

definition x86op_stos_word :: "'b handler" where
  "x86op_stos_word ops m =
     (let inc = str_step (if data32 m then 4 else 2) m
      in str_op (\<lambda>m. if data32 m then stos_access long_width EAX ops m
           else stos_access word_width EAX ops m) (add_x EDI inc) m)"

definition x86op_lods_byte :: "'b handler" where
  "x86op_lods_byte ops m =
     (let inc = str_step 1 m in str_op (lods_access byte_width (Lo EAX) ops) (add_x ESI inc) m)"

definition x86op_lods_word :: "'b handler" where
  "x86op_lods_word ops m =
     (let inc = str_step 2 m in str_op (lods_access word_width EAX ops) (add_x ESI inc) m)"

definition x86op_scas_byte :: "'b handler" where
  "x86op_scas_byte ops m =
     (let inc = str_step 1 m in cmp_op (scas_access byte_width (Lo EAX) cmp_byte ops) (add_x EDI inc) m)"

definition x86op_scas_word :: "'b handler" where
  "x86op_scas_word ops m =
     (let inc = str_step (if data32 m then 4 else 2) m
      in cmp_op (\<lambda>m. if data32 m then scas_access long_width EAX cmp_long ops m
           else scas_access word_width EAX cmp_word ops m) (add_x EDI inc) m)"

subsection \<open>0xb0 to 0xcf: immediate moves, shifts, returns and interrupts\<close>

definition x86op_mov_byte_AL_IMM :: "'b handler" where
  "x86op_mov_byte_AL_IMM = mov_IMM byte_width (Lo EAX)"

definition x86op_mov_byte_CL_IMM :: "'b handler" where
  "x86op_mov_byte_CL_IMM = mov_IMM byte_width (Lo ECX)"

definition x86op_mov_byte_DL_IMM :: "'b handler" where
  "x86op_mov_byte_DL_IMM = mov_IMM byte_width (Lo EDX)"

definition x86op_mov_byte_BL_IMM :: "'b handler" where
  "x86op_mov_byte_BL_IMM = mov_IMM byte_width (Lo EBX)"

definition x86op_mov_byte_AH_IMM :: "'b handler" where
  "x86op_mov_byte_AH_IMM = mov_IMM byte_width (Hi EAX)"

definition x86op_mov_byte_CH_IMM :: "'b handler" where
  "x86op_mov_byte_CH_IMM = mov_IMM byte_width (Hi ECX)"

definition x86op_mov_byte_DH_IMM :: "'b handler" where
  "x86op_mov_byte_DH_IMM = mov_IMM byte_width (Hi EDX)"

definition x86op_mov_byte_BH_IMM :: "'b handler" where
  "x86op_mov_byte_BH_IMM = mov_IMM byte_width (Hi EBX)"

definition x86op_mov_word_AX_IMM :: "'b handler" where
  "x86op_mov_word_AX_IMM ops m =
     (let (imm, m) = (if data32 m then fetch_long_imm ops m
            else let (imm, m) = fetch_word_imm ops m in (ucast imm, m))
      in end_instr (set_e EAX imm m))"

definition x86op_mov_word_CX_IMM :: "'b handler" where
  "x86op_mov_word_CX_IMM = mov_IMM word_width ECX"

definition x86op_mov_word_DX_IMM :: "'b handler" where
  "x86op_mov_word_DX_IMM = mov_IMM word_width EDX"

definition x86op_mov_word_BX_IMM :: "'b handler" where
  "x86op_mov_word_BX_IMM = mov_IMM word_width EBX"

definition x86op_mov_word_SP_IMM :: "'b handler" where
  "x86op_mov_word_SP_IMM = mov_IMM word_width ESP"

definition x86op_mov_word_BP_IMM :: "'b handler" where
  "x86op_mov_word_BP_IMM = mov_IMM word_width EBP"

definition x86op_mov_word_SI_IMM :: "'b handler" where
  "x86op_mov_word_SI_IMM = mov_IMM word_width ESI"

definition x86op_mov_word_DI_IMM :: "'b handler" where
  "x86op_mov_word_DI_IMM = mov_IMM word_width EDI"

definition x86op_opcC0_byte_RM_MEM :: "'b handler" where
  "x86op_opcC0_byte_RM_MEM = modrm (shift_mem byte_width opcD0_byte_operation fetch_byte_imm)
     (shift_reg byte_width opcD0_byte_operation fetch_byte_imm)"

definition x86op_opcC1_word_RM_MEM :: "'b handler" where
  "x86op_opcC1_word_RM_MEM = modrm (shift_mem word_width opcD1_word_operation fetch_amount)
     (shift_reg word_width opcD1_word_operation fetch_amount)"

definition x86op_ret_near_IMM :: "'b handler" where
  "x86op_ret_near_IMM ops m =
     (let (imm, m) = fetch_word_imm ops m;
          (ip, m) = pop_word ops m;
          m = set_ip ip m
      in end_instr (set_x ESP (reg_x ESP m + imm) m))"

definition x86op_ret_near :: "'b handler" where
  "x86op_ret_near ops m =
     (let (ip, m) = pop_word ops m in end_instr (set_ip ip m))"

definition x86op_les_R_IMM :: "'b handler" where
  "x86op_les_R_IMM = modrm
     (\<lambda>md rh rl ops m.
        with_reg word_width rh (\<lambda>dstreg m.
          let (srcoffset, m) = decode_rm_address ops m md rl;
              (v, m) = fetch_data_word ops m srcoffset;
              m = set_x dstreg v m;
              (v, m) = fetch_data_word ops m (srcoffset + 2)
          in end_instr (put_seg ES v m)) m)
     (\<lambda>rh rl ops m. end_instr m)"

definition x86op_lds_R_IMM :: "'b handler" where
  "x86op_lds_R_IMM = modrm
     (\<lambda>md rh rl ops m.
        with_reg word_width rh (\<lambda>dstreg m.
          let (srcoffset, m) = decode_rm_address ops m md rl;
              (v, m) = fetch_data_word ops m srcoffset;
              m = set_x dstreg v m;
              (v, m) = fetch_data_word ops m (srcoffset + 2)
          in end_instr (put_seg DS v m)) m)
     (\<lambda>rh rl ops m. end_instr m)"

definition x86op_mov_byte_RM_IMM :: "'b handler" where
  "x86op_mov_byte_RM_IMM = mov_RM_IMM byte_width"

definition x86op_mov_word_RM_IMM :: "'b handler" where
  "x86op_mov_word_RM_IMM = mov_RM_IMM word_width"

definition x86op_ret_far_IMM :: "'b handler" where
  "x86op_ret_far_IMM ops m =
     (let (imm, m) = fetch_word_imm ops m;
          (ip, m) = pop_word ops m;
          m = set_ip ip m;
          (cs, m) = pop_word ops m;
          m = put_seg CS cs m
      in end_instr (set_x ESP (reg_x ESP m + imm) m))"

definition x86op_ret_far :: "'b handler" where
  "x86op_ret_far ops m =
     (let (ip, m) = pop_word ops m;
          m = set_ip ip m;
          (cs, m) = pop_word ops m
      in end_instr (put_seg CS cs m))"

definition x86op_int3 :: "'b bios \<Rightarrow> 'b handler" where
  "x86op_int3 bios ops m = end_instr (software_intr bios ops 3 m)"

definition x86op_int_IMM :: "'b bios \<Rightarrow> 'b handler" where
  "x86op_int_IMM bios ops m =
     (let (intnum, m) = fetch_byte_imm ops m in end_instr (software_intr bios ops intnum m))"

definition x86op_into :: "'b bios \<Rightarrow> 'b handler" where
  "x86op_into bios ops m = end_instr (if ACCESS_FLAG F_OF m then software_intr bios ops 4 m else m)"

definition x86op_iret :: "'b handler" where
  "x86op_iret ops m =
     (let (ip, m) = pop_word ops m;
          m = set_ip ip m;
          (cs, m) = pop_word ops m;
          m = put_seg CS cs m;
          (flags, m) = pop_word ops m
      in end_instr (put_flags (ucast flags) m))"

subsection \<open>0xd0 to 0xdf: shifts\<close>

definition x86op_opcD0_byte_RM_1 :: "'b handler" where
  "x86op_opcD0_byte_RM_1 = modrm (shift_mem byte_width opcD0_byte_operation (\<lambda>ops m. (1, m)))
     (shift_reg byte_width opcD0_byte_operation (\<lambda>ops m. (1, m)))"

definition x86op_opcD1_word_RM_1 :: "'b handler" where
  "x86op_opcD1_word_RM_1 =
     modrm
     (\<lambda>md rh rl ops m.
        if data32 m then shift_mem long_width opcD1_long_operation (\<lambda>ops m. (1, m)) md rh rl ops m
        else shift_mem word_width opcD1_word_operation (\<lambda>ops m. (1, m)) md rh rl ops m)
     (\<lambda>rh rl ops m.
        if data32 m then shift_reg long_width opcD1_long_operation (\<lambda>ops m. (1, m)) rh rl ops m
        else shift_reg word_width opcD1_word_operation (\<lambda>ops m. (1, m)) rh rl ops m)"

definition x86op_opcD2_byte_RM_CL :: "'b handler" where
  "x86op_opcD2_byte_RM_CL = modrm
     (\<lambda>md rh rl ops m. let amt = reg_l ECX m
        in shift_mem byte_width opcD0_byte_operation (\<lambda>ops m. (amt, m)) md rh rl ops m)
     (\<lambda>rh rl ops m. let amt = reg_l ECX m
        in shift_reg byte_width opcD0_byte_operation (\<lambda>ops m. (amt, m)) rh rl ops m)"

definition x86op_opcD3_word_RM_CL :: "'b handler" where
  "x86op_opcD3_word_RM_CL = modrm
     (\<lambda>md rh rl ops m. let amt = ucast (reg_l ECX m)
        in shift_mem word_width opcD1_word_operation (\<lambda>ops m. (amt, m)) md rh rl ops m)
     (\<lambda>rh rl ops m. let amt = ucast (reg_l ECX m)
        in shift_reg word_width opcD1_word_operation (\<lambda>ops m. (amt, m)) rh rl ops m)"

definition x86op_aam :: "'b handler" where
  "x86op_aam ops m =
     (let (a, m) = fetch_byte_imm ops m;
          m = (if a \<noteq> 10 then halt_sys m else m);
          (v, m) = aam_word m (reg_l EAX m)
      in end_instr (set_x EAX v m))"

definition x86op_aad :: "'b handler" where
  "x86op_aad ops m =
     (let (a, m) = fetch_byte_imm ops m;
          (v, m) = aad_word m (reg_x EAX m)
      in end_instr (set_x EAX v m))"

definition x86op_xlat :: "'b handler" where
  "x86op_xlat ops m =
     (let addr = reg_x EBX m + ucast (reg_l EAX m);
          (v, m) = fetch_data_byte ops m addr
      in end_instr (set_l EAX v m))"

subsection \<open>0xe0 to 0xef: loops, ports, calls and jumps\<close>

definition x86op_loopne :: "'b handler" where
  "x86op_loopne ops m =
     (let (offset, m) = fetch_byte_imm ops m;
          ip = ucast (s8 offset + s16 (reg_x EIP m));
          m = add_x ECX (- 1) m
      in end_instr (if reg_x ECX m \<noteq> 0 \<and> \<not> ACCESS_FLAG F_ZF m then set_ip ip m else m))"

definition x86op_loope :: "'b handler" where
  "x86op_loope ops m =
     (let (offset, m) = fetch_byte_imm ops m;
          ip = ucast (s8 offset + s16 (reg_x EIP m));
          m = add_x ECX (- 1) m
      in end_instr (if reg_x ECX m \<noteq> 0 \<and> ACCESS_FLAG F_ZF m then set_ip ip m else m))"

definition x86op_loop :: "'b handler" where
  "x86op_loop ops m =
     (let (offset, m) = fetch_byte_imm ops m;
          ip = ucast (s8 offset + s16 (reg_x EIP m));
          m = add_x ECX (- 1) m
      in end_instr (if reg_x ECX m \<noteq> 0 then set_ip ip m else m))"

definition x86op_jcxz :: "'b handler" where
  "x86op_jcxz = jump_short_if (\<lambda>m. reg_x ECX m = 0)"

definition x86op_in_byte_AL_IMM :: "'b handler" where
  "x86op_in_byte_AL_IMM ops m =
     (let (port, m) = fetch_byte_imm ops m;
          (v, m) = sys_inb ops m (ucast port)
      in end_instr (set_l EAX v m))"

definition x86op_in_word_AX_IMM :: "'b handler" where
  "x86op_in_word_AX_IMM ops m =
     (let (port, m) = fetch_byte_imm ops m;
          (v, m) = sys_inw ops m (ucast port)
      in end_instr (set_x EAX v m))"

definition x86op_out_byte_IMM_AL :: "'b handler" where
  "x86op_out_byte_IMM_AL ops m =
     (let (port, m) = fetch_byte_imm ops m
      in end_instr (sys_outb ops m (ucast port) (reg_l EAX m)))"

definition x86op_out_word_IMM_AX :: "'b handler" where
  "x86op_out_word_IMM_AX ops m =
     (let (port, m) = fetch_byte_imm ops m
      in end_instr (sys_outw ops m (ucast port) (reg_x EAX m)))"

definition x86op_call_near_IMM :: "'b handler" where
  "x86op_call_near_IMM ops m =
     (let (w, m) = fetch_word_imm ops m;
          ip = ucast (s16 w + s16 (reg_x EIP m));
          m = push_word ops m (reg_x EIP m)
      in end_instr (set_ip ip m))"

definition x86op_jump_near_IMM :: "'b handler" where
  "x86op_jump_near_IMM ops m =
     (let (w, m) = fetch_word_imm ops m;
          ip = ucast (s16 w + s16 (reg_x EIP m))
      in end_instr (set_ip ip m))"

definition x86op_jump_far_IMM :: "'b handler" where
  "x86op_jump_far_IMM ops m =
     (let (ip, m) = fetch_word_imm ops m;
          (cs, m) = fetch_word_imm ops m;
          m = set_ip ip m
      in end_instr (put_seg CS cs m))"

definition x86op_jump_byte_IMM :: "'b handler" where
  "x86op_jump_byte_IMM = jump_short_if (\<lambda>m. True)"

definition x86op_in_byte_AL_DX :: "'b handler" where
  "x86op_in_byte_AL_DX ops m =
     (let (v, m) = sys_inb ops m (ucast (reg_x EDX m)) in end_instr (set_l EAX v m))"

definition x86op_in_word_AX_DX :: "'b handler" where
  "x86op_in_word_AX_DX ops m =
     (let (v, m) = sys_inw ops m (ucast (reg_x EDX m)) in end_instr (set_x EAX v m))"

definition x86op_out_byte_DX_AL :: "'b handler" where
  "x86op_out_byte_DX_AL ops m = end_instr (sys_outb ops m (ucast (reg_x EDX m)) (reg_l EAX m))"

definition x86op_out_word_DX_AX :: "'b handler" where
  "x86op_out_word_DX_AX ops m = end_instr (sys_outw ops m (ucast (reg_x EDX m)) (reg_x EAX m))"

subsection \<open>0xf0 to 0xff: prefixes, flags and groups\<close>

definition x86op_lock :: "'b handler" where
  "x86op_lock = simple_op (\<lambda>m. m)"

definition x86op_repne :: "'b handler" where
  "x86op_repne = simple_op (set_mode SYSMODE_PREFIX_REPNE)"

definition x86op_repe :: "'b handler" where
  "x86op_repe = simple_op (set_mode SYSMODE_PREFIX_REPE)"

definition x86op_halt :: "'b handler" where
  "x86op_halt = simple_op halt_sys"

definition x86op_cmc :: "'b handler" where
  "x86op_cmc = simple_op (TOGGLE_FLAG F_CF)"

definition opcF6_mem :: "u16 \<Rightarrow> u16 \<Rightarrow> u16 \<Rightarrow> 'b handler" where
  "opcF6_mem md rh rl ops m =
     (if rh = 0 then
        let (destoffset, m) = decode_rm_address ops m md rl;
            (srcval, m) = fetch_byte_imm ops m;
            (destval, m) = fetch_data_byte ops m destoffset
        in end_instr (test_byte m destval srcval)
      else if rh = 1 then end_instr (halt_sys m)
      else
        let (destoffset, m) = decode_rm_address ops m md rl;
            (destval, m) = fetch_data_byte ops m destoffset in
        if rh = 2 then end_instr (store_data_byte ops m destoffset (not_byte destval))
        else if rh = 3 then
          let (destval, m) = neg_byte m destval in end_instr (store_data_byte ops m destoffset destval)
        else if rh = 4 then end_instr (mul_byte m destval)
        else if rh = 5 then end_instr (imul_byte m destval)
        else if rh = 6 then end_instr (div_byte m destval)
        else end_instr (idiv_byte m destval))"

definition opcF6_reg :: "u16 \<Rightarrow> u16 \<Rightarrow> 'b handler" where
  "opcF6_reg rh rl ops m =
     (if rh = 1 then end_instr (halt_sys m)
      else with_reg byte_width rl (\<lambda>destreg m.
        if rh = 0 then
          let (srcval, m) = fetch_byte_imm ops m in end_instr (test_byte m (get8 destreg m) srcval)
        else if rh = 2 then end_instr (put8 destreg (not_byte (get8 destreg m)) m)
        else if rh = 3 then
          let (v, m) = neg_byte m (get8 destreg m) in end_instr (put8 destreg v m)
        else if rh = 4 then end_instr (mul_byte m (get8 destreg m))
        else if rh = 5 then end_instr (imul_byte m (get8 destreg m))
        else if rh = 6 then end_instr (div_byte m (get8 destreg m))
        else end_instr (idiv_byte m (get8 destreg m))) m)"

definition x86op_opcF6_byte_RM :: "'b handler" where
  "x86op_opcF6_byte_RM = modrm opcF6_mem opcF6_reg"

definition opcF7_mem :: "u16 \<Rightarrow> u16 \<Rightarrow> u16 \<Rightarrow> 'b handler" where
  "opcF7_mem md rh rl ops m =
     (if rh = 0 then
        let (destoffset, m) = decode_rm_address ops m md rl;
            (srcval, m) = fetch_word_imm ops m;
            (destval, m) = fetch_data_word ops m destoffset
        in end_instr (test_word m destval srcval)
      else if rh = 1 then end_instr (halt_sys m)
      else
        let (destoffset, m) = decode_rm_address ops m md rl;
            (destval, m) = fetch_data_word ops m destoffset in
        if rh = 2 then end_instr (store_data_word ops m destoffset (not_word destval))
        else if rh = 3 then
          let (destval, m) = neg_word m destval in end_instr (store_data_word ops m destoffset destval)
        else if rh = 4 then end_instr (mul_word m destval)
        else if rh = 5 then end_instr (imul_word m destval)
        else if rh = 6 then end_instr (div_word m destval)
        else end_instr (idiv_word m destval))"

definition opcF7_reg :: "u16 \<Rightarrow> u16 \<Rightarrow> 'b handler" where
  "opcF7_reg rh rl ops m =
     (if rh = 1 then end_instr (halt_sys m)
      else with_reg word_width rl (\<lambda>destreg m.
        if rh = 0 then
          let (srcval, m) = fetch_word_imm ops m in end_instr (test_word m (reg_x destreg m) srcval)
        else if rh = 2 then end_instr (set_x destreg (not_word (reg_x destreg m)) m)
        else if rh = 3 then
          let (v, m) = neg_word m (reg_x destreg m) in end_instr (set_x destreg v m)
        else if rh = 4 then end_instr (mul_word m (reg_x destreg m))
        else if rh = 5 then end_instr (imul_word m (reg_x destreg m))
        else if rh = 6 then end_instr (div_word m (reg_x destreg m))
        else end_instr (idiv_word m (reg_x destreg m))) m)"

definition x86op_opcF7_word_RM :: "'b handler" where
  "x86op_opcF7_word_RM = modrm opcF7_mem opcF7_reg"

definition x86op_clc :: "'b handler" where
  "x86op_clc = simple_op (CLEAR_FLAG F_CF)"

definition x86op_stc :: "'b handler" where
  "x86op_stc = simple_op (SET_FLAG F_CF)"

definition x86op_cli :: "'b handler" where
  "x86op_cli = simple_op (CLEAR_FLAG F_IF)"

definition x86op_sti :: "'b handler" where
  "x86op_sti = simple_op (SET_FLAG F_IF)"

definition x86op_cld :: "'b handler" where
  "x86op_cld = simple_op (CLEAR_FLAG F_DF)"

definition x86op_std :: "'b handler" where
  "x86op_std = simple_op (SET_FLAG F_DF)"

definition x86op_opcFE_byte_RM :: "'b handler" where
  "x86op_opcFE_byte_RM = modrm
     (\<lambda>md rh rl ops m.
        let (destoffset, m) = decode_rm_address ops m md rl in
        if rh = 0 \<or> rh = 1 then
          let (destval, m) = fetch_data_byte ops m destoffset;
              (destval, m) = (if rh = 0 then inc_byte m destval else dec_byte m destval)
          in end_instr (store_data_byte ops m destoffset destval)
        else end_instr m)
     (\<lambda>rh rl ops m.
        with_reg byte_width rl (\<lambda>destreg m.
          if rh = 0 \<or> rh = 1 then
            let (v, m) = (if rh = 0 then inc_byte m (get8 destreg m) else dec_byte m (get8 destreg m))
            in end_instr (put8 destreg v m)
          else end_instr m) m)"

definition opcFF_mem :: "u16 \<Rightarrow> u16 \<Rightarrow> u16 \<Rightarrow> 'b handler" where
  "opcFF_mem md rh rl ops m =
     (let (destoffset, m) = decode_rm_address ops m md rl in
      if rh = 0 \<or> rh = 1 then
        let (destval, m) = fetch_data_word ops m destoffset;
            (destval, m) = (if rh = 0 then inc_word m destval else dec_word m destval)
        in end_instr (store_data_word ops m destoffset destval)
      else if rh = 2 then
        let (destval, m) = fetch_data_word ops m destoffset;
            m = push_word ops m (reg_x EIP m)
        in end_instr (set_ip destval m)
      else if rh = 3 then
        let (destval, m) = fetch_data_word ops m destoffset;
            (destval2, m) = fetch_data_word ops m (destoffset + 2);
            m = push_word ops m (R_CS (x86 m));
            m = put_seg CS destval2 m;
            m = push_word ops m (reg_x EIP m)
        in end_instr (set_ip destval m)
      else if rh = 4 then
        let (destval, m) = fetch_data_word ops m destoffset in end_instr (set_ip destval m)
      else if rh = 5 then
        let (destval, m) = fetch_data_word ops m destoffset;
            (destval2, m) = fetch_data_word ops m (destoffset + 2);
            m = set_ip destval m
        in end_instr (put_seg CS destval2 m)
      else if rh = 6 then
        let (destval, m) = fetch_data_word ops m destoffset in end_instr (push_word ops m destval)
      else end_instr m)"

definition opcFF_reg :: "u16 \<Rightarrow> u16 \<Rightarrow> 'b handler" where
  "opcFF_reg rh rl ops m =
     with_reg word_width rl (\<lambda>destreg m.
       if rh = 0 then let (v, m) = inc_word m (reg_x destreg m) in end_instr (set_x destreg v m)
       else if rh = 1 then let (v, m) = dec_word m (reg_x destreg m) in end_instr (set_x destreg v m)
       else if rh = 2 then
         let m = push_word ops m (reg_x EIP m) in end_instr (set_ip (reg_x destreg m) m)
       else if rh = 3 then end_instr (halt_sys m)
       else if rh = 4 then end_instr (set_ip (reg_x destreg m) m)
       else if rh = 5 then end_instr (halt_sys m)
       else if rh = 6 then end_instr (push_word ops m (reg_x destreg m))
       else end_instr m) m"

definition x86op_opcFF_word_RM :: "'b handler" where
  "x86op_opcFF_word_RM = modrm opcFF_mem opcFF_reg"

end
