(* ===== verification/X86_Bios.thy ===== *)
theory X86_Bios
  imports X86_Ops_High
begin

text \<open>
  The emulated BIOS, \<open>x86_bios.c\<close>: the table of interrupt functions, the video function 0x10 that
  turns the memory of the card on and off, and the PCI functions 0x1a. The PCI accesses are the
  kernel's and a record of functions here; a function that is handed a pointer to a register takes
  and returns its value. The messages are not modelled.
\<close>

record ('b, 'd) pci_ops =
  PCIBIOS_SUCCESSFUL :: int
  pci_find_slot :: "u32 \<Rightarrow> u32 \<Rightarrow> 'd"
  pcibios_find_device :: "u16 \<Rightarrow> u16 \<Rightarrow> int \<Rightarrow> u8 \<Rightarrow> u8 \<Rightarrow> 'b \<Rightarrow> int \<times> u8 \<times> u8 \<times> 'b"
  pcibios_find_class :: "u32 \<Rightarrow> u16 \<Rightarrow> u8 \<Rightarrow> u8 \<Rightarrow> 'b \<Rightarrow> int \<times> u8 \<times> u8 \<times> 'b"
  pci_read_config_byte :: "'d \<Rightarrow> u16 \<Rightarrow> u8 \<Rightarrow> 'b \<Rightarrow> int \<times> u8 \<times> 'b"
  pci_read_config_word :: "'d \<Rightarrow> u16 \<Rightarrow> u16 \<Rightarrow> 'b \<Rightarrow> int \<times> u16 \<times> 'b"
  pci_read_config_dword :: "'d \<Rightarrow> u16 \<Rightarrow> u32 \<Rightarrow> 'b \<Rightarrow> int \<times> u32 \<times> 'b"
  pci_write_config_byte :: "'d \<Rightarrow> u16 \<Rightarrow> u8 \<Rightarrow> 'b \<Rightarrow> int \<times> 'b"
  pci_write_config_word :: "'d \<Rightarrow> u16 \<Rightarrow> u16 \<Rightarrow> 'b \<Rightarrow> int \<times> 'b"
  pci_write_config_dword :: "'d \<Rightarrow> u16 \<Rightarrow> u32 \<Rightarrow> 'b \<Rightarrow> int \<times> 'b"

definition undefined_intr :: "'b bios" where
  "undefined_intr intnum ops m = m"

definition int10 :: "'b bios" where
  "int10 intnum ops m =
     (if reg_h EAX m = 0x12 \<and> reg_l EBX m = 0x32 then
        if reg_l EAX m = 0 then
          let (v, m) = sys_inb ops m 0x3cc in sys_outb ops m 0x3c2 (v OR 0x02)
        else if reg_l EAX m = 1 then
          let (v, m) = sys_inb ops m 0x3cc in sys_outb ops m 0x3c2 (v AND NOT 0x02)
        else m
      else m)"

text \<open>The status in AH, and CF when it is not success.\<close>

definition pci_status :: "('b, 'd) pci_ops \<Rightarrow> int \<Rightarrow> 'b sysenv \<Rightarrow> 'b sysenv" where
  "pci_status pci status m =
     (let m = set_h EAX (word_of_int status) m
      in CONDITIONAL_SET_FLAG (uint (reg_h EAX m) \<noteq> PCIBIOS_SUCCESSFUL pci) F_CF m)"

definition pci_slot :: "('b, 'd) pci_ops \<Rightarrow> 'b sysenv \<Rightarrow> 'd" where
  "pci_slot pci m = pci_find_slot pci (ucast (reg_h EBX m)) (ucast (reg_l EBX m))"

definition int1a :: "('b, 'd) pci_ops \<Rightarrow> 'b bios" where
  "int1a pci intnum ops m =
     (let ax = reg_x EAX m; di = reg_x EDI m in
      if ax = 0xb101 then
        let m = set_e EAX 0x00 m;
            m = set_l EAX 0x01 m;
            m = set_e EDX 0x20494350 m;
            m = set_e EBX 0x0210 m;
            m = set_e ECX (reg_e ECX m AND 0xFF00) m;
            m = set_l ECX 0 m
        in CLEAR_FLAG F_CF m
      else if ax = 0xb102 then
        let (s, bh, bl, b) = pcibios_find_device pci (reg_x EDX m) (reg_x ECX m)
              (uint (reg_x ESI m) - 2) (reg_h EBX m) (reg_l EBX m) (bus m)
        in pci_status pci s (set_l EBX bl (set_h EBX bh (m\<lparr>bus := b\<rparr>)))
      else if ax = 0xb103 then
        let (s, bh, bl, b) = pcibios_find_class pci (reg_e ECX m) (reg_x ESI m)
              (reg_h EBX m) (reg_l EBX m) (bus m)
        in pci_status pci s (set_l EBX bl (set_h EBX bh (m\<lparr>bus := b\<rparr>)))
      else if ax = 0xb108 then
        let (s, v, b) = pci_read_config_byte pci (pci_slot pci m) di (reg_l ECX m) (bus m)
        in pci_status pci s (set_l ECX v (m\<lparr>bus := b\<rparr>))
      else if ax = 0xb109 then
        let (s, v, b) = pci_read_config_word pci (pci_slot pci m) di (reg_x ECX m) (bus m)
        in pci_status pci s (set_x ECX v (m\<lparr>bus := b\<rparr>))
      else if ax = 0xb10a then
        let (s, v, b) = pci_read_config_dword pci (pci_slot pci m) di (reg_e ECX m) (bus m)
        in pci_status pci s (set_e ECX v (m\<lparr>bus := b\<rparr>))
      else if ax = 0xb10b then
        let (s, b) = pci_write_config_byte pci (pci_slot pci m) di (reg_l ECX m) (bus m)
        in pci_status pci s (m\<lparr>bus := b\<rparr>)
      else if ax = 0xb10c then
        let (s, b) = pci_write_config_word pci (pci_slot pci m) di (reg_x ECX m) (bus m)
        in pci_status pci s (m\<lparr>bus := b\<rparr>)
      else if ax = 0xb10d then
        let (s, b) = pci_write_config_dword pci (pci_slot pci m) di (reg_e ECX m) (bus m)
        in pci_status pci s (m\<lparr>bus := b\<rparr>)
      else m)"

text \<open>\<open>bios_intr_tab\<close> and the vectors as \<open>x86_bios_init\<close> leaves them.\<close>

definition bios_intr_tab :: "('b, 'd) pci_ops \<Rightarrow> 'b bios" where
  "bios_intr_tab pci intnum =
     (if intnum = 0x10 then int10 intnum else if intnum = 0x1a then int1a pci intnum
      else undefined_intr intnum)"

text \<open>\<open>((u32 *) m->mem_base)[i] = v\<close>.\<close>

definition store_vector :: "nat \<Rightarrow> u32 \<Rightarrow> 'b sysenv \<Rightarrow> 'b sysenv" where
  "store_vector i v m =
     (let a = of_nat (4 * i)
      in set_ram (a + 3) (byte_of 3 (ucast v)) (set_ram (a + 2) (byte_of 2 (ucast v))
           (set_ram (a + 1) (byte_of 1 (ucast v)) (set_ram a (byte_of 0 (ucast v)) m))))"

definition x86_bios_init :: "'b sysenv \<Rightarrow> 'b sysenv" where
  "x86_bios_init m = fold (\<lambda>i m. store_vector i (push_bit 16 (ucast BIOS_SEG)) m) [0..<256] m"

end
