(* ===== verification/X86_Exec.thy ===== *)
theory X86_Exec
  imports X86_Ops_Low X86_Bios
begin

text \<open>
  The operation table \<open>x86_optab\<close>, the coprocessor opcodes of \<open>x86_fpu.c\<close> (built without
  \<open>X86_FPU_PRESENT\<close> they decode their operand and do nothing), and the main loop \<open>x86_exec\<close>.
\<close>

definition esc_modrm :: "'b handler" where
  "esc_modrm = modrm
     (\<lambda>md rh rl ops m. let (destoffset, m) = decode_rm_address ops m md rl in end_instr m)
     (\<lambda>rh rl ops m. end_instr m)"

definition x86op_esc_coprocess_d8 :: "'b handler" where
  "x86op_esc_coprocess_d8 = simple_op (\<lambda>m. m)"

definition x86op_esc_coprocess_d9 :: "'b handler" where
  "x86op_esc_coprocess_d9 = esc_modrm"

definition x86op_esc_coprocess_da :: "'b handler" where
  "x86op_esc_coprocess_da = esc_modrm"

definition x86op_esc_coprocess_db :: "'b handler" where
  "x86op_esc_coprocess_db = esc_modrm"

definition x86op_esc_coprocess_dc :: "'b handler" where
  "x86op_esc_coprocess_dc = esc_modrm"

definition x86op_esc_coprocess_dd :: "'b handler" where
  "x86op_esc_coprocess_dd = esc_modrm"

definition x86op_esc_coprocess_de :: "'b handler" where
  "x86op_esc_coprocess_de = esc_modrm"

definition x86op_esc_coprocess_df :: "'b handler" where
  "x86op_esc_coprocess_df = esc_modrm"

text \<open>The table, sixteen opcodes to a row.\<close>

definition x86_optab_rows :: "'b bios \<Rightarrow> 'b handler list list" where
  "x86_optab_rows bios = [
     [x86op_add_byte_RM_R, x86op_add_word_RM_R, x86op_add_byte_R_RM, x86op_add_word_R_RM,
      x86op_add_byte_AL_IMM, x86op_add_word_AX_IMM, x86op_push_ES, x86op_pop_ES, x86op_or_byte_RM_R,
      x86op_or_word_RM_R, x86op_or_byte_R_RM, x86op_or_word_R_RM, x86op_or_byte_AL_IMM,
      x86op_or_word_AX_IMM, x86op_push_CS, x86op_two_byte],
     [x86op_adc_byte_RM_R, x86op_adc_word_RM_R, x86op_adc_byte_R_RM, x86op_adc_word_R_RM,
      x86op_adc_byte_AL_IMM, x86op_adc_word_AX_IMM, x86op_push_SS, x86op_pop_SS,
      x86op_sbb_byte_RM_R, x86op_sbb_word_RM_R, x86op_sbb_byte_R_RM, x86op_sbb_word_R_RM,
      x86op_sbb_byte_AL_IMM, x86op_sbb_word_AX_IMM, x86op_push_DS, x86op_pop_DS],
     [x86op_and_byte_RM_R, x86op_and_word_RM_R, x86op_and_byte_R_RM, x86op_and_word_R_RM,
      x86op_and_byte_AL_IMM, x86op_and_word_AX_IMM, x86op_segovr_ES, x86op_daa, x86op_sub_byte_RM_R,
      x86op_sub_word_RM_R, x86op_sub_byte_R_RM, x86op_sub_word_R_RM, x86op_sub_byte_AL_IMM,
      x86op_sub_word_AX_IMM, x86op_segovr_CS, x86op_das],
     [x86op_xor_byte_RM_R, x86op_xor_word_RM_R, x86op_xor_byte_R_RM, x86op_xor_word_R_RM,
      x86op_xor_byte_AL_IMM, x86op_xor_word_AX_IMM, x86op_segovr_SS, x86op_aaa, x86op_cmp_byte_RM_R,
      x86op_cmp_word_RM_R, x86op_cmp_byte_R_RM, x86op_cmp_word_R_RM, x86op_cmp_byte_AL_IMM,
      x86op_cmp_word_AX_IMM, x86op_segovr_DS, x86op_aas],
     [x86op_inc_AX, x86op_inc_CX, x86op_inc_DX, x86op_inc_BX, x86op_inc_SP, x86op_inc_BP,
      x86op_inc_SI, x86op_inc_DI, x86op_dec_AX, x86op_dec_CX, x86op_dec_DX, x86op_dec_BX,
      x86op_dec_SP, x86op_dec_BP, x86op_dec_SI, x86op_dec_DI],
     [x86op_push_AX, x86op_push_CX, x86op_push_DX, x86op_push_BX, x86op_push_SP, x86op_push_BP,
      x86op_push_SI, x86op_push_DI, x86op_pop_AX, x86op_pop_CX, x86op_pop_DX, x86op_pop_BX,
      x86op_pop_SP, x86op_pop_BP, x86op_pop_SI, x86op_pop_DI],
     [x86op_push_all, x86op_pop_all, x86op_illegal_op, x86op_illegal_op, x86op_illegal_op,
      x86op_illegal_op, x86op_prefix_data, x86op_illegal_op, x86op_illegal_op, x86op_illegal_op,
      x86op_illegal_op, x86op_illegal_op, x86op_ins_byte, x86op_ins_word, x86op_outs_byte,
      x86op_outs_word],
     [x86op_jump_near_O, x86op_jump_near_NO, x86op_jump_near_B, x86op_jump_near_NB,
      x86op_jump_near_Z, x86op_jump_near_NZ, x86op_jump_near_BE, x86op_jump_near_NBE,
      x86op_jump_near_S, x86op_jump_near_NS, x86op_jump_near_P, x86op_jump_near_NP,
      x86op_jump_near_L, x86op_jump_near_NL, x86op_jump_near_LE, x86op_jump_near_NLE],
     [x86op_opc80_byte_RM_IMM, x86op_opc81_word_RM_IMM, x86op_opc82_byte_RM_IMM,
      x86op_opc83_word_RM_IMM, x86op_test_byte_RM_R, x86op_test_word_RM_R, x86op_xchg_byte_RM_R,
      x86op_xchg_word_RM_R, x86op_mov_byte_RM_R, x86op_mov_word_RM_R, x86op_mov_byte_R_RM,
      x86op_mov_word_R_RM, x86op_mov_word_RM_SR, x86op_lea_word_R_M, x86op_mov_word_SR_RM,
      x86op_pop_RM],
     [x86op_nop, x86op_xchg_word_AX_CX, x86op_xchg_word_AX_DX, x86op_xchg_word_AX_BX,
      x86op_xchg_word_AX_SP, x86op_xchg_word_AX_BP, x86op_xchg_word_AX_SI, x86op_xchg_word_AX_DI,
      x86op_cbw, x86op_cwd, x86op_call_far_IMM, x86op_wait, x86op_pushf_word, x86op_popf_word,
      x86op_sahf, x86op_lahf],
     [x86op_mov_AL_M_IMM, x86op_mov_AX_M_IMM, x86op_mov_M_AL_IMM, x86op_mov_M_AX_IMM,
      x86op_movs_byte, x86op_movs_word, x86op_cmps_byte, x86op_cmps_word, x86op_test_AL_IMM,
      x86op_test_AX_IMM, x86op_stos_byte, x86op_stos_word, x86op_lods_byte, x86op_lods_word,
      x86op_scas_byte, x86op_scas_word],
     [x86op_mov_byte_AL_IMM, x86op_mov_byte_CL_IMM, x86op_mov_byte_DL_IMM, x86op_mov_byte_BL_IMM,
      x86op_mov_byte_AH_IMM, x86op_mov_byte_CH_IMM, x86op_mov_byte_DH_IMM, x86op_mov_byte_BH_IMM,
      x86op_mov_word_AX_IMM, x86op_mov_word_CX_IMM, x86op_mov_word_DX_IMM, x86op_mov_word_BX_IMM,
      x86op_mov_word_SP_IMM, x86op_mov_word_BP_IMM, x86op_mov_word_SI_IMM, x86op_mov_word_DI_IMM],
     [x86op_opcC0_byte_RM_MEM, x86op_opcC1_word_RM_MEM, x86op_ret_near_IMM, x86op_ret_near,
      x86op_les_R_IMM, x86op_lds_R_IMM, x86op_mov_byte_RM_IMM, x86op_mov_word_RM_IMM,
      x86op_illegal_op, x86op_illegal_op, x86op_ret_far_IMM, x86op_ret_far, x86op_int3 bios,
      x86op_int_IMM bios, x86op_into bios, x86op_iret],
     [x86op_opcD0_byte_RM_1, x86op_opcD1_word_RM_1, x86op_opcD2_byte_RM_CL, x86op_opcD3_word_RM_CL,
      x86op_aam, x86op_aad, x86op_illegal_op, x86op_xlat, x86op_esc_coprocess_d8,
      x86op_esc_coprocess_d9, x86op_esc_coprocess_da, x86op_esc_coprocess_db,
      x86op_esc_coprocess_dc, x86op_esc_coprocess_dd, x86op_esc_coprocess_de,
      x86op_esc_coprocess_df],
     [x86op_loopne, x86op_loope, x86op_loop, x86op_jcxz, x86op_in_byte_AL_IMM, x86op_in_word_AX_IMM,
      x86op_out_byte_IMM_AL, x86op_out_word_IMM_AX, x86op_call_near_IMM, x86op_jump_near_IMM,
      x86op_jump_far_IMM, x86op_jump_byte_IMM, x86op_in_byte_AL_DX, x86op_in_word_AX_DX,
      x86op_out_byte_DX_AL, x86op_out_word_DX_AX],
     [x86op_lock, x86op_illegal_op, x86op_repne, x86op_repe, x86op_halt, x86op_cmc,
      x86op_opcF6_byte_RM, x86op_opcF7_word_RM, x86op_clc, x86op_stc, x86op_cli, x86op_sti,
      x86op_cld, x86op_std, x86op_opcFE_byte_RM, x86op_opcFF_word_RM]]"

definition x86_optab :: "'b bios \<Rightarrow> u8 \<Rightarrow> 'b handler" where
  "x86_optab bios op1 = x86_optab_rows bios ! unat (drop_bit 4 op1) ! unat (op1 AND 0xf)"

subsection \<open>The main loop\<close>

text \<open>
  One turn of the loop: the pending interrupt, the opcode at \<open>CS:IP++\<close> and its handler. \<open>Inl\<close> is
  the return of \<open>x86_exec\<close>.
\<close>

definition x86_turn :: "'b bios \<Rightarrow> 'b bus_ops \<Rightarrow> 'b sysenv \<Rightarrow> ('b sysenv + 'b sysenv) option" where
  "x86_turn bios ops m =
     (case x86_exec_intr ops m of
        None \<Rightarrow> Some (Inl m)
      | Some m \<Rightarrow>
          let addr = seg_off (R_CS (x86 m)) (reg_x EIP m);
              m = set_x EIP (reg_x EIP m + 1) m;
              (op1, m) = sys_rdb ops m addr
          in map_option Inr (x86_optab bios op1 ops m))"

partial_function (option) x86_loop :: "'b bios \<Rightarrow> 'b bus_ops \<Rightarrow> 'b sysenv \<Rightarrow> 'b sysenv option" where
  "x86_loop bios ops m =
     (case x86_turn bios ops m of
        None \<Rightarrow> None
      | Some (Inl m) \<Rightarrow> Some m
      | Some (Inr m) \<Rightarrow> x86_loop bios ops m)"

text \<open>\<open>None\<close> is an emulator that never returns or follows a null pointer.\<close>

definition x86_exec :: "'b bios \<Rightarrow> 'b bus_ops \<Rightarrow> 'b sysenv \<Rightarrow> 'b sysenv option" where
  "x86_exec bios ops m = x86_loop bios ops (upd (\<lambda>r. r\<lparr>intr := 0\<rparr>) m)"

end
