(* ===== verification/X86_Width.thy ===== *)
theory X86_Width
  imports X86_Exec
begin

text \<open>
  The contract of an operand width, as a locale over the accessors that the handler families use,
  and its interpretations for bytes, words and longs: a field of the modrm byte always names a
  register, and a register reads back what was put in it. From it follows what the families do to
  registers, and that every handler returns.
\<close>

text \<open>The registers that the fields name.\<close>

definition byte_reg :: "u16 \<Rightarrow> reg8" where
  "byte_reg field = [Lo EAX, Lo ECX, Lo EDX, Lo EBX, Hi EAX, Hi ECX, Hi EDX, Hi EBX] ! unat field"

definition word_reg :: "u16 \<Rightarrow> reg32" where
  "word_reg field = [EAX, ECX, EDX, EBX, ESP, EBP, ESI, EDI] ! unat field"

lemma field_cases:
  assumes "(field :: u16) < 8"
  obtains "field = 0" | "field = 1" | "field = 2" | "field = 3" | "field = 4" | "field = 5"
    | "field = 6" | "field = 7"
proof -
  have "unat field < 8" using assms by (simp add: word_less_nat_alt)
  then have "field = word_of_nat (unat field) \<and> unat field \<in> {0, 1, 2, 3, 4, 5, 6, 7}" by auto
  then show thesis using that by (elim conjE insertE) auto
qed

locale operand_width =
  fixes w :: "('b, 'r, 'v) width"
    and reg :: "u16 \<Rightarrow> 'r"
  assumes decode: "field < 8 \<Longrightarrow> decode_reg w m (uint field) = (Some (reg field), m)"
    and get_put: "get_r w p (put_r w p v m) = v"
begin

lemma with_reg_eq: "field < 8 \<Longrightarrow> with_reg w field f m = f (reg field) m"
  by (simp add: with_reg_def decode)

lemma with_reg_returns: "field < 8 \<Longrightarrow> (\<And>p m. f p m \<noteq> None) \<Longrightarrow> with_reg w field f m \<noteq> None"
  by (simp add: with_reg_eq)

end

lemma get_put8: "get8 p (put8 p v m) = v"
  by (cases p) simp_all

interpretation bytes_w: operand_width byte_width byte_reg
proof
  fix field :: u16 and m :: "'b sysenv"
  assume "field < 8"
  then show "decode_reg byte_width m (uint field) = (Some (byte_reg field), m)"
    by (cases rule: field_cases) (simp_all add: byte_width_def decode_rm_byte_register_def byte_reg_def)
qed (simp add: byte_width_def get_put8)

interpretation words_w: operand_width word_width word_reg
proof
  fix field :: u16 and m :: "'b sysenv"
  assume "field < 8"
  then show "decode_reg word_width m (uint field) = (Some (word_reg field), m)"
    by (cases rule: field_cases) (simp_all add: word_width_def decode_rm_word_register_def word_reg_def)
qed (simp add: word_width_def)

interpretation longs_w: operand_width long_width word_reg
proof
  fix field :: u16 and m :: "'b sysenv"
  assume "field < 8"
  then show "decode_reg long_width m (uint field) = (Some (word_reg field), m)"
    by (cases rule: field_cases) (simp_all add: long_width_def decode_rm_long_register_def word_reg_def)
qed (simp add: long_width_def reg_e_def set_e_def)

subsection \<open>The modrm byte\<close>

lemma modrm_fields:
  assumes "fetch_decode_modrm ops m = ((md, rh, rl), m')"
  shows "md < 4" "rh < 8" "rl < 8"
proof -
  have a: "ucast (x AND 0x03) < (4 :: u16)" "ucast (x AND 0x07) < (8 :: u16)" for x :: u8
  proof -
    have "x AND 0x03 \<le> 3" "x AND 0x07 \<le> 7" by (simp_all add: word_and_le1)
    then show "ucast (x AND 0x03) < (4 :: u16)" "ucast (x AND 0x07) < (8 :: u16)"
      by (auto simp: word_le_nat_alt word_less_nat_alt unat_ucast_mod)
  qed
  show "md < 4" "rh < 8" "rl < 8"
    using assms a by (auto simp: fetch_decode_modrm_def Let_def split: prod.splits)
qed

lemma modrm_returns:
  assumes "\<And>md rh rl m. rh < 8 \<Longrightarrow> rl < 8 \<Longrightarrow> mem md rh rl ops m \<noteq> None"
    and "\<And>rh rl m. rh < 8 \<Longrightarrow> rl < 8 \<Longrightarrow> reg rh rl ops m \<noteq> None"
  shows "modrm mem reg ops m \<noteq> None"
  using assms modrm_fields [of ops m] by (auto simp: modrm_def split: prod.splits)

subsection \<open>Every handler returns\<close>

named_theorems returns \<open>handlers and their parts that follow no null pointer\<close>

lemma end_instr_returns [returns]: "end_instr m \<noteq> None"
  by (simp add: end_instr_def)

lemma if_returns [returns]: "(c \<Longrightarrow> x \<noteq> None) \<Longrightarrow> (\<not> c \<Longrightarrow> y \<noteq> None) \<Longrightarrow> (if c then x else y) \<noteq> None"
  by simp

lemma pair_returns [returns]: "(\<And>a b. f a b \<noteq> None) \<Longrightarrow> (case p of (a, b) \<Rightarrow> f a b) \<noteq> None"
  by (simp add: split_beta)

lemmas [returns] = bytes_w.with_reg_returns words_w.with_reg_returns longs_w.with_reg_returns

text \<open>The families, for a width that keeps its contract.\<close>

context operand_width begin

lemma families_return:
  "op_RM_R w f ops m \<noteq> None" "op_R_RM w f ops m \<noteq> None" "op_ACC_IMM w acc f ops m \<noteq> None"
  "flags_RM_R w g ops m \<noteq> None" "flags_R_RM w g ops m \<noteq> None" "flags_ACC_IMM w acc g ops m \<noteq> None"
  "opc8x_RM_IMM w tab imm ops m \<noteq> None" "xchg_RM_R w ops m \<noteq> None" "mov_RM_R w ops m \<noteq> None"
  "mov_IMM w acc ops m \<noteq> None" "mov_RM_IMM w ops m \<noteq> None"
  unfolding op_RM_R_def op_R_RM_def op_ACC_IMM_def flags_RM_R_def flags_R_RM_def flags_ACC_IMM_def
    opc8x_RM_IMM_def xchg_RM_R_def mov_RM_R_def mov_IMM_def mov_RM_IMM_def Let_def
  by (intro returns modrm_returns with_reg_returns; assumption)+

lemma parts_return:
  "rh < 8 \<Longrightarrow> rl < 8 \<Longrightarrow> mov_R_M w md rh rl ops m \<noteq> None"
  "rh < 8 \<Longrightarrow> rl < 8 \<Longrightarrow> mov_R_R w rh rl ops m \<noteq> None"
  "rh < 8 \<Longrightarrow> rl < 8 \<Longrightarrow> shift_mem w tab amt md rh rl ops m \<noteq> None"
  "rh < 8 \<Longrightarrow> rl < 8 \<Longrightarrow> shift_reg w tab amt rh rl ops m \<noteq> None"
  unfolding mov_R_M_def mov_R_R_def shift_mem_def shift_reg_def Let_def
  by (intro returns with_reg_returns; assumption)+

end

lemmas [returns] = bytes_w.families_return words_w.families_return longs_w.families_return
  bytes_w.parts_return words_w.parts_return longs_w.parts_return modrm_returns

end
