(* ===== verification/X86_Strings.thy ===== *)
theory X86_Strings
  imports X86_Width X86_Alu_Theorems
begin

text \<open>
  The string instructions: the loop of a repeated instruction takes at most CX turns and is the
  iteration of one step; so the instructions return, \<open>movs\<close> copies, \<open>stos\<close> fills and \<open>scas\<close>
  searches.
\<close>

subsection \<open>The loop\<close>

text \<open>At most \<open>n\<close> turns, left early when \<open>stop\<close> holds after one.\<close>

primrec turns :: "nat \<Rightarrow> ('s \<Rightarrow> 's) \<Rightarrow> ('s \<Rightarrow> bool) \<Rightarrow> 's \<Rightarrow> 's" where
  "turns 0 f stop m = m"
| "turns (Suc n) f stop m = (let m = f m in if stop m then m else turns n f stop m)"

definition str_turn :: "('b sysenv \<Rightarrow> 'b sysenv) \<Rightarrow> ('b sysenv \<Rightarrow> 'b sysenv) \<Rightarrow> 'b sysenv \<Rightarrow> 'b sysenv" where
  "str_turn acc advance m = advance (add_x ECX (- 1) (acc m))"

definition counts :: "('b sysenv \<Rightarrow> 'b sysenv) \<Rightarrow> ('b sysenv \<Rightarrow> 'b sysenv) \<Rightarrow> bool" where
  "counts acc advance \<longleftrightarrow> (\<forall>m. reg_x ECX (acc m) = reg_x ECX m \<and> reg_x ECX (advance m) = reg_x ECX m)"

lemma counts_turn: "counts acc advance \<Longrightarrow> reg_x ECX (str_turn acc advance m) = reg_x ECX m - 1"
  by (simp add: counts_def str_turn_def add_x_def)

lemma rep_loop_turns:
  assumes "counts acc advance"
  shows "rep_loop acc advance stop m = Some (turns (unat (reg_x ECX m)) (str_turn acc advance) stop m)"
proof (induction "unat (reg_x ECX m)" arbitrary: m)
  case 0
  then show ?case by (simp add: rep_loop.simps unat_eq_zero)
next
  case (Suc n)
  let ?m = "str_turn acc advance m"
  have nz: "reg_x ECX m \<noteq> 0" using Suc.hyps(2) by (metis unsigned_0 nat.distinct(1))
  have cx: "unat (reg_x ECX ?m) = n"
    using Suc.hyps(2) nz by (simp add: counts_turn [OF assms] unat_minus_one)
  have "rep_loop acc advance stop m = (if stop ?m then Some ?m else rep_loop acc advance stop ?m)"
    using nz by (simp add: rep_loop.simps [of acc advance stop m] str_turn_def Let_def)
  then show ?case
    using Suc.hyps(1) [of ?m] cx by (simp add: Suc.hyps(2) [symmetric])
qed

lemma counts_returns [returns]:
  assumes "counts acc advance"
  shows "str_op acc advance m \<noteq> None" and "cmp_op acc advance m \<noteq> None"
  by (simp_all add: str_op_def cmp_op_def rep_loop_turns [OF assms] end_instr_def)

subsection \<open>The accesses count\<close>

lemma add_x_sel [simp]: "reg_x g (add_x h d m) = (if g = h then reg_x g m + d else reg_x g m)"
  "ram (add_x h d m) = ram m" "mem_size (add_x h d m) = mem_size m" "bus (add_x h d m) = bus m"
  "R_ES (x86 (add_x h d m)) = R_ES (x86 m)" "R_DS (x86 (add_x h d m)) = R_DS (x86 m)"
  "mode (x86 (add_x h d m)) = mode (x86 m)" "R_FLG (x86 (add_x h d m)) = R_FLG (x86 m)"
  "data32 (add_x h d m) = data32 m" "good_cell sz (add_x h d m) a = good_cell sz m a"
  by (simp_all add: add_x_def data32_def)

lemma reg_x_set8 [simp]: "g \<noteq> h \<Longrightarrow> reg_x g (set_l h v m) = reg_x g m"
  "g \<noteq> h \<Longrightarrow> reg_x g (set_h h v m) = reg_x g m"
  by (simp_all add: reg_x_def set_l_def set_h_def)

lemma regs_kept_fetch_data [simp]:
  assumes "regs_kept m m'"
  shows "regs_kept m (snd (fetch_data_byte ops m' off))" "regs_kept m (snd (fetch_data_word ops m' off))"
    "regs_kept m (snd (fetch_data_long ops m' off))"
  using assms
  by (simp_all add: fetch_data_byte_def fetch_data_word_def fetch_data_long_def split: option.split)

definition data_kept :: "('b, 'r, 'v) width \<Rightarrow> bool" where
  "data_kept w \<longleftrightarrow> (\<forall>ops m m' off seg v. regs_kept m m' \<longrightarrow>
     regs_kept m (snd (fetch_data w ops m' off)) \<and> regs_kept m (snd (fetch_abs w ops m' seg off)) \<and>
     regs_kept m (store_abs w ops m' seg off v))"

lemma data_kept_widths [simp]: "data_kept byte_width" "data_kept word_width" "data_kept long_width"
  by (simp_all add: data_kept_def byte_width_def word_width_def long_width_def abs_accesses)

lemma accesses_kept:
  assumes "data_kept w"
  shows "regs_kept m (movs_access w ops m)" "regs_kept m (stos_access w acc ops m)"
  using assms
  by (simp_all add: movs_access_def stos_access_def data_kept_def split_beta)

lemma counts_kept:
  assumes "\<And>m. regs_kept m (acc m)" "\<And>m. reg_x ECX (advance m) = reg_x ECX m"
  shows "counts acc advance"
  unfolding counts_def using assms regs_keptD(1) by blast

lemma reg_x_flags: "same_but_flags fs m m' \<Longrightarrow> reg_x g m' = reg_x g m"
  by (metis get_reg_flags reg_x_def same_but_flags_def)


lemma counts_movs: "data_kept w \<Longrightarrow>
    counts (movs_access w ops) (\<lambda>m. add_x EDI inc (add_x ESI inc m))"
  by (rule counts_kept) (simp_all add: accesses_kept)

lemma counts_stos: "data_kept w \<Longrightarrow> counts (stos_access w acc ops) (add_x EDI inc)"
  by (rule counts_kept) (simp_all add: accesses_kept)

lemma counts_lods:
  assumes "data_kept w" "\<And>v m. reg_x ECX (put_r w acc v m) = reg_x ECX m"
  shows "counts (lods_access w acc ops) (add_x ESI inc)"
proof -
  have "reg_x ECX (snd (fetch_data w ops m off)) = reg_x ECX m" for m off
    using assms(1) by (intro regs_keptD(1)) (simp add: data_kept_def)
  then show ?thesis using assms(2) by (simp add: counts_def lods_access_def split_beta)
qed

lemma counts_compare:
  assumes w: "data_kept w" and cmp: "\<And>m d s. same_but_flags ARITH_FLAGS m (snd (cmp m d s))"
  shows "counts (cmps_access w cmp ops) (\<lambda>m. add_x EDI inc (add_x ESI inc m))"
    and "counts (scas_access w acc cmp ops) (add_x EDI inc)"
proof -
  have "reg_x ECX (snd (fetch_data w ops m off)) = reg_x ECX m"
    "reg_x ECX (snd (fetch_abs w ops m seg off)) = reg_x ECX m" for m seg off
    using w by (auto intro!: regs_keptD(1) simp: data_kept_def)
  then show "counts (cmps_access w cmp ops) (\<lambda>m. add_x EDI inc (add_x ESI inc m))"
    "counts (scas_access w acc cmp ops) (add_x EDI inc)"
    by (simp_all add: counts_def cmps_access_def scas_access_def split_beta reg_x_flags [OF cmp])
qed

lemma counts_either:
  "counts f adv \<Longrightarrow> counts g adv \<Longrightarrow> counts (\<lambda>m. if c m then f m else g m) adv"
  by (simp add: counts_def)

lemma compare_flags: "same_but_flags ARITH_FLAGS m (snd (cmp_byte m d s))"
  "same_but_flags ARITH_FLAGS m (snd (cmp_word m d' s'))"
  "same_but_flags ARITH_FLAGS m (snd (cmp_long m d'' s''))"
  using cmp_byte_compare [of d s m] cmp_word_compare [of d' s' m] cmp_long_compare [of d'' s'' m]
  by (auto simp: is_compare_def is_difference_def split: prod.splits)

lemmas counts_all = counts_movs counts_stos counts_lods counts_compare counts_either

lemma string_ops_return [returns]:
  "x86op_movs_byte ops m \<noteq> None" "x86op_movs_word ops m \<noteq> None" "x86op_cmps_byte ops m \<noteq> None"
  "x86op_cmps_word ops m \<noteq> None" "x86op_stos_byte ops m \<noteq> None" "x86op_stos_word ops m \<noteq> None"
  "x86op_lods_byte ops m \<noteq> None" "x86op_lods_word ops m \<noteq> None" "x86op_scas_byte ops m \<noteq> None"
  "x86op_scas_word ops m \<noteq> None"
  unfolding x86op_movs_byte_def x86op_movs_word_def x86op_cmps_byte_def x86op_cmps_word_def
    x86op_stos_byte_def x86op_stos_word_def x86op_lods_byte_def x86op_lods_word_def
    x86op_scas_byte_def x86op_scas_word_def Let_def
  by (intro returns counts_all compare_flags data_kept_widths; simp add: byte_width_def word_width_def)+

subsection \<open>What a repeated instruction does\<close>

text \<open>Everything but the memory and the 16-bit values of some registers.\<close>

definition rest_same :: "reg32 set \<Rightarrow> 'b sysenv \<Rightarrow> 'b sysenv \<Rightarrow> bool" where
  "rest_same gs m m' \<longleftrightarrow> mem_size m' = mem_size m \<and> bus m' = bus m \<and>
     R_CS (x86 m') = R_CS (x86 m) \<and> R_DS (x86 m') = R_DS (x86 m) \<and> R_ES (x86 m') = R_ES (x86 m) \<and>
     R_SS (x86 m') = R_SS (x86 m) \<and> mode (x86 m') = mode (x86 m) \<and> R_FLG (x86 m') = R_FLG (x86 m) \<and>
     intr (x86 m') = intr (x86 m) \<and> (\<forall>g. g \<notin> gs \<longrightarrow> reg_e g m' = reg_e g m)"

lemma rest_same_refl [simp]: "rest_same gs m m"
  by (simp add: rest_same_def)

lemma rest_same_add_x: "rest_same gs m m' \<Longrightarrow> g \<in> gs \<Longrightarrow> rest_same gs m (add_x g d m')"
  by (simp add: rest_same_def add_x_def) (metis reg_e_set_x)

lemma rest_same_set_ram: "rest_same gs m m' \<Longrightarrow> rest_same gs m (set_ram a v m')"
  by (simp add: rest_same_def reg_e_def)

lemma reg_x_set_ram [simp]: "reg_x g (set_ram a v m) = reg_x g m"
  by (simp add: reg_x_def)

lemma rest_same_segment: "rest_same gs m m' \<Longrightarrow> data_segment m' = data_segment m"
  by (simp add: rest_same_def data_segment_def Let_def)

lemma rest_same_good: "rest_same gs m m' \<Longrightarrow> good_cell sz m' a = good_cell sz m a"
  by (simp add: rest_same_def good_cell_def)

lemma turns_inv:
  assumes "I 0 m" "\<And>k m. k < n \<Longrightarrow> I k m \<Longrightarrow> I (Suc k) (f m)"
  shows "I n (turns n f (\<lambda>_. False) m)"
proof -
  have "I (i + j) (turns j f (\<lambda>_. False) m)" if "I i m" "i + j \<le> n" for i j m
    using that
  proof (induction j arbitrary: i m)
    case (Suc j)
    then show ?case using Suc.IH [of "Suc i" "f m"] assms(2) [of i m] by (simp add: Let_def)
  qed simp
  from this [of 0 m n] show ?thesis using assms(1) by simp
qed

text \<open>The address of the \<open>k\<close>-th element, and where DI and SI are after \<open>k\<close> turns.\<close>

definition elem :: "u16 \<Rightarrow> u16 \<Rightarrow> u16 \<Rightarrow> nat \<Rightarrow> u32" where
  "elem seg off inc k = seg_off seg (off + of_nat k * inc)"

definition copy_elem :: "(nat \<Rightarrow> u64) \<Rightarrow> (nat \<Rightarrow> u64) \<Rightarrow> nat \<Rightarrow> (u64 \<Rightarrow> u8) \<Rightarrow> u64 \<Rightarrow> u8" where
  "copy_elem dst src k r = r(dst k := r (src k))"

definition moved_on :: "reg32 set \<Rightarrow> u16 \<Rightarrow> nat \<Rightarrow> 'b sysenv \<Rightarrow> 'b sysenv \<Rightarrow> bool" where
  "moved_on gs inc k m m' \<longleftrightarrow> rest_same (insert ECX gs) m m' \<and> reg_x ECX m' = reg_x ECX m - of_nat k \<and>
     (\<forall>g \<in> gs. reg_x g m' = reg_x g m + of_nat k * inc)"

lemma movs_turn:
  assumes "moved_on {ESI, EDI} inc k m0 m" and "data_segment m0 = Some seg"
    and "good_cell 1 m0 (elem seg (reg_x ESI m0) inc k)" "good_cell 1 m0 (elem (R_ES (x86 m0)) (reg_x EDI m0) inc k)"
  shows "moved_on {ESI, EDI} inc (Suc k) m0
      (str_turn (movs_access byte_width ops) (\<lambda>m. add_x EDI inc (add_x ESI inc m)) m)"
    and "ram (str_turn (movs_access byte_width ops) (\<lambda>m. add_x EDI inc (add_x ESI inc m)) m) =
      copy_elem (\<lambda>k. ucast (elem (R_ES (x86 m0)) (reg_x EDI m0) inc k))
        (\<lambda>k. ucast (elem seg (reg_x ESI m0) inc k)) k (ram m)"
proof -
  let ?a = "elem seg (reg_x ESI m0) inc k" and ?b = "elem (R_ES (x86 m0)) (reg_x EDI m0) inc k"
  have rs: "rest_same (insert ECX {ESI, EDI}) m0 m" using assms(1) by (simp add: moved_on_def)
  have g: "good_cell 1 m ?a" "good_cell 1 m ?b" using assms(3,4) rest_same_good [OF rs] by simp_all
  have "data_segment m = Some seg" "R_ES (x86 m) = R_ES (x86 m0)"
    using rs assms(2) rest_same_segment [OF rs] by (simp_all add: rest_same_def)
  moreover have "reg_x ESI m = reg_x ESI m0 + of_nat k * inc" "reg_x EDI m = reg_x EDI m0 + of_nat k * inc"
    using assms(1) by (simp_all add: moved_on_def)
  ultimately have acc: "movs_access byte_width ops m = set_ram (ucast ?b) (ram m (ucast ?a)) m"
    using g by (simp add: movs_access_def byte_width_def fetch_data_byte_def store_data_byte_abs_def
        sys_rdb_good sys_wrb_good elem_def)
  show "moved_on {ESI, EDI} inc (Suc k) m0
      (str_turn (movs_access byte_width ops) (\<lambda>m. add_x EDI inc (add_x ESI inc m)) m)"
    using assms(1) unfolding moved_on_def str_turn_def acc
    by (auto intro!: rest_same_add_x rest_same_set_ram simp: algebra_simps)
  show "ram (str_turn (movs_access byte_width ops) (\<lambda>m. add_x EDI inc (add_x ESI inc m)) m) =
      copy_elem (\<lambda>k. ucast (elem (R_ES (x86 m0)) (reg_x EDI m0) inc k))
        (\<lambda>k. ucast (elem seg (reg_x ESI m0) inc k)) k (ram m)"
    unfolding str_turn_def acc by (rule ext) (simp add: copy_elem_def)
qed

lemma end_string [simp]:
  "ram (clear_segovr m) = ram m" "reg_x g (clear_segovr m) = reg_x g m" "reg_e g (clear_segovr m) = reg_e g m"
  "R_FLG (x86 (clear_segovr m)) = R_FLG (x86 m)" "ram (clear_mode b m) = ram m"
  "reg_x g (clear_mode b m) = reg_x g m" "reg_e g (clear_mode b m) = reg_e g m"
  "R_FLG (x86 (clear_mode b m)) = R_FLG (x86 m)"
  by (simp_all add: clear_segovr_def clear_mode_def reg_x_def reg_e_def)

lemma end_string_reps: "\<not> reps (clear_segovr (clear_mode (SYSMODE_PREFIX_REPE OR SYSMODE_PREFIX_REPNE) m))"
proof -
  have "((x AND NOT a AND NOT b) AND NOT c) AND (a OR b) = 0" for x a b c :: u64
    by (rule bit_word_eqI) (auto simp: bit_simps)
  then show ?thesis by (simp add: reps_def clear_segovr_def clear_mode_def)
qed

text \<open>A repeated \<open>movs\<close> or \<open>stos\<close> as the state its last turn leaves.\<close>

lemma str_op_reps:
  assumes "reps m" "counts acc adv"
  shows "str_op acc adv m = Some (clear_segovr (clear_mode (SYSMODE_PREFIX_REPE OR SYSMODE_PREFIX_REPNE)
    (turns (unat (reg_x ECX m)) (str_turn acc adv) (\<lambda>_. False) m)))"
  by (simp add: str_op_def assms rep_loop_turns [OF assms(2)] end_instr_def)

lemma fold_copy_other: "(\<forall>k<n. a \<noteq> dst k) \<Longrightarrow> fold (copy_elem dst src) [0..<n] r a = r a"
  by (induction n) (simp_all add: copy_elem_def)

lemma fold_copy_elem:
  assumes "\<forall>k<n. \<forall>j<k. dst j \<noteq> src k \<and> dst j \<noteq> dst k" "k < n"
  shows "fold (copy_elem dst src) [0..<n] r (dst k) = r (src k)"
  using assms
proof (induction n)
  case (Suc n)
  show ?case
  proof (cases "k = n")
    case True
    have "\<forall>j<n. src n \<noteq> dst j" using Suc.prems(1) by (metis lessI)
    then have "fold (copy_elem dst src) [0..<n] r (src n) = r (src n)" by (rule fold_copy_other)
    then show ?thesis by (simp add: True copy_elem_def [of _ _ n])
  next
    case False
    then have "k < n" using Suc.prems(2) by simp
    then have "dst k \<noteq> dst n" using Suc.prems(1) by (metis lessI)
    then show ?thesis using Suc.IH Suc.prems(1) \<open>k < n\<close> by (simp add: copy_elem_def [of _ _ n])
  qed
qed simp

text \<open>
  C16: Repeated \<open>movs\<close>. With a repeat prefix and both strings in the RAM \<open>movs_byte\<close> returns after
  CX turns: SI and DI have moved by CX bytes up or down as DF says, wrapping in their segments, CX
  is 0 and the prefix is gone, other general registers and the flags are as before; nothing is written outside the
  destination, and when no element is
  overwritten before it is read, which allows overlapping strings copied in the right direction,
  every byte of the destination is the byte the source held.
\<close>

theorem rep_movs_copies:
  fixes m :: "'b sysenv"
  defines "n \<equiv> unat (reg_x ECX m)" and "inc \<equiv> str_step 1 m"
  defines "dst \<equiv> \<lambda>k. ucast (elem (R_ES (x86 m)) (reg_x EDI m) inc k) :: u64"
  assumes "reps m" "data_segment m = Some seg"
    and src_def: "src = (\<lambda>k. ucast (elem seg (reg_x ESI m) inc k) :: u64)"
    and good: "\<forall>k<n. good_cell 1 m (elem seg (reg_x ESI m) inc k) \<and>
      good_cell 1 m (elem (R_ES (x86 m)) (reg_x EDI m) inc k)"
  shows "\<exists>m'. x86op_movs_byte ops m = Some m' \<and> \<not> reps m' \<and> reg_x ECX m' = 0 \<and>
    reg_x ESI m' = reg_x ESI m + of_nat n * inc \<and> reg_x EDI m' = reg_x EDI m + of_nat n * inc \<and>
    (\<forall>g. g \<notin> {ECX, ESI, EDI} \<longrightarrow> reg_e g m' = reg_e g m) \<and> R_FLG (x86 m') = R_FLG (x86 m) \<and>
    (\<forall>a. (\<forall>k<n. a \<noteq> dst k) \<longrightarrow> ram m' a = ram m a) \<and>
    ((\<forall>k<n. \<forall>j<k. dst j \<noteq> src k \<and> dst j \<noteq> dst k) \<longrightarrow> (\<forall>k<n. ram m' (dst k) = ram m (src k)))"
proof -
  define f where "f = (str_turn (movs_access byte_width ops) (\<lambda>m :: 'b sysenv. add_x EDI inc (add_x ESI inc m)))"
  define m1 where "m1 = turns n f (\<lambda>_. False) m"
  have "moved_on {ESI, EDI} inc n m m1 \<and> ram m1 = fold (copy_elem dst src) [0..<n] (ram m)"
    unfolding m1_def
  proof (rule turns_inv [where I = "\<lambda>k m1. moved_on {ESI, EDI} inc k m m1 \<and>
      ram m1 = fold (copy_elem dst src) [0..<k] (ram m)"])
    fix k m1
    assume "k < n" and I: "moved_on {ESI, EDI} inc k m m1 \<and> ram m1 = fold (copy_elem dst src) [0..<k] (ram m)"
    then show "moved_on {ESI, EDI} inc (Suc k) m (f m1) \<and>
        ram (f m1) = fold (copy_elem dst src) [0..<Suc k] (ram m)"
      using movs_turn [of inc k m m1 seg ops] good assms(5)
      by (simp add: f_def dst_def src_def)
  qed (simp add: moved_on_def)
  moreover have "x86op_movs_byte ops m =
      Some (clear_segovr (clear_mode (SYSMODE_PREFIX_REPE OR SYSMODE_PREFIX_REPNE) m1))"
    unfolding x86op_movs_byte_def Let_def m1_def f_def n_def inc_def
    by (rule str_op_reps [OF assms(4) counts_movs [OF data_kept_widths(1)]])
  ultimately show ?thesis
    using end_string_reps [of m1] fold_copy_other [of n _ dst src "ram m"]
      fold_copy_elem [of n dst src _ "ram m"]
    by (auto simp: moved_on_def rest_same_def n_def)
qed

text \<open>Filling.\<close>

lemma stos_turn:
  assumes "moved_on {EDI} inc k m0 m" and "good_cell 1 m0 (elem (R_ES (x86 m0)) (reg_x EDI m0) inc k)"
  shows "str_turn (stos_access byte_width (Lo EAX) ops) (add_x EDI inc) m =
      add_x EDI inc (add_x ECX (- 1)
        (set_ram (ucast (elem (R_ES (x86 m0)) (reg_x EDI m0) inc k)) (reg_l EAX m0) m))"
    and "moved_on {EDI} inc (Suc k) m0 (str_turn (stos_access byte_width (Lo EAX) ops) (add_x EDI inc) m)"
proof -
  have rs: "rest_same (insert ECX {EDI}) m0 m" using assms(1) by (simp add: moved_on_def)
  have "reg_e EAX m = reg_e EAX m0" "R_ES (x86 m) = R_ES (x86 m0)"
    using rs by (simp_all add: rest_same_def)
  moreover have "reg_x EDI m = reg_x EDI m0 + of_nat k * inc" using assms(1) by (simp add: moved_on_def)
  moreover have "good_cell 1 m (elem (R_ES (x86 m0)) (reg_x EDI m0) inc k)"
    using assms(2) rest_same_good [OF rs] by simp
  ultimately show step: "str_turn (stos_access byte_width (Lo EAX) ops) (add_x EDI inc) m =
      add_x EDI inc (add_x ECX (- 1)
        (set_ram (ucast (elem (R_ES (x86 m0)) (reg_x EDI m0) inc k)) (reg_l EAX m0) m))"
    by (simp add: str_turn_def stos_access_def byte_width_def store_data_byte_abs_def sys_wrb_good
        elem_def reg_l_def reg_e_def)
  show "moved_on {EDI} inc (Suc k) m0 (str_turn (stos_access byte_width (Lo EAX) ops) (add_x EDI inc) m)"
    using assms(1) unfolding moved_on_def step
    by (auto intro!: rest_same_add_x rest_same_set_ram simp: algebra_simps)
qed

text \<open>
  Repeated \<open>stos\<close>. With a repeat prefix and the destination in the RAM \<open>stos_byte\<close> returns with
  AL in every byte of the destination and every other byte unchanged, DI moved by CX bytes up or
  down, CX 0 and the prefix gone.
\<close>

theorem rep_stos_fills:
  fixes m :: "'b sysenv"
  defines "n \<equiv> unat (reg_x ECX m)" and "inc \<equiv> str_step 1 m"
  defines "dst \<equiv> \<lambda>k. ucast (elem (R_ES (x86 m)) (reg_x EDI m) inc k) :: u64"
  assumes "reps m" and good: "\<forall>k<n. good_cell 1 m (elem (R_ES (x86 m)) (reg_x EDI m) inc k)"
  shows "\<exists>m'. x86op_stos_byte ops m = Some m' \<and> \<not> reps m' \<and> reg_x ECX m' = 0 \<and>
    reg_x EDI m' = reg_x EDI m + of_nat n * inc \<and>
    (\<forall>g. g \<notin> {ECX, EDI} \<longrightarrow> reg_e g m' = reg_e g m) \<and> R_FLG (x86 m') = R_FLG (x86 m) \<and>
    (\<forall>a. ram m' a = (if \<exists>k<n. a = dst k then reg_l EAX m else ram m a))"
proof -
  define f where "f = (str_turn (stos_access byte_width (Lo EAX) ops) (add_x EDI inc :: 'b sysenv \<Rightarrow> _))"
  define m1 where "m1 = turns n f (\<lambda>_. False) m"
  have "moved_on {EDI} inc n m m1 \<and>
      (\<forall>a. ram m1 a = (if \<exists>k<n. a = dst k then reg_l EAX m else ram m a))"
    unfolding m1_def
  proof (rule turns_inv [where I = "\<lambda>k m1. moved_on {EDI} inc k m m1 \<and>
      (\<forall>a. ram m1 a = (if \<exists>j<k. a = dst j then reg_l EAX m else ram m a))"])
    fix k m1
    assume "k < n" and I: "moved_on {EDI} inc k m m1 \<and>
      (\<forall>a. ram m1 a = (if \<exists>j<k. a = dst j then reg_l EAX m else ram m a))"
    then show "moved_on {EDI} inc (Suc k) m (f m1) \<and>
        (\<forall>a. ram (f m1) a = (if \<exists>j<Suc k. a = dst j then reg_l EAX m else ram m a))"
      using stos_turn [of inc k m m1 ops] good
      by (auto simp: f_def dst_def less_Suc_eq)
  qed (simp add: moved_on_def)
  moreover have "x86op_stos_byte ops m =
      Some (clear_segovr (clear_mode (SYSMODE_PREFIX_REPE OR SYSMODE_PREFIX_REPNE) m1))"
    unfolding x86op_stos_byte_def Let_def m1_def f_def n_def inc_def
    by (rule str_op_reps [OF assms(4) counts_stos [OF data_kept_widths(1)]])
  ultimately show ?thesis
    using end_string_reps [of m1] by (auto simp: moved_on_def rest_same_def n_def)
qed

text \<open>Searching.\<close>

lemma turns_find:
  assumes "I 0 m" "\<And>k m. k < n \<Longrightarrow> I k m \<Longrightarrow> I (Suc k) (f m) \<and> stop (f m) = P k"
  shows "case find P [0..<n] of
      Some k \<Rightarrow> k < n \<and> P k \<and> (\<forall>j<k. \<not> P j) \<and> I (Suc k) (turns n f stop m) \<and> stop (turns n f stop m)
    | None \<Rightarrow> (\<forall>j<n. \<not> P j) \<and> I n (turns n f stop m) \<and> (0 < n \<longrightarrow> \<not> stop (turns n f stop m))"
proof -
  have "case find P [i..<i + j] of
      Some k \<Rightarrow> i \<le> k \<and> k < i + j \<and> P k \<and> (\<forall>l. i \<le> l \<and> l < k \<longrightarrow> \<not> P l) \<and>
        I (Suc k) (turns j f stop m) \<and> stop (turns j f stop m)
    | None \<Rightarrow> (\<forall>l. i \<le> l \<and> l < i + j \<longrightarrow> \<not> P l) \<and> I (i + j) (turns j f stop m) \<and>
        (0 < j \<or> \<not> stop m \<longrightarrow> \<not> stop (turns j f stop m))"
    if "I i m" "i + j \<le> n" for i j m
    using that
  proof (induction j arbitrary: i m)
    case (Suc j)
    have s: "I (Suc i) (f m) \<and> stop (f m) = P i" using assms(2) Suc.prems by simp
    have u: "[i..<i + Suc j] = i # [Suc i..<Suc i + j]" by (simp add: upt_conv_Cons)
    show ?case
    proof (cases "P i")
      case True
      then show ?thesis using s unfolding u by (auto simp: Let_def)
    next
      case False
      then have t: "turns (Suc j) f stop m = turns j f stop (f m)" using s by (simp add: Let_def)
      have all: "(\<forall>l. i \<le> l \<and> l < K \<longrightarrow> \<not> P l) \<longleftrightarrow> (\<forall>l. Suc i \<le> l \<and> l < K \<longrightarrow> \<not> P l)" for K
        using False by (metis Suc_leI Suc_leD le_eq_less_or_eq)
      show ?thesis
        using Suc.IH [of "Suc i" "f m"] s False Suc.prems(2) unfolding u t all
        by (cases "find P [Suc i..<Suc i + j]") simp_all
    qed
  qed auto
  from this [of 0 m n] assms(1) show ?thesis by (auto split: option.splits)
qed

definition scanned :: "u16 \<Rightarrow> nat \<Rightarrow> 'b sysenv \<Rightarrow> 'b sysenv \<Rightarrow> bool" where
  "scanned inc k m m' \<longleftrightarrow> ram m' = ram m \<and> bus m' = bus m \<and> mem_size m' = mem_size m \<and>
     R_ES (x86 m') = R_ES (x86 m) \<and> mode (x86 m') = mode (x86 m) \<and>
     reg_x ECX m' = reg_x ECX m - of_nat k \<and> reg_x EDI m' = reg_x EDI m + of_nat k * inc \<and>
     (\<forall>g. g \<notin> {ECX, EDI} \<longrightarrow> reg_e g m' = reg_e g m)"

lemma scanned_flags:
  assumes "scanned inc k m0 m" "same_but_flags fs m m'"
  shows "scanned inc k m0 m'"
proof -
  obtain v where "x86 m' = (x86 m)\<lparr>R_FLG := v\<rparr>" "ram m' = ram m" "bus m' = bus m" "mem_size m' = mem_size m"
    using assms(2) unfolding same_but_flags_def by blast
  then show ?thesis using assms(1) by (simp add: scanned_def reg_e_def reg_x_def)
qed

lemma scanned_step: "scanned inc k m0 m \<Longrightarrow> scanned inc (Suc k) m0 (add_x EDI inc (add_x ECX (- 1) m))"
  by (simp add: scanned_def algebra_simps) (simp add: add_x_def)

lemma scas_turn:
  fixes m :: "'b sysenv" and ops :: "'b bus_ops"
  assumes "scanned inc k m0 m" and "good_cell 1 m0 (elem (R_ES (x86 m0)) (reg_x EDI m0) inc k)"
  defines "b \<equiv> ram m0 (ucast (elem (R_ES (x86 m0)) (reg_x EDI m0) inc k))"
  defines "m' \<equiv> str_turn (scas_access byte_width (Lo EAX) cmp_byte ops) (add_x EDI inc) m"
  shows "scanned inc (Suc k) m0 m' \<and> ACCESS_FLAG F_ZF m' = (b = reg_l EAX m0)"
proof -
  let ?c = "snd (cmp_byte m (reg_l EAX m0) b)"
  have "good_cell 1 m (elem (R_ES (x86 m0)) (reg_x EDI m0) inc k)"
    using assms(1,2) by (simp add: scanned_def good_cell_def)
  moreover have "reg_e EAX m = reg_e EAX m0" using assms(1) by (simp add: scanned_def)
  then have "reg_l EAX m = reg_l EAX m0" by (simp add: reg_l_def reg_e_def)
  ultimately have "scas_access byte_width (Lo EAX) cmp_byte ops m = ?c"
    using assms(1) by (simp add: scas_access_def byte_width_def fetch_data_byte_abs_def sys_rdb_good
        scanned_def elem_def b_def)
  then have m': "m' = add_x EDI inc (add_x ECX (- 1) ?c)" by (simp add: m'_def str_turn_def)
  have c: "is_difference (reg_l EAX m0) b False m (reg_l EAX m0 - b, ?c)"
    using cmp_byte_compare [of "reg_l EAX m0" b m] by (simp add: is_compare_def)
  have "scanned inc k m0 ?c"
    using scanned_flags [OF assms(1)] c unfolding is_difference_def by blast
  moreover have "ACCESS_FLAG F_ZF ?c = (b = reg_l EAX m0)"
    using c by (auto simp: is_difference_def result_flags_def)
  ultimately show ?thesis
    unfolding m' by (simp add: scanned_step) (simp add: add_x_def)
qed

text \<open>
  \<open>repne scas\<close> searches. With the REPNE prefix and the string in the RAM \<open>scas_byte\<close> returns;
  when AL is among the CX bytes at ES:DI it stops at the first of them, with ZF set, DI one element
  past it and CX the number of bytes that were not looked at, and otherwise after all of them with
  CX 0 and, for a string that is not empty, ZF clear. The memory and the other registers are as
  they were.
\<close>

theorem repne_scas_finds:
  fixes m :: "'b sysenv"
  defines "n \<equiv> unat (reg_x ECX m)" and "inc \<equiv> str_step 1 m"
  defines "str \<equiv> \<lambda>k. ram m (ucast (elem (R_ES (x86 m)) (reg_x EDI m) inc k))"
  assumes "mode (x86 m) AND SYSMODE_PREFIX_REPE = 0" "mode (x86 m) AND SYSMODE_PREFIX_REPNE \<noteq> 0"
    and good: "\<forall>k<n. good_cell 1 m (elem (R_ES (x86 m)) (reg_x EDI m) inc k)"
  shows "\<exists>m'. x86op_scas_byte ops m = Some m' \<and> ram m' = ram m \<and>
    (\<forall>g. g \<notin> {ECX, EDI} \<longrightarrow> reg_e g m' = reg_e g m) \<and>
    (case find (\<lambda>k. str k = reg_l EAX m) [0..<n] of
       Some k \<Rightarrow> k < n \<and> str k = reg_l EAX m \<and> (\<forall>j<k. str j \<noteq> reg_l EAX m) \<and> ACCESS_FLAG F_ZF m' \<and>
         reg_x EDI m' = reg_x EDI m + of_nat (k + 1) * inc \<and> reg_x ECX m' = reg_x ECX m - of_nat (k + 1)
     | None \<Rightarrow> (\<forall>j<n. str j \<noteq> reg_l EAX m) \<and> (0 < n \<longrightarrow> \<not> ACCESS_FLAG F_ZF m') \<and>
         reg_x EDI m' = reg_x EDI m + of_nat n * inc \<and> reg_x ECX m' = 0)"
proof -
  define f where "f = (str_turn (scas_access byte_width (Lo EAX) cmp_byte ops) (add_x EDI inc :: 'b sysenv \<Rightarrow> _))"
  define m1 where "m1 = turns n f (ACCESS_FLAG F_ZF) m"
  have turn: "scanned inc (Suc k) m (f m1) \<and> ACCESS_FLAG F_ZF (f m1) = (str k = reg_l EAX m)"
    if "k < n" "scanned inc k m m1" for k m1
    unfolding f_def str_def using scas_turn [OF that(2)] good that(1) by blast
  have start: "scanned inc 0 m m" by (simp add: scanned_def)
  note found = turns_find [where I = "\<lambda>k m1. scanned inc k m m1" and P = "\<lambda>k. str k = reg_l EAX m"
      and n = n and f = f and m = m and stop = "ACCESS_FLAG F_ZF", OF start turn, folded m1_def]
  have "x86op_scas_byte ops m = Some (clear_segovr (clear_mode SYSMODE_PREFIX_REPNE m1))"
    unfolding x86op_scas_byte_def Let_def cmp_op_def m1_def f_def n_def inc_def
    using assms(4,5) by (simp add: rep_loop_turns counts_compare compare_flags end_instr_def)
  then show ?thesis
    using found by (auto simp: scanned_def n_def ACCESS_FLAG_def split: option.splits)
qed

text \<open>A machine with four bytes in the data segment and a repeat prefix.\<close>

definition string_machine :: "unit sysenv" where
  "string_machine = (let m = set_x ECX 3 (set_x ESI 0x100 (set_x EDI 0x200 blank_machine))
     in set_mode SYSMODE_PREFIX_REPNE (m\<lparr>ram := (\<lambda>a. if a = 0x100 then 0x11 else if a = 0x101 then 0x22
          else if a = 0x102 then 0x33 else if a = 0x201 then 7 else 0)\<rparr>))"

lemma string_machine_views [simp]:
  "reg_x ECX string_machine = 3" "reg_x ESI string_machine = 0x100" "reg_x EDI string_machine = 0x200"
  "mode (x86 string_machine) = SYSMODE_PREFIX_REPNE" "R_ES (x86 string_machine) = 0"
  "R_DS (x86 string_machine) = 0" "mem_size string_machine = 0x100000" "R_FLG (x86 string_machine) = 0"
  "ram string_machine = (\<lambda>a. if a = 0x100 then 0x11 else if a = 0x101 then 0x22
          else if a = 0x102 then 0x33 else if a = 0x201 then 7 else 0)" "reg_l EAX string_machine = 0"
  by (simp_all add: string_machine_def set_mode_def Let_def reg_x_def reg_l_def set_x_def blank_machine_def
      blank_regs_def)

lemma below_3: "(\<forall>k<3. P k) \<longleftrightarrow> P 0 \<and> P 1 \<and> P (2 :: nat)" "(\<forall>k<2. P k) \<longleftrightarrow> P 0 \<and> P (1 :: nat)"
  by (auto simp: less_Suc_eq eval_nat_numeral)

lemma string_machine_facts: "reps string_machine" "str_step 1 string_machine = 1"
  "data_segment string_machine = Some 0"
  "\<forall>k<3. good_cell 1 string_machine (elem 0 0x100 1 k) \<and> good_cell 1 string_machine (elem 0 0x200 1 k)"
  by (simp_all add: reps_def str_step_def ACCESS_FLAG_def data_segment_def SYSMODE_PREFIX_REPNE_def
      SYSMODE_PREFIX_REPE_def SYSMODE_SEGMASK_def seg_bits Let_def below_3 good_cell_def elem_def
      seg_off_def on_adapter_def)

lemma rep_movs_copies_witness:
  "\<exists>m'. x86op_movs_byte null_bus string_machine = Some m' \<and> reg_x EDI m' = 0x203 \<and> ram m' 0x202 = 0x33"
proof -
  define src where "src = (\<lambda>k. ucast (elem 0 0x100 1 k) :: u64)"
  have e: "elem 0 a 1 0 = ucast a" "elem 0 a 1 1 = ucast (a + 1)" "elem 0 a 1 2 = ucast (a + 2)" for a
    by (simp_all add: elem_def seg_off_def)
  have "\<forall>k<3. \<forall>j<k. (ucast (elem 0 0x200 1 j) :: u64) \<noteq> src k \<and>
      (ucast (elem 0 0x200 1 j) :: u64) \<noteq> ucast (elem 0 0x200 1 k)"
    by (simp add: below_3 src_def e del: One_nat_def)
  then show ?thesis
    using rep_movs_copies [of string_machine 0 src null_bus, OF string_machine_facts(1,3)]
      string_machine_facts(2,4)
    by (simp add: src_def below_3 e del: One_nat_def) blast
qed

lemma rep_stos_fills_witness:
  "\<exists>m'. x86op_stos_byte null_bus string_machine = Some m' \<and> reg_x EDI m' = 0x203 \<and> ram m' 0x201 = 0"
proof -
  have e: "elem 0 a 1 0 = ucast a" "elem 0 a 1 1 = ucast (a + 1)" for a
    by (simp_all add: elem_def seg_off_def)
  obtain m' where m': "x86op_stos_byte null_bus string_machine = Some m'" "reg_x EDI m' = 0x203"
      "\<forall>a. ram m' a = (if \<exists>k<3. a = ucast (elem 0 0x200 1 k) then 0 else ram string_machine a)"
    using rep_stos_fills [of string_machine null_bus, OF string_machine_facts(1)]
      string_machine_facts(2,4) by auto
  moreover have "\<exists>k<3. (0x201 :: u64) = ucast (elem 0 0x200 1 k)"
    by (rule exI [of _ 1]) (simp add: e del: One_nat_def)
  ultimately have "ram m' 0x201 = 0" by presburger
  with m' show ?thesis by blast
qed

lemma repne_scas_finds_witness:
  "\<exists>m'. x86op_scas_byte null_bus string_machine = Some m' \<and> reg_x EDI m' = 0x201 \<and> reg_x ECX m' = 2"
proof -
  have p: "SYSMODE_PREFIX_REPNE AND SYSMODE_PREFIX_REPE = 0" "SYSMODE_PREFIX_REPNE \<noteq> 0"
    by (simp_all add: SYSMODE_PREFIX_REPNE_def SYSMODE_PREFIX_REPE_def)
  have e: "elem 0 0x200 1 0 = 0x200" "[0..<3] = [0, 1, 2]"
    by (simp_all add: elem_def seg_off_def upt_rec)
  show ?thesis
    using repne_scas_finds [of string_machine null_bus] string_machine_facts(2,4)
    by (auto simp: p e simp del: One_nat_def)
qed

end
