(* ===== verification/X86_Ops_Spec.thy ===== *)
theory X86_Ops_Spec
  imports X86_Strings
begin

text \<open>
  The opcode table as a whole: every instruction returns but two, and conditional jumps.
\<close>

subsection \<open>Every instruction returns\<close>

definition all_return :: "'b handler \<Rightarrow> bool" where
  "all_return h \<longleftrightarrow> (\<forall>ops m. h ops m \<noteq> None)"

lemma simple_handlers_return [returns]:
  "prefix_op b ops m \<noteq> None" "simple_op f ops m \<noteq> None" "op_reg g h ops m \<noteq> None"
  "push_seg s ops m \<noteq> None" "pop_seg s ops m \<noteq> None" "push_reg g ops m \<noteq> None"
  "pop_reg g ops m \<noteq> None" "xchg_AX g ops m \<noteq> None" "jump_short_if c ops m \<noteq> None"
  "Some x \<noteq> None"
  unfolding prefix_op_def simple_op_def op_reg_def push_seg_def pop_seg_def push_reg_def pop_reg_def
    xchg_AX_def jump_short_if_def Let_def
  by (intro returns | simp)+

lemma groups_return [returns]:
  "rh < 8 \<Longrightarrow> rl < 8 \<Longrightarrow> opcF6_mem md rh rl ops m \<noteq> None"
  "rh < 8 \<Longrightarrow> rl < 8 \<Longrightarrow> opcF6_reg rh rl ops m \<noteq> None"
  "rh < 8 \<Longrightarrow> rl < 8 \<Longrightarrow> opcF7_mem md rh rl ops m \<noteq> None"
  "rh < 8 \<Longrightarrow> rl < 8 \<Longrightarrow> opcF7_reg rh rl ops m \<noteq> None"
  "rh < 8 \<Longrightarrow> rl < 8 \<Longrightarrow> opcFF_mem md rh rl ops m \<noteq> None"
  "rh < 8 \<Longrightarrow> rl < 8 \<Longrightarrow> opcFF_reg rh rl ops m \<noteq> None"
  "esc_modrm ops m \<noteq> None"
  unfolding opcF6_mem_def opcF6_reg_def opcF7_mem_def opcF7_reg_def opcFF_mem_def opcFF_reg_def
    esc_modrm_def Let_def
  by (intro returns; assumption)+

lemma low_return [simp]:
  "all_return x86op_illegal_op" "all_return x86op_add_byte_RM_R" "all_return x86op_add_word_RM_R"
  "all_return x86op_add_byte_R_RM" "all_return x86op_add_word_R_RM"
  "all_return x86op_add_byte_AL_IMM" "all_return x86op_add_word_AX_IMM" "all_return x86op_push_ES"
  "all_return x86op_pop_ES" "all_return x86op_or_byte_RM_R" "all_return x86op_or_word_RM_R"
  "all_return x86op_or_byte_R_RM" "all_return x86op_or_word_R_RM" "all_return x86op_or_byte_AL_IMM"
  "all_return x86op_or_word_AX_IMM" "all_return x86op_push_CS" "all_return x86op_adc_byte_RM_R"
  "all_return x86op_adc_word_RM_R" "all_return x86op_adc_byte_R_RM" "all_return x86op_adc_word_R_RM"
  "all_return x86op_adc_byte_AL_IMM" "all_return x86op_adc_word_AX_IMM" "all_return x86op_push_SS"
  "all_return x86op_pop_SS" "all_return x86op_sbb_byte_RM_R" "all_return x86op_sbb_word_RM_R"
  "all_return x86op_sbb_byte_R_RM" "all_return x86op_sbb_word_R_RM"
  "all_return x86op_sbb_byte_AL_IMM" "all_return x86op_sbb_word_AX_IMM" "all_return x86op_push_DS"
  "all_return x86op_pop_DS" "all_return x86op_and_byte_RM_R" "all_return x86op_and_word_RM_R"
  "all_return x86op_and_byte_R_RM" "all_return x86op_and_word_R_RM"
  "all_return x86op_and_byte_AL_IMM" "all_return x86op_and_word_AX_IMM" "all_return x86op_segovr_ES"
  "all_return x86op_daa" "all_return x86op_sub_byte_RM_R" "all_return x86op_sub_word_RM_R"
  "all_return x86op_sub_byte_R_RM" "all_return x86op_sub_word_R_RM"
  "all_return x86op_sub_byte_AL_IMM" "all_return x86op_sub_word_AX_IMM" "all_return x86op_segovr_CS"
  "all_return x86op_das" "all_return x86op_xor_byte_RM_R" "all_return x86op_xor_word_RM_R"
  "all_return x86op_xor_byte_R_RM" "all_return x86op_xor_word_R_RM"
  "all_return x86op_xor_byte_AL_IMM" "all_return x86op_xor_word_AX_IMM" "all_return x86op_segovr_SS"
  "all_return x86op_aaa" "all_return x86op_cmp_byte_RM_R" "all_return x86op_cmp_word_RM_R"
  "all_return x86op_cmp_byte_R_RM" "all_return x86op_cmp_word_R_RM"
  "all_return x86op_cmp_byte_AL_IMM" "all_return x86op_cmp_word_AX_IMM" "all_return x86op_segovr_DS"
  "all_return x86op_aas" "all_return x86op_inc_AX" "all_return x86op_inc_CX"
  "all_return x86op_inc_DX" "all_return x86op_inc_BX" "all_return x86op_inc_SP"
  "all_return x86op_inc_BP" "all_return x86op_inc_SI" "all_return x86op_inc_DI"
  "all_return x86op_dec_AX" "all_return x86op_dec_CX" "all_return x86op_dec_DX"
  "all_return x86op_dec_BX" "all_return x86op_dec_SP" "all_return x86op_dec_BP"
  "all_return x86op_dec_SI" "all_return x86op_dec_DI" "all_return x86op_push_AX"
  "all_return x86op_push_CX" "all_return x86op_push_DX" "all_return x86op_push_BX"
  "all_return x86op_push_SP" "all_return x86op_push_BP" "all_return x86op_push_SI"
  "all_return x86op_push_DI" "all_return x86op_pop_AX" "all_return x86op_pop_CX"
  "all_return x86op_pop_DX" "all_return x86op_pop_BX" "all_return x86op_pop_SP"
  "all_return x86op_pop_BP" "all_return x86op_pop_SI" "all_return x86op_pop_DI"
  "all_return x86op_push_all" "all_return x86op_pop_all" "all_return x86op_prefix_data"
  "all_return x86op_ins_byte" "all_return x86op_ins_word" "all_return x86op_outs_byte"
  "all_return x86op_outs_word" "all_return x86op_jump_near_O" "all_return x86op_jump_near_NO"
  "all_return x86op_jump_near_B" "all_return x86op_jump_near_NB" "all_return x86op_jump_near_Z"
  "all_return x86op_jump_near_NZ" "all_return x86op_jump_near_BE" "all_return x86op_jump_near_NBE"
  "all_return x86op_jump_near_S" "all_return x86op_jump_near_NS" "all_return x86op_jump_near_P"
  "all_return x86op_jump_near_NP" "all_return x86op_jump_near_L" "all_return x86op_jump_near_NL"
  "all_return x86op_jump_near_LE" "all_return x86op_jump_near_NLE"
  "all_return x86op_opc80_byte_RM_IMM" "all_return x86op_opc81_word_RM_IMM"
  "all_return x86op_opc82_byte_RM_IMM" "all_return x86op_opc83_word_RM_IMM"
  "all_return x86op_test_byte_RM_R" "all_return x86op_test_word_RM_R"
  "all_return x86op_xchg_byte_RM_R" "all_return x86op_xchg_word_RM_R"
  "all_return x86op_mov_byte_RM_R" "all_return x86op_mov_word_RM_R" "all_return x86op_mov_byte_R_RM"
  "all_return x86op_mov_word_R_RM" "all_return x86op_lea_word_R_M" "all_return x86op_pop_RM"
  unfolding all_return_def Let_def
    x86op_illegal_op_def x86op_add_byte_RM_R_def x86op_add_word_RM_R_def x86op_add_byte_R_RM_def
    x86op_add_word_R_RM_def x86op_add_byte_AL_IMM_def x86op_add_word_AX_IMM_def x86op_push_ES_def
    x86op_pop_ES_def x86op_or_byte_RM_R_def x86op_or_word_RM_R_def x86op_or_byte_R_RM_def
    x86op_or_word_R_RM_def x86op_or_byte_AL_IMM_def x86op_or_word_AX_IMM_def x86op_push_CS_def
    x86op_adc_byte_RM_R_def x86op_adc_word_RM_R_def x86op_adc_byte_R_RM_def x86op_adc_word_R_RM_def
    x86op_adc_byte_AL_IMM_def x86op_adc_word_AX_IMM_def x86op_push_SS_def x86op_pop_SS_def
    x86op_sbb_byte_RM_R_def x86op_sbb_word_RM_R_def x86op_sbb_byte_R_RM_def x86op_sbb_word_R_RM_def
    x86op_sbb_byte_AL_IMM_def x86op_sbb_word_AX_IMM_def x86op_push_DS_def x86op_pop_DS_def
    x86op_and_byte_RM_R_def x86op_and_word_RM_R_def x86op_and_byte_R_RM_def x86op_and_word_R_RM_def
    x86op_and_byte_AL_IMM_def x86op_and_word_AX_IMM_def x86op_segovr_ES_def x86op_daa_def
    x86op_sub_byte_RM_R_def x86op_sub_word_RM_R_def x86op_sub_byte_R_RM_def x86op_sub_word_R_RM_def
    x86op_sub_byte_AL_IMM_def x86op_sub_word_AX_IMM_def x86op_segovr_CS_def x86op_das_def
    x86op_xor_byte_RM_R_def x86op_xor_word_RM_R_def x86op_xor_byte_R_RM_def x86op_xor_word_R_RM_def
    x86op_xor_byte_AL_IMM_def x86op_xor_word_AX_IMM_def x86op_segovr_SS_def x86op_aaa_def
    x86op_cmp_byte_RM_R_def x86op_cmp_word_RM_R_def x86op_cmp_byte_R_RM_def x86op_cmp_word_R_RM_def
    x86op_cmp_byte_AL_IMM_def x86op_cmp_word_AX_IMM_def x86op_segovr_DS_def x86op_aas_def
    x86op_inc_AX_def x86op_inc_CX_def x86op_inc_DX_def x86op_inc_BX_def x86op_inc_SP_def
    x86op_inc_BP_def x86op_inc_SI_def x86op_inc_DI_def x86op_dec_AX_def x86op_dec_CX_def
    x86op_dec_DX_def x86op_dec_BX_def x86op_dec_SP_def x86op_dec_BP_def x86op_dec_SI_def
    x86op_dec_DI_def x86op_push_AX_def x86op_push_CX_def x86op_push_DX_def x86op_push_BX_def
    x86op_push_SP_def x86op_push_BP_def x86op_push_SI_def x86op_push_DI_def x86op_pop_AX_def
    x86op_pop_CX_def x86op_pop_DX_def x86op_pop_BX_def x86op_pop_SP_def x86op_pop_BP_def
    x86op_pop_SI_def x86op_pop_DI_def x86op_push_all_def x86op_pop_all_def x86op_prefix_data_def
    x86op_ins_byte_def x86op_ins_word_def x86op_outs_byte_def x86op_outs_word_def
    x86op_jump_near_O_def x86op_jump_near_NO_def x86op_jump_near_B_def x86op_jump_near_NB_def
    x86op_jump_near_Z_def x86op_jump_near_NZ_def x86op_jump_near_BE_def x86op_jump_near_NBE_def
    x86op_jump_near_S_def x86op_jump_near_NS_def x86op_jump_near_P_def x86op_jump_near_NP_def
    x86op_jump_near_L_def x86op_jump_near_NL_def x86op_jump_near_LE_def x86op_jump_near_NLE_def
    x86op_opc80_byte_RM_IMM_def x86op_opc81_word_RM_IMM_def x86op_opc82_byte_RM_IMM_def
    x86op_opc83_word_RM_IMM_def x86op_test_byte_RM_R_def x86op_test_word_RM_R_def
    x86op_xchg_byte_RM_R_def x86op_xchg_word_RM_R_def x86op_mov_byte_RM_R_def
    x86op_mov_word_RM_R_def x86op_mov_byte_R_RM_def x86op_mov_word_R_RM_def x86op_lea_word_R_M_def
    x86op_pop_RM_def
  by (intro allI returns; assumption)+

lemma high_return [simp]:
  "all_return x86op_nop" "all_return x86op_xchg_word_AX_CX" "all_return x86op_xchg_word_AX_DX"
  "all_return x86op_xchg_word_AX_BX" "all_return x86op_xchg_word_AX_SP"
  "all_return x86op_xchg_word_AX_BP" "all_return x86op_xchg_word_AX_SI"
  "all_return x86op_xchg_word_AX_DI" "all_return x86op_cbw" "all_return x86op_cwd"
  "all_return x86op_call_far_IMM" "all_return x86op_wait" "all_return x86op_pushf_word"
  "all_return x86op_popf_word" "all_return x86op_sahf" "all_return x86op_lahf"
  "all_return x86op_mov_AL_M_IMM" "all_return x86op_mov_AX_M_IMM" "all_return x86op_mov_M_AL_IMM"
  "all_return x86op_mov_M_AX_IMM" "all_return x86op_test_AL_IMM" "all_return x86op_test_AX_IMM"
  "all_return x86op_mov_byte_AL_IMM" "all_return x86op_mov_byte_CL_IMM"
  "all_return x86op_mov_byte_DL_IMM" "all_return x86op_mov_byte_BL_IMM"
  "all_return x86op_mov_byte_AH_IMM" "all_return x86op_mov_byte_CH_IMM"
  "all_return x86op_mov_byte_DH_IMM" "all_return x86op_mov_byte_BH_IMM"
  "all_return x86op_mov_word_AX_IMM" "all_return x86op_mov_word_CX_IMM"
  "all_return x86op_mov_word_DX_IMM" "all_return x86op_mov_word_BX_IMM"
  "all_return x86op_mov_word_SP_IMM" "all_return x86op_mov_word_BP_IMM"
  "all_return x86op_mov_word_SI_IMM" "all_return x86op_mov_word_DI_IMM"
  "all_return x86op_opcC0_byte_RM_MEM" "all_return x86op_opcC1_word_RM_MEM"
  "all_return x86op_ret_near_IMM" "all_return x86op_ret_near" "all_return x86op_les_R_IMM"
  "all_return x86op_lds_R_IMM" "all_return x86op_mov_byte_RM_IMM" "all_return x86op_mov_word_RM_IMM"
  "all_return x86op_ret_far_IMM" "all_return x86op_ret_far" "all_return (x86op_int3 bios)"
  "all_return (x86op_int_IMM bios)" "all_return (x86op_into bios)" "all_return x86op_iret"
  "all_return x86op_opcD0_byte_RM_1" "all_return x86op_opcD1_word_RM_1"
  "all_return x86op_opcD2_byte_RM_CL" "all_return x86op_opcD3_word_RM_CL" "all_return x86op_aam"
  "all_return x86op_aad" "all_return x86op_xlat" "all_return x86op_loopne" "all_return x86op_loope"
  "all_return x86op_loop" "all_return x86op_jcxz" "all_return x86op_in_byte_AL_IMM"
  "all_return x86op_in_word_AX_IMM" "all_return x86op_out_byte_IMM_AL"
  "all_return x86op_out_word_IMM_AX" "all_return x86op_call_near_IMM"
  "all_return x86op_jump_near_IMM" "all_return x86op_jump_far_IMM" "all_return x86op_jump_byte_IMM"
  "all_return x86op_in_byte_AL_DX" "all_return x86op_in_word_AX_DX"
  "all_return x86op_out_byte_DX_AL" "all_return x86op_out_word_DX_AX" "all_return x86op_lock"
  "all_return x86op_repne" "all_return x86op_repe" "all_return x86op_halt" "all_return x86op_cmc"
  "all_return x86op_opcF6_byte_RM" "all_return x86op_opcF7_word_RM" "all_return x86op_clc"
  "all_return x86op_stc" "all_return x86op_cli" "all_return x86op_sti" "all_return x86op_cld"
  "all_return x86op_std" "all_return x86op_opcFE_byte_RM" "all_return x86op_opcFF_word_RM"
  unfolding all_return_def Let_def
    x86op_nop_def x86op_xchg_word_AX_CX_def x86op_xchg_word_AX_DX_def x86op_xchg_word_AX_BX_def
    x86op_xchg_word_AX_SP_def x86op_xchg_word_AX_BP_def x86op_xchg_word_AX_SI_def
    x86op_xchg_word_AX_DI_def x86op_cbw_def x86op_cwd_def x86op_call_far_IMM_def x86op_wait_def
    x86op_pushf_word_def x86op_popf_word_def x86op_sahf_def x86op_lahf_def x86op_mov_AL_M_IMM_def
    x86op_mov_AX_M_IMM_def x86op_mov_M_AL_IMM_def x86op_mov_M_AX_IMM_def x86op_test_AL_IMM_def
    x86op_test_AX_IMM_def x86op_mov_byte_AL_IMM_def x86op_mov_byte_CL_IMM_def
    x86op_mov_byte_DL_IMM_def x86op_mov_byte_BL_IMM_def x86op_mov_byte_AH_IMM_def
    x86op_mov_byte_CH_IMM_def x86op_mov_byte_DH_IMM_def x86op_mov_byte_BH_IMM_def
    x86op_mov_word_AX_IMM_def x86op_mov_word_CX_IMM_def x86op_mov_word_DX_IMM_def
    x86op_mov_word_BX_IMM_def x86op_mov_word_SP_IMM_def x86op_mov_word_BP_IMM_def
    x86op_mov_word_SI_IMM_def x86op_mov_word_DI_IMM_def x86op_opcC0_byte_RM_MEM_def
    x86op_opcC1_word_RM_MEM_def x86op_ret_near_IMM_def x86op_ret_near_def x86op_les_R_IMM_def
    x86op_lds_R_IMM_def x86op_mov_byte_RM_IMM_def x86op_mov_word_RM_IMM_def x86op_ret_far_IMM_def
    x86op_ret_far_def x86op_int3_def x86op_int_IMM_def x86op_into_def x86op_iret_def
    x86op_opcD0_byte_RM_1_def x86op_opcD1_word_RM_1_def x86op_opcD2_byte_RM_CL_def
    x86op_opcD3_word_RM_CL_def x86op_aam_def x86op_aad_def x86op_xlat_def x86op_loopne_def
    x86op_loope_def x86op_loop_def x86op_jcxz_def x86op_in_byte_AL_IMM_def x86op_in_word_AX_IMM_def
    x86op_out_byte_IMM_AL_def x86op_out_word_IMM_AX_def x86op_call_near_IMM_def
    x86op_jump_near_IMM_def x86op_jump_far_IMM_def x86op_jump_byte_IMM_def x86op_in_byte_AL_DX_def
    x86op_in_word_AX_DX_def x86op_out_byte_DX_AL_def x86op_out_word_DX_AX_def x86op_lock_def
    x86op_repne_def x86op_repe_def x86op_halt_def x86op_cmc_def x86op_opcF6_byte_RM_def
    x86op_opcF7_word_RM_def x86op_clc_def x86op_stc_def x86op_cli_def x86op_sti_def x86op_cld_def
    x86op_std_def x86op_opcFE_byte_RM_def x86op_opcFF_word_RM_def
  by (intro allI returns; assumption)+

lemma high_return_strings [simp]:
  "all_return x86op_movs_byte" "all_return x86op_movs_word" "all_return x86op_cmps_byte"
  "all_return x86op_cmps_word" "all_return x86op_stos_byte" "all_return x86op_stos_word"
  "all_return x86op_lods_byte" "all_return x86op_lods_word" "all_return x86op_scas_byte"
  "all_return x86op_scas_word"
  by (simp_all add: all_return_def string_ops_return)

lemma esc_return [simp]:
  "all_return x86op_esc_coprocess_d8" "all_return x86op_esc_coprocess_d9"
  "all_return x86op_esc_coprocess_da" "all_return x86op_esc_coprocess_db"
  "all_return x86op_esc_coprocess_dc" "all_return x86op_esc_coprocess_dd"
  "all_return x86op_esc_coprocess_de" "all_return x86op_esc_coprocess_df"
  unfolding all_return_def Let_def
    x86op_esc_coprocess_d8_def x86op_esc_coprocess_d9_def x86op_esc_coprocess_da_def
    x86op_esc_coprocess_db_def x86op_esc_coprocess_dc_def x86op_esc_coprocess_dd_def
    x86op_esc_coprocess_de_def x86op_esc_coprocess_df_def
  by (intro allI returns; assumption)+


lemma two_byte_returns [simp]: "all_return x86op_two_byte"
  by (simp add: all_return_def x86op_two_byte_def x86op_long_jump_def Let_def split_beta end_instr_def)

text \<open>The segment field of the modrm byte after the opcode.\<close>

definition seg_field :: "'b bus_ops \<Rightarrow> 'b sysenv \<Rightarrow> u16" where
  "seg_field ops m = (case fetch_decode_modrm ops m of ((md, rh, rl), _) \<Rightarrow> rh)"

lemma with_seg_None:
  assumes "field < 8" "\<And>p m. f p m \<noteq> None"
  shows "with_seg field f m = None \<longleftrightarrow> 4 \<le> field"
  using assms by (cases field rule: field_cases) (simp_all add: with_seg_def decode_rm_seg_register_def word_le_nat_alt)

lemma segment_moves_return:
  "x86op_mov_word_RM_SR ops m = None \<longleftrightarrow> 4 \<le> seg_field ops m"
  "x86op_mov_word_SR_RM ops m = None \<longleftrightarrow> 4 \<le> seg_field ops m"
proof -
  obtain md rh rl m' where f: "fetch_decode_modrm ops m = ((md, rh, rl), m')" by (metis prod_cases3 surj_pair)
  note b = modrm_fields [OF f]
  show "x86op_mov_word_RM_SR ops m = None \<longleftrightarrow> 4 \<le> seg_field ops m"
    using b by (simp add: x86op_mov_word_RM_SR_def modrm_def f seg_field_def words_w.with_reg_eq
        with_seg_None end_instr_def split_beta)
  show "x86op_mov_word_SR_RM ops m = None \<longleftrightarrow> 4 \<le> seg_field ops m"
    using b by (simp add: x86op_mov_word_SR_RM_def modrm_def f seg_field_def words_w.with_reg_eq
        with_seg_None end_instr_def split_beta)
qed

definition null_deref :: "u8 \<Rightarrow> 'b bus_ops \<Rightarrow> 'b sysenv \<Rightarrow> bool" where
  "null_deref op1 ops m \<longleftrightarrow> (op1 = 0x8c \<or> op1 = 0x8e) \<and> 4 \<le> seg_field ops m"

lemma table_shape: "length (x86_optab_rows bios) = 16" "list_all (\<lambda>row. length row = 16) (x86_optab_rows bios)"
  by (simp_all add: x86_optab_rows_def)

lemma table_returns:
  "list_all (list_all all_return) ((x86_optab_rows bios)[8 := []])"
  "list_all all_return ((x86_optab_rows bios ! 8)[12 := x86op_nop, 14 := x86op_nop])"
  "x86_optab_rows bios ! 8 ! 12 = x86op_mov_word_RM_SR" "x86_optab_rows bios ! 8 ! 14 = x86op_mov_word_SR_RM"
  by (simp_all add: x86_optab_rows_def)

lemma entry_returns:
  assumes "i < 16" "j < 16" "\<not> (i = 8 \<and> (j = 12 \<or> j = 14))"
  shows "all_return (x86_optab_rows bios ! i ! j)"
proof (cases "i = 8")
  case True
  have "length (x86_optab_rows bios ! 8) = 16"
    using table_shape [of bios] by (simp add: list_all_length)
  then have "(x86_optab_rows bios ! 8)[12 := x86op_nop, 14 := x86op_nop] ! j = x86_optab_rows bios ! 8 ! j"
    "all_return ((x86_optab_rows bios ! 8)[12 := x86op_nop, 14 := x86op_nop] ! j)"
    using table_returns(2) [of bios] assms(2,3) True by (auto simp: list_all_length)
  then show ?thesis by (simp add: True)
next
  case False
  have "list_all all_return ((x86_optab_rows bios)[8 := []] ! i)"
    using table_returns(1) [of bios] table_shape(1) [of bios] assms(1)
    by (simp add: list_all_length)
  then show ?thesis
    using False table_shape [of bios] assms(1,2) by (auto simp: list_all_length)
qed

lemma optab_index:
  assumes "unat op1 = 16 * i + j" "j < 16"
  shows "x86_optab bios op1 = x86_optab_rows bios ! i ! j"
proof -
  have "unat (op1 AND 0xf) = unat op1 mod 16"
    using unat_and_mask [of op1 4] by (simp add: mask_eq_exp_minus_1)
  then show ?thesis using assms by (simp add: x86_optab_def unat_drop_bit)
qed

text \<open>
  C14: Every instruction returns. For each of the 256 opcodes, any machine and any bus, the handler
  of the table returns, also a string instruction with a repeat prefix and an illegal opcode,
  except that a move to or from a segment register (0x8c and 0x8e) whose field names none of the
  four registers follows a null pointer.
\<close>

theorem instruction_returns: "x86_optab bios op1 ops m = None \<longleftrightarrow> null_deref op1 ops m"
proof -
  define i j where "i = unat op1 div 16" and "j = unat op1 mod 16"
  have ij: "unat op1 = 16 * i + j" "j < 16" by (simp_all add: i_def j_def)
  have "unat op1 < 256" by (rule order_less_le_trans [OF unsigned_less]) simp
  then have i: "i < 16" using ij by linarith
  have u: "unat (0x8c :: u8) = 140" "unat (0x8e :: u8) = 142" by simp_all
  have op: "op1 = 0x8c \<longleftrightarrow> i = 8 \<and> j = 12" "op1 = 0x8e \<longleftrightarrow> i = 8 \<and> j = 14"
    unfolding word_eq_iff_unat u using ij by presburger+
  show ?thesis
  proof (cases "i = 8 \<and> (j = 12 \<or> j = 14)")
    case True
    then show ?thesis
      using table_returns(3,4) [of bios] segment_moves_return [of ops m]
      by (auto simp: optab_index [OF ij] null_deref_def op)
  next
    case False
    then have "\<not> null_deref op1 ops m" unfolding null_deref_def op by blast
    moreover have "(x86_optab_rows bios ! i ! j) ops m \<noteq> None"
      using entry_returns [OF i ij(2) False, of bios] unfolding all_return_def by blast
    ultimately show ?thesis by (simp add: optab_index [OF ij])
  qed
qed

subsection \<open>Conditional jumps\<close>

text \<open>The sixteen conditions as the processor encodes them: eight tests and their negations.\<close>

definition condition :: "nat \<Rightarrow> 'b sysenv \<Rightarrow> bool" where
  "condition c m \<longleftrightarrow> (let ov = ACCESS_FLAG F_OF m; cy = ACCESS_FLAG F_CF m; ze = ACCESS_FLAG F_ZF m;
       sg = ACCESS_FLAG F_SF m; pa = ACCESS_FLAG F_PF m
     in ([ov, cy, ze, cy \<or> ze, sg, pa, sg \<noteq> ov, sg \<noteq> ov \<or> ze] ! (c div 2)) \<noteq> odd c)"

lemma condition_cases:
  "condition 0 = (\<lambda>m. ACCESS_FLAG F_OF m)"
  "condition (Suc 0) = (\<lambda>m. \<not> ACCESS_FLAG F_OF m)"
  "condition 2 = (\<lambda>m. ACCESS_FLAG F_CF m)"
  "condition 3 = (\<lambda>m. \<not> ACCESS_FLAG F_CF m)"
  "condition 4 = (\<lambda>m. ACCESS_FLAG F_ZF m)"
  "condition 5 = (\<lambda>m. \<not> ACCESS_FLAG F_ZF m)"
  "condition 6 = (\<lambda>m. ACCESS_FLAG F_CF m \<or> ACCESS_FLAG F_ZF m)"
  "condition 7 = (\<lambda>m. \<not> (ACCESS_FLAG F_CF m \<or> ACCESS_FLAG F_ZF m))"
  "condition 8 = (\<lambda>m. ACCESS_FLAG F_SF m)"
  "condition 9 = (\<lambda>m. \<not> ACCESS_FLAG F_SF m)"
  "condition 10 = (\<lambda>m. ACCESS_FLAG F_PF m)"
  "condition 11 = (\<lambda>m. \<not> ACCESS_FLAG F_PF m)"
  "condition 12 = (\<lambda>m. ACCESS_FLAG F_SF m \<noteq> ACCESS_FLAG F_OF m)"
  "condition 13 = (\<lambda>m. ACCESS_FLAG F_SF m = ACCESS_FLAG F_OF m)"
  "condition 14 = (\<lambda>m. ACCESS_FLAG F_SF m \<noteq> ACCESS_FLAG F_OF m \<or> ACCESS_FLAG F_ZF m)"
  "condition 15 = (\<lambda>m. (ACCESS_FLAG F_SF m = ACCESS_FLAG F_OF m) \<and> \<not> ACCESS_FLAG F_ZF m)"
  by (rule ext, simp add: condition_def Let_def; blast?)+

lemma sixteen: "[0..<16] = [0, 1, 2, 3, 4, 5, 6, 7, 8, 9, 10, 11, 12, 13, 14, 15 :: nat]"
  by (simp add: upt_rec)

lemma short_jump_row: "x86_optab_rows bios ! 7 = map (\<lambda>c. jump_short_if (condition c)) [0..<16]"
  unfolding sixteen
  by (simp add: x86_optab_rows_def condition_cases x86op_jump_near_O_def x86op_jump_near_NO_def
        x86op_jump_near_B_def x86op_jump_near_NB_def x86op_jump_near_Z_def x86op_jump_near_NZ_def
        x86op_jump_near_BE_def x86op_jump_near_NBE_def x86op_jump_near_S_def x86op_jump_near_NS_def
        x86op_jump_near_P_def x86op_jump_near_NP_def x86op_jump_near_L_def x86op_jump_near_NL_def
        x86op_jump_near_LE_def x86op_jump_near_NLE_def)

lemma long_cond_condition:
  assumes "c < 16"
  shows "long_cond (0x80 + of_nat c) m = condition (if c = 13 then 12 else c) m"
proof -
  have "c \<in> set [0..<16]" using assms by simp
  then show ?thesis
    unfolding sixteen by (simp, elim disjE) (simp_all add: long_cond_def condition_cases)
qed

lemma jump_targets: "(ucast (s16 x + s8 d) :: u16) = x + scast d" "(ucast (s16 y + s16 x) :: u16) = x + y"
  by (simp_all add: narrow_add narrow_disp)

text \<open>
  C17: Conditional jumps. Opcode 0x70 + c jumps by its signed byte exactly when condition c of the
  processor's sixteen holds, and 0x0f 0x80 + c by its word, relative to the instruction that
  follows and wrapping in the segment; but the long JNL (c = 13) tests the condition of JL, its
  negation.
\<close>

theorem conditional_jumps:
  assumes "c < 16"
  shows "x86_optab bios (0x70 + of_nat c) ops m = (let (d, m1) = fetch_byte_imm ops m
      in Some (clear_segovr (if condition c m1 then set_ip (reg_x EIP m1 + scast d) m1 else m1))) \<and>
    x86op_long_jump (0x80 + of_nat c) ops m = (let (w, m1) = fetch_word_imm ops m
      in Some (clear_segovr (if condition (if c = 13 then 12 else c) m
           then set_ip (reg_x EIP m1 + w) m1 else m1)))"
proof -
  have "unat (of_nat c :: u8) = c" using assms by (simp add: unat_of_nat_small)
  then have "unat (0x70 + of_nat c :: u8) = 16 * 7 + c" using assms by (subst unat_add_no_wrap) simp_all
  then have "x86_optab bios (0x70 + of_nat c) = jump_short_if (condition c)"
    using assms by (subst optab_index) (auto simp: short_jump_row)
  then show ?thesis
    using long_cond_condition [OF assms, of m]
    by (simp add: jump_short_if_def x86op_long_jump_def end_instr_def jump_targets split_beta Let_def)
qed

lemma conditional_jumps_witness:
  "x86op_long_jump 0x8d null_bus blank_machine = (let (w, m1) = fetch_word_imm null_bus blank_machine
      in Some (clear_segovr m1))"
  using conditional_jumps [of 13 undefined null_bus blank_machine]
  by (simp add: condition_def ACCESS_FLAG_def)

end
