(* ===== verification/X86_Frame.thy ===== *)
theory X86_Frame
  imports X86_Ops_Spec
begin

text \<open>
  What no instruction can do. The locale \<open>machine_frame\<close> takes a preorder on machines that is kept by
  any change of the registers, by any access of the bus and by \<open>mem_write\<close>, and shows that every
  primitive operation, every family of handlers, every handler of the table and every turn of the
  main loop keeps it: the handlers reach the memory through the accessors only.
\<close>

named_theorems frame \<open>what keeps the preorder\<close>

text \<open>Operations of two operands, and handlers, that keep it.\<close>

definition binop_keeps :: "('b sysenv \<Rightarrow> 'b sysenv \<Rightarrow> bool) \<Rightarrow> ('b, 'v) binop \<Rightarrow> bool" where
  "binop_keeps I f \<longleftrightarrow> (\<forall>m0 m d s. I m0 m \<longrightarrow> I m0 (snd (f m d s)))"

definition keeps :: "('b sysenv \<Rightarrow> 'b sysenv \<Rightarrow> bool) \<Rightarrow> 'b handler \<Rightarrow> bool" where
  "keeps I h \<longleftrightarrow> (\<forall>m0 m ops. I m0 m \<longrightarrow> pred_option (I m0) (h ops m))"

locale machine_frame =
  fixes I :: "'b sysenv \<Rightarrow> 'b sysenv \<Rightarrow> bool"
  assumes refl: "I m m"
    and trans: "I m0 m \<Longrightarrow> I m m' \<Longrightarrow> I m0 m'"
    and registers: "I m (upd f m)"
    and buses: "I m (m\<lparr>bus := b\<rparr>)"
    and writes: "I m (mem_write ops m (ucast (addr :: u32)) v sz)"
begin

text \<open>The shape of the code: results, branches and the pairs of a value and a machine.\<close>

lemma shapes [frame]:
  "I m0 b \<Longrightarrow> I m0 (snd (val, b))"
  "I m0 b \<Longrightarrow> pred_option (I m0) (Some b)" "pred_option (I m0) None"
  "(c \<Longrightarrow> I m0 a) \<Longrightarrow> (\<not> c \<Longrightarrow> I m0 b) \<Longrightarrow> I m0 (if c then a else b)"
  "(c \<Longrightarrow> I m0 (snd x)) \<Longrightarrow> (\<not> c \<Longrightarrow> I m0 (snd y)) \<Longrightarrow> I m0 (snd (if c then x else y))"
  "(c \<Longrightarrow> pred_option (I m0) u) \<Longrightarrow> (\<not> c \<Longrightarrow> pred_option (I m0) v) \<Longrightarrow> pred_option (I m0) (if c then u else v)"
  by simp_all

lemma pairs [frame]:
  "I m0 (snd p) \<Longrightarrow> (\<And>a b. I m0 b \<Longrightarrow> I m0 (f a b)) \<Longrightarrow> I m0 (case p of (a, b) \<Rightarrow> f a b)"
  "I m0 (snd p) \<Longrightarrow> (\<And>a b. I m0 b \<Longrightarrow> I m0 (snd (g a b))) \<Longrightarrow> I m0 (snd (case p of (a, b) \<Rightarrow> g a b))"
  "I m0 (snd p) \<Longrightarrow> (\<And>a b. I m0 b \<Longrightarrow> pred_option (I m0) (h a b)) \<Longrightarrow> pred_option (I m0) (case p of (a, b) \<Rightarrow> h a b)"
  by (simp_all add: split_beta)

lemma bus_pairs [frame]:
  fixes p :: "'a \<times> 'b"
  shows "(\<And>a b. I m0 (f a b)) \<Longrightarrow> I m0 (case p of (a, b) \<Rightarrow> f a b)"
    "(\<And>a b. I m0 (snd (g a b))) \<Longrightarrow> I m0 (snd (case p of (a, b) \<Rightarrow> g a b))"
  by (simp_all add: split_beta)

lemma options [frame]:
  "I m0 (snd x) \<Longrightarrow> (\<And>b. I m0 (snd (f b))) \<Longrightarrow> I m0 (snd (case u of None \<Rightarrow> x | Some b \<Rightarrow> f b))"
  "pred_option (I m0) v \<Longrightarrow> (\<And>a. I m0 a \<Longrightarrow> pred_option (I m0) (g a)) \<Longrightarrow>
    pred_option (I m0) (case v of None \<Rightarrow> None | Some a \<Rightarrow> g a)"
  by (cases u; simp) (cases v; simp)

lemma parts [frame]:
  "I m0 m \<Longrightarrow> I m0 (upd f m)" "I m0 m \<Longrightarrow> I m0 (m\<lparr>bus := b\<rparr>)"
  "I m0 m \<Longrightarrow> I m0 (mem_write ops m (ucast (addr :: u32)) v sz)" "I m0 m \<Longrightarrow> I m0 (bus_write h m)"
  "I m0 m \<Longrightarrow> I m0 (snd (bus_readb ops m a))"
  using trans registers buses writes by (auto simp: bus_write_def bus_readb_def split_beta)

lemma register_parts [frame]:
  assumes "I m0 m"
  shows "I m0 (set_x g w m)" "I m0 (set_l g b m)" "I m0 (set_h g b m)" "I m0 (set_e g l m)"
    "I m0 (CLEAR_FLAG f m)" "I m0 (SET_FLAG f m)" "I m0 (TOGGLE_FLAG f m)"
    "I m0 (CONDITIONAL_SET_FLAG c f m)" "I m0 (halt_sys m)" "I m0 (x86_intr_raise n m)"
    "I m0 (clear_segovr m)" "I m0 (set_ip w m)" "I m0 (clear_mode u m)" "I m0 (set_mode u m)"
    "I m0 (mark_ss m)" "I m0 (put_flags l m)" "I m0 (add_x g w m)"
  unfolding set_x_def set_l_def set_h_def set_e_def CLEAR_FLAG_def SET_FLAG_def TOGGLE_FLAG_def
    CONDITIONAL_SET_FLAG_def halt_sys_def x86_intr_raise_def clear_segovr_def set_ip_def clear_mode_def
    set_mode_def mark_ss_def put_flags_def add_x_def
  by (insert assms) (intro frame; assumption)+

lemma register_pointers [frame]:
  assumes "I m0 m"
  shows "I m0 (put_seg s w m)" "I m0 (put8 p b m)"
  by (insert assms, cases s; simp only: put_seg.simps; intro frame; assumption)
    (insert assms, cases p; simp only: put8.simps; intro frame; assumption)

lemma accessors [frame]:
  assumes "I m0 m"
  shows "I m0 (snd (mem_read ops m u sz))" "I m0 (snd (sys_rdb ops m a))" "I m0 (snd (sys_rdw ops m a))"
    "I m0 (snd (sys_rdl ops m a))" "I m0 (sys_wrb ops m a b)" "I m0 (sys_wrw ops m a w)" "I m0 (sys_wrl ops m a l)"
    "I m0 (snd (sys_inb ops m a))" "I m0 (snd (sys_inw ops m a))" "I m0 (snd (sys_inl ops m a))"
    "I m0 (sys_outb ops m a b)" "I m0 (sys_outw ops m a w)" "I m0 (sys_outl ops m a l)"
proof -
  have rd: "I m0 (snd (mem_read ops m u sz))" for u sz
    unfolding mem_read_def Let_def by (insert assms) (intro frame; assumption)
  show "I m0 (snd (mem_read ops m u sz))" by (rule rd)
  show "I m0 (snd (sys_rdb ops m a))" "I m0 (snd (sys_rdw ops m a))" "I m0 (snd (sys_rdl ops m a))"
    unfolding sys_rdb_def sys_rdw_def sys_rdl_def Let_def by (intro frame rd; assumption)+
  show "I m0 (sys_wrb ops m a b)" "I m0 (sys_wrw ops m a w)" "I m0 (sys_wrl ops m a l)"
    "I m0 (snd (sys_inb ops m a))" "I m0 (snd (sys_inw ops m a))" "I m0 (snd (sys_inl ops m a))"
    "I m0 (sys_outb ops m a b)" "I m0 (sys_outw ops m a w)" "I m0 (sys_outl ops m a l)"
    using assms unfolding sys_wrb_def sys_wrw_def sys_wrl_def sys_inb_def sys_inw_def sys_inl_def
      sys_outb_def sys_outw_def sys_outl_def Let_def
  by (insert assms) (intro frame; assumption)+
qed

lemma stack_accessors [frame]:
  assumes "I m0 m"
  shows "I m0 (snd (mem_access_word ops m a))" "I m0 (push_word ops m w)" "I m0 (push_long ops m l)"
    "I m0 (snd (pop_word ops m))" "I m0 (snd (pop_long ops m))"
  unfolding mem_access_word_def push_word_def push_long_def pop_word_def pop_long_def Let_def
  by (insert assms) (intro frame; assumption)+

lemma decoding [frame]:
  assumes "I m0 m"
  shows "I m0 (snd (fetch_byte_imm ops m))" "I m0 (snd (fetch_word_imm ops m))" "I m0 (snd (fetch_long_imm ops m))"
    "I m0 (snd (fetch_decode_modrm ops m))" "I m0 (snd (fetch_amount ops m))"
    "I m0 (snd (decode_rm_byte_register m i))" "I m0 (snd (decode_rm_word_register m i))"
    "I m0 (snd (decode_rm_long_register m i))" "I m0 (snd (decode_rm_seg_register m i))"
proof -
  show f: "I m0 (snd (fetch_byte_imm ops m))"
    unfolding fetch_byte_imm_def Let_def by (insert assms) (intro frame; assumption)
  show "I m0 (snd (fetch_amount ops m))"
    unfolding fetch_amount_def Let_def by (intro frame f; assumption)
  show "I m0 (snd (fetch_word_imm ops m))" "I m0 (snd (fetch_long_imm ops m))"
    "I m0 (snd (fetch_decode_modrm ops m))"
    "I m0 (snd (decode_rm_byte_register m i))" "I m0 (snd (decode_rm_word_register m i))"
    "I m0 (snd (decode_rm_long_register m i))" "I m0 (snd (decode_rm_seg_register m i))"
    using assms unfolding fetch_word_imm_def fetch_long_imm_def fetch_decode_modrm_def
      decode_rm_byte_register_def decode_rm_word_register_def decode_rm_long_register_def
      decode_rm_seg_register_def Let_def
  by (insert assms) (intro frame; assumption)+
qed

lemma addresses [frame]:
  assumes "I m0 m"
  shows "I m0 (snd (decode_rm_address ops m md rl))"
  unfolding decode_rm_address_def decode_rm00_address_def decode_rm01_address_def
    decode_rm10_address_def Let_def
  by (insert assms) (intro frame; assumption)

lemma data_accesses [frame]:
  assumes "I m0 m"
  shows "I m0 (snd (fetch_data_byte ops m w))" "I m0 (snd (fetch_data_word ops m w))"
    "I m0 (snd (fetch_data_long ops m w))" "I m0 (snd (fetch_data_byte_abs ops m s w))"
    "I m0 (snd (fetch_data_word_abs ops m s w))" "I m0 (snd (fetch_data_long_abs ops m s w))"
    "I m0 (store_data_byte ops m w x)" "I m0 (store_data_word ops m w y)"
    "I m0 (store_data_long ops m w z)" "I m0 (store_data_byte_abs ops m s w x)"
    "I m0 (store_data_word_abs ops m s w y)" "I m0 (store_data_long_abs ops m s w z)"
  unfolding fetch_data_byte_def fetch_data_word_def fetch_data_long_def
    fetch_data_byte_abs_def fetch_data_word_abs_def fetch_data_long_abs_def store_data_byte_def
    store_data_word_def store_data_long_def store_data_byte_abs_def store_data_word_abs_def
    store_data_long_abs_def Let_def
  by (insert assms) (intro frame; assumption)+

lemma times_do_frame: "(\<And>m. I m (f m)) \<Longrightarrow> I m0 m \<Longrightarrow> I m0 (times_do n f m)"
  by (induction n arbitrary: m) (auto intro: trans)

lemma string_io [frame]:
  assumes "I m0 m"
  shows "I m0 (ins ops m sz)" "I m0 (outs ops m sz)"
proof -
  have one: "I m0 (ins_one ops sz m)" "I m0 (outs_one ops sz m)" if "I m0 m" for m0 m :: "'b sysenv"
    unfolding ins_one_def outs_one_def Let_def by (insert that) (intro frame; assumption)+
  have e: "I m0 (end_rep m)" if "I m0 m" for m
    unfolding end_rep_def Let_def by (insert that) (intro frame; assumption)
  show "I m0 (ins ops m sz)" "I m0 (outs ops m sz)"
    unfolding ins_def outs_def Let_def
    by (insert assms) (intro frame e times_do_frame one refl; assumption)+
qed

subsection \<open>Primitive operations\<close>

lemma primitives_keep:
  "binop_keeps I adc_byte" "binop_keeps I adc_word" "binop_keeps I add_byte"
  "binop_keeps I add_word" "binop_keeps I cmp_byte" "binop_keeps I cmp_word"
  "binop_keeps I cmp_long" "binop_keeps I sbb_byte" "binop_keeps I sbb_word"
  "binop_keeps I sub_byte" "binop_keeps I sub_word" "binop_keeps I and_byte"
  "binop_keeps I and_word" "binop_keeps I or_byte" "binop_keeps I or_word" "binop_keeps I xor_byte"
  "binop_keeps I xor_word" "binop_keeps I rcl_byte" "binop_keeps I rcl_word"
  "binop_keeps I rcl_long" "binop_keeps I rcr_byte" "binop_keeps I rcr_word"
  "binop_keeps I rcr_long" "binop_keeps I rol_byte" "binop_keeps I rol_word"
  "binop_keeps I rol_long" "binop_keeps I ror_byte" "binop_keeps I ror_word"
  "binop_keeps I ror_long" "binop_keeps I shl_byte" "binop_keeps I shl_word"
  "binop_keeps I shl_long" "binop_keeps I shr_byte" "binop_keeps I shr_word"
  "binop_keeps I shr_long" "binop_keeps I sar_byte" "binop_keeps I sar_word"
  "binop_keeps I sar_long"
  unfolding binop_keeps_def Let_def
    adc_byte_def adc_word_def add_byte_def add_word_def cmp_byte_def cmp_word_def cmp_long_def
    sbb_byte_def sbb_word_def sub_byte_def sub_word_def and_byte_def and_word_def or_byte_def
    or_word_def xor_byte_def xor_word_def rcl_byte_def rcl_word_def rcl_long_def rcr_byte_def
    rcr_word_def rcr_long_def rol_byte_def rol_word_def rol_long_def ror_byte_def ror_word_def
    ror_long_def shl_byte_def shl_word_def shl_long_def shr_byte_def shr_word_def shr_long_def
    sar_byte_def sar_word_def sar_long_def
  by (intro allI impI frame; assumption)+

lemma other_primitives [frame]:
  "I m0 m \<Longrightarrow> I m0 (snd (aad_word m d0))"
  "I m0 m \<Longrightarrow> I m0 (snd (aam_word m d1))"
  "I m0 m \<Longrightarrow> I m0 (snd (dec_byte m d13))"
  "I m0 m \<Longrightarrow> I m0 (snd (dec_word m d14))"
  "I m0 m \<Longrightarrow> I m0 (snd (inc_byte m d15))"
  "I m0 m \<Longrightarrow> I m0 (snd (inc_word m d16))"
  "I m0 m \<Longrightarrow> I m0 (snd (neg_byte m d17))"
  "I m0 m \<Longrightarrow> I m0 (snd (neg_word m d18))"
  "I m0 m \<Longrightarrow> I m0 (test_byte m d50 s50)"
  "I m0 m \<Longrightarrow> I m0 (test_word m d51 s51)"
  "I m0 m \<Longrightarrow> I m0 (imul_byte m d52)"
  "I m0 m \<Longrightarrow> I m0 (imul_word m d53)"
  "I m0 m \<Longrightarrow> I m0 (mul_byte m d54)" "I m0 m \<Longrightarrow> I m0 (mul_word m d55)"
  "I m0 m \<Longrightarrow> I m0 (idiv_byte m d56)"
  "I m0 m \<Longrightarrow> I m0 (idiv_word m d57)"
  "I m0 m \<Longrightarrow> I m0 (div_byte m d58)" "I m0 m \<Longrightarrow> I m0 (div_word m d59)"
  unfolding Let_def
    aad_word_def aam_word_def dec_byte_def dec_word_def inc_byte_def inc_word_def neg_byte_def
    neg_word_def test_byte_def test_word_def imul_byte_def imul_word_def mul_byte_def mul_word_def
    idiv_byte_def idiv_word_def div_byte_def div_word_def
  by (intro frame; assumption)+

lemma primitive_results:
  "binop_keeps I f \<Longrightarrow> I m0 m \<Longrightarrow> I m0 (snd (f m d s))"
  by (simp add: binop_keeps_def)

lemma operation_tables [frame]:
  "list_all (binop_keeps I) opc80_byte_operation" "list_all (binop_keeps I) opc81_word_operation"
  "list_all (binop_keeps I) opc82_byte_operation" "list_all (binop_keeps I) opc83_word_operation"
  "list_all (binop_keeps I) opcD0_byte_operation" "list_all (binop_keeps I) opcD1_word_operation"
  "list_all (binop_keeps I) opcD1_long_operation"
  by (simp_all add: opc80_byte_operation_def opc81_word_operation_def opc82_byte_operation_def
      opc83_word_operation_def opcD0_byte_operation_def opcD1_word_operation_def
      opcD1_long_operation_def primitives_keep)

lemma from_table:
  assumes "list_all (binop_keeps I) tab" "unat rh < length tab" "I m0 m"
  shows "I m0 (snd ((tab ! unat rh) m d s))"
  using assms by (simp add: list_all_length binop_keeps_def)

subsection \<open>Handlers\<close>

lemma ends [frame]: "I m0 m \<Longrightarrow> pred_option (I m0) (end_instr m)"
  by (simp add: end_instr_def frame)

lemma modrm_frame [frame]:
  assumes "I m0 m"
    and "\<And>md rh rl m. rh < 8 \<Longrightarrow> rl < 8 \<Longrightarrow> I m0 m \<Longrightarrow> pred_option (I m0) (mem md rh rl ops m)"
    and "\<And>rh rl m. rh < 8 \<Longrightarrow> rl < 8 \<Longrightarrow> I m0 m \<Longrightarrow> pred_option (I m0) (reg rh rl ops m)"
  shows "pred_option (I m0) (modrm mem reg ops m)"
proof -
  obtain md rh rl m' where f: "fetch_decode_modrm ops m = ((md, rh, rl), m')" by (metis prod_cases3 surj_pair)
  have "I m0 m'" using decoding(4) [OF assms(1), of ops] f by simp
  then show ?thesis using assms(2,3) modrm_fields [OF f] by (simp add: modrm_def f)
qed

lemma with_seg_frame [frame]:
  assumes "I m0 m" "\<And>p m. I m0 m \<Longrightarrow> pred_option (I m0) (f p m)"
  shows "pred_option (I m0) (with_seg field f m)"
  using decoding(9) [OF assms(1), of "uint field"] assms(2)
  by (auto simp: with_seg_def split: prod.splits option.splits)

lemma rep_loop_frame:
  assumes "\<And>m. I m (acc m)" "\<And>m. I m (advance m)" "I m0 m"
  shows "pred_option (I m0) (rep_loop acc advance stop m)"
proof -
  have "(\<forall>m. I m (acc m)) \<and> (\<forall>m. I m (advance m)) \<longrightarrow> I m m'" if "rep_loop acc advance stop m = Some m'" for m m'
  proof (rule rep_loop.raw_induct
      [where P = "\<lambda>acc advance stop m m'. (\<forall>m. I m (acc m)) \<and> (\<forall>m. I m (advance m)) \<longrightarrow> I m m'", OF _ that])
    fix loop :: "('b sysenv \<Rightarrow> 'b sysenv) \<Rightarrow> ('b sysenv \<Rightarrow> 'b sysenv) \<Rightarrow> ('b sysenv \<Rightarrow> bool) \<Rightarrow>
        'b sysenv \<Rightarrow> 'b sysenv option" and acc advance stop m m'
    assume ih: "\<And>acc advance stop m m'. loop acc advance stop m = Some m' \<Longrightarrow>
        (\<forall>m. I m (acc m)) \<and> (\<forall>m. I m (advance m)) \<longrightarrow> I m m'"
      and turn: "(if reg_x ECX m \<noteq> 0 then let m = advance (add_x ECX (- 1) (acc m))
        in if stop m then Some m else loop acc advance stop m else Some m) = Some m'"
    show "(\<forall>m. I m (acc m)) \<and> (\<forall>m. I m (advance m)) \<longrightarrow> I m m'"
    proof
      assume k: "(\<forall>m. I m (acc m)) \<and> (\<forall>m. I m (advance m))"
      then have "I m (acc m)" by blast
      then have "I m (add_x ECX (- 1) (acc m))" by (rule register_parts)
      then have "I m (advance (add_x ECX (- 1) (acc m)))" using k trans by blast
      then show "I m m'"
        using turn ih k trans [of m "advance (add_x ECX (- 1) (acc m))" m'] refl
        by (auto simp: Let_def split: if_splits)
    qed
  qed
  then show ?thesis using assms(1,2) trans [OF assms(3)] by (cases "rep_loop acc advance stop m") auto
qed

lemma string_frames [frame]:
  assumes "\<And>m. I m (acc m)" "\<And>m. I m (advance m)" "I m0 m"
  shows "pred_option (I m0) (str_op acc advance m)" "pred_option (I m0) (cmp_op acc advance m)"
proof -
  have step: "I m0 (advance (acc m))" using assms trans by blast
  show "pred_option (I m0) (str_op acc advance m)" "pred_option (I m0) (cmp_op acc advance m)"
    unfolding str_op_def cmp_op_def
    by (intro frame rep_loop_frame step assms; assumption)+
qed

lemma simple_handlers [frame]:
  assumes "I m0 m"
  shows "pred_option (I m0) (prefix_op u ops m)" "pred_option (I m0) (push_seg s ops m)"
    "pred_option (I m0) (pop_seg s ops m)" "pred_option (I m0) (push_reg r ops m)"
    "pred_option (I m0) (pop_reg r ops m)" "pred_option (I m0) (xchg_AX r ops m)"
    "pred_option (I m0) (jump_short_if c ops m)"
  unfolding prefix_op_def push_seg_def pop_seg_def push_reg_def pop_reg_def xchg_AX_def
    jump_short_if_def Let_def
  by (insert assms) (intro frame; assumption)+

lemma functional_handlers [frame]:
  assumes "I m0 m"
  shows "(\<And>m. I m0 m \<Longrightarrow> I m0 (f m)) \<Longrightarrow> pred_option (I m0) (simple_op f ops m)"
    "(\<And>m w. I m0 m \<Longrightarrow> I m0 (snd (g m w))) \<Longrightarrow> pred_option (I m0) (op_reg r g ops m)"
  using assms by (simp_all add: simple_op_def op_reg_def split_beta ends frame)

end

subsection \<open>The families\<close>

locale framed_width = machine_frame I for I :: "'b sysenv \<Rightarrow> 'b sysenv \<Rightarrow> bool" +
  fixes w :: "('b, 'r, 'v) width"
  assumes decode: "I m (snd (decode_reg w m i))"
    and put: "I m (put_r w p v m)"
    and fetch: "I m (snd (fetch_data w ops m off))"
    and store: "I m (store_data w ops m off v)"
    and fetch_a: "I m (snd (fetch_abs w ops m seg off))"
    and store_a: "I m (store_abs w ops m seg off v)"
    and immediate: "I m (snd (fetch_imm w ops m))"
begin

lemma width_parts [frame]:
  assumes "I m0 m"
  shows "I m0 (put_r w p v m)" "I m0 (snd (fetch_data w ops m off))" "I m0 (store_data w ops m off v)"
    "I m0 (snd (fetch_abs w ops m seg off))" "I m0 (store_abs w ops m seg off v)"
    "I m0 (snd (fetch_imm w ops m))"
  by (rule trans [OF assms]; rule put fetch store fetch_a store_a immediate)+

lemma with_reg_frame [frame]:
  assumes "I m0 m" "\<And>p m. I m0 m \<Longrightarrow> pred_option (I m0) (f p m)"
  shows "pred_option (I m0) (with_reg w field f m)"
  using trans [OF assms(1) decode [of m "uint field"]] assms(2)
  by (auto simp: with_reg_def split: prod.splits option.splits)

lemma families [frame]:
  assumes "I m0 m"
  shows "binop_keeps I f \<Longrightarrow> pred_option (I m0) (op_RM_R w f ops m)"
    "binop_keeps I f \<Longrightarrow> pred_option (I m0) (op_R_RM w f ops m)"
    "binop_keeps I f \<Longrightarrow> pred_option (I m0) (op_ACC_IMM w acc f ops m)"
    "(\<And>m d s. I m (g m d s)) \<Longrightarrow> pred_option (I m0) (flags_RM_R w g ops m)"
    "(\<And>m d s. I m (g m d s)) \<Longrightarrow> pred_option (I m0) (flags_R_RM w g ops m)"
    "(\<And>m d s. I m (g m d s)) \<Longrightarrow> pred_option (I m0) (flags_ACC_IMM w acc g ops m)"
    "pred_option (I m0) (xchg_RM_R w ops m)" "pred_option (I m0) (mov_RM_R w ops m)"
    "pred_option (I m0) (mov_IMM w acc ops m)" "pred_option (I m0) (mov_RM_IMM w ops m)"
    "pred_option (I m0) (mov_R_M w md rh rl ops m)" "pred_option (I m0) (mov_R_R w rh rl ops m)"
proof -
  have f: "binop_keeps I f \<Longrightarrow> I m0 m \<Longrightarrow> I m0 (snd (f m d s))" for m d s
    by (rule primitive_results)
  have g: "I m0 (g m d s)" if "\<And>m d s. I m (g m d s)" "I m0 m" for m d s
    using that trans by blast
  show "binop_keeps I f \<Longrightarrow> pred_option (I m0) (op_RM_R w f ops m)"
    "binop_keeps I f \<Longrightarrow> pred_option (I m0) (op_R_RM w f ops m)"
    "binop_keeps I f \<Longrightarrow> pred_option (I m0) (op_ACC_IMM w acc f ops m)"
    "(\<And>m d s. I m (g m d s)) \<Longrightarrow> pred_option (I m0) (flags_RM_R w g ops m)"
    "(\<And>m d s. I m (g m d s)) \<Longrightarrow> pred_option (I m0) (flags_R_RM w g ops m)"
    "(\<And>m d s. I m (g m d s)) \<Longrightarrow> pred_option (I m0) (flags_ACC_IMM w acc g ops m)"
    "pred_option (I m0) (xchg_RM_R w ops m)" "pred_option (I m0) (mov_RM_R w ops m)"
    "pred_option (I m0) (mov_IMM w acc ops m)" "pred_option (I m0) (mov_RM_IMM w ops m)"
    "pred_option (I m0) (mov_R_M w md rh rl ops m)" "pred_option (I m0) (mov_R_R w rh rl ops m)"
    unfolding op_RM_R_def op_R_RM_def op_ACC_IMM_def flags_RM_R_def flags_R_RM_def
      flags_ACC_IMM_def xchg_RM_R_def mov_RM_R_def mov_IMM_def mov_RM_IMM_def mov_R_M_def mov_R_R_def Let_def
    by (insert assms) (intro frame f g; assumption)+
qed

lemma table_families [frame]:
  assumes "list_all (binop_keeps I) tab" "length tab = 8" "\<And>m0 m. I m0 m \<Longrightarrow> I m0 (snd (amt ops m))" "I m0 m"
  shows "pred_option (I m0) (opc8x_RM_IMM w tab amt ops m)"
    "rh < 8 \<Longrightarrow> pred_option (I m0) (shift_mem w tab amt md rh rl ops m)"
    "rh < 8 \<Longrightarrow> pred_option (I m0) (shift_reg w tab amt rh rl ops m)"
proof -
  have r: "unat rh < length tab" if "rh < 8" for rh :: u16
    using that assms(2) by (simp add: word_less_nat_alt)
  note t = from_table [OF assms(1) r]
  show "pred_option (I m0) (opc8x_RM_IMM w tab amt ops m)"
    "rh < 8 \<Longrightarrow> pred_option (I m0) (shift_mem w tab amt md rh rl ops m)"
    "rh < 8 \<Longrightarrow> pred_option (I m0) (shift_reg w tab amt rh rl ops m)"
    unfolding opc8x_RM_IMM_def shift_mem_def shift_reg_def Let_def
    by (insert assms(4)) (intro frame t assms(3); assumption)+
qed

lemma string_accesses [frame]:
  "I m (movs_access w ops m)" "I m (stos_access w acc ops m)" "I m (lods_access w acc ops m)"
  "binop_keeps I cmp \<Longrightarrow> I m (cmps_access w cmp ops m)"
  "binop_keeps I cmp \<Longrightarrow> I m (scas_access w acc cmp ops m)"
  unfolding movs_access_def stos_access_def lods_access_def cmps_access_def scas_access_def Let_def
  by (intro frame refl primitive_results; assumption?)+

end

sublocale machine_frame \<subseteq> bytes_f: framed_width I byte_width
  by unfold_locales (simp_all add: byte_width_def frame refl)

sublocale machine_frame \<subseteq> words_f: framed_width I word_width
  by unfold_locales (simp_all add: word_width_def frame refl)

sublocale machine_frame \<subseteq> longs_f: framed_width I long_width
  by unfold_locales (simp_all add: long_width_def frame refl)

subsection \<open>The handlers of the table\<close>

context machine_frame begin

lemmas [frame] = bytes_f.families bytes_f.table_families bytes_f.with_reg_frame
  words_f.families words_f.table_families words_f.with_reg_frame
  longs_f.families longs_f.table_families longs_f.with_reg_frame

lemmas [frame] = primitives_keep primitives_keep [THEN primitive_results]

lemma table_lengths [frame]:
  "length opc80_byte_operation = 8" "length opc81_word_operation = 8" "length opc82_byte_operation = 8"
  "length opc83_word_operation = 8" "length opcD0_byte_operation = 8" "length opcD1_word_operation = 8"
  "length opcD1_long_operation = 8"
  by (simp_all add: opc80_byte_operation_def opc81_word_operation_def opc82_byte_operation_def
      opc83_word_operation_def opcD0_byte_operation_def opcD1_word_operation_def opcD1_long_operation_def)

lemma group_handlers [frame]:
  assumes "I m0 m"
  shows "rh < 8 \<Longrightarrow> pred_option (I m0) (opcF6_mem md rh rl ops m)"
    "rh < 8 \<Longrightarrow> pred_option (I m0) (opcF6_reg rh rl ops m)"
    "rh < 8 \<Longrightarrow> pred_option (I m0) (opcF7_mem md rh rl ops m)"
    "rh < 8 \<Longrightarrow> pred_option (I m0) (opcF7_reg rh rl ops m)"
    "rh < 8 \<Longrightarrow> pred_option (I m0) (opcFF_mem md rh rl ops m)"
    "rh < 8 \<Longrightarrow> pred_option (I m0) (opcFF_reg rh rl ops m)"
    "pred_option (I m0) (esc_modrm ops m)" "pred_option (I m0) (x86op_long_jump op2 ops m)"
  unfolding opcF6_mem_def opcF6_reg_def opcF7_mem_def opcF7_reg_def opcFF_mem_def opcFF_reg_def
    esc_modrm_def x86op_long_jump_def Let_def
  by (insert assms) (intro frame; assumption)+

lemma software_intr_frame [frame]:
  assumes "\<And>n m. I m (bios n ops m)" "I m0 m"
  shows "I m0 (software_intr bios ops n m)"
proof -
  have b: "I m0 (bios n ops m)" if "I m0 m" for n m
    using trans [OF that assms(1)] .
  show ?thesis
    unfolding software_intr_def Let_def by (insert assms(2)) (intro frame b; assumption)
qed

lemma low_handlers:
  "keeps I x86op_illegal_op" "keeps I x86op_add_byte_RM_R" "keeps I x86op_add_word_RM_R"
  "keeps I x86op_add_byte_R_RM" "keeps I x86op_add_word_R_RM" "keeps I x86op_add_byte_AL_IMM"
  "keeps I x86op_add_word_AX_IMM" "keeps I x86op_push_ES" "keeps I x86op_pop_ES"
  "keeps I x86op_or_byte_RM_R" "keeps I x86op_or_word_RM_R" "keeps I x86op_or_byte_R_RM"
  "keeps I x86op_or_word_R_RM" "keeps I x86op_or_byte_AL_IMM" "keeps I x86op_or_word_AX_IMM"
  "keeps I x86op_push_CS" "keeps I x86op_two_byte" "keeps I x86op_adc_byte_RM_R"
  "keeps I x86op_adc_word_RM_R" "keeps I x86op_adc_byte_R_RM" "keeps I x86op_adc_word_R_RM"
  "keeps I x86op_adc_byte_AL_IMM" "keeps I x86op_adc_word_AX_IMM" "keeps I x86op_push_SS"
  "keeps I x86op_pop_SS" "keeps I x86op_sbb_byte_RM_R" "keeps I x86op_sbb_word_RM_R"
  "keeps I x86op_sbb_byte_R_RM" "keeps I x86op_sbb_word_R_RM" "keeps I x86op_sbb_byte_AL_IMM"
  "keeps I x86op_sbb_word_AX_IMM" "keeps I x86op_push_DS" "keeps I x86op_pop_DS"
  "keeps I x86op_and_byte_RM_R" "keeps I x86op_and_word_RM_R" "keeps I x86op_and_byte_R_RM"
  "keeps I x86op_and_word_R_RM" "keeps I x86op_and_byte_AL_IMM" "keeps I x86op_and_word_AX_IMM"
  "keeps I x86op_segovr_ES" "keeps I x86op_daa" "keeps I x86op_sub_byte_RM_R"
  "keeps I x86op_sub_word_RM_R" "keeps I x86op_sub_byte_R_RM" "keeps I x86op_sub_word_R_RM"
  "keeps I x86op_sub_byte_AL_IMM" "keeps I x86op_sub_word_AX_IMM" "keeps I x86op_segovr_CS"
  "keeps I x86op_das" "keeps I x86op_xor_byte_RM_R" "keeps I x86op_xor_word_RM_R"
  "keeps I x86op_xor_byte_R_RM" "keeps I x86op_xor_word_R_RM" "keeps I x86op_xor_byte_AL_IMM"
  "keeps I x86op_xor_word_AX_IMM" "keeps I x86op_segovr_SS" "keeps I x86op_aaa"
  "keeps I x86op_cmp_byte_RM_R" "keeps I x86op_cmp_word_RM_R" "keeps I x86op_cmp_byte_R_RM"
  "keeps I x86op_cmp_word_R_RM" "keeps I x86op_cmp_byte_AL_IMM" "keeps I x86op_cmp_word_AX_IMM"
  "keeps I x86op_segovr_DS" "keeps I x86op_aas" "keeps I x86op_inc_AX" "keeps I x86op_inc_CX"
  "keeps I x86op_inc_DX" "keeps I x86op_inc_BX" "keeps I x86op_inc_SP" "keeps I x86op_inc_BP"
  "keeps I x86op_inc_SI" "keeps I x86op_inc_DI" "keeps I x86op_dec_AX" "keeps I x86op_dec_CX"
  "keeps I x86op_dec_DX" "keeps I x86op_dec_BX" "keeps I x86op_dec_SP" "keeps I x86op_dec_BP"
  "keeps I x86op_dec_SI" "keeps I x86op_dec_DI" "keeps I x86op_push_AX" "keeps I x86op_push_CX"
  "keeps I x86op_push_DX" "keeps I x86op_push_BX" "keeps I x86op_push_SP" "keeps I x86op_push_BP"
  "keeps I x86op_push_SI" "keeps I x86op_push_DI" "keeps I x86op_pop_AX" "keeps I x86op_pop_CX"
  "keeps I x86op_pop_DX" "keeps I x86op_pop_BX" "keeps I x86op_pop_SP" "keeps I x86op_pop_BP"
  "keeps I x86op_pop_SI" "keeps I x86op_pop_DI" "keeps I x86op_push_all" "keeps I x86op_pop_all"
  "keeps I x86op_prefix_data" "keeps I x86op_ins_byte" "keeps I x86op_ins_word"
  "keeps I x86op_outs_byte" "keeps I x86op_outs_word" "keeps I x86op_jump_near_O"
  "keeps I x86op_jump_near_NO" "keeps I x86op_jump_near_B" "keeps I x86op_jump_near_NB"
  "keeps I x86op_jump_near_Z" "keeps I x86op_jump_near_NZ" "keeps I x86op_jump_near_BE"
  "keeps I x86op_jump_near_NBE" "keeps I x86op_jump_near_S" "keeps I x86op_jump_near_NS"
  "keeps I x86op_jump_near_P" "keeps I x86op_jump_near_NP" "keeps I x86op_jump_near_L"
  "keeps I x86op_jump_near_NL" "keeps I x86op_jump_near_LE" "keeps I x86op_jump_near_NLE"
  "keeps I x86op_opc80_byte_RM_IMM" "keeps I x86op_opc81_word_RM_IMM"
  "keeps I x86op_opc82_byte_RM_IMM" "keeps I x86op_opc83_word_RM_IMM"
  "keeps I x86op_test_byte_RM_R" "keeps I x86op_test_word_RM_R" "keeps I x86op_xchg_byte_RM_R"
  "keeps I x86op_xchg_word_RM_R" "keeps I x86op_mov_byte_RM_R" "keeps I x86op_mov_word_RM_R"
  "keeps I x86op_mov_byte_R_RM" "keeps I x86op_mov_word_R_RM" "keeps I x86op_mov_word_RM_SR"
  "keeps I x86op_lea_word_R_M" "keeps I x86op_mov_word_SR_RM" "keeps I x86op_pop_RM"
  unfolding keeps_def Let_def
    x86op_illegal_op_def x86op_long_jump_def x86op_add_byte_RM_R_def x86op_add_word_RM_R_def
    x86op_add_byte_R_RM_def x86op_add_word_R_RM_def x86op_add_byte_AL_IMM_def
    x86op_add_word_AX_IMM_def x86op_push_ES_def x86op_pop_ES_def x86op_or_byte_RM_R_def
    x86op_or_word_RM_R_def x86op_or_byte_R_RM_def x86op_or_word_R_RM_def x86op_or_byte_AL_IMM_def
    x86op_or_word_AX_IMM_def x86op_push_CS_def x86op_two_byte_def x86op_adc_byte_RM_R_def
    x86op_adc_word_RM_R_def x86op_adc_byte_R_RM_def x86op_adc_word_R_RM_def
    x86op_adc_byte_AL_IMM_def x86op_adc_word_AX_IMM_def x86op_push_SS_def x86op_pop_SS_def
    x86op_sbb_byte_RM_R_def x86op_sbb_word_RM_R_def x86op_sbb_byte_R_RM_def x86op_sbb_word_R_RM_def
    x86op_sbb_byte_AL_IMM_def x86op_sbb_word_AX_IMM_def x86op_push_DS_def x86op_pop_DS_def
    x86op_and_byte_RM_R_def x86op_and_word_RM_R_def x86op_and_byte_R_RM_def x86op_and_word_R_RM_def
    x86op_and_byte_AL_IMM_def x86op_and_word_AX_IMM_def x86op_segovr_ES_def x86op_daa_def
    x86op_sub_byte_RM_R_def x86op_sub_word_RM_R_def x86op_sub_byte_R_RM_def x86op_sub_word_R_RM_def
    x86op_sub_byte_AL_IMM_def x86op_sub_word_AX_IMM_def x86op_segovr_CS_def x86op_das_def
    x86op_xor_byte_RM_R_def x86op_xor_word_RM_R_def x86op_xor_byte_R_RM_def x86op_xor_word_R_RM_def
    x86op_xor_byte_AL_IMM_def x86op_xor_word_AX_IMM_def x86op_segovr_SS_def x86op_aaa_def
    x86op_cmp_byte_RM_R_def x86op_cmp_word_RM_R_def x86op_cmp_byte_R_RM_def x86op_cmp_word_R_RM_def
    x86op_cmp_byte_AL_IMM_def x86op_cmp_word_AX_IMM_def x86op_segovr_DS_def x86op_aas_def
    x86op_inc_AX_def x86op_inc_CX_def x86op_inc_DX_def x86op_inc_BX_def x86op_inc_SP_def
    x86op_inc_BP_def x86op_inc_SI_def x86op_inc_DI_def x86op_dec_AX_def x86op_dec_CX_def
    x86op_dec_DX_def x86op_dec_BX_def x86op_dec_SP_def x86op_dec_BP_def x86op_dec_SI_def
    x86op_dec_DI_def x86op_push_AX_def x86op_push_CX_def x86op_push_DX_def x86op_push_BX_def
    x86op_push_SP_def x86op_push_BP_def x86op_push_SI_def x86op_push_DI_def x86op_pop_AX_def
    x86op_pop_CX_def x86op_pop_DX_def x86op_pop_BX_def x86op_pop_SP_def x86op_pop_BP_def
    x86op_pop_SI_def x86op_pop_DI_def x86op_push_all_def x86op_pop_all_def x86op_prefix_data_def
    x86op_ins_byte_def x86op_ins_word_def x86op_outs_byte_def x86op_outs_word_def
    x86op_jump_near_O_def x86op_jump_near_NO_def x86op_jump_near_B_def x86op_jump_near_NB_def
    x86op_jump_near_Z_def x86op_jump_near_NZ_def x86op_jump_near_BE_def x86op_jump_near_NBE_def
    x86op_jump_near_S_def x86op_jump_near_NS_def x86op_jump_near_P_def x86op_jump_near_NP_def
    x86op_jump_near_L_def x86op_jump_near_NL_def x86op_jump_near_LE_def x86op_jump_near_NLE_def
    x86op_opc80_byte_RM_IMM_def x86op_opc81_word_RM_IMM_def x86op_opc82_byte_RM_IMM_def
    x86op_opc83_word_RM_IMM_def x86op_test_byte_RM_R_def x86op_test_word_RM_R_def
    x86op_xchg_byte_RM_R_def x86op_xchg_word_RM_R_def x86op_mov_byte_RM_R_def
    x86op_mov_word_RM_R_def x86op_mov_byte_R_RM_def x86op_mov_word_R_RM_def
    x86op_mov_word_RM_SR_def x86op_lea_word_R_M_def x86op_mov_word_SR_RM_def x86op_pop_RM_def
  by (intro allI impI frame refl; assumption)+

lemma esc_handlers:
  "keeps I x86op_esc_coprocess_d8" "keeps I x86op_esc_coprocess_d9"
  "keeps I x86op_esc_coprocess_da" "keeps I x86op_esc_coprocess_db"
  "keeps I x86op_esc_coprocess_dc" "keeps I x86op_esc_coprocess_dd"
  "keeps I x86op_esc_coprocess_de" "keeps I x86op_esc_coprocess_df"
  unfolding keeps_def Let_def
    x86op_esc_coprocess_d8_def x86op_esc_coprocess_d9_def x86op_esc_coprocess_da_def
    x86op_esc_coprocess_db_def x86op_esc_coprocess_dc_def x86op_esc_coprocess_dd_def
    x86op_esc_coprocess_de_def x86op_esc_coprocess_df_def
  by (intro allI impI frame refl; assumption)+

lemma high_handlers:
  assumes "\<And>n ops m. I m (bios n ops m)"
  shows
  "keeps I x86op_nop" "keeps I x86op_xchg_word_AX_CX" "keeps I x86op_xchg_word_AX_DX"
  "keeps I x86op_xchg_word_AX_BX" "keeps I x86op_xchg_word_AX_SP" "keeps I x86op_xchg_word_AX_BP"
  "keeps I x86op_xchg_word_AX_SI" "keeps I x86op_xchg_word_AX_DI" "keeps I x86op_cbw"
  "keeps I x86op_cwd" "keeps I x86op_call_far_IMM" "keeps I x86op_wait" "keeps I x86op_pushf_word"
  "keeps I x86op_popf_word" "keeps I x86op_sahf" "keeps I x86op_lahf" "keeps I x86op_mov_AL_M_IMM"
  "keeps I x86op_mov_AX_M_IMM" "keeps I x86op_mov_M_AL_IMM" "keeps I x86op_mov_M_AX_IMM"
  "keeps I x86op_movs_byte" "keeps I x86op_movs_word" "keeps I x86op_cmps_byte"
  "keeps I x86op_cmps_word" "keeps I x86op_test_AL_IMM" "keeps I x86op_test_AX_IMM"
  "keeps I x86op_stos_byte" "keeps I x86op_stos_word" "keeps I x86op_lods_byte"
  "keeps I x86op_lods_word" "keeps I x86op_scas_byte" "keeps I x86op_scas_word"
  "keeps I x86op_mov_byte_AL_IMM" "keeps I x86op_mov_byte_CL_IMM" "keeps I x86op_mov_byte_DL_IMM"
  "keeps I x86op_mov_byte_BL_IMM" "keeps I x86op_mov_byte_AH_IMM" "keeps I x86op_mov_byte_CH_IMM"
  "keeps I x86op_mov_byte_DH_IMM" "keeps I x86op_mov_byte_BH_IMM" "keeps I x86op_mov_word_AX_IMM"
  "keeps I x86op_mov_word_CX_IMM" "keeps I x86op_mov_word_DX_IMM" "keeps I x86op_mov_word_BX_IMM"
  "keeps I x86op_mov_word_SP_IMM" "keeps I x86op_mov_word_BP_IMM" "keeps I x86op_mov_word_SI_IMM"
  "keeps I x86op_mov_word_DI_IMM" "keeps I x86op_opcC0_byte_RM_MEM"
  "keeps I x86op_opcC1_word_RM_MEM" "keeps I x86op_ret_near_IMM" "keeps I x86op_ret_near"
  "keeps I x86op_les_R_IMM" "keeps I x86op_lds_R_IMM" "keeps I x86op_mov_byte_RM_IMM"
  "keeps I x86op_mov_word_RM_IMM" "keeps I x86op_ret_far_IMM" "keeps I x86op_ret_far"
  "keeps I (x86op_int3 bios)" "keeps I (x86op_int_IMM bios)" "keeps I (x86op_into bios)"
  "keeps I x86op_iret" "keeps I x86op_opcD0_byte_RM_1" "keeps I x86op_opcD1_word_RM_1"
  "keeps I x86op_opcD2_byte_RM_CL" "keeps I x86op_opcD3_word_RM_CL" "keeps I x86op_aam"
  "keeps I x86op_aad" "keeps I x86op_xlat" "keeps I x86op_loopne" "keeps I x86op_loope"
  "keeps I x86op_loop" "keeps I x86op_jcxz" "keeps I x86op_in_byte_AL_IMM"
  "keeps I x86op_in_word_AX_IMM" "keeps I x86op_out_byte_IMM_AL" "keeps I x86op_out_word_IMM_AX"
  "keeps I x86op_call_near_IMM" "keeps I x86op_jump_near_IMM" "keeps I x86op_jump_far_IMM"
  "keeps I x86op_jump_byte_IMM" "keeps I x86op_in_byte_AL_DX" "keeps I x86op_in_word_AX_DX"
  "keeps I x86op_out_byte_DX_AL" "keeps I x86op_out_word_DX_AX" "keeps I x86op_lock"
  "keeps I x86op_repne" "keeps I x86op_repe" "keeps I x86op_halt" "keeps I x86op_cmc"
  "keeps I x86op_opcF6_byte_RM" "keeps I x86op_opcF7_word_RM" "keeps I x86op_clc"
  "keeps I x86op_stc" "keeps I x86op_cli" "keeps I x86op_sti" "keeps I x86op_cld"
  "keeps I x86op_std" "keeps I x86op_opcFE_byte_RM" "keeps I x86op_opcFF_word_RM"
  unfolding keeps_def Let_def
    x86op_nop_def x86op_xchg_word_AX_CX_def x86op_xchg_word_AX_DX_def x86op_xchg_word_AX_BX_def
    x86op_xchg_word_AX_SP_def x86op_xchg_word_AX_BP_def x86op_xchg_word_AX_SI_def
    x86op_xchg_word_AX_DI_def x86op_cbw_def x86op_cwd_def x86op_call_far_IMM_def x86op_wait_def
    x86op_pushf_word_def x86op_popf_word_def x86op_sahf_def x86op_lahf_def x86op_mov_AL_M_IMM_def
    x86op_mov_AX_M_IMM_def x86op_mov_M_AL_IMM_def x86op_mov_M_AX_IMM_def x86op_movs_byte_def
    x86op_movs_word_def x86op_cmps_byte_def x86op_cmps_word_def x86op_test_AL_IMM_def
    x86op_test_AX_IMM_def x86op_stos_byte_def x86op_stos_word_def x86op_lods_byte_def
    x86op_lods_word_def x86op_scas_byte_def x86op_scas_word_def x86op_mov_byte_AL_IMM_def
    x86op_mov_byte_CL_IMM_def x86op_mov_byte_DL_IMM_def x86op_mov_byte_BL_IMM_def
    x86op_mov_byte_AH_IMM_def x86op_mov_byte_CH_IMM_def x86op_mov_byte_DH_IMM_def
    x86op_mov_byte_BH_IMM_def x86op_mov_word_AX_IMM_def x86op_mov_word_CX_IMM_def
    x86op_mov_word_DX_IMM_def x86op_mov_word_BX_IMM_def x86op_mov_word_SP_IMM_def
    x86op_mov_word_BP_IMM_def x86op_mov_word_SI_IMM_def x86op_mov_word_DI_IMM_def
    x86op_opcC0_byte_RM_MEM_def x86op_opcC1_word_RM_MEM_def x86op_ret_near_IMM_def
    x86op_ret_near_def x86op_les_R_IMM_def x86op_lds_R_IMM_def x86op_mov_byte_RM_IMM_def
    x86op_mov_word_RM_IMM_def x86op_ret_far_IMM_def x86op_ret_far_def x86op_int3_def
    x86op_int_IMM_def x86op_into_def x86op_iret_def x86op_opcD0_byte_RM_1_def
    x86op_opcD1_word_RM_1_def x86op_opcD2_byte_RM_CL_def x86op_opcD3_word_RM_CL_def x86op_aam_def
    x86op_aad_def x86op_xlat_def x86op_loopne_def x86op_loope_def x86op_loop_def x86op_jcxz_def
    x86op_in_byte_AL_IMM_def x86op_in_word_AX_IMM_def x86op_out_byte_IMM_AL_def
    x86op_out_word_IMM_AX_def x86op_call_near_IMM_def x86op_jump_near_IMM_def
    x86op_jump_far_IMM_def x86op_jump_byte_IMM_def x86op_in_byte_AL_DX_def x86op_in_word_AX_DX_def
    x86op_out_byte_DX_AL_def x86op_out_word_DX_AX_def x86op_lock_def x86op_repne_def x86op_repe_def
    x86op_halt_def x86op_cmc_def x86op_opcF6_byte_RM_def x86op_opcF7_word_RM_def x86op_clc_def
    x86op_stc_def x86op_cli_def x86op_sti_def x86op_cld_def x86op_std_def x86op_opcFE_byte_RM_def
    x86op_opcFF_word_RM_def
  by (intro allI impI frame refl assms; assumption)+

end

end
