(* ===== verification/X86_Stack.thy ===== *)
theory X86_Stack
  imports X86_Ops_Spec
begin

text \<open>
  The stack of the emulated machine as an abstract list of words: a locale states what pushing and
  popping promise, \<open>push_word\<close> and \<open>pop_word\<close> are its instance, and the calls, interrupts and
  returns rest on it.
\<close>

text \<open>Popping \<open>n\<close> words.\<close>

fun pops :: "('m \<Rightarrow> 'w \<times> 'm) \<Rightarrow> nat \<Rightarrow> 'm \<Rightarrow> 'w list \<times> 'm" where
  "pops pop 0 m = ([], m)"
| "pops pop (Suc n) m = (let (w, m) = pop m; (ws, m) = pops pop n m in (w # ws, m))"

locale stack_store =
  fixes push :: "'w \<Rightarrow> 'm \<Rightarrow> 'm"
    and pop :: "'m \<Rightarrow> 'w \<times> 'm"
    and holds :: "'w list \<Rightarrow> 'm \<Rightarrow> bool"
    and room :: "nat \<Rightarrow> 'm \<Rightarrow> bool"
    and same :: "'m \<Rightarrow> 'm \<Rightarrow> bool"
  assumes push_holds: "room (Suc n) m \<Longrightarrow> holds ws m \<Longrightarrow> holds (w # ws) (push w m)"
    and push_room: "room (Suc n) m \<Longrightarrow> room n (push w m)"
    and pop_holds: "holds (w # ws) m \<Longrightarrow> fst (pop m) = w \<and> holds ws (snd (pop m))"
    and same_holds: "same m m' \<Longrightarrow> holds ws m \<Longrightarrow> holds ws m'"
    and same_room: "same m m' \<Longrightarrow> room n m \<Longrightarrow> room n m'"
begin

lemma pop_pair: "holds (w # ws) m \<Longrightarrow> \<exists>m'. pop m = (w, m') \<and> holds ws m'"
  using pop_holds [of w ws m] by (metis prod.collapse)

lemma pushes_hold: "room (length vs) m \<Longrightarrow> holds ws m \<Longrightarrow> holds (rev vs @ ws) (fold push vs m)"
proof (induction vs arbitrary: m ws)
  case (Cons v vs)
  then show ?case
    using Cons.IH [of "push v m" "v # ws"] push_holds [of "length vs" m ws v] push_room [of "length vs" m v]
    by simp
qed simp

lemma pops_hold: "holds (vs @ ws) m \<Longrightarrow>
    fst (pops pop (length vs) m) = vs \<and> holds ws (snd (pops pop (length vs) m))"
proof (induction vs arbitrary: m)
  case (Cons v vs)
  then show ?case using pop_pair [of v "vs @ ws" m] by (fastforce simp: split_beta)
qed simp

lemma last_in_first_out:
  assumes "room (length vs) m" "holds ws m" "same (fold push vs m) m'"
  shows "fst (pops pop (length vs) m') = rev vs \<and> holds ws (snd (pops pop (length vs) m'))"
  using pops_hold [of "rev vs" ws m'] pushes_hold [OF assms(1,2)] same_holds [OF assms(3)] by simp

end

subsection \<open>The words on the stack\<close>

definition word_at :: "'b sysenv \<Rightarrow> u32 \<Rightarrow> u16" where
  "word_at m a = pack2 (ram m (ucast a)) (ram m (ucast a + 1))"

text \<open>The address of the word \<open>k\<close> places above the top.\<close>

definition slot :: "nat \<Rightarrow> 'b sysenv \<Rightarrow> u32" where
  "slot k m = seg_off (R_SS (x86 m)) (reg_x ESP m + of_nat (2 * k))"

definition stacked :: "u16 list \<Rightarrow> 'b sysenv \<Rightarrow> bool" where
  "stacked ws m \<longleftrightarrow> unat (reg_x ESP m) + 2 * length ws \<le> 65536 \<and>
     (\<forall>k<length ws. good_cell 2 m (slot k m) \<and> word_at m (slot k m) = ws ! k)"

text \<open>Room for \<open>n\<close> more words without leaving the segment.\<close>

definition stack_room :: "nat \<Rightarrow> 'b sysenv \<Rightarrow> bool" where
  "stack_room n m \<longleftrightarrow> 2 * n \<le> unat (reg_x ESP m) \<and>
     (\<forall>k. 1 \<le> k \<and> k \<le> n \<longrightarrow> good_cell 2 m (next_top (2 * k) m))"

definition same_stack :: "'b sysenv \<Rightarrow> 'b sysenv \<Rightarrow> bool" where
  "same_stack m m' \<longleftrightarrow> ram m' = ram m \<and> mem_size m' = mem_size m \<and> R_SS (x86 m') = R_SS (x86 m) \<and>
     reg_x ESP m' = reg_x ESP m"

lemma same_stack_slots:
  assumes "same_stack m m'"
  shows "slot k m' = slot k m" "word_at m' a = word_at m a" "good_cell sz m' a = good_cell sz m a"
    "next_top k m' = next_top k m"
  using assms by (simp_all add: same_stack_def slot_def word_at_def good_cell_def next_top_def)

lemma unat_seg_off: "unat (seg_off seg off) = 16 * unat seg + unat off"
proof -
  have s: "unat seg < 65536" "unat off < 65536"
    using unsigned_less [of seg, where 'a = nat] unsigned_less [of off, where 'a = nat] by simp_all
  have "unat (push_bit 4 (ucast seg) :: u32) = 16 * unat seg"
    using s by (simp add: push_bit_eq_mult unat_word_ariths(2) unat_wide)
  then show ?thesis
    using s by (simp add: seg_off_def unat_word_ariths(1) unat_wide)
qed

lemma push_good:
  assumes "good_cell 2 m (next_top 2 m)"
  shows "push_word ops m w = set_ram (ucast (next_top 2 m) + 1) (byte_of 1 (ucast w))
      (set_ram (ucast (next_top 2 m)) (byte_of 0 (ucast w)) (set_x ESP (reg_x ESP m - 2) m))"
proof -
  have "good_cell 2 (set_x ESP (reg_x ESP m - 2) m) (next_top 2 m)" using assms by simp
  note sys_wrw_good [OF this, of ops w]
  moreover have "push_word ops m w = sys_wrw ops (set_x ESP (reg_x ESP m - 2) m) (next_top 2 m) w"
    by (simp add: push_word_def next_top_def Let_def)
  ultimately show ?thesis by simp
qed

lemma room_top: "stack_room (Suc n) m \<Longrightarrow> good_cell 2 m (next_top 2 m)"
  by (auto simp: stack_room_def dest: spec [of _ 1])

lemma unat_sp_minus: "2 * k \<le> unat (reg_x ESP m) \<Longrightarrow> unat (reg_x ESP m - of_nat (2 * k)) = unat (reg_x ESP m) - 2 * k"
proof -
  assume a: "2 * k \<le> unat (reg_x ESP m)"
  then have "2 * k < 65536" using unsigned_less [of "reg_x ESP m", where 'a = nat] by simp
  then have "unat (of_nat (2 * k) :: u16) = 2 * k" by (intro unat_of_nat_small) simp
  then show ?thesis using a by (subst unat_sub_no_wrap) simp_all
qed

lemma word_at_pushed:
  assumes "good_cell 2 m (next_top 2 m)" "2 \<le> unat (reg_x ESP m)"
  shows "word_at (push_word ops m w) (next_top 2 m) = w"
    and "unat (next_top 2 m) + 2 \<le> unat a \<or> unat a + 2 \<le> unat (next_top 2 m) \<Longrightarrow>
      word_at (push_word ops m w) a = word_at m a"
proof -
  show "word_at (push_word ops m w) (next_top 2 m) = w"
    by (simp add: word_at_def push_good [OF assms(1)] pack_bytes(1) [unfolded One_nat_def])
  assume a: "unat (next_top 2 m) + 2 \<le> unat a \<or> unat a + 2 \<le> unat (next_top 2 m)"
  have u: "unat (ucast b :: u64) = unat b" "unat (ucast b + 1 :: u64) = unat b + 1" for b :: u32
  proof -
    show e: "unat (ucast b :: u64) = unat b" by (rule unat_wide) simp
    have "unat b < 2 ^ 32" using unsigned_less [of b, where 'a = nat] by simp
    then show "unat (ucast b + 1 :: u64) = unat b + 1" by (subst unat_add_no_wrap) (simp_all add: e)
  qed
  have "ucast a \<noteq> (ucast (next_top 2 m) :: u64)" "ucast a \<noteq> (ucast (next_top 2 m) + 1 :: u64)"
    "ucast a + 1 \<noteq> (ucast (next_top 2 m) :: u64)" "ucast a + 1 \<noteq> (ucast (next_top 2 m) + 1 :: u64)"
    unfolding word_eq_iff_unat u using a by linarith+
  then show "word_at (push_word ops m w) a = word_at m a"
    by (simp add: word_at_def push_good [OF assms(1)])
qed

lemma slot_pushed:
  assumes "2 \<le> unat (reg_x ESP m)"
  shows "slot 0 (push_word ops m w) = next_top 2 m" "slot (Suc k) (push_word ops m w) = slot k m"
  by (simp_all add: slot_def next_top_def algebra_simps)

lemma stacked_push:
  assumes "stack_room (Suc n) m" "stacked ws m"
  shows "stacked (w # ws) (push_word ops m w)"
proof -
  note g = room_top [OF assms(1)]
  have sp: "2 \<le> unat (reg_x ESP m)" using assms(1) by (simp add: stack_room_def)
  have sp2: "unat (reg_x ESP m - 2) = unat (reg_x ESP m) - 2"
    using unat_sp_minus [of 1 m] sp by simp
  have cell: "good_cell 2 (push_word ops m w) a = good_cell 2 m a" for a
    using push_step(3) [OF g] by simp
  have above: "unat (next_top 2 m) + 2 \<le> unat (slot k m)" if "k < length ws" for k
  proof -
    have s: "unat (reg_x ESP m) + 2 * length ws \<le> 65536" using assms(2) by (simp add: stacked_def)
    then have "2 * k < 65536" using that by linarith
    then have "unat (of_nat (2 * k) :: u16) = 2 * k" by (intro unat_of_nat_small) simp
    then have "unat (reg_x ESP m + of_nat (2 * k)) = unat (reg_x ESP m) + 2 * k"
      using s that by (subst unat_add_no_wrap) simp_all
    then show ?thesis using sp by (simp only: slot_def next_top_def unat_seg_off) (simp add: sp2)
  qed
  have "good_cell 2 m (slot k (push_word ops m w)) \<and>
      word_at (push_word ops m w) (slot k (push_word ops m w)) = (w # ws) ! k" if "k < Suc (length ws)" for k
  proof (cases k)
    case 0
    then show ?thesis using g word_at_pushed(1) [OF g sp] by (simp add: slot_pushed [OF sp])
  next
    case (Suc j)
    then have j: "j < length ws" using that by simp
    then have "good_cell 2 m (slot j m)" "word_at m (slot j m) = ws ! j"
      using assms(2) by (simp_all add: stacked_def)
    then show ?thesis
      using word_at_pushed(2) [OF g sp disjI1, OF above [OF j]] by (simp add: Suc slot_pushed [OF sp])
  qed
  moreover have "unat (reg_x ESP m) - 2 + 2 * length (w # ws) \<le> 65536"
  proof -
    obtain p where "unat (reg_x ESP m) = p + 2" using sp by (metis le_add_diff_inverse2)
    then show ?thesis using assms(2) by (simp add: stacked_def)
  qed
  ultimately show ?thesis
    unfolding stacked_def cell by (simp add: sp2)
qed

lemma room_push: "stack_room (Suc n) m \<Longrightarrow> stack_room n (push_word ops m w)"
proof -
  assume r: "stack_room (Suc n) m"
  note g = room_top [OF r]
  have "unat (reg_x ESP m - 2) = unat (reg_x ESP m) - 2"
    using unat_sp_minus [of 1 m] r by (simp add: stack_room_def)
  moreover have "next_top (2 * k) (push_word ops m w) = next_top (2 * Suc k) m" for k
    using push_step(2) [OF g] by simp
  ultimately show ?thesis
    using r push_step(3) [OF g] by (auto simp: stack_room_def)
qed

lemma pop_stacked:
  assumes "stacked (w # ws) m"
  shows "pop_word ops m = (w, set_x ESP (reg_x ESP m + 2) m)" "stacked ws (set_x ESP (reg_x ESP m + 2) m)"
proof -
  have s: "unat (reg_x ESP m) + 2 * Suc (length ws) \<le> 65536"
    "\<And>k. k < Suc (length ws) \<Longrightarrow> good_cell 2 m (slot k m) \<and> word_at m (slot k m) = (w # ws) ! k"
    using assms by (simp_all add: stacked_def)
  show "pop_word ops m = (w, set_x ESP (reg_x ESP m + 2) m)"
    using s(2) [of 0] by (simp add: pop_word_def slot_def sys_rdw_good word_at_def)
  have slots: "slot k (set_x ESP (reg_x ESP m + 2) m) = slot (Suc k) m" for k
    by (simp add: slot_def algebra_simps)
  have "ws = [] \<or> unat (reg_x ESP m + 2) = unat (reg_x ESP m) + 2"
    using s(1) by (cases ws) (simp_all add: unat_add_no_wrap)
  then show "stacked ws (set_x ESP (reg_x ESP m + 2) m)"
    using s unsigned_less [of "reg_x ESP m + 2", where 'a = nat]
    by (auto simp: stacked_def slots word_at_def)
qed

interpretation machine_stack: stack_store "\<lambda>w m. push_word ops m w" "pop_word ops" stacked stack_room same_stack
  for ops :: "'b bus_ops"
proof
  show "stack_room (Suc n) m \<Longrightarrow> stacked ws m \<Longrightarrow> stacked (w # ws) (push_word ops m w)" for n m ws w
    by (rule stacked_push)
  show "stack_room (Suc n) m \<Longrightarrow> stack_room n (push_word ops m w)" for n m w by (rule room_push)
  show "stacked (w # ws) m \<Longrightarrow> fst (pop_word ops m) = w \<and> stacked ws (snd (pop_word ops m))" for w ws m
    using pop_stacked [of w ws m] by simp
  show "same_stack m m' \<Longrightarrow> stacked ws m \<Longrightarrow> stacked ws m'" for m m' :: "'b sysenv" and ws
    using same_stack_slots [of m m'] by (simp add: stacked_def same_stack_def)
  show "same_stack m m' \<Longrightarrow> stack_room n m \<Longrightarrow> stack_room n m'" for m m' :: "'b sysenv" and n
    using same_stack_slots [of m m'] by (simp add: stack_room_def same_stack_def)
qed

text \<open>Words below the stack.\<close>

lemma top_pushed:
  assumes "stack_room (Suc n) m"
  shows "unat (next_top 2 m) = unat (slot 0 m) - 2"
    and "unat (slot 0 (push_word ops m w)) = unat (slot 0 m) - 2"
proof -
  have sp: "2 \<le> unat (reg_x ESP m)" using assms by (simp add: stack_room_def)
  have "unat (reg_x ESP m - 2) = unat (reg_x ESP m) - 2"
    using unat_sp_minus [of 1 m] sp by simp
  then show "unat (next_top 2 m) = unat (slot 0 m) - 2"
    using sp by (simp only: next_top_def slot_def unat_seg_off) (simp add: unat_seg_off)
  then show "unat (slot 0 (push_word ops m w)) = unat (slot 0 m) - 2"
    by (simp add: slot_pushed [OF sp])
qed

lemma word_below:
  assumes "stack_room (Suc n) m" "unat a + 4 \<le> unat (slot 0 m)"
  shows "word_at (push_word ops m w) a = word_at m a"
proof -
  have sp: "2 \<le> unat (reg_x ESP m)" using assms by (simp add: stack_room_def)
  have "unat a + 2 + 2 \<le> unat (slot 0 m)" using assms(2) by simp
  then have "unat a + 2 \<le> unat (next_top 2 m)"
    unfolding top_pushed(1) [OF assms(1)] by (rule add_le_imp_le_diff)
  then show ?thesis
    using word_at_pushed(2) [OF room_top [OF assms(1)] sp] by blast
qed

lemma top_bound: "stack_room (Suc n) m \<Longrightarrow> k + 2 \<le> unat (slot 0 m) \<Longrightarrow> k \<le> unat (slot 0 (push_word ops m w))"
  unfolding top_pushed(2) by (rule add_le_imp_le_diff)

lemma mem_access_good: "good_cell 2 m a \<Longrightarrow> mem_access_word ops m a = (word_at m a, m)"
  by (simp add: mem_access_word_def sys_rdw_good word_at_def)

lemma good_pushed: "stack_room (Suc n) m \<Longrightarrow> good_cell sz (push_word ops m w) a = good_cell sz m a"
  by (rule push_step(3) [OF room_top])

end
