(* ===== verification/X86_Control.thy ===== *)
theory X86_Control
  imports X86_Stack
begin

text \<open>
  Instructions that leave the straight line and come back: the stack as a list, calls and returns,
  software interrupts and IRET, PUSHA and POPA.
\<close>

declare put_seg.simps [simp del]

text \<open>Views of the machine after the assignments that are made between pushes and pops.\<close>

lemma get_reg_general [simp]: "get_reg g (r\<lparr>R_FLG := v\<rparr>) = get_reg g r" "get_reg g (r\<lparr>mode := w\<rparr>) = get_reg g r"
  by (cases g; simp)+

lemma seg_views [simp]:
  "reg_x g (put_seg s c m) = reg_x g m" "ram (put_seg s c m) = ram m" "mem_size (put_seg s c m) = mem_size m"
  "R_FLG (x86 (put_seg s c m)) = R_FLG (x86 m)" "R_CS (x86 (put_seg CS c m)) = c"
  "R_SS (x86 (put_seg CS c m)) = R_SS (x86 m)" "mode (x86 (put_seg s c m)) = mode (x86 m)"
  by (cases s; simp add: put_seg.simps reg_x_def)+

lemma ip_views [simp]:
  "reg_x g (set_ip v m) = (if g = EIP then v else reg_x g m)" "ram (set_ip v m) = ram m"
  "mem_size (set_ip v m) = mem_size m" "R_FLG (x86 (set_ip v m)) = R_FLG (x86 m)"
  "R_CS (x86 (set_ip v m)) = R_CS (x86 m)" "R_SS (x86 (set_ip v m)) = R_SS (x86 m)"
  by (simp_all add: set_ip_def)

lemma flag_views [simp]:
  "reg_x g (put_flags f m) = reg_x g m" "ram (put_flags f m) = ram m" "mem_size (put_flags f m) = mem_size m"
  "R_FLG (x86 (put_flags f m)) = f" "R_CS (x86 (put_flags f m)) = R_CS (x86 m)"
  "R_SS (x86 (put_flags f m)) = R_SS (x86 m)"
  by (simp_all add: put_flags_def reg_x_def)

lemma clear_more_views [simp]:
  "mem_size (CLEAR_FLAG f m) = mem_size m" "R_SS (x86 (CLEAR_FLAG f m)) = R_SS (x86 m)"
  "R_CS (x86 (CLEAR_FLAG f m)) = R_CS (x86 m)" "R_FLG (x86 (CLEAR_FLAG f m)) = R_FLG (x86 m) AND NOT f"
  "mem_size (clear_segovr m) = mem_size m" "R_SS (x86 (clear_segovr m)) = R_SS (x86 m)"
  "R_CS (x86 (clear_segovr m)) = R_CS (x86 m)"
  by (simp_all add: CLEAR_FLAG_def clear_segovr_def)

lemmas stack_defs = same_stack_def stacked_def stack_room_def slot_def word_at_def next_top_def good_cell_def

lemma same_stack_simps [simp]:
  "same_stack m (set_ip v m') = same_stack m m'" "same_stack m (put_seg CS s m') = same_stack m m'"
  "same_stack m (clear_segovr m') = same_stack m m'" "same_stack m (put_flags f m') = same_stack m m'"
  "same_stack m (CLEAR_FLAG f m') = same_stack m m'" "same_stack m m"
  by (simp_all add: same_stack_def)

lemma stacked_simps [simp]:
  "stacked ws (set_ip v m) = stacked ws m" "stacked ws (put_seg CS s m) = stacked ws m"
  "stacked ws (clear_segovr m) = stacked ws m" "stacked ws (put_flags f m) = stacked ws m"
  "stacked ws (CLEAR_FLAG f m) = stacked ws m"
  by (simp_all add: stack_defs)

lemma room_simps [simp]:
  "stack_room n (set_ip v m) = stack_room n m" "stack_room n (put_seg CS s m) = stack_room n m"
  "stack_room n (CLEAR_FLAG f m) = stack_room n m"
  by (simp_all add: stack_defs)

subsection \<open>The stack as a list\<close>

text \<open>
  C18: The stack is a list. When there is room in the segment and the RAM, pushing any words and
  then, after whatever leaves the stack and its memory alone, popping as many gives them back in
  reverse order, above the words that were there before and still are.
\<close>

theorem stack_last_in_first_out:
  assumes "stack_room (length vs) m" "stacked ws m"
    and "same_stack (fold (\<lambda>w m. push_word ops m w) vs m) m'"
  shows "fst (pops (pop_word ops) (length vs) m') = rev vs \<and>
    stacked ws (snd (pops (pop_word ops) (length vs) m'))"
  by (rule machine_stack.last_in_first_out [OF assms])

text \<open>A stack in the low memory.\<close>

lemma low_stack_room:
  assumes "16 * unat (R_SS (x86 m)) + unat (reg_x ESP m) \<le> 0xa0000" "0xa0000 \<le> unat (mem_size m)"
    and "2 * n \<le> unat (reg_x ESP m)"
  shows "stack_room n m"
proof -
  have "good_cell 2 m (next_top (2 * k) m)" if k: "1 \<le> k" "k \<le> n" for k
  proof -
    have "2 * k \<le> unat (reg_x ESP m)" using k assms(3) by linarith
    then obtain p where p: "unat (reg_x ESP m) = p + 2 * k" by (metis le_add_diff_inverse2)
    then have "unat (reg_x ESP m - of_nat (2 * k)) = p"
      using unat_sp_minus [of k m] by simp
    then have a: "unat (next_top (2 * k) m) + 2 \<le> 0xa0000"
      unfolding next_top_def unat_seg_off using assms(1) p k by simp
    then have "\<not> on_adapter (ucast (next_top (2 * k) m))"
      by (simp add: on_adapter_def word_le_nat_alt unat_wide)
    then show ?thesis using a assms(2) by (simp add: good_cell_def)
  qed
  then show ?thesis using assms(3) by (simp add: stack_room_def)
qed

definition stack_machine :: "unit sysenv" where
  "stack_machine = set_x ESP 0x1000 (blank_machine\<lparr>ram := (\<lambda>a. if a = 0x43 then 0x20 else if a = 0 then 0x10 else 0)\<rparr>)"

lemma stack_machine_views: "reg_x g stack_machine = (if g = ESP then 0x1000 else 0)"
  "R_SS (x86 stack_machine) = 0" "R_CS (x86 stack_machine) = 0" "mem_size stack_machine = 0x100000"
  "mode (x86 stack_machine) = 0" "R_FLG (x86 stack_machine) = 0"
  "ram stack_machine a = (if a = 0x43 then 0x20 else if a = 0 then 0x10 else 0)"
  unfolding stack_machine_def reg_x_set_x
  by (cases g; simp add: blank_machine_def blank_regs_def reg_x_def)+

lemma stack_machine_ok: "n \<le> 0x800 \<Longrightarrow> stack_room n stack_machine" "stacked [] stack_machine"
  by (rule low_stack_room; simp add: stack_machine_views) (simp add: stacked_def stack_machine_views)

lemma stack_last_in_first_out_witness:
  "fst (pops (pop_word null_bus) 2
    (fold (\<lambda>w m. push_word null_bus m w) [0x1234, 0xabcd] stack_machine)) = [0xabcd, 0x1234]"
  using stack_last_in_first_out [of "[0x1234, 0xabcd]" stack_machine "[]" null_bus]
  by (simp add: stack_machine_ok numeral_2_eq_2)

subsection \<open>Calls and returns\<close>

lemma call_far_stack:
  fixes m :: "'b sysenv" and ops :: "'b bus_ops" and farseg :: u16
  assumes "stack_room 2 m" "stacked ws m"
  defines "m' \<equiv> push_word ops (put_seg CS farseg (push_word ops m (R_CS (x86 m)))) (reg_x EIP m)"
  shows "stacked (reg_x EIP m # R_CS (x86 m) # ws) m'" "reg_x ESP m' = reg_x ESP m - 4" "R_CS (x86 m') = farseg"
proof -
  have r: "stack_room (Suc (Suc 0)) m" using assms(1) by (simp add: numeral_2_eq_2)
  have "stack_room (Suc 0) (put_seg CS farseg (push_word ops m (R_CS (x86 m))))"
    "stacked (R_CS (x86 m) # ws) (put_seg CS farseg (push_word ops m (R_CS (x86 m))))"
    using stacked_push [OF r assms(2)] room_push [OF r] by simp_all
  from stacked_push [OF this] show "stacked (reg_x EIP m # R_CS (x86 m) # ws) m'" by (simp add: m'_def)
qed (simp_all add: m'_def)

text \<open>
  C20: Calls return. A near call goes to its operand relative to the instruction that follows, a far
  call to the segment and offset given; when the callee leaves the stack pointer, the stack
  segment and the memory as it found them, whatever other registers it changes, the matching return comes back to the
  instruction after the call, in its segment, with the caller's stack pointer and stack.
\<close>

theorem calls_return:
  assumes "fetch_word_imm ops m = (w, m0)" "fetch_word_imm ops m0 = (w', m00)"
    and "stack_room 1 m0" "stacked ws m0" "stack_room 2 m00" "stacked ws m00"
  shows "(\<exists>m1. x86op_call_near_IMM ops m = Some m1 \<and> reg_x EIP m1 = reg_x EIP m0 + w \<and>
      (\<forall>m2. same_stack m1 m2 \<longrightarrow> (\<exists>m3. x86op_ret_near ops m2 = Some m3 \<and>
         reg_x EIP m3 = reg_x EIP m0 \<and> reg_x ESP m3 = reg_x ESP m0 \<and> stacked ws m3))) \<and>
    (\<exists>m1. x86op_call_far_IMM ops m = Some m1 \<and> reg_x EIP m1 = w \<and> R_CS (x86 m1) = w' \<and>
      (\<forall>m2. same_stack m1 m2 \<longrightarrow> (\<exists>m3. x86op_ret_far ops m2 = Some m3 \<and>
         reg_x EIP m3 = reg_x EIP m00 \<and> R_CS (x86 m3) = R_CS (x86 m00) \<and>
         reg_x ESP m3 = reg_x ESP m00 \<and> stacked ws m3)))"
proof
  let ?m1 = "clear_segovr (set_ip (reg_x EIP m0 + w) (push_word ops m0 (reg_x EIP m0)))"
  have call: "x86op_call_near_IMM ops m = Some ?m1"
    by (simp add: x86op_call_near_IMM_def assms(1) Let_def end_instr_def jump_targets add.commute)
  have st: "stacked (reg_x EIP m0 # ws) ?m1"
    using stacked_push [of 0 m0 ws "reg_x EIP m0" ops] assms(3,4) by simp
  have "\<exists>m3. x86op_ret_near ops m2 = Some m3 \<and> reg_x EIP m3 = reg_x EIP m0 \<and>
      reg_x ESP m3 = reg_x ESP m0 \<and> stacked ws m3" if s: "same_stack ?m1 m2" for m2
  proof -
    have "reg_x ESP m2 = reg_x ESP m0 - 2" using s by (simp add: same_stack_def)
    moreover note pop_stacked [OF machine_stack.same_holds [OF s st]]
    ultimately show ?thesis by (simp add: x86op_ret_near_def end_instr_def)
  qed
  then show "\<exists>m1. x86op_call_near_IMM ops m = Some m1 \<and> reg_x EIP m1 = reg_x EIP m0 + w \<and>
      (\<forall>m2. same_stack m1 m2 \<longrightarrow> (\<exists>m3. x86op_ret_near ops m2 = Some m3 \<and>
         reg_x EIP m3 = reg_x EIP m0 \<and> reg_x ESP m3 = reg_x ESP m0 \<and> stacked ws m3))"
    using call by simp
next
  define m1 where "m1 = push_word ops (put_seg CS w' (push_word ops m00 (R_CS (x86 m00)))) (reg_x EIP m00)"
  let ?m1 = "clear_segovr (set_ip w m1)"
  note far = call_far_stack [OF assms(5,6), of ops w', folded m1_def]
  have call: "x86op_call_far_IMM ops m = Some ?m1"
    by (simp add: x86op_call_far_IMM_def assms(1,2) Let_def end_instr_def m1_def)
  have "\<exists>m3. x86op_ret_far ops m2 = Some m3 \<and> reg_x EIP m3 = reg_x EIP m00 \<and>
      R_CS (x86 m3) = R_CS (x86 m00) \<and> reg_x ESP m3 = reg_x ESP m00 \<and> stacked ws m3"
    if s: "same_stack ?m1 m2" for m2
  proof -
    have sp: "reg_x ESP m2 = reg_x ESP m00 - 4" using s far(2) by (simp add: same_stack_def)
    have "stacked (reg_x EIP m00 # R_CS (x86 m00) # ws) m2"
      using machine_stack.same_holds [OF s] far(1) by simp
    note p1 = pop_stacked [OF this]
    have "stacked (R_CS (x86 m00) # ws) (set_ip (reg_x EIP m00) (set_x ESP (reg_x ESP m2 + 2) m2))"
      using p1(2) by simp
    note p2 = pop_stacked [OF this]
    show ?thesis
      using p1(1) p2 by (simp add: x86op_ret_far_def end_instr_def Let_def sp)
  qed
  then show "\<exists>m1. x86op_call_far_IMM ops m = Some m1 \<and> reg_x EIP m1 = w \<and> R_CS (x86 m1) = w' \<and>
      (\<forall>m2. same_stack m1 m2 \<longrightarrow> (\<exists>m3. x86op_ret_far ops m2 = Some m3 \<and>
         reg_x EIP m3 = reg_x EIP m00 \<and> R_CS (x86 m3) = R_CS (x86 m00) \<and>
         reg_x ESP m3 = reg_x ESP m00 \<and> stacked ws m3))"
    using call far(3) by simp
qed

lemma fetch_low:
  assumes "R_CS (x86 m) = 0" "unat (mem_size m) = 0x100000"
  shows "fetch_byte_imm ops m = (ram m (ucast (reg_x EIP m)), set_x EIP (reg_x EIP m + 1) m)"
    "fetch_word_imm ops m = (word_at m (ucast (reg_x EIP m)), set_x EIP (reg_x EIP m + 2) m)"
proof -
  have c: "ucast (ucast w :: u32) = (ucast w :: u64)" for w :: u16
    by (rule bit_word_eqI) (auto simp: bit_simps dest: bit_imp_le_length)
  have a: "unat (ucast (reg_x EIP m) :: u32) < 65536"
    using unsigned_less [of "reg_x EIP m", where 'a = nat] by (simp add: unat_wide)
  then have g: "\<not> on_adapter (ucast (ucast (reg_x EIP m) :: u32))"
    by (simp add: on_adapter_def word_le_nat_alt unat_wide)
  show "fetch_byte_imm ops m = (ram m (ucast (reg_x EIP m)), set_x EIP (reg_x EIP m + 1) m)"
    using g a assms by (simp add: fetch_byte_imm_def Let_def seg_off_def sys_rdb_good good_cell_def c)
  show "fetch_word_imm ops m = (word_at m (ucast (reg_x EIP m)), set_x EIP (reg_x EIP m + 2) m)"
    using g a assms by (simp add: fetch_word_imm_def Let_def seg_off_def sys_rdw_good good_cell_def word_at_def c)
qed

lemma calls_return_witness:
  "\<exists>m1 m3. x86op_call_near_IMM null_bus stack_machine = Some m1 \<and> reg_x EIP m1 = 0x12 \<and>
    x86op_ret_near null_bus m1 = Some m3 \<and> reg_x EIP m3 = 2 \<and> reg_x ESP m3 = 0x1000"
proof -
  have f: "fetch_word_imm null_bus stack_machine = (0x10, set_x EIP 2 stack_machine)"
    "fetch_word_imm null_bus (set_x EIP 2 stack_machine) = (0, set_x EIP 4 (set_x EIP 2 stack_machine))"
    by (simp_all add: fetch_low stack_machine_views word_at_def pack2_def)
  have ok: "stack_room n m" "stacked [] m"
    if "n \<le> 2" "m = set_x EIP 2 stack_machine \<or> m = set_x EIP 4 (set_x EIP 2 stack_machine)" for n m
    using that by (auto intro!: low_stack_room simp: stack_machine_views stacked_def)
  show ?thesis
    using calls_return [OF f, of "[]"] same_stack_simps(6) ok [of 1 "set_x EIP 2 stack_machine"]
      ok [of 2 "set_x EIP 4 (set_x EIP 2 stack_machine)"]
    by (fastforce simp: stack_machine_views)
qed

subsection \<open>Software interrupts\<close>

lemma view_word_at [simp]:
  "word_at (set_ip v m) a = word_at m a" "word_at (put_seg s c m) a = word_at m a"
  "word_at (CLEAR_FLAG f m) a = word_at m a" "slot k (put_seg CS c m) = slot k m"
  "slot k (CLEAR_FLAG f m) = slot k m" "good_cell sz (put_seg s c m) a = good_cell sz m a"
  by (simp_all add: stack_defs)

text \<open>The vector is in the RAM, below the stack, and not one of the BIOS.\<close>

definition own_vector :: "u8 \<Rightarrow> 'b sysenv \<Rightarrow> bool" where
  "own_vector n m \<longleftrightarrow> good_cell 2 m (ucast n * 4) \<and> good_cell 2 m (ucast n * 4 + 2) \<and>
     word_at m (ucast n * 4 + 2) \<noteq> BIOS_SEG \<and> 1032 \<le> unat (slot 0 m)"

lemma vector_low: "unat (ucast (n :: u8) * 4 :: u32) \<le> 1020" "unat (ucast n * 4 + 2 :: u32) \<le> 1022"
proof -
  have n: "unat n \<le> 255" using unsigned_less [of n, where 'a = nat] by simp
  then have "unat (ucast n * 4 :: u32) = unat n * 4"
    by (simp add: unat_word_ariths(2) unat_wide)
  then show "unat (ucast n * 4 :: u32) \<le> 1020" "unat (ucast n * 4 + 2 :: u32) \<le> 1022"
    using n by (simp_all add: unat_word_ariths(1))
qed

lemma software_intr_entry:
  fixes m :: "'b sysenv" and ops :: "'b bus_ops" and bios :: "'b bios"
  assumes room: "stack_room 3 m" and st: "stacked ws m" and vec: "own_vector n m"
  defines "m' \<equiv> software_intr bios ops n m"
  shows "R_CS (x86 m') = word_at m (ucast n * 4 + 2)" "reg_x EIP m' = word_at m (ucast n * 4)"
    "\<not> ACCESS_FLAG F_IF m'" "\<not> ACCESS_FLAG F_TF m'" "reg_x ESP m' = reg_x ESP m - 6"
    "stacked (reg_x EIP m # R_CS (x86 m) # ucast (R_FLG (x86 m)) # ws) m'"
proof -
  let ?v = "ucast n * 4 :: u32"
  have r: "stack_room (Suc (Suc (Suc 0))) m" using room by (simp add: numeral_3_eq_3)
  note v = vec [unfolded own_vector_def]
  define m1 where "m1 = CLEAR_FLAG F_TF (CLEAR_FLAG F_IF (push_word ops m (ucast (R_FLG (x86 m)))))"
  define m2 where "m2 = push_word ops m1 (R_CS (x86 m1))"
  define m3 where "m3 = put_seg CS (word_at m (?v + 2)) m2"
  define m4 where "m4 = push_word ops m3 (reg_x EIP m3)"
  have s1: "stack_room (Suc (Suc 0)) m1" "stacked (ucast (R_FLG (x86 m)) # ws) m1" "1030 \<le> unat (slot 0 m1)"
    using room_push [OF r] stacked_push [OF r st] top_bound [OF r, of 1030] v by (simp_all add: m1_def)
  have l1: "good_cell 2 m1 a = good_cell 2 m a" "unat a \<le> 1022 \<Longrightarrow> word_at m1 a = word_at m a" for a
    using word_below [OF r, of a] v good_pushed [OF r] by (simp_all add: m1_def)
  have s2: "stack_room (Suc 0) m2" "stacked (R_CS (x86 m1) # ucast (R_FLG (x86 m)) # ws) m2"
    "1028 \<le> unat (slot 0 m2)"
    using room_push [OF s1(1)] stacked_push [OF s1(1,2)] top_bound [OF s1(1), of 1028] s1(3)
    unfolding m2_def by simp_all
  have l2: "good_cell 2 m2 a = good_cell 2 m a" "unat a \<le> 1022 \<Longrightarrow> word_at m2 a = word_at m a" for a
    using word_below [OF s1(1), of a] s1(3) good_pushed [OF s1(1)] l1 unfolding m2_def by simp_all
  have s3: "stack_room (Suc 0) m3" "stacked (R_CS (x86 m1) # ucast (R_FLG (x86 m)) # ws) m3"
    "1028 \<le> unat (slot 0 m3)"
    using s2 unfolding m3_def by simp_all
  have l3: "good_cell 2 m3 a = good_cell 2 m a" "unat a \<le> 1022 \<Longrightarrow> word_at m3 a = word_at m a" for a
    using l2 unfolding m3_def by simp_all
  have s4: "stacked (reg_x EIP m3 # R_CS (x86 m1) # ucast (R_FLG (x86 m)) # ws) m4"
    using stacked_push [OF s3(1,2)] unfolding m4_def by simp
  have l4: "good_cell 2 m4 a = good_cell 2 m a" "unat a \<le> 1022 \<Longrightarrow> word_at m4 a = word_at m a" for a
    using word_below [OF s3(1), of a] s3(3) good_pushed [OF s3(1)] l3 unfolding m4_def by simp_all
  have "m' = set_ip (word_at m ?v) m4"
  proof -
    have e: "mem_access_word ops m (?v + 2) = (word_at m (?v + 2), m)"
      "mem_access_word ops m2 (?v + 2) = (word_at m (?v + 2), m2)" "mem_access_word ops m4 ?v = (word_at m ?v, m4)"
      using v vector_low [of n] l2 l4 by (simp_all add: mem_access_good)
    show ?thesis
      unfolding m'_def software_intr_def Let_def e(1) split
      by (simp only: e split m1_def [symmetric] m2_def [symmetric] m3_def [symmetric] m4_def [symmetric]) (use v in simp)
  qed
  moreover have "(x AND NOT F_IF AND NOT F_TF) AND F_IF = 0" "(x AND NOT F_IF AND NOT F_TF) AND F_TF = 0"
    "((x AND NOT F_IF) AND NOT F_TF) AND F_IF = 0" "((x AND NOT F_IF) AND NOT F_TF) AND F_TF = 0" for x
    by (rule bit_word_eqI; auto simp: bit_simps)+
  ultimately show "R_CS (x86 m') = word_at m (ucast n * 4 + 2)" "reg_x EIP m' = word_at m (ucast n * 4)"
    "\<not> ACCESS_FLAG F_IF m'" "\<not> ACCESS_FLAG F_TF m'" "reg_x ESP m' = reg_x ESP m - 6"
    "stacked (reg_x EIP m # R_CS (x86 m) # ucast (R_FLG (x86 m)) # ws) m'"
    using s4 by (simp_all add: m4_def) (simp_all add: m3_def m2_def m1_def ACCESS_FLAG_def)
qed

text \<open>
  C21: Software interrupts. With room on the stack for three words and a vector in the RAM below the
  stack that is not the BIOS's, INT n enters the code at the segment and offset of vector n with IF
  and TF clear; when the handler leaves the stack as it found it, IRET returns to the interrupted
  instruction stream with its flags (the low 16 bits), its stack pointer and its stack. A vector
  with the segment of the BIOS calls the function of the BIOS table instead and pushes nothing.
\<close>

theorem interrupts_return:
  assumes "fetch_byte_imm ops m = (n, m0)" and "stack_room 3 m0" "stacked ws m0" "own_vector n m0"
  shows "(\<exists>m1. x86op_int_IMM bios ops m = Some m1 \<and>
      R_CS (x86 m1) = word_at m0 (ucast n * 4 + 2) \<and> reg_x EIP m1 = word_at m0 (ucast n * 4) \<and>
      \<not> ACCESS_FLAG F_IF m1 \<and> \<not> ACCESS_FLAG F_TF m1 \<and>
      (\<forall>m2. same_stack m1 m2 \<longrightarrow> (\<exists>m3. x86op_iret ops m2 = Some m3 \<and>
         reg_x EIP m3 = reg_x EIP m0 \<and> R_CS (x86 m3) = R_CS (x86 m0) \<and>
         R_FLG (x86 m3) = ucast (ucast (R_FLG (x86 m0)) :: u16) \<and>
         reg_x ESP m3 = reg_x ESP m0 \<and> stacked ws m3))) \<and>
    (good_cell 2 m' (ucast k * 4 + 2) \<and> word_at m' (ucast k * 4 + 2) = BIOS_SEG \<longrightarrow>
      software_intr bios ops k m' = bios k ops m')"
proof
  let ?m1 = "clear_segovr (software_intr bios ops n m0)"
  note entry = software_intr_entry [OF assms(2-4), of bios ops]
  have "\<exists>m3. x86op_iret ops m2 = Some m3 \<and> reg_x EIP m3 = reg_x EIP m0 \<and> R_CS (x86 m3) = R_CS (x86 m0) \<and>
      R_FLG (x86 m3) = ucast (ucast (R_FLG (x86 m0)) :: u16) \<and> reg_x ESP m3 = reg_x ESP m0 \<and> stacked ws m3"
    if s: "same_stack ?m1 m2" for m2
  proof -
    have sp: "reg_x ESP m2 = reg_x ESP m0 - 6" using s entry(5) by (simp add: same_stack_def)
    have "stacked (reg_x EIP m0 # R_CS (x86 m0) # ucast (R_FLG (x86 m0)) # ws) m2"
      using machine_stack.same_holds [OF s] entry(6) by simp
    note p1 = pop_stacked [OF this]
    have "stacked (R_CS (x86 m0) # ucast (R_FLG (x86 m0)) # ws)
        (set_ip (reg_x EIP m0) (set_x ESP (reg_x ESP m2 + 2) m2))"
      using p1(2) by simp
    note p2 = pop_stacked [OF this]
    define m4 where "m4 = put_seg CS (R_CS (x86 m0)) (set_x ESP (reg_x ESP
        (set_ip (reg_x EIP m0) (set_x ESP (reg_x ESP m2 + 2) m2)) + 2)
        (set_ip (reg_x EIP m0) (set_x ESP (reg_x ESP m2 + 2) m2)))"
    have "stacked (ucast (R_FLG (x86 m0)) # ws) m4" using p2(2) by (simp add: m4_def)
    note p3 = pop_stacked [OF this]
    have "x86op_iret ops m2 = Some (clear_segovr (put_flags (ucast (ucast (R_FLG (x86 m0)) :: u16))
        (set_x ESP (reg_x ESP m4 + 2) m4)))"
      by (simp only: x86op_iret_def Let_def p1(1) split p2(1) m4_def [symmetric] p3(1) end_instr_def)
    then show ?thesis using p3(2) by (simp add: m4_def sp)
  qed
  then show "\<exists>m1. x86op_int_IMM bios ops m = Some m1 \<and>
      R_CS (x86 m1) = word_at m0 (ucast n * 4 + 2) \<and> reg_x EIP m1 = word_at m0 (ucast n * 4) \<and>
      \<not> ACCESS_FLAG F_IF m1 \<and> \<not> ACCESS_FLAG F_TF m1 \<and>
      (\<forall>m2. same_stack m1 m2 \<longrightarrow> (\<exists>m3. x86op_iret ops m2 = Some m3 \<and>
         reg_x EIP m3 = reg_x EIP m0 \<and> R_CS (x86 m3) = R_CS (x86 m0) \<and>
         R_FLG (x86 m3) = ucast (ucast (R_FLG (x86 m0)) :: u16) \<and>
         reg_x ESP m3 = reg_x ESP m0 \<and> stacked ws m3))"
    using entry by (simp add: x86op_int_IMM_def assms(1) end_instr_def ACCESS_FLAG_def)
next
  show "good_cell 2 m' (ucast k * 4 + 2) \<and> word_at m' (ucast k * 4 + 2) = BIOS_SEG \<longrightarrow>
      software_intr bios ops k m' = bios k ops m'"
    by (simp add: software_intr_def mem_access_good)
qed

lemma interrupts_return_witness:
  "\<exists>m1 m3. x86op_int_IMM undefined_intr null_bus stack_machine = Some m1 \<and> R_CS (x86 m1) = 0x2000 \<and>
    x86op_iret null_bus m1 = Some m3 \<and> reg_x EIP m3 = 1 \<and> reg_x ESP m3 = 0x1000"
proof -
  let ?m = "set_x EIP 1 stack_machine"
  have f: "fetch_byte_imm null_bus stack_machine = (0x10, ?m)"
    by (simp add: fetch_low stack_machine_views)
  have w: "word_at ?m 0x42 = 0x2000"
    by (simp add: word_at_def stack_machine_views pack2_def)
  have "stack_room 3 ?m" "stacked [] ?m" "own_vector 0x10 ?m"
    by (auto intro!: low_stack_room simp: stack_machine_views stacked_def own_vector_def w good_cell_def
        on_adapter_def slot_def seg_off_def BIOS_SEG_def)
  note interrupts_return [OF f this, of undefined_intr ?m]
  then show ?thesis
    using same_stack_simps(6) by (fastforce simp: stack_machine_views w)
qed

subsection \<open>PUSHA and POPA\<close>

definition popped :: "reg32 \<Rightarrow> u16 \<Rightarrow> 'b sysenv \<Rightarrow> 'b sysenv" where
  "popped g w m = set_x g w (set_x ESP (reg_x ESP m + 2) m)"

lemma popped_views [simp]: "reg_x h (popped g w m) =
    (if h = g then w else if h = ESP then reg_x ESP m + 2 else reg_x h m)"
  by (simp add: popped_def)

lemma stacked_popped:
  assumes "stacked (w # ws) m" "g \<noteq> ESP"
  shows "stacked ws (popped g w m)"
proof -
  have "same_stack (set_x ESP (reg_x ESP m + 2) m) (popped g w m)"
    using assms(2) by (simp add: popped_def same_stack_def)
  then show ?thesis
    by (rule machine_stack.same_holds) (rule pop_stacked(2) [OF assms(1)])
qed

text \<open>
  C22: PUSHA and POPA. With room for eight words PUSHA pushes AX, CX, DX, BX, the SP from before, BP,
  SI and DI; when the stack is as it was left, whatever the registers hold, POPA gives all but SP
  the values they had, discards the saved SP, and leaves the stack as before.
\<close>

theorem pusha_popa:
  assumes "stack_room 8 m" "stacked ws m" "\<not> data32 m"
  shows "\<exists>m1. x86op_push_all ops m = Some m1 \<and>
    stacked ([reg_x EDI m, reg_x ESI m, reg_x EBP m, reg_x ESP m, reg_x EBX m, reg_x EDX m,
      reg_x ECX m, reg_x EAX m] @ ws) m1 \<and>
    (\<forall>m2. same_stack m1 m2 \<and> \<not> data32 m2 \<longrightarrow> (\<exists>m3. x86op_pop_all ops m2 = Some m3 \<and>
      (\<forall>g. g \<noteq> EIP \<longrightarrow> reg_x g m3 = reg_x g m) \<and> stacked ws m3))"
proof -
  let ?vs = "[reg_x EAX m, reg_x ECX m, reg_x EDX m, reg_x EBX m, reg_x ESP m, reg_x EBP m, reg_x ESI m, reg_x EDI m]"
  define m1 where "m1 = fold (\<lambda>w m. push_word ops m w) ?vs m"
  have push: "x86op_push_all ops m = Some (clear_segovr m1)"
    using assms(3) by (simp add: x86op_push_all_def Let_def end_instr_def m1_def)
  have "stack_room (length ?vs) m" using assms(1) by (simp add: eval_nat_numeral)
  then have "stacked (rev ?vs @ ws) m1"
    unfolding m1_def using assms(2) by (rule machine_stack.pushes_hold)
  then have st: "stacked (rev ?vs @ ws) (clear_segovr m1)" by simp
  have sp: "reg_x ESP m1 = reg_x ESP m - 16" by (simp add: m1_def)
  have "\<exists>m3. x86op_pop_all ops m2 = Some m3 \<and> (\<forall>g. g \<noteq> EIP \<longrightarrow> reg_x g m3 = reg_x g m) \<and> stacked ws m3"
    if s: "same_stack (clear_segovr m1) m2" and d: "\<not> data32 m2" for m2
  proof -
    define a1 where "a1 = popped EDI (reg_x EDI m) m2"
    define a2 where "a2 = popped ESI (reg_x ESI m) a1"
    define a3 where "a3 = popped EBP (reg_x EBP m) a2"
    define a4 where "a4 = set_x ESP (reg_x ESP a3 + 2) a3"
    define a5 where "a5 = popped EBX (reg_x EBX m) a4"
    define a6 where "a6 = popped EDX (reg_x EDX m) a5"
    define a7 where "a7 = popped ECX (reg_x ECX m) a6"
    define a8 where "a8 = popped EAX (reg_x EAX m) a7"
    have b0: "stacked (rev ?vs @ ws) m2" by (rule machine_stack.same_holds [OF s st])
    then have b1: "stacked (rev (butlast ?vs) @ ws) a1" by (simp add: a1_def stacked_popped)
    then have b2: "stacked (rev (take 6 ?vs) @ ws) a2" by (simp add: a2_def stacked_popped)
    then have b3: "stacked (rev (take 5 ?vs) @ ws) a3" by (simp add: a3_def stacked_popped)
    then have b4: "stacked (rev (take 4 ?vs) @ ws) a4" by (simp add: a4_def pop_stacked)
    then have b5: "stacked (rev (take 3 ?vs) @ ws) a5" by (simp add: a5_def stacked_popped)
    then have b6: "stacked (rev (take 2 ?vs) @ ws) a6" by (simp add: a6_def stacked_popped)
    then have b7: "stacked (rev (take 1 ?vs) @ ws) a7" by (simp add: a7_def stacked_popped)
    then have b8: "stacked ws a8" by (simp add: a8_def stacked_popped)
    have "x86op_pop_all ops m2 = Some (clear_segovr a8)"
      unfolding x86op_pop_all_def if_not_P [OF d] Let_def end_instr_def
      by (simp only: split popped_def [symmetric] pop_stacked(1) [OF b0 [simplified]] a1_def [symmetric]
          pop_stacked(1) [OF b1 [simplified]] a2_def [symmetric] pop_stacked(1) [OF b2 [simplified]] a3_def [symmetric]
          a4_def [symmetric] pop_stacked(1) [OF b4 [simplified]] a5_def [symmetric]
          pop_stacked(1) [OF b5 [simplified]] a6_def [symmetric] pop_stacked(1) [OF b6 [simplified]] a7_def [symmetric]
          pop_stacked(1) [OF b7 [simplified]] a8_def [symmetric])
    moreover have "reg_x ESP m2 = reg_x ESP m - 16" using s sp by (simp add: same_stack_def)
    then have "reg_x g a8 = reg_x g m" if "g \<noteq> EIP" for g
      using that by (cases g) (simp_all add: a8_def a7_def a6_def a5_def a4_def a3_def a2_def a1_def)
    ultimately show ?thesis using b8 by simp
  qed
  then show ?thesis using push st by simp
qed

lemma data32_cleared: "\<not> data32 (clear_segovr m)"
proof -
  have "(x AND NOT (a OR b OR c)) AND b = (0 :: u64)" for x a b c
    by (rule bit_word_eqI) (auto simp: bit_simps)
  then show ?thesis by (simp only: data32_def clear_segovr_def SYSMODE_CLRMASK_def upd_sel) simp
qed

lemma pusha_popa_witness: "\<exists>m1 m3. x86op_push_all null_bus stack_machine = Some m1 \<and>
    x86op_pop_all null_bus m1 = Some m3 \<and> reg_x ESP m3 = 0x1000"
proof -
  have d: "\<not> data32 stack_machine" by (simp add: data32_def stack_machine_views)
  obtain m1 where m1: "x86op_push_all null_bus stack_machine = Some m1"
    "same_stack m1 m1 \<and> \<not> data32 m1 \<Longrightarrow> \<exists>m3. x86op_pop_all null_bus m1 = Some m3 \<and>
      reg_x ESP m3 = reg_x ESP stack_machine"
    using pusha_popa [of stack_machine "[]" null_bus, OF stack_machine_ok(1) stack_machine_ok(2) d] by fastforce
  have "\<not> data32 m1" using m1(1) d
    by (auto simp: x86op_push_all_def Let_def end_instr_def data32_cleared)
  then show ?thesis using m1 by (simp add: stack_machine_views)
qed

end
