(* ===== verification/X86_Machine.thy ===== *)
theory X86_Machine
  imports X86_Frame X86_Control
begin

text \<open>
  The emulator as a whole: the main loop \<open>x86_exec\<close> as the closure of a step relation, and what an
  emulated program can never do, whatever it executes.
\<close>

subsection \<open>The steps of the machine\<close>

definition halted :: "'b sysenv \<Rightarrow> bool" where
  "halted m \<longleftrightarrow> intr (x86 m) AND INTR_HALTED \<noteq> 0"

text \<open>A pending request that is taken before the next instruction.\<close>

definition request_taken :: "'b sysenv \<Rightarrow> bool" where
  "request_taken m \<longleftrightarrow> intr (x86 m) \<noteq> 0 \<and>
     (intr (x86 m) AND INTR_SYNCH \<noteq> 0 \<and> (intno (x86 m) = 0 \<or> intno (x86 m) = 2) \<or> \<not> ACCESS_FLAG F_IF m)"

text \<open>The instruction at CS:IP.\<close>

definition instruction :: "'b bios \<Rightarrow> 'b bus_ops \<Rightarrow> 'b sysenv \<Rightarrow> 'b sysenv option" where
  "instruction bios ops m =
     (case fetch_byte_imm ops m of (op1, m) \<Rightarrow> x86_optab bios op1 ops m)"

inductive x86_step :: "'b bios \<Rightarrow> 'b bus_ops \<Rightarrow> 'b sysenv \<Rightarrow> 'b sysenv \<Rightarrow> bool"
  for bios :: "'b bios" and ops :: "'b bus_ops" where
  execute: "\<not> halted m \<Longrightarrow> \<not> request_taken m \<Longrightarrow> instruction bios ops m = Some m' \<Longrightarrow> x86_step bios ops m m'"
| interrupted: "\<not> halted m \<Longrightarrow> request_taken m \<Longrightarrow> instruction bios ops (x86_intr_handle ops m) = Some m' \<Longrightarrow>
    x86_step bios ops m m'"

inductive_simps x86_step_iff: "x86_step bios ops m m'"

lemma instruction_turn: "instruction bios ops m =
    (let addr = seg_off (R_CS (x86 m)) (reg_x EIP m);
         m = set_x EIP (reg_x EIP m + 1) m;
         (op1, m) = sys_rdb ops m addr
     in x86_optab bios op1 ops m)"
  by (simp add: instruction_def fetch_byte_imm_def Let_def)

lemma turn_halted: "x86_turn bios ops m = Some (Inl m') \<longleftrightarrow> halted m \<and> m' = m"
  by (auto simp: x86_turn_def x86_exec_intr_def halted_def Let_def split: prod.splits)

lemma turn_step: "x86_turn bios ops m = Some (Inr m') \<longleftrightarrow> x86_step bios ops m m'"
proof -
  have t: "x86_turn bios ops m = (if halted m then Some (Inl m)
      else map_option Inr (instruction bios ops (if request_taken m then x86_intr_handle ops m else m)))"
    by (auto simp: x86_turn_def x86_exec_intr_def halted_def request_taken_def instruction_turn Let_def split_beta)
  show ?thesis
    unfolding t by (auto simp: x86_step_iff)
qed

lemma step_deterministic: "x86_step bios ops m m' \<Longrightarrow> x86_step bios ops m m'' \<Longrightarrow> m' = m''"
  by (auto simp: x86_step_iff)

lemma loop_steps: "(x86_step bios ops)\<^sup>*\<^sup>* m m' \<Longrightarrow> halted m' \<Longrightarrow> x86_loop bios ops m = Some m'"
proof (induction rule: converse_rtranclp_induct)
  case base
  then have "x86_turn bios ops m' = Some (Inl m')" by (simp add: turn_halted)
  then show ?case by (simp add: x86_loop.simps [of bios ops m'])
next
  case (step m m1)
  then have "x86_turn bios ops m = Some (Inr m1)" by (simp add: turn_step)
  then show ?case using step by (simp add: x86_loop.simps [of bios ops m])
qed

lemma loop_stops: "x86_loop bios ops m = Some m' \<Longrightarrow> (x86_step bios ops)\<^sup>*\<^sup>* m m' \<and> halted m'"
proof (rule x86_loop.raw_induct [where P = "\<lambda>bios ops m m'. (x86_step bios ops)\<^sup>*\<^sup>* m m' \<and> halted m'"])
  fix loop :: "'c bios \<Rightarrow> 'c bus_ops \<Rightarrow> 'c sysenv \<Rightarrow> 'c sysenv option" and bios ops m m'
  assume ih: "\<And>bios ops m m'. loop bios ops m = Some m' \<Longrightarrow> (x86_step bios ops)\<^sup>*\<^sup>* m m' \<and> halted m'"
    and turn: "(case x86_turn bios ops m of None \<Rightarrow> None | Some (Inl m) \<Rightarrow> Some m
      | Some (Inr m) \<Rightarrow> loop bios ops m) = Some m'"
  show "(x86_step bios ops)\<^sup>*\<^sup>* m m' \<and> halted m'"
  proof (cases "x86_turn bios ops m")
    case (Some r)
    show ?thesis
    proof (cases r)
      case (Inl m1)
      then have "halted m" "m1 = m" using Some turn_halted [of bios ops m m1] by simp_all
      then show ?thesis using turn Some Inl by simp
    next
      case (Inr m1)
      then have "x86_step bios ops m m1" "loop bios ops m1 = Some m'"
        using Some turn turn_step [of bios ops m m1] by simp_all
      then show ?thesis using ih [of bios ops m1 m'] by (blast intro: converse_rtranclp_into_rtranclp)
    qed
  qed (use turn in simp)
qed

text \<open>
  C11: The main loop. \<open>x86_exec\<close> returns exactly when the steps of the machine, each one instruction
  with the pending request taken before it, lead from the machine with its requests cleared to a
  halted one, and that one it returns; a machine that is not halted always has exactly one step,
  except where the next instruction follows a null pointer.
\<close>

theorem exec_is_the_steps:
  "(x86_exec bios ops m = Some m' \<longleftrightarrow>
      (x86_step bios ops)\<^sup>*\<^sup>* (upd (\<lambda>r. r\<lparr>intr := 0\<rparr>) m) m' \<and> halted m') \<and>
    ((\<exists>!m2. x86_step bios ops m1 m2) \<longleftrightarrow> \<not> halted m1 \<and>
      (case fetch_byte_imm ops (if request_taken m1 then x86_intr_handle ops m1 else m1) of
         (op1, m1) \<Rightarrow> \<not> null_deref op1 ops m1))"
proof
  show "x86_exec bios ops m = Some m' \<longleftrightarrow>
      (x86_step bios ops)\<^sup>*\<^sup>* (upd (\<lambda>r. r\<lparr>intr := 0\<rparr>) m) m' \<and> halted m'"
    unfolding x86_exec_def using loop_steps loop_stops by blast
  let ?m = "if request_taken m1 then x86_intr_handle ops m1 else m1"
  obtain op1 m2 where f: "fetch_byte_imm ops ?m = (op1, m2)" by (cases "fetch_byte_imm ops ?m")
  have "x86_step bios ops m1 m' \<longleftrightarrow> \<not> halted m1 \<and> x86_optab bios op1 ops m2 = Some m'" for m'
    using f by (auto simp: x86_step_iff instruction_def split: if_splits)
  then show "(\<exists>!m2. x86_step bios ops m1 m2) \<longleftrightarrow> \<not> halted m1 \<and>
      (case fetch_byte_imm ops ?m of (op1, m1) \<Rightarrow> \<not> null_deref op1 ops m1)"
    using instruction_returns [of bios op1 ops m2]
    by (auto simp: f)
qed

subsection \<open>What every instruction keeps\<close>

context machine_frame begin

lemma optab_keeps:
  assumes "\<And>n ops m. I m (bios n ops m)"
  shows "keeps I (x86_optab bios op1)"
proof -
  have rows: "list_all (list_all (keeps I)) (x86_optab_rows bios)"
    by (simp add: x86_optab_rows_def low_handlers high_handlers [OF assms] esc_handlers)
  define i j where "i = unat op1 div 16" and "j = unat op1 mod 16"
  have ij: "unat op1 = 16 * i + j" "j < 16" by (simp_all add: i_def j_def)
  have "unat op1 < 256" by (rule order_less_le_trans [OF unsigned_less]) simp
  then have "i < 16" using ij by linarith
  then have "keeps I (x86_optab_rows bios ! i ! j)"
    using rows table_shape [of bios] ij(2) by (simp add: list_all_length)
  then show ?thesis by (simp add: optab_index [OF ij])
qed

lemma intr_handle_frame [frame]: "I m0 m \<Longrightarrow> I m0 (x86_intr_handle ops m)"
  unfolding x86_intr_handle_def Let_def by (intro frame; assumption)

lemma step_frame:
  assumes "\<And>n ops m. I m (bios n ops m)" "x86_step bios ops m m'"
  shows "I m m'"
proof -
  have i: "I m m'" if "instruction bios ops m1 = Some m'" "I m m1" for m1
  proof -
    obtain op1 m2 where f: "fetch_byte_imm ops m1 = (op1, m2)" by (cases "fetch_byte_imm ops m1")
    have "I m m2" using decoding(1) [OF that(2), of ops] f by simp
    then have "pred_option (I m) (x86_optab bios op1 ops m2)"
      using optab_keeps [OF assms(1)] by (simp add: keeps_def)
    then show ?thesis using that(1) f by (simp add: instruction_def)
  qed
  show ?thesis
    using assms(2) i refl intr_handle_frame [OF refl] by (auto simp: x86_step_iff)
qed

lemma steps_frame:
  assumes "\<And>n ops m. I m (bios n ops m)" "(x86_step bios ops)\<^sup>*\<^sup>* m m'"
  shows "I m m'"
  using assms(2) by (induction rule: rtranclp_induct) (auto intro: refl trans step_frame [OF assms(1)])

lemma bios_frame: "I m (bios_intr_tab pci n ops m)"
proof -
  have "I m (int10 n ops m)" for n
    unfolding int10_def Let_def by (intro frame refl; assumption?)
  moreover have "I m (int1a pci n ops m)" for n
    unfolding int1a_def pci_status_def Let_def split_beta by (intro frame refl)
  ultimately show ?thesis by (simp add: bios_intr_tab_def undefined_intr_def refl)
qed

end

subsection \<open>Confinement\<close>

text \<open>
  The addresses that no store reaches: those above the RAM, but for the three bytes by which a long
  store at its end runs over, and those of the adapter's window, but for the three bytes by which a
  store before it runs into it.
\<close>

definition out_of_reach :: "u64 \<Rightarrow> u64 \<Rightarrow> bool" where
  "out_of_reach sz a \<longleftrightarrow> unat sz + 3 \<le> unat a \<or> 0xa0003 \<le> unat a \<and> unat a \<le> 0xfffff"

definition confined :: "'b sysenv \<Rightarrow> 'b sysenv \<Rightarrow> bool" where
  "confined m m' \<longleftrightarrow> mem_size m' = mem_size m \<and> (\<forall>a. out_of_reach (mem_size m) a \<longrightarrow> ram m' a = ram m a)"

lemma store_in_reach:
  fixes addr :: u32
  assumes "\<not> on_adapter (ucast addr)" "\<not> sz \<le> ucast addr" "out_of_reach sz a"
  shows "a \<noteq> ucast addr" "a \<noteq> ucast addr + 1" "a \<noteq> ucast addr + 2" "a \<noteq> ucast addr + 3"
proof -
  have u: "unat (ucast addr :: u64) = unat addr" by (rule unat_wide) simp
  have b: "unat addr < 2 ^ 32" using unsigned_less [of addr, where 'a = nat] by simp
  have s: "unat (ucast addr + 1 :: u64) = unat addr + 1" "unat (ucast addr + 2 :: u64) = unat addr + 2"
    "unat (ucast addr + 3 :: u64) = unat addr + 3"
    using b by (subst unat_add_no_wrap; simp add: u)+
  have "unat addr < unat sz" "unat addr < 0xa0000 \<or> 0xfffff < unat addr"
    using assms(1,2) by (auto simp: on_adapter_def word_le_nat_alt u)
  then show "a \<noteq> ucast addr" "a \<noteq> ucast addr + 1" "a \<noteq> ucast addr + 2" "a \<noteq> ucast addr + 3"
    using assms(3) unfolding word_eq_iff_unat u s out_of_reach_def by linarith+
qed

interpretation confinement: machine_frame confined
proof
  fix ops :: "'b bus_ops" and m m0 m' :: "'b sysenv" and f b and addr :: u32 and v sz
  show "confined m m" "confined m (upd f m)" "confined m (m\<lparr>bus := b\<rparr>)" by (simp_all add: confined_def)
  show "confined m0 m \<Longrightarrow> confined m m' \<Longrightarrow> confined m0 m'" by (simp add: confined_def)
  show "confined m (mem_write ops m (ucast addr) v sz)"
    using store_in_reach [of addr "mem_size m"]
    by (auto simp: confined_def mem_write_def store_u16_def halt_sys_def bus_write_def set_ram_def Let_def)
qed

text \<open>
  C8: Confinement. Whatever instructions a program of the emulated machine executes, with the
  interrupts and the BIOS functions they call, after any number of steps the size of the memory is
  the same and no byte of the host has changed at or above three bytes after the end of the memory, or under the window
  of the adapter but for its first three bytes. The three bytes behind the memory, and those of the window, are really
  reached by words and longs stored at the last bytes before them.
\<close>

theorem emulator_confined:
  assumes "(x86_step (bios_intr_tab pci) ops)\<^sup>*\<^sup>* m m'"
  shows "mem_size m' = mem_size m \<and> (\<forall>a. out_of_reach (mem_size m) a \<longrightarrow> ram m' a = ram m a)"
  using confinement.steps_frame [OF confinement.bios_frame assms] by (simp add: confined_def)

definition null_pci :: "(unit, unit) pci_ops" where
  "null_pci = \<lparr>PCIBIOS_SUCCESSFUL = 0, pci_find_slot = (\<lambda>_ _. ()),
     pcibios_find_device = (\<lambda>_ _ _ x y b. (0x86, x, y, b)), pcibios_find_class = (\<lambda>_ _ x y b. (0x86, x, y, b)),
     pci_read_config_byte = (\<lambda>_ _ v b. (0, v, b)), pci_read_config_word = (\<lambda>_ _ v b. (0, v, b)),
     pci_read_config_dword = (\<lambda>_ _ v b. (0, v, b)), pci_write_config_byte = (\<lambda>_ _ _ b. (0, b)),
     pci_write_config_word = (\<lambda>_ _ _ b. (0, b)), pci_write_config_dword = (\<lambda>_ _ _ b. (0, b))\<rparr>"

definition nop_machine :: "unit sysenv" where
  "nop_machine = blank_machine\<lparr>ram := (\<lambda>a. if a = 0 then 0x90 else 0)\<rparr>"

lemma nop_step: "x86_step bios null_bus nop_machine (clear_segovr (set_x EIP 1 nop_machine))"
proof -
  have v: "reg_x g nop_machine = 0" "R_CS (x86 nop_machine) = 0" "mem_size nop_machine = 0x100000"
    "ram nop_machine 0 = 0x90" "intr (x86 nop_machine) = 0" for g
    unfolding nop_machine_def
    by (cases g; simp add: blank_machine_def blank_regs_def reg_x_def)+
  have "x86_optab bios 0x90 = x86op_nop"
    using optab_index [of "0x90" 9 0 bios] by (simp add: x86_optab_rows_def)
  then have "instruction bios null_bus nop_machine = Some (clear_segovr (set_x EIP 1 nop_machine))"
    by (simp add: instruction_def fetch_low v x86op_nop_def simple_op_def end_instr_def)
  then show ?thesis
    by (intro execute) (simp_all add: halted_def request_taken_def v)
qed

lemma emulator_confined_witness:
  "ram (clear_segovr (set_x EIP 1 nop_machine)) 0x100003 = 0 \<and> mem_size (set_x EIP 1 nop_machine) = 0x100000"
  using emulator_confined [of null_pci null_bus nop_machine "clear_segovr (set_x EIP 1 nop_machine)",
      OF r_into_rtranclp, OF nop_step]
  by (auto simp: out_of_reach_def nop_machine_def blank_machine_def)

subsection \<open>The interrupt table\<close>

definition vector_byte :: "nat \<Rightarrow> nat \<Rightarrow> u64" where
  "vector_byte i j = of_nat (4 * i + j)"

lemma unat_vector_byte: "i < 256 \<Longrightarrow> j < 4 \<Longrightarrow> unat (vector_byte i j) = 4 * i + j"
  unfolding vector_byte_def by (rule unat_of_nat_small) simp

lemma vector_byte_eq:
  assumes "i < 256" "j < 4" "k < 256" "l < 4"
  shows "vector_byte i j = vector_byte k l \<longleftrightarrow> i = k \<and> j = l"
proof -
  have "(4 * i + j) div 4 = i" "(4 * i + j) mod 4 = j" "(4 * k + l) div 4 = k" "(4 * k + l) mod 4 = l"
    using assms(2,4) by simp_all
  then have "4 * i + j = 4 * k + l \<longleftrightarrow> i = k \<and> j = l" by metis
  then show ?thesis using assms by (simp add: word_eq_iff_unat unat_vector_byte)
qed

lemma store_vector_ram:
  assumes "i < 256" "k < 256" "j < 4"
  shows "ram (store_vector i v m) (vector_byte k j) =
    (if k = i then byte_of j (ucast v) else ram m (vector_byte k j))"
proof -
  have "of_nat (4 * i) = vector_byte i 0" "of_nat (4 * i) + 1 = vector_byte i 1"
    "of_nat (4 * i) + 2 = vector_byte i 2" "of_nat (4 * i) + 3 = vector_byte i 3"
    by (simp_all add: vector_byte_def)
  moreover have "j = 0 \<or> j = 1 \<or> j = 2 \<or> j = 3" using assms(3) by linarith
  ultimately show ?thesis
    using assms by (auto simp only: store_vector_def Let_def)
      (auto simp: set_ram_def vector_byte_eq)
qed

lemma vectors_ram:
  assumes "n \<le> 256" "k < 256" "j < 4"
  shows "ram (fold (\<lambda>i. store_vector i v) [0..<n] m) (vector_byte k j) =
    (if k < n then byte_of j (ucast v) else ram m (vector_byte k j))"
  using assms by (induction n) (auto simp: store_vector_ram)

lemma vectors_size: "mem_size (fold (\<lambda>i. store_vector i v) is m) = mem_size m"
  by (induction "is" arbitrary: m) (simp_all add: store_vector_def Let_def)

text \<open>
  C23: The interrupt table. After \<open>x86_bios_init\<close>, in a memory that holds the table, all 256 software
  interrupts go to the function of the BIOS for their number: the video function for 0x10, the PCI
  functions for 0x1a, and for every other number one that changes nothing.
\<close>

theorem bios_vectors:
  assumes "1024 \<le> unat (mem_size m)"
  shows "software_intr (bios_intr_tab pci) ops n (x86_bios_init m) =
    (if n = 0x10 then int10 n ops (x86_bios_init m)
     else if n = 0x1a then int1a pci n ops (x86_bios_init m) else x86_bios_init m)"
proof -
  let ?a = "ucast n * 4 + 2 :: u32"
  define k where "k = unat n"
  have k: "k < 256" using unsigned_less [of n, where 'a = nat] by (simp add: k_def)
  have "unat (ucast n * 4 :: u32) = 4 * k"
    using k by (simp add: unat_word_ariths(2) unat_wide k_def)
  then have u: "unat ?a = 4 * k + 2"
    using k by (simp add: unat_word_ariths(1))
  have "unat (ucast ?a :: u64) = 4 * k + 2" using u by (simp add: unat_wide)
  then have a: "ucast ?a = vector_byte k 2"
    using k by (simp add: word_eq_iff_unat unat_vector_byte)
  have a': "vector_byte k 2 + 1 = vector_byte k 3" by (simp add: vector_byte_def)
  have "good_cell 2 (x86_bios_init m) ?a"
    using u k assms by (auto simp: good_cell_def x86_bios_init_def vectors_size on_adapter_def word_le_nat_alt unat_wide)
  moreover have "word_at (x86_bios_init m) ?a = BIOS_SEG"
    unfolding word_at_def a a' x86_bios_init_def
    by (simp only: vectors_ram k) (simp add: pack2_def byte_of_def BIOS_SEG_def)
  ultimately show ?thesis
    by (simp add: software_intr_def mem_access_good bios_intr_tab_def undefined_intr_def)
qed

lemma bios_vectors_witness:
  "software_intr (bios_intr_tab null_pci) null_bus 0x21 (x86_bios_init blank_machine) = x86_bios_init blank_machine"
  using bios_vectors [of blank_machine null_pci null_bus "0x21"] by simp

end
