(* ===== verification/Env.thy ===== *)
theory Env
  imports Prelude
begin

text \<open>
  The environment variables: \<open>env.c\<close> in the build without NVRAM. The area \<open>environ\<close> is memory
  from address 0 of the model, as bytes, with whatever follows it from ENVIRON_SIZE on, because
  the stores are not checked against the area; a C string argument is the list of its bytes without
  the closing NUL. The chunk at index 0 holds the identification of a saved environment and no
  variable.
\<close>

type_synonym env = "nat \<Rightarrow> u8"
type_synonym cstring = "u8 list"

definition ENVIRON_SIZE :: nat where "ENVIRON_SIZE = 8192"
definition ENVIRON_CHUNK_SIZE :: nat where "ENVIRON_CHUNK_SIZE = 128"
definition ENVIRON_NVARS :: nat where "ENVIRON_NVARS = ENVIRON_SIZE div ENVIRON_CHUNK_SIZE"

abbreviation EQUALS :: u8 where "EQUALS \<equiv> 0x3d"

definition env_init :: "env \<Rightarrow> env" where
  "env_init e = (\<lambda>a. if a < ENVIRON_SIZE then 0 else e a)"

text \<open>\<open>strncmp (cp, var, strlen (var)) == 0\<close>, for a \<open>var\<close> that holds no NUL.\<close>

fun strncmp_eq :: "env \<Rightarrow> nat \<Rightarrow> cstring \<Rightarrow> bool" where
  "strncmp_eq e cp [] \<longleftrightarrow> True"
| "strncmp_eq e cp (c # cs) \<longleftrightarrow> e cp = c \<and> strncmp_eq e (cp + 1) cs"

definition var_at :: "env \<Rightarrow> nat \<Rightarrow> cstring \<Rightarrow> bool" where
  "var_at e cp var \<longleftrightarrow> strncmp_eq e cp var \<and> e (cp + length var) = EQUALS"

fun strcpy :: "env \<Rightarrow> nat \<Rightarrow> cstring \<Rightarrow> env" where
  "strcpy e cp [] = e(cp := 0)"
| "strcpy e cp (c # cs) = strcpy (e(cp := c)) (cp + 1) cs"

text \<open>
  \<open>strcpy (cp, var); strcat (cp, "="); strcat (cp, value)\<close>: each \<open>strcat\<close> starts at the NUL the
  call before it has left.
\<close>

definition store_var :: "env \<Rightarrow> nat \<Rightarrow> cstring \<Rightarrow> cstring \<Rightarrow> env" where
  "store_var e cp var val =
     strcpy (strcpy (strcpy e cp var) (cp + length var) [EQUALS]) (cp + length var + 1) val"

text \<open>
  The loop of \<open>setenv\<close>: the chunk of the variable, where the loop stops, and the first free chunk
  it has passed.
\<close>

fun setenv_scan :: "env \<Rightarrow> cstring \<Rightarrow> nat list \<Rightarrow> nat option \<Rightarrow> nat option \<times> nat option" where
  "setenv_scan e var [] firstfree = (None, firstfree)"
| "setenv_scan e var (i # is) firstfree =
     (let cp = i * ENVIRON_CHUNK_SIZE;
          firstfree = (if firstfree = None \<and> e cp = 0 then Some cp else firstfree)
      in if var_at e cp var then (Some cp, firstfree) else setenv_scan e var is firstfree)"

definition setenv :: "env \<Rightarrow> cstring \<Rightarrow> cstring \<Rightarrow> env" where
  "setenv e var val =
     (case setenv_scan e var [1..<ENVIRON_NVARS] None of
        (Some cp, _) \<Rightarrow> store_var e cp var val
      | (None, Some firstfree) \<Rightarrow> store_var e firstfree var val
      | (None, None) \<Rightarrow> e)"

text \<open>The loop of \<open>unsetenv\<close> and \<open>getenv\<close>.\<close>

fun find_var :: "env \<Rightarrow> cstring \<Rightarrow> nat list \<Rightarrow> nat option" where
  "find_var e var [] = None"
| "find_var e var (i # is) =
     (if var_at e (i * ENVIRON_CHUNK_SIZE) var then Some (i * ENVIRON_CHUNK_SIZE)
      else find_var e var is)"

definition unsetenv :: "env \<Rightarrow> cstring \<Rightarrow> env" where
  "unsetenv e var =
     (case find_var e var [1..<ENVIRON_NVARS] of Some cp \<Rightarrow> e(cp := 0) | None \<Rightarrow> e)"

definition getenv :: "env \<Rightarrow> cstring \<Rightarrow> nat option" where
  "getenv e var =
     (case find_var e var [1..<ENVIRON_NVARS] of
        Some cp \<Rightarrow> Some (cp + length var + 1) | None \<Rightarrow> None)"

text \<open>What \<open>printenv\<close> prints: the addresses of the strings, in order.\<close>

definition printenv :: "env \<Rightarrow> nat list" where
  "printenv e = filter (\<lambda>cp. e cp \<noteq> 0) (map (\<lambda>i. i * ENVIRON_CHUNK_SIZE) [1..<ENVIRON_NVARS])"

subsection \<open>Strings in memory\<close>

text \<open>The bytes before the first NUL, at most \<open>n\<close> of them.\<close>

fun bytes_at :: "env \<Rightarrow> nat \<Rightarrow> nat \<Rightarrow> cstring" where
  "bytes_at e p 0 = []"
| "bytes_at e p (Suc n) = (if e p = 0 then [] else e p # bytes_at e (p + 1) n)"

lemma strncmp_eq_iff: "strncmp_eq e cp s \<longleftrightarrow> (\<forall>i<length s. e (cp + i) = s ! i)"
proof (induction s arbitrary: cp)
  case (Cons c s)
  have "(\<forall>i<length (c # s). e (cp + i) = (c # s) ! i) \<longleftrightarrow>
      e cp = c \<and> (\<forall>i<length s. e (cp + 1 + i) = s ! i)"
    by (auto simp: nth_Cons less_Suc_eq_0_disj split: nat.splits)
  then show ?case using Cons.IH by simp
qed simp

lemma strcpy_app: "strcpy e cp s a =
    (if cp \<le> a \<and> a < cp + length s then s ! (a - cp) else if a = cp + length s then 0 else e a)"
proof (induction s arbitrary: e cp a)
  case (Cons c s)
  consider "a < cp" | "a = cp" | k where "a = cp + Suc k"
    by (metis less_imp_Suc_add linorder_neqE_nat add_Suc_right)
  then show ?case by cases (simp_all add: Cons.IH)
qed auto

lemma store_var_app: "store_var e cp var val a =
    (if cp \<le> a \<and> a \<le> cp + length var + 1 + length val
     then (var @ EQUALS # val @ [0]) ! (a - cp) else e a)"
proof (cases "cp \<le> a")
  case True
  then obtain k where a: "a = cp + k" using le_Suc_ex by blast
  consider "k < length var" | "k = length var" | j where "k = Suc (length var + j)"
    by (metis less_imp_Suc_add linorder_neqE_nat)
  then show ?thesis
    by cases (auto simp: a store_var_def strcpy_app nth_append less_Suc_eq)
qed (simp add: store_var_def strcpy_app)

end
