(* ===== verification/Env_Spec.thy ===== *)
theory Env_Spec
  imports Env
begin

text \<open>
  The environment as a store of variables: the contract is the locale \<open>env_store\<close>, interpreted on
  \<open>setenv\<close>, \<open>unsetenv\<close> and the value \<open>getenv\<close> points to. It holds for names without NUL or
  equals sign and for values that fit the chunk; what happens to longer ones is the last property.
\<close>

text \<open>
  What a client of the environment relies on: the variable it sets has the value it set, another
  keeps its own, a variable unset is gone.
\<close>

locale env_store =
  fixes get :: "'e \<Rightarrow> 'n \<Rightarrow> 'v option"
    and put :: "'e \<Rightarrow> 'n \<Rightarrow> 'v \<Rightarrow> 'e"
    and drop :: "'e \<Rightarrow> 'n \<Rightarrow> 'e"
    and ok :: "'e \<Rightarrow> bool" and name :: "'n \<Rightarrow> bool" and room :: "'e \<Rightarrow> 'n \<Rightarrow> 'v \<Rightarrow> bool"
  assumes put_ok: "ok e \<Longrightarrow> name n \<Longrightarrow> room e n v \<Longrightarrow> ok (put e n v)"
    and drop_ok: "ok e \<Longrightarrow> name n \<Longrightarrow> ok (drop e n)"
    and get_put: "ok e \<Longrightarrow> name n \<Longrightarrow> room e n v \<Longrightarrow> name n' \<Longrightarrow>
      get (put e n v) n' = (if n' = n then Some v else get e n')"
    and get_drop: "ok e \<Longrightarrow> name n \<Longrightarrow> name n' \<Longrightarrow>
      get (drop e n) n' = (if n' = n then None else get e n')"
begin

lemma put_drop: "ok e \<Longrightarrow> name n \<Longrightarrow> room e n v \<Longrightarrow> name n' \<Longrightarrow>
    get (drop (put e n v) n) n' = get (drop e n) n'"
  by (simp add: get_drop get_put put_ok)

lemma put_put: "ok e \<Longrightarrow> name n \<Longrightarrow> room e n v \<Longrightarrow> room (put e n v) n w \<Longrightarrow> name n' \<Longrightarrow>
    get (put (put e n v) n w) n' = (if n' = n then Some w else get e n')"
  by (simp add: get_put put_ok)

lemma put_comm: "ok e \<Longrightarrow> name n \<Longrightarrow> name m \<Longrightarrow> n \<noteq> m \<Longrightarrow> room e n v \<Longrightarrow> room e m w \<Longrightarrow>
    room (put e n v) m w \<Longrightarrow> room (put e m w) n v \<Longrightarrow> name k \<Longrightarrow>
    get (put (put e n v) m w) k = get (put (put e m w) n v) k"
  by (simp add: get_put put_ok)

end

subsection \<open>Names, chunks and the invariant\<close>

definition no_nul :: "cstring \<Rightarrow> bool" where "no_nul s \<longleftrightarrow> 0 \<notin> set s"

definition env_name :: "cstring \<Rightarrow> bool" where
  "env_name v \<longleftrightarrow> v \<noteq> [] \<and> no_nul v \<and> EQUALS \<notin> set v \<and> length v < ENVIRON_CHUNK_SIZE"

definition chunk :: "nat \<Rightarrow> nat" where "chunk i = i * ENVIRON_CHUNK_SIZE"

definition in_chunk :: "nat \<Rightarrow> nat \<Rightarrow> bool" where
  "in_chunk i a \<longleftrightarrow> chunk i \<le> a \<and> a < chunk i + ENVIRON_CHUNK_SIZE"

text \<open>No name stands in two chunks.\<close>

definition env_ok :: "env \<Rightarrow> bool" where
  "env_ok e \<longleftrightarrow> (\<forall>i j v. env_name v \<and> i \<in> {1..<ENVIRON_NVARS} \<and> j \<in> {1..<ENVIRON_NVARS} \<and>
     var_at e (chunk i) v \<and> var_at e (chunk j) v \<longrightarrow> i = j)"

definition env_value :: "env \<Rightarrow> cstring \<Rightarrow> cstring option" where
  "env_value e v = (case getenv e v of None \<Rightarrow> None
     | Some p \<Rightarrow> Some (bytes_at e p (ENVIRON_CHUNK_SIZE - length v - 1)))"

definition fits_chunk :: "cstring \<Rightarrow> cstring \<Rightarrow> bool" where
  "fits_chunk v val \<longleftrightarrow> no_nul val \<and> length v + length val + 2 \<le> ENVIRON_CHUNK_SIZE"

text \<open>There is a chunk for the variable: its own or a free one.\<close>

definition env_room :: "env \<Rightarrow> cstring \<Rightarrow> cstring \<Rightarrow> bool" where
  "env_room e v val \<longleftrightarrow> fits_chunk v val \<and> (\<exists>i\<in>{1..<ENVIRON_NVARS}. var_at e (chunk i) v \<or> e (chunk i) = 0)"

lemma var_at_nth: "var_at e p v \<longleftrightarrow> (\<forall>i<length v. e (p + i) = v ! i) \<and> e (p + length v) = EQUALS"
  by (simp add: var_at_def strncmp_eq_iff)

lemma var_at_unique:
  assumes "env_name v" "env_name w" "var_at e p v" "var_at e p w"
  shows "v = w"
proof -
  have "\<not> length v < length w" if "var_at e p v" "var_at e p w" "env_name w" for v w
    using that unfolding var_at_nth env_name_def by (metis nth_mem)
  then have "length v = length w" using assms by (meson linorder_neqE_nat)
  then show ?thesis using assms(3,4) by (auto simp: var_at_nth intro: nth_equalityI)
qed

lemma not_at_free: "env_name v \<Longrightarrow> e p = 0 \<Longrightarrow> \<not> var_at e p v"
  unfolding env_name_def no_nul_def var_at_nth by (metis add.right_neutral length_greater_0_conv nth_mem)

lemma var_at_store:
  assumes "env_name v" "env_name w"
  shows "var_at (store_var e p v val) p w \<longleftrightarrow> w = v"
proof -
  have "var_at (store_var e p v val) p v"
    by (simp add: var_at_nth store_var_app nth_append)
  then show ?thesis using var_at_unique [OF assms(2,1)] by blast
qed

lemma var_at_cong: "(\<And>a. in_chunk i a \<Longrightarrow> e' a = e a) \<Longrightarrow> env_name v \<Longrightarrow>
    var_at e' (chunk i) v = var_at e (chunk i) v"
  by (simp add: var_at_nth in_chunk_def env_name_def)

lemma chunks_apart: "i \<noteq> j \<Longrightarrow> in_chunk i a \<Longrightarrow> \<not> in_chunk j a"
proof
  assume "i \<noteq> j" "in_chunk i a" "in_chunk j a"
  then have "a div ENVIRON_CHUNK_SIZE = i" "a div ENVIRON_CHUNK_SIZE = j"
    by (auto simp: in_chunk_def chunk_def ENVIRON_CHUNK_SIZE_def)
  then show False using \<open>i \<noteq> j\<close> by simp
qed

lemma store_in_chunk:
  assumes "fits_chunk v val" "\<not> in_chunk j a"
  shows "store_var e (chunk j) v val a = e a"
  using assms by (auto simp: store_var_app fits_chunk_def in_chunk_def)

subsection \<open>The loops\<close>

lemma find_var_Some: "find_var e v is = Some p \<Longrightarrow> \<exists>i\<in>set is. p = chunk i \<and> var_at e (chunk i) v"
  by (induction "is") (auto simp: chunk_def split: if_splits)

lemma find_var_None: "find_var e v is = None \<longleftrightarrow> (\<forall>i\<in>set is. \<not> var_at e (chunk i) v)"
  by (induction "is") (auto simp: chunk_def)

lemma find_var_cong:
  assumes "\<And>i. i \<in> set is \<Longrightarrow> var_at e' (chunk i) w = var_at e (chunk i) w"
  shows "find_var e' w is = find_var e w is"
  using assms by (induction "is") (auto simp: chunk_def)

lemma setenv_scan_cases:
  "fst (setenv_scan e v is ff) = find_var e v is"
  by (induction "is" arbitrary: ff) (auto simp: Let_def chunk_def)

lemma setenv_scan_free:
  "find_var e v is = None \<Longrightarrow> snd (setenv_scan e v is ff) = Some p \<Longrightarrow>
    ff = Some p \<or> (\<exists>i\<in>set is. p = chunk i \<and> e p = 0)"
  by (induction "is" arbitrary: ff) (auto simp: Let_def chunk_def split: if_splits)

lemma setenv_scan_kept: "snd (setenv_scan e v is (Some p)) = Some p"
  by (induction "is") (auto simp: Let_def)

lemma setenv_scan_full:
  "find_var e v is = None \<Longrightarrow> snd (setenv_scan e v is ff) = None \<Longrightarrow>
    (\<forall>i\<in>set is. e (chunk i) \<noteq> 0)"
  by (induction "is" arbitrary: ff)
    (auto simp: Let_def chunk_def setenv_scan_kept split: if_splits)

lemma setenv_target:
  assumes "\<exists>i\<in>{1..<ENVIRON_NVARS}. var_at e (chunk i) v \<or> e (chunk i) = 0"
  obtains j where "j \<in> {1..<ENVIRON_NVARS}" "setenv e v val = store_var e (chunk j) v val"
    "var_at e (chunk j) v \<or> e (chunk j) = 0 \<and> (\<forall>i\<in>{1..<ENVIRON_NVARS}. \<not> var_at e (chunk i) v)"
proof -
  let ?is = "[1..<ENVIRON_NVARS]"
  obtain r ff where scan: "setenv_scan e v ?is None = (r, ff)" by fastforce
  then have r: "find_var e v ?is = r" using setenv_scan_cases [of e v ?is None] by simp
  show thesis
  proof (cases r)
    case (Some p)
    then obtain i where "i \<in> set ?is" "p = chunk i" "var_at e (chunk i) v"
      using find_var_Some r by blast
    then show thesis using that scan Some by (simp add: setenv_def)
  next
    case None
    then have none: "\<forall>i\<in>{1..<ENVIRON_NVARS}. \<not> var_at e (chunk i) v"
      using r find_var_None [of e v ?is] by simp
    then have "\<exists>i\<in>set ?is. e (chunk i) = 0" using assms by auto
    then have "ff \<noteq> None" using setenv_scan_full [of e v ?is None] scan r None by auto
    then obtain p where p: "ff = Some p" by blast
    then obtain i where "i \<in> set ?is" "p = chunk i" "e p = 0"
      using setenv_scan_free [of e v ?is None p] scan r None by auto
    then show thesis using that scan None p none by (simp add: setenv_def)
  qed
qed

lemma find_var_at:
  assumes "env_ok e" "env_name v" "j \<in> {1..<ENVIRON_NVARS}" "var_at e (chunk j) v"
  shows "find_var e v [1..<ENVIRON_NVARS] = Some (chunk j)"
proof (cases "find_var e v [1..<ENVIRON_NVARS]")
  case None
  then show ?thesis using find_var_None [of e v "[1..<ENVIRON_NVARS]"] assms by auto
next
  case (Some p)
  then obtain i where "i \<in> {1..<ENVIRON_NVARS}" "p = chunk i" "var_at e (chunk i) v"
    using find_var_Some [of e v "[1..<ENVIRON_NVARS]" p] by auto
  then show ?thesis using assms Some unfolding env_ok_def by blast
qed

lemma bytes_at_cong: "(\<And>a. p \<le> a \<Longrightarrow> a < p + n \<Longrightarrow> e' a = e a) \<Longrightarrow> bytes_at e' p n = bytes_at e p n"
  by (induction n arbitrary: p) auto

lemma bytes_at_string:
  "no_nul s \<Longrightarrow> length s < n \<Longrightarrow> (\<And>i. i \<le> length s \<Longrightarrow> e (p + i) = (s @ [0]) ! i) \<Longrightarrow> bytes_at e p n = s"
proof (induction s arbitrary: p n)
  case Nil
  then show ?case by (cases n) (use Nil(3) [of 0] in auto)
next
  case (Cons c s)
  obtain m where "n = Suc m" using Cons.prems(2) by (cases n) auto
  moreover have "bytes_at e (p + 1) m = s"
  proof (rule Cons.IH)
    show "e (p + 1 + i) = (s @ [0]) ! i" if "i \<le> length s" for i
      using Cons.prems(3) [of "Suc i"] that by simp
  qed (use Cons.prems \<open>n = Suc m\<close> in \<open>auto simp: no_nul_def\<close>)
  ultimately show ?case using Cons.prems(1) Cons.prems(3) [of 0] by (auto simp: no_nul_def)
qed

text \<open>One changed chunk, in which only the name \<open>v\<close> can stand.\<close>

lemma other_chunks:
  assumes "env_name w" "w \<noteq> v" "j \<in> {1..<ENVIRON_NVARS}"
    and "\<And>a. \<not> in_chunk j a \<Longrightarrow> e' a = e a"
    and "\<not> var_at e' (chunk j) w" "\<not> var_at e (chunk j) w"
  shows "env_value e' w = env_value e w"
proof -
  have same: "i \<noteq> j \<Longrightarrow> in_chunk i a \<Longrightarrow> e' a = e a" for i a
    using assms(4) chunks_apart by blast
  then have "var_at e' (chunk i) w = var_at e (chunk i) w" for i
    using var_at_cong [OF _ assms(1), of i e' e] assms(5,6) by (cases "i = j") auto
  then have f: "find_var e' w [1..<ENVIRON_NVARS] = find_var e w [1..<ENVIRON_NVARS]"
    by (intro find_var_cong)
  show ?thesis
  proof (cases "find_var e w [1..<ENVIRON_NVARS]")
    case (Some p)
    then obtain i where i: "p = chunk i" "var_at e (chunk i) w"
      using find_var_Some [of e w "[1..<ENVIRON_NVARS]" p] by auto
    then have "i \<noteq> j" using assms(6) by blast
    have "bytes_at e' (p + length w + 1) (ENVIRON_CHUNK_SIZE - length w - 1) =
        bytes_at e (p + length w + 1) (ENVIRON_CHUNK_SIZE - length w - 1)"
      using assms(1) by (intro bytes_at_cong same [OF \<open>i \<noteq> j\<close>]) (auto simp: in_chunk_def i env_name_def)
    then show ?thesis using f Some by (simp add: env_value_def getenv_def)
  next
    case None
    then show ?thesis using f by (simp add: env_value_def getenv_def)
  qed
qed


lemma env_ok_change:
  assumes ok: "env_ok e" and j: "j \<in> {1..<ENVIRON_NVARS}"
    and out: "\<And>a. \<not> in_chunk j a \<Longrightarrow> e' a = e a"
    and at: "\<And>w i. env_name w \<Longrightarrow> i \<in> {1..<ENVIRON_NVARS} \<Longrightarrow> var_at e' (chunk j) w \<Longrightarrow>
      var_at e (chunk i) w \<Longrightarrow> i = j"
  shows "env_ok e'"
proof -
  have same: "i \<noteq> j \<Longrightarrow> env_name w \<Longrightarrow> var_at e' (chunk i) w = var_at e (chunk i) w" for i w
    using out chunks_apart by (intro var_at_cong) blast+
  show ?thesis
    unfolding env_ok_def
  proof (intro allI impI)
    fix i k w
    assume a: "env_name w \<and> i \<in> {1..<ENVIRON_NVARS} \<and> k \<in> {1..<ENVIRON_NVARS} \<and>
      var_at e' (chunk i) w \<and> var_at e' (chunk k) w"
    then show "i = k"
      using ok same [of i w] same [of k w] at [of w i] at [of w k] unfolding env_ok_def
      by (cases "i = j"; cases "k = j") blast+
  qed
qed

lemma setenv_at:
  assumes "env_ok e" "env_name v" "env_room e v val"
  obtains j where "j \<in> {1..<ENVIRON_NVARS}" "setenv e v val = store_var e (chunk j) v val"
    "\<forall>a. \<not> in_chunk j a \<longrightarrow> setenv e v val a = e a"
    "\<forall>w. env_name w \<and> w \<noteq> v \<longrightarrow> \<not> var_at e (chunk j) w"
    "\<forall>i\<in>{1..<ENVIRON_NVARS}. var_at e (chunk i) v \<longrightarrow> i = j"
proof -
  obtain j where j: "j \<in> {1..<ENVIRON_NVARS}" "setenv e v val = store_var e (chunk j) v val"
    "var_at e (chunk j) v \<or> e (chunk j) = 0 \<and> (\<forall>i\<in>{1..<ENVIRON_NVARS}. \<not> var_at e (chunk i) v)"
    using setenv_target assms(3) unfolding env_room_def by metis
  show thesis
  proof (rule that [OF j(1,2)])
    show "\<forall>a. \<not> in_chunk j a \<longrightarrow> setenv e v val a = e a"
      using assms(3) unfolding j(2) env_room_def by (blast intro: store_in_chunk)
    show "\<forall>w. env_name w \<and> w \<noteq> v \<longrightarrow> \<not> var_at e (chunk j) w"
      using j(3) var_at_unique [OF assms(2)] not_at_free by blast
    show "\<forall>i\<in>{1..<ENVIRON_NVARS}. var_at e (chunk i) v \<longrightarrow> i = j"
      using j(1,3) assms(1,2) unfolding env_ok_def by blast
  qed
qed

lemma setenv_ok: "env_ok e \<Longrightarrow> env_name v \<Longrightarrow> env_room e v val \<Longrightarrow> env_ok (setenv e v val)"
proof -
  assume a: "env_ok e" "env_name v" "env_room e v val"
  obtain j where j: "j \<in> {1..<ENVIRON_NVARS}" "setenv e v val = store_var e (chunk j) v val"
    "\<forall>a. \<not> in_chunk j a \<longrightarrow> setenv e v val a = e a"
    "\<forall>w. env_name w \<and> w \<noteq> v \<longrightarrow> \<not> var_at e (chunk j) w"
    "\<forall>i\<in>{1..<ENVIRON_NVARS}. var_at e (chunk i) v \<longrightarrow> i = j"
    using setenv_at [OF a] .
  show ?thesis
    by (rule env_ok_change [OF a(1) j(1)]) (use j var_at_store [OF a(2)] in auto)
qed

lemma getenv_setenv:
  assumes a: "env_ok e" "env_name v" "env_room e v val" and w: "env_name w"
  shows "env_value (setenv e v val) w = (if w = v then Some val else env_value e w)"
proof -
  obtain j where j: "j \<in> {1..<ENVIRON_NVARS}" "setenv e v val = store_var e (chunk j) v val"
    "\<forall>a. \<not> in_chunk j a \<longrightarrow> setenv e v val a = e a"
    "\<forall>w. env_name w \<and> w \<noteq> v \<longrightarrow> \<not> var_at e (chunk j) w"
    "\<forall>i\<in>{1..<ENVIRON_NVARS}. var_at e (chunk i) v \<longrightarrow> i = j"
    using setenv_at [OF a] .
  show ?thesis
  proof (cases "w = v")
    case True
    have "var_at (setenv e v val) (chunk j) v" unfolding j(2) by (simp add: var_at_store a)
    then have "getenv (setenv e v val) v = Some (chunk j + length v + 1)"
      using find_var_at [OF setenv_ok [OF a] a(2) j(1)] by (simp add: getenv_def)
    moreover have "bytes_at (setenv e v val) (chunk j + length v + 1) (ENVIRON_CHUNK_SIZE - length v - 1) = val"
    proof (rule bytes_at_string)
      show "setenv e v val (chunk j + length v + 1 + i) = (val @ [0]) ! i" if "i \<le> length val" for i
        using that unfolding j(2) by (simp add: store_var_app nth_append)
    qed (use a(3) in \<open>auto simp: env_room_def fits_chunk_def\<close>)
    ultimately show ?thesis using True by (simp add: env_value_def)
  next
    case False
    then show ?thesis
      using other_chunks [OF w False j(1), of "setenv e v val" e] j(3,4) w False var_at_store [OF a(2) w] j(2) by simp
  qed
qed

lemma unsetenv_cases:
  assumes "env_ok e" "env_name v"
  obtains "unsetenv e v = e" "\<forall>i\<in>{1..<ENVIRON_NVARS}. \<not> var_at e (chunk i) v"
  | j where "j \<in> {1..<ENVIRON_NVARS}" "var_at e (chunk j) v" "unsetenv e v = e(chunk j := 0)"
proof (cases "find_var e v [1..<ENVIRON_NVARS]")
  case None
  then show thesis using that(1) find_var_None [of e v "[1..<ENVIRON_NVARS]"] by (simp add: unsetenv_def)
next
  case (Some p)
  then obtain i where "i \<in> {1..<ENVIRON_NVARS}" "p = chunk i" "var_at e (chunk i) v"
    using find_var_Some [of e v "[1..<ENVIRON_NVARS]" p] by auto
  then show thesis using that(2) Some by (simp add: unsetenv_def)
qed

lemma chunk_start: "in_chunk j (chunk j)"
  by (simp add: in_chunk_def ENVIRON_CHUNK_SIZE_def)

lemma unsetenv_ok: "env_ok e \<Longrightarrow> env_name v \<Longrightarrow> env_ok (unsetenv e v)"
proof -
  assume a: "env_ok e" "env_name v"
  show ?thesis
    using a
  proof (cases rule: unsetenv_cases)
    case (2 j)
    have "env_ok (e(chunk j := 0))"
      by (rule env_ok_change [OF a(1) 2(1)]) (use chunk_start not_at_free [of _ "e(chunk j := 0)" "chunk j"] in auto)
    then show ?thesis using 2 by simp
  qed (use a in simp)
qed

lemma getenv_unsetenv:
  assumes a: "env_ok e" "env_name v" and w: "env_name w"
  shows "env_value (unsetenv e v) w = (if w = v then None else env_value e w)"
  using a
proof (cases rule: unsetenv_cases)
  case 1
  then have "find_var e v [1..<ENVIRON_NVARS] = None"
    using find_var_None [of e v "[1..<ENVIRON_NVARS]"] by simp
  then show ?thesis using 1 by (simp add: env_value_def getenv_def)
next
  case (2 j)
  let ?e = "e(chunk j := 0)"
  have none: "\<not> var_at ?e (chunk j) u" if "env_name u" for u using not_at_free [OF that] by simp
  have out: "\<not> in_chunk j b \<Longrightarrow> ?e b = e b" for b using chunk_start [of j] by auto
  show ?thesis
  proof (cases "w = v")
    case True
    have "\<not> var_at ?e (chunk i) v" if "i \<in> {1..<ENVIRON_NVARS}" for i
    proof (cases "i = j")
      case False
      then have "var_at ?e (chunk i) v = var_at e (chunk i) v"
        using out chunks_apart [of i j] by (intro var_at_cong a) blast
      then show ?thesis using 2 a that False unfolding env_ok_def by blast
    qed (use none a in simp)
    then have "find_var ?e v [1..<ENVIRON_NVARS] = None"
      using find_var_None [of ?e v "[1..<ENVIRON_NVARS]"] by simp
    then show ?thesis using True 2 by (simp add: env_value_def getenv_def)
  next
    case False
    then have "\<not> var_at e (chunk j) w" using var_at_unique [OF w a(2)] 2(2) by blast
    then show ?thesis
      using other_chunks [OF w False 2(1) out none [OF w]] False 2(3) by simp
  qed
qed

interpretation milo_env: env_store env_value setenv unsetenv env_ok env_name env_room
  by unfold_locales (simp_all add: setenv_ok unsetenv_ok getenv_setenv getenv_unsetenv)


lemma env_init_blank: "a < ENVIRON_SIZE \<Longrightarrow> env_init e a = 0"
  by (simp add: env_init_def)

lemma chunk_inside: "i < ENVIRON_NVARS \<Longrightarrow> chunk i < ENVIRON_SIZE"
  by (simp add: chunk_def ENVIRON_NVARS_def ENVIRON_SIZE_def ENVIRON_CHUNK_SIZE_def)

lemma env_init_ok: "env_ok (env_init e)"
  using not_at_free [of _ "env_init e"] env_init_blank chunk_inside
  unfolding env_ok_def by (metis atLeastLessThan_iff)

lemma env_init_room: "fits_chunk v val \<Longrightarrow> env_room (env_init e) v val"
  using env_init_blank [OF chunk_inside [of 1]]
  by (auto simp: env_room_def ENVIRON_NVARS_def ENVIRON_SIZE_def ENVIRON_CHUNK_SIZE_def intro!: bexI [of _ 1])

text \<open>
  C32: Setting a variable. In an environment where no name stands twice, when the variable has a
  chunk or one is free and name and value fit it, \<open>getenv\<close> after \<open>setenv\<close> gives the value set,
  every other name keeps its value, and no name stands twice afterwards; two settings of different
  names may be done in either order.
\<close>

theorem setenv_getenv:
  assumes "env_ok e" "env_name v" "env_name w" "env_name u" "env_room e v val"
  shows "env_ok (setenv e v val) \<and>
    env_value (setenv e v val) u = (if u = v then Some val else env_value e u) \<and>
    (v \<noteq> w \<and> env_room e w val' \<and> env_room (setenv e v val) w val' \<and> env_room (setenv e w val') v val \<longrightarrow>
     env_value (setenv (setenv e v val) w val') u = env_value (setenv (setenv e w val') v val) u)"
  using assms milo_env.put_ok [of e v val] milo_env.get_put [of e v val u]
    milo_env.put_comm [of e v w val val' u] by simp

lemma setenv_getenv_witness:
  "env_value (setenv (env_init (\<lambda>_. 0)) [0x41] [0x42, 0x43]) [0x41] = Some [0x42, 0x43]"
proof -
  have "env_room (env_init (\<lambda>_. 0)) [0x41] [0x42, 0x43]"
    by (rule env_init_room) (simp add: fits_chunk_def no_nul_def ENVIRON_CHUNK_SIZE_def)
  then show ?thesis
    using setenv_getenv [OF env_init_ok, of "[0x41]" "[0x41]" "[0x41]" _ "[0x42, 0x43]" "[]"]
    by (simp add: env_name_def no_nul_def ENVIRON_CHUNK_SIZE_def)
qed

text \<open>
  C33: Deleting a variable. After \<open>unsetenv\<close> the name has no value, every other name keeps its own,
  and no name stands twice.
\<close>

theorem unsetenv_getenv:
  assumes "env_ok e" "env_name v" "env_name u"
  shows "env_ok (unsetenv e v) \<and>
    env_value (unsetenv e v) u = (if u = v then None else env_value e u)"
  using assms milo_env.drop_ok [of e v] milo_env.get_drop [of e v u] by simp

lemma unsetenv_getenv_witness: "env_value (unsetenv (env_init (\<lambda>_. 0)) [0x41]) [0x41] = None"
  using unsetenv_getenv [OF env_init_ok, of "[0x41]" "[0x41]"]
  by (simp add: env_name_def no_nul_def ENVIRON_CHUNK_SIZE_def)

text \<open>
  A long value runs into the next chunk. \<open>setenv\<close> does not compare the length of what it stores
  with the chunk: when name, equals sign and value fill 128 bytes or more, the first byte of the next
  variable, or of the memory after the area, is overwritten with a byte of the value or with the
  closing NUL, which deletes that variable.
\<close>

theorem setenv_overruns_chunk:
  assumes "\<exists>i\<in>{1..<ENVIRON_NVARS}. var_at e (chunk i) v \<or> e (chunk i) = 0"
    and "length v < ENVIRON_CHUNK_SIZE" "ENVIRON_CHUNK_SIZE \<le> length v + length val + 1"
  shows "\<exists>j\<in>{1..<ENVIRON_NVARS}. setenv e v val (chunk (j + 1)) = (val @ [0]) ! (ENVIRON_CHUNK_SIZE - 1 - length v)"
proof -
  obtain j where j: "j \<in> {1..<ENVIRON_NVARS}" "setenv e v val = store_var e (chunk j) v val"
    using setenv_target [OF assms(1)] by metis
  have "chunk (j + 1) = chunk j + ENVIRON_CHUNK_SIZE" by (simp add: chunk_def)
  then have "setenv e v val (chunk (j + 1)) = (val @ [0]) ! (ENVIRON_CHUNK_SIZE - 1 - length v)"
    using assms(2,3) unfolding j(2) by (simp add: store_var_app nth_append nth_Cons split: nat.splits)
      (metis diff_Suc_Suc diff_zero diff_diff_left Suc_eq_plus1 plus_1_eq_Suc)
  then show ?thesis using j(1) by blast
qed

lemma setenv_overruns_chunk_witness:
  "\<exists>j\<in>{1..<ENVIRON_NVARS}. setenv (env_init (\<lambda>_. 0)) [0x41] (replicate 127 0x42) (chunk (j + 1)) = 0x42"
  using setenv_overruns_chunk [of "env_init (\<lambda>_. 0)" "[0x41]" "replicate 127 0x42"]
    env_init_room [of "[0x41]" "[]" "\<lambda>_. 0"]
  by (simp add: ENVIRON_CHUNK_SIZE_def env_room_def fits_chunk_def no_nul_def nth_append)

end
