(* ===== verification/Device.thy ===== *)
theory Device
  imports Prelude
begin

text \<open>
  The disk as the file systems see it: \<open>device_read\<close> of \<open>devices.c\<close>, and numbers of several bytes in
  little-endian order; and the components of a path.
\<close>

type_synonym blockdev = "u64 \<Rightarrow> nat \<Rightarrow> u8 list"

definition byte_at :: "u8 list \<Rightarrow> nat \<Rightarrow> u8" where
  "byte_at b i = (if i < length b then b ! i else 0)"

definition le16 :: "u8 list \<Rightarrow> nat \<Rightarrow> u16" where
  "le16 b i = ucast (byte_at b i) OR push_bit 8 (ucast (byte_at b (i + 1)))"

definition le32 :: "u8 list \<Rightarrow> nat \<Rightarrow> u32" where
  "le32 b i = ucast (byte_at b i) OR push_bit 8 (ucast (byte_at b (i + 1))) OR
     push_bit 16 (ucast (byte_at b (i + 2))) OR push_bit 24 (ucast (byte_at b (i + 3)))"

text \<open>\<open>device_read\<close>: the count and the buffer, of which a short read changes the beginning.\<close>

definition device_read :: "blockdev \<Rightarrow> u8 list \<Rightarrow> nat \<Rightarrow> u64 \<Rightarrow> nat \<times> u8 list" where
  "device_read dev buffer sz offset =
     (let d = take sz (dev offset sz) in (length d, d @ drop (length d) buffer))"

text \<open>A disk with the bytes \<open>D\<close>: every read succeeds.\<close>

definition disk :: "(nat \<Rightarrow> u8) \<Rightarrow> blockdev" where
  "disk D off n = map (\<lambda>i. D (unat off + i)) [0..<n]"

lemma device_read_disk [simp]: "device_read (disk D) buf n off = (n, map (\<lambda>i. D (unat off + i)) [0..<n] @ drop n buf)"
  by (simp add: device_read_def disk_def)

subsection \<open>\<open>block_read\<close>\<close>

text \<open>
  The read routine of block devices, in \<open>devices.c\<close>. The kernel's \<open>bread\<close> is an argument, from the number of a block to the
  bytes in memory from its \<open>b_data\<close> on, of which the first \<open>bs\<close> are the block's; so is whether the device has a
  \<open>request_fn\<close>. \<open>read_blocks\<close> is the loop, with the bytes put into the caller's buffer so far. Its numbers are
  \<open>int\<close>s: the block, and the difference between the position and the beginning of the block.
\<close>

type_synonym block_source = "int \<Rightarrow> (nat \<Rightarrow> u8) option"

definition block_at :: "nat \<Rightarrow> nat \<Rightarrow> int" where
  "block_at bs pos = sint (of_nat (pos div bs) :: u32)"

definition offset_at :: "nat \<Rightarrow> nat \<Rightarrow> nat" where
  "offset_at bs pos = unat (word_of_int (int pos - sint (word_of_int (block_at bs pos * int bs) :: u32)) :: u32)"

partial_function (option) read_blocks :: "block_source \<Rightarrow> nat \<Rightarrow> nat \<Rightarrow> nat \<Rightarrow> u8 list \<Rightarrow> u8 list option" where
  "read_blocks bread bs count pos got =
     (if length got < count then
        case bread (block_at bs pos) of
          None \<Rightarrow> Some got
        | Some b \<Rightarrow>
            let sz = (if bs < count - length got then bs else count - length got);
                off = (if got = [] then offset_at bs pos else 0);
                got = got @ map (\<lambda>i. b (off + i)) [0..<sz]
            in if length got = count then Some got else read_blocks bread bs count (pos + sz) got
      else Some got)"

definition block_read :: "bool \<Rightarrow> block_source \<Rightarrow> nat \<Rightarrow> nat \<Rightarrow> nat \<Rightarrow> u8 list option" where
  "block_read request_fn bread bs count pos = (if request_fn then read_blocks bread bs count pos [] else Some [])"

text \<open>The block device as \<open>device_read\<close> uses it.\<close>

definition block_dev :: "block_source \<Rightarrow> nat \<Rightarrow> blockdev" where
  "block_dev bread bs off n = (case block_read True bread bs n (unat off) of Some d \<Rightarrow> d | None \<Rightarrow> [])"

text \<open>The blocks of a disk with the bytes \<open>D\<close>; what lies behind a block in memory is not said.\<close>

definition blocks_of :: "(nat \<Rightarrow> u8) \<Rightarrow> nat \<Rightarrow> nat \<Rightarrow> block_source \<Rightarrow> bool" where
  "blocks_of D bs count bread \<longleftrightarrow> (\<forall>k < count. \<exists>b. bread (int k) = Some b \<and> (\<forall>i < bs. b i = D (k * bs + i)))"

lemma sint_small: "unat b < 2 ^ 31 \<Longrightarrow> sint b = int (unat b)" for b :: u32
proof -
  assume "unat b < 2 ^ 31"
  then have "nat (uint b) < 2 ^ 31" by (simp only: unat_eq_nat_uint)
  then have "uint b < 2 ^ 31" by (simp only: nat_less_iff [OF uint_ge_0] of_nat_power of_nat_numeral)
  moreover have "- (2 ^ 31) \<le> uint b" by (rule order_trans [OF _ uint_ge_0]) simp
  ultimately have "signed_take_bit 31 (uint b) = uint b" by (rule signed_take_bit_int_eq_self [rotated])
  then show ?thesis by (simp add: sint_uint)
qed

lemma sint_of_nat32: "n < 2 ^ 31 \<Longrightarrow> sint (of_nat n :: u32) = int n"
  by (simp add: sint_small unat_of_nat_small)

lemma block_at_div: "pos div bs < 2 ^ 31 \<Longrightarrow> block_at bs pos = int (pos div bs)"
  by (simp add: block_at_def sint_of_nat32)

lemma offset_at_mod:
  assumes "pos div bs < 2 ^ 31" "0 < bs" "bs < 2 ^ 32"
  shows "offset_at bs pos = pos mod bs"
proof -
  let ?f = "word_of_int (block_at bs pos * int bs) :: u32"
  have "int pos = int (pos div bs) * int bs + int (pos mod bs)" by (metis div_mult_mod_eq of_nat_add of_nat_mult)
  then have "(word_of_int (int pos) :: u32) = ?f + of_nat (pos mod bs)"
    by (simp add: block_at_div [OF assms(1)])
  then have "(word_of_int (int pos - sint ?f) :: u32) = of_nat (pos mod bs)" by simp
  moreover have "pos mod bs < 2 ^ 32" using assms(2,3) by (meson mod_less_divisor order_less_trans)
  ultimately show ?thesis by (simp add: offset_at_def unat_of_nat_small)
qed

lemma read_blocks_step:
  assumes "length got < n" "bread (block_at bs pos) = Some b"
    and "sz = (if bs < n - length got then bs else n - length got)" "o' = (if got = [] then offset_at bs pos else 0)"
    and "g = got @ map (\<lambda>i. b (o' + i)) [0..<sz]"
  shows "read_blocks bread bs n pos got = (if length g = n then Some g else read_blocks bread bs n (pos + sz) g)"
  using assms(1,2) by (subst read_blocks.simps) (simp only: option.case Let_def if_True assms(3-5) [symmetric])

lemma read_blocks_disk:
  assumes D: "blocks_of D bs count bread" "0 < bs" "bs < 2 ^ 32" "count \<le> 2 ^ 31" and ok: "off mod bs = 0 \<or> off mod bs + n \<le> bs"
    and within: "off + n \<le> count * bs"
    and got: "r \<le> n" "r = 0 \<or> (off + r) mod bs = 0"
  shows "read_blocks bread bs n (off + r) (map (\<lambda>i. D (off + i)) [0..<r]) = Some (map (\<lambda>i. D (off + i)) [0..<n])"
  using got
proof (induction "n - r" arbitrary: r rule: less_induct)
  case less
  let ?pos = "off + r" and ?got = "map (\<lambda>i. D (off + i)) [0..<r]"
  show ?case
  proof (cases "r = n")
    case False
    then have r: "r < n" using less.prems(1) by simp
    have "?pos < count * bs" using r within by simp
    then have k: "?pos div bs < count" by (simp add: div_less_iff_less_mult D(2))
    then have k31: "?pos div bs < 2 ^ 31" using D(4) by simp
    obtain b where b: "bread (int (?pos div bs)) = Some b" "\<And>i. i < bs \<Longrightarrow> b i = D (?pos div bs * bs + i)"
      using D(1) k unfolding blocks_of_def by blast
    define sz where "sz = (if bs < n - r then bs else n - r)"
    define o' where "o' = (if ?got = [] then offset_at bs ?pos else 0)"
    have o': "o' = ?pos mod bs"
      using less.prems(2) offset_at_mod [OF k31 D(2,3)] by (auto simp: o'_def)
    have sz: "0 < sz" "r + sz \<le> n" "?pos mod bs + sz \<le> bs \<and> (r + sz = n \<or> (?pos + sz) mod bs = 0)"
    proof -
      show "0 < sz" "r + sz \<le> n" using r D(2) by (auto simp: sz_def)
      consider "?pos mod bs = 0" | "r = 0" "off mod bs + n \<le> bs" using less.prems(2) ok by auto
      then show "?pos mod bs + sz \<le> bs \<and> (r + sz = n \<or> (?pos + sz) mod bs = 0)"
      proof cases
        case 1
        then have "(?pos + bs) mod bs = 0" by simp
        then show ?thesis using 1 r by (simp add: sz_def)
      next
        case 2
        then show ?thesis using r by (auto simp: sz_def)
      qed
    qed
    have "b (o' + i) = D (?pos + i)" if "i < sz" for i
    proof -
      have "?pos div bs * bs + (o' + i) = ?pos + i" unfolding o' by (simp only: add.assoc [symmetric] div_mult_mod_eq)
      then show ?thesis using b(2) [of "o' + i"] that sz(3) o' by simp
    qed
    then have "map (\<lambda>i. b (o' + i)) [0..<sz] = map (\<lambda>i. D (off + i)) [r..<r + sz]"
      by (intro nth_equalityI) (simp_all add: add.assoc)
    then have app: "?got @ map (\<lambda>i. b (o' + i)) [0..<sz] = map (\<lambda>i. D (off + i)) [0..<r + sz]"
      by (simp add: upt_add_eq_append [of 0 r sz])
    have step: "read_blocks bread bs n ?pos ?got =
        (if r + sz = n then Some (map (\<lambda>i. D (off + i)) [0..<r + sz])
         else read_blocks bread bs n (off + (r + sz)) (map (\<lambda>i. D (off + i)) [0..<r + sz]))"
    proof -
      have l: "length ?got = r" by simp
      have br: "bread (block_at bs ?pos) = Some b" using b(1) block_at_div [OF k31] by simp
      have s: "sz = (if bs < n - length ?got then bs else n - length ?got)" unfolding l sz_def ..
      have lt: "length ?got < n" unfolding l by (rule r)
      have "read_blocks bread bs n ?pos ?got = (if length (map (\<lambda>i. D (off + i)) [0..<r + sz]) = n
          then Some (map (\<lambda>i. D (off + i)) [0..<r + sz]) else read_blocks bread bs n (?pos + sz) (map (\<lambda>i. D (off + i)) [0..<r + sz]))"
        by (rule read_blocks_step [where bread = bread, OF lt br s o'_def app [symmetric]])
      then show ?thesis by (simp only: length_map length_upt add.assoc minus_nat.diff_0)
    qed
    show ?thesis
    proof (cases "r + sz = n")
      case True
      then show ?thesis using step by simp
    next
      case not: False
      have "n - (r + sz) < n - r" "r + sz = 0 \<or> (off + (r + sz)) mod bs = 0" using r sz not by (auto simp: add.assoc)
      then show ?thesis using less.hyps [of "r + sz"] sz(2) step not by simp
    qed
  qed (simp add: read_blocks.simps)
qed

text \<open>
  C40: \<open>block_read\<close>. A request that starts at the beginning of a block, or does not go beyond the block it starts in, gets
  the bytes of the disk from its offset on, all that were asked for, as on the disk that the theorems on the file systems have.
\<close>

theorem block_read_disk:
  assumes "blocks_of D bs count bread" "0 < bs" "bs < 2 ^ 32" "count \<le> 2 ^ 31" "off mod bs = 0 \<or> off mod bs + n \<le> bs"
    and "off + n \<le> count * bs" "off < 2 ^ 64"
  shows "block_read True bread bs n off = Some (map (\<lambda>i. D (off + i)) [0..<n]) \<and>
    block_dev bread bs (of_nat off) n = disk D (of_nat off) n"
  using read_blocks_disk [OF assms(1-6), of 0] assms(7)
  by (simp add: block_read_def block_dev_def disk_def unat_of_nat_small)

theorem block_read_disk_witness:
  "block_read True (\<lambda>k. Some (\<lambda>i. if i < 512 then of_int (k * 512 + int i) else 0)) 512 700 512 =
     Some (map (\<lambda>i. of_nat (512 + i)) [0..<700])"
proof -
  let ?b = "\<lambda>k. Some (\<lambda>i. if i < 512 then of_int (k * 512 + int i) else 0) :: (nat \<Rightarrow> u8) option"
  have "blocks_of of_nat 512 3 ?b" by (auto simp: blocks_of_def)
  from block_read_disk [OF this, of 512 700] show ?thesis by simp
qed

text \<open>
  A request that starts inside a block and goes beyond its end gets, behind the end of the block, what lies behind the
  buffer in memory.
\<close>

lemma block_read_crosses:
  assumes "bread 0 = Some b" "0 < bs" "bs < 2 ^ 31" "0 < off" "off < bs" "bs - off < n" "n \<le> bs"
  shows "block_read True bread bs n off = Some (map (\<lambda>i. b (off + i)) [0..<n])"
proof -
  have "block_at bs off = 0" "offset_at bs off = off"
    using assms block_at_div [of off bs] offset_at_mod [of off bs] by simp_all
  then show ?thesis using assms by (simp add: block_read_def read_blocks.simps)
qed

subsection \<open>Paths\<close>

text \<open>\<open>strtok (namebuf, "/")\<close> until it ends: the components, empty ones skipped.\<close>

definition SLASH :: u8 where "SLASH = 0x2f"

fun components :: "u8 list \<Rightarrow> u8 list \<Rightarrow> u8 list list" where
  "components acc [] = (if acc = [] then [] else [acc])"
| "components acc (c # cs) =
     (if c = SLASH then (if acc = [] then components [] cs else acc # components [] cs)
      else components (acc @ [c]) cs)"

end
