(* ===== verification/Ext2.thy ===== *)
theory Ext2
  imports Device
begin

text \<open>
  The ext2 file system: \<open>fs/ext2.c\<close>, built without \<open>MILO_SYMLINK_DIRS\<close>. The structures on the disk
  stay the bytes they are, read in little-endian order at the offsets of \<open>fs/ext2.h\<close>. The read routine
  of the device that is open is the argument \<open>dev\<close>: from an offset and a size to the bytes it delivers,
  fewer than asked for when it fails (\<open>Device\<close> has the one of block devices, \<open>block_read\<close>); \<open>device_read\<close>
  of \<open>devices.c\<close> puts them into the buffer. A pointer to an inode is the index of its slot in \<open>inode_table\<close>.
  Sizes and block numbers within a file are natural numbers; the code's \<open>int\<close>s hold them for every
  block size that fits its buffers of 4096 bytes, which it does not check: the theorems have it as a
  condition. A function that does not return or whose further course C leaves open, because it loops,
  follows a null pointer, divides by zero or runs over a buffer on its stack, gives \<open>None\<close>. Messages are
  not modelled.
\<close>

subsection \<open>Structures on the disk\<close>

definition EXT2_SUPER_MAGIC :: u16 where "EXT2_SUPER_MAGIC = 0xEF53"
definition EXT2_MIN_BLOCK_SIZE :: nat where "EXT2_MIN_BLOCK_SIZE = 1024"
definition EXT2_MAX_BLOCK_SIZE :: nat where "EXT2_MAX_BLOCK_SIZE = 4096"
definition EXT2_ROOT_INO :: int where "EXT2_ROOT_INO = 2"
definition EXT2_NDIR_BLOCKS :: nat where "EXT2_NDIR_BLOCKS = 12"
definition EXT2_IND_BLOCK :: nat where "EXT2_IND_BLOCK = 12"
definition EXT2_DIND_BLOCK :: nat where "EXT2_DIND_BLOCK = 13"
definition MAX_OPEN_FILES :: nat where "MAX_OPEN_FILES = 4"
definition sizeof_sb :: nat where "sizeof_sb = 1024"
definition sizeof_gd :: nat where "sizeof_gd = 32"
definition sizeof_inode :: nat where "sizeof_inode = 128"

definition s_blocks_count :: "u8 list \<Rightarrow> u32" where "s_blocks_count sb = le32 sb 4"
definition s_first_data_block :: "u8 list \<Rightarrow> u32" where "s_first_data_block sb = le32 sb 20"
definition s_log_block_size :: "u8 list \<Rightarrow> u32" where "s_log_block_size sb = le32 sb 24"
definition s_blocks_per_group :: "u8 list \<Rightarrow> u32" where "s_blocks_per_group sb = le32 sb 32"
definition s_inodes_per_group :: "u8 list \<Rightarrow> u32" where "s_inodes_per_group sb = le32 sb 40"
definition s_magic :: "u8 list \<Rightarrow> u16" where "s_magic sb = le16 sb 56"

definition bg_inode_table :: "u8 list \<Rightarrow> nat \<Rightarrow> u32" where
  "bg_inode_table gds grp = le32 gds (grp * sizeof_gd + 8)"

definition i_mode :: "u8 list \<Rightarrow> u16" where "i_mode ip = le16 ip 0"
definition i_size :: "u8 list \<Rightarrow> u32" where "i_size ip = le32 ip 4"
definition i_blocks :: "u8 list \<Rightarrow> u32" where "i_blocks ip = le32 ip 28"
definition i_block :: "u8 list \<Rightarrow> nat \<Rightarrow> u32" where "i_block ip n = le32 ip (40 + 4 * n)"

definition S_IFMT :: u16 where "S_IFMT = 0xF000"
definition S_ISDIR :: "u16 \<Rightarrow> bool" where "S_ISDIR m \<longleftrightarrow> m AND S_IFMT = 0x4000"
definition S_ISLNK :: "u16 \<Rightarrow> bool" where "S_ISLNK m \<longleftrightarrow> m AND S_IFMT = 0xA000"

record inode_table_entry =
  inode :: "u8 list"
  inumber :: int
  slot_free :: bool
  old_mode :: u16

record ext2 =
  sb :: "u8 list"
  gds :: "u8 list"
  ngroups :: nat
  blocksize :: nat
  directlim :: nat
  ind1lim :: nat
  ind2lim :: nat
  ptrs_per_blk :: nat
  blkbuf :: "u8 list"
  cached_iblkno :: int
  iblkbuf :: "u8 list"
  cached_diblkno :: int
  diblkbuf :: "u8 list"
  inode_table :: "inode_table_entry list"

subsection \<open>Mounting\<close>

text \<open>
  \<open>EXT2_BLOCK_SIZE\<close>: the shift of an \<open>int\<close>, which loses the bits above.
\<close>

definition EXT2_BLOCK_SIZE :: "u8 list \<Rightarrow> nat" where
  "EXT2_BLOCK_SIZE s = unat (push_bit (unat (s_log_block_size s)) (of_nat EXT2_MIN_BLOCK_SIZE) :: u32)"

text \<open>
  The argument \<open>mem\<close> is what \<open>vmalloc\<close> returns for the group descriptors: nothing, or a block with some bytes. The
  result is the return value, 0 or -1, with the state.
\<close>

definition ext2_mount :: "u8 list option \<Rightarrow> blockdev \<Rightarrow> ext2 \<Rightarrow> (int \<times> ext2) option" where
  "ext2_mount mem dev st =
     (let st = st\<lparr>inode_table := map (\<lambda>e. e\<lparr>slot_free := True, inumber := 0\<rparr>) (inode_table st)\<rparr>;
          sb_offset = EXT2_MIN_BLOCK_SIZE;
          (n, buf) = device_read dev (sb st) sizeof_sb (of_nat sb_offset);
          st = st\<lparr>sb := buf\<rparr> in
      if n \<noteq> sizeof_sb then Some (-1, st)
      else if s_magic (sb st) \<noteq> EXT2_SUPER_MAGIC then Some (-1, st)
      else if s_blocks_per_group (sb st) = 0 then None
      else
        let st = st\<lparr>ngroups := unat ((s_blocks_count (sb st) - s_first_data_block (sb st) +
                     s_blocks_per_group (sb st) - 1) div s_blocks_per_group (sb st))\<rparr> in
        case mem of
          None \<Rightarrow> Some (-1, st\<lparr>gds := []\<rparr>)
        | Some block \<Rightarrow>
            let (n, buf) = device_read dev block (ngroups st * sizeof_gd) (of_nat (sb_offset + sizeof_sb));
                st = st\<lparr>gds := buf\<rparr> in
            if n \<noteq> ngroups st * sizeof_gd then Some (-1, st)
            else
              let bs = EXT2_BLOCK_SIZE (sb st); p = bs div 4; d = EXT2_NDIR_BLOCKS - 1
              in Some (0, st\<lparr>blocksize := bs, directlim := d, ptrs_per_blk := p, ind1lim := p + d,
                             ind2lim := p * p + d\<rparr>))"

subsection \<open>Inodes\<close>

text \<open>The first free slot.\<close>

fun first_free :: "inode_table_entry list \<Rightarrow> nat option" where
  "first_free [] = None"
| "first_free (e # es) = (if slot_free e then Some 0 else map_option Suc (first_free es))"

text \<open>
  Its divisions are by \<open>s_inodes_per_group\<close>: \<open>iget_traps\<close> is the call that divides by zero. A group whose
  descriptor is not in \<open>gds\<close> has the table 0; the theorems have no such group.
\<close>

definition iget_traps :: "ext2 \<Rightarrow> bool" where
  "iget_traps st \<longleftrightarrow> first_free (inode_table st) \<noteq> None \<and> s_inodes_per_group (sb st) = 0"

definition ext2_iget :: "blockdev \<Rightarrow> int \<Rightarrow> ext2 \<Rightarrow> nat option \<times> ext2" where
  "ext2_iget dev ino st =
     (case first_free (inode_table st) of
        None \<Rightarrow> (None, st)
      | Some i \<Rightarrow>
          let n = word_of_int (ino - 1) :: u32;
              grp = unat (n div s_inodes_per_group (sb st));
              offset = of_nat (unat (bg_inode_table (gds st) grp) * blocksize st +
                unat (n mod s_inodes_per_group (sb st)) * sizeof_inode);
              itp = inode_table st ! i;
              (count, buf) = device_read dev (inode itp) sizeof_inode offset;
              itp = itp\<lparr>inode := buf\<rparr> in
          if count \<noteq> sizeof_inode then (None, st\<lparr>inode_table := (inode_table st)[i := itp]\<rparr>)
          else (Some i, st\<lparr>inode_table := (inode_table st)
            [i := itp\<lparr>slot_free := False, inumber := ino, old_mode := i_mode buf\<rparr>]\<rparr>))"

definition ext2_iput :: "nat \<Rightarrow> ext2 \<Rightarrow> ext2" where
  "ext2_iput i st = st\<lparr>inode_table := (inode_table st)
     [i := (inode_table st ! i)\<lparr>inumber := 0, slot_free := True\<rparr>]\<rparr>"

subsection \<open>Blocks of a file\<close>

text \<open>
  The two reads of \<open>ext2_blkno\<close> through the buffers of the last indirect and double indirect
  block: whether the block is in the buffer afterwards, and the state.
\<close>

definition read_iblk :: "blockdev \<Rightarrow> nat \<Rightarrow> ext2 \<Rightarrow> bool \<times> ext2" where
  "read_iblk dev iblkno st =
     (if cached_iblkno st \<noteq> int iblkno then
        let (n, buf) = device_read dev (iblkbuf st) (blocksize st) (of_nat (iblkno * blocksize st));
            st = st\<lparr>iblkbuf := buf\<rparr>
        in if n \<noteq> blocksize st then (False, st) else (True, st\<lparr>cached_iblkno := int iblkno\<rparr>)
      else (True, st))"

definition read_diblk :: "blockdev \<Rightarrow> nat \<Rightarrow> ext2 \<Rightarrow> bool \<times> ext2" where
  "read_diblk dev diblkno st =
     (if cached_diblkno st \<noteq> int diblkno then
        let (n, buf) = device_read dev (diblkbuf st) (blocksize st) (of_nat (diblkno * blocksize st));
            st = st\<lparr>diblkbuf := buf\<rparr>
        in if n \<noteq> blocksize st then (False, st) else (True, st\<lparr>cached_diblkno := int diblkno\<rparr>)
      else (True, st))"

definition ext2_blkno :: "blockdev \<Rightarrow> u8 list \<Rightarrow> nat \<Rightarrow> bool \<Rightarrow> ext2 \<Rightarrow> int \<times> ext2" where
  "ext2_blkno dev ip blkoff allocate st =
     (if allocate then (0, st)
      else if blkoff \<le> directlim st then (sint (i_block ip blkoff), st)
      else if blkoff \<le> ind1lim st then
        let iblkno = unat (i_block ip EXT2_IND_BLOCK) in
        if iblkno = 0 then (0, st)
        else
          let (ok, st) = read_iblk dev iblkno st in
          if \<not> ok then (0, st)
          else (sint (le32 (iblkbuf st) (4 * (blkoff - (directlim st + 1)))), st)
      else if blkoff \<le> ind2lim st then
        let diblkno = unat (i_block ip EXT2_DIND_BLOCK) in
        if diblkno = 0 then (0, st)
        else
          let (ok, st) = read_diblk dev diblkno st in
          if \<not> ok then (0, st)
          else
            let iblkno = unat (le32 (diblkbuf st) (4 * ((blkoff - (ind1lim st + 1)) div ptrs_per_blk st))) in
            if iblkno = 0 then (0, st)
            else
              let (ok, st) = read_iblk dev iblkno st in
              if \<not> ok then (0, st)
              else (sint (le32 (iblkbuf st) (4 * ((blkoff - (ind1lim st + 1)) mod ptrs_per_blk st))), st)
      else (0, st))"

text \<open>The block and the buffer it is read to.\<close>

definition ext2_breadi :: "blockdev \<Rightarrow> u8 list \<Rightarrow> nat \<Rightarrow> u8 list \<Rightarrow> ext2 \<Rightarrow> u8 list \<times> ext2" where
  "ext2_breadi dev ip blkno buffer st =
     (let (dev_blkno, st) = ext2_blkno dev ip blkno False st in
      if dev_blkno = 0 then (replicate (blocksize st) 0 @ drop (blocksize st) buffer, st)
      else
        let (n, buf) = device_read dev buffer (blocksize st) (word_of_int (dev_blkno * int (blocksize st)))
        in (buf, st))"

definition ext2_bread :: "blockdev \<Rightarrow> nat \<Rightarrow> nat \<Rightarrow> u8 list \<Rightarrow> ext2 \<Rightarrow> u8 list \<times> ext2" where
  "ext2_bread dev fd blkno buffer st = ext2_breadi dev (inode (inode_table st ! fd)) blkno buffer st"

definition ext2_fdsize :: "nat \<Rightarrow> ext2 \<Rightarrow> u32" where
  "ext2_fdsize fd st = i_size (inode (inode_table st ! fd))"

subsection \<open>Names\<close>

text \<open>
  The entries of a directory block from \<open>blockoffset\<close> on: the inode number of the component,
  -1 when it is not there. An entry of length 0 repeats for ever.
\<close>

definition entry_matches :: "u8 list \<Rightarrow> nat \<Rightarrow> u8 list \<Rightarrow> bool" where
  "entry_matches blk off component \<longleftrightarrow> unat (byte_at blk (off + 6)) = length component \<and>
     map (\<lambda>i. byte_at blk (off + 8 + i)) [0..<length component] = component"

partial_function (option) scan_block :: "u8 list \<Rightarrow> nat \<Rightarrow> u8 list \<Rightarrow> nat \<Rightarrow> int option" where
  "scan_block blk bs component blockoffset =
     (if blockoffset < bs then
        if entry_matches blk blockoffset component then Some (sint (le32 blk blockoffset))
        else scan_block blk bs component (blockoffset + unat (le16 blk (blockoffset + 4)))
      else Some (-1))"

partial_function (option) search_dir :: "blockdev \<Rightarrow> u8 list \<Rightarrow> u8 list \<Rightarrow> nat \<Rightarrow> ext2 \<Rightarrow> (int \<times> ext2) option" where
  "search_dir dev ip component diroffset st =
     (if diroffset < unat (i_size ip) then
        let (buf, st) = ext2_breadi dev ip (diroffset div blocksize st) (blkbuf st) st;
            st = st\<lparr>blkbuf := buf\<rparr> in
        case scan_block (blkbuf st) (blocksize st) component 0 of
          None \<Rightarrow> None
        | Some next_ino \<Rightarrow>
            if next_ino \<ge> 0 then Some (next_ino, st)
            else search_dir dev ip component (diroffset + blocksize st) st
      else Some (-1, st))"

text \<open>\<open>if (p) ext2_iput (p)\<close>.\<close>

definition put_opt :: "nat option \<Rightarrow> ext2 \<Rightarrow> ext2" where
  "put_opt p st = (case p of Some i \<Rightarrow> ext2_iput i st | None \<Rightarrow> st)"

text \<open>
  The loop over the components: \<open>dir_inode\<close> and \<open>file_inode\<close> when it ends, \<open>None\<close> for a null
  pointer.
\<close>

fun walk :: "blockdev \<Rightarrow> u8 list list \<Rightarrow> ext2 \<Rightarrow> nat option \<Rightarrow> nat option \<Rightarrow>
    (ext2 \<times> nat option \<times> nat option) option" where
  "walk dev [] st dir_inode file_inode = Some (st, dir_inode, file_inode)"
| "walk dev (component # cs) st dir_inode file_inode =
     (let st = put_opt dir_inode st in
      case file_inode of
        None \<Rightarrow> None
      | Some d \<Rightarrow>
          if \<not> S_ISDIR (i_mode (inode (inode_table st ! d))) then Some (st, Some d, None)
          else
            case search_dir dev (inode (inode_table st ! d)) component 0 st of
              None \<Rightarrow> None
            | Some (next_ino, st) \<Rightarrow>
                if next_ino < 0 then Some (st, Some d, None)
                else let (file_inode, st) = ext2_iget dev next_ino st
                     in walk dev cs st (Some d) file_inode)"

text \<open>
  The bytes of a symbolic link: \<open>strncpy\<close> to \<open>namebuf\<close>, at most 255, of a text that ends before the end of the
  structure it is in.
\<close>

definition link_text :: "u8 list \<Rightarrow> u8 list option" where
  "link_text b = (let t = takeWhile (\<lambda>c. c \<noteq> 0) (take 255 b) in
     if length t < length (take 255 b) then Some t else None)"

definition read_link :: "blockdev \<Rightarrow> nat option \<Rightarrow> nat \<Rightarrow> ext2 \<Rightarrow> (u8 list \<times> ext2) option" where
  "read_link dev dir_inode file_inode st =
     (let ip = inode (inode_table st ! file_inode) in
      if i_blocks ip \<noteq> 0 then
        case dir_inode of
          None \<Rightarrow> None
        | Some d \<Rightarrow>
            let (buf, st) = ext2_breadi dev (inode (inode_table st ! d)) 0 (blkbuf st) st
            in map_option (\<lambda>t. (t, st\<lparr>blkbuf := buf\<rparr>)) (link_text buf)
      else map_option (\<lambda>t. (t, st)) (link_text (drop 40 ip)))"

text \<open>
  From the label \<open>rel\<close> on, with \<open>left\<close> the links that may still be followed, 5 less
  \<open>link_count\<close>.
\<close>

fun namei_rel :: "blockdev \<Rightarrow> nat \<Rightarrow> u8 list \<Rightarrow> ext2 \<Rightarrow> nat option \<Rightarrow> nat option \<Rightarrow>
    (nat option \<times> ext2) option" where
  "namei_rel dev left namebuf st dir_inode file_inode =
     (if file_inode = None then Some (None, st)
      else
        case walk dev (components [] namebuf) st dir_inode file_inode of
          None \<Rightarrow> None
        | Some (st, dir_inode, None) \<Rightarrow> Some (None, put_opt dir_inode st)
        | Some (st, dir_inode, Some f) \<Rightarrow>
            if \<not> S_ISLNK (i_mode (inode (inode_table st ! f)))
            then Some (Some f, put_opt dir_inode st)
            else
              (case left of
                 0 \<Rightarrow> Some (Some f, put_opt dir_inode st)
               | Suc left' \<Rightarrow>
                   (case read_link dev dir_inode f st of
                      None \<Rightarrow> None
                    | Some (namebuf, st) \<Rightarrow>
                        let st = ext2_iput f st in
                        if namebuf \<noteq> [] \<and> hd namebuf = SLASH then
                          (case dir_inode of
                             None \<Rightarrow> None
                           | Some d \<Rightarrow>
                               let st = ext2_iput d st;
                                   (file_inode, st) = ext2_iget dev EXT2_ROOT_INO st
                               in namei_rel dev left' namebuf st dir_inode file_inode)
                        else namei_rel dev left' namebuf st dir_inode dir_inode)))"

definition ext2_namei :: "blockdev \<Rightarrow> u8 list \<Rightarrow> ext2 \<Rightarrow> (nat option \<times> ext2) option" where
  "ext2_namei dev name st =
     (if 256 \<le> length name \<or> iget_traps st then None
      else let (file_inode, st) = ext2_iget dev EXT2_ROOT_INO st
           in namei_rel dev 5 name st None file_inode)"

definition ext2_open :: "blockdev \<Rightarrow> u8 list \<Rightarrow> ext2 \<Rightarrow> (int \<times> ext2) option" where
  "ext2_open dev filename st =
     (case ext2_namei dev filename st of
        None \<Rightarrow> None
      | Some (Some i, st) \<Rightarrow> Some (int i, st)
      | Some (None, st) \<Rightarrow> Some (-1, st))"

definition ext2_close :: "nat \<Rightarrow> ext2 \<Rightarrow> ext2" where
  "ext2_close fd st = ext2_iput fd st"

end
