(* ===== verification/Ext2_Blocks.thy ===== *)
theory Ext2_Blocks
  imports Ext2
begin

text \<open>
  Reading files of the ext2 file system: the block map of an inode as the file system means it,
  the contract of a reader that keeps a cache in its state (a locale, interpreted on
  \<open>ext2_bread\<close>), and a small disk image for the examples.
\<close>

subsection \<open>The map of a file's blocks\<close>

definition disk_block :: "blockdev \<Rightarrow> nat \<Rightarrow> nat \<Rightarrow> u8 list" where
  "disk_block dev bs b = take bs (dev (of_nat (b * bs)) bs)"

text \<open>The first \<open>count\<close> blocks of the disk can be read; what a read beyond gives is left open.\<close>

definition reads_ok :: "blockdev \<Rightarrow> nat \<Rightarrow> nat \<Rightarrow> bool" where
  "reads_ok dev bs count \<longleftrightarrow> (\<forall>b < count. length (disk_block dev bs b) = bs)"

definition disk_ptr :: "blockdev \<Rightarrow> nat \<Rightarrow> u32 \<Rightarrow> nat \<Rightarrow> u32" where
  "disk_ptr dev bs b k = le32 (disk_block dev bs (unat b)) (4 * k)"

text \<open>What the file system means by block \<open>n\<close> of a file, with \<open>p\<close> pointers to a block.\<close>

definition file_block :: "blockdev \<Rightarrow> nat \<Rightarrow> u8 list \<Rightarrow> nat \<Rightarrow> u32" where
  "file_block dev bs ip n = (let p = bs div 4 in
     if n < 12 then i_block ip n
     else if n < 12 + p then
       (let b = i_block ip 12 in if b = 0 then 0 else disk_ptr dev bs b (n - 12))
     else if n < 12 + p + p * p then
       (let d = i_block ip 13 in if d = 0 then 0
        else let b = disk_ptr dev bs d ((n - 12 - p) div p) in
          if b = 0 then 0 else disk_ptr dev bs b ((n - 12 - p) mod p))
     else 0)"

text \<open>The blocks that are read to find block \<open>n\<close>, and its own.\<close>

definition map_blocks :: "blockdev \<Rightarrow> nat \<Rightarrow> u8 list \<Rightarrow> nat \<Rightarrow> u32 list" where
  "map_blocks dev bs ip n = (let p = bs div 4 in
     file_block dev bs ip n #
     (if n < 12 then []
      else if n < 12 + p then [i_block ip 12]
      else let d = i_block ip 13 in d # (if d = 0 then [] else [disk_ptr dev bs d ((n - 12 - p) div p)])))"

text \<open>The limits \<open>ext2_mount\<close> leaves, and buffers that hold the blocks they claim to.\<close>

definition limits_ok :: "ext2 \<Rightarrow> bool" where
  "limits_ok st \<longleftrightarrow> blocksize st = 4 * ptrs_per_blk st \<and> 0 < ptrs_per_blk st \<and> directlim st = 11 \<and>
     ind1lim st = ptrs_per_blk st + 11 \<and> ind2lim st = ptrs_per_blk st * ptrs_per_blk st + 11"

definition caches_ok :: "blockdev \<Rightarrow> ext2 \<Rightarrow> bool" where
  "caches_ok dev st \<longleftrightarrow>
     (\<forall>b. cached_iblkno st = int b \<longrightarrow> take (blocksize st) (iblkbuf st) = disk_block dev (blocksize st) b) \<and>
     (\<forall>b. cached_diblkno st = int b \<longrightarrow> take (blocksize st) (diblkbuf st) = disk_block dev (blocksize st) b)"

definition same_but_caches :: "ext2 \<Rightarrow> ext2 \<Rightarrow> bool" where
  "same_but_caches st st' \<longleftrightarrow> blocksize st' = blocksize st \<and> directlim st' = directlim st \<and>
    ind1lim st' = ind1lim st \<and> ind2lim st' = ind2lim st \<and> ptrs_per_blk st' = ptrs_per_blk st \<and>
    inode_table st' = inode_table st \<and> blkbuf st' = blkbuf st \<and> sb st' = sb st \<and> gds st' = gds st \<and>
    ngroups st' = ngroups st"

lemmas same_but_caches_sel = iffD1 [OF same_but_caches_def]

lemma le32_take: "i + 4 \<le> n \<Longrightarrow> le32 (take n b) i = le32 b i"
  by (simp add: le32_def byte_at_def)

lemma device_read_good:
  "length (disk_block dev bs b) = bs \<Longrightarrow> device_read dev buf bs (of_nat (b * bs)) = (bs, disk_block dev bs b @ drop bs buf)"
  by (simp add: device_read_def disk_block_def Let_def)

lemma read_iblk_good:
  assumes "length (disk_block dev (blocksize st) b) = blocksize st" "caches_ok dev st"
  obtains st' where "read_iblk dev b st = (True, st')" "same_but_caches st st'" "caches_ok dev st'"
    "take (blocksize st) (iblkbuf st') = disk_block dev (blocksize st) b"
proof (cases "cached_iblkno st = int b")
  case True
  then show thesis
    using that [of st] assms(2) by (simp add: read_iblk_def same_but_caches_def caches_ok_def)
next
  case False
  note l = assms(1)
  let ?st = "st\<lparr>iblkbuf := disk_block dev (blocksize st) b @ drop (blocksize st) (iblkbuf st), cached_iblkno := int b\<rparr>"
  show thesis
  proof (rule that [of ?st])
    show "read_iblk dev b st = (True, ?st)"
      using False device_read_good [OF l] by (simp add: read_iblk_def Let_def)
    show "caches_ok dev ?st" using assms(2) l by (auto simp: caches_ok_def)
  qed (use l in \<open>simp_all add: same_but_caches_def\<close>)
qed

lemma read_diblk_good:
  assumes "length (disk_block dev (blocksize st) b) = blocksize st" "caches_ok dev st"
  obtains st' where "read_diblk dev b st = (True, st')" "same_but_caches st st'" "caches_ok dev st'"
    "take (blocksize st) (diblkbuf st') = disk_block dev (blocksize st) b"
proof (cases "cached_diblkno st = int b")
  case True
  then show thesis
    using that [of st] assms(2) by (simp add: read_diblk_def same_but_caches_def caches_ok_def)
next
  case False
  note l = assms(1)
  let ?st = "st\<lparr>diblkbuf := disk_block dev (blocksize st) b @ drop (blocksize st) (diblkbuf st), cached_diblkno := int b\<rparr>"
  show thesis
  proof (rule that [of ?st])
    show "read_diblk dev b st = (True, ?st)"
      using False device_read_good [OF l] by (simp add: read_diblk_def Let_def)
    show "caches_ok dev ?st" using assms(2) l by (auto simp: caches_ok_def)
  qed (use l in \<open>simp_all add: same_but_caches_def\<close>)
qed

lemma buf_ptr:
  assumes "take bs buf = disk_block dev bs (unat b)" "bs = 4 * p" "k < p"
  shows "le32 buf (4 * k) = disk_ptr dev bs b k"
proof -
  have "le32 (take bs buf) (4 * k) = le32 buf (4 * k)" using assms by (intro le32_take) simp
  then show ?thesis using assms(1) by (simp add: disk_ptr_def)
qed

lemma caches_trans: "same_but_caches st st' \<Longrightarrow> same_but_caches st' st'' \<Longrightarrow> same_but_caches st st''"
  by (simp add: same_but_caches_def)

lemma blkno_map:
  assumes lim: "limits_ok st" and ok: "caches_ok dev st" and n: "n \<le> ind2lim st"
    and dev: "\<forall>b \<in> set (map_blocks dev (blocksize st) ip n). length (disk_block dev (blocksize st) (unat b)) = blocksize st"
  shows "\<exists>st'. ext2_blkno dev ip n False st = (sint (file_block dev (blocksize st) ip n), st') \<and>
    caches_ok dev st' \<and> same_but_caches st st'"
proof -
  let ?p = "ptrs_per_blk st" and ?bs = "blocksize st"
  have l: "?bs = 4 * ?p" "0 < ?p" "directlim st = 11" "ind1lim st = ?p + 11" "ind2lim st = ?p * ?p + 11"
    "?bs div 4 = ?p"
    using lim by (simp_all add: limits_ok_def)
  have s: "same_but_caches st st" by (simp add: same_but_caches_def)
  consider "n < 12" | "12 \<le> n" "n < 12 + ?p" | "12 + ?p \<le> n" "i_block ip 13 \<noteq> 0" | "12 + ?p \<le> n" "i_block ip 13 = 0" by linarith
  then show ?thesis
  proof cases
    case 1
    then show ?thesis using s ok l by (auto simp: ext2_blkno_def file_block_def Let_def)
  next
    case 2
    obtain st' where st': "read_iblk dev (unat (i_block ip 12)) st = (True, st')" "same_but_caches st st'"
      "caches_ok dev st'" "take ?bs (iblkbuf st') = disk_block dev ?bs (unat (i_block ip 12))"
      using read_iblk_good [OF _ ok, of "unat (i_block ip 12)"] dev 2 l(6) by (auto simp: map_blocks_def Let_def)
    have "le32 (iblkbuf st') (4 * (n - 12)) = disk_ptr dev ?bs (i_block ip 12) (n - 12)"
      using buf_ptr [OF st'(4) l(1)] 2 by simp
    then show ?thesis
      using 2 l st' s ok same_but_caches_sel [OF st'(2)]
      by (auto simp: ext2_blkno_def file_block_def Let_def EXT2_IND_BLOCK_def unat_eq_0)
  next
    case 3
    obtain st1 where st1: "read_diblk dev (unat (i_block ip 13)) st = (True, st1)" "same_but_caches st st1"
      "caches_ok dev st1" "take ?bs (diblkbuf st1) = disk_block dev ?bs (unat (i_block ip 13))"
      using read_diblk_good [OF _ ok, of "unat (i_block ip 13)"] dev 3 l(6) by (auto simp: map_blocks_def Let_def)
    note e1 = same_but_caches_sel [OF st1(2)]
    define k where "k = n - (12 + ?p)"
    have "k < ?p * ?p" using 3 n l by (simp add: k_def)
    then have k: "k div ?p < ?p" "k mod ?p < ?p" using l(2) by (simp_all add: less_mult_imp_div_less)
    define b where "b = disk_ptr dev ?bs (i_block ip 13) (k div ?p)"
    have d: "le32 (diblkbuf st1) (4 * (k div ?p)) = b"
      using buf_ptr [OF st1(4) l(1)] k by (simp add: b_def)
    have "b \<in> set (map_blocks dev ?bs ip n)" using 3 l(6) by (simp add: map_blocks_def Let_def b_def k_def)
    then have "length (disk_block dev (blocksize st1) (unat b)) = blocksize st1" using dev e1 by simp
    from read_iblk_good [OF this st1(3)] obtain st2 where st2: "read_iblk dev (unat b) st1 = (True, st2)" "same_but_caches st1 st2"
      "caches_ok dev st2" "take ?bs (iblkbuf st2) = disk_block dev ?bs (unat b)"
      using e1 by metis
    note e2 = same_but_caches_sel [OF st2(2)]
    have i: "le32 (iblkbuf st2) (4 * (k mod ?p)) = disk_ptr dev ?bs b (k mod ?p)"
      using buf_ptr [OF st2(4) l(1)] k by simp
    have idx: "n - Suc (ind1lim st) = k" "n - (12 + ?p) = k" using 3 l by (simp_all add: k_def)
    have lims: "\<not> n \<le> directlim st" "\<not> n \<le> ind1lim st" "\<not> n < 12" "\<not> n < 12 + ?p" "n < 12 + ?p + ?p * ?p"
      using 3 l n by auto
    have "file_block dev ?bs ip n = (if i_block ip 13 = 0 then 0 else if b = 0 then 0
        else disk_ptr dev ?bs b (k mod ?p))"
      using lims by (simp add: file_block_def Let_def l(6) idx b_def)
    moreover have "ext2_blkno dev ip n False st = (if i_block ip 13 = 0 then (0, st)
        else if b = 0 then (0, st1) else (sint (disk_ptr dev ?bs b (k mod ?p)), st2))"
      using lims n st1(1) st2(1) d i e1 e2
      by (simp add: ext2_blkno_def Let_def EXT2_DIND_BLOCK_def unat_eq_0 idx)
    ultimately show ?thesis
      using s ok st1 st2 caches_trans [OF st1(2) st2(2)] by auto
  next
    case 4
    then have "\<not> n \<le> directlim st" "\<not> n \<le> ind1lim st" using l by auto
    then show ?thesis using 4 n l s ok by (auto simp: ext2_blkno_def file_block_def Let_def EXT2_DIND_BLOCK_def)
  qed
qed


subsection \<open>Reading a file\<close>

text \<open>The contract of a reader of numbered blocks that keeps a cache in its state.\<close>

locale block_reader =
  fixes rd :: "nat \<Rightarrow> 's \<Rightarrow> 'b \<times> 's"
    and ready :: "'s \<Rightarrow> bool"
    and readable :: "'s \<Rightarrow> nat \<Rightarrow> bool"
    and content :: "'s \<Rightarrow> nat \<Rightarrow> 'b"
  assumes rd_content: "ready s \<Longrightarrow> readable s n \<Longrightarrow> fst (rd n s) = content s n"
    and rd_ready: "ready s \<Longrightarrow> readable s n \<Longrightarrow> ready (snd (rd n s))"
    and rd_same: "ready s \<Longrightarrow> readable s n \<Longrightarrow>
      readable (snd (rd n s)) = readable s \<and> content (snd (rd n s)) = content s"
begin

lemma read_any_order:
  assumes "ready s" "\<forall>n\<in>set ns. readable s n"
  shows "fst (in_turn rd ns s) = map (content s) ns \<and> ready (snd (in_turn rd ns s)) \<and>
    content (snd (in_turn rd ns s)) = content s"
  using assms
proof (induction ns arbitrary: s)
  case (Cons n ns)
  let ?s = "snd (rd n s)"
  have r: "ready s" "readable s n" using Cons.prems by auto
  note c = rd_content [OF r] rd_ready [OF r] rd_same [OF r]
  have "fst (in_turn rd ns ?s) = map (content ?s) ns \<and> ready (snd (in_turn rd ns ?s)) \<and>
      content (snd (in_turn rd ns ?s)) = content ?s"
    using Cons.prems c by (intro Cons.IH) auto
  then show ?case using c by (simp add: Let_def split_beta)
qed simp

end

text \<open>
  A mounted disk whose blocks can be read, as many as the superblock says, with blocks that fit the buffers; the blocks
  of an inode within the reach of \<open>ext2_blkno\<close>, whose numbers, and those of the blocks of pointers before them, are on
  the volume and stay positive as an \<open>int\<close>; and what they hold.
\<close>

definition vol_blocks :: "ext2 \<Rightarrow> nat" where
  "vol_blocks st = unat (s_blocks_count (sb st))"

definition mounted :: "blockdev \<Rightarrow> ext2 \<Rightarrow> bool" where
  "mounted dev st \<longleftrightarrow> limits_ok st \<and> blocksize st \<le> EXT2_MAX_BLOCK_SIZE \<and> s_inodes_per_group (sb st) \<noteq> 0 \<and>
     reads_ok dev (blocksize st) (vol_blocks st) \<and> caches_ok dev st"

definition in_reach :: "blockdev \<Rightarrow> u8 list \<Rightarrow> ext2 \<Rightarrow> nat \<Rightarrow> bool" where
  "in_reach dev ip st n \<longleftrightarrow> n \<le> ind2lim st \<and>
     (\<forall>b \<in> set (map_blocks dev (blocksize st) ip n). unat b < vol_blocks st \<and> unat b < 2 ^ 31)"

definition file_content :: "blockdev \<Rightarrow> u8 list \<Rightarrow> ext2 \<Rightarrow> nat \<Rightarrow> u8 list" where
  "file_content dev ip st n = (let b = file_block dev (blocksize st) ip n in
     if b = 0 then replicate (blocksize st) 0 else disk_block dev (blocksize st) (unat b))"

lemma breadi_content:
  assumes m: "mounted dev st" and n: "in_reach dev ip st n"
  obtains st' where "ext2_breadi dev ip n buf st = (file_content dev ip st n @ drop (blocksize st) buf, st')"
    "mounted dev st'" "same_but_caches st st'"
proof -
  let ?b = "file_block dev (blocksize st) ip n"
  have d: "limits_ok st" "caches_ok dev st" "n \<le> ind2lim st"
    "\<forall>b \<in> set (map_blocks dev (blocksize st) ip n). length (disk_block dev (blocksize st) (unat b)) = blocksize st"
    using m n by (auto simp: mounted_def in_reach_def reads_ok_def)
  have mb: "?b \<in> set (map_blocks dev (blocksize st) ip n)" by (simp add: map_blocks_def Let_def)
  obtain st' where st': "ext2_blkno dev ip n False st = (sint ?b, st')" "caches_ok dev st'"
    "same_but_caches st st'"
    using blkno_map [OF d] by blast
  have b: "sint ?b = int (unat ?b)" using n mb by (intro sint_small) (auto simp: in_reach_def)
  have l: "length (disk_block dev (blocksize st) (unat ?b)) = blocksize st" using d(4) mb by blast
  have w: "word_of_int (int (unat ?b) * int (blocksize st)) = (of_nat (unat ?b * blocksize st) :: u64)"
    by simp
  note s = same_but_caches_sel [OF st'(3)]
  have "ext2_breadi dev ip n buf st = (file_content dev ip st n @ drop (blocksize st) buf, st')"
  proof (cases "?b = 0")
    case True
    then show ?thesis using st'(1) s by (simp add: ext2_breadi_def file_content_def)
  next
    case False
    then have nz: "int (unat ?b) \<noteq> 0" by (metis unat_eq_0 of_nat_0_eq_iff)
    then show ?thesis
      using False st'(1) s device_read_good [OF l, of buf]
      by (simp only: ext2_breadi_def file_content_def b w Let_def split_beta prod.sel if_False s simp_thms)
  qed
  moreover have "mounted dev st'"
    using m st'(2) s unfolding mounted_def limits_ok_def vol_blocks_def by metis
  ultimately show thesis using that st'(3) by blast
qed


lemma bread_content:
  assumes "mounted dev st" "in_reach dev (inode (inode_table st ! fd)) st n"
  obtains st' where "ext2_bread dev fd n buf st =
      (file_content dev (inode (inode_table st ! fd)) st n @ drop (blocksize st) buf, st')"
    "mounted dev st'" "same_but_caches st st'"
  using breadi_content [OF assms, of buf] by (auto simp: ext2_bread_def)

text \<open>Reads through an open file keep the contract: the caches never change what is read.\<close>

interpretation open_file: block_reader "\<lambda>n. ext2_bread dev fd n buf" "mounted dev"
    "\<lambda>st. in_reach dev (inode (inode_table st ! fd)) st"
    "\<lambda>st n. file_content dev (inode (inode_table st ! fd)) st n @ drop (blocksize st) buf"
  for dev fd buf
proof
  fix st n
  assume "mounted dev st" "in_reach dev (inode (inode_table st ! fd)) st n"
  then obtain st' where st': "ext2_bread dev fd n buf st =
      (file_content dev (inode (inode_table st ! fd)) st n @ drop (blocksize st) buf, st')"
    "mounted dev st'" "same_but_caches st st'"
    using bread_content by metis
  show "fst (ext2_bread dev fd n buf st) = file_content dev (inode (inode_table st ! fd)) st n @ drop (blocksize st) buf"
    using st' by simp
  show "mounted dev (snd (ext2_bread dev fd n buf st))" using st' by simp
  show "in_reach dev (inode (inode_table (snd (ext2_bread dev fd n buf st)) ! fd)) (snd (ext2_bread dev fd n buf st)) =
      in_reach dev (inode (inode_table st ! fd)) st \<and>
    (\<lambda>k. file_content dev (inode (inode_table (snd (ext2_bread dev fd n buf st)) ! fd))
        (snd (ext2_bread dev fd n buf st)) k @ drop (blocksize (snd (ext2_bread dev fd n buf st))) buf) =
      (\<lambda>k. file_content dev (inode (inode_table st ! fd)) st k @ drop (blocksize st) buf)"
    using st' same_but_caches_sel [OF st'(3)] by (simp add: fun_eq_iff in_reach_def file_content_def vol_blocks_def Let_def)
qed

lemma EXT2_BLOCK_SIZE_bounds:
  assumes "unat (s_log_block_size s) \<le> 2"
  shows "EXT2_BLOCK_SIZE s = 4 * (EXT2_BLOCK_SIZE s div 4)" "1024 \<le> EXT2_BLOCK_SIZE s" "EXT2_BLOCK_SIZE s \<le> 4096"
proof -
  have "unat (s_log_block_size s) \<in> {0, 1, 2}" using assms by auto
  then have "EXT2_BLOCK_SIZE s \<in> {1024, 2048, 4096}" by (auto simp: EXT2_BLOCK_SIZE_def EXT2_MIN_BLOCK_SIZE_def)
  then show "EXT2_BLOCK_SIZE s = 4 * (EXT2_BLOCK_SIZE s div 4)" "1024 \<le> EXT2_BLOCK_SIZE s" "EXT2_BLOCK_SIZE s \<le> 4096" by auto
qed

lemma mount_ok:
  assumes "ext2_mount mem dev st0 = Some (0, st)"
  shows "blocksize st = EXT2_BLOCK_SIZE (sb st) \<and> directlim st = 11 \<and> ptrs_per_blk st = blocksize st div 4 \<and>
    ind1lim st = ptrs_per_blk st + 11 \<and> ind2lim st = ptrs_per_blk st * ptrs_per_blk st + 11 \<and>
    cached_iblkno st = cached_iblkno st0 \<and> cached_diblkno st = cached_diblkno st0 \<and>
    iblkbuf st = iblkbuf st0 \<and> diblkbuf st = diblkbuf st0 \<and> map inode (inode_table st) = map inode (inode_table st0) \<and>
    (\<forall>e\<in>set (inode_table st). slot_free e)"
  using assms
  by (auto simp: ext2_mount_def Let_def EXT2_NDIR_BLOCKS_def split: prod.splits if_splits option.splits)

lemma mount_limits:
  assumes "ext2_mount mem dev st0 = Some (0, st)" "unat (s_log_block_size (sb st)) \<le> 2"
  shows "limits_ok st" "blocksize st \<le> EXT2_MAX_BLOCK_SIZE"
  using mount_ok [OF assms(1)] EXT2_BLOCK_SIZE_bounds [OF assms(2)]
  by (simp_all add: limits_ok_def EXT2_MAX_BLOCK_SIZE_def)

lemma mount_mounted:
  assumes "ext2_mount mem dev st0 = Some (0, st)" "cached_iblkno st0 = -1" "cached_diblkno st0 = -1"
    and "unat (s_log_block_size (sb st)) \<le> 2" "s_inodes_per_group (sb st) \<noteq> 0" "reads_ok dev (blocksize st) (vol_blocks st)"
  shows "mounted dev st"
  using mount_ok [OF assms(1)] mount_limits [OF assms(1,4)] assms by (simp add: mounted_def caches_ok_def)

text \<open>A disk whose every byte is known, and the state before the first mount.\<close>

definition image_dev :: "(nat \<Rightarrow> u8) \<Rightarrow> blockdev" where
  "image_dev img off sz = map (\<lambda>i. img (unat off + i)) [0..<sz]"

definition slot0 :: inode_table_entry where
  "slot0 = \<lparr>inode = (replicate 128 0)[40 := 5], inumber = 0, slot_free = True, old_mode = 0\<rparr>"

definition boot_state :: ext2 where
  "boot_state = \<lparr>sb = replicate 1024 0, gds = [], ngroups = 0, blocksize = 0, directlim = 0, ind1lim = 0,
     ind2lim = 0, ptrs_per_blk = 0, blkbuf = replicate 4096 0, cached_iblkno = -1, iblkbuf = replicate 4096 0,
     cached_diblkno = -1, diblkbuf = replicate 4096 0, inode_table = [slot0, slot0, slot0, slot0]\<rparr>"

text \<open>
  A small image: a superblock, a group descriptor, the inodes 2 (the root directory), 3 (a symbolic
  link \<open>l\<close> to \<open>t\<close>) and 4 (the file \<open>t\<close>), and the root's block 5.
\<close>

definition small_bytes :: "(nat \<times> u8) list" where
  "small_bytes = [(1028, 8), (1056, 8), (1064, 16), (1080, 0x53), (1081, 0xEF), (2056, 3),
     (3200, 0xED), (3201, 0x41), (3205, 4), (3240, 5), (3328, 0xFF), (3329, 0xA1), (3368, 0x74),
     (3456, 0xA4), (3457, 0x81), (5120, 3), (5124, 12), (5126, 1), (5128, 0x6C), (5132, 4),
     (5136, 0xF4), (5137, 3), (5138, 1), (5140, 0x74)]"

definition small_image :: "nat \<Rightarrow> u8" where
  "small_image a = (case map_of small_bytes a of Some v \<Rightarrow> v | None \<Rightarrow> 0)"

lemma image_reads: "reads_ok (image_dev img) bs count"
  by (simp add: reads_ok_def disk_block_def image_dev_def)

lemma byte_at_image0: "i < sz \<Longrightarrow> byte_at (image_dev img off sz) i = img (unat off + i)"
  by (simp add: byte_at_def image_dev_def)

lemma byte_at_image: "i < sz \<Longrightarrow> byte_at (image_dev img off sz @ rest) i = img (unat off + i)"
  by (simp add: byte_at_def image_dev_def nth_append)

lemma image_read: "device_read (image_dev img) buf sz off = (sz, image_dev img off sz @ drop sz buf)"
  by (simp add: device_read_def image_dev_def)

lemmas small_simps = image_read Let_def s_magic_def s_blocks_count_def s_first_data_block_def
  s_blocks_per_group_def s_inodes_per_group_def s_log_block_size_def le16_def le32_def byte_at_image
  sizeof_sb_def sizeof_gd_def sizeof_inode_def EXT2_MIN_BLOCK_SIZE_def EXT2_NDIR_BLOCKS_def
  EXT2_SUPER_MAGIC_def EXT2_BLOCK_SIZE_def small_image_def small_bytes_def boot_state_def

definition small_state :: ext2 where
  "small_state = snd (the (ext2_mount (Some []) (image_dev small_image) boot_state))"

lemma mount_small: "ext2_mount (Some []) (image_dev small_image) boot_state = Some (0, small_state)"
  unfolding small_state_def by (simp add: ext2_mount_def small_simps)

lemma small_state_sel:
  "blocksize small_state = 1024" "directlim small_state = 11" "ind1lim small_state = 267"
  "ind2lim small_state = 65547"
  "inode_table small_state = [slot0, slot0, slot0, slot0]" "sb small_state = image_dev small_image 1024 1024"
  "gds small_state = image_dev small_image 2048 32" "blkbuf small_state = replicate 4096 0"
  by (simp_all add: small_state_def ext2_mount_def small_simps slot0_def)

lemma small_mounted: "mounted (image_dev small_image) small_state"
proof (rule mount_mounted [OF mount_small])
  show "cached_iblkno boot_state = -1" "cached_diblkno boot_state = -1" by (simp_all add: boot_state_def)
  show "unat (s_log_block_size (sb small_state)) \<le> 2" "s_inodes_per_group (sb small_state) \<noteq> 0"
    by (simp_all add: small_state_sel s_log_block_size_def s_inodes_per_group_def le32_def byte_at_image0 small_image_def small_bytes_def)
qed (rule image_reads)

lemma small_vol_blocks: "vol_blocks small_state = 8"
  by (simp add: vol_blocks_def small_state_sel s_blocks_count_def le32_def byte_at_image0 small_image_def small_bytes_def)

text \<open>
  What the reach leaves out: the last \<open>ptrs_per_blk\<close> blocks that the double indirect block maps
  read as zeros, because \<open>ind2lim\<close> leaves out the blocks of the indirect block before them.
\<close>

lemma double_indirect_tail:
  assumes "limits_ok st" "ind2lim st < n"
  shows "ext2_breadi dev ip n buf st = (replicate (blocksize st) 0 @ drop (blocksize st) buf, st)"
proof -
  have "directlim st < n" "ind1lim st < n"
    using assms le_square [of "ptrs_per_blk st"] unfolding limits_ok_def by linarith+
  then show ?thesis using assms(2) by (simp add: ext2_breadi_def ext2_blkno_def)
qed

lemma double_indirect_tail_mapped:
  "ind2lim st < n \<Longrightarrow> n < 12 + 256 + 256 * 256 \<Longrightarrow> limits_ok st \<Longrightarrow> ptrs_per_blk st = 256 \<Longrightarrow>
   file_block (\<lambda>off sz. replicate sz 1) (blocksize st) (replicate 128 1) n = 0x01010101"
  by (simp add: file_block_def limits_ok_def disk_ptr_def disk_block_def i_block_def le32_def byte_at_def
      div_less_iff_less_mult)

text \<open>
  A second mount reads through the buffers of the first. \<open>ext2_mount\<close> does not forget the
  indirect block it has read, so when a file of the disk mounted next has its indirect block at
  the same place, its blocks are those of the old disk's, whatever the new disk holds.
\<close>

theorem remount_stale_blocks:
  assumes "ext2_mount mem dev st0 = Some (0, st)" "0 < blocksize st" and "i_block ip 12 = b" "b \<noteq> 0"
    and "cached_iblkno st0 = int (unat b)" and "12 \<le> n" "n \<le> ind1lim st"
  shows "ext2_blkno dev ip n False st = (sint (le32 (iblkbuf st0) (4 * (n - 12))), st)"
  using mount_ok [OF assms(1)] assms(2-)
  by (simp add: ext2_blkno_def EXT2_IND_BLOCK_def read_iblk_def unat_eq_0)

end
