(* ===== verification/Ext2_Slots.thy ===== *)
theory Ext2_Slots
  imports Ext2_Blocks
begin

text \<open>
  The table of open inodes: the contract of a table of slots as a locale, interpreted on
  \<open>ext2_iget\<close> and \<open>ext2_iput\<close>.
\<close>

subsection \<open>Handles\<close>

text \<open>
  The contract of a table of slots: opening takes a slot that is not in use, closing gives it back,
  and neither touches the others.
\<close>

locale slots =
  fixes get :: "'k \<Rightarrow> 's \<Rightarrow> nat option \<times> 's"
    and put :: "nat \<Rightarrow> 's \<Rightarrow> 's"
    and used :: "'s \<Rightarrow> nat set"
    and slot :: "'s \<Rightarrow> nat \<Rightarrow> 'v"
    and val :: "'s \<Rightarrow> 'k \<Rightarrow> 'v"
  assumes get_fresh: "get k s = (Some i, s') \<Longrightarrow> i \<notin> used s \<and> used s' = insert i (used s) \<and> slot s' i = val s k"
    and get_none: "get k s = (None, s') \<Longrightarrow> used s' = used s"
    and get_frame: "get k s = (r, s') \<Longrightarrow> j \<in> used s \<Longrightarrow> slot s' j = slot s j"
    and get_val: "get k s = (r, s') \<Longrightarrow> val s' = val s"
    and put_used: "used (put i s) = used s - {i}"
    and put_slot: "j \<noteq> i \<Longrightarrow> slot (put i s) j = slot s j"
begin

lemma get_all_val: "val (snd (in_turn get ks s)) = val s"
proof (induction ks arbitrary: s)
  case (Cons k ks)
  obtain i s1 where g: "get k s = (i, s1)" by fastforce
  show ?case using Cons.IH [of s1] get_val [OF g] g by (simp add: split_beta Let_def)
qed simp

lemma get_all_kept:
  "used s \<subseteq> used (snd (in_turn get ks s)) \<and> (\<forall>j\<in>used s. slot (snd (in_turn get ks s)) j = slot s j)"
proof (induction ks arbitrary: s)
  case (Cons k ks)
  obtain i s1 where g: "get k s = (i, s1)" by fastforce
  have "used s \<subseteq> used s1" using get_fresh get_none g by (cases i) fastforce+
  then show ?case using Cons.IH [of s1] get_frame [OF g] g by (fastforce simp: split_beta Let_def)
qed simp

lemma get_all_handles:
  assumes "in_turn get ks s = (map Some is, s')"
  shows "distinct is \<and> set is \<inter> used s = {} \<and> used s' = set is \<union> used s \<and>
    map (slot s') is = map (val s) ks"
  using assms
proof (induction ks arbitrary: s "is")
  case (Cons k ks)
  obtain i s1 where g: "get k s = (i, s1)" by fastforce
  obtain js s2 where a: "in_turn get ks s1 = (js, s2)" by fastforce
  obtain i0 is0 where i: "is = i0 # is0" "i = Some i0" "js = map Some is0" "s' = s2"
    using Cons.prems g a by (cases "is") (auto simp: Let_def)
  note IH = Cons.IH [OF a [unfolded i(3), folded i(4)]]
  have f: "i0 \<notin> used s" "used s1 = insert i0 (used s)" "slot s1 i0 = val s k"
    using get_fresh [OF g [unfolded i(2)]] by auto
  have "slot s2 i0 = val s k" using get_all_kept [of s1 ks] a f by auto
  then show ?case using IH f i get_val [OF g] by auto
qed (auto simp: Let_def)

end


definition open_slots :: "ext2 \<Rightarrow> nat set" where
  "open_slots st = {i. i < length (inode_table st) \<and> \<not> slot_free (inode_table st ! i)}"

definition slot_inode :: "ext2 \<Rightarrow> nat \<Rightarrow> u8 list" where
  "slot_inode st i = take sizeof_inode (inode (inode_table st ! i))"

text \<open>The bytes of an inode on the disk, by the superblock and the group descriptors in memory.\<close>

definition disk_inode :: "blockdev \<Rightarrow> ext2 \<Rightarrow> int \<Rightarrow> u8 list" where
  "disk_inode dev st ino =
     (let n = word_of_int (ino - 1) :: u32; per = s_inodes_per_group (sb st) in
      take sizeof_inode (dev (of_nat (unat (bg_inode_table (gds st) (unat (n div per))) * blocksize st +
        unat (n mod per) * sizeof_inode)) sizeof_inode))"

lemma first_free_Some: "first_free es = Some i \<longleftrightarrow> i < length es \<and> slot_free (es ! i) \<and> (\<forall>j<i. \<not> slot_free (es ! j))"
proof (induction es arbitrary: i)
  case (Cons e es)
  show ?case
    by (cases i) (auto simp: Cons.IH less_Suc_eq_0_disj nth_Cons split: nat.splits)
qed simp

lemma first_free_None: "first_free es = None \<longleftrightarrow> (\<forall>i<length es. \<not> slot_free (es ! i))"
proof (induction es)
  case (Cons e es)
  show ?case by (auto simp: Cons.IH less_Suc_eq_0_disj)
qed simp

lemma iget_eq:
  "first_free (inode_table st) = Some i \<Longrightarrow> ext2_iget dev ino st =
     (let d = disk_inode dev st ino; buf = d @ drop (length d) (inode (inode_table st ! i)); e = inode_table st ! i in
      if length d \<noteq> sizeof_inode then (None, st\<lparr>inode_table := (inode_table st)[i := e\<lparr>inode := buf\<rparr>]\<rparr>)
      else (Some i, st\<lparr>inode_table := (inode_table st)
        [i := e\<lparr>inode := buf, slot_free := False, inumber := ino, old_mode := i_mode buf\<rparr>]\<rparr>))"
  by (simp only: ext2_iget_def disk_inode_def device_read_def Let_def split_beta prod.sel option.case)

lemma iget_cases:
  assumes "ext2_iget dev ino st = (r, st')"
  obtains (full) "first_free (inode_table st) = None" "r = None" "st' = st"
    | (short) i buf where "first_free (inode_table st) = Some i" "r = None"
        "st' = st\<lparr>inode_table := (inode_table st)[i := (inode_table st ! i)\<lparr>inode := buf\<rparr>]\<rparr>"
        "length (disk_inode dev st ino) \<noteq> sizeof_inode"
    | (got) i e where "first_free (inode_table st) = Some i" "r = Some i"
        "st' = st\<lparr>inode_table := (inode_table st)[i := e]\<rparr>" "\<not> slot_free e"
        "take sizeof_inode (inode e) = disk_inode dev st ino" "inumber e = ino"
        "length (disk_inode dev st ino) = sizeof_inode"
        "inode e = disk_inode dev st ino @ drop sizeof_inode (inode (inode_table st ! i))"
proof (cases "first_free (inode_table st)")
  case None
  then have "r = None" "st' = st" using assms by (simp_all add: ext2_iget_def)
  then show thesis using full None by blast
next
  case (Some i)
  let ?d = "disk_inode dev st ino"
  let ?buf = "?d @ drop (length ?d) (inode (inode_table st ! i))"
  show thesis
  proof (cases "length ?d = sizeof_inode")
    case True
    let ?e = "(inode_table st ! i)\<lparr>inode := ?buf, slot_free := False, inumber := ino, old_mode := i_mode ?buf\<rparr>"
    have "ext2_iget dev ino st = (Some i, st\<lparr>inode_table := (inode_table st)[i := ?e]\<rparr>)"
      by (simp only: iget_eq [OF Some] Let_def True not_True_eq_False if_False simp_thms)
    from trans [OF assms [symmetric] this] have "r = Some i" "st' = st\<lparr>inode_table := (inode_table st)[i := ?e]\<rparr>"
      by (simp_all only: prod.inject)
    then show thesis using got [of i ?e] Some True by simp
  next
    case False
    have "ext2_iget dev ino st = (None, st\<lparr>inode_table := (inode_table st)[i := (inode_table st ! i)\<lparr>inode := ?buf\<rparr>]\<rparr>)"
      by (simp only: iget_eq [OF Some] Let_def False not_False_eq_True if_True simp_thms)
    from trans [OF assms [symmetric] this]
    have "r = None" "st' = st\<lparr>inode_table := (inode_table st)[i := (inode_table st ! i)\<lparr>inode := ?buf\<rparr>]\<rparr>"
      by (simp_all only: prod.inject)
    then show thesis using short Some False by blast
  qed
qed

interpretation inodes: slots "ext2_iget dev" ext2_iput open_slots slot_inode "disk_inode dev" for dev
proof
  fix ino st i st'
  assume g: "ext2_iget dev ino st = (Some i, st')"
  show "i \<notin> open_slots st \<and> open_slots st' = insert i (open_slots st) \<and> slot_inode st' i = disk_inode dev st ino"
    using g by (cases rule: iget_cases)
      (auto simp: open_slots_def slot_inode_def first_free_Some nth_list_update split: if_splits)
next
  fix ino st st'
  assume g: "ext2_iget dev ino st = (None, st')"
  show "open_slots st' = open_slots st"
    using g by (cases rule: iget_cases) (auto simp: open_slots_def first_free_Some nth_list_update split: if_splits)
next
  fix ino st r st' j
  assume g: "ext2_iget dev ino st = (r, st')" and "j \<in> open_slots st"
  then show "slot_inode st' j = slot_inode st j"
    by (cases rule: iget_cases) (auto simp: open_slots_def slot_inode_def first_free_Some nth_list_update)
next
  fix ino st r st'
  assume g: "ext2_iget dev ino st = (r, st')"
  show "disk_inode dev st' = disk_inode dev st"
    using g by (cases rule: iget_cases) (simp_all add: fun_eq_iff disk_inode_def)
next
  fix i st
  show "open_slots (ext2_iput i st) = open_slots st - {i}"
    by (cases "i < length (inode_table st)")
      (auto simp: open_slots_def ext2_iput_def nth_list_update list_update_beyond split: if_splits)
next
  fix j i :: nat and st
  assume "j \<noteq> i"
  then show "slot_inode (ext2_iput i st) j = slot_inode st j"
    by (simp add: slot_inode_def ext2_iput_def)
qed


lemma iget_progress:
  assumes "length (disk_inode dev st ino) = sizeof_inode"
  shows "fst (ext2_iget dev ino st) \<noteq> None \<longleftrightarrow> open_slots st \<noteq> {..<length (inode_table st)}"
proof -
  obtain r st' where g: "ext2_iget dev ino st = (r, st')" by fastforce
  have "first_free (inode_table st) = None \<longleftrightarrow> open_slots st = {..<length (inode_table st)}"
    by (auto simp: first_free_None open_slots_def)
  then show ?thesis using g assms by (cases rule: iget_cases [OF g]) auto
qed

text \<open>
  C35: Handles. Inodes opened one after the other get slots that are different from each other and
  from every slot in use, each slot holds the 128 bytes of its inode on the disk, the slots in use
  are those and the earlier ones, closing one frees exactly it, and as long as an inode can be read
  it is refused only when every slot is in use.
\<close>

theorem inode_handles:
  assumes "in_turn (ext2_iget dev) inos st = (map Some is, st')"
  shows "distinct is \<and> set is \<inter> open_slots st = {} \<and> open_slots st' = set is \<union> open_slots st \<and>
    map (slot_inode st') is = map (disk_inode dev st) inos \<and>
    (\<forall>i. open_slots (ext2_iput i st') = open_slots st' - {i}) \<and>
    (\<forall>ino. length (disk_inode dev st' ino) = sizeof_inode \<longrightarrow>
       fst (ext2_iget dev ino st') \<noteq> None \<or> open_slots st' = {..<length (inode_table st')})"
  using inodes.get_all_handles [OF assms] inodes.put_used iget_progress by blast

lemma iget_got:
  assumes "first_free (inode_table st) = Some i" "length (disk_inode dev st ino) = sizeof_inode"
  obtains e where "ext2_iget dev ino st = (Some i, st\<lparr>inode_table := (inode_table st)[i := e]\<rparr>)"
    "\<not> slot_free e" "take sizeof_inode (inode e) = disk_inode dev st ino"
proof -
  obtain r st' where g: "ext2_iget dev ino st = (r, st')" by fastforce
  show thesis
  using g proof (cases rule: iget_cases)
    case (got j e)
    then show ?thesis using g assms(1) that [of e] by simp
  qed (use assms in simp_all)
qed

lemma length_disk_inode_image: "length (disk_inode (image_dev img) st n) = sizeof_inode"
  by (simp add: disk_inode_def image_dev_def Let_def)

lemma inode_handles_witness:
  "\<exists>is st'. in_turn (ext2_iget (image_dev small_image)) [2, 3] small_state = (map Some is, st') \<and>
     distinct is \<and> length is = 2 \<and> open_slots st' = set is"
proof -
  let ?dev = "image_dev small_image"
  have f: "slot_free slot0" by (simp add: slot0_def)
  obtain e0 where 0: "ext2_iget ?dev 2 small_state = (Some 0, small_state\<lparr>inode_table := [e0, slot0, slot0, slot0]\<rparr>)"
    "\<not> slot_free e0"
    using iget_got [of small_state 0 ?dev 2] f by (auto simp: small_state_sel length_disk_inode_image)
  obtain e1 where 1: "ext2_iget ?dev 3 (small_state\<lparr>inode_table := [e0, slot0, slot0, slot0]\<rparr>) =
      (Some 1, small_state\<lparr>inode_table := [e0, e1, slot0, slot0]\<rparr>)"
    using iget_got [of "small_state\<lparr>inode_table := [e0, slot0, slot0, slot0]\<rparr>" 1 ?dev 3] f 0(2)
    by (auto simp: length_disk_inode_image)
  obtain st' where st': "in_turn (ext2_iget ?dev) [2, 3] small_state = (map Some [0, 1], st')"
    using 0 1 by simp
  have "open_slots small_state = {}" using f by (auto simp: open_slots_def small_state_sel nth_Cons split: nat.splits)
  then show ?thesis using inode_handles [OF st'] st' by (intro exI [of _ "[0, 1]"]) auto
qed

end
