(* ===== verification/Ext2_Names.thy ===== *)
theory Ext2_Names
  imports Ext2_Slots
begin

text \<open>
  Names: the search of a directory as the lookup in an association list, and the walk along a path.
\<close>

subsection \<open>Directory blocks\<close>

text \<open>
  The offsets of the entries of a block, and whether the chain ends in an entry of length 0.
\<close>

function dir_entries :: "u8 list \<Rightarrow> nat \<Rightarrow> nat \<Rightarrow> nat list \<times> bool" where
  "dir_entries blk bs off =
     (if off < bs then
        let rec_len = unat (le16 blk (off + 4)) in
        if rec_len = 0 then ([off], True)
        else let (os, stuck) = dir_entries blk bs (off + rec_len) in (off # os, stuck)
      else ([], False))"
  by pat_completeness auto
termination by (relation "measure (\<lambda>(blk, bs, off). bs - off)") auto

declare dir_entries.simps [simp del]

definition entry_name :: "u8 list \<Rightarrow> nat \<Rightarrow> u8 list" where
  "entry_name blk off = map (\<lambda>i. byte_at blk (off + 8 + i)) [0..<unat (byte_at blk (off + 6))]"

lemma entry_matches_name: "entry_matches blk off c \<longleftrightarrow> entry_name blk off = c"
  by (auto simp: entry_matches_def entry_name_def)

lemma scan_block_stuck:
  "scan_block blk bs c off = Some r \<Longrightarrow>
   \<not> (off < bs \<and> le16 blk (off + 4) = 0 \<and> \<not> entry_matches blk off c)"
  by (rule scan_block.raw_induct [where P = "\<lambda>blk bs c off r.
        \<not> (off < bs \<and> le16 blk (off + 4) = 0 \<and> \<not> entry_matches blk off c)"])
    (auto split: if_splits)

text \<open>The scan finds the first entry that matches, and never ends when it gets stuck before one.\<close>

lemma scan_block_entries:
  "scan_block blk bs c off = (let (os, stuck) = dir_entries blk bs off in
     case find (\<lambda>o'. entry_matches blk o' c) os of
       Some o' \<Rightarrow> Some (sint (le32 blk o')) | None \<Rightarrow> if stuck then None else Some (-1))"
proof (induction blk bs off rule: dir_entries.induct)
  case (1 blk bs off)
  show ?case
  proof (cases "off < bs")
    case False
    then show ?thesis by (simp add: scan_block.simps dir_entries.simps)
  next
    case True
    show ?thesis
    proof (cases "unat (le16 blk (off + 4)) = 0")
      case z: True
      have "\<not> entry_matches blk off c \<Longrightarrow> scan_block blk bs c off = None"
        using scan_block_stuck [of blk bs c off] True z by (cases "scan_block blk bs c off") (auto simp: unat_eq_0)
      moreover have "entry_matches blk off c \<Longrightarrow> scan_block blk bs c off = Some (sint (le32 blk off))"
        using True by (simp add: scan_block.simps)
      ultimately show ?thesis using True z by (simp add: dir_entries.simps [of blk bs off])
    next
      case nz: False
      then show ?thesis
        using True 1 [OF True refl nz]
        by (simp add: scan_block.simps [of blk bs c off] dir_entries.simps [of blk bs off] split_beta Let_def)
    qed
  qed
qed


subsection \<open>Directories as association lists\<close>

definition dir_list :: "nat \<Rightarrow> u8 list \<Rightarrow> (u8 list \<times> u32) list" where
  "dir_list bs blk = map (\<lambda>off. (entry_name blk off, le32 blk off)) (fst (dir_entries blk bs 0))"

text \<open>A block as the file system writes it: no entry of length 0, names inside, numbers of inodes positive.\<close>

definition good_dir_block :: "nat \<Rightarrow> u8 list \<Rightarrow> bool" where
  "good_dir_block bs blk \<longleftrightarrow> length blk = bs \<and> \<not> snd (dir_entries blk bs 0) \<and>
     (\<forall>off\<in>set (fst (dir_entries blk bs 0)). off + 8 + unat (byte_at blk (off + 6)) \<le> bs \<and>
        unat (le32 blk off) < 2 ^ 31)"

lemma byte_at_app: "i < length b \<Longrightarrow> byte_at (b @ rest) i = byte_at b i"
  by (simp add: byte_at_def nth_append)

lemma entry_in_buffer:
  assumes "off + 8 + unat (byte_at b (off + 6)) \<le> length b"
  shows "entry_name (b @ rest) off = entry_name b off" "le32 (b @ rest) off = le32 b off"
    "le16 (b @ rest) (off + 4) = le16 b (off + 4)"
  using assms by (simp_all add: entry_name_def le32_def le16_def byte_at_app)

lemma dir_entries_buffer:
  "\<forall>o'\<in>set (fst (dir_entries b bs off)). o' + 8 + unat (byte_at b (o' + 6)) \<le> length b \<Longrightarrow>
   dir_entries (b @ rest) bs off = dir_entries b bs off"
proof (induction b bs off rule: dir_entries.induct)
  case (1 b bs off)
  show ?case
  proof (cases "off < bs")
    case True
    then have off: "off \<in> set (fst (dir_entries b bs off))"
      by (simp add: dir_entries.simps [of b bs off] Let_def split_beta)
    then have e: "le16 (b @ rest) (off + 4) = le16 b (off + 4)" using 1(2) entry_in_buffer by blast
    show ?thesis
    proof (cases "unat (le16 b (off + 4)) = 0")
      case z: True
      then show ?thesis using True e by (simp add: dir_entries.simps [of "b @ rest"] dir_entries.simps [of b])
    next
      case nz: False
      have "set (fst (dir_entries b bs (off + unat (le16 b (off + 4))))) \<subseteq> set (fst (dir_entries b bs off))"
        using True nz by (auto simp: dir_entries.simps [of b bs off] Let_def split_beta)
      then have "dir_entries (b @ rest) bs (off + unat (le16 b (off + 4))) =
          dir_entries b bs (off + unat (le16 b (off + 4)))"
        using 1(1) [OF True refl nz] 1(2) by blast
      then show ?thesis using True nz e
        by (simp add: dir_entries.simps [of "b @ rest" bs off] dir_entries.simps [of b bs off])
    qed
  qed (simp add: dir_entries.simps)
qed

lemma find_map_of:
  "(case find (\<lambda>x. f x = c) xs of Some x \<Rightarrow> Some (g x) | None \<Rightarrow> None) = map_of (map (\<lambda>x. (f x, g x)) xs) c"
  by (induction xs) auto

definition lookup_result :: "u32 option \<Rightarrow> int" where
  "lookup_result r = (case r of Some i \<Rightarrow> int (unat i) | None \<Rightarrow> -1)"

lemma scan_good_block:
  assumes "good_dir_block bs b"
  shows "scan_block (b @ rest) bs c 0 = Some (lookup_result (map_of (dir_list bs b) c))"
proof -
  let ?os = "fst (dir_entries b bs 0)"
  have in_b: "\<forall>o'\<in>set ?os. o' + 8 + unat (byte_at b (o' + 6)) \<le> length b"
    and small: "\<forall>o'\<in>set ?os. unat (le32 b o') < 2 ^ 31" and ns: "\<not> snd (dir_entries b bs 0)"
    using assms by (auto simp: good_dir_block_def)
  have e: "dir_entries (b @ rest) bs 0 = (?os, False)"
    using dir_entries_buffer [OF in_b, of rest] ns by (simp add: prod_eq_iff)
  have "find (\<lambda>o'. entry_matches (b @ rest) o' c) ?os = find (\<lambda>o'. entry_name b o' = c) ?os"
    using in_b by (intro find_cong) (auto simp: entry_matches_name entry_in_buffer)
  moreover have "o' \<in> set ?os \<Longrightarrow> sint (le32 (b @ rest) o') = int (unat (le32 b o'))" for o'
    using in_b small by (simp add: entry_in_buffer sint_small)
  moreover have "find P xs = Some x \<Longrightarrow> x \<in> set xs" for P and xs :: "nat list" and x
    by (auto simp: find_Some_iff)
  ultimately show ?thesis
    using find_map_of [where f = "entry_name b" and c = c and g = "le32 b" and xs = ?os]
    by (auto simp: scan_block_entries e dir_list_def lookup_result_def split: option.splits)
qed


subsection \<open>Searching a directory\<close>

definition same_but_buffers :: "ext2 \<Rightarrow> ext2 \<Rightarrow> bool" where
  "same_but_buffers st st' \<longleftrightarrow> same_but_caches st (st'\<lparr>blkbuf := blkbuf st\<rparr>)"

lemma same_but_buffers_sel:
  "same_but_buffers st st' \<longleftrightarrow> blocksize st' = blocksize st \<and> directlim st' = directlim st \<and>
    ind1lim st' = ind1lim st \<and> ind2lim st' = ind2lim st \<and> ptrs_per_blk st' = ptrs_per_blk st \<and>
    inode_table st' = inode_table st \<and> sb st' = sb st \<and> gds st' = gds st \<and> ngroups st' = ngroups st"
  by (simp add: same_but_buffers_def same_but_caches_def)

lemma mounted_blkbuf [simp]: "mounted dev (st\<lparr>blkbuf := b\<rparr>) = mounted dev st"
  by (simp add: mounted_def limits_ok_def caches_ok_def vol_blocks_def)

lemma same_content:
  "same_but_buffers st st' \<Longrightarrow> in_reach dev ip st' = in_reach dev ip st \<and> file_content dev ip st' = file_content dev ip st"
  by (simp add: same_but_buffers_sel in_reach_def file_content_def vol_blocks_def fun_eq_iff Let_def)

definition dir_blocks :: "u8 list \<Rightarrow> ext2 \<Rightarrow> nat" where
  "dir_blocks ip st = (unat (i_size ip) + blocksize st - 1) div blocksize st"

lemma dir_blocks_less: "0 < blocksize st \<Longrightarrow> k < dir_blocks ip st \<longleftrightarrow> k * blocksize st < unat (i_size ip)"
proof -
  assume "0 < blocksize st"
  then have "k < dir_blocks ip st \<longleftrightarrow> Suc k * blocksize st \<le> unat (i_size ip) + blocksize st - 1"
    by (simp add: dir_blocks_def Suc_le_eq less_eq_div_iff_mult_less_eq flip: Suc_le_eq)
  then show ?thesis using \<open>0 < blocksize st\<close> by auto
qed

definition directory :: "blockdev \<Rightarrow> u8 list \<Rightarrow> ext2 \<Rightarrow> (u8 list \<times> u32) list" where
  "directory dev ip st = concat (map (\<lambda>n. dir_list (blocksize st) (file_content dev ip st n)) [0..<dir_blocks ip st])"

definition good_directory :: "blockdev \<Rightarrow> u8 list \<Rightarrow> ext2 \<Rightarrow> bool" where
  "good_directory dev ip st \<longleftrightarrow> (\<forall>n<dir_blocks ip st. in_reach dev ip st n \<and>
     good_dir_block (blocksize st) (file_content dev ip st n))"

lemma search_dir_from:
  assumes "mounted dev st" "good_directory dev ip st" "k \<le> dir_blocks ip st"
  shows "\<exists>st'. search_dir dev ip c (k * blocksize st) st =
      Some (lookup_result (map_of (concat (map (\<lambda>n. dir_list (blocksize st) (file_content dev ip st n))
        [k..<dir_blocks ip st])) c), st') \<and> mounted dev st' \<and> same_but_buffers st st'"
  using assms
proof (induction "dir_blocks ip st - k" arbitrary: k st)
  case 0
  have "0 < blocksize st" using 0(2) by (simp add: mounted_def limits_ok_def)
  then have "\<not> k * blocksize st < unat (i_size ip)" using 0 dir_blocks_less [of st k ip] by simp
  then show ?case using 0 by (simp add: search_dir.simps lookup_result_def same_but_buffers_sel)
next
  case (Suc d)
  let ?bs = "blocksize st" and ?nb = "dir_blocks ip st"
  have k: "k < ?nb" using Suc(2) by simp
  have pos: "0 < ?bs" using Suc(3) by (simp add: mounted_def limits_ok_def)
  have n: "in_reach dev ip st k" "good_dir_block ?bs (file_content dev ip st k)"
    using Suc(4) k by (auto simp: good_directory_def)
  obtain st1 where st1: "ext2_breadi dev ip k (blkbuf st) st =
      (file_content dev ip st k @ drop ?bs (blkbuf st), st1)" "mounted dev st1" "same_but_caches st st1"
    using breadi_content [OF Suc(3) n(1)] .
  define st2 where "st2 = st1\<lparr>blkbuf := file_content dev ip st k @ drop ?bs (blkbuf st)\<rparr>"
  have st2: "mounted dev st2" "same_but_buffers st st2" "blocksize st2 = ?bs"
    using st1 same_but_caches_sel [OF st1(3)] by (simp_all add: st2_def same_but_buffers_sel)
  note sc = same_content [OF st2(2), of dev ip]
  have nb2: "dir_blocks ip st2 = ?nb" using st2(3) by (simp add: dir_blocks_def)
  let ?r = "map_of (dir_list ?bs (file_content dev ip st k)) c"
  have step: "search_dir dev ip c (k * ?bs) st =
      (if lookup_result ?r \<ge> 0 then Some (lookup_result ?r, st2) else search_dir dev ip c (Suc k * ?bs) st2)"
    using k pos dir_blocks_less [OF pos, of k ip] st1(1) scan_good_block [OF n(2)] st2(3)
    by (simp add: search_dir.simps [of _ _ _ "k * ?bs"] st2_def add.commute)
  have up: "[k..<?nb] = k # [Suc k..<?nb]" using k by (simp add: upt_conv_Cons)
  show ?case
  proof (cases ?r)
    case (Some i)
    then show ?thesis using step st2 by (auto simp: up lookup_result_def map_add_def split: option.splits)
  next
    case None
    have "d = dir_blocks ip st2 - Suc k" using Suc(2) nb2 by simp
    then obtain st3 where st3: "search_dir dev ip c (Suc k * ?bs) st2 =
        Some (lookup_result (map_of (concat (map (\<lambda>n. dir_list ?bs (file_content dev ip st n)) [Suc k..<?nb])) c), st3)"
      "mounted dev st3" "same_but_buffers st2 st3"
      using Suc(1) [of st2 "Suc k"] st2(1) Suc(4) k sc nb2 st2(3) by (auto simp: good_directory_def)
    then show ?thesis using None step st2(2)
      by (auto simp: up lookup_result_def map_add_def same_but_buffers_sel)
  qed
qed

lemma search_dir_directory:
  assumes "mounted dev st" "good_directory dev ip st"
  obtains st' where "search_dir dev ip c 0 st = Some (lookup_result (map_of (directory dev ip st) c), st')"
    "mounted dev st'" "same_but_buffers st st'"
  using search_dir_from [OF assms, of 0 c] by (auto simp: directory_def)


subsection \<open>Walking along a path\<close>

definition same_disk :: "ext2 \<Rightarrow> ext2 \<Rightarrow> bool" where
  "same_disk st st' \<longleftrightarrow> same_but_buffers st (st'\<lparr>inode_table := inode_table st\<rparr>)"

lemma same_disk_sel:
  "same_disk st st' \<longleftrightarrow> blocksize st' = blocksize st \<and> directlim st' = directlim st \<and>
    ind1lim st' = ind1lim st \<and> ind2lim st' = ind2lim st \<and> ptrs_per_blk st' = ptrs_per_blk st \<and>
    sb st' = sb st \<and> gds st' = gds st \<and> ngroups st' = ngroups st"
  by (simp add: same_disk_def same_but_buffers_sel)

lemma same_disk_trans: "same_disk st st' \<Longrightarrow> same_disk st' st'' \<Longrightarrow> same_disk st st''"
  by (simp add: same_disk_sel)

lemma same_but_buffers_disk: "same_but_buffers st st' \<Longrightarrow> same_disk st st'"
  by (simp add: same_disk_sel same_but_buffers_sel)

lemma mounted_table [simp]: "mounted dev (st\<lparr>inode_table := t\<rparr>) = mounted dev st"
  by (simp add: mounted_def limits_ok_def caches_ok_def vol_blocks_def)

lemma same_disk_table [simp]: "same_disk st (st'\<lparr>inode_table := t\<rparr>) = same_disk st st'"
  by (simp add: same_disk_sel)

text \<open>The inode a path leads to from another one, over the directories on the disk.\<close>

fun path_ino :: "blockdev \<Rightarrow> ext2 \<Rightarrow> int \<Rightarrow> u8 list list \<Rightarrow> int option" where
  "path_ino dev st ino [] = Some ino"
| "path_ino dev st ino (c # cs) =
     (let ip = disk_inode dev st ino in
      if \<not> S_ISDIR (i_mode ip) then None
      else case map_of (directory dev ip st) c of
             None \<Rightarrow> None | Some i \<Rightarrow> path_ino dev st (int (unat i)) cs)"

text \<open>
  The inodes on the way can be read, in a group with a descriptor, and the directories among them are well formed.
\<close>

definition good_inode :: "blockdev \<Rightarrow> ext2 \<Rightarrow> int \<Rightarrow> bool" where
  "good_inode dev st ino \<longleftrightarrow> length (disk_inode dev st ino) = sizeof_inode \<and>
     unat ((word_of_int (ino - 1) :: u32) div s_inodes_per_group (sb st)) < ngroups st"

fun good_path :: "blockdev \<Rightarrow> ext2 \<Rightarrow> int \<Rightarrow> u8 list list \<Rightarrow> bool" where
  "good_path dev st ino [] \<longleftrightarrow> good_inode dev st ino"
| "good_path dev st ino (c # cs) \<longleftrightarrow> good_inode dev st ino \<and>
     (let ip = disk_inode dev st ino in S_ISDIR (i_mode ip) \<longrightarrow> good_directory dev ip st \<and>
        (case map_of (directory dev ip st) c of
           None \<Rightarrow> True | Some i \<Rightarrow> good_path dev st (int (unat i)) cs))"

lemma good_path_readable: "good_path dev st ino cs \<Longrightarrow> length (disk_inode dev st ino) = sizeof_inode"
  by (cases cs) (auto simp: good_inode_def)

lemma same_disk_disk_inode: "same_disk st st' \<Longrightarrow> disk_inode dev st' = disk_inode dev st"
  by (simp add: same_disk_sel disk_inode_def fun_eq_iff)

lemma same_disk_content: "same_disk st st' \<Longrightarrow> in_reach dev ip st' = in_reach dev ip st \<and>
    file_content dev ip st' = file_content dev ip st \<and> dir_blocks ip st' = dir_blocks ip st"
  by (simp add: same_disk_sel in_reach_def file_content_def dir_blocks_def vol_blocks_def fun_eq_iff Let_def)

lemma same_disk_directory: "same_disk st st' \<Longrightarrow> directory dev ip st' = directory dev ip st \<and>
    good_directory dev ip st' = good_directory dev ip st"
  using same_disk_content [of st st' dev ip]
  by (simp add: directory_def good_directory_def same_disk_sel)

lemma same_disk_good_inode: "same_disk st st' \<Longrightarrow> good_inode dev st' = good_inode dev st"
  by (simp add: good_inode_def fun_eq_iff same_disk_disk_inode) (simp add: same_disk_sel)

lemma same_disk_path: "same_disk st st' \<Longrightarrow> path_ino dev st' ino cs = path_ino dev st ino cs \<and>
    good_path dev st' ino cs = good_path dev st ino cs"
proof (induction cs arbitrary: ino)
  case (Cons c cs)
  note d = same_disk_directory [OF Cons.prems] same_disk_disk_inode [OF Cons.prems] same_disk_good_inode [OF Cons.prems]
  then show ?case using Cons.IH [OF Cons.prems] by (auto simp: Let_def split: option.splits)
qed (simp add: same_disk_good_inode)

text \<open>Every slot has room for one inode.\<close>

definition slots_ok :: "ext2 \<Rightarrow> bool" where
  "slots_ok st \<longleftrightarrow> 2 \<le> length (inode_table st) \<and> (\<forall>e\<in>set (inode_table st). length (inode e) = sizeof_inode)"

lemma iget_slot:
  assumes "slots_ok st" "open_slots st \<noteq> {..<length (inode_table st)}" "length (disk_inode dev st ino) = sizeof_inode"
  obtains i st' where "ext2_iget dev ino st = (Some i, st')" "i \<notin> open_slots st" "i < length (inode_table st)"
    "open_slots st' = insert i (open_slots st)" "inode (inode_table st' ! i) = disk_inode dev st ino"
    "\<forall>j. j \<noteq> i \<longrightarrow> inode_table st' ! j = inode_table st ! j" "slots_ok st'"
    "length (inode_table st') = length (inode_table st)"
    "same_disk st st'" "mounted dev st' = mounted dev st" "\<forall>j<i. j \<in> open_slots st"
proof -
  obtain r st' where g: "ext2_iget dev ino st = (r, st')" by fastforce
  have f: "r \<noteq> None" using iget_progress [OF assms(3)] assms(2) g by (metis fst_conv)
  show thesis
  using g proof (cases rule: iget_cases)
    case (got i e)
    have i: "i < length (inode_table st)" "i \<notin> open_slots st"
      using got(1) by (auto simp: first_free_Some open_slots_def)
    have "length (inode (inode_table st ! i)) = sizeof_inode" using assms(1) i by (simp add: slots_ok_def)
    then have e: "inode e = disk_inode dev st ino"
      using got(8) by simp
    have "slots_ok st'" using assms e i got(3) by (auto simp: slots_ok_def dest!: subsetD [OF set_update_subset_insert])
    moreover have "open_slots st' = insert i (open_slots st)"
      using inodes.get_fresh [of dev ino st i st'] g got(2) by simp
    moreover have "\<forall>j<i. j \<in> open_slots st" using got(1) i(1) by (auto simp: first_free_Some open_slots_def)
    ultimately show ?thesis using that [of i st'] g got i e by (simp add: same_disk_sel)
  qed (use f in simp_all)
qed


lemma iput_slot:
  assumes "slots_ok st"
  shows "open_slots (ext2_iput i st) = open_slots st - {i}" "slots_ok (ext2_iput i st)"
    "inode (inode_table (ext2_iput i st) ! j) = inode (inode_table st ! j)"
    "length (inode_table (ext2_iput i st)) = length (inode_table st)"
    "same_disk st (ext2_iput i st)" "mounted dev (ext2_iput i st) = mounted dev st"
proof -
  show "slots_ok (ext2_iput i st)"
    using assms by (cases "i < length (inode_table st)")
      (auto simp: slots_ok_def ext2_iput_def list_update_beyond dest!: subsetD [OF set_update_subset_insert])
  show "inode (inode_table (ext2_iput i st) ! j) = inode (inode_table st ! j)"
    by (cases "i < length (inode_table st)") (auto simp: ext2_iput_def nth_list_update list_update_beyond)
qed (use inodes.put_used in \<open>simp_all add: ext2_iput_def same_disk_sel\<close>)

text \<open>
  The walk has a slot for the inode it is at, and perhaps one for the directory before it; the slots \<open>S\<close> of files
  that are open keep the entries they have in the table \<open>t\<close>.
\<close>

definition walk_inv :: "blockdev \<Rightarrow> nat set \<Rightarrow> inode_table_entry list \<Rightarrow> ext2 \<Rightarrow> nat option \<Rightarrow> nat \<Rightarrow> int \<Rightarrow> bool" where
  "walk_inv dev S t st dir f ino \<longleftrightarrow> mounted dev st \<and> slots_ok st \<and> length (inode_table st) = length t \<and>
     open_slots st = S \<union> insert f (set_option dir) \<and> f \<notin> S \<and> S \<inter> set_option dir = {} \<and> dir \<noteq> Some f \<and>
     (\<forall>j \<in> S. inode_table st ! j = t ! j) \<and> inode (inode_table st ! f) = disk_inode dev st ino"

lemma put_dir:
  assumes "walk_inv dev S t st dir f ino"
  shows "walk_inv dev S t (put_opt dir st) None f ino" "same_disk st (put_opt dir st)"
proof -
  show "same_disk st (put_opt dir st)"
    using assms iput_slot(5) by (auto simp: walk_inv_def put_opt_def same_disk_sel split: option.splits)
  show "walk_inv dev S t (put_opt dir st) None f ino"
  proof (cases dir)
    case None
    then show ?thesis using assms by (simp add: put_opt_def)
  next
    case (Some d)
    have ok: "slots_ok st" using assms by (simp add: walk_inv_def)
    have "disk_inode dev (ext2_iput d st) = disk_inode dev st"
      using same_disk_disk_inode [OF iput_slot(5) [OF ok]] .
    moreover have "inode_table (ext2_iput d st) ! j = t ! j" if "j \<in> S" for j
    proof -
      have "j \<noteq> d" using that assms Some by (auto simp: walk_inv_def)
      then show ?thesis using assms that by (simp add: ext2_iput_def walk_inv_def)
    qed
    ultimately show ?thesis
      using assms Some iput_slot(1,2,3,4,6) [OF ok] by (auto simp: walk_inv_def put_opt_def)
  qed
qed

text \<open>One round of the loop: the search in the directory and the inode of the entry.\<close>

definition walk_to :: "blockdev \<Rightarrow> nat set \<Rightarrow> inode_table_entry list \<Rightarrow> ext2 \<Rightarrow> ext2 \<Rightarrow> nat option \<Rightarrow> nat option \<Rightarrow> int option \<Rightarrow> bool" where
  "walk_to dev S t st st' dir file r \<longleftrightarrow> same_disk st st' \<and>
     (case r of
        Some ino \<Rightarrow> \<exists>f. file = Some f \<and> walk_inv dev S t st' dir f ino
      | None \<Rightarrow> file = None \<and> (\<exists>d ino. dir = Some d \<and> walk_inv dev S t st' None d ino))"

lemma walk_inv_search:
  assumes "walk_inv dev S t st dir f ino" "same_but_buffers st st'" "mounted dev st'"
  shows "walk_inv dev S t st' dir f ino"
proof -
  have t: "inode_table st' = inode_table st" using assms(2) by (simp add: same_but_buffers_sel)
  then have "open_slots st' = open_slots st" "slots_ok st' = slots_ok st" by (simp_all add: open_slots_def slots_ok_def)
  then show ?thesis using assms t same_disk_disk_inode [OF same_but_buffers_disk [OF assms(2)]] by (simp add: walk_inv_def)
qed

lemma walk_inv_iget:
  assumes inv: "walk_inv dev S t st None f ino" and room: "card S + 2 \<le> length t"
    and len: "length (disk_inode dev st n) = sizeof_inode"
  obtains g st' where "ext2_iget dev n st = (Some g, st')" "walk_inv dev S t st' (Some f) g n" "same_disk st st'"
proof -
  have ok: "slots_ok st" "length (inode_table st) = length t" "open_slots st = insert f S" using inv by (auto simp: walk_inv_def)
  have "open_slots st \<noteq> {..<length (inode_table st)}"
  proof
    assume "open_slots st = {..<length (inode_table st)}"
    then have "card (insert f S) = length t" using ok(2,3) by simp
    moreover have "card (insert f S) \<le> Suc (card S)" by (rule card_insert_le_m1) simp_all
    ultimately show False using room by simp
  qed
  from iget_slot [OF ok(1) this len] obtain g st' where g: "ext2_iget dev n st = (Some g, st')" "g \<notin> open_slots st"
    "open_slots st' = insert g (open_slots st)" "inode (inode_table st' ! g) = disk_inode dev st n"
    "\<forall>j. j \<noteq> g \<longrightarrow> inode_table st' ! j = inode_table st ! j" "slots_ok st'"
    "length (inode_table st') = length (inode_table st)" "same_disk st st'" "mounted dev st' = mounted dev st"
    by metis
  have "\<forall>j \<in> S. inode_table st' ! j = inode_table st ! j" using g(2,5) ok(3) by (metis insertCI)
  then have "walk_inv dev S t st' (Some f) g n"
    using g(2-4,6-9) inv same_disk_disk_inode [OF g(8)] by (auto simp: walk_inv_def)
  with g(1,8) show thesis by (intro that)
qed

lemma walk_ok:
  assumes "walk_inv dev S t st dir f ino" "good_path dev st ino cs" and room: "card S + 2 \<le> length t"
  shows "\<exists>st' dir' file'. walk dev cs st dir (Some f) = Some (st', dir', file') \<and>
    walk_to dev S t st st' dir' file' (path_ino dev st ino cs)"
  using assms(1,2)
proof (induction cs arbitrary: st dir f ino)
  case Nil
  then show ?case by (auto simp: walk_to_def same_disk_sel)
next
  case (Cons c cs)
  define st1 where "st1 = put_opt dir st"
  have inv1: "walk_inv dev S t st1 None f ino" and sd1: "same_disk st st1"
    using put_dir [OF Cons.prems(1)] by (simp_all add: st1_def)
  let ?ip = "disk_inode dev st ino"
  have ip: "inode (inode_table st1 ! f) = ?ip" and m1: "mounted dev st1"
    using inv1 same_disk_disk_inode [OF sd1] by (auto simp: walk_inv_def)
  have w: "walk dev (c # cs) st dir (Some f) =
      (if \<not> S_ISDIR (i_mode ?ip) then Some (st1, Some f, None)
       else case search_dir dev ?ip c 0 st1 of None \<Rightarrow> None
            | Some (next_ino, st) \<Rightarrow>
                if next_ino < 0 then Some (st, Some f, None)
                else let (file_inode, st) = ext2_iget dev next_ino st in walk dev cs st (Some f) file_inode)"
    by (simp add: ip flip: st1_def)
  show ?case
  proof (cases "S_ISDIR (i_mode ?ip)")
    case False
    then show ?thesis using w inv1 sd1 by (auto simp: walk_to_def)
  next
    case True
    have gd: "good_directory dev ?ip st1"
      using Cons.prems(2) True same_disk_directory [OF sd1] by (simp add: Let_def)
    obtain st2 where st2: "search_dir dev ?ip c 0 st1 = Some (lookup_result (map_of (directory dev ?ip st1) c), st2)"
      "mounted dev st2" "same_but_buffers st1 st2"
      using search_dir_directory [OF m1 gd] .
    have sd2: "same_disk st st2" using same_disk_trans [OF sd1 same_but_buffers_disk [OF st2(3)]] .
    have inv2: "walk_inv dev S t st2 None f ino" using walk_inv_search [OF inv1 st2(3,2)] .
    show ?thesis
    proof (cases "map_of (directory dev ?ip st) c")
      case None
      then show ?thesis using w True st2 sd2 inv2 same_disk_directory [OF sd1, of dev ?ip]
        by (auto simp: walk_to_def lookup_result_def Let_def)
    next
      case (Some i)
      let ?n = "int (unat i)"
      have gp: "good_path dev st ?n cs" using Cons.prems(2) True Some by (simp add: Let_def)
      have len: "length (disk_inode dev st2 ?n) = sizeof_inode"
        using good_path_readable [OF gp] same_disk_disk_inode [OF sd2] by simp
      obtain g st3 where g: "ext2_iget dev ?n st2 = (Some g, st3)" "walk_inv dev S t st3 (Some f) g ?n" "same_disk st2 st3"
        using walk_inv_iget [OF inv2 room len] .
      have sd3: "same_disk st st3" using same_disk_trans [OF sd2 g(3)] .
      have "good_path dev st3 ?n cs" using gp same_disk_path [OF sd3] by simp
      with g(2) obtain st' dir' file' where r: "walk dev cs st3 (Some f) (Some g) = Some (st', dir', file')"
        "walk_to dev S t st3 st' dir' file' (path_ino dev st3 ?n cs)"
        using Cons.IH by blast
      have "walk_to dev S t st st' dir' file' (path_ino dev st ?n cs)"
        using r(2) same_disk_trans [OF sd3] same_disk_path [OF sd3] by (simp add: walk_to_def)
      moreover have "walk dev (c # cs) st dir (Some f) = walk dev cs st3 (Some f) (Some g)"
        using w True st2(1) g(1) Some same_disk_directory [OF sd1, of dev ?ip] by (simp add: lookup_result_def)
      ultimately show ?thesis using r(1) True Some by (auto simp: Let_def)
    qed
  qed
qed

lemma namei_ok:
  assumes m: "mounted dev st" and ok: "slots_ok st" and room: "card (open_slots st) + 2 \<le> length (inode_table st)"
    and good: "good_path dev st EXT2_ROOT_INO (components [] name)" and short: "length name < 256"
    and no_link: "\<And>ino. path_ino dev st EXT2_ROOT_INO (components [] name) = Some ino \<Longrightarrow>
      \<not> S_ISLNK (i_mode (disk_inode dev st ino))"
  defines "S \<equiv> open_slots st" and "t \<equiv> inode_table st"
  shows "case path_ino dev st EXT2_ROOT_INO (components [] name) of
      Some ino \<Rightarrow> \<exists>fd st'. ext2_namei dev name st = Some (Some fd, st') \<and> walk_inv dev S t st' None fd ino \<and> same_disk st st'
    | None \<Rightarrow> \<exists>st' d ino. ext2_namei dev name st = Some (None, ext2_iput d st') \<and> walk_inv dev S t st' None d ino \<and> same_disk st st'"
proof -
  let ?cs = "components [] name" and ?root = EXT2_ROOT_INO
  have S: "S \<subseteq> {..<length t}" "card S < length t" using room by (auto simp: S_def t_def open_slots_def)
  then have "open_slots st \<noteq> {..<length (inode_table st)}" unfolding S_def t_def by (metis card_lessThan nat_neq_iff)
  then obtain f st1 where f: "ext2_iget dev ?root st = (Some f, st1)" "f \<notin> open_slots st"
    "open_slots st1 = insert f (open_slots st)" "inode (inode_table st1 ! f) = disk_inode dev st ?root"
    "\<forall>j. j \<noteq> f \<longrightarrow> inode_table st1 ! j = inode_table st ! j"
    "slots_ok st1" "length (inode_table st1) = length (inode_table st)" "same_disk st st1"
    "mounted dev st1 = mounted dev st"
    using iget_slot [OF ok] good_path_readable [OF good] by metis
  have "\<forall>j \<in> S. inode_table st1 ! j = inode_table st ! j" using f(2,5) unfolding S_def by metis
  then have inv: "walk_inv dev S t st1 None f ?root"
    using f(2-4,6-9) m same_disk_disk_inode [OF f(8)] by (auto simp: walk_inv_def S_def t_def)
  have good1: "good_path dev st1 ?root ?cs" using same_disk_path [OF f(8)] good by simp
  have room': "card S + 2 \<le> length t" using room by (simp add: S_def t_def)
  obtain st2 dir fi where w: "walk dev ?cs st1 None (Some f) = Some (st2, dir, fi)"
    "walk_to dev S t st1 st2 dir fi (path_ino dev st1 ?root ?cs)"
    using walk_ok [OF inv good1 room'] by blast
  have sd: "same_disk st st2" using same_disk_trans [OF f(8)] w(2) by (simp add: walk_to_def)
  have p: "path_ino dev st1 ?root ?cs = path_ino dev st ?root ?cs" using same_disk_path [OF f(8)] by simp
  have "\<not> iget_traps st" using m by (simp add: iget_traps_def mounted_def)
  then have n: "ext2_namei dev name st = namei_rel dev 5 name st1 None (Some f)"
    using f(1) short by (simp add: ext2_namei_def)
  show ?thesis
  proof (cases "path_ino dev st ?root ?cs")
    case None
    then obtain d ino where d: "dir = Some d" "fi = None" "walk_inv dev S t st2 None d ino"
      using w(2) p by (auto simp: walk_to_def)
    then have "ext2_namei dev name st = Some (None, ext2_iput d st2)"
      using n w(1) by (simp add: put_opt_def)
    then show ?thesis using None d(3) sd by auto
  next
    case (Some ino)
    then obtain g where g: "fi = Some g" "walk_inv dev S t st2 dir g ino"
      using w(2) p by (auto simp: walk_to_def)
    have i: "inode (inode_table st2 ! g) = disk_inode dev st ino"
      using g(2) same_disk_disk_inode [OF sd] by (simp add: walk_inv_def)
    have "ext2_namei dev name st = Some (Some g, put_opt dir st2)"
      using n w(1) g(1) i no_link [OF Some] by simp
    then show ?thesis using put_dir [OF g(2)] same_disk_trans [OF sd] Some by auto
  qed
qed

lemma iput_inv:
  assumes "walk_inv dev S t st None d ino"
  shows "mounted dev (ext2_iput d st)" "slots_ok (ext2_iput d st)" "open_slots (ext2_iput d st) = S"
    "j \<in> S \<Longrightarrow> inode_table (ext2_iput d st) ! j = t ! j"
proof -
  have ok: "slots_ok st" "d \<notin> S" using assms by (simp_all add: walk_inv_def)
  show "mounted dev (ext2_iput d st)" "slots_ok (ext2_iput d st)" "open_slots (ext2_iput d st) = S"
    using iput_slot [OF ok(1)] assms by (auto simp: walk_inv_def)
  show "inode_table (ext2_iput d st) ! j = t ! j" if "j \<in> S"
  proof -
    have "j \<noteq> d" using that ok(2) by auto
    then show ?thesis using assms that by (simp add: ext2_iput_def walk_inv_def)
  qed
qed

subsection \<open>Sessions\<close>

text \<open>
  A session with a volume: it is mounted, and then files are opened, read and closed in any order. The volume has
  blocks of at most 4096 bytes, can be read, and has inodes in its groups; two slots are free when a file is opened,
  the path is good, does not end in a symbolic link and fits \<open>namebuf\<close>; reads stay in the reach of \<open>ext2_blkno\<close>.
\<close>

inductive session :: "blockdev \<Rightarrow> ext2 \<Rightarrow> bool" for dev where
  mount: "ext2_mount mem dev st0 = Some (0, st) \<Longrightarrow> cached_iblkno st0 = -1 \<Longrightarrow> cached_diblkno st0 = -1 \<Longrightarrow> slots_ok st0 \<Longrightarrow>
    unat (s_log_block_size (sb st)) \<le> 2 \<Longrightarrow> s_inodes_per_group (sb st) \<noteq> 0 \<Longrightarrow> reads_ok dev (blocksize st) (vol_blocks st) \<Longrightarrow>
    session dev st"
| opened: "session dev st \<Longrightarrow> good_path dev st EXT2_ROOT_INO (components [] name) \<Longrightarrow> length name < 256 \<Longrightarrow>
    (\<And>ino. path_ino dev st EXT2_ROOT_INO (components [] name) = Some ino \<Longrightarrow> \<not> S_ISLNK (i_mode (disk_inode dev st ino))) \<Longrightarrow>
    card (open_slots st) + 2 \<le> length (inode_table st) \<Longrightarrow> ext2_open dev name st = Some (fd, st') \<Longrightarrow> session dev st'"
| read: "session dev st \<Longrightarrow> in_reach dev (inode (inode_table st ! fd)) st n \<Longrightarrow> session dev (snd (ext2_bread dev fd n buf st))"
| closed: "session dev st \<Longrightarrow> session dev (ext2_close fd st)"

lemma mount_slots: "ext2_mount mem dev st0 = Some (0, st) \<Longrightarrow> slots_ok st0 \<Longrightarrow> slots_ok st"
proof -
  assume "ext2_mount mem dev st0 = Some (0, st)" "slots_ok st0"
  then have "map inode (inode_table st) = map inode (inode_table st0)" using mount_ok by blast
  moreover from this have "length (inode_table st) = length (inode_table st0)" by (metis length_map)
  moreover have "slots_ok s \<longleftrightarrow> 2 \<le> length (inode_table s) \<and> (\<forall>b \<in> set (map inode (inode_table s)). length b = sizeof_inode)" for s
    by (simp add: slots_ok_def)
  ultimately show ?thesis using \<open>slots_ok st0\<close> by metis
qed

lemma session_inv: "session dev st \<Longrightarrow> mounted dev st \<and> slots_ok st"
proof (induction rule: session.induct)
  case (mount mem st0 st)
  then show ?case using mount_mounted mount_slots by blast
next
  case (opened st name fd st')
  have m: "mounted dev st" "slots_ok st" using opened.IH by simp_all
  show ?case
    using namei_ok [OF m opened.hyps(5,2,3,4)] opened.hyps(6) iput_inv
    by (fastforce simp: ext2_open_def walk_inv_def split: option.splits)
next
  case (read st fd n buf)
  then have m: "mounted dev st" by simp
  obtain st' where "ext2_bread dev fd n buf st = (file_content dev (inode (inode_table st ! fd)) st n @ drop (blocksize st) buf, st')"
    "mounted dev st'" "same_but_caches st st'"
    using bread_content [OF m read.hyps(2)] .
  then show ?case using read.IH by (simp add: slots_ok_def same_but_caches_def)
next
  case (closed st fd)
  then show ?case using iput_slot(2,6) by (auto simp: ext2_close_def)
qed

text \<open>
  C34: Reading a file. At any point of a session, the blocks of a file, read in any order and any number of times through
  the caches of the indirect blocks, are the blocks the inode in its slot maps, directly, through the indirect block or
  through the double indirect one, and zeros for a hole. The rest of the caller's buffer is as it was. The reach of
  \<open>ext2_blkno\<close> ends before the last blocks of the double indirect block (\<open>double_indirect_tail\<close>).
\<close>

theorem ext2_file_blocks:
  assumes "session dev st" and "\<forall>n\<in>set ns. in_reach dev (inode (inode_table st ! fd)) st n"
  shows "fst (in_turn (\<lambda>n. ext2_bread dev fd n buf) ns st) =
      map (\<lambda>n. file_content dev (inode (inode_table st ! fd)) st n @ drop (blocksize st) buf) ns"
  using session_inv [OF assms(1)] open_file.read_any_order [OF _ assms(2), of buf] by blast

text \<open>
  C36: Opening a file. At any point of a session, when two slots are free, opening a path returns. When each component is
  in the directory before it, the result is a handle that was not in use, whose slot holds the inode the path leads
  to; when a component is missing or its parent is not a directory, the result is -1. The slots in use before are in
  use, with the same contents, and no other but the new one. The inodes on the way can be read, the directories among
  them are well formed, and the path does not end in a symbolic link.
\<close>

theorem ext2_open_path:
  assumes "session dev st" and "card (open_slots st) + 2 \<le> length (inode_table st)"
    and "good_path dev st EXT2_ROOT_INO (components [] name)" and "length name < 256"
    and "\<forall>ino. path_ino dev st EXT2_ROOT_INO (components [] name) = Some ino \<longrightarrow>
      \<not> S_ISLNK (i_mode (disk_inode dev st ino))"
  shows "case path_ino dev st EXT2_ROOT_INO (components [] name) of
      Some ino \<Rightarrow> \<exists>fd st'. ext2_open dev name st = Some (int fd, st') \<and> fd \<notin> open_slots st \<and>
        open_slots st' = insert fd (open_slots st) \<and> inode (inode_table st' ! fd) = disk_inode dev st ino \<and>
        (\<forall>j \<in> open_slots st. inode_table st' ! j = inode_table st ! j)
    | None \<Rightarrow> \<exists>st'. ext2_open dev name st = Some (-1, st') \<and> open_slots st' = open_slots st \<and>
        (\<forall>j \<in> open_slots st. inode_table st' ! j = inode_table st ! j)"
proof (cases "path_ino dev st EXT2_ROOT_INO (components [] name)")
  case None
  then show ?thesis
    using namei_ok [OF _ _ assms(2,3,4)] session_inv [OF assms(1)] iput_inv(3,4) by (fastforce simp: ext2_open_def)
next
  case (Some ino)
  have l: "\<not> S_ISLNK (i_mode (disk_inode dev st ino))" using assms(5) Some by blast
  obtain fd st' where n: "ext2_namei dev name st = Some (Some fd, st')" "same_disk st st'"
      "walk_inv dev (open_slots st) (inode_table st) st' None fd ino"
    using namei_ok [OF _ _ assms(2,3,4)] session_inv [OF assms(1)] Some l by auto
  then show ?thesis using Some same_disk_disk_inode [OF n(2)] by (auto simp: ext2_open_def walk_inv_def)
qed


subsection \<open>The small image\<close>

lemma small_disk_inode:
  "disk_inode (image_dev small_image) small_state 2 = image_dev small_image 3200 128"
  "disk_inode (image_dev small_image) small_state 3 = image_dev small_image 3328 128"
  "disk_inode (image_dev small_image) small_state 4 = image_dev small_image 3456 128"
proof -
  have p: "s_inodes_per_group (image_dev small_image 1024 1024) = 16"
    "bg_inode_table (image_dev small_image 2048 32) 0 = 3"
    by (simp_all add: s_inodes_per_group_def bg_inode_table_def le32_def byte_at_image0 sizeof_gd_def
        small_image_def small_bytes_def)
  have t: "take 128 (image_dev small_image a 128) = image_dev small_image a 128" for a by (simp add: image_dev_def)
  show "disk_inode (image_dev small_image) small_state 2 = image_dev small_image 3200 128"
    "disk_inode (image_dev small_image) small_state 3 = image_dev small_image 3328 128"
    "disk_inode (image_dev small_image) small_state 4 = image_dev small_image 3456 128"
    by (simp_all add: disk_inode_def small_state_sel p t sizeof_inode_def)
qed

lemma small_modes:
  "S_ISDIR (i_mode (image_dev small_image 3200 128))" "\<not> S_ISLNK (i_mode (image_dev small_image 3456 128))"
  "S_ISLNK (i_mode (image_dev small_image 3328 128))"
  by (simp_all add: i_mode_def le16_def byte_at_image0 small_image_def small_bytes_def S_ISDIR_def S_ISLNK_def S_IFMT_def)

lemma small_root: "in_reach (image_dev small_image) (image_dev small_image 3200 128) small_state 0"
  "file_content (image_dev small_image) (image_dev small_image 3200 128) small_state 0 = image_dev small_image 5120 1024"
  "dir_blocks (image_dev small_image 3200 128) small_state = 1"
proof -
  have b: "file_block (image_dev small_image) 1024 (image_dev small_image 3200 128) 0 = 5"
    by (simp add: file_block_def i_block_def le32_def byte_at_image0 small_image_def small_bytes_def)
  have t: "take 1024 (image_dev small_image 5120 1024) = image_dev small_image 5120 1024" by (simp add: image_dev_def)
  show "in_reach (image_dev small_image) (image_dev small_image 3200 128) small_state 0"
    by (simp add: in_reach_def map_blocks_def small_state_sel small_vol_blocks b)
  show "file_content (image_dev small_image) (image_dev small_image 3200 128) small_state 0 = image_dev small_image 5120 1024"
    by (simp add: file_content_def small_state_sel b disk_block_def t)
  show "dir_blocks (image_dev small_image 3200 128) small_state = 1"
    by (simp add: dir_blocks_def small_state_sel i_size_def le32_def byte_at_image0 small_image_def small_bytes_def)
qed

lemma small_entries:
  "dir_entries (image_dev small_image 5120 1024) 1024 0 = ([0, 12], False)"
  by (simp add: dir_entries.simps le16_def byte_at_image0 small_image_def small_bytes_def)

lemma small_directory:
  "good_directory (image_dev small_image) (image_dev small_image 3200 128) small_state"
  "directory (image_dev small_image) (image_dev small_image 3200 128) small_state = [([0x6C], 3), ([0x74], 4)]"
proof -
  have "length (image_dev small_image 5120 1024) = 1024" by (simp add: image_dev_def)
  then have "good_dir_block 1024 (image_dev small_image 5120 1024)"
    by (simp add: good_dir_block_def small_entries le32_def byte_at_image0 small_image_def small_bytes_def)
  then show "good_directory (image_dev small_image) (image_dev small_image 3200 128) small_state"
    using small_root by (simp add: good_directory_def small_state_sel)
  show "directory (image_dev small_image) (image_dev small_image 3200 128) small_state = [([0x6C], 3), ([0x74], 4)]"
    using small_root by (simp add: directory_def dir_list_def small_state_sel small_entries entry_name_def le32_def
        byte_at_image0 small_image_def small_bytes_def)
qed

lemma small_slots_ok: "slots_ok small_state"
  by (simp add: slots_ok_def small_state_sel slot0_def sizeof_inode_def)

lemma small_open: "open_slots small_state = {}"
  using mount_ok [OF mount_small] by (auto simp: open_slots_def)

lemma small_session: "session (image_dev small_image) small_state"
proof (rule session.mount [OF mount_small])
  show "cached_iblkno boot_state = -1" "cached_diblkno boot_state = -1" by (simp_all add: boot_state_def)
  show "slots_ok boot_state" by (simp add: slots_ok_def boot_state_def slot0_def sizeof_inode_def)
  show "unat (s_log_block_size (sb small_state)) \<le> 2" "s_inodes_per_group (sb small_state) \<noteq> 0"
    by (simp_all add: small_state_sel s_log_block_size_def s_inodes_per_group_def le32_def byte_at_image0 small_image_def small_bytes_def)
qed (rule image_reads)

text \<open>The file \<open>t\<close> is opened, and while it is open, the root directory.\<close>

lemma small_good_inode: "good_inode (image_dev small_image) small_state 2" "good_inode (image_dev small_image) small_state 4"
proof -
  have "ngroups small_state = 1"
    by (simp add: small_state_def ext2_mount_def small_simps)
  moreover have "s_inodes_per_group (sb small_state) = 16"
    by (simp add: small_state_sel s_inodes_per_group_def le32_def byte_at_image0 small_image_def small_bytes_def)
  ultimately show "good_inode (image_dev small_image) small_state 2" "good_inode (image_dev small_image) small_state 4"
    by (simp_all add: good_inode_def small_disk_inode image_dev_def sizeof_inode_def)
qed

lemma small_path:
  "path_ino (image_dev small_image) small_state EXT2_ROOT_INO (components [] [0x74]) = Some 4"
  "good_path (image_dev small_image) small_state EXT2_ROOT_INO (components [] [0x74])"
  by (simp_all add: SLASH_def EXT2_ROOT_INO_def small_disk_inode small_modes small_directory small_good_inode)

theorem ext2_open_path_witness:
  "\<exists>fd st'. ext2_open (image_dev small_image) [0x74] small_state = Some (int fd, st') \<and> open_slots st' = {fd}"
proof -
  have l: "\<forall>ino. path_ino (image_dev small_image) small_state EXT2_ROOT_INO (components [] [0x74]) = Some ino \<longrightarrow>
      \<not> S_ISLNK (i_mode (disk_inode (image_dev small_image) small_state ino))"
    unfolding small_path by (simp add: small_disk_inode small_modes)
  have c: "card (open_slots small_state) + 2 \<le> length (inode_table small_state)" by (simp add: small_open small_state_sel)
  show ?thesis
    using ext2_open_path [OF small_session c small_path(2) _ l] unfolding small_path by (auto simp: small_open)
qed

text \<open>A session with the root directory open, whose first block is read twice and whose second block is a hole.\<close>

lemma root_open:
  obtains st where "session (image_dev small_image) st" "inode (inode_table st ! 0) = image_dev small_image 3200 128"
    "same_disk small_state st"
proof -
  let ?dev = "image_dev small_image"
  have room: "open_slots small_state \<noteq> {..<length (inode_table small_state)}"
    using lessThan_iff [of 0 "4 :: nat"] by (auto simp: small_open small_state_sel simp del: lessThan_iff)
  obtain i st1 where g: "ext2_iget ?dev EXT2_ROOT_INO small_state = (Some i, st1)"
    "inode (inode_table st1 ! i) = disk_inode ?dev small_state EXT2_ROOT_INO" "same_disk small_state st1" "\<forall>j<i. j \<in> open_slots small_state"
    using iget_slot [OF small_slots_ok room, of ?dev EXT2_ROOT_INO] small_good_inode(1)
    unfolding good_inode_def EXT2_ROOT_INO_def by metis
  then have "i = 0" by (auto simp: small_open)
  have "\<not> iget_traps small_state" using small_mounted by (simp add: iget_traps_def mounted_def)
  moreover have "\<not> S_ISLNK (i_mode (image_dev small_image 3200 128))"
    by (simp add: i_mode_def le16_def byte_at_image0 small_image_def small_bytes_def S_ISLNK_def S_IFMT_def)
  ultimately have o: "ext2_open ?dev [] small_state = Some (0, st1)"
    using g(1,2) small_disk_inode(1) by (simp add: ext2_open_def ext2_namei_def put_opt_def EXT2_ROOT_INO_def \<open>i = 0\<close>)
  have "session ?dev st1"
  proof (rule session.opened [OF small_session _ _ _ _ o])
    show "good_path ?dev small_state EXT2_ROOT_INO (components [] [])" by (simp add: small_good_inode EXT2_ROOT_INO_def)
    show "card (open_slots small_state) + 2 \<le> length (inode_table small_state)" by (simp add: small_open small_state_sel)
    show "\<not> S_ISLNK (i_mode (disk_inode ?dev small_state ino))"
      if "path_ino ?dev small_state EXT2_ROOT_INO (components [] []) = Some ino" for ino
      using that small_disk_inode(1) \<open>\<not> S_ISLNK _\<close> by (simp add: EXT2_ROOT_INO_def)
  qed simp
  with g show thesis using that small_disk_inode(1) by (simp add: EXT2_ROOT_INO_def \<open>i = 0\<close>)
qed

theorem ext2_file_blocks_witness:
  "\<exists>st. session (image_dev small_image) st \<and>
     map hd (fst (in_turn (\<lambda>n. ext2_bread (image_dev small_image) 0 n []) [0, 1, 0] st)) = [3, 0, 3]"
proof -
  let ?dev = "image_dev small_image" and ?ip = "image_dev small_image 3200 128"
  obtain st where st: "session ?dev st" "inode (inode_table st ! 0) = ?ip" "same_disk small_state st" by (rule root_open)
  have s: "blocksize st = 1024" "ind2lim st = 65547" "vol_blocks st = 8"
    using st(3) small_vol_blocks by (simp_all add: same_disk_sel small_state_sel vol_blocks_def)
  have fb: "file_block ?dev 1024 ?ip 0 = 5" "file_block ?dev 1024 ?ip 1 = 0"
    by (simp_all add: file_block_def i_block_def le32_def byte_at_image0 small_image_def small_bytes_def)
  have "\<forall>n\<in>set [0, 1, 0]. in_reach ?dev (inode (inode_table st ! 0)) st n"
    using fb by (simp add: in_reach_def map_blocks_def st(2) s)
  from ext2_file_blocks [OF st(1) this, of "[]"]
  have r: "fst (in_turn (\<lambda>n. ext2_bread ?dev 0 n []) [0, 1, 0] st) =
      map (\<lambda>n. file_content ?dev (inode (inode_table st ! 0)) st n @ drop (blocksize st) []) [0, 1, 0]" .
  have "hd (disk_block ?dev 1024 5) = 3"
    by (simp add: disk_block_def image_dev_def hd_map small_image_def small_bytes_def)
  then have c: "hd (file_content ?dev (inode (inode_table st ! 0)) st 0 @ drop (blocksize st) []) = 3"
    using fb by (simp add: file_content_def st(2) s)
  have "file_content ?dev (inode (inode_table st ! 0)) st 1 = replicate 1024 0"
    using fb by (simp add: file_content_def st(2) s)
  then have z: "hd (file_content ?dev (inode (inode_table st ! 0)) st 1 @ drop (blocksize st) []) = 0" by (simp add: hd_append)
  have "map hd (fst (in_turn (\<lambda>n. ext2_bread ?dev 0 n []) [0, 1, 0] st)) = [3, 0, 3]"
    unfolding r list.map c z ..
  with st(1) show ?thesis by (intro exI [of _ st] conjI)
qed


subsection \<open>Links\<close>

text \<open>One component, from any slots in use: the entry's inode goes to the lowest free slot.\<close>

lemma walk_one:
  assumes "mounted dev st" "slots_ok st" "open_slots (put_opt dir st) \<noteq> {..<length (inode_table st)}"
    and "inode (inode_table st ! f) = disk_inode dev st ino" "S_ISDIR (i_mode (disk_inode dev st ino))"
    and "good_directory dev (disk_inode dev st ino) st"
    and "map_of (directory dev (disk_inode dev st ino) st) c = Some i"
    and "length (disk_inode dev st (int (unat i))) = sizeof_inode"
  obtains g st' where "walk dev [c] st dir (Some f) = Some (st', Some f, Some g)"
    "g \<notin> open_slots (put_opt dir st)" "\<forall>j<g. j \<in> open_slots (put_opt dir st)"
    "open_slots st' = insert g (open_slots (put_opt dir st))"
    "inode (inode_table st' ! g) = disk_inode dev st (int (unat i))"
    "\<forall>j. j \<noteq> g \<longrightarrow> inode (inode_table st' ! j) = inode (inode_table st ! j)" "slots_ok st'"
    "length (inode_table st') = length (inode_table st)" "same_disk st st'" "mounted dev st'"
proof -
  define st1 where "st1 = put_opt dir st"
  have 1: "mounted dev st1" "slots_ok st1" "same_disk st st1" "length (inode_table st1) = length (inode_table st)"
    "\<forall>j. inode (inode_table st1 ! j) = inode (inode_table st ! j)"
    using assms(1,2) iput_slot [OF assms(2)]
    by (auto simp: st1_def put_opt_def same_disk_sel split: option.splits)
  let ?ip = "disk_inode dev st ino" and ?n = "int (unat i)"
  have gd: "good_directory dev ?ip st1" using assms(6) same_disk_directory [OF 1(3)] by simp
  obtain st2 where st2: "search_dir dev ?ip c 0 st1 = Some (lookup_result (map_of (directory dev ?ip st1) c), st2)"
    "mounted dev st2" "same_but_buffers st1 st2"
    using search_dir_directory [OF 1(1) gd] .
  have sd2: "same_disk st st2" using same_disk_trans [OF 1(3) same_but_buffers_disk [OF st2(3)]] .
  have t2: "inode_table st2 = inode_table st1" using st2(3) by (simp add: same_but_buffers_sel)
  have o2: "open_slots st2 = open_slots st1" "slots_ok st2" using t2 1(2) by (simp_all add: open_slots_def slots_ok_def)
  have room: "open_slots st2 \<noteq> {..<length (inode_table st2)}" using assms(3) o2 t2 1(4) by (simp add: st1_def)
  have len: "length (disk_inode dev st2 ?n) = sizeof_inode" using assms(8) same_disk_disk_inode [OF sd2] by simp
  obtain g st3 where g: "ext2_iget dev ?n st2 = (Some g, st3)" "g \<notin> open_slots st2"
    "open_slots st3 = insert g (open_slots st2)" "inode (inode_table st3 ! g) = disk_inode dev st2 ?n"
    "\<forall>j. j \<noteq> g \<longrightarrow> inode_table st3 ! j = inode_table st2 ! j" "slots_ok st3"
    "length (inode_table st3) = length (inode_table st2)" "same_disk st2 st3" "mounted dev st3 = mounted dev st2"
    "\<forall>j<g. j \<in> open_slots st2"
    using iget_slot [OF o2(2) room len] by metis
  have "walk dev [c] st dir (Some f) = Some (st3, Some f, Some g)"
    using assms(4,5,7) st2(1) g(1) 1(5) same_disk_directory [OF 1(3), of dev ?ip]
    by (simp add: lookup_result_def flip: st1_def)
  then show thesis
    using g o2 t2 1 st2(2) same_disk_disk_inode [OF sd2] same_disk_trans [OF sd2 g(8)]
    by (intro that [of st3 g]) (simp_all add: st1_def)
qed

text \<open>
  A relative link. Opening a symbolic link in the root directory whose text, kept in the inode,
  is another name there returns handle 0 with the inode of the link's target; but the slot of
  handle 0 is free: the walk from the link starts by giving back the directory's slot, the target
  gets that slot, and the end of the walk gives it back again as the directory's, so the next inode
  read overwrites the open file's.
\<close>

theorem relative_link_slot_free:
  assumes m: "mounted dev st" and o: "open_slots st = {}" and ok: "slots_ok st" and short: "length name < 256"
    and root: "length (disk_inode dev st EXT2_ROOT_INO) = sizeof_inode"
      "S_ISDIR (i_mode (disk_inode dev st EXT2_ROOT_INO))"
      "good_directory dev (disk_inode dev st EXT2_ROOT_INO) st"
    and link: "components [] name = [c]" "map_of (directory dev (disk_inode dev st EXT2_ROOT_INO) st) c = Some il"
      "disk_inode dev st (int (unat il)) = ip" "length ip = sizeof_inode" "S_ISLNK (i_mode ip)" "i_blocks ip = 0"
    and body: "link_text (drop 40 ip) = Some target" "components [] target = [c']" "hd target \<noteq> SLASH"
    and to: "map_of (directory dev (disk_inode dev st EXT2_ROOT_INO) st) c' = Some it"
      "disk_inode dev st (int (unat it)) = ip'" "length ip' = sizeof_inode" "\<not> S_ISLNK (i_mode ip')"
  shows "\<exists>st'. ext2_open dev name st = Some (0, st') \<and> inode (inode_table st' ! 0) = ip' \<and> open_slots st' = {} \<and>
    (\<forall>ino. fst (ext2_iget dev ino st') \<in> {Some 0, None})"
proof -
  have two: "2 \<le> length (inode_table st)" using ok by (simp add: slots_ok_def)
  have full: "S \<noteq> {..<length (inode_table st)}" if "S \<subseteq> {0::nat}" for S
    using that two by (metis lessThan_iff one_less_numeral_iff order_less_le_trans semiring_norm(76) singletonD subsetD zero_neq_one)
  let ?root = EXT2_ROOT_INO
  obtain f st1 where f: "ext2_iget dev ?root st = (Some f, st1)" "open_slots st1 = insert f (open_slots st)"
    "inode (inode_table st1 ! f) = disk_inode dev st ?root" "slots_ok st1"
    "length (inode_table st1) = length (inode_table st)" "same_disk st st1" "mounted dev st1 = mounted dev st"
    "\<forall>j<f. j \<in> open_slots st"
    using iget_slot [OF ok _ root(1)] full [of "{}"] o by (metis empty_subsetI)
  have f0: "f = 0" using f(8) o by auto
  note d1 = same_disk_disk_inode [OF f(6), of dev] same_disk_directory [OF f(6), of dev]
  have q: "mounted dev st1" "open_slots (put_opt None st1) \<noteq> {..<length (inode_table st1)}"
    "inode (inode_table st1 ! 0) = disk_inode dev st1 ?root" "S_ISDIR (i_mode (disk_inode dev st1 ?root))"
    "good_directory dev (disk_inode dev st1 ?root) st1"
    "map_of (directory dev (disk_inode dev st1 ?root) st1) c = Some il"
    "length (disk_inode dev st1 (int (unat il))) = sizeof_inode"
    using f f0 m o root link(2-4) full [of "{0}"] by (simp_all add: d1 put_opt_def)
  obtain g st2 where g: "walk dev [c] st1 None (Some 0) = Some (st2, Some 0, Some g)"
    "g \<notin> open_slots (put_opt None st1)" "\<forall>j<g. j \<in> open_slots (put_opt None st1)"
    "open_slots st2 = insert g (open_slots (put_opt None st1))"
    "inode (inode_table st2 ! g) = disk_inode dev st1 (int (unat il))"
    "\<forall>j. j \<noteq> g \<longrightarrow> inode (inode_table st2 ! j) = inode (inode_table st1 ! j)"
    "slots_ok st2" "length (inode_table st2) = length (inode_table st1)" "same_disk st1 st2" "mounted dev st2"
    using walk_one [OF q(1) f(4) q(2-7)] .
  have ip: "inode (inode_table st2 ! g) = ip" using g(5) link(3) d1 by simp
  have g1: "g = 1"
  proof -
    have "g \<noteq> 0" "\<forall>j<g. j = 0" using g(2,3) f(2) o f0 by (auto simp: put_opt_def)
    then show ?thesis by (metis less_one linorder_neqE_nat zero_neq_one)
  qed
  define st3 where "st3 = ext2_iput g st2"
  have sd3: "same_disk st st3" using same_disk_trans [OF same_disk_trans [OF f(6) g(9)] iput_slot(5) [OF g(7)]] by (simp add: st3_def)
  have st3: "mounted dev st3" "slots_ok st3" "open_slots st3 = {0}" "length (inode_table st3) = length (inode_table st)"
    "inode (inode_table st3 ! 0) = disk_inode dev st ?root"
    using iput_slot [OF g(7)] g f o by (auto simp: st3_def f0 g1 put_opt_def)
  note d3 = same_disk_disk_inode [OF sd3, of dev] same_disk_directory [OF sd3, of dev]
  have p0: "open_slots (put_opt (Some 0) st3) = {}" using iput_slot(1) [OF st3(2), of 0] st3(3) by (simp add: put_opt_def)
  have q': "open_slots (put_opt (Some 0) st3) \<noteq> {..<length (inode_table st3)}"
    "inode (inode_table st3 ! 0) = disk_inode dev st3 ?root" "S_ISDIR (i_mode (disk_inode dev st3 ?root))"
    "good_directory dev (disk_inode dev st3 ?root) st3"
    "map_of (directory dev (disk_inode dev st3 ?root) st3) c' = Some it"
    "length (disk_inode dev st3 (int (unat it))) = sizeof_inode"
    using st3 p0 root to full [of "{}"] by (simp_all add: d3)
  obtain h st4 where h: "walk dev [c'] st3 (Some 0) (Some 0) = Some (st4, Some 0, Some h)"
    "h \<notin> open_slots (put_opt (Some 0) st3)" "\<forall>j<h. j \<in> open_slots (put_opt (Some 0) st3)"
    "open_slots st4 = insert h (open_slots (put_opt (Some 0) st3))"
    "inode (inode_table st4 ! h) = disk_inode dev st3 (int (unat it))"
    "\<forall>j. j \<noteq> h \<longrightarrow> inode (inode_table st4 ! j) = inode (inode_table st3 ! j)"
    "slots_ok st4" "length (inode_table st4) = length (inode_table st3)" "same_disk st3 st4" "mounted dev st4"
    using walk_one [OF st3(1,2) q'] .
  have ip': "inode (inode_table st4 ! h) = ip'" using h(5) to(2) d3 by simp
  have h0: "h = 0" using h(3) p0 by auto
  let ?st' = "ext2_iput 0 st4"
  have "\<not> iget_traps st" using m by (simp add: iget_traps_def mounted_def)
  then have n: "ext2_namei dev name st = Some (Some 0, ?st')"
    using f(1) short link body to(4) g(1) h(1) ip ip'
    by (simp add: ext2_namei_def f0 h0 read_link_def put_opt_def flip: st3_def)
  have st': "open_slots ?st' = {}" "inode (inode_table ?st' ! 0) = ip'" "slots_ok ?st'"
    using iput_slot [OF h(7)] h(4) ip' p0 h0 by auto
  have "fst (ext2_iget dev ino ?st') \<in> {Some 0, None}" for ino
  proof -
    have ff: "k = 0" if "first_free (inode_table ?st') = Some k" for k
      using that st'(1) by (auto simp: first_free_Some open_slots_def dest: spec [of _ 0])
    obtain r s where i: "ext2_iget dev ino ?st' = (r, s)" by fastforce
    then have "r \<in> {Some 0, None}" by (cases rule: iget_cases) (use ff in auto)
    then show ?thesis using i by simp
  qed
  then show ?thesis using n st' by (auto simp: ext2_open_def)
qed


lemma small_link_text: "link_text (drop 40 (image_dev small_image 3328 128)) = Some [0x74]"
proof -
  have "[40..<128] = 40 # 41 # [42..<128]" by (simp add: upt_conv_Cons)
  then have "drop 40 (image_dev small_image 3328 128) = 0x74 # 0 # map (\<lambda>i. small_image (3328 + i)) [42..<128]"
    by (simp add: image_dev_def drop_map small_image_def small_bytes_def)
  then show ?thesis by (simp add: link_text_def Let_def)
qed

lemma relative_link_slot_free_witness:
  "\<exists>st'. ext2_open (image_dev small_image) [0x6C] small_state = Some (0, st') \<and> open_slots st' = {}"
proof -
  let ?dev = "image_dev small_image"
  note d = small_disk_inode small_modes small_directory EXT2_ROOT_INO_def SLASH_def small_link_text
  have len: "length (image_dev small_image a 128) = sizeof_inode" for a by (simp add: image_dev_def sizeof_inode_def)
  have b: "i_blocks (image_dev small_image 3328 128) = 0"
    by (simp add: i_blocks_def le32_def byte_at_image0 small_image_def small_bytes_def)
  have "\<exists>st'. ext2_open ?dev [0x6C] small_state = Some (0, st') \<and>
      inode (inode_table st' ! 0) = image_dev small_image 3456 128 \<and> open_slots st' = {} \<and>
      (\<forall>ino. fst (ext2_iget ?dev ino st') \<in> {Some 0, None})"
    by (rule relative_link_slot_free [OF small_mounted small_open small_slots_ok,
          where c = "[0x6C]" and c' = "[0x74]" and target = "[0x74]" and il = 3 and it = 4 and ip = "image_dev small_image 3328 128"])
      (simp_all add: d len b)
  then show ?thesis by blast
qed

end
