(* ===== verification/Huft.thy ===== *)
theory Huft
  imports Prelude "HOL-Library.While_Combinator" "HOL-Library.Monad_Syntax"
begin

text \<open>
  The decoding tables of \<open>zip/inflate.c\<close>: \<open>huft_build\<close> makes from a list of code lengths a tree of
  tables, \<open>huft_free\<close> gives it back. A table is a block of the heap, named by a number; a pointer to
  its first entry is that number. The counters and codes stay below \<open>2 ^ 17\<close> and are natural
  numbers, the C variables of type \<open>int\<close> that go below 0 are integers. \<open>None\<close> is a loop that
  does not end.
\<close>

subsection \<open>Tables\<close>

datatype hval = Num u16 | Tbl nat

record huft =
  h_e :: u8
  h_b :: u8
  h_v :: hval

text \<open>
  The blocks: their entries, the link in the dummy entry before the first, and which are allocated.
  \<open>kmalloc\<close> gives a block that is not in use; the code does not test for a null pointer.
\<close>

record hheap =
  tab :: "nat \<Rightarrow> huft list"
  hlink :: "nat \<Rightarrow> nat option"
  live :: "nat \<Rightarrow> bool"
  brk :: nat

definition no_huft :: huft where
  "no_huft = \<lparr>h_e = 0, h_b = 0, h_v = Num 0\<rparr>"

definition alloc_table :: "nat \<Rightarrow> hheap \<Rightarrow> nat \<times> hheap" where
  "alloc_table z hp = (brk hp, hp\<lparr>tab := (tab hp)(brk hp := replicate z no_huft),
     hlink := (hlink hp)(brk hp := None), live := (live hp)(brk hp := True), brk := brk hp + 1\<rparr>)"

definition set_entry :: "nat \<Rightarrow> nat \<Rightarrow> huft \<Rightarrow> hheap \<Rightarrow> hheap" where
  "set_entry q j r hp = hp\<lparr>tab := (tab hp)(q := (tab hp q)[j := r])\<rparr>"

subsection \<open>Counting the lengths\<close>

definition BMAX :: nat where "BMAX = 16"

definition N_MAX :: nat where "N_MAX = 288"

definition length_counts :: "nat list \<Rightarrow> nat list" where
  "length_counts b = fold (\<lambda>l c. c[l := c ! l + 1]) b (replicate (BMAX + 1) 0)"

text \<open>\<open>for (j = 1; j <= BMAX; j++) if (c[j]) break;\<close> and the same downwards.\<close>

function first_used :: "nat list \<Rightarrow> nat \<Rightarrow> nat" where
  "first_used c j = (if j \<le> BMAX then if c ! j \<noteq> 0 then j else first_used c (j + 1) else j)"
  by auto
termination by (relation "measure (\<lambda>(c, j). Suc BMAX - j)") auto

fun last_used :: "nat list \<Rightarrow> nat \<Rightarrow> nat" where
  "last_used c i = (if i \<noteq> 0 then if c ! i \<noteq> 0 then i else last_used c (i - 1) else i)"

text \<open>The codes left over at each length; \<open>None\<close> is more codes than bits.\<close>

function left_over :: "nat list \<Rightarrow> nat \<Rightarrow> nat \<Rightarrow> int \<Rightarrow> int option" where
  "left_over c g j y =
     (if j < g then if y - int (c ! j) < 0 then None else left_over c g (j + 1) (2 * (y - int (c ! j)))
      else if y - int (c ! g) < 0 then None else Some (y - int (c ! g)))"
  by auto
termination by (relation "measure (\<lambda>(c, g, j, y). g - j)") auto

subsection \<open>The values in order of their lengths\<close>

definition offsets :: "nat list \<Rightarrow> nat \<Rightarrow> nat list" where
  "offsets c g = fold (\<lambda>i x. x[i + 1 := x ! i + c ! i]) [1..<g] (replicate (BMAX + 1) 0)"

definition sort_values :: "nat list \<Rightarrow> nat list \<Rightarrow> nat list \<times> nat list" where
  "sort_values b x =
     fold (\<lambda>i (x, v). if b ! i \<noteq> 0 then (x[b ! i := x ! (b ! i) + 1], v[x ! (b ! i) := i]) else (x, v))
       [0..<length b] (x, replicate N_MAX 0)"

subsection \<open>Building the tables\<close>

text \<open>
  The variables of the main loop: the code \<open>i\<close>, the level \<open>h\<close> of the current table, the bits \<open>w\<close>
  before it, the next value \<open>p\<close>, the code stack \<open>x\<close>, the tables \<open>u\<close>, the current table \<open>q\<close> and its
  number \<open>z\<close> of entries, the entry \<open>r\<close>, the caller's pointer, where the next link goes (\<open>None\<close> for
  the caller's pointer), the memory used, and the heap.
\<close>

record hbuild =
  hi :: nat
  hh :: int
  hw :: int
  hnext :: nat
  hx :: "nat list"
  hu :: "nat list"
  hq :: nat
  hz :: nat
  hr :: huft
  hroot :: "nat option"
  hlast :: "nat option"
  hmem :: u32
  heap :: hheap

text \<open>The bits of a new table: as few as the codes of the lengths from \<open>k\<close> up need, at most \<open>z\<close>.\<close>

function grow_bits :: "nat list \<Rightarrow> nat \<Rightarrow> nat \<Rightarrow> nat \<Rightarrow> nat \<Rightarrow> nat" where
  "grow_bits c z f xp j =
     (if j + 1 < z then
        if 2 * f \<le> c ! (xp + 1) then j + 1
        else grow_bits c z (2 * f - c ! (xp + 1)) (xp + 1) (j + 1)
      else j + 1)"
  by auto
termination by (relation "measure (\<lambda>(c, z, f, xp, j). z - j)") auto

definition table_bits :: "nat list \<Rightarrow> int \<Rightarrow> int \<Rightarrow> int \<Rightarrow> int \<Rightarrow> nat \<Rightarrow> nat" where
  "table_bits c g l k w a =
     (let z = nat (if g - w > l then l else g - w);
          j = nat (k - w);
          f = 2 ^ j
      in if f > a + 1 then grow_bits c z (f - (a + 1)) (nat k) j else j)"

text \<open>One turn of \<open>while (k > w + l)\<close>: a table on the next level, linked into the one before.\<close>

definition new_table :: "nat list \<Rightarrow> int \<Rightarrow> int \<Rightarrow> int \<Rightarrow> nat \<Rightarrow> hbuild \<Rightarrow> hbuild" where
  "new_table c g l k a st =
     (let h = hh st + 1;
          w = hw st + l;
          j = table_bits c g l k w a;
          z = 2 ^ j;
          (q, hp) = alloc_table z (heap st);
          st = st\<lparr>hh := h, hw := w, hz := z, hq := q, hmem := hmem st + of_nat z + 1, heap := hp,
                 hu := (hu st)[nat h := q]\<rparr>;
          st = (case hlast st of
                  None \<Rightarrow> st\<lparr>hroot := Some q\<rparr>
                | Some p \<Rightarrow> st\<lparr>heap := (heap st)\<lparr>hlink := (hlink (heap st))(p := Some q)\<rparr>\<rparr>);
          st = st\<lparr>hlast := Some q\<rparr>
      in if h \<noteq> 0 then
           let r = \<lparr>h_e = of_nat (16 + j), h_b = of_int l, h_v = Tbl q\<rparr>
           in st\<lparr>hx := (hx st)[nat h := hi st], hr := r,
                heap := set_entry (hu st ! nat (h - 1)) (drop_bit (nat (w - l)) (hi st)) r (heap st)\<rparr>
         else st)"

text \<open>The entry of the code: 16 marks a literal, 15 the end of the block, 99 an invalid code.\<close>

definition code_entry :: "nat list \<Rightarrow> nat \<Rightarrow> nat \<Rightarrow> nat list \<Rightarrow> nat list \<Rightarrow> int \<Rightarrow> hbuild \<Rightarrow> hbuild" where
  "code_entry v n s d e k st =
     (let st = st\<lparr>hr := (hr st)\<lparr>h_b := of_int (k - hw st)\<rparr>\<rparr>;
          val = v ! hnext st
      in if hnext st \<ge> n then st\<lparr>hr := (hr st)\<lparr>h_e := 99\<rparr>\<rparr>
         else if val < s then
           st\<lparr>hr := (hr st)\<lparr>h_e := (if val < 256 then 16 else 15), h_v := Num (of_nat val)\<rparr>, hnext := hnext st + 1\<rparr>
         else
           st\<lparr>hr := (hr st)\<lparr>h_e := of_nat (e ! (val - s)), h_v := Num (of_nat (d ! (val - s)))\<rparr>, hnext := hnext st + 1\<rparr>)"

text \<open>\<open>for (j = ..; j < z; j += f) q[j] = r;\<close> with \<open>f = 1 << m\<close>.\<close>

function fill_entries :: "nat \<Rightarrow> huft \<Rightarrow> nat \<Rightarrow> nat \<Rightarrow> nat \<Rightarrow> hheap \<Rightarrow> hheap" where
  "fill_entries q r m z j hp =
     (if j < z then fill_entries q r m z (j + 2 ^ m) (set_entry q j r hp) else hp)"
  by auto
termination by (relation "measure (\<lambda>(q, r, m, z, j, hp). z - j)") (auto simp: diff_less_mono2)

text \<open>The backwards increment, from \<open>j = 1 << (k - 1)\<close>.\<close>

function back_inc :: "nat \<Rightarrow> nat \<Rightarrow> nat" where
  "back_inc j i = (if i AND j \<noteq> 0 then back_inc (drop_bit 1 j) (i XOR j) else i XOR j)"
  by auto
termination
  by (relation "measure fst") (auto simp: drop_bit_eq_div intro!: div_less_dividend gr0I)

text \<open>The body of \<open>while (a--)\<close> for a code of \<open>k\<close> bits, with \<open>a\<close> more of them to come.\<close>

definition one_code :: "nat list \<Rightarrow> nat list \<Rightarrow> nat \<Rightarrow> nat \<Rightarrow> nat list \<Rightarrow> nat list \<Rightarrow> int \<Rightarrow> int \<Rightarrow> int \<Rightarrow>
    nat \<Rightarrow> hbuild \<Rightarrow> hbuild option" where
  "one_code c v n s d e g l k a st =
     do {
       st \<leftarrow> while_option (\<lambda>st. k > hw st + l) (new_table c g l k a) st;
       let st = code_entry v n s d e k st;
       let st = st\<lparr>heap := fill_entries (hq st) (hr st) (nat (k - hw st)) (hz st)
                    (drop_bit (nat (hw st)) (hi st)) (heap st)\<rparr>;
       let st = st\<lparr>hi := back_inc (2 ^ nat (k - 1)) (hi st)\<rparr>;
       while_option (\<lambda>st. hi st AND (2 ^ nat (hw st) - 1) \<noteq> hx st ! nat (hh st))
         (\<lambda>st. st\<lparr>hh := hh st - 1, hw := hw st - l\<rparr>) st
     }"

primrec codes_of_length :: "nat list \<Rightarrow> nat list \<Rightarrow> nat \<Rightarrow> nat \<Rightarrow> nat list \<Rightarrow> nat list \<Rightarrow> int \<Rightarrow> int \<Rightarrow> int \<Rightarrow>
    nat \<Rightarrow> hbuild \<Rightarrow> hbuild option" where
  "codes_of_length c v n s d e g l k 0 st = Some st"
| "codes_of_length c v n s d e g l k (Suc a) st =
     one_code c v n s d e g l k a st \<bind> codes_of_length c v n s d e g l k a"

primrec all_codes :: "nat list \<Rightarrow> nat list \<Rightarrow> nat \<Rightarrow> nat \<Rightarrow> nat list \<Rightarrow> nat list \<Rightarrow> int \<Rightarrow> int \<Rightarrow> nat list \<Rightarrow>
    hbuild \<Rightarrow> hbuild option" where
  "all_codes c v n s d e g l [] st = Some st"
| "all_codes c v n s d e g l (k # ks) st =
     codes_of_length c v n s d e g l (int k) (c ! k) st \<bind> all_codes c v n s d e g l ks"

text \<open>
  \<open>huft_build\<close> returns its result code, what it stores through \<open>t\<close> (\<open>None\<close> for nothing, \<open>Some None\<close>
  for the null pointer) and through \<open>m\<close>, the memory used and the heap.
\<close>

type_synonym huft_result = "int \<times> nat option option \<times> nat \<times> u32 \<times> hheap"

definition start_build :: "nat \<Rightarrow> nat list \<Rightarrow> u32 \<Rightarrow> hheap \<Rightarrow> hbuild" where
  "start_build l x hufts hp0 =
     \<lparr>hi = 0, hh = - 1, hw = - int l, hnext = 0, hx = x[0 := 0], hu = replicate BMAX 0, hq = 0, hz = 0,
      hr = no_huft, hroot = None, hlast = None, hmem = hufts, heap = hp0\<rparr>"

definition huft_build :: "nat list \<Rightarrow> nat \<Rightarrow> nat list \<Rightarrow> nat list \<Rightarrow> nat \<Rightarrow> u32 \<Rightarrow> hheap \<Rightarrow> huft_result option" where
  "huft_build b s d e m hufts hp0 =
     (let n = length b;
          c = length_counts b in
      if c ! 0 = n then Some (0, Some None, 0, hufts, hp0)
      else
        let j = first_used c 1;
            l = (if m < j then j else m);
            g = last_used c BMAX;
            l = (if l > g then g else l) in
        case left_over c g j (2 ^ j) of
          None \<Rightarrow> Some (2, None, l, hufts, hp0)
        | Some y \<Rightarrow>
            let c = c[g := c ! g + nat y];
                (x, v) = sort_values b (offsets c g)
            in map_option
                 (\<lambda>st. (if y \<noteq> 0 \<and> g \<noteq> 1 then 1 else 0, Some (hroot st), l, hmem st, heap st))
                 (all_codes c v n s d e (int g) (int l) [j..<g + 1] (start_build l x hufts hp0)))"

subsection \<open>Freeing the tables\<close>

partial_function (option) huft_free :: "nat option \<Rightarrow> hheap \<Rightarrow> hheap option" where
  "huft_free t hp =
     (case t of
        None \<Rightarrow> Some hp
      | Some p \<Rightarrow> huft_free (hlink hp p) (hp\<lparr>live := (live hp)(p := False)\<rparr>))"

declare huft_free.simps [code]

declare first_used.simps [simp del] last_used.simps [simp del] left_over.simps [simp del]
  grow_bits.simps [simp del] fill_entries.simps [simp del] back_inc.simps [simp del]

end
