(* ===== verification/Inflate.thy ===== *)
theory Inflate
  imports Huft
begin

text \<open>
  Decompression, \<open>zip/inflate.c\<close> and the buffers of \<open>zip/misc.c\<close>. The state has the input buffer
  with its reading position, the window and its writing position, the place the output is copied to,
  the bit buffer and the heap of tables. The file is a parameter \<open>rd\<close>: \<open>rd k buf\<close> is the input buffer
  after \<open>__bread\<close> of block \<open>k\<close> into \<open>buf\<close> (its result is not looked at). \<open>None\<close> stands for a loop
  that does not end and for a table entry that does not exist; \<open>Inl\<close> is a message after which the
  machine is halted.
\<close>

subsection \<open>State\<close>

record zip =
  inbuf :: "nat \<Rightarrow> u8"
  inptr :: u32
  insize :: u32
  block_number :: nat
  window :: "nat \<Rightarrow> u8"
  outcnt :: u32
  bytes_out :: u64
  dest_addr :: u64
  zmem :: "u64 \<Rightarrow> u8"
  bb :: u64
  bk :: nat
  hufts :: u32
  zheap :: hheap
  zmethod :: int
  pkzip :: bool
  extended :: bool

type_synonym reader = "nat \<Rightarrow> (nat \<Rightarrow> u8) \<Rightarrow> nat \<Rightarrow> u8"

definition INBUFSIZ :: u32 where "INBUFSIZ = 1024"

definition WSIZE :: u32 where "WSIZE = 0x8000"

subsection \<open>Input and output\<close>

definition fill_inbuf :: "reader \<Rightarrow> zip \<Rightarrow> u8 \<times> zip" where
  "fill_inbuf rd st =
     (let buf = rd (block_number st) (inbuf st)
      in (buf 0, st\<lparr>inbuf := buf, block_number := block_number st + 1, insize := INBUFSIZ, inptr := 1\<rparr>))"

definition get_byte :: "reader \<Rightarrow> zip \<Rightarrow> u8 \<times> zip" where
  "get_byte rd st =
     (if inptr st < insize st then (inbuf st (unat (inptr st)), st\<lparr>inptr := inptr st + 1\<rparr>) else fill_inbuf rd st)"

text \<open>\<open>memcpy\<close> of \<open>n\<close> bytes within the window, and from the window to the destination.\<close>

definition window_copy :: "nat \<Rightarrow> nat \<Rightarrow> nat \<Rightarrow> (nat \<Rightarrow> u8) \<Rightarrow> nat \<Rightarrow> u8" where
  "window_copy w d n win = (\<lambda>i. if w \<le> i \<and> i < w + n then win (d + (i - w)) else win i)"

definition copy_out :: "u64 \<Rightarrow> (nat \<Rightarrow> u8) \<Rightarrow> nat \<Rightarrow> (u64 \<Rightarrow> u8) \<Rightarrow> u64 \<Rightarrow> u8" where
  "copy_out a win n m = (\<lambda>x. if unat (x - a) < n then win (unat (x - a)) else m x)"

definition flush_window :: "zip \<Rightarrow> zip" where
  "flush_window st =
     (if outcnt st = 0 then st
      else let st = st\<lparr>bytes_out := bytes_out st + ucast (outcnt st)\<rparr>
        in if dest_addr st \<noteq> 0
           then st\<lparr>zmem := copy_out (dest_addr st) (window st) (unat (outcnt st)) (zmem st),
                   dest_addr := dest_addr st + ucast (outcnt st)\<rparr>
           else st)"

definition flush_output :: "u32 \<Rightarrow> zip \<Rightarrow> zip" where
  "flush_output w st = flush_window (st\<lparr>outcnt := w\<rparr>)"

text \<open>The local copies \<open>b\<close>, \<open>k\<close> of the bit buffer and \<open>w\<close> of the window position.\<close>

record local_bits =
  lb :: u64
  lk :: nat
  lw :: u32

definition load :: "zip \<Rightarrow> local_bits" where
  "load st = \<lparr>lb = bb st, lk = bk st, lw = outcnt st\<rparr>"

definition store_bits :: "local_bits \<Rightarrow> zip \<Rightarrow> zip" where
  "store_bits l st = st\<lparr>bb := lb l, bk := lk l\<rparr>"

definition store_all :: "local_bits \<Rightarrow> zip \<Rightarrow> zip" where
  "store_all l st = (store_bits l st)\<lparr>outcnt := lw l\<rparr>"

text \<open>\<open>window[w++] = c\<close>, and the window written out when it is full.\<close>

definition put_window :: "u8 \<Rightarrow> local_bits \<Rightarrow> zip \<Rightarrow> local_bits \<times> zip" where
  "put_window c l st =
     (let st = st\<lparr>window := (window st)(unat (lw l) := c)\<rparr>; l = l\<lparr>lw := lw l + 1\<rparr>
      in if lw l = WSIZE then (l\<lparr>lw := 0\<rparr>, flush_output (lw l) st) else (l, st))"

subsection \<open>Bits\<close>

text \<open>\<open>NEEDBITS\<close> and \<open>DUMPBITS\<close>; the count of bits is an \<open>unsigned\<close> that wraps below 0.\<close>

function needbits :: "reader \<Rightarrow> nat \<Rightarrow> local_bits \<Rightarrow> zip \<Rightarrow> local_bits \<times> zip" where
  "needbits rd n l st =
     (if lk l < n then
        let (c, st) = get_byte rd st
        in needbits rd n (l\<lparr>lb := lb l OR push_bit (lk l) (ucast c), lk := lk l + 8\<rparr>) st
      else (l, st))"
  by auto
termination by (relation "measure (\<lambda>(rd, n, l, st). n - lk l)") auto

definition dumpbits :: "nat \<Rightarrow> local_bits \<Rightarrow> local_bits" where
  "dumpbits n l = l\<lparr>lb := drop_bit n (lb l), lk := (lk l + 2 ^ 32 - n) mod 2 ^ 32\<rparr>"

definition mask_bits :: "u16 list" where
  "mask_bits = [0x0000, 0x0001, 0x0003, 0x0007, 0x000f, 0x001f, 0x003f, 0x007f, 0x00ff,
     0x01ff, 0x03ff, 0x07ff, 0x0fff, 0x1fff, 0x3fff, 0x7fff, 0xffff]"

definition low_bits :: "nat \<Rightarrow> local_bits \<Rightarrow> u32" where
  "low_bits n l = ucast (lb l) AND ucast (mask_bits ! n)"

subsection \<open>Tables of constants\<close>

definition border :: "nat list" where
  "border = [16, 17, 18, 0, 8, 7, 9, 6, 10, 5, 11, 4, 12, 3, 13, 2, 14, 1, 15]"

definition cplens :: "nat list" where
  "cplens = [3, 4, 5, 6, 7, 8, 9, 10, 11, 13, 15, 17, 19, 23, 27, 31,
     35, 43, 51, 59, 67, 83, 99, 115, 131, 163, 195, 227, 258, 0, 0]"

definition cplext :: "nat list" where
  "cplext = [0, 0, 0, 0, 0, 0, 0, 0, 1, 1, 1, 1, 2, 2, 2, 2,
     3, 3, 3, 3, 4, 4, 4, 4, 5, 5, 5, 5, 0, 99, 99]"

definition cpdist :: "nat list" where
  "cpdist = [1, 2, 3, 4, 5, 7, 9, 13, 17, 25, 33, 49, 65, 97, 129, 193,
     257, 385, 513, 769, 1025, 1537, 2049, 3073, 4097, 6145, 8193, 12289, 16385, 24577]"

definition cpdext :: "nat list" where
  "cpdext = [0, 0, 0, 0, 1, 1, 2, 2, 3, 3, 4, 4, 5, 5, 6, 6,
     7, 7, 8, 8, 9, 9, 10, 10, 11, 11, 12, 12, 13, 13]"

definition lbits :: nat where "lbits = 9"

definition dbits :: nat where "dbits = 6"

subsection \<open>Codes\<close>

text \<open>The entry at an index of a table; a null pointer and an index after the table have none.\<close>

definition fetch :: "hheap \<Rightarrow> nat option \<Rightarrow> u32 \<Rightarrow> huft option" where
  "fetch hp t i = (case t of None \<Rightarrow> None
     | Some q \<Rightarrow> if unat i < length (tab hp q) then Some (tab hp q ! unat i) else None)"

definition v_n :: "huft \<Rightarrow> u16 option" where
  "v_n t = (case h_v t of Num n \<Rightarrow> Some n | Tbl q \<Rightarrow> None)"

definition v_t :: "huft \<Rightarrow> nat option" where
  "v_t t = (case h_v t of Num n \<Rightarrow> None | Tbl q \<Rightarrow> Some q)"

text \<open>The loop over the tables after the first; no entry is an invalid code.\<close>

partial_function (option) sub_tables ::
  "reader \<Rightarrow> huft \<Rightarrow> local_bits \<Rightarrow> zip \<Rightarrow> (huft option \<times> local_bits \<times> zip) option" where
  "sub_tables rd t l st =
     (if h_e t > 16 then
        if h_e t = 99 then Some (None, l, st)
        else
          let l = dumpbits (unat (h_b t)) l;
              e = unat (h_e t - 16);
              (l, st) = needbits rd e l st
          in do {
               t \<leftarrow> fetch (zheap st) (v_t t) (low_bits e l);
               sub_tables rd t l st
             }
      else Some (Some t, l, st))"

text \<open>\<open>NEEDBITS\<close> for a table, its entry, the tables after it, and \<open>DUMPBITS\<close> of the last.\<close>

definition decode_entry ::
  "reader \<Rightarrow> nat option \<Rightarrow> nat \<Rightarrow> local_bits \<Rightarrow> zip \<Rightarrow> (huft option \<times> local_bits \<times> zip) option" where
  "decode_entry rd tl' bl l st =
     (let (l, st) = needbits rd bl l st in do {
        t \<leftarrow> fetch (zheap st) tl' (low_bits bl l);
        (t, l, st) \<leftarrow> sub_tables rd t l st;
        Some (case t of None \<Rightarrow> (None, l, st) | Some t \<Rightarrow> (Some t, dumpbits (unat (h_b t)) l, st))
      })"

text \<open>The copy from distance \<open>d\<close>, in pieces that end where the window ends.\<close>

fun slow_copy :: "nat \<Rightarrow> nat \<Rightarrow> nat \<Rightarrow> (nat \<Rightarrow> u8) \<Rightarrow> nat \<Rightarrow> u8" where
  "slow_copy w d 0 win = win"
| "slow_copy w d (Suc n) win = slow_copy (Suc w) (Suc d) n (win(w := win d))"

partial_function (option) copy_loop :: "u32 \<Rightarrow> u32 \<Rightarrow> local_bits \<Rightarrow> zip \<Rightarrow> (local_bits \<times> zip) option" where
  "copy_loop n d l st =
     (let d = d AND (WSIZE - 1);
          w = lw l;
          e = WSIZE - (if d > w then d else w);
          e = (if e > n then n else e);
          n = n - e;
          win = (if w - d \<ge> e then window_copy (unat w) (unat d) (unat e) (window st)
                 else slow_copy (unat w) (unat d) (unat e) (window st));
          st = st\<lparr>window := win\<rparr>;
          w = w + e;
          d = d + e;
          (w, st) = (if w = WSIZE then (0, flush_output w st) else (w, st));
          l = l\<lparr>lw := w\<rparr>
      in if n \<noteq> 0 then copy_loop n d l st else Some (l, st))"

text \<open>A length has been decoded to the entry \<open>t\<close>: its extra bits, the distance and the copy.\<close>

definition copy_match ::
  "reader \<Rightarrow> nat option \<Rightarrow> nat \<Rightarrow> huft \<Rightarrow> local_bits \<Rightarrow> zip \<Rightarrow> (bool \<times> local_bits \<times> zip) option" where
  "copy_match rd td bd t l st =
     (let e = unat (h_e t);
          (l, st) = needbits rd e l st
      in do {
           vn \<leftarrow> v_n t;
           let n = ucast vn + low_bits e l;
           let l = dumpbits e l;
           (t, l, st) \<leftarrow> decode_entry rd td bd l st;
           case t of None \<Rightarrow> Some (False, l, st)
           | Some t \<Rightarrow>
               let e = unat (h_e t);
                   (l, st) = needbits rd e l st
               in do {
                    vn \<leftarrow> v_n t;
                    let d = lw l - ucast vn - low_bits e l;
                    (l, st) \<leftarrow> copy_loop n d (dumpbits e l) st;
                    Some (True, l, st)
                  }
         })"

partial_function (option) codes_loop ::
  "reader \<Rightarrow> nat option \<Rightarrow> nat option \<Rightarrow> nat \<Rightarrow> nat \<Rightarrow> local_bits \<Rightarrow> zip \<Rightarrow> (bool \<times> local_bits \<times> zip) option" where
  "codes_loop rd tl' td bl bd l st = do {
     (t, l, st) \<leftarrow> decode_entry rd tl' bl l st;
     case t of None \<Rightarrow> Some (False, l, st)
     | Some t \<Rightarrow>
         if h_e t = 16 then do {
           vn \<leftarrow> v_n t;
           let (l, st) = put_window (ucast vn) l st;
           codes_loop rd tl' td bl bd l st
         }
         else if h_e t = 15 then Some (True, l, st)
         else do {
           (ok, l, st) \<leftarrow> copy_match rd td bd t l st;
           if ok then codes_loop rd tl' td bl bd l st else Some (False, l, st)
         }
   }"

text \<open>The results are the codes of the C functions; on an error the globals are not restored.\<close>

definition inflate_codes ::
  "reader \<Rightarrow> nat option \<Rightarrow> nat option \<Rightarrow> nat \<Rightarrow> nat \<Rightarrow> zip \<Rightarrow> (int \<times> zip) option" where
  "inflate_codes rd tl' td bl bd st =
     map_option (\<lambda>(ok, l, st). if ok then (0, store_all l st) else (1, st)) (codes_loop rd tl' td bl bd (load st) st)"

subsection \<open>Blocks\<close>

fun stored_bytes :: "reader \<Rightarrow> nat \<Rightarrow> local_bits \<Rightarrow> zip \<Rightarrow> local_bits \<times> zip" where
  "stored_bytes rd 0 l st = (l, st)"
| "stored_bytes rd (Suc n) l st =
     (let (l, st) = needbits rd 8 l st;
          (l, st) = put_window (ucast (lb l)) l st
      in stored_bytes rd n (dumpbits 8 l) st)"

definition inflate_stored :: "reader \<Rightarrow> zip \<Rightarrow> int \<times> zip" where
  "inflate_stored rd st =
     (let l = load st;
          l = dumpbits (lk l mod 8) l;
          (l, st) = needbits rd 16 l st;
          n = (ucast (lb l) :: u32) AND 0xffff;
          l = dumpbits 16 l;
          (l, st) = needbits rd 16 l st
      in if n \<noteq> ucast (NOT (lb l) AND 0xffff) then (1, st)
         else let (l, st) = stored_bytes rd (unat n) (dumpbits 16 l) st
           in (0, store_all l st))"

text \<open>\<open>huft_build\<close> and \<open>huft_free\<close> on the state; the pointer to the table is \<open>None\<close> when it is not stored.\<close>

definition build :: "nat list \<Rightarrow> nat \<Rightarrow> nat list \<Rightarrow> nat list \<Rightarrow> nat \<Rightarrow> zip \<Rightarrow>
    (int \<times> nat option \<times> nat \<times> zip) option" where
  "build b s d e m st =
     map_option (\<lambda>(i, t, m, mem, hp). (i, case_option None id t, m, st\<lparr>hufts := mem, zheap := hp\<rparr>))
       (huft_build b s d e m (hufts st) (zheap st))"

definition free_table :: "nat option \<Rightarrow> zip \<Rightarrow> zip option" where
  "free_table t st = map_option (\<lambda>hp. st\<lparr>zheap := hp\<rparr>) (huft_free t (zheap st))"

definition fixed_lengths :: "nat list" where
  "fixed_lengths = replicate 144 8 @ replicate 112 9 @ replicate 24 7 @ replicate 8 8"

definition inflate_fixed :: "reader \<Rightarrow> zip \<Rightarrow> (int \<times> zip) option" where
  "inflate_fixed rd st = do {
     (i, tl', bl, st) \<leftarrow> build fixed_lengths 257 cplens cplext 7 st;
     if i \<noteq> 0 then Some (i, st)
     else do {
       (i, td, bd, st) \<leftarrow> build (replicate 30 5) 0 cpdist cpdext 5 st;
       if i > 1 then map_option (\<lambda>st. (i, st)) (free_table tl' st)
       else do {
         (i, st) \<leftarrow> inflate_codes rd tl' td bl bd st;
         if i \<noteq> 0 then Some (1, st)
         else do {
           st \<leftarrow> free_table tl' st;
           st \<leftarrow> free_table td st;
           Some (0, st)
         }
       }
     }
   }"

text \<open>The lengths of the codes for lengths, three bits each, in the order of \<open>border\<close>.\<close>

fun bit_lengths :: "reader \<Rightarrow> nat list \<Rightarrow> nat \<Rightarrow> nat list \<Rightarrow> local_bits \<Rightarrow> zip \<Rightarrow> nat list \<times> local_bits \<times> zip" where
  "bit_lengths rd [] nb ll l st = (ll, l, st)"
| "bit_lengths rd (i # is) 0 ll l st = bit_lengths rd is 0 (ll[i := 0]) l st"
| "bit_lengths rd (i # is) (Suc nb) ll l st =
     (let (l, st) = needbits rd 3 l st
      in bit_lengths rd is nb (ll[i := unat ((ucast (lb l) :: u32) AND 7)]) (dumpbits 3 l) st)"

text \<open>\<open>ll[i++] = x\<close>, \<open>j\<close> times.\<close>

fun repeat_length :: "nat \<Rightarrow> nat \<Rightarrow> nat \<Rightarrow> nat list \<Rightarrow> nat list" where
  "repeat_length 0 i x ll = ll"
| "repeat_length (Suc j) i x ll = repeat_length j (i + 1) x (ll[i := x])"

text \<open>The lengths of literal and distance codes; no list for a repetition past the end.\<close>

partial_function (option) read_lengths :: "reader \<Rightarrow> nat option \<Rightarrow> nat \<Rightarrow> nat \<Rightarrow> nat \<Rightarrow> nat \<Rightarrow> nat list \<Rightarrow>
    local_bits \<Rightarrow> zip \<Rightarrow> (nat list option \<times> local_bits \<times> zip) option" where
  "read_lengths rd tl' bl n i prev ll l st =
     (if i < n then
        let (l, st) = needbits rd bl l st in do {
          t \<leftarrow> fetch (zheap st) tl' (low_bits bl l);
          let l = dumpbits (unat (h_b t)) l;
          j \<leftarrow> v_n t;
          if j < 16 then read_lengths rd tl' bl n (i + 1) (unat j) (ll[i := unat j]) l st
          else if j = 16 then
            let (l, st) = needbits rd 2 l st;
                j = 3 + unat ((ucast (lb l) :: u32) AND 3);
                l = dumpbits 2 l
            in if i + j > n then Some (None, l, st)
               else read_lengths rd tl' bl n (i + j) prev (repeat_length j i prev ll) l st
          else
            let (bits, base) = (if j = 17 then (3, 3) else (7, 11));
                (l, st) = needbits rd bits l st;
                j = base + unat ((ucast (lb l) :: u32) AND (2 ^ bits - 1));
                l = dumpbits bits l
            in if i + j > n then Some (None, l, st)
               else read_lengths rd tl' bl n (i + j) 0 (repeat_length j i 0 ll) l st
        }
      else Some (Some ll, l, st))"

text \<open>The tables of the literal and distance codes, and the codes with them.\<close>

definition dynamic_codes :: "reader \<Rightarrow> nat list \<Rightarrow> nat list \<Rightarrow> zip \<Rightarrow> (string + int \<times> zip) option" where
  "dynamic_codes rd ll dl st = do {
     (i, tl', bl, st) \<leftarrow> build ll 257 cplens cplext lbits st;
     if i \<noteq> 0 then Some (if i = 1 then Inl '' incomplete literal tree\<newline>'' else Inr (i, st))
     else do {
       (i, td, bd, st) \<leftarrow> build dl 0 cpdist cpdext dbits st;
       if i = 1 then Some (Inl '' incomplete distance tree\<newline>'')
       else if i \<noteq> 0 then map_option (\<lambda>st. Inr (i, st)) (free_table tl' st)
       else do {
         (i, st) \<leftarrow> inflate_codes rd tl' td bl bd st;
         if i \<noteq> 0 then Some (Inr (1, st))
         else do {
           st \<leftarrow> free_table tl' st;
           st \<leftarrow> free_table td st;
           Some (Inr (0, st))
         }
       }
     }
   }"

definition inflate_dynamic :: "reader \<Rightarrow> zip \<Rightarrow> (string + int \<times> zip) option" where
  "inflate_dynamic rd st =
     (let l = load st;
          (l, st) = needbits rd 5 l st;
          nl = 257 + unat ((ucast (lb l) :: u32) AND 0x1f);
          (l, st) = needbits rd 5 (dumpbits 5 l) st;
          nd = 1 + unat ((ucast (lb l) :: u32) AND 0x1f);
          (l, st) = needbits rd 4 (dumpbits 5 l) st;
          nb = 4 + unat ((ucast (lb l) :: u32) AND 0xf);
          l = dumpbits 4 l
      in if nl > 286 \<or> nd > 30 then Some (Inr (1, st))
         else let (ll, l, st) = bit_lengths rd border nb (replicate 316 0) l st in do {
           (i, tl', bl, st) \<leftarrow> build (take 19 ll) 19 [] [] 7 st;
           if i \<noteq> 0 then
             (if i = 1 then map_option (\<lambda>st. Inr (i, st)) (free_table tl' st) else Some (Inr (i, st)))
           else do {
             (ll, l, st) \<leftarrow> read_lengths rd tl' bl (nl + nd) 0 0 ll l st;
             case ll of None \<Rightarrow> Some (Inr (1, st))
             | Some ll \<Rightarrow> do {
                 st \<leftarrow> free_table tl' st;
                 dynamic_codes rd (take nl ll) (take nd (drop nl ll)) (store_bits l st)
               }
           }
         })"

definition inflate_block :: "reader \<Rightarrow> zip \<Rightarrow> (string + int \<times> bool \<times> zip) option" where
  "inflate_block rd st =
     (let (l, st) = needbits rd 1 (load st) st;
          e = (lb l AND 1 \<noteq> 0);
          (l, st) = needbits rd 2 (dumpbits 1 l) st;
          t = unat ((ucast (lb l) :: u32) AND 3);
          st = store_bits (dumpbits 2 l) st
      in if t = 2 then map_option (map_sum id (\<lambda>(r, st). (r, e, st))) (inflate_dynamic rd st)
         else if t = 0 then (let (r, st) = inflate_stored rd st in Some (Inr (r, e, st)))
         else if t = 1 then map_option (\<lambda>(r, st). Inr (r, e, st)) (inflate_fixed rd st)
         else Some (Inr (2, e, st)))"

partial_function (option) inflate_blocks :: "reader \<Rightarrow> zip \<Rightarrow> (string + int \<times> zip) option" where
  "inflate_blocks rd st = do {
     res \<leftarrow> inflate_block rd (st\<lparr>hufts := 0\<rparr>);
     case res of Inl msg \<Rightarrow> Some (Inl msg)
     | Inr (r, e, st) \<Rightarrow> if r \<noteq> 0 then Some (Inr (r, st)) else if e then Some (Inr (0, st)) else inflate_blocks rd st
   }"

text \<open>\<open>while (bk >= 8) \<lbrace> bk -= 8; inptr--; \<rbrace>\<close>\<close>

fun undo_lookahead :: "nat \<Rightarrow> u32 \<Rightarrow> nat \<times> u32" where
  "undo_lookahead k p = (if k \<ge> 8 then undo_lookahead (k - 8) (p - 1) else (k, p))"

declare undo_lookahead.simps [simp del] needbits.simps [simp del]

definition inflate :: "reader \<Rightarrow> zip \<Rightarrow> (string + int \<times> zip) option" where
  "inflate rd st = do {
     res \<leftarrow> inflate_blocks rd (st\<lparr>outcnt := 0, bk := 0, bb := 0\<rparr>);
     case res of Inl msg \<Rightarrow> Some (Inl msg)
     | Inr (r, st) \<Rightarrow>
         if r \<noteq> 0 then Some (Inr (r, st))
         else let (k, p) = undo_lookahead (bk st) (inptr st)
           in Some (Inr (0, flush_output (outcnt st) (st\<lparr>bk := k, inptr := p\<rparr>)))
   }"

declare sub_tables.simps [code] copy_loop.simps [code] codes_loop.simps [code] read_lengths.simps [code] inflate_blocks.simps [code]

end
