(* ===== verification/Bit_Stream.thy ===== *)
theory Bit_Stream
  imports Inflate
begin

text \<open>
  The bit buffer of \<open>inflate.c\<close> over the file: \<open>NEEDBITS\<close> and \<open>DUMPBITS\<close> read the bits of the file one
  after the other, the lowest bit of a byte first. A position in the file is a number of bits.
\<close>

subsection \<open>Bits of the file\<close>

type_synonym contents = "nat \<Rightarrow> u8"

definition fbit :: "contents \<Rightarrow> nat \<Rightarrow> bool" where
  "fbit f P = bit (f (P div 8)) (P mod 8)"

text \<open>The number in the \<open>k\<close> bits from \<open>P\<close> on.\<close>

fun fnum :: "contents \<Rightarrow> nat \<Rightarrow> nat \<Rightarrow> nat" where
  "fnum f P 0 = 0"
| "fnum f P (Suc k) = of_bool (fbit f P) + 2 * fnum f (Suc P) k"

lemma fnum_less: "fnum f P k < 2 ^ k"
proof (induction k arbitrary: P)
  case (Suc k)
  have "of_bool (fbit f P) + 2 * fnum f (Suc P) k < 2 * (fnum f (Suc P) k + 1)" by simp
  also have "\<dots> \<le> 2 * 2 ^ k" using Suc [of "Suc P"] by (intro mult_le_mono2) simp
  finally show ?case by simp
qed simp

lemma fnum_add: "fnum f P (a + b) = fnum f P a + 2 ^ a * fnum f (P + a) b"
  by (induction a arbitrary: P) (simp_all add: algebra_simps)

lemma fnum_mod: "a \<le> b \<Longrightarrow> fnum f P b mod 2 ^ a = fnum f P a"
  using fnum_add [of f P a "b - a"] fnum_less [of f P a] by simp

lemma fnum_div: "a \<le> b \<Longrightarrow> fnum f P b div 2 ^ a = fnum f (P + a) (b - a)"
  using fnum_add [of f P a "b - a"] fnum_less [of f P a] by simp

lemma fnum_part: "a + b \<le> c \<Longrightarrow> fnum f P c div 2 ^ a mod 2 ^ b = fnum f (P + a) b"
  by (simp add: fnum_div fnum_mod)

lemma fnum_horner: "fnum f P k = horner_sum of_bool 2 (map (\<lambda>i. fbit f (P + i)) [0..<k])"
proof (induction k arbitrary: P)
  case (Suc k)
  have "map (\<lambda>i. fbit f (P + i)) [0..<Suc k] = fbit f P # map (\<lambda>i. fbit f (Suc P + i)) [0..<k]"
    unfolding upt_conv_Cons [OF zero_less_Suc] map_Suc_upt [symmetric] by (simp add: o_def)
  then show ?case by (simp only: Suc fnum.simps horner_sum_simps)
qed simp

lemma fnum_byte: "fnum f (8 * p) 8 = unat (f p)"
proof -
  have "map (\<lambda>i. fbit f (8 * p + i)) [0..<8] = map (bit (unat (f p))) [0..<8]"
    by (auto simp: fbit_def bit_unsigned_iff)
  then have "fnum f (8 * p) 8 = take_bit 8 (unat (f p))"
    unfolding fnum_horner by (simp only: horner_sum_bit_eq_take_bit)
  also have "unat (f p) < 256" by (rule less_le_trans [OF unsigned_less]) simp
  then have "take_bit 8 (unat (f p)) = unat (f p)" by (simp add: take_bit_nat_eq_self)
  finally show ?thesis .
qed

subsection \<open>Bytes\<close>

text \<open>
  The device hands over the blocks of the file, 1024 bytes each, one after the other: what the buffer
  keeps of the block before may be part of the next.
\<close>

definition reads :: "contents \<Rightarrow> reader \<Rightarrow> bool" where
  "reads f rd \<longleftrightarrow> (\<forall>k buf. k = 0 \<or> (\<forall>j<1024. buf j = f (1024 * (k - 1) + j)) \<longrightarrow>
     (\<forall>i<1024. rd k buf i = f (1024 * k + i)))"

definition at_byte :: "contents \<Rightarrow> zip \<Rightarrow> nat \<Rightarrow> bool" where
  "at_byte f st p \<longleftrightarrow>
     insize st = 0 \<and> inptr st = 0 \<and> p = 0 \<and> block_number st = 0 \<or>
     insize st = 1024 \<and> inptr st \<le> 1024 \<and> 1 \<le> block_number st \<and> p + 1024 = 1024 * block_number st + unat (inptr st) \<and>
       (\<forall>i<1024. inbuf st i = f (p - unat (inptr st) + i))"

text \<open>The parts of the state that reading does not touch.\<close>

definition same_output :: "zip \<Rightarrow> zip \<Rightarrow> bool" where
  "same_output st st' \<longleftrightarrow> st' = st\<lparr>inbuf := inbuf st', inptr := inptr st', insize := insize st', block_number := block_number st'\<rparr>"

lemma same_output_refl [simp]: "same_output st st"
  by (simp add: same_output_def)

lemma same_output_trans: "same_output st st' \<Longrightarrow> same_output st' st'' \<Longrightarrow> same_output st st''"
  unfolding same_output_def by (cases st; cases st'; cases st'') simp

lemma same_output_fields:
  assumes "same_output st st'"
  shows "window st' = window st" "outcnt st' = outcnt st" "bytes_out st' = bytes_out st" "dest_addr st' = dest_addr st"
    "zmem st' = zmem st" "bb st' = bb st" "bk st' = bk st" "hufts st' = hufts st" "zheap st' = zheap st"
    "zmethod st' = zmethod st" "pkzip st' = pkzip st" "extended st' = extended st"
proof -
  obtain a b c d where "st' = st\<lparr>inbuf := a, inptr := b, insize := c, block_number := d\<rparr>"
    using assms unfolding same_output_def by blast
  then show "window st' = window st" "outcnt st' = outcnt st" "bytes_out st' = bytes_out st" "dest_addr st' = dest_addr st"
      "zmem st' = zmem st" "bb st' = bb st" "bk st' = bk st" "hufts st' = hufts st" "zheap st' = zheap st"
      "zmethod st' = zmethod st" "pkzip st' = pkzip st" "extended st' = extended st" by simp_all
qed

lemma get_byte_at:
  assumes rd: "reads f rd" and at: "at_byte f st p"
  shows "fst (get_byte rd st) = f p" "at_byte f (snd (get_byte rd st)) (Suc p)" "same_output st (snd (get_byte rd st))"
    "1 \<le> inptr (snd (get_byte rd st))"
proof -
  have "fst (get_byte rd st) = f p \<and> at_byte f (snd (get_byte rd st)) (Suc p) \<and> same_output st (snd (get_byte rd st)) \<and>
    1 \<le> inptr (snd (get_byte rd st))"
  proof (cases "inptr st < insize st")
    case True
    then have st: "insize st = 1024" "1 \<le> block_number st" "p + 1024 = 1024 * block_number st + unat (inptr st)"
        "\<forall>i<1024. inbuf st i = f (p - unat (inptr st) + i)"
      using at by (auto simp: at_byte_def)
    have ip: "unat (inptr st) < 1024" using True st(1) by (simp add: word_less_nat_alt)
    then have suc: "unat (inptr st + 1) = Suc (unat (inptr st))" by (simp add: unat_word_ariths)
    have p: "unat (inptr st) \<le> p" using st(2,3) by linarith
    have "inptr st + 1 \<le> 1024" "1 \<le> inptr st + 1" using suc ip by (simp_all add: word_le_nat_alt)
    then show ?thesis
      using True st ip p suc by (auto simp: get_byte_def at_byte_def same_output_def)
  next
    case False
    have p: "p = 1024 * block_number st"
      using at False by (auto simp: at_byte_def word_less_nat_alt word_le_nat_alt)
    have "block_number st = 0 \<or> (\<forall>j<1024. inbuf st j = f (1024 * (block_number st - 1) + j))"
    proof (cases "block_number st = 0")
      case False
      then have "insize st = 1024" "unat (inptr st) = 1024" "\<forall>i<1024. inbuf st i = f (p - unat (inptr st) + i)"
        using at \<open>\<not> inptr st < insize st\<close> by (auto simp: at_byte_def word_less_nat_alt word_le_nat_alt)
      then show ?thesis using p by (simp add: diff_mult_distrib2)
    qed simp
    then have "rd (block_number st) (inbuf st) i = f (p + i)" if "i < 1024" for i
      using rd that unfolding reads_def p by blast
    from this [of 0] this show ?thesis
      using False p by (auto simp: get_byte_def fill_inbuf_def at_byte_def same_output_def INBUFSIZ_def Let_def)
  qed
  then show "fst (get_byte rd st) = f p" "at_byte f (snd (get_byte rd st)) (Suc p)" "same_output st (snd (get_byte rd st))"
    "1 \<le> inptr (snd (get_byte rd st))" by blast+
qed

subsection \<open>The bit buffer\<close>

text \<open>The next bit is number \<open>P\<close> of the file; those in the buffer are ahead of the next byte.\<close>

definition at_bit :: "contents \<Rightarrow> local_bits \<Rightarrow> zip \<Rightarrow> nat \<Rightarrow> bool" where
  "at_bit f l st P \<longleftrightarrow> lk l \<le> 40 \<and> unat (lb l) = fnum f P (lk l) \<and> (\<exists>p. at_byte f st p \<and> 8 * p = P + lk l) \<and>
     (8 \<le> lk l \<longrightarrow> 1 \<le> inptr st)"

lemma or_push:
  fixes x y :: nat
  assumes "x < 2 ^ k"
  shows "x OR push_bit k y = x + 2 ^ k * y"
proof -
  have "\<not> bit x i \<or> \<not> bit (push_bit k y) i" for i
  proof (cases "i < k")
    case True
    then show ?thesis by (simp add: bit_push_bit_iff)
  next
    case False
    then have "x div 2 ^ i = 0" using assms by (meson div_less le_less_trans less_le_trans not_le power_increasing_iff one_less_numeral_iff semiring_norm(76))
    then show ?thesis by (simp add: bit_iff_odd)
  qed
  then show ?thesis by (simp add: disjunctive_add push_bit_eq_mult mult.commute)
qed

lemma or_push_word:
  fixes b :: u64 and c :: u8
  assumes "unat b < 2 ^ k" "k \<le> 32"
  shows "unat (b OR push_bit k (ucast c)) = unat b + 2 ^ k * unat c"
proof -
  have "unat (push_bit k (ucast c :: u64)) = push_bit k (unat c)"
  proof -
    have "unat (ucast c :: u64) = unat c" by (simp add: unat_ucast_mod unsigned_less [THEN less_le_trans])
    moreover have "2 ^ k * unat c < 2 ^ 32 * 2 ^ 8"
    proof (rule mult_le_less_imp_less)
      show "unat c < 2 ^ 8" using unsigned_less [of c] by simp
      show "(2::nat) ^ k \<le> 2 ^ 32" using assms(2) by (rule power_increasing) simp
    qed simp_all
    moreover have "unat (push_bit k (ucast c :: u64)) = take_bit 64 (push_bit k (unat (ucast c :: u64)))"
      unfolding unsigned_push_bit_eq by simp
    ultimately show ?thesis by (simp add: take_bit_nat_eq_self push_bit_eq_mult mult.commute)
  qed
  then show ?thesis using or_push [OF assms(1), of "unat c"] by (simp add: unsigned_or_eq)
qed

lemma needbits_at:
  assumes "reads f rd" "at_bit f l st P" "n \<le> 32"
  shows "\<exists>l' st'. needbits rd n l st = (l', st') \<and> at_bit f l' st' P \<and> n \<le> lk l' \<and> lk l' \<le> max (lk l) (n + 7) \<and>
    lw l' = lw l \<and> same_output st st'"
  using assms
proof (induction "n - lk l" arbitrary: l st rule: less_induct)
  case less
  show ?case
  proof (cases "lk l < n")
    case False
    then show ?thesis using less.prems by (simp add: needbits.simps [of rd n l st])
  next
    case True
    obtain p where p: "at_byte f st p" "8 * p = P + lk l" using less.prems(2) by (auto simp: at_bit_def)
    obtain c st1 where c: "get_byte rd st = (c, st1)" by fastforce
    note byte = get_byte_at [OF assms(1) p(1), unfolded c, simplified]
    let ?l = "l\<lparr>lb := lb l OR push_bit (lk l) (ucast c), lk := lk l + 8\<rparr>"
    have lb: "unat (lb l) = fnum f P (lk l)" using less.prems(2) by (simp add: at_bit_def)
    have "unat (lb ?l) = fnum f P (lk l + 8)"
      using or_push_word [of "lb l" "lk l" c] lb fnum_less [of f P "lk l"] True assms(3) byte(1) p(2) fnum_byte [of f p]
      by (simp add: fnum_add)
    then have "at_bit f ?l st1 P" using byte p(2) True assms(3) by (auto simp: at_bit_def intro!: exI [of _ "Suc p"])
    moreover have "n - lk ?l < n - lk l" using True by simp
    ultimately obtain l' st' where l': "needbits rd n ?l st1 = (l', st')" "at_bit f l' st' P" "n \<le> lk l'"
        "lk l' \<le> max (lk l + 8) (n + 7)" "lw l' = lw l" "same_output st1 st'"
      using less.hyps [OF _ assms(1) _ assms(3), of ?l st1] by auto
    then show ?thesis
      using True c same_output_trans [OF byte(3) l'(6)] by (auto simp: needbits.simps [of rd n l st])
  qed
qed

lemma dumpbits_at:
  assumes "at_bit f l st P" "n \<le> lk l"
  shows "at_bit f (dumpbits n l) st (P + n)" "lk (dumpbits n l) = lk l - n" "lw (dumpbits n l) = lw l"
proof -
  have k: "lk l \<le> 40" using assms(1) by (simp add: at_bit_def)
  have "(lk l + 2 ^ 32 - n) mod 2 ^ 32 = lk l - n"
  proof -
    have e: "lk l + 2 ^ 32 - n = (lk l - n) + 2 ^ 32" using assms(2) by simp
    show ?thesis unfolding e using k by simp
  qed
  then show lk: "lk (dumpbits n l) = lk l - n" by (simp add: dumpbits_def)
  show "lw (dumpbits n l) = lw l" by (simp add: dumpbits_def)
  have "unat (lb (dumpbits n l)) = fnum f (P + n) (lk l - n)"
    using assms by (simp add: dumpbits_def unat_drop_bit at_bit_def fnum_div)
  then show "at_bit f (dumpbits n l) st (P + n)" using assms lk by (auto simp: at_bit_def)
qed

lemma mask_bits_nth: "n \<le> 16 \<Longrightarrow> mask_bits ! n = mask n"
proof -
  have "\<forall>n\<in>set [0..<17]. mask_bits ! n = (mask n :: u16)" by code_simp
  moreover assume "n \<le> 16"
  ultimately show ?thesis by simp
qed

lemma bits_at:
  assumes "at_bit f l st P" "n \<le> lk l"
  shows "n \<le> 32 \<Longrightarrow> unat ((ucast (lb l) :: u32) AND mask n) = fnum f P n"
    and "n \<le> 16 \<Longrightarrow> unat (low_bits n l) = fnum f P n"
proof -
  have u: "unat ((ucast (lb l) :: u32) AND mask n) = fnum f P n" if "n \<le> 32"
  proof -
    have "unat ((ucast (lb l) :: u32) AND mask n) = unat (lb l) mod 2 ^ 32 mod 2 ^ n"
      by (simp add: unat_and_mask unat_ucast_mod)
    also have "\<dots> = unat (lb l) mod 2 ^ n" using that by (intro mod_mod_cancel le_imp_power_dvd)
    finally show ?thesis using assms by (simp add: at_bit_def fnum_mod)
  qed
  then show "n \<le> 32 \<Longrightarrow> unat ((ucast (lb l) :: u32) AND mask n) = fnum f P n" .
  assume n: "n \<le> 16"
  have "(ucast (mask n :: u16) :: u32) = mask n" by (rule bit_eqI) (use n in \<open>auto simp: bit_simps\<close>)
  then show "unat (low_bits n l) = fnum f P n" using u n by (simp add: low_bits_def mask_bits_nth)
qed

end
