(* ===== verification/Bit_Reversal.thy ===== *)
theory Bit_Reversal
  imports Huft
begin

text \<open>
  Codes are written with their first bit lowest, and ordered with it highest. \<open>rv k x\<close> reverses the
  first \<open>k\<close> bits of \<open>x\<close>; with \<open>g\<close> the longest code, \<open>rv g v\<close> is the place of the bit string \<open>v\<close> among
  all strings in the order of the codes, and a code of \<open>k\<close> bits takes the \<open>2 ^ (g - k)\<close> places from
  its own on.
\<close>

fun rv :: "nat \<Rightarrow> nat \<Rightarrow> nat" where
  "rv 0 x = 0"
| "rv (Suc k) x = (x mod 2) * 2 ^ k + rv k (x div 2)"

lemma rv_less: "rv k x < 2 ^ k"
proof (induction k arbitrary: x)
  case (Suc k)
  have "(x mod 2) * 2 ^ k + rv k (x div 2) < 1 * 2 ^ k + 2 ^ k"
    by (rule add_le_less_mono [OF mult_le_mono1 Suc]) simp
  then show ?case by simp
qed simp

lemma rv_add: "rv (a + b) x = rv a x * 2 ^ b + rv b (x div 2 ^ a)"
proof (induction a arbitrary: x)
  case (Suc a)
  show ?case by (simp add: Suc algebra_simps power_add div_mult2_eq)
qed simp

lemma rv_snoc: "rv (Suc k) x = 2 * rv k x + x div 2 ^ k mod 2"
  using rv_add [of k 1 x] by simp

lemma rv_mod: "k \<le> m \<Longrightarrow> rv k (x mod 2 ^ m) = rv k x"
proof (induction k arbitrary: x m)
  case (Suc k)
  then obtain m' where m: "m = Suc m'" "k \<le> m'" by (metis Suc_le_D Suc_le_mono)
  have "x mod 2 ^ m mod 2 = x mod 2" by (simp add: m mod_mod_cancel)
  moreover have "x mod 2 ^ m div 2 = x div 2 mod 2 ^ m'"
    by (simp add: m mod_mult2_eq)
  ultimately show ?case using Suc.IH [OF m(2), of "x div 2"] by simp
qed simp

lemma rv_multiple: "rv a (2 ^ a * y) = 0"
  using rv_mod [of a a "2 ^ a * y"] rv_mod [of a a 0] by (induction a) simp_all

lemma rv_zero [simp]: "rv k 0 = 0"
  by (induction k) simp_all

lemma rv_rv: "rv k (rv k x) = x mod 2 ^ k"
proof (induction k arbitrary: x)
  case (Suc k)
  have "rv (Suc k) (rv (Suc k) x) = 2 * rv k (rv (Suc k) x) + rv (Suc k) x div 2 ^ k mod 2"
    by (rule rv_snoc)
  also have "rv k (rv (Suc k) x) = rv k (rv k (x div 2))"
    using rv_mod [of k k "rv (Suc k) x"] rv_less [of k "x div 2"] by simp
  also have "\<dots> = x div 2 mod 2 ^ k" by (rule Suc)
  also have "rv (Suc k) x div 2 ^ k = x mod 2"
    using rv_less [of k "x div 2"] by (simp add: div_add1_eq div_less)
  finally show ?case by (simp add: mod_mult2_eq)
qed simp

lemma rv_inject: "x < 2 ^ k \<Longrightarrow> y < 2 ^ k \<Longrightarrow> rv k x = rv k y \<longleftrightarrow> x = y"
  using rv_rv [of k x] rv_rv [of k y] by (metis mod_less)

lemma rv_eq: "C < 2 ^ k \<Longrightarrow> v mod 2 ^ k = rv k C \<longleftrightarrow> rv k v = C"
  using rv_rv [of k v] rv_rv [of k C] rv_mod [of k k v] by (metis mod_less order_refl)

lemma rv_place: "k \<le> g \<Longrightarrow> rv g (2 ^ (g - k) * C) = rv k C"
  using rv_add [of "g - k" k "2 ^ (g - k) * C"] by (simp add: rv_multiple)

text \<open>The places of a code.\<close>

lemma place_of_code:
  assumes "k \<le> g" "2 ^ (g - k) dvd P" "P < 2 ^ g"
  shows "rv g P < 2 ^ k" "v mod 2 ^ k = rv g P \<longleftrightarrow> P \<le> rv g v \<and> rv g v < P + 2 ^ (g - k)"
proof -
  obtain C where P: "P = 2 ^ (g - k) * C" using assms(2) by (auto elim: dvdE)
  have "2 ^ (g - k) * C < 2 ^ (g - k) * 2 ^ k"
    using assms(1,3) P by (simp flip: power_add)
  then have C: "C < 2 ^ k" by simp
  have i: "rv g P = rv k C" unfolding P by (rule rv_place [OF assms(1)])
  then show "rv g P < 2 ^ k" using rv_less by simp
  let ?m = "rv (g - k) (v div 2 ^ k)"
  have "rv g v = rv k v * 2 ^ (g - k) + ?m"
    using rv_add [of k "g - k" v] assms(1) by simp
  moreover have m: "?m < 2 ^ (g - k)" by (rule rv_less)
  moreover have "rv k v = C \<longleftrightarrow> 2 ^ (g - k) * C \<le> rv k v * 2 ^ (g - k) + ?m \<and>
      rv k v * 2 ^ (g - k) + ?m < 2 ^ (g - k) * C + 2 ^ (g - k)" (is "_ \<longleftrightarrow> ?in")
  proof
    assume ?in
    then have "rv k v * 2 ^ (g - k) < (C + 1) * 2 ^ (g - k)" "C * 2 ^ (g - k) < (rv k v + 1) * 2 ^ (g - k)"
      using m by (simp_all add: algebra_simps)
    then have "rv k v < C + 1" "C < rv k v + 1" by (simp_all only: mult_less_cancel2)
    then show "rv k v = C" by simp
  qed (use m in \<open>simp add: mult.commute\<close>)
  ultimately show "v mod 2 ^ k = rv g P \<longleftrightarrow> P \<le> rv g v \<and> rv g v < P + 2 ^ (g - k)"
    unfolding i rv_eq [OF C] by (simp add: P)
qed

subsection \<open>The backwards increment\<close>

lemma and_pow: "y < 2 ^ k \<Longrightarrow> y AND 2 ^ k = (0 :: nat)" "y < 2 ^ k \<Longrightarrow> (2 ^ k + y) AND 2 ^ k = (2 ^ k :: nat)"
  "y < 2 ^ k \<Longrightarrow> y XOR 2 ^ k = (2 ^ k + y :: nat)" "y < 2 ^ k \<Longrightarrow> (2 ^ k + y) XOR 2 ^ k = (y :: nat)"
proof -
  assume y: "y < 2 ^ k"
  then have b: "\<not> bit y k" by (simp add: bit_iff_odd)
  show a: "y AND 2 ^ k = 0" by (rule bit_eqI) (use b in \<open>auto simp: bit_simps\<close>)
  have o: "2 ^ k + y = y OR 2 ^ k"
    by (metis a add.commute disjunctive_add bit_and_iff bit_0_eq bot_fun_def bot_bool_def)
  show "(2 ^ k + y) AND 2 ^ k = 2 ^ k" unfolding o by (rule bit_eqI) (auto simp: bit_simps)
  show "y XOR 2 ^ k = 2 ^ k + y" unfolding o by (rule bit_eqI) (use b in \<open>auto simp: bit_simps\<close>)
  show "(2 ^ k + y) XOR 2 ^ k = y" unfolding o by (rule bit_eqI) (use b in \<open>auto simp: bit_simps\<close>)
qed

lemma back_inc_rv: "back_inc (2 ^ k) (rv (Suc k) C) = rv (Suc k) (C + 1)"
proof (induction k arbitrary: C)
  case 0
  have "C mod 2 = 0 \<or> C mod 2 = 1" by auto
  then show ?case
    by (auto simp: back_inc.simps [of "Suc 0"] back_inc.simps [of 0] mod_Suc even_iff_mod_2_eq_zero)
next
  case (Suc k)
  define y j where "y = rv (Suc k) (C div 2)" and "j = (2 ^ Suc k :: nat)"
  have y: "y AND j = 0" "(j + y) AND j = j" "y XOR j = j + y" "(j + y) XOR j = y" and j: "drop_bit 1 j = 2 ^ k" "j \<noteq> 0"
    using and_pow [of y "Suc k"] rv_less [of "Suc k" "C div 2"] unfolding y_def j_def
    by (simp_all only: drop_bit_eq_div) simp_all
  show ?case
  proof (cases "C mod 2 = 0")
    case True
    then have c: "(C + 1) div 2 = C div 2" "(C + 1) mod 2 = 1" by presburger+
    have "rv (Suc (Suc k)) C = y" "rv (Suc (Suc k)) (C + 1) = j + y"
      unfolding rv.simps(2) [of "Suc k"] c True y_def j_def by simp_all
    then show ?thesis
      unfolding j_def [symmetric] by (simp only: back_inc.simps [of j y] y) simp
  next
    case False
    then have c: "C mod 2 = 1" "(C + 1) div 2 = C div 2 + 1" "(C + 1) mod 2 = 0" by presburger+
    have "rv (Suc (Suc k)) C = j + y" "rv (Suc (Suc k)) (C + 1) = rv (Suc k) (C div 2 + 1)"
      unfolding rv.simps(2) [of "Suc k"] c y_def j_def by simp_all
    then show ?thesis
      unfolding j_def [symmetric] using Suc [of "C div 2"] j y
      by (simp only: back_inc.simps [of j "j + y"] y_def [symmetric]) simp
  qed
qed

lemma back_inc_place:
  assumes "0 < k" "k \<le> g" "2 ^ (g - k) dvd P"
  shows "back_inc (2 ^ (k - 1)) (rv g P) = rv g (P + 2 ^ (g - k))"
proof -
  obtain C where P: "P = 2 ^ (g - k) * C" using assms(3) by (auto elim: dvdE)
  have "P + 2 ^ (g - k) = 2 ^ (g - k) * (C + 1)" by (simp add: P)
  then show ?thesis
    using assms(1) back_inc_rv [of "k - 1" C] by (simp only: P rv_place [OF assms(2)]) simp
qed

end
