(* ===== verification/Huft_Tables.thy ===== *)
theory Huft_Tables
  imports Bit_Reversal
begin

text \<open>
  \<open>huft_build\<close> on a complete set of codes. The lengths of the codes in their order are a sorted list
  \<open>K\<close>; a code of \<open>k\<close> bits takes \<open>2 ^ (g - k)\<close> of the \<open>2 ^ g\<close> places, one code after the other. The
  main loop keeps: every bit string at a place before the current code is led by the tables to the
  entry of its code.
\<close>

subsection \<open>Places\<close>

definition wt :: "nat \<Rightarrow> nat list \<Rightarrow> nat" where
  "wt g xs = (\<Sum>x\<leftarrow>xs. 2 ^ (g - x))"

lemma wt_simps [simp]: "wt g [] = 0" "wt g (x # xs) = 2 ^ (g - x) + wt g xs" "wt g (xs @ ys) = wt g xs + wt g ys"
  by (simp_all add: wt_def)

lemma wt_dvd: "(\<And>x. x \<in> set xs \<Longrightarrow> x \<le> k) \<Longrightarrow> 2 ^ (g - k) dvd wt g xs"
proof (induction xs)
  case (Cons x xs)
  have "(2::nat) ^ (g - k) dvd 2 ^ (g - x)" using Cons.prems [of x] by (simp add: le_imp_power_dvd diff_le_mono2)
  then show ?case using Cons by simp
qed simp

lemma wt_ge_length: "(\<And>x. x \<in> set xs \<Longrightarrow> k \<le> x) \<Longrightarrow> wt g xs \<le> length xs * 2 ^ (g - k)"
proof (induction xs)
  case (Cons x xs)
  have "(2::nat) ^ (g - x) \<le> 2 ^ (g - k)" using Cons.prems [of x] by (simp add: diff_le_mono2)
  moreover have "wt g xs \<le> length xs * 2 ^ (g - k)" using Cons by simp
  ultimately show ?case by (simp only: wt_simps length_Cons mult_Suc)
qed simp

lemma wt_longer: "wt g (filter ((<) m) xs) =
    count_list xs (Suc m) * 2 ^ (g - Suc m) + wt g (filter ((<) (Suc m)) xs)"
  by (induction xs) (auto simp: Suc_lessI)

lemma wt_from: "(\<And>x. x \<in> set xs \<Longrightarrow> k \<le> x) \<Longrightarrow>
    wt g xs = count_list xs k * 2 ^ (g - k) + wt g (filter ((<) k) xs)"
  by (induction xs) fastforce+

locale canonical_code =
  fixes K c :: "nat list" and g l :: nat and vals :: "nat list" and n s :: nat and d e :: "nat list"
  assumes sorted_K: "sorted K"
    and K_range: "set K \<subseteq> {1..g}"
    and counts: "1 \<le> m \<Longrightarrow> m \<le> g \<Longrightarrow> c ! m = count_list K m"
    and complete: "wt g K = 2 ^ g"
    and bits: "1 \<le> l" "l \<le> g" "g \<le> 16"
    and longest: "g \<in> set K"
    and shortest: "K ! 0 \<le> l"
    and small: "g \<le> 2 * l \<or> length K < 2 ^ l"
    and leaves: "p < length K \<Longrightarrow> p < n \<Longrightarrow> s \<le> vals ! p \<Longrightarrow> e ! (vals ! p - s) \<le> 16 \<or> e ! (vals ! p - s) = 99"
begin

definition pos :: "nat \<Rightarrow> nat" where
  "pos p = wt g (take p K)"

lemma pos_0 [simp]: "pos 0 = 0"
  by (simp add: pos_def)

lemma pos_Suc: "p < length K \<Longrightarrow> pos (Suc p) = pos p + 2 ^ (g - K ! p)"
  by (simp add: pos_def take_Suc_conv_app_nth)

lemma pos_all: "length K \<le> p \<Longrightarrow> pos p = 2 ^ g"
  by (simp add: pos_def complete)

lemma pos_rest: "pos p + wt g (drop p K) = 2 ^ g"
  using complete wt_simps(3) [of g "take p K" "drop p K"] by (simp add: pos_def)

lemma pos_mono: "p \<le> p' \<Longrightarrow> pos p \<le> pos p'"
proof -
  assume "p \<le> p'"
  then have "take p' K = take p K @ take (p' - p) (drop p K)"
    by (metis le_add_diff_inverse take_add)
  then show ?thesis by (simp add: pos_def)
qed

lemma K_nth: "p < length K \<Longrightarrow> 1 \<le> K ! p \<and> K ! p \<le> g"
  using K_range nth_mem by fastforce

lemma pos_less: "p < length K \<Longrightarrow> pos p < 2 ^ g"
proof -
  assume "p < length K"
  then have "pos p + 2 ^ (g - K ! p) \<le> 2 ^ g" using pos_Suc [of p] pos_rest [of "Suc p"] by linarith
  moreover have "(0::nat) < 2 ^ (g - K ! p)" by simp
  ultimately show ?thesis by linarith
qed

lemma pos_strict: "p < p' \<Longrightarrow> p < length K \<Longrightarrow> pos p + 2 ^ (g - K ! p) \<le> pos p'"
  using pos_Suc [of p] pos_mono [of "Suc p" p'] by simp

lemma K_mono: "p \<le> p' \<Longrightarrow> p' < length K \<Longrightarrow> K ! p \<le> K ! p'"
  using sorted_K by (simp add: sorted_nth_mono)

lemma pos_dvd: "p < length K \<Longrightarrow> K ! p \<le> k \<Longrightarrow> 2 ^ (g - k) dvd pos p"
proof -
  assume p: "p < length K" "K ! p \<le> k"
  have "x \<le> k" if "x \<in> set (take p K)" for x
    using that p K_mono by (auto simp: in_set_conv_nth) (metis less_imp_le_nat order_trans)
  then show ?thesis unfolding pos_def by (rule wt_dvd)
qed

lemma pos_Suc_dvd: "p < length K \<Longrightarrow> K ! p \<le> k \<Longrightarrow> 2 ^ (g - k) dvd pos (Suc p)"
  using pos_dvd [of p k] by (simp add: pos_Suc le_imp_power_dvd)

text \<open>The place of the first code of more than \<open>m\<close> bits.\<close>

definition after :: "nat \<Rightarrow> nat" where
  "after m = 2 ^ g - wt g (filter ((<) m) K)"

lemma longer_wt: "wt g (filter ((<) m) K) \<le> 2 ^ g"
proof -
  have "wt g (filter ((<) m) xs) \<le> wt g xs" for xs by (induction xs) auto
  then show ?thesis using complete by metis
qed

lemma after_Suc: "Suc m \<le> g \<Longrightarrow> after (Suc m) = after m + c ! Suc m * 2 ^ (g - Suc m)"
  using wt_longer [of g m K] longer_wt [of m] counts [of "Suc m"] by (simp add: after_def)

lemma after_g: "g \<le> m \<Longrightarrow> after m = 2 ^ g"
proof -
  assume "g \<le> m"
  then have "filter ((<) m) K = []" using K_range by (auto simp: filter_empty_conv)
  then show ?thesis by (simp add: after_def)
qed

lemma short_before:
  assumes "p < length K" "pos p < after m"
  shows "K ! p \<le> m"
proof (rule ccontr)
  assume "\<not> K ! p \<le> m"
  then have m: "m < K ! p" by simp
  have "m < x" if x: "x \<in> set (drop p K)" for x
  proof -
    obtain i where "i < length (drop p K)" "drop p K ! i = x"
      using x unfolding in_set_conv_nth by blast
    moreover from this have "p + i < length K" by simp
    ultimately show ?thesis using K_mono [of p "p + i"] m by simp
  qed
  then have "filter ((<) m) (drop p K) = drop p K" by (simp add: filter_id_conv)
  then have "filter ((<) m) K = filter ((<) m) (take p K) @ drop p K"
    by (metis append_take_drop_id filter_append)
  then have "wt g (drop p K) \<le> wt g (filter ((<) m) K)" by simp
  then show False using assms(2) pos_rest [of p] by (simp add: after_def)
qed

lemma after_this:
  assumes "p < length K" "a = count_list (drop (Suc p) K) (K ! p)"
  shows "after (K ! p) = pos p + (a + 1) * 2 ^ (g - K ! p)"
proof -
  let ?k = "K ! p"
  have d: "drop p K = ?k # drop (Suc p) K" using assms(1) by (simp add: Cons_nth_drop_Suc)
  have "?k \<le> x" if "x \<in> set (drop p K)" for x
    using that K_mono [of p] by (auto simp: in_set_conv_nth)
  then have "wt g (drop p K) = (a + 1) * 2 ^ (g - ?k) + wt g (filter ((<) ?k) (drop p K))"
    using wt_from [of "drop p K" ?k g] assms(2) d by simp
  moreover have "filter ((<) ?k) (take p K) = []"
    using assms(1) K_mono [where p' = p] by (auto simp: filter_empty_conv in_set_conv_nth not_less)
  then have "filter ((<) ?k) K = filter ((<) ?k) (drop p K)"
    by (metis append_Nil append_take_drop_id filter_append)
  ultimately show ?thesis using pos_rest [of p] by (simp add: after_def)
qed

subsection \<open>The size of a table\<close>

text \<open>
  A table for the codes from the place \<open>pos p\<close> on, at depth \<open>w\<close>, is large enough when every code in
  its part of the places fits or it has at least \<open>l\<close> bits.
\<close>

definition fits :: "nat \<Rightarrow> nat \<Rightarrow> nat \<Rightarrow> bool" where
  "fits P w j \<longleftrightarrow> l \<le> j \<or> (\<forall>p<length K. P \<le> pos p \<and> pos p < P + 2 ^ (g - w) \<longrightarrow> K ! p \<le> w + j)"

lemma fits_after: "P + 2 ^ (g - w) \<le> after (w + j) \<Longrightarrow> fits P w j"
  using short_before [of _ "w + j"] by (auto simp: fits_def)

lemma grow_bits_enough:
  assumes "after (w + j) + f * 2 ^ (g - (w + j)) = P + 2 ^ (g - w)" "0 < f"
    and "z = min (g - w) l" "j < z" "P + 2 ^ (g - w) \<le> 2 ^ g"
  shows "j < grow_bits c z f (w + j) j \<and> grow_bits c z f (w + j) j \<le> z \<and> fits P w (grow_bits c z f (w + j) j)"
  using assms
proof (induction "z - j" arbitrary: f j rule: less_induct)
  case less
  let ?m = "Suc (w + j)"
  note unfold = grow_bits.simps [of c z f "w + j" j]
  show ?case
  proof (cases "j + 1 < z")
    case True
    then have m: "?m \<le> g" using less.prems(3) by linarith
    have "(2::nat) ^ (g - (w + j)) = 2 * 2 ^ (g - ?m)"
      using m by (simp add: Suc_diff_Suc flip: power_Suc)
    then have "f * 2 ^ (g - (w + j)) = 2 * f * 2 ^ (g - ?m)" by (simp only: mult_ac)
    then have sum: "after ?m + 2 * f * 2 ^ (g - ?m) = P + 2 ^ (g - w) + c ! ?m * 2 ^ (g - ?m)"
      using less.prems(1) after_Suc [OF m] by linarith
    show ?thesis
    proof (cases "2 * f \<le> c ! ?m")
      case True
      then have "2 * f * 2 ^ (g - ?m) \<le> c ! ?m * 2 ^ (g - ?m)" by simp
      then have "P + 2 ^ (g - w) \<le> after ?m" using sum by linarith
      then have "fits P w (j + 1)" by (intro fits_after) simp
      then show ?thesis using True \<open>j + 1 < z\<close> by (simp add: unfold)
    next
      case False
      then have "2 * f * 2 ^ (g - ?m) = (2 * f - c ! ?m) * 2 ^ (g - ?m) + c ! ?m * 2 ^ (g - ?m)"
        by (simp flip: add_mult_distrib)
      then have "after (w + Suc j) + (2 * f - c ! ?m) * 2 ^ (g - (w + Suc j)) = P + 2 ^ (g - w)"
        using sum by simp
      moreover have "z - Suc j < z - j" "0 < 2 * f - c ! ?m" using False \<open>j + 1 < z\<close> by simp_all
      ultimately have "Suc j < grow_bits c z (2 * f - c ! ?m) (w + Suc j) (Suc j) \<and>
          grow_bits c z (2 * f - c ! ?m) (w + Suc j) (Suc j) \<le> z \<and>
          fits P w (grow_bits c z (2 * f - c ! ?m) (w + Suc j) (Suc j))"
        using \<open>j + 1 < z\<close> by (intro less.hyps less.prems(3,5)) (simp_all only: Suc_eq_plus1)
      moreover have "grow_bits c z f (w + j) j = grow_bits c z (2 * f - c ! ?m) (w + Suc j) (Suc j)"
        using False \<open>j + 1 < z\<close> by (simp add: unfold)
      ultimately show ?thesis by simp
    qed
  next
    case False
    then have j: "j + 1 = z" using less.prems(4) by simp
    have "fits P w z"
    proof (cases "l \<le> z")
      case False
      then have "after (w + z) = 2 ^ g" using less.prems(3) by (intro after_g) linarith
      then show ?thesis using less.prems(5) by (intro fits_after) simp
    qed (simp add: fits_def)
    then show ?thesis using j by (simp add: unfold)
  qed
qed

lemma part_end:
  assumes "p < length K" "w \<le> g" "2 ^ (g - w) dvd pos p"
  shows "pos p + 2 ^ (g - w) \<le> 2 ^ g"
proof -
  obtain C where C: "pos p = 2 ^ (g - w) * C" using assms(3) by (auto elim: dvdE)
  have g: "(2::nat) ^ g = 2 ^ (g - w) * 2 ^ w" using assms(2) by (simp flip: power_add)
  then have "2 ^ (g - w) * C < 2 ^ (g - w) * 2 ^ w" using pos_less [OF assms(1)] C by simp
  then have "Suc C \<le> 2 ^ w" by simp
  then have "2 ^ (g - w) * Suc C \<le> 2 ^ (g - w) * 2 ^ w" by (rule mult_le_mono2)
  then show ?thesis using C g by simp
qed

text \<open>Below the first table, a part of the places that starts with a code of \<open>k\<close> bits is not too deep.\<close>

lemma deep:
  assumes p: "p < length K" and w: "l \<le> w" "w < K ! p" "2 ^ (g - w) dvd pos p"
  shows "K ! p < w + l \<or> g \<le> w + l"
proof (cases "g \<le> 2 * l")
  case False
  let ?k = "K ! p"
  have kg: "?k \<le> g" using K_nth [OF p] by simp
  have "2 ^ (g - w) \<le> wt g (drop p K)"
    using part_end [OF p _ w(3)] pos_rest [of p] w(2) kg by simp
  also have "\<dots> \<le> length (drop p K) * 2 ^ (g - ?k)"
    using K_mono [of p] by (intro wt_ge_length) (auto simp: in_set_conv_nth)
  also have "\<dots> \<le> length K * 2 ^ (g - ?k)" by simp
  also have "\<dots> < 2 ^ l * 2 ^ (g - ?k)" using small False by simp
  finally have "(2::nat) ^ (g - w) < 2 ^ (l + (g - ?k))" by (simp add: power_add)
  then have "g - w < l + (g - ?k)" by (simp add: power_strict_increasing_iff)
  then show ?thesis using w(2) kg by linarith
qed (use w(1) in simp)

text \<open>The tables after the first have at most \<open>l\<close> bits, and hold the code they are made for.\<close>

lemma table_bits_enough:
  assumes p: "p < length K" "a = count_list (drop (Suc p) K) (K ! p)"
    and w: "w < K ! p" "K ! p \<le> w + l" "2 ^ (g - w) dvd pos p"
  defines "j \<equiv> table_bits c (int g) (int l) (int (K ! p)) (int w) a"
  shows "K ! p \<le> w + j" "fits (pos p) w j" "l \<le> w \<Longrightarrow> j \<le> l"
proof -
  let ?k = "K ! p" and ?P = "pos p"
  let ?z = "min (g - w) l" and ?j = "?k - w" and ?f = "(2::nat) ^ (?k - w)"
  have kg: "?k \<le> g" using K_nth [OF p(1)] by simp
  have aft: "after ?k = ?P + (a + 1) * 2 ^ (g - ?k)" by (rule after_this [OF p])
  have end': "?P + 2 ^ (g - w) \<le> 2 ^ g" using part_end [OF p(1) _ w(3)] w(1) kg by simp
  have f: "?f * 2 ^ (g - ?k) = 2 ^ (g - w)" using w(1) kg by (simp flip: power_add)
  have z: "nat (if int g - int w > int l then int l else int g - int w) = ?z"
    using w(1) kg by (auto simp: min_def)
  have j: "j = (if ?f > a + 1 then grow_bits c ?z (?f - (a + 1)) ?k ?j else ?j)"
    unfolding j_def table_bits_def Let_def z using w(1) by (simp add: nat_diff_distrib)
  have k: "w + ?j = ?k" using w(1) by simp
  have "?k \<le> w + j \<and> fits ?P w j \<and> (l \<le> w \<longrightarrow> j \<le> l)"
  proof (cases "?f > a + 1")
    case False
    then have "?f * 2 ^ (g - ?k) \<le> (a + 1) * 2 ^ (g - ?k)" by (intro mult_le_mono1) simp
    then have "fits ?P w ?j" using aft f k by (intro fits_after) simp
    moreover have "?k - w \<le> l" using w(2) by simp
    ultimately show ?thesis using False j k by simp
  next
    case True
    have sum: "after ?k + (?f - (a + 1)) * 2 ^ (g - ?k) = ?P + 2 ^ (g - w)"
    proof -
      have "(a + 1) * 2 ^ (g - ?k) \<le> 2 ^ (g - w)" using True f by (metis less_imp_le_nat mult_le_mono1)
      then show ?thesis using aft f unfolding diff_mult_distrib by linarith
    qed
    show ?thesis
    proof (cases "?j < ?z")
      case True
      then show ?thesis
        using grow_bits_enough [of w ?j "?f - (a + 1)" ?P ?z] sum \<open>?f > a + 1\<close> end' k j by auto
    next
      case False
      then have z: "?j = ?z" using w kg by linarith
      have "?k \<noteq> g"
      proof
        assume "?k = g"
        then have "2 ^ g + (?f - (a + 1)) = ?P + 2 ^ (g - w)" using sum by (simp add: after_g)
        then show False using end' \<open>?f > a + 1\<close> by linarith
      qed
      then have l: "?j = l" "w + l < g" using z w(1) kg by linarith+
      then have "\<not> l \<le> w" using deep [OF p(1) _ w(1,3)] w by linarith
      moreover have "j = l + 1" using j \<open>?f > a + 1\<close> l z by (simp add: grow_bits.simps)
      ultimately show ?thesis using l w by (simp add: fits_def)
    qed
  qed
  then show "?k \<le> w + j" "fits ?P w j" "l \<le> w \<Longrightarrow> j \<le> l" by blast+
qed

end

end
