(* ===== verification/Huft_Steps.thy ===== *)
theory Huft_Steps
  imports Huft_Tables
begin

text \<open>
  The main loop of \<open>huft_build\<close>, code by code: the tables on the way to the current code, and that
  a step keeps what the tables say of the codes before.
\<close>

subsection \<open>Walking through the tables\<close>

text \<open>
  \<open>R\<close> gives for a table the number of bits read before it, those bits, and how many bits index it.
  \<open>leads M R hp v q r t\<close>: the bit string \<open>v\<close> leads from table \<open>q\<close> to the entry \<open>r\<close> after \<open>t\<close> bits in all.
\<close>

definition leafy :: "huft \<Rightarrow> bool" where
  "leafy r \<longleftrightarrow> h_e r \<le> 16 \<or> h_e r = 99"

lemma leafy_unat: "leafy r \<longleftrightarrow> unat (h_e r) \<le> 16 \<or> unat (h_e r) = 99"
  by (simp add: leafy_def word_le_nat_alt word_unat_eq_iff)

inductive leads :: "nat \<Rightarrow> (nat \<Rightarrow> nat \<times> nat \<times> nat) \<Rightarrow> hheap \<Rightarrow> nat \<Rightarrow> nat \<Rightarrow> huft \<Rightarrow> nat \<Rightarrow> bool"
  for M R hp v where
  leaf: "q < brk hp \<Longrightarrow> R q = (w, v mod 2 ^ w, B) \<Longrightarrow> 2 ^ B \<le> length (tab hp q) \<Longrightarrow>
    B \<le> M \<Longrightarrow> unat (h_b r) \<in> {1..B} \<Longrightarrow> tab hp q ! (v div 2 ^ w mod 2 ^ B) = r \<Longrightarrow> leafy r \<Longrightarrow> leads M R hp v q r (w + unat (h_b r))"
| link: "q < brk hp \<Longrightarrow> R q = (w, v mod 2 ^ w, B) \<Longrightarrow> 2 ^ B \<le> length (tab hp q) \<Longrightarrow>
    B \<le> M \<Longrightarrow> 1 \<le> B \<Longrightarrow> unat (h_b r) = B \<Longrightarrow> tab hp q ! (v div 2 ^ w mod 2 ^ B) = r \<Longrightarrow> \<not> leafy r \<Longrightarrow> h_v r = Tbl q' \<Longrightarrow>
    R q' = (w + unat (h_b r), x', B') \<Longrightarrow> unat (h_e r) = 16 + B' \<Longrightarrow> leads M R hp v q' r' t \<Longrightarrow>
    leads M R hp v q r' t"

lemma leads_frame:
  assumes "leads M R hp v q r t" "brk hp \<le> brk hp'"
    and "\<And>q. q < brk hp \<Longrightarrow> R' q = R q \<and> length (tab hp' q) = length (tab hp q)"
    and "\<And>q w B. q < brk hp \<Longrightarrow> R q = (w, v mod 2 ^ w, B) \<Longrightarrow>
      tab hp' q ! (v div 2 ^ w mod 2 ^ B) = tab hp q ! (v div 2 ^ w mod 2 ^ B)"
  shows "leads M R' hp' v q r t"
  using assms(1)
proof induction
  case (leaf q w B r)
  note q = assms(3) [OF leaf(1)] and e = assms(4) [OF leaf(1,2)]
  show ?case
  proof (rule leads.leaf)
    show "q < brk hp'" using leaf(1) assms(2) by (rule less_le_trans)
    show "R' q = (w, v mod 2 ^ w, B)" using q leaf(2) by simp
    show "2 ^ B \<le> length (tab hp' q)" using q leaf(3) by simp
    show "tab hp' q ! (v div 2 ^ w mod 2 ^ B) = r" using e leaf(6) by simp
  qed (rule leaf)+
next
  case (link q w B r q' x' B' r' t)
  note q = assms(3) [OF link(1)] and e = assms(4) [OF link(1,2)]
  have q': "q' < brk hp" using link.hyps(12) by cases auto
  show ?case
  proof (rule leads.link)
    show "q < brk hp'" using link(1) assms(2) by (rule less_le_trans)
    show "R' q = (w, v mod 2 ^ w, B)" using q link(2) by simp
    show "2 ^ B \<le> length (tab hp' q)" using q link(3) by simp
    show "tab hp' q ! (v div 2 ^ w mod 2 ^ B) = r" using e link(7) by simp
    show "R' q' = (w + unat (h_b r), x', B')" using assms(3) [OF q'] link(10) by simp
  qed (rule link)+
qed

subsection \<open>Writing entries\<close>

lemma set_entry_simps [simp]:
  "tab (set_entry q j r hp) q' = (if q' = q then (tab hp q)[j := r] else tab hp q')"
  "brk (set_entry q j r hp) = brk hp" "hlink (set_entry q j r hp) = hlink hp" "live (set_entry q j r hp) = live hp"
  by (simp_all add: set_entry_def)

lemma fill_entries_frame [simp]:
  "brk (fill_entries q r m z j hp) = brk hp" "hlink (fill_entries q r m z j hp) = hlink hp"
  "live (fill_entries q r m z j hp) = live hp" "q' \<noteq> q \<Longrightarrow> tab (fill_entries q r m z j hp) q' = tab hp q'"
  "length (tab (fill_entries q r m z j hp) q') = length (tab hp q')"
proof -
  have "brk (fill_entries q r m z j hp) = brk hp \<and> hlink (fill_entries q r m z j hp) = hlink hp \<and>
    live (fill_entries q r m z j hp) = live hp \<and> (q' \<noteq> q \<longrightarrow> tab (fill_entries q r m z j hp) q' = tab hp q') \<and>
    length (tab (fill_entries q r m z j hp) q') = length (tab hp q')"
  proof (induction q r m z j hp rule: fill_entries.induct)
    case (1 q r m z j hp)
    then show ?case
      unfolding fill_entries.simps [of q r m z j hp] by (cases "j < z") (simp_all split: if_splits)
  qed
  then show "brk (fill_entries q r m z j hp) = brk hp" "hlink (fill_entries q r m z j hp) = hlink hp"
    "live (fill_entries q r m z j hp) = live hp" "q' \<noteq> q \<Longrightarrow> tab (fill_entries q r m z j hp) q' = tab hp q'"
    "length (tab (fill_entries q r m z j hp) q') = length (tab hp q')" by blast+
qed

lemma fill_entries_nth:
  assumes "i < length (tab hp q)" "z \<le> length (tab hp q)"
  shows "tab (fill_entries q r m z j hp) q ! i =
    (if j \<le> i \<and> i < z \<and> i mod 2 ^ m = j mod 2 ^ m then r else tab hp q ! i)"
  using assms
proof (induction q r m z j hp rule: fill_entries.induct)
  case (1 q r m z j hp)
  have next_one: "j + 2 ^ m \<le> i \<longleftrightarrow> j < i" if "i mod 2 ^ m = j mod 2 ^ m"
  proof
    assume ji: "j < i"
    then have "2 ^ m dvd i - j" using that by (metis less_imp_le_nat mod_eq_dvd_iff_nat)
    then have "2 ^ m \<le> i - j" using ji by (intro dvd_imp_le) auto
    then show "j + 2 ^ m \<le> i" using ji by simp
  qed (use zero_less_power [of "2::nat" m] in linarith)
  show ?case
  proof (cases "j < z")
    case True
    have "tab (fill_entries q r m z (j + 2 ^ m) (set_entry q j r hp)) q ! i =
        (if j + 2 ^ m \<le> i \<and> i < z \<and> i mod 2 ^ m = (j + 2 ^ m) mod 2 ^ m then r else tab (set_entry q j r hp) q ! i)"
      using 1 True by simp
    moreover have "tab (set_entry q j r hp) q ! i = (if i = j then r else tab hp q ! i)"
      using 1(2) by (simp add: nth_list_update)
    moreover have "i = j \<Longrightarrow> i < z" using True by simp
    ultimately show ?thesis
      unfolding fill_entries.simps [of q r m z j hp] using True next_one by (auto simp: le_less)
  next
    case False
    then show ?thesis unfolding fill_entries.simps [of q r m z j hp] by auto
  qed
qed

lemma alloc_table_simps:
  "alloc_table z hp = (brk hp, snd (alloc_table z hp))"
  "tab (snd (alloc_table z hp)) q = (if q = brk hp then replicate z no_huft else tab hp q)"
  "brk (snd (alloc_table z hp)) = Suc (brk hp)"
  by (simp_all add: alloc_table_def)

text \<open>The bits of \<open>v\<close> after the first \<open>w\<close>.\<close>

lemma mod_parts:
  assumes "w \<le> k" "(i::nat) < 2 ^ k" "v mod 2 ^ w = i mod 2 ^ w"
  shows "v div 2 ^ w mod 2 ^ (k - w) = i div 2 ^ w \<longleftrightarrow> v mod 2 ^ k = i"
proof -
  have k: "(2::nat) ^ k = 2 ^ w * 2 ^ (k - w)" using assms(1) by (simp flip: power_add)
  have "v mod 2 ^ k = 2 ^ w * (v div 2 ^ w mod 2 ^ (k - w)) + v mod 2 ^ w"
    unfolding k by (rule mod_mult2_eq)
  moreover have "i = 2 ^ w * (i div 2 ^ w) + i mod 2 ^ w" by simp
  ultimately show ?thesis using assms(3)
    by (metis add_right_cancel mult_cancel1 power_not_zero zero_neq_numeral)
qed

lemma and_below: "(x::nat) AND (2 ^ w - 1) = x mod 2 ^ w"
  by (metis mask_eq_exp_minus_1 take_bit_eq_mask take_bit_eq_mod)

subsection \<open>The tables on the way to a code\<close>

context canonical_code
begin

definition table_ok :: "(nat \<Rightarrow> nat \<times> nat \<times> nat) \<Rightarrow> hheap \<Rightarrow> nat \<Rightarrow> nat \<Rightarrow> nat \<Rightarrow> bool" where
  "table_ok R hp q w x \<longleftrightarrow> q < brk hp \<and> (\<exists>J. length (tab hp q) = 2 ^ J \<and> R q = (w, x, min J l) \<and>
     fits (rv g x) w J \<and> (0 < w \<longrightarrow> J \<le> l))"

definition linked :: "(nat \<Rightarrow> nat \<times> nat \<times> nat) \<Rightarrow> hheap \<Rightarrow> nat \<Rightarrow> nat \<Rightarrow> nat \<Rightarrow> nat \<Rightarrow> bool" where
  "linked R hp q q' w x' \<longleftrightarrow> (\<exists>B. R q = (w, x' mod 2 ^ w, l) \<and> R q' = (w + l, x', B) \<and> 1 \<le> B \<and> B \<le> l \<and>
     tab hp q ! (x' div 2 ^ w) = \<lparr>h_e = of_nat (16 + B), h_b = of_nat l, h_v = Tbl q'\<rparr>)"

text \<open>\<open>H\<close> tables, at the depths 0, \<open>l\<close>, \<open>2 * l\<close>, ..., lead to the code at place \<open>P\<close>.\<close>

definition path :: "(nat \<Rightarrow> nat \<times> nat \<times> nat) \<Rightarrow> hbuild \<Rightarrow> nat \<Rightarrow> nat \<Rightarrow> bool" where
  "path R st H P \<longleftrightarrow> hh st = int H - 1 \<and> hw st = int l * (int H - 1) \<and> length (hu st) = 16 \<and> length (hx st) = 17 \<and> hx st ! 0 = 0 \<and>
     (\<forall>h<H. table_ok R (heap st) (hu st ! h) (l * h) (hx st ! h)) \<and>
     (\<forall>h. Suc h < H \<longrightarrow> linked R (heap st) (hu st ! h) (hu st ! Suc h) (l * h) (hx st ! Suc h)) \<and>
     (\<forall>h<H. rv g P mod 2 ^ (l * h) = hx st ! h)"

lemma path_table: "path R st H P \<Longrightarrow> h < H \<Longrightarrow> table_ok R (heap st) (hu st ! h) (l * h) (hx st ! h)"
  by (simp add: path_def)

lemma path_link: "path R st H P \<Longrightarrow> Suc h < H \<Longrightarrow>
    linked R (heap st) (hu st ! h) (hu st ! Suc h) (l * h) (hx st ! Suc h)"
  by (simp add: path_def)

lemma path_prefix: "path R st H P \<Longrightarrow> h < H \<Longrightarrow> rv g P mod 2 ^ (l * h) = hx st ! h"
  by (simp add: path_def)

lemma path_depth: "path R st H P \<Longrightarrow> h < H \<Longrightarrow> h' < H \<Longrightarrow> hu st ! h = hu st ! h' \<Longrightarrow> h = h'"
proof -
  assume a: "path R st H P" "h < H" "h' < H" "hu st ! h = hu st ! h'"
  have "\<exists>x B. R (hu st ! h) = (l * h, x, B)" "\<exists>x B. R (hu st ! h) = (l * h', x, B)"
    using path_table [OF a(1,2)] path_table [OF a(1,3)] a(4) unfolding table_ok_def by metis+
  then have "l * h = l * h'" by (metis prod.inject)
  then show "h = h'" using bits(1) by simp
qed

text \<open>A bit string that goes through the current table comes to it from the first.\<close>

lemma linked_leads:
  assumes "linked R hp q q' w x'" "q < brk hp" "2 ^ l \<le> length (tab hp q)" "v mod 2 ^ (w + l) = x'" "leads l R hp v q' r t"
  shows "leads l R hp v q r t"
proof -
  obtain B where B: "R q = (w, x' mod 2 ^ w, l)" "R q' = (w + l, x', B)" "1 \<le> B" "B \<le> l"
      "tab hp q ! (x' div 2 ^ w) = \<lparr>h_e = of_nat (16 + B), h_b = of_nat l, h_v = Tbl q'\<rparr>"
    using assms(1) unfolding linked_def by blast
  have small: "l \<le> 16" using bits by simp
  have x: "x' mod 2 ^ w = v mod 2 ^ w" "v div 2 ^ w mod 2 ^ l = x' div 2 ^ w"
    using assms(4) by (auto simp: mod_mod_cancel le_imp_power_dvd power_add mod_mult2_eq)
  have e: "unat (of_nat (16 + B) :: u8) = 16 + B" "unat (of_nat l :: u8) = l"
    using B(4) small by (simp_all only: unat_of_nat) simp_all
  have "\<not> leafy \<lparr>h_e = of_nat (16 + B), h_b = of_nat l, h_v = Tbl q'\<rparr>"
    unfolding leafy_unat huft.simps e(1) using B(3,4) small by simp
  moreover have "R q' = (w + unat (of_nat l :: u8), x', B)" unfolding e by (rule B(2))
  moreover have "R q = (w, v mod 2 ^ w, l)" using B(1) unfolding x(1) .
  moreover have "tab hp q ! (v div 2 ^ w mod 2 ^ l) = \<lparr>h_e = of_nat (16 + B), h_b = of_nat l, h_v = Tbl q'\<rparr>"
    using B(5) unfolding x(2) .
  ultimately show ?thesis
    using assms(2,3,5) e bits(1)
    by - (rule leads.link [where w = w and q' = q' and B = l and B' = B and x' = x'
          and r = "\<lparr>h_e = of_nat (16 + B), h_b = of_nat l, h_v = Tbl q'\<rparr>"]; (assumption | simp only: huft.simps))
qed

lemma path_leads:
  assumes "path R st H P" "h < H" "v mod 2 ^ (l * h) = hx st ! h" "leads l R (heap st) v (hu st ! h) r t"
  shows "leads l R (heap st) v (hu st ! 0) r t"
  using assms(2-)
proof (induction h)
  case (Suc h)
  have p: "rv g P mod 2 ^ (l * h) = hx st ! h" "rv g P mod 2 ^ (l * Suc h) = hx st ! Suc h"
    using path_prefix [OF assms(1), of h] path_prefix [OF assms(1), of "Suc h"] Suc.prems by simp_all
  have le: "(2::nat) ^ (l * h) dvd 2 ^ (l * Suc h)" by (simp add: le_imp_power_dvd)
  have "v mod 2 ^ (l * h) = v mod 2 ^ (l * Suc h) mod 2 ^ (l * h)" using le by (simp add: mod_mod_cancel)
  also have "\<dots> = hx st ! h" using Suc.prems(2) p le by (metis mod_mod_cancel)
  finally have v: "v mod 2 ^ (l * h) = hx st ! h" .
  obtain J where J: "hu st ! h < brk (heap st)" "length (tab (heap st) (hu st ! h)) = 2 ^ J"
      "R (hu st ! h) = (l * h, hx st ! h, min J l)"
    using path_table [OF assms(1), of h] Suc.prems unfolding table_ok_def by auto
  have li: "linked R (heap st) (hu st ! h) (hu st ! Suc h) (l * h) (hx st ! Suc h)"
    using path_link [OF assms(1)] Suc.prems by simp
  then have "min J l = l" using J(3) by (auto simp: linked_def)
  then have "(2::nat) ^ l \<le> length (tab (heap st) (hu st ! h))"
    unfolding J(2) by (simp add: min_def split: if_splits)
  then have "leads l R (heap st) v (hu st ! h) r t"
    using Suc.prems li J(1) by (intro linked_leads [OF li]) (simp_all add: add.commute)
  then show ?case using Suc.IH Suc.prems v by simp
qed simp

end

subsection \<open>A new table\<close>

lemma new_table_simps:
  "hh (new_table c g l k a st) = hh st + 1" "hw (new_table c g l k a st) = hw st + l"
  "hi (new_table c g l k a st) = hi st" "hnext (new_table c g l k a st) = hnext st"
  "hz (new_table c g l k a st) = 2 ^ table_bits c g l k (hw st + l) a"
  "hq (new_table c g l k a st) = brk (heap st)"
  "hu (new_table c g l k a st) = (hu st)[nat (hh st + 1) := brk (heap st)]"
  "hx (new_table c g l k a st) = (if hh st + 1 \<noteq> 0 then (hx st)[nat (hh st + 1) := hi st] else hx st)"
  "hroot (new_table c g l k a st) = (if hlast st = None then Some (brk (heap st)) else hroot st)"
  "hlast (new_table c g l k a st) = Some (brk (heap st))"
  "brk (heap (new_table c g l k a st)) = Suc (brk (heap st))"
  by (simp_all add: new_table_def Let_def alloc_table_def set_entry_def split: option.splits)

lemma new_table_heap:
  "tab (heap (new_table c g l k a st)) =
    (let j = table_bits c g l k (hw st + l) a;
         t = (tab (heap st))(brk (heap st) := replicate (2 ^ j) no_huft);
         q = (hu st)[nat (hh st + 1) := brk (heap st)] ! nat (hh st)
     in if hh st + 1 \<noteq> 0
        then t(q := (t q)[drop_bit (nat (hw st)) (hi st) :=
               \<lparr>h_e = of_nat (16 + j), h_b = of_int l, h_v = Tbl (brk (heap st))\<rparr>])
        else t)"
  by (simp add: new_table_def Let_def alloc_table_def set_entry_def fun_eq_iff split: option.splits)

context canonical_code
begin

lemma part_of:
  assumes "w \<le> g" "x < 2 ^ w"
  shows "v mod 2 ^ w = x \<longleftrightarrow> rv g x \<le> rv g v \<and> rv g v < rv g x + 2 ^ (g - w)"
    and "2 ^ (g - w) dvd rv g x"
proof -
  have "rv g x = rv w x * 2 ^ (g - w)"
    using rv_add [of w "g - w" x] assms rv_multiple [of "g - w" 0] by simp
  then show d: "2 ^ (g - w) dvd rv g x" by simp
  have "x < 2 ^ g" using assms less_le_trans [of x "2 ^ w" "2 ^ g"] by simp
  then show "v mod 2 ^ w = x \<longleftrightarrow> rv g x \<le> rv g v \<and> rv g v < rv g x + 2 ^ (g - w)"
    using place_of_code(2) [OF assms(1) d rv_less, of v] rv_rv [of g x] by simp
qed

text \<open>What the loop knows when a code of \<open>k\<close> bits at place \<open>pos p\<close> needs a table at level \<open>H\<close>.\<close>

definition at_code :: "(nat \<Rightarrow> nat \<times> nat \<times> nat) \<Rightarrow> hbuild \<Rightarrow> nat \<Rightarrow> nat \<Rightarrow> bool" where
  "at_code R st H p \<longleftrightarrow> path R st H (pos p) \<and> hi st = rv g (pos p) \<and> hnext st = min p n \<and>
     2 ^ (g - l * H) dvd pos p \<and> (hlast st = None \<longleftrightarrow> H = 0) \<and> (0 < H \<longrightarrow> hroot st = Some (hu st ! 0))"

lemma level_bound:
  assumes "p < length K" "l * H < K ! p"
  shows "H \<le> 15" "l * H < g"
proof -
  have "l * H < g" using assms(2) K_nth [OF assms(1)] by simp
  moreover have "H \<le> l * H" using bits(1) by (cases l) auto
  ultimately show "H \<le> 15" "l * H < g" using bits(3) by linarith+
qed

lemma new_table_path:
  assumes p: "p < length K" "a = count_list (drop (Suc p) K) (K ! p)"
    and k: "l * H < K ! p" "K ! p \<le> l * H + l" and at: "at_code R st H p"
  defines "st' \<equiv> new_table c (int g) (int l) (int (K ! p)) a st"
    and "q0 \<equiv> brk (heap st)"
    and "J \<equiv> table_bits c (int g) (int l) (int (K ! p)) (int (l * H)) a"
  defines "R' \<equiv> R(q0 := (l * H, rv g (pos p), min J l))"
  shows "path R' st' (Suc H) (pos p)"
    and "rv g v < pos p \<Longrightarrow> 0 < H \<Longrightarrow> leads l R (heap st) v q r t \<Longrightarrow> leads l R' (heap st') v q r t"
    and "length (tab (heap st') q0) = 2 ^ J"
proof -
  let ?k = "K ! p" and ?i = "rv g (pos p)"
  have path: "path R st H (pos p)" and hi: "hi st = ?i" and al: "2 ^ (g - l * H) dvd pos p"
    using at unfolding at_code_def by simp_all
  have hw: "hw st + int l = int (l * H)" "hh st = int H - 1" "length (hu st) = 16" "length (hx st) = 17" "hx st ! 0 = 0"
    using path unfolding path_def by (simp_all add: algebra_simps)
  have J': "J = table_bits c (int g) (int l) (int (K ! p)) (hw st + int l) a" unfolding J_def hw(1) ..
  note H = level_bound [OF p(1) k(1)]
  have bits': "?k \<le> l * H + J" "fits (pos p) (l * H) J" "l \<le> l * H \<Longrightarrow> J \<le> l"
    unfolding J_def using table_bits_enough [OF p k al] by simp_all
  have i: "?i < 2 ^ (l * H)" using place_of_code(1) [OF _ al pos_less [OF p(1)]] H(2) by simp
  have lt: "hu st ! h < q0" if "h < H" for h
    using path_table [OF path that] by (simp add: table_ok_def q0_def)
  have hu: "hu st' ! h = (if h = H then q0 else hu st ! h)" for h
    unfolding st'_def new_table_simps q0_def using hw H(1) by (auto simp: nth_list_update)
  have hx: "hx st' ! h = (if h = H then ?i else hx st ! h)" if "h \<le> H" for h
  proof (cases H)
    case 0
    then show ?thesis using that hw(5) i unfolding st'_def new_table_simps hw(1,2) by simp
  next
    case (Suc m)
    then show ?thesis unfolding st'_def new_table_simps hw hi using hw(4) H(1) by (auto simp: nth_list_update)
  qed
  have tab0: "tab (heap st') q0 = replicate (2 ^ J) no_huft"
  proof (cases H)
    case 0
    then show ?thesis unfolding st'_def new_table_heap q0_def J_def using hw by (simp add: Let_def)
  next
    case (Suc m)
    then have "hu st ! m < q0" "hu st ! m \<noteq> q0" using lt [of m] by simp_all
    then show ?thesis unfolding st'_def new_table_heap J' using hw(2,3) Suc
      by (simp add: Let_def q0_def)
  qed
  show "length (tab (heap st') q0) = 2 ^ J" by (simp add: tab0)
  have tabs: "tab (heap st') q = (if 0 < H \<and> q = hu st ! (H - 1)
      then (tab (heap st) q)[?i div 2 ^ (l * (H - 1)) :=
        \<lparr>h_e = of_nat (16 + J), h_b = of_nat l, h_v = Tbl q0\<rparr>] else tab (heap st) q)" if "q < q0" for q
  proof (cases H)
    case 0
    then show ?thesis unfolding st'_def new_table_heap using that hw by (simp add: Let_def q0_def)
  next
    case (Suc m)
    then have "hw st = int (l * m)" using hw(1) by (simp add: algebra_simps)
    then show ?thesis unfolding st'_def new_table_heap J' using that hw(2,3) Suc lt [of m] hi
      by (auto simp: Let_def q0_def drop_bit_eq_div nat_mult_distrib)
  qed
  have lw: "rv g ?i = pos p" using rv_rv [of g "pos p"] pos_less [OF p(1)] by simp
  have ok: "table_ok R' (heap st') (hu st' ! h) (l * h) (hx st' ! h)" if "h < Suc H" for h
  proof (cases "h = H")
    case True
    have "0 < l * H \<Longrightarrow> l \<le> l * H" by (cases H) simp_all
    then show ?thesis
      using True bits' tab0 hx [of H] unfolding table_ok_def hu R'_def
      by (auto simp: st'_def new_table_simps q0_def lw)
  next
    case False
    then have h: "h < H" using that by simp
    then have "hu st ! h < q0" by (rule lt)
    then show ?thesis
      using path_table [OF path h] tabs [of "hu st ! h"] hx [of h] False h
      unfolding table_ok_def hu R'_def
      by (auto simp: st'_def new_table_simps q0_def)
  qed
  have parent: "R (hu st ! m) = (l * m, hx st ! m, l) \<and> 2 ^ l \<le> length (tab (heap st) (hu st ! m))" if m: "H = Suc m" for m
  proof -
    obtain j where j: "R (hu st ! m) = (l * m, hx st ! m, min j l)" "fits (rv g (hx st ! m)) (l * m) j"
        "length (tab (heap st) (hu st ! m)) = 2 ^ j"
      using path_table [OF path, of m] m unfolding table_ok_def by auto
    have x: "hx st ! m = ?i mod 2 ^ (l * m)" using path_prefix [OF path, of m] m by simp
    have "l * m \<le> g" using H(2) m by simp
    then have "rv g (hx st ! m) \<le> pos p \<and> pos p < rv g (hx st ! m) + 2 ^ (g - l * m)"
      using part_of(1) [of "l * m" "hx st ! m" ?i] x lw by simp
    then have "l \<le> j" using j(2) p(1) k(1) m unfolding fits_def by auto
    then show ?thesis using j by (simp add: min_def)
  qed
  have li: "linked R' (heap st') (hu st' ! h) (hu st' ! Suc h) (l * h) (hx st' ! Suc h)" if "Suc h < Suc H" for h
  proof (cases "Suc h = H")
    case True
    note par = parent [OF True [symmetric]]
    have H1: "l \<le> l * H" unfolding True [symmetric] by simp
    have J: "1 \<le> J" "J \<le> l" using bits'(1) bits'(3) [OF H1] k(1) by linarith+
    have n: "hu st' ! h = hu st ! h" "hu st' ! Suc h = q0" "hx st' ! Suc h = ?i"
      unfolding hu True hx [OF order_refl] using True by auto
    have q: "hu st ! h < q0" "H - 1 = h" "0 < H"
      using lt [of h] True by auto
    have "?i < 2 ^ l * 2 ^ (l * h)" using i unfolding True [symmetric] by (simp add: power_add)
    then have "?i div 2 ^ (l * h) < 2 ^ l" by (rule less_mult_imp_div_less)
    then have "?i div 2 ^ (l * h) < length (tab (heap st) (hu st ! h))"
      using par by (elim conjE less_le_trans)
    then have t: "tab (heap st') (hu st ! h) ! (?i div 2 ^ (l * h)) = \<lparr>h_e = of_nat (16 + J), h_b = of_nat l, h_v = Tbl q0\<rparr>"
      unfolding tabs [OF q(1)] q(2) using q(3) by simp
    have r: "R' (hu st ! h) = (l * h, ?i mod 2 ^ (l * h), l)" "R' q0 = (l * h + l, ?i, J)"
      using par path_prefix [OF path, of h] True q(1) J unfolding R'_def by auto
    show ?thesis
      unfolding linked_def n t by (intro exI [of _ J] conjI r J refl)
  next
    case False
    then have h: "Suc h < H" using that by simp
    then have "hu st ! h \<noteq> hu st ! (H - 1)" using path_depth [OF path, of h "H - 1"] by auto
    then show ?thesis
      using path_link [OF path h] lt [of h] lt [of "Suc h"] h tabs [of "hu st ! h"] hx [of "Suc h"]
      unfolding linked_def hu R'_def by auto
  qed
  have pre: "rv g (pos p) mod 2 ^ (l * h) = hx st' ! h" if "h < Suc H" for h
    using path_prefix [OF path, of h] hx [of h] i that by (cases "h = H") simp_all
  have s: "hh st' = int (Suc H) - 1" "hw st' = int l * (int (Suc H) - 1)"
      "length (hu st') = 16" "length (hx st') = 17"
    unfolding st'_def new_table_simps using hw by simp_all
  have x0: "hx st' ! 0 = 0" using hx [of 0] hw(5) i by (cases "H = 0") simp_all
  show "path R' st' (Suc H) (pos p)"
    unfolding path_def using ok li pre s x0 by simp
  show "rv g v < pos p \<Longrightarrow> 0 < H \<Longrightarrow> leads l R (heap st) v q r t \<Longrightarrow> leads l R' (heap st') v q r t"
  proof -
    assume v: "rv g v < pos p" "0 < H" "leads l R (heap st) v q r t"
    then obtain m where m: "H = Suc m" by (cases H) auto
    have B: "brk (heap st) \<le> brk (heap st')" by (simp add: st'_def new_table_simps)
    show ?thesis
    proof (rule leads_frame [OF v(3) B])
      fix q w B assume q: "q < brk (heap st)"
      show "R' q = R q \<and> length (tab (heap st') q) = length (tab (heap st) q)"
        using q tabs [of q] by (simp add: R'_def q0_def)
      assume R: "R q = (w, v mod 2 ^ w, B)"
      have "\<not> (q = hu st ! m \<and> v div 2 ^ w mod 2 ^ B = ?i div 2 ^ (l * m))"
      proof
        assume e: "q = hu st ! m \<and> v div 2 ^ w mod 2 ^ B = ?i div 2 ^ (l * m)"
        then have w: "w = l * m" "B = l" "v mod 2 ^ (l * m) = hx st ! m"
          using parent [OF m] R by auto
        have "v mod 2 ^ (l * m) = ?i mod 2 ^ (l * m)" using w(3) path_prefix [OF path, of m] m by simp
        then have "v mod 2 ^ (l * H) = ?i"
          using mod_parts [of "l * m" "l * H" ?i v] i m e w(1,2) by simp
        then have "pos p \<le> rv g v"
          using part_of(1) [of "l * H" ?i v] i H(2) lw by simp
        then show False using v(1) by simp
      qed
      then show "tab (heap st') q ! (v div 2 ^ w mod 2 ^ B) = tab (heap st) q ! (v div 2 ^ w mod 2 ^ B)"
        using q tabs [of q] m by (auto simp: q0_def nth_list_update)
    qed
  qed
qed

end

end
