(* ===== verification/Huft_Codes.thy ===== *)
theory Huft_Codes
  imports Huft_Steps
begin

text \<open>
  One turn of the main loop of \<open>huft_build\<close> keeps its invariant, and so do all codes of a complete
  set: afterwards every bit string is led to the entry of its code.
\<close>

subsection \<open>Backing up over finished tables\<close>

lemma back_up:
  assumes "0 < H" "hh st = int H - 1" "hw st = int l * (int H - 1)" "hx st ! 0 = 0"
  shows "\<exists>H'. 0 < H' \<and> H' \<le> H \<and>
    while_option (\<lambda>st. hi st AND (2 ^ nat (hw st) - 1) \<noteq> hx st ! nat (hh st))
      (\<lambda>st. st\<lparr>hh := hh st - 1, hw := hw st - int l\<rparr>) st =
      Some (st\<lparr>hh := int H' - 1, hw := int l * (int H' - 1)\<rparr>) \<and>
    hi st mod 2 ^ (l * (H' - 1)) = hx st ! (H' - 1) \<and>
    (H' < H \<longrightarrow> hi st mod 2 ^ (l * H') \<noteq> hx st ! H')"
  using assms
proof (induction H arbitrary: st)
  case (Suc m)
  let ?b = "\<lambda>st. hi st AND (2 ^ nat (hw st) - 1) \<noteq> hx st ! nat (hh st)"
  let ?c = "\<lambda>st. st\<lparr>hh := hh st - 1, hw := hw st - int l\<rparr>"
  have w: "nat (hw st) = l * m" "nat (hh st) = m" "hw st = int (l * m)" "hh st = int m"
    using Suc.prems by (simp_all add: nat_mult_distrib)
  have b: "?b st \<longleftrightarrow> hi st mod 2 ^ (l * m) \<noteq> hx st ! m" unfolding w(1,2) and_below ..
  show ?case
  proof (cases "?b st")
    case False
    have "while_option ?b ?c st = Some st" using False by (subst while_option_unfold) simp
    moreover have "st\<lparr>hh := int (Suc m) - 1, hw := int l * (int (Suc m) - 1)\<rparr> = st"
      using w by (cases st) simp
    ultimately show ?thesis using False b by (intro exI [of _ "Suc m"]) simp
  next
    case True
    have m: "0 < m" using True b Suc.prems(4) by (cases m) simp_all
    obtain H' where H': "0 < H'" "H' \<le> m"
        "while_option ?b ?c (?c st) = Some ((?c st)\<lparr>hh := int H' - 1, hw := int l * (int H' - 1)\<rparr>)"
        "hi st mod 2 ^ (l * (H' - 1)) = hx st ! (H' - 1)" "H' < m \<longrightarrow> hi st mod 2 ^ (l * H') \<noteq> hx st ! H'"
      using Suc.IH [of "?c st"] m w Suc.prems(4) by (auto simp: algebra_simps)
    have "while_option ?b ?c st = while_option ?b ?c (?c st)"
      using True by (subst while_option_unfold) simp
    then show ?thesis using H' True b by (intro exI [of _ H']) (cases "H' = m"; simp)
  qed
qed simp

subsection \<open>Entries of a code\<close>

text \<open>The operation and the value of the entry for a symbol.\<close>

definition leaf_fields :: "nat \<Rightarrow> nat list \<Rightarrow> nat list \<Rightarrow> nat \<Rightarrow> u8 \<times> hval" where
  "leaf_fields s d e val = (if val < s then (if val < 256 then 16 else 15, Num (of_nat val))
    else (of_nat (e ! (val - s)), Num (of_nat (d ! (val - s)))))"

context canonical_code
begin

definition is_entry :: "nat \<Rightarrow> huft \<Rightarrow> bool" where
  "is_entry p r \<longleftrightarrow> (if p < n then h_e r = fst (leaf_fields s d e (vals ! p)) \<and> h_v r = snd (leaf_fields s d e (vals ! p)) else h_e r = 99)"

lemma code_entry_eq:
  assumes "hnext st = min p n"
  shows "\<exists>r. is_entry p r \<and> h_b r = of_int (k - hw st) \<and>
    code_entry vals n s d e k st = st\<lparr>hr := r, hnext := min (Suc p) n\<rparr>"
  using assms
  by (cases "p < n") (auto simp: code_entry_def leaf_fields_def is_entry_def Let_def intro!: exI
      [of _ "hr (code_entry vals n s d e k st)"])

lemma leafy_entry:
  assumes "p < length K" "is_entry p r"
  shows "leafy r"
  using assms leaves [OF assms(1)] unfolding leafy_unat leaf_fields_def is_entry_def
  by (auto simp: unat_of_nat split: if_splits)

lemma table_ok_frame:
  assumes "table_ok R hp q w x" "brk hp \<le> brk hp'" "length (tab hp' q) = length (tab hp q)"
  shows "table_ok R hp' q w x"
  using assms by (auto simp: table_ok_def)

text \<open>Filling the entries of a code in the current table.\<close>

lemma fill_path:
  assumes p: "p < length K" and path: "path R st (Suc m) (pos p)"
    and k: "l * m < K ! p" "K ! p \<le> l * m + l"
    and r: "leafy r" "h_b r = of_nat (K ! p - l * m)"
  defines "q \<equiv> hu st ! m"
  defines "hp' \<equiv> fill_entries q r (K ! p - l * m) (length (tab (heap st) q)) (rv g (pos p) div 2 ^ (l * m)) (heap st)"
  shows "path R (st\<lparr>heap := hp'\<rparr>) (Suc m) (pos p)"
    and "rv g v < pos p \<Longrightarrow> leads l R (heap st) v q' r' t \<Longrightarrow> leads l R hp' v q' r' t"
    and "pos p \<le> rv g v \<Longrightarrow> rv g v < pos (Suc p) \<Longrightarrow> leads l R hp' v (hu st ! 0) r (K ! p)"
proof -
  let ?k = "K ! p" and ?i = "rv g (pos p)" and ?w = "l * m"
  have kg: "?k \<le> g" "?w \<le> ?k" using K_nth [OF p] k(1) by simp_all
  have lw: "rv g ?i = pos p" using rv_rv [of g "pos p"] pos_less [OF p] by simp
  have i: "?i < 2 ^ ?k" and place: "\<And>v. v mod 2 ^ ?k = ?i \<longleftrightarrow> pos p \<le> rv g v \<and> rv g v < pos (Suc p)"
    using place_of_code [OF kg(1) pos_dvd [OF p order_refl] pos_less [OF p]] pos_Suc [OF p] by simp_all
  have pre: "?i mod 2 ^ ?w = hx st ! m" using path_prefix [OF path, of m] by simp
  obtain J where J: "q < brk (heap st)" "length (tab (heap st) q) = 2 ^ J" "R q = (?w, hx st ! m, min J l)"
      "fits (rv g (hx st ! m)) ?w J"
    using path_table [OF path, of m] unfolding table_ok_def q_def by auto
  have "rv g (hx st ! m) \<le> pos p \<and> pos p < rv g (hx st ! m) + 2 ^ (g - ?w)"
    using part_of(1) [of ?w "hx st ! m" ?i] pre kg lw mod_less_divisor [of "2 ^ ?w" ?i] by simp
  then have fit: "?k - ?w \<le> min J l" using J(4) p k unfolding fits_def by auto
  have hp: "brk hp' = brk (heap st)" "\<And>q'. length (tab hp' q') = length (tab (heap st) q')"
      "\<And>q'. q' \<noteq> q \<Longrightarrow> tab hp' q' = tab (heap st) q'"
    by (simp_all add: hp'_def)
  have nth: "tab hp' q ! x = (if x mod 2 ^ (?k - ?w) = ?i div 2 ^ ?w then r else tab (heap st) q ! x)" if "x < 2 ^ J" for x
  proof -
    have "?i < 2 ^ (?k - ?w) * 2 ^ ?w" using i kg(2) by (simp flip: power_add)
    then have "?i div 2 ^ ?w < 2 ^ (?k - ?w)" by (rule less_mult_imp_div_less)
    moreover have "x mod 2 ^ (?k - ?w) \<le> x" by (rule mod_less_eq_dividend)
    ultimately show ?thesis unfolding hp'_def using that J(2) by (subst fill_entries_nth) auto
  qed
  have hit: "tab hp' q ! (v div 2 ^ ?w mod 2 ^ min J l) =
      (if v mod 2 ^ ?k = ?i then r else tab (heap st) q ! (v div 2 ^ ?w mod 2 ^ min J l))"
    if "v mod 2 ^ ?w = hx st ! m" for v
  proof -
    have "v div 2 ^ ?w mod 2 ^ min J l < 2 ^ J" by (rule less_le_trans [OF mod_less_divisor]) simp_all
    moreover have "v div 2 ^ ?w mod 2 ^ min J l mod 2 ^ (?k - ?w) = v div 2 ^ ?w mod 2 ^ (?k - ?w)"
      using fit by (simp add: mod_mod_cancel le_imp_power_dvd)
    ultimately show ?thesis using nth mod_parts [OF kg(2) i, of v] that pre by simp
  qed
  show path': "path R (st\<lparr>heap := hp'\<rparr>) (Suc m) (pos p)"
    unfolding path_def
  proof (intro conjI allI impI)
    fix h assume "h < Suc m"
    then show "table_ok R (heap (st\<lparr>heap := hp'\<rparr>)) (hu (st\<lparr>heap := hp'\<rparr>) ! h) (l * h) (hx (st\<lparr>heap := hp'\<rparr>) ! h)"
      using table_ok_frame [OF path_table [OF path]] hp by simp
  next
    fix h assume h: "Suc h < Suc m"
    then have "hu st ! h \<noteq> q" using path_depth [OF path, of h m] by (auto simp: q_def)
    then show "linked R (heap (st\<lparr>heap := hp'\<rparr>)) (hu (st\<lparr>heap := hp'\<rparr>) ! h) (hu (st\<lparr>heap := hp'\<rparr>) ! Suc h) (l * h)
        (hx (st\<lparr>heap := hp'\<rparr>) ! Suc h)"
      using path_link [OF path h] hp by (simp add: linked_def)
  qed (use path in \<open>simp_all add: path_def\<close>)
  show "leads l R hp' v q' r' t" if v: "rv g v < pos p" "leads l R (heap st) v q' r' t" for v q' r' t
  proof (rule leads_frame [OF v(2)])
    fix q' w B assume R: "R q' = (w, v mod 2 ^ w, B)"
    show "tab hp' q' ! (v div 2 ^ w mod 2 ^ B) = tab (heap st) q' ! (v div 2 ^ w mod 2 ^ B)"
    proof (cases "q' = q")
      case True
      then have "w = ?w" "B = min J l" "v mod 2 ^ ?w = hx st ! m" using R J(3) by auto
      then show ?thesis using hit place v(1) True by simp
    qed (simp add: hp)
  qed (simp_all add: hp)
  show "leads l R hp' v (hu st ! 0) r ?k" if v: "pos p \<le> rv g v" "rv g v < pos (Suc p)" for v
  proof -
    have vk: "v mod 2 ^ ?k = ?i" using place v by simp
    have vm: "v mod 2 ^ ?w = hx st ! m" using vk pre kg(2)
      by (metis le_imp_power_dvd mod_mod_cancel)
    have "?k - ?w < 256" using kg bits by simp
    then have t: "?w + unat (h_b r) = ?k" unfolding r(2) unat_of_nat using kg(2) by simp
    have h: "unat (h_b r) = ?k - ?w" using t by (metis add_diff_cancel_left')
    have "unat (h_b r) \<in> {1..min J l}" unfolding h using fit k(1) by simp
    then have "leads l R hp' v q r (?w + unat (h_b r))"
      by (intro leads.leaf [where B = "min J l"]) (use J hp vm vk hit [OF vm] r bits in simp_all)
    then show ?thesis
      using path_leads [OF path', of m v r ?k] vm t by (simp add: q_def)
  qed
qed

text \<open>A code that is the first outside a part of the places follows it.\<close>

lemma leaving_part:
  assumes p: "p < length K" and w: "w < K ! p" and P: "rv g (pos (Suc p)) mod 2 ^ w \<noteq> rv g (pos p) mod 2 ^ w"
  shows "2 ^ (g - w) dvd pos (Suc p)"
proof (cases "pos (Suc p) < 2 ^ g")
  case True
  let ?x = "rv g (pos p) mod 2 ^ w" and ?k = "K ! p"
  have kg: "w \<le> g" "?k \<le> g" using K_nth [OF p] w by simp_all
  have x: "?x < 2 ^ w" by simp
  obtain C where C: "rv g ?x = 2 ^ (g - w) * C" using part_of(2) [OF kg(1) x] by (auto elim: dvdE)
  have lw: "rv g (rv g (pos p)) = pos p" "rv g (rv g (pos (Suc p))) = pos (Suc p)"
    using rv_rv [of g "pos p"] rv_rv [of g "pos (Suc p)"] pos_less [OF p] True by simp_all
  have "rv g ?x \<le> pos p" "pos p < rv g ?x + 2 ^ (g - w)"
    using part_of(1) [OF kg(1) x, of "rv g (pos p)"] lw by simp_all
  moreover have "\<not> (rv g ?x \<le> pos (Suc p) \<and> pos (Suc p) < rv g ?x + 2 ^ (g - w))"
    using part_of(1) [OF kg(1) x, of "rv g (pos (Suc p))"] lw P by simp
  ultimately have ge: "rv g ?x + 2 ^ (g - w) \<le> pos (Suc p)" and lt: "pos p < rv g ?x + 2 ^ (g - w)"
    using pos_mono [of p "Suc p"] by auto
  have "(2::nat) ^ (g - ?k) dvd 2 ^ (g - w)" using w by (intro le_imp_power_dvd) simp
  then have "2 ^ (g - ?k) dvd rv g ?x + 2 ^ (g - w)" unfolding C by simp
  then have "2 ^ (g - ?k) dvd (rv g ?x + 2 ^ (g - w)) - pos p"
    using pos_dvd [OF p order_refl] by (rule dvd_diff_nat)
  then have "2 ^ (g - ?k) \<le> (rv g ?x + 2 ^ (g - w)) - pos p" using lt by (intro dvd_imp_le) auto
  then have "pos (Suc p) = rv g ?x + 2 ^ (g - w)" using ge lt pos_Suc [OF p] by linarith
  then show ?thesis unfolding C by simp
next
  case False
  then have "pos (Suc p) = 2 ^ g" using pos_rest [of "Suc p"] by linarith
  then show ?thesis by (simp add: le_imp_power_dvd)
qed

subsection \<open>One code\<close>

definition decoded :: "(nat \<Rightarrow> nat \<times> nat \<times> nat) \<Rightarrow> hheap \<Rightarrow> nat \<Rightarrow> nat \<Rightarrow> bool" where
  "decoded R hp root p \<longleftrightarrow> (\<forall>p'<p. \<forall>v. pos p' \<le> rv g v \<and> rv g v < pos (Suc p') \<longrightarrow>
     (\<exists>r. leads l R hp v root r (K ! p') \<and> is_entry p' r))"

definition hinv :: "(nat \<Rightarrow> nat \<times> nat \<times> nat) \<Rightarrow> hbuild \<Rightarrow> nat \<Rightarrow> nat \<Rightarrow> bool" where
  "hinv R st H p \<longleftrightarrow> at_code R st H p \<and> (0 < p \<longrightarrow> 0 < H) \<and>
     (p < length K \<longrightarrow> 0 < H \<longrightarrow> l * (H - 1) < K ! p \<and>
       (hq st = hu st ! (H - 1) \<and> hz st = length (tab (heap st) (hq st)) \<or> l * H < K ! p)) \<and>
     decoded R (heap st) (hu st ! 0) p"

text \<open>First the code gets its table.\<close>

lemma table_for_code:
  assumes "hinv R st H p" "p < length K" "a = count_list (drop (Suc p) K) (K ! p)"
  shows "\<exists>R' st' m. while_option (\<lambda>st. int (K ! p) > hw st + int l) (new_table c (int g) (int l) (int (K ! p)) a) st = Some st' \<and>
    at_code R' st' (Suc m) p \<and> l * m < K ! p \<and> K ! p \<le> l * m + l \<and> hq st' = hu st' ! m \<and>
    hz st' = length (tab (heap st') (hq st')) \<and> decoded R' (heap st') (hu st' ! 0) p"
proof -
  let ?b = "\<lambda>st. int (K ! p) > hw st + int l" and ?t = "new_table c (int g) (int l) (int (K ! p)) a"
  have at: "at_code R st H p" using assms(1) by (simp add: hinv_def)
  then have path: "path R st H (pos p)" and al: "2 ^ (g - l * H) dvd pos p" by (simp_all add: at_code_def)
  have hw: "hw st + int l = int (l * H)" "hh st = int H - 1"
    using path unfolding path_def by (simp_all add: algebra_simps)
  have b: "?b st \<longleftrightarrow> l * H < K ! p" by (simp add: hw(1) flip: of_nat_mult)
  show ?thesis
  proof (cases "l * H < K ! p")
    case False
    then have H: "0 < H" using K_nth [OF assms(2)] by (cases H) auto
    then obtain m where m: "H = Suc m" by (cases H) auto
    have "while_option ?b ?t st = Some st" using False b by (subst while_option_unfold) simp
    then show ?thesis
      using assms(1,2) False m by (intro exI [of _ R] exI [of _ st] exI [of _ m]) (auto simp: hinv_def)
  next
    case True
    have k: "K ! p \<le> l * H + l"
    proof (cases H)
      case 0
      then have "p = 0" using assms(1) by (simp add: hinv_def)
      then show ?thesis using shortest by simp
    next
      case (Suc m)
      then have "K ! p < l * H + l \<or> g \<le> l * H + l" using deep [OF assms(2) _ True al] by simp
      then show ?thesis using K_nth [OF assms(2)] by linarith
    qed
    define J R' where "J = table_bits c (int g) (int l) (int (K ! p)) (int (l * H)) a"
      and "R' = R(brk (heap st) := (l * H, rv g (pos p), min J l))"
    note step = new_table_path [OF assms(2,3) True k at, folded J_def, folded R'_def]
    have H: "H \<le> 15" "length (hu st) = 16"
      using level_bound [OF assms(2) True] path by (simp_all add: path_def)
    have hu: "hu (?t st) ! h = (if h = H then brk (heap st) else hu st ! h)" for h
      using hw(2) H by (auto simp: new_table_simps nth_list_update)
    have w: "while_option ?b ?t st = Some (?t st)"
    proof -
      have "\<not> ?b (?t st)" using k hw(1) by (simp add: new_table_simps flip: of_nat_mult)
      then show ?thesis using True b by (simp add: while_option_unfold [of ?b ?t])
    qed
    have "2 ^ (g - l * Suc H) dvd pos p"
      using al by (rule dvd_trans [rotated]) (simp add: le_imp_power_dvd)
    then have at': "at_code R' (?t st) (Suc H) p"
      using at step(1) hu [of 0] unfolding at_code_def by (auto simp: new_table_simps)
    have "decoded R' (heap (?t st)) (hu (?t st) ! 0) p"
      unfolding decoded_def
    proof (intro allI impI)
      fix p' v assume p': "p' < p" and v: "pos p' \<le> rv g v \<and> rv g v < pos (Suc p')"
      have H0: "0 < H" using p' assms(1) by (simp add: hinv_def)
      obtain r where r: "leads l R (heap st) v (hu st ! 0) r (K ! p')" "is_entry p' r"
        using p' v assms(1) unfolding hinv_def decoded_def by blast
      have "rv g v < pos p" using v pos_mono [of "Suc p'" p] p' by simp
      then have "leads l R' (heap (?t st)) v (hu (?t st) ! 0) r (K ! p')"
        using step(2) [OF _ H0 r(1)] hu [of 0] H0 by simp
      then show "\<exists>r. leads l R' (heap (?t st)) v (hu (?t st) ! 0) r (K ! p') \<and> is_entry p' r"
        using r by blast
    qed
    then show ?thesis
      using w at' True k hu [of H] step(3) hw
      by (intro exI [of _ R'] exI [of _ "?t st"] exI [of _ H])
         (simp add: new_table_simps(5,6) J_def flip: of_nat_mult)
  qed
qed

lemma hinv_step:
  assumes inv: "hinv R st H p" and p: "p < length K" and a: "a = count_list (drop (Suc p) K) (K ! p)"
  shows "\<exists>R' st' H'. one_code c vals n s d e (int g) (int l) (int (K ! p)) a st = Some st' \<and> hinv R' st' H' (Suc p)"
proof -
  let ?k = "K ! p" and ?P = "pos (Suc p)"
  obtain R' st1 m where st1: "while_option (\<lambda>st. int ?k > hw st + int l) (new_table c (int g) (int l) (int ?k) a) st = Some st1"
      "at_code R' st1 (Suc m) p" "l * m < ?k" "?k \<le> l * m + l" "hq st1 = hu st1 ! m"
      "hz st1 = length (tab (heap st1) (hq st1))" "decoded R' (heap st1) (hu st1 ! 0) p"
    using table_for_code [OF assms] by blast
  have path: "path R' st1 (Suc m) (pos p)" and hi: "hi st1 = rv g (pos p)" and nx: "hnext st1 = min p n"
    and hl: "hlast st1 \<noteq> None" "hroot st1 = Some (hu st1 ! 0)"
    using st1(2) by (simp_all add: at_code_def)
  have hw: "hw st1 = int (l * m)" "hh st1 = int m" "hx st1 ! 0 = 0" using path by (simp_all add: path_def)
  have kg: "1 \<le> ?k" "?k \<le> g" using K_nth [OF p] by simp_all
  have h_b: "(of_int (int ?k - int (l * m)) :: u8) = of_nat (?k - l * m)"
    using st1(3) by (simp add: of_nat_diff)
  obtain r where r0: "is_entry p r" "h_b r = of_nat (?k - l * m)"
      "code_entry vals n s d e (int ?k) st1 = st1\<lparr>hr := r, hnext := min (Suc p) n\<rparr>"
    using code_entry_eq [OF nx, of "int ?k"] h_b unfolding hw by auto
  define st2 where "st2 = st1\<lparr>hr := r, hnext := min (Suc p) n\<rparr>"
  have st2: "code_entry vals n s d e (int ?k) st1 = st2" unfolding st2_def by (rule r0(3))
  define hp where "hp = fill_entries (hu st1 ! m) r (?k - l * m) (length (tab (heap st1) (hu st1 ! m)))
    (rv g (pos p) div 2 ^ (l * m)) (heap st1)"
  define st3 where "st3 = st2\<lparr>heap := hp, hi := rv g ?P\<rparr>"
  have nats: "nat (int ?k - int (l * m)) = ?k - l * m" "nat (int ?k - 1) = ?k - 1"
    by (simp_all only: nat_minus_as_int of_nat_1)
  have "one_code c vals n s d e (int g) (int l) (int ?k) a st =
      while_option (\<lambda>st. hi st AND (2 ^ nat (hw st) - 1) \<noteq> hx st ! nat (hh st))
         (\<lambda>st. st\<lparr>hh := hh st - 1, hw := hw st - int l\<rparr>) st3"
  proof -
    have "st2\<lparr>heap := fill_entries (hq st2) (hr st2) (nat (int ?k - hw st2)) (hz st2)
        (drop_bit (nat (hw st2)) (hi st2)) (heap st2)\<rparr> = st2\<lparr>heap := hp\<rparr>"
      unfolding hp_def using st1(5,6) hi hw(1) nats
      by (simp add: st2_def drop_bit_eq_div nat_mult_distrib)
    moreover have "back_inc (2 ^ (?k - 1)) (rv g (pos p)) = rv g ?P"
      using back_inc_place [of ?k g "pos p"] pos_dvd [OF p order_refl] kg by (simp add: pos_Suc [OF p])
    moreover have "hi st2 = rv g (pos p)" by (simp add: st2_def hi)
    ultimately show ?thesis unfolding one_code_def st1(1)
      by (simp only: Option.bind.simps Let_def st2 nats st3_def) (simp add: Let_def)
  qed
  moreover obtain H' where H': "0 < H'" "H' \<le> Suc m"
      "while_option (\<lambda>st. hi st AND (2 ^ nat (hw st) - 1) \<noteq> hx st ! nat (hh st))
         (\<lambda>st. st\<lparr>hh := hh st - 1, hw := hw st - int l\<rparr>) st3 = Some (st3\<lparr>hh := int H' - 1, hw := int l * (int H' - 1)\<rparr>)"
      "rv g ?P mod 2 ^ (l * (H' - 1)) = hx st1 ! (H' - 1)" "H' < Suc m \<longrightarrow> rv g ?P mod 2 ^ (l * H') \<noteq> hx st1 ! H'"
    using back_up [of "Suc m" st3 l] hw by (auto simp: st3_def st2_def)
  define st4 where "st4 = st3\<lparr>hh := int H' - 1, hw := int l * (int H' - 1)\<rparr>"
  have r: "leafy r" "h_b r = of_nat (?k - l * m)" using leafy_entry [OF p r0(1)] r0(2) by simp_all
  note fill = fill_path [OF p path st1(3,4) r, folded hp_def]
  have same: "hu st4 = hu st1" "hx st4 = hx st1" "heap st4 = hp" "hi st4 = rv g ?P" "hnext st4 = min (Suc p) n"
      "hq st4 = hq st1" "hz st4 = hz st1" "hlast st4 = hlast st1" "hroot st4 = hroot st1"
      "hh st4 = int H' - 1" "hw st4 = int l * (int H' - 1)"
    by (simp_all add: st4_def st3_def st2_def)
  have "rv g ?P mod 2 ^ (l * h) = hx st1 ! h" if "h < H'" for h
  proof -
    have le: "(2::nat) ^ (l * h) dvd 2 ^ (l * (H' - 1))" using that by (intro le_imp_power_dvd mult_le_mono2) simp
    have "rv g (pos p) mod 2 ^ (l * (H' - 1)) = hx st1 ! (H' - 1)"
      using path_prefix [OF path, of "H' - 1"] H'(1,2) by simp
    then have "rv g ?P mod 2 ^ (l * (H' - 1)) mod 2 ^ (l * h) = rv g (pos p) mod 2 ^ (l * (H' - 1)) mod 2 ^ (l * h)"
      using H'(4) by simp
    then show ?thesis
      using path_prefix [OF path, of h] that H'(2) le by (simp add: mod_mod_cancel)
  qed
  then have path4: "path R' st4 H' ?P"
    using fill(1) H'(2) unfolding path_def same by simp
  have al: "2 ^ (g - l * H') dvd ?P"
  proof (cases "H' = Suc m")
    case True
    then show ?thesis using pos_Suc_dvd [OF p, of "l * H'"] st1(4) by (simp add: add.commute)
  next
    case False
    then have less: "H' < Suc m" using H'(2) by simp
    then have W: "l * H' \<le> l * m" by (intro mult_le_mono2) simp
    have x: "rv g (pos p) mod 2 ^ (l * H') = hx st1 ! H'" using path_prefix [OF path less] .
    then show ?thesis using leaving_part [OF p, of "l * H'"] W st1(3) H'(5) less by simp
  qed
  have dec: "decoded R' hp (hu st1 ! 0) (Suc p)"
    unfolding decoded_def
  proof (intro allI impI)
    fix p' v assume p': "p' < Suc p" and v: "pos p' \<le> rv g v \<and> rv g v < pos (Suc p')"
    show "\<exists>r. leads l R' hp v (hu st1 ! 0) r (K ! p') \<and> is_entry p' r"
    proof (cases "p' = p")
      case True
      then show ?thesis using fill(3) v r0(1) by (intro exI [of _ r]) simp
    next
      case False
      then have "rv g v < pos p" using v pos_mono [of "Suc p'" p] p' by simp
      moreover obtain r where "leads l R' (heap st1) v (hu st1 ! 0) r (K ! p')" "is_entry p' r"
        using p' v False st1(7) unfolding decoded_def by (metis less_antisym)
      ultimately show ?thesis using fill(2) by blast
    qed
  qed
  have "hinv R' st4 H' (Suc p)"
    unfolding hinv_def at_code_def same
  proof (intro conjI impI path4 al dec refl)
    assume p1: "Suc p < length K"
    have "?k \<le> K ! Suc p" using K_mono [of p "Suc p"] p1 by simp
    moreover have "l * (H' - 1) \<le> l * m" using H'(2) by (intro mult_le_mono2) simp
    ultimately show "l * (H' - 1) < K ! Suc p" using st1(3) by linarith
    show "hq st1 = hu st1 ! (H' - 1) \<and> hz st1 = length (tab hp (hq st1)) \<or> l * H' < K ! Suc p"
    proof (cases "H' = Suc m")
      case True
      then show ?thesis using st1(5,6) by (simp add: hp_def)
    next
      case False
      then have "l * H' \<le> l * m" using H'(2) by (intro mult_le_mono2) simp
      then show ?thesis using st1(3) \<open>?k \<le> K ! Suc p\<close> by linarith
    qed
  qed (use hl H'(1) in simp_all)
  ultimately show ?thesis using H'(3) by (auto simp: st4_def)
qed

end

end
