(* ===== verification/Canonical.thy ===== *)
theory Canonical
  imports Huft
begin

text \<open>
  The canonical code of a list of code lengths, and what \<open>huft_build\<close> computes of it before it makes
  tables: the counts of the lengths, the sum of Kraft, and the symbols in the order of their codes.
\<close>

subsection \<open>Counts and the order of symbols\<close>

definition symbols :: "nat list \<Rightarrow> nat \<Rightarrow> nat list" where
  "symbols b k = filter (\<lambda>i. b ! i = k) [0..<length b]"

definition in_order :: "nat list \<Rightarrow> nat list" where
  "in_order b = concat (map (symbols b) [1..<17])"

definition before_length :: "nat list \<Rightarrow> nat \<Rightarrow> nat" where
  "before_length b k = length (concat (map (symbols b) [1..<k]))"

lemma count_symbols: "count_list b k = length (symbols b k)"
proof -
  have "count_list b k = length (filter (\<lambda>x. x = k) (map ((!) b) [0..<length b]))"
    by (simp add: map_nth count_list_eq_length_filter) (metis (mono_tags, lifting) filter_cong)
  then show ?thesis by (simp add: symbols_def filter_map o_def)
qed

lemma before_length_Suc: "1 \<le> k \<Longrightarrow> before_length b (Suc k) = before_length b k + length (symbols b k)"
  by (simp add: before_length_def)

lemma before_length_mono: "k \<le> m \<Longrightarrow> before_length b k \<le> before_length b m"
proof (induction m)
  case (Suc m)
  then show ?case by (cases "k = Suc m"; cases "1 \<le> m") (auto simp: before_length_Suc, auto simp: before_length_def)
qed simp

lemma before_length_all: "before_length b 17 = length (in_order b)"
  by (simp only: before_length_def in_order_def)

lemma in_order_nth:
  assumes "1 \<le> k" "k \<le> 16" "t < length (symbols b k)"
  shows "before_length b k + t < length (in_order b)" "in_order b ! (before_length b k + t) = symbols b k ! t"
proof -
  have "[1..<17] = [1..<k] @ k # [Suc k..<17]"
    using upt_add_eq_append [OF assms(1), of "17 - k"] assms(2) by (simp add: upt_conv_Cons)
  then have "in_order b = concat (map (symbols b) [1..<k]) @ symbols b k @ concat (map (symbols b) [Suc k..<17])"
    by (simp add: in_order_def)
  then show "before_length b k + t < length (in_order b)" "in_order b ! (before_length b k + t) = symbols b k ! t"
    using assms(3) by (simp_all add: before_length_def nth_append)
qed

lemma set_in_order: "set (in_order b) = {i. i < length b \<and> 1 \<le> b ! i \<and> b ! i \<le> 16}"
  by (auto simp: in_order_def symbols_def)

lemma before_length_filter: "before_length b k = length (filter (\<lambda>i. 1 \<le> b ! i \<and> b ! i < k) [0..<length b])"
proof (induction k)
  case (Suc k)
  show ?case
  proof (cases "1 \<le> k")
    case True
    have "length (filter (\<lambda>i. 1 \<le> b ! i \<and> b ! i < Suc k) xs) =
        length (filter (\<lambda>i. 1 \<le> b ! i \<and> b ! i < k) xs) + length (filter (\<lambda>i. b ! i = k) xs)" for xs
      using True by (induction xs) auto
    then show ?thesis using Suc before_length_Suc [OF True, of b] by (simp add: symbols_def)
  qed (simp add: before_length_def)
qed (simp add: before_length_def)

lemma length_in_order: "length (in_order b) \<le> length b"
  unfolding before_length_all [symmetric] before_length_filter
  using length_filter_le [of _ "[0..<length b]"] by simp

lemma in_order_slot:
  assumes "p < length (in_order b)"
  obtains k t where "1 \<le> k" "k \<le> 16" "t < length (symbols b k)" "p = before_length b k + t"
proof -
  have "\<exists>k t. 1 \<le> k \<and> k < m \<and> t < length (symbols b k) \<and> p = before_length b k + t" if "p < before_length b m" for m
    using that
  proof (induction m)
    case (Suc m)
    show ?case
    proof (cases "p < before_length b m")
      case True
      then show ?thesis using Suc.IH by (metis less_SucI)
    next
      case False
      then have "1 \<le> m" using Suc.prems by (cases m) (simp_all add: before_length_def)
      then show ?thesis using Suc.prems False before_length_Suc [of m b]
        by (intro exI [of _ m] exI [of _ "p - before_length b m"]) simp
    qed
  qed (simp add: before_length_def)
  from this [of 17] assms show ?thesis using that unfolding before_length_all by fastforce
qed

lemma length_counts_nth:
  assumes "set b \<subseteq> {0..BMAX}"
  shows "length (length_counts b) = BMAX + 1" "k \<le> BMAX \<Longrightarrow> length_counts b ! k = count_list b k"
proof -
  have "length (fold (\<lambda>l c. c[l := c ! l + 1]) b c) = length c \<and>
      (k < length c \<longrightarrow> fold (\<lambda>l c. c[l := c ! l + 1]) b c ! k = c ! k + count_list b k)"
    if "\<forall>x\<in>set b. x < length c" for c :: "nat list" and k
    using that by (induction b arbitrary: c) (auto simp: nth_list_update)
  note this [of "replicate (BMAX + 1) 0"]
  then show "length (length_counts b) = BMAX + 1" "k \<le> BMAX \<Longrightarrow> length_counts b ! k = count_list b k"
    using assms unfolding length_counts_def by (force simp del: replicate_Suc simp: nth_replicate)+
qed

lemma offsets_nth:
  assumes "g \<le> BMAX"
  shows "length (offsets c g) = BMAX + 1"
    "1 \<le> k \<Longrightarrow> k \<le> g \<Longrightarrow> offsets c g ! k = (\<Sum>m\<leftarrow>[1..<k]. c ! m)"
proof -
  have "length (offsets c g) = BMAX + 1 \<and>
      (\<forall>k. 1 \<le> k \<and> k \<le> g \<longrightarrow> offsets c g ! k = (\<Sum>m\<leftarrow>[1..<k]. c ! m))"
    using assms
  proof (induction g)
    case (Suc g)
    show ?case
    proof (cases "1 \<le> g")
      case True
      then have "offsets c (Suc g) = (offsets c g)[g + 1 := offsets c g ! g + c ! g]" by (simp add: offsets_def)
      then show ?thesis using Suc True by (auto simp: nth_list_update le_Suc_eq)
    qed (use Suc.prems in \<open>auto simp: offsets_def le_Suc_eq nth_Cons BMAX_def\<close>)
  qed (simp add: offsets_def)
  then show "length (offsets c g) = BMAX + 1"
    "1 \<le> k \<Longrightarrow> k \<le> g \<Longrightarrow> offsets c g ! k = (\<Sum>m\<leftarrow>[1..<k]. c ! m)" by blast+
qed

subsection \<open>The counting sort\<close>

definition symbols_to :: "nat list \<Rightarrow> nat \<Rightarrow> nat \<Rightarrow> nat list" where
  "symbols_to b i k = filter (\<lambda>j. b ! j = k) [0..<i]"

lemma symbols_to_Suc: "symbols_to b (Suc i) k = symbols_to b i k @ (if b ! i = k then [i] else [])"
  by (simp add: symbols_to_def)

lemma symbols_to_prefix:
  assumes "i \<le> length b"
  shows "length (symbols_to b i k) \<le> length (symbols b k)"
    and "t < length (symbols_to b i k) \<Longrightarrow> symbols_to b i k ! t = symbols b k ! t"
proof -
  have "symbols b k = symbols_to b i k @ filter (\<lambda>j. b ! j = k) [i..<length b]"
    using upt_add_eq_append [of 0 i "length b - i"] assms
    by (simp add: symbols_def symbols_to_def flip: filter_append)
  then show "length (symbols_to b i k) \<le> length (symbols b k)"
      "t < length (symbols_to b i k) \<Longrightarrow> symbols_to b i k ! t = symbols b k ! t"
    by (simp_all add: nth_append)
qed

lemma slots_apart:
  assumes "1 \<le> k" "1 \<le> k'" "t < length (symbols b k)" "t' < length (symbols b k')"
    "before_length b k + t = before_length b k' + t'"
  shows "k = k' \<and> t = t'"
proof -
  have "\<not> k < k'" if "1 \<le> k" "t < length (symbols b k)" "before_length b k + t = before_length b k' + t'" for k k' t t'
  proof
    assume "k < k'"
    then have "before_length b k + length (symbols b k) \<le> before_length b k'"
      using before_length_mono [of "Suc k" k' b] before_length_Suc [OF that(1), of b] by simp
    then show False using that by linarith
  qed
  from this [of k t k' t'] this [of k' t' k t] assms have "k = k'" by linarith
  then show ?thesis using assms(5) by simp
qed

definition sorted_to :: "nat list \<Rightarrow> nat \<Rightarrow> nat list \<times> nat list \<Rightarrow> bool" where
  "sorted_to b i xv \<longleftrightarrow> length (fst xv) = BMAX + 1 \<and> length (snd xv) = N_MAX \<and>
     (\<forall>k. 1 \<le> k \<longrightarrow> k \<in> set b \<longrightarrow> fst xv ! k = before_length b k + length (symbols_to b i k) \<and>
       (\<forall>t<length (symbols_to b i k). snd xv ! (before_length b k + t) = symbols_to b i k ! t))"

lemma sorted_step:
  assumes "sorted_to b i (x, v)" "i < length b" "set b \<subseteq> {0..BMAX}" "length (in_order b) \<le> N_MAX"
  shows "sorted_to b (Suc i)
    (if b ! i \<noteq> 0 then (x[b ! i := x ! (b ! i) + 1], v[x ! (b ! i) := i]) else (x, v))"
proof (cases "b ! i = 0")
  case True
  then show ?thesis using assms(1) by (auto simp: sorted_to_def symbols_to_Suc)
next
  case False
  let ?k = "b ! i" and ?c = "length (symbols_to b i (b ! i))"
  have k: "1 \<le> ?k" "?k \<le> BMAX" "?k \<in> set b" using False assms(2,3) nth_mem by fastforce+
  have c: "?c < length (symbols b ?k)"
    using symbols_to_prefix(1) [of "Suc i" b ?k] assms(2) by (simp add: symbols_to_Suc)
  have x: "x ! ?k = before_length b ?k + ?c" "length x = BMAX + 1" "length v = N_MAX"
    using assms(1) k by (simp_all add: sorted_to_def)
  have "before_length b ?k + ?c < N_MAX"
    using in_order_nth(1) [OF k(1) _ c] k(2) assms(4) by (simp add: BMAX_def)
  then have upd: "v[x ! ?k := i] ! (before_length b k' + t) =
      (if k' = ?k \<and> t = ?c then i else v ! (before_length b k' + t))"
    if "1 \<le> k'" "t < length (symbols b k')" for k' t
    using slots_apart [OF k(1) that(1) c that(2)] x by (auto simp: nth_list_update)
  have "x[?k := x ! ?k + 1] ! k' = before_length b k' + length (symbols_to b (Suc i) k') \<and>
      (\<forall>t<length (symbols_to b (Suc i) k'). v[x ! ?k := i] ! (before_length b k' + t) = symbols_to b (Suc i) k' ! t)"
    if k': "1 \<le> k'" "k' \<in> set b" for k'
  proof
    have len: "length (symbols_to b (Suc i) k') \<le> length (symbols b k')"
      using symbols_to_prefix(1) assms(2) by simp
    show "x[?k := x ! ?k + 1] ! k' = before_length b k' + length (symbols_to b (Suc i) k')"
      using assms(1) k k' x by (auto simp: sorted_to_def symbols_to_Suc nth_list_update)
    show "\<forall>t<length (symbols_to b (Suc i) k'). v[x ! ?k := i] ! (before_length b k' + t) = symbols_to b (Suc i) k' ! t"
    proof (intro allI impI)
      fix t assume t: "t < length (symbols_to b (Suc i) k')"
      then have "v[x ! ?k := i] ! (before_length b k' + t) = (if k' = ?k \<and> t = ?c then i else v ! (before_length b k' + t))"
        using upd k'(1) len by simp
      also have "\<dots> = symbols_to b (Suc i) k' ! t"
      proof (cases "t < length (symbols_to b i k')")
        case True
        then have "v ! (before_length b k' + t) = symbols_to b i k' ! t"
          using assms(1) k' unfolding sorted_to_def by simp
        then show ?thesis using True by (auto simp: symbols_to_Suc nth_append)
      next
        case False
        then have "k' = ?k \<and> t = ?c" using t by (auto simp: symbols_to_Suc split: if_splits)
        then show ?thesis by (auto simp: symbols_to_Suc nth_append)
      qed
      finally show "v[x ! ?k := i] ! (before_length b k' + t) = symbols_to b (Suc i) k' ! t" .
    qed
  qed
  then show ?thesis using False x(2,3) by (simp add: sorted_to_def)
qed

lemma length_sort_values: "length (fst (sort_values b x)) = length x"
proof -
  have "length (fst (fold (\<lambda>i (x, v). if b ! i \<noteq> 0 then (x[b ! i := x ! (b ! i) + 1], v[x ! (b ! i) := i]) else (x, v)) is xv)) =
    length (fst xv)" for "is" and xv :: "nat list \<times> nat list"
    by (induction "is" arbitrary: xv) (auto split: prod.splits)
  then show ?thesis by (simp add: sort_values_def)
qed

lemma sort_values_in_order:
  assumes b: "set b \<subseteq> {0..BMAX}" "length b \<le> N_MAX"
    and x: "length x = BMAX + 1" "\<And>k. 1 \<le> k \<Longrightarrow> k \<in> set b \<Longrightarrow> x ! k = before_length b k"
  shows "length (fst (sort_values b x)) = BMAX + 1"
    and "p < length (in_order b) \<Longrightarrow> snd (sort_values b x) ! p = in_order b ! p"
proof -
  let ?f = "\<lambda>i (x, v). if b ! i \<noteq> 0 then (x[b ! i := x ! (b ! i) + 1], v[x ! (b ! i) := i]) else (x, v)"
  have len: "length (in_order b) \<le> N_MAX" using length_in_order [of b] b(2) by simp
  have "sorted_to b i (fold ?f [0..<i] (x, replicate N_MAX 0))" if "i \<le> length b" for i
    using that
  proof (induction i)
    case 0
    then show ?case using x by (simp add: sorted_to_def symbols_to_def)
  next
    case (Suc i)
    obtain x' v' where "fold ?f [0..<i] (x, replicate N_MAX 0) = (x', v')" by fastforce
    then show ?case using Suc sorted_step [of b i x' v'] b len by simp
  qed
  from this [of "length b"] have s: "sorted_to b (length b) (sort_values b x)" by (simp add: sort_values_def)
  then show "length (fst (sort_values b x)) = BMAX + 1" by (simp add: sorted_to_def)
  assume "p < length (in_order b)"
  then obtain k t where kt: "1 \<le> k" "k \<le> 16" "t < length (symbols b k)" "p = before_length b k + t"
    using in_order_slot by blast
  have "k \<in> set b" using nth_mem [OF kt(3)] by (auto simp: symbols_def) (metis nth_mem)
  moreover have "symbols_to b (length b) k = symbols b k" by (simp add: symbols_to_def symbols_def)
  ultimately show "snd (sort_values b x) ! p = in_order b ! p"
    using s kt in_order_nth(2) [OF kt(1-3)] by (simp add: sorted_to_def)
qed

subsection \<open>The sum of Kraft\<close>

text \<open>What is left of \<open>2 ^ g\<close> places when each code of \<open>m\<close> bits takes \<open>2 ^ (g - m)\<close> of them.\<close>

lemma left_over_eq:
  assumes "j \<le> g"
  shows "left_over c g j y =
    (let r = y * 2 ^ (g - j) - (\<Sum>m\<leftarrow>[j..<Suc g]. int (c ! m) * 2 ^ (g - m)) in if r < 0 then None else Some r)"
  using assms
proof (induction "g - j" arbitrary: j y)
  case 0
  then show ?case by (simp add: left_over.simps [of c j j y] Let_def)
next
  case (Suc n)
  let ?rest = "\<Sum>m\<leftarrow>[Suc j..<Suc g]. int (c ! m) * 2 ^ (g - m)"
  have j: "j < g" "g - j = Suc (g - Suc j)" using Suc.hyps(2) by simp_all
  have sum: "(\<Sum>m\<leftarrow>[j..<Suc g]. int (c ! m) * 2 ^ (g - m)) = int (c ! j) * 2 ^ (g - j) + ?rest"
    using j by (simp add: upt_conv_Cons del: upt_Suc)
  have eq: "y * 2 ^ (g - j) - (int (c ! j) * 2 ^ (g - j) + ?rest) =
      2 * (y - int (c ! j)) * 2 ^ (g - Suc j) - ?rest"
    unfolding j(2) by (simp add: algebra_simps)
  show ?case
  proof (cases "y - int (c ! j) < 0")
    case True
    have "0 \<le> ?rest" by (intro sum_list_nonneg) auto
    moreover have "2 * (y - int (c ! j)) * 2 ^ (g - Suc j) < 0" using True by (simp add: mult_less_0_iff)
    ultimately show ?thesis
      using True j(1) by (simp add: left_over.simps [of c g j y] sum eq Let_def del: upt_Suc)
  next
    case False
    have "n = g - Suc j" "Suc j \<le> g" using Suc.hyps(2) by simp_all
    from Suc.hyps(1) [OF this, of "2 * (y - int (c ! j))"] show ?thesis
      using False j(1) unfolding left_over.simps [of c g j y] sum eq by simp
  qed
qed

lemma first_used_least:
  "j \<le> BMAX + 1 \<Longrightarrow> j \<le> first_used c j \<and> first_used c j \<le> BMAX + 1 \<and> (\<forall>m. j \<le> m \<and> m < first_used c j \<longrightarrow> c ! m = 0) \<and>
    (first_used c j \<le> BMAX \<longrightarrow> c ! first_used c j \<noteq> 0)"
proof (induction c j rule: first_used.induct)
  case (1 c j)
  show ?case
  proof (cases "j \<le> BMAX \<and> c ! j = 0")
    case True
    then have "first_used c j = first_used c (j + 1)" by (simp add: first_used.simps [of c j])
    moreover have "m = j \<or> j + 1 \<le> m" if "j \<le> m" for m using that by linarith
    moreover note 1(1) [OF conjunct1 [OF True]] True
    ultimately show ?thesis by (metis Suc_eq_plus1 Suc_leD not_less_eq_eq)
  next
    case False
    then have "first_used c j = j" by (auto simp: first_used.simps [of c j])
    then show ?thesis using False 1(2) by auto
  qed
qed

lemma last_used_greatest:
  "last_used c i \<le> i \<and> (\<forall>m. last_used c i < m \<and> m \<le> i \<longrightarrow> c ! m = 0) \<and> (last_used c i \<noteq> 0 \<longrightarrow> c ! last_used c i \<noteq> 0)"
proof (induction c i rule: last_used.induct)
  case (1 c i)
  show ?case
  proof (cases "i \<noteq> 0 \<and> c ! i = 0")
    case True
    then have "last_used c i = last_used c (i - 1)" by (simp add: last_used.simps [of c i])
    moreover have "m \<le> i - 1 \<or> m = i" if "m \<le> i" for m using that True by auto
    ultimately show ?thesis using 1 True by fastforce
  next
    case False
    then have "last_used c i = i" by (auto simp: last_used.simps [of c i])
    then show ?thesis using False by auto
  qed
qed

end
