(* ===== verification/Huft_Build.thy ===== *)
theory Huft_Build
  imports Huft_Codes Canonical
begin

text \<open>
  \<open>huft_build\<close> as a whole: the counting sort gives the symbols in the order of their codes, the result
  code is that of the sum of Kraft, and the tables decode the canonical code of the lengths.
\<close>

subsection \<open>All codes\<close>

lemma count_list_replicate: "count_list (replicate m x) y = (if x = y then m else 0)"
  by (induction m) auto

lemma sorted_split:
  "sorted xs \<Longrightarrow> xs = filter (\<lambda>x. x < k) xs @ replicate (count_list xs k) k @ filter ((<) k) xs" for k :: nat
proof (induction xs)
  case (Cons x xs)
  then have IH: "xs = filter (\<lambda>x. x < k) xs @ replicate (count_list xs k) k @ filter ((<) k) xs" by simp
  have le: "\<forall>y\<in>set xs. x \<le> y" using Cons.prems by simp
  consider "x < k" | "x = k" | "k < x" by linarith
  then show ?case
  proof cases
    case 1
    then show ?thesis using IH by simp
  next
    case 2
    then have "filter (\<lambda>x. x < k) xs = []" using le by (simp add: filter_empty_conv not_less)
    then show ?thesis using IH 2 by simp
  next
    case 3
    then have "filter (\<lambda>x. x < k) xs = []" "count_list xs k = 0" "filter ((<) k) xs = xs"
      using le by (auto simp: filter_empty_conv not_less count_list_0_iff filter_id_conv)
    then show ?thesis using 3 by simp
  qed
qed simp

context canonical_code
begin

lemma codes_of_length_hinv:
  assumes "hinv R st H p" "drop p K = replicate a k @ rest" "k \<notin> set rest"
  shows "\<exists>R' st' H'. codes_of_length c vals n s d e (int g) (int l) (int k) a st = Some st' \<and>
    hinv R' st' H' (p + a) \<and> drop (p + a) K = rest"
  using assms
proof (induction a arbitrary: R st H p)
  case 0
  then show ?case by auto
next
  case (Suc a)
  then have "drop p K \<noteq> []" by simp
  then have p: "p < length K" by simp
  then have "K ! p # drop (Suc p) K = k # replicate a k @ rest"
    using Suc.prems(2) by (simp add: Cons_nth_drop_Suc)
  then have k: "K ! p = k" "drop (Suc p) K = replicate a k @ rest" by simp_all
  then have "a = count_list (drop (Suc p) K) (K ! p)"
    using Suc.prems(3) by (simp add: count_list_append count_list_replicate count_notin)
  then obtain R1 st1 H1 where st1: "one_code c vals n s d e (int g) (int l) (int k) a st = Some st1" "hinv R1 st1 H1 (Suc p)"
    using hinv_step [OF Suc.prems(1) p] k(1) by blast
  then show ?case using Suc.IH [OF st1(2) k(2) Suc.prems(3)] by (simp add: st1)
qed

lemma all_codes_hinv:
  assumes "hinv R st H (length (filter (\<lambda>x. x < k) K))" "1 \<le> k" "k \<le> Suc g"
  shows "\<exists>R' st' H'. all_codes c vals n s d e (int g) (int l) [k..<Suc g] st = Some st' \<and>
    hinv R' st' H' (length K)"
  using assms
proof (induction "Suc g - k" arbitrary: R st H k)
  case 0
  then have "filter (\<lambda>x. x < k) K = K" using K_range by (intro filter_True) auto
  then show ?case using 0 by auto
next
  case (Suc m)
  then have k: "k \<le> g" by simp
  let ?p = "length (filter (\<lambda>x. x < k) K)"
  note split = sorted_split [OF sorted_K, of k]
  have "drop ?p K = replicate (count_list K k) k @ filter ((<) k) K"
    by (subst split) simp
  moreover have "k \<notin> set (filter ((<) k) K)" by simp
  ultimately obtain R1 st1 H1 where st1: "codes_of_length c vals n s d e (int g) (int l) (int k) (count_list K k) st = Some st1"
      "hinv R1 st1 H1 (?p + count_list K k)"
    using codes_of_length_hinv [OF Suc.prems(1)] by blast
  have "length (filter (\<lambda>x. x < Suc k) xs) = length (filter (\<lambda>x. x < k) xs) + count_list xs k" for xs
    by (induction xs) auto
  then have "hinv R1 st1 H1 (length (filter (\<lambda>x. x < Suc k) K))" using st1(2) by simp
  moreover have "m = Suc g - Suc k" using Suc.hyps(2) by simp
  ultimately obtain R' st' H' where "all_codes c vals n s d e (int g) (int l) [Suc k..<Suc g] st1 = Some st'"
      "hinv R' st' H' (length K)"
    using Suc.hyps(1) k by (metis Suc_le_mono le_SucI Suc.prems(2))
  moreover have "[k..<Suc g] = k # [Suc k..<Suc g]" using k by (simp add: upt_rec)
  ultimately show ?case using st1(1) counts [OF Suc.prems(2) k] by (auto simp del: upt_Suc)
qed

lemma start_hinv:
  assumes "length x = 17"
  shows "hinv R (start_build l x hufts hp0) 0 0"
  using assms by (simp add: hinv_def at_code_def path_def decoded_def start_build_def BMAX_def)

theorem all_codes_decode:
  assumes "1 \<le> k" "\<And>x. x \<in> set K \<Longrightarrow> k \<le> x" "k \<le> Suc g" "length x = 17"
  shows "\<exists>R st root. all_codes c vals n s d e (int g) (int l) [k..<Suc g] (start_build l x hufts hp0) = Some st \<and>
    hroot st = Some root \<and> R root = (0, 0, l) \<and>
    (\<forall>p<length K. \<forall>v. pos p \<le> rv g v \<and> rv g v < pos (Suc p) \<longrightarrow>
      (\<exists>r. leads l R (heap st) v root r (K ! p) \<and> is_entry p r))"
proof -
  have "filter (\<lambda>x. x < k) K = []" using assms(2) by (auto simp: filter_empty_conv not_less)
  then have "hinv (\<lambda>_. (0, 0, 0)) (start_build l x hufts hp0) 0 (length (filter (\<lambda>x. x < k) K))"
    using start_hinv [OF assms(4)] by simp
  then obtain R st H where st: "all_codes c vals n s d e (int g) (int l) [k..<Suc g] (start_build l x hufts hp0) = Some st"
      "hinv R st H (length K)"
    using all_codes_hinv assms(1,3) by blast
  have H: "0 < H" using st(2) longest by (auto simp: hinv_def dest: length_pos_if_in_set)
  have path: "path R st H (pos (length K))" and root: "hroot st = Some (hu st ! 0)"
    using st(2) H by (simp_all add: hinv_def at_code_def)
  obtain J where J: "R (hu st ! 0) = (0, hx st ! 0, min J l)" "fits (rv g (hx st ! 0)) 0 J"
    using path_table [OF path H] by (auto simp: table_ok_def)
  have x0: "hx st ! 0 = 0" using path by (simp add: path_def)
  obtain p where p: "p < length K" "K ! p = g" using longest by (auto simp: in_set_conv_nth)
  have "l \<le> J" using J(2) p pos_less [OF p(1)] bits unfolding fits_def x0
    by auto
  then have "R (hu st ! 0) = (0, 0, l)" using J(1) x0 by simp
  then show ?thesis using st root unfolding hinv_def decoded_def by blast
qed

end

subsection \<open>The codes of a list of lengths\<close>

definition min_length :: "nat list \<Rightarrow> nat" where
  "min_length b = first_used (length_counts b) 1"

definition max_length :: "nat list \<Rightarrow> nat" where
  "max_length b = last_used (length_counts b) BMAX"

definition kraft :: "nat \<Rightarrow> nat list \<Rightarrow> nat" where
  "kraft g b = (\<Sum>x\<leftarrow>filter ((<) 0) b. 2 ^ (g - x))"

definition spare :: "nat list \<Rightarrow> nat" where
  "spare b = 2 ^ max_length b - kraft (max_length b) b"

definition code_lengths :: "nat list \<Rightarrow> nat list" where
  "code_lengths b = map ((!) b) (in_order b) @ replicate (spare b) (max_length b)"

definition table_width :: "nat list \<Rightarrow> nat \<Rightarrow> nat" where
  "table_width b m = min (max m (min_length b)) (max_length b)"

lemma kraft_wt: "kraft g b = wt g (filter ((<) 0) b)"
  by (simp add: kraft_def wt_def)

lemma wt_counts:
  assumes "set xs \<subseteq> {1..h}"
  shows "wt g xs = (\<Sum>m\<leftarrow>[1..<Suc h]. count_list xs m * 2 ^ (g - m))"
  using assms
proof (induction xs)
  case (Cons x xs)
  have "(\<Sum>m\<leftarrow>[1..<Suc h]. count_list (x # xs) m * 2 ^ (g - m)) =
      (\<Sum>m\<leftarrow>[1..<Suc h]. (if m = x then 2 ^ (g - m) else 0) + count_list xs m * 2 ^ (g - m))"
    by (rule arg_cong [of _ _ sum_list], rule map_cong) auto
  also have "\<dots> = (\<Sum>m\<leftarrow>[1..<Suc h]. if m = x then 2 ^ (g - m) else 0) + (\<Sum>m\<leftarrow>[1..<Suc h]. count_list xs m * 2 ^ (g - m))"
    by (rule sum_list_addf)
  also have "(\<Sum>m\<leftarrow>[1..<Suc h]. if m = x then 2 ^ (g - m) else 0) = (2::nat) ^ (g - x)"
    using Cons.prems by (subst sum_list_distinct_conv_sum_set) (auto simp: sum.delta simp del: upt_Suc)
  finally show ?case using Cons by simp
qed simp

lemma wt_scale: "set xs \<subseteq> {..g} \<Longrightarrow> g \<le> h \<Longrightarrow> wt h xs = wt g xs * 2 ^ (h - g)"
  by (induction xs) (auto simp: algebra_simps simp flip: power_add)

lemma count_list_concat_replicate:
  "count_list (concat (map (\<lambda>k. replicate (f k) k) ks)) x = (if x \<in> set ks then f x * count_list ks x else 0)"
  by (induction ks) (auto simp: count_list_append count_list_replicate count_list_0_iff)

lemma sorted_concat_replicate: "sorted ks \<Longrightarrow> sorted (concat (map (\<lambda>k. replicate (f k) k) ks))"
  by (induction ks) (auto simp: sorted_append sorted_replicate)

lemma count_upt: "count_list [i..<j] x = (if i \<le> x \<and> x < j then 1 else 0)"
  by (induction j) (auto simp: count_list_append)

lemma lengths_in_order: "map ((!) b) (in_order b) = concat (map (\<lambda>k. replicate (count_list b k) k) [1..<17])"
proof -
  have "map ((!) b) (symbols b k) = replicate (count_list b k) k" for k
    unfolding count_symbols by (rule nth_equalityI) (auto simp: symbols_def dest: nth_mem)
  then show ?thesis by (simp add: in_order_def map_concat o_def)
qed

lemma count_in_order: "count_list (map ((!) b) (in_order b)) k = (if 1 \<le> k \<and> k \<le> 16 then count_list b k else 0)"
  unfolding lengths_in_order count_list_concat_replicate count_upt by auto

lemma set_lengths: "set (map ((!) b) (in_order b)) = {k \<in> set b. 1 \<le> k \<and> k \<le> 16}"
  unfolding set_map set_in_order by (auto simp: in_set_conv_nth)

lemma count_filter: "count_list (filter P xs) x = (if P x then count_list xs x else 0)"
  by (induction xs) auto

lemma wt_in_order:
  assumes "set b \<subseteq> {0..16}"
  shows "wt g (map ((!) b) (in_order b)) = kraft g b"
proof -
  have "wt g (map ((!) b) (in_order b)) = (\<Sum>m\<leftarrow>[1..<Suc 16]. count_list (map ((!) b) (in_order b)) m * 2 ^ (g - m))"
    by (rule wt_counts) (use set_lengths [of b] in auto)
  also have "\<dots> = (\<Sum>m\<leftarrow>[1..<Suc 16]. count_list (filter ((<) 0) b) m * 2 ^ (g - m))"
    unfolding count_in_order count_filter by (intro arg_cong [of _ _ sum_list] map_cong) auto
  also have "\<dots> = wt g (filter ((<) 0) b)" using assms by (intro wt_counts [symmetric]) auto
  finally show ?thesis by (simp add: kraft_wt)
qed

definition proper :: "nat list \<Rightarrow> bool" where
  "proper b \<longleftrightarrow> set b \<subseteq> {0..16} \<and> length b \<le> 288 \<and> (\<exists>x\<in>set b. x \<noteq> 0)"

lemma proper_counts:
  assumes "proper b"
  shows "length (length_counts b) = 17" "k \<le> 16 \<Longrightarrow> length_counts b ! k = count_list b k"
  using length_counts_nth [of b] assms by (simp_all add: proper_def BMAX_def)

lemma lengths_between:
  assumes "proper b"
  shows "1 \<le> min_length b" "min_length b \<le> max_length b" "max_length b \<le> 16" "max_length b \<in> set b" "min_length b \<in> set b"
    and "x \<in> set b \<Longrightarrow> x \<noteq> 0 \<Longrightarrow> min_length b \<le> x \<and> x \<le> max_length b"
proof -
  let ?c = "length_counts b"
  have used: "?c ! x \<noteq> 0 \<longleftrightarrow> x \<in> set b" if "x \<le> 16" for x
    using proper_counts(2) [OF assms that] by (simp add: count_list_0_iff)
  have b: "x \<le> 16" if "x \<in> set b" for x using assms that by (auto simp: proper_def)
  have lo: "1 \<le> min_length b" "\<And>m. 1 \<le> m \<Longrightarrow> m < min_length b \<Longrightarrow> ?c ! m = 0"
      "min_length b \<le> 16 \<Longrightarrow> ?c ! min_length b \<noteq> 0"
    using first_used_least [of 1 ?c] by (simp_all add: min_length_def BMAX_def)
  have hi: "max_length b \<le> 16" "\<And>m. max_length b < m \<Longrightarrow> m \<le> 16 \<Longrightarrow> ?c ! m = 0"
      "max_length b \<noteq> 0 \<Longrightarrow> ?c ! max_length b \<noteq> 0"
    using last_used_greatest [of ?c BMAX] by (simp_all add: max_length_def BMAX_def)
  show all: "min_length b \<le> x \<and> x \<le> max_length b" if "x \<in> set b" "x \<noteq> 0" for x
  proof -
    have "1 \<le> x" "x \<le> 16" "?c ! x \<noteq> 0" using that b used by auto
    then show ?thesis using lo(2) [of x] hi(2) [of x] by (metis not_le)
  qed
  obtain x where x: "x \<in> set b" "x \<noteq> 0" using assms by (auto simp: proper_def)
  show "1 \<le> min_length b" "max_length b \<le> 16" using lo(1) hi(1) .
  show "min_length b \<le> max_length b" using all [OF x] by linarith
  then show "max_length b \<in> set b" "min_length b \<in> set b" using used lo(1,3) hi(1,3) by simp_all
qed

lemma minus_or_none:
  "(if int a - int k < 0 then None else Some (int a - int k)) = (if a < k then None else Some (int (a - k)))"
  by (auto simp: of_nat_diff)

lemma left_over_kraft:
  assumes "proper b"
  shows "left_over (length_counts b) (max_length b) (min_length b) (2 ^ min_length b) =
    (if kraft (max_length b) b > 2 ^ max_length b then None else Some (int (spare b)))"
proof -
  let ?g = "max_length b" and ?j = "min_length b" and ?c = "length_counts b"
  note le = lengths_between [OF assms]
  have "set (filter ((<) 0) b) \<subseteq> {1..?g}" using le(6) by auto
  then have "kraft ?g b = (\<Sum>m\<leftarrow>[1..<Suc ?g]. count_list (filter ((<) 0) b) m * 2 ^ (?g - m))"
    unfolding kraft_wt by (rule wt_counts)
  also have "[1..<Suc ?g] = [1..<?j] @ [?j..<Suc ?g]"
    using upt_add_eq_append [OF le(1), of "Suc ?g - ?j"] le(2) by simp
  also have "(\<Sum>m\<leftarrow>[1..<?j] @ [?j..<Suc ?g]. count_list (filter ((<) 0) b) m * 2 ^ (?g - m)) =
      (\<Sum>m\<leftarrow>[1..<?j]. 0) + (\<Sum>m\<leftarrow>[?j..<Suc ?g]. ?c ! m * 2 ^ (?g - m))"
    unfolding map_append sum_list_append
  proof (intro arg_cong2 [of _ _ _ _ "(+)"] arg_cong [of _ _ sum_list] map_cong refl)
    fix m assume "m \<in> set [1..<?j]"
    then have "m \<notin> set (filter ((<) 0) b)" using le(6) by fastforce
    then show "count_list (filter ((<) 0) b) m * 2 ^ (?g - m) = 0" by (simp add: count_list_0_iff)
  next
    fix m assume "m \<in> set [?j..<Suc ?g]"
    then show "count_list (filter ((<) 0) b) m * 2 ^ (?g - m) = ?c ! m * 2 ^ (?g - m)"
      using proper_counts(2) [OF assms, of m] le(1,3) by (auto simp: count_filter)
  qed
  finally have k: "(\<Sum>m\<leftarrow>[?j..<Suc ?g]. int (?c ! m) * 2 ^ (?g - m)) = int (kraft ?g b)"
    by (simp add: o_def del: upt_Suc flip: sum_list_of_nat)
  have p: "(2::int) ^ ?j * 2 ^ (?g - ?j) = int (2 ^ ?g)" using le(2) by (simp flip: power_add)
  show ?thesis
    unfolding left_over_eq [OF le(2)] k p Let_def spare_def by (rule minus_or_none)
qed

text \<open>
  The main loop makes tables that are large enough when no code is longer than two tables, or when
  there are fewer symbols than a table has entries.
\<close>

definition all_lengths :: "nat list \<Rightarrow> nat list" where
  "all_lengths b = (length_counts b)[max_length b := length_counts b ! max_length b + spare b]"

definition shallow :: "nat list \<Rightarrow> nat \<Rightarrow> bool" where
  "shallow b m \<longleftrightarrow> max_length b \<le> 2 * m \<or> spare b = 0 \<and> length b < 2 ^ m"

lemma canonical_lengths:
  assumes b: "proper b" "kraft (max_length b) b \<le> 2 ^ max_length b" "shallow b m"
    and vals: "\<And>p. p < length (in_order b) \<Longrightarrow> vals ! p = in_order b ! p"
    and n: "spare b = 0 \<or> 0 \<notin> set b"
    and e: "\<And>i. i < length b \<Longrightarrow> s \<le> i \<Longrightarrow> b ! i \<noteq> 0 \<Longrightarrow> e ! (i - s) \<le> 16 \<or> e ! (i - s) = 99"
  shows "canonical_code (code_lengths b) (all_lengths b) (max_length b) (table_width b m) vals (length b) s e"
proof -
  let ?g = "max_length b" and ?l = "table_width b m" and ?K = "code_lengths b"
  let ?L = "map ((!) b) (in_order b)"
  note le = lengths_between [OF b(1)]
  have sub: "set b \<subseteq> {0..16}" using b(1) by (simp add: proper_def)
  have setK: "set ?L \<subseteq> {1..?g}" using set_lengths [of b] le(6) by auto
  have len: "length ?L \<le> length b" using length_in_order by simp
  show ?thesis
  proof
    have "sorted ?L" unfolding lengths_in_order by (rule sorted_concat_replicate) simp
    then show "sorted ?K" using setK by (auto simp: code_lengths_def sorted_append)
    show "set ?K \<subseteq> {1..?g}" using setK le(1,2) by (auto simp: code_lengths_def)
    show "wt ?g ?K = 2 ^ ?g"
      using b(2) wt_in_order [OF sub, of ?g]
      by (simp add: code_lengths_def spare_def wt_def sum_list_replicate map_replicate_const)
    show "1 \<le> ?l" "?l \<le> ?g" "?g \<le> 16" using le(1-3) by (simp_all add: table_width_def)
    have "1 \<le> ?g" "min_length b \<le> 16" using le(1-3) by linarith+
    then have "?g \<in> set ?L" "min_length b \<in> set ?L" unfolding set_lengths using le(1-5) by simp_all
    then show "?g \<in> set ?K" by (simp add: code_lengths_def)
    have "?K ! 0 \<le> min_length b"
    proof -
      obtain i where "i < length ?L" "?L ! i = min_length b"
        using \<open>min_length b \<in> set ?L\<close> by (auto simp: in_set_conv_nth)
      moreover from this have "?L ! 0 \<le> ?L ! i" using \<open>sorted ?L\<close> by (intro sorted_nth_mono) auto
      moreover from calculation(1) have "0 < length ?L" by linarith
      ultimately show ?thesis by (simp add: code_lengths_def nth_append)
    qed
    then show "?K ! 0 \<le> ?l" using le(2) by (simp add: table_width_def)
    show "?g \<le> 2 * ?l \<or> length ?K < 2 ^ ?l"
    proof (cases "?l = ?g")
      case False
      then have l: "m \<le> ?l" by (simp add: table_width_def)
      show ?thesis
      proof (cases "?g \<le> 2 * m")
        case False
        then have "spare b = 0" "length b < 2 ^ m" using b(3) by (auto simp: shallow_def)
        then have "length ?K < 2 ^ m" using len by (simp add: code_lengths_def)
        also have "(2::nat) ^ m \<le> 2 ^ ?l" using l by simp
        finally show ?thesis by simp
      qed (use l in simp)
    qed simp
    show "all_lengths b ! k = count_list ?K k" if "1 \<le> k" "k \<le> ?g" for k
    proof -
      have "k \<le> 16" using that le(3) by simp
      then have "all_lengths b ! k = count_list b k + (if k = ?g then spare b else 0)"
        using proper_counts [OF b(1)] le(3) by (auto simp: all_lengths_def nth_list_update)
      moreover have "count_list ?L k = count_list b k" using count_in_order [of b k] that(1) \<open>k \<le> 16\<close> by simp
      ultimately show ?thesis
        by (auto simp: code_lengths_def count_list_append count_list_replicate)
    qed
    show "e ! (vals ! p - s) \<le> 16 \<or> e ! (vals ! p - s) = 99"
      if p: "p < length ?K" "p < length b" "s \<le> vals ! p" for p
    proof -
      have "p < length (in_order b)"
      proof (cases "spare b = 0")
        case False
        then have "0 \<notin> set b" using n by simp
        have "1 \<le> b ! i \<and> b ! i < 17" if "i < length b" for i
        proof -
          have "b ! i \<in> set b" using that by simp
          then show ?thesis using \<open>0 \<notin> set b\<close> sub by (cases "b ! i = 0") auto
        qed
        then have "filter (\<lambda>i. 1 \<le> b ! i \<and> b ! i < 17) [0..<length b] = [0..<length b]"
          by (simp add: filter_id_conv)
        then have "length (in_order b) = length b"
          using before_length_filter [of b 17] unfolding before_length_all by simp
        then show ?thesis using p(2) by simp
      qed (use p(1) in \<open>simp add: code_lengths_def\<close>)
      then have "vals ! p \<in> set (in_order b)" using vals by simp
      then have "vals ! p < length b" "b ! (vals ! p) \<noteq> 0" unfolding set_in_order by simp_all
      then show ?thesis using e p(3) by blast
    qed
  qed
qed

text \<open>\<open>huft_build\<close> in terms of the counts; the sum of Kraft decides on the result code.\<close>

lemma huft_build_proper:
  assumes "proper b"
  shows "huft_build b s d e m hufts hp0 =
    (if kraft (max_length b) b > 2 ^ max_length b then Some (2, None, table_width b m, hufts, hp0)
     else case sort_values b (offsets (all_lengths b) (max_length b)) of (x, v) \<Rightarrow>
       map_option (\<lambda>st. (if spare b \<noteq> 0 \<and> max_length b \<noteq> 1 then 1 else 0, Some (hroot st), table_width b m, hmem st, heap st))
         (all_codes (all_lengths b) v (length b) s d e (int (max_length b)) (int (table_width b m))
           [min_length b..<max_length b + 1] (start_build (table_width b m) x hufts hp0)))"
proof -
  let ?g = "max_length b" and ?l = "table_width b m"
  have "count_list b 0 \<noteq> length b"
  proof
    assume "count_list b 0 = length b"
    then have "filter (\<lambda>x. x = 0) b = b"
      by (simp add: count_list_eq_length_filter) (metis (mono_tags, lifting) filter_cong length_filter_less nat_neq_iff filter_id_conv)
    then show False using assms by (auto simp: proper_def filter_id_conv)
  qed
  then have c0: "length_counts b ! 0 \<noteq> length b" using proper_counts(2) [OF assms, of 0] by simp
  have l: "(let l = if m < min_length b then min_length b else m in if l > ?g then ?g else l) = ?l"
    by (simp add: table_width_def Let_def min_def max_def)
  have "huft_build b s d e m hufts hp0 =
    (case left_over (length_counts b) ?g (min_length b) (2 ^ min_length b) of
        None \<Rightarrow> Some (2, None, ?l, hufts, hp0)
      | Some y \<Rightarrow>
          let c = (length_counts b)[?g := length_counts b ! ?g + nat y]; (x, v) = sort_values b (offsets c ?g)
          in map_option (\<lambda>st. (if y \<noteq> 0 \<and> ?g \<noteq> 1 then 1 else 0, Some (hroot st), ?l, hmem st, heap st))
               (all_codes c v (length b) s d e (int ?g) (int ?l) [min_length b..<?g + 1] (start_build ?l x hufts hp0)))"
    unfolding huft_build_def l [symmetric] using c0 by (simp only: Let_def if_False min_length_def max_length_def)
  then show ?thesis
    unfolding left_over_kraft [OF assms] by (simp add: all_lengths_def Let_def del: upt_Suc)
qed

subsection \<open>The canonical code\<close>

text \<open>
  The first code of a length follows the last of the length before, with a 0 added; the symbols of a
  length have consecutive codes (RFC 1951, 3.2.2).
\<close>

fun first_code :: "nat list \<Rightarrow> nat \<Rightarrow> nat" where
  "first_code b 0 = 0"
| "first_code b (Suc k) = 2 * (first_code b k + (if k = 0 then 0 else count_list b k))"

definition canonical :: "nat list \<Rightarrow> nat \<Rightarrow> nat" where
  "canonical b i = first_code b (b ! i) + count_list (take i b) (b ! i)"

lemma first_code_sum:
  "k \<le> g \<Longrightarrow> first_code b k * 2 ^ (g - k) = (\<Sum>m\<leftarrow>[1..<k]. count_list b m * 2 ^ (g - m))"
proof (induction k)
  case (Suc k)
  have "(2::nat) ^ (g - k) = 2 * 2 ^ (g - Suc k)" using Suc.prems by (simp flip: power_Suc add: Suc_diff_Suc)
  then have "first_code b (Suc k) * 2 ^ (g - Suc k) =
      first_code b k * 2 ^ (g - k) + (if k = 0 then 0 else count_list b k * 2 ^ (g - k))"
    by (simp add: algebra_simps)
  then show ?case using Suc by simp
qed simp

lemma symbol_slot:
  assumes "i < length b"
  shows "count_list (take i b) (b ! i) < length (symbols b (b ! i))"
    and "symbols b (b ! i) ! count_list (take i b) (b ! i) = i"
proof -
  have "count_list (take i b) k = length (symbols_to b i k)" for k
  proof -
    have "symbols (take i b) k = symbols_to b i k"
      using assms unfolding symbols_def symbols_to_def by (intro filter_cong) auto
    then show ?thesis by (simp add: count_symbols)
  qed
  moreover have "symbols_to b (Suc i) (b ! i) = symbols_to b i (b ! i) @ [i]" by (simp add: symbols_to_Suc)
  ultimately show "count_list (take i b) (b ! i) < length (symbols b (b ! i))"
      "symbols b (b ! i) ! count_list (take i b) (b ! i) = i"
    using symbols_to_prefix(1) [of "Suc i" b "b ! i"]
      symbols_to_prefix(2) [where i = "Suc i" and b = b and k = "b ! i" and t = "length (symbols_to b i (b ! i))"] assms
    by simp_all
qed

lemma take_lengths:
  assumes "1 \<le> k" "k \<le> 16" "t < count_list b k"
  shows "take (before_length b k + t) (code_lengths b) =
    concat (map (\<lambda>m. replicate (count_list b m) m) [1..<k]) @ replicate t k"
proof -
  let ?f = "\<lambda>m. replicate (count_list b m) m"
  have "[1..<17] = [1..<k] @ k # [Suc k..<17]"
    using upt_add_eq_append [OF assms(1), of "17 - k"] assms(2) by (simp add: upt_conv_Cons)
  then have K: "code_lengths b = concat (map ?f [1..<k]) @ ?f k @ concat (map ?f [Suc k..<17]) @ replicate (spare b) (max_length b)"
    unfolding code_lengths_def lengths_in_order by simp
  have "length (concat (map ?f [1..<k])) = before_length b k"
    by (simp add: before_length_def length_concat count_symbols o_def)
  then show ?thesis unfolding K using assms(3) by simp
qed

lemma canonical_place:
  assumes "i < length b" "1 \<le> b ! i" "b ! i \<le> 16" "b ! i \<le> g"
  shows "wt g (take (before_length b (b ! i) + count_list (take i b) (b ! i)) (code_lengths b)) =
    canonical b i * 2 ^ (g - b ! i)"
proof -
  have t: "count_list (take i b) (b ! i) < count_list b (b ! i)"
    using symbol_slot(1) [OF assms(1)] by (simp add: count_symbols)
  have "wt g (concat (map (\<lambda>m. replicate (count_list b m) m) ks)) = (\<Sum>m\<leftarrow>ks. count_list b m * 2 ^ (g - m))" for ks
    by (induction ks) (simp_all add: wt_def sum_list_replicate map_replicate_const)
  then show ?thesis
    unfolding take_lengths [OF assms(2,3) t] using first_code_sum [OF assms(4), of b]
    by (simp add: canonical_def algebra_simps) (simp add: wt_def sum_list_replicate map_replicate_const)
qed

subsection \<open>The tables decode the canonical code\<close>

text \<open>
  The entry for a bit string, from table \<open>q\<close> indexed by \<open>B\<close> bits after \<open>w\<close> bits, and the bits used
  up to it; \<open>None\<close> where the tables do not hold the string, or a table is wider than \<open>M\<close>.
\<close>

partial_function (option) huft_walk :: "nat \<Rightarrow> hheap \<Rightarrow> nat \<Rightarrow> nat \<Rightarrow> nat \<Rightarrow> nat \<Rightarrow> (huft \<times> nat) option" where
  "huft_walk M hp q B w v =
     (let j = v div 2 ^ w mod 2 ^ B; r = tab hp q ! j in
      if M < B \<or> length (tab hp q) \<le> j \<or> unat (h_b r) \<notin> {1..B} then None
      else if leafy r then Some (r, w + unat (h_b r))
      else if unat (h_b r) \<noteq> B then None
      else case h_v r of Num _ \<Rightarrow> None | Tbl q' \<Rightarrow> huft_walk M hp q' (unat (h_e r) - 16) (w + unat (h_b r)) v)"

definition agree :: "hheap \<Rightarrow> hheap \<Rightarrow> bool" where
  "agree hp hp' \<longleftrightarrow> (\<forall>q<brk hp. tab hp' q = tab hp q)"

lemma leads_walk:
  "leads M R hp v q r t \<Longrightarrow> R q = (w, x, B) \<Longrightarrow> agree hp hp' \<Longrightarrow> huft_walk M hp' q B w v = Some (r, t)"
proof (induction arbitrary: w x B rule: leads.induct)
  case (leaf q w0 B0 r)
  have "v div 2 ^ w0 mod 2 ^ B0 < length (tab hp q)"
    using leaf(3) by (rule less_le_trans [rotated]) simp
  then show ?case using leaf by (subst huft_walk.simps) (auto simp: Let_def agree_def)
next
  case (link q w0 B0 r q' x' B' r' t)
  have "v div 2 ^ w0 mod 2 ^ B0 < length (tab hp q)"
    using link(3) by (rule less_le_trans [rotated]) simp
  moreover have "huft_walk M hp' q' B' (w0 + unat (h_b r)) v = Some (r', t)" using link by blast
  ultimately show ?case using link by (subst huft_walk.simps) (auto simp: Let_def agree_def)
qed

text \<open>What the caller of \<open>huft_build\<close> gets: tables that decode the canonical code, whatever is built after them.\<close>

definition decodes :: "hheap \<Rightarrow> nat \<Rightarrow> nat \<Rightarrow> nat list \<Rightarrow> (nat \<Rightarrow> u8 \<times> hval) \<Rightarrow> bool" where
  "decodes hp root l b leaf \<longleftrightarrow> (\<forall>i v. i < length b \<and> b ! i \<noteq> 0 \<and> v mod 2 ^ (b ! i) = rv (b ! i) (canonical b i) \<longrightarrow>
     (\<exists>r. huft_walk l hp root l 0 v = Some (r, b ! i) \<and> (h_e r, h_v r) = leaf i))"

text \<open>The values that the main loop of \<open>huft_build\<close> takes one after the other.\<close>

definition sorted_values :: "nat list \<Rightarrow> nat list" where
  "sorted_values b = snd (sort_values b (offsets (all_lengths b) (max_length b)))"

lemma sorted_values_nth:
  assumes b: "proper b"
  shows "length (fst (sort_values b (offsets (all_lengths b) (max_length b)))) = BMAX + 1"
    and "p < length (in_order b) \<Longrightarrow> sorted_values b ! p = in_order b ! p"
proof -
  let ?g = "max_length b" and ?c = "all_lengths b"
  note le = lengths_between [OF b]
  have sub: "set b \<subseteq> {0..BMAX}" "length b \<le> N_MAX" using b by (simp_all add: proper_def BMAX_def N_MAX_def)
  have off: "offsets ?c ?g ! k = before_length b k" if "1 \<le> k" "k \<in> set b" for k
  proof -
    have k: "k \<le> ?g" using le(6) [OF that(2)] that(1) by simp
    then have "offsets ?c ?g ! k = (\<Sum>m\<leftarrow>[1..<k]. ?c ! m)"
      using offsets_nth(2) [of ?g k ?c] that(1) le(3) by (simp add: BMAX_def)
    also have "\<dots> = (\<Sum>m\<leftarrow>[1..<k]. length (symbols b m))"
      using k le(3) proper_counts [OF b]
      by (intro arg_cong [of _ _ sum_list] map_cong) (auto simp: all_lengths_def count_symbols)
    finally show ?thesis by (simp add: before_length_def length_concat o_def)
  qed
  have len: "length (offsets ?c ?g) = BMAX + 1" using offsets_nth(1) le(3) by (simp add: BMAX_def)
  note sorted = sort_values_in_order [OF sub len off]
  show "length (fst (sort_values b (offsets ?c ?g))) = BMAX + 1" by (rule sorted(1))
  show "p < length (in_order b) \<Longrightarrow> sorted_values b ! p = in_order b ! p" unfolding sorted_values_def by (rule sorted(2))
qed

lemma canonical_build:
  assumes "proper b" "kraft (max_length b) b \<le> 2 ^ max_length b" "shallow b m" "spare b = 0 \<or> 0 \<notin> set b"
    and "\<And>i. i < length b \<Longrightarrow> s \<le> i \<Longrightarrow> b ! i \<noteq> 0 \<Longrightarrow> e ! (i - s) \<le> 16 \<or> e ! (i - s) = 99"
  shows "canonical_code (code_lengths b) (all_lengths b) (max_length b) (table_width b m) (sorted_values b) (length b) s e"
  using assms sorted_values_nth(2) [OF assms(1)] by (intro canonical_lengths) auto

lemma huft_build_tables:
  assumes b: "proper b" "kraft (max_length b) b \<le> 2 ^ max_length b" "shallow b m" "spare b = 0 \<or> 0 \<notin> set b"
    and e: "\<And>i. i < length b \<Longrightarrow> s \<le> i \<Longrightarrow> b ! i \<noteq> 0 \<Longrightarrow> e ! (i - s) \<le> 16 \<or> e ! (i - s) = 99"
  shows "\<exists>root mem hp. huft_build b s d e m hufts hp0 =
      Some (if spare b \<noteq> 0 \<and> max_length b \<noteq> 1 then 1 else 0, Some (Some root), table_width b m, mem, hp) \<and>
    (\<forall>hp'. agree hp hp' \<longrightarrow> decodes hp' root (table_width b m) b (leaf_fields s d e))"
proof -
  let ?g = "max_length b" and ?l = "table_width b m" and ?c = "all_lengths b"
  obtain x vals where xv: "sort_values b (offsets ?c ?g) = (x, vals)" by fastforce
  note le = lengths_between [OF b(1)]
  note sorted = sorted_values_nth [OF b(1), unfolded sorted_values_def xv, simplified]
  have cc: "canonical_code (code_lengths b) ?c ?g ?l vals (length b) s e"
    using canonical_build [OF b e] by (simp add: sorted_values_def xv)
  have K: "\<And>x. x \<in> set (code_lengths b) \<Longrightarrow> min_length b \<le> x"
    using set_lengths [of b] le by (auto simp: code_lengths_def)
  obtain R st root where st: "all_codes ?c vals (length b) s d e (int ?g) (int ?l) [min_length b..<Suc ?g] (start_build ?l x hufts hp0) = Some st"
      "hroot st = Some root" "R root = (0, 0, ?l)"
      "\<And>p v. p < length (code_lengths b) \<Longrightarrow> canonical_code.pos (code_lengths b) ?g p \<le> rv ?g v \<Longrightarrow>
        rv ?g v < canonical_code.pos (code_lengths b) ?g (Suc p) \<Longrightarrow>
        \<exists>r. leads ?l R (heap st) v root r (code_lengths b ! p) \<and> canonical_code.is_entry vals (length b) s d e p r"
    using canonical_code.all_codes_decode [OF cc le(1) K, of x d hufts hp0] le(2) sorted(1) by (auto simp: BMAX_def)
  have "huft_build b s d e m hufts hp0 =
      Some (if spare b \<noteq> 0 \<and> ?g \<noteq> 1 then 1 else 0, Some (Some root), ?l, hmem st, heap st)"
    using huft_build_proper [OF b(1), of s d e m hufts hp0] b(2) st(1,2) by (simp add: xv del: upt_Suc)
  moreover have "\<exists>r. huft_walk ?l hp' root ?l 0 v = Some (r, b ! i) \<and> (h_e r, h_v r) = leaf_fields s d e i"
    if i: "i < length b" "b ! i \<noteq> 0" and v: "v mod 2 ^ (b ! i) = rv (b ! i) (canonical b i)"
      and hp': "agree (heap st) hp'" for i v hp'
  proof -
    let ?k = "b ! i" and ?t = "count_list (take i b) (b ! i)"
    let ?p = "before_length b ?k + ?t"
    have k: "1 \<le> ?k" "?k \<le> 16" "?k \<le> ?g" using i le(3,6) nth_mem [OF i(1)] by fastforce+
    note slot = symbol_slot [OF i(1)] and place = in_order_nth [OF k(1,2) symbol_slot(1) [OF i(1)]]
    have p: "?p < length (code_lengths b)" "?p < length b" "code_lengths b ! ?p = ?k"
      using place slot length_in_order [of b] by (simp_all add: code_lengths_def nth_append)
    have pos: "canonical_code.pos (code_lengths b) ?g ?p = 2 ^ (?g - ?k) * canonical b i"
      unfolding canonical_code.pos_def [OF cc] using canonical_place [OF i(1) k] by (simp add: mult.commute)
    have "v mod 2 ^ ?k = rv ?g (canonical_code.pos (code_lengths b) ?g ?p)"
      unfolding pos rv_place [OF k(3)] by (rule v)
    then have "canonical_code.pos (code_lengths b) ?g ?p \<le> rv ?g v \<and>
        rv ?g v < canonical_code.pos (code_lengths b) ?g (Suc ?p)"
      using place_of_code(2) [OF k(3) _ canonical_code.pos_less [OF cc p(1)], of v] canonical_code.pos_Suc [OF cc p(1)] p(3)
      unfolding pos by simp
    then obtain r where r: "leads ?l R (heap st) v root r ?k" "canonical_code.is_entry vals (length b) s d e ?p r"
      using st(4) [OF p(1)] p(3) by auto
    then show ?thesis
      using leads_walk [OF r(1) st(3) hp'] p(2) sorted(2) [OF place(1)] place(2) slot(2)
      unfolding canonical_code.is_entry_def [OF cc] by (intro exI [of _ r]) (simp add: prod_eq_iff)
  qed
  ultimately show ?thesis unfolding decodes_def by blast
qed

end
