(* ===== verification/Huft_Free.thy ===== *)
theory Huft_Free
  imports Huft_Build
begin

text \<open>
  Whatever the lengths are, \<open>huft_build\<close> writes to tables of its own only, and chains all of them to the
  first, so that \<open>huft_free\<close> gives back exactly what \<open>huft_build\<close> took.
\<close>

subsection \<open>The chain of tables\<close>

definition chained :: "hheap \<Rightarrow> hbuild \<Rightarrow> bool" where
  "chained hp0 st \<longleftrightarrow> brk hp0 \<le> brk (heap st) \<and>
     (if brk (heap st) = brk hp0 then hroot st = None \<and> hlast st = None
      else hroot st = Some (brk hp0) \<and> hlast st = Some (brk (heap st) - 1) \<and> hlink (heap st) (brk (heap st) - 1) = None) \<and>
     (\<forall>q\<ge>brk hp0. Suc q < brk (heap st) \<longrightarrow> hlink (heap st) q = Some (Suc q)) \<and>
     (\<forall>q<brk hp0. hlink (heap st) q = hlink hp0 q \<and> tab (heap st) q = tab hp0 q) \<and>
     (\<forall>q. live (heap st) q \<longleftrightarrow> live hp0 q \<or> brk hp0 \<le> q \<and> q < brk (heap st))"

definition owned :: "hheap \<Rightarrow> int \<Rightarrow> hbuild \<Rightarrow> bool" where
  "owned hp0 l st \<longleftrightarrow> - 1 \<le> hh st \<and> hw st = l * hh st \<and> hx st ! 0 = 0 \<and> length (hu st) = 16 \<and>
     (\<forall>h\<ge>0. h \<le> hh st \<longrightarrow> brk hp0 \<le> hu st ! nat h) \<and> (0 \<le> hh st \<longrightarrow> brk hp0 \<le> hq st) \<and> chained hp0 st"

lemma new_table_links:
  "hlink (heap (new_table c g l k a st)) =
    (case hlast st of None \<Rightarrow> (hlink (heap st))(brk (heap st) := None)
     | Some p \<Rightarrow> ((hlink (heap st))(brk (heap st) := None))(p := Some (brk (heap st))))"
  "live (heap (new_table c g l k a st)) = (live (heap st))(brk (heap st) := True)"
  by (simp_all add: new_table_def Let_def alloc_table_def set_entry_def split: option.splits)

lemma owned_new_table:
  assumes st: "owned hp0 l st" and k: "k > hw st + l" "k \<le> 16" "1 \<le> l"
  shows "owned hp0 l (new_table c g l k a st)"
proof -
  let ?st = "new_table c g l k a st"
  have hh: "- 1 \<le> hh st" "hw st = l * hh st" "length (hu st) = 16" using st by (simp_all add: owned_def)
  have "hw st + l = l * (hh st + 1)" using hh(2) by (simp add: algebra_simps)
  moreover have "1 * (hh st + 1) \<le> l * (hh st + 1)" using k(3) hh(1) by (intro mult_right_mono) simp_all
  ultimately have h: "hh st + 1 < 16" using k by (metis le_less_trans less_le_trans mult_1)
  have ch: "chained hp0 st" using st by (simp add: owned_def)
  have base: "brk hp0 \<le> brk (heap st)" using ch by (simp add: chained_def)
  have u: "brk hp0 \<le> hu ?st ! nat h" if "0 \<le> h" "h \<le> hh ?st" for h
    using that st h hh(3) base unfolding new_table_simps owned_def by (cases "h = hh st + 1") (auto simp: nth_list_update)
  have t: "tab (heap ?st) q = tab hp0 q" if "q < brk hp0" for q
  proof -
    have old: "tab (heap st) q = tab hp0 q" using ch that by (simp add: chained_def)
    show ?thesis
    proof (cases "hh st + 1 = 0")
      case True
      then show ?thesis using old that base by (simp add: new_table_heap Let_def)
    next
      case False
      then have "brk hp0 \<le> hu ?st ! nat (hh st)" using u [of "hh st"] hh(1) by (simp add: new_table_simps)
      then show ?thesis using old that base False by (simp add: new_table_heap new_table_simps Let_def)
    qed
  qed
  have "chained hp0 ?st"
    using ch t unfolding chained_def new_table_simps new_table_links
    by (auto split: option.splits if_splits simp: less_Suc_eq)
  moreover have "hx ?st ! 0 = 0" using st hh(1) by (auto simp: new_table_simps owned_def)
  ultimately show ?thesis
    using u base hh unfolding owned_def by (auto simp: new_table_simps algebra_simps)
qed

lemma owned_cong:
  assumes "owned hp0 l st" "hh st' = hh st" "hw st' = hw st" "hx st' = hx st" "hu st' = hu st" "hq st' = hq st"
    "hroot st' = hroot st" "hlast st' = hlast st" "brk (heap st') = brk (heap st)" "hlink (heap st') = hlink (heap st)"
    "live (heap st') = live (heap st)" "\<And>q. q < brk hp0 \<Longrightarrow> tab (heap st') q = tab (heap st) q"
  shows "owned hp0 l st'"
proof -
  have "chained hp0 st" using assms(1) unfolding owned_def by blast
  then have "chained hp0 st'" using assms(12) unfolding chained_def assms(7-11) by (auto split: if_splits)
  then show ?thesis using assms(1) unfolding owned_def assms(2-6) by blast
qed

lemma code_entry_frame:
  "hh (code_entry v n s d e k st) = hh st" "hw (code_entry v n s d e k st) = hw st"
  "hx (code_entry v n s d e k st) = hx st" "hu (code_entry v n s d e k st) = hu st"
  "hq (code_entry v n s d e k st) = hq st" "hroot (code_entry v n s d e k st) = hroot st"
  "hlast (code_entry v n s d e k st) = hlast st" "heap (code_entry v n s d e k st) = heap st"
  "hz (code_entry v n s d e k st) = hz st" "hi (code_entry v n s d e k st) = hi st"
  by (simp_all add: code_entry_def Let_def)

lemma owned_code:
  assumes "one_code c v n s d e g l k a st = Some st'" "owned hp0 l st" "1 \<le> k" "k \<le> 16" "1 \<le> l"
  shows "owned hp0 l st' \<and> 0 \<le> hh st'"
proof -
  obtain st1 where st1: "while_option (\<lambda>st. k > hw st + l) (new_table c g l k a) st = Some st1"
    using assms(1) by (auto simp: one_code_def bind_eq_Some_conv)
  let ?st2 = "code_entry v n s d e k st1"
  let ?st3 = "?st2\<lparr>heap := fill_entries (hq ?st2) (hr ?st2) (nat (k - hw ?st2)) (hz ?st2)
    (drop_bit (nat (hw ?st2)) (hi ?st2)) (heap ?st2)\<rparr>"
  let ?st4 = "?st3\<lparr>hi := back_inc (2 ^ nat (k - 1)) (hi ?st3)\<rparr>"
  have st': "while_option (\<lambda>st. hi st AND (2 ^ nat (hw st) - 1) \<noteq> hx st ! nat (hh st))
         (\<lambda>st. st\<lparr>hh := hh st - 1, hw := hw st - l\<rparr>) ?st4 = Some st'"
    using assms(1) unfolding one_code_def st1 by (simp only: Option.bind.simps Let_def)
  have o1: "owned hp0 l st1"
    using while_option_rule [where P = "owned hp0 l", OF _ st1 assms(2)] owned_new_table [OF _ _ assms(4,5)] by blast
  have "\<not> k > hw st1 + l" using while_option_stop [OF st1] .
  then have "0 < l * (hh st1 + 1)" using o1 assms(3) by (simp add: owned_def algebra_simps)
  then have h0: "0 \<le> hh st1" using assms(5) by (simp add: zero_less_mult_iff)
  then have q: "brk hp0 \<le> hq st1" using o1 by (simp add: owned_def)
  have "owned hp0 l ?st4"
    by (rule owned_cong [OF o1]) (use q in \<open>simp_all add: code_entry_frame\<close>)
  then have "owned hp0 l ?st4 \<and> 0 \<le> hh ?st4" using h0 by (simp add: code_entry_frame)
  moreover have "owned hp0 l (st\<lparr>hh := hh st - 1, hw := hw st - l\<rparr>) \<and> 0 \<le> hh (st\<lparr>hh := hh st - 1, hw := hw st - l\<rparr>)"
    if "owned hp0 l st \<and> 0 \<le> hh st" "hi st AND (2 ^ nat (hw st) - 1) \<noteq> hx st ! nat (hh st)" for st
  proof -
    have "hh st \<noteq> 0" using that by (auto simp: owned_def)
    then show ?thesis using that(1) by (auto simp: owned_def chained_def algebra_simps)
  qed
  ultimately show ?thesis
    using while_option_rule [where P = "\<lambda>st. owned hp0 l st \<and> 0 \<le> hh st", OF _ st'] by blast
qed

lemma owned_codes_of_length:
  assumes "codes_of_length c v n s d e g l k a st = Some st'" "owned hp0 l st" "1 \<le> k" "k \<le> 16" "1 \<le> l"
  shows "owned hp0 l st' \<and> (0 < a \<longrightarrow> 0 \<le> hh st')"
  using assms(1,2)
proof (induction a arbitrary: st)
  case (Suc a)
  then obtain st1 where st1: "one_code c v n s d e g l k a st = Some st1"
      "codes_of_length c v n s d e g l k a st1 = Some st'"
    by (auto simp: bind_eq_Some_conv)
  have "owned hp0 l st1 \<and> 0 \<le> hh st1" using owned_code [OF st1(1) Suc.prems(2) assms(3-5)] .
  then show ?case using Suc.IH [OF st1(2)] st1(2) by (cases a) auto
qed simp

lemma owned_all_codes:
  assumes "all_codes c v n s d e g l ks st = Some st'" "owned hp0 l st" "set ks \<subseteq> {1..16}" "1 \<le> l"
  shows "owned hp0 l st'"
  using assms(1-3)
proof (induction ks arbitrary: st)
  case (Cons k ks)
  then obtain st1 where st1: "codes_of_length c v n s d e g l (int k) (c ! k) st = Some st1"
      "all_codes c v n s d e g l ks st1 = Some st'"
    by (auto simp: bind_eq_Some_conv)
  have "1 \<le> int k" "int k \<le> 16" using Cons.prems(3) by simp_all
  then have "owned hp0 l st1" using owned_codes_of_length [OF st1(1) Cons.prems(2)] assms(4) by blast
  then show ?case using Cons.IH [OF st1(2)] Cons.prems(3) by simp
qed simp

subsection \<open>Freeing\<close>

text \<open>The tables from \<open>lo\<close> to before \<open>up\<close>, chained one to the next.\<close>

definition chain :: "hheap \<Rightarrow> nat option \<Rightarrow> nat \<Rightarrow> nat \<Rightarrow> bool" where
  "chain hp t lo up \<longleftrightarrow> lo \<le> up \<and> t = (if lo < up then Some lo else None) \<and>
     (\<forall>q. lo \<le> q \<and> q < up \<longrightarrow> hlink hp q = (if Suc q < up then Some (Suc q) else None))"

lemma huft_free_chain:
  "chain hp t lo up \<Longrightarrow> huft_free t hp = Some (hp\<lparr>live := \<lambda>q. live hp q \<and> \<not> (lo \<le> q \<and> q < up)\<rparr>)"
proof (induction "up - lo" arbitrary: hp t lo)
  case 0
  then have "t = None" by (simp add: chain_def)
  moreover have "hp\<lparr>live := \<lambda>q. live hp q \<and> \<not> (lo \<le> q \<and> q < up)\<rparr> = hp"
    using 0 by (cases hp) auto
  ultimately show ?case by (simp add: huft_free.simps)
next
  case (Suc n)
  then have lo: "lo < up" by simp
  let ?hp = "hp\<lparr>live := (live hp)(lo := False)\<rparr>"
  have t: "t = Some lo" "hlink hp lo = (if Suc lo < up then Some (Suc lo) else None)"
    using Suc.prems lo by (simp_all add: chain_def)
  have "chain ?hp (hlink hp lo) (Suc lo) up" using Suc.prems lo t(2) by (auto simp: chain_def)
  from Suc.hyps(1) [OF _ this] Suc.hyps(2)
  have "huft_free (hlink hp lo) ?hp = Some (?hp\<lparr>live := \<lambda>q. live ?hp q \<and> \<not> (Suc lo \<le> q \<and> q < up)\<rparr>)" by simp
  moreover have "(\<lambda>q. live ?hp q \<and> \<not> (Suc lo \<le> q \<and> q < up)) = (\<lambda>q. live hp q \<and> \<not> (lo \<le> q \<and> q < up))"
    using lo by auto
  ultimately show ?case unfolding t(1) by (simp add: huft_free.simps [of "Some lo"])
qed

lemma chain_agree:
  "chain hp t lo up \<Longrightarrow> (\<And>q. q < up \<Longrightarrow> hlink hp' q = hlink hp q) \<Longrightarrow> chain hp' t lo up"
  by (auto simp: chain_def)

lemma chained_chain:
  assumes "chained hp0 st"
  shows "chain (heap st) (hroot st) (brk hp0) (brk (heap st))"
  unfolding chain_def
proof (intro conjI allI impI)
  show "brk hp0 \<le> brk (heap st)" "hroot st = (if brk hp0 < brk (heap st) then Some (brk hp0) else None)"
    using assms unfolding chained_def by (simp_all split: if_splits)
  fix q assume q: "brk hp0 \<le> q \<and> q < brk (heap st)"
  show "hlink (heap st) q = (if Suc q < brk (heap st) then Some (Suc q) else None)"
  proof (cases "Suc q < brk (heap st)")
    case True
    then show ?thesis using assms q unfolding chained_def by simp
  next
    case False
    then have "q = brk (heap st) - 1" "brk (heap st) \<noteq> brk hp0" using q by linarith+
    then show ?thesis using assms False unfolding chained_def by simp
  qed
qed

lemma huft_build_owned:
  assumes "huft_build b s d e m hufts hp0 = Some (i, Some t, l, mem, hp)" "set b \<subseteq> {0..16}" "length b \<le> 288"
  shows "chain hp t (brk hp0) (brk hp)"
    "brk hp0 \<le> brk hp" "\<And>q. q < brk hp0 \<Longrightarrow> tab hp q = tab hp0 q \<and> hlink hp q = hlink hp0 q"
    "\<And>q. live hp q \<longleftrightarrow> live hp0 q \<or> brk hp0 \<le> q \<and> q < brk hp"
proof -
  have "chain hp t (brk hp0) (brk hp) \<and> brk hp0 \<le> brk hp \<and> (\<forall>q<brk hp0. tab hp q = tab hp0 q \<and> hlink hp q = hlink hp0 q) \<and>
    (\<forall>q. live hp q \<longleftrightarrow> live hp0 q \<or> brk hp0 \<le> q \<and> q < brk hp)"
  proof (cases "length_counts b ! 0 = length b")
    case True
    then have "t = None" "hp = hp0" using assms(1) by (simp_all add: huft_build_def)
    then show ?thesis by (auto simp: chain_def)
  next
    case False
    have "length_counts b ! 0 = count_list b 0" using length_counts_nth(2) [of b 0] assms(2) by (simp add: BMAX_def)
    moreover have "count_list b 0 = length b" if "\<forall>x\<in>set b. x = 0" using that by (induction b) auto
    ultimately have "\<not> (\<forall>x\<in>set b. x = 0)" using False by metis
    then have b: "proper b" using assms(2,3) by (auto simp: proper_def)
    note le = lengths_between [OF b]
    let ?l = "table_width b m"
    obtain x v where xv: "sort_values b (offsets (all_lengths b) (max_length b)) = (x, v)" by fastforce
    obtain st where st: "all_codes (all_lengths b) v (length b) s d e (int (max_length b)) (int ?l)
        [min_length b..<max_length b + 1] (start_build ?l x hufts hp0) = Some st" "t = hroot st" "hp = heap st"
      using assms(1) unfolding huft_build_proper [OF b] xv by (auto split: if_splits)
    have "set [min_length b..<max_length b + 1] \<subseteq> {1..16}" "1 \<le> int ?l"
      using le(1-3) by (auto simp: table_width_def)
    moreover have "owned hp0 (int ?l) (start_build ?l x hufts hp0)"
    proof -
      have "length x = 17"
        using length_sort_values [of b "offsets (all_lengths b) (max_length b)"] offsets_nth(1) [of "max_length b"] le(3)
        by (simp add: xv BMAX_def)
      then have "x[0 := 0] ! 0 = 0" by simp
      then show ?thesis by (auto simp: owned_def chained_def start_build_def BMAX_def)
    qed
    ultimately have "owned hp0 (int ?l) st" using owned_all_codes [OF st(1)] by blast
    then have ch: "chained hp0 st" by (simp add: owned_def)
    have "chain (heap st) (hroot st) (brk hp0) (brk (heap st))"
      by (rule chained_chain [OF ch])
    moreover have "brk hp0 \<le> brk (heap st)" "\<forall>q<brk hp0. tab (heap st) q = tab hp0 q \<and> hlink (heap st) q = hlink hp0 q"
        "\<forall>q. live (heap st) q \<longleftrightarrow> live hp0 q \<or> brk hp0 \<le> q \<and> q < brk (heap st)"
      using ch unfolding chained_def by blast+
    ultimately show ?thesis unfolding st(2,3) by blast
  qed
  then show "chain hp t (brk hp0) (brk hp)"
    "brk hp0 \<le> brk hp" "\<And>q. q < brk hp0 \<Longrightarrow> tab hp q = tab hp0 q \<and> hlink hp q = hlink hp0 q"
    "\<And>q. live hp q \<longleftrightarrow> live hp0 q \<or> brk hp0 \<le> q \<and> q < brk hp" by blast+
qed

text \<open>
  \<open>huft_free\<close> after \<open>huft_build\<close>, at once or after further tables were built: the blocks in use are those from
  before.
\<close>

lemma huft_free_build:
  assumes "huft_build b s d e m hufts hp0 = Some (i, Some t, l, mem, hp)" "set b \<subseteq> {0..16}" "length b \<le> 288"
    and "\<And>q. live hp0 q \<Longrightarrow> q < brk hp0"
  shows "\<exists>hp'. huft_free t hp = Some hp' \<and> live hp' = live hp0 \<and> tab hp' = tab hp \<and> brk hp' = brk hp"
proof -
  note own = huft_build_owned [OF assms(1-3)]
  have "(\<lambda>q. live hp q \<and> \<not> (brk hp0 \<le> q \<and> q < brk hp)) = live hp0"
    using own(4) assms(4) by (fastforce simp: fun_eq_iff not_le)
  then show ?thesis using huft_free_chain [OF own(1)] by simp
qed

end
