(* ===== verification/Inflate_Codes.thy ===== *)
theory Inflate_Codes
  imports Bit_Stream Huft_Free
begin

text \<open>
  The codes of a block: decoding one symbol is the walk through the tables on the bits of the file, and
  the loop of \<open>inflate_codes\<close> puts out what the symbols stand for.
\<close>

subsection \<open>One symbol\<close>

inductive walks :: "nat \<Rightarrow> hheap \<Rightarrow> nat \<Rightarrow> nat \<Rightarrow> nat \<Rightarrow> nat \<Rightarrow> huft \<Rightarrow> nat \<Rightarrow> bool" for M hp v where
  leaf: "B \<le> M \<Longrightarrow> v div 2 ^ w mod 2 ^ B < length (tab hp q) \<Longrightarrow> r = tab hp q ! (v div 2 ^ w mod 2 ^ B) \<Longrightarrow>
    unat (h_b r) \<in> {1..B} \<Longrightarrow> leafy r \<Longrightarrow> walks M hp v q B w r (w + unat (h_b r))"
| link: "B \<le> M \<Longrightarrow> v div 2 ^ w mod 2 ^ B < length (tab hp q) \<Longrightarrow> r = tab hp q ! (v div 2 ^ w mod 2 ^ B) \<Longrightarrow>
    unat (h_b r) \<in> {1..B} \<Longrightarrow> B \<le> unat (h_b r) \<Longrightarrow> \<not> leafy r \<Longrightarrow> h_v r = Tbl q' \<Longrightarrow>
    walks M hp v q' (unat (h_e r) - 16) (w + unat (h_b r)) r' t \<Longrightarrow> walks M hp v q B w r' t"

lemma walk_walks:
  assumes "huft_walk M hp q B w v = Some rt"
  shows "walks M hp v q B w (fst rt) (snd rt)"
proof (rule huft_walk.raw_induct [where P = "\<lambda>M hp q B w v rt. walks M hp v q B w (fst rt) (snd rt)", OF _ assms])
  fix walk and M B w v q :: nat and hp :: hheap and rt
  assume IH: "\<And>M hp q B w v rt. walk M hp q B w v = Some rt \<Longrightarrow> walks M hp v q B w (fst rt) (snd rt)"
  let ?j = "(v::nat) div 2 ^ w mod 2 ^ B"
  let ?r = "tab hp q ! ?j"
  assume "(let j = v div 2 ^ w mod 2 ^ B; r = tab hp q ! j in
      if M < B \<or> length (tab hp q) \<le> j \<or> unat (h_b r) \<notin> {1..B} then None
      else if leafy r then Some (r, w + unat (h_b r))
      else if unat (h_b r) \<noteq> B then None
      else case h_v r of Num _ \<Rightarrow> None | Tbl q' \<Rightarrow> walk M hp q' (unat (h_e r) - 16) (w + unat (h_b r)) v) = Some rt"
  then consider "leafy ?r" "B \<le> M" "?j < length (tab hp q)" "unat (h_b ?r) \<in> {1..B}" "rt = (?r, w + unat (h_b ?r))"
    | q' where "\<not> leafy ?r" "B \<le> M" "?j < length (tab hp q)" "unat (h_b ?r) \<in> {1..B}" "B \<le> unat (h_b ?r)" "h_v ?r = Tbl q'"
        "walk M hp q' (unat (h_e ?r) - 16) (w + unat (h_b ?r)) v = Some rt"
    by (auto simp: Let_def not_less not_le split: if_splits hval.splits)
  then show "walks M hp v q B w (fst rt) (snd rt)"
  proof cases
    case 1
    then show ?thesis using walks.leaf [OF 1(2,3) refl 1(4,1)] by simp
  next
    case 2
    then show ?thesis using walks.link [OF 2(2,3) refl 2(4,5,1,6) IH [OF 2(7)]] by simp
  qed
qed

lemma walks_mono: "walks M hp v q B w r t \<Longrightarrow> w + 1 \<le> t"
  by (induction rule: walks.induct) auto

text \<open>
  The loop over the tables follows the walk on the next bits of the file. \<open>v\<close> has them as far as the
  walk looks.
\<close>

lemma sub_tables_walk:
  assumes "walks M (zheap st0) v q B w r t" "reads f rd" "M \<le> 16" "v = fnum f P N" "t + M \<le> N"
    and "h_e r \<le> 16" "at_bit f l st (P + w)" "B \<le> lk l" "lk l \<le> max 15 (M + 7)" "zheap st = zheap st0"
  shows "\<exists>t0 l' st'. fetch (zheap st) (Some q) (low_bits B l) = Some t0 \<and> sub_tables rd t0 l st = Some (Some r, l', st') \<and>
    at_bit f (dumpbits (unat (h_b r)) l') st' (P + t) \<and> lk (dumpbits (unat (h_b r)) l') \<le> max 15 (M + 6) \<and>
    lw l' = lw l \<and> same_output st st'"
  using assms
proof (induction arbitrary: l st rule: walks.induct)
  case (leaf B w q r)
  have ix: "unat (low_bits B l) = v div 2 ^ w mod 2 ^ B"
    using bits_at(2) [OF leaf.prems(6,7)] leaf.hyps(1,4) leaf.prems(2-4) fnum_part [of w B N f P] by simp
  have "\<not> h_e r > 16" using leaf.prems(5) by simp
  then have "sub_tables rd r l st = Some (Some r, l, st)"
    by (simp only: sub_tables.simps [of rd r l st] if_False)
  moreover have "fetch (zheap st) (Some q) (low_bits B l) = Some r"
    using leaf.hyps(2,3) leaf.prems(9) by (simp add: fetch_def ix)
  moreover have "unat (h_b r) \<le> lk l" "1 \<le> unat (h_b r)" using leaf.hyps(4) leaf.prems(7) by simp_all
  moreover note dumpbits_at [OF leaf.prems(6) this(1)]
  ultimately show ?case
    using leaf.prems(8) by (intro exI [of _ r] exI [of _ l] exI [of _ st]) (auto simp: add.assoc)
next
  case (link B w q r q' r' t)
  let ?l = "dumpbits (unat (h_b r)) l" and ?e = "unat (h_e r) - 16"
  have ix: "unat (low_bits B l) = v div 2 ^ w mod 2 ^ B"
    using bits_at(2) [OF link.prems(6,7)] link.hyps(1,4,5) walks_mono [OF link.hyps(8)] link.prems(2-4) fnum_part [of w B N f P]
    by simp
  have fetch: "fetch (zheap st) (Some q) (low_bits B l) = Some r"
    using link.hyps(2,3) link.prems(9) by (simp add: fetch_def ix)
  have hb: "unat (h_b r) \<le> lk l" "1 \<le> unat (h_b r)" using link.hyps(4,5) link.prems(7) by simp_all
  note dump = dumpbits_at [OF link.prems(6) hb(1)]
  have e: "h_e r > 16" "h_e r \<noteq> 99" "unat (h_e r - 16) = ?e"
    using link.hyps(6) by (auto simp: leafy_def not_le unat_sub_no_wrap word_less_nat_alt)
  have eM: "?e \<le> M" using link.hyps(8) by cases auto
  obtain l1 st1 where n: "needbits rd ?e ?l st = (l1, st1)" "at_bit f l1 st1 (P + w + unat (h_b r))" "?e \<le> lk l1"
      "lk l1 \<le> max (lk ?l) (?e + 7)" "lw l1 = lw ?l" "same_output st st1"
    using needbits_at [OF link.prems(1) dump(1), of ?e] eM link.prems(2) by auto
  have "lk l1 \<le> max 15 (M + 7)" using n(4) dump(2) link.prems(8) hb eM by simp
  then obtain t0 l' st' where IH: "fetch (zheap st1) (Some q') (low_bits ?e l1) = Some t0"
      "sub_tables rd t0 l1 st1 = Some (Some r', l', st')" "at_bit f (dumpbits (unat (h_b r')) l') st' (P + t)"
      "lk (dumpbits (unat (h_b r')) l') \<le> max 15 (M + 6)" "lw l' = lw l1" "same_output st1 st'"
    using link.IH [OF link.prems(1-5), of l1 st1] n same_output_fields(9) [OF n(6)] link.prems(9)
    by (auto simp: add.assoc)
  have "sub_tables rd r l st = Some (Some r', l', st')"
    using e n(1) IH(1,2) link.hyps(7) by (subst sub_tables.simps) (simp add: v_t_def Let_def)
  then show ?case
    using fetch IH n(5) dump(3) same_output_trans [OF n(6) IH(6)]
    by (intro exI [of _ r] exI [of _ l'] exI [of _ st']) auto
qed

text \<open>Decoding a symbol that the tables hold.\<close>

lemma decode_entry_walk:
  assumes "huft_walk bl (zheap st) q bl 0 v = Some (r, t)" "reads f rd" "bl \<le> 9" "v = fnum f P (t + 9)"
    and "h_e r \<le> 16" "at_bit f l st P" "lk l \<le> 15"
  shows "\<exists>l' st'. decode_entry rd (Some q) bl l st = Some (Some r, l', st') \<and> at_bit f l' st' (P + t) \<and>
    lk l' \<le> 15 \<and> lw l' = lw l \<and> same_output st st'"
proof -
  obtain l1 st1 where n: "needbits rd bl l st = (l1, st1)" "at_bit f l1 st1 P" "bl \<le> lk l1"
      "lk l1 \<le> max (lk l) (bl + 7)" "lw l1 = lw l" "same_output st st1"
    using needbits_at [OF assms(2,6), of bl] assms(3) by auto
  have w: "walks bl (zheap st) v q bl 0 r t" using walk_walks [OF assms(1)] by simp
  have at: "at_bit f l1 st1 (P + 0)" using n(2) by simp
  have "lk l1 \<le> max 15 (bl + 7)" using n(4) assms(7) by simp
  then have "\<exists>t0 l' st'. fetch (zheap st1) (Some q) (low_bits bl l1) = Some t0 \<and>
      sub_tables rd t0 l1 st1 = Some (Some r, l', st') \<and> at_bit f (dumpbits (unat (h_b r)) l') st' (P + t) \<and>
      lk (dumpbits (unat (h_b r)) l') \<le> max 15 (bl + 6) \<and> lw l' = lw l1 \<and> same_output st1 st'"
    using sub_tables_walk [OF w assms(2) _ assms(4) _ assms(5) at n(3)] assms(3) same_output_fields(9) [OF n(6)]
    by simp
  with assms(3)
  obtain t0 l' st' where s: "fetch (zheap st1) (Some q) (low_bits bl l1) = Some t0"
      "sub_tables rd t0 l1 st1 = Some (Some r, l', st')" "at_bit f (dumpbits (unat (h_b r)) l') st' (P + t)"
      "lk (dumpbits (unat (h_b r)) l') \<le> 15" "lw l' = lw l1" "same_output st1 st'"
    by auto
  have "lw (dumpbits (unat (h_b r)) l') = lw l" using s(5) n(5) by (simp add: dumpbits_def)
  then show ?thesis
    using n(1) s same_output_trans [OF n(6) s(6)] by (auto simp: decode_entry_def Let_def)
qed

end
