(* ===== verification/Window.thy ===== *)
theory Window
  imports Inflate
begin

text \<open>
  The output of \<open>inflate.c\<close>. The window holds the last 32768 bytes of the output as a ring; each time it
  is full, and at the end, it is written to the destination. Abstractly the output is a list.
\<close>

subsection \<open>What the state says of the output\<close>

definition in_window :: "u8 list \<Rightarrow> (nat \<Rightarrow> u8) \<Rightarrow> bool" where
  "in_window os win \<longleftrightarrow> (\<forall>j<length os. length os \<le> j + 32768 \<longrightarrow> win (j mod 32768) = os ! j)"

definition overlay :: "u64 \<Rightarrow> u8 list \<Rightarrow> (u64 \<Rightarrow> u8) \<Rightarrow> u64 \<Rightarrow> u8" where
  "overlay a xs m = (\<lambda>x. if unat (x - a) < length xs then xs ! unat (x - a) else m x)"

text \<open>\<open>written a m xs st\<close>: the bytes \<open>xs\<close> are at address \<open>a\<close>, other memory is \<open>m\<close>.\<close>

definition written :: "u64 \<Rightarrow> (u64 \<Rightarrow> u8) \<Rightarrow> u8 list \<Rightarrow> zip \<Rightarrow> bool" where
  "written a m xs st \<longleftrightarrow> zmem st = overlay a xs m \<and> dest_addr st = a + of_nat (length xs) \<and>
     bytes_out st = of_nat (length xs) \<and> a \<noteq> 0 \<and> unat a + length xs < 2 ^ 64"

definition flushed :: "u8 list \<Rightarrow> u8 list" where
  "flushed os = take (length os - length os mod 32768) os"

definition put_out :: "u64 \<Rightarrow> (u64 \<Rightarrow> u8) \<Rightarrow> u8 list \<Rightarrow> u32 \<Rightarrow> zip \<Rightarrow> bool" where
  "put_out a m os w st \<longleftrightarrow> in_window os (window st) \<and> unat w = length os mod 32768 \<and> written a m (flushed os) st"

text \<open>The parts of the state that the output does not touch.\<close>

definition same_input :: "zip \<Rightarrow> zip \<Rightarrow> bool" where
  "same_input st st' \<longleftrightarrow> st' = st\<lparr>window := window st', outcnt := outcnt st', bytes_out := bytes_out st',
     dest_addr := dest_addr st', zmem := zmem st'\<rparr>"

lemma same_input_refl [simp]: "same_input st st"
  by (simp add: same_input_def)

lemma same_input_trans: "same_input st st' \<Longrightarrow> same_input st' st'' \<Longrightarrow> same_input st st''"
  unfolding same_input_def by (cases st; cases st'; cases st'') simp

lemma same_input_fields:
  assumes "same_input st st'"
  shows "inbuf st' = inbuf st" "inptr st' = inptr st" "insize st' = insize st" "block_number st' = block_number st"
    "bb st' = bb st" "bk st' = bk st" "hufts st' = hufts st" "zheap st' = zheap st"
    "zmethod st' = zmethod st" "pkzip st' = pkzip st" "extended st' = extended st"
proof -
  obtain a b c d e where "st' = st\<lparr>window := a, outcnt := b, bytes_out := c, dest_addr := d, zmem := e\<rparr>"
    using assms unfolding same_input_def by blast
  then show "inbuf st' = inbuf st" "inptr st' = inptr st" "insize st' = insize st" "block_number st' = block_number st"
    "bb st' = bb st" "bk st' = bk st" "hufts st' = hufts st" "zheap st' = zheap st"
    "zmethod st' = zmethod st" "pkzip st' = pkzip st" "extended st' = extended st" by simp_all
qed

lemma same_input_flush [simp]: "same_input st (flush_output w st)"
  by (simp add: same_input_def flush_output_def flush_window_def Let_def)

lemma window_flush [simp]: "window (flush_output w st) = window st" "outcnt (flush_output w st) = w"
  by (simp_all add: flush_output_def flush_window_def Let_def)

subsection \<open>Writing the window out\<close>

lemma unat_offset:
  fixes a x :: u64
  assumes "unat a + n < 2 ^ 64"
  shows "unat (x - (a + of_nat n)) = (if n \<le> unat (x - a) then unat (x - a) - n else unat (x - a) + 2 ^ 64 - n)"
proof -
  have n: "unat (of_nat n :: u64) = n" using assms by (simp add: unat_of_nat)
  have "x - (a + of_nat n) = (x - a) - of_nat n" by simp
  also have "unat \<dots> = (if n \<le> unat (x - a) then unat (x - a) - n else unat (x - a) + 2 ^ 64 - n)"
    by (simp only: unat_sub_if' n word_le_nat_alt) simp
  finally show ?thesis .
qed

lemma copy_out_overlay:
  assumes "unat a + length xs + n < 2 ^ 64" "length ys = n" "\<And>i. i < n \<Longrightarrow> win i = ys ! i"
  shows "copy_out (a + of_nat (length xs)) win n (overlay a xs m) = overlay a (xs @ ys) m"
proof
  fix x :: u64
  have "unat (x - a) < 2 ^ 64" using unsigned_less [of "x - a"] by simp
  then show "copy_out (a + of_nat (length xs)) win n (overlay a xs m) x = overlay a (xs @ ys) m x"
    using assms unat_offset [of a "length xs" x] by (auto simp: copy_out_def overlay_def nth_append)
qed

lemma flush_written:
  assumes "written a m xs st" "length ys = unat w" "\<And>i. i < unat w \<Longrightarrow> window st i = ys ! i"
    and "unat a + length xs + unat w < 2 ^ 64"
  shows "written a m (xs @ ys) (flush_output w st)"
proof (cases "w = 0")
  case True
  then show ?thesis using assms(1,2) by (simp add: flush_output_def flush_window_def written_def)
next
  case False
  have w: "(ucast w :: u64) = of_nat (unat w)" by simp
  have d: "dest_addr st = a + of_nat (length xs)" "zmem st = overlay a xs m" "bytes_out st = of_nat (length xs)" "a \<noteq> 0"
    using assms(1) by (simp_all add: written_def)
  have "dest_addr st \<noteq> 0"
  proof
    assume "dest_addr st = 0"
    then have "unat (a + of_nat (length xs)) = 0" by (simp add: d)
    moreover have "unat (a + of_nat (length xs)) = unat a + length xs" using assms(4) by (simp add: unat_word_ariths unat_of_nat)
    ultimately show False using d(4) by (simp add: unat_eq_0)
  qed
  moreover have "copy_out (dest_addr st) (window st) (unat w) (zmem st) = overlay a (xs @ ys) m"
    unfolding d using assms by (intro copy_out_overlay) auto
  ultimately show ?thesis
    using False assms(2,4) d w by (simp add: flush_output_def flush_window_def written_def Let_def)
qed

subsection \<open>Bytes into the window\<close>

lemma in_window_step:
  assumes "in_window os win" "i = length os mod 32768"
  shows "in_window (os @ [c]) (win(i := c))"
  unfolding in_window_def
proof (intro allI impI)
  fix j assume j: "j < length (os @ [c])" "length (os @ [c]) \<le> j + 32768"
  show "(win(i := c)) (j mod 32768) = (os @ [c]) ! j"
  proof (cases "j = length os")
    case False
    then have lt: "j < length os" "length os - j < 32768" using j by simp_all
    have "j mod 32768 \<noteq> length os mod 32768"
    proof
      assume "j mod 32768 = length os mod 32768"
      then have "32768 dvd length os - j" using lt(1) by (metis less_imp_le_nat mod_eq_dvd_iff_nat)
      then show False using lt dvd_imp_le [of 32768 "length os - j"] by simp
    qed
    then show ?thesis using assms lt j(2) by (simp add: in_window_def nth_append)
  qed (simp add: assms(2))
qed

text \<open>The end of a piece of output: the window is written out when it is full.\<close>

definition flush_full :: "u32 \<Rightarrow> zip \<Rightarrow> u32 \<times> zip" where
  "flush_full w st = (if w = WSIZE then (0, flush_output w st) else (w, st))"

lemma flush_full_put_out:
  assumes "in_window os (window st)" "written a m (take B os) st" "B \<le> length os" "32768 dvd B"
    and "unat w = length os - B" "length os - B \<le> 32768" "unat a + length os < 2 ^ 64"
  shows "put_out a m os (fst (flush_full w st)) (snd (flush_full w st)) \<and> same_input st (snd (flush_full w st))"
proof (cases "w = WSIZE")
  case True
  then have w: "unat w = 32768" by (simp add: WSIZE_def)
  then have len: "length os = B + 32768" using assms(3,5) by simp
  have "window st i = drop B os ! i" if "i < 32768" for i
  proof -
    have "(B + i) mod 32768 = i" using assms(4) that by (auto elim!: dvdE)
    then show ?thesis using assms(1) len that by (auto simp: in_window_def dest!: spec [of _ "B + i"])
  qed
  then have "written a m (take B os @ drop B os) (flush_output w st)"
    using assms(2,3,7) w len by (intro flush_written) auto
  moreover have "length os mod 32768 = 0" using len assms(4) by (auto elim!: dvdE)
  ultimately show ?thesis using True assms(1) by (simp add: flush_full_def put_out_def flushed_def)
next
  case False
  then have "unat w \<noteq> 32768" by (simp add: WSIZE_def word_eq_iff_unat)
  then have "length os - B < 32768" using assms(5,6) by simp
  moreover have "length os = B + (length os - B)" using assms(3) by simp
  ultimately have "length os mod 32768 = length os - B"
    using assms(4) by (metis dvd_eq_mod_eq_0 mod_add_left_eq add_0 mod_less)
  then show ?thesis using False assms by (simp add: flush_full_def put_out_def flushed_def)
qed

lemma flushed_bounds: "length os - length os mod 32768 \<le> length os" "32768 dvd length os - length os mod 32768"
  "length os - (length os - length os mod 32768) = length os mod 32768"
  by (simp_all add: minus_mod_eq_mult_div) (metis diff_diff_cancel minus_mod_eq_mult_div mod_less_eq_dividend)

lemma put_window_put_out:
  assumes "put_out a m os (lw l) st" "unat a + length os + 1 < 2 ^ 64"
  shows "\<exists>l' st'. put_window c l st = (l', st') \<and> put_out a m (os @ [c]) (lw l') st' \<and> lb l' = lb l \<and> lk l' = lk l \<and>
    same_input st st'"
proof -
  let ?st = "st\<lparr>window := (window st)(unat (lw l) := c)\<rparr>" and ?B = "length os - length os mod 32768"
  have st: "in_window os (window st)" "unat (lw l) = length os mod 32768" "written a m (take ?B os) st"
    using assms(1) by (simp_all add: put_out_def flushed_def)
  have w: "unat (lw l + 1) = length os mod 32768 + 1"
    using st(2) mod_less_divisor [of 32768 "length os"] by (simp add: unat_word_ariths del: mod_less_divisor)
  have "put_out a m (os @ [c]) (fst (flush_full (lw l + 1) ?st)) (snd (flush_full (lw l + 1) ?st)) \<and>
      same_input ?st (snd (flush_full (lw l + 1) ?st))"
  proof (rule flush_full_put_out)
    show "in_window (os @ [c]) (window ?st)" using in_window_step [OF st(1,2)] by simp
    show "written a m (take ?B (os @ [c])) ?st" using st(3) by (simp add: written_def)
    show "?B \<le> length (os @ [c])" "32768 dvd ?B" using flushed_bounds [of os] by simp_all
    show "unat (lw l + 1) = length (os @ [c]) - ?B" using w flushed_bounds(1,3) [of os] by simp
    show "length (os @ [c]) - ?B \<le> 32768"
      using flushed_bounds(1,3) [of os] mod_less_divisor [of 32768 "length os"] by simp
    show "unat a + length (os @ [c]) < 2 ^ 64" using assms(2) by simp
  qed
  moreover have "put_window c l st = (l\<lparr>lw := fst (flush_full (lw l + 1) ?st)\<rparr>, snd (flush_full (lw l + 1) ?st))"
    by (simp add: put_window_def flush_full_def Let_def)
  moreover have "same_input st ?st" by (simp add: same_input_def)
  ultimately show ?thesis using same_input_trans by auto
qed

subsection \<open>The copy\<close>

text \<open>\<open>n\<close> bytes, each the one \<open>D\<close> bytes before.\<close>

fun lz :: "nat \<Rightarrow> nat \<Rightarrow> u8 list \<Rightarrow> u8 list" where
  "lz D 0 os = os"
| "lz D (Suc n) os = lz D n (os @ [os ! (length os - D)])"

lemma length_lz [simp]: "length (lz D n os) = length os + n"
  by (induction n arbitrary: os) simp_all

lemma lz_add: "lz D (a + b) os = lz D b (lz D a os)"
  by (induction a arbitrary: os) simp_all

lemma take_lz: "k \<le> length os \<Longrightarrow> take k (lz D n os) = take k os"
  by (induction n arbitrary: os) simp_all

lemma slow_copy_lz:
  assumes "in_window os win" "1 \<le> D" "D \<le> length os" "D \<le> 32768" "w + n \<le> 32768" "d + n \<le> 32768"
    and "n \<noteq> 0 \<Longrightarrow> w = length os mod 32768 \<and> d = (length os - D) mod 32768"
  shows "in_window (lz D n os) (slow_copy w d n win)"
  using assms
proof (induction n arbitrary: os win w d)
  case (Suc n)
  then have wd: "w = length os mod 32768" "d = (length os - D) mod 32768" by simp_all
  have "win d = os ! (length os - D)"
    using Suc.prems(1-4) unfolding wd by (auto simp: in_window_def)
  then have step: "in_window (os @ [os ! (length os - D)]) (win(w := win d))"
    using in_window_step [OF Suc.prems(1) wd(1), of "win d"] by simp
  have "Suc w = length (os @ [os ! (length os - D)]) mod 32768 \<and> Suc d = (length (os @ [os ! (length os - D)]) - D) mod 32768"
    if "n \<noteq> 0"
  proof -
    have "Suc w < 32768" "Suc d < 32768" using Suc.prems(5,6) that by simp_all
    moreover have "Suc (length os - D) = length os + 1 - D" using Suc.prems(3) by simp
    ultimately show ?thesis
      using wd by (metis Suc_eq_plus1 length_append_singleton mod_Suc_eq mod_less)
  qed
  then have "in_window (lz D n (os @ [os ! (length os - D)])) (slow_copy (Suc w) (Suc d) n (win(w := win d)))"
    using Suc.prems(2-6) by (intro Suc.IH [OF step]) simp_all
  then show ?case by simp
qed simp

lemma window_copy_slow:
  "d + n \<le> w \<or> w < d \<Longrightarrow> window_copy w d n win = slow_copy w d n win"
proof (induction n arbitrary: w d win)
  case 0
  then show ?case by (auto simp: window_copy_def fun_eq_iff)
next
  case (Suc n)
  have "window_copy w d (Suc n) win = window_copy (Suc w) (Suc d) n (win(w := win d))"
  proof
    fix i
    show "window_copy w d (Suc n) win i = window_copy (Suc w) (Suc d) n (win(w := win d)) i"
      using Suc.prems by (cases "i = w") (auto simp: window_copy_def Suc_diff_Suc)
  qed
  also have "\<dots> = slow_copy (Suc w) (Suc d) n (win(w := win d))" using Suc.prems by (intro Suc.IH) auto
  finally show ?case by simp
qed

lemma copy_piece:
  fixes w d e :: u32
  assumes "unat w < 32768" "unat d < 32768"
  shows "(if w - d \<ge> e then window_copy (unat w) (unat d) (unat e) win else slow_copy (unat w) (unat d) (unat e) win) =
    slow_copy (unat w) (unat d) (unat e) win"
proof (cases "w - d \<ge> e")
  case True
  have "unat d + unat e \<le> unat w \<or> unat w < unat d"
    using True by (cases "unat d \<le> unat w") (simp_all add: word_le_nat_alt unat_sub_no_wrap)
  then show ?thesis by (simp add: window_copy_slow)
qed simp

lemma copy_loop_lz:
  assumes "put_out a m os (lw l) st" "1 \<le> D" "D \<le> length os" "D \<le> 32768"
    and "unat d mod 32768 = (length os - D) mod 32768" "unat a + length os + unat n < 2 ^ 64"
  shows "\<exists>l' st'. copy_loop n d l st = Some (l', st') \<and> put_out a m (lz D (unat n) os) (lw l') st' \<and>
    lb l' = lb l \<and> lk l' = lk l \<and> same_input st st'"
  using assms
proof (induction "unat n" arbitrary: n d l st os rule: less_induct)
  case less
  let ?B = "length os - length os mod 32768"
  define d' where "d' = d AND (WSIZE - 1)"
  define e0 where "e0 = WSIZE - (if d' > lw l then d' else lw l)"
  define e where "e = (if e0 > n then n else e0)"
  let ?st = "st\<lparr>window := slow_copy (unat (lw l)) (unat d') (unat e) (window st)\<rparr>"
  let ?f = "flush_full (lw l + e) ?st"
  have st: "in_window os (window st)" "unat (lw l) = length os mod 32768" "written a m (take ?B os) st"
    using less.prems(1) by (simp_all add: put_out_def flushed_def)
  have d': "unat d' = (length os - D) mod 32768"
  proof -
    have "WSIZE - 1 = mask 15" by (simp add: WSIZE_def mask_eq_exp_minus_1)
    then show ?thesis using less.prems(5) unat_and_mask [of d 15] by (simp add: d'_def)
  qed
  have lt: "unat (lw l) < 32768" "unat d' < 32768" by (simp_all add: st(2) d')
  have e0: "unat e0 = 32768 - max (unat d') (unat (lw l))"
    unfolding e0_def WSIZE_def using lt by (auto simp: unat_sub_no_wrap max_def word_less_nat_alt)
  have e: "unat e = min (unat e0) (unat n)" by (auto simp: e_def min_def word_less_nat_alt)
  have we: "unat (lw l) + unat e \<le> 32768" "unat d' + unat e \<le> 32768" using e e0 lt by simp_all
  have win: "in_window (lz D (unat e) os) (window ?st)"
    using slow_copy_lz [OF st(1) less.prems(2-4) we] st(2) d' by simp
  have unw: "unat (lw l + e) = unat (lw l) + unat e" using we by (simp add: unat_add_no_wrap)
  have piece: "put_out a m (lz D (unat e) os) (fst ?f) (snd ?f) \<and> same_input ?st (snd ?f)"
  proof (rule flush_full_put_out [OF win])
    show "written a m (take ?B (lz D (unat e) os)) ?st" using st(3) flushed_bounds(1) [of os] by (simp add: written_def take_lz)
    show "?B \<le> length (lz D (unat e) os)" "32768 dvd ?B" using flushed_bounds [of os] by simp_all
    show "unat (lw l + e) = length (lz D (unat e) os) - ?B" "length (lz D (unat e) os) - ?B \<le> 32768"
      using unw st(2) we(1) flushed_bounds(1,3) [of os] by simp_all
    show "unat a + length (lz D (unat e) os) < 2 ^ 64" using less.prems(6) e by simp
  qed
  have same: "same_input st (snd ?f)" using piece same_input_trans [of st ?st] by (simp add: same_input_def)
  let ?l = "l\<lparr>lw := fst ?f\<rparr>"
  have unfold: "copy_loop n d l st =
      (if n - e \<noteq> 0 then copy_loop (n - e) (d' + e) ?l (snd ?f) else Some (?l, snd ?f))"
    unfolding copy_loop.simps [of n d l st] Let_def d'_def [symmetric] e0_def [symmetric] e_def [symmetric]
      copy_piece [OF lt] flush_full_def
    by (simp split: if_splits)
  have ne: "unat (n - e) = unat n - unat e" using e by (simp add: unat_sub_no_wrap)
  show ?case
  proof (cases "n - e = 0")
    case True
    have "unat (n - e) = 0" unfolding True by simp
    then have n: "unat n = unat e" using ne e by linarith
    have "copy_loop n d l st = Some (?l, snd ?f)" using unfold True by (simp only: simp_thms if_False)
    then show ?thesis unfolding n
      by (intro exI [of _ ?l] exI [of _ "snd ?f"]) (use piece same in simp)
  next
    case False
    have "unat n \<noteq> 0" using False ne e by (auto simp: unat_eq_0)
    moreover have "0 < unat e0" using e0 lt by simp
    ultimately have e1: "0 < unat e" using e by simp
    have smaller: "unat (n - e) < unat n" using ne e1 e by simp
    have "unat (d' + e) mod 32768 = (length (lz D (unat e) os) - D) mod 32768"
    proof -
      have "unat (d' + e) = unat d' + unat e" using we by (simp add: unat_add_no_wrap)
      moreover have "length (lz D (unat e) os) - D = (length os - D) + unat e" using less.prems(3) by simp
      ultimately show ?thesis by (simp add: d' mod_add_left_eq)
    qed
    note next_d = this
    have "unat a + length (lz D (unat e) os) + unat (n - e) < 2 ^ 64" "put_out a m (lz D (unat e) os) (lw ?l) (snd ?f)"
        "D \<le> length (lz D (unat e) os)"
      using less.prems(3,6) ne e piece by simp_all
    note IH' = less.hyps [OF smaller this(2) less.prems(2) this(3) less.prems(4) next_d this(1)]
    then obtain l' st' where IH: "copy_loop (n - e) (d' + e) ?l (snd ?f) = Some (l', st')"
        "put_out a m (lz D (unat (n - e)) (lz D (unat e) os)) (lw l') st'" "lb l' = lb l" "lk l' = lk l"
        "same_input (snd ?f) st'"
      by auto
    have "unat n = unat e + unat (n - e)" using ne e by linarith
    then have "lz D (unat n) os = lz D (unat (n - e)) (lz D (unat e) os)" by (simp only: lz_add)
    moreover have "copy_loop n d l st = Some (l', st')" using unfold False IH(1) by (simp only: simp_thms if_True)
    ultimately show ?thesis using IH same_input_trans [OF same IH(5)] by (intro exI [of _ l'] exI [of _ st']) simp
  qed
qed

end
