(* ===== verification/Tokens.thy ===== *)
theory Tokens
  imports Inflate_Codes Window
begin

text \<open>
  The codes of a block as a list of tokens, literals and matches: \<open>inflate_codes\<close> on the bits of their
  codewords puts out what the tokens expand to.
\<close>

subsection \<open>Tokens and their bits\<close>

text \<open>A match has the number of its length code, its extra bits, the number of the distance code and its extra bits.\<close>

datatype token = Lit u8 | Match nat nat nat nat

definition codeword :: "nat list \<Rightarrow> nat \<Rightarrow> nat" where
  "codeword b i = rv (b ! i) (canonical b i)"

fun expand :: "token list \<Rightarrow> u8 list \<Rightarrow> u8 list" where
  "expand [] os = os"
| "expand (Lit c # ts) os = expand ts (os @ [c])"
| "expand (Match i x j y # ts) os = expand ts (lz (cpdist ! j + y) (cplens ! i + x) os)"

fun tokens_ok :: "nat list \<Rightarrow> nat list \<Rightarrow> token list \<Rightarrow> u8 list \<Rightarrow> bool" where
  "tokens_ok ll dl [] os = True"
| "tokens_ok ll dl (Lit c # ts) os = (ll ! unat c \<noteq> 0 \<and> tokens_ok ll dl ts (os @ [c]))"
| "tokens_ok ll dl (Match i x j y # ts) os =
     (i < 29 \<and> 257 + i < length ll \<and> ll ! (257 + i) \<noteq> 0 \<and> j < 30 \<and> j < length dl \<and> dl ! j \<noteq> 0 \<and>
      x < 2 ^ (cplext ! i) \<and> y < 2 ^ (cpdext ! j) \<and> cpdist ! j + y \<le> length os \<and>
      tokens_ok ll dl ts (lz (cpdist ! j + y) (cplens ! i + x) os))"

text \<open>A sequence of numbers, each with its number of bits.\<close>

type_synonym fields = "(nat \<times> nat) list"

fun token_fields :: "nat list \<Rightarrow> nat list \<Rightarrow> token \<Rightarrow> fields" where
  "token_fields ll dl (Lit c) = [(ll ! unat c, codeword ll (unat c))]"
| "token_fields ll dl (Match i x j y) =
     [(ll ! (257 + i), codeword ll (257 + i)), (cplext ! i, x), (dl ! j, codeword dl j), (cpdext ! j, y)]"

definition codes_fields :: "nat list \<Rightarrow> nat list \<Rightarrow> token list \<Rightarrow> fields" where
  "codes_fields ll dl ts = concat (map (token_fields ll dl) ts) @ [(ll ! 256, codeword ll 256)]"

fun holds :: "contents \<Rightarrow> nat \<Rightarrow> fields \<Rightarrow> bool" where
  "holds f P [] = True"
| "holds f P ((k, x) # fs) = (fnum f P k = x \<and> holds f (P + k) fs)"

definition width :: "fields \<Rightarrow> nat" where
  "width fs = sum_list (map fst fs)"

lemma width_simps [simp]: "width [] = 0" "width ((k, x) # fs) = k + width fs" "width (fs @ gs) = width fs + width gs"
  by (simp_all add: width_def)

lemma holds_append [simp]: "holds f P (fs @ gs) \<longleftrightarrow> holds f P fs \<and> holds f (P + width fs) gs"
  by (induction f P fs rule: holds.induct) (auto simp: add.assoc)

lemma expand_length: "length os \<le> length (expand ts os)"
proof (induction ts os rule: expand.induct)
  case (2 c ts os)
  then show ?case by simp
next
  case (3 i x j y ts os)
  then show ?case by simp
qed simp

subsection \<open>Reading and writing apart\<close>

definition same_rest :: "zip \<Rightarrow> zip \<Rightarrow> bool" where
  "same_rest st st' \<longleftrightarrow> zheap st' = zheap st \<and> hufts st' = hufts st \<and> bb st' = bb st \<and> bk st' = bk st \<and>
     zmethod st' = zmethod st \<and> pkzip st' = pkzip st \<and> extended st' = extended st"

lemma same_rest_refl [simp]: "same_rest st st"
  by (simp add: same_rest_def)

lemma same_rest_trans: "same_rest st st' \<Longrightarrow> same_rest st' st'' \<Longrightarrow> same_rest st st''"
  by (simp add: same_rest_def)

lemma same_rest_output: "same_output st st' \<Longrightarrow> same_rest st st'"
  using same_output_fields [of st st'] by (simp add: same_rest_def)

lemma same_rest_input: "same_input st st' \<Longrightarrow> same_rest st st'"
  using same_input_fields [of st st'] by (simp add: same_rest_def)

lemma at_bit_same_input:
  assumes "at_bit f l st P" "same_input st st'" "lb l' = lb l" "lk l' = lk l"
  shows "at_bit f l' st' P"
  using assms same_input_fields [OF assms(2)] by (simp add: at_bit_def at_byte_def)

lemma put_out_same_output:
  assumes "put_out a m os w st" "same_output st st'"
  shows "put_out a m os w st'"
  using assms same_output_fields [OF assms(2)] by (simp add: put_out_def written_def)

subsection \<open>One token\<close>

lemma decode_symbol:
  assumes "decodes (zheap st) q bl b lf" "reads f rd" "bl \<le> 9" "i < length b" "b ! i \<noteq> 0"
    and "fnum f P (b ! i) = codeword b i" "fst (lf i) \<le> 16" "at_bit f l st P" "lk l \<le> 15"
  shows "\<exists>r l' st'. decode_entry rd (Some q) bl l st = Some (Some r, l', st') \<and> (h_e r, h_v r) = lf i \<and>
    at_bit f l' st' (P + b ! i) \<and> lk l' \<le> 15 \<and> lw l' = lw l \<and> same_output st st'"
proof -
  let ?v = "fnum f P (b ! i + 9)"
  have "?v mod 2 ^ (b ! i) = rv (b ! i) (canonical b i)"
    using assms(6) by (simp add: fnum_mod codeword_def)
  then obtain r where r: "huft_walk bl (zheap st) q bl 0 ?v = Some (r, b ! i)" "(h_e r, h_v r) = lf i"
    using assms(1,4,5) unfolding decodes_def by blast
  have "h_e r \<le> 16" using assms(7) r(2) by (metis fst_conv)
  then show ?thesis
    using decode_entry_walk [OF r(1) assms(2,3) refl _ assms(8,9)] r(2) by blast
qed

text \<open>Extra bits.\<close>

lemma extra_bits:
  assumes "reads f rd" "at_bit f l st P" "lk l \<le> 15" "n \<le> 13" "fnum f P n = x"
  shows "\<exists>l' st'. needbits rd n l st = (l', st') \<and> unat (low_bits n l') = x \<and> at_bit f (dumpbits n l') st' (P + n) \<and>
    lk (dumpbits n l') \<le> 15 \<and> lw (dumpbits n l') = lw l \<and> lw l' = lw l \<and> same_output st st'"
proof -
  obtain l' st' where n: "needbits rd n l st = (l', st')" "at_bit f l' st' P" "n \<le> lk l'"
      "lk l' \<le> max (lk l) (n + 7)" "lw l' = lw l" "same_output st st'"
    using needbits_at [OF assms(1,2), of n] assms(4) by auto
  show ?thesis
    using n dumpbits_at [OF n(2,3)] bits_at(2) [OF n(2,3)] assms(3-5) by (auto simp: max_def split: if_splits)
qed

lemma distance_back:
  fixes w z :: u32
  assumes "unat w = n mod 32768" "unat z = D" "D \<le> n" "D \<le> 32768"
  shows "unat (w - z) mod 32768 = (n - D) mod 32768"
proof -
  define r q where "r = n mod 32768" and "q = n div 32768"
  then have n: "n = 32768 * q + r" by simp
  show ?thesis
  proof (cases "D \<le> r")
    case True
    then have "unat (w - z) = r - D" using assms by (simp add: unat_sub_no_wrap r_def)
    moreover have "n - D = 32768 * q + (r - D)" using True n by simp
    ultimately show ?thesis by simp
  next
    case False
    then obtain q' where q': "q = Suc q'" using assms(3) n by (cases q) auto
    have "unat (w - z) = r + 2 ^ 32 - D"
      using assms False by (simp add: unat_sub_if' word_le_nat_alt r_def)
    also have "\<dots> = 32768 * 131071 + (32768 + r - D)" using assms(4) by simp
    finally have "unat (w - z) mod 32768 = (32768 + r - D) mod 32768" by (simp only: mod_mult_self4)
    moreover have "n - D = 32768 * q' + (32768 + r - D)" using assms(4) n q' by simp
    ultimately show ?thesis by simp
  qed
qed

lemma table_ranges:
  "i < 29 \<Longrightarrow> cplext ! i \<le> 5 \<and> cplens ! i + 2 ^ (cplext ! i) \<le> 259"
  "j < 30 \<Longrightarrow> cpdext ! j \<le> 13 \<and> 1 \<le> cpdist ! j \<and> cpdist ! j + 2 ^ (cpdext ! j) \<le> 32769"
proof -
  have "\<forall>i\<in>set [0..<29]. cplext ! i \<le> 5 \<and> cplens ! i + 2 ^ (cplext ! i) \<le> 259" by code_simp
  moreover assume "i < 29"
  then have "i \<in> set [0..<29]" unfolding set_upt by simp
  ultimately show "cplext ! i \<le> 5 \<and> cplens ! i + 2 ^ (cplext ! i) \<le> 259" by (rule bspec)
next
  have "list_all2 (\<lambda>d e. e \<le> 13 \<and> 1 \<le> d \<and> d + 2 ^ e \<le> 32769) cpdist cpdext"
    by (simp add: cpdist_def cpdext_def)
  moreover assume "j < 30"
  then have "j < length cpdist" by (simp add: cpdist_def)
  ultimately show "cpdext ! j \<le> 13 \<and> 1 \<le> cpdist ! j \<and> cpdist ! j + 2 ^ (cpdext ! j) \<le> 32769"
    by (rule list_all2_nthD)
qed

lemma copy_match_token:
  assumes tab: "decodes (zheap st) td bd dl (leaf_fields 0 cpdist cpdext)" "reads f rd" "bd \<le> 9"
    and at: "at_bit f l st P" "lk l \<le> 15" "put_out a m os (lw l) st" "unat a + length os + (cplens ! i + x) < 2 ^ 64"
    and t: "h_e t = of_nat (cplext ! i)" "h_v t = Num (of_nat (cplens ! i))"
    and ok: "i < 29" "x < 2 ^ (cplext ! i)" "j < 30" "j < length dl" "dl ! j \<noteq> 0" "y < 2 ^ (cpdext ! j)" "cpdist ! j + y \<le> length os"
    and fs: "holds f P [(cplext ! i, x), (dl ! j, codeword dl j), (cpdext ! j, y)]"
  shows "\<exists>l' st'. copy_match rd (Some td) bd t l st = Some (True, l', st') \<and>
    at_bit f l' st' (P + width [(cplext ! i, x), (dl ! j, codeword dl j), (cpdext ! j, y)]) \<and> lk l' \<le> 15 \<and>
    put_out a m (lz (cpdist ! j + y) (cplens ! i + x) os) (lw l') st' \<and> same_rest st st'"
proof -
  note len = table_ranges(1) [OF ok(1)] and dist = table_ranges(2) [OF ok(3)]
  let ?P1 = "P + cplext ! i" let ?P2 = "?P1 + dl ! j"
  have e1: "unat (h_e t) = cplext ! i" unfolding t(1) using len by (simp add: unat_of_nat)
  obtain l1 st1 where n1: "needbits rd (cplext ! i) l st = (l1, st1)" "unat (low_bits (cplext ! i) l1) = x"
      "at_bit f (dumpbits (cplext ! i) l1) st1 ?P1" "lk (dumpbits (cplext ! i) l1) \<le> 15"
      "lw (dumpbits (cplext ! i) l1) = lw l" "same_output st st1"
    using extra_bits [OF tab(2) at(1,2), of "cplext ! i" x] len fs by auto
  have "decodes (zheap st1) td bd dl (leaf_fields 0 cpdist cpdext)"
    using tab(1) same_output_fields(9) [OF n1(6)] by simp
  moreover have "fst (leaf_fields 0 cpdist cpdext j) \<le> 16"
    using dist by (simp add: leaf_fields_def word_le_nat_alt unat_of_nat)
  moreover have "fnum f ?P1 (dl ! j) = codeword dl j" using fs by simp
  ultimately obtain r l2 st2 where s: "decode_entry rd (Some td) bd (dumpbits (cplext ! i) l1) st1 = Some (Some r, l2, st2)"
      "(h_e r, h_v r) = leaf_fields 0 cpdist cpdext j" "at_bit f l2 st2 ?P2" "lk l2 \<le> 15" "lw l2 = lw l" "same_output st1 st2"
    using decode_symbol [OF _ tab(2,3) ok(4,5) _ _ n1(3,4)] n1(5) by metis
  have e2: "unat (h_e r) = cpdext ! j" "h_v r = Num (of_nat (cpdist ! j))"
    using s(2) dist by (simp_all add: leaf_fields_def unat_of_nat)
  obtain l3 st3 where n3: "needbits rd (cpdext ! j) l2 st2 = (l3, st3)" "unat (low_bits (cpdext ! j) l3) = y"
      "at_bit f (dumpbits (cpdext ! j) l3) st3 (?P2 + cpdext ! j)" "lk (dumpbits (cpdext ! j) l3) \<le> 15"
      "lw (dumpbits (cpdext ! j) l3) = lw l2" "lw l3 = lw l2" "same_output st2 st3"
    using extra_bits [OF tab(2) s(3,4), of "cpdext ! j" y] dist fs by auto
  have so: "same_output st st3" using n1(6) s(6) n3(7) same_output_trans by blast
  let ?n = "ucast (of_nat (cplens ! i) :: u16) + low_bits (cplext ! i) l1 :: u32"
  let ?d = "lw l3 - ucast (of_nat (cpdist ! j) :: u16) - low_bits (cpdext ! j) l3"
  have small: "cplens ! i < 2 ^ 16" "cpdist ! j < 2 ^ 16" "cplens ! i + x < 2 ^ 16" "cpdist ! j + y \<le> 32768"
    using len dist ok(2,6) by auto
  have nat: "unat (ucast (of_nat (cplens ! i) :: u16) :: u32) = cplens ! i" "unat (ucast (of_nat (cpdist ! j) :: u16) :: u32) = cpdist ! j"
    using small by (simp_all add: unat_ucast_mod unat_of_nat)
  have n: "unat ?n = cplens ! i + x" using nat n1(2) small by (simp add: unat_add_no_wrap)
  have "unat (ucast (of_nat (cpdist ! j) :: u16) + low_bits (cpdext ! j) l3) = cpdist ! j + y"
    using nat n3(2) small by (simp add: unat_add_no_wrap)
  moreover have "unat (lw l3) = length os mod 32768" using at(3) n3(6) s(5) by (simp add: put_out_def)
  ultimately have d: "unat ?d mod 32768 = (length os - (cpdist ! j + y)) mod 32768"
    using distance_back [of "lw l3" "length os" "ucast (of_nat (cpdist ! j) :: u16) + low_bits (cpdext ! j) l3"] ok(7) small
    by (simp add: diff_diff_eq)
  have "put_out a m os (lw (dumpbits (cpdext ! j) l3)) st3"
    using put_out_same_output [OF at(3) so] n3(5) s(5) by simp
  then obtain l' st' where c: "copy_loop ?n ?d (dumpbits (cpdext ! j) l3) st3 = Some (l', st')"
      "put_out a m (lz (cpdist ! j + y) (cplens ! i + x) os) (lw l') st'"
      "lb l' = lb (dumpbits (cpdext ! j) l3)" "lk l' = lk (dumpbits (cpdext ! j) l3)" "same_input st3 st'"
    using copy_loop_lz [of a m os "dumpbits (cpdext ! j) l3" st3 "cpdist ! j + y" ?d ?n] d n ok(7) dist small at(4) by auto
  have "copy_match rd (Some td) bd t l st = Some (True, l', st')"
    using n1(1) s(1) n3(1) c(1) by (simp add: copy_match_def e1 e2 t(2) v_n_def Let_def)
  moreover have "at_bit f l' st' (?P2 + cpdext ! j)" by (rule at_bit_same_input [OF n3(3) c(5,3,4)])
  moreover have "same_rest st st'"
    using same_rest_trans [OF same_rest_output [OF so] same_rest_input [OF c(5)]] .
  ultimately show ?thesis using c(2,4) n3(4) by (auto simp: add.assoc)
qed

subsection \<open>All tokens of a block\<close>

definition literal_tables :: "hheap \<Rightarrow> nat \<Rightarrow> nat \<Rightarrow> nat list \<Rightarrow> bool" where
  "literal_tables hp tl' bl ll \<longleftrightarrow> decodes hp tl' bl ll (leaf_fields 257 cplens cplext) \<and> bl \<le> 9 \<and> 257 \<le> length ll \<and> ll ! 256 \<noteq> 0"

definition distance_tables :: "hheap \<Rightarrow> nat \<Rightarrow> nat \<Rightarrow> nat list \<Rightarrow> bool" where
  "distance_tables hp td bd dl \<longleftrightarrow> decodes hp td bd dl (leaf_fields 0 cpdist cpdext) \<and> bd \<le> 9"

lemma leaf_e: "unat (of_nat (cplext ! i) :: u8) = cplext ! i" if "i < 29"
  using table_ranges(1) [OF that] by (simp add: unat_of_nat)

lemma codes_loop_tokens:
  assumes "tokens_ok ll dl ts os" "holds f P (codes_fields ll dl ts)"
    and "literal_tables (zheap st) tl' bl ll" "distance_tables (zheap st) td bd dl" "reads f rd"
    and "at_bit f l st P" "lk l \<le> 15" "put_out a m os (lw l) st" "unat a + length (expand ts os) < 2 ^ 64"
  shows "\<exists>l' st'. codes_loop rd (Some tl') (Some td) bl bd l st = Some (True, l', st') \<and>
    at_bit f l' st' (P + width (codes_fields ll dl ts)) \<and> lk l' \<le> 15 \<and> put_out a m (expand ts os) (lw l') st' \<and> same_rest st st'"
  using assms
proof (induction ts arbitrary: os P l st)
  case Nil
  note lit = Nil.prems(3) [unfolded literal_tables_def]
  have "leaf_fields 257 cplens cplext 256 = (15, Num (of_nat 256))" by (simp add: leaf_fields_def)
  then obtain r l' st' where s: "decode_entry rd (Some tl') bl l st = Some (Some r, l', st')" "h_e r = 15"
      "at_bit f l' st' (P + ll ! 256)" "lk l' \<le> 15" "lw l' = lw l" "same_output st st'"
    using decode_symbol [of st tl' bl ll "leaf_fields 257 cplens cplext" f rd 256 P l] lit Nil.prems(2,5-7) by (auto simp: codes_fields_def)
  then have "codes_loop rd (Some tl') (Some td) bl bd l st = Some (True, l', st')"
    by (simp add: codes_loop.simps [of rd "Some tl'"])
  then show ?case
    using s put_out_same_output [OF Nil.prems(8) s(6)] same_rest_output [OF s(6)] by (auto simp: codes_fields_def)
next
  case (Cons t ts)
  note lit = Cons.prems(3) [unfolded literal_tables_def] and dist = Cons.prems(4) [unfolded distance_tables_def]
  have fs: "codes_fields ll dl (t # ts) = token_fields ll dl t @ codes_fields ll dl ts" by (simp add: codes_fields_def)
  have IH: "\<exists>l' st'. codes_loop rd (Some tl') (Some td) bl bd l1 st1 = Some (True, l', st') \<and>
      at_bit f l' st' (P + width (codes_fields ll dl (t # ts))) \<and> lk l' \<le> 15 \<and> put_out a m (expand ts os') (lw l') st' \<and> same_rest st st'"
    if "tokens_ok ll dl ts os'" "at_bit f l1 st1 (P + width (token_fields ll dl t))" "lk l1 \<le> 15" "put_out a m os' (lw l1) st1"
      "unat a + length (expand ts os') < 2 ^ 64" "same_rest st st1" for os' l1 st1
  proof -
    have "zheap st1 = zheap st" using that(6) by (simp add: same_rest_def)
    then show ?thesis
      using Cons.IH [OF that(1) _ _ _ Cons.prems(5) that(2-5)] Cons.prems(2-4) same_rest_trans [OF that(6)]
      by (fastforce simp: fs add.assoc)
  qed
  show ?case
  proof (cases t)
    case (Lit c)
    have lf: "leaf_fields 257 cplens cplext (unat c) = (16, Num (of_nat (unat c)))"
      using unsigned_less [of c, where 'a = nat] by (simp add: leaf_fields_def)
    have i: "unat c < length ll" "ll ! unat c \<noteq> 0"
      using lit Cons.prems(1) unsigned_less [of c, where 'a = nat] by (auto simp: Lit)
    have fs': "fnum f P (ll ! unat c) = codeword ll (unat c)" using Cons.prems(2) unfolding fs by (simp add: Lit)
    obtain r l1 st1 where s: "decode_entry rd (Some tl') bl l st = Some (Some r, l1, st1)" "h_e r = 16" "h_v r = Num (of_nat (unat c))"
        "at_bit f l1 st1 (P + ll ! unat c)" "lk l1 \<le> 15" "lw l1 = lw l" "same_output st st1"
      using decode_symbol [of st tl' bl ll "leaf_fields 257 cplens cplext" f rd "unat c" P l] lit i lf fs' Cons.prems(5-7) by auto
    have len: "unat a + length (expand ts (os @ [c])) < 2 ^ 64" using Cons.prems(9) by (simp add: Lit)
    then have "unat a + length os + 1 < 2 ^ 64" using expand_length [of "os @ [c]" ts] by simp
    moreover have "put_out a m os (lw l1) st1" using put_out_same_output [OF Cons.prems(8) s(7)] s(6) by simp
    ultimately obtain l2 st2 where w: "put_window c l1 st1 = (l2, st2)" "put_out a m (os @ [c]) (lw l2) st2"
        "lb l2 = lb l1" "lk l2 = lk l1" "same_input st1 st2"
      using put_window_put_out by blast
    have "(ucast (of_nat (unat c) :: u16) :: u8) = c"
      using unsigned_less [of c, where 'a = nat] by (simp add: word_eq_iff_unat unat_ucast_mod)
    then have "codes_loop rd (Some tl') (Some td) bl bd l st = codes_loop rd (Some tl') (Some td) bl bd l2 st2"
      using s(1-3) w(1) by (simp add: codes_loop.simps [of rd "Some tl'" "Some td" bl bd l st] v_n_def)
    moreover have "same_rest st st2" using same_rest_trans [OF same_rest_output [OF s(7)] same_rest_input [OF w(5)]] .
    ultimately show ?thesis
      using IH [of "os @ [c]" l2 st2] at_bit_same_input [OF s(4) w(5,3,4)] w s(5) Cons.prems(1) len by (simp add: Lit)
  next
    case (Match i x j y)
    have ok: "i < 29" "257 + i < length ll" "ll ! (257 + i) \<noteq> 0" "j < 30" "j < length dl" "dl ! j \<noteq> 0"
        "x < 2 ^ (cplext ! i)" "y < 2 ^ (cpdext ! j)" "cpdist ! j + y \<le> length os"
        "tokens_ok ll dl ts (lz (cpdist ! j + y) (cplens ! i + x) os)"
      using Cons.prems(1) by (simp_all add: Match)
    have lf: "leaf_fields 257 cplens cplext (257 + i) = (of_nat (cplext ! i), Num (of_nat (cplens ! i)))"
      by (simp add: leaf_fields_def)
    have le: "fst (leaf_fields 257 cplens cplext (257 + i)) \<le> 16"
      using table_ranges(1) [OF ok(1)] leaf_e [OF ok(1)] by (simp add: leaf_fields_def word_le_nat_alt)
    have fs': "fnum f P (ll ! (257 + i)) = codeword ll (257 + i)"
        "holds f (P + ll ! (257 + i)) [(cplext ! i, x), (dl ! j, codeword dl j), (cpdext ! j, y)]"
      using Cons.prems(2) unfolding fs by (simp_all add: Match)
    obtain r l1 st1 where s: "decode_entry rd (Some tl') bl l st = Some (Some r, l1, st1)"
        "h_e r = of_nat (cplext ! i)" "h_v r = Num (of_nat (cplens ! i))"
        "at_bit f l1 st1 (P + ll ! (257 + i))" "lk l1 \<le> 15" "lw l1 = lw l" "same_output st st1"
      using decode_symbol [of st tl' bl ll "leaf_fields 257 cplens cplext" f rd "257 + i" P l] lit lf ok(2,3) fs'(1) le
        Cons.prems(5-7) by auto
    have len: "unat a + length (expand ts (lz (cpdist ! j + y) (cplens ! i + x) os)) < 2 ^ 64"
      using Cons.prems(9) by (simp add: Match)
    then have "unat a + length os + (cplens ! i + x) < 2 ^ 64"
      using expand_length [of "lz (cpdist ! j + y) (cplens ! i + x) os" ts] by simp
    moreover have "put_out a m os (lw l1) st1" using put_out_same_output [OF Cons.prems(8) s(7)] s(6) by simp
    moreover have "decodes (zheap st1) td bd dl (leaf_fields 0 cpdist cpdext)" using dist same_output_fields(9) [OF s(7)] by simp
    ultimately obtain l2 st2 where c: "copy_match rd (Some td) bd r l1 st1 = Some (True, l2, st2)"
        "at_bit f l2 st2 (P + ll ! (257 + i) + width [(cplext ! i, x), (dl ! j, codeword dl j), (cpdext ! j, y)])"
        "lk l2 \<le> 15" "put_out a m (lz (cpdist ! j + y) (cplens ! i + x) os) (lw l2) st2" "same_rest st1 st2"
      using copy_match_token [OF _ Cons.prems(5) _ s(4,5) _ _ s(2,3) ok(1,7,4-6,8,9) fs'(2)] dist by blast
    have "h_e r \<noteq> 16" "h_e r \<noteq> 15"
      using table_ranges(1) [OF ok(1)] leaf_e [OF ok(1)] s(2) by (auto simp: word_eq_iff_unat)
    then have "codes_loop rd (Some tl') (Some td) bl bd l st = codes_loop rd (Some tl') (Some td) bl bd l2 st2"
      using s(1) c(1) by (simp add: codes_loop.simps [of rd "Some tl'" "Some td" bl bd l st])
    moreover have "same_rest st st2" using same_rest_trans [OF same_rest_output [OF s(7)] c(5)] .
    ultimately show ?thesis
      using IH [OF ok(10) _ c(3,4) len] c(2) by (simp add: Match add.assoc)
  qed
qed

end
