(* ===== verification/Inflate_Blocks.thy ===== *)
theory Inflate_Blocks
  imports Tokens
begin

text \<open>
  The blocks of a compressed file: stored, with the fixed codes, and with codes of their own.
\<close>

subsection \<open>Between blocks\<close>

text \<open>The state at bit \<open>P\<close> of the file with the output \<open>os\<close>.\<close>

definition ready :: "contents \<Rightarrow> u64 \<Rightarrow> (u64 \<Rightarrow> u8) \<Rightarrow> u8 list \<Rightarrow> nat \<Rightarrow> zip \<Rightarrow> bool" where
  "ready f a m os P st \<longleftrightarrow> at_bit f (load st) st P \<and> bk st \<le> 15 \<and> put_out a m os (outcnt st) st"

definition sound :: "hheap \<Rightarrow> bool" where
  "sound hp \<longleftrightarrow> (\<forall>q. live hp q \<longrightarrow> q < brk hp)"

text \<open>What a block leaves as it was: the settings of \<open>unzip\<close> and the blocks of the heap in use.\<close>

definition kept :: "zip \<Rightarrow> zip \<Rightarrow> bool" where
  "kept st st' \<longleftrightarrow> zmethod st' = zmethod st \<and> pkzip st' = pkzip st \<and> extended st' = extended st \<and>
     live (zheap st') = live (zheap st) \<and> (sound (zheap st) \<longrightarrow> sound (zheap st'))"

lemma kept_refl [simp]: "kept st st"
  by (simp add: kept_def)

lemma kept_trans: "kept st st' \<Longrightarrow> kept st' st'' \<Longrightarrow> kept st st''"
  by (simp add: kept_def)

lemma load_store [simp]: "load (store_all l st) = l" "lb (load (store_bits l st)) = lb l" "lk (load (store_bits l st)) = lk l"
  "lw (load st) = outcnt st" "lb (load st) = bb st" "lk (load st) = bk st"
  by (simp_all add: load_def store_all_def store_bits_def)

lemma store_all_ready:
  assumes "at_bit f l st P" "lk l \<le> 15" "put_out a m os (lw l) st"
  shows "ready f a m os P (store_all l st)"
proof -
  have "at_bit f (load (store_all l st)) (store_all l st) P"
    using assms(1) by (simp add: at_bit_def at_byte_def store_all_def store_bits_def)
  moreover have "put_out a m os (lw l) (store_all l st)"
    using assms(3) by (simp add: put_out_def written_def store_all_def store_bits_def)
  ultimately show ?thesis using assms(2) by (simp add: ready_def store_all_def store_bits_def)
qed

lemma store_bits_ready:
  assumes "at_bit f l st P" "lk l \<le> 15" "put_out a m os (outcnt st) st"
  shows "ready f a m os P (store_bits l st)"
proof -
  have "at_bit f (load (store_bits l st)) (store_bits l st) P"
    using assms(1) by (simp add: at_bit_def at_byte_def store_bits_def load_def)
  moreover have "put_out a m os (outcnt st) (store_bits l st)"
    using assms(3) by (simp add: put_out_def written_def store_bits_def)
  ultimately show ?thesis using assms(2) by (simp add: ready_def store_bits_def)
qed

lemma inflate_codes_tokens:
  assumes "tokens_ok ll dl ts os" "holds f P (codes_fields ll dl ts)"
    and "literal_tables (zheap st) tl' bl ll" "distance_tables (zheap st) td bd dl" "reads f rd"
    and "ready f a m os P st" "unat a + length (expand ts os) < 2 ^ 64"
  shows "\<exists>st'. inflate_codes rd (Some tl') (Some td) bl bd st = Some (0, st') \<and>
    ready f a m (expand ts os) (P + width (codes_fields ll dl ts)) st' \<and> zheap st' = zheap st \<and> kept st st'"
proof -
  have "at_bit f (load st) st P" "lk (load st) \<le> 15" "put_out a m os (lw (load st)) st"
    using assms(6) by (simp_all add: ready_def)
  from codes_loop_tokens [OF assms(1-5) this assms(7)]
  obtain l' st' where c: "codes_loop rd (Some tl') (Some td) bl bd (load st) st = Some (True, l', st')"
      "at_bit f l' st' (P + width (codes_fields ll dl ts))" "lk l' \<le> 15" "put_out a m (expand ts os) (lw l') st'" "same_rest st st'"
    by blast
  have "zheap (store_all l' st') = zheap st" "kept st (store_all l' st')"
    using c(5) by (simp_all add: same_rest_def kept_def store_all_def store_bits_def)
  then show ?thesis
    using c(1) store_all_ready [OF c(2-4)] by (simp add: inflate_codes_def)
qed

subsection \<open>Stored blocks\<close>

definition bytes_fields :: "u8 list \<Rightarrow> fields" where
  "bytes_fields bs = map (\<lambda>b. (8, unat b)) bs"

lemma low_byte: "at_bit f l st P \<Longrightarrow> 8 \<le> lk l \<Longrightarrow> fnum f P 8 = unat b \<Longrightarrow> ucast (lb l) = (b :: u8)"
  using fnum_mod [of 8 "lk l" f P] by (simp add: at_bit_def word_eq_iff_unat unat_ucast_mod)

lemma stored_bytes_out:
  assumes "holds f P (bytes_fields bs)" "reads f rd" "at_bit f l st P" "lk l = 0" "put_out a m os (lw l) st"
    "unat a + length os + length bs < 2 ^ 64"
  shows "\<exists>l' st'. stored_bytes rd (length bs) l st = (l', st') \<and> at_bit f l' st' (P + 8 * length bs) \<and> lk l' = 0 \<and>
    put_out a m (os @ bs) (lw l') st' \<and> same_rest st st'"
  using assms
proof (induction bs arbitrary: P l st os)
  case (Cons b bs)
  obtain l1 st1 where n: "needbits rd 8 l st = (l1, st1)" "at_bit f l1 st1 P" "8 \<le> lk l1" "lk l1 \<le> 15"
      "lw l1 = lw l" "same_output st st1"
    using needbits_at [OF Cons.prems(2,3), of 8] Cons.prems(4) by auto
  have "8 dvd P"
    using Cons.prems(3,4) by (auto simp: at_bit_def)
  moreover obtain p where "8 * p = P + lk l1" using n(2) by (auto simp: at_bit_def)
  ultimately have "8 dvd lk l1" by (metis dvd_add_right_iff dvd_triv_left)
  then have k: "lk l1 = 8" using n(3,4) by (auto elim!: dvdE)
  have c: "ucast (lb l1) = b" using low_byte [OF n(2,3)] Cons.prems(1) by (simp add: bytes_fields_def)
  have "put_out a m os (lw l1) st1" using put_out_same_output [OF Cons.prems(5) n(6)] n(5) by simp
  then obtain l2 st2 where w: "put_window b l1 st1 = (l2, st2)" "put_out a m (os @ [b]) (lw l2) st2"
      "lb l2 = lb l1" "lk l2 = lk l1" "same_input st1 st2"
    using put_window_put_out [of a m os l1 st1 b] Cons.prems(6) by auto
  note at2 = at_bit_same_input [OF n(2) w(5,3,4)]
  note d = dumpbits_at [OF at2, of 8]
  have "holds f (P + 8) (bytes_fields bs)" using Cons.prems(1) by (simp add: bytes_fields_def)
  then obtain l' st' where IH: "stored_bytes rd (length bs) (dumpbits 8 l2) st2 = (l', st')" "at_bit f l' st' (P + 8 + 8 * length bs)"
      "lk l' = 0" "put_out a m ((os @ [b]) @ bs) (lw l') st'" "same_rest st2 st'"
    using Cons.IH [of "P + 8" "dumpbits 8 l2" st2 "os @ [b]"] d w k Cons.prems(2,6) by auto
  have "same_rest st st'"
    using same_rest_trans [OF same_rest_output [OF n(6)] same_rest_trans [OF same_rest_input [OF w(5)] IH(5)]] .
  then show ?case using n(1) c w(1) IH by (auto simp: Let_def add.assoc)
qed (simp add: bytes_fields_def)

text \<open>The first byte boundary from bit \<open>P\<close> on.\<close>

definition byte_up :: "nat \<Rightarrow> nat" where
  "byte_up P = 8 * ((P + 7) div 8)"

lemma byte_up_eq:
  assumes "8 * p = P + k"
  shows "P + k mod 8 = byte_up P"
proof -
  have k: "k = 8 * (k div 8) + k mod 8" by simp
  have "P + k mod 8 = 8 * (p - k div 8)" using assms k by linarith
  then have "P + 7 = 8 * (p - k div 8) + (7 - k mod 8)" using mod_less_divisor [of 8 k] by linarith
  moreover have "(8 * (p - k div 8) + (7 - k mod 8)) div 8 = p - k div 8" by (subst div_mult_self4) simp_all
  ultimately have "(P + 7) div 8 = p - k div 8" by simp
  then show ?thesis using \<open>P + k mod 8 = 8 * (p - k div 8)\<close> by (simp add: byte_up_def)
qed

definition stored_fields :: "u8 list \<Rightarrow> fields" where
  "stored_fields bs = [(16, length bs), (16, 65535 - length bs)] @ bytes_fields bs"

lemma unat_not: "unat (NOT x) = 2 ^ LENGTH('a) - 1 - unat x" for x :: "'a::len word"
proof -
  have "x + NOT x = - 1" by (simp add: not_eq_complement)
  then have "NOT x = - 1 - x" by (simp add: algebra_simps)
  moreover have "unat (- 1 :: 'a word) = 2 ^ LENGTH('a) - 1" by (simp add: unsigned_minus_1_eq_mask mask_eq_exp_minus_1)
  moreover have "unat x \<le> 2 ^ LENGTH('a) - 1" using unsigned_less [of x, where 'a = nat] by linarith
  ultimately show ?thesis by (simp add: unat_sub_no_wrap)
qed

lemma complement16:
  fixes x :: u64
  shows "unat (ucast (NOT x AND 0xffff) :: u32) = 65535 - unat x mod 65536"
proof -
  have "NOT x AND 0xffff = NOT x AND mask 16" by (simp add: mask_eq_exp_minus_1)
  then have "unat (NOT x AND 0xffff) = (2 ^ 64 - 1 - unat x) mod 65536" by (simp add: unat_and_mask unat_not)
  also have "\<dots> = 65535 - unat x mod 65536"
  proof -
    have lt: "unat x < 2 ^ 64" using unsigned_less [of x, where 'a = nat] by simp
    define q r where "q = unat x div 65536" and "r = unat x mod 65536"
    have x: "unat x = 65536 * q + r" and r: "r < 65536" by (simp_all add: q_def r_def)
    have q: "q \<le> 281474976710655" using lt unfolding x by simp
    have "2 ^ 64 - 1 - unat x = 65536 * (281474976710655 - q) + (65535 - r)"
      unfolding x using q r by (simp add: diff_mult_distrib2)
    then have "(2 ^ 64 - 1 - unat x) mod 65536 = (65535 - r) mod 65536" by (simp only: mod_mult_self4)
    then show ?thesis by (simp add: r_def [symmetric])
  qed
  finally show ?thesis by (simp add: unat_ucast_mod)
qed

lemma inflate_stored_bytes:
  assumes "holds f (byte_up P) (stored_fields bs)" "length bs < 65536" "reads f rd" "ready f a m os P st"
    "unat a + length os + length bs < 2 ^ 64"
  shows "\<exists>st'. inflate_stored rd st = (0, st') \<and> ready f a m (os @ bs) (byte_up P + width (stored_fields bs)) st' \<and>
    zheap st' = zheap st \<and> kept st st'"
proof -
  have st: "at_bit f (load st) st P" "bk st \<le> 15" "put_out a m os (outcnt st) st" using assms(4) by (simp_all add: ready_def)
  have "bk st mod 8 \<le> lk (load st)" by simp
  note d = dumpbits_at [OF st(1) this]
  obtain p where p: "8 * p = P + bk st" using st(1) by (auto simp: at_bit_def)
  have up: "P + bk st mod 8 = byte_up P"
    using p by (rule byte_up_eq)
  obtain l1 st1 where n1: "needbits rd 16 (dumpbits (bk st mod 8) (load st)) st = (l1, st1)" "at_bit f l1 st1 (byte_up P)"
      "16 \<le> lk l1" "lk l1 \<le> 23" "lw l1 = outcnt st" "same_output st st1"
    using needbits_at [OF assms(3) d(1), of 16] d st(2) by (auto simp: up)
  note d1 = dumpbits_at [OF n1(2,3)]
  obtain l2 st2 where n2: "needbits rd 16 (dumpbits 16 l1) st1 = (l2, st2)" "at_bit f l2 st2 (byte_up P + 16)"
      "16 \<le> lk l2" "lk l2 \<le> 23" "lw l2 = outcnt st" "same_output st1 st2"
    using needbits_at [OF assms(3) d1(1), of 16] d1 n1(4,5) by auto
  note d2 = dumpbits_at [OF n2(2,3)]
  have "8 dvd byte_up P" by (simp add: byte_up_def)
  moreover obtain p2 where "8 * p2 = byte_up P + 16 + lk l2" using n2(2) by (auto simp: at_bit_def)
  ultimately have "8 dvd lk l2" by (metis dvd_add_right_iff dvd_triv_left dvd_refl dvd_add_left_iff numeral_Bit0 dvd_add)
  then have k2: "lk l2 = 16" using n2(3,4) by (auto elim!: dvdE)
  have fs: "fnum f (byte_up P) 16 = length bs" "fnum f (byte_up P + 16) 16 = 65535 - length bs"
      "holds f (byte_up P + 32) (bytes_fields bs)"
    using assms(1) by (simp_all add: stored_fields_def add.commute)
  have m: "(0xffff :: u32) = mask 16" by (simp add: mask_eq_exp_minus_1)
  have len: "unat ((ucast (lb l1) :: u32) AND 0xffff) = length bs"
    using bits_at(1) [OF n1(2,3)] fs(1) unfolding m by simp
  have "unat (lb l2) mod 65536 = 65535 - length bs"
    using n2(2) fs(2) fnum_mod [of 16 "lk l2" f "byte_up P + 16"] k2 by (simp add: at_bit_def)
  then have "unat (ucast (NOT (lb l2) AND 0xffff) :: u32) = length bs" unfolding complement16 using assms(2) by simp
  then have check: "(ucast (lb l1) :: u32) AND 0xffff = ucast (NOT (lb l2) AND 0xffff)"
    using len by (simp add: word_eq_iff_unat)
  have so: "same_output st st2" using same_output_trans [OF n1(6) n2(6)] .
  have at3: "at_bit f (dumpbits 16 l2) st2 (byte_up P + 32)" "lk (dumpbits 16 l2) = 0" "lw (dumpbits 16 l2) = outcnt st"
    using d2 k2 n2(5) by (simp_all add: add.commute)
  have "put_out a m os (lw (dumpbits 16 l2)) st2" using put_out_same_output [OF st(3) so] at3(3) by simp
  then obtain l' st' where s: "stored_bytes rd (length bs) (dumpbits 16 l2) st2 = (l', st')"
      "at_bit f l' st' (byte_up P + 32 + 8 * length bs)" "lk l' = 0" "put_out a m (os @ bs) (lw l') st'" "same_rest st2 st'"
    using stored_bytes_out [OF fs(3) assms(3) at3(1,2) _ assms(5)] by blast
  have "same_rest st st'" using same_rest_trans [OF same_rest_output [OF so] s(5)] .
  then have "zheap (store_all l' st') = zheap st" "kept st (store_all l' st')"
    by (simp_all add: same_rest_def kept_def store_all_def store_bits_def)
  moreover have "inflate_stored rd st = (0, store_all l' st')"
    using n1(1) n2(1) check s(1) len by (simp add: inflate_stored_def Let_def)
  moreover have "width (stored_fields bs) = 32 + 8 * length bs"
    by (simp add: stored_fields_def bytes_fields_def width_def o_def sum_list_triv)
  ultimately show ?thesis using store_all_ready [OF s(2) _ s(4)] s(3) by (auto simp: add.assoc)
qed

subsection \<open>Tables of a block\<close>

text \<open>\<open>built hp0 hp root\<close>: tables chained from \<open>root\<close> were added to the heap \<open>hp0\<close>, which gave \<open>hp\<close>.\<close>

definition built :: "hheap \<Rightarrow> hheap \<Rightarrow> nat option \<Rightarrow> bool" where
  "built hp0 hp t \<longleftrightarrow> chain hp t (brk hp0) (brk hp) \<and> (\<forall>q<brk hp0. tab hp q = tab hp0 q \<and> hlink hp q = hlink hp0 q) \<and>
     (\<forall>q. live hp q \<longleftrightarrow> live hp0 q \<or> brk hp0 \<le> q \<and> q < brk hp)"

definition good_lengths :: "nat list \<Rightarrow> nat \<Rightarrow> nat \<Rightarrow> nat list \<Rightarrow> bool" where
  "good_lengths b m s e \<longleftrightarrow> proper b \<and> kraft (max_length b) b \<le> 2 ^ max_length b \<and> shallow b m \<and>
     (spare b = 0 \<or> 0 \<notin> set b) \<and> (\<forall>i<length b. s \<le> i \<and> b ! i \<noteq> 0 \<longrightarrow> e ! (i - s) \<le> 16 \<or> e ! (i - s) = 99)"

lemma build_good:
  assumes "good_lengths b m s e"
  shows "\<exists>root mem hp. build b s d e m st = Some (if spare b \<noteq> 0 \<and> max_length b \<noteq> 1 then 1 else 0, Some root, table_width b m,
      st\<lparr>hufts := mem, zheap := hp\<rparr>) \<and> built (zheap st) hp (Some root) \<and>
    (\<forall>hp'. agree hp hp' \<longrightarrow> decodes hp' root (table_width b m) b (leaf_fields s d e))"
proof -
  obtain root mem hp where h: "huft_build b s d e m (hufts st) (zheap st) =
      Some (if spare b \<noteq> 0 \<and> max_length b \<noteq> 1 then 1 else 0, Some (Some root), table_width b m, mem, hp)"
      "\<forall>hp'. agree hp hp' \<longrightarrow> decodes hp' root (table_width b m) b (leaf_fields s d e)"
    using huft_build_tables [of b m s e d "hufts st" "zheap st"] assms unfolding good_lengths_def by blast
  have "set b \<subseteq> {0..16}" "length b \<le> 288" using assms by (simp_all add: good_lengths_def proper_def)
  note own = huft_build_owned [OF h(1) this]
  have "built (zheap st) hp (Some root)" using own by (simp add: built_def)
  then show ?thesis using h by (auto simp: build_def)
qed

lemma free_table_chain:
  "chain (zheap st) t lo up \<Longrightarrow> free_table t st = Some (st\<lparr>zheap := (zheap st)\<lparr>live := \<lambda>q. live (zheap st) q \<and> \<not> (lo \<le> q \<and> q < up)\<rparr>\<rparr>)"
  by (simp add: free_table_def huft_free_chain)

text \<open>Freed in the order they were built, two lists of tables leave the heap as it was.\<close>

lemma free_two:
  assumes "built hp0 hp1 t1" "built hp1 hp2 t2" "zheap st = hp2" "sound hp0"
  shows "\<exists>st1 st2. free_table t1 st = Some st1 \<and> free_table t2 st1 = Some st2 \<and> live (zheap st2) = live hp0 \<and> sound (zheap st2) \<and>
    (\<exists>hp. st2 = st\<lparr>zheap := hp\<rparr>)"
proof -
  have c1: "chain (zheap st) t1 (brk hp0) (brk hp1)"
    by (rule chain_agree [of hp1]) (use assms(1-3) in \<open>simp_all add: built_def\<close>)
  let ?st1 = "st\<lparr>zheap := (zheap st)\<lparr>live := \<lambda>q. live (zheap st) q \<and> \<not> (brk hp0 \<le> q \<and> q < brk hp1)\<rparr>\<rparr>"
  have c2: "chain (zheap ?st1) t2 (brk hp1) (brk hp2)"
    by (rule chain_agree [of hp2]) (use assms(2,3) in \<open>simp_all add: built_def\<close>)
  let ?hp = "(zheap ?st1)\<lparr>live := \<lambda>q. live (zheap ?st1) q \<and> \<not> (brk hp1 \<le> q \<and> q < brk hp2)\<rparr>"
  have le: "brk hp0 \<le> brk hp1" "brk hp1 \<le> brk hp2" using assms(1,2) by (simp_all add: built_def chain_def)
  have live: "live ?hp = live hp0"
  proof
    fix q
    have "live hp2 q \<longleftrightarrow> live hp1 q \<or> brk hp1 \<le> q \<and> q < brk hp2" "live hp1 q \<longleftrightarrow> live hp0 q \<or> brk hp0 \<le> q \<and> q < brk hp1"
      using assms(1,2) unfolding built_def by blast+
    moreover have "live hp0 q \<Longrightarrow> q < brk hp0" using assms(4) by (simp add: sound_def)
    ultimately have "live hp2 q \<and> \<not> (brk hp0 \<le> q \<and> q < brk hp1) \<and> \<not> (brk hp1 \<le> q \<and> q < brk hp2) \<longleftrightarrow> live hp0 q"
      using le by linarith
    then show "live ?hp q = live hp0 q" by (simp add: assms(3))
  qed
  then have "sound ?hp" using assms(3,4) le by (auto simp: sound_def)
  then show ?thesis using free_table_chain [OF c1] free_table_chain [OF c2] live by auto
qed

lemma agree_built: "built hp hp' t \<Longrightarrow> agree hp hp'"
  by (simp add: built_def agree_def)

subsection \<open>Blocks with the fixed codes\<close>

lemma max_length_is:
  assumes "proper b" "x \<in> set b" "x \<noteq> 0" "\<And>y. y \<in> set b \<Longrightarrow> y \<le> x"
  shows "max_length b = x"
  using lengths_between [OF assms(1)] assms(2-4) by (meson le_antisym)

lemma min_length_is:
  assumes "proper b" "x \<in> set b" "x \<noteq> 0" "\<And>y. y \<in> set b \<Longrightarrow> y = 0 \<or> x \<le> y"
  shows "min_length b = x"
proof -
  note le = lengths_between [OF assms(1)]
  have "min_length b \<noteq> 0" using le(1) by simp
  then have "x \<le> min_length b" using assms(4) [OF le(5)] by simp
  moreover have "min_length b \<le> x" using le(6) [OF assms(2,3)] by simp
  ultimately show ?thesis by simp
qed

definition fixed_distances :: "nat list" where
  "fixed_distances = replicate 30 5"

lemma fixed_lengths_facts:
  "proper fixed_lengths" "max_length fixed_lengths = 9" "min_length fixed_lengths = 7" "kraft 9 fixed_lengths = 512"
  "length fixed_lengths = 288" "0 \<notin> set fixed_lengths"
proof -
  show p: "proper fixed_lengths" by (auto simp: proper_def fixed_lengths_def)
  show "max_length fixed_lengths = 9" by (rule max_length_is [OF p]) (auto simp: fixed_lengths_def)
  show "min_length fixed_lengths = 7" by (rule min_length_is [OF p]) (auto simp: fixed_lengths_def)
  show "kraft 9 fixed_lengths = 512" "length fixed_lengths = 288" "0 \<notin> set fixed_lengths"
    by (simp_all add: kraft_def fixed_lengths_def sum_list_replicate map_replicate_const)
qed

lemma fixed_distances_facts:
  "proper fixed_distances" "max_length fixed_distances = 5" "min_length fixed_distances = 5" "kraft 5 fixed_distances = 30"
  "length fixed_distances = 30" "0 \<notin> set fixed_distances"
proof -
  show p: "proper fixed_distances" by (auto simp: proper_def fixed_distances_def)
  show "max_length fixed_distances = 5" by (rule max_length_is [OF p]) (auto simp: fixed_distances_def)
  show "min_length fixed_distances = 5" by (rule min_length_is [OF p]) (auto simp: fixed_distances_def)
  show "kraft 5 fixed_distances = 30" "length fixed_distances = 30" "0 \<notin> set fixed_distances"
    by (simp_all add: kraft_def fixed_distances_def sum_list_replicate map_replicate_const)
qed

lemma cplext_leaves: "i < 31 \<Longrightarrow> cplext ! i \<le> 16 \<or> cplext ! i = 99"
proof -
  have "list_all (\<lambda>e. e \<le> 16 \<or> e = 99) cplext" by (simp add: cplext_def)
  moreover assume "i < 31"
  ultimately show ?thesis by (simp add: list_all_length cplext_def)
qed

lemma cpdext_leaves: "i < 30 \<Longrightarrow> cpdext ! i \<le> 16 \<or> cpdext ! i = 99"
  using table_ranges(2) [of i] by simp

lemma good_fixed: "good_lengths fixed_lengths 7 257 cplext" "good_lengths fixed_distances 5 0 cpdext"
  using fixed_lengths_facts fixed_distances_facts cplext_leaves cpdext_leaves
  by (simp_all add: good_lengths_def shallow_def spare_def)

lemma ready_heap [simp]: "ready f a m os P (st\<lparr>hufts := x, zheap := y\<rparr>) = ready f a m os P st"
  "ready f a m os P (st\<lparr>zheap := y\<rparr>) = ready f a m os P st" "ready f a m os P (st\<lparr>hufts := x\<rparr>) = ready f a m os P st"
  by (simp_all add: ready_def at_bit_def at_byte_def put_out_def written_def load_def)

text \<open>The result code of \<open>huft_build\<close> for lengths that are not too many.\<close>

definition tables_code :: "nat list \<Rightarrow> int" where
  "tables_code b = (if spare b \<noteq> 0 \<and> max_length b \<noteq> 1 then 1 else 0)"

lemma codes_with_tables:
  assumes "good_lengths ll ml 257 cplext" "table_width ll ml \<le> 9" "257 \<le> length ll" "ll ! 256 \<noteq> 0"
    and "good_lengths dl md 0 cpdext" "table_width dl md \<le> 9"
    and "tokens_ok ll dl ts os" "holds f P (codes_fields ll dl ts)" "reads f rd" "ready f a m os P st"
    and "unat a + length (expand ts os) < 2 ^ 64" "sound (zheap st)"
  shows "\<exists>tl' td st1 st2 st3 st4 st5. build ll 257 cplens cplext ml st = Some (tables_code ll, Some tl', table_width ll ml, st1) \<and>
    build dl 0 cpdist cpdext md st1 = Some (tables_code dl, Some td, table_width dl md, st2) \<and>
    inflate_codes rd (Some tl') (Some td) (table_width ll ml) (table_width dl md) st2 = Some (0, st3) \<and>
    free_table (Some tl') st3 = Some st4 \<and> free_table (Some td) st4 = Some st5 \<and>
    ready f a m (expand ts os) (P + width (codes_fields ll dl ts)) st5 \<and> kept st st5"
proof -
  obtain tl' x1 hp1 where b1: "build ll 257 cplens cplext ml st = Some (tables_code ll, Some tl', table_width ll ml, st\<lparr>hufts := x1, zheap := hp1\<rparr>)"
      "built (zheap st) hp1 (Some tl')" "\<forall>hp'. agree hp1 hp' \<longrightarrow> decodes hp' tl' (table_width ll ml) ll (leaf_fields 257 cplens cplext)"
    using build_good [OF assms(1), of cplens st] unfolding tables_code_def by blast
  let ?st1 = "st\<lparr>hufts := x1, zheap := hp1\<rparr>"
  obtain td x2 hp2 where b2: "build dl 0 cpdist cpdext md ?st1 = Some (tables_code dl, Some td, table_width dl md, ?st1\<lparr>hufts := x2, zheap := hp2\<rparr>)"
      "built hp1 hp2 (Some td)" "\<forall>hp'. agree hp2 hp' \<longrightarrow> decodes hp' td (table_width dl md) dl (leaf_fields 0 cpdist cpdext)"
    using build_good [OF assms(5), of cpdist ?st1] unfolding tables_code_def by auto
  let ?st2 = "?st1\<lparr>hufts := x2, zheap := hp2\<rparr>"
  have "literal_tables (zheap ?st2) tl' (table_width ll ml) ll" "distance_tables (zheap ?st2) td (table_width dl md) dl"
    using b1(3) b2(3) agree_built [OF b2(2)] assms(2-4,6) by (simp_all add: literal_tables_def distance_tables_def agree_def)
  moreover have "ready f a m os P ?st2" using assms(10) by simp
  ultimately obtain st3 where c: "inflate_codes rd (Some tl') (Some td) (table_width ll ml) (table_width dl md) ?st2 = Some (0, st3)"
      "ready f a m (expand ts os) (P + width (codes_fields ll dl ts)) st3" "zheap st3 = hp2" "kept ?st2 st3"
    using inflate_codes_tokens [OF assms(7,8) _ _ assms(9) _ assms(11)] by fastforce
  obtain st4 st5 hp where fr: "free_table (Some tl') st3 = Some st4" "free_table (Some td) st4 = Some st5"
      "live (zheap st5) = live (zheap st)" "sound (zheap st5)" "st5 = st3\<lparr>zheap := hp\<rparr>"
    using free_two [OF b1(2) b2(2) c(3) assms(12)] by blast
  have "kept st st5" using c(4) fr(3-5) by (simp add: kept_def)
  moreover have "ready f a m (expand ts os) (P + width (codes_fields ll dl ts)) st5" using c(2) fr(5) by simp
  ultimately show ?thesis using b1(1) b2(1) c(1) fr(1,2) by blast
qed

lemma inflate_fixed_tokens:
  assumes "tokens_ok fixed_lengths fixed_distances ts os" "holds f P (codes_fields fixed_lengths fixed_distances ts)"
    and "reads f rd" "ready f a m os P st" "unat a + length (expand ts os) < 2 ^ 64" "sound (zheap st)"
  shows "\<exists>st'. inflate_fixed rd st = Some (0, st') \<and>
    ready f a m (expand ts os) (P + width (codes_fields fixed_lengths fixed_distances ts)) st' \<and> kept st st'"
proof -
  have w: "table_width fixed_lengths 7 = 7" "table_width fixed_distances 5 = 5"
    by (simp_all add: table_width_def fixed_lengths_facts fixed_distances_facts)
  have "fixed_lengths ! 256 \<in> set fixed_lengths" by (rule nth_mem) (simp add: fixed_lengths_facts)
  then have n: "fixed_lengths ! 256 \<noteq> 0" using fixed_lengths_facts(6) by metis
  have code: "tables_code fixed_lengths = 0" "tables_code fixed_distances = 1"
    by (simp_all add: tables_code_def spare_def fixed_lengths_facts fixed_distances_facts)
  show ?thesis
    using codes_with_tables [OF good_fixed(1) _ _ n good_fixed(2) _ assms] unfolding w code
    by (auto simp: inflate_fixed_def fixed_lengths_facts fixed_distances_def [symmetric])
qed

subsection \<open>Blocks with their own codes\<close>

lemma short_code:
  assumes "good_lengths b m s e" "tables_code b = 0" "m \<le> 9"
  shows "table_width b m \<le> 9"
proof (cases "spare b = 0")
  case True
  have b: "proper b" "kraft (max_length b) b = 2 ^ max_length b"
    using assms(1) True by (simp_all add: good_lengths_def spare_def)
  note le = lengths_between [OF b(1)]
  have "min_length b \<le> 9"
  proof (rule ccontr)
    assume m: "\<not> min_length b \<le> 9"
    let ?g = "max_length b"
    have "kraft ?g b \<le> length (filter ((<) 0) b) * 2 ^ (?g - 9)"
      unfolding kraft_wt using le(6) m by (intro wt_ge_length) force
    also have "\<dots> \<le> 288 * 2 ^ (?g - 9)"
      using le_trans [OF length_filter_le [of "(<) 0" b], of 288] b(1) by (intro mult_le_mono1) (simp add: proper_def)
    also have "\<dots> < 2 ^ 9 * 2 ^ (?g - 9)" by simp
    also have "9 \<le> ?g" using m le(2) by simp
    then have "(2::nat) ^ 9 * 2 ^ (?g - 9) = 2 ^ ?g" by (simp only: power_add [symmetric] le_add_diff_inverse)
    finally show False using b(2) by simp
  qed
  then show ?thesis using assms(3) by (simp add: table_width_def)
next
  case False
  then have "max_length b = 1" using assms(2) by (simp add: tables_code_def split: if_splits)
  then show ?thesis by (simp add: table_width_def)
qed

lemma dynamic_codes_tokens:
  assumes "good_lengths ll 9 257 cplext" "tables_code ll = 0" "257 \<le> length ll" "ll ! 256 \<noteq> 0"
    and "good_lengths dl 6 0 cpdext" "tables_code dl = 0"
    and "tokens_ok ll dl ts os" "holds f P (codes_fields ll dl ts)" "reads f rd" "ready f a m os P st"
    and "unat a + length (expand ts os) < 2 ^ 64" "sound (zheap st)"
  shows "\<exists>st'. dynamic_codes rd ll dl st = Some (Inr (0, st')) \<and>
    ready f a m (expand ts os) (P + width (codes_fields ll dl ts)) st' \<and> kept st st'"
proof -
  have "table_width ll 9 \<le> 9" "table_width dl 6 \<le> 9"
    using short_code [OF assms(1,2)] short_code [OF assms(5,6)] by simp_all
  from codes_with_tables [OF assms(1) this(1) assms(3-5) this(2) assms(7-)] show ?thesis
    unfolding assms(2,6) by (auto simp: dynamic_codes_def lbits_def dbits_def)
qed

end
