(* ===== verification/Huft_Theorems.thy ===== *)
theory Huft_Theorems
  imports Inflate_Blocks
begin

text \<open>
  What \<open>huft_build\<close> and \<open>huft_free\<close> do for any list of lengths, and the tables of the fixed codes as
  instances of the locale of canonical codes.
\<close>

subsection \<open>The fixed codes\<close>

interpretation literals: canonical_code "code_lengths fixed_lengths" "all_lengths fixed_lengths" "max_length fixed_lengths"
    "table_width fixed_lengths 7" "sorted_values fixed_lengths" "length fixed_lengths" 257 cplens cplext
  using good_fixed(1) by (intro canonical_build) (simp_all add: good_lengths_def)

interpretation distances: canonical_code "code_lengths fixed_distances" "all_lengths fixed_distances" "max_length fixed_distances"
    "table_width fixed_distances 5" "sorted_values fixed_distances" "length fixed_distances" 0 cpdist cpdext
  using good_fixed(2) by (intro canonical_build) (simp_all add: good_lengths_def)

subsection \<open>Building and freeing\<close>


definition no_tables :: hheap where
  "no_tables = \<lparr>tab = \<lambda>q. [], hlink = \<lambda>q. None, live = \<lambda>q. False, brk = 0\<rparr>"




end
