(* ===== verification/Inflate_Dynamic.thy ===== *)
theory Inflate_Dynamic
  imports Inflate_Blocks
begin

text \<open>
  Blocks with codes of their own: the code lengths are themselves coded, with a code whose lengths have
  three bits each.
\<close>

subsection \<open>The lengths of the code for lengths\<close>

lemma border_facts: "distinct border" "set border = {0..<19}" "length border = 19"
proof -
  show "distinct border" "length border = 19" by (simp_all add: border_def)
  have "sort border = [0..<19]" by (simp add: border_def upt_rec)
  then have "set border = set [0..<19]" by (metis set_sort)
  then show "set border = {0..<19}" by simp
qed

lemma small_field:
  assumes "reads f rd" "at_bit f l st P" "lk l \<le> 15" "n \<le> 8" "fnum f P n = x"
  shows "\<exists>l' st'. needbits rd n l st = (l', st') \<and> unat ((ucast (lb l') :: u32) AND mask n) = x \<and>
    at_bit f (dumpbits n l') st' (P + n) \<and> lk (dumpbits n l') \<le> 15 \<and> lw (dumpbits n l') = lw l \<and> same_output st st'"
proof -
  obtain l' st' where n: "needbits rd n l st = (l', st')" "at_bit f l' st' P" "n \<le> lk l'"
      "lk l' \<le> max (lk l) (n + 7)" "lw l' = lw l" "same_output st st'"
    using needbits_at [OF assms(1,2), of n] assms(4) by auto
  show ?thesis
    using n dumpbits_at [OF n(2,3)] bits_at(1) [OF n(2,3)] assms(3-5) by auto
qed

lemma low_masks: "(1 :: u32) = mask 1" "(3 :: u32) = mask 2" "(7 :: u32) = mask 3" "(0xf :: u32) = mask 4"
  "(0x1f :: u32) = mask 5" "(0x7f :: u32) = mask 7"
  by (simp_all add: mask_eq_exp_minus_1)

lemma bit_lengths_at:
  assumes "distinct is" "\<forall>i\<in>set is. i < length ll" "holds f P (map (\<lambda>i. (3, cl ! i)) (take nb is))"
    and "\<forall>i\<in>set (drop nb is). cl ! i = 0" "reads f rd" "at_bit f l st P" "lk l \<le> 15"
  shows "\<exists>ll' l' st'. bit_lengths rd is nb ll l st = (ll', l', st') \<and> length ll' = length ll \<and>
    (\<forall>i\<in>set is. ll' ! i = cl ! i) \<and> (\<forall>i. i \<notin> set is \<longrightarrow> ll' ! i = ll ! i) \<and>
    at_bit f l' st' (P + 3 * length (take nb is)) \<and> lk l' \<le> 15 \<and> lw l' = lw l \<and> same_output st st'"
  using assms
proof (induction rd "is" nb ll l st arbitrary: P rule: bit_lengths.induct)
  case (2 rd i "is" ll l st)
  have "\<exists>ll' l' st'. bit_lengths rd is 0 (ll[i := 0]) l st = (ll', l', st') \<and> length ll' = length (ll[i := 0]) \<and>
      (\<forall>i\<in>set is. ll' ! i = cl ! i) \<and> (\<forall>j. j \<notin> set is \<longrightarrow> ll' ! j = ll[i := 0] ! j) \<and>
      at_bit f l' st' (P + 3 * length (take 0 is)) \<and> lk l' \<le> 15 \<and> lw l' = lw l \<and> same_output st st'"
    by (rule 2(1)) (use 2(2-) in simp_all)
  then obtain ll' l' st' where IH: "bit_lengths rd is 0 (ll[i := 0]) l st = (ll', l', st')" "length ll' = length ll"
      "\<forall>i\<in>set is. ll' ! i = cl ! i" "\<forall>j. j \<notin> set is \<longrightarrow> ll' ! j = ll[i := 0] ! j"
      "at_bit f l' st' P" "lk l' \<le> 15" "lw l' = lw l" "same_output st st'"
    by auto
  then show ?case using 2 by (auto simp: nth_list_update)
next
  case (3 rd i "is" nb ll l st)
  have "fnum f P 3 = cl ! i" using 3(4) by simp
  then obtain l1 st1 where n: "needbits rd 3 l st = (l1, st1)" "unat ((ucast (lb l1) :: u32) AND mask 3) = cl ! i"
      "at_bit f (dumpbits 3 l1) st1 (P + 3)" "lk (dumpbits 3 l1) \<le> 15" "lw (dumpbits 3 l1) = lw l" "same_output st st1"
    using small_field [OF 3(6-8), of 3] by auto
  have "\<exists>ll' l' st'. bit_lengths rd is nb (ll[i := cl ! i]) (dumpbits 3 l1) st1 = (ll', l', st') \<and>
      length ll' = length (ll[i := cl ! i]) \<and> (\<forall>i\<in>set is. ll' ! i = cl ! i) \<and>
      (\<forall>j. j \<notin> set is \<longrightarrow> ll' ! j = ll[i := cl ! i] ! j) \<and>
      at_bit f l' st' (P + 3 + 3 * length (take nb is)) \<and> lk l' \<le> 15 \<and> lw l' = lw (dumpbits 3 l1) \<and> same_output st1 st'"
    using 3(1) [OF n(1) [symmetric] refl, of "P + 3"] 3(2-6) n by (simp add: low_masks)
  then obtain ll' l' st' where IH: "bit_lengths rd is nb (ll[i := cl ! i]) (dumpbits 3 l1) st1 = (ll', l', st')"
      "length ll' = length ll" "\<forall>i\<in>set is. ll' ! i = cl ! i" "\<forall>j. j \<notin> set is \<longrightarrow> ll' ! j = ll[i := cl ! i] ! j"
      "at_bit f l' st' (P + 3 + 3 * length (take nb is))" "lk l' \<le> 15" "lw l' = lw l" "same_output st1 st'"
    using n(5) by auto
  show ?case
    using IH n(1,2) 3(2,3) same_output_trans [OF n(6) IH(8)] by (auto simp: nth_list_update low_masks add.assoc)
qed auto

subsection \<open>Coded lengths\<close>

text \<open>A length; the last length again, 3 to 6 times; 3 to 10 zeros; 11 to 138 zeros.\<close>

datatype len_code = Len nat | Repeat nat | Zeros nat | Many_zeros nat

fun code_lens :: "len_code list \<Rightarrow> nat \<Rightarrow> nat list" where
  "code_lens [] prev = []"
| "code_lens (Len k # cs) prev = k # code_lens cs k"
| "code_lens (Repeat x # cs) prev = replicate (3 + x) prev @ code_lens cs prev"
| "code_lens (Zeros x # cs) prev = replicate (3 + x) 0 @ code_lens cs 0"
| "code_lens (Many_zeros x # cs) prev = replicate (11 + x) 0 @ code_lens cs 0"

fun len_ok :: "nat list \<Rightarrow> len_code \<Rightarrow> bool" where
  "len_ok cl (Len k) \<longleftrightarrow> k < 16 \<and> cl ! k \<noteq> 0"
| "len_ok cl (Repeat x) \<longleftrightarrow> x < 4 \<and> cl ! 16 \<noteq> 0"
| "len_ok cl (Zeros x) \<longleftrightarrow> x < 8 \<and> cl ! 17 \<noteq> 0"
| "len_ok cl (Many_zeros x) \<longleftrightarrow> x < 128 \<and> cl ! 18 \<noteq> 0"

fun len_fields :: "nat list \<Rightarrow> len_code \<Rightarrow> fields" where
  "len_fields cl (Len k) = [(cl ! k, codeword cl k)]"
| "len_fields cl (Repeat x) = [(cl ! 16, codeword cl 16), (2, x)]"
| "len_fields cl (Zeros x) = [(cl ! 17, codeword cl 17), (3, x)]"
| "len_fields cl (Many_zeros x) = [(cl ! 18, codeword cl 18), (7, x)]"

text \<open>The table of the code for lengths has one level.\<close>

lemma one_level:
  assumes "decodes (zheap st) q bl cl (leaf_fields 19 [] [])" "bl \<le> 7" "i < 19" "length cl = 19" "cl ! i \<noteq> 0" "cl ! i \<le> bl"
    and "fnum f P (cl ! i) = codeword cl i" "reads f rd" "at_bit f l st P" "lk l \<le> 15"
  shows "\<exists>r l' st'. needbits rd bl l st = (l', st') \<and> fetch (zheap st') (Some q) (low_bits bl l') = Some r \<and>
    v_n r = Some (of_nat i) \<and> at_bit f (dumpbits (unat (h_b r)) l') st' (P + cl ! i) \<and>
    lk (dumpbits (unat (h_b r)) l') \<le> 15 \<and> lw (dumpbits (unat (h_b r)) l') = lw l \<and> same_output st st'"
proof -
  let ?v = "fnum f P bl"
  have "?v mod 2 ^ (cl ! i) = rv (cl ! i) (canonical cl i)" using assms(6,7) by (simp add: fnum_mod codeword_def)
  then obtain r where r: "huft_walk bl (zheap st) q bl 0 ?v = Some (r, cl ! i)" "(h_e r, h_v r) = leaf_fields 19 [] [] i"
    using assms(1,3-5) unfolding decodes_def by auto
  have "walks bl (zheap st) ?v q bl 0 r (cl ! i)" using walk_walks [OF r(1)] by simp
  then have "?v mod 2 ^ bl < length (tab (zheap st) q) \<and> r = tab (zheap st) q ! (?v mod 2 ^ bl) \<and> unat (h_b r) = cl ! i"
  proof cases
    case leaf
    then show ?thesis by simp
  next
    case (link r' q')
    then show ?thesis using walks_mono [OF link(8)] assms(6) by auto
  qed
  then have leaf: "?v mod 2 ^ bl < length (tab (zheap st) q)" "r = tab (zheap st) q ! (?v mod 2 ^ bl)" "unat (h_b r) = cl ! i"
    by blast+
  obtain l' st' where n: "needbits rd bl l st = (l', st')" "at_bit f l' st' P" "bl \<le> lk l'"
      "lk l' \<le> max (lk l) (bl + 7)" "lw l' = lw l" "same_output st st'"
    using needbits_at [OF assms(8,9), of bl] assms(2) by auto
  have "unat (low_bits bl l') = ?v mod 2 ^ bl" using bits_at(2) [OF n(2,3)] assms(2) by (simp add: fnum_mod)
  then have "fetch (zheap st') (Some q) (low_bits bl l') = Some r"
    using leaf same_output_fields(9) [OF n(6)] by (simp add: fetch_def)
  moreover have "v_n r = Some (of_nat i)" using r(2) assms(3) by (simp add: v_n_def leaf_fields_def)
  moreover have "unat (h_b r) \<le> lk l'" using leaf(3) assms(6) n(3) by simp
  ultimately show ?thesis
    using n dumpbits_at [OF n(2), of "unat (h_b r)"] leaf(3) assms(2,10) by auto
qed

lemma repeat_length_eq:
  "i + j \<le> length ll \<Longrightarrow> repeat_length j i x ll = take i ll @ replicate j x @ drop (i + j) ll"
proof (induction j arbitrary: i ll)
  case (Suc j)
  have "take (i + 1) (ll[i := x]) = take i ll @ [x]" using Suc.prems by (simp add: take_Suc_conv_app_nth)
  then show ?case using Suc by simp
qed simp

text \<open>One turn of the loop: a length, or a run of equal lengths.\<close>

lemma read_one:
  assumes tab: "decodes (zheap st) q bl cl (leaf_fields 19 [] [])" "bl \<le> 7" "length cl = 19" "set cl \<subseteq> {0..bl}"
    and st: "reads f rd" "at_bit f l st P" "lk l \<le> 15" "i < n"
    and k: "k < 16" "cl ! k \<noteq> 0" "fnum f P (cl ! k) = codeword cl k"
  shows "\<exists>l1 st1. read_lengths rd (Some q) bl n i prev ll l st = read_lengths rd (Some q) bl n (i + 1) k (ll[i := k]) l1 st1 \<and>
    at_bit f l1 st1 (P + cl ! k) \<and> lk l1 \<le> 15 \<and> lw l1 = lw l \<and> same_output st st1"
proof -
  have "cl ! k \<in> set cl" using k(1) tab(3) by simp
  then have "cl ! k \<le> bl" using tab(4) by auto
  then obtain r l1 st1 where s: "needbits rd bl l st = (l1, st1)" "fetch (zheap st1) (Some q) (low_bits bl l1) = Some r"
      "v_n r = Some (of_nat k)" "at_bit f (dumpbits (unat (h_b r)) l1) st1 (P + cl ! k)"
      "lk (dumpbits (unat (h_b r)) l1) \<le> 15" "lw (dumpbits (unat (h_b r)) l1) = lw l" "same_output st st1"
    using one_level [OF tab(1,2) _ tab(3) k(2) _ k(3) st(1-3)] k(1) by auto
  have "(of_nat k :: u16) < 16" "unat (of_nat k :: u16) = k" using k(1) by (simp_all add: word_less_nat_alt unat_of_nat)
  then have "read_lengths rd (Some q) bl n i prev ll l st =
      read_lengths rd (Some q) bl n (i + 1) k (ll[i := k]) (dumpbits (unat (h_b r)) l1) st1"
    using st(4) s(1-3) by (simp add: read_lengths.simps [of rd "Some q" bl n i] Let_def)
  then show ?thesis using s(4-7) by blast
qed

definition run_of :: "nat \<Rightarrow> nat \<times> nat" where
  "run_of k = (if k = 16 then (2, 3) else if k = 17 then (3, 3) else (7, 11))"

lemma read_run:
  assumes tab: "decodes (zheap st) q bl cl (leaf_fields 19 [] [])" "bl \<le> 7" "length cl = 19" "set cl \<subseteq> {0..bl}"
    and st: "reads f rd" "at_bit f l st P" "lk l \<le> 15" "i < n"
    and k: "k \<in> {16, 17, 18}" "cl ! k \<noteq> 0" "fnum f P (cl ! k) = codeword cl k" "fnum f (P + cl ! k) (fst (run_of k)) = x"
    and j: "j = snd (run_of k) + x" "i + j \<le> n" "p = (if k = 16 then prev else 0)"
  shows "\<exists>l1 st1. read_lengths rd (Some q) bl n i prev ll l st = read_lengths rd (Some q) bl n (i + j) p (repeat_length j i p ll) l1 st1 \<and>
    at_bit f l1 st1 (P + cl ! k + fst (run_of k)) \<and> lk l1 \<le> 15 \<and> lw l1 = lw l \<and> same_output st st1"
proof -
  have k19: "k < 19" using k(1) by auto
  have "cl ! k \<in> set cl" using k19 tab(3) by simp
  then have "cl ! k \<le> bl" using tab(4) by auto
  then obtain r l1 st1 where s: "needbits rd bl l st = (l1, st1)" "fetch (zheap st1) (Some q) (low_bits bl l1) = Some r"
      "v_n r = Some (of_nat k)" "at_bit f (dumpbits (unat (h_b r)) l1) st1 (P + cl ! k)"
      "lk (dumpbits (unat (h_b r)) l1) \<le> 15" "lw (dumpbits (unat (h_b r)) l1) = lw l" "same_output st st1"
    using one_level [OF tab(1,2) k19 tab(3) k(2) _ k(3) st(1-3)] by auto
  let ?b = "fst (run_of k)"
  have "?b \<le> 8" by (simp add: run_of_def)
  then obtain l2 st2 where n: "needbits rd ?b (dumpbits (unat (h_b r)) l1) st1 = (l2, st2)"
      "unat ((ucast (lb l2) :: u32) AND mask ?b) = x" "at_bit f (dumpbits ?b l2) st2 (P + cl ! k + ?b)"
      "lk (dumpbits ?b l2) \<le> 15" "lw (dumpbits ?b l2) = lw l" "same_output st1 st2"
    using small_field [OF st(1) s(4,5), of ?b x] k(4) s(6) by auto
  have le: "\<not> n < i + j" using j(2) by simp
  consider "k = 16" | "k = 17" | "k = 18" using k(1) by blast
  then have "read_lengths rd (Some q) bl n i prev ll l st =
      read_lengths rd (Some q) bl n (i + j) p (repeat_length j i p ll) (dumpbits ?b l2) st2"
  proof cases
    case 1
    then have "?b = 2" "j = 3 + x" "p = prev" using j by (simp_all add: run_of_def)
    then show ?thesis
      using 1 st(4) s(1-3) n(1,2) le by (subst read_lengths.simps) (simp add: Let_def low_masks(2))
  next
    case 2
    then have "?b = 3" "j = 3 + x" "p = 0" using j by (simp_all add: run_of_def)
    then show ?thesis
      using 2 st(4) s(1-3) n(1,2) le by (subst read_lengths.simps) (simp add: Let_def low_masks(3))
  next
    case 3
    then have "?b = 7" "j = 11 + x" "p = 0" using j by (simp_all add: run_of_def)
    then show ?thesis
      using 3 st(4) s(1-3) n(1,2) le by (subst read_lengths.simps) (simp add: Let_def low_masks(6))
  qed
  then show ?thesis using n(3-5) same_output_trans [OF s(7) n(6)] by blast
qed

lemma read_lengths_coded:
  assumes "\<forall>c\<in>set cs. len_ok cl c" "holds f P (concat (map (len_fields cl) cs))" "length cl = 19" "set cl \<subseteq> {0..bl}" "bl \<le> 7"
    and "decodes (zheap st) q bl cl (leaf_fields 19 [] [])" "reads f rd" "at_bit f l st P" "lk l \<le> 15"
    and "length (code_lens cs prev) = n - i" "i \<le> n" "n \<le> length ll"
  shows "\<exists>l' st'. read_lengths rd (Some q) bl n i prev ll l st =
      Some (Some (take i ll @ code_lens cs prev @ drop n ll), l', st') \<and>
    at_bit f l' st' (P + width (concat (map (len_fields cl) cs))) \<and> lk l' \<le> 15 \<and> lw l' = lw l \<and> same_output st st'"
  using assms(1,2,6-)
proof (induction cs arbitrary: P l st i prev ll)
  case Nil
  then show ?case by (simp add: read_lengths.simps [of rd "Some q" bl i i])
next
  case (Cons c cs)
  note turn = Cons.prems(3) assms(5,3,4) Cons.prems(4-6)
  have rest: ?case
    if step: "\<exists>l1 st1. read_lengths rd (Some q) bl n i prev ll l st = read_lengths rd (Some q) bl n (i + j) p (repeat_length j i p' ll) l1 st1 \<and>
        at_bit f l1 st1 (P + width (len_fields cl c)) \<and> lk l1 \<le> 15 \<and> lw l1 = lw l \<and> same_output st st1"
      and lens: "code_lens (c # cs) prev = replicate j p' @ code_lens cs p" for j p p'
  proof -
    obtain l1 st1 where s: "read_lengths rd (Some q) bl n i prev ll l st = read_lengths rd (Some q) bl n (i + j) p (repeat_length j i p' ll) l1 st1"
        "at_bit f l1 st1 (P + width (len_fields cl c))" "lk l1 \<le> 15" "lw l1 = lw l" "same_output st st1"
      using step by blast
    have len: "j + length (code_lens cs p) = n - i" using lens Cons.prems(7) by simp
    have ij: "i + j \<le> n" using len Cons.prems(8) by linarith
    have rl: "repeat_length j i p' ll = take i ll @ replicate j p' @ drop (i + j) ll"
      using ij Cons.prems(9) by (intro repeat_length_eq) simp
    have "zheap st1 = zheap st" using same_output_fields(9) [OF s(5)] .
    then have "\<exists>l' st'. read_lengths rd (Some q) bl n (i + j) p (repeat_length j i p' ll) l1 st1 =
        Some (Some (take (i + j) (repeat_length j i p' ll) @ code_lens cs p @ drop n (repeat_length j i p' ll)), l', st') \<and>
      at_bit f l' st' (P + width (len_fields cl c) + width (concat (map (len_fields cl) cs))) \<and> lk l' \<le> 15 \<and>
      lw l' = lw l1 \<and> same_output st1 st'"
      using Cons.prems len ij rl s(2,3) by (intro Cons.IH) simp_all
    moreover have "take (i + j) (repeat_length j i p' ll) = take i ll @ replicate j p'" "drop n (repeat_length j i p' ll) = drop n ll"
      using ij Cons.prems(9) rl by simp_all
    ultimately show ?thesis using s(1,4) lens same_output_trans [OF s(5)] by (auto simp: add.assoc)
  qed
  have "0 < length (code_lens (c # cs) prev)" by (cases c) simp_all
  then have i: "i < n" using Cons.prems(7) by simp
  show ?case
  proof (cases c)
    case (Len k)
    then show ?thesis using rest [of 1 k k] read_one [OF turn i, of k prev ll] Cons.prems(1,2) by simp
  next
    case (Repeat x)
    then show ?thesis
      using rest [of "3 + x" prev prev] read_run [OF turn i, of 16 x "3 + x" prev prev ll] Cons.prems(1,2,7) i
      by (simp add: run_of_def add.assoc)
  next
    case (Zeros x)
    then show ?thesis
      using rest [of "3 + x" 0 0] read_run [OF turn i, of 17 x "3 + x" 0 prev ll] Cons.prems(1,2,7) i
      by (simp add: run_of_def add.assoc)
  next
    case (Many_zeros x)
    then show ?thesis
      using rest [of "11 + x" 0 0] read_run [OF turn i, of 18 x "11 + x" 0 prev ll] Cons.prems(1,2,7) i
      by (simp add: run_of_def add.assoc)
  qed
qed

subsection \<open>The block\<close>

text \<open>
  \<open>nb\<close> lengths of the code for lengths, the code lengths \<open>cs\<close> and the two codes \<open>ll\<close>, \<open>dl\<close> that they give.
\<close>

definition dynamic_ok :: "nat \<Rightarrow> nat list \<Rightarrow> len_code list \<Rightarrow> nat list \<Rightarrow> nat list \<Rightarrow> bool" where
  "dynamic_ok nb cl cs ll dl \<longleftrightarrow>
     4 \<le> nb \<and> nb \<le> 19 \<and> length cl = 19 \<and> (\<forall>i\<in>set (drop nb border). cl ! i = 0) \<and> set cl \<subseteq> {0..7} \<and>
     good_lengths cl 7 19 [] \<and> tables_code cl = 0 \<and>
     (\<forall>c\<in>set cs. len_ok cl c) \<and> code_lens cs 0 = ll @ dl \<and>
     257 \<le> length ll \<and> length ll \<le> 286 \<and> 1 \<le> length dl \<and> length dl \<le> 30 \<and>
     good_lengths ll 9 257 cplext \<and> tables_code ll = 0 \<and> ll ! 256 \<noteq> 0 \<and>
     good_lengths dl 6 0 cpdext \<and> tables_code dl = 0"

definition lengths_fields :: "nat \<Rightarrow> nat list \<Rightarrow> len_code list \<Rightarrow> nat list \<Rightarrow> nat list \<Rightarrow> fields" where
  "lengths_fields nb cl cs ll dl =
     [(5, length ll - 257), (5, length dl - 1), (4, nb - 4)] @ map (\<lambda>i. (3, cl ! i)) (take nb border) @
     concat (map (len_fields cl) cs)"

definition dynamic_fields :: "nat \<Rightarrow> nat list \<Rightarrow> len_code list \<Rightarrow> nat list \<Rightarrow> nat list \<Rightarrow> token list \<Rightarrow> fields" where
  "dynamic_fields nb cl cs ll dl ts = lengths_fields nb cl cs ll dl @ codes_fields ll dl ts"

lemma width_const [simp]: "width (map (\<lambda>i. (k, g i)) xs) = k * length xs"
  by (simp add: width_def o_def sum_list_triv)

lemma take_lengths_list:
  assumes "length ll' = 316" "\<forall>i\<in>set border. ll' ! i = cl ! i" "length cl = 19"
  shows "take 19 ll' = cl"
  by (rule nth_equalityI) (use assms border_facts in auto)

lemma inflate_dynamic_tokens:
  assumes ok: "dynamic_ok nb cl cs ll dl"
    and ts: "tokens_ok ll dl ts os" "holds f P (dynamic_fields nb cl cs ll dl ts)" "reads f rd" "ready f a m os P st"
      "unat a + length (expand ts os) < 2 ^ 64" "sound (zheap st)"
  shows "\<exists>st'. inflate_dynamic rd st = Some (Inr (0, st')) \<and>
    ready f a m (expand ts os) (P + width (dynamic_fields nb cl cs ll dl ts)) st' \<and> kept st st'"
proof -
  note d = ok [unfolded dynamic_ok_def]
  have at: "at_bit f (load st) st P" "lk (load st) \<le> 15" "put_out a m os (outcnt st) st" using ts(4) by (simp_all add: ready_def)
  have nb: "min 19 nb = nb" using d by simp
  have fs: "fnum f P 5 = length ll - 257" "fnum f (P + 5) 5 = length dl - 1" "fnum f (P + 10) 4 = nb - 4"
      "holds f (P + 14) (map (\<lambda>i. (3, cl ! i)) (take nb border))"
      "holds f (P + 14 + 3 * nb) (concat (map (len_fields cl) cs))"
    using ts(2) by (simp_all add: dynamic_fields_def lengths_fields_def add.assoc border_facts nb)
  obtain l1 st1 where n1: "needbits rd 5 (load st) st = (l1, st1)" "unat ((ucast (lb l1) :: u32) AND mask 5) = length ll - 257"
      "at_bit f (dumpbits 5 l1) st1 (P + 5)" "lk (dumpbits 5 l1) \<le> 15" "same_output st st1"
    using small_field [OF ts(3) at(1,2) _ fs(1)] by auto
  obtain l2 st2 where n2: "needbits rd 5 (dumpbits 5 l1) st1 = (l2, st2)" "unat ((ucast (lb l2) :: u32) AND mask 5) = length dl - 1"
      "at_bit f (dumpbits 5 l2) st2 (P + 10)" "lk (dumpbits 5 l2) \<le> 15" "same_output st1 st2"
    using small_field [OF ts(3) n1(3,4) _ fs(2)] by (auto simp: ac_simps)
  obtain l3 st3 where n3: "needbits rd 4 (dumpbits 5 l2) st2 = (l3, st3)" "unat ((ucast (lb l3) :: u32) AND mask 4) = nb - 4"
      "at_bit f (dumpbits 4 l3) st3 (P + 14)" "lk (dumpbits 4 l3) \<le> 15" "same_output st2 st3"
    using small_field [OF ts(3) n2(3,4) _ fs(3)] by (auto simp: ac_simps)
  have so3: "same_output st st3" using n1(5) n2(5) n3(5) same_output_trans by blast
  have "4 + (nb - 4) = nb" "257 + (length ll - 257) = length ll" "1 + (length dl - 1) = length dl" using d by linarith+
  note sums = this
  have "\<forall>i\<in>set border. i < length (replicate 316 (0::nat))" by (simp add: border_facts)
  from bit_lengths_at [OF border_facts(1) this fs(4) _ ts(3) n3(3,4)] d
  obtain ll4 l4 st4 where b: "bit_lengths rd border nb (replicate 316 0) (dumpbits 4 l3) st3 = (ll4, l4, st4)" "length ll4 = 316"
      "\<forall>i\<in>set border. ll4 ! i = cl ! i" "at_bit f l4 st4 (P + 14 + 3 * nb)" "lk l4 \<le> 15" "same_output st3 st4"
    by (auto simp: border_facts nb)
  have cl: "take 19 ll4 = cl" using take_lengths_list [OF b(2,3)] d by simp
  obtain t x hp where t: "build cl 19 [] [] 7 st4 = Some (0, Some t, table_width cl 7, st4\<lparr>hufts := x, zheap := hp\<rparr>)"
      "built (zheap st4) hp (Some t)" "decodes hp t (table_width cl 7) cl (leaf_fields 19 [] [])"
  proof -
    have "good_lengths cl 7 19 []" "tables_code cl = 0" using d by blast+
    then show thesis
      using build_good [of cl 7 19 "[]" "[]" st4, folded tables_code_def] that unfolding agree_def by (metis (no_types, lifting))
  qed
  let ?st5 = "st4\<lparr>hufts := x, zheap := hp\<rparr>"
  have pr: "proper cl" using d by (simp add: good_lengths_def)
  have w: "table_width cl 7 = max_length cl"
  proof -
    have "max_length cl \<le> 7" using lengths_between(4) [OF pr] d by auto
    then show ?thesis by (simp add: table_width_def)
  qed
  have sub: "set cl \<subseteq> {0..table_width cl 7}" using lengths_between(6) [OF pr] unfolding w by fastforce
  have w7: "table_width cl 7 \<le> 7" using lengths_between(4) [OF pr] d unfolding w by auto
  have at5: "at_bit f l4 ?st5 (P + 14 + 3 * nb)" using b(4) by (simp add: at_bit_def at_byte_def)
  have dec: "decodes (zheap ?st5) t (table_width cl 7) cl (leaf_fields 19 [] [])" using t(3) by simp
  have len: "length (code_lens cs 0) = length ll + length dl - 0" "length ll + length dl \<le> length ll4" using d b(2) by simp_all
  obtain l6 st6 where r: "read_lengths rd (Some t) (table_width cl 7) (length ll + length dl) 0 0 ll4 l4 ?st5 =
        Some (Some (take 0 ll4 @ code_lens cs 0 @ drop (length ll + length dl) ll4), l6, st6)"
      "at_bit f l6 st6 (P + width (lengths_fields nb cl cs ll dl))" "lk l6 \<le> 15" "same_output ?st5 st6"
    using read_lengths_coded [OF _ fs(5) _ sub w7 dec ts(3) at5 b(5) len(1) _ len(2)] d
    by (auto simp: lengths_fields_def add.assoc border_facts nb)
  let ?st7 = "st6\<lparr>zheap := (zheap st6)\<lparr>live := \<lambda>q. live (zheap st6) q \<and> \<not> (brk (zheap st4) \<le> q \<and> q < brk hp)\<rparr>\<rparr>"
  have heap: "zheap st6 = hp" "zheap st4 = zheap st"
    using same_output_fields(9) [OF r(4)] same_output_fields(9) [OF b(6)] same_output_fields(9) [OF so3] by simp_all
  have fr: "free_table (Some t) st6 = Some ?st7"
    using t(2) free_table_chain [of st6 "Some t"] heap(1) by (simp add: built_def)
  have live: "live (zheap ?st7) = live (zheap st)"
    using t(2) ts(6) by (fastforce simp: fun_eq_iff heap built_def sound_def)
  have "brk (zheap st) \<le> brk hp" using t(2) by (simp add: heap built_def chain_def)
  then have snd: "sound (zheap ?st7)" using live ts(6) by (fastforce simp: sound_def heap)
  have po: "put_out a m os (outcnt st) st6"
    using put_out_same_output [OF at(3) same_output_trans [OF so3 b(6)]] put_out_same_output [OF _ r(4), of a m os "outcnt st"]
    by (simp add: put_out_def written_def)
  have oc: "outcnt st6 = outcnt st"
    using same_output_fields(2) [OF r(4)] same_output_fields(2) [OF b(6)] same_output_fields(2) [OF so3] by simp
  have rd7: "ready f a m os (P + width (lengths_fields nb cl cs ll dl)) (store_bits l6 ?st7)"
    using store_bits_ready [of f l6 ?st7] r(2,3) po oc by (simp add: at_bit_def at_byte_def put_out_def written_def)
  have "holds f (P + width (lengths_fields nb cl cs ll dl)) (codes_fields ll dl ts)" using ts(2) by (simp add: dynamic_fields_def)
  note holds = this
  have "sound (zheap (store_bits l6 ?st7))" using snd by (simp add: store_bits_def)
  then obtain st' where c: "dynamic_codes rd ll dl (store_bits l6 ?st7) = Some (Inr (0, st'))"
      "ready f a m (expand ts os) (P + width (dynamic_fields nb cl cs ll dl ts)) st'" "kept (store_bits l6 ?st7) st'"
    using dynamic_codes_tokens [OF _ _ _ _ _ _ ts(1) holds ts(3) rd7 ts(5)] d
    unfolding dynamic_fields_def width_simps add.assoc by blast
  have "inflate_dynamic rd st = Some (Inr (0, st'))"
    using n1(1,2) n2(1,2) n3(1,2) b(1) cl t(1) r(1) fr c(1) d sums
    by (simp add: inflate_dynamic_def Let_def low_masks)
  moreover have "kept st (store_bits l6 ?st7)"
    using same_output_fields(10-12) [OF r(4)] same_output_fields(10-12) [OF b(6)] same_output_fields(10-12) [OF so3] live snd
    by (simp add: kept_def store_bits_def)
  ultimately show ?thesis using c(2) kept_trans [OF _ c(3)] by blast
qed

end
