(* ===== verification/Inflate_File.thy ===== *)
theory Inflate_File
  imports Inflate_Dynamic
begin

text \<open>
  A compressed file as a list of blocks: \<open>inflate\<close> on the bits of the blocks writes what the blocks stand for
  to the destination.
\<close>

subsection \<open>Blocks\<close>

datatype block =
  Stored "u8 list"
| Fixed "token list"
| Dynamic nat "nat list" "len_code list" "nat list" "nat list" "token list"

fun block_type :: "block \<Rightarrow> nat" where
  "block_type (Stored bs) = 0"
| "block_type (Fixed ts) = 1"
| "block_type (Dynamic nb cl cs ll dl ts) = 2"

fun block_ok :: "block \<Rightarrow> u8 list \<Rightarrow> bool" where
  "block_ok (Stored bs) os \<longleftrightarrow> length bs < 65536"
| "block_ok (Fixed ts) os \<longleftrightarrow> tokens_ok fixed_lengths fixed_distances ts os"
| "block_ok (Dynamic nb cl cs ll dl ts) os \<longleftrightarrow> dynamic_ok nb cl cs ll dl \<and> tokens_ok ll dl ts os"

fun block_out :: "block \<Rightarrow> u8 list \<Rightarrow> u8 list" where
  "block_out (Stored bs) os = os @ bs"
| "block_out (Fixed ts) os = expand ts os"
| "block_out (Dynamic nb cl cs ll dl ts) os = expand ts os"

text \<open>After the three bits of its head a stored block goes on at the next byte.\<close>

fun block_start :: "block \<Rightarrow> nat \<Rightarrow> nat" where
  "block_start (Stored bs) P = byte_up (P + 3)"
| "block_start b P = P + 3"

fun block_fields :: "block \<Rightarrow> fields" where
  "block_fields (Stored bs) = stored_fields bs"
| "block_fields (Fixed ts) = codes_fields fixed_lengths fixed_distances ts"
| "block_fields (Dynamic nb cl cs ll dl ts) = dynamic_fields nb cl cs ll dl ts"

definition block_end :: "block \<Rightarrow> nat \<Rightarrow> nat" where
  "block_end b P = block_start b P + width (block_fields b)"

definition block_holds :: "contents \<Rightarrow> nat \<Rightarrow> bool \<Rightarrow> block \<Rightarrow> bool" where
  "block_holds f P final b \<longleftrightarrow> holds f P [(1, of_bool final), (2, block_type b)] \<and> holds f (block_start b P) (block_fields b)"

fun blocks_hold :: "contents \<Rightarrow> nat \<Rightarrow> block list \<Rightarrow> bool" where
  "blocks_hold f P [] = True"
| "blocks_hold f P (b # bs) \<longleftrightarrow> block_holds f P (bs = []) b \<and> blocks_hold f (block_end b P) bs"

fun blocks_end :: "block list \<Rightarrow> nat \<Rightarrow> nat" where
  "blocks_end [] P = P"
| "blocks_end (b # bs) P = blocks_end bs (block_end b P)"

fun blocks_ok :: "block list \<Rightarrow> u8 list \<Rightarrow> bool" where
  "blocks_ok [] os = True"
| "blocks_ok (b # bs) os \<longleftrightarrow> block_ok b os \<and> blocks_ok bs (block_out b os)"

fun blocks_out :: "block list \<Rightarrow> u8 list \<Rightarrow> u8 list" where
  "blocks_out [] os = os"
| "blocks_out (b # bs) os = blocks_out bs (block_out b os)"

lemma block_out_length: "length os \<le> length (block_out b os)"
  by (cases b) (simp_all add: expand_length)

lemma blocks_out_length: "length os \<le> length (blocks_out bs os)"
  by (induction bs arbitrary: os) (use block_out_length le_trans in \<open>simp, fastforce\<close>)

subsection \<open>One block\<close>

lemma first_bit: "at_bit f l st P \<Longrightarrow> 1 \<le> lk l \<Longrightarrow> fnum f P 1 = of_bool q \<Longrightarrow> (lb l AND 1 \<noteq> 0) = q"
proof -
  assume "at_bit f l st P" "1 \<le> lk l" "fnum f P 1 = of_bool q"
  then have "unat (lb l) mod 2 = of_bool q" using fnum_mod [of 1 "lk l" f P] by (simp add: at_bit_def)
  moreover have "unat (lb l AND 1) = unat (lb l) mod 2" using unat_and_mask [of "lb l" 1] by (simp add: mask_eq_exp_minus_1)
  ultimately show ?thesis by (auto simp: word_eq_iff_unat)
qed

lemma inflate_block_out:
  assumes "block_holds f P final b" "block_ok b os" "reads f rd" "ready f a m os P st"
    "unat a + length (block_out b os) < 2 ^ 64" "sound (zheap st)"
  shows "\<exists>st'. inflate_block rd st = Some (Inr (0, final, st')) \<and> ready f a m (block_out b os) (block_end b P) st' \<and> kept st st'"
proof -
  have at: "at_bit f (load st) st P" "lk (load st) \<le> 15" "put_out a m os (outcnt st) st" using assms(4) by (simp_all add: ready_def)
  have fs: "fnum f P 1 = of_bool final" "fnum f (P + 1) 2 = block_type b" "holds f (block_start b P) (block_fields b)"
    using assms(1) by (simp_all add: block_holds_def)
  obtain l1 st1 where n1: "needbits rd 1 (load st) st = (l1, st1)" "at_bit f l1 st1 P" "1 \<le> lk l1" "lk l1 \<le> 15" "same_output st st1"
    using needbits_at [OF assms(3) at(1), of 1] at(2) by auto
  have e: "(lb l1 AND 1 \<noteq> 0) = final" using first_bit [OF n1(2,3) fs(1)] .
  note d1 = dumpbits_at [OF n1(2,3)]
  obtain l2 st2 where n2: "needbits rd 2 (dumpbits 1 l1) st1 = (l2, st2)" "unat ((ucast (lb l2) :: u32) AND mask 2) = block_type b"
      "at_bit f (dumpbits 2 l2) st2 (P + 3)" "lk (dumpbits 2 l2) \<le> 15" "same_output st1 st2"
  proof -
    have "lk (dumpbits 1 l1) \<le> 15" "P + 1 + 2 = P + 3" using d1(2) n1(4) by simp_all
    then show thesis using small_field [OF assms(3) d1(1) _ _ fs(2)] that by (auto simp: numeral_3_eq_3)
  qed
  let ?st = "store_bits (dumpbits 2 l2) st2"
  have so: "same_output st st2" using same_output_trans [OF n1(5) n2(5)] .
  have "put_out a m os (outcnt st2) st2" using put_out_same_output [OF at(3) so] same_output_fields(2) [OF so] by simp
  then have rdy: "ready f a m os (P + 3) ?st" using store_bits_ready n2(3,4) by blast
  have kp: "kept st ?st" using same_output_fields(9-12) [OF so] by (simp add: kept_def store_bits_def)
  have snd: "sound (zheap ?st)" using kp assms(6) by (simp add: kept_def)
  have block: "inflate_block rd st = (if block_type b = 2 then map_option (map_sum id (\<lambda>(r, st). (r, final, st))) (inflate_dynamic rd ?st)
       else if block_type b = 0 then (let (r, st) = inflate_stored rd ?st in Some (Inr (r, final, st)))
       else if block_type b = 1 then map_option (\<lambda>(r, st). Inr (r, final, st)) (inflate_fixed rd ?st)
       else Some (Inr (2, final, ?st)))"
    using n1(1) n2(1,2) e by (simp add: inflate_block_def Let_def low_masks(2))
  show ?thesis
  proof (cases b)
    case (Stored bs)
    obtain st' where "inflate_stored rd ?st = (0, st')" "ready f a m (os @ bs) (byte_up (P + 3) + width (stored_fields bs)) st'" "kept ?st st'"
      using inflate_stored_bytes [OF _ _ assms(3) rdy, of bs] fs(3) assms(2,5) by (auto simp: Stored add.assoc)
    then show ?thesis using block kept_trans [OF kp] by (simp add: Stored block_end_def)
  next
    case (Fixed ts)
    have "holds f (P + 3) (codes_fields fixed_lengths fixed_distances ts)" using fs(3) by (simp add: Fixed)
    moreover have "tokens_ok fixed_lengths fixed_distances ts os" using assms(2) by (simp add: Fixed)
    ultimately obtain st' where "inflate_fixed rd ?st = Some (0, st')" "kept ?st st'"
        "ready f a m (expand ts os) (P + 3 + width (codes_fields fixed_lengths fixed_distances ts)) st'"
      using inflate_fixed_tokens [OF _ _ assms(3) rdy _ snd, of ts] assms(5) by (auto simp: Fixed)
    then show ?thesis using block kept_trans [OF kp] by (simp add: Fixed block_end_def)
  next
    case (Dynamic nb cl cs ll dl ts)
    have "holds f (P + 3) (dynamic_fields nb cl cs ll dl ts)" using fs(3) by (simp add: Dynamic)
    moreover have "dynamic_ok nb cl cs ll dl" "tokens_ok ll dl ts os" using assms(2) by (simp_all add: Dynamic)
    ultimately obtain st' where "inflate_dynamic rd ?st = Some (Inr (0, st'))" "kept ?st st'"
        "ready f a m (expand ts os) (P + 3 + width (dynamic_fields nb cl cs ll dl ts)) st'"
      using inflate_dynamic_tokens [OF _ _ _ assms(3) rdy _ snd, of nb cl cs ll dl ts] assms(5) by (auto simp: Dynamic)
    then show ?thesis using block kept_trans [OF kp] by (simp add: Dynamic block_end_def)
  qed
qed

subsection \<open>All blocks\<close>

lemma inflate_blocks_out:
  assumes "bs \<noteq> []" "blocks_hold f P bs" "blocks_ok bs os" "reads f rd" "ready f a m os P st"
    "unat a + length (blocks_out bs os) < 2 ^ 64" "sound (zheap st)"
  shows "\<exists>st'. inflate_blocks rd st = Some (Inr (0, st')) \<and> ready f a m (blocks_out bs os) (blocks_end bs P) st' \<and> kept st st'"
  using assms
proof (induction bs arbitrary: P os st)
  case (Cons b bs)
  let ?st = "st\<lparr>hufts := 0\<rparr>"
  have "unat a + length (block_out b os) < 2 ^ 64"
    using Cons.prems(6) blocks_out_length [of "block_out b os" bs] by simp
  moreover have "ready f a m os P ?st" "sound (zheap ?st)" "kept st ?st" using Cons.prems(5,7) by (simp_all add: kept_def)
  ultimately obtain st1 where b: "inflate_block rd ?st = Some (Inr (0, bs = [], st1))"
      "ready f a m (block_out b os) (block_end b P) st1" "kept st st1"
    using inflate_block_out [of f P "bs = []" b os rd a m ?st] Cons.prems(2-4) kept_trans by fastforce
  show ?case
  proof (cases "bs = []")
    case True
    then show ?thesis using b by (simp add: inflate_blocks.simps [of rd st])
  next
    case False
    have "sound (zheap st1)" using b(3) Cons.prems(7) by (simp add: kept_def)
    then obtain st' where "inflate_blocks rd st1 = Some (Inr (0, st'))"
        "ready f a m (blocks_out bs (block_out b os)) (blocks_end bs (block_end b P)) st'" "kept st1 st'"
      using Cons.IH [OF False, of "block_end b P" "block_out b os" st1] Cons.prems(2-4,6) b(2) by auto
    then show ?thesis using b False kept_trans [OF b(3)] by (simp add: inflate_blocks.simps [of rd st])
  qed
qed simp

text \<open>The byte after the last bit; at most one whole byte was read too far.\<close>

lemma undo_lookahead_at:
  assumes "at_bit f (load st) st P" "bk st \<le> 15"
  shows "\<exists>k p. undo_lookahead (bk st) (inptr st) = (k, p) \<and> k = bk st mod 8 \<and>
    at_byte f (st\<lparr>bk := k, inptr := p\<rparr>) (byte_up P div 8)"
proof -
  obtain q where q: "at_byte f st q" "8 * q = P + bk st" "8 \<le> bk st \<longrightarrow> 1 \<le> inptr st"
    using assms(1) by (auto simp: at_bit_def)
  have up: "byte_up P = P + bk st mod 8" using byte_up_eq [OF q(2)] by simp
  show ?thesis
  proof (cases "bk st < 8")
    case True
    then have "byte_up P div 8 = q" using up q(2) by simp
    then show ?thesis using True q(1) by (simp add: undo_lookahead.simps [of "bk st"] at_byte_def)
  next
    case False
    then have k: "bk st = 8 + bk st mod 8" using assms(2) by (simp add: mod_if [of "bk st"])
    then have "8 * (q - 1) = byte_up P" using up q(2) by (simp add: diff_mult_distrib2)
    then have p: "byte_up P div 8 = q - 1" by (metis nonzero_mult_div_cancel_left zero_neq_numeral)
    have ip: "1 \<le> inptr st" using q(3) False by simp
    then have u: "unat (inptr st - 1) = unat (inptr st) - 1" "1 \<le> unat (inptr st)"
      by (simp_all add: unat_sub_no_wrap word_le_nat_alt)
    have "1 \<le> q" using q(2) False by simp
    moreover have "inptr st \<noteq> 0" using ip by auto
    ultimately have "at_byte f (st\<lparr>bk := bk st mod 8, inptr := inptr st - 1\<rparr>) (q - 1)"
      using q(1) u by (auto simp: at_byte_def word_le_nat_alt)
    moreover have "undo_lookahead (bk st) (inptr st) = (bk st mod 8, inptr st - 1)"
    proof -
      have "undo_lookahead (bk st) (inptr st) = undo_lookahead (bk st - 8) (inptr st - 1)"
        using False by (subst undo_lookahead.simps) simp
      also have "bk st - 8 = bk st mod 8" using k by linarith
      also have "undo_lookahead (bk st mod 8) (inptr st - 1) = (bk st mod 8, inptr st - 1)"
        using mod_less_divisor [of 8 "bk st"] by (subst undo_lookahead.simps) (simp del: mod_less_divisor)
      finally show ?thesis .
    qed
    ultimately show ?thesis using p by simp
  qed
qed

lemma put_out_flush:
  assumes "put_out a m os (outcnt st) st" "unat a + length os < 2 ^ 64"
  shows "written a m os (flush_output (outcnt st) st)"
proof -
  have w: "unat (outcnt st) = length os mod 32768" using assms(1) by (simp add: put_out_def)
  let ?B = "length os - length os mod 32768"
  have "window st i = drop ?B os ! i" if "i < unat (outcnt st)" for i
  proof -
    have lt: "?B + i < length os" "i < 32768"
      using that w flushed_bounds(1,3) [of os] mod_less_divisor [of 32768 "length os"] by simp_all
    obtain c where "?B = 32768 * c" using flushed_bounds(2) [of os] by (elim dvdE)
    then have "(?B + i) mod 32768 = i" using lt(2) by simp
    then show ?thesis using assms(1) lt flushed_bounds(3) [of os] by (auto simp: put_out_def in_window_def dest!: spec [of _ "?B + i"])
  qed
  then have "written a m (take ?B os @ drop ?B os) (flush_output (outcnt st) st)"
    using assms w flushed_bounds(1,3) [of os] by (intro flush_written) (auto simp: put_out_def flushed_def)
  then show ?thesis by simp
qed

lemma inflate_out:
  assumes "bs \<noteq> []" "blocks_hold f (8 * p) bs" "blocks_ok bs []" "reads f rd" "at_byte f st p"
    "written a m [] st" "unat a + length (blocks_out bs []) < 2 ^ 64" "sound (zheap st)"
  shows "\<exists>st'. inflate rd st = Some (Inr (0, st')) \<and> written a m (blocks_out bs []) st' \<and>
    at_byte f st' (byte_up (blocks_end bs (8 * p)) div 8) \<and> kept st st'"
proof -
  let ?st = "st\<lparr>outcnt := 0, bk := 0, bb := 0\<rparr>"
  have "ready f a m [] (8 * p) ?st" "kept st ?st" "sound (zheap ?st)"
    using assms(5,6,8)
    by (auto simp: ready_def at_bit_def load_def put_out_def in_window_def flushed_def written_def at_byte_def kept_def)
  then obtain st1 where b: "inflate_blocks rd ?st = Some (Inr (0, st1))"
      "ready f a m (blocks_out bs []) (blocks_end bs (8 * p)) st1" "kept st st1"
    using inflate_blocks_out [OF assms(1-4)] assms(7) kept_trans by meson
  obtain k q where u: "undo_lookahead (bk st1) (inptr st1) = (k, q)"
      "at_byte f (st1\<lparr>bk := k, inptr := q\<rparr>) (byte_up (blocks_end bs (8 * p)) div 8)"
    using undo_lookahead_at [of f st1 "blocks_end bs (8 * p)"] b(2) unfolding ready_def by blast
  let ?st1 = "st1\<lparr>bk := k, inptr := q\<rparr>"
  have "put_out a m (blocks_out bs []) (outcnt ?st1) ?st1" using b(2) by (simp add: ready_def put_out_def written_def)
  then have w: "written a m (blocks_out bs []) (flush_output (outcnt ?st1) ?st1)" by (rule put_out_flush) (rule assms(7))
  note same = same_input_fields [OF same_input_flush [of ?st1 "outcnt ?st1"]]
  have "at_byte f (flush_output (outcnt ?st1) ?st1) (byte_up (blocks_end bs (8 * p)) div 8)"
    using u(2) same by (simp add: at_byte_def)
  moreover have "kept st (flush_output (outcnt ?st1) ?st1)" using b(3) same by (simp add: kept_def)
  ultimately show ?thesis using b(1) u(1) w by (simp add: inflate_def)
qed

end
