(* ===== verification/Unzip.thy ===== *)
theory Unzip
  imports Inflate
begin

text \<open>
  The headers and trailers of a compressed file: \<open>get_method\<close> and \<open>uncompress_kernel\<close> of
  \<open>zip/misc.c\<close>, \<open>unzip\<close> of \<open>zip/unzip.c\<close>. \<open>Inl\<close> is a message after which the machine is halted.
\<close>

subsection \<open>The gzip header\<close>

definition clear_bufs :: "zip \<Rightarrow> zip" where
  "clear_bufs st = st\<lparr>block_number := 0, outcnt := 0, insize := 0, inptr := 0, bytes_out := 0\<rparr>"

fun get_bytes :: "reader \<Rightarrow> nat \<Rightarrow> zip \<Rightarrow> u8 list \<times> zip" where
  "get_bytes rd 0 st = ([], st)"
| "get_bytes rd (Suc n) st =
     (let (c, st) = get_byte rd st; (cs, st) = get_bytes rd n st in (c # cs, st))"

text \<open>\<open>while (get_byte() != 0);\<close>\<close>

partial_function (option) skip_name :: "reader \<Rightarrow> zip \<Rightarrow> zip option" where
  "skip_name rd st = (let (c, st) = get_byte rd st in if c \<noteq> 0 then skip_name rd st else Some st)"

definition GZIP_MAGIC :: "u8 list" where "GZIP_MAGIC = [0x1f, 0x8b]"

definition OLD_GZIP_MAGIC :: "u8 list" where "OLD_GZIP_MAGIC = [0x1f, 0x9e]"

definition CONTINUATION :: u8 where "CONTINUATION = 0x02"

definition EXTRA_FIELD :: u8 where "EXTRA_FIELD = 0x04"

definition ORIG_NAME :: u8 where "ORIG_NAME = 0x08"

definition COMMENT :: u8 where "COMMENT = 0x10"

definition ENCRYPTED :: u8 where "ENCRYPTED = 0x20"

definition RESERVED :: u8 where "RESERVED = 0xC0"

definition skip_extra :: "reader \<Rightarrow> u8 \<Rightarrow> zip \<Rightarrow> zip" where
  "skip_extra rd flags st =
     (if flags AND EXTRA_FIELD \<noteq> 0 then
        let (lo, st) = get_byte rd st;
            (hi, st) = get_byte rd st;
            len = (ucast lo :: u32) OR push_bit 8 (ucast hi)
        in snd (get_bytes rd (unat len) st)
      else st)"

definition get_method :: "reader \<Rightarrow> zip \<Rightarrow> (int \<times> zip) option" where
  "get_method rd st =
     (let (magic, st) = get_bytes rd 2 st;
          st = st\<lparr>zmethod := - 1\<rparr>
      in if magic = GZIP_MAGIC \<or> magic = OLD_GZIP_MAGIC then
           let (m, st) = get_byte rd st;
               st = st\<lparr>zmethod := uint m\<rparr>;
               (flags, st) = get_byte rd st
           in if flags AND ENCRYPTED \<noteq> 0 then Some (- 1, st)
              else if flags AND CONTINUATION \<noteq> 0 then Some (- 1, st)
              else if flags AND RESERVED \<noteq> 0 then Some (- 1, st)
              else
                let (_, st) = get_bytes rd 6 st;
                    st = skip_extra rd flags st
                in do {
                     st \<leftarrow> (if flags AND ORIG_NAME \<noteq> 0 then skip_name rd st else Some st);
                     st \<leftarrow> (if flags AND COMMENT \<noteq> 0 then skip_name rd st else Some st);
                     Some (zmethod st, st)
                   }
         else Some (zmethod st, st))"

subsection \<open>Unzip\<close>

text \<open>Values of two and four bytes, the lowest first.\<close>

definition SH :: "u8 list \<Rightarrow> nat \<Rightarrow> u16" where
  "SH b p = ucast (b ! p) OR push_bit 8 (ucast (b ! (p + 1)))"

definition LG :: "u8 list \<Rightarrow> nat \<Rightarrow> u64" where
  "LG b p = ucast (SH b p) OR push_bit 16 (ucast (SH b (p + 2)))"

definition inbytes :: "zip \<Rightarrow> nat \<Rightarrow> u8 list" where
  "inbytes st n = map (inbuf st) [0..<n]"

text \<open>\<open>put_char\<close>: a full window is written out, the position is not set back.\<close>

definition put_char :: "u8 \<Rightarrow> zip \<Rightarrow> zip" where
  "put_char c st =
     (let st = st\<lparr>window := (window st)(unat (outcnt st) := c), outcnt := outcnt st + 1\<rparr>
      in if outcnt st = WSIZE then flush_window st else st)"

fun put_stored :: "reader \<Rightarrow> nat \<Rightarrow> zip \<Rightarrow> zip" where
  "put_stored rd 0 st = st"
| "put_stored rd (Suc n) st = (let (c, st) = get_byte rd st in put_stored rd n (put_char c st))"

definition DEFLATED :: int where "DEFLATED = 8"

definition STORED :: int where "STORED = 0"

definition LOCSIG :: u64 where "LOCSIG = 0x04034b50"

definition decompress :: "reader \<Rightarrow> zip \<Rightarrow> (string + zip) option" where
  "decompress rd st =
     (if zmethod st = DEFLATED then
        map_option (\<lambda>res. case res of
            Inl msg \<Rightarrow> Inl msg
          | Inr (r, st) \<Rightarrow> if r = 3 then Inl ''out of memory''
              else if r \<noteq> 0 then Inl ''invalid compressed format'' else Inr st) (inflate rd st)
      else if pkzip st \<and> zmethod st = STORED then
        (let n = LG (inbytes st 30) 22
         in Some (if n \<noteq> LG (inbytes st 30) 18 then Inl ''length mismatch''
                  else Inr (put_stored rd (unat n) st)))
      else Some (Inl ''internal error, invalid method''))"

text \<open>The length at the end; the check sum is read and not compared.\<close>

definition original_length :: "reader \<Rightarrow> u64 \<Rightarrow> zip \<Rightarrow> u64 \<times> zip" where
  "original_length rd len st =
     (if \<not> pkzip st then let (buf, st) = get_bytes rd 8 st in (LG buf 4, st)
      else if extended st then let (buf, st) = get_bytes rd 16 st in (LG buf 12, st)
      else (len, st))"

definition more_entries :: "zip \<Rightarrow> bool" where
  "more_entries st \<longleftrightarrow> pkzip st \<and> inptr st + 4 < insize st \<and>
     LG (map (\<lambda>i. inbuf st (unat (inptr st) + i)) [0..<4]) 0 = LOCSIG"

definition unzip :: "reader \<Rightarrow> zip \<Rightarrow> (string + zip) option" where
  "unzip rd st =
     (let len = (if pkzip st \<and> \<not> extended st then LG (inbytes st 30) 22 else 0)
      in map_option (\<lambda>res. case res of
           Inl msg \<Rightarrow> Inl msg
         | Inr st \<Rightarrow>
             let (len, st) = original_length rd len st
             in if len \<noteq> bytes_out st then Inl ''length error''
                else if more_entries st then Inl ''zip file has more than one entry''
                else Inr (st\<lparr>extended := False, pkzip := False\<rparr>)) (decompress rd st))"

text \<open>
  \<open>uncompress_kernel\<close>, with the contents of the two buffers it allocates; its result and the state.
\<close>

definition uncompress_kernel :: "reader \<Rightarrow> u64 \<Rightarrow> (nat \<Rightarrow> u8) \<Rightarrow> (nat \<Rightarrow> u8) \<Rightarrow> zip \<Rightarrow> (string + int \<times> zip) option" where
  "uncompress_kernel rd dest buf win st =
     (let st = clear_bufs (st\<lparr>inbuf := buf, window := win, dest_addr := dest\<rparr>) in do {
        (m, st) \<leftarrow> get_method rd st;
        let st = st\<lparr>zmethod := m\<rparr>;
        if m < 0 then Some (Inr (- 1, st))
        else map_option (map_sum id (\<lambda>st. (0, st))) (unzip rd st)
      })"

declare skip_name.simps [code]

end
