(* ===== verification/Gzip_File.thy ===== *)
theory Gzip_File
  imports Inflate_File Unzip
begin

text \<open>
  A gzip file as a head, blocks and a trailer: \<open>uncompress_kernel\<close> on its bytes writes the contents to the
  destination and gives back the heap.
\<close>

subsection \<open>Bytes of the file\<close>

fun bytes_at :: "contents \<Rightarrow> nat \<Rightarrow> u8 list \<Rightarrow> bool" where
  "bytes_at f p [] = True"
| "bytes_at f p (x # xs) \<longleftrightarrow> f p = x \<and> bytes_at f (Suc p) xs"

lemma bytes_at_append [simp]: "bytes_at f p (xs @ ys) \<longleftrightarrow> bytes_at f p xs \<and> bytes_at f (p + length xs) ys"
  by (induction xs arbitrary: p) simp_all

lemma at_byte_fields [simp]:
  "at_byte f (st\<lparr>zmethod := x\<rparr>) p = at_byte f st p" "at_byte f (st\<lparr>hufts := y\<rparr>) p = at_byte f st p"
  by (simp_all add: at_byte_def)

lemma one_byte:
  assumes "reads f rd" "at_byte f st p"
  shows "\<exists>st'. get_byte rd st = (f p, st') \<and> at_byte f st' (Suc p) \<and> same_output st st'"
  using get_byte_at [OF assms] by (metis prod.collapse)

lemma get_bytes_at:
  assumes "reads f rd" "at_byte f st p" "bytes_at f p xs"
  shows "\<exists>st'. get_bytes rd (length xs) st = (xs, st') \<and> at_byte f st' (p + length xs) \<and> same_output st st'"
  using assms(2,3)
proof (induction xs arbitrary: p st)
  case (Cons x xs)
  obtain st1 where b: "get_byte rd st = (f p, st1)" "at_byte f st1 (Suc p)" "same_output st st1"
    using one_byte [OF assms(1) Cons.prems(1)] by blast
  then obtain st' where "get_bytes rd (length xs) st1 = (xs, st')" "at_byte f st' (Suc p + length xs)" "same_output st1 st'"
    using Cons.IH [of st1 "Suc p"] Cons.prems(2) by auto
  then show ?case using b Cons.prems(2) same_output_trans [OF b(3)] by simp
qed simp

lemma skip_name_at:
  assumes "reads f rd" "at_byte f st p" "bytes_at f p (xs @ [0])" "0 \<notin> set xs"
  shows "\<exists>st'. skip_name rd st = Some st' \<and> at_byte f st' (p + length xs + 1) \<and> same_output st st'"
  using assms(2-4)
proof (induction xs arbitrary: p st)
  case Nil
  then show ?case using one_byte [OF assms(1) Nil.prems(1)] by (auto simp: skip_name.simps [of rd st])
next
  case (Cons x xs)
  obtain st1 where b: "get_byte rd st = (f p, st1)" "at_byte f st1 (Suc p)" "same_output st st1"
    using one_byte [OF assms(1) Cons.prems(1)] by blast
  then obtain st' where "skip_name rd st1 = Some st'" "at_byte f st' (Suc p + length xs + 1)" "same_output st1 st'"
    using Cons.IH [of st1 "Suc p"] Cons.prems(2,3) by auto
  then show ?case using b Cons.prems(2,3) same_output_trans [OF b(3)] by (simp add: skip_name.simps [of rd st])
qed

subsection \<open>Numbers of two and four bytes\<close>

definition le16 :: "nat \<Rightarrow> u8 list" where
  "le16 n = [of_nat n, of_nat (n div 256)]"

definition le32 :: "nat \<Rightarrow> u8 list" where
  "le32 n = le16 n @ le16 (n div 65536)"

lemma length_le [simp]: "length (le16 n) = 2" "length (le32 n) = 4"
  by (simp_all add: le16_def le32_def)

lemma unat_or_push:
  fixes x y :: "'a::len word"
  assumes "unat x < 2 ^ k" "unat y * 2 ^ k < 2 ^ LENGTH('a)"
  shows "unat (x OR push_bit k y) = unat x + 2 ^ k * unat y"
proof -
  have "unat (push_bit k y) = unat y * 2 ^ k"
    unfolding unsigned_push_bit_eq using assms(2) by (simp add: push_bit_eq_mult take_bit_nat_eq_self)
  then show ?thesis using or_push [OF assms(1), of "unat y"] by (simp add: unsigned_or_eq push_bit_eq_mult mult.commute)
qed

lemma unat_SH: "unat (SH b p) = unat (b ! p) + 256 * unat (b ! (p + 1))"
proof -
  have "unat (x :: u8) < 256" for x using unsigned_less [of x] by simp
  then have "unat (b ! p) < 256" "unat (b ! (p + 1)) < 256" by blast+
  then show ?thesis using unat_or_push [of "ucast (b ! p) :: u16" 8 "ucast (b ! (p + 1))"] by (simp add: SH_def unat_ucast_mod)
qed

lemma unat_LG: "unat (LG b p) = unat (SH b p) + 65536 * unat (SH b (p + 2))"
proof -
  have "unat (x :: u16) < 65536" for x using unsigned_less [of x] by simp
  then have "unat (SH b p) < 65536" "unat (SH b (p + 2)) < 65536" by blast+
  then show ?thesis using unat_or_push [of "ucast (SH b p) :: u64" 16 "ucast (SH b (p + 2))"] by (simp add: LG_def unat_ucast_mod)
qed

lemma LG_le32: "length xs = p \<Longrightarrow> n < 2 ^ 32 \<Longrightarrow> LG (xs @ le32 n) p = of_nat n"
proof -
  assume xs: "length xs = p" and n: "n < 2 ^ 32"
  let ?b = "xs @ le32 n"
  have nth: "?b ! p = of_nat n" "?b ! (p + 1) = of_nat (n div 256)" "?b ! (p + 2) = of_nat (n div 65536)"
      "?b ! (p + 2 + 1) = of_nat (n div 65536 div 256)"
    using xs by (simp_all add: nth_append le32_def le16_def)
  have "unat (LG ?b p) =
      n mod 256 + 256 * (n div 256 mod 256) + 65536 * (n div 65536 mod 256 + 256 * (n div 65536 div 256 mod 256))"
    unfolding unat_LG unat_SH nth by (simp add: unat_of_nat)
  also have "n mod 256 + 256 * (n div 256 mod 256) = n mod 65536" using mod_mult2_eq [of n 256 256] by simp
  also have "n div 65536 mod 256 + 256 * (n div 65536 div 256 mod 256) = n div 65536"
  proof -
    have "n div 65536 < 256 * 256" using n by (intro less_mult_imp_div_less) simp
    then have "n div 65536 div 256 < 256" by (intro less_mult_imp_div_less) simp
    then have "n div 65536 div 256 mod 256 = n div 65536 div 256" by (rule mod_less)
    then show ?thesis by (simp only: mod_mult_div_eq)
  qed
  finally show ?thesis using n by (simp add: word_eq_iff_unat unat_of_nat)
qed

subsection \<open>The head\<close>

record gzip_head =
  gz_flags :: u8
  gz_stamp :: "u8 list"
  gz_extra :: "u8 list"
  gz_name :: "u8 list"
  gz_comment :: "u8 list"

definition head_bytes :: "gzip_head \<Rightarrow> u8 list" where
  "head_bytes h = GZIP_MAGIC @ [8, gz_flags h] @ gz_stamp h @
     (if gz_flags h AND EXTRA_FIELD \<noteq> 0 then le16 (length (gz_extra h)) @ gz_extra h else []) @
     (if gz_flags h AND ORIG_NAME \<noteq> 0 then gz_name h @ [0] else []) @
     (if gz_flags h AND COMMENT \<noteq> 0 then gz_comment h @ [0] else [])"

definition head_ok :: "gzip_head \<Rightarrow> bool" where
  "head_ok h \<longleftrightarrow> gz_flags h AND ENCRYPTED = 0 \<and> gz_flags h AND CONTINUATION = 0 \<and> gz_flags h AND RESERVED = 0 \<and>
     length (gz_stamp h) = 6 \<and> length (gz_extra h) < 65536 \<and> 0 \<notin> set (gz_name h) \<and> 0 \<notin> set (gz_comment h)"

lemma skip_extra_at:
  assumes "reads f rd" "at_byte f st p" "length xs < 65536"
    and "bytes_at f p (if flags AND EXTRA_FIELD \<noteq> 0 then le16 (length xs) @ xs else [])"
  shows "at_byte f (skip_extra rd flags st) (p + length (if flags AND EXTRA_FIELD \<noteq> 0 then le16 (length xs) @ xs else [])) \<and>
    same_output st (skip_extra rd flags st)"
proof (cases "flags AND EXTRA_FIELD = 0")
  case False
  then have b: "f p = of_nat (length xs)" "f (Suc p) = of_nat (length xs div 256)" "bytes_at f (Suc (Suc p)) xs"
    using assms(4) by (simp_all add: le16_def)
  obtain st1 where s1: "get_byte rd st = (f p, st1)" "at_byte f st1 (Suc p)" "same_output st st1"
    using one_byte [OF assms(1,2)] by blast
  obtain st2 where s2: "get_byte rd st1 = (f (Suc p), st2)" "at_byte f st2 (Suc (Suc p))" "same_output st1 st2"
    using one_byte [OF assms(1) s1(2)] by blast
  obtain st' where s3: "get_bytes rd (length xs) st2 = (xs, st')" "at_byte f st' (Suc (Suc p) + length xs)" "same_output st2 st'"
    using get_bytes_at [OF assms(1) s2(2) b(3)] by blast
  have small: "unat (x :: u8) < 256" for x using unsigned_less [of x] by simp
  have same: "unat (ucast (x :: u8) :: u32) = unat x" for x
    using less_le_trans [OF small [of x], of "2 ^ 32"] by (simp add: unat_ucast_mod)
  have "unat ((ucast (f p) :: u32) OR push_bit 8 (ucast (f (Suc p)))) = unat (f p) + 256 * unat (f (Suc p))"
    using unat_or_push [of "ucast (f p) :: u32" 8 "ucast (f (Suc p))"] small [of "f p"] small [of "f (Suc p)"]
    by (simp add: same)
  also have "\<dots> = length xs mod 256 + 256 * (length xs div 256)"
    using assms(3) less_mult_imp_div_less [of "length xs" 256 256] by (simp add: b unat_of_nat)
  also have "\<dots> = length xs" by (rule mod_mult_div_eq)
  finally have n: "unat ((ucast (f p) :: u32) OR push_bit 8 (ucast (f (Suc p)))) = length xs" .
  have "skip_extra rd flags st = st'" using False s1(1) s2(1) s3(1) n by (simp add: skip_extra_def)
  then show ?thesis
    using False s3(2) same_output_trans [OF s1(3) same_output_trans [OF s2(3) s3(3)]] by simp
qed (use assms(2) in \<open>simp add: skip_extra_def\<close>)

lemma skip_name_if:
  assumes "reads f rd" "at_byte f st p" "0 \<notin> set xs" "bytes_at f p (if c then xs @ [0] else [])"
  shows "\<exists>st'. (if c then skip_name rd st else Some st) = Some st' \<and>
    at_byte f st' (p + length (if c then xs @ [0] else [])) \<and> same_output st st'"
  using skip_name_at [OF assms(1,2) _ assms(3)] assms(2,4) by (cases c) auto

lemma get_method_head:
  assumes "reads f rd" "at_byte f st 0" "head_ok h" "bytes_at f 0 (head_bytes h)"
  shows "\<exists>st'. get_method rd st = Some (8, st') \<and> at_byte f st' (length (head_bytes h)) \<and> same_output (st\<lparr>zmethod := 8\<rparr>) st'"
proof -
  let ?e = "if gz_flags h AND EXTRA_FIELD \<noteq> 0 then le16 (length (gz_extra h)) @ gz_extra h else []"
  let ?n = "if gz_flags h AND ORIG_NAME \<noteq> 0 then gz_name h @ [0] else []"
  let ?c = "if gz_flags h AND COMMENT \<noteq> 0 then gz_comment h @ [0] else []"
  have h: "head_bytes h = GZIP_MAGIC @ [8, gz_flags h] @ gz_stamp h @ ?e @ ?n @ ?c" by (simp add: head_bytes_def)
  have ok: "gz_flags h AND ENCRYPTED = 0" "gz_flags h AND CONTINUATION = 0" "gz_flags h AND RESERVED = 0"
      "length (gz_stamp h) = 6" "length (gz_extra h) < 65536" "0 \<notin> set (gz_name h)" "0 \<notin> set (gz_comment h)"
    using assms(3) by (simp_all add: head_ok_def)
  have m: "length GZIP_MAGIC = 2" by (simp add: GZIP_MAGIC_def)
  have f: "bytes_at f 0 GZIP_MAGIC" "f 2 = 8" "f 3 = gz_flags h" "bytes_at f 4 (gz_stamp h)" "bytes_at f 10 ?e"
      "bytes_at f (10 + length ?e) ?n" "bytes_at f (10 + length ?e + length ?n) ?c"
    using assms(4) ok(4) unfolding h bytes_at_append m by (simp_all add: numeral_2_eq_2 numeral_3_eq_3 eval_nat_numeral add.assoc)
  obtain st1 where s1: "get_bytes rd 2 st = (GZIP_MAGIC, st1)" "at_byte f st1 2" "same_output st st1"
    using get_bytes_at [OF assms(1,2) f(1)] m by (auto simp: numeral_2_eq_2)
  obtain st2 where s2: "get_byte rd (st1\<lparr>zmethod := - 1\<rparr>) = (8, st2)" "at_byte f st2 3" "same_output (st1\<lparr>zmethod := - 1\<rparr>) st2"
    using one_byte [OF assms(1), of "st1\<lparr>zmethod := - 1\<rparr>" 2] s1(2) f(2) by (auto simp: numeral_3_eq_3 numeral_2_eq_2)
  obtain st3 where s3: "get_byte rd (st2\<lparr>zmethod := 8\<rparr>) = (gz_flags h, st3)" "at_byte f st3 4" "same_output (st2\<lparr>zmethod := 8\<rparr>) st3"
    using one_byte [OF assms(1), of "st2\<lparr>zmethod := 8\<rparr>" 3] s2(2) f(3) by auto
  obtain st4 where s4: "get_bytes rd 6 st3 = (gz_stamp h, st4)" "at_byte f st4 10" "same_output st3 st4"
    using get_bytes_at [OF assms(1) s3(2) f(4)] ok(4) by auto
  note s5 = skip_extra_at [OF assms(1) s4(2) ok(5) f(5)]
  obtain st6 where s6: "(if gz_flags h AND ORIG_NAME \<noteq> 0 then skip_name rd (skip_extra rd (gz_flags h) st4) else
        Some (skip_extra rd (gz_flags h) st4)) = Some st6"
      "at_byte f st6 (10 + length ?e + length ?n)" "same_output (skip_extra rd (gz_flags h) st4) st6"
    using skip_name_if [OF assms(1) conjunct1 [OF s5] ok(6) f(6)] by blast
  obtain st7 where s7: "(if gz_flags h AND COMMENT \<noteq> 0 then skip_name rd st6 else Some st6) = Some st7"
      "at_byte f st7 (10 + length ?e + length ?n + length ?c)" "same_output st6 st7"
    using skip_name_if [OF assms(1) s6(2) ok(7) f(7)] by blast
  have so: "same_output (st\<lparr>zmethod := 8\<rparr>) (st2\<lparr>zmethod := 8\<rparr>)"
    using s1(3) s2(3) unfolding same_output_def by (cases st; cases st1; cases st2) simp
  have "same_output (st\<lparr>zmethod := 8\<rparr>) st7"
    using so s3(3) s4(3) conjunct2 [OF s5] s6(3) s7(3) same_output_trans by meson
  moreover have "zmethod st7 = 8" using same_output_fields(10) [OF calculation] by simp
  moreover have "get_method rd st = Some (zmethod st7, st7)"
    using s1(1) s2(1) s3(1) s4(1) s6(1) s7(1) ok(1-3) by (simp add: get_method_def Let_def)
  moreover have "length (head_bytes h) = 10 + length ?e + length ?n + length ?c" unfolding h using ok(4) m by simp
  ultimately show ?thesis using s7(2) by metis
qed

subsection \<open>The whole file\<close>

text \<open>A file with these bytes from the beginning.\<close>

definition gzip_file :: "contents \<Rightarrow> gzip_head \<Rightarrow> block list \<Rightarrow> u8 list \<Rightarrow> bool" where
  "gzip_file f h bs crc \<longleftrightarrow> head_ok h \<and> bytes_at f 0 (head_bytes h) \<and>
     bs \<noteq> [] \<and> blocks_hold f (8 * length (head_bytes h)) bs \<and> blocks_ok bs [] \<and>
     length crc = 4 \<and> bytes_at f (byte_up (blocks_end bs (8 * length (head_bytes h))) div 8) (crc @ le32 (length (blocks_out bs [])))"

lemma uncompress_kernel_out:
  assumes "gzip_file f h bs crc" "reads f rd" "dest \<noteq> 0" "unat dest + length (blocks_out bs []) < 2 ^ 64"
    and "length (blocks_out bs []) < 2 ^ 32" "sound (zheap st)" "\<not> pkzip st"
  shows "\<exists>st'. uncompress_kernel rd dest buf win st = Some (Inr (0, st')) \<and>
    zmem st' = overlay dest (blocks_out bs []) (zmem st) \<and> bytes_out st' = of_nat (length (blocks_out bs [])) \<and>
    live (zheap st') = live (zheap st)"
proof -
  let ?os = "blocks_out bs []" and ?p = "length (head_bytes h)"
  let ?q = "byte_up (blocks_end bs (8 * ?p)) div 8"
  note g = assms(1) [unfolded gzip_file_def]
  let ?st0 = "clear_bufs (st\<lparr>inbuf := buf, window := win, dest_addr := dest\<rparr>)"
  have "at_byte f ?st0 0" by (simp add: at_byte_def clear_bufs_def)
  then obtain st1 where m: "get_method rd ?st0 = Some (8, st1)" "at_byte f st1 ?p" "same_output (?st0\<lparr>zmethod := 8\<rparr>) st1"
    using get_method_head [OF assms(2)] g by blast
  note st1 = same_output_fields [OF m(3)]
  let ?st1 = "st1\<lparr>zmethod := 8\<rparr>"
  have w: "written dest (zmem st) [] ?st1" "sound (zheap ?st1)" "\<not> pkzip ?st1"
    using st1 assms(3,4,6,7) by (simp_all add: written_def clear_bufs_def overlay_def)
  have "at_byte f ?st1 ?p" using m(2) by simp
  then obtain st2 where i: "inflate rd ?st1 = Some (Inr (0, st2))" "written dest (zmem st) ?os st2" "at_byte f st2 ?q" "kept ?st1 st2"
    using inflate_out [OF _ _ _ assms(2) _ w(1) assms(4) w(2)] g by blast
  obtain st3 where t: "get_bytes rd 8 st2 = (crc @ le32 (length ?os), st3)" "at_byte f st3 (?q + 8)" "same_output st2 st3"
    using get_bytes_at [OF assms(2) i(3), of "crc @ le32 (length ?os)"] g by auto
  note st3 = same_output_fields [OF t(3)]
  have pk: "\<not> pkzip st2" "\<not> pkzip st3" using i(4) w(3) st3(11) by (simp_all add: kept_def)
  have len: "LG (crc @ le32 (length ?os)) 4 = bytes_out st3"
    using LG_le32 [OF _ assms(5), of crc 4] g st3(3) i(2) by (simp add: written_def)
  have "unzip rd ?st1 = Some (Inr (st3\<lparr>extended := False, pkzip := False\<rparr>))"
    using i(1) t(1) w(3) pk len by (simp add: unzip_def decompress_def DEFLATED_def original_length_def more_entries_def)
  then have "uncompress_kernel rd dest buf win st = Some (Inr (0, st3\<lparr>extended := False, pkzip := False\<rparr>))"
    using m(1) by (simp add: uncompress_kernel_def)
  moreover have "live (zheap st3) = live (zheap st)"
    using st3(9) i(4) st1(9) by (simp add: kept_def clear_bufs_def)
  ultimately show ?thesis using st3(3,5) i(2) by (simp add: written_def)
qed

end
