(* ===== verification/Zip_Bounds.thy ===== *)
theory Zip_Bounds
  imports Unzip
begin

text \<open>
  Decompression stays in its window: whatever the file holds, no byte after the 32768 of the window is
  written.
\<close>

subsection \<open>Bytes after the window\<close>

definition confined :: "zip \<Rightarrow> zip \<Rightarrow> bool" where
  "confined st st' \<longleftrightarrow> (\<forall>i\<ge>32768. window st' i = window st i) \<and> pkzip st' = pkzip st"

lemma confined_refl [simp]: "confined st st"
  by (simp add: confined_def)

lemma confined_trans [trans]: "confined st st' \<Longrightarrow> confined st' st'' \<Longrightarrow> confined st st''"
  by (simp add: confined_def)

definition in_ring :: "u32 \<Rightarrow> bool" where
  "in_ring w \<longleftrightarrow> w < WSIZE"

text \<open>Reading: the window and its position stay.\<close>

definition quiet :: "zip \<Rightarrow> zip \<Rightarrow> bool" where
  "quiet st st' \<longleftrightarrow> window st' = window st \<and> outcnt st' = outcnt st \<and> pkzip st' = pkzip st"

lemma quiet_refl [simp]: "quiet st st"
  by (simp add: quiet_def)

lemma quiet_trans [trans]: "quiet st st' \<Longrightarrow> quiet st' st'' \<Longrightarrow> quiet st st''"
  by (simp add: quiet_def)

lemma quiet_confined: "quiet st st' \<Longrightarrow> confined st st'"
  by (simp add: quiet_def confined_def)

lemma get_byte_quiet: "get_byte rd st = (c, st') \<Longrightarrow> quiet st st'"
  by (auto simp: get_byte_def fill_inbuf_def quiet_def Let_def split: if_splits)

lemma needbits_quiet: "needbits rd n l st = (l', st') \<Longrightarrow> quiet st st' \<and> lw l' = lw l"
proof (induction rd n l st rule: needbits.induct)
  case (1 rd n l st)
  obtain c st1 where b: "get_byte rd st = (c, st1)" by fastforce
  show ?case
  proof (cases "lk l < n")
    case True
    then show ?thesis
      using 1(1) [OF True b [symmetric] refl] 1(2) b quiet_trans [OF get_byte_quiet [OF b]]
      by (auto simp: needbits.simps [of rd n l st])
  next
    case False
    then show ?thesis using 1(2) by (simp add: needbits.simps [of rd n l st])
  qed
qed

lemma dump_lw [simp]: "lw (dumpbits n l) = lw l"
  by (simp add: dumpbits_def)

fun still :: "local_bits \<Rightarrow> zip \<Rightarrow> 'a \<times> local_bits \<times> zip \<Rightarrow> bool" where
  "still l st (r, l', st') \<longleftrightarrow> quiet st st' \<and> lw l' = lw l"

fun inside :: "local_bits \<Rightarrow> zip \<Rightarrow> local_bits \<times> zip \<Rightarrow> bool" where
  "inside l st (l', st') \<longleftrightarrow> (in_ring (lw l) \<longrightarrow> in_ring (lw l') \<and> confined st st')"

lemma still_trans: "quiet st st1 \<Longrightarrow> lw l1 = lw l \<Longrightarrow> still l1 st1 res \<Longrightarrow> still l st res"
  using quiet_trans by (cases res) auto

lemma inside_trans: "inside l st (l1, st1) \<Longrightarrow> inside l1 st1 res \<Longrightarrow> inside l st res"
  using confined_trans by (cases res) auto

lemma still_inside: "still l st (r, l', st') \<Longrightarrow> inside l st (l', st')"
  by (simp add: quiet_confined)

lemma sub_tables_still:
  assumes "sub_tables rd t l st = Some res"
  shows "still l st res"
proof (rule sub_tables.raw_induct [where P = "\<lambda>rd t l st res. still l st res", OF _ assms])
  fix sub and rd :: reader and t l st res
  assume IH: "\<And>rd t l st res. sub rd t l st = Some res \<Longrightarrow> still l st res"
    and turn: "(if h_e t > 16 then
        if h_e t = 99 then Some (None, l, st)
        else
          let l = dumpbits (unat (h_b t)) l; e = unat (h_e t - 16); (l, st) = needbits rd e l st
          in do {t \<leftarrow> fetch (zheap st) (v_t t) (low_bits e l); sub rd t l st}
      else Some (Some t, l, st)) = Some res"
  obtain l1 st1 where n: "needbits rd (unat (h_e t - 16)) (dumpbits (unat (h_b t)) l) st = (l1, st1)" by fastforce
  show "still l st res"
  proof (cases "h_e t > 16 \<and> h_e t \<noteq> 99")
    case True
    then obtain r where "sub rd r l1 st1 = Some res"
      using turn n by (simp add: Let_def) (auto simp only: bind_eq_Some_conv)
    from IH [OF this] show ?thesis using needbits_quiet [OF n] by (intro still_trans [of st st1 l1 l]) simp_all
  next
    case False
    then show ?thesis using turn by (auto split: if_splits)
  qed
qed

lemma decode_entry_still:
  assumes "decode_entry rd q b l st = Some res"
  shows "still l st res"
proof -
  obtain l1 st1 where n: "needbits rd b l st = (l1, st1)" by fastforce
  obtain t r l2 st2 where s: "sub_tables rd t l1 st1 = Some (r, l2, st2)"
      "res = (case r of None \<Rightarrow> (None, l2, st2) | Some t \<Rightarrow> (Some t, dumpbits (unat (h_b t)) l2, st2))"
    using assms n by (auto simp: decode_entry_def bind_eq_Some_conv)
  then show ?thesis
    using needbits_quiet [OF n] sub_tables_still [OF s(1)] quiet_trans by (auto split: option.splits)
qed

text \<open>Writing.\<close>

lemma in_ring_0 [simp]: "in_ring 0"
  by (simp add: in_ring_def WSIZE_def)

lemma flush_confined: "confined st (flush_output w st)"
  by (simp add: confined_def flush_output_def flush_window_def Let_def)

lemma in_ring_unat: "in_ring w \<longleftrightarrow> unat w < 32768"
  by (simp add: in_ring_def WSIZE_def word_less_nat_alt)

lemma put_window_inside: "inside l st (put_window c l st)"
proof -
  have "in_ring (lw l) \<Longrightarrow> lw l + 1 \<noteq> WSIZE \<Longrightarrow> in_ring (lw l + 1)"
    by (simp add: in_ring_unat WSIZE_def word_eq_iff_unat unat_word_ariths)
  moreover have "in_ring (lw l) \<Longrightarrow> confined st (st\<lparr>window := (window st)(unat (lw l) := c)\<rparr>)"
    by (simp add: in_ring_unat confined_def)
  ultimately show ?thesis using confined_trans [OF _ flush_confined] by (auto simp: put_window_def Let_def)
qed

lemma slow_copy_outside: "i < w \<or> w + n \<le> i \<Longrightarrow> slow_copy w d n win i = win i"
  by (induction w d n win rule: slow_copy.induct) auto

definition copy_turn :: "u32 \<Rightarrow> u32 \<Rightarrow> local_bits \<Rightarrow> zip \<Rightarrow> u32 \<times> u32 \<times> local_bits \<times> zip" where
  "copy_turn n d l st =
     (let d = d AND (WSIZE - 1);
          w = lw l;
          e = WSIZE - (if d > w then d else w);
          e = (if e > n then n else e);
          n = n - e;
          win = (if w - d \<ge> e then window_copy (unat w) (unat d) (unat e) (window st)
                 else slow_copy (unat w) (unat d) (unat e) (window st));
          st = st\<lparr>window := win\<rparr>;
          w = w + e;
          d = d + e;
          (w, st) = (if w = WSIZE then (0, flush_output w st) else (w, st))
      in (n, d, l\<lparr>lw := w\<rparr>, st))"

lemma copy_turn_inside:
  assumes "copy_turn n d l st = (n', d', l', st')"
  shows "inside l st (l', st')"
  unfolding inside.simps
proof
  assume "in_ring (lw l)"
  then have w: "unat (lw l) < 32768" by (simp add: in_ring_unat)
  let ?d = "d AND (WSIZE - 1)"
  let ?e0 = "WSIZE - (if ?d > lw l then ?d else lw l)"
  let ?e = "if ?e0 > n then n else ?e0"
  let ?win = "if lw l - ?d \<ge> ?e then window_copy (unat (lw l)) (unat ?d) (unat ?e) (window st)
    else slow_copy (unat (lw l)) (unat ?d) (unat ?e) (window st)"
  have "WSIZE - 1 = (mask 15 :: u32)" by (simp add: WSIZE_def mask_eq_exp_minus_1)
  then have "unat ?d < 32768" using w by (simp add: unat_and_mask)
  then have e0: "unat ?e0 \<le> 32768 - unat (lw l)"
    using w by (auto simp: WSIZE_def unat_sub_no_wrap word_less_nat_alt word_le_nat_alt)
  have "unat ?e \<le> unat ?e0" by (simp add: word_less_nat_alt)
  then have e: "unat (lw l) + unat ?e \<le> 32768" using e0 w by linarith
  then have sum: "unat (lw l + ?e) = unat (lw l) + unat ?e" by (simp add: unat_add_no_wrap)
  have "?win i = window st i" if "32768 \<le> i" for i
    using that e by (auto simp: window_copy_def slow_copy_outside)
  then have c: "confined st (st\<lparr>window := ?win\<rparr>)" by (simp add: confined_def)
  have ring: "lw l + ?e \<noteq> WSIZE \<Longrightarrow> in_ring (lw l + ?e)"
    using sum e by (auto simp: in_ring_unat WSIZE_def word_eq_iff_unat)
  have res: "l' = l\<lparr>lw := if lw l + ?e = WSIZE then 0 else lw l + ?e\<rparr>"
      "st' = (if lw l + ?e = WSIZE then flush_output (lw l + ?e) (st\<lparr>window := ?win\<rparr>) else st\<lparr>window := ?win\<rparr>)"
    using assms by (auto simp: copy_turn_def Let_def split: if_splits)
  show "in_ring (lw l') \<and> confined st st'"
    unfolding res using c ring confined_trans [OF c flush_confined] by simp
qed

lemma copy_turn_then:
  "(let d = d AND (WSIZE - 1);
          w = lw l;
          e = WSIZE - (if d > w then d else w);
          e = (if e > n then n else e);
          n = n - e;
          win = (if w - d \<ge> e then window_copy (unat w) (unat d) (unat e) (window st)
                 else slow_copy (unat w) (unat d) (unat e) (window st));
          st = st\<lparr>window := win\<rparr>;
          w = w + e;
          d = d + e;
          (w, st) = (if w = WSIZE then (0, flush_output w st) else (w, st));
          l = l\<lparr>lw := w\<rparr>
      in if n \<noteq> 0 then loop n d l st else Some (l, st)) =
    (case copy_turn n d l st of (n, d, l, st) \<Rightarrow> if n \<noteq> 0 then loop n d l st else Some (l, st))"
  by (simp add: copy_turn_def Let_def split: prod.split)

lemma copy_loop_inside:
  assumes "copy_loop n d l st = Some res"
  shows "inside l st res"
proof (rule copy_loop.raw_induct [where P = "\<lambda>n d l st res. inside l st res", OF _ assms])
  fix loop and n d :: u32 and l st res
  assume IH: "\<And>n d l st res. loop n d l st = Some res \<Longrightarrow> inside l st res"
    and turn: "(let d = d AND (WSIZE - 1);
          w = lw l;
          e = WSIZE - (if d > w then d else w);
          e = (if e > n then n else e);
          n = n - e;
          win = (if w - d \<ge> e then window_copy (unat w) (unat d) (unat e) (window st)
                 else slow_copy (unat w) (unat d) (unat e) (window st));
          st = st\<lparr>window := win\<rparr>;
          w = w + e;
          d = d + e;
          (w, st) = (if w = WSIZE then (0, flush_output w st) else (w, st));
          l = l\<lparr>lw := w\<rparr>
      in if n \<noteq> 0 then loop n d l st else Some (l, st)) = Some res"
  obtain n1 d1 l1 st1 where t: "copy_turn n d l st = (n1, d1, l1, st1)" by (metis prod_cases4)
  then have "(if n1 \<noteq> 0 then loop n1 d1 l1 st1 else Some (l1, st1)) = Some res"
    using turn unfolding copy_turn_then by simp
  then show "inside l st res"
    using copy_turn_inside [OF t] IH inside_trans by (auto split: if_splits)
qed

subsection \<open>Blocks\<close>

fun inside3 :: "local_bits \<Rightarrow> zip \<Rightarrow> bool \<times> local_bits \<times> zip \<Rightarrow> bool" where
  "inside3 l st (ok, l', st') \<longleftrightarrow> (in_ring (lw l) \<longrightarrow> confined st st' \<and> (ok \<longrightarrow> in_ring (lw l')))"

lemma inside3_trans: "inside l st (l1, st1) \<Longrightarrow> inside3 l1 st1 res \<Longrightarrow> inside3 l st res"
  using confined_trans by (cases res) auto

lemma copy_match_inside:
  assumes "copy_match rd td bd t l st = Some res"
  shows "inside3 l st res"
proof -
  obtain l1 st1 where n1: "needbits rd (unat (h_e t)) l st = (l1, st1)" by fastforce
  have q1: "inside l st (dumpbits (unat (h_e t)) l1, st1)" using needbits_quiet [OF n1] by (simp add: quiet_confined)
  obtain vn r l2 st2 where s: "v_n t = Some vn" "decode_entry rd td bd (dumpbits (unat (h_e t)) l1) st1 = Some (r, l2, st2)"
      "(case r of None \<Rightarrow> Some (False, l2, st2) | Some t' \<Rightarrow>
          let (l3, st3) = needbits rd (unat (h_e t')) l2 st2 in do {
            v \<leftarrow> v_n t';
            (l4, st4) \<leftarrow> copy_loop (ucast vn + low_bits (unat (h_e t)) l1) (lw l3 - ucast v - low_bits (unat (h_e t')) l3)
              (dumpbits (unat (h_e t')) l3) st3;
            Some (True, l4, st4)}) = Some res"
    using assms unfolding copy_match_def Let_def n1 by (auto simp only: bind_eq_Some_conv prod.case split_paired_all)
  have q2: "inside l st (l2, st2)" by (rule inside_trans [OF q1 still_inside [OF decode_entry_still [OF s(2)]]])
  show ?thesis
  proof (cases r)
    case None
    then show ?thesis using s(3) q2 by auto
  next
    case (Some t')
    obtain l3 st3 where n3: "needbits rd (unat (h_e t')) l2 st2 = (l3, st3)" by fastforce
    obtain m d l4 st4 where c: "copy_loop m d (dumpbits (unat (h_e t')) l3) st3 = Some (l4, st4)" "res = (True, l4, st4)"
      using s(3) unfolding Some option.case Let_def n3 by (auto simp only: bind_eq_Some_conv prod.case split_paired_all option.inject)
    have "inside l2 st2 (dumpbits (unat (h_e t')) l3, st3)" using needbits_quiet [OF n3] by (simp add: quiet_confined)
    then have "inside l st (l4, st4)" using inside_trans [OF q2 inside_trans] copy_loop_inside [OF c(1)] by blast
    then show ?thesis using c(2) by simp
  qed
qed

lemma codes_loop_inside:
  assumes "codes_loop rd tl' td bl bd l st = Some res"
  shows "inside3 l st res"
proof (rule codes_loop.raw_induct [where P = "\<lambda>rd tl' td bl bd l st res. inside3 l st res", OF _ assms])
  fix loop and rd :: reader and tl' td :: "nat option" and bl bd :: nat and l st res
  assume IH: "\<And>rd tl' td bl bd l st res. loop rd tl' td bl bd l st = Some res \<Longrightarrow> inside3 l st res"
    and turn: "do {
     (t, l, st) \<leftarrow> decode_entry rd tl' bl l st;
     case t of None \<Rightarrow> Some (False, l, st)
     | Some t \<Rightarrow>
         if h_e t = 16 then do {
           vn \<leftarrow> v_n t;
           let (l, st) = put_window (ucast vn) l st;
           loop rd tl' td bl bd l st
         }
         else if h_e t = 15 then Some (True, l, st)
         else do {
           (ok, l, st) \<leftarrow> copy_match rd td bd t l st;
           if ok then loop rd tl' td bl bd l st else Some (False, l, st)
         }
   } = Some res"
  obtain r l1 st1 where d: "decode_entry rd tl' bl l st = Some (r, l1, st1)"
    using turn by (cases "decode_entry rd tl' bl l st") auto
  note turn' = turn [unfolded d Option.bind.simps prod.case]
  have q: "inside l st (l1, st1)" by (rule still_inside [OF decode_entry_still [OF d]])
  show "inside3 l st res"
  proof (cases r)
    case None
    then show ?thesis using turn' q by auto
  next
    case (Some t)
    consider "h_e t = 16" | "h_e t = 15" | "h_e t \<noteq> 16" "h_e t \<noteq> 15" by blast
    then show ?thesis
    proof cases
      case 1
      obtain c l2 st2 where "put_window c l1 st1 = (l2, st2)" "loop rd tl' td bl bd l2 st2 = Some res"
        using turn' 1 Some by (cases "v_n t") (auto split: prod.splits)
      then show ?thesis using inside3_trans [OF inside_trans [OF q] IH] put_window_inside [of l1 st1 c] by simp
    next
      case 2
      then show ?thesis using turn' Some q by auto
    next
      case 3
      obtain ok l2 st2 where c: "copy_match rd td bd t l1 st1 = Some (ok, l2, st2)"
        using turn' 3 Some by (cases "copy_match rd td bd t l1 st1") auto
      have m: "inside3 l st (ok, l2, st2)" using inside3_trans [OF q copy_match_inside [OF c]] .
      show ?thesis
      proof (cases ok)
        case True
        then have "inside l st (l2, st2)" "loop rd tl' td bl bd l2 st2 = Some res" using m turn' 3 Some c by auto
        then show ?thesis using inside3_trans IH by blast
      next
        case False
        then show ?thesis using m turn' 3 Some c by auto
      qed
    qed
  qed
qed

text \<open>Functions on the state: a code 0 leaves the position in the window, which is always what they start from.\<close>

definition block_inside :: "zip \<Rightarrow> int \<Rightarrow> zip \<Rightarrow> bool" where
  "block_inside st r st' \<longleftrightarrow> (in_ring (outcnt st) \<longrightarrow> confined st st' \<and> (r = 0 \<longrightarrow> in_ring (outcnt st')))"

lemma block_inside_quiet: "quiet st st1 \<Longrightarrow> block_inside st1 r st' \<Longrightarrow> block_inside st r st'"
  using confined_trans [OF quiet_confined] by (auto simp: block_inside_def quiet_def)

lemma block_inside_then: "block_inside st 0 st1 \<Longrightarrow> quiet st1 st' \<Longrightarrow> block_inside st r st'"
  using confined_trans [OF _ quiet_confined] by (auto simp: block_inside_def quiet_def)

lemma quiet_inside: "quiet st st' \<Longrightarrow> block_inside st r st'"
  by (auto simp: block_inside_def quiet_confined) (simp add: quiet_def)

lemma store_all_fields [simp]: "window (store_all l st) = window st" "outcnt (store_all l st) = lw l" "pkzip (store_all l st) = pkzip st"
  "quiet st (store_bits l st)"
  by (simp_all add: store_all_def store_bits_def quiet_def)

lemma store_all_inside: "inside (load st) st (l, st') \<Longrightarrow> block_inside st r (store_all l st')"
  by (auto simp: block_inside_def load_def confined_def)

lemma inflate_codes_inside:
  assumes "inflate_codes rd tl' td bl bd st = Some (r, st')"
  shows "block_inside st r st'"
proof -
  obtain ok l st1 where c: "codes_loop rd tl' td bl bd (load st) st = Some (ok, l, st1)"
      "(r, st') = (if ok then (0, store_all l st1) else (1, st1))"
    using assms by (auto simp: inflate_codes_def)
  show ?thesis
    using codes_loop_inside [OF c(1)] c(2) by (auto simp: block_inside_def load_def confined_def split: if_splits)
qed

lemma stored_bytes_inside: "stored_bytes rd n l st = (l', st') \<Longrightarrow> inside l st (l', st')"
proof (induction rd n l st rule: stored_bytes.induct)
  case (2 rd n l st)
  obtain l1 st1 where n: "needbits rd 8 l st = (l1, st1)" by fastforce
  obtain l2 st2 where w: "put_window (ucast (lb l1)) l1 st1 = (l2, st2)" by fastforce
  have "inside l st (l1, st1)" using needbits_quiet [OF n] by (simp add: quiet_confined)
  then have "inside l st (l2, st2)" using inside_trans put_window_inside [of l1 st1] w by metis
  moreover have "inside (dumpbits 8 l2) st2 (l', st')"
    using 2(1) [OF n [symmetric] refl w [symmetric] refl] 2(2) n w by simp
  ultimately show ?case using confined_trans by auto
qed simp

lemma inflate_stored_inside:
  assumes "inflate_stored rd st = (r, st')"
  shows "block_inside st r st'"
proof -
  obtain l1 st1 where n1: "needbits rd 16 (dumpbits (lk (load st) mod 8) (load st)) st = (l1, st1)" by fastforce
  obtain l2 st2 where n2: "needbits rd 16 (dumpbits 16 l1) st1 = (l2, st2)" by fastforce
  have q: "quiet st st2" "lw l2 = lw (load st)"
    using needbits_quiet [OF n1] needbits_quiet [OF n2] quiet_trans by auto
  consider "st' = st2" | st3 n l where "stored_bytes rd n (dumpbits 16 l2) st2 = (l, st3)" "st' = store_all l st3"
    using assms n1 n2 by (auto simp: inflate_stored_def Let_def split: if_splits prod.splits)
  then show ?thesis
  proof cases
    case 1
    then show ?thesis using quiet_inside [OF q(1)] by simp
  next
    case (2 st3 n l)
    have "inside (load st) st (l, st3)"
      using stored_bytes_inside [OF 2(1)] q confined_trans [OF quiet_confined [OF q(1)]] by auto
    then show ?thesis using store_all_inside 2(2) by simp
  qed
qed

lemma build_quiet: "build b s d e m st = Some (i, t, m', st') \<Longrightarrow> quiet st st'"
  by (auto simp: build_def quiet_def)

lemma free_table_quiet: "free_table t st = Some st' \<Longrightarrow> quiet st st'"
  by (auto simp: free_table_def quiet_def)

text \<open>The tail that the blocks with codes share: the codes, then the tables freed.\<close>

lemma codes_and_free:
  assumes "do {
      (i, st) \<leftarrow> inflate_codes rd tl' td bl bd st;
      if i \<noteq> 0 then Some (c st) else do {st \<leftarrow> free_table tl' st; st \<leftarrow> free_table td st; Some (z st)}} = Some res"
  shows "\<exists>i st'. block_inside st i st' \<and> (i = 0 \<and> res = z st' \<or> i \<noteq> 0 \<and> res = c st')"
proof -
  obtain i st1 where c: "inflate_codes rd tl' td bl bd st = Some (i, st1)" using assms by (cases "inflate_codes rd tl' td bl bd st") auto
  note b = inflate_codes_inside [OF c]
  show ?thesis
  proof (cases "i = 0")
    case True
    then obtain st2 st' where f: "free_table tl' st1 = Some st2" "free_table td st2 = Some st'" "res = z st'"
      using assms c by (cases "free_table tl' st1"; cases "free_table td (the (free_table tl' st1))") auto
    have "quiet st1 st'" using quiet_trans [OF free_table_quiet [OF f(1)] free_table_quiet [OF f(2)]] .
    then show ?thesis using block_inside_then b True f(3) by blast
  next
    case False
    then show ?thesis using assms c b by auto
  qed
qed

lemma inflate_fixed_inside:
  assumes "inflate_fixed rd st = Some (r, st')"
  shows "block_inside st r st'"
proof -
  obtain i tl' bl st1 where b1: "build fixed_lengths 257 cplens cplext 7 st = Some (i, tl', bl, st1)"
    using assms by (cases "build fixed_lengths 257 cplens cplext 7 st") (auto simp: inflate_fixed_def)
  note q1 = build_quiet [OF b1]
  show ?thesis
  proof (cases "i = 0")
    case True
    obtain j td bd st2 where b2: "build (replicate 30 5) 0 cpdist cpdext 5 st1 = Some (j, td, bd, st2)"
      using assms b1 True by (cases "build (replicate 30 5) 0 cpdist cpdext 5 st1") (auto simp: inflate_fixed_def)
    note q2 = quiet_trans [OF q1 build_quiet [OF b2]]
    show ?thesis
    proof (cases "j > 1")
      case True
      then have "quiet st2 st'" using assms b1 b2 \<open>i = 0\<close> free_table_quiet by (auto simp: inflate_fixed_def)
      then show ?thesis using quiet_inside quiet_trans [OF q2] by blast
    next
      case False
      then have "do {
          (i, st) \<leftarrow> inflate_codes rd tl' td bl bd st2;
          if i \<noteq> 0 then Some (1, st) else do {st \<leftarrow> free_table tl' st; st \<leftarrow> free_table td st; Some (0, st)}} = Some (r, st')"
        using assms b1 b2 True by (simp add: inflate_fixed_def)
      from codes_and_free [OF this] show ?thesis using block_inside_quiet [OF q2] by (auto simp: block_inside_def)
    qed
  next
    case False
    then show ?thesis using assms b1 quiet_inside [OF q1] by (auto simp: inflate_fixed_def)
  qed
qed

lemma dynamic_codes_inside:
  assumes "dynamic_codes rd ll dl st = Some (Inr (r, st'))"
  shows "block_inside st r st'"
proof -
  obtain i tl' bl st1 where b1: "build ll 257 cplens cplext lbits st = Some (i, tl', bl, st1)"
    using assms by (cases "build ll 257 cplens cplext lbits st") (auto simp: dynamic_codes_def)
  note q1 = build_quiet [OF b1]
  show ?thesis
  proof (cases "i = 0")
    case True
    obtain j td bd st2 where b2: "build dl 0 cpdist cpdext dbits st1 = Some (j, td, bd, st2)"
      using assms b1 True by (cases "build dl 0 cpdist cpdext dbits st1") (auto simp: dynamic_codes_def)
    note q2 = quiet_trans [OF q1 build_quiet [OF b2]]
    consider "j = 1" | "j \<noteq> 1" "j \<noteq> 0" | "j = 0" by blast
    then show ?thesis
    proof cases
      case 1
      then show ?thesis using assms b1 b2 True by (auto simp: dynamic_codes_def)
    next
      case 2
      then have "quiet st2 st'" using assms b1 b2 True free_table_quiet by (auto simp: dynamic_codes_def)
      then show ?thesis using quiet_inside quiet_trans [OF q2] by blast
    next
      case 3
      then have "do {
          (i, st) \<leftarrow> inflate_codes rd tl' td bl bd st2;
          if i \<noteq> 0 then Some (Inr (1, st)) else do {st \<leftarrow> free_table tl' st; st \<leftarrow> free_table td st; Some (Inr (0, st))}} =
          Some (Inr (r, st') :: string + int \<times> zip)"
        using assms b1 b2 True by (simp add: dynamic_codes_def)
      from codes_and_free [OF this] show ?thesis using block_inside_quiet [OF q2] by (auto simp: block_inside_def)
    qed
  next
    case False
    then show ?thesis using assms b1 quiet_inside [OF q1] by (auto simp: dynamic_codes_def split: if_splits)
  qed
qed

lemma bit_lengths_quiet: "bit_lengths rd is nb ll l st = (ll', l', st') \<Longrightarrow> quiet st st'"
proof (induction rd "is" nb ll l st rule: bit_lengths.induct)
  case (3 rd i "is" nb ll l st)
  obtain l1 st1 where n: "needbits rd 3 l st = (l1, st1)" by fastforce
  then have "bit_lengths rd is nb (ll[i := unat ((ucast (lb l1) :: u32) AND 7)]) (dumpbits 3 l1) st1 = (ll', l', st')" using 3(2) by simp
  then show ?case using 3(1) [OF n [symmetric] refl] needbits_quiet [OF n] quiet_trans by blast
qed auto

lemma read_lengths_quiet:
  assumes "read_lengths rd tl' bl n i prev ll l st = Some res"
  shows "quiet st (snd (snd res))"
proof (rule read_lengths.raw_induct [where P = "\<lambda>rd tl' bl n i prev ll l st res. quiet st (snd (snd res))", OF _ assms])
  fix loop and rd :: reader and tl' :: "nat option" and bl n i prev :: nat and ll l st res
  assume IH: "\<And>rd tl' bl n i prev ll l st res. loop rd tl' bl n i prev ll l st = Some res \<Longrightarrow> quiet st (snd (snd res))"
    and turn: "(if i < n then
        let (l, st) = needbits rd bl l st in do {
          t \<leftarrow> fetch (zheap st) tl' (low_bits bl l);
          let l = dumpbits (unat (h_b t)) l;
          j \<leftarrow> v_n t;
          if j < 16 then loop rd tl' bl n (i + 1) (unat j) (ll[i := unat j]) l st
          else if j = 16 then
            let (l, st) = needbits rd 2 l st;
                j = 3 + unat ((ucast (lb l) :: u32) AND 3);
                l = dumpbits 2 l
            in if i + j > n then Some (None, l, st)
               else loop rd tl' bl n (i + j) prev (repeat_length j i prev ll) l st
          else
            let (bits, base) = (if j = 17 then (3, 3) else (7, 11));
                (l, st) = needbits rd bits l st;
                j = base + unat ((ucast (lb l) :: u32) AND (2 ^ bits - 1));
                l = dumpbits bits l
            in if i + j > n then Some (None, l, st)
               else loop rd tl' bl n (i + j) 0 (repeat_length j i 0 ll) l st
        }
      else Some (Some ll, l, st)) = Some res"
  show "quiet st (snd (snd res))"
  proof (cases "i < n")
    case True
    obtain l1 st1 where n1: "needbits rd bl l st = (l1, st1)" by fastforce
    obtain t j where t: "fetch (zheap st1) tl' (low_bits bl l1) = Some t" "v_n t = Some j"
      using turn True n1 by (cases "fetch (zheap st1) tl' (low_bits bl l1)"; cases "v_n (the (fetch (zheap st1) tl' (low_bits bl l1)))") auto
    let ?bits = "if j = 16 then 2 else if j = 17 then 3 else 7"
    obtain l2 st2 where n2: "needbits rd ?bits (dumpbits (unat (h_b t)) l1) st1 = (l2, st2)" by fastforce
    note q1 = conjunct1 [OF needbits_quiet [OF n1]]
    note q2 = quiet_trans [OF q1 conjunct1 [OF needbits_quiet [OF n2]]]
    consider i' prev' ll' l' where "loop rd tl' bl n i' prev' ll' l' st1 = Some res"
      | i' prev' ll' l' where "loop rd tl' bl n i' prev' ll' l' st2 = Some res" | "snd (snd res) = st2"
    proof -
      assume that: "\<And>i' prev' ll' l'. loop rd tl' bl n i' prev' ll' l' st1 = Some res \<Longrightarrow> thesis"
        "\<And>i' prev' ll' l'. loop rd tl' bl n i' prev' ll' l' st2 = Some res \<Longrightarrow> thesis" "snd (snd res) = st2 \<Longrightarrow> thesis"
      consider "j < 16" | "j = 16" | "j = 17" | "\<not> j < 16" "j \<noteq> 16" "j \<noteq> 17" by blast
      then show thesis
      proof cases
        case 1
        then show thesis using turn True n1 t that(1) by simp
      next
        case 2
        then show thesis using turn True n1 n2 t that(2,3) by (auto simp: Let_def split: if_splits)
      next
        case 3
        then show thesis using turn True n1 n2 t that(2,3) by (auto simp: Let_def split: if_splits)
      next
        case 4
        then show thesis using turn True n1 n2 t that(2,3) by (auto simp: Let_def split: if_splits)
      qed
    qed
    then show ?thesis using IH q1 q2 quiet_trans by cases blast+
  next
    case False
    then show ?thesis using turn by auto
  qed
qed

lemma inflate_dynamic_inside:
  assumes "inflate_dynamic rd st = Some (Inr (r, st'))"
  shows "block_inside st r st'"
proof -
  obtain l1 st1 where n1: "needbits rd 5 (load st) st = (l1, st1)" by fastforce
  obtain l2 st2 where n2: "needbits rd 5 (dumpbits 5 l1) st1 = (l2, st2)" by fastforce
  obtain l3 st3 where n3: "needbits rd 4 (dumpbits 5 l2) st2 = (l3, st3)" by fastforce
  have q3: "quiet st st3"
    using needbits_quiet [OF n1] needbits_quiet [OF n2] needbits_quiet [OF n3] quiet_trans by blast
  let ?nl = "257 + unat ((ucast (lb l1) :: u32) AND 0x1f)" and ?nd = "1 + unat ((ucast (lb l2) :: u32) AND 0x1f)"
    and ?nb = "4 + unat ((ucast (lb l3) :: u32) AND 0xf)"
  show ?thesis
  proof (cases "?nl > 286 \<or> ?nd > 30")
    case True
    then have "st' = st3" using assms n1 n2 n3 by (auto simp: inflate_dynamic_def Let_def)
    then show ?thesis using quiet_inside [OF q3] by simp
  next
    case False
    obtain ll l4 st4 where b: "bit_lengths rd border ?nb (replicate 316 0) (dumpbits 4 l3) st3 = (ll, l4, st4)"
      by (metis prod_cases3)
    note q4 = quiet_trans [OF q3 bit_lengths_quiet [OF b]]
    have rest: "do {
        (i, tl', bl, st) \<leftarrow> build (take 19 ll) 19 [] [] 7 st4;
        if i \<noteq> 0 then
          (if i = 1 then map_option (\<lambda>st. Inr (i, st)) (free_table tl' st) else Some (Inr (i, st)))
        else do {
          (ll, l, st) \<leftarrow> read_lengths rd tl' bl (?nl + ?nd) 0 0 ll l4 st;
          case ll of None \<Rightarrow> Some (Inr (1, st))
          | Some ll \<Rightarrow> do {
              st \<leftarrow> free_table tl' st;
              dynamic_codes rd (take ?nl ll) (take ?nd (drop ?nl ll)) (store_bits l st)
            }
        }
      } = Some (Inr (r, st'))"
      using assms False by (simp only: inflate_dynamic_def Let_def n1 n2 n3 b prod.case if_False)
    obtain i tl' bl st5 where t: "build (take 19 ll) 19 [] [] 7 st4 = Some (i, tl', bl, st5)"
      using rest by (cases "build (take 19 ll) 19 [] [] 7 st4") auto
    note q5 = quiet_trans [OF q4 build_quiet [OF t]]
    show ?thesis
    proof (cases "i = 0")
      case True
      obtain ll' l6 st6 where rl: "read_lengths rd tl' bl (?nl + ?nd) 0 0 ll l4 st5 = Some (ll', l6, st6)"
        using rest t True by (cases "read_lengths rd tl' bl (?nl + ?nd) 0 0 ll l4 st5") auto
      have q6: "quiet st st6" using quiet_trans [OF q5] read_lengths_quiet [OF rl] by simp
      show ?thesis
      proof (cases ll')
        case None
        then show ?thesis using rest t True rl quiet_inside [OF q6] by auto
      next
        case (Some ll2)
        obtain st7 where fr: "free_table tl' st6 = Some st7"
          using rest t True rl Some by (cases "free_table tl' st6") auto
        have "quiet st (store_bits l6 st7)" using quiet_trans [OF quiet_trans [OF q6 free_table_quiet [OF fr]]] by simp
        moreover have "dynamic_codes rd (take ?nl ll2) (take ?nd (drop ?nl ll2)) (store_bits l6 st7) = Some (Inr (r, st'))"
          using rest t True rl Some fr by simp
        ultimately show ?thesis using block_inside_quiet dynamic_codes_inside by blast
      qed
    next
      case False
      then have "quiet st5 st'" using rest t free_table_quiet by (auto split: if_splits)
      then show ?thesis using quiet_inside quiet_trans [OF q5] by blast
    qed
  qed
qed

lemma inflate_block_inside:
  assumes "inflate_block rd st = Some (Inr (r, e, st'))"
  shows "block_inside st r st'"
proof -
  obtain l1 st1 where n1: "needbits rd 1 (load st) st = (l1, st1)" by fastforce
  obtain l2 st2 where n2: "needbits rd 2 (dumpbits 1 l1) st1 = (l2, st2)" by fastforce
  let ?st = "store_bits (dumpbits 2 l2) st2" and ?t = "unat ((ucast (lb l2) :: u32) AND 3)"
  have q: "quiet st ?st" using needbits_quiet [OF n1] needbits_quiet [OF n2] quiet_trans by auto
  have block: "(if ?t = 2 then map_option (map_sum id (\<lambda>(r, st). (r, lb l1 AND 1 \<noteq> 0, st))) (inflate_dynamic rd ?st)
      else if ?t = 0 then (let (r, st) = inflate_stored rd ?st in Some (Inr (r, lb l1 AND 1 \<noteq> 0, st)))
      else if ?t = 1 then map_option (\<lambda>(r, st). Inr (r, lb l1 AND 1 \<noteq> 0, st)) (inflate_fixed rd ?st)
      else Some (Inr (2, lb l1 AND 1 \<noteq> 0, ?st))) = Some (Inr (r, e, st'))"
    using assms n1 n2 by (simp add: inflate_block_def Let_def)
  consider "inflate_dynamic rd ?st = Some (Inr (r, st'))" | "inflate_stored rd ?st = (r, st')" | "inflate_fixed rd ?st = Some (r, st')" | "st' = ?st"
  proof -
    assume that: "inflate_dynamic rd ?st = Some (Inr (r, st')) \<Longrightarrow> thesis" "inflate_stored rd ?st = (r, st') \<Longrightarrow> thesis"
      "inflate_fixed rd ?st = Some (r, st') \<Longrightarrow> thesis" "st' = ?st \<Longrightarrow> thesis"
    have "?t = 2 \<Longrightarrow> thesis" using that(1) block by (cases "inflate_dynamic rd ?st"; cases "the (inflate_dynamic rd ?st)") auto
    moreover have "?t = 0 \<Longrightarrow> thesis" using that(2) block by (simp split: prod.splits)
    moreover have "?t = 1 \<Longrightarrow> thesis" using that(3) block by auto
    moreover have "?t \<noteq> 2 \<Longrightarrow> ?t \<noteq> 0 \<Longrightarrow> ?t \<noteq> 1 \<Longrightarrow> thesis" using that(4) block by simp
    ultimately show thesis by blast
  qed
  then show ?thesis
    by cases (use block_inside_quiet [OF q] inflate_dynamic_inside inflate_stored_inside inflate_fixed_inside quiet_inside q in blast)+
qed

lemma inflate_blocks_inside:
  assumes "inflate_blocks rd st = Some (Inr (r, st'))"
  shows "block_inside st r st'"
proof -
  have "\<forall>r st'. res = Inr (r, st') \<longrightarrow> block_inside st r st'" if "inflate_blocks rd st = Some res" for res
  proof (rule inflate_blocks.raw_induct [where P = "\<lambda>rd st res. \<forall>r st'. res = Inr (r, st') \<longrightarrow> block_inside st r st'", OF _ that])
    fix loop and rd :: reader and st res
    assume IH: "\<And>rd st res. loop rd st = Some res \<Longrightarrow> \<forall>r st'. res = Inr (r, st') \<longrightarrow> block_inside st r st'"
      and turn: "do {
       res \<leftarrow> inflate_block rd (st\<lparr>hufts := 0\<rparr>);
       case res of Inl msg \<Rightarrow> Some (Inl msg)
       | Inr (r, e, st) \<Rightarrow> if r \<noteq> 0 then Some (Inr (r, st)) else if e then Some (Inr (0, st)) else loop rd st
     } = Some res"
    show "\<forall>r st'. res = Inr (r, st') \<longrightarrow> block_inside st r st'"
    proof (intro allI impI)
      fix r st' assume res: "res = Inr (r, st')"
      obtain r1 e st1 where b: "inflate_block rd (st\<lparr>hufts := 0\<rparr>) = Some (Inr (r1, e, st1))"
        using turn res by (cases "inflate_block rd (st\<lparr>hufts := 0\<rparr>)"; cases "the (inflate_block rd (st\<lparr>hufts := 0\<rparr>))") auto
      have in1: "block_inside st r1 st1" using block_inside_quiet [OF _ inflate_block_inside [OF b]] by (simp add: quiet_def)
      show "block_inside st r st'"
      proof (cases "r1 = 0 \<and> \<not> e")
        case True
        then have "loop rd st1 = Some (Inr (r, st'))" using turn b res by simp
        then have "block_inside st1 r st'" using IH by blast
        then show ?thesis using in1 True confined_trans by (auto simp: block_inside_def)
      next
        case False
        then show ?thesis using turn b res in1 by (auto split: if_splits)
      qed
    qed
  qed
  then show ?thesis using assms by blast
qed

lemma inflate_confined:
  assumes "inflate rd st = Some (Inr (r, st'))"
  shows "confined st st'"
proof -
  let ?st = "st\<lparr>outcnt := 0, bk := 0, bb := 0\<rparr>"
  obtain r1 st1 where b: "inflate_blocks rd ?st = Some (Inr (r1, st1))"
    using assms by (cases "inflate_blocks rd ?st"; cases "the (inflate_blocks rd ?st)") (auto simp: inflate_def)
  have c: "confined st st1" using inflate_blocks_inside [OF b] by (simp add: block_inside_def confined_def)
  have "st' = st1 \<or> (\<exists>k p. st' = flush_output (outcnt st1) (st1\<lparr>bk := k, inptr := p\<rparr>))"
    using assms b by (auto simp: inflate_def split: if_splits prod.splits)
  moreover have "confined st1 (st1\<lparr>bk := k, inptr := p\<rparr>)" for k p by (simp add: confined_def)
  ultimately have "confined st1 st'" using confined_trans [OF _ flush_confined] by auto
  then show ?thesis by (rule confined_trans [OF c])
qed

subsection \<open>From the head on\<close>

lemma get_bytes_quiet: "get_bytes rd n st = (cs, st') \<Longrightarrow> quiet st st'"
proof (induction rd n st arbitrary: cs st' rule: get_bytes.induct)
  case (2 rd n st)
  obtain c st1 where b: "get_byte rd st = (c, st1)" by fastforce
  obtain cs1 st2 where g: "get_bytes rd n st1 = (cs1, st2)" by fastforce
  show ?case using 2(1) [OF b [symmetric] refl g] 2(2) b g quiet_trans [OF get_byte_quiet [OF b]] by auto
qed simp

lemma skip_name_quiet:
  assumes "skip_name rd st = Some st'"
  shows "quiet st st'"
proof (rule skip_name.raw_induct [where P = "\<lambda>rd st st'. quiet st st'", OF _ assms])
  fix loop and rd :: reader and st st'
  assume IH: "\<And>rd st st'. loop rd st = Some st' \<Longrightarrow> quiet st st'"
    and turn: "(let (c, st) = get_byte rd st in if c \<noteq> 0 then loop rd st else Some st) = Some st'"
  obtain c st1 where b: "get_byte rd st = (c, st1)" by fastforce
  then show "quiet st st'"
    using turn IH quiet_trans [OF get_byte_quiet [OF b]] get_byte_quiet [OF b] by (auto split: if_splits)
qed

lemma skip_extra_quiet: "quiet st (skip_extra rd flags st)"
proof -
  obtain a st1 where b1: "get_byte rd st = (a, st1)" by fastforce
  obtain b st2 where b2: "get_byte rd st1 = (b, st2)" by fastforce
  obtain cs st3 where g: "get_bytes rd (unat ((ucast a :: u32) OR push_bit 8 (ucast b))) st2 = (cs, st3)" by fastforce
  have "quiet st st3" using get_byte_quiet [OF b1] get_byte_quiet [OF b2] get_bytes_quiet [OF g] quiet_trans by blast
  then show ?thesis using b1 b2 g by (simp add: skip_extra_def)
qed

lemma quiet_method [simp]: "quiet st (st\<lparr>zmethod := x\<rparr>)"
  by (simp add: quiet_def)

lemma skip_name_if_quiet: "(if c then skip_name rd st else Some st) = Some st' \<Longrightarrow> quiet st st'"
  using skip_name_quiet by (auto split: if_splits)

lemma get_method_quiet:
  assumes "get_method rd st = Some (m, st')"
  shows "quiet st st'"
proof -
  obtain magic st1 where g: "get_bytes rd 2 st = (magic, st1)" by fastforce
  have q1: "quiet st (st1\<lparr>zmethod := - 1\<rparr>)" by (rule quiet_trans [OF get_bytes_quiet [OF g]]) simp
  show ?thesis
  proof (cases "magic = GZIP_MAGIC \<or> magic = OLD_GZIP_MAGIC")
    case True
    obtain b st2 where b: "get_byte rd (st1\<lparr>zmethod := - 1\<rparr>) = (b, st2)" by fastforce
    obtain flags st3 where f: "get_byte rd (st2\<lparr>zmethod := uint b\<rparr>) = (flags, st3)" by fastforce
    have q3: "quiet st st3"
      using quiet_trans [OF quiet_trans [OF q1 get_byte_quiet [OF b]] quiet_trans [OF quiet_method get_byte_quiet [OF f]]] .
    show ?thesis
    proof (cases "flags AND ENCRYPTED \<noteq> 0 \<or> flags AND CONTINUATION \<noteq> 0 \<or> flags AND RESERVED \<noteq> 0")
      case bad: True
      then have "st' = st3" using assms g True b f by (auto simp: get_method_def Let_def split: if_splits)
      then show ?thesis using q3 by simp
    next
      case False
      obtain cs st4 where s: "get_bytes rd 6 st3 = (cs, st4)" by fastforce
      obtain st6 where n: "(if flags AND ORIG_NAME \<noteq> 0 then skip_name rd (skip_extra rd flags st4) else Some (skip_extra rd flags st4)) = Some st6"
          "(if flags AND COMMENT \<noteq> 0 then skip_name rd st6 else Some st6) = Some st'"
        using assms g True b f False s
        by (cases "if flags AND ORIG_NAME \<noteq> 0 then skip_name rd (skip_extra rd flags st4) else Some (skip_extra rd flags st4)")
          (auto simp: get_method_def Let_def bind_eq_Some_conv)
      have "quiet st st4" using quiet_trans [OF q3 get_bytes_quiet [OF s]] .
      also have "quiet st4 (skip_extra rd flags st4)" by (rule skip_extra_quiet)
      also have "quiet (skip_extra rd flags st4) st6" by (rule skip_name_if_quiet [OF n(1)])
      also have "quiet st6 st'" by (rule skip_name_if_quiet [OF n(2)])
      finally show ?thesis .
    qed
  next
    case False
    then have "st' = st1\<lparr>zmethod := - 1\<rparr>" using assms g by (auto simp: get_method_def Let_def)
    then show ?thesis using q1 by simp
  qed
qed

lemma decompress_confined:
  assumes "decompress rd st = Some (Inr st')" "\<not> pkzip st"
  shows "confined st st'"
proof -
  have "zmethod st = DEFLATED" using assms by (auto simp: decompress_def split: if_splits)
  then obtain r where "inflate rd st = Some (Inr (r, st'))"
    using assms(1) by (cases "inflate rd st"; cases "the (inflate rd st)") (auto simp: decompress_def split: if_splits prod.splits)
  then show ?thesis by (rule inflate_confined)
qed

lemma unzip_confined:
  assumes "unzip rd st = Some (Inr st')" "\<not> pkzip st"
  shows "\<forall>i\<ge>32768. window st' i = window st i"
proof -
  obtain st1 where d: "decompress rd st = Some (Inr st1)"
    using assms by (cases "decompress rd st"; cases "the (decompress rd st)") (auto simp: unzip_def)
  note c = decompress_confined [OF d assms(2)]
  then have pk: "\<not> pkzip st1" using assms(2) by (simp add: confined_def)
  obtain cs st2 where t: "get_bytes rd 8 st1 = (cs, st2)" by fastforce
  note q = get_bytes_quiet [OF t]
  have "st' = st2\<lparr>extended := False, pkzip := False\<rparr>"
    using assms d pk t by (auto simp: unzip_def original_length_def split: if_splits)
  then show ?thesis using c q by (simp add: confined_def quiet_def)
qed

lemma uncompress_kernel_confined:
  assumes "uncompress_kernel rd dest buf win st = Some (Inr (r, st'))" "\<not> pkzip st" "32768 \<le> i"
  shows "window st' i = win i"
proof -
  let ?st0 = "clear_bufs (st\<lparr>inbuf := buf, window := win, dest_addr := dest\<rparr>)"
  obtain m st1 where g: "get_method rd ?st0 = Some (m, st1)"
    using assms(1) by (cases "get_method rd ?st0") (auto simp: uncompress_kernel_def)
  have q: "window st1 = win" "\<not> pkzip st1" using get_method_quiet [OF g] assms(2) by (simp_all add: quiet_def clear_bufs_def)
  show ?thesis
  proof (cases "m < 0")
    case True
    then show ?thesis using assms(1) g q(1) by (auto simp: uncompress_kernel_def)
  next
    case False
    then have "unzip rd (st1\<lparr>zmethod := m\<rparr>) = Some (Inr st')"
      using assms(1) g by (cases "unzip rd (st1\<lparr>zmethod := m\<rparr>)"; cases "the (unzip rd (st1\<lparr>zmethod := m\<rparr>))") (auto simp: uncompress_kernel_def)
    then show ?thesis using unzip_confined [of rd "st1\<lparr>zmethod := m\<rparr>" st'] q assms(3) by simp
  qed
qed

end
