(* ===== verification/Zip_Theorems.thy ===== *)
theory Zip_Theorems
  imports Huft_Theorems Gzip_File Zip_Bounds
begin

text \<open>
  Decompression from end to end, at the entry point that the boot code calls.
\<close>

text \<open>
  C6: \<open>uncompress_kernel\<close> on a gzip file. The file is a head with any of the optional fields, then blocks,
  stored, with the fixed codes or with codes of their own, then check sum and length. It returns 0, the bytes that
  the blocks stand for are at the destination, in order, no other memory is changed, and all tables are
  freed. \<open>blocks_ok\<close> says of the blocks only that they are well formed: codes that are
  complete, and matches that reach back no further than the output so far.
\<close>
theorem uncompress_kernel_correct:
  assumes "gzip_file f h bs crc" "reads f rd" "dest \<noteq> 0" "unat dest + length (blocks_out bs []) < 2 ^ 64"
    and "length (blocks_out bs []) < 2 ^ 32" "\<forall>q. live (zheap st) q \<longrightarrow> q < brk (zheap st)" "\<not> pkzip st"
  shows "\<exists>st'. uncompress_kernel rd dest buf win st = Some (Inr (0, st')) \<and>
    zmem st' = overlay dest (blocks_out bs []) (zmem st) \<and> bytes_out st' = of_nat (length (blocks_out bs [])) \<and>
    live (zheap st') = live (zheap st)"
  using uncompress_kernel_out [OF assms(1-5) _ assms(7)] assms(6) unfolding sound_def by blast

text \<open>\<open>hi\<close> stored, then \<open>!\<close> and a match of three bytes from three bytes before.\<close>

definition small_file :: "u8 list" where
  "small_file = [31, 139, 8, 0, 0, 0, 0, 0, 0, 0, 0, 2, 0, 253, 255, 104, 105, 83, 4, 34, 0, 219, 171, 91, 103, 6, 0, 0, 0]"

definition small_blocks :: "block list" where
  "small_blocks = [Stored [104, 105], Fixed [Lit 33, Match 0 0 2 0]]"

lemma count_replicate [simp]: "count_list (replicate n x) x = n" "x \<noteq> y \<Longrightarrow> count_list (replicate n x) y = 0"
  by (induction n) simp_all

lemma first_code_unfold: "0 < k \<Longrightarrow> first_code b k = 2 * (first_code b (k - 1) + (if k = 1 then 0 else count_list b (k - 1)))"
  by (cases k) simp_all

lemma small_lengths:
  "fixed_lengths ! 33 = 8" "fixed_lengths ! 257 = 7" "fixed_lengths ! 256 = 7" "fixed_distances ! 2 = 5"
  "count_list (take 33 fixed_lengths) 8 = 33" "count_list (take 257 fixed_lengths) 7 = 1" "count_list (take 256 fixed_lengths) 7 = 0"
  "count_list (take 2 fixed_distances) 5 = 2"
  by (simp_all add: fixed_lengths_def fixed_distances_def nth_append)

lemma small_first_codes: "first_code fixed_lengths 7 = 0" "first_code fixed_lengths 8 = 48" "first_code fixed_distances 5 = 0"
proof -
  have c: "count_list fixed_lengths 7 = 24" "k < 7 \<Longrightarrow> count_list fixed_lengths k = 0" "k < 5 \<Longrightarrow> count_list fixed_distances k = 0" for k
    by (simp_all add: fixed_lengths_def fixed_distances_def)
  have "k \<le> 7 \<Longrightarrow> first_code fixed_lengths k = 0" "k \<le> 5 \<Longrightarrow> first_code fixed_distances k = 0" for k
    by (induction k) (simp_all add: c)
  then show "first_code fixed_lengths 7 = 0" "first_code fixed_distances 5 = 0" by simp_all
  then show "first_code fixed_lengths 8 = 48" by (simp add: first_code_unfold [of 8] c)
qed

lemma rv_numeral: "rv (numeral n) x = x mod 2 * 2 ^ pred_numeral n + rv (pred_numeral n) (x div 2)"
  by (simp add: numeral_eq_Suc)

lemma small_codewords:
  "codeword fixed_lengths 33 = 138" "codeword fixed_lengths 257 = 64" "codeword fixed_lengths 256 = 0" "codeword fixed_distances 2 = 8"
  by (simp_all add: codeword_def canonical_def small_lengths small_first_codes rv_numeral)

lemma fnum_numeral: "fnum f P (numeral n) = of_bool (fbit f P) + 2 * fnum f (Suc P) (pred_numeral n)"
  by (simp add: numeral_eq_Suc)

abbreviation small_contents :: contents where
  "small_contents \<equiv> (\<lambda>i. if i < 29 then small_file ! i else 0)"

lemma small_ends: "blocks_end small_blocks 80 = 166" "blocks_out small_blocks [] = [104, 105, 33, 104, 105, 33]" "blocks_ok small_blocks []"
proof -
  have w: "width (codes_fields fixed_lengths fixed_distances [Lit 33, Match 0 0 2 0]) = 27"
    by (simp add: codes_fields_def small_lengths cplext_def cpdext_def)
  show "blocks_end small_blocks 80 = 166"
    by (simp add: small_blocks_def block_end_def w byte_up_def stored_fields_def bytes_fields_def)
  show "blocks_out small_blocks [] = [104, 105, 33, 104, 105, 33]"
    by (simp add: small_blocks_def cplens_def cpdist_def numeral_3_eq_3)
  have "length fixed_lengths = 288" "length fixed_distances = 30" by (simp_all add: fixed_lengths_def fixed_distances_def)
  then show "blocks_ok small_blocks []"
    by (simp add: small_blocks_def small_lengths cplext_def cpdext_def cplens_def cpdist_def)
qed

lemma small_holds: "blocks_hold small_contents 80 small_blocks"
proof -
  have w: "block_end (Stored [104, 105]) 80 = 136" by (simp add: block_end_def byte_up_def stored_fields_def bytes_fields_def)
  have "block_holds small_contents 80 False (Stored [104, 105])"
    by (simp add: block_holds_def byte_up_def stored_fields_def bytes_fields_def fnum_numeral fbit_def small_file_def)
  moreover have "block_holds small_contents 136 True (Fixed [Lit 33, Match 0 0 2 0])"
    by (simp add: block_holds_def codes_fields_def small_lengths small_codewords cplext_def cpdext_def fnum_numeral fbit_def small_file_def)
  ultimately show ?thesis by (simp add: small_blocks_def w)
qed

definition no_fields :: gzip_head where
  "no_fields = \<lparr>gz_flags = 0, gz_stamp = replicate 6 0, gz_extra = [], gz_name = [], gz_comment = []\<rparr>"

lemma small_gzip: "gzip_file small_contents no_fields small_blocks [219, 171, 91, 103]"
proof -
  have h: "head_bytes no_fields = [31, 139, 8, 0, 0, 0, 0, 0, 0, 0]"
    by (simp add: head_bytes_def no_fields_def GZIP_MAGIC_def eval_nat_numeral)
  have "bytes_at small_contents 0 (head_bytes no_fields)" by (simp add: h small_file_def)
  moreover have "head_ok no_fields" by (simp add: head_ok_def no_fields_def)
  moreover have "length [104, 105, 33, 104, 105, 33 :: u8] = 6" by simp
  then have "bytes_at small_contents 21 ([219, 171, 91, 103] @ le32 (length [104, 105, 33, 104, 105, 33 :: u8]))"
    by (simp only:) (simp add: small_file_def le32_def le16_def)
  moreover have "small_blocks \<noteq> []" by (simp add: small_blocks_def)
  ultimately show ?thesis
    using small_holds small_ends by (simp add: gzip_file_def h byte_up_def)
qed

definition start_zip :: zip where
  "start_zip = \<lparr>inbuf = \<lambda>i. 0, inptr = 0, insize = 0, block_number = 0, window = \<lambda>i. 0, outcnt = 0, bytes_out = 0,
     dest_addr = 0, zmem = \<lambda>a. 0, bb = 0, bk = 0, hufts = 0, zheap = no_tables, zmethod = 0, pkzip = False, extended = False\<rparr>"

lemma uncompress_kernel_correct_witness:
  "\<exists>st'. uncompress_kernel (\<lambda>k buf i. small_contents (1024 * k + i)) 4096 (\<lambda>i. 0) (\<lambda>i. 0) start_zip = Some (Inr (0, st')) \<and>
     zmem st' = overlay 4096 [104, 105, 33, 104, 105, 33] (\<lambda>a. 0)"
proof -
  have "reads small_contents (\<lambda>k buf i. small_contents (1024 * k + i))" by (simp add: reads_def)
  moreover have "\<forall>q. live (zheap start_zip) q \<longrightarrow> q < brk (zheap start_zip)" "\<not> pkzip start_zip" "zmem start_zip = (\<lambda>a. 0)"
    by (simp_all add: start_zip_def no_tables_def)
  ultimately show ?thesis
    using uncompress_kernel_correct [OF small_gzip, of "\<lambda>k buf i. small_contents (1024 * k + i)" 4096 start_zip "\<lambda>i. 0" "\<lambda>i. 0"] small_ends
    by auto
qed



end
