(* ===== verification/Fat.thy ===== *)
theory Fat
  imports Device "HOL-Library.Monad_Syntax" "HOL-Library.Signed_Division"
begin

text \<open>
  The FAT file system: \<open>fs/dos.c\<close>. The widths of the C types are kept: block numbers are \<open>short\<close>s, the
  fields of the super block are of 16 bits, the number of clusters is an \<open>unsigned long\<close>. A block list is
  \<open>None\<close> for the null pointer, and the list of what \<open>malloc\<close> gave otherwise. A function that reads or
  writes outside of a list, or goes through a null pointer, gives \<open>None\<close>. Memory is taken to suffice.
  Messages are not modelled; the lines of \<open>msdos_ls\<close> are a list.
\<close>

subsection \<open>Structures on the disk\<close>

definition SECTOR_SIZE :: nat where "SECTOR_SIZE = 512"
definition SECTOR_BITS :: nat where "SECTOR_BITS = 9"
definition MSDOS_DPS :: u16 where "MSDOS_DPS = 16"
definition MSDOS_DIR_BITS :: nat where "MSDOS_DIR_BITS = 5"
definition MSDOS_MAX_EXTRA :: u64 where "MSDOS_MAX_EXTRA = 3"
definition MSDOS_FAT12 :: u64 where "MSDOS_FAT12 = 4078"
definition ATTR_VOLUME :: u8 where "ATTR_VOLUME = 8"
definition ATTR_DIR :: u8 where "ATTR_DIR = 16"
definition DELETED_FLAG :: u8 where "DELETED_FLAG = 0xe5"
definition MAX_OPEN_FILES :: nat where "MAX_OPEN_FILES = 5"
definition sizeof_boot_sector :: nat where "sizeof_boot_sector = 36"
definition sizeof_dir_entry :: nat where "sizeof_dir_entry = 32"

definition IS_FREE :: "u8 list \<Rightarrow> bool" where
  "IS_FREE n \<longleftrightarrow> byte_at n 0 = 0 \<or> byte_at n 0 = DELETED_FLAG \<or> byte_at n 0 = 0xF6"

text \<open>The fields of \<open>struct msdos_boot_sector\<close>.\<close>

definition b_sector_size :: "u8 list \<Rightarrow> u16" where "b_sector_size b = le16 b 11"
definition b_cluster_size :: "u8 list \<Rightarrow> u8" where "b_cluster_size b = byte_at b 13"
definition b_reserved :: "u8 list \<Rightarrow> u16" where "b_reserved b = le16 b 14"
definition b_fats :: "u8 list \<Rightarrow> u8" where "b_fats b = byte_at b 16"
definition b_dir_entries :: "u8 list \<Rightarrow> u16" where "b_dir_entries b = le16 b 17"
definition b_sectors :: "u8 list \<Rightarrow> u16" where "b_sectors b = le16 b 19"
definition b_fat_length :: "u8 list \<Rightarrow> u16" where "b_fat_length b = le16 b 22"
definition b_secs_track :: "u8 list \<Rightarrow> u16" where "b_secs_track b = le16 b 24"
definition b_heads :: "u8 list \<Rightarrow> u16" where "b_heads b = le16 b 26"
definition b_total_sect :: "u8 list \<Rightarrow> u32" where "b_total_sect b = le32 b 32"

record msdos_dir_entry =
  d_name :: "u8 list"
  d_attr :: u8
  d_start :: u16
  d_size :: u32

definition dir_entry :: "u8 list \<Rightarrow> nat \<Rightarrow> msdos_dir_entry" where
  "dir_entry buf o' = \<lparr>d_name = map (\<lambda>i. byte_at buf (o' + i)) [0..<11], d_attr = byte_at buf (o' + 11),
     d_start = le16 buf (o' + 26), d_size = le32 buf (o' + 28)\<rparr>"

record msdos_sb =
  sb_blocksize :: u32
  sb_cluster_size :: u16
  sb_fats :: u8
  sb_fat_bits :: u8
  sb_fat_start :: u16
  sb_fat_length :: u16
  sb_dir_start :: u16
  sb_dir_entries :: u16
  sb_data_start :: u16
  sb_clusters :: u64

record fat_inode =
  entry :: msdos_dir_entry
  f_free :: bool
  block_list :: "u16 list option"
  blocks :: u16

record msdos =
  msb :: msdos_sb
  fat :: "u16 list"
  f_table :: "fat_inode list"

definition upd_inode :: "nat \<Rightarrow> (fat_inode \<Rightarrow> fat_inode) \<Rightarrow> msdos \<Rightarrow> msdos" where
  "upd_inode i f st = st\<lparr>f_table := (f_table st)[i := f (f_table st ! i)]\<rparr>"

subsection \<open>Inodes\<close>

fun first_free_inode :: "fat_inode list \<Rightarrow> nat option" where
  "first_free_inode [] = None"
| "first_free_inode (e # es) = (if f_free e then Some 0 else map_option Suc (first_free_inode es))"

definition allocate_inode :: "msdos_dir_entry \<Rightarrow> msdos \<Rightarrow> nat option \<times> msdos" where
  "allocate_inode e st =
     (case first_free_inode (f_table st) of
        Some i \<Rightarrow> (Some i, upd_inode i (\<lambda>n. n\<lparr>f_free := False, blocks := 0, block_list := None, entry := e\<rparr>) st)
      | None \<Rightarrow> (None, st))"

definition free_inode :: "nat \<Rightarrow> msdos \<Rightarrow> msdos" where
  "free_inode i st = upd_inode i (\<lambda>n. n\<lparr>f_free := True\<rparr>) st"

text \<open>Without a free inode the index is -1, and the list is stored before the table.\<close>

definition msdos_build_root_inode :: "msdos \<Rightarrow> (nat \<times> msdos) option" where
  "msdos_build_root_inode st =
     (let sb = msb st;
          root = \<lparr>d_name = replicate 11 0, d_attr = ATTR_DIR, d_start = sb_dir_start sb,
            d_size = ucast (sb_dir_entries sb) * of_nat sizeof_dir_entry\<rparr>;
          (ino, st) = allocate_inode root st;
          nbblock = unat ((d_size root + sb_blocksize sb - 1) div sb_blocksize sb)
      in case ino of None \<Rightarrow> None
         | Some ino \<Rightarrow> Some (ino, upd_inode ino (\<lambda>n. n\<lparr>block_list :=
             Some (map (\<lambda>i. sb_dir_start sb + of_nat i) [0..<nbblock])\<rparr>) st))"

subsection \<open>The file allocation table\<close>

definition read_fat :: "u8 \<Rightarrow> u8 list \<Rightarrow> nat \<Rightarrow> u16" where
  "read_fat bits tfat offset =
     (let index = (if bits = 16 then offset * 2 else offset * 3 div 2);
          mask = (if bits = 16 then 0xffff else 0xfff);
          value = le16 tfat index;
          value = (if bits = 12 \<and> offset AND 1 \<noteq> 0 then drop_bit 4 value else value)
      in value AND mask)"

definition translate_fat :: "blockdev \<Rightarrow> msdos \<Rightarrow> int \<times> msdos" where
  "translate_fat dev st =
     (let sb = msb st;
          sz = unat (sb_blocksize sb * ucast (sb_fat_length sb));
          (bytes_read, buffer) = device_read dev [] sz (ucast (ucast (sb_fat_start sb) * sb_blocksize sb))
      in if bytes_read \<noteq> sz then (-1, st)
         else
           let size_in_words = (if sb_fat_bits sb = 16 then bytes_read div 2 else bytes_read * 2 div 3)
           in (0, st\<lparr>fat := map (read_fat (sb_fat_bits sb) buffer) [0..<size_in_words]\<rparr>))"

subsection \<open>The blocks of a file\<close>

definition valid_entry :: "msdos_dir_entry \<Rightarrow> bool" where
  "valid_entry e =
     (if byte_at (d_name e) 0 = 0x05 then False
      else if IS_FREE (d_name e) then False
      else if d_attr e AND ATTR_VOLUME \<noteq> 0 then False
      else True)"

text \<open>Clusters to blocks of the device, in 16 bits. \<open>short\<close> numbers below 0 count none.\<close>

definition convert_block_list :: "nat \<Rightarrow> msdos \<Rightarrow> (int \<times> msdos) option" where
  "convert_block_list ino st =
     (let sb = msb st; n = f_table st ! ino; k = nat (sint (blocks n)); cs = unat (sb_cluster_size sb)
      in case block_list n of None \<Rightarrow> None
      | Some bl \<Rightarrow>
          if length bl < k then None
          else if cs > 1 then
            Some (0, upd_inode ino (\<lambda>n. n\<lparr>
              block_list := Some (concat (map (\<lambda>c. map (\<lambda>j. (c - 2) * sb_cluster_size sb + sb_data_start sb + of_nat j) [0..<cs]) (take k bl))),
              blocks := ucast ((d_size (entry n) + sb_blocksize sb) div sb_blocksize sb)\<rparr>) st)
          else Some (0, upd_inode ino (\<lambda>n. n\<lparr>
              block_list := Some (map (\<lambda>c. c - 2 + sb_data_start sb) (take k bl) @ drop k bl)\<rparr>) st))"

text \<open>
  The loop along the chain from \<open>index\<close>: the number of clusters, or -1 for one that is not in the file
  system, and the list.
\<close>

function fill_loop :: "u64 \<Rightarrow> u16 list \<Rightarrow> u16 \<Rightarrow> bool \<Rightarrow> u16 \<Rightarrow> nat \<Rightarrow> u16 list \<Rightarrow> (int \<times> u16 list) option" where
  "fill_loop clusters tab eof_mask alloc index block bl =
     (if word_of_int (uint index - 2) \<ge> clusters \<or> unat clusters \<le> block then Some (-1, bl)
      else if alloc \<and> length bl \<le> block then None
      else if length tab \<le> unat index then None
      else
        let bl = (if alloc then bl[block := index] else bl);
            index' = tab ! unat index
        in if index' AND eof_mask \<noteq> eof_mask then fill_loop clusters tab eof_mask alloc index' (block + 1) bl
           else Some (int (block + 1), bl))"
  by auto
termination by (relation "measure (\<lambda>(clusters, tab, eof_mask, alloc, index, block, bl). unat clusters - block)") auto

declare fill_loop.simps [simp del]

text \<open>A list that was freed has nothing to read or write.\<close>

definition fill_block_list :: "nat \<Rightarrow> bool \<Rightarrow> msdos \<Rightarrow> (int \<times> msdos) option" where
  "fill_block_list ino alloc st =
     (let sb = msb st; n = f_table st ! ino;
          size_in_blocks = (d_size (entry n) + sb_blocksize sb - 1) div sb_blocksize sb;
          st = upd_inode ino (\<lambda>n. n\<lparr>block_list := map_option (\<lambda>_. []) (block_list n)\<rparr>) st;
          st = (if alloc then upd_inode ino (\<lambda>n. n\<lparr>block_list := Some (replicate (unat size_in_blocks) 0),
                  blocks := ucast size_in_blocks\<rparr>) st else st);
          eof_mask = (if sb_fat_bits sb = 12 then 0xff8 else 0xfff8);
          bl0 = (case block_list (f_table st ! ino) of None \<Rightarrow> [] | Some bl \<Rightarrow> bl)
      in do {
           (count, bl) \<leftarrow> fill_loop (sb_clusters sb) (fat st) eof_mask alloc (d_start (entry n)) 0 bl0;
           let st = (if alloc then upd_inode ino (\<lambda>n. n\<lparr>block_list := Some bl\<rparr>) st else st);
           if count < 0 then Some (-1, st)
           else if alloc then convert_block_list ino (upd_inode ino (\<lambda>n. n\<lparr>blocks := word_of_int count\<rparr>) st)
           else Some (count, st)
         })"

subsection \<open>Directories\<close>

text \<open>The blocks of a directory from byte \<open>i\<close> on; \<open>Some None\<close> when a block cannot be read.\<close>

function read_dir_blocks :: "blockdev \<Rightarrow> u32 \<Rightarrow> nat \<Rightarrow> u16 list \<Rightarrow> nat \<Rightarrow> u8 list option option" where
  "read_dir_blocks dev bs sz bl i =
     (if i < sz then
        if unat bs = 0 \<or> length bl \<le> i div unat bs then None
        else
          let len = (if sz - i > unat bs then unat bs else sz - i);
              (n, b) = device_read dev (replicate len 0) len (ucast (scast (bl ! (i div unat bs)) * bs))
          in if n \<noteq> len then Some None
             else map_option (map_option (\<lambda>rest. b @ rest)) (read_dir_blocks dev bs sz bl (i + unat bs))
      else Some (Some []))"
  by auto
termination by (relation "measure (\<lambda>(dev, bs, sz, bl, i). sz - i)") auto

declare read_dir_blocks.simps [simp del]

definition msdos_readdir :: "blockdev \<Rightarrow> nat \<Rightarrow> msdos \<Rightarrow> (u8 list option \<times> msdos) option" where
  "msdos_readdir dev ino st = do {
     (ok, st) \<leftarrow>
       (if d_size (entry (f_table st ! ino)) = 0 then do {
          (count, st) \<leftarrow> fill_block_list ino False st;
          if count < 0 then Some (False, st)
          else do {
            let sz = word_of_int count * sb_blocksize (msb st) * ucast (sb_cluster_size (msb st));
            let st = upd_inode ino (\<lambda>n. n\<lparr>entry := (entry n)\<lparr>d_size := sz\<rparr>\<rparr>) st;
            (r, st) \<leftarrow> fill_block_list ino True st;
            if r < 0 then Some (False, upd_inode ino (\<lambda>n. n\<lparr>entry := (entry n)\<lparr>d_size := 0\<rparr>\<rparr>) st)
            else Some (True, st)
          }
        }
        else Some (True, st));
     if \<not> ok then Some (None, st)
     else do {
       bl \<leftarrow> block_list (f_table st ! ino);
       buf \<leftarrow> read_dir_blocks dev (sb_blocksize (msb st)) (unat (d_size (entry (f_table st ! ino)))) bl 0;
       Some (buf, st)
     }
   }"

definition to_lower :: "u8 \<Rightarrow> u8" where
  "to_lower c = (if 0x41 \<le> c \<and> c \<le> 0x5a then c - 0x41 + 0x61 else c)"

text \<open>The name of 8 and 3 characters as a C string.\<close>

definition convert_name :: "u8 list \<Rightarrow> u8 list" where
  "convert_name array =
     (let part = \<lambda>xs. map to_lower (filter (\<lambda>c. c \<noteq> 0x20) xs);
          suffix = (\<exists>c\<in>set (take 3 (drop 8 array)). c \<noteq> 0x20)
      in takeWhile (\<lambda>c. c \<noteq> 0)
           (part (take 8 array) @ (if suffix then 0x2e # part (take 3 (drop 8 array)) else [])))"

text \<open>The first valid entry with the name, from entry \<open>i\<close> on; the null pointer cannot be compared.\<close>

fun scan_entries :: "u8 list \<Rightarrow> u8 list option \<Rightarrow> nat \<Rightarrow> nat \<Rightarrow> msdos_dir_entry option option" where
  "scan_entries buf name i 0 = Some None"
| "scan_entries buf name i (Suc count) =
     (let dir = dir_entry buf (i * sizeof_dir_entry) in
      if valid_entry dir then
        case name of None \<Rightarrow> None
        | Some c \<Rightarrow> if c = convert_name (d_name dir) then Some (Some dir) else scan_entries buf name (i + 1) count
      else scan_entries buf name (i + 1) count)"

definition msdos_search_directory :: "blockdev \<Rightarrow> nat \<Rightarrow> u8 list option \<Rightarrow> msdos \<Rightarrow> (nat option \<times> msdos) option" where
  "msdos_search_directory dev ino name st =
     (if d_attr (entry (f_table st ! ino)) AND ATTR_DIR = 0 then Some (None, st)
      else do {
        (buf, st) \<leftarrow> msdos_readdir dev ino st;
        case buf of None \<Rightarrow> Some (None, st)
        | Some buf \<Rightarrow> do {
            res \<leftarrow> scan_entries buf name 0 (unat (d_size (entry (f_table st ! ino))) div sizeof_dir_entry);
            case res of None \<Rightarrow> Some (None, st)
            | Some dir \<Rightarrow>
                let (new, st) = allocate_inode dir st
                in if new \<noteq> None \<and> d_attr dir AND ATTR_DIR \<noteq> 0 \<and> d_size dir \<noteq> 0 then Some (None, st)
                   else Some (new, st)
          }
      })"

text \<open>The loop over the components after the first.\<close>

fun find_rest :: "blockdev \<Rightarrow> u8 list list \<Rightarrow> nat \<Rightarrow> msdos \<Rightarrow> (nat option \<times> msdos) option" where
  "find_rest dev [] ino st = Some (Some ino, st)"
| "find_rest dev (current # cs) ino st = do {
     (newino, st) \<leftarrow> msdos_search_directory dev ino (Some current) st;
     let st = free_inode ino st;
     case newino of None \<Rightarrow> Some (None, st) | Some newino \<Rightarrow> find_rest dev cs newino st
   }"

definition msdos_find :: "blockdev \<Rightarrow> u8 list \<Rightarrow> msdos \<Rightarrow> (nat option \<times> msdos) option" where
  "msdos_find dev entryname st =
     (if entryname = [] \<or> entryname = [SLASH] then
        map_option (\<lambda>(ino, st). (Some ino, st)) (msdos_build_root_inode st)
      else if length entryname \<ge> 256 then None
      else do {
        let cs = components [] entryname;
        (ino, st) \<leftarrow> msdos_build_root_inode st;
        (newino, st) \<leftarrow> msdos_search_directory dev ino (if cs = [] then None else Some (hd cs)) st;
        let st = free_inode ino st;
        case newino of None \<Rightarrow> Some (None, st) | Some newino \<Rightarrow> find_rest dev (drop 1 cs) newino st
      })"

subsection \<open>The super block\<close>

definition ROUND_TO_MULTIPLE :: "int \<Rightarrow> int \<Rightarrow> int" where
  "ROUND_TO_MULTIPLE n m = (if n \<noteq> 0 \<and> m \<noteq> 0 then n + m - 1 - (n - 1) mod m else 0)"

text \<open>Sectors of the volume in blocks of 512 bytes, and the fields of the super block.\<close>

definition sector_mult :: "u8 list \<Rightarrow> int" where
  "sector_mult b = uint (drop_bit SECTOR_BITS (b_sector_size b))"

definition super_fields :: "u8 list \<Rightarrow> msdos_sb \<Rightarrow> msdos_sb" where
  "super_fields b sb =
     (let dir_start = word_of_int ((uint (b_reserved b) + uint (b_fats b) * uint (b_fat_length b)) * sector_mult b) :: u16
      in sb\<lparr>sb_cluster_size := word_of_int (uint (b_cluster_size b) * sector_mult b),
            sb_fats := b_fats b,
            sb_fat_start := word_of_int (uint (b_reserved b) * sector_mult b),
            sb_fat_length := word_of_int (uint (b_fat_length b) * sector_mult b),
            sb_dir_start := dir_start, sb_dir_entries := b_dir_entries b,
            sb_data_start := word_of_int (uint dir_start +
              ROUND_TO_MULTIPLE (uint (b_dir_entries b) * 2 ^ MSDOS_DIR_BITS div 2 ^ SECTOR_BITS) (sector_mult b))\<rparr>)"

text \<open>\<open>data_sectors\<close> is an \<open>unsigned\<close> sum stored in an \<open>int\<close>; its divisions truncate towards 0.\<close>

definition data_clusters :: "u8 list \<Rightarrow> u16 \<Rightarrow> u64" where
  "data_clusters b data_start =
     (let sectors = (if b_sectors b \<noteq> 0 then ucast (b_sectors b) else b_total_sect b) :: u32;
          data_sectors = sint (sectors * word_of_int (sector_mult b) - ucast data_start)
      in word_of_int (data_sectors sdiv uint (b_cluster_size b) sdiv sector_mult b))"

definition fat_clusters :: "msdos_sb \<Rightarrow> int" where
  "fat_clusters sb = uint (sb_fat_length sb) * int SECTOR_SIZE * 8 div uint (sb_fat_bits sb)"

definition msdos_read_super :: "blockdev \<Rightarrow> msdos \<Rightarrow> int \<times> msdos" where
  "msdos_read_super dev st =
     (let (bytes_read, b) = device_read dev [] sizeof_boot_sector 0 in
      if bytes_read \<noteq> sizeof_boot_sector then (-1, st)
      else
        let sb = super_fields b (msb st);
            error = (b_cluster_size b = 0 \<or> sector_mult b = 0);
            clusters = data_clusters b (sb_data_start sb);
            sb = (if error then sb
                  else sb\<lparr>sb_clusters := clusters, sb_fat_bits := if clusters > MSDOS_FAT12 then 16 else 12\<rparr>);
            table = (if error then 0 else fat_clusters sb);
            error = (error \<or> sb_fats sb = 0 \<or> sb_dir_entries sb AND (MSDOS_DPS - 1) \<noteq> 0 \<or>
              sb_clusters sb + 2 > word_of_int table + MSDOS_MAX_EXTRA \<or>
              b_sector_size b AND 511 \<noteq> 0 \<or> b_secs_track b = 0 \<or> b_heads b = 0);
            sb = sb\<lparr>sb_blocksize := of_nat SECTOR_SIZE\<rparr>;
            sb = (if sb_clusters sb + 2 > word_of_int table then sb\<lparr>sb_clusters := word_of_int (table - 2)\<rparr> else sb);
            st = st\<lparr>msb := sb\<rparr>
        in if error then (-1, st) else translate_fat dev st)"

definition msdos_mount :: "blockdev \<Rightarrow> msdos \<Rightarrow> int \<times> msdos" where
  "msdos_mount dev st =
     (let (r, st) = msdos_read_super dev (st\<lparr>f_table := map (\<lambda>n. n\<lparr>f_free := True\<rparr>) (f_table st)\<rparr>)
      in if r < 0 then (-1, st) else (0, st))"

subsection \<open>Files\<close>

definition msdos_fdsize :: "nat \<Rightarrow> msdos \<Rightarrow> u32" where
  "msdos_fdsize fd st = d_size (entry (f_table st ! fd))"

text \<open>A block of the reader is two of the device; block numbers are sign extended.\<close>

definition dev_offset :: "u16 \<Rightarrow> u64" where
  "dev_offset n = scast n * 512"

definition msdos_bread :: "blockdev \<Rightarrow> nat \<Rightarrow> nat \<Rightarrow> u8 list \<Rightarrow> msdos \<Rightarrow> (int \<times> u8 list) option" where
  "msdos_bread dev fd blkno buffer st =
     (let n = f_table st ! fd; blkno = blkno * 2 in
      if int blkno \<ge> sint (blocks n) then Some (-1, buffer)
      else do {
        bl \<leftarrow> block_list n;
        if length bl \<le> blkno then None
        else
          let (count, first_half) = device_read dev (take 512 buffer) 512 (dev_offset (bl ! blkno));
              buffer = first_half @ drop 512 buffer;
              blkno = blkno + 1
          in if count \<noteq> 512 then Some (-1, buffer)
             else if int blkno \<ge> sint (blocks n) then Some (0, buffer)
             else if length bl \<le> blkno then None
             else
               let (count, second_half) = device_read dev (drop 512 buffer) 512 (dev_offset (bl ! blkno))
               in Some (0, take 512 buffer @ second_half)
      })"

definition msdos_open :: "blockdev \<Rightarrow> u8 list \<Rightarrow> msdos \<Rightarrow> (int \<times> msdos) option" where
  "msdos_open dev filename st = do {
     (ino, st) \<leftarrow> msdos_find dev filename st;
     case ino of None \<Rightarrow> Some (-1, st)
     | Some ino \<Rightarrow> do {
         (r, st) \<leftarrow> fill_block_list ino True st;
         if r < 0 then Some (-1, free_inode ino st) else Some (int ino, st)
       }
   }"

definition msdos_close :: "int \<Rightarrow> msdos \<Rightarrow> msdos" where
  "msdos_close fd st =
     (if fd < 0 \<or> fd \<ge> int MAX_OPEN_FILES \<or> f_free (f_table st ! nat fd) then st else free_inode (nat fd) st)"

subsection \<open>Listing\<close>

text \<open>The lines that \<open>msdos_ls\<close> prints.\<close>

datatype fat_line = No_such_file | File_line "u8 list" u32 | Dir_line "u8 list"

definition msdos_list_entry :: "msdos_dir_entry \<Rightarrow> fat_line list" where
  "msdos_list_entry e =
     (if valid_entry e then
        if d_attr e AND ATTR_DIR = 0 then [File_line (convert_name (d_name e)) (d_size e)] else [Dir_line (convert_name (d_name e))]
      else [])"

definition msdos_list_dir :: "blockdev \<Rightarrow> nat \<Rightarrow> msdos \<Rightarrow> (fat_line list \<times> msdos) option" where
  "msdos_list_dir dev ino st = do {
     (cluster, st) \<leftarrow> msdos_readdir dev ino st;
     Some (case cluster of None \<Rightarrow> ([], st)
       | Some buf \<Rightarrow> (concat (map (\<lambda>i. msdos_list_entry (dir_entry buf (i * sizeof_dir_entry)))
           [0..<unat (d_size (entry (f_table st ! ino))) div sizeof_dir_entry]), st))
   }"

definition msdos_ls :: "blockdev \<Rightarrow> u8 list \<Rightarrow> msdos \<Rightarrow> (fat_line list \<times> msdos) option" where
  "msdos_ls dev dirname st = do {
     (ino, st) \<leftarrow> msdos_find dev dirname st;
     case ino of None \<Rightarrow> Some ([No_such_file], st)
     | Some ino \<Rightarrow> do {
         (ls, st) \<leftarrow> (if d_attr (entry (f_table st ! ino)) AND ATTR_DIR = 0
           then Some (msdos_list_entry (entry (f_table st ! ino)), st)
           else msdos_list_dir dev ino st);
         Some (ls, free_inode ino st)
       }
   }"

end
