(* ===== verification/Fat_Files.thy ===== *)
theory Fat_Files
  imports Fat
begin

text \<open>
  Files of the FAT file system as chains of clusters: the block list that opening a file makes, and that
  \<open>msdos_bread\<close> reads the bytes of the chain.
\<close>

subsection \<open>Chains\<close>

definition in_fs :: "u64 \<Rightarrow> u16 \<Rightarrow> bool" where
  "in_fs clusters c \<longleftrightarrow> 2 \<le> unat c \<and> unat c < unat clusters + 2"

text \<open>The clusters of a file: each entry of the table has the next, the last an end mark.\<close>

fun is_chain :: "u64 \<Rightarrow> u16 list \<Rightarrow> u16 \<Rightarrow> u16 list \<Rightarrow> bool" where
  "is_chain clusters tab eof [] = False"
| "is_chain clusters tab eof [c] \<longleftrightarrow> in_fs clusters c \<and> tab ! unat c AND eof = eof"
| "is_chain clusters tab eof (c # d # cs) \<longleftrightarrow>
     in_fs clusters c \<and> tab ! unat c = d \<and> d AND eof \<noteq> eof \<and> is_chain clusters tab eof (d # cs)"

lemma chain_in_fs: "is_chain clusters tab eof cs \<Longrightarrow> \<forall>c\<in>set cs. in_fs clusters c"
  by (induction cs rule: is_chain.induct) auto

text \<open>The table determines the chain, so no cluster comes twice.\<close>

lemma chain_unique: "is_chain clusters tab eof (c # cs) \<Longrightarrow> is_chain clusters tab eof (c # ds) \<Longrightarrow> cs = ds"
proof (induction cs arbitrary: c ds)
  case Nil
  then show ?case by (cases ds) auto
next
  case (Cons a cs)
  then obtain es where "ds = a # es" by (cases ds) auto
  then show ?case using Cons by auto
qed

lemma chain_suffix: "is_chain clusters tab eof (as @ c # cs) \<Longrightarrow> is_chain clusters tab eof (c # cs)"
proof (induction as)
  case (Cons a as)
  then show ?case by (cases "as @ c # cs") auto
qed simp

lemma chain_distinct:
  assumes "is_chain clusters tab eof cs"
  shows "distinct cs"
proof (rule ccontr)
  assume "\<not> distinct cs"
  then obtain xs ys zs y where cs: "cs = xs @ [y] @ ys @ [y] @ zs" using not_distinct_decomp by blast
  have "is_chain clusters tab eof (y # ys @ y # zs)" using chain_suffix [of clusters tab eof xs y] assms by (simp add: cs)
  moreover have "is_chain clusters tab eof (y # zs)" using chain_suffix [of clusters tab eof "xs @ y # ys" y] assms by (simp add: cs)
  ultimately have "ys @ y # zs = zs" by (rule chain_unique)
  then have "length (ys @ y # zs) = length zs" by simp
  then show False by simp
qed

lemma chain_length:
  assumes "is_chain clusters tab eof cs"
  shows "length cs \<le> unat clusters"
proof -
  have "set (map unat cs) \<subseteq> {2..<unat clusters + 2}" using chain_in_fs [OF assms] by (auto simp: in_fs_def)
  moreover have "distinct (map unat cs)"
    using chain_distinct [OF assms] by (simp add: distinct_map inj_on_def word_eq_iff_unat)
  ultimately have "length cs \<le> card {2..<unat clusters + 2}"
    by (metis card_mono distinct_card finite_atLeastLessThan length_map)
  then show ?thesis by simp
qed

lemma in_fs_test:
  assumes "in_fs clusters c"
  shows "\<not> word_of_int (uint c - 2) \<ge> clusters"
proof -
  have c: "2 \<le> unat c" "unat c < unat clusters + 2" "unat c < 65536"
    using assms unsigned_less [of c, where 'a = nat] by (simp_all add: in_fs_def)
  have "uint c - 2 = int (unat c - 2)" using c(1) by (simp add: of_nat_diff)
  then have "unat (word_of_int (uint c - 2) :: u64) = unat c - 2" using c(3) by (simp add: unat_of_nat)
  then show ?thesis using c by (simp add: word_le_nat_alt)
qed

lemma fill_loop_chain:
  assumes "is_chain clusters tab eof (c # cs)" "block + length (c # cs) \<le> unat clusters" "unat clusters + 2 \<le> length tab"
    and "alloc \<longrightarrow> block + length (c # cs) \<le> length bl"
  shows "fill_loop clusters tab eof alloc c block bl =
    Some (int (block + length (c # cs)), if alloc then take block bl @ (c # cs) @ drop (block + length (c # cs)) bl else bl)"
  using assms
proof (induction cs arbitrary: c block bl)
  case Nil
  then have c: "in_fs clusters c" by simp
  then have "unat c < length tab" using Nil.prems(3) by (simp add: in_fs_def)
  then show ?case
    using Nil in_fs_test [OF c] by (subst fill_loop.simps) (auto simp: upd_conv_take_nth_drop)
next
  case (Cons d cs)
  then have c: "in_fs clusters c" by simp
  then have "unat c < length tab" using Cons.prems(3) by (simp add: in_fs_def)
  then have "fill_loop clusters tab eof alloc c block bl =
      fill_loop clusters tab eof alloc d (block + 1) (if alloc then bl[block := c] else bl)"
    using Cons.prems in_fs_test [OF c] by (subst fill_loop.simps) (auto simp: Let_def)
  also have "\<dots> = Some (int (block + 1 + length (d # cs)), if alloc then take (block + 1) (bl[block := c]) @ (d # cs) @
      drop (block + 1 + length (d # cs)) (bl[block := c]) else bl)"
    using Cons.IH [of d "block + 1" "if alloc then bl[block := c] else bl"] Cons.prems by auto
  also have "alloc \<Longrightarrow> take (block + 1) (bl[block := c]) = take block bl @ [c]"
    using Cons.prems(4) by (simp add: take_Suc_conv_app_nth)
  then have "(if alloc then take (block + 1) (bl[block := c]) @ (d # cs) @ drop (block + 1 + length (d # cs)) (bl[block := c]) else bl) =
      (if alloc then take block bl @ (c # d # cs) @ drop (block + length (c # d # cs)) bl else bl)"
    by auto
  finally show ?case by simp
qed

text \<open>And the loop accepts chains only: a cycle or a cluster that is not in the file system is an error.\<close>

lemma in_fs_passed:
  assumes "\<not> word_of_int (uint c - 2) \<ge> clusters" "unat clusters + 2 \<le> 65536"
  shows "in_fs clusters c"
proof (cases "2 \<le> unat c")
  case True
  have "unat c < 65536" using unsigned_less [of c, where 'a = nat] by simp
  moreover have "uint c - 2 = int (unat c - 2)" using True by (simp add: of_nat_diff)
  ultimately have "unat (word_of_int (uint c - 2) :: u64) = unat c - 2" by (simp add: unat_of_nat)
  then show ?thesis using assms(1) True by (simp add: in_fs_def word_le_nat_alt)
next
  case False
  then have "c = 0 \<or> c = 1" by (auto simp: word_eq_iff_unat)
  then have "(word_of_int (uint c - 2) :: u64) = - 2 \<or> (word_of_int (uint c - 2) :: u64) = - 1" by auto
  then have "unat (word_of_int (uint c - 2) :: u64) \<ge> 2 ^ 64 - 2"
    by (auto simp: unsigned_minus_1_eq_mask mask_eq_exp_minus_1)
  then show ?thesis using assms by (simp add: word_le_nat_alt)
qed

lemma fill_loop_accepts:
  assumes "fill_loop clusters tab eof False c block bl = Some (n, bl')" "n \<noteq> - 1" "unat clusters + 2 \<le> 65536"
  shows "\<exists>cs. is_chain clusters tab eof (c # cs) \<and> n = int (block + length (c # cs))"
  using assms
proof (induction clusters tab eof False c block bl rule: fill_loop.induct)
  case (1 clusters tab eof c block bl)
  let ?d = "tab ! unat c"
  have go: "\<not> word_of_int (uint c - 2) \<ge> clusters" "\<not> unat clusters \<le> block" "\<not> length tab \<le> unat c"
    using 1(2,3) by (auto simp: fill_loop.simps [of clusters tab eof False c] split: if_splits)
  have c: "in_fs clusters c" using in_fs_passed [OF go(1) 1(4)] .
  show ?case
  proof (cases "?d AND eof = eof")
    case True
    then have "n = int (block + 1)" using 1(2) go by (auto simp: fill_loop.simps [of clusters tab eof False c])
    then show ?thesis using c True by (intro exI [of _ "[]"]) simp
  next
    case False
    then have "fill_loop clusters tab eof False ?d (block + 1) bl = Some (n, bl')"
      using 1(2) go by (auto simp: fill_loop.simps [of clusters tab eof False c])
    then obtain cs where "is_chain clusters tab eof (?d # cs)" "n = int (block + 1 + length (?d # cs))"
      using 1(1) go False 1(3,4) by auto
    then show ?thesis using c False by (intro exI [of _ "?d # cs"]) simp
  qed
qed

subsection \<open>The block list of a file\<close>

text \<open>
  A volume on which the 16-bit block numbers do not overflow into their sign: its last block has a number
  below 32768.
\<close>

definition small_volume :: "msdos \<Rightarrow> bool" where
  "small_volume st \<longleftrightarrow> sb_blocksize (msb st) = 512 \<and>
     (unat (sb_cluster_size (msb st)) = 1 \<or> 2 \<le> unat (sb_cluster_size (msb st)) \<and> even (unat (sb_cluster_size (msb st)))) \<and>
     unat (sb_clusters (msb st)) + 2 \<le> length (fat st) \<and> 1 \<le> unat (sb_data_start (msb st)) \<and>
     unat (sb_data_start (msb st)) + unat (sb_clusters (msb st)) * unat (sb_cluster_size (msb st)) < 32768"

definition end_mark :: "msdos_sb \<Rightarrow> u16" where
  "end_mark sb = (if sb_fat_bits sb = 12 then 0xff8 else 0xfff8)"

definition file_chain :: "msdos \<Rightarrow> msdos_dir_entry \<Rightarrow> u16 list \<Rightarrow> bool" where
  "file_chain st e ch \<longleftrightarrow> is_chain (sb_clusters (msb st)) (fat st) (end_mark (msb st)) ch \<and> hd ch = d_start e \<and>
     unat (d_size e) \<le> length ch * unat (sb_cluster_size (msb st)) * 512 \<and> length ch \<le> (unat (d_size e) + 511) div 512"

definition dev_blocks :: "msdos_sb \<Rightarrow> u16 list \<Rightarrow> u16 list" where
  "dev_blocks sb ch = concat (map (\<lambda>c. map (\<lambda>j. (c - 2) * sb_cluster_size sb + sb_data_start sb + of_nat j)
     [0..<unat (sb_cluster_size sb)]) ch)"

lemma concat_equal_nth:
  "(\<And>x. x \<in> set xs \<Longrightarrow> length (g x) = m) \<Longrightarrow> i < length xs \<Longrightarrow> j < m \<Longrightarrow> concat (map g xs) ! (i * m + j) = g (xs ! i) ! j"
proof (induction xs arbitrary: i)
  case (Cons x xs)
  then show ?case by (cases i) (simp_all add: nth_append add.assoc)
qed simp

lemma length_dev_blocks: "length (dev_blocks sb ch) = length ch * unat (sb_cluster_size sb)"
  by (simp add: dev_blocks_def length_concat o_def sum_list_triv)

lemma dev_block_nth:
  assumes "small_volume st" "is_chain (sb_clusters (msb st)) tab eof ch" "b < length ch * unat (sb_cluster_size (msb st))"
  defines "cs \<equiv> unat (sb_cluster_size (msb st))"
  shows "unat (dev_blocks (msb st) ch ! b) = (unat (ch ! (b div cs)) - 2) * cs + unat (sb_data_start (msb st)) + b mod cs"
    and "(unat (ch ! (b div cs)) - 2) * cs + unat (sb_data_start (msb st)) + b mod cs < 32768"
proof -
  let ?c = "ch ! (b div cs)" and ?d = "unat (sb_data_start (msb st))"
  have cs: "0 < cs" using assms(1) by (auto simp: small_volume_def cs_def)
  have i: "b div cs < length ch" using assms(3) by (simp add: cs_def less_mult_imp_div_less)
  have j: "b mod cs < cs" using cs by simp
  have c: "2 \<le> unat ?c" "unat ?c < unat (sb_clusters (msb st)) + 2"
    using chain_in_fs [OF assms(2)] i by (simp_all add: in_fs_def)
  have "(unat ?c - 2) * cs + cs = (unat ?c - 1) * cs" using c(1) by (simp add: algebra_simps diff_mult_distrib)
  also have "\<dots> \<le> unat (sb_clusters (msb st)) * cs" using c(2) by (intro mult_le_mono1) simp
  finally show small: "(unat ?c - 2) * cs + ?d + b mod cs < 32768"
    using assms(1) j by (simp add: small_volume_def cs_def)
  have "dev_blocks (msb st) ch ! (b div cs * cs + b mod cs) =
      map (\<lambda>j. (?c - 2) * sb_cluster_size (msb st) + sb_data_start (msb st) + of_nat j) [0..<cs] ! (b mod cs)"
    unfolding dev_blocks_def cs_def [symmetric] by (rule concat_equal_nth) (use i j in simp_all)
  then have nth: "dev_blocks (msb st) ch ! b = (?c - 2) * sb_cluster_size (msb st) + sb_data_start (msb st) + of_nat (b mod cs)"
    using j by simp
  have "unat (?c - 2) = unat ?c - 2" using c(1) by (simp add: unat_sub_no_wrap)
  then have "unat ((?c - 2) * sb_cluster_size (msb st)) = (unat ?c - 2) * cs"
    using small by (simp add: unat_word_ariths cs_def)
  then show "unat (dev_blocks (msb st) ch ! b) = (unat ?c - 2) * cs + ?d + b mod cs"
    unfolding nth using small by (simp add: unat_word_ariths unat_of_nat)
qed

text \<open>The state after the file is open.\<close>

definition opened :: "nat \<Rightarrow> u16 list \<Rightarrow> msdos \<Rightarrow> msdos \<Rightarrow> bool" where
  "opened ino ch st st' \<longleftrightarrow> (\<exists>bl b. st' = upd_inode ino (\<lambda>n. n\<lparr>block_list := Some (dev_blocks (msb st) ch @ bl), blocks := b\<rparr>) st \<and>
     (if unat (sb_cluster_size (msb st)) = 1 then b = of_nat (length ch)
      else b = ucast ((d_size (entry (f_table st ! ino)) + 512) div 512)))"

lemma upd_inode_twice [simp]: "ino < length (f_table st) \<Longrightarrow> upd_inode ino f (upd_inode ino g st) = upd_inode ino (\<lambda>n. f (g n)) st"
  by (simp add: upd_inode_def)

lemma upd_inode_fields [simp]: "msb (upd_inode ino f st) = msb st" "fat (upd_inode ino f st) = fat st"
  "length (f_table (upd_inode ino f st)) = length (f_table st)"
  "ino < length (f_table st) \<Longrightarrow> f_table (upd_inode ino f st) ! ino = f (f_table st ! ino)"
  by (simp_all add: upd_inode_def)

lemma sint_short: "unat w < 32768 \<Longrightarrow> sint w = int (unat w)" for w :: u16
proof -
  assume "unat w < 32768"
  moreover have w: "uint w = int (unat w)" by simp
  ultimately have "- 32768 \<le> uint w" "uint w < 32768" by linarith+
  then have "signed_take_bit 15 (uint w) = uint w" by (intro signed_take_bit_int_eq_self) simp_all
  then show ?thesis by (simp only: sint_uint w) simp
qed

lemma blocks_first: "n\<lparr>blocks := b, block_list := l\<rparr> = n\<lparr>block_list := l, blocks := b\<rparr>"
  by (cases n) simp

lemma fill_block_list_chain:
  assumes "small_volume st" "ino < length (f_table st)" "file_chain st (entry (f_table st ! ino)) ch"
    and "unat (d_size (entry (f_table st ! ino))) < 2 ^ 32 - 512"
  shows "\<exists>st'. fill_block_list ino True st = Some (0, st') \<and> opened ino ch st st'"
proof -
  let ?n = "f_table st ! ino" and ?sb = "msb st"
  let ?e = "entry ?n"
  let ?cs = "unat (sb_cluster_size ?sb)"
  have v: "sb_blocksize ?sb = 512" "?cs = 1 \<or> 2 \<le> ?cs" "unat (sb_clusters ?sb) + 2 \<le> length (fat st)"
      "unat (sb_clusters ?sb) * ?cs < 32768"
    using assms(1) by (auto simp: small_volume_def)
  have ch: "is_chain (sb_clusters ?sb) (fat st) (end_mark ?sb) ch" "hd ch = d_start ?e" "length ch \<le> (unat (d_size ?e) + 511) div 512"
    using assms(3) by (simp_all add: file_chain_def)
  then obtain c cs where c: "ch = c # cs" "c = d_start ?e" by (cases ch) auto
  have sz: "unat ((d_size ?e + sb_blocksize ?sb - 1) div sb_blocksize ?sb) = (unat (d_size ?e) + 511) div 512"
    using assms(4) v(1) by (simp add: unat_div unat_word_ariths)
  let ?k = "(unat (d_size ?e) + 511) div 512"
  have len: "length ch \<le> unat (sb_clusters ?sb)" using chain_length [OF ch(1)] .
  have loop: "fill_loop (sb_clusters ?sb) (fat st) (end_mark ?sb) True (d_start ?e) 0 (replicate ?k 0) =
      Some (int (length ch), ch @ replicate (?k - length ch) 0)"
    using fill_loop_chain [of "sb_clusters ?sb" "fat st" "end_mark ?sb" c cs 0 True "replicate ?k 0"] ch len v(3)
    by (simp add: c)
  have small: "length ch < 32768"
    using len v(2,4) by (metis le_less_trans mult.right_neutral mult_le_mono2 one_le_numeral order.trans order_refl)
  have s: "sint (word_of_int (int (length ch)) :: u16) = int (length ch)"
    using small sint_short [of "word_of_int (int (length ch))"] by (simp add: unat_of_nat)
  let ?upd = "\<lambda>n. n\<lparr>block_list := Some (ch @ replicate (?k - length ch) 0), blocks := word_of_int (int (length ch))\<rparr>"
  have fill: "fill_block_list ino True st = convert_block_list ino (upd_inode ino ?upd st)"
    using assms(2) v(1) loop sz by (simp add: fill_block_list_def Let_def end_mark_def [symmetric])
  show ?thesis
  proof (cases "?cs = 1")
    case True
    then have "sb_cluster_size ?sb = 1" by (simp add: word_eq_iff_unat)
    then have "dev_blocks ?sb ch = map (\<lambda>c. c - 2 + sb_data_start ?sb) ch" by (simp add: dev_blocks_def)
    then show ?thesis
      unfolding fill using True assms(2) s
      by (auto simp: convert_block_list_def Let_def opened_def blocks_first intro!: exI [of _ "replicate (?k - length ch) 0"])
  next
    case False
    then show ?thesis
      unfolding fill using v(1,2) assms(2) s
      by (auto simp: convert_block_list_def Let_def opened_def dev_blocks_def upd_inode_def intro!: exI [of _ "[]"])
  qed
qed

subsection \<open>Reading\<close>

text \<open>The bytes of a chain on the disk \<open>D\<close>.\<close>

definition chain_byte :: "(nat \<Rightarrow> u8) \<Rightarrow> msdos_sb \<Rightarrow> u16 list \<Rightarrow> nat \<Rightarrow> u8" where
  "chain_byte D sb ch p =
     (let bytes = 512 * unat (sb_cluster_size sb)
      in D (512 * ((unat (ch ! (p div bytes)) - 2) * unat (sb_cluster_size sb) + unat (sb_data_start sb)) + p mod bytes))"

lemma dev_offset_small:
  assumes "unat b < 32768"
  shows "unat (dev_offset b) = unat b * 512"
proof -
  have "(scast b :: u64) = word_of_int (sint b)" by simp
  also have "sint b = int (unat b)" by (rule sint_short [OF assms])
  finally have "(scast b :: u64) = of_nat (unat b)" by simp
  then have "unat (scast b :: u64) = unat b" using assms by (simp only: unat_of_nat) simp
  then show ?thesis using assms by (simp add: dev_offset_def unat_word_ariths)
qed

lemma half_block:
  assumes "small_volume st" "is_chain (sb_clusters (msb st)) tab eof ch" "b < length ch * unat (sb_cluster_size (msb st))"
  shows "map (\<lambda>i. D (unat (dev_offset (dev_blocks (msb st) ch ! b)) + i)) [0..<512] =
    map (\<lambda>i. chain_byte D (msb st) ch (512 * b + i)) [0..<512]"
proof -
  let ?cs = "unat (sb_cluster_size (msb st))"
  note n = dev_block_nth [OF assms]
  have cs: "0 < ?cs" using assms(1) by (auto simp: small_volume_def)
  have "(512 * b + i) div (512 * ?cs) = b div ?cs" "(512 * b + i) mod (512 * ?cs) = 512 * (b mod ?cs) + i" if "i < 512" for i
  proof -
    have e: "(512 * b + i) div 512 = b" "(512 * b + i) mod 512 = i" using that by simp_all
    show "(512 * b + i) div (512 * ?cs) = b div ?cs" unfolding div_mult2_eq e ..
    show "(512 * b + i) mod (512 * ?cs) = 512 * (b mod ?cs) + i" unfolding mod_mult2_eq e ..
  qed
  moreover have "unat (dev_offset (dev_blocks (msb st) ch ! b)) = unat (dev_blocks (msb st) ch ! b) * 512"
    using dev_offset_small n by simp
  ultimately show ?thesis unfolding n(1) by (auto simp: chain_byte_def Let_def algebra_simps)
qed

lemma msdos_bread_chain:
  assumes "small_volume st" "ino < length (f_table st)" "file_chain st (entry (f_table st ! ino)) ch" "opened ino ch st st'"
    and "length buffer = 1024" "1024 * n < unat (d_size (entry (f_table st ! ino)))" "unat (d_size (entry (f_table st ! ino))) < 2 ^ 32 - 512"
  shows "\<exists>b. msdos_bread (disk D) ino n buffer st' = Some (0, b) \<and> length b = 1024 \<and>
    (\<forall>i<1024. 1024 * n + i < unat (d_size (entry (f_table st ! ino))) \<longrightarrow> b ! i = chain_byte D (msb st) ch (1024 * n + i))"
proof -
  let ?sb = "msb st" and ?e = "entry (f_table st ! ino)"
  let ?cs = "unat (sb_cluster_size ?sb)" and ?sz = "unat (d_size ?e)"
  have v: "?cs = 1 \<or> 2 \<le> ?cs \<and> even ?cs" "1 \<le> unat (sb_data_start ?sb)"
      "unat (sb_data_start ?sb) + unat (sb_clusters ?sb) * ?cs < 32768"
    using assms(1) by (auto simp: small_volume_def)
  have ch: "is_chain (sb_clusters ?sb) (fat st) (end_mark ?sb) ch" "?sz \<le> length ch * ?cs * 512"
    using assms(3) by (simp_all add: file_chain_def)
  have "length ch * ?cs \<le> unat (sb_clusters ?sb) * ?cs" using chain_length [OF ch(1)] by (rule mult_le_mono1)
  then have few: "length ch * ?cs < 32767" using v(2,3) by linarith
  obtain bl b where st': "st' = upd_inode ino (\<lambda>n. n\<lparr>block_list := Some (dev_blocks ?sb ch @ bl), blocks := b\<rparr>) st"
      "if ?cs = 1 then b = of_nat (length ch) else b = ucast ((d_size ?e + 512) div 512)"
    using assms(4) unfolding opened_def by blast
  have b: "sint b = (if ?cs = 1 then int (length ch) else int (?sz div 512 + 1))"
  proof (cases "?cs = 1")
    case True
    then have "unat b = length ch" using st'(2) few by (simp add: unat_of_nat)
    then show ?thesis using True few sint_short [of b] by simp
  next
    case False
    have "unat ((d_size ?e + 512) div 512) = (?sz + 512) div 512" using assms(7) by (simp add: unat_div unat_word_ariths)
    moreover have "?sz div 512 \<le> length ch * ?cs" using ch(2) by simp
    ultimately have "unat b = ?sz div 512 + 1" "unat b < 32768" using False st'(2) few by (simp_all add: unat_ucast_mod)
    then show ?thesis using False sint_short [of b] by simp
  qed
  have low: "n * 2 < length ch * ?cs" using assms(6) ch(2) by simp
  have first: "\<not> sint b \<le> int (n * 2)" using b low assms(6) by auto
  have list: "block_list (f_table st' ! ino) = Some (dev_blocks ?sb ch @ bl)" "blocks (f_table st' ! ino) = b"
    using st'(1) assms(2) by simp_all
  let ?h = "\<lambda>k. map (\<lambda>i. chain_byte D ?sb ch (512 * k + i)) [0..<512]"
  note half = half_block [OF assms(1) ch(1)]
  have nth: "k < length ch * ?cs \<Longrightarrow> (dev_blocks ?sb ch @ bl) ! k = dev_blocks ?sb ch ! k" for k
    by (simp add: nth_append length_dev_blocks)
  have rd: "device_read (disk D) buf 512 (dev_offset ((dev_blocks ?sb ch @ bl) ! k)) = (512, ?h k @ drop 512 buf)"
    if "k < length ch * ?cs" for k buf
    unfolding nth [OF that] device_read_disk half [OF that] ..
  have long: "\<not> length (dev_blocks ?sb ch @ bl) \<le> k" if "k < length ch * ?cs" for k
    using that by (simp add: length_dev_blocks)
  have all: "b' ! i = chain_byte D ?sb ch (1024 * n + i)"
    if "b' = ?h (n * 2) @ r" "i < 512 \<or> r = ?h (n * 2 + 1)" "i < 1024" for b' r i
    using that by (auto simp: nth_append algebra_simps)
  show ?thesis
  proof (cases "int (n * 2 + 1) \<ge> sint b")
    case True
    then have "?sz \<le> 512 * (n * 2 + 1)" using b ch(2) by (auto split: if_splits)
    moreover have "msdos_bread (disk D) ino n buffer st' = Some (0, ?h (n * 2) @ drop 512 buffer)"
      using first True by (simp add: msdos_bread_def list Let_def rd [OF low] long [OF low] assms(5) del: length_append device_read_disk)
    ultimately show ?thesis using all [OF refl] assms(5) by (intro exI [of _ "?h (n * 2) @ drop 512 buffer"]) auto
  next
    case False
    then have up: "n * 2 + 1 < length ch * ?cs"
    proof (cases "?cs = 1")
      case False
      then have "n * 2 + 1 \<le> length ch * ?cs" using \<open>\<not> int (n * 2 + 1) \<ge> sint b\<close> b ch(2) by auto
      moreover have "even (length ch * ?cs)" using v(1) False by simp
      then have "length ch * ?cs \<noteq> n * 2 + 1" by (metis even_plus_one_iff dvd_triv_right)
      ultimately show ?thesis by linarith
    qed (use b in auto)
    have "msdos_bread (disk D) ino n buffer st' = Some (0, ?h (n * 2) @ ?h (n * 2 + 1))"
      using first False rd [OF up] long [OF up]
      by (simp add: msdos_bread_def list Let_def rd [OF low] long [OF low] assms(5) del: length_append device_read_disk)
    then show ?thesis using all [OF refl] by (intro exI [of _ "?h (n * 2) @ ?h (n * 2 + 1)"]) auto
  qed
qed

end
