(* ===== verification/Fat_Names.thy ===== *)
theory Fat_Names
  imports Fat_Files
begin

text \<open>
  Paths of the FAT file system: \<open>msdos_find\<close> returns an inode for the entry that the directories lead to,
  and leaves open files alone.
\<close>

subsection \<open>The bytes of a directory\<close>

text \<open>\<open>bl\<close> lists the blocks of the first \<open>n\<close> bytes \<open>B\<close>.\<close>

definition lists_bytes :: "(nat \<Rightarrow> u8) \<Rightarrow> u16 list \<Rightarrow> nat \<Rightarrow> (nat \<Rightarrow> u8) \<Rightarrow> bool" where
  "lists_bytes D bl n B \<longleftrightarrow> (\<forall>k. 512 * k < n \<longrightarrow> k < length bl \<and> unat (bl ! k) < 32768 \<and>
     (\<forall>j<512. 512 * k + j < n \<longrightarrow> D (unat (bl ! k) * 512 + j) = B (512 * k + j)))"

lemma unat_scast_small:
  assumes "unat w < 32768"
  shows "unat (scast (w :: u16) :: u32) = unat w"
proof -
  have "(scast w :: u32) = word_of_int (sint w)" by simp
  also have "sint w = int (unat w)" by (rule sint_short [OF assms])
  finally have "(scast w :: u32) = of_nat (unat w)" by simp
  then show ?thesis using assms by (simp only: unat_of_nat) simp
qed

lemma read_dir_blocks_bytes:
  assumes "lists_bytes D bl n B"
  shows "512 dvd i \<Longrightarrow> read_dir_blocks (disk D) 512 n bl i = Some (Some (map B [i..<n]))"
proof (induction "n - i" arbitrary: i rule: less_induct)
  case less
  show ?case
  proof (cases "i < n")
    case True
    obtain k where k: "i = 512 * k" using less.prems by blast
    have l: "k < length bl" "unat (bl ! k) < 32768" "\<forall>j<512. i + j < n \<longrightarrow> D (unat (bl ! k) * 512 + j) = B (i + j)"
      using assms True unfolding lists_bytes_def k by blast+
    define len where "len = (if n - i > 512 then 512 else n - i)"
    have "unat (scast (bl ! k) * 512 :: u32) = unat (bl ! k) * 512"
      using l(2) unat_scast_small [OF l(2)] by (simp add: unat_word_ariths)
    then have off: "unat (ucast (scast (bl ! k) * 512 :: u32) :: u64) = unat (bl ! k) * 512"
      using l(2) by (simp add: unat_ucast_mod)
    have b: "map (\<lambda>j. D (unat (bl ! k) * 512 + j)) [0..<len] = map B [i..<i + len]"
    proof (rule nth_equalityI)
      fix j assume "j < length (map (\<lambda>j. D (unat (bl ! k) * 512 + j)) [0..<len])"
      then have j: "j < len" by simp
      then have "j < 512 \<and> i + j < n" by (auto simp: len_def split: if_splits)
      then show "map (\<lambda>j. D (unat (bl ! k) * 512 + j)) [0..<len] ! j = map B [i..<i + len] ! j" using l(3) j by simp
    qed simp
    have rest: "read_dir_blocks (disk D) 512 n bl (i + 512) = Some (Some (map B [i + 512..<n]))"
      using less.hyps [of "i + 512"] True less.prems by simp
    have "read_dir_blocks (disk D) 512 n bl i = Some (Some (map B [i..<i + len] @ map B [i + 512..<n]))"
    proof (subst read_dir_blocks.simps)
      have u: "unat (512 :: u32) = 512" by simp
      have "\<not> length bl \<le> i div 512" and nth: "bl ! (i div 512) = bl ! k" using l(1) k by simp_all
      then show "(if i < n then if unat (512 :: u32) = 0 \<or> length bl \<le> i div unat (512 :: u32) then None
          else let len = (if n - i > unat (512 :: u32) then unat (512 :: u32) else n - i);
              (m, b) = device_read (disk D) (replicate len 0) len (ucast (scast (bl ! (i div unat (512 :: u32))) * 512 :: u32))
            in if m \<noteq> len then Some None
               else map_option (map_option (\<lambda>rest. b @ rest)) (read_dir_blocks (disk D) 512 n bl (i + unat (512 :: u32)))
          else Some (Some [])) = Some (Some (map B [i..<i + len] @ map B [i + 512..<n]))"
        unfolding u len_def [symmetric] Let_def device_read_disk nth off using True b rest \<open>\<not> length bl \<le> i div 512\<close> by simp
    qed
    also have "map B [i..<i + len] @ map B [i + 512..<n] = map B [i..<n]"
    proof (cases "n - i > 512")
      case True
      then have "[i..<n] = [i..<i + 512] @ [i + 512..<n]" using upt_add_eq_append [of i "i + 512" "n - (i + 512)"] by simp
      then show ?thesis using True by (simp add: len_def)
    qed (use True in \<open>simp add: len_def\<close>)
    finally show ?thesis .
  qed (subst read_dir_blocks.simps, simp)
qed

text \<open>The root directory has its place; the others are chains.\<close>

definition root_bytes :: "(nat \<Rightarrow> u8) \<Rightarrow> msdos_sb \<Rightarrow> u8 list" where
  "root_bytes D sb = map (\<lambda>i. D (unat (sb_dir_start sb) * 512 + i)) [0..<unat (sb_dir_entries sb) * 32]"

definition chain_bytes :: "(nat \<Rightarrow> u8) \<Rightarrow> msdos_sb \<Rightarrow> u16 list \<Rightarrow> u8 list" where
  "chain_bytes D sb ch = map (chain_byte D sb ch) [0..<length ch * unat (sb_cluster_size sb) * 512]"

definition root_ok :: "msdos_sb \<Rightarrow> bool" where
  "root_ok sb \<longleftrightarrow> sb_dir_entries sb \<noteq> 0 \<and> unat (sb_dir_start sb) + (unat (sb_dir_entries sb) * 32 + 511) div 512 \<le> 32768"

lemma root_list:
  assumes "root_ok sb"
  shows "lists_bytes D (map (\<lambda>i. sb_dir_start sb + of_nat i) [0..<(unat (sb_dir_entries sb) * 32 + 511) div 512])
    (unat (sb_dir_entries sb) * 32) (\<lambda>i. D (unat (sb_dir_start sb) * 512 + i))"
  unfolding lists_bytes_def
proof (rule allI, rule impI)
  fix k assume "512 * k < unat (sb_dir_entries sb) * 32"
  then have k: "k < (unat (sb_dir_entries sb) * 32 + 511) div 512" by linarith
  define m where "m = (unat (sb_dir_entries sb) * 32 + 511) div 512"
  have r: "unat (sb_dir_start sb) + m \<le> 32768" using assms by (simp add: root_ok_def m_def)
  have k: "k < m" using k by (simp add: m_def)
  define l where "l = map (\<lambda>i. sb_dir_start sb + of_nat i) [0..<m]"
  have "l ! k = sb_dir_start sb + of_nat k" using k by (simp add: l_def)
  moreover have "unat (sb_dir_start sb + of_nat k) = unat (sb_dir_start sb) + k"
    using r k by (simp add: unat_word_ariths unat_of_nat)
  ultimately have u: "unat (l ! k) = unat (sb_dir_start sb) + k" by simp
  show "k < length (map (\<lambda>i. sb_dir_start sb + of_nat i) [0..<(unat (sb_dir_entries sb) * 32 + 511) div 512]) \<and>
      unat (map (\<lambda>i. sb_dir_start sb + of_nat i) [0..<(unat (sb_dir_entries sb) * 32 + 511) div 512] ! k) < 32768 \<and>
      (\<forall>j<512. 512 * k + j < unat (sb_dir_entries sb) * 32 \<longrightarrow>
        D (unat (map (\<lambda>i. sb_dir_start sb + of_nat i) [0..<(unat (sb_dir_entries sb) * 32 + 511) div 512] ! k) * 512 + j) =
        D (unat (sb_dir_start sb) * 512 + (512 * k + j)))"
    unfolding m_def [symmetric] l_def [symmetric] u using k r by (simp add: l_def distrib_right add.assoc mult.commute)
qed

lemma chain_list:
  assumes "small_volume st" "is_chain (sb_clusters (msb st)) tab eof ch"
  shows "lists_bytes D (dev_blocks (msb st) ch @ bl) (length ch * unat (sb_cluster_size (msb st)) * 512) (chain_byte D (msb st) ch)"
  unfolding lists_bytes_def
proof (intro allI impI)
  fix k assume "512 * k < length ch * unat (sb_cluster_size (msb st)) * 512"
  then have k: "k < length ch * unat (sb_cluster_size (msb st))" by simp
  note n = dev_block_nth [OF assms k]
  have nth: "(dev_blocks (msb st) ch @ bl) ! k = dev_blocks (msb st) ch ! k" using k by (simp add: nth_append length_dev_blocks)
  have "D (unat (dev_blocks (msb st) ch ! k) * 512 + j) = chain_byte D (msb st) ch (512 * k + j)" if "j < 512" for j
    using arg_cong [OF half_block [OF assms k, of D], of "\<lambda>xs. xs ! j"] dev_offset_small [of "dev_blocks (msb st) ch ! k"] n that by simp
  then show "k < length (dev_blocks (msb st) ch @ bl) \<and> unat ((dev_blocks (msb st) ch @ bl) ! k) < 32768 \<and>
      (\<forall>j<512. 512 * k + j < length ch * unat (sb_cluster_size (msb st)) * 512 \<longrightarrow>
        D (unat ((dev_blocks (msb st) ch @ bl) ! k) * 512 + j) = chain_byte D (msb st) ch (512 * k + j))"
    unfolding nth using k n by (simp add: length_dev_blocks)
qed


subsection \<open>Looking up a name\<close>

text \<open>The first valid entry with the name, of all that the bytes hold.\<close>

definition lookup :: "u8 list \<Rightarrow> u8 list \<Rightarrow> msdos_dir_entry option" where
  "lookup buf c = find (\<lambda>e. valid_entry e \<and> convert_name (d_name e) = c)
     (map (\<lambda>i. dir_entry buf (i * 32)) [0..<length buf div 32])"

lemma scan_entries_find:
  "scan_entries buf (Some c) i n =
     Some (find (\<lambda>e. valid_entry e \<and> convert_name (d_name e) = c) (map (\<lambda>i. dir_entry buf (i * 32)) [i..<i + n]))"
proof (induction n arbitrary: i)
  case (Suc n)
  have "[i..<i + Suc n] = i # [Suc i..<Suc i + n]" by (simp add: upt_conv_Cons)
  then show ?case using Suc [of "Suc i"] by (auto simp: Let_def sizeof_dir_entry_def)
qed simp

text \<open>
  The inode \<open>ino\<close> is a directory with the bytes \<open>buf\<close>: the root with its list of blocks, or one that
  has just been found, with the size 0 that directories have on the disk.
\<close>

definition is_dir :: "(nat \<Rightarrow> u8) \<Rightarrow> msdos \<Rightarrow> nat \<Rightarrow> u8 list \<Rightarrow> bool" where
  "is_dir D st ino buf \<longleftrightarrow> ino < length (f_table st) \<and> d_attr (entry (f_table st ! ino)) AND ATTR_DIR \<noteq> 0 \<and>
     (buf = root_bytes D (msb st) \<and> unat (d_size (entry (f_table st ! ino))) = unat (sb_dir_entries (msb st)) * 32 \<and>
      block_list (f_table st ! ino) =
        Some (map (\<lambda>i. sb_dir_start (msb st) + of_nat i) [0..<(unat (sb_dir_entries (msb st)) * 32 + 511) div 512]) \<or>
      d_size (entry (f_table st ! ino)) = 0 \<and> block_list (f_table st ! ino) = None \<and>
      (\<exists>ch. is_chain (sb_clusters (msb st)) (fat st) (end_mark (msb st)) ch \<and> hd ch = d_start (entry (f_table st ! ino)) \<and>
         buf = chain_bytes D (msb st) ch))"

text \<open>Only the inode \<open>ino\<close> differs, and it is the same file in use.\<close>

definition touched :: "nat \<Rightarrow> msdos \<Rightarrow> msdos \<Rightarrow> bool" where
  "touched ino st st' \<longleftrightarrow> (\<exists>f. st' = upd_inode ino f st \<and> f_free (f (f_table st ! ino)) = f_free (f_table st ! ino))"

lemma count_chain:
  assumes "small_volume st" "ino < length (f_table st)" "block_list (f_table st ! ino) = None"
    and "is_chain (sb_clusters (msb st)) (fat st) (end_mark (msb st)) ch" "hd ch = d_start (entry (f_table st ! ino))"
  shows "fill_block_list ino False st = Some (int (length ch), st)"
proof -
  obtain c cs where c: "ch = c # cs" using assms(4) by (cases ch) auto
  have "fill_loop (sb_clusters (msb st)) (fat st) (end_mark (msb st)) False (d_start (entry (f_table st ! ino))) 0 [] =
      Some (int (length ch), [])"
    using fill_loop_chain [of "sb_clusters (msb st)" "fat st" "end_mark (msb st)" c cs 0 False "[]"] assms chain_length [OF assms(4)]
    by (simp add: c small_volume_def)
  moreover have "upd_inode ino (\<lambda>n. n\<lparr>block_list := map_option (\<lambda>_. []) (block_list n)\<rparr>) st = st"
    using assms(2,3) by (cases st) (simp add: upd_inode_def list_update_same_conv)
  ultimately show ?thesis using assms(3) unfolding fill_block_list_def Let_def by (simp add: end_mark_def)
qed

lemma touched_simps: "touched ino st st' \<Longrightarrow> msb st' = msb st" "touched ino st st' \<Longrightarrow> fat st' = fat st"
  "touched ino st st' \<Longrightarrow> length (f_table st') = length (f_table st)"
  by (auto simp: touched_def)

lemma touched_other: "touched ino st st' \<Longrightarrow> j \<noteq> ino \<Longrightarrow> f_table st' ! j = f_table st ! j"
  by (auto simp: touched_def upd_inode_def)

lemma touched_free: "touched ino st st' \<Longrightarrow> f_free (f_table st' ! j) = f_free (f_table st ! j)"
  by (cases "ino < length (f_table st)"; cases "j = ino") (auto simp: touched_def upd_inode_def list_update_beyond)

lemma touched_refl [simp]: "touched ino st st"
  unfolding touched_def by (rule exI [of _ "\<lambda>n. n"]) (simp add: upd_inode_def)

lemma touched_upd: "touched ino st st' \<Longrightarrow> ino < length (f_table st) \<Longrightarrow> (\<And>n. f_free (f n) = f_free n) \<Longrightarrow> touched ino st (upd_inode ino f st')"
  unfolding touched_def
proof (elim exE conjE)
  fix g assume "ino < length (f_table st)" "\<And>n. f_free (f n) = f_free n" "st' = upd_inode ino g st"
    "f_free (g (f_table st ! ino)) = f_free (f_table st ! ino)"
  then show "\<exists>h. upd_inode ino f st' = upd_inode ino h st \<and> f_free (h (f_table st ! ino)) = f_free (f_table st ! ino)"
    by (intro exI [of _ "\<lambda>n. f (g n)"]) simp
qed

lemma read_root:
  assumes "root_ok (msb st)" "small_volume st" "ino < length (f_table st)"
    and "unat (d_size (entry (f_table st ! ino))) = unat (sb_dir_entries (msb st)) * 32"
    and "block_list (f_table st ! ino) =
        Some (map (\<lambda>i. sb_dir_start (msb st) + of_nat i) [0..<(unat (sb_dir_entries (msb st)) * 32 + 511) div 512])"
  shows "msdos_readdir (disk D) ino st = Some (Some (root_bytes D (msb st)), st)"
proof -
  have bs: "sb_blocksize (msb st) = 512" using assms(2) by (simp add: small_volume_def)
  have "unat (d_size (entry (f_table st ! ino))) \<noteq> 0" unfolding assms(4) using assms(1) by (simp add: root_ok_def unat_eq_0)
  then have "d_size (entry (f_table st ! ino)) \<noteq> 0" by auto
  then show ?thesis
    using read_dir_blocks_bytes [OF root_list [OF assms(1)], of 0] assms(4,5) bs
    by (simp add: root_bytes_def msdos_readdir_def)
qed

lemma dir_size:
  assumes "n < 32768" "n * unat cs < 32768"
  shows "unat (word_of_int (int n) * 512 * ucast (cs :: u16) :: u32) = n * unat cs * 512"
proof -
  have "unat (word_of_int (int n) * 512 :: u32) = n * 512" using assms(1) by (simp add: unat_word_ariths unat_of_nat)
  moreover have "unat (ucast cs :: u32) = unat cs" using unsigned_less [of cs, where 'a = nat] by (simp add: unat_ucast_mod)
  moreover have "n * 512 * unat cs = n * unat cs * 512" by simp
  moreover have "n * unat cs * 512 < 2 ^ 32" using assms(2) by simp
  ultimately show ?thesis by (simp only: unat_mult_lem [THEN iffD1] unat_word_ariths(2)) simp
qed

lemma read_sub:
  assumes "small_volume st" "ino < length (f_table st)" "d_size (entry (f_table st ! ino)) = 0" "block_list (f_table st ! ino) = None"
    and "is_chain (sb_clusters (msb st)) (fat st) (end_mark (msb st)) ch" "hd ch = d_start (entry (f_table st ! ino))"
  shows "\<exists>st'. msdos_readdir (disk D) ino st = Some (Some (chain_bytes D (msb st) ch), st') \<and> touched ino st st' \<and>
    unat (d_size (entry (f_table st' ! ino))) = length ch * unat (sb_cluster_size (msb st)) * 512"
proof -
  let ?cs = "unat (sb_cluster_size (msb st))" and ?n = "length ch"
  let ?sz = "of_nat ?n * 512 * ucast (sb_cluster_size (msb st)) :: u32"
  have v: "sb_blocksize (msb st) = 512" "unat (sb_clusters (msb st)) * ?cs < 32768" "1 \<le> ?cs" using assms(1) by (auto simp: small_volume_def)
  have few: "?n * ?cs < 32768" using chain_length [OF assms(5)] v(2) by (meson le_less_trans mult_le_mono1)
  then have "?n < 32768" using v(3) by (metis le_less_trans mult.right_neutral mult_le_mono2)
  then have sz: "unat ?sz = ?n * ?cs * 512" using dir_size [OF _ few] by simp
  define st1 where "st1 = upd_inode ino (\<lambda>n. n\<lparr>entry := (entry n)\<lparr>d_size := ?sz\<rparr>\<rparr>) st"
  have st1: "msb st1 = msb st" "fat st1 = fat st" "ino < length (f_table st1)" "d_size (entry (f_table st1 ! ino)) = ?sz"
    "d_start (entry (f_table st1 ! ino)) = d_start (entry (f_table st ! ino))"
    using assms(2) by (simp_all add: st1_def)
  have sv: "small_volume st1" using assms(1) by (simp add: small_volume_def st1)
  have "?n \<le> ?n * ?cs" using v(3) by simp
  then have "file_chain st1 (entry (f_table st1 ! ino)) ch"
    using assms(5,6) by (simp add: file_chain_def st1 sz)
  then obtain st' where st': "fill_block_list ino True st1 = Some (0, st')" "opened ino ch st1 st'"
    using fill_block_list_chain [OF sv st1(3)] sz few unfolding st1(4) by fastforce
  then obtain bl b where o: "st' = upd_inode ino (\<lambda>n. n\<lparr>block_list := Some (dev_blocks (msb st) ch @ bl), blocks := b\<rparr>) st1"
    unfolding opened_def st1 by blast
  have t: "touched ino st st'" unfolding o st1_def using assms(2) by (auto intro!: touched_upd)
  have fin: "block_list (f_table st' ! ino) = Some (dev_blocks (msb st) ch @ bl)" "d_size (entry (f_table st' ! ino)) = ?sz"
    unfolding o using st1 by simp_all
  have "read_dir_blocks (disk D) 512 (?n * ?cs * 512) (dev_blocks (msb st) ch @ bl) 0 = Some (Some (chain_bytes D (msb st) ch))"
    using read_dir_blocks_bytes [OF chain_list [OF assms(1,5)], of 0] by (simp add: chain_bytes_def)
  then have "msdos_readdir (disk D) ino st = Some (Some (chain_bytes D (msb st) ch), st')"
    unfolding msdos_readdir_def assms(3) count_chain [OF assms(1,2,4,5,6)]
    using st'(1) fin sz touched_simps [OF t] v(1) by (simp add: st1_def [symmetric])
  then show ?thesis using t fin sz by auto
qed

lemma msdos_readdir_dir:
  assumes "small_volume st" "root_ok (msb st)" "is_dir D st ino buf"
  shows "\<exists>st'. msdos_readdir (disk D) ino st = Some (Some buf, st') \<and> touched ino st st' \<and>
    unat (d_size (entry (f_table st' ! ino))) = length buf"
  using assms(3) unfolding is_dir_def
  by (elim conjE disjE exE) (use read_root [OF assms(2,1)] read_sub [OF assms(1)] in \<open>auto simp: root_bytes_def chain_bytes_def\<close>)

end
