(* ===== verification/Fat_Paths.thy ===== *)
theory Fat_Paths
  imports Fat_Names
begin

text \<open>
  Opening by path: \<open>msdos_find\<close> goes from the root through the directories that the components name, with
  one inode at a time, and leaves the inodes of open files alone.
\<close>

subsection \<open>Taking an inode\<close>

lemma first_free_some: "first_free_inode es = Some i \<Longrightarrow> i < length es \<and> f_free (es ! i)"
  by (induction es arbitrary: i) (auto split: if_splits)

lemma first_free_none: "first_free_inode es = None \<Longrightarrow> e \<in> set es \<Longrightarrow> \<not> f_free e"
  by (induction es) (auto split: if_splits)

definition fresh :: "msdos_dir_entry \<Rightarrow> fat_inode" where
  "fresh e = \<lparr>entry = e, f_free = False, block_list = None, blocks = 0\<rparr>"

lemma allocate_fresh:
  assumes "k < length (f_table st)" "f_free (f_table st ! k)"
  shows "\<exists>i. allocate_inode e st = (Some i, upd_inode i (\<lambda>_. fresh e) st) \<and> i < length (f_table st) \<and> f_free (f_table st ! i)"
proof -
  obtain i where i: "first_free_inode (f_table st) = Some i"
    using first_free_none [of "f_table st" "f_table st ! k"] assms by fastforce
  have "n\<lparr>f_free := False, blocks := 0, block_list := None, entry := e\<rparr> = fresh e" for n :: fat_inode
    by (cases n) (simp add: fresh_def)
  then show ?thesis using i first_free_some [OF i] by (simp add: allocate_inode_def)
qed

text \<open>Of the inodes that \<open>st0\<close> has free, only \<open>ino\<close> is in use; those in use are as before.\<close>

definition holds :: "msdos \<Rightarrow> msdos \<Rightarrow> nat \<Rightarrow> bool" where
  "holds st0 st ino \<longleftrightarrow> msb st = msb st0 \<and> fat st = fat st0 \<and> length (f_table st) = length (f_table st0) \<and>
     ino < length (f_table st0) \<and> f_free (f_table st0 ! ino) \<and> \<not> f_free (f_table st ! ino) \<and>
     (\<forall>j<length (f_table st0). j \<noteq> ino \<longrightarrow> f_free (f_table st ! j) = f_free (f_table st0 ! j) \<and>
        (\<not> f_free (f_table st0 ! j) \<longrightarrow> f_table st ! j = f_table st0 ! j))"

text \<open>No inode is taken.\<close>

definition kept :: "msdos \<Rightarrow> msdos \<Rightarrow> bool" where
  "kept st0 st \<longleftrightarrow> msb st = msb st0 \<and> fat st = fat st0 \<and> length (f_table st) = length (f_table st0) \<and>
     (\<forall>j<length (f_table st0). f_free (f_table st ! j) = f_free (f_table st0 ! j) \<and>
        (\<not> f_free (f_table st0 ! j) \<longrightarrow> f_table st ! j = f_table st0 ! j))"

definition two_free :: "msdos \<Rightarrow> bool" where
  "two_free st \<longleftrightarrow> (\<exists>i j. i < j \<and> j < length (f_table st) \<and> f_free (f_table st ! i) \<and> f_free (f_table st ! j))"

lemma two_free_other: "two_free st \<Longrightarrow> \<exists>k<length (f_table st). k \<noteq> i \<and> f_free (f_table st ! k)"
  unfolding two_free_def by (metis less_trans nat_neq_iff)

lemma free_inode_nth:
  "i < length (f_table st) \<Longrightarrow> f_table (free_inode i st) ! j = (if j = i then (f_table st ! i)\<lparr>f_free := True\<rparr> else f_table st ! j)"
  by (simp add: free_inode_def upd_inode_def)

lemma free_inode_fields [simp]: "msb (free_inode i st) = msb st" "fat (free_inode i st) = fat st"
  "length (f_table (free_inode i st)) = length (f_table st)"
  by (simp_all add: free_inode_def)

lemma upd_inode_nth: "i < length (f_table st) \<Longrightarrow> f_table (upd_inode i f st) ! j = (if j = i then f (f_table st ! i) else f_table st ! j)"
  by (simp add: upd_inode_def)

lemma holds_touched: "holds st0 st ino \<Longrightarrow> touched ino st st' \<Longrightarrow> holds st0 st' ino"
  unfolding holds_def using touched_simps [of ino st st'] touched_other [of ino st st'] touched_free [of ino st st'] by auto

lemma holds_kept: "holds st0 st ino \<Longrightarrow> kept st0 (free_inode ino st)"
  unfolding holds_def kept_def by (auto simp: free_inode_nth)

lemma holds_next:
  assumes "holds st0 st ino" "new < length (f_table st)" "f_free (f_table st ! new)"
  shows "holds st0 (free_inode ino (upd_inode new (\<lambda>_. fresh e) st)) new"
    and "f_table (free_inode ino (upd_inode new (\<lambda>_. fresh e) st)) ! new = fresh e"
  using assms unfolding holds_def by (auto simp: free_inode_nth upd_inode_nth fresh_def)

subsection \<open>One component\<close>

lemma search_hit:
  assumes "small_volume st" "root_ok (msb st)" "is_dir D st ino buf" "holds st0 st ino" "two_free st0"
    and "lookup buf c = Some e" "d_attr e AND ATTR_DIR = 0 \<or> d_size e = 0"
  shows "\<exists>new st'. msdos_search_directory (disk D) ino (Some c) st = Some (Some new, st') \<and>
    holds st0 (free_inode ino st') new \<and> f_table (free_inode ino st') ! new = fresh e"
proof -
  obtain st1 where st1: "msdos_readdir (disk D) ino st = Some (Some buf, st1)" "touched ino st st1"
      "unat (d_size (entry (f_table st1 ! ino))) = length buf"
    using msdos_readdir_dir [OF assms(1-3)] by blast
  have h: "holds st0 st1 ino" using holds_touched [OF assms(4) st1(2)] .
  obtain k where "k < length (f_table st0)" "k \<noteq> ino" "f_free (f_table st0 ! k)" using two_free_other [OF assms(5)] by blast
  then have "k < length (f_table st1)" "f_free (f_table st1 ! k)" using h by (auto simp: holds_def)
  then obtain new where new: "allocate_inode e st1 = (Some new, upd_inode new (\<lambda>_. fresh e) st1)"
      "new < length (f_table st1)" "f_free (f_table st1 ! new)"
    using allocate_fresh by blast
  have "msdos_search_directory (disk D) ino (Some c) st = Some (Some new, upd_inode new (\<lambda>_. fresh e) st1)"
    using assms(3,6,7) st1(1,3) new(1)
    by (auto simp: msdos_search_directory_def is_dir_def scan_entries_find lookup_def sizeof_dir_entry_def)
  then show ?thesis using holds_next [OF h new(2,3)] by blast
qed

lemma search_miss:
  assumes "small_volume st" "root_ok (msb st)" "is_dir D st ino buf" "holds st0 st ino" "lookup buf c = None"
  shows "\<exists>st'. msdos_search_directory (disk D) ino (Some c) st = Some (None, st') \<and> kept st0 (free_inode ino st')"
proof -
  obtain st1 where st1: "msdos_readdir (disk D) ino st = Some (Some buf, st1)" "touched ino st st1"
      "unat (d_size (entry (f_table st1 ! ino))) = length buf"
    using msdos_readdir_dir [OF assms(1-3)] by blast
  have "msdos_search_directory (disk D) ino (Some c) st = Some (None, st1)"
    using assms(3,5) st1(1,3)
    by (auto simp: msdos_search_directory_def is_dir_def scan_entries_find lookup_def sizeof_dir_entry_def)
  then show ?thesis using holds_kept [OF holds_touched [OF assms(4) st1(2)]] by blast
qed

subsection \<open>Paths\<close>

text \<open>
  \<open>leads D st buf cs e\<close>: in the directory with the bytes \<open>buf\<close>, the components \<open>cs\<close> name the entry \<open>e\<close>.
  \<open>misses\<close>: one of them is not there, or is a file where a directory is needed.
\<close>

definition dir_bytes :: "(nat \<Rightarrow> u8) \<Rightarrow> msdos \<Rightarrow> msdos_dir_entry \<Rightarrow> u8 list \<Rightarrow> bool" where
  "dir_bytes D st e buf \<longleftrightarrow> d_attr e AND ATTR_DIR \<noteq> 0 \<and> d_size e = 0 \<and>
     (\<exists>ch. is_chain (sb_clusters (msb st)) (fat st) (end_mark (msb st)) ch \<and> hd ch = d_start e \<and> buf = chain_bytes D (msb st) ch)"

inductive leads :: "(nat \<Rightarrow> u8) \<Rightarrow> msdos \<Rightarrow> u8 list \<Rightarrow> u8 list list \<Rightarrow> msdos_dir_entry \<Rightarrow> bool" for D st where
  last_component: "lookup buf c = Some e \<Longrightarrow> d_attr e AND ATTR_DIR = 0 \<or> d_size e = 0 \<Longrightarrow> leads D st buf [c] e"
| directory: "lookup buf c = Some f \<Longrightarrow> dir_bytes D st f sub \<Longrightarrow> leads D st sub cs e \<Longrightarrow> leads D st buf (c # cs) e"

inductive misses :: "(nat \<Rightarrow> u8) \<Rightarrow> msdos \<Rightarrow> u8 list \<Rightarrow> u8 list list \<Rightarrow> bool" for D st where
  no_name: "lookup buf c = None \<Longrightarrow> misses D st buf (c # cs)"
| no_directory: "lookup buf c = Some f \<Longrightarrow> d_attr f AND ATTR_DIR = 0 \<Longrightarrow> misses D st buf (c # d # cs)"
| in_directory: "lookup buf c = Some f \<Longrightarrow> dir_bytes D st f sub \<Longrightarrow> misses D st sub cs \<Longrightarrow> misses D st buf (c # cs)"

lemma is_dir_fresh: "dir_bytes D st0 f buf \<Longrightarrow> holds st0 st ino \<Longrightarrow> f_table st ! ino = fresh f \<Longrightarrow> is_dir D st ino buf"
  by (auto simp: dir_bytes_def holds_def is_dir_def fresh_def)

lemma holds_volume: "holds st0 st ino \<Longrightarrow> small_volume st0 \<Longrightarrow> small_volume st"
    "holds st0 st ino \<Longrightarrow> root_ok (msb st0) \<Longrightarrow> root_ok (msb st)"
  by (simp_all add: holds_def small_volume_def)

lemma find_rest_leads:
  assumes "leads D st0 buf cs e" "small_volume st0" "root_ok (msb st0)" "two_free st0"
  shows "is_dir D st ino buf \<Longrightarrow> holds st0 st ino \<Longrightarrow>
    \<exists>new st'. find_rest (disk D) cs ino st = Some (Some new, st') \<and> holds st0 st' new \<and> f_table st' ! new = fresh e"
  using assms
proof (induction arbitrary: st ino)
  case (last_component buf c e)
  note v = holds_volume [OF last_component(4)]
  show ?case
    using search_hit [OF v(1) v(2) last_component(3,4,7,1,2)] last_component(5,6) by (auto simp: Let_def)
next
  case (directory buf c f sub cs e)
  note v = holds_volume [OF directory(6)]
  have "d_attr f AND ATTR_DIR = 0 \<or> d_size f = 0" using directory(2) by (simp add: dir_bytes_def)
  then obtain new st' where n: "msdos_search_directory (disk D) ino (Some c) st = Some (Some new, st')"
      "holds st0 (free_inode ino st') new" "f_table (free_inode ino st') ! new = fresh f"
    using search_hit [OF v(1) v(2) directory(5,6,9,1)] directory(7,8) by blast
  have "is_dir D (free_inode ino st') new sub" using is_dir_fresh [OF directory(2) n(2,3)] .
  then obtain new' st'' where "find_rest (disk D) cs new (free_inode ino st') = Some (Some new', st'')" "holds st0 st'' new'"
      "f_table st'' ! new' = fresh e"
    using directory.IH [OF _ n(2) directory(7-9)] by blast
  then show ?case using n(1) by (simp add: Let_def)
qed

lemma search_file: "d_attr (entry (f_table st ! ino)) AND ATTR_DIR = 0 \<Longrightarrow> msdos_search_directory dev ino c st = Some (None, st)"
  by (simp add: msdos_search_directory_def)

lemma find_rest_misses:
  assumes "misses D st0 buf cs" "small_volume st0" "root_ok (msb st0)" "two_free st0"
  shows "is_dir D st ino buf \<Longrightarrow> holds st0 st ino \<Longrightarrow> \<exists>st'. find_rest (disk D) cs ino st = Some (None, st') \<and> kept st0 st'"
  using assms
proof (induction arbitrary: st ino)
  case (no_name buf c cs)
  note v = holds_volume [OF no_name(3)]
  show ?case using search_miss [OF v(1) v(2) no_name(2,3,1)] no_name(4,5) by (auto simp: Let_def)
next
  case (no_directory buf c f d cs)
  note v = holds_volume [OF no_directory(4)]
  obtain new st' where n: "msdos_search_directory (disk D) ino (Some c) st = Some (Some new, st')"
      "holds st0 (free_inode ino st') new" "f_table (free_inode ino st') ! new = fresh f"
    using search_hit [OF v(1) v(2) no_directory(3,4,7,1)] no_directory(2,5,6) by blast
  have "d_attr (entry (f_table (free_inode ino st') ! new)) AND ATTR_DIR = 0" using n(3) no_directory(2) by (simp add: fresh_def)
  then show ?case using n(1) holds_kept [OF n(2)] by (simp add: search_file Let_def)
next
  case (in_directory buf c f sub cs)
  note v = holds_volume [OF in_directory(6)]
  have "d_attr f AND ATTR_DIR = 0 \<or> d_size f = 0" using in_directory(2) by (simp add: dir_bytes_def)
  then obtain new st' where n: "msdos_search_directory (disk D) ino (Some c) st = Some (Some new, st')"
      "holds st0 (free_inode ino st') new" "f_table (free_inode ino st') ! new = fresh f"
    using search_hit [OF v(1) v(2) in_directory(5,6,9,1)] in_directory(7,8) by blast
  have "is_dir D (free_inode ino st') new sub" using is_dir_fresh [OF in_directory(2) n(2,3)] .
  then obtain st'' where "find_rest (disk D) cs new (free_inode ino st') = Some (None, st'')" "kept st0 st''"
    using in_directory.IH [OF _ n(2) in_directory(7-9)] by blast
  then show ?case using n(1) by (simp add: Let_def)
qed

lemma build_root:
  assumes "two_free st" "small_volume st"
  shows "\<exists>ino st'. msdos_build_root_inode st = Some (ino, st') \<and> holds st st' ino \<and> is_dir D st' ino (root_bytes D (msb st))"
proof -
  define e where "e = \<lparr>d_name = replicate 11 0, d_attr = ATTR_DIR, d_start = sb_dir_start (msb st),
    d_size = ucast (sb_dir_entries (msb st)) * of_nat sizeof_dir_entry\<rparr>"
  have bs: "sb_blocksize (msb st) = 512" using assms(2) by (simp add: small_volume_def)
  have "unat (sb_dir_entries (msb st)) < 65536" using unsigned_less [of "sb_dir_entries (msb st)", where 'a = nat] by simp
  then have sz: "unat (d_size e) = unat (sb_dir_entries (msb st)) * 32"
    by (simp add: e_def sizeof_dir_entry_def unat_word_ariths unat_ucast_mod)
  then have blks: "unat ((d_size e + sb_blocksize (msb st) - 1) div sb_blocksize (msb st)) = (unat (sb_dir_entries (msb st)) * 32 + 511) div 512"
    using \<open>unat (sb_dir_entries (msb st)) < 65536\<close> unfolding bs by (simp add: unat_div unat_word_ariths)
  obtain k where "k < length (f_table st)" "f_free (f_table st ! k)" using two_free_other [OF assms(1)] by blast
  then obtain i where i: "allocate_inode e st = (Some i, upd_inode i (\<lambda>_. fresh e) st)" "i < length (f_table st)" "f_free (f_table st ! i)"
    using allocate_fresh by blast
  let ?bl = "map (\<lambda>i. sb_dir_start (msb st) + of_nat i) [0..<(unat (sb_dir_entries (msb st)) * 32 + 511) div 512]"
  let ?st = "upd_inode i (\<lambda>_. (fresh e)\<lparr>block_list := Some ?bl\<rparr>) st"
  have "msdos_build_root_inode st = Some (i, ?st)"
    using i(1,2) blks by (simp add: msdos_build_root_inode_def Let_def e_def [symmetric])
  moreover have "holds st ?st i" using i(2,3) by (auto simp: holds_def upd_inode_nth fresh_def)
  moreover have "is_dir D ?st i (root_bytes D (msb st))"
    using i(2) sz by (simp add: is_dir_def upd_inode_nth fresh_def) (simp add: e_def ATTR_DIR_def)
  ultimately show ?thesis by blast
qed

lemma msdos_find_rest:
  assumes "components [] path = c # cs" "length path < 256" "msdos_build_root_inode st = Some (ino, st')"
  shows "msdos_find dev path st = find_rest dev (c # cs) ino st'"
proof -
  have p: "path \<noteq> []" "path \<noteq> [SLASH]" using assms(1) by auto
  have d: "drop 1 (c # cs) = cs" by simp
  show ?thesis
    using p assms(2) unfolding msdos_find_def assms(1,3) Let_def d by (simp add: Let_def)
qed

lemma leads_path: "leads D st buf cs e \<Longrightarrow> \<exists>c ds. cs = c # ds"
  by (cases rule: leads.cases) auto

lemma misses_path: "misses D st buf cs \<Longrightarrow> \<exists>c ds. cs = c # ds"
  by (cases rule: misses.cases) auto

lemma msdos_find_leads:
  assumes "small_volume st" "root_ok (msb st)" "two_free st" "length path < 256"
    and "leads D st (root_bytes D (msb st)) (components [] path) e"
  shows "\<exists>ino st'. msdos_find (disk D) path st = Some (Some ino, st') \<and> holds st st' ino \<and> f_table st' ! ino = fresh e"
proof -
  obtain r st' where r: "msdos_build_root_inode st = Some (r, st')" "holds st st' r" "is_dir D st' r (root_bytes D (msb st))"
    using build_root [OF assms(3,1)] by blast
  obtain c cs where c: "components [] path = c # cs" using leads_path [OF assms(5)] by blast
  show ?thesis unfolding msdos_find_rest [OF c assms(4) r(1)] using find_rest_leads [OF assms(5,1-3) r(3,2)] unfolding c by blast
qed

lemma msdos_find_misses:
  assumes "small_volume st" "root_ok (msb st)" "two_free st" "length path < 256"
    and "misses D st (root_bytes D (msb st)) (components [] path)"
  shows "\<exists>st'. msdos_find (disk D) path st = Some (None, st') \<and> kept st st'"
proof -
  obtain r st' where r: "msdos_build_root_inode st = Some (r, st')" "holds st st' r" "is_dir D st' r (root_bytes D (msb st))"
    using build_root [OF assms(3,1)] by blast
  obtain c cs where c: "components [] path = c # cs" using misses_path [OF assms(5)] by blast
  show ?thesis unfolding msdos_find_rest [OF c assms(4) r(1)] using find_rest_misses [OF assms(5,1-3) r(3,2)] unfolding c by blast
qed

subsection \<open>Opening and reading by path\<close>

text \<open>What the open file is: its inode, its clusters, and the bytes in them.\<close>

definition open_file :: "(nat \<Rightarrow> u8) \<Rightarrow> msdos \<Rightarrow> nat \<Rightarrow> (nat \<Rightarrow> u8) \<Rightarrow> nat \<Rightarrow> bool" where
  "open_file D st' fd f sz \<longleftrightarrow> (\<exists>st ch. small_volume st \<and> fd < length (f_table st) \<and> file_chain st (entry (f_table st ! fd)) ch \<and>
     opened fd ch st st' \<and> sz = unat (d_size (entry (f_table st ! fd))) \<and> sz < 2 ^ 32 - 512 \<and> f = chain_byte D (msb st) ch)"

lemma open_file_bread:
  assumes "open_file D st fd f sz" "length buffer = 1024" "1024 * n < sz"
  shows "\<exists>b. msdos_bread (disk D) fd n buffer st = Some (0, b) \<and> length b = 1024 \<and> (\<forall>i<1024. 1024 * n + i < sz \<longrightarrow> b ! i = f (1024 * n + i))"
  using assms msdos_bread_chain unfolding open_file_def by blast

lemma open_file_fdsize: "open_file D st fd f sz \<Longrightarrow> unat (msdos_fdsize fd st) = sz"
  unfolding open_file_def opened_def msdos_fdsize_def by auto

lemma msdos_open_chain:
  assumes "small_volume st" "root_ok (msb st)" "two_free st" "length path < 256"
    and "leads D st (root_bytes D (msb st)) (components [] path) e"
    and "file_chain st e ch" "unat (d_size e) < 2 ^ 32 - 512"
  shows "\<exists>fd st'. msdos_open (disk D) path st = Some (int fd, st') \<and> fd < length (f_table st) \<and> f_free (f_table st ! fd) \<and>
    (\<forall>j<length (f_table st). \<not> f_free (f_table st ! j) \<longrightarrow> f_table st' ! j = f_table st ! j) \<and>
    open_file D st' fd (chain_byte D (msb st) ch) (unat (d_size e))"
proof -
  obtain ino st1 where f: "msdos_find (disk D) path st = Some (Some ino, st1)" "holds st st1 ino" "f_table st1 ! ino = fresh e"
    using msdos_find_leads [OF assms(1-5)] by blast
  have h: "msb st1 = msb st" "fat st1 = fat st" "length (f_table st1) = length (f_table st)" "ino < length (f_table st1)"
    using f(2) by (simp_all add: holds_def)
  have sv: "small_volume st1" using holds_volume(1) [OF f(2) assms(1)] .
  have e: "entry (f_table st1 ! ino) = e" by (simp add: f(3) fresh_def)
  have fc: "file_chain st1 (entry (f_table st1 ! ino)) ch" using assms(6) by (simp add: file_chain_def h e)
  have small: "unat (d_size (entry (f_table st1 ! ino))) < 2 ^ 32 - 512" using assms(7) unfolding e .
  obtain st2 where o: "fill_block_list ino True st1 = Some (0, st2)" "opened ino ch st1 st2"
    using fill_block_list_chain [OF sv h(4) fc small] by blast
  obtain g where g: "st2 = upd_inode ino g st1" using o(2) unfolding opened_def by blast
  have "msdos_open (disk D) path st = Some (int ino, st2)" using f(1) o(1) by (simp add: msdos_open_def)
  moreover have "f_table st2 ! j = f_table st ! j" if "j < length (f_table st)" "\<not> f_free (f_table st ! j)" for j
    using that f(2) by (auto simp: g holds_def upd_inode_nth)
  moreover have "open_file D st2 ino (chain_byte D (msb st) ch) (unat (d_size e))"
    unfolding open_file_def using sv h(1,4) fc o(2) assms(7) e by metis
  ultimately show ?thesis using f(2) unfolding holds_def by blast
qed



end
