(* ===== verification/Fat_Table.thy ===== *)
theory Fat_Table
  imports Fat_Files
begin

text \<open>
  The file allocation table on the disk: entries of 12 bits, two in three bytes, or of 16 bits; and what
  \<open>translate_fat\<close> makes of them.
\<close>

fun pack12 :: "u16 list \<Rightarrow> u8 list" where
  "pack12 (a # b # es) = ucast a # ucast (drop_bit 8 a OR push_bit 4 b) # ucast (drop_bit 4 b) # pack12 es"
| "pack12 [a] = [ucast a, ucast (drop_bit 8 a)]"
| "pack12 [] = []"

fun pack16 :: "u16 list \<Rightarrow> u8 list" where
  "pack16 (a # es) = ucast a # ucast (drop_bit 8 a) # pack16 es"
| "pack16 [] = []"

lemma byte_at_simps [simp]: "byte_at (x # xs) 0 = x" "byte_at (x # xs) (Suc i) = byte_at xs i"
  by (simp_all add: byte_at_def)

lemma le16_Suc [simp]: "le16 (x # xs) (Suc i) = le16 xs i"
  by (simp add: le16_def)

lemma read_fat_12_step: "read_fat 12 (x # y # z # r) (Suc (Suc i)) = read_fat 12 r i"
proof -
  have "Suc (Suc i) * 3 div 2 = Suc (Suc (Suc (i * 3 div 2)))" by simp
  moreover have "Suc (Suc i) AND 1 = i AND 1" by (simp add: and_one_eq mod_Suc)
  ultimately show ?thesis by (simp add: read_fat_def)
qed

lemma read_fat_16_step: "read_fat 16 (x # y # r) (Suc i) = read_fat 16 r i"
  by (simp add: read_fat_def)

text \<open>Entries of even and of odd number, as the bits of their bytes.\<close>

lemma even_bits:
  "(ucast (ucast a :: u8) OR push_bit 8 (ucast (ucast (drop_bit 8 a OR push_bit 4 b) :: u8))) AND mask 12 = (take_bit 12 a :: u16)"
  for a b :: u16
proof (rule bit_word_eqI)
  fix n assume "n < LENGTH(16)"
  then show "bit ((ucast (ucast a :: u8) OR push_bit 8 (ucast (ucast (drop_bit 8 a OR push_bit 4 b) :: u8))) AND mask 12 :: u16) n = bit (take_bit 12 a) n"
    by (cases "n < 8"; cases "n < 12") (auto simp: bit_simps simp del: push_bit_numeral)
qed

lemma odd_bits:
  fixes a b :: u16
  assumes "take_bit 12 a = a"
  shows "drop_bit 4 (ucast (ucast (drop_bit 8 a OR push_bit 4 b) :: u8) OR push_bit 8 (ucast (ucast (drop_bit 4 b) :: u8))) AND mask 12 = (take_bit 12 b :: u16)"
proof (rule bit_word_eqI)
  fix n assume "n < LENGTH(16)"
  moreover have "\<not> bit a (12 + n)" using assms by (metis bit_take_bit_iff not_add_less1)
  ultimately show "bit (drop_bit 4 (ucast (ucast (drop_bit 8 a OR push_bit 4 b) :: u8) OR push_bit 8 (ucast (ucast (drop_bit 4 b) :: u8))) AND mask 12 :: u16) n = bit (take_bit 12 b) n"
    by (cases "n < 4"; cases "n < 12") (auto simp: bit_simps simp del: push_bit_numeral)
qed

lemma word_bytes: "ucast (ucast a :: u8) OR push_bit 8 (ucast (ucast (drop_bit 8 a) :: u8)) = a" for a :: u16
proof (rule bit_word_eqI)
  fix n assume "n < LENGTH(16)"
  then show "bit (ucast (ucast a :: u8) OR push_bit 8 (ucast (ucast (drop_bit 8 a) :: u8)) :: u16) n = bit a n"
    by (cases "n < 8") (auto simp: bit_simps simp del: push_bit_numeral)
qed

lemma masks: "0xfff = (mask 12 :: u16)" "0xffff = (mask 16 :: u16)"
  by (simp_all add: mask_eq_exp_minus_1)

lemma read_fat_12_at:
  "read_fat 12 (ucast a # ucast (drop_bit 8 a OR push_bit 4 b) # r) 0 = take_bit 12 a"
  "read_fat 12 (ucast a # ucast (drop_bit 8 a) # r) 0 = take_bit 12 a"
  "take_bit 12 a = a \<Longrightarrow> read_fat 12 (x # ucast (drop_bit 8 a OR push_bit 4 b) # ucast (drop_bit 4 b) # r) 1 = take_bit 12 b"
  using even_bits [of a b] even_bits [of a 0] odd_bits [of a b]
  by (simp_all add: read_fat_def le16_def masks byte_at_def del: push_bit_numeral)

definition entry12 :: "u16 \<Rightarrow> bool" where
  "entry12 e \<longleftrightarrow> take_bit 12 e = e"

lemma read_fat_pack12:
  "\<forall>e\<in>set es. entry12 e \<Longrightarrow> i < length es \<Longrightarrow> read_fat 12 (pack12 es @ r) i = es ! i"
proof (induction es arbitrary: i rule: pack12.induct)
  case (1 a b es)
  show ?case
  proof (cases i)
    case (Suc j)
    then show ?thesis using 1 read_fat_12_at(3) [of a] by (cases j) (simp_all add: entry12_def read_fat_12_step)
  qed (use 1 read_fat_12_at(1) [of a b] in \<open>simp add: entry12_def\<close>)
next
  case (2 a)
  then show ?case using read_fat_12_at(2) [of a r] by (simp add: entry12_def)
qed simp

lemma read_fat_pack16: "i < length es \<Longrightarrow> read_fat 16 (pack16 es @ r) i = es ! i"
proof (induction es arbitrary: i)
  case (Cons a es)
  then show ?case
  proof (cases i)
    case 0
    have "a AND mask 16 = a" by (rule bit_word_eqI) (simp add: bit_simps)
    then show ?thesis using 0 word_bytes [of a] by (simp add: read_fat_def le16_def masks byte_at_def del: push_bit_numeral)
  qed (simp add: read_fat_16_step)
qed simp

lemma length_pack12: "length (pack12 es) = (length es * 3 + 1) div 2"
  by (induction es rule: pack12.induct) simp_all

lemma length_pack16: "length (pack16 es) = length es * 2"
  by (induction es) simp_all

text \<open>C38: The table read from the disk is the one packed there, in entries of 12 or of 16 bits.\<close>

theorem translate_fat_packed:
  fixes D :: "nat \<Rightarrow> u8"
  defines "table es \<equiv> \<lambda>bits :: u8. if bits = 12 then pack12 es else pack16 es"
  assumes "sb_blocksize (msb st) = 512" "sb_fat_bits (msb st) = 12 \<and> (\<forall>e\<in>set es. entry12 e) \<or> sb_fat_bits (msb st) = 16"
    and "map (\<lambda>i. D (unat (sb_fat_start (msb st)) * 512 + i)) [0..<unat (sb_fat_length (msb st)) * 512] =
      table es (sb_fat_bits (msb st)) @ rest"
  shows "\<exists>st'. translate_fat (disk D) st = (0, st') \<and> msb st' = msb st \<and> f_table st' = f_table st \<and>
    length es \<le> length (fat st') \<and> take (length es) (fat st') = es"
proof -
  let ?sb = "msb st"
  let ?bits = "sb_fat_bits ?sb"
  have fl: "unat (sb_fat_length ?sb) < 65536" "unat (sb_fat_start ?sb) < 65536"
    using unsigned_less [of "sb_fat_length ?sb", where 'a = nat] unsigned_less [of "sb_fat_start ?sb", where 'a = nat] by simp_all
  define n where "n = unat (sb_fat_length ?sb) * 512"
  have sz: "unat (sb_blocksize ?sb * ucast (sb_fat_length ?sb)) = n"
    using fl(1) by (simp add: assms(2) n_def unat_word_ariths unat_ucast_mod)
  have "unat (ucast (sb_fat_start ?sb) * sb_blocksize ?sb :: u32) = unat (sb_fat_start ?sb) * 512"
    using fl(2) by (simp add: assms(2) unat_word_ariths unat_ucast_mod)
  then have off: "unat (ucast (ucast (sb_fat_start ?sb) * sb_blocksize ?sb :: u32) :: u64) = unat (sb_fat_start ?sb) * 512"
    using fl(2) by (simp add: unat_ucast_mod)
  let ?buf = "table es ?bits @ rest"
  define words where "words = (if ?bits = 16 then n div 2 else n * 2 div 3)"
  have "translate_fat (disk D) st = (0, st\<lparr>fat := map (read_fat ?bits ?buf) [0..<words]\<rparr>)"
    unfolding translate_fat_def Let_def sz device_read_disk off n_def [symmetric] assms(4) [folded n_def] prod.case
    by (simp add: words_def)
  moreover have "n = length ?buf" using arg_cong [OF assms(4), of length] by (simp add: n_def)
  then have "length es \<le> words"
    using assms(3) by (auto simp: words_def table_def length_pack12 length_pack16)
  moreover have "read_fat ?bits ?buf i = es ! i" if "i < length es" for i
    using assms(3) read_fat_pack12 [OF _ that] read_fat_pack16 [OF that] by (auto simp: table_def)
  then have "take (length es) (map (read_fat ?bits ?buf) [0..<words]) = es" if "length es \<le> words"
    using that by (intro nth_equalityI) simp_all
  ultimately show ?thesis by simp
qed

end
