(* ===== verification/Fat_Mount.thy ===== *)
theory Fat_Mount
  imports Fat_Table
begin

text \<open>
  Mounting: what \<open>msdos_mount\<close> ensures of the super block and of the table, and where it needs the boot
  sector to be right.
\<close>

text \<open>The super block before the last check, by the number of clusters that the table has entries for.\<close>

definition clipped :: "msdos_sb \<Rightarrow> int \<Rightarrow> msdos_sb" where
  "clipped sb n = (if sb_clusters sb + 2 > word_of_int n then sb\<lparr>sb_clusters := word_of_int (n - 2)\<rparr> else sb)"

lemma clipped_clusters:
  "sb_clusters (clipped sb n) = word_of_int (n - 2) \<or> sb_clusters (clipped sb n) + 2 \<le> word_of_int n"
  "sb_blocksize (clipped sb n) = sb_blocksize sb" "sb_fat_bits (clipped sb n) = sb_fat_bits sb" "sb_fat_length (clipped sb n) = sb_fat_length sb"
  by (auto simp: clipped_def)

lemma read_super_checks:
  assumes "msdos_read_super dev st = (r, st')" "0 \<le> r"
  shows "\<exists>sb. translate_fat dev (st\<lparr>msb := sb\<rparr>) = (r, st') \<and> sb_blocksize sb = 512 \<and>
    (sb_fat_bits sb = 12 \<or> sb_fat_bits sb = 16) \<and>
    (sb_clusters sb = word_of_int (fat_clusters sb - 2) \<or> sb_clusters sb + 2 \<le> word_of_int (fat_clusters sb))"
proof -
  obtain c b where b: "device_read dev [] sizeof_boot_sector 0 = (c, b)" by fastforce
  have c: "c = sizeof_boot_sector" using assms b by (auto simp: msdos_read_super_def split: if_splits)
  have ok: "\<not> (b_cluster_size b = 0 \<or> sector_mult b = 0)"
    using assms b c unfolding msdos_read_super_def Let_def by (auto split: if_splits)
  define sb where "sb = super_fields b (msb st)\<lparr>sb_clusters := data_clusters b (sb_data_start (super_fields b (msb st))),
    sb_fat_bits := if data_clusters b (sb_data_start (super_fields b (msb st))) > MSDOS_FAT12 then 16 else 12\<rparr>"
  define sb' where "sb' = clipped (sb\<lparr>sb_blocksize := 512\<rparr>) (fat_clusters sb)"
  have n: "fat_clusters sb' = fat_clusters sb" by (simp add: sb'_def fat_clusters_def clipped_clusters)
  have "translate_fat dev (st\<lparr>msb := sb'\<rparr>) = (r, st')"
    using assms b c ok unfolding msdos_read_super_def Let_def sb'_def clipped_def
    by (simp add: sb_def [symmetric] SECTOR_SIZE_def split: if_splits)
  moreover have "sb_fat_bits sb = 12 \<or> sb_fat_bits sb = 16" by (simp add: sb_def)
  ultimately show ?thesis
    using clipped_clusters [of "sb\<lparr>sb_blocksize := 512\<rparr>" "fat_clusters sb", folded sb'_def]
    by (intro exI [of _ sb']) (simp add: n)
qed

lemma translate_fat_size:
  assumes "translate_fat dev st = (r, st')" "0 \<le> r" "sb_blocksize (msb st) = 512"
  shows "msb st' = msb st \<and> f_table st' = f_table st \<and> length (fat st') =
    (if sb_fat_bits (msb st) = 16 then unat (sb_fat_length (msb st)) * 512 div 2 else unat (sb_fat_length (msb st)) * 512 * 2 div 3)"
proof -
  have "unat (sb_fat_length (msb st)) < 65536" using unsigned_less [of "sb_fat_length (msb st)", where 'a = nat] by simp
  then have "unat (512 * ucast (sb_fat_length (msb st)) :: u32) = unat (sb_fat_length (msb st)) * 512"
    by (simp add: unat_word_ariths unat_ucast_mod)
  then show ?thesis using assms by (auto simp: translate_fat_def Let_def split: prod.splits if_splits)
qed


end
