(* ===== verification/Fat_Examples.thy ===== *)
theory Fat_Examples
  imports Fat_Paths Fat_Mount
begin

text \<open>A small volume: the directory \<open>d\<close> in the root, and in it the file \<open>f\<close> with the bytes \<open>hi!\<close>.\<close>

definition sector_entry :: "u8 \<Rightarrow> u8 \<Rightarrow> u8 \<Rightarrow> u8 \<Rightarrow> u8 list" where
  "sector_entry name attr start sz = name # replicate 10 0x20 @ attr # replicate 14 0 @ [start, 0, sz, 0, 0, 0]"

definition small_disk :: "nat \<Rightarrow> u8" where
  "small_disk n = (if n < 512 then byte_at (sector_entry 0x44 0x10 2 0) n
     else if n < 1024 then byte_at (sector_entry 0x46 0 3 3) (n - 512)
     else byte_at [0x68, 0x69, 0x21] (n - 1024))"

definition small_sb :: msdos_sb where
  "small_sb = \<lparr>sb_blocksize = 512, sb_cluster_size = 1, sb_fats = 1, sb_fat_bits = 12, sb_fat_start = 4, sb_fat_length = 1,
     sb_dir_start = 0, sb_dir_entries = 1, sb_data_start = 1, sb_clusters = 3\<rparr>"

definition file_f :: msdos_dir_entry where
  "file_f = \<lparr>d_name = 0x46 # replicate 10 0x20, d_attr = 0, d_start = 3, d_size = 3\<rparr>"

definition dir_d :: msdos_dir_entry where
  "dir_d = \<lparr>d_name = 0x44 # replicate 10 0x20, d_attr = 0x10, d_start = 2, d_size = 0\<rparr>"

definition small_vol :: msdos where
  "small_vol = \<lparr>msb = small_sb, fat = [0xff0, 0xfff, 0xfff, 0xfff, 0], f_table = replicate 5 ((fresh file_f)\<lparr>f_free := True\<rparr>)\<rparr>"

lemma fat_small_root: "lookup (root_bytes small_disk small_sb) [0x64] = Some dir_d"
  by code_simp

lemma lookup_first:
  assumes "32 \<le> length buf" "dir_entry buf 0 = e" "valid_entry e" "convert_name (d_name e) = c"
  shows "lookup buf c = Some e"
proof -
  have "0 < length buf div 32" using assms(1) by (simp add: div_greater_zero_iff)
  then have "[0..<length buf div 32] = 0 # [1..<length buf div 32]" by (simp add: upt_conv_Cons)
  then show ?thesis using assms(2-4) by (simp add: lookup_def)
qed

lemma dir_entry_map: "32 \<le> n \<Longrightarrow> dir_entry (map B [0..<n]) 0 = dir_entry (map B [0..<32]) 0"
  by (simp add: dir_entry_def le16_def le32_def byte_at_def)

lemma small_sub: "lookup (chain_bytes small_disk small_sb [2]) [0x66] = Some file_f"
proof (rule lookup_first)
  have n: "length [2 :: u16] * unat (sb_cluster_size small_sb) * 512 = 512" by (simp add: small_sb_def)
  show "32 \<le> length (chain_bytes small_disk small_sb [2])" unfolding chain_bytes_def n by simp
  have "map (chain_byte small_disk small_sb [2]) [0..<32] = sector_entry 0x46 0 3 3"
    by (rule nth_equalityI) (simp_all add: chain_byte_def small_sb_def small_disk_def byte_at_def sector_entry_def)
  moreover have "dir_entry (sector_entry 0x46 0 3 3) 0 = file_f" by code_simp
  ultimately show "dir_entry (chain_bytes small_disk small_sb [2]) 0 = file_f"
    unfolding chain_bytes_def n using dir_entry_map [of 512 "chain_byte small_disk small_sb [2]"] by simp
  show "valid_entry file_f" by code_simp
  show "convert_name (d_name file_f) = [0x66]" by code_simp
qed

lemma small_components: "components [] [0x2f, 0x64, 0x2f, 0x66] = [[0x64], [0x66]]"
  by code_simp

lemma small_ok: "small_volume small_vol" "root_ok (msb small_vol)" "two_free small_vol" "msb small_vol = small_sb"
proof -
  show "small_volume small_vol" by (simp add: small_volume_def small_vol_def small_sb_def)
  show "root_ok (msb small_vol)" by (simp add: root_ok_def small_vol_def small_sb_def)
  show "two_free small_vol" unfolding two_free_def by (intro exI [of _ 0] exI [of _ 1]) (simp add: small_vol_def)
  show "msb small_vol = small_sb" by (simp add: small_vol_def)
qed

lemma small_dir: "dir_bytes small_disk small_vol dir_d (chain_bytes small_disk small_sb [2])"
proof -
  have "is_chain (sb_clusters (msb small_vol)) (fat small_vol) (end_mark (msb small_vol)) [2]" by code_simp
  then show ?thesis unfolding dir_bytes_def small_ok(4) by (intro conjI exI [of _ "[2]"]) (simp_all add: dir_d_def ATTR_DIR_def)
qed

lemma small_chain: "file_chain small_vol file_f [3]"
proof -
  have "is_chain (sb_clusters (msb small_vol)) (fat small_vol) (end_mark (msb small_vol)) [3]" by code_simp
  then show ?thesis unfolding file_chain_def by (simp add: file_f_def small_vol_def small_sb_def)
qed



theorem translate_fat_packed_witness:
  "\<exists>st'. translate_fat (disk (\<lambda>n. byte_at (pack12 [0xff0, 0xfff, 3, 0xff8]) (n - 2048))) small_vol = (0, st') \<and>
     take 4 (fat st') = [0xff0, 0xfff, 3, 0xff8]"
proof -
  let ?es = "[0xff0, 0xfff, 3, 0xff8 :: u16]"
  let ?D = "\<lambda>n. byte_at (pack12 ?es) (n - 2048)"
  have b: "sb_blocksize (msb small_vol) = 512" "sb_fat_bits (msb small_vol) = 12" by (simp_all add: small_vol_def small_sb_def)
  have n: "unat (sb_fat_start (msb small_vol)) * 512 = 2048" "unat (sb_fat_length (msb small_vol)) * 512 = 512"
    by (simp_all add: small_vol_def small_sb_def)
  have "map (\<lambda>i. ?D (2048 + i)) [0..<6] = pack12 ?es" by code_simp
  moreover have num: "6 + 506 = (512 :: nat)" by simp
  have "[0..<6 + 506] = [0..<6] @ [6..<6 + 506 :: nat]" by (rule upt_add_eq_append) simp
  then have e: "[0..<512] = [0..<6] @ [6..<512 :: nat]" unfolding num .
  have "map (\<lambda>i. ?D (2048 + i)) [0..<512] = map (\<lambda>i. ?D (2048 + i)) [0..<6] @ map (\<lambda>i. ?D (2048 + i)) [6..<512]"
    unfolding e map_append ..
  ultimately have "map (\<lambda>i. ?D (2048 + i)) [0..<512] = pack12 ?es @ map (\<lambda>i. ?D (2048 + i)) [6..<512]"
    by (rule trans [OF _ arg_cong [of _ _ "\<lambda>xs. xs @ _"], rotated])
  then have "map (\<lambda>i. ?D (unat (sb_fat_start (msb small_vol)) * 512 + i)) [0..<unat (sb_fat_length (msb small_vol)) * 512] =
      (if sb_fat_bits (msb small_vol) = 12 then pack12 ?es else pack16 ?es) @ map (\<lambda>i. ?D (2048 + i)) [6..<512]"
    unfolding n b by simp
  moreover have "\<forall>e\<in>set ?es. entry12 e" by code_simp
  then have "sb_fat_bits (msb small_vol) = 12 \<and> (\<forall>e\<in>set ?es. entry12 e) \<or> sb_fat_bits (msb small_vol) = 16" using b(2) by blast
  ultimately obtain st' where st': "translate_fat (disk ?D) small_vol = (0, st')" "take (length ?es) (fat st') = ?es"
    using translate_fat_packed [OF b(1), of ?es ?D] by blast
  have l: "length ?es = 4" by simp
  show ?thesis using st' unfolding l by blast
qed

definition small_boot :: "u8 list" where
  "small_boot = replicate 11 0 @ [0, 2, 1, 1, 0, 1, 16, 0, 8, 0, 0, 1, 0, 1, 0, 1] @ replicate 9 0"

definition boot_sb :: msdos_sb where
  "boot_sb = \<lparr>sb_blocksize = 512, sb_cluster_size = 1, sb_fats = 1, sb_fat_bits = 12, sb_fat_start = 1, sb_fat_length = 1,
     sb_dir_start = 2, sb_dir_entries = 16, sb_data_start = 3, sb_clusters = 5\<rparr>"

lemma small_boot_super:
  fixes st :: msdos
  assumes "device_read dev [] sizeof_boot_sector 0 = (sizeof_boot_sector, small_boot)" "msb st = small_sb"
  shows "msdos_read_super dev st = translate_fat dev (st\<lparr>msb := boot_sb\<rparr>)"
proof -
  have b: "b_cluster_size small_boot = 1" "b_sector_size small_boot = 512" "b_reserved small_boot = 1" "b_fats small_boot = 1"
      "b_dir_entries small_boot = 16" "b_sectors small_boot = 8" "b_fat_length small_boot = 1" "b_secs_track small_boot = 1" "b_heads small_boot = 1"
    by code_simp+
  have m: "sector_mult small_boot = 1" by (simp add: sector_mult_def b SECTOR_BITS_def)
  have f: "super_fields small_boot (msb st) = boot_sb\<lparr>sb_clusters := 3\<rparr>"
    by (simp add: super_fields_def b m assms(2) small_sb_def boot_sb_def ROUND_TO_MULTIPLE_def MSDOS_DIR_BITS_def SECTOR_BITS_def)
  have d: "data_clusters small_boot 3 = 5" by (simp add: data_clusters_def b m)
  show ?thesis unfolding msdos_read_super_def assms(1)
    by (simp add: Let_def f d b m fat_clusters_def boot_sb_def SECTOR_SIZE_def MSDOS_FAT12_def MSDOS_DPS_def MSDOS_MAX_EXTRA_def)
qed


end
