(* ===== verification/Iso9660.thy ===== *)
theory Iso9660
  imports Device "HOL-Library.Monad_Syntax"
begin

unbundle bit_operations_syntax

text \<open>
  The ISO 9660 file system, \<open>fs/isofs.c\<close>. The inodes are a table of slots, an inode number is the position
  of a directory record on the disk. The block size is 1024 throughout. The two buffers are part of the
  state; bytes after their end read as 0. \<open>None\<close> is a copy to outside of a buffer. Rock Ridge
  names are disabled in the source and left out.
\<close>

subsection \<open>Numbers on the disk\<close>

definition isonum_711 :: "u8 list \<Rightarrow> nat \<Rightarrow> u32" where "isonum_711 b p = ucast (byte_at b p)"
definition isonum_712 :: "u8 list \<Rightarrow> nat \<Rightarrow> u32" where "isonum_712 b p = scast (byte_at b p)"

definition isonum_721 :: "u8 list \<Rightarrow> nat \<Rightarrow> u32" where
  "isonum_721 b p = ucast (byte_at b p) OR push_bit 8 (ucast (byte_at b (p + 1)))"

definition isonum_722 :: "u8 list \<Rightarrow> nat \<Rightarrow> u32" where
  "isonum_722 b p = push_bit 8 (ucast (byte_at b p)) OR ucast (byte_at b (p + 1))"

definition isonum_723 :: "u8 list \<Rightarrow> nat \<Rightarrow> u32" where "isonum_723 b p = isonum_721 b p"

definition isonum_731 :: "u8 list \<Rightarrow> nat \<Rightarrow> u32" where
  "isonum_731 b p = ucast (byte_at b p) OR push_bit 8 (ucast (byte_at b (p + 1))) OR
     push_bit 16 (ucast (byte_at b (p + 2))) OR push_bit 24 (ucast (byte_at b (p + 3)))"

definition isonum_732 :: "u8 list \<Rightarrow> nat \<Rightarrow> u32" where
  "isonum_732 b p = push_bit 24 (ucast (byte_at b p)) OR push_bit 16 (ucast (byte_at b (p + 1))) OR
     push_bit 8 (ucast (byte_at b (p + 2))) OR ucast (byte_at b (p + 3))"

definition isonum_733 :: "u8 list \<Rightarrow> nat \<Rightarrow> u32" where "isonum_733 b p = isonum_731 b p"

text \<open>The fields of a directory record; in High Sierra the flags are one byte earlier.\<close>

definition r_extent :: "u8 list \<Rightarrow> u32" where "r_extent r = isonum_733 r 2"
definition r_size :: "u8 list \<Rightarrow> u32" where "r_size r = isonum_733 r 10"
definition r_flags :: "bool \<Rightarrow> u8 list \<Rightarrow> u8" where "r_flags high_sierra r = byte_at r (if high_sierra then 24 else 25)"
definition r_interleave :: "u8 list \<Rightarrow> u8" where "r_interleave r = byte_at r 27"
definition r_name_len :: "u8 list \<Rightarrow> nat" where "r_name_len r = unat (byte_at r 32)"
definition r_name :: "u8 list \<Rightarrow> nat \<Rightarrow> u8" where "r_name r i = byte_at r (33 + i)"

subsection \<open>The state\<close>

record isofs_super_block =
  s_nzones :: u64
  s_firstdatazone :: u64
  s_log_zone_size :: u64
  s_max_size :: u64
  s_high_sierra :: bool
  s_mapping :: u8
  s_conversion :: u8
  s_rock :: bool
  s_cruft :: u8
  s_unhide :: u8
  s_mode :: u32

record iso_inode =
  i_first_extent :: u32
  i_backlink :: u32
  i_file_format :: u8
  iso_inumber :: u32
  iso_free :: bool
  iso_size :: u32
  iso_nlink :: u32
  iso_mode :: u32

record iso =
  iso_sb :: isofs_super_block
  iso_table :: "iso_inode list"
  root_inode :: u64
  data_block :: "u8 list"
  big_data_block :: "u8 list"

definition ISO_OPEN_FILES :: nat where "ISO_OPEN_FILES = 5"
definition ISO_BLOCKSIZE :: nat where "ISO_BLOCKSIZE = 1024"
definition ISO_BITS :: nat where "ISO_BITS = 10"
definition ISOFS_BLOCK_SIZE :: u32 where "ISOFS_BLOCK_SIZE = 2048"
definition S_IFDIR :: u32 where "S_IFDIR = 0x4000"
definition S_IFREG :: u32 where "S_IFREG = 0x8000"
definition S_IFMT :: u32 where "S_IFMT = 0xf000"
definition S_IRUGO :: u32 where "S_IRUGO = 0x124"
definition S_IXUGO :: u32 where "S_IXUGO = 0x49"

definition upd_slot :: "nat \<Rightarrow> (iso_inode \<Rightarrow> iso_inode) \<Rightarrow> iso \<Rightarrow> iso" where
  "upd_slot i f st = st\<lparr>iso_table := (iso_table st)[i := f (iso_table st ! i)]\<rparr>"

definition iso9660_fdsize :: "nat \<Rightarrow> iso \<Rightarrow> u64" where
  "iso9660_fdsize fd st = scast (iso_size (iso_table st ! fd))"

definition isofs_bread :: "blockdev \<Rightarrow> u64 \<Rightarrow> u8 list \<Rightarrow> bool \<times> u8 list" where
  "isofs_bread dev blkno buffer =
     (let (n, b) = device_read dev buffer ISO_BLOCKSIZE (blkno * of_nat ISO_BLOCKSIZE) in (n = ISO_BLOCKSIZE, b))"

definition copy_at :: "nat \<Rightarrow> u8 list \<Rightarrow> u8 list \<Rightarrow> u8 list" where
  "copy_at p xs b = take p b @ xs @ drop (p + length xs) b"

definition isofs_iput :: "nat \<Rightarrow> iso \<Rightarrow> iso" where
  "isofs_iput i st = upd_slot i (\<lambda>n. n\<lparr>iso_inumber := 0, iso_free := True\<rparr>) st"

subsection \<open>Inodes\<close>

text \<open>The bytes of the inode's record. The copy of a record in two blocks takes its length from the second.\<close>

definition raw_inode :: "blockdev \<Rightarrow> u32 \<Rightarrow> iso \<Rightarrow> (u8 list option \<times> iso) option" where
  "raw_inode dev ino st =
     (let block = signed_drop_bit ISO_BITS ino;
          (ok, data) = isofs_bread dev (scast block) (data_block st);
          st = st\<lparr>data_block := data\<rparr>
      in if \<not> ok then Some (None, st)
      else
        let offset = unat (ino AND of_nat (ISO_BLOCKSIZE - 1)) in
        if offset + unat (byte_at data offset) > ISO_BLOCKSIZE then
          let frag1 = ISO_BLOCKSIZE - offset;
              big = copy_at 0 (take frag1 (drop offset data)) (big_data_block st);
              (ok, data) = isofs_bread dev (scast (block + 1)) data;
              st = st\<lparr>data_block := data, big_data_block := big\<rparr>
          in if \<not> ok then Some (None, st)
             else
               let offset = offset + unat (byte_at data offset) in
               if offset < ISO_BLOCKSIZE then None
               else
                 let big = copy_at frag1 (take (offset - ISO_BLOCKSIZE) data) big
                 in Some (Some big, st\<lparr>big_data_block := big\<rparr>)
        else Some (Some (drop offset data), st))"

definition plain_name :: "u8 list \<Rightarrow> bool" where
  "plain_name r = (case find (\<lambda>i. r_name r i = 0x2e \<or> r_name r i = 0x3b) [0..<r_name_len r] of
     None \<Rightarrow> True | Some i \<Rightarrow> r_name r i = 0x3b)"

definition fill_inode :: "u8 list \<Rightarrow> u32 \<Rightarrow> isofs_super_block \<Rightarrow> iso_inode \<Rightarrow> isofs_super_block \<times> iso_inode" where
  "fill_inode r ino sb n =
     (let mode = (if r_flags (s_high_sierra sb) r AND 2 \<noteq> 0 then S_IRUGO OR S_IXUGO OR S_IFDIR
            else (s_mode sb OR S_IFREG) OR (if plain_name r then S_IXUGO else 0));
          sz = r_size r;
          sb = (if (sz <s 0 \<or> 700000000 <s sz) \<and> s_cruft sb = 0x6e then sb\<lparr>s_cruft := 0x79\<rparr> else sb);
          sz = (if s_cruft sb = 0x79 \<and> sz AND 0xff000000 \<noteq> 0 then sz AND 0xffffff else sz);
          sz = (if r_interleave r \<noteq> 0 then 0 else sz);
          format = (if s_conversion sb = 0x61 then 0 else if s_conversion sb = 0x62 then 2
            else if s_conversion sb = 0x74 then 1 else if s_conversion sb = 0x6d then 3 else i_file_format n)
      in (sb, n\<lparr>i_first_extent := push_bit (unat (s_log_zone_size sb)) (r_extent r + isonum_711 r 1),
            i_backlink := 0xffffffff, i_file_format := format, iso_inumber := ino, iso_free := False,
            iso_size := sz, iso_nlink := 1, iso_mode := mode\<rparr>))"

definition first_free_slot :: "iso \<Rightarrow> nat option" where
  "first_free_slot st = find (\<lambda>i. iso_free (iso_table st ! i)) [0..<length (iso_table st)]"

definition isofs_iget :: "blockdev \<Rightarrow> u32 \<Rightarrow> iso \<Rightarrow> (nat option \<times> iso) option" where
  "isofs_iget dev ino st =
     (case first_free_slot st of None \<Rightarrow> Some (None, st)
      | Some i \<Rightarrow> do {
          (r, st) \<leftarrow> raw_inode dev ino st;
          case r of None \<Rightarrow> Some (None, st)
          | Some r \<Rightarrow>
              let (sb, n) = fill_inode r ino (iso_sb st) (iso_table st ! i)
              in Some (Some i, upd_slot i (\<lambda>_. n) (st\<lparr>iso_sb := sb\<rparr>))
        })"

subsection \<open>Directories\<close>

definition isofs_match :: "u8 list \<Rightarrow> u8 list \<Rightarrow> bool" where
  "isofs_match name cmp =
     (if cmp = [0] then name = [] \<or> name = [0x2e]
      else if cmp = [1] then name = [0x2e, 0x2e]
      else name = cmp)"

text \<open>The argument is an \<open>int\<close>.\<close>

definition isofs_bmap :: "iso_inode \<Rightarrow> u32 \<Rightarrow> u32" where
  "isofs_bmap n block = (if block <s 0 then 0 else drop_bit ISO_BITS (i_first_extent n) + block)"

text \<open>The names in lower case, in place, for \<open>k\<close> characters from the \<open>i\<close>-th on; the result is \<open>dlen\<close>.\<close>

fun lower_name :: "nat \<Rightarrow> nat \<Rightarrow> u8 list \<Rightarrow> nat \<times> u8 list" where
  "lower_name 0 i r = (i, r)"
| "lower_name (Suc k) i r =
     (let c = r_name r i;
          c = (if 0x41 \<le> c \<and> c \<le> 0x5a then c OR 0x20 else c)
      in if c = 0x3b \<and> k = 1 \<and> r_name r (i + 1) = 0x31 then (i, r)
         else lower_name k (i + 1) (r[33 + i := (if c = 0x3b then 0x2e else c)]))"

record scan =
  f_pos :: u32
  sc_offset :: u32
  sc_block :: u32

datatype turn = Stop | Skip scan | Entry bool nat scan u32 bool

text \<open>
  The next record of a directory: the end, a move to the next sector, or the record at an offset of one of the
  buffers, with its inode number; at last whether the second block of a record in two could be read.
\<close>

definition next_record :: "bool \<Rightarrow> blockdev \<Rightarrow> iso_inode \<Rightarrow> scan \<Rightarrow> iso \<Rightarrow> turn \<times> iso" where
  "next_record listing dev n sc st =
     (let offset = unat (sc_offset sc); len = byte_at (data_block st) offset;
          inode_number = push_bit ISO_BITS (sc_block sc) + (sc_offset sc AND of_nat (ISO_BLOCKSIZE - 1))
      in if len = 0 then
           let pos = (f_pos sc AND NOT (ISOFS_BLOCK_SIZE - 1)) + ISOFS_BLOCK_SIZE;
               block = isofs_bmap n (drop_bit ISO_BITS pos)
           in if block = 0 then (Stop, st)
              else
                let (ok, data) = isofs_bread dev (ucast block) (data_block st); st = st\<lparr>data_block := data\<rparr>
                in if \<not> ok then (Stop, st) else (Skip \<lparr>f_pos = pos, sc_offset = 0, sc_block = block\<rparr>, st)
         else
           let pos = f_pos sc + ucast len in
           if offset + unat len \<ge> ISO_BLOCKSIZE then
             let frag1 = ISO_BLOCKSIZE - offset;
                 big = copy_at 0 (take frag1 (drop offset (data_block st))) (big_data_block st);
                 off = pos AND of_nat (ISO_BLOCKSIZE - 1);
                 block = isofs_bmap n (drop_bit ISO_BITS pos);
                 sc = \<lparr>f_pos = pos, sc_offset = off, sc_block = block\<rparr>
             in if block = 0 then (Stop, st\<lparr>big_data_block := big\<rparr>)
                else
                  let (ok, data) = isofs_bread dev (ucast block) (data_block st);
                      big = (if ok \<or> listing then copy_at frag1 (take (unat off) data) big else big)
                  in (Entry True 0 sc inode_number ok, st\<lparr>data_block := data, big_data_block := big\<rparr>)
           else (Entry False offset (sc\<lparr>f_pos := pos, sc_offset := sc_offset sc + ucast len\<rparr>) inode_number True, st))"

definition record_bytes :: "bool \<Rightarrow> nat \<Rightarrow> iso \<Rightarrow> u8 list" where
  "record_bytes in_big at st = (if in_big then big_data_block st else drop at (data_block st))"

definition put_record :: "bool \<Rightarrow> nat \<Rightarrow> u8 list \<Rightarrow> iso \<Rightarrow> iso" where
  "put_record in_big at r st =
     (if in_big then st\<lparr>big_data_block := r\<rparr> else st\<lparr>data_block := take at (data_block st) @ r\<rparr>)"

definition start_scan :: "blockdev \<Rightarrow> iso_inode \<Rightarrow> iso \<Rightarrow> scan option \<times> iso" where
  "start_scan dev n st =
     (if i_first_extent n = 0 then (None, st)
      else
        let block = isofs_bmap n 0 in
        if block = 0 then (None, st)
        else
          let (ok, data) = isofs_bread dev (ucast block) (data_block st); st = st\<lparr>data_block := data\<rparr>
          in (if ok then Some \<lparr>f_pos = 0, sc_offset = 0, sc_block = block\<rparr> else None, st))"

text \<open>Inode number and back link of a record: those of \<open>.\<close> and \<open>..\<close> are not their places on the disk.\<close>

definition entry_number :: "iso_inode \<Rightarrow> isofs_super_block \<Rightarrow> u8 list \<Rightarrow> u32 \<Rightarrow> u32 \<times> u32" where
  "entry_number n sb r number =
     (let backlink = iso_inumber n;
          (number, backlink) = (if r_name r 0 = 0 \<and> r_name_len r = 1 then (iso_inumber n, 0) else (number, backlink))
      in if r_name r 0 = 1 \<and> r_name_len r = 1 then
           (if s_firstdatazone sb \<noteq> scast (iso_inumber n) then i_backlink n else iso_inumber n, 0)
         else (number, backlink))"

text \<open>The name to compare, and the record with its name as it is left in the buffer. A period at the end may be missing.\<close>

definition entry_name :: "isofs_super_block \<Rightarrow> nat option \<Rightarrow> u8 list \<Rightarrow> u8 list \<times> u8 list" where
  "entry_name sb wanted r =
     (if s_mapping sb = 0x6e then
        let (dlen, r) = lower_name (r_name_len r) 0 r;
            dlen = (if byte_at r (33 + dlen - 1) = 0x2e \<and> wanted = Some (dlen - 1) \<and> 0 < dlen then dlen - 1 else dlen)
        in (map (r_name r) [0..<dlen], r)
      else (map (r_name r) [0..<r_name_len r], r))"

definition shown :: "isofs_super_block \<Rightarrow> u8 list \<Rightarrow> bool" where
  "shown sb r \<longleftrightarrow> r_flags (s_high_sierra sb) r AND 5 = 0 \<or> s_unhide sb = 0x79"

text \<open>
  The search. The results are the status, the inode number and the back link, which is only written on a match. A
  second block that cannot be read ends it with status 0 and inode number 0.
\<close>

partial_function (option) find_records ::
  "blockdev \<Rightarrow> iso_inode \<Rightarrow> u8 list \<Rightarrow> u32 \<Rightarrow> scan \<Rightarrow> iso \<Rightarrow> (int \<times> u64 \<times> u64 \<times> iso) option" where
  "find_records dev n name back sc st =
     (if f_pos sc < iso_size n then
        case next_record False dev n sc st of
          (Stop, st) \<Rightarrow> Some (-1, 0, ucast back, st)
        | (Skip sc, st) \<Rightarrow> find_records dev n name back sc st
        | (Entry in_big at sc number ok, st) \<Rightarrow>
            if \<not> ok then Some (0, 0, ucast back, st)
            else
              let r = record_bytes in_big at st;
                  (number, backlink) = entry_number n (iso_sb st) r number;
                  (cmp, r') = entry_name (iso_sb st) (Some (length name)) r;
                  st = put_record in_big at r' st
              in if shown (iso_sb st) r' \<and> isofs_match name cmp then
                   if number = - 1 then Some (-1, 0, ucast back, st) else Some (0, ucast number, ucast backlink, st)
                 else find_records dev n name back sc st
      else Some (-1, 0, ucast back, st))"

definition isofs_find_entry :: "blockdev \<Rightarrow> nat \<Rightarrow> u8 list \<Rightarrow> u32 \<Rightarrow> iso \<Rightarrow> (int \<times> u64 \<times> u64 \<times> iso) option" where
  "isofs_find_entry dev dir name back st =
     (case start_scan dev (iso_table st ! dir) st of (None, st) \<Rightarrow> Some (-1, 0, ucast back, st)
      | (Some sc, st) \<Rightarrow> find_records dev (iso_table st ! dir) name back sc st)"

text \<open>The lines of a listing.\<close>

partial_function (option) list_records :: "blockdev \<Rightarrow> iso_inode \<Rightarrow> scan \<Rightarrow> iso \<Rightarrow> u8 list list \<Rightarrow> (u8 list list \<times> iso) option" where
  "list_records dev n sc st ls =
     (if f_pos sc < iso_size n then
        case next_record True dev n sc st of
          (Stop, st) \<Rightarrow> Some (ls, st)
        | (Skip sc, st) \<Rightarrow> list_records dev n sc st ls
        | (Entry in_big at sc number ok, st) \<Rightarrow>
            let r = record_bytes in_big at st;
                (name, r') = entry_name (iso_sb st) None r;
                st = put_record in_big at r' st;
                line = (if name = [0] then [0x2e] else if name = [1] then [0x2e, 0x2e] else name) @
                  (if r_flags (s_high_sierra (iso_sb st)) r' AND 2 \<noteq> 0 then [SLASH] else [])
            in list_records dev n sc st (if shown (iso_sb st) r' then ls @ [line] else ls)
      else Some (ls, st))"

definition isofs_list_entry :: "blockdev \<Rightarrow> nat \<Rightarrow> iso \<Rightarrow> (u8 list list \<times> iso) option" where
  "isofs_list_entry dev dir st =
     (case start_scan dev (iso_table st ! dir) st of (None, st) \<Rightarrow> Some ([], st)
      | (Some sc, st) \<Rightarrow> list_records dev (iso_table st ! dir) sc st [])"

subsection \<open>Paths\<close>

text \<open>The components between slashes, with the empty ones.\<close>

fun split_path :: "u8 list \<Rightarrow> u8 list \<Rightarrow> u8 list list" where
  "split_path acc [] = [acc]"
| "split_path acc (c # cs) = (if c = SLASH then acc # split_path [] cs else split_path (acc @ [c]) cs)"

definition S_ISDIR :: "u32 \<Rightarrow> bool" where "S_ISDIR m \<longleftrightarrow> m AND S_IFMT = S_IFDIR"

text \<open>
  The components but the last are directories that are replaced one by one; a slot is lost when one of them is
  not found. \<open>back\<close> is what \<open>ino_back\<close> holds.
\<close>

fun lookup_parts :: "blockdev \<Rightarrow> u8 list list \<Rightarrow> nat \<Rightarrow> u32 \<Rightarrow> iso \<Rightarrow> (nat option \<times> iso) option" where
  "lookup_parts dev [] dir back st = Some (None, st)"
| "lookup_parts dev [name] dir back st = do {
     (status, ino, back, st) \<leftarrow> isofs_find_entry dev dir name back st;
     if status \<noteq> 0 then Some (None, isofs_iput dir st)
     else do {
       (res, st) \<leftarrow> isofs_iget dev (ucast ino) st;
       case res of None \<Rightarrow> Some (None, isofs_iput dir st)
       | Some i \<Rightarrow> Some (Some i, isofs_iput dir (upd_slot i (\<lambda>n. n\<lparr>i_backlink := ucast back\<rparr>) st))
     }
   }"
| "lookup_parts dev (name # names) dir back st = do {
     (status, ino, back, st) \<leftarrow> isofs_find_entry dev dir name back st;
     if status \<noteq> 0 then Some (None, st)
     else do {
       (d, st) \<leftarrow> isofs_iget dev (ucast ino) (isofs_iput dir st);
       case d of None \<Rightarrow> Some (None, st) | Some d \<Rightarrow> lookup_parts dev names d (ucast back) st
     }
   }"

definition isofs_lookup :: "blockdev \<Rightarrow> nat \<Rightarrow> u8 list \<Rightarrow> u32 \<Rightarrow> iso \<Rightarrow> (nat option \<times> iso) option" where
  "isofs_lookup dev dir name back st =
     (if \<not> S_ISDIR (iso_mode (iso_table st ! dir)) then Some (None, isofs_iput dir st)
      else lookup_parts dev (split_path [] name) dir back st)"

subsection \<open>Mounting\<close>

definition ISO_VD_PRIMARY :: u32 where "ISO_VD_PRIMARY = 1"
definition ISO_STANDARD_ID :: "u8 list" where "ISO_STANDARD_ID = [0x43, 0x44, 0x30, 0x30, 0x31]"
definition HS_STANDARD_ID :: "u8 list" where "HS_STANDARD_ID = [0x43, 0x44, 0x52, 0x4f, 0x4d]"

text \<open>The volume descriptors from the sector \<open>100 - k\<close> on: the primary one is left in the buffer.\<close>

fun find_descriptor :: "blockdev \<Rightarrow> nat \<Rightarrow> iso \<Rightarrow> bool option \<times> iso" where
  "find_descriptor dev 0 st = (None, st)"
| "find_descriptor dev (Suc k) st =
     (let (ok, data) = isofs_bread dev (of_nat (2 * (100 - Suc k))) (data_block st); st = st\<lparr>data_block := data\<rparr>
      in if \<not> ok then (None, st)
         else if map (\<lambda>i. byte_at data (9 + i)) [0..<5] = HS_STANDARD_ID then
           (if isonum_711 data 8 \<noteq> ISO_VD_PRIMARY then None else Some True, st)
         else if map (\<lambda>i. byte_at data (1 + i)) [0..<5] = ISO_STANDARD_ID then
           (if isonum_711 data 0 \<noteq> ISO_VD_PRIMARY then None else Some False, st)
         else find_descriptor dev k st)"

definition isofs_read_super :: "blockdev \<Rightarrow> iso \<Rightarrow> int \<times> iso" where
  "isofs_read_super dev st =
     (let st = st\<lparr>iso_sb := (iso_sb st)\<lparr>s_high_sierra := False\<rparr>\<rparr>;
          (found, st) = find_descriptor dev 84 st
      in case found of None \<Rightarrow> (-1, st)
         | Some high_sierra \<Rightarrow>
             let d = data_block st;
                 st = st\<lparr>iso_sb := (iso_sb st)\<lparr>s_high_sierra := high_sierra\<rparr>\<rparr>;
                 (root, set_size, space, block) = (if high_sierra then (180, 128, 88, 136) else (156, 120, 80, 128))
             in if isonum_723 d set_size \<noteq> 1 then (-1, st)
                else
                  let zone = (scast (isonum_723 d block) :: u64);
                      sb = (iso_sb st)\<lparr>s_nzones := scast (isonum_733 d space), s_log_zone_size := zone,
                        s_max_size := scast (isonum_733 d space)\<rparr>;
                      bits = (if zone = 512 then 9 else if zone = 1024 then 10 else 11 :: u64)
                  in if zone \<noteq> 512 \<and> zone \<noteq> 1024 \<and> zone \<noteq> 2048 then (-1, st\<lparr>iso_sb := sb\<rparr>)
                     else
                       let first = (scast (push_bit (unat bits) (isonum_733 d (root + 2))) :: u64);
                           sb = sb\<lparr>s_log_zone_size := bits, s_firstdatazone := first, s_mapping := 0x6e, s_rock := \<not> high_sierra,
                             s_conversion := 0x62, s_cruft := 0x6e, s_unhide := 0x6e, s_mode := S_IRUGO AND 0x1ff\<rparr>
                       in (0, st\<lparr>iso_sb := sb, root_inode := first\<rparr>))"

text \<open>The buffers are new ones; their contents, and that they could be allocated, are arguments.\<close>

definition iso9660_mount :: "blockdev \<Rightarrow> u8 list option \<Rightarrow> u8 list option \<Rightarrow> iso \<Rightarrow> int \<times> iso" where
  "iso9660_mount dev data big st =
     (let st = st\<lparr>iso_table := map (\<lambda>n. n\<lparr>iso_free := True, iso_inumber := 0\<rparr>) (iso_table st)\<rparr>
      in case data of None \<Rightarrow> (-1, st)
         | Some data \<Rightarrow>
             let st = st\<lparr>data_block := data\<rparr> in
             (case big of None \<Rightarrow> (-1, st) | Some big \<Rightarrow> isofs_read_super dev (st\<lparr>big_data_block := big\<rparr>)))"

subsection \<open>Files\<close>

definition iso9660_bread :: "blockdev \<Rightarrow> nat \<Rightarrow> nat \<Rightarrow> u8 list \<Rightarrow> iso \<Rightarrow> int \<times> u8 list" where
  "iso9660_bread dev fd blkno buffer st =
     (let n = iso_table st ! fd in
      if i_first_extent n = 0 then (-1, buffer)
      else
        let block = isofs_bmap n (of_nat blkno) in
        if block = 0 then (-1, buffer)
        else let (ok, buffer) = isofs_bread dev (ucast block) buffer in (if ok then 0 else -1, buffer))"

definition iso9660_open :: "blockdev \<Rightarrow> u32 \<Rightarrow> u8 list \<Rightarrow> iso \<Rightarrow> (int \<times> iso) option" where
  "iso9660_open dev back filename st = do {
     (root, st) \<leftarrow> isofs_iget dev (ucast (root_inode st)) st;
     case root of None \<Rightarrow> Some (-1, st)
     | Some root \<Rightarrow> do {
         (res, st) \<leftarrow> isofs_lookup dev root filename back st;
         Some (case res of None \<Rightarrow> -1 | Some i \<Rightarrow> int i, st)
       }
   }"

datatype iso_listing = Iso_no_root | Iso_no_such_file | Iso_directory "u8 list list" | Iso_file "u8 list"

definition iso9660_ls :: "blockdev \<Rightarrow> u32 \<Rightarrow> u8 list \<Rightarrow> iso \<Rightarrow> (iso_listing \<times> iso) option" where
  "iso9660_ls dev back dirname st = do {
     (root, st) \<leftarrow> isofs_iget dev (ucast (root_inode st)) st;
     case root of None \<Rightarrow> Some (Iso_no_root, st)
     | Some root \<Rightarrow>
         let dirname = (if take 1 dirname = [SLASH] then drop 1 dirname else dirname) in do {
         (res, st) \<leftarrow> isofs_lookup dev root dirname back st;
         case res of None \<Rightarrow> Some (Iso_no_such_file, st)
         | Some i \<Rightarrow>
             if S_ISDIR (iso_mode (iso_table st ! i)) then
               map_option (\<lambda>(ls, st). (Iso_directory ls, st)) (isofs_list_entry dev i st)
             else Some (Iso_file dirname, st)
       }
   }"

text \<open>\<open>iso9660_close\<close> closes the device: the slot of the file stays in use.\<close>

definition iso9660_close :: "nat \<Rightarrow> iso \<Rightarrow> iso" where
  "iso9660_close fd st = st"

end
