(* ===== verification/Boot_Image.thy ===== *)
theory Boot_Image
  imports Unzip Ext2 Fat Iso9660 Memory
begin

text \<open>
  Loading of the kernel and of the ramdisk, \<open>boot.c\<close>. The fields of the ELF headers are those of the
  kernel's \<open>elf.h\<close>: accessors on memory, in \<open>elf_lib\<close>. A file system is the record \<open>struct bootfs\<close> of
  operations, of which reading changes nothing but the buffer. The addresses that \<open>kmalloc\<close> returns are
  arguments, and messages are left out.
\<close>

subsection \<open>The executable\<close>

record elf_lib =
  e_ident :: "(u64 \<Rightarrow> u8) \<Rightarrow> u64 \<Rightarrow> nat \<Rightarrow> u8"
  e_type :: "(u64 \<Rightarrow> u8) \<Rightarrow> u64 \<Rightarrow> u16"
  e_machine :: "(u64 \<Rightarrow> u8) \<Rightarrow> u64 \<Rightarrow> u16"
  e_phnum :: "(u64 \<Rightarrow> u8) \<Rightarrow> u64 \<Rightarrow> u16"
  e_phoff :: "(u64 \<Rightarrow> u8) \<Rightarrow> u64 \<Rightarrow> u64"
  e_entry :: "(u64 \<Rightarrow> u8) \<Rightarrow> u64 \<Rightarrow> u64"
  p_vaddr :: "(u64 \<Rightarrow> u8) \<Rightarrow> u64 \<Rightarrow> u64"
  p_offset :: "(u64 \<Rightarrow> u8) \<Rightarrow> u64 \<Rightarrow> u64"
  p_filesz :: "(u64 \<Rightarrow> u8) \<Rightarrow> u64 \<Rightarrow> u64"
  p_memsz :: "(u64 \<Rightarrow> u8) \<Rightarrow> u64 \<Rightarrow> u64"
  sizeof_phdr :: u64
  ET_EXEC :: u16
  elf_check_arch :: "u16 \<Rightarrow> bool"

record kernel_info =
  kernel_at :: u64
  kernel_entry :: u64
  kernel_pages :: u64
  kernel_filesize :: u64
  kernel_memsize :: u64

definition IOBUF_SIZE :: nat where "IOBUF_SIZE = 1024"

definition extract_header_info :: "elf_lib \<Rightarrow> (u64 \<Rightarrow> u8) \<Rightarrow> u64 \<Rightarrow> kernel_info \<Rightarrow> u64 \<times> kernel_info" where
  "extract_header_info E b header k =
     (if e_ident E b header 0 \<noteq> 0x7f \<or> map (e_ident E b header) [1, 2, 3] \<noteq> [0x45, 0x4c, 0x46] then (- 1, k)
      else if e_type E b header \<noteq> ET_EXEC E then (- 1, k)
      else if \<not> elf_check_arch E (e_machine E b header) then (- 1, k)
      else if e_phnum E b header \<noteq> 1 then (- 1, k)
      else if e_phoff E b header + sizeof_phdr E > of_nat IOBUF_SIZE then (- 1, k)
      else
        let phdr = header + e_phoff E b header;
            k = k\<lparr>kernel_entry := e_entry E b header, kernel_at := p_vaddr E b phdr\<rparr>;
            offset = p_offset E b phdr;
            k = k\<lparr>kernel_filesize := p_filesz E b phdr, kernel_memsize := p_memsz E b phdr\<rparr>
        in if kernel_at k < kernel_entry k then
             let delta = kernel_entry k - kernel_at k
             in (offset + delta, k\<lparr>kernel_filesize := kernel_filesize k - delta, kernel_memsize := kernel_memsize k - delta,
                  kernel_at := kernel_entry k\<rparr>)
           else (offset, k))"

text \<open>\<open>memcpy\<close> between addresses; the areas may not overlap.\<close>

definition copy_bytes :: "u64 \<Rightarrow> u64 \<Rightarrow> u64 \<Rightarrow> (u64 \<Rightarrow> u8) \<Rightarrow> u64 \<Rightarrow> u8" where
  "copy_bytes dest src n b = (\<lambda>a. if a - dest < n then b (src + (a - dest)) else b a)"

definition load_image_from_memory :: "plat \<Rightarrow> elf_lib \<Rightarrow> u64 \<Rightarrow> (u64 \<Rightarrow> u8) \<Rightarrow> kernel_info \<Rightarrow> u64 \<times> (u64 \<Rightarrow> u8) \<times> kernel_info" where
  "load_image_from_memory P E address b k =
     (let (offset, k) = extract_header_info E b address k in
      if offset <s 0 then (0, b, k)
      else
        let pages = drop_bit (PAGE_SHIFT P) (kernel_memsize k + PAGE_SIZE P - 1) +
              drop_bit (PAGE_SHIFT P) (kernel_entry k - KERNEL_START P + PAGE_SIZE P - 1);
            k = k\<lparr>kernel_pages := pages\<rparr>
        in (kernel_entry k, copy_bytes (kernel_at k) (address + offset) (kernel_filesize k) b, k))"

subsection \<open>Files\<close>

record 's bootfs =
  fs_mount :: "'s \<Rightarrow> (int \<times> 's) option"
  fs_open :: "u8 list \<Rightarrow> 's \<Rightarrow> (int \<times> 's) option"
  fs_fdsize :: "int \<Rightarrow> 's \<Rightarrow> u64"
  fs_bread :: "int \<Rightarrow> nat \<Rightarrow> u8 list \<Rightarrow> 's \<Rightarrow> (int \<times> u8 list) option"
  fs_close :: "int \<Rightarrow> 's \<Rightarrow> 's"

definition msdosfs :: "blockdev \<Rightarrow> msdos bootfs" where
  "msdosfs dev = \<lparr>fs_mount = (\<lambda>st. Some (msdos_mount dev st)), fs_open = msdos_open dev, fs_fdsize = (\<lambda>fd st. ucast (msdos_fdsize (nat fd) st)),
     fs_bread = (\<lambda>fd. msdos_bread dev (nat fd)), fs_close = msdos_close\<rparr>"

text \<open>
  \<open>mem\<close> is the block for the group descriptors. The blocks of pointers that \<open>ext2_bread\<close> keeps do not change what later
  calls read (\<open>ext2_file_blocks\<close>); they are left as they were.
\<close>

definition ext2fs :: "u8 list option \<Rightarrow> blockdev \<Rightarrow> ext2 bootfs" where
  "ext2fs mem dev = \<lparr>fs_mount = ext2_mount mem dev, fs_open = ext2_open dev, fs_fdsize = (\<lambda>fd st. ucast (ext2_fdsize (nat fd) st)),
     fs_bread = (\<lambda>fd n buf st. Some (0, fst (ext2_bread dev (nat fd) n buf st))), fs_close = (\<lambda>fd. ext2_close (nat fd))\<rparr>"

text \<open>The arguments are the new buffers of a mount, and what an uninitialised variable holds.\<close>

definition iso9660fs :: "u8 list option \<Rightarrow> u8 list option \<Rightarrow> u32 \<Rightarrow> blockdev \<Rightarrow> iso bootfs" where
  "iso9660fs data big junk dev = \<lparr>fs_mount = (\<lambda>st. Some (iso9660_mount dev data big st)), fs_open = iso9660_open dev junk,
     fs_fdsize = (\<lambda>fd. iso9660_fdsize (nat fd)), fs_bread = (\<lambda>fd n buf st. Some (iso9660_bread dev (nat fd) n buf st)),
     fs_close = (\<lambda>fd. iso9660_close (nat fd))\<rparr>"

text \<open>How \<open>fill_inbuf\<close> reads: the result does not count. A read outside of a table of the file system leaves the buffer.\<close>

definition fs_reader :: "'s bootfs \<Rightarrow> int \<Rightarrow> 's \<Rightarrow> reader" where
  "fs_reader F fd s n buf =
     (case fs_bread F fd n (map buf [0..<IOBUF_SIZE]) s of None \<Rightarrow> buf
      | Some (_, b) \<Rightarrow> (\<lambda>i. if i < length b then b ! i else buf i))"

definition store_list :: "u64 \<Rightarrow> u8 list \<Rightarrow> (u64 \<Rightarrow> u8) \<Rightarrow> u64 \<Rightarrow> u8" where
  "store_list at xs b = (\<lambda>a. if unat (a - at) < length xs then xs ! unat (a - at) else b a)"

text \<open>The blocks of a file that is not compressed, to \<open>where\<close>, until one cannot be read or there are too many.\<close>

function raw_blocks :: "'s bootfs \<Rightarrow> int \<Rightarrow> 's \<Rightarrow> u64 \<Rightarrow> nat \<Rightarrow> u8 list \<Rightarrow> (u64 \<Rightarrow> u8) \<Rightarrow> (u64 \<Rightarrow> u8) option" where
  "raw_blocks F fd s dest n iobuf b =
     (case fs_bread F fd n iobuf s of None \<Rightarrow> None
      | Some (r, iobuf) \<Rightarrow>
          if r = 0 then
            let b = store_list (dest + of_nat (n * IOBUF_SIZE)) iobuf b
            in if (n + 1) * IOBUF_SIZE > unat MAX_KERNEL_SIZE then Some b else raw_blocks F fd s dest (n + 1) iobuf b
          else Some b)"
  by auto
termination by (relation "measure (\<lambda>(F, fd, s, dest, n, iobuf, b). unat MAX_KERNEL_SIZE - n)") (auto simp: MAX_KERNEL_SIZE_def IOBUF_SIZE_def)

declare raw_blocks.simps [simp del]

text \<open>
  \<open>load_image_from_device\<close>: \<open>dest\<close> is where the file goes, \<open>buf\<close>, \<open>win\<close> and \<open>iobuf\<close> are the contents of new
  buffers. \<open>None\<close> is a loop without end or a read outside of a table, \<open>Inl\<close> a message of the
  decompression, after which the machine is halted. \<open>__close\<close> gets the result of the mount.
\<close>

definition load_image_from_device ::
  "plat \<Rightarrow> elf_lib \<Rightarrow> 's bootfs \<Rightarrow> u8 list \<Rightarrow> u64 \<Rightarrow> (nat \<Rightarrow> u8) \<Rightarrow> (nat \<Rightarrow> u8) \<Rightarrow> u8 list \<Rightarrow> 's \<Rightarrow> zip \<Rightarrow> kernel_info \<Rightarrow>
   (string + u64 \<times> 's \<times> zip \<times> kernel_info) option" where
  "load_image_from_device P E F filename dest buf win iobuf s z k =
     do {
      (channel, s) \<leftarrow> fs_mount F s;
      if channel \<noteq> 0 then Some (Inr (0, s, z, k))
      else do {
        (fd, s) \<leftarrow> fs_open F filename s;
        if fd < 0 then Some (Inr (0, s, z, k))
        else do {
          res \<leftarrow> uncompress_kernel (fs_reader F fd s) dest buf win z;
          case res of Inl msg \<Rightarrow> Some (Inl msg)
          | Inr (r, z) \<Rightarrow> do {
              (s, z) \<leftarrow> (if r < 0 then
                  map_option (\<lambda>b. (fs_close F channel s, z\<lparr>zmem := b\<rparr>)) (raw_blocks F fd s dest 0 iobuf (zmem z))
                else Some (s, z));
              let (entry, b, k) = load_image_from_memory P E dest (zmem z) k;
              Some (Inr (entry, s, z\<lparr>zmem := b\<rparr>, k))
            }
        }
      }
     }"

subsection \<open>The ramdisk\<close>

text \<open>The results of reading do not count; the blocks go to memory directly.\<close>

function ramdisk_blocks :: "'s bootfs \<Rightarrow> int \<Rightarrow> 's \<Rightarrow> u64 \<Rightarrow> int \<Rightarrow> nat \<Rightarrow> (u64 \<Rightarrow> u8) \<Rightarrow> (u64 \<Rightarrow> u8) option" where
  "ramdisk_blocks F fd s dest sz n b =
     (let at = dest + of_nat (n * IOBUF_SIZE) in
      case fs_bread F fd n (map (\<lambda>i. b (at + of_nat i)) [0..<IOBUF_SIZE]) s of None \<Rightarrow> None
      | Some (r, block) \<Rightarrow>
          let b = store_list at block b
          in if int ((n + 1) * IOBUF_SIZE) > sz then Some b else ramdisk_blocks F fd s dest sz (n + 1) b)"
  by auto
termination by (relation "measure (\<lambda>(F, fd, s, dest, sz, n, b). nat sz - n)") (auto simp: IOBUF_SIZE_def)

declare ramdisk_blocks.simps [simp del]

definition load_ramdisk_from_device ::
  "plat \<Rightarrow> u64 \<Rightarrow> 's bootfs \<Rightarrow> u8 list \<Rightarrow> 's \<Rightarrow> page_map \<Rightarrow> (u64 \<Rightarrow> u8) \<Rightarrow> ('s \<times> page_map \<times> (u64 \<Rightarrow> u8)) option" where
  "load_ramdisk_from_device P ZERO_PGE F filename s m b =
     do {
      let b = store64 (ZERO_PGE + 0x100) 0 b;
      let b = store64 (ZERO_PGE + 0x108) 0 b;
      (channel, s) \<leftarrow> fs_mount F s;
      if channel \<noteq> 0 then Some (s, m, b)
      else do {
        (fd, s) \<leftarrow> fs_open F filename s;
        if fd < 0 then Some (s, m, b)
        else do {
          let sz = fs_fdsize F fd s;
          let dest = LOADER_AT P - sz - of_nat IOBUF_SIZE;
          let pages = (ucast (drop_bit (PAGE_SHIFT P) (sz + PAGE_SIZE P - 1)) :: u32);
          let m = mark_many_pfn (ucast (PHYSICAL_TO_PFN P dest)) pages ALLOCATED_PAGE m;
          b \<leftarrow> ramdisk_blocks F fd s dest (sint sz) 0 b;
          let b = store64 (ZERO_PGE + 0x100) dest b;
          let b = store64 (ZERO_PGE + 0x108) sz b;
          Some (fs_close F channel s, m, b)
        }
      }
     }"

subsection \<open>Names of devices\<close>

definition devnames :: "string list" where
  "devnames = [''hda'', ''hdb'', ''hdc'', ''hdd'', ''sda'', ''sdb'', ''sdc'', ''sdd'', ''sde'', ''fd'', ''xda'', ''xdb'', ''sr'', ''scd'',
     ''sdf'', ''sdg'', ''sdh'', ''floppy'', ''cdrom'']"

definition devnums :: "u32 list" where
  "devnums = [0x300, 0x340, 0x1600, 0x1640, 0x800, 0x810, 0x820, 0x830, 0x840, 0x200, 0xD00, 0xD40, 0x0B00, 0x0B00,
     0x850, 0x860, 0x870, 0x200, 0x0B00]"

text \<open>\<open>atoi\<close> of \<open>lib.c\<close>: -1 for anything but digits.\<close>

fun atoi_from :: "u32 \<Rightarrow> string \<Rightarrow> u32" where
  "atoi_from v [] = v"
| "atoi_from v (c # cs) =
     (if of_char c < (48 :: nat) \<or> of_char c > (57 :: nat) then - 1 else atoi_from (v * 10 + of_nat (of_char c - 48)) cs)"

definition atoi :: "string \<Rightarrow> u32" where "atoi s = atoi_from 0 s"

definition dev_name :: "u32 \<Rightarrow> string" where
  "dev_name device =
     (let number = device AND 0xf; device = device AND 0xfff0 in
      case find (\<lambda>i. device = devnums ! i) [0..<length devnames] of
        Some i \<Rightarrow> devnames ! i @ [char_of (48 + unat number)]
      | None \<Rightarrow> ''void'')"

definition is_digit :: "char \<Rightarrow> bool" where
  "is_digit c \<longleftrightarrow> 48 \<le> (of_char c :: nat) \<and> of_char c \<le> (57 :: nat)"

text \<open>\<open>BOOT_DEV\<close> is the environment variable, \<open>MILO_BOOT_DEV\<close> the default of the configuration.\<close>

definition device_name_to_number :: "string option \<Rightarrow> string \<Rightarrow> string \<Rightarrow> u32" where
  "device_name_to_number BOOT_DEV MILO_BOOT_DEV name =
     (let name = (if name = ''disk'' \<or> name = ''disc'' then (case BOOT_DEV of Some d \<Rightarrow> d | None \<Rightarrow> MILO_BOOT_DEV) else name);
          len = length (dropWhile is_digit (rev name));
          number = (if len < length name then atoi (drop len name) else 0)
      in case find (\<lambda>i. len \<le> length (devnames ! i) \<and> take len (devnames ! i) = take len name) [0..<length devnames] of
           Some i \<Rightarrow> devnums ! i + number
         | None \<Rightarrow> - 1)"

subsection \<open>The size of memory\<close>

text \<open>
  \<open>memory_size\<close>: the environment variable, the size that the PALcode left in its impure area (\<open>None\<close> without
  its signature), and the default. \<open>atoi\<close> follows the null pointer of a variable that is not set.
\<close>

definition memory_size :: "bool \<Rightarrow> string option \<Rightarrow> u64 option \<Rightarrow> u64 option" where
  "memory_size NONAME MEMORY_SIZE impure =
     (case MEMORY_SIZE of None \<Rightarrow> None
      | Some s \<Rightarrow>
          let sz = scast (atoi s) :: u64;
              sz = (if sz > 0 then sz * 1024 * 1024 else sz);
              sz = (case impure of Some i \<Rightarrow> i | None \<Rightarrow> sz)
          in Some (if sz = 0 then if NONAME then 0x1800000 else 0x2000000 else sz))"

end
