(* ===== verification/Boot_Names.thy ===== *)
theory Boot_Names
  imports Boot_Image
begin

text \<open>Names and numbers of devices.\<close>

text \<open>The index of the device, and that of the first name that its name is a prefix of.\<close>

definition first_device :: "u32 \<Rightarrow> nat option" where
  "first_device d = find (\<lambda>i. d = devnums ! i) [0..<length devnames]"

definition first_named :: "string \<Rightarrow> nat option" where
  "first_named s = find (\<lambda>i. length s \<le> length (devnames ! i) \<and> take (length s) (devnames ! i) = s) [0..<length devnames]"

definition reads_back :: "u32 \<Rightarrow> bool" where
  "reads_back d \<longleftrightarrow> (case first_device d of None \<Rightarrow> False | Some i \<Rightarrow>
     devnames ! i \<noteq> [] \<and> \<not> is_digit (last (devnames ! i)) \<and> (case first_named (devnames ! i) of None \<Rightarrow> False | Some j \<Rightarrow> devnums ! j = d))"

lemma devices_read_back: "list_all reads_back devnums"
  by code_simp

lemma device_parts: "list_all (\<lambda>d. list_all (\<lambda>n. (d + of_nat n) AND 0xf = of_nat n \<and> (d + of_nat n) AND 0xfff0 = d) [0..<10]) devnums"
  by (simp add: devnums_def upt_rec)

lemma digit_read: "n < 10 \<Longrightarrow> is_digit (char_of (48 + n)) \<and> atoi [char_of (48 + n)] = of_nat n"
  by (simp add: is_digit_def atoi_def)

lemma number_of_named:
  assumes "s \<noteq> []" "\<not> is_digit (last s)" "is_digit c" "first_named s = Some j" "s @ [c] \<noteq> ''disk''" "s @ [c] \<noteq> ''disc''"
  shows "device_name_to_number B M (s @ [c]) = devnums ! j + atoi [c]"
proof -
  obtain t where t: "rev s = last s # t" using assms(1) by (cases s rule: rev_cases) auto
  have "dropWhile is_digit (rev (s @ [c])) = rev s" using assms(2,3) by (simp add: t)
  then have l: "length (dropWhile is_digit (rev (s @ [c]))) = length s" by (metis length_rev)
  show ?thesis unfolding device_name_to_number_def Let_def
    using assms(4) by (simp only: assms(5,6) simp_thms if_False l) (simp add: first_named_def)
qed

text \<open>The name of a device, with a partition from 0 to 9, is read back to the same number, whatever the device that
  \<open>disk\<close> stands for.\<close>

theorem device_names_read_back:
  assumes "d \<in> set devnums" "n < 10"
  shows "device_name_to_number BOOT_DEV MILO_BOOT_DEV (dev_name (d + of_nat n)) = d + of_nat n"
proof -
  have p: "(d + of_nat n) AND 0xf = of_nat n" "(d + of_nat n) AND 0xfff0 = d"
    using device_parts assms by (auto simp: list_all_iff)
  have "reads_back d" using devices_read_back assms(1) by (simp add: list_all_iff)
  then obtain i j where f: "first_device d = Some i" "devnames ! i \<noteq> []" "\<not> is_digit (last (devnames ! i))"
      "first_named (devnames ! i) = Some j" "devnums ! j = d"
    unfolding reads_back_def by (auto split: option.splits)
  have "unat (of_nat n :: u32) = n" using assms(2) by (simp add: unat_of_nat)
  then have "dev_name (d + of_nat n) = devnames ! i @ [char_of (48 + n)]"
    using f(1) p by (simp add: dev_name_def Let_def first_device_def)
  moreover have letters: "\<not> is_digit (CHR ''k'')" "\<not> is_digit (CHR ''c'')" by (simp_all add: is_digit_def)
  moreover have dg: "is_digit (char_of (48 + n))" "atoi [char_of (48 + n)] = of_nat n" using digit_read [OF assms(2)] by simp_all
  moreover have "devnames ! i @ [char_of (48 + n)] \<noteq> ''disk''" "devnames ! i @ [char_of (48 + n)] \<noteq> ''disc''"
    using dg(1) letters by auto
  ultimately show ?thesis using number_of_named [OF f(2,3) _ f(4)] f(5) by simp
qed

theorem device_names_read_back_witness:
  "dev_name 0x803 = ''sda3'' \<and> device_name_to_number None ''fd0'' (dev_name (0x800 + of_nat 3)) = 0x803"
proof
  show "dev_name 0x803 = ''sda3''" by code_simp
  have "0x800 \<in> set devnums" by (simp add: devnums_def)
  from device_names_read_back [OF this, of 3] show "device_name_to_number None ''fd0'' (dev_name (0x800 + of_nat 3)) = 0x803" by simp
qed

end
