(* ===== verification/Page_Tables.thy ===== *)
theory Page_Tables
  imports Memory
begin

text \<open>
  The page tables that \<open>boot.c\<close> builds: \<open>add_VA\<close>, with three levels of tables in page frames of the
  allocator. The entries are made and read by macros of the kernel's headers, which are the fields of
  \<open>pte_lib\<close>; \<open>ReadQ\<close> and \<open>WriteQ\<close> are loads and stores of 8 bytes.
\<close>

subsection \<open>The operations\<close>

record pte_lib =
  mk_pte :: "u64 \<Rightarrow> u64 \<Rightarrow> u64"
  pte_page :: "u64 \<Rightarrow> u64"
  PTE_VALID :: u64
  PTE_KWE :: u64
  PTE_KRE :: u64

record boot =
  bmem :: mem
  ptbr :: u64
  vptbr :: u64
  num_l2_pages :: u32
  num_l3_pages :: u32

fun load_bytes :: "nat \<Rightarrow> u64 \<Rightarrow> (u64 \<Rightarrow> u8) \<Rightarrow> u64" where
  "load_bytes 0 at b = 0"
| "load_bytes (Suc n) at b = ucast (b at) OR push_bit 8 (load_bytes n (at + 1) b)"

definition ReadQ :: "u64 \<Rightarrow> boot \<Rightarrow> u64" where
  "ReadQ at st = load_bytes 8 at (ram (bmem st))"

definition set_bytes :: "(u64 \<Rightarrow> u8) \<Rightarrow> boot \<Rightarrow> boot" where
  "set_bytes b st = st\<lparr>bmem := (bmem st)\<lparr>ram := b\<rparr>\<rparr>"

definition WriteQ :: "u64 \<Rightarrow> u64 \<Rightarrow> boot \<Rightarrow> boot" where
  "WriteQ at v st = set_bytes (store64 at v (ram (bmem st))) st"

definition phys_of_pfn :: "plat \<Rightarrow> u64 \<Rightarrow> u64" where
  "phys_of_pfn P pfn = push_bit (PAGE_SHIFT P) pfn OR PAGE_OFFSET P"

text \<open>The frame number is an \<open>int\<close> here.\<close>

definition zeropage_phys :: "plat \<Rightarrow> u64 \<Rightarrow> boot \<Rightarrow> boot" where
  "zeropage_phys P pfn st =
     set_bytes (fill (ram (bmem st)) (phys_of_pfn P (scast (ucast pfn :: u32))) (PAGE_SIZE P) 0) st"

definition build_pte :: "plat \<Rightarrow> pte_lib \<Rightarrow> u64 \<Rightarrow> u64 \<Rightarrow> u64" where
  "build_pte P L pfn prot = mk_pte L (phys_of_pfn P pfn) prot OR PTE_VALID L"

text \<open>The entry of a table at the address \<open>pa\<close>, which gets a new table when it has none.\<close>

definition next_table :: "plat \<Rightarrow> pte_lib \<Rightarrow> (boot \<Rightarrow> boot) \<Rightarrow> u64 \<Rightarrow> boot \<Rightarrow> mem_error + u64 \<times> boot" where
  "next_table P L counted pa st =
     (if ReadQ pa st = 0 then
        case allocate_pfn ALLOCATED_PAGE (frames_of (bmem st)) of
          Inl e \<Rightarrow> Inl e
        | Inr (newpfn, f) \<Rightarrow>
            let st = counted (st\<lparr>bmem := (bmem st)\<lparr>frames_of := f\<rparr>\<rparr>);
                st = zeropage_phys P (ucast newpfn) st;
                pte = build_pte P L (ucast newpfn) (PTE_KWE L OR PTE_KRE L)
            in Inr (pte, WriteQ pa pte st)
      else Inr (ReadQ pa st, st))"

definition l2_offset :: "u64 \<Rightarrow> u64" where "l2_offset va = drop_bit 20 (va AND 0xff800000)"
definition l3_offset :: "u64 \<Rightarrow> u64" where "l3_offset va = drop_bit 10 (va AND 0x007fe000)"

definition pfn_of_pte :: "plat \<Rightarrow> pte_lib \<Rightarrow> u64 \<Rightarrow> u64" where
  "pfn_of_pte P L pte = PHYSICAL_TO_PFN P (pte_page L pte)"

definition add_VA :: "plat \<Rightarrow> pte_lib \<Rightarrow> u64 \<Rightarrow> u32 \<Rightarrow> u32 \<Rightarrow> boot \<Rightarrow> mem_error + boot" where
  "add_VA P L va vpfn protection st =
     (case next_table P L (\<lambda>s. s\<lparr>num_l2_pages := num_l2_pages s + 1\<rparr>) (phys_of_pfn P (ptbr st) + 0) st of
        Inl e \<Rightarrow> Inl e
      | Inr (pte, st) \<Rightarrow>
          (case next_table P L (\<lambda>s. s\<lparr>num_l3_pages := num_l3_pages s + 1\<rparr>)
                  (phys_of_pfn P (pfn_of_pte P L pte) + l2_offset va) st of
             Inl e \<Rightarrow> Inl e
           | Inr (pte, st) \<Rightarrow>
               let pa = phys_of_pfn P (pfn_of_pte P L pte) + l3_offset va
               in Inr (if ReadQ pa st = 0 then WriteQ pa (build_pte P L (ucast vpfn) (ucast protection)) st else st)))"

text \<open>The tables start with one frame, whose last entry is the frame itself.\<close>

definition build_mm :: "plat \<Rightarrow> pte_lib \<Rightarrow> u64 \<Rightarrow> boot \<Rightarrow> boot" where
  "build_mm P L SWAPPER_PGD st =
     (let st = st\<lparr>ptbr := PHYSICAL_TO_PFN P SWAPPER_PGD\<rparr>;
          st = zeropage_phys P (ptbr st) st;
          st = st\<lparr>vptbr := 0xfffffffe00000000\<rparr>;
          pte = build_pte P L (ptbr st) (PTE_KWE L OR PTE_KRE L)
      in WriteQ (phys_of_pfn P (ptbr st) + 8 * 0x3ff) pte st)"

subsection \<open>Quads in frames\<close>

lemma bit_load_bytes:
  "bit (load_bytes n at b) i \<longleftrightarrow> i < 64 \<and> i < 8 * n \<and> bit (b (at + of_nat (i div 8))) (i mod 8)"
proof (induction n arbitrary: at i)
  case (Suc n)
  show ?case
  proof (cases "i < 8")
    case True
    then show ?thesis by (auto simp: bit_simps simp del: push_bit_numeral)
  next
    case False
    then obtain j where j: "i = j + 8" by (metis add.commute le_Suc_ex not_less)
    moreover have "(j + 8) div 8 = Suc (j div 8)" "(j + 8) mod 8 = j mod 8" by simp_all
    moreover have "\<not> bit (b at) i" using False by (auto dest: bit_imp_le_length)
    ultimately show ?thesis using Suc [of "at + 1" j]
      by (auto simp: bit_simps add.assoc simp del: push_bit_numeral)
  qed
qed simp

lemma kseg_diff:
  assumes "x < 2 ^ 43" "y < 2 ^ 43"
  shows "unat (kseg P x - kseg P y) = (if y \<le> x then x - y else 2 ^ 64 - (y - x))"
proof (cases "y \<le> x")
  case True
  then have e: "kseg P x - kseg P y = of_nat (x - y)" by (simp add: kseg_def of_nat_diff)
  have "unat (of_nat (x - y) :: u64) = x - y" by (rule unat_of_nat_small) (use assms in simp)
  then show ?thesis unfolding e using True by simp
next
  case False
  let ?d = "of_nat (y - x) :: u64"
  have e: "kseg P x - kseg P y = - ?d" using False by (simp add: kseg_def of_nat_diff)
  have d: "unat ?d = y - x" by (rule unat_of_nat_small) (use assms in simp)
  have "(unat (- ?d) + unat ?d) mod 2 ^ 64 = unat (- ?d + ?d)" by (simp only: unat_word_ariths) simp
  then have "2 ^ 64 dvd unat (- ?d) + unat ?d" by (simp add: dvd_eq_mod_eq_0)
  then obtain k where k: "unat (- ?d) + unat ?d = 2 ^ 64 * k" by blast
  have u: "unat (- ?d) < 2 ^ 64" using unsigned_less [of "- ?d", where 'a = nat] by simp
  have "k \<noteq> 0" using k d False by (intro notI) simp
  moreover have "2 ^ 64 * k < 2 ^ 64 * (2 :: nat)" unfolding k [symmetric] d using u assms by simp
  then have "k < 2" by simp
  ultimately have "k = 1" by simp
  then have "unat (- ?d) = 2 ^ 64 - (y - x)" using k d by simp
  then show ?thesis using False e by simp
qed

lemma store_at:
  assumes "x < 2 ^ 43" "y < 2 ^ 43"
  shows "store64 (kseg P y) v b (kseg P x) = (if y \<le> x \<and> x < y + 8 then ucast (drop_bit (8 * (x - y)) v) else b (kseg P x))"
proof -
  have "kseg P x - kseg P y < 8 \<longleftrightarrow> unat (kseg P x - kseg P y) < 8" by (simp add: word_less_nat_alt)
  then show ?thesis using kseg_diff [OF assms, of P] assms by (auto simp: store64_def)
qed

lemma fill_at:
  assumes "x < 2 ^ 43" "y < 2 ^ 43"
  shows "fill b (kseg P y) sz c (kseg P x) = (if y \<le> x \<and> x < y + unat sz \<or> x < y \<and> 2 ^ 64 - (y - x) < unat sz then c else b (kseg P x))"
  using kseg_diff [OF assms, of P] by (auto simp: fill_def word_less_nat_alt)

text \<open>Quads at aligned addresses are cells.\<close>

lemma ReadQ_WriteQ:
  assumes "x < 2 ^ 42" "y < 2 ^ 42" "8 dvd x" "8 dvd y"
  shows "ReadQ (kseg P x) (WriteQ (kseg P y) v st) = (if x = y then v else ReadQ (kseg P x) st)"
proof (rule bit_word_eqI)
  fix n assume n: "n < LENGTH(64)"
  then have k: "n div 8 < 8" by simp
  have a: "kseg P x + of_nat (n div 8) = kseg P (x + n div 8)" by (rule kseg_add)
  have s: "store64 (kseg P y) v b (kseg P (x + n div 8)) =
      (if y \<le> x + n div 8 \<and> x + n div 8 < y + 8 then ucast (drop_bit (8 * (x + n div 8 - y)) v) else b (kseg P (x + n div 8)))" for b
    by (rule store_at) (use assms k in simp_all)
  have same: "y \<le> x + n div 8 \<and> x + n div 8 < y + 8 \<longleftrightarrow> x = y" using assms(3,4) k by (auto elim!: dvdE)
  have "8 * (n div 8) + n mod 8 = n" by simp
  then show "bit (ReadQ (kseg P x) (WriteQ (kseg P y) v st)) n = bit (if x = y then v else ReadQ (kseg P x) st) n"
    using n by (auto simp: ReadQ_def WriteQ_def set_bytes_def bit_load_bytes a s same bit_simps)
qed

lemma phys_kseg:
  assumes "wf_plat P" "PAGE_SHIFT P = 13" "f < 2 ^ 28"
  shows "phys_of_pfn P (of_nat f) = kseg P (f * 8192)"
proof -
  have "push_bit 13 (of_nat f :: u64) = of_nat (f * 8192)" by (simp add: push_bit_eq_mult)
  then show ?thesis using kseg_or [OF assms(1), of "f * 8192"] assms(2,3) by (simp add: phys_of_pfn_def del: push_bit_numeral)
qed

lemma phys_kseg_unat:
  assumes "wf_plat P" "PAGE_SHIFT P = 13" "unat w < 2 ^ 28"
  shows "phys_of_pfn P w = kseg P (unat w * 8192)"
  using phys_kseg [OF assms] by simp

lemma scast_small: "f < 2 ^ 28 \<Longrightarrow> (scast (ucast (of_nat f :: u64) :: u32) :: u64) = of_nat f"
proof (rule bit_word_eqI)
  fix n assume f: "f < 2 ^ 28" and n: "n < LENGTH(64)"
  have hi: "\<not> bit f k" if "28 \<le> k" for k
  proof -
    have "f < 2 ^ k" using f that by (meson less_le_trans one_le_numeral power_increasing)
    then show ?thesis by (simp add: bit_iff_odd)
  qed
  show "bit (scast (ucast (of_nat f :: u64) :: u32) :: u64) n = bit (of_nat f :: u64) n"
    using n hi by (auto simp: bit_simps min_def)
qed

lemma ReadQ_zeropage:
  assumes "wf_plat P" "PAGE_SHIFT P = 13" "f < 2 ^ 28" "g < 2 ^ 28" "j < 1024"
  shows "ReadQ (kseg P (f * 8192 + 8 * j)) (zeropage_phys P (of_nat g) st) =
    (if f = g then 0 else ReadQ (kseg P (f * 8192 + 8 * j)) st)"
proof (rule bit_word_eqI)
  fix n assume n: "n < LENGTH(64)"
  let ?x = "f * 8192 + 8 * j + n div 8"
  have x: "?x < 2 ^ 43" "g * 8192 < 2 ^ 43" "8 * j + n div 8 < 8192" using assms(3-5) n by simp_all
  have pg: "unat (PAGE_SIZE P) = 8192" by (simp add: PAGE_SIZE_def assms(2))
  have "fill b (kseg P (g * 8192)) (PAGE_SIZE P) 0 (kseg P ?x) = (if f = g then 0 else b (kseg P ?x))" for b
  proof -
    have "g * 8192 \<le> ?x \<and> ?x < g * 8192 + 8192 \<longleftrightarrow> f = g"
    proof
      assume "g * 8192 \<le> ?x \<and> ?x < g * 8192 + 8192"
      then have "?x div 8192 = g" by (auto intro!: div_nat_eqI)
      moreover have "?x div 8192 = f" using x(3) by (intro div_nat_eqI) auto
      ultimately show "f = g" by simp
    qed (use x(3) in auto)
    then show ?thesis using fill_at [OF x(1,2), of b P "PAGE_SIZE P" 0] x(2) unfolding pg by auto
  qed
  moreover have "zeropage_phys P (of_nat g) st = set_bytes (fill (ram (bmem st)) (kseg P (g * 8192)) (PAGE_SIZE P) 0) st"
    using phys_kseg [OF assms(1,2,4)] scast_small [OF assms(4)] by (simp add: zeropage_phys_def)
  moreover have "kseg P (f * 8192 + 8 * j) + of_nat (n div 8) = kseg P ?x" by (simp add: kseg_add)
  ultimately show "bit (ReadQ (kseg P (f * 8192 + 8 * j)) (zeropage_phys P (of_nat g) st)) n =
      bit (if f = g then 0 else ReadQ (kseg P (f * 8192 + 8 * j)) st) n"
    using n by (auto simp: ReadQ_def set_bytes_def bit_load_bytes)
qed

definition rd :: "plat \<Rightarrow> boot \<Rightarrow> nat \<Rightarrow> nat \<Rightarrow> u64" where
  "rd P st f j = ReadQ (kseg P (f * 8192 + 8 * j)) st"

lemma cell_eq: "f * 8192 + 8 * j = g * 8192 + 8 * k \<longleftrightarrow> f = g \<and> j = k" if "j < 1024" "k < (1024 :: nat)"
proof
  assume e: "f * 8192 + 8 * j = g * 8192 + 8 * k"
  have "(f * 8192 + 8 * j) div 8192 = f" using that by (intro div_nat_eqI) auto
  moreover have "(g * 8192 + 8 * k) div 8192 = g" using that by (intro div_nat_eqI) auto
  ultimately have "f = g" using e by simp
  then show "f = g \<and> j = k" using e by simp
qed simp

lemma rd_write:
  assumes "f < 2 ^ 28" "g < 2 ^ 28" "j < 1024" "k < 1024"
  shows "rd P (WriteQ (kseg P (g * 8192 + 8 * k)) v st) f j = (if f = g \<and> j = k then v else rd P st f j)"
  unfolding rd_def cell_eq [OF assms(3,4), symmetric]
  by (rule ReadQ_WriteQ) (use assms in auto)

lemma rd_zeropage:
  assumes "wf_plat P" "PAGE_SHIFT P = 13" "f < 2 ^ 28" "g < 2 ^ 28" "j < 1024"
  shows "rd P (zeropage_phys P (of_nat g) st) f j = (if f = g then 0 else rd P st f j)"
  unfolding rd_def by (rule ReadQ_zeropage [OF assms])

subsection \<open>The offsets of an address\<close>

definition l2_index :: "u64 \<Rightarrow> nat" where "l2_index va = unat va div 2 ^ 23 mod 512"
definition l3_index :: "u64 \<Rightarrow> nat" where "l3_index va = unat va div 2 ^ 13 mod 1024"

lemma index_bounds: "l2_index va < 512" "l3_index va < 1024"
  by (simp_all add: l2_index_def l3_index_def)

lemma of_nat_unat_self: "of_nat (unat w) = w" for w :: "'a::len word"
  by simp

lemma offsets_index: "l2_offset va = of_nat (8 * l2_index va)" "l3_offset va = of_nat (8 * l3_index va)"
proof -
  have m: "0xff800000 = (push_bit 23 (mask 9) :: u64)" "0x007fe000 = (push_bit 13 (mask 10) :: u64)"
    by (simp_all add: mask_eq_exp_minus_1)
  have "l2_offset va = push_bit 3 (take_bit 9 (drop_bit 23 va))" unfolding l2_offset_def m
    by (rule bit_word_eqI) (auto simp: bit_simps simp del: push_bit_numeral)
  also have "take_bit 9 (drop_bit 23 va) = of_nat (l2_index va)"
  proof -
    have "unat (take_bit 9 (drop_bit 23 va)) = l2_index va" unfolding unsigned_take_bit_eq unat_drop_bit by (simp add: take_bit_eq_mod l2_index_def)
    from arg_cong [OF this, of "of_nat :: nat \<Rightarrow> u64"] show ?thesis by (simp only: of_nat_unat_self)
  qed
  finally show "l2_offset va = of_nat (8 * l2_index va)" by (simp add: push_bit_eq_mult mult.commute)
  have "l3_offset va = push_bit 3 (take_bit 10 (drop_bit 13 va))" unfolding l3_offset_def m
    by (rule bit_word_eqI) (auto simp: bit_simps simp del: push_bit_numeral)
  also have "take_bit 10 (drop_bit 13 va) = of_nat (l3_index va)"
  proof -
    have "unat (take_bit 10 (drop_bit 13 va)) = l3_index va" unfolding unsigned_take_bit_eq unat_drop_bit by (simp add: take_bit_eq_mod l3_index_def)
    from arg_cong [OF this, of "of_nat :: nat \<Rightarrow> u64"] show ?thesis by (simp only: of_nat_unat_self)
  qed
  finally show "l3_offset va = of_nat (8 * l3_index va)" by (simp add: push_bit_eq_mult mult.commute)
qed

subsection \<open>The tables as a map\<close>

text \<open>What the headers' macros promise: an entry gives back its frame, and a valid entry is not 0.\<close>

definition pte_laws :: "plat \<Rightarrow> pte_lib \<Rightarrow> bool" where
  "pte_laws P L \<longleftrightarrow> PTE_VALID L \<noteq> 0 \<and> unat (PTE_KWE L OR PTE_KRE L) < 2 ^ 32 \<and>
     (\<forall>pfn prot. unat pfn < 2 ^ 28 \<longrightarrow> unat prot < 2 ^ 32 \<longrightarrow> pfn_of_pte P L (build_pte P L pfn prot) = pfn)"

definition frame_of :: "plat \<Rightarrow> pte_lib \<Rightarrow> u64 \<Rightarrow> nat" where "frame_of P L e = unat (pfn_of_pte P L e)"

definition entry1 :: "plat \<Rightarrow> boot \<Rightarrow> u64" where "entry1 P st = rd P st (unat (ptbr st)) 0"

definition entry2 :: "plat \<Rightarrow> pte_lib \<Rightarrow> boot \<Rightarrow> nat \<Rightarrow> u64" where
  "entry2 P L st i = (if entry1 P st = 0 then 0 else rd P st (frame_of P L (entry1 P st)) i)"

text \<open>The entry that the hardware finds for an address, 0 for none.\<close>

definition walk_entry :: "plat \<Rightarrow> pte_lib \<Rightarrow> boot \<Rightarrow> nat \<Rightarrow> nat \<Rightarrow> u64" where
  "walk_entry P L st i j = (if entry2 P L st i = 0 then 0 else rd P st (frame_of P L (entry2 P L st i)) j)"

definition walk :: "plat \<Rightarrow> pte_lib \<Rightarrow> boot \<Rightarrow> u64 \<Rightarrow> u64" where
  "walk P L st va = walk_entry P L st (l2_index va) (l3_index va)"

definition boot_marks :: "boot \<Rightarrow> nat \<Rightarrow> u8" where "boot_marks st = milo_memory_map (frames_of (bmem st))"

text \<open>The frames of the tables are a tree, none of them is free.\<close>

definition table_frames :: "plat \<Rightarrow> pte_lib \<Rightarrow> boot \<Rightarrow> nat set" where
  "table_frames P L st = {unat (ptbr st)} \<union> (if entry1 P st = 0 then {} else {frame_of P L (entry1 P st)}) \<union>
     {frame_of P L (entry2 P L st i) |i. i < 512 \<and> entry2 P L st i \<noteq> 0}"

definition tables_ok :: "plat \<Rightarrow> pte_lib \<Rightarrow> boot \<Rightarrow> bool" where
  "tables_ok P L st \<longleftrightarrow> unat (lastpfn (frames_of (bmem st)) + 1) \<le> 2 ^ 28 \<and>
     (\<forall>f\<in>table_frames P L st. f < 2 ^ 28 \<and> boot_marks st f \<noteq> FREE_PAGE) \<and>
     (entry1 P st \<noteq> 0 \<longrightarrow> frame_of P L (entry1 P st) \<noteq> unat (ptbr st)) \<and>
     (\<forall>i<512. entry2 P L st i \<noteq> 0 \<longrightarrow> frame_of P L (entry2 P L st i) \<noteq> unat (ptbr st) \<and>
        frame_of P L (entry2 P L st i) \<noteq> frame_of P L (entry1 P st)) \<and>
     (\<forall>i<512. \<forall>j<512. entry2 P L st i \<noteq> 0 \<longrightarrow> entry2 P L st j \<noteq> 0 \<longrightarrow>
        frame_of P L (entry2 P L st i) = frame_of P L (entry2 P L st j) \<longrightarrow> i = j)"

lemma allocate_pfn_free:
  assumes "allocate_pfn ty m = Inr (pfn, m')"
  shows "milo_memory_map m (unat pfn) = FREE_PAGE \<and> unat pfn < unat (lastpfn m + 1) \<and>
    m' = m\<lparr>milo_memory_map := (milo_memory_map m)(unat pfn := ty)\<rparr>"
proof -
  obtain p where p: "find (\<lambda>p. milo_memory_map m p = FREE_PAGE) [0..<unat (lastpfn m + 1)] = Some p"
      "pfn = of_nat p" "m' = m\<lparr>milo_memory_map := (milo_memory_map m)(p := ty)\<rparr>"
    using assms by (auto simp: allocate_pfn_def split: option.splits)
  then have "p < unat (lastpfn m + 1)" "milo_memory_map m p = FREE_PAGE" by (auto simp: find_Some_iff)
  moreover have "unat (lastpfn m + 1) < 2 ^ 32" using unsigned_less [of "lastpfn m + 1", where 'a = nat] by simp
  ultimately have "unat pfn = p" unfolding p(2) by (intro unat_of_nat_small) simp
  then show ?thesis using p \<open>p < _\<close> \<open>milo_memory_map m p = FREE_PAGE\<close> by simp
qed

text \<open>A level of the tables: it has its entry, or it gets a table in a free frame, with no entries.\<close>

lemma next_table_old: "rd P st f j \<noteq> 0 \<Longrightarrow> next_table P L c (kseg P (f * 8192 + 8 * j)) st = Inr (rd P st f j, st)"
  by (simp add: next_table_def rd_def)

lemma next_table_new:
  assumes "wf_plat P" "PAGE_SHIFT P = 13" "pte_laws P L" "unat (lastpfn (frames_of (bmem st)) + 1) \<le> 2 ^ 28"
    and "f < 2 ^ 28" "j < 1024" "rd P st f j = 0" "boot_marks st f \<noteq> FREE_PAGE"
    and "\<And>s. bmem (c s) = bmem s" "\<And>s. ptbr (c s) = ptbr s"
    and "next_table P L c (kseg P (f * 8192 + 8 * j)) st = Inr (pte, st')"
  shows "\<exists>p < 2 ^ 28. boot_marks st p = FREE_PAGE \<and> p \<noteq> f \<and> frame_of P L pte = p \<and> pte \<noteq> 0 \<and>
    (\<forall>g<2 ^ 28. \<forall>k<1024. rd P st' g k = (if g = f \<and> k = j then pte else if g = p then 0 else rd P st g k)) \<and>
    boot_marks st' = (boot_marks st)(p := ALLOCATED_PAGE) \<and> ptbr st' = ptbr st \<and>
    lastpfn (frames_of (bmem st')) = lastpfn (frames_of (bmem st))"
proof -
  obtain pfn fr where al: "allocate_pfn ALLOCATED_PAGE (frames_of (bmem st)) = Inr (pfn, fr)"
    using assms(7,11) by (auto simp: next_table_def rd_def split: sum.splits)
  let ?p = "unat pfn"
  have p: "boot_marks st ?p = FREE_PAGE" "?p < 2 ^ 28"
      "fr = (frames_of (bmem st))\<lparr>milo_memory_map := (boot_marks st)(?p := ALLOCATED_PAGE)\<rparr>"
    using allocate_pfn_free [OF al] assms(4) by (simp_all add: boot_marks_def)
  have w: "(ucast pfn :: u64) = of_nat ?p" by (simp add: of_nat_unat_ucast)
  let ?st1 = "c (st\<lparr>bmem := (bmem st)\<lparr>frames_of := fr\<rparr>\<rparr>)"
  let ?st2 = "zeropage_phys P (of_nat ?p) ?st1"
  have pte: "pte = build_pte P L (of_nat ?p) (PTE_KWE L OR PTE_KRE L)"
    and st': "st' = WriteQ (kseg P (f * 8192 + 8 * j)) pte ?st2"
    using assms(7,11) al unfolding next_table_def rd_def w [symmetric] by (auto simp: Let_def)
  have "frame_of P L pte = ?p"
  proof -
    have "unat (of_nat ?p :: u64) = ?p" by (rule unat_of_nat_small) (use p(2) in simp)
    moreover have "pfn_of_pte P L pte = of_nat ?p" using assms(3) p(2) calculation unfolding pte pte_laws_def by metis
    ultimately show ?thesis by (simp only: frame_of_def)
  qed
  moreover have "pte \<noteq> 0" using assms(3) by (auto simp: pte build_pte_def pte_laws_def or_eq_0_iff)
  moreover have "rd P st' g k = (if g = f \<and> k = j then pte else if g = ?p then 0 else rd P st g k)" if "g < 2 ^ 28" "k < 1024" for g k
  proof -
    have "rd P ?st1 g k = rd P st g k" by (simp add: rd_def ReadQ_def assms(9))
    then show ?thesis unfolding st' rd_write [OF that(1) assms(5) that(2) assms(6)]
      rd_zeropage [OF assms(1,2) that(1) p(2) that(2)] by simp
  qed
  moreover have "boot_marks st' = (boot_marks st)(?p := ALLOCATED_PAGE)" "ptbr st' = ptbr st"
      "lastpfn (frames_of (bmem st')) = lastpfn (frames_of (bmem st))"
    by (simp_all add: st' WriteQ_def set_bytes_def zeropage_phys_def boot_marks_def assms(9,10) p(3))
  moreover have "?p \<noteq> f" using p(1) assms(8) by auto
  ultimately show ?thesis using p(1,2) by blast
qed

text \<open>Nothing but tables changes, and no table is given away.\<close>

definition extends :: "plat \<Rightarrow> pte_lib \<Rightarrow> boot \<Rightarrow> boot \<Rightarrow> bool" where
  "extends P L st st' \<longleftrightarrow> tables_ok P L st' \<and> ptbr st' = ptbr st \<and> table_frames P L st \<subseteq> table_frames P L st' \<and>
     (\<forall>g<2 ^ 28. g \<notin> table_frames P L st' \<longrightarrow> (\<forall>k<1024. rd P st' g k = rd P st g k)) \<and>
     (\<forall>f. boot_marks st f \<noteq> FREE_PAGE \<longrightarrow> boot_marks st' f = boot_marks st f)"

lemma extends_refl: "tables_ok P L st \<Longrightarrow> extends P L st st"
  by (simp add: extends_def)

lemma extends_trans: "extends P L a b \<Longrightarrow> extends P L b c \<Longrightarrow> extends P L a c"
  unfolding extends_def by (metis (no_types, lifting) subset_iff)

lemma table_loc:
  assumes "wf_plat P" "PAGE_SHIFT P = 13" "unat w < 2 ^ 28"
  shows "phys_of_pfn P w + of_nat (8 * i) = kseg P (unat w * 8192 + 8 * i)"
  unfolding phys_kseg_unat [OF assms] by (rule kseg_add)

lemma table_bounds:
  assumes "tables_ok P L st"
  shows "unat (ptbr st) < 2 ^ 28" "boot_marks st (unat (ptbr st)) \<noteq> FREE_PAGE"
    and "entry1 P st \<noteq> 0 \<Longrightarrow> frame_of P L (entry1 P st) < 2 ^ 28 \<and> boot_marks st (frame_of P L (entry1 P st)) \<noteq> FREE_PAGE"
    and "i < 512 \<Longrightarrow> entry2 P L st i \<noteq> 0 \<Longrightarrow> frame_of P L (entry2 P L st i) < 2 ^ 28 \<and> boot_marks st (frame_of P L (entry2 P L st i)) \<noteq> FREE_PAGE"
  using assms unfolding tables_ok_def table_frames_def by auto

lemma level1:
  assumes P: "wf_plat P" "PAGE_SHIFT P = 13" "pte_laws P L" and ok: "tables_ok P L st"
    and c: "\<And>s. bmem (c s) = bmem s" "\<And>s. ptbr (c s) = ptbr s"
    and step: "next_table P L c (phys_of_pfn P (ptbr st) + 0) st = Inr (pte, st')"
  shows "extends P L st st' \<and> entry1 P st' = pte \<and> pte \<noteq> 0 \<and> (\<forall>i<512. entry2 P L st' i = entry2 P L st i) \<and>
    (\<forall>i<512. \<forall>j<1024. walk_entry P L st' i j = walk_entry P L st i j)"
proof (cases "entry1 P st = 0")
  case False
  then have "pte = entry1 P st" "st' = st"
    using step next_table_old [of P st "unat (ptbr st)" 0 L c] table_loc [OF P(1,2) table_bounds(1) [OF ok], of 0]
    by (auto simp: entry1_def)
  then show ?thesis using False extends_refl [OF ok] by simp
next
  case True
  let ?f = "unat (ptbr st)"
  have zero: "rd P st ?f 0 = 0" using True by (simp add: entry1_def)
  have st: "next_table P L c (kseg P (?f * 8192 + 8 * 0)) st = Inr (pte, st')"
    using step table_loc [OF P(1,2) table_bounds(1) [OF ok], of 0] by simp
  have last: "unat (lastpfn (frames_of (bmem st)) + 1) \<le> 2 ^ 28" using ok by (simp add: tables_ok_def)
  obtain p where p: "p < 2 ^ 28" "boot_marks st p = FREE_PAGE" "p \<noteq> ?f" "frame_of P L pte = p" "pte \<noteq> 0"
      "\<forall>g<2 ^ 28. \<forall>k<1024. rd P st' g k = (if g = ?f \<and> k = 0 then pte else if g = p then 0 else rd P st g k)"
      "boot_marks st' = (boot_marks st)(p := ALLOCATED_PAGE)" "ptbr st' = ptbr st"
      "lastpfn (frames_of (bmem st')) = lastpfn (frames_of (bmem st))"
    using next_table_new [OF P last table_bounds(1) [OF ok] _ zero table_bounds(2) [OF ok] c st] by fastforce
  have e1: "entry1 P st' = pte" using p(6,8) table_bounds(1) [OF ok] by (simp add: entry1_def)
  have e2: "entry2 P L st' i = 0" if "i < 512" for i using that p by (simp add: entry2_def e1)
  have old: "entry2 P L st i = 0" for i using True by (simp add: entry2_def)
  have tf: "table_frames P L st = {?f}" using True old by (simp add: table_frames_def)
  have tf': "table_frames P L st' = {?f, p}" using e1 e2 p(4,5,8) by (auto simp: table_frames_def)
  have "tables_ok P L st'"
    unfolding tables_ok_def tf' using e1 e2 p table_bounds(1,2) [OF ok] last by simp
  moreover have "\<forall>g<2 ^ 28. g \<notin> table_frames P L st' \<longrightarrow> (\<forall>k<1024. rd P st' g k = rd P st g k)"
    using p(6) unfolding tf' by simp
  ultimately have "extends P L st st'" using p(2,7,8) tf tf' by (auto simp: extends_def)
  then show ?thesis using e1 p(5) e2 old by (simp add: walk_entry_def)
qed

lemma level2:
  assumes P: "wf_plat P" "PAGE_SHIFT P = 13" "pte_laws P L" and ok: "tables_ok P L st"
    and c: "\<And>s. bmem (c s) = bmem s" "\<And>s. ptbr (c s) = ptbr s"
    and i: "i < 512" "entry1 P st \<noteq> 0"
    and step: "next_table P L c (phys_of_pfn P (pfn_of_pte P L (entry1 P st)) + of_nat (8 * i)) st = Inr (pte, st')"
  shows "extends P L st st' \<and> entry2 P L st' i = pte \<and> pte \<noteq> 0 \<and>
    (\<forall>i<512. \<forall>j<1024. walk_entry P L st' i j = walk_entry P L st i j)"
proof -
  let ?f = "frame_of P L (entry1 P st)"
  have f: "?f < 2 ^ 28" "boot_marks st ?f \<noteq> FREE_PAGE" "?f \<noteq> unat (ptbr st)"
    using table_bounds(3) [OF ok i(2)] ok i(2) by (simp_all add: tables_ok_def)
  have loc: "phys_of_pfn P (pfn_of_pte P L (entry1 P st)) + of_nat (8 * i) = kseg P (?f * 8192 + 8 * i)"
    using table_loc [OF P(1,2), of "pfn_of_pte P L (entry1 P st)" i] f(1) by (simp add: frame_of_def)
  have e: "entry2 P L st k = rd P st ?f k" for k using i(2) by (simp add: entry2_def)
  have j: "i < 1024" using i(1) by simp
  show ?thesis
  proof (cases "entry2 P L st i = 0")
    case False
    then have "pte = entry2 P L st i" "st' = st" using step next_table_old [of P st ?f i L c] unfolding loc e by auto
    then show ?thesis using False extends_refl [OF ok] by simp
  next
    case True
    have last: "unat (lastpfn (frames_of (bmem st)) + 1) \<le> 2 ^ 28" using ok by (simp add: tables_ok_def)
    obtain p where p: "p < 2 ^ 28" "boot_marks st p = FREE_PAGE" "p \<noteq> ?f" "frame_of P L pte = p" "pte \<noteq> 0"
        "\<forall>g<2 ^ 28. \<forall>k<1024. rd P st' g k = (if g = ?f \<and> k = i then pte else if g = p then 0 else rd P st g k)"
        "boot_marks st' = (boot_marks st)(p := ALLOCATED_PAGE)" "ptbr st' = ptbr st"
        "lastpfn (frames_of (bmem st')) = lastpfn (frames_of (bmem st))"
      using next_table_new [OF P last f(1) j _ f(2) c step [unfolded loc]] True unfolding e by blast
    have pt: "p \<noteq> unat (ptbr st)" using p(2) table_bounds(2) [OF ok] by auto
    have e1: "entry1 P st' = entry1 P st"
      using p(6,8) table_bounds(1) [OF ok] f(3) pt by (simp add: entry1_def)
    have e2: "entry2 P L st' k = (if k = i then pte else entry2 P L st k)" if "k < 512" for k
      using that p(3,6) f(1) i(2) by (simp add: entry2_def e1)
    have new: "entry2 P L st k \<noteq> 0 \<Longrightarrow> frame_of P L (entry2 P L st k) \<noteq> p" if "k < 512" for k
      using table_bounds(4) [OF ok that] p(2) by auto
    have tf': "table_frames P L st' = insert p (table_frames P L st)"
      unfolding table_frames_def e1 p(8) using i e2 True p(4,5) by (auto split: if_splits) (metis e2)+
    have "tables_ok P L st'"
      unfolding tables_ok_def tf'
    proof (intro conjI)
      show "unat (lastpfn (frames_of (bmem st')) + 1) \<le> 2 ^ 28" using last p(9) by simp
      show "\<forall>f\<in>insert p (table_frames P L st). f < 2 ^ 28 \<and> boot_marks st' f \<noteq> FREE_PAGE"
        using ok p(1,7) by (simp add: tables_ok_def)
      show "entry1 P st' \<noteq> 0 \<longrightarrow> frame_of P L (entry1 P st') \<noteq> unat (ptbr st')" using f(3) e1 p(8) by simp
      show "\<forall>k<512. entry2 P L st' k \<noteq> 0 \<longrightarrow> frame_of P L (entry2 P L st' k) \<noteq> unat (ptbr st') \<and>
          frame_of P L (entry2 P L st' k) \<noteq> frame_of P L (entry1 P st')"
        using ok e2 p(3,4,8) pt e1 by (simp add: tables_ok_def)
      show "\<forall>a<512. \<forall>b<512. entry2 P L st' a \<noteq> 0 \<longrightarrow> entry2 P L st' b \<noteq> 0 \<longrightarrow>
          frame_of P L (entry2 P L st' a) = frame_of P L (entry2 P L st' b) \<longrightarrow> a = b"
        using ok e2 p(4) new unfolding tables_ok_def by (metis (no_types, lifting))
    qed
    moreover have "\<forall>g<2 ^ 28. g \<notin> table_frames P L st' \<longrightarrow> (\<forall>k<1024. rd P st' g k = rd P st g k)"
      using p(6) i(2) unfolding tf' by (auto simp: table_frames_def)
    ultimately have ext: "extends P L st st'" using p(2,7,8) tf' by (auto simp: extends_def)
    have "walk_entry P L st' a b = walk_entry P L st a b" if "a < 512" "b < 1024" for a b
    proof (cases "a = i")
      case True
      then show ?thesis using e2 [OF that(1)] p(1,3,4,5,6) that(2) \<open>entry2 P L st i = 0\<close> by (simp add: walk_entry_def)
    next
      case False
      have "rd P st' (frame_of P L (entry2 P L st a)) b = rd P st (frame_of P L (entry2 P L st a)) b" if "entry2 P L st a \<noteq> 0"
      proof -
        have "frame_of P L (entry2 P L st a) \<noteq> ?f" using ok \<open>a < 512\<close> that by (simp add: tables_ok_def)
        then show ?thesis using p(6) table_bounds(4) [OF ok \<open>a < 512\<close> that] new [OF \<open>a < 512\<close> that] \<open>b < 1024\<close> by simp
      qed
      then show ?thesis using False e2 [OF that(1)] by (simp add: walk_entry_def)
    qed
    then show ?thesis using ext e2 [OF i(1)] p(5) by simp
  qed
qed

lemma level3:
  assumes P: "wf_plat P" "PAGE_SHIFT P = 13" and ok: "tables_ok P L st"
    and i: "i < 512" "j < 1024" "entry1 P st \<noteq> 0" "entry2 P L st i \<noteq> 0"
    and st': "st' = WriteQ (phys_of_pfn P (pfn_of_pte P L (entry2 P L st i)) + of_nat (8 * j)) v st"
  shows "extends P L st st' \<and>
    (\<forall>a<512. \<forall>b<1024. walk_entry P L st' a b = (if a = i \<and> b = j then v else walk_entry P L st a b))"
proof -
  let ?f = "frame_of P L (entry2 P L st i)"
  have f: "?f < 2 ^ 28" "?f \<noteq> unat (ptbr st)" "?f \<noteq> frame_of P L (entry1 P st)"
    using table_bounds(4) [OF ok i(1,4)] ok i by (simp_all add: tables_ok_def)
  have loc: "phys_of_pfn P (pfn_of_pte P L (entry2 P L st i)) + of_nat (8 * j) = kseg P (?f * 8192 + 8 * j)"
    using table_loc [OF P, of "pfn_of_pte P L (entry2 P L st i)" j] f(1) by (simp add: frame_of_def)
  have rd: "rd P st' g k = (if g = ?f \<and> k = j then v else rd P st g k)" if "g < 2 ^ 28" "k < 1024" for g k
    unfolding st' loc by (rule rd_write) (use that f(1) i(2) in simp_all)
  have same: "ptbr st' = ptbr st" "frames_of (bmem st') = frames_of (bmem st)"
    by (simp_all add: st' WriteQ_def set_bytes_def)
  have e1: "entry1 P st' = entry1 P st" using rd table_bounds(1) [OF ok] f(2) by (simp add: entry1_def same)
  have e2: "entry2 P L st' k = entry2 P L st k" if "k < 512" for k
    using rd table_bounds(3) [OF ok i(3)] f(3) i(3) that by (simp add: entry2_def e1)
  have "{frame_of P L (entry2 P L st' i) |i. i < 512 \<and> entry2 P L st' i \<noteq> 0} = {frame_of P L (entry2 P L st i) |i. i < 512 \<and> entry2 P L st i \<noteq> 0}"
    by (rule Collect_cong) (metis e2)
  then have tf: "table_frames P L st' = table_frames P L st" unfolding table_frames_def e1 same by simp
  have in_tf: "?f \<in> table_frames P L st" using i by (auto simp: table_frames_def)
  have "tables_ok P L st'" using ok e2 unfolding tables_ok_def tf e1 same boot_marks_def by simp
  then have "extends P L st st'" using rd in_tf by (auto simp: extends_def tf same boot_marks_def)
  moreover have "walk_entry P L st' a b = (if a = i \<and> b = j then v else walk_entry P L st a b)" if "a < 512" "b < 1024" for a b
  proof (cases "entry2 P L st a = 0")
    case False
    have "frame_of P L (entry2 P L st a) = ?f \<longleftrightarrow> a = i" using ok that i False unfolding tables_ok_def by blast
    then show ?thesis using rd [OF _ that(2), of "frame_of P L (entry2 P L st a)"] table_bounds(4) [OF ok that(1) False] False e2 [OF that(1)]
      by (simp add: walk_entry_def)
  qed (use e2 [OF that(1)] i in \<open>auto simp: walk_entry_def\<close>)
  ultimately show ?thesis by blast
qed

subsection \<open>The theorems\<close>

definition same_page :: "u64 \<Rightarrow> u64 \<Rightarrow> bool" where
  "same_page va va' \<longleftrightarrow> l2_index va = l2_index va' \<and> l3_index va = l3_index va'"


lemma build_mm_tables:
  assumes "wf_plat P" "PAGE_SHIFT P = 13" "x < 2 ^ 28"
    and "boot_marks st x \<noteq> FREE_PAGE" "unat (lastpfn (frames_of (bmem st)) + 1) \<le> 2 ^ 28"
  shows "tables_ok P L (build_mm P L (kseg P (x * 8192)) st) \<and> table_frames P L (build_mm P L (kseg P (x * 8192)) st) = {x} \<and>
    (\<forall>va. walk P L (build_mm P L (kseg P (x * 8192)) st) va = 0) \<and>
    rd P (build_mm P L (kseg P (x * 8192)) st) x 1023 = build_pte P L (of_nat x) (PTE_KWE L OR PTE_KRE L)"
proof -
  let ?st = "build_mm P L (kseg P (x * 8192)) st"
  have "x * 8192 < 2 ^ 42" using assms(3) by simp
  then have "unat (PHYSICAL_TO_PFN P (kseg P (x * 8192))) = x * 8192 div page_bytes P" by (rule pfn_of_kseg [OF assms(1)])
  then have u: "unat (PHYSICAL_TO_PFN P (kseg P (x * 8192))) = x" by (simp add: page_bytes_def assms(2))
  have w: "PHYSICAL_TO_PFN P (kseg P (x * 8192)) = of_nat x" using of_nat_unat_self [of "PHYSICAL_TO_PFN P (kseg P (x * 8192))"] u by simp
  have ux: "unat (of_nat x :: u64) = x" using u unfolding w .
  have loc: "phys_of_pfn P (of_nat x) + 8 * 0x3ff = kseg P (x * 8192 + 8 * 1023)"
    using table_loc [OF assms(1,2), of "of_nat x" 1023] assms(3) unfolding ux by simp
  let ?s = "zeropage_phys P (of_nat x) (st\<lparr>ptbr := of_nat x\<rparr>)"
  have st: "?st = WriteQ (kseg P (x * 8192 + 8 * 1023)) (build_pte P L (of_nat x) (PTE_KWE L OR PTE_KRE L)) (?s\<lparr>vptbr := 0xfffffffe00000000\<rparr>)"
    unfolding build_mm_def Let_def w loc [symmetric] by (simp add: zeropage_phys_def set_bytes_def)
  have "rd P ?st x j = (if j = 1023 then build_pte P L (of_nat x) (PTE_KWE L OR PTE_KRE L) else 0)" if "j < 1024" for j
  proof -
    have "rd P (?s\<lparr>vptbr := 0xfffffffe00000000\<rparr>) x j = rd P ?s x j" by (simp add: rd_def ReadQ_def)
    then show ?thesis unfolding st using rd_write [OF assms(3,3) that, of 1023] rd_zeropage [OF assms(1,2,3,3) that] by simp
  qed
  note cells = this
  have same: "ptbr ?st = of_nat x" "frames_of (bmem ?st) = frames_of (bmem st)" unfolding st by (simp_all add: WriteQ_def set_bytes_def zeropage_phys_def)
  have e: "entry1 P ?st = 0" "entry2 P L ?st i = 0" for i using cells [of 0] by (simp_all add: entry1_def entry2_def same ux)
  have tf: "table_frames P L ?st = {x}" by (simp add: table_frames_def e same ux)
  show ?thesis using assms(3-5) cells [of 1023] by (simp add: tables_ok_def tf e same boot_marks_def walk_def walk_entry_def)
qed

text \<open>The tables start empty: nothing is mapped, and the first frame is a table.\<close>

theorem build_mm_empty:
  assumes "wf_plat P" "PAGE_SHIFT P = 13" "x < 2 ^ 28"
    and "boot_marks st x \<noteq> FREE_PAGE" "unat (lastpfn (frames_of (bmem st)) + 1) \<le> 2 ^ 28"
  shows "tables_ok P L (build_mm P L (kseg P (x * 8192)) st) \<and> table_frames P L (build_mm P L (kseg P (x * 8192)) st) = {x} \<and>
    (\<forall>va. walk P L (build_mm P L (kseg P (x * 8192)) st) va = 0) \<and>
    rd P (build_mm P L (kseg P (x * 8192)) st) x 1023 = build_pte P L (of_nat x) (PTE_KWE L OR PTE_KRE L)"
  by (rule build_mm_tables [OF assms])

text \<open>Two free frames are enough.\<close>

lemma allocate_pfn_some:
  assumes "p < unat (lastpfn m + 1)" "milo_memory_map m p = FREE_PAGE"
  shows "\<exists>n f. allocate_pfn ty m = Inr (n, f)"
proof (cases "find (\<lambda>p. milo_memory_map m p = FREE_PAGE) [0..<unat (lastpfn m + 1)]")
  case None
  then show ?thesis using assms unfolding find_None_iff by auto
qed (simp add: allocate_pfn_def)

lemma next_table_returns:
  assumes "p < unat (lastpfn (frames_of (bmem st)) + 1)" "boot_marks st p = FREE_PAGE"
  shows "\<exists>pte st'. next_table P L c pa st = Inr (pte, st') \<and>
    frames_of (bmem st') = (if ReadQ pa st = 0 then frames_of (bmem (c (st\<lparr>bmem := (bmem st)\<lparr>frames_of := snd (projr (allocate_pfn ALLOCATED_PAGE (frames_of (bmem st))))\<rparr>\<rparr>)))
      else frames_of (bmem st))"
proof -
  obtain n f where "allocate_pfn ALLOCATED_PAGE (frames_of (bmem st)) = Inr (n, f)"
    using allocate_pfn_some [OF assms(1)] assms(2) unfolding boot_marks_def by blast
  then show ?thesis by (auto simp: next_table_def Let_def WriteQ_def set_bytes_def zeropage_phys_def split: prod.splits)
qed

lemma add_VA_returns:
  assumes "p \<noteq> q" "p < unat (lastpfn (frames_of (bmem st)) + 1)" "q < unat (lastpfn (frames_of (bmem st)) + 1)"
    and "boot_marks st p = FREE_PAGE" "boot_marks st q = FREE_PAGE"
  shows "\<exists>st'. add_VA P L va vpfn prot st = Inr st'"
proof -
  let ?c1 = "\<lambda>s. s\<lparr>num_l2_pages := num_l2_pages s + 1\<rparr> :: boot" and ?c2 = "\<lambda>s. s\<lparr>num_l3_pages := num_l3_pages s + 1\<rparr> :: boot"
  let ?a = "allocate_pfn ALLOCATED_PAGE (frames_of (bmem st))"
  obtain pte st1 where s1: "next_table P L ?c1 (phys_of_pfn P (ptbr st) + 0) st = Inr (pte, st1)"
      "frames_of (bmem st1) = snd (projr ?a) \<or> frames_of (bmem st1) = frames_of (bmem st)"
    using next_table_returns [OF assms(2,4), of P L ?c1 "phys_of_pfn P (ptbr st) + 0"] by (auto split: if_splits)
  obtain n f where r: "?a = Inr (n, f)" using allocate_pfn_some [OF assms(2)] assms(4) unfolding boot_marks_def by blast
  have "\<exists>r. r < unat (lastpfn (frames_of (bmem st1)) + 1) \<and> boot_marks st1 r = FREE_PAGE"
  proof (cases "frames_of (bmem st1) = frames_of (bmem st)")
    case False
    then have "frames_of (bmem st1) = f" using s1(2) r by simp
    then have m: "boot_marks st1 = (boot_marks st)(unat n := ALLOCATED_PAGE)" "lastpfn (frames_of (bmem st1)) = lastpfn (frames_of (bmem st))"
      using allocate_pfn_free [OF r] by (simp_all add: boot_marks_def)
    show ?thesis unfolding m by (rule exI [of _ "if unat n = p then q else p"]) (use assms in auto)
  qed (use assms(2,4) in \<open>auto simp: boot_marks_def\<close>)
  then obtain r where "r < unat (lastpfn (frames_of (bmem st1)) + 1)" "boot_marks st1 r = FREE_PAGE" by blast
  from next_table_returns [OF this, of P L ?c2 "phys_of_pfn P (pfn_of_pte P L pte) + l2_offset va"] show ?thesis
    unfolding add_VA_def using s1(1) by (auto simp: Let_def)
qed

subsection \<open>An example\<close>

text \<open>The macros of the kernel for this processor: the frame number in the upper half of an entry.\<close>

definition alpha_ptes :: pte_lib where
  "alpha_ptes = \<lparr>mk_pte = (\<lambda>page prot. push_bit 19 (page - PAGE_OFFSET alpha) OR prot),
     pte_page = (\<lambda>e. PAGE_OFFSET alpha + push_bit 13 (drop_bit 32 e)), PTE_VALID = 1, PTE_KWE = 0x1000, PTE_KRE = 0x100\<rparr>"

lemma alpha_13: "PAGE_SHIFT alpha = 13" by (simp add: alpha_def)

lemma alpha_pte_laws: "pte_laws alpha alpha_ptes"
  unfolding pte_laws_def
proof (intro conjI allI impI)
  fix pfn prot :: u64 assume a: "unat pfn < 2 ^ 28" "unat prot < 2 ^ 32"
  let ?f = "unat pfn"
  have f: "of_nat ?f = pfn" by (rule of_nat_unat_self)
  have e: "build_pte alpha alpha_ptes pfn prot = push_bit 19 (of_nat (?f * 8192)) OR prot OR 1"
    using phys_kseg_unat [OF wf_alpha alpha_13 a(1)] by (simp add: build_pte_def alpha_ptes_def kseg_def or.assoc)
  have z: "drop_bit 32 prot = 0" "drop_bit 32 (1 :: u64) = 0" using a(2) by (simp_all add: word_eq_iff_unat unat_drop_bit del: drop_bit_eq_div)
  have "drop_bit 32 (push_bit 19 (of_nat (?f * 8192) :: u64)) = pfn"
  proof -
    have "?f * 8192 * 2 ^ 19 < 2 ^ 64" using a(1) by simp
    then have "unat (push_bit 19 (of_nat (?f * 8192) :: u64)) = ?f * 8192 * 2 ^ 19"
      by (simp add: push_bit_eq_mult unat_word_ariths unat_of_nat)
    then show ?thesis by (simp add: word_eq_iff_unat unat_drop_bit del: drop_bit_eq_div)
  qed
  then have "drop_bit 32 (build_pte alpha alpha_ptes pfn prot) = pfn" unfolding e drop_bit_or z by simp
  then have pg: "pte_page alpha_ptes (build_pte alpha alpha_ptes pfn prot) = kseg alpha (?f * 8192)"
    by (simp add: alpha_ptes_def kseg_def push_bit_eq_mult)
  have "unat (PHYSICAL_TO_PFN alpha (kseg alpha (?f * 8192))) = ?f"
    using pfn_of_kseg [OF wf_alpha, of "?f * 8192"] a(1) by (simp add: page_bytes_def alpha_13)
  then show "pfn_of_pte alpha alpha_ptes (build_pte alpha alpha_ptes pfn prot) = pfn"
    unfolding pfn_of_pte_def pg word_eq_iff_unat .
qed (simp_all add: alpha_ptes_def)

text \<open>A machine with 16 frames, the first of them in use.\<close>

definition small_boot_mem :: boot where
  "small_boot_mem = \<lparr>bmem = two_frames\<lparr>frames_of := \<lparr>milo_memory_map = (\<lambda>f. if f = 0 then ALLOCATED_PAGE else FREE_PAGE), lastpfn = 15\<rparr>\<rparr>,
     ptbr = 0, vptbr = 0, num_l2_pages = 0, num_l3_pages = 0\<rparr>"

theorem build_mm_empty_witness:
  "tables_ok alpha alpha_ptes (build_mm alpha alpha_ptes (kseg alpha 0) small_boot_mem) \<and>
   (\<forall>va. walk alpha alpha_ptes (build_mm alpha alpha_ptes (kseg alpha 0) small_boot_mem) va = 0)"
  using build_mm_empty [OF wf_alpha alpha_13, of 0 small_boot_mem alpha_ptes]
  by (simp add: small_boot_mem_def boot_marks_def)


end
