(* ===== verification/Boot_Load.thy ===== *)
theory Boot_Load
  imports Boot_Image Zip_Theorems Page_Tables
begin

text \<open>
  What the boot code makes of an image: where the bytes of the program segment go, and how a file is read. The
  loader knows a file system only by its operations; \<open>file_reader\<close> says what it relies on.
\<close>

subsection \<open>The segment of an image\<close>

definition elf_ok :: "elf_lib \<Rightarrow> (u64 \<Rightarrow> u8) \<Rightarrow> u64 \<Rightarrow> bool" where
  "elf_ok E b h \<longleftrightarrow> e_ident E b h 0 = 0x7f \<and> map (e_ident E b h) [1, 2, 3] = [0x45, 0x4c, 0x46] \<and> e_type E b h = ET_EXEC E \<and>
     elf_check_arch E (e_machine E b h) \<and> e_phnum E b h = 1 \<and> e_phoff E b h + sizeof_phdr E \<le> of_nat IOBUF_SIZE"

text \<open>The program header is \<open>ph\<close>: the segment lies at \<open>v\<close>, from \<open>off\<close> in the file, and has \<open>n\<close> bytes, the entry point is one of them.\<close>

definition segment :: "elf_lib \<Rightarrow> (u64 \<Rightarrow> u8) \<Rightarrow> u64 \<Rightarrow> u64 \<Rightarrow> u64 \<Rightarrow> u64 \<Rightarrow> u64 \<Rightarrow> bool" where
  "segment E b h start v off n \<longleftrightarrow> elf_ok E b h \<and> e_entry E b h = start \<and> p_vaddr E b (h + e_phoff E b h) = v \<and>
     p_offset E b (h + e_phoff E b h) = off \<and> p_filesz E b (h + e_phoff E b h) = n \<and>
     unat v + unat n < 2 ^ 64 \<and> start \<le> v + n \<and> unat off + unat n < 2 ^ 63"

lemma not_below_zero: "\<not> x <s 0" if "unat x < 2 ^ 63" for x :: u64
proof -
  have "\<not> bit (unat x) 63" using that by (simp add: bit_iff_odd)
  then have "\<not> bit x 63" by (simp add: bit_unsigned_iff)
  then show ?thesis using bit_last_iff [of x] by (simp add: word_sless_alt)
qed

lemma copy_range:
  fixes at v n :: u64
  assumes "v \<le> at" "at \<le> v + n" "unat v + unat n < 2 ^ 64"
  shows "a - at < n - (at - v) \<longleftrightarrow> at \<le> a \<and> a < v + n"
proof -
  have vn: "unat (v + n) = unat v + unat n" using assms(3) by (simp add: unat_word_ariths)
  have d: "unat (at - v) = unat at - unat v" using assms(1) by (simp add: unat_sub)
  have "at - v \<le> n" using assms(2) d vn by (simp add: word_le_nat_alt)
  then have m: "unat (n - (at - v)) = unat v + unat n - unat at" using assms(1) d by (simp add: unat_sub word_le_nat_alt)
  show ?thesis
  proof (cases "at \<le> a")
    case True
    then have "unat (a - at) = unat a - unat at" by (simp add: unat_sub)
    then show ?thesis using True m vn by (auto simp: word_less_nat_alt word_le_nat_alt)
  next
    case False
    have "unat (a - at) = 2 ^ 64 + unat a - unat at" using False unsigned_less [of at]
      by (simp add: unat_sub_if' word_le_nat_alt)
    then show ?thesis using False m assms(3) unsigned_less [of a] by (simp add: word_less_nat_alt word_le_nat_alt)
  qed
qed

lemma max_word: "max v e = (if v < e then e else v)" for v e :: u64
  by (auto simp: max_def not_less)

lemma load_segment:
  assumes "segment E b h start v off n"
  shows "\<exists>k'. load_image_from_memory P E h b k =
     (start, (\<lambda>a. if max v start \<le> a \<and> a < v + n then b (h + off + (a - v)) else b a), k') \<and>
     kernel_entry k' = start \<and> kernel_at k' = max v start"
proof -
  have s: "elf_ok E b h" "e_entry E b h = start" "p_vaddr E b (h + e_phoff E b h) = v" "p_offset E b (h + e_phoff E b h) = off"
      "p_filesz E b (h + e_phoff E b h) = n" "unat v + unat n < 2 ^ 64" "start \<le> v + n" "unat off + unat n < 2 ^ 63"
    using assms by (simp_all add: segment_def)
  show ?thesis
  proof (cases "v < start")
    case True
    have d: "unat (start - v) = unat start - unat v" using True by (simp add: unat_sub word_less_nat_alt word_le_nat_alt)
    have "unat (v + n) = unat v + unat n" using s(6) by (simp add: unat_word_ariths)
    then have "unat off + unat (start - v) < 2 ^ 63" using s(7,8) True d by (simp add: word_le_nat_alt word_less_nat_alt)
    then have o: "\<not> off + (start - v) <s 0" by (intro not_below_zero) (simp add: unat_word_ariths)
    have c: "copy_bytes start (h + (off + (start - v))) (n - (start - v)) b =
        (\<lambda>a. if start \<le> a \<and> a < v + n then b (h + off + (a - v)) else b a)"
      using copy_range [OF less_imp_le [OF True] s(7,6)] by (auto simp: copy_bytes_def fun_eq_iff algebra_simps)
    show ?thesis using s(1-5) True o c
      by (simp add: load_image_from_memory_def extract_header_info_def elf_ok_def Let_def max_word flip: not_le)
  next
    case False
    have o: "\<not> off <s 0" using s(8) by (intro not_below_zero) simp
    have "v \<le> v + n" using s(6) by (simp add: word_le_nat_alt unat_word_ariths)
    then have c: "copy_bytes v (h + off) n b = (\<lambda>a. if v \<le> a \<and> a < v + n then b (h + off + (a - v)) else b a)"
      using copy_range [OF order_refl _ s(6)] by (auto simp: copy_bytes_def fun_eq_iff)
    show ?thesis using s(1-5) False o c
      by (simp add: load_image_from_memory_def extract_header_info_def elf_ok_def Let_def max_word flip: not_le)
  qed
qed

lemma load_rejects:
  assumes "\<not> elf_ok E b h"
  shows "load_image_from_memory P E h b k = (0, b, k)"
proof -
  have "extract_header_info E b h k = (- 1, k)"
    using assms by (auto simp: extract_header_info_def elf_ok_def not_less)
  then show ?thesis by (simp add: load_image_from_memory_def word_sless_alt)
qed

subsection \<open>Reading a file\<close>

text \<open>
  The contract of a file system: a block that begins inside of the file is read, with the bytes of the file as
  far as it goes. What is read at the end of the file and after it is left open.
\<close>

locale file_reader =
  fixes F :: "'s bootfs" and is_file :: "'s \<Rightarrow> int \<Rightarrow> contents \<Rightarrow> nat \<Rightarrow> bool"
  assumes fdsize: "is_file s fd f sz \<Longrightarrow> unat (fs_fdsize F fd s) = sz"
    and block: "is_file s fd f sz \<Longrightarrow> 1024 * n < sz \<Longrightarrow> length buf = 1024 \<Longrightarrow>
      \<exists>b. fs_bread F fd n buf s = Some (0, b) \<and> length b = 1024 \<and> (\<forall>i<1024. 1024 * n + i < sz \<longrightarrow> b ! i = f (1024 * n + i))"

fun blocks_from :: "reader \<Rightarrow> nat \<Rightarrow> nat \<Rightarrow> u8" where
  "blocks_from rdr 0 = rdr 0 (\<lambda>_. 0)"
| "blocks_from rdr (Suc k) = rdr (Suc k) (blocks_from rdr k)"

lemma fs_reader_cong:
  assumes "\<forall>j<1024. buf j = buf' j" "i < 1024"
  shows "fs_reader F fd s n buf i = fs_reader F fd s n buf' i"
proof -
  have m: "map buf [0..<IOBUF_SIZE] = map buf' [0..<IOBUF_SIZE]" using assms(1) by (simp add: IOBUF_SIZE_def)
  show ?thesis unfolding fs_reader_def m using assms by (simp split: option.split)
qed

lemma offset_nat: "i < 2 ^ 64 \<Longrightarrow> unat (of_nat i :: u64) = i"
  by (simp add: unat_of_nat)

lemma offset_before: "i < j \<Longrightarrow> j < 2 ^ 64 \<Longrightarrow> unat (d + of_nat i - (d + of_nat j)) = 2 ^ 64 + i - j" for d :: u64
  by (simp add: unat_sub_if' offset_nat)

lemma offset_after: "j \<le> i \<Longrightarrow> i < 2 ^ 64 \<Longrightarrow> unat (d + of_nat i - (d + of_nat j)) = i - j" for d :: u64
  by (simp add: unat_sub_if' offset_nat)

lemma offset_diff: "j \<le> unat (a - d) \<Longrightarrow> unat (a - (d + of_nat j)) = unat (a - d) - j" for d :: u64
  using unsigned_less [of "a - d", where 'a = nat] by (simp add: diff_diff_eq [symmetric] unat_sub word_le_nat_alt offset_nat)

lemma sint_of_nat_small: "n < 2 ^ 63 \<Longrightarrow> sint (of_nat n :: u64) = int n"
  by (simp add: signed_of_nat signed_take_bit_int_eq_self)

text \<open>Two quads in a row, and a buffer that they are not part of.\<close>

definition quads_apart :: "u64 \<Rightarrow> u64 \<Rightarrow> nat \<Rightarrow> bool" where
  "quads_apart q dest len \<longleftrightarrow> (\<forall>k<16. len \<le> unat (q + of_nat k - dest))"

lemma store_reach: "a - q < 8 \<Longrightarrow> \<exists>k<8. a = q + of_nat k" for a q :: u64
  by (rule exI [of _ "unat (a - q)"]) (simp add: word_less_nat_alt)

lemma quads_keep:
  assumes "quads_apart q dest len" "i < len" "i < 2 ^ 64"
  shows "store64 (q + 8) v (store64 q w b) (dest + of_nat i) = b (dest + of_nat i)"
proof -
  have no: "dest + of_nat i \<noteq> q + of_nat k" if "k < 16" for k
  proof
    assume "dest + of_nat i = q + of_nat k"
    then have "q + of_nat k - dest = (of_nat i :: u64)" by (metis add_diff_cancel_left')
    then show False using assms that by (auto simp: quads_apart_def offset_nat)
  qed
  have "\<not> dest + of_nat i - q < 8"
  proof
    assume "dest + of_nat i - q < 8"
    then obtain k where "k < 8" "dest + of_nat i = q + of_nat k" using store_reach by blast
    then show False using no [of k] by simp
  qed
  moreover have "\<not> dest + of_nat i - (q + 8) < 8"
  proof
    assume "dest + of_nat i - (q + 8) < 8"
    then obtain k where "k < 8" "dest + of_nat i = q + 8 + of_nat k" using store_reach by blast
    then show False using no [of "8 + k"] by (simp add: add.assoc)
  qed
  ultimately show ?thesis by (simp add: store64_def)
qed

lemma load_stored: "load_bytes 8 q (store64 q v b) = v"
proof (rule bit_word_eqI)
  fix n assume n: "n < LENGTH(64)"
  then have k: "n div 8 < 8" by simp
  then have "(of_nat (n div 8) :: u64) < 8" by (simp add: word_less_nat_alt offset_nat)
  moreover have "8 * (n div 8) + n mod 8 = n" by simp
  ultimately show "bit (load_bytes 8 q (store64 q v b)) n = bit v n"
    using n k by (auto simp: bit_load_bytes store64_def offset_nat bit_simps)
qed

lemma load_next: "load_bytes 8 q (store64 (q + 8) v b) = load_bytes 8 q b"
proof (rule bit_word_eqI)
  fix n assume n: "n < LENGTH(64)"
  then have k: "n div 8 < 8" by simp
  have "unat (of_nat (n div 8) - 8 :: u64) = 2 ^ 64 + n div 8 - 8" using offset_before [OF k, of 0] by simp
  then have "\<not> (of_nat (n div 8) - 8 :: u64) < 8" by (simp add: word_less_nat_alt)
  then have "\<not> q + of_nat (n div 8) - (q + 8) < 8" by simp
  then show "bit (load_bytes 8 q (store64 (q + 8) v b)) n = bit (load_bytes 8 q b) n" by (simp add: bit_load_bytes store64_def)
qed

definition gzip_in :: "contents \<Rightarrow> nat \<Rightarrow> gzip_head \<Rightarrow> block list \<Rightarrow> u8 list \<Rightarrow> bool" where
  "gzip_in f sz h bs crc \<longleftrightarrow> (\<forall>g. (\<forall>i < sz. g i = f i) \<longrightarrow> gzip_file g h bs crc)"

context file_reader
begin

lemma reader_block:
  assumes "is_file s fd f sz" "1024 * n + i < sz" "i < 1024"
  shows "fs_reader F fd s n buf i = f (1024 * n + i)"
proof -
  obtain b where "fs_bread F fd n (map buf [0..<IOBUF_SIZE]) s = Some (0, b)" "length b = 1024" "b ! i = f (1024 * n + i)"
    using block [OF assms(1), of n "map buf [0..<IOBUF_SIZE]"] assms(2,3) by (auto simp: IOBUF_SIZE_def)
  then show ?thesis using assms(3) by (simp add: fs_reader_def)
qed

text \<open>What the reader hands over is some sequence of bytes that begins with the file.\<close>

lemma reader_reads:
  assumes "is_file s fd f sz" "1024 \<le> sz"
  shows "\<exists>g. reads g (fs_reader F fd s) \<and> (\<forall>i < sz. g i = f i)"
proof (intro exI conjI)
  let ?rdr = "fs_reader F fd s"
  let ?g = "\<lambda>i. blocks_from ?rdr (i div 1024) (i mod 1024)"
  have g: "?g (1024 * k + i) = blocks_from ?rdr k i" if "i < 1024" for k i using that by simp
  have first: "?rdr 0 buf i = f i" if "i < 1024" for buf i using reader_block [OF assms(1), of 0 i] that assms(2) by simp
  show "reads ?g ?rdr" unfolding reads_def
  proof (intro allI impI)
    fix k buf i assume a: "k = 0 \<or> (\<forall>j<1024. buf j = ?g (1024 * (k - 1) + j))" "i < (1024 :: nat)"
    show "?rdr k buf i = ?g (1024 * k + i)"
    proof (cases k)
      case 0
      then show ?thesis using first a(2) by simp
    next
      case (Suc m)
      then have "\<forall>j<1024. buf j = blocks_from ?rdr m j" using a(1) g by simp
      from fs_reader_cong [OF this a(2)] show ?thesis unfolding g [OF a(2)] by (simp add: Suc)
    qed
  qed
  show "\<forall>i < sz. ?g i = f i"
  proof (intro allI impI)
    fix i assume i: "i < sz"
    have "?g i = ?rdr (i div 1024) b (i mod 1024)" if "i div 1024 = 0 \<or> b = blocks_from ?rdr (i div 1024 - 1)" for b
      using that first [of "i mod 1024"] by (cases "i div 1024") auto
    then have "?g i = ?rdr (i div 1024) (blocks_from ?rdr (i div 1024 - 1)) (i mod 1024)" by simp
    also have "\<dots> = f i" using reader_block [OF assms(1), of "i div 1024" "i mod 1024"] i by simp
    finally show "?g i = f i" .
  qed
qed

text \<open>A compressed kernel goes through the decompression and, from there, to where its header says.\<close>

lemma load_zipped:
  assumes "fs_mount F s0 = Some (0, s1)" "fs_open F name s1 = Some (fd, s2)" "0 \<le> fd" "is_file s2 fd f sz" "1024 \<le> sz"
    and "gzip_in f sz h bs crc" "blocks_out bs [] = out" "dest \<noteq> 0" "unat dest + length out < 2 ^ 64" "length out < 2 ^ 32"
    and "\<forall>q. live (zheap z) q \<longrightarrow> q < brk (zheap z)" "\<not> pkzip z"
    and "load_image_from_memory P E dest (overlay dest out (zmem z)) k = (start, b, k')"
  shows "\<exists>z'. load_image_from_device P E F name dest buf win iobuf s0 z k = Some (Inr (start, s2, z', k')) \<and> zmem z' = b"
proof -
  obtain g where g: "reads g (fs_reader F fd s2)" "\<forall>i < sz. g i = f i" using reader_reads [OF assms(4,5)] by blast
  then have "gzip_file g h bs crc" using assms(6) by (simp add: gzip_in_def)
  then obtain z1 where "uncompress_kernel (fs_reader F fd s2) dest buf win z = Some (Inr (0, z1))" "zmem z1 = overlay dest out (zmem z)"
    using uncompress_kernel_out [OF _ g(1) assms(8), of h bs crc z buf win] assms(7,9-12) unfolding sound_def by blast
  then show ?thesis using assms(1-3,13) by (simp add: load_image_from_device_def)
qed

text \<open>
  The blocks of a ramdisk. Its size is not a multiple of 1024: after such a file the loop reads one more block.
\<close>

lemma ramdisk_blocks_file:
  assumes "is_file s fd f sz" "sz mod 1024 \<noteq> 0" "1024 * n < sz" "unat dest + sz + 1024 < 2 ^ 64"
    and "\<forall>i < 1024 * n. b (dest + of_nat i) = f i"
  shows "\<exists>b'. ramdisk_blocks F fd s dest (int sz) n b = Some b' \<and> (\<forall>i < sz. b' (dest + of_nat i) = f i) \<and>
    (\<forall>a. sz + 1024 \<le> unat (a - dest) \<longrightarrow> b' a = b a)"
  using assms
proof (induction "sz - 1024 * n" arbitrary: n b rule: less_induct)
  case less
  let ?at = "dest + of_nat (n * IOBUF_SIZE)"
  obtain bl where bl: "fs_bread F fd n (map (\<lambda>i. b (?at + of_nat i)) [0..<IOBUF_SIZE]) s = Some (0, bl)" "length bl = 1024"
      "\<forall>i<1024. 1024 * n + i < sz \<longrightarrow> bl ! i = f (1024 * n + i)"
    using block [OF less.prems(1,3), of "map (\<lambda>i. b (?at + of_nat i)) [0..<IOBUF_SIZE]"] by (auto simp: IOBUF_SIZE_def)
  let ?b = "store_list ?at bl b"
  have here: "?b (dest + of_nat i) = f i" if "i < sz" "i < 1024 * n + 1024" for i
  proof (cases "i < 1024 * n")
    case True
    then have "unat (dest + of_nat i - ?at) = 2 ^ 64 + i - 1024 * n"
      using offset_before [of i "n * IOBUF_SIZE" dest] less.prems(3,4) by (simp only: IOBUF_SIZE_def mult.commute)
    then have "\<not> unat (dest + of_nat i - ?at) < length bl" using True less.prems(3,4) bl(2) by linarith
    then have "?b (dest + of_nat i) = b (dest + of_nat i)" unfolding store_list_def by (simp only: if_False)
    then show ?thesis using True less.prems(5) by simp
  next
    case False
    then have "unat (dest + of_nat i - ?at) = i - 1024 * n"
      using offset_after [of "n * IOBUF_SIZE" i dest] that less.prems(4) by (simp only: IOBUF_SIZE_def mult.commute not_less)
    moreover have "i - 1024 * n < 1024" using False that(2) by linarith
    ultimately show ?thesis using False that(1) bl(2,3) by (simp add: store_list_def)
  qed
  have far: "?b a = b a" if "sz + 1024 \<le> unat (a - dest)" for a
  proof -
    have "unat (a - ?at) = unat (a - dest) - 1024 * n"
      using offset_diff [of "n * IOBUF_SIZE" a dest] that less.prems(3) by (simp only: IOBUF_SIZE_def mult.commute)
    then have "\<not> unat (a - ?at) < length bl" using that less.prems(3) bl(2) by linarith
    then show ?thesis unfolding store_list_def by (simp only: if_False)
  qed
  show ?case
  proof (cases "1024 * (n + 1) > sz")
    case True
    then show ?thesis using bl(1) here far by (subst ramdisk_blocks.simps) (auto simp: IOBUF_SIZE_def Let_def)
  next
    case False
    then have up: "1024 * (n + 1) < sz" using less.prems(2) by (metis mod_mult_self1_is_0 not_less_iff_gr_or_eq)
    have low: "\<forall>i < 1024 * (n + 1). ?b (dest + of_nat i) = f i" using False here by simp
    have "sz - 1024 * (n + 1) < sz - 1024 * n" by (rule diff_less_mono2) (use up in simp_all)
    from less.hyps [OF this less.prems(1,2) up less.prems(4) low]
    obtain b' where "ramdisk_blocks F fd s dest (int sz) (n + 1) ?b = Some b'" "\<forall>i < sz. b' (dest + of_nat i) = f i"
        "\<forall>a. sz + 1024 \<le> unat (a - dest) \<longrightarrow> b' a = ?b a"
      by blast
    moreover have "ramdisk_blocks F fd s dest (int sz) n b = ramdisk_blocks F fd s dest (int sz) (n + 1) ?b"
      using bl(1) False by (subst ramdisk_blocks.simps) (simp add: IOBUF_SIZE_def Let_def)
    ultimately show ?thesis using far by auto
  qed
qed

text \<open>The quads for the kernel, at \<open>q\<close> and \<open>q + 8\<close>, are not part of the buffer.\<close>

lemma load_ramdisk:
  assumes "fs_mount F s0 = Some (0, s1)" "fs_open F name s1 = Some (fd, s2)" "0 \<le> fd" "is_file s2 fd f sz" "sz mod 1024 \<noteq> 0"
    and "dest = LOADER_AT P - of_nat sz - 1024" "sz + 1024 \<le> unat (LOADER_AT P)" "sz < 2 ^ 63"
    and "quads_apart (Z + 0x100) dest (sz + 1024)"
  shows "\<exists>s' b'. load_ramdisk_from_device P Z F name s0 m b = Some (s',
       mark_many_pfn (ucast (PHYSICAL_TO_PFN P dest)) (ucast (drop_bit (PAGE_SHIFT P) (of_nat sz + PAGE_SIZE P - 1))) ALLOCATED_PAGE m, b') \<and>
     (\<forall>i < sz. b' (dest + of_nat i) = f i) \<and> load_bytes 8 (Z + 0x100) b' = dest \<and> load_bytes 8 (Z + 0x108) b' = of_nat sz"
proof -
  let ?b0 = "store64 (Z + 0x108) 0 (store64 (Z + 0x100) 0 b)"
  have z: "fs_fdsize F fd s2 = of_nat sz" using fdsize [OF assms(4)] by (metis of_nat_unat_self)
  have si: "sint (of_nat sz :: u64) = int sz" using assms(8) by (rule sint_of_nat_small)
  have "of_nat sz + 1024 = (of_nat (sz + 1024) :: u64)" by simp
  moreover have "unat (of_nat (sz + 1024) :: u64) = sz + 1024" by (rule offset_nat) (use assms(8) in simp)
  ultimately have d: "unat dest = unat (LOADER_AT P) - (sz + 1024)"
    using assms(7) by (simp add: assms(6) diff_diff_eq unat_sub word_le_nat_alt)
  have room: "unat dest + sz + 1024 < 2 ^ 64" using d assms(7) unsigned_less [of "LOADER_AT P", where 'a = nat] by simp
  have "0 < sz" using assms(5) by (cases sz) simp_all
  then obtain b1 where b1: "ramdisk_blocks F fd s2 dest (int sz) 0 ?b0 = Some b1" "\<forall>i < sz. b1 (dest + of_nat i) = f i"
    using ramdisk_blocks_file [OF assms(4,5), of 0 dest ?b0] room by auto
  let ?b = "store64 (Z + 0x108) (of_nat sz) (store64 (Z + 0x100) dest b1)"
  have "?b (dest + of_nat i) = f i" if "i < sz" for i
    using quads_keep [OF assms(9), of i] that b1(2) assms(8) by (simp add: add.commute)
  moreover have "load_bytes 8 (Z + 0x100) ?b = dest" "load_bytes 8 (Z + 0x108) ?b = of_nat sz"
    using load_next [of "Z + 0x100"] by (simp_all add: load_stored add.commute)
  ultimately show ?thesis using assms(1-3) b1(1)
    by (simp add: load_ramdisk_from_device_def z si assms(6) [symmetric] IOBUF_SIZE_def Let_def)
qed

end

end
