(* ===== verification/Iso_Names.thy ===== *)
theory Iso_Names
  imports Iso9660
begin

text \<open>
  A directory of an ISO 9660 volume is a sequence of records, none across the end of a sector of 2048 bytes but
  some across two blocks of 1024. The search in the buffers finds the first record that is shown and whose
  name matches.
\<close>

subsection \<open>Records are local\<close>

text \<open>Two buffers with the same \<open>n\<close> bytes at their beginning.\<close>

definition agree :: "nat \<Rightarrow> u8 list \<Rightarrow> u8 list \<Rightarrow> bool" where
  "agree n r r' \<longleftrightarrow> (\<forall>j<n. byte_at r j = byte_at r' j)"

lemma agree_less: "agree n r r' \<Longrightarrow> m \<le> n \<Longrightarrow> agree m r r'"
  by (simp add: agree_def)

lemma agree_name: "agree n r r' \<Longrightarrow> 33 + i < n \<Longrightarrow> r_name r i = r_name r' i"
  by (simp add: agree_def r_name_def)

lemma byte_at_update: "byte_at (r[k := x]) j = (if j = k \<and> k < length r then x else byte_at r j)"
  by (simp add: byte_at_def nth_list_update)

definition lowered :: "u8 \<Rightarrow> u8" where
  "lowered c = (if 0x41 \<le> c \<and> c \<le> 0x5a then c OR 0x20 else c)"

definition name_char :: "u8 \<Rightarrow> u8" where
  "name_char c = (if lowered c = 0x3b then 0x2e else lowered c)"

lemma lower_name_step:
  "lower_name (Suc k) i r = (if lowered (r_name r i) = 0x3b \<and> k = 1 \<and> r_name r (i + 1) = 0x31 then (i, r)
     else lower_name k (Suc i) (r[33 + i := name_char (r_name r i)]))"
  unfolding lower_name.simps(2) Let_def lowered_def name_char_def by simp

lemma lower_name_agree:
  assumes "agree (33 + i + k) r r'" "33 + i + k \<le> length r" "33 + i + k \<le> length r'"
  shows "fst (lower_name k i r) = fst (lower_name k i r') \<and> agree (33 + i + k) (snd (lower_name k i r)) (snd (lower_name k i r'))"
  using assms
proof (induction k arbitrary: i r r')
  case (Suc k)
  have c: "r_name r i = r_name r' i" by (rule agree_name [OF Suc.prems(1)]) simp
  have one: "k = 1 \<Longrightarrow> r_name r (i + 1) = r_name r' (i + 1)" by (rule agree_name [OF Suc.prems(1)]) simp
  have ih: "fst (lower_name k (Suc i) (r[33 + i := x])) = fst (lower_name k (Suc i) (r'[33 + i := x])) \<and>
      agree (33 + Suc i + k) (snd (lower_name k (Suc i) (r[33 + i := x]))) (snd (lower_name k (Suc i) (r'[33 + i := x])))" for x
    by (rule Suc.IH) (use Suc.prems in \<open>simp_all add: agree_def byte_at_update\<close>)
  show ?case using Suc.prems(1) one ih [of "name_char (r_name r' i)"] unfolding lower_name_step c by (cases "k = 1") (simp_all add: add.assoc)
qed simp

lemma lower_name_frame:
  "length (snd (lower_name k i r)) = length r \<and> (\<forall>j. j < 33 + i \<or> 33 + i + k \<le> j \<longrightarrow> byte_at (snd (lower_name k i r)) j = byte_at r j) \<and>
   fst (lower_name k i r) \<le> i + k"
proof (induction k arbitrary: i r)
  case (Suc k)
  show ?case using Suc.IH [of "Suc i" "r[33 + i := name_char (r_name r i)]"] unfolding lower_name_step by (simp add: byte_at_update)
qed simp

text \<open>The whole record, name included.\<close>

definition rec_len :: "u8 list \<Rightarrow> nat" where "rec_len r = 33 + r_name_len r"

lemma rec_len_agree: "agree n r r' \<Longrightarrow> 33 \<le> n \<Longrightarrow> rec_len r = rec_len r'"
  by (simp add: agree_def rec_len_def r_name_len_def)

lemma map_name_agree: "agree (33 + n) r r' \<Longrightarrow> map (r_name r) [0..<n] = map (r_name r') [0..<n]"
  by (simp add: agree_name)

lemma entry_name_agree:
  assumes "agree (rec_len r) r r'" "rec_len r \<le> length r" "rec_len r \<le> length r'"
  shows "fst (entry_name sb w r) = fst (entry_name sb w r') \<and> agree (rec_len r) (snd (entry_name sb w r)) (snd (entry_name sb w r'))"
proof -
  have l: "r_name_len r = r_name_len r'" using rec_len_agree [OF assms(1)] by (simp add: rec_len_def)
  let ?a = "lower_name (r_name_len r) 0 r" and ?b = "lower_name (r_name_len r') 0 r'"
  have a: "fst ?a = fst ?b" "agree (rec_len r) (snd ?a) (snd ?b)" "fst ?a \<le> r_name_len r"
    using lower_name_agree [of 0 "r_name_len r" r r'] lower_name_frame [of "r_name_len r" 0 r] assms l by (simp_all add: rec_len_def)
  then have last: "byte_at (snd ?a) (33 + fst ?a - 1) = byte_at (snd ?b) (33 + fst ?a - 1)" by (simp add: agree_def rec_len_def)
  have names: "map (r_name (snd ?a)) [0..<m] = map (r_name (snd ?b)) [0..<m]" if "m \<le> r_name_len r" for m
    by (rule map_name_agree) (use agree_less [OF a(2)] that in \<open>simp add: rec_len_def\<close>)
  have plain: "map (r_name r) [0..<r_name_len r] = map (r_name r') [0..<r_name_len r]"
    by (rule map_name_agree) (use assms(1) in \<open>simp add: rec_len_def\<close>)
  show ?thesis using a names plain last assms(1) l by (auto simp: entry_name_def Let_def split_beta)
qed

lemma entry_name_frame:
  "length (snd (entry_name sb w r)) = length r \<and> (\<forall>j. j < 33 \<or> rec_len r \<le> j \<longrightarrow> byte_at (snd (entry_name sb w r)) j = byte_at r j)"
  using lower_name_frame [of "r_name_len r" 0 r] by (simp add: entry_name_def Let_def split_beta rec_len_def)

lemma entry_number_agree: "agree (rec_len r) r r' \<Longrightarrow> entry_number n sb r x = entry_number n sb r' x"
proof -
  assume a: "agree (rec_len r) r r'"
  have l: "r_name_len r = r_name_len r'" using rec_len_agree [OF a] by (simp add: rec_len_def)
  have "r_name_len r = 1 \<Longrightarrow> r_name r 0 = r_name r' 0" by (rule agree_name [OF a]) (simp add: rec_len_def)
  then show ?thesis by (cases "r_name_len r = 1") (simp_all add: entry_number_def l [symmetric])
qed

lemma shown_agree: "agree 33 r r' \<Longrightarrow> shown sb r = shown sb r'"
  by (simp add: shown_def r_flags_def agree_def)

lemma shown_name [simp]: "shown sb (snd (entry_name sb w r)) = shown sb r"
  by (rule shown_agree) (simp add: agree_def entry_name_frame)

end
