(* ===== verification/Iso_Dirs.thy ===== *)
theory Iso_Dirs
  imports Iso_Names
begin

unbundle bit_operations_syntax

text \<open>The scan of a directory through the two buffers, record by record, and the search as a search in the list of records.\<close>

subsection \<open>Positions\<close>

lemma unat_and_1023: "unat (x AND of_nat (ISO_BLOCKSIZE - 1)) = unat x mod 1024" for x :: "'a::len word"
proof -
  have "unat (x AND mask 10) = unat x mod 2 ^ 10" by (rule unat_and_mask)
  moreover have "mask 10 = (of_nat (ISO_BLOCKSIZE - 1) :: 'a word)" by (simp add: ISO_BLOCKSIZE_def mask_eq_exp_minus_1)
  ultimately show ?thesis by simp
qed

lemma unat_next_sector:
  fixes x :: u32
  assumes "unat x + 2048 < 2 ^ 32"
  shows "unat ((x AND NOT (ISOFS_BLOCK_SIZE - 1)) + ISOFS_BLOCK_SIZE) = (unat x div 2048 + 1) * 2048"
proof -
  have m: "ISOFS_BLOCK_SIZE - 1 = mask 11" by (simp add: ISOFS_BLOCK_SIZE_def mask_eq_exp_minus_1)
  have "unat (x AND NOT (mask 11)) = unat x div 2048 * 2048"
    unfolding unat_and_not_mask by (simp add: minus_mod_eq_div_mult)
  moreover have "unat x div 2048 * 2048 \<le> unat x" by (rule div_times_less_eq_dividend)
  ultimately show ?thesis using assms unfolding m by (simp add: ISOFS_BLOCK_SIZE_def unat_word_ariths)
qed

lemma unat_block: "unat (drop_bit ISO_BITS x) = unat x div 1024" for x :: u32
  by (simp add: ISO_BITS_def unat_drop_bit)

lemma nonnegative: "unat x < 2 ^ 31 \<Longrightarrow> \<not> x <s 0" for x :: u32
proof -
  assume "unat x < 2 ^ 31"
  then have "\<not> bit (unat x) 31" by (simp add: bit_iff_odd)
  then have "\<not> bit x 31" by (simp add: bit_unsigned_iff)
  then show ?thesis using bit_last_iff [of x] by (simp add: word_sless_alt)
qed

text \<open>The first block of a file, and its bytes.\<close>

definition first_block :: "iso_inode \<Rightarrow> nat" where "first_block n = unat (i_first_extent n) div 1024"
definition iso_byte :: "(nat \<Rightarrow> u8) \<Rightarrow> iso_inode \<Rightarrow> nat \<Rightarrow> u8" where "iso_byte D n p = D (1024 * first_block n + p)"

lemma bmap_unat:
  assumes "unat x < 2 ^ 31" "first_block n + unat x < 2 ^ 32"
  shows "unat (isofs_bmap n x) = first_block n + unat x"
  using assms nonnegative [OF assms(1)] by (simp add: isofs_bmap_def unat_word_ariths unat_block first_block_def)

lemma bread_disk:
  "isofs_bread (disk D) (ucast b) buf = (True, map (\<lambda>i. D (unat b * 1024 + i)) [0..<1024] @ drop 1024 buf)" for b :: u32
proof -
  have "unat (ucast b :: u64) = unat b" using unsigned_less [of b, where 'a = nat] by (simp add: unsigned_ucast_eq take_bit_nat_eq_self)
  then have "unat (ucast b * of_nat ISO_BLOCKSIZE :: u64) = unat b * 1024"
    using unsigned_less [of b, where 'a = nat] by (simp add: unat_word_ariths ISO_BLOCKSIZE_def)
  then show ?thesis by (simp add: isofs_bread_def ISO_BLOCKSIZE_def)
qed

subsection \<open>The scan\<close>

text \<open>The scan is at position \<open>p\<close>: the rest of the block is in the buffer.\<close>

definition scan_at :: "(nat \<Rightarrow> u8) \<Rightarrow> iso_inode \<Rightarrow> nat \<Rightarrow> scan \<Rightarrow> iso \<Rightarrow> bool" where
  "scan_at D n p sc st \<longleftrightarrow> unat (f_pos sc) = p \<and> unat (sc_offset sc) = p mod 1024 \<and> unat (sc_block sc) = first_block n + p div 1024 \<and>
     length (data_block st) = 1024 \<and> length (big_data_block st) = 2048 \<and>
     (\<forall>j<1024. p mod 1024 \<le> j \<longrightarrow> data_block st ! j = iso_byte D n (1024 * (p div 1024) + j))"

definition record_at :: "(nat \<Rightarrow> u8) \<Rightarrow> iso_inode \<Rightarrow> nat \<Rightarrow> u8 list" where
  "record_at D n p = map (\<lambda>j. iso_byte D n (p + j)) [0..<unat (iso_byte D n p)]"

text \<open>The directory is no larger than a disk can be, and not at the beginning of it.\<close>

definition on_disk :: "iso_inode \<Rightarrow> bool" where
  "on_disk n \<longleftrightarrow> 0 < first_block n \<and> 1024 * first_block n + unat (iso_size n) + 4096 < 2 ^ 31"

text \<open>Only the two buffers change.\<close>

definition same_iso :: "iso \<Rightarrow> iso \<Rightarrow> bool" where
  "same_iso st st' \<longleftrightarrow> st' = st\<lparr>data_block := data_block st', big_data_block := big_data_block st'\<rparr> \<and>
     length (data_block st') = 1024 \<and> length (big_data_block st') = 2048"

lemma same_iso_fields: "same_iso st st' \<Longrightarrow> iso_sb st' = iso_sb st \<and> iso_table st' = iso_table st \<and> root_inode st' = root_inode st"
  unfolding same_iso_def by (cases st; cases st') simp

lemma same_iso_trans: "same_iso st st' \<Longrightarrow> same_iso st' st'' \<Longrightarrow> same_iso st st''"
  unfolding same_iso_def by (cases st; cases st'; cases st'') simp

lemma block_read:
  fixes b :: u32
  assumes "unat b = first_block n + q" "length buf = 1024"
  shows "isofs_bread (disk D) (ucast b) buf = (True, map (\<lambda>j. iso_byte D n (1024 * q + j)) [0..<1024])"
  using assms unfolding bread_disk by (simp add: iso_byte_def algebra_simps)

lemma skip_sector:
  assumes "scan_at D n p sc st" "p < unat (iso_size n)" "on_disk n" "iso_byte D n p = 0"
  shows "\<exists>sc' st'. next_record listing (disk D) n sc st = (Skip sc', st') \<and> scan_at D n ((p div 2048 + 1) * 2048) sc' st' \<and> same_iso st st'"
proof -
  let ?p = "(p div 2048 + 1) * 2048" and ?pos = "(f_pos sc AND NOT (ISOFS_BLOCK_SIZE - 1)) + ISOFS_BLOCK_SIZE"
  let ?b = "isofs_bmap n (drop_bit ISO_BITS ?pos)"
  let ?data = "map (\<lambda>j. iso_byte D n (1024 * (?p div 1024) + j)) [0..<1024]"
  have s: "unat (f_pos sc) = p" "unat (sc_offset sc) = p mod 1024" "length (data_block st) = 1024" "length (big_data_block st) = 2048"
    using assms(1) by (simp_all add: scan_at_def)
  have "data_block st ! (p mod 1024) = iso_byte D n (1024 * (p div 1024) + p mod 1024)" using assms(1) by (simp add: scan_at_def)
  then have z: "byte_at (data_block st) (p mod 1024) = 0" using assms(4) s(3) by (simp add: byte_at_def)
  have room: "1024 * first_block n + p + 4096 < 2 ^ 31" "0 < first_block n" using assms(2,3) by (auto simp: on_disk_def)
  have pos: "unat ?pos = ?p" using unat_next_sector [of "f_pos sc"] s(1) room(1) by simp
  have "p div 2048 * 2048 \<le> p" by (rule div_times_less_eq_dividend)
  then have p: "?p \<le> p + 2048" by simp
  have q: "?p div 1024 \<le> ?p" by (rule div_le_dividend)
  have b: "unat ?b = first_block n + ?p div 1024"
  proof -
    have d: "unat (drop_bit ISO_BITS ?pos) = ?p div 1024" by (simp only: unat_block pos)
    have "(2 :: nat) ^ 32 = 2 * 2 ^ 31" by simp
    then have c: "?p div 1024 < 2 ^ 31" "first_block n + ?p div 1024 < 2 ^ 32" using room p q by linarith+
    show ?thesis using bmap_unat [of "drop_bit ISO_BITS ?pos" n] c unfolding d by blast
  qed
  have nz: "?b \<noteq> 0" using b room(2) by (metis add_is_0 less_numeral_extra(3) unat_0)
  have "?p = (2 * (p div 2048 + 1)) * 1024" by simp
  then have m: "?p mod 1024 = 0" by (simp only: mod_mult_self2_is_0)
  have "next_record listing (disk D) n sc st = (Skip \<lparr>f_pos = ?pos, sc_offset = 0, sc_block = ?b\<rparr>, st\<lparr>data_block := ?data\<rparr>)"
    using nz by (simp add: next_record_def s(2) z block_read [OF b s(3)] Let_def)
  moreover have "scan_at D n ?p \<lparr>f_pos = ?pos, sc_offset = 0, sc_block = ?b\<rparr> (st\<lparr>data_block := ?data\<rparr>)"
    unfolding scan_at_def by (simp only: scan.simps iso.simps pos b m) (simp add: s(4))
  moreover have "same_iso st (st\<lparr>data_block := ?data\<rparr>)" using s by (simp add: same_iso_def)
  ultimately show ?thesis by blast
qed

text \<open>The buffers that a record with a changed name may be put back to.\<close>

definition record_of :: "(nat \<Rightarrow> u8) \<Rightarrow> iso_inode \<Rightarrow> nat \<Rightarrow> u8 list \<Rightarrow> bool" where
  "record_of D n p r \<longleftrightarrow> unat (iso_byte D n p) \<le> length r \<and> agree (unat (iso_byte D n p)) r (record_at D n p)"

lemma record_ofI:
  assumes "\<And>j. j < unat (iso_byte D n p) \<Longrightarrow> j < length r \<and> r ! j = iso_byte D n (p + j)"
  shows "record_of D n p r"
proof -
  have "unat (iso_byte D n p) \<le> length r" using assms by (meson leI less_irrefl)
  then show ?thesis using assms by (simp add: record_of_def agree_def record_at_def byte_at_def)
qed

lemma block_of_position:
  assumes "p mod 1024 + j < (1024 :: nat)"
  shows "(p + j) div 1024 = p div 1024 \<and> (p + j) mod 1024 = p mod 1024 + j"
proof -
  have e: "p + j = (p mod 1024 + j) + p div 1024 * 1024" using div_mult_mod_eq [of p 1024] by linarith
  have "((p mod 1024 + j) + p div 1024 * 1024) div 1024 = p div 1024" using assms by (subst div_mult_self1) simp_all
  moreover have "((p mod 1024 + j) + p div 1024 * 1024) mod 1024 = p mod 1024 + j" using assms by (simp only: mod_mult_self1 mod_less)
  ultimately show ?thesis unfolding e [symmetric] by blast
qed

lemma word_of_unat: "unat w = k \<Longrightarrow> w = of_nat k" for w :: u32
  by (auto simp: of_nat_unat_ucast)

lemma position_number:
  assumes "unat (sc_offset sc) = p mod 1024" "unat (sc_block sc) = first_block n + p div 1024"
  shows "push_bit ISO_BITS (sc_block sc) + (sc_offset sc AND of_nat (ISO_BLOCKSIZE - 1)) = (of_nat (1024 * first_block n + p) :: u32)"
proof -
  have "sc_block sc = of_nat (first_block n + p div 1024)" "sc_offset sc AND of_nat (ISO_BLOCKSIZE - 1) = of_nat (p mod 1024)"
    using assms unat_and_1023 [of "sc_offset sc"] by (intro word_of_unat; simp)+
  then have "push_bit ISO_BITS (sc_block sc) + (sc_offset sc AND of_nat (ISO_BLOCKSIZE - 1)) =
      of_nat (first_block n + p div 1024) * 1024 + of_nat (p mod 1024)"
    by (simp only: ISO_BITS_def push_bit_eq_mult) simp
  also have "\<dots> = of_nat ((first_block n + p div 1024) * 1024 + (p mod 1024))" by (simp only: of_nat_add of_nat_mult of_nat_numeral)
  also have "(first_block n + p div 1024) * 1024 + (p mod 1024) = 1024 * first_block n + p"
    unfolding distrib_right add.assoc div_mult_mod_eq by simp
  finally show ?thesis .
qed

lemma read_record:
  assumes "scan_at D n p sc st" "p < unat (iso_size n)" "on_disk n" "iso_byte D n p \<noteq> 0" "p mod 1024 + unat (iso_byte D n p) < 1024"
  shows "\<exists>sc'. next_record listing (disk D) n sc st = (Entry False (p mod 1024) sc' (of_nat (1024 * first_block n + p)) True, st) \<and>
    record_of D n p (record_bytes False (p mod 1024) st) \<and>
    (\<forall>r'. length r' = length (record_bytes False (p mod 1024) st) \<longrightarrow>
       (\<forall>j\<ge>unat (iso_byte D n p). byte_at r' j = byte_at (record_bytes False (p mod 1024) st) j) \<longrightarrow>
       scan_at D n (p + unat (iso_byte D n p)) sc' (put_record False (p mod 1024) r' st) \<and> same_iso st (put_record False (p mod 1024) r' st))"
proof -
  let ?len = "unat (iso_byte D n p)" and ?o = "p mod 1024"
  let ?r = "drop ?o (data_block st)" and ?sc = "sc\<lparr>f_pos := f_pos sc + ucast (iso_byte D n p), sc_offset := sc_offset sc + ucast (iso_byte D n p)\<rparr>"
  have s: "unat (f_pos sc) = p" "unat (sc_offset sc) = ?o" "unat (sc_block sc) = first_block n + p div 1024"
      "length (data_block st) = 1024" "length (big_data_block st) = 2048"
    using assms(1) by (simp_all add: scan_at_def)
  have d: "data_block st ! j = iso_byte D n (1024 * (p div 1024) + j)" if "j < 1024" "?o \<le> j" for j
    using assms(1) that by (simp add: scan_at_def)
  have "data_block st ! ?o = iso_byte D n p" using d [of ?o] by simp
  then have z: "byte_at (data_block st) ?o = iso_byte D n p" using s(4) by (simp add: byte_at_def)
  have room: "1024 * first_block n + p + 4096 < 2 ^ 31" using assms(2,3) by (auto simp: on_disk_def)
  have u: "unat (ucast (iso_byte D n p) :: u32) = ?len" "?len < 256"
    using unsigned_less [of "iso_byte D n p", where 'a = nat] by (simp_all add: unat_ucast_mod)
  have number: "push_bit ISO_BITS (sc_block sc) + (sc_offset sc AND of_nat (ISO_BLOCKSIZE - 1)) = (of_nat (1024 * first_block n + p) :: u32)"
    by (rule position_number [OF s(2,3)])
  have e: "next_record listing (disk D) n sc st = (Entry False ?o ?sc (of_nat (1024 * first_block n + p)) True, st)"
    unfolding next_record_def Let_def s(2) z number using assms(4,5) by (simp add: ISO_BLOCKSIZE_def)
  have base: "1024 * (p div 1024) + ?o = p" by simp
  have lr: "length ?r = 1024 - ?o" using s(4) by simp
  have rec: "record_of D n p (record_bytes False ?o st)"
  proof (rule record_ofI)
    fix j assume j: "j < ?len"
    have "iso_byte D n (1024 * (p div 1024) + (?o + j)) = iso_byte D n (p + j)" by (simp only: add.assoc [symmetric] base)
    then show "j < length (record_bytes False ?o st) \<and> record_bytes False ?o st ! j = iso_byte D n (p + j)"
      using j assms(5) d [of "?o + j"] s(4) by (simp add: record_bytes_def)
  qed
  have put: "scan_at D n (p + ?len) ?sc (put_record False ?o r' st) \<and> same_iso st (put_record False ?o r' st)"
    if r': "length r' = length (record_bytes False ?o st)" "\<forall>j\<ge>?len. byte_at r' j = byte_at (record_bytes False ?o st) j" for r'
  proof -
    have l: "length r' = 1024 - ?o" using r'(1) lr by (simp add: record_bytes_def)
    have data: "length (take ?o (data_block st) @ r') = 1024" using l s(4) by simp
    note b = block_of_position [OF assms(5)]
    have "(take ?o (data_block st) @ r') ! j = iso_byte D n (1024 * (p div 1024) + j)" if j: "j < 1024" "?o + ?len \<le> j" for j
    proof -
      have "byte_at r' (j - ?o) = byte_at ?r (j - ?o)" using r'(2) j(2) by (simp add: record_bytes_def le_diff_conv2)
      moreover have "j - ?o < 1024 - ?o" using j by linarith
      ultimately have "r' ! (j - ?o) = data_block st ! j" using j l lr s(4) by (simp add: byte_at_def)
      then show ?thesis using j d [of j] s(4) by (simp add: nth_append)
    qed
    moreover have "unat (f_pos sc + ucast (iso_byte D n p)) = p + ?len" "unat (sc_offset sc + ucast (iso_byte D n p)) = ?o + ?len"
      using s(1,2) u room assms(5) by (simp_all add: unat_word_ariths)
    ultimately show ?thesis using s data b by (simp add: scan_at_def put_record_def same_iso_def)
  qed
  show ?thesis using e rec put by blast
qed

lemma copy_at_nth:
  assumes "p + length xs \<le> length b" "j < length b"
  shows "copy_at p xs b ! j = (if j < p then b ! j else if j < p + length xs then xs ! (j - p) else b ! j)"
proof -
  consider "j < p" | "p \<le> j" "j - p < length xs" "j < p + length xs" | "p \<le> j" "\<not> j - p < length xs" "\<not> j < p + length xs" by linarith
  then show ?thesis using assms by cases (simp_all add: copy_at_def nth_append min_absorb2)
qed

lemma copy_at_length: "p + length xs \<le> length b \<Longrightarrow> length (copy_at p xs b) = length b"
  by (simp add: copy_at_def)

lemma next_block_of_position:
  assumes "1024 \<le> p mod 1024 + j" "j < (1024 :: nat)"
  shows "(p + j) div 1024 = p div 1024 + 1 \<and> (p + j) mod 1024 = p mod 1024 + j - 1024"
proof -
  have "p mod 1024 < 1024" by simp
  then have r: "p mod 1024 + j - 1024 < 1024" using assms by linarith
  have "q * 1024 + m = p \<Longrightarrow> 1024 \<le> m + j \<Longrightarrow> p + j = (m + j - 1024) + (q + 1) * 1024" for q m by simp
  then have e: "p + j = (p mod 1024 + j - 1024) + (p div 1024 + 1) * 1024" using assms(1) div_mult_mod_eq by blast
  have "((p mod 1024 + j - 1024) + (p div 1024 + 1) * 1024) div 1024 = p div 1024 + 1" using r by (subst div_mult_self1) simp_all
  moreover have "((p mod 1024 + j - 1024) + (p div 1024 + 1) * 1024) mod 1024 = p mod 1024 + j - 1024" using r by (simp only: mod_mult_self1 mod_less)
  ultimately show ?thesis unfolding e [symmetric] by blast
qed

lemma read_record_across:
  assumes "scan_at D n p sc st" "p < unat (iso_size n)" "on_disk n" "iso_byte D n p \<noteq> 0" "1024 \<le> p mod 1024 + unat (iso_byte D n p)"
  shows "\<exists>sc' st'. next_record listing (disk D) n sc st = (Entry True 0 sc' (of_nat (1024 * first_block n + p)) True, st') \<and>
    same_iso st st' \<and> record_of D n p (record_bytes True 0 st') \<and>
    (\<forall>r'. length r' = length (record_bytes True 0 st') \<longrightarrow>
       scan_at D n (p + unat (iso_byte D n p)) sc' (put_record True 0 r' st') \<and> same_iso st (put_record True 0 r' st'))"
proof -
  let ?len = "unat (iso_byte D n p)" and ?o = "p mod 1024"
  let ?f = "1024 - ?o" and ?off = "?o + ?len - 1024"
  have s: "unat (f_pos sc) = p" "unat (sc_offset sc) = ?o" "unat (sc_block sc) = first_block n + p div 1024"
      "length (data_block st) = 1024" "length (big_data_block st) = 2048"
    using assms(1) by (simp_all add: scan_at_def)
  have d: "data_block st ! j = iso_byte D n (1024 * (p div 1024) + j)" if "j < 1024" "?o \<le> j" for j
    using assms(1) that by (simp add: scan_at_def)
  have "data_block st ! ?o = iso_byte D n p" using d [of ?o] by simp
  then have z: "byte_at (data_block st) ?o = iso_byte D n p" using s(4) by (simp add: byte_at_def)
  have room: "1024 * first_block n + p + 4096 < 2 ^ 31" "0 < first_block n" using assms(2,3) by (auto simp: on_disk_def)
  have u: "unat (ucast (iso_byte D n p) :: u32) = ?len" "?len < 256"
    using unsigned_less [of "iso_byte D n p", where 'a = nat] by (simp_all add: unat_ucast_mod)
  have "?o < 1024" by simp
  then have fo: "?f + ?off = ?len" "?off < 1024" using assms(5) u(2) by linarith+
  have nx: "(p + ?len) div 1024 = p div 1024 + 1" "(p + ?len) mod 1024 = ?off"
    using next_block_of_position [OF assms(5)] u(2) by auto
  let ?pos = "f_pos sc + ucast (iso_byte D n p)"
  let ?b = "isofs_bmap n (drop_bit ISO_BITS ?pos)" and ?off' = "?pos AND of_nat (ISO_BLOCKSIZE - 1)"
  have pos: "unat ?pos = p + ?len" using s(1) u room(1) by (simp add: unat_word_ariths)
  have off: "unat ?off' = ?off" unfolding unat_and_1023 pos nx(2) ..
  have db: "unat (drop_bit ISO_BITS ?pos) = p div 1024 + 1" by (simp only: unat_block pos nx(1))
  have "p div 1024 \<le> p" by (rule div_le_dividend)
  then have c: "p div 1024 + 1 < 2 ^ 31" "first_block n + (p div 1024 + 1) < 2 ^ 32" using room(1) by simp_all
  have b: "unat ?b = first_block n + (p div 1024 + 1)" using bmap_unat [of "drop_bit ISO_BITS ?pos" n] c unfolding db by blast
  have nz: "?b \<noteq> 0" using b by (metis add_is_0 room(2) less_numeral_extra(3) unat_0)
  let ?new = "map (\<lambda>j. iso_byte D n (1024 * (p div 1024 + 1) + j)) [0..<1024]"
  let ?big1 = "copy_at 0 (take ?f (drop ?o (data_block st))) (big_data_block st)"
  let ?big = "copy_at ?f (take ?off ?new) ?big1"
  let ?st = "st\<lparr>data_block := ?new, big_data_block := ?big\<rparr>"
  have number: "push_bit ISO_BITS (sc_block sc) + (sc_offset sc AND of_nat (ISO_BLOCKSIZE - 1)) = (of_nat (1024 * first_block n + p) :: u32)"
    by (rule position_number [OF s(2,3)])
  have l1: "length ?big1 = 2048" using s(4,5) by (simp add: copy_at_length)
  have l2: "length ?big = 2048" using fo u(2) l1 by (subst copy_at_length) simp_all
  have rd: "isofs_bread (disk D) (ucast ?b) (data_block st) = (True, ?new)" by (rule block_read [OF b s(4)])
  have e: "next_record listing (disk D) n sc st =
      (Entry True 0 \<lparr>f_pos = ?pos, sc_offset = ?off', sc_block = ?b\<rparr> (of_nat (1024 * first_block n + p)) True, ?st)"
    unfolding next_record_def Let_def s(2) z number off rd using assms(4,5) nz by (simp add: ISO_BLOCKSIZE_def)
  have rec: "record_of D n p (record_bytes True 0 ?st)"
  proof (rule record_ofI)
    fix j assume j: "j < ?len"
    have base: "1024 * (p div 1024) + (?o + j) = p + j" using mult_div_mod_eq [of 1024 p] by linarith
    have lx: "length (take ?off ?new) = ?off" using fo(2) by simp
    have big: "?big ! j = (if j < ?f then ?big1 ! j else if j < ?f + ?off then take ?off ?new ! (j - ?f) else ?big1 ! j)"
    proof -
      have "?f + ?off \<le> 2048" "j < 2048" unfolding fo(1) using j u(2) by linarith+
      then show ?thesis using copy_at_nth [of ?f "take ?off ?new" ?big1 j] unfolding lx l1 by blast
    qed
    have "?big ! j = iso_byte D n (p + j)"
    proof (cases "j < ?f")
      case True
      have "?big1 ! j = data_block st ! (?o + j)" using copy_at_nth [of 0 "take ?f (drop ?o (data_block st))" _ j] True s(4,5) by simp
      then show ?thesis using big d [of "?o + j"] True base by simp
    next
      case False
      have "1024 * q + (m + j) = p + j \<Longrightarrow> \<not> j < 1024 - m \<Longrightarrow> m < 1024 \<Longrightarrow> 1024 * (q + 1) + (j - (1024 - m)) = p + j" for q m by simp
      then have at: "1024 * (p div 1024 + 1) + (j - ?f) = p + j" using base False \<open>?o < 1024\<close> by blast
      have "f + x = l \<Longrightarrow> \<not> j < f \<Longrightarrow> j < l \<Longrightarrow> x < 1024 \<Longrightarrow> j - f < x \<and> j - f < 1024" for f x l :: nat by linarith
      then have jo: "j - ?f < ?off" "j - ?f < 1024" using fo False j by blast+
      have "take ?off ?new ! (j - ?f) = iso_byte D n (1024 * (p div 1024 + 1) + (j - ?f))" using jo by simp
      then show ?thesis using big unfolding fo(1) at by (simp only: False j if_False if_True)
    qed
    then show "j < length (record_bytes True 0 ?st) \<and> record_bytes True 0 ?st ! j = iso_byte D n (p + j)"
      using j u(2) l2 by (simp add: record_bytes_def)
  qed
  have "scan_at D n (p + ?len) \<lparr>f_pos = ?pos, sc_offset = ?off', sc_block = ?b\<rparr> (put_record True 0 r' ?st) \<and>
      same_iso st (put_record True 0 r' ?st)" if "length r' = 2048" for r'
    using that pos off b nx s by (simp add: scan_at_def put_record_def same_iso_def)
  moreover have "length (record_bytes True 0 ?st) = 2048" using l2 by (simp add: record_bytes_def)
  moreover have "same_iso st ?st" using l2 by (simp add: same_iso_def)
  ultimately show ?thesis using e rec by auto
qed

end
