(* ===== verification/Iso_Search.thy ===== *)
theory Iso_Search
  imports Iso_Dirs
begin

text \<open>The search in a directory is a search in the list of its records.\<close>

lemma next_sector_above: "p < (p div 2048 + 1) * (2048 :: nat)"
  using dividend_less_div_times [of 2048 p] by (simp add: add.commute)

lemma some_byte: "b \<noteq> 0 \<Longrightarrow> 0 < unat b" for b :: u8
  by (simp add: unat_gt_0)

function dir_records :: "(nat \<Rightarrow> u8) \<Rightarrow> nat \<Rightarrow> nat \<Rightarrow> nat list" where
  "dir_records d sz p =
     (if p < sz then
        if d p = 0 then dir_records d sz ((p div 2048 + 1) * 2048) else p # dir_records d sz (p + unat (d p))
      else [])"
  by auto

termination
proof (relation "measure (\<lambda>(d, sz, p). sz - p)", goal_cases)
  case (2 d sz p)
  then show ?case using next_sector_above [of p] by (simp add: diff_less_mono2 del: mult_Suc)
next
  case (3 d sz p)
  then show ?case using some_byte by (simp add: diff_less_mono2)
qed simp

declare dir_records.simps [simp del]

definition directory_of :: "(nat \<Rightarrow> u8) \<Rightarrow> iso_inode \<Rightarrow> nat list" where
  "directory_of D n = dir_records (iso_byte D n) (unat (iso_size n)) 0"

definition record_fits :: "(nat \<Rightarrow> u8) \<Rightarrow> iso_inode \<Rightarrow> nat \<Rightarrow> bool" where
  "record_fits D n p \<longleftrightarrow> rec_len (record_at D n p) \<le> unat (iso_byte D n p)"

definition answers :: "(nat \<Rightarrow> u8) \<Rightarrow> iso_inode \<Rightarrow> isofs_super_block \<Rightarrow> u8 list \<Rightarrow> nat \<Rightarrow> bool" where
  "answers D n sb name p \<longleftrightarrow> shown sb (record_at D n p) \<and> isofs_match name (fst (entry_name sb (Some (length name)) (record_at D n p)))"

definition number_at :: "(nat \<Rightarrow> u8) \<Rightarrow> iso_inode \<Rightarrow> isofs_super_block \<Rightarrow> nat \<Rightarrow> u32 \<times> u32" where
  "number_at D n sb p = entry_number n sb (record_at D n p) (of_nat (1024 * first_block n + p))"

text \<open>What the search answers, with the state that it leaves.\<close>

definition search_result :: "(nat \<Rightarrow> u8) \<Rightarrow> iso_inode \<Rightarrow> isofs_super_block \<Rightarrow> u32 \<Rightarrow> nat option \<Rightarrow> iso \<Rightarrow> int \<times> u64 \<times> u64 \<times> iso" where
  "search_result D n sb back hit st =
     (case hit of None \<Rightarrow> (-1, 0, ucast back, st)
      | Some p \<Rightarrow> if fst (number_at D n sb p) = - 1 then (-1, 0, ucast back, st)
          else (0, ucast (fst (number_at D n sb p)), ucast (snd (number_at D n sb p)), st))"

lemma record_entry:
  assumes "record_of D n p r" "record_fits D n p"
  shows "fst (entry_name sb w r) = fst (entry_name sb w (record_at D n p))" "entry_number n sb r x = entry_number n sb (record_at D n p) x"
    "shown sb (snd (entry_name sb w r)) = shown sb (record_at D n p)" "length (snd (entry_name sb w r)) = length r"
    "\<forall>j\<ge>unat (iso_byte D n p). byte_at (snd (entry_name sb w r)) j = byte_at r j"
proof -
  let ?q = "record_at D n p"
  have a: "agree (unat (iso_byte D n p)) r ?q" "unat (iso_byte D n p) \<le> length r" using assms(1) by (simp_all add: record_of_def)
  have f: "rec_len ?q \<le> unat (iso_byte D n p)" using assms(2) by (simp add: record_fits_def)
  have l: "rec_len r = rec_len ?q" using rec_len_agree [OF a(1)] f by (simp add: rec_len_def)
  have b: "agree (rec_len r) r ?q" using agree_less [OF a(1)] f l by simp
  have len: "rec_len r \<le> length r" "rec_len r \<le> length ?q" using a(2) f l by (simp_all add: record_at_def)
  show "fst (entry_name sb w r) = fst (entry_name sb w ?q)" using entry_name_agree [OF b len] by simp
  show "entry_number n sb r x = entry_number n sb ?q x" using b by (rule entry_number_agree)
  show "shown sb (snd (entry_name sb w r)) = shown sb ?q" using shown_agree [OF agree_less [OF b]] by (simp add: rec_len_def)
  show "length (snd (entry_name sb w r)) = length r" using entry_name_frame by simp
  show "\<forall>j\<ge>unat (iso_byte D n p). byte_at (snd (entry_name sb w r)) j = byte_at r j" using entry_name_frame f l by simp
qed

text \<open>The two ways to read a record come to the same.\<close>

lemma next_entry:
  assumes "scan_at D n p sc st" "p < unat (iso_size n)" "on_disk n" "iso_byte D n p \<noteq> 0" "record_fits D n p"
  shows "\<exists>big at sc' x st1 r r'. next_record False (disk D) n sc st = (Entry big at sc' x True, st1) \<and>
    r = record_bytes big at st1 \<and> r' = snd (entry_name (iso_sb st) (Some (length name)) r) \<and> same_iso st st1 \<and>
    fst (entry_name (iso_sb st) (Some (length name)) r) = fst (entry_name (iso_sb st) (Some (length name)) (record_at D n p)) \<and>
    entry_number n (iso_sb st) r x = number_at D n (iso_sb st) p \<and>
    shown (iso_sb st) r' = shown (iso_sb st) (record_at D n p) \<and>
    scan_at D n (p + unat (iso_byte D n p)) sc' (put_record big at r' st1) \<and> same_iso st (put_record big at r' st1)"
proof (cases "p mod 1024 + unat (iso_byte D n p) < 1024")
  case True
  have same: "same_iso st st" using assms(1) by (simp add: same_iso_def scan_at_def)
  show ?thesis using read_record [OF assms(1-4) True, of False] record_entry [OF _ assms(5)] same unfolding number_at_def by metis
next
  case False
  then show ?thesis using read_record_across [OF assms(1-4), of False] record_entry [OF _ assms(5)] unfolding number_at_def by (metis not_less)
qed

lemma find_records_finds:
  assumes "scan_at D n p sc st" "on_disk n" "\<forall>q\<in>set (dir_records (iso_byte D n) (unat (iso_size n)) p). record_fits D n q"
  shows "\<exists>st'. same_iso st st' \<and> find_records (disk D) n name back sc st =
    Some (search_result D n (iso_sb st) back (find (answers D n (iso_sb st) name) (dir_records (iso_byte D n) (unat (iso_size n)) p)) st')"
  using assms
proof (induction "unat (iso_size n) - p" arbitrary: p sc st rule: less_induct)
  case less
  let ?sz = "unat (iso_size n)" and ?d = "iso_byte D n"
  have pos: "f_pos sc < iso_size n \<longleftrightarrow> p < ?sz" using less.prems(1) by (simp add: scan_at_def word_less_nat_alt)
  have same: "same_iso st st" using less.prems(1) by (simp add: same_iso_def scan_at_def)
  show ?case
  proof (cases "p < ?sz")
    case False
    then show ?thesis using pos same by (subst find_records.simps, subst dir_records.simps) (auto simp: search_result_def)
  next
    case lt: True
    show ?thesis
    proof (cases "?d p = 0")
      case True
      let ?p = "(p div 2048 + 1) * 2048"
      obtain sc' st1 where n: "next_record False (disk D) n sc st = (Skip sc', st1)" "scan_at D n ?p sc' st1" "same_iso st st1"
        using skip_sector [OF less.prems(1) lt less.prems(2) True] by blast
      have r: "dir_records ?d ?sz p = dir_records ?d ?sz ?p" using lt True by (subst dir_records.simps) simp
      have "?sz - ?p < ?sz - p" using lt next_sector_above [of p] by (rule diff_less_mono2 [rotated])
      from less.hyps [OF this n(2) less.prems(2)] less.prems(3) obtain st' where "same_iso st1 st'"
          "find_records (disk D) n name back sc' st1 = Some (search_result D n (iso_sb st1) back (find (answers D n (iso_sb st1) name) (dir_records ?d ?sz ?p)) st')"
        unfolding r by blast
      moreover have "find_records (disk D) n name back sc st = find_records (disk D) n name back sc' st1"
        using n(1) lt pos by (subst find_records.simps) simp
      ultimately show ?thesis using same_iso_trans [OF n(3)] same_iso_fields [OF n(3)] unfolding r by auto
    next
      case False
      let ?p = "p + unat (?d p)"
      have r: "dir_records ?d ?sz p = p # dir_records ?d ?sz ?p" using lt False by (subst dir_records.simps) simp
      have fits: "record_fits D n p" "\<forall>q\<in>set (dir_records ?d ?sz ?p). record_fits D n q" using less.prems(3) unfolding r by simp_all
      obtain big at sc' x st1 r r' where n: "next_record False (disk D) n sc st = (Entry big at sc' x True, st1)"
          "r = record_bytes big at st1" "r' = snd (entry_name (iso_sb st) (Some (length name)) r)" "same_iso st st1"
          "fst (entry_name (iso_sb st) (Some (length name)) r) = fst (entry_name (iso_sb st) (Some (length name)) (record_at D n p))"
          "entry_number n (iso_sb st) r x = number_at D n (iso_sb st) p"
          "shown (iso_sb st) r' = shown (iso_sb st) (record_at D n p)"
          "scan_at D n ?p sc' (put_record big at r' st1)" "same_iso st (put_record big at r' st1)"
        using next_entry [OF less.prems(1) lt less.prems(2) False fits(1)] by blast
      let ?st = "put_record big at r' st1"
      have sb: "iso_sb st1 = iso_sb st" "iso_sb ?st = iso_sb st" using same_iso_fields [OF n(4)] same_iso_fields [OF n(9)] by simp_all
      have "?sz - ?p < ?sz - p" by (rule diff_less_mono2) (use lt some_byte [OF False] in simp_all)
      from less.hyps [OF this n(8) less.prems(2) fits(2)] obtain st' where ih: "same_iso ?st st'"
          "find_records (disk D) n name back sc' ?st = Some (search_result D n (iso_sb ?st) back (find (answers D n (iso_sb ?st) name) (dir_records ?d ?sz ?p)) st')"
        by blast
      have e: "find_records (disk D) n name back sc st =
          (if answers D n (iso_sb st) name p then
             if fst (number_at D n (iso_sb st) p) = - 1 then Some (-1, 0, ucast back, ?st)
             else Some (0, ucast (fst (number_at D n (iso_sb st) p)), ucast (snd (number_at D n (iso_sb st) p)), ?st)
           else find_records (disk D) n name back sc' ?st)"
        using n(1) lt pos
        by (subst find_records.simps) (simp add: n(2) [symmetric] sb n(6) n(5,7) n(3) [symmetric] answers_def split_beta Let_def)
      show ?thesis
      proof (cases "answers D n (iso_sb st) name p")
        case True
        then show ?thesis using n(9) unfolding e r by (auto simp: search_result_def)
      next
        case False
        then show ?thesis using ih same_iso_trans [OF n(9)] unfolding e r sb by auto
      qed
    qed
  qed
qed

end
