(* ===== verification/Iso_Paths.thy ===== *)
theory Iso_Paths
  imports Iso_Search
begin

unbundle bit_operations_syntax

text \<open>Opening a file by its path: directories as lists of records, inodes as the records that they are numbered by.\<close>

subsection \<open>Inodes\<close>

definition iso_record :: "(nat \<Rightarrow> u8) \<Rightarrow> u32 \<Rightarrow> u8 list" where
  "iso_record D ino = map (\<lambda>j. D (unat ino + j)) [0..<unat (D (unat ino))]"

definition blank_inode :: iso_inode where
  "blank_inode = \<lparr>i_first_extent = 0, i_backlink = 0, i_file_format = 0, iso_inumber = 0, iso_free = True, iso_size = 0, iso_nlink = 0, iso_mode = 0\<rparr>"

definition node :: "(nat \<Rightarrow> u8) \<Rightarrow> isofs_super_block \<Rightarrow> u32 \<Rightarrow> iso_inode" where
  "node D sb ino = snd (fill_inode (iso_record D ino) ino sb blank_inode)"

text \<open>The record lies in one block, has its name, and its file is not larger than a disk.\<close>

definition number_ok :: "(nat \<Rightarrow> u8) \<Rightarrow> u32 \<Rightarrow> bool" where
  "number_ok D ino \<longleftrightarrow> unat ino < 2 ^ 31 \<and> unat ino mod 1024 + unat (D (unat ino)) \<le> 1024 \<and>
     rec_len (iso_record D ino) \<le> unat (D (unat ino)) \<and> unat (r_size (iso_record D ino)) \<le> 700000000"

definition iso_ok :: "iso \<Rightarrow> bool" where
  "iso_ok st \<longleftrightarrow> length (data_block st) = 1024 \<and> length (big_data_block st) = 2048 \<and>
     s_conversion (iso_sb st) = 0x62 \<and> s_cruft (iso_sb st) = 0x6e"

lemma find_agree: "(\<forall>i<n. P i = Q i) \<Longrightarrow> find P [0..<n] = find Q [0..<n]"
  by (rule find_cong) auto

lemma plain_name_agree: "agree (rec_len r) r r' \<Longrightarrow> plain_name r = plain_name r'"
proof -
  assume a: "agree (rec_len r) r r'"
  have l: "r_name_len r' = r_name_len r" using rec_len_agree [OF a] by (simp add: rec_len_def)
  have n: "r_name r i = r_name r' i" if "i < r_name_len r" for i using agree_name [OF a] that by (simp add: rec_len_def)
  then have f: "find (\<lambda>i. r_name r i = 0x2e \<or> r_name r i = 0x3b) [0..<r_name_len r] = find (\<lambda>i. r_name r' i = 0x2e \<or> r_name r' i = 0x3b) [0..<r_name_len r]"
    by (intro find_agree) simp
  show ?thesis unfolding plain_name_def l f by (simp split: option.split) (auto simp: find_Some_iff n)
qed

lemma r_size_agree: "agree 33 r r' \<Longrightarrow> r_size r = r_size r'"
  by (simp add: r_size_def isonum_733_def isonum_731_def agree_def)

lemma fill_inode_agree:
  assumes "agree (rec_len r) r r'" "s_conversion sb = 0x62"
  shows "fill_inode r ino sb n = fill_inode r' ino sb n'"
proof -
  have a: "agree 33 r r'" using agree_less [OF assms(1)] by (simp add: rec_len_def)
  have "r_flags h r = r_flags h r'" "r_interleave r = r_interleave r'" "r_extent r = r_extent r'" "isonum_711 r 1 = isonum_711 r' 1" for h
    using a by (simp_all add: r_flags_def r_interleave_def r_extent_def isonum_733_def isonum_731_def isonum_711_def agree_def)
  then show ?thesis using plain_name_agree [OF assms(1)] r_size_agree [OF a] assms(2) by (simp add: fill_inode_def Let_def)
qed

lemma fill_inode_super:
  assumes "unat (r_size r) \<le> 700000000" "s_cruft sb = 0x6e"
  shows "fst (fill_inode r ino sb n) = sb"
proof -
  have "\<not> r_size r <s 0" using nonnegative [of "r_size r"] assms(1) by simp
  moreover have "sint (r_size r) = int (unat (r_size r))"
  proof -
    have "nat (uint (r_size r)) < 2 ^ 31" using assms(1) by (simp only: unat_eq_nat_uint) simp
    then have "uint (r_size r) < 2 ^ 31" by (simp only: nat_less_iff [OF uint_ge_0] of_nat_power of_nat_numeral)
    moreover have "- (2 ^ 31) \<le> uint (r_size r)" by (rule order_trans [OF _ uint_ge_0]) simp
    ultimately have "signed_take_bit 31 (uint (r_size r)) = uint (r_size r)" by (rule signed_take_bit_int_eq_self [rotated])
    then show ?thesis by (simp add: sint_uint)
  qed
  moreover have "int (unat (r_size r)) \<le> int 700000000" using assms(1) by (simp only: of_nat_le_iff)
  ultimately have "\<not> r_size r <s 0" "sint (r_size r) \<le> 700000000" by (simp, simp only: of_nat_numeral)
  then have "\<not> r_size r <s 0" "\<not> 700000000 <s r_size r" by (simp_all add: word_sless_alt)
  then show ?thesis by (simp add: fill_inode_def Let_def)
qed

lemma block_of_number: "unat ino < 2 ^ 31 \<Longrightarrow> (scast (signed_drop_bit ISO_BITS ino) :: u64) = ucast (drop_bit ISO_BITS ino)" for ino :: u32
proof -
  assume "unat ino < 2 ^ 31"
  then have "\<not> bit (unat ino) 31" by (simp add: bit_iff_odd)
  then have "\<not> bit ino 31" by (simp add: bit_unsigned_iff)
  then show ?thesis by (intro bit_word_eqI) (auto simp: ISO_BITS_def bit_simps dest: bit_imp_le_length)
qed

lemma iget_node:
  assumes "iso_ok st" "first_free_slot st = Some i" "number_ok D ino"
  shows "\<exists>st'. isofs_iget (disk D) ino st = Some (Some i, upd_slot i (\<lambda>_. node D (iso_sb st) ino) st') \<and> same_iso st st'"
proof -
  let ?o = "unat ino mod 1024" and ?len = "unat (D (unat ino))"
  let ?data = "map (\<lambda>j. D (unat ino div 1024 * 1024 + j)) [0..<1024]"
  let ?st = "st\<lparr>data_block := ?data\<rparr>"
  have ok: "unat ino < 2 ^ 31" "?o + ?len \<le> 1024" "rec_len (iso_record D ino) \<le> ?len" "unat (r_size (iso_record D ino)) \<le> 700000000"
    using assms(3) by (simp_all add: number_ok_def)
  have st: "length (data_block st) = 1024" "length (big_data_block st) = 2048" "s_conversion (iso_sb st) = 0x62" "s_cruft (iso_sb st) = 0x6e"
    using assms(1) by (simp_all add: iso_ok_def)
  have base: "unat ino div 1024 * 1024 + (?o + j) = unat ino + j" for j by simp
  have rd: "isofs_bread (disk D) (scast (signed_drop_bit ISO_BITS ino)) (data_block st) = (True, ?data)"
    unfolding block_of_number [OF ok(1)] bread_disk unat_block using st(1) by simp
  have "?data ! ?o = D (unat ino + 0)" unfolding base [symmetric] by (subst nth_map) simp_all
  then have len: "byte_at ?data ?o = D (unat ino)" by (simp add: byte_at_def)
  have raw: "raw_inode (disk D) ino st = Some (Some (drop ?o ?data), ?st)"
    unfolding raw_inode_def Let_def unat_and_1023 rd prod.case by (simp only: if_False not_True_eq_False) (use ok(2) len in \<open>simp add: ISO_BLOCKSIZE_def\<close>)
  have a: "agree ?len (iso_record D ino) (drop ?o ?data)"
    unfolding agree_def
  proof (intro allI impI)
    fix j assume j: "j < ?len"
    then have "j < 1024 - ?o" using ok(2) by linarith
    moreover have "drop ?o ?data ! j = D (unat ino + j)" unfolding base [symmetric] using j ok(2) by (subst nth_drop, simp, subst nth_map) simp_all
    ultimately show "byte_at (iso_record D ino) j = byte_at (drop ?o ?data) j" using j ok(2) by (simp add: byte_at_def iso_record_def)
  qed
  then have f: "fill_inode (drop ?o ?data) ino (iso_sb st) (iso_table st ! i) = fill_inode (iso_record D ino) ino (iso_sb st) blank_inode"
    using fill_inode_agree [OF agree_less [OF a ok(3)] st(3)] by metis
  have fi: "fill_inode (iso_record D ino) ino (iso_sb st) blank_inode = (iso_sb st, node D (iso_sb st) ino)"
    using fill_inode_super [OF ok(4) st(4)] by (simp add: node_def prod_eq_iff)
  have "isofs_iget (disk D) ino st = Some (Some i, upd_slot i (\<lambda>_. node D (iso_sb st) ino) ?st)"
    by (simp add: isofs_iget_def assms(2) raw f fi)
  moreover have "same_iso st ?st" using st(2) by (simp add: same_iso_def)
  ultimately show ?thesis by blast
qed

subsection \<open>Directories and paths\<close>

definition entry_in :: "(nat \<Rightarrow> u8) \<Rightarrow> isofs_super_block \<Rightarrow> iso_inode \<Rightarrow> u8 list \<Rightarrow> (u32 \<times> u32) option" where
  "entry_in D sb n name = (case find (answers D n sb name) (directory_of D n) of None \<Rightarrow> None
     | Some p \<Rightarrow> if fst (number_at D n sb p) = - 1 then None else Some (number_at D n sb p))"

definition good_directory :: "(nat \<Rightarrow> u8) \<Rightarrow> iso_inode \<Rightarrow> bool" where
  "good_directory D n \<longleftrightarrow> on_disk n \<and> (\<forall>p\<in>set (directory_of D n). record_fits D n p)"

text \<open>The inode that a path leads to, and that every directory and record on the way is well formed.\<close>

fun iso_path :: "(nat \<Rightarrow> u8) \<Rightarrow> isofs_super_block \<Rightarrow> iso_inode \<Rightarrow> u8 list list \<Rightarrow> iso_inode option" where
  "iso_path D sb n [] = None"
| "iso_path D sb n [c] = (case entry_in D sb n c of None \<Rightarrow> None | Some (ino, back) \<Rightarrow> Some ((node D sb ino)\<lparr>i_backlink := back\<rparr>))"
| "iso_path D sb n (c # cs) = (case entry_in D sb n c of None \<Rightarrow> None | Some (ino, back) \<Rightarrow> iso_path D sb (node D sb ino) cs)"

fun iso_good :: "(nat \<Rightarrow> u8) \<Rightarrow> isofs_super_block \<Rightarrow> iso_inode \<Rightarrow> u8 list list \<Rightarrow> bool" where
  "iso_good D sb n [] = True"
| "iso_good D sb n (c # cs) \<longleftrightarrow> good_directory D n \<and>
     (case entry_in D sb n c of None \<Rightarrow> True | Some (ino, back) \<Rightarrow> number_ok D ino \<and> iso_good D sb (node D sb ino) cs)"

lemma find_entry_finds:
  assumes "iso_ok st" "good_directory D n" "iso_table st ! dir = n"
  shows "\<exists>st' res. same_iso st st' \<and> isofs_find_entry (disk D) dir name back st = Some res \<and>
    (case entry_in D (iso_sb st) n name of None \<Rightarrow> fst res = -1 \<and> snd (snd (snd res)) = st'
     | Some (ino, b) \<Rightarrow> res = (0, ucast ino, ucast b, st'))"
proof -
  let ?data = "map (\<lambda>j. iso_byte D n (1024 * 0 + j)) [0..<1024]" and ?b = "isofs_bmap n 0"
  have st: "length (data_block st) = 1024" "length (big_data_block st) = 2048" using assms(1) by (simp_all add: iso_ok_def)
  have d: "on_disk n" "\<forall>q\<in>set (dir_records (iso_byte D n) (unat (iso_size n)) 0). record_fits D n q" "0 < first_block n"
    using assms(2) by (simp_all add: good_directory_def directory_of_def on_disk_def)
  have b: "unat ?b = first_block n + 0" using bmap_unat [of 0 n] d(1) by (simp add: on_disk_def)
  have nz: "?b \<noteq> 0" "i_first_extent n \<noteq> 0" using b d(3) by (auto simp: first_block_def)
  have s: "start_scan (disk D) n st = (Some \<lparr>f_pos = 0, sc_offset = 0, sc_block = ?b\<rparr>, st\<lparr>data_block := ?data\<rparr>)"
    unfolding start_scan_def Let_def block_read [OF b st(1)] using nz by simp
  have "scan_at D n 0 \<lparr>f_pos = 0, sc_offset = 0, sc_block = ?b\<rparr> (st\<lparr>data_block := ?data\<rparr>)"
    using b st(2) by (simp add: scan_at_def)
  from find_records_finds [OF this d(1,2)]
  obtain st' where r: "same_iso (st\<lparr>data_block := ?data\<rparr>) st'"
      "find_records (disk D) n name back \<lparr>f_pos = 0, sc_offset = 0, sc_block = ?b\<rparr> (st\<lparr>data_block := ?data\<rparr>) =
        Some (search_result D n (iso_sb st) back (find (answers D n (iso_sb st) name) (directory_of D n)) st')"
    by (auto simp: directory_of_def)
  have "same_iso st (st\<lparr>data_block := ?data\<rparr>)" using st(2) by (simp add: same_iso_def)
  then have "same_iso st st'" using r(1) by (rule same_iso_trans)
  moreover have "isofs_find_entry (disk D) dir name back st = Some (search_result D n (iso_sb st) back (find (answers D n (iso_sb st) name) (directory_of D n)) st')"
    using r(2) by (simp add: isofs_find_entry_def assms(3) s)
  ultimately show ?thesis by (fastforce simp: search_result_def entry_in_def split: option.split)
qed

lemma ucast_back [simp]: "(ucast (ucast x :: u64) :: u32) = x" for x :: u32
  by (rule bit_word_eqI) (auto simp: bit_simps)

lemma first_free_ex:
  assumes "k < length (iso_table st)" "iso_free (iso_table st ! k)"
  obtains i where "first_free_slot st = Some i" "i < length (iso_table st)" "iso_free (iso_table st ! i)"
proof (cases "first_free_slot st")
  case None
  then show ?thesis using assms by (simp add: first_free_slot_def find_None_iff)
next
  case (Some i)
  then have "i < length (iso_table st)" "iso_free (iso_table st ! i)" by (auto simp: first_free_slot_def find_Some_iff)
  then show ?thesis using that Some by blast
qed

lemma iso_ok_same: "iso_ok st \<Longrightarrow> same_iso st st' \<Longrightarrow> iso_ok st'"
  using same_iso_fields [of st st'] unfolding same_iso_def iso_ok_def by metis

lemma upd_slot_fields [simp]:
  "iso_sb (upd_slot i f st) = iso_sb st" "length (iso_table (upd_slot i f st)) = length (iso_table st)"
  "root_inode (upd_slot i f st) = root_inode st" "iso_ok (upd_slot i f st) = iso_ok st"
  by (simp_all add: upd_slot_def iso_ok_def)

lemma upd_slot_nth: "i < length (iso_table st) \<Longrightarrow> iso_table (upd_slot i f st) ! j = (if j = i then f (iso_table st ! i) else iso_table st ! j)"
  by (simp add: upd_slot_def nth_list_update)

lemma node_free [simp]: "\<not> iso_free (node D sb ino)"
  by (simp add: node_def fill_inode_def Let_def)

text \<open>An inode is read to a free slot; other slots are not touched.\<close>

lemma iso_iget_slot:
  assumes "iso_ok st" "number_ok D ino" "k < length (iso_table st)" "iso_free (iso_table st ! k)"
  obtains i st' where "isofs_iget (disk D) ino st = Some (Some i, st')" "i < length (iso_table st)" "iso_free (iso_table st ! i)"
    "iso_ok st'" "iso_sb st' = iso_sb st" "iso_table st' = (iso_table st)[i := node D (iso_sb st) ino]" "root_inode st' = root_inode st"
proof -
  obtain i where i: "first_free_slot st = Some i" "i < length (iso_table st)" "iso_free (iso_table st ! i)"
    using first_free_ex [OF assms(3,4)] .
  obtain st1 where s: "isofs_iget (disk D) ino st = Some (Some i, upd_slot i (\<lambda>_. node D (iso_sb st) ino) st1)" "same_iso st st1"
    using iget_node [OF assms(1) i(1) assms(2)] by blast
  show thesis
    by (rule that [OF s(1) i(2,3)]) (use iso_ok_same [OF assms(1) s(2)] same_iso_fields [OF s(2)] in \<open>simp_all add: upd_slot_def iso_ok_def\<close>)
qed

text \<open>The slots in use but that of the directory stay as they are; the file is in a slot that was free, or in the directory's.\<close>

definition kept_slots :: "nat \<Rightarrow> iso \<Rightarrow> iso \<Rightarrow> bool" where
  "kept_slots dir st st' \<longleftrightarrow> length (iso_table st') = length (iso_table st) \<and>
     (\<forall>j<length (iso_table st). j \<noteq> dir \<longrightarrow> \<not> iso_free (iso_table st ! j) \<longrightarrow> iso_table st' ! j = iso_table st ! j)"

lemma iput_table: "dir < length (iso_table st) \<Longrightarrow>
  iso_table (isofs_iput dir st) ! j = (if j = dir then (iso_table st ! dir)\<lparr>iso_inumber := 0, iso_free := True\<rparr> else iso_table st ! j)"
  by (simp add: isofs_iput_def upd_slot_nth)

lemma iput_fields [simp]: "iso_sb (isofs_iput i st) = iso_sb st" "length (iso_table (isofs_iput i st)) = length (iso_table st)"
  "iso_ok (isofs_iput i st) = iso_ok st"
  by (simp_all add: isofs_iput_def)

definition other_free :: "nat \<Rightarrow> iso \<Rightarrow> bool" where
  "other_free dir st \<longleftrightarrow> dir < length (iso_table st) \<and> (\<exists>k<length (iso_table st). k \<noteq> dir \<and> iso_free (iso_table st ! k))"

text \<open>One directory is replaced by the next.\<close>

lemma replace_directory:
  assumes "iso_ok st" "other_free dir st" "number_ok D ino"
  obtains i st' where "isofs_iget (disk D) ino (isofs_iput dir st) = Some (Some i, st')" "iso_ok st'" "iso_sb st' = iso_sb st"
    "iso_table st' ! i = node D (iso_sb st) ino" "other_free i st'" "kept_slots dir st st'" "i = dir \<or> iso_free (iso_table st ! i)"
    "\<forall>j<length (iso_table st). j \<noteq> dir \<longrightarrow> \<not> iso_free (iso_table st ! j) \<longrightarrow> j \<noteq> i \<and> iso_table st' ! j = iso_table st ! j"
    "\<forall>j<length (iso_table st). j \<noteq> i \<longrightarrow> iso_free (iso_table st' ! j) \<longrightarrow> j = dir \<or> iso_free (iso_table st ! j)"
proof -
  let ?st = "isofs_iput dir st"
  have dir: "dir < length (iso_table st)" using assms(2) by (simp add: other_free_def)
  obtain k where k: "k < length (iso_table st)" "k \<noteq> dir" "iso_free (iso_table st ! k)" using assms(2) by (auto simp: other_free_def)
  have free: "iso_free (iso_table ?st ! j) \<longleftrightarrow> j = dir \<or> iso_free (iso_table st ! j)" for j by (simp add: iput_table [OF dir])
  obtain i st' where i: "isofs_iget (disk D) ino ?st = Some (Some i, st')" "i < length (iso_table st)" "iso_free (iso_table ?st ! i)"
      "iso_ok st'" "iso_sb st' = iso_sb st" "iso_table st' = (iso_table ?st)[i := node D (iso_sb st) ino]"
  proof -
    have "iso_ok ?st" "dir < length (iso_table ?st)" "iso_free (iso_table ?st ! dir)" using assms(1) dir free by simp_all
    from iso_iget_slot [OF this(1) assms(3) this(2,3)] show thesis by (metis that iput_fields(1,2))
  qed
  have "\<exists>k'<length (iso_table st). k' \<noteq> i \<and> iso_free (iso_table ?st ! k')" using free dir k by (cases "i = dir") auto
  then have o: "other_free i st'" using i(2,6) by (auto simp: other_free_def)
  have keep: "\<forall>j<length (iso_table st). j \<noteq> dir \<longrightarrow> \<not> iso_free (iso_table st ! j) \<longrightarrow> j \<noteq> i \<and> iso_table st' ! j = iso_table st ! j"
  proof (intro allI impI)
    fix j assume j: "j \<noteq> dir" "\<not> iso_free (iso_table st ! j)"
    then have "j \<noteq> i" using i(3) free by blast
    then show "j \<noteq> i \<and> iso_table st' ! j = iso_table st ! j" using i(6) j(1) by (simp add: iput_table [OF dir])
  qed
  have a: "kept_slots dir st st'" using keep i(6) by (simp add: kept_slots_def)
  have b: "iso_table st' ! i = node D (iso_sb st) ino" "i = dir \<or> iso_free (iso_table st ! i)" using i(2,3,6) free by simp_all
  have c: "\<forall>j<length (iso_table st). j \<noteq> i \<longrightarrow> iso_free (iso_table st' ! j) \<longrightarrow> j = dir \<or> iso_free (iso_table st ! j)"
    using i(6) free by simp
  show thesis by (rule that [OF i(1,4,5) b(1) o a b(2) keep c])
qed

lemma lookup_parts_path:
  assumes "iso_ok st" "other_free dir st" "iso_table st ! dir = n" "\<not> iso_free n" "iso_good D (iso_sb st) n cs" "cs \<noteq> []"
  shows "\<exists>res st'. lookup_parts (disk D) cs dir junk st = Some (res, st') \<and> kept_slots dir st st' \<and>
    (case iso_path D (iso_sb st) n cs of None \<Rightarrow> res = None
     | Some m \<Rightarrow> \<exists>fd. res = Some fd \<and> fd < length (iso_table st) \<and> iso_table st' ! fd = m \<and> (fd = dir \<or> iso_free (iso_table st ! fd)))"
  using assms
proof (induction cs arbitrary: dir st n junk)
  case (Cons c cs)
  have dir: "dir < length (iso_table st)" using Cons.prems(2) by (simp add: other_free_def)
  have g: "good_directory D n" using Cons.prems(5) by simp
  obtain st1 res where f: "same_iso st st1" "isofs_find_entry (disk D) dir c junk st = Some res"
      "case entry_in D (iso_sb st) n c of None \<Rightarrow> fst res = -1 \<and> snd (snd (snd res)) = st1 | Some (ino, b) \<Rightarrow> res = (0, ucast ino, ucast b, st1)"
    using find_entry_finds [OF Cons.prems(1) g Cons.prems(3)] by blast
  have s1: "iso_sb st1 = iso_sb st" "iso_table st1 = iso_table st" "iso_ok st1"
    using same_iso_fields [OF f(1)] iso_ok_same [OF Cons.prems(1) f(1)] by simp_all
  have o1: "other_free dir st1" using Cons.prems(2) by (simp add: other_free_def s1)
  have keep: "kept_slots dir st st1" "kept_slots dir st (isofs_iput dir st1)"
    using dir by (simp_all add: kept_slots_def s1 isofs_iput_def upd_slot_def nth_list_update)
  show ?case
  proof (cases "entry_in D (iso_sb st) n c")
    case None
    then obtain a b where r: "res = (-1, a, b, st1)" using f(3) by (cases res) auto
    show ?thesis by (rule exI [of _ None], cases cs) (use f(2) None keep in \<open>simp_all add: r\<close>)
  next
    case (Some e)
    obtain ino b where e: "e = (ino, b)" by fastforce
    have r: "res = (0, ucast ino, ucast b, st1)" using f(3) by (simp add: Some e)
    have no: "number_ok D ino" "iso_good D (iso_sb st) (node D (iso_sb st) ino) cs" using Cons.prems(5) Some e by simp_all
    show ?thesis
    proof (cases cs)
      case Nil
      obtain k where k: "k < length (iso_table st1)" "k \<noteq> dir" "iso_free (iso_table st1 ! k)" using o1 by (auto simp: other_free_def)
      obtain i st2 where i: "isofs_iget (disk D) ino st1 = Some (Some i, st2)" "i < length (iso_table st1)" "iso_free (iso_table st1 ! i)"
          "iso_table st2 = (iso_table st1)[i := node D (iso_sb st1) ino]"
        using iso_iget_slot [OF s1(3) no(1) k(1,3)] by metis
      have "i \<noteq> dir" using i(3) Cons.prems(3,4) s1 by auto
      let ?up = "upd_slot i (\<lambda>n. n\<lparr>i_backlink := b\<rparr>) st2"
      have t: "dir < length (iso_table ?up)" "i < length (iso_table st2)" using dir i(2,4) s1(2) by simp_all
      have "lookup_parts (disk D) [c] dir junk st = Some (Some i, isofs_iput dir ?up)" using f(2) i(1) by (simp add: r)
      moreover have "iso_table (isofs_iput dir ?up) ! i = (node D (iso_sb st) ino)\<lparr>i_backlink := b\<rparr>"
        using \<open>i \<noteq> dir\<close> i(2,4) s1 t(2) by (simp add: iput_table [OF t(1)] upd_slot_nth)
      moreover have "kept_slots dir st (isofs_iput dir ?up)"
        using i(2-4) s1 t(2) by (auto simp: kept_slots_def iput_table [OF t(1)] upd_slot_nth nth_list_update)
      ultimately show ?thesis using i(2,3) s1 Nil Some e by auto
    next
      case cs: (Cons d ds)
      obtain i st2 where i: "isofs_iget (disk D) ino (isofs_iput dir st1) = Some (Some i, st2)" "iso_ok st2" "iso_sb st2 = iso_sb st1"
          "iso_table st2 ! i = node D (iso_sb st1) ino" "other_free i st2" "kept_slots dir st1 st2" "i = dir \<or> iso_free (iso_table st1 ! i)"
          "\<forall>j<length (iso_table st1). j \<noteq> dir \<longrightarrow> \<not> iso_free (iso_table st1 ! j) \<longrightarrow> j \<noteq> i \<and> iso_table st2 ! j = iso_table st1 ! j"
          "\<forall>j<length (iso_table st1). j \<noteq> i \<longrightarrow> iso_free (iso_table st2 ! j) \<longrightarrow> j = dir \<or> iso_free (iso_table st1 ! j)"
        by (rule replace_directory [OF s1(3) o1 no(1)])
      have len: "length (iso_table st2) = length (iso_table st)" using i(6) s1(2) by (simp add: kept_slots_def)
      obtain res' st' where ih: "lookup_parts (disk D) cs i b st2 = Some (res', st')" "kept_slots i st2 st'"
          "case iso_path D (iso_sb st2) (node D (iso_sb st1) ino) cs of None \<Rightarrow> res' = None
           | Some m \<Rightarrow> \<exists>fd. res' = Some fd \<and> fd < length (iso_table st2) \<and> iso_table st' ! fd = m \<and> (fd = i \<or> iso_free (iso_table st2 ! fd))"
        using Cons.IH [OF i(2,5,4), of b] no(2) cs i(3) s1(1) by auto
      have "lookup_parts (disk D) (c # cs) dir junk st = Some (res', st')" using f(2) i(1) ih(1) by (simp add: r cs)
      moreover have "kept_slots dir st st'" using ih(2) i(8) len s1(2) by (simp add: kept_slots_def)
      moreover have "iso_path D (iso_sb st) n (c # cs) = iso_path D (iso_sb st2) (node D (iso_sb st1) ino) cs"
        by (simp add: cs Some e i(3) s1(1))
      moreover have "fd = dir \<or> iso_free (iso_table st ! fd)" if "fd < length (iso_table st)" "fd = i \<or> iso_free (iso_table st2 ! fd)" for fd
        using that i(7,9) s1(2) by metis
      ultimately show ?thesis using ih(3) len by (auto split: option.splits)
    qed
  qed
qed simp


end
