(* ===== verification/Boot_Files.thy ===== *)
theory Boot_Files
  imports Boot_Load Ext2_Names Fat_Examples Iso_Paths
begin

text \<open>
  The file systems keep the contract of the loader, and so a kernel gets from the clusters of a volume to its
  addresses in memory.
\<close>

lemma unat_ucast_size: "unat (ucast w :: u64) = unat w" for w :: u32
  using unsigned_less [of w, where 'a = nat] by (simp add: unsigned_ucast_eq take_bit_nat_eq_self)

subsection \<open>FAT\<close>

interpretation volume: file_reader "msdosfs (disk D)" "\<lambda>s fd. open_file D s (nat fd)" for D
proof
  fix s fd f sz assume o: "open_file D s (nat fd) f sz"
  show "unat (fs_fdsize (msdosfs (disk D)) fd s) = sz"
    using open_file_fdsize [OF o] by (simp add: msdosfs_def unat_ucast_size)
  show "\<exists>b. fs_bread (msdosfs (disk D)) fd n buf s = Some (0, b) \<and> length b = 1024 \<and> (\<forall>i<1024. 1024 * n + i < sz \<longrightarrow> b ! i = f (1024 * n + i))"
    if "1024 * n < sz" "length buf = 1024" for n buf
    using open_file_bread [OF o that(2,1)] by (simp add: msdosfs_def)
qed

subsection \<open>ext2\<close>

definition ext2_file :: "blockdev \<Rightarrow> ext2 \<Rightarrow> int \<Rightarrow> contents \<Rightarrow> nat \<Rightarrow> bool" where
  "ext2_file dev s fd f sz \<longleftrightarrow> Ext2_Blocks.mounted dev s \<and> blocksize s = 1024 \<and> unat (ext2_fdsize (nat fd) s) = sz \<and>
     (\<forall>n. 1024 * n < sz \<longrightarrow> in_reach dev (inode (inode_table s ! nat fd)) s n) \<and>
     (\<forall>i < sz. f i = file_content dev (inode (inode_table s ! nat fd)) s (i div 1024) ! (i mod 1024))"

lemma file_content_length:
  assumes "Ext2_Blocks.mounted dev s" "in_reach dev ip s n"
  shows "length (file_content dev ip s n) = blocksize s"
proof -
  have "file_block dev (blocksize s) ip n \<in> set (map_blocks dev (blocksize s) ip n)" by (simp add: map_blocks_def Let_def)
  then have "unat (file_block dev (blocksize s) ip n) < vol_blocks s" using assms(2) by (auto simp: in_reach_def)
  then show ?thesis using assms(1) by (auto simp: file_content_def Ext2_Blocks.mounted_def reads_ok_def Let_def)
qed

interpretation ext2_volume: file_reader "ext2fs mem dev" "ext2_file dev" for mem dev
proof
  fix s fd f sz assume o: "ext2_file dev s fd f sz"
  show "unat (fs_fdsize (ext2fs mem dev) fd s) = sz" using o by (simp add: ext2fs_def ext2_file_def unat_ucast_size)
  show "\<exists>b. fs_bread (ext2fs mem dev) fd n buf s = Some (0, b) \<and> length b = 1024 \<and> (\<forall>i<1024. 1024 * n + i < sz \<longrightarrow> b ! i = f (1024 * n + i))"
    if n: "1024 * n < sz" and l: "length buf = 1024" for n buf
  proof -
    let ?ip = "inode (inode_table s ! nat fd)"
    have m: "Ext2_Blocks.mounted dev s" "blocksize s = 1024" "in_reach dev ?ip s n" using o n by (auto simp: ext2_file_def)
    obtain s' where "ext2_bread dev (nat fd) n buf s = (file_content dev ?ip s n @ drop (blocksize s) buf, s')"
      using bread_content [OF m(1,3)] by metis
    moreover have "length (file_content dev ?ip s n) = 1024" using file_content_length [OF m(1,3)] m(2) by simp
    moreover have "f (1024 * n + i) = file_content dev ?ip s n ! i" if "1024 * n + i < sz" "i < 1024" for i
      using o that by (simp add: ext2_file_def)
    ultimately show ?thesis using m(2) l by (auto simp: ext2fs_def)
  qed
qed

subsection \<open>ISO 9660\<close>

definition iso_file :: "(nat \<Rightarrow> u8) \<Rightarrow> iso \<Rightarrow> int \<Rightarrow> contents \<Rightarrow> nat \<Rightarrow> bool" where
  "iso_file D s fd f sz \<longleftrightarrow> on_disk (iso_table s ! nat fd) \<and> unat (iso_size (iso_table s ! nat fd)) = sz \<and> f = iso_byte D (iso_table s ! nat fd)"

lemma scast_nonnegative: "unat x < 2 ^ 31 \<Longrightarrow> (scast x :: u64) = ucast x" for x :: u32
proof -
  assume "unat x < 2 ^ 31"
  then have "\<not> bit (unat x) 31" by (simp add: bit_iff_odd)
  then have "\<not> bit x 31" by (simp add: bit_unsigned_iff)
  moreover have "bit x (min 31 n) = bit x n" if "\<not> bit x 31" for n
    using that by (cases "n \<le> 31") (auto simp: min_def dest: bit_imp_le_length)
  ultimately show ?thesis by (intro bit_word_eqI) (simp add: bit_simps)
qed

lemma iso9660_bread_block:
  assumes "on_disk n" "iso_table s ! fd = n" "1024 * k < unat (iso_size n)" "length buf = 1024"
  shows "iso9660_bread (disk D) fd k buf s = (0, map (\<lambda>j. iso_byte D n (1024 * k + j)) [0..<1024])"
proof -
  have d: "0 < first_block n" "1024 * first_block n + unat (iso_size n) + 4096 < 2 ^ 31" using assms(1) by (simp_all add: on_disk_def)
  then have k: "unat (of_nat k :: u32) = k" using assms(3) by (simp add: unat_of_nat)
  have b: "unat (isofs_bmap n (of_nat k)) = first_block n + k" using bmap_unat [of "of_nat k" n] d assms(3) unfolding k by simp
  then have "isofs_bmap n (of_nat k) \<noteq> 0" "i_first_extent n \<noteq> 0" using d(1) by (auto simp: first_block_def)
  then show ?thesis by (simp add: iso9660_bread_def assms(2) block_read [OF b assms(4)] Let_def)
qed

interpretation iso_volume: file_reader "iso9660fs data big junk (disk D)" "iso_file D" for data big junk D
proof
  fix s fd f sz assume o: "iso_file D s fd f sz"
  let ?n = "iso_table s ! nat fd"
  have d: "on_disk ?n" "unat (iso_size ?n) = sz" "f = iso_byte D ?n" using o by (simp_all add: iso_file_def)
  show "unat (fs_fdsize (iso9660fs data big junk (disk D)) fd s) = sz"
    using scast_nonnegative [of "iso_size ?n"] d by (simp add: iso9660fs_def iso9660_fdsize_def on_disk_def unat_ucast_size)
  show "\<exists>b. fs_bread (iso9660fs data big junk (disk D)) fd n buf s = Some (0, b) \<and> length b = 1024 \<and> (\<forall>i<1024. 1024 * n + i < sz \<longrightarrow> b ! i = f (1024 * n + i))"
    if "1024 * n < sz" "length buf = 1024" for n buf
    using iso9660_bread_block [OF d(1) refl _ that(2), of n D] that(1) by (simp add: iso9660fs_def d(2,3))
qed

subsection \<open>From the volume to memory\<close>



end
