(* ===== verification/Boot_Example.thy ===== *)
theory Boot_Example
  imports Boot_Files Page_Tables
begin

text \<open>A volume with a compressed kernel, on which the theorems on loading are applied.\<close>

subsection \<open>A file as one stored block\<close>

lemma bytes_at_nth: "bytes_at f p xs \<longleftrightarrow> (\<forall>i<length xs. f (p + i) = xs ! i)"
  by (induction xs arbitrary: p) (auto simp: less_Suc_eq_0_disj nth_Cons split: nat.split)

definition stored_file :: "u8 list \<Rightarrow> u8 list \<Rightarrow> u8 list" where
  "stored_file xs crc = [31, 139, 8, 0, 0, 0, 0, 0, 0, 0] @ [1] @ Gzip_File.le16 (length xs) @ Gzip_File.le16 (65535 - length xs) @
     xs @ crc @ Gzip_File.le32 (length xs)"

lemma fnum_two_bytes: "fnum f (8 * p) 16 = unat (f p) + 256 * unat (f (Suc p))"
  using fnum_add [of f "8 * p" 8 8] fnum_byte [of f p] fnum_byte [of f "Suc p"] by (simp add: algebra_simps)

lemma bytes_hold: "bytes_at f p xs \<Longrightarrow> Tokens.holds f (8 * p) (bytes_fields xs)"
proof (induction xs arbitrary: p)
  case (Cons x xs)
  then show ?case using Cons.IH [of "Suc p"] fnum_byte [of f p] by (simp add: bytes_fields_def algebra_simps)
qed (simp add: bytes_fields_def)

lemma two_bytes: "n < 65536 \<Longrightarrow> bytes_at f p (Gzip_File.le16 n) \<Longrightarrow> fnum f (8 * p) 16 = n"
  by (simp add: fnum_two_bytes Gzip_File.le16_def unat_of_nat)

lemma stored_gzip:
  assumes "bytes_at f 0 (stored_file xs crc)" "length xs < 65536" "length crc = 4"
  shows "gzip_file f no_fields [Stored xs] crc"
proof -
  let ?n = "length xs"
  have hd: "head_bytes no_fields = [31, 139, 8, 0, 0, 0, 0, 0, 0, 0]"
    by (simp add: head_bytes_def no_fields_def GZIP_MAGIC_def eval_nat_numeral)
  then have lh: "length (head_bytes no_fields) = 10" by simp
  have b: "bytes_at f 0 (head_bytes no_fields)" "f 10 = 1" "bytes_at f 11 (Gzip_File.le16 ?n)" "bytes_at f 13 (Gzip_File.le16 (65535 - ?n))"
      "bytes_at f 15 xs" "bytes_at f (15 + ?n) (crc @ Gzip_File.le32 ?n)"
    using assms(1,3) unfolding stored_file_def hd [symmetric] by (simp_all add: lh add.commute)
  have "fnum f 80 8 = 1" using fnum_byte [of f 10] b(2) by simp
  then have m: "1 mod 2 ^ 1 = fnum f 80 1" "1 div 2 ^ 1 mod 2 ^ 2 = fnum f (80 + 1) 2"
    using fnum_mod [of 1 8 f 80] fnum_part [of 1 2 8 f 80] by (simp_all only:)
  have "fnum f 80 1 = 1" "fnum f 81 2 = 0" unfolding m(1) [symmetric] using m(2) by simp_all
  moreover have "fnum f 88 16 = ?n" using two_bytes [OF assms(2) b(3)] by simp
  moreover have "fnum f 104 16 = 65535 - ?n" using two_bytes [OF _ b(4)] by simp
  moreover have "Tokens.holds f 120 (bytes_fields xs)" using bytes_hold [OF b(5)] by simp
  ultimately have "block_holds f 80 True (Stored xs)"
    by (simp add: block_holds_def byte_up_def stored_fields_def)
  moreover have "byte_up (block_end (Stored xs) 80) div 8 = 15 + ?n"
    by (simp add: block_end_def byte_up_def stored_fields_def bytes_fields_def width_def o_def sum_list_triv)
  moreover have "head_ok no_fields" by (simp add: head_ok_def no_fields_def)
  ultimately show ?thesis using b(1,6) assms(2,3) by (simp add: gzip_file_def lh)
qed

subsection \<open>An executable\<close>

text \<open>The headers of \<open>elf.h\<close> for 64 bits, with the number of the Alpha.\<close>

definition elf64 :: elf_lib where
  "elf64 = \<lparr>e_ident = (\<lambda>b h i. b (h + of_nat i)), e_type = (\<lambda>b h. ucast (load_bytes 2 (h + 16) b)),
     e_machine = (\<lambda>b h. ucast (load_bytes 2 (h + 18) b)), e_phnum = (\<lambda>b h. ucast (load_bytes 2 (h + 56) b)),
     e_phoff = (\<lambda>b h. load_bytes 8 (h + 32) b), e_entry = (\<lambda>b h. load_bytes 8 (h + 24) b),
     p_vaddr = (\<lambda>b p. load_bytes 8 (p + 16) b), p_offset = (\<lambda>b p. load_bytes 8 (p + 8) b),
     p_filesz = (\<lambda>b p. load_bytes 8 (p + 32) b), p_memsz = (\<lambda>b p. load_bytes 8 (p + 40) b),
     sizeof_phdr = 56, ET_EXEC = 2, elf_check_arch = (\<lambda>m. m = 0x9026)\<rparr>"

text \<open>1000 bytes at 0x310000, which is the entry point as well.\<close>

definition image_head :: "u8 list" where
  "image_head = [0x7f, 0x45, 0x4c, 0x46] @ replicate 12 0 @ [2, 0, 0x26, 0x90, 0, 0, 0, 0] @
     [0, 0, 0x31, 0, 0, 0, 0, 0] @ [64, 0, 0, 0, 0, 0, 0, 0] @ replicate 16 0 @ [1, 0, 0, 0, 0, 0, 0, 0] @
     replicate 8 0 @ [120, 0, 0, 0, 0, 0, 0, 0] @ [0, 0, 0x31, 0, 0, 0, 0, 0] @ replicate 8 0 @
     [0xe8, 3, 0, 0, 0, 0, 0, 0] @ [0xe8, 3, 0, 0, 0, 0, 0, 0] @ replicate 8 0"

definition kernel_image :: "u8 list" where "kernel_image = image_head @ replicate 1000 0x77"

lemma image_lengths: "length image_head = 120" "length kernel_image = 1120"
  by (simp_all add: kernel_image_def image_head_def)

lemma image_nth: "i < 120 \<Longrightarrow> kernel_image ! i = image_head ! i" "120 \<le> i \<Longrightarrow> i < 1120 \<Longrightarrow> kernel_image ! i = 0x77"
  by (simp_all add: kernel_image_def nth_append image_lengths)

lemma image_at:
  fixes d :: u64
  assumes "i < 120"
  shows "overlay d kernel_image m (d + of_nat i) = image_head ! i"
  using assms by (simp add: overlay_def image_lengths image_nth unat_of_nat)

fun le_number :: "u8 list \<Rightarrow> u64" where
  "le_number [] = 0"
| "le_number (x # xs) = ucast x OR push_bit 8 (le_number xs)"

lemma image_field: "k + n \<le> 120 \<Longrightarrow> load_bytes n (d + of_nat k) (overlay d kernel_image m) = le_number (take n (drop k image_head))"
proof (induction n arbitrary: k)
  case (Suc n)
  have "drop k image_head = image_head ! k # drop (Suc k) image_head"
    by (rule Cons_nth_drop_Suc [symmetric]) (use Suc.prems in \<open>simp add: image_lengths\<close>)
  then show ?case using Suc.IH [of "Suc k"] Suc.prems image_at [of k d m] by (simp add: ac_simps)
qed simp

lemmas image_fields = image_field [of 16 2] image_field [of 18 2] image_field [of 56 2] image_field [of 32 8] image_field [of 24 8]
  image_field [of "64 + 16" 8] image_field [of "64 + 8" 8] image_field [of "64 + 32" 8]

lemma image_numbers:
  "le_number (take 2 (drop 16 image_head)) = 2" "le_number (take 2 (drop 18 image_head)) = 0x9026"
  "le_number (take 2 (drop 56 image_head)) = 1" "le_number (take 8 (drop 32 image_head)) = 64"
  "le_number (take 8 (drop 24 image_head)) = 0x310000" "le_number (take 8 (drop 80 image_head)) = 0x310000"
  "le_number (take 8 (drop 72 image_head)) = 120" "le_number (take 8 (drop 96 image_head)) = 1000"
  by code_simp+

lemma image_magic:
  "overlay d kernel_image m d = 0x7f" "overlay d kernel_image m (d + 1) = 0x45" "overlay d kernel_image m (d + 2) = 0x4c"
  "overlay d kernel_image m (d + 3) = 0x46"
proof -
  have "image_head ! 0 = 0x7f" "image_head ! 1 = 0x45" "image_head ! 2 = 0x4c" "image_head ! 3 = 0x46" by code_simp+
  then show "overlay d kernel_image m d = 0x7f" "overlay d kernel_image m (d + 1) = 0x45" "overlay d kernel_image m (d + 2) = 0x4c"
      "overlay d kernel_image m (d + 3) = 0x46"
    using image_at [of 0 d m] image_at [of 1 d m] image_at [of 2 d m] image_at [of 3 d m] by simp_all
qed

lemma image_segment: "segment elf64 (overlay d kernel_image m) d 0x310000 0x310000 120 1000"
  using image_fields [of d m] by (simp add: segment_def elf_ok_def elf64_def image_magic image_numbers IOBUF_SIZE_def add.assoc)

subsection \<open>A volume\<close>

text \<open>The boot sector of the small volume, a table in which the file has the clusters 2, 3 and 4, a root directory, the file.\<close>

definition kernel_entry_bytes :: "u8 list" where
  "kernel_entry_bytes = 0x56 # replicate 10 0x20 @ replicate 15 0 @ [2, 0, 0x77, 4, 0, 0]"

definition boot_disk :: "nat \<Rightarrow> u8" where
  "boot_disk n = (if n < 512 then byte_at small_boot n
     else if n < 1024 then byte_at (pack12 [0xff0, 0xfff, 3, 4, 0xfff]) (n - 512)
     else if n < 1536 then byte_at kernel_entry_bytes (n - 1024)
     else byte_at (stored_file kernel_image [0, 0, 0, 0]) (n - 1536))"

definition file_v :: msdos_dir_entry where
  "file_v = \<lparr>d_name = 0x56 # replicate 10 0x20, d_attr = 0, d_start = 2, d_size = 0x477\<rparr>"

lemma file_length: "length (stored_file kernel_image [0, 0, 0, 0]) = 0x477"
  by (simp add: stored_file_def image_lengths)

lemma boot_table:
  fixes st :: msdos
  assumes "msb st = boot_sb"
  shows "\<exists>st'. translate_fat (disk boot_disk) st = (0, st') \<and> take 5 (fat st') = [0xff0, 0xfff, 3, 4, 0xfff] \<and> length (fat st') = 341 \<and>
    msb st' = boot_sb \<and> f_table st' = f_table st"
proof -
  let ?buf = "map (\<lambda>i. boot_disk (512 + i)) [0..<512]"
  have p: "pack12 [0xff0, 0xfff, 3, 4, 0xfff] = [0xf0, 0xff, 0xff, 3, 0x40, 0, 0xff, 0xf]" by code_simp
  then have b: "byte_at ?buf i = byte_at [0xf0, 0xff, 0xff, 3, 0x40, 0, 0xff, 0xf] i" if "i < 512" for i
    using that by (simp add: byte_at_def boot_disk_def p del: pack12.simps)
  have r: "map (read_fat 12 ?buf) [0, 1, 2, 3, 4] = [0xff0, 0xfff, 3, 4, 0xfff]"
    by (simp add: read_fat_def Device.le16_def b Let_def) (simp add: byte_at_def)
  have u: "take 5 [0..<341] = [0, 1, 2, 3, 4 :: nat]" by (simp add: upt_rec)
  have t: "translate_fat (disk boot_disk) st = (0, st\<lparr>fat := map (read_fat 12 ?buf) [0..<341]\<rparr>)"
    by (simp add: translate_fat_def assms boot_sb_def Let_def)
  show ?thesis unfolding t using r by (simp add: take_map u assms)
qed

lemma boot_mount:
  "\<exists>st. msdos_mount (disk boot_disk) small_vol = (0, st) \<and> take 5 (fat st) = [0xff0, 0xfff, 3, 4, 0xfff] \<and> length (fat st) = 341 \<and>
     msb st = boot_sb \<and> f_table st = f_table small_vol"
proof -
  let ?st = "small_vol\<lparr>f_table := map (\<lambda>n. n\<lparr>f_free := True\<rparr>) (f_table small_vol)\<rparr>"
  have l: "length small_boot = 36" by (simp add: small_boot_def)
  have "map (\<lambda>i. boot_disk (unat (0 :: u64) + i)) [0..<sizeof_boot_sector] = small_boot"
    by (rule nth_equalityI) (simp_all add: sizeof_boot_sector_def boot_disk_def byte_at_def l)
  then have "device_read (disk boot_disk) [] sizeof_boot_sector 0 = (sizeof_boot_sector, small_boot)" unfolding device_read_disk by simp
  then have "msdos_read_super (disk boot_disk) ?st = translate_fat (disk boot_disk) (?st\<lparr>msb := boot_sb\<rparr>)"
    by (rule small_boot_super) (simp add: small_vol_def)
  moreover have "f_table ?st = f_table small_vol" by (simp add: small_vol_def)
  ultimately show ?thesis using boot_table [of "?st\<lparr>msb := boot_sb\<rparr>"] by (auto simp: msdos_mount_def)
qed

lemma boot_root: "lookup (root_bytes boot_disk boot_sb) [0x76] = Some file_v"
proof (rule lookup_first)
  have n: "unat (sb_dir_start boot_sb) * 512 = 1024" "unat (sb_dir_entries boot_sb) * 32 = 512" by (simp_all add: boot_sb_def)
  show "32 \<le> length (root_bytes boot_disk boot_sb)" by (simp add: root_bytes_def n)
  have "length kernel_entry_bytes = 32" by (simp add: kernel_entry_bytes_def)
  then have "map (\<lambda>i. boot_disk (1024 + i)) [0..<32] = kernel_entry_bytes"
    by (intro nth_equalityI) (simp_all add: boot_disk_def byte_at_def)
  moreover have "dir_entry kernel_entry_bytes 0 = file_v" by code_simp
  ultimately show "dir_entry (root_bytes boot_disk boot_sb) 0 = file_v"
    unfolding root_bytes_def n using dir_entry_map [of 512 "\<lambda>i. boot_disk (1024 + i)"] by simp
  show "valid_entry file_v" by code_simp
  show "convert_name (d_name file_v) = [0x76]" by code_simp
qed

lemma boot_chain:
  assumes "i < 0x477"
  shows "chain_byte boot_disk boot_sb [2, 3, 4] i = stored_file kernel_image [0, 0, 0, 0] ! i"
proof -
  have "k = 0 \<or> k = 1 \<or> k = 2" if "k < 3" for k :: nat using that by linarith
  then have q: "unat ([2, 3, 4 :: u16] ! k) - 2 = k" if "k < 3" for k using that by fastforce
  have "i div 512 < 3" using assms by simp
  then have "chain_byte boot_disk boot_sb [2, 3, 4] i = boot_disk (512 * (i div 512 + 3) + i mod 512)"
    using q [of "i div 512"] by (simp add: chain_byte_def boot_sb_def Let_def)
  moreover have "512 * (d + 3) + r = 1536 + (512 * d + r)" for d r :: nat by simp
  ultimately have "chain_byte boot_disk boot_sb [2, 3, 4] i = boot_disk (1536 + i)" by (simp only: mult_div_mod_eq)
  then show ?thesis using assms by (simp add: boot_disk_def byte_at_def file_length)
qed

lemma boot_gzip: "gzip_in (chain_byte boot_disk boot_sb [2, 3, 4]) 0x477 no_fields [Stored kernel_image] [0, 0, 0, 0]"
  unfolding gzip_in_def
proof (intro allI impI)
  fix g assume "\<forall>i < 0x477. g i = chain_byte boot_disk boot_sb [2, 3, 4] i"
  then have "bytes_at g 0 (stored_file kernel_image [0, 0, 0, 0])" by (simp add: bytes_at_nth file_length boot_chain)
  then show "gzip_file g no_fields [Stored kernel_image] [0, 0, 0, 0]" by (rule stored_gzip) (simp_all add: image_lengths)
qed

text \<open>The file is there once the volume is mounted.\<close>

lemma boot_file:
  obtains st where "msdos_mount (disk boot_disk) small_vol = (0, st)" "small_volume st" "root_ok (msb st)" "two_free st"
    "leads boot_disk st (root_bytes boot_disk (msb st)) (components [] [0x2f, 0x76]) file_v" "file_chain st file_v [2, 3, 4]" "msb st = boot_sb"
proof -
  obtain st where st: "msdos_mount (disk boot_disk) small_vol = (0, st)" "take 5 (fat st) = [0xff0, 0xfff, 3, 4, 0xfff]"
      "length (fat st) = 341" "msb st = boot_sb" "f_table st = f_table small_vol"
    using boot_mount by blast
  have t: "fat st ! i = [0xff0, 0xfff, 3, 4, 0xfff] ! i" if "i < 5" for i using that st(2) by (metis nth_take)
  have "components [] [0x2f, 0x76] = [[0x76]]" by code_simp
  then have "leads boot_disk st (root_bytes boot_disk (msb st)) (components [] [0x2f, 0x76]) file_v"
    unfolding st(4) using last_component [OF boot_root, of boot_disk st] by (simp add: file_v_def)
  moreover have "file_chain st file_v [2, 3, 4]"
    using t [of 2] t [of 3] t [of 4] by (simp add: file_chain_def st in_fs_def end_mark_def boot_sb_def file_v_def)
  moreover have "small_volume st" "root_ok (msb st)" "two_free st"
    using small_ok(3) by (simp_all add: small_volume_def root_ok_def two_free_def st boot_sb_def)
  ultimately show thesis using that st(1,4) by blast
qed


definition all_free :: page_map where "all_free = \<lparr>milo_memory_map = (\<lambda>_. FREE_PAGE), lastpfn = 0x2000\<rparr>"


end
