(* ===== verification/Iso_Example.thy ===== *)
theory Iso_Example
  imports Iso_Paths
begin

unbundle bit_operations_syntax

text \<open>A volume whose root directory has a file \<open>A\<close>, which is opened by its name in lower case.\<close>

text \<open>A directory record: place and size of the file, flags, a name of one byte.\<close>

definition short_record :: "u8 \<Rightarrow> u8 \<Rightarrow> u8 \<Rightarrow> u8 \<Rightarrow> u8 list" where
  "short_record extent kbytes flags name =
     [34, 0, extent, 0, 0, 0, 0, 0, 0, extent, 0, kbytes, 0, 0, 0, 0, kbytes, 0,
      0, 0, 0, 0, 0, 0, 0, flags, 0, 0, 1, 0, 0, 1, 1, name]"

definition root_records :: "u8 list" where
  "root_records = short_record 1 8 2 0 @ short_record 1 8 2 1 @ short_record 2 4 0 0x41"

definition iso_disk :: "nat \<Rightarrow> u8" where
  "iso_disk n = (if n < 2048 then 0 else byte_at root_records (n - 2048))"

definition iso_super :: isofs_super_block where
  "iso_super = \<lparr>s_nzones = 3, s_firstdatazone = 2048, s_log_zone_size = 11, s_max_size = 3, s_high_sierra = False, s_mapping = 0x6e,
     s_conversion = 0x62, s_rock = True, s_cruft = 0x6e, s_unhide = 0x6e, s_mode = 0x124\<rparr>"

definition iso_mounted :: iso where
  "iso_mounted = \<lparr>iso_sb = iso_super, iso_table = replicate 5 blank_inode, root_inode = 2048,
     data_block = replicate 1024 0, big_data_block = replicate 2048 0\<rparr>"

definition iso_root :: iso_inode where
  "iso_root = \<lparr>i_first_extent = 2048, i_backlink = 0xffffffff, i_file_format = 2, iso_inumber = 2048, iso_free = False,
     iso_size = 2048, iso_nlink = 1, iso_mode = 0x416d\<rparr>"

definition iso_node_a :: iso_inode where
  "iso_node_a = \<lparr>i_first_extent = 4096, i_backlink = 0xffffffff, i_file_format = 2, iso_inumber = 2116, iso_free = False,
     iso_size = 1024, iso_nlink = 1, iso_mode = 0x816d\<rparr>"

lemma records_lengths: "length (short_record a b c d) = 34" "length root_records = 102"
  by (simp_all add: short_record_def root_records_def)

lemma root_bytes_at:
  assumes "m < 34"
  shows "iso_disk (2048 + m) = short_record 1 8 2 0 ! m" "iso_disk (2082 + m) = short_record 1 8 2 1 ! m"
    "iso_disk (2116 + m) = short_record 2 4 0 0x41 ! m"
  using assms by (simp_all add: iso_disk_def byte_at_def root_records_def nth_append records_lengths)

lemma root_bytes_end: "2150 \<le> n \<Longrightarrow> iso_disk n = 0"
proof -
  assume "2150 \<le> n"
  then have "\<not> n - 2048 < 102" by linarith
  then show ?thesis by (simp only: iso_disk_def byte_at_def records_lengths if_False if_cancel)
qed

lemma short_length: "short_record a b c d ! 0 = 34"
  by (simp add: short_record_def)

lemma record_lists:
  "map (\<lambda>j. iso_disk (2048 + j)) [0..<34] = short_record 1 8 2 0"
  "map (\<lambda>j. iso_disk (2082 + j)) [0..<34] = short_record 1 8 2 1"
  "map (\<lambda>j. iso_disk (2116 + j)) [0..<34] = short_record 2 4 0 0x41"
  by (rule nth_equalityI; simp add: records_lengths root_bytes_at)+

lemma disk_lengths: "iso_disk 2048 = 34" "iso_disk 2082 = 34" "iso_disk 2116 = 34"
  using root_bytes_at [of 0] by (simp_all add: short_length)

lemma numbers:
  "iso_record iso_disk 2048 = short_record 1 8 2 0" "iso_record iso_disk 2116 = short_record 2 4 0 0x41"
  using record_lists disk_lengths by (simp_all add: iso_record_def)

lemma nodes: "node iso_disk iso_super 2048 = iso_root" "node iso_disk iso_super 2116 = iso_node_a"
proof -
  have "snd (fill_inode (short_record 1 8 2 0) 2048 iso_super blank_inode) = iso_root"
    "snd (fill_inode (short_record 2 4 0 0x41) 2116 iso_super blank_inode) = iso_node_a" by code_simp+
  then show "node iso_disk iso_super 2048 = iso_root" "node iso_disk iso_super 2116 = iso_node_a"
    by (simp_all add: node_def numbers)
qed

lemma numbers_fine: "number_ok iso_disk 2048" "number_ok iso_disk 2116"
proof -
  have "rec_len (short_record a b c d) = 34" for a b c d by (simp add: rec_len_def r_name_len_def byte_at_def short_record_def)
  moreover have "unat (r_size (short_record 1 8 2 0)) = 2048" "unat (r_size (short_record 2 4 0 0x41)) = 1024"
    by (simp_all add: r_size_def isonum_733_def isonum_731_def byte_at_def short_record_def)
  ultimately show "number_ok iso_disk 2048" "number_ok iso_disk 2116" by (simp_all add: number_ok_def numbers disk_lengths)
qed

lemma root_byte: "iso_byte iso_disk iso_root p = iso_disk (2048 + p)"
  by (simp add: iso_byte_def first_block_def iso_root_def)

lemma root_directory: "directory_of iso_disk iso_root = [0, 34, 68]"
proof -
  have s: "unat (iso_size iso_root) = 2048" by (simp add: iso_root_def)
  have "dir_records (iso_byte iso_disk iso_root) 2048 2048 = []" by (subst dir_records.simps) simp
  then have "dir_records (iso_byte iso_disk iso_root) 2048 102 = []" by (subst dir_records.simps) (simp add: root_byte root_bytes_end)
  then have "dir_records (iso_byte iso_disk iso_root) 2048 68 = [68]" by (subst dir_records.simps) (simp add: root_byte disk_lengths)
  then have "dir_records (iso_byte iso_disk iso_root) 2048 34 = [34, 68]" by (subst dir_records.simps) (simp add: root_byte disk_lengths)
  then show ?thesis unfolding directory_of_def s by (subst dir_records.simps) (simp add: root_byte disk_lengths)
qed

lemma root_records_at:
  "record_at iso_disk iso_root 0 = short_record 1 8 2 0" "record_at iso_disk iso_root 34 = short_record 1 8 2 1"
  "record_at iso_disk iso_root 68 = short_record 2 4 0 0x41"
  using record_lists by (simp_all add: record_at_def root_byte disk_lengths add.assoc [symmetric])

lemma root_entry: "entry_in iso_disk iso_super iso_root [0x61] = Some (2116, 2048)"
proof -
  have m: "isofs_match [0x61] (fst (entry_name iso_super (Some 1) (short_record 1 8 2 0))) = False"
    "isofs_match [0x61] (fst (entry_name iso_super (Some 1) (short_record 1 8 2 1))) = False"
    "isofs_match [0x61] (fst (entry_name iso_super (Some 1) (short_record 2 4 0 0x41))) = True"
    "shown iso_super (short_record 2 4 0 0x41) = True"
    "entry_number iso_root iso_super (short_record 2 4 0 0x41) 2116 = (2116, 2048)"
    by code_simp+
  have "first_block iso_root = 2" by (simp add: first_block_def iso_root_def)
  then have "number_at iso_disk iso_root iso_super 68 = (2116, 2048)" using m(5) by (simp add: number_at_def root_records_at)
  then show ?thesis using m by (simp add: entry_in_def root_directory answers_def root_records_at)
qed

lemma root_good: "good_directory iso_disk iso_root"
proof -
  have "rec_len (short_record a b c d) = 34" for a b c d by (simp add: rec_len_def r_name_len_def byte_at_def short_record_def)
  then show ?thesis
    by (simp add: good_directory_def root_directory record_fits_def root_records_at root_byte disk_lengths)
      (simp add: on_disk_def first_block_def iso_root_def)
qed


end
