(* ===== verification/Spec2Isabelle.thy ===== *)
theory Spec2Isabelle
  imports Allocations X86_Alu_Theorems X86_Machine Env_Spec Ext2_Names Zip_Theorems Fat_Examples Boot_Names Boot_Example
    Iso_Example
begin

text \<open>
  MILO, the Alpha miniloader: a model of its core and the theorems that make it correct.

  The program starts on the bare machine, sets up memory, runs the BIOS of the video card in an
  emulator of the x86 processor, reads a kernel from a file system and starts it. The theories
  follow the source files under \<open>src/\<close>:

  \<^item> \<open>Prelude\<close>: the C integer types as words and lemmas on words and lists.
  \<^item> \<open>PageMap\<close>, \<open>Memory\<close>: \<open>memory.c\<close>. The page map is a function from frame numbers to marks; the
    heap is a pointer into frames it owns, a free list of headers and the bytes. \<open>PageMap\<close> shows
    that an allocation ends and hands out free frames only, \<open>Memory\<close> that a fresh block lies in the heap's
    frames. \<open>Allocations\<close> has runs of allocations and releases as an inductive relation with an invariant (the
    heap's frames, the blocks in use and the list of free ones): blocks in use never overlap, also when they are
    reused, and the areas reserved at start-up are never handed out. Requests that fill whole pages exactly are
    not in the runs: for them the code goes wrong, see \<open>kmalloc_exact_pages\<close>.
  \<^item> \<open>X86_Regs\<close>, \<open>X86_Carry\<close>, \<open>X86_Alu\<close>: the register file and the primitive operations of
    \<open>video/x86/x86_prim_ops.c\<close>. Their specifications by exact integers are in \<open>X86_Alu_Spec\<close>,
    \<open>X86_Shift_Spec\<close>, \<open>X86_Alu_Props\<close> and \<open>X86_Div_Spec\<close>, and \<open>X86_Alu_Theorems\<close> sums them up.
  \<^item> \<open>X86_Mem\<close>, \<open>X86_Mem_Spec\<close>: memory, ports and stack of the emulated machine, from
    \<open>video/freebiosvga.c\<close>, with the laws of stored cells as a locale.
  \<^item> \<open>X86_Decode\<close>, \<open>X86_Decode_Spec\<close>: instruction decoding, effective addresses, segments,
    interrupts and string I/O, \<open>video/x86/x86_decode.c\<close> and the end of \<open>x86_prim_ops.c\<close>.
  \<^item> \<open>X86_Operands\<close>, \<open>X86_Ops_Low\<close>, \<open>X86_Ops_High\<close>: the 245 handlers of \<open>video/x86/x86_ops.c\<close>, in the
    order of the file. \<open>X86_Operands\<close> has the operand widths and the families of handlers that
    differ in width and primitive operation only; the other two instantiate them, and write out the
    handlers that are not of a family.
  \<^item> \<open>X86_Bios\<close>: the emulated BIOS, \<open>video/x86/x86_bios.c\<close>. \<open>X86_Exec\<close>: the operation table, the
    coprocessor's opcodes (\<open>video/x86/x86_fpu.c\<close>) and the main loop \<open>x86_exec\<close>.
  \<^item> \<open>X86_Width\<close>: the contract of an operand width as a locale, interpreted for bytes, words and
    longs. \<open>X86_Strings\<close>: what the repeated string instructions do. \<open>X86_Ops_Spec\<close>: that every
    instruction returns, and the conditional jumps. \<open>X86_Stack\<close>: the stack as a list of words (a
    locale, interpreted on \<open>push_word\<close> and \<open>pop_word\<close>), on which \<open>X86_Control\<close> rests: calls, interrupts,
    PUSHA and POPA with their returns.
  \<^item> \<open>X86_Frame\<close>: a locale for a preorder that the registers, the bus and \<open>mem_write\<close> keep, which
    then every handler keeps. \<open>X86_Machine\<close>: the main loop as the closure of a step relation, the
    confinement of emulated programs as an interpretation of that locale, and the interrupt table.
  \<^item> \<open>Env\<close>, \<open>Env_Spec\<close>: the environment variables of \<open>env.c\<close> and their laws as a store of names
    and values.
  \<^item> \<open>Device\<close>: what the file systems share: \<open>device_read\<close> and \<open>block_read\<close> of \<open>devices.c\<close>, over the kernel's
    \<open>bread\<close>, which is a parameter; numbers of several bytes, the components of a path. Requests that stay in a
    block, or start with one, get the bytes of the disk, others do not (\<open>block_read_crosses\<close>).
  \<^item> \<open>Ext2\<close>: the ext2 file system, \<open>fs/ext2.c\<close>, on volumes with blocks of at most 4096 bytes, the size of its
    buffers. \<open>Ext2_Blocks\<close> shows that a file reads as the inode and
    the indirect blocks on the disk describe, \<open>Ext2_Slots\<close> that open inodes do not share a slot of
    the inode table, \<open>Ext2_Names\<close> that a path leads where the directories say. The theorems hold throughout a
    \<open>session\<close>: a volume is mounted, and files are opened, read and closed in any order.
  \<^item> \<open>Fat\<close>: the FAT file system, \<open>fs/dos.c\<close>, with its 16-bit block numbers. \<open>Fat_Files\<close>: a file as a chain of
    clusters, the loop that collects it, and reading. \<open>Fat_Table\<close>: the table as it is packed on the disk.
    \<open>Fat_Names\<close>, \<open>Fat_Paths\<close>: directories as bytes, and opening by path. \<open>Fat_Mount\<close>: what mounting checks.
    \<open>Fat_Examples\<close>: a small volume on which the theorems are applied.
  \<^item> \<open>Iso9660\<close>: the ISO 9660 file system, \<open>fs/isofs.c\<close>, with its two buffers. \<open>Iso_Names\<close>: a record's name, and
    that it depends on the record only. \<open>Iso_Dirs\<close>: the scan of a directory, with records in two blocks.
    \<open>Iso_Search\<close>: the search is the search in the list of records. \<open>Iso_Paths\<close>: opening by path, and the slots.
    \<open>Iso_Example\<close>: a volume with one file.
  \<^item> \<open>Huft\<close>, \<open>Inflate\<close>, \<open>Unzip\<close>: decompression of the kernel, \<open>zip/inflate.c\<close>, \<open>zip/unzip.c\<close> and
    \<open>zip/misc.c\<close>. The Huffman tables are lists in a heap, the file is a function from block numbers to
    the contents of the input buffer.
  \<^item> \<open>Bit_Reversal\<close>, \<open>Huft_Tables\<close>, \<open>Huft_Steps\<close>, \<open>Huft_Codes\<close>, \<open>Canonical\<close>, \<open>Huft_Build\<close>: that
    \<open>huft_build\<close> makes tables of the canonical code. A locale states what the main loop needs of its
    lengths, counts and values; the loop invariant says which codes the tables decode so far.
    \<open>Huft_Free\<close> shows that freeing gives back what was taken, \<open>Huft_Theorems\<close> sums up and interprets
    the locale on the two fixed codes.
  \<^item> \<open>Bit_Stream\<close>, \<open>Window\<close>: the bit buffer as a position in the file, the window as the end of a list of
    bytes put out. \<open>Inflate_Codes\<close>, \<open>Tokens\<close>, \<open>Inflate_Blocks\<close>, \<open>Inflate_Dynamic\<close>, \<open>Inflate_File\<close>: the
    decoder refines the expansion of literals and matches, block by block. \<open>Gzip_File\<close>: heads and
    trailers. \<open>Zip_Bounds\<close>: nothing is written after the window, for any input. \<open>Zip_Theorems\<close> has the
    theorems on \<open>uncompress_kernel\<close>.

  \<^item> \<open>Page_Tables\<close>: the page tables of \<open>boot.c\<close>, in the frames of \<open>memory.c\<close>: adding a page maps that page and no other.
  \<^item> \<open>Boot_Image\<close>: the rest of \<open>boot.c\<close>: loading the kernel and the ramdisk through \<open>struct bootfs\<close>, names of
    devices. \<open>Boot_Load\<close>: the contract of a file system as a locale, \<open>file_reader\<close>, under which the loader is
    correct; \<open>Boot_Files\<close> interprets it on FAT, ext2 and ISO 9660 and has the theorems from the volume to memory;
    \<open>Boot_Example\<close>: a volume with an executable. \<open>Boot_Names\<close>: that names of devices are read back.

  Loops that end by their structure are \<open>fun\<close>s; those whose end depends on data are
  \<open>partial_function (option)\<close>, with \<open>None\<close> for a loop that goes on for ever, so that a theorem with
  \<open>Some\<close> says that the loop ends. No fuel is used.

  Not modelled: messages and tracing, hardware access (the adapter bus is a parameter of the
  emulator, the kernel's buffers and drivers are one of the devices), the file-system switch, the PALcode, assembly, and the build-time
  tools.
\<close>

end
